(* ===== verification/Mb_Prelude.thy ===== *)
theory Mb_Prelude
  imports Main "HOL-Library.Word" "HOL-Library.Multiset"
begin

text \<open>
  Shared vocabulary of the development: results of fallible Rust code, little-endian byte
  codecs, byte-range reads and overwrites, and the ordered map that stands for Rust's
  \<open>BTreeMap\<close>.

  Integers of the source are natural numbers here; the width of each is part of a type
  invariant of the record that holds it, and every place where the source relies on it
  (\<open>checked_add\<close>, \<open>saturating_add\<close>, \<open>as u32\<close>, a shift) has it
  written out. Bytes are 8-bit words.
\<close>

section \<open>Types and collections of facts\<close>

type_synonym byte = "8 word"
type_synonym u8 = nat
type_synonym u16 = nat
type_synonym u32 = nat
type_synonym u64 = nat

text \<open>\<open>codec_simps\<close>: lengths and slices of byte encodings.
  \<open>res_simps\<close>: inversion of fallible computations.\<close>

named_theorems codec_simps
named_theorems res_simps

text \<open>\<open>std::cmp::Ordering\<close>.\<close>

datatype ordering = Less | Equal | Greater

section \<open>Results\<close>

text \<open>
  \<open>Err e\<close> is a returned error, \<open>Panic\<close> is an unwinding panic (an \<open>expect\<close>
  on \<open>None\<close>, an arithmetic overflow of a build with overflow checks).
\<close>

datatype 'e failure = Err 'e | Panic

type_synonym ('e, 'a) res = "'e failure + 'a"

abbreviation ok :: "'a \<Rightarrow> ('e, 'a) res" where "ok x \<equiv> Inr x"
abbreviation err :: "'e \<Rightarrow> ('e, 'a) res" where "err e \<equiv> Inl (Err e)"

text \<open>The \<open>?\<close> operator: continue with the value or return the failure.\<close>

definition rbind :: "('e, 'a) res \<Rightarrow> ('a \<Rightarrow> ('e, 'b) res) \<Rightarrow> ('e, 'b) res" where
  "rbind r f = (case r of Inl e \<Rightarrow> Inl e | Inr x \<Rightarrow> f x)"

text \<open>\<open>?\<close> through a \<open>From\<close> conversion of the error type.\<close>

definition map_err :: "('e \<Rightarrow> 'f) \<Rightarrow> ('e, 'a) res \<Rightarrow> ('f, 'a) res" where
  "map_err f r = (case r of Inl (Err e) \<Rightarrow> Inl (Err (f e)) | Inl Panic \<Rightarrow> Inl Panic | Inr x \<Rightarrow> Inr x)"

lemma rbind_Inl [simp]: "rbind (Inl e) f = Inl e"
  by (simp add: rbind_def)

lemma rbind_Inr [simp]: "rbind (Inr x) f = f x"
  by (simp add: rbind_def)

lemma map_err_Inr [simp]: "map_err f (Inr x) = Inr x"
  by (simp add: map_err_def)

lemma map_err_Err [simp]: "map_err f (Inl (Err e)) = Inl (Err (f e))"
  by (simp add: map_err_def)

lemma rbind_eq_Inr [res_simps]: "rbind r f = Inr y \<longleftrightarrow> (\<exists>x. r = Inr x \<and> f x = Inr y)"
  by (cases r) auto

lemma map_err_eq_Inr [res_simps]: "map_err f r = Inr y \<longleftrightarrow> r = Inr y"
  by (auto simp: map_err_def split: sum.splits failure.splits)

text \<open>\<open>collect::<Result<Vec<_>, _>>()\<close>: the first failure, or all values.\<close>

fun rcollect :: "('a \<Rightarrow> ('e, 'b) res) \<Rightarrow> 'a list \<Rightarrow> ('e, 'b list) res" where
  "rcollect f [] = Inr []"
| "rcollect f (x # xs) = rbind (f x) (\<lambda>y. rbind (rcollect f xs) (\<lambda>ys. Inr (y # ys)))"

lemma rcollect_eq_Inr [res_simps]:
  "rcollect f xs = Inr ys \<longleftrightarrow> list_all2 (\<lambda>x y. f x = Inr y) xs ys"
  by (induction xs arbitrary: ys) (auto simp: res_simps list_all2_Cons1)

text \<open>\<open>u64\<close> addition of a build with overflow checks.\<close>

definition add_u64 :: "nat \<Rightarrow> nat \<Rightarrow> ('e, nat) res" where
  "add_u64 a b = (if a + b < 2 ^ 64 then Inr (a + b) else Inl Panic)"

lemma add_u64_ok [simp]: "a + b < 2 ^ 64 \<Longrightarrow> add_u64 a b = Inr (a + b)"
  by (simp add: add_u64_def)

section \<open>Little-endian codecs\<close>

primrec le_bytes :: "nat \<Rightarrow> nat \<Rightarrow> byte list" where
  "le_bytes 0 n = []"
| "le_bytes (Suc k) n = word_of_nat n # le_bytes k (n div 256)"

primrec le_nat :: "byte list \<Rightarrow> nat" where
  "le_nat [] = 0"
| "le_nat (b # bs) = unat b + 256 * le_nat bs"

lemma length_le_bytes [simp, codec_simps]: "length (le_bytes k n) = k"
  by (induction k arbitrary: n) auto

lemma unat_byte_of_nat: "unat (word_of_nat n :: byte) = n mod 256"
  by (simp add: unat_of_nat)

lemma le_nat_le_bytes_mod: "le_nat (le_bytes k n) = n mod 256 ^ k"
proof (induction k arbitrary: n)
  case 0
  then show ?case by simp
next
  case (Suc k)
  have "le_nat (le_bytes (Suc k) n) = n mod 256 + 256 * ((n div 256) mod 256 ^ k)"
    by (simp add: Suc.IH unat_byte_of_nat)
  also have "\<dots> = n mod (256 * 256 ^ k)"
    by (simp add: mod_mult2_eq)
  finally show ?case by simp
qed

lemma le_nat_le_bytes [simp]: "n < 256 ^ k \<Longrightarrow> le_nat (le_bytes k n) = n"
  by (simp add: le_nat_le_bytes_mod)

lemma le_nat_less: "le_nat bs < 256 ^ length bs"
proof (induction bs)
  case Nil
  then show ?case by simp
next
  case (Cons b bs)
  have "unat b < 256" using unsigned_less [of b] by simp
  moreover have "Suc (le_nat bs) \<le> 256 ^ length bs" using Cons.IH by simp
  then have "256 * Suc (le_nat bs) \<le> 256 * 256 ^ length bs" by (rule mult_le_mono2)
  ultimately show ?case by simp
qed

lemma le_bytes_le_nat [simp]: "length bs = k \<Longrightarrow> le_bytes k (le_nat bs) = bs"
proof (induction bs arbitrary: k)
  case Nil
  then show ?case by simp
next
  case (Cons b bs)
  have small: "unat b < 256" using unsigned_less [of b] by simp
  have "(256 :: byte) = 0" by simp
  then have "256 * (word_of_nat (le_nat bs) :: byte) = 0" by (metis mult_zero_left)
  then have "(word_of_nat (unat b + 256 * le_nat bs) :: byte) = b" by simp
  with Cons small show ?case by (cases k) auto
qed

declare le_bytes.simps(2) [simp del]

lemma le_nat_zeros [simp]: "le_nat (replicate n 0) = 0"
  by (induction n) auto

section \<open>Big-endian values\<close>

definition be_nat :: "byte list \<Rightarrow> nat" where
  "be_nat bs = le_nat (rev bs)"

lemma le_nat_append: "le_nat (xs @ ys) = le_nat xs + 256 ^ length xs * le_nat ys"
  by (induction xs) (simp_all add: algebra_simps)

lemma be_nat_snoc [simp]: "be_nat (bs @ [b]) = unat b + 256 * be_nat bs"
  by (simp add: be_nat_def)

lemma be_nat_Cons: "be_nat (b # bs) = unat b * 256 ^ length bs + be_nat bs"
  by (simp add: be_nat_def le_nat_append algebra_simps)

lemma be_nat_Nil [simp]: "be_nat [] = 0"
  by (simp add: be_nat_def)

lemma be_nat_less: "be_nat bs < 256 ^ length bs"
  using le_nat_less [of "rev bs"] by (simp add: be_nat_def)

section \<open>Byte ranges\<close>

text \<open>\<open>&bytes[off..off + n]\<close>, and \<open>copy_from_slice\<close> into that range.\<close>

definition bslice :: "nat \<Rightarrow> nat \<Rightarrow> 'a list \<Rightarrow> 'a list" where
  "bslice off n bs = take n (drop off bs)"

definition bsplice :: "nat \<Rightarrow> 'a list \<Rightarrow> 'a list \<Rightarrow> 'a list" where
  "bsplice off new bs = take off bs @ new @ drop (off + length new) bs"

definition get_le :: "nat \<Rightarrow> nat \<Rightarrow> byte list \<Rightarrow> nat" where
  "get_le off n bs = le_nat (bslice off n bs)"

lemma length_bslice [simp]: "off + n \<le> length bs \<Longrightarrow> length (bslice off n bs) = n"
  by (simp add: bslice_def)

lemma length_bslice_le: "length (bslice off n bs) \<le> n"
  by (simp add: bslice_def)

lemma bslice_bslice: "a + m \<le> n \<Longrightarrow> bslice a m (bslice off n bs) = bslice (off + a) m bs"
  by (simp add: bslice_def drop_take min_def add.commute)

lemma bslice_0 [simp]: "bslice 0 n bs = take n bs"
  by (simp add: bslice_def)

lemma bslice_append1 [codec_simps]: "off + n \<le> length xs \<Longrightarrow> bslice off n (xs @ ys) = bslice off n xs"
  by (simp add: bslice_def)

lemma bslice_append2 [codec_simps]: "length xs \<le> off \<Longrightarrow> bslice off n (xs @ ys) = bslice (off - length xs) n ys"
  by (simp add: bslice_def)

lemma bslice_whole [codec_simps]: "length xs = n \<Longrightarrow> bslice 0 n xs = xs"
  by simp

lemma length_bsplice [simp]: "off + length new \<le> length bs \<Longrightarrow> length (bsplice off new bs) = length bs"
  by (simp add: bsplice_def)

lemma bslice_bsplice_same [simp]:
  "off + length new \<le> length bs \<Longrightarrow> n = length new \<Longrightarrow> bslice off n (bsplice off new bs) = new"
  by (simp add: bslice_def bsplice_def)

lemma bslice_bsplice_before:
  assumes "a + n \<le> off" and "off \<le> length bs"
  shows "bslice a n (bsplice off new bs) = bslice a n bs"
proof -
  have "bslice a n (bsplice off new bs) = take n (drop a (take off bs))"
    using assms by (simp add: bsplice_def bslice_def)
  also have "\<dots> = bslice a n bs"
    using assms by (simp add: bslice_def drop_take)
  finally show ?thesis .
qed

lemma bslice_bsplice_after:
  assumes "off + length new \<le> a" and "off + length new \<le> length bs"
  shows "bslice a n (bsplice off new bs) = bslice a n bs"
  using assms by (simp add: bslice_def bsplice_def)

lemma bslice_bsplice_other:
  assumes "a + n \<le> off \<or> off + length new \<le> a" and "off + length new \<le> length bs"
  shows "bslice a n (bsplice off new bs) = bslice a n bs"
  using assms bslice_bsplice_before [of a n off bs new] bslice_bsplice_after [of off new a bs n] by auto

lemma bslice_replicate: "off + n \<le> m \<Longrightarrow> bslice off n (replicate m x) = replicate n x"
  by (simp add: bslice_def)

lemma get_le_less: "get_le off n bs < 256 ^ n"
proof -
  have "le_nat (bslice off n bs) < 256 ^ length (bslice off n bs)" by (rule le_nat_less)
  also have "\<dots> \<le> 256 ^ n" by (intro power_increasing length_bslice_le) simp
  finally show ?thesis by (simp add: get_le_def)
qed

section \<open>Folds\<close>

lemma fold_max_ge: "a \<le> fold max ls a" "l \<in> set ls \<Longrightarrow> l \<le> fold max ls a"
  for a :: "'a :: linorder"
proof (induction ls arbitrary: a)
  case (Cons x ls)
  {
    case 1
    show ?case using Cons.IH(1) [of "max x a"] by (simp add: max_def split: if_splits)
  next
    case 2
    then show ?case using Cons.IH(1) [of "max x a"] Cons.IH(2) [of "max x a"] by auto
  }
qed auto

end
