(* ===== verification/Mb_Block.thy ===== *)
theory Mb_Block
  imports Mb_Prelude
begin

text \<open>
  Block-level vocabulary of the storage crate (\<open>crates/storage/src/block.rs\<close>,
  \<open>error.rs\<close>, \<open>zone_map.rs\<close>): the error type, the 8-byte preamble and the 32-byte header of
  4 KiB blocks with their packed little-endian images, and the pinned discriminants of
  block and B+ tree kinds. CRC32C comes from the external crate \<open>crc32c\<close>: every
  definition that needs it takes it as the argument \<open>crc\<close>.
\<close>

section \<open>Errors\<close>

datatype pack_error =
    TooManyFields nat
  | FieldOverflow u64 u8
  | Malformed string
  | InvalidPrefix nat
  | InvalidKeyHeaderBytes u8

text \<open>The payload of \<open>Io\<close> and the texts of the CBOR errors are descriptions only.\<close>

datatype storage_error =
    Io string
  | InvalidMagic "byte list" "byte list"
  | InvalidFullMagic
  | InvalidBlockKind u16
  | InvalidBtreeKind u16
  | InvalidBucketDataType u8
  | InvalidMediaType u8
  | InvalidStorageTier u8
  | CrcMismatch u32 u32
  | UnsupportedFormatVersion u32
  | BufferTooSmall nat nat
  | DeviceTooSmall u64 u64
  | OutOfBounds u64 u64 u64
  | NoValidSuperblock
  | ReadOnly
  | CborEncode string
  | CborDecode string
  | InvalidSortedRunMagic u32 u32
  | RegionFull u64 u64
  | Pack pack_error
  | AllocatorExhausted u8
  | StaleBlockRef u64 u64
  | CrossDiskBlockRef u16 u16
  | FreeOfUnallocatedBucket u32

section \<open>Block header\<close>

abbreviation (input) BLOCK_SIZE :: nat where "BLOCK_SIZE \<equiv> 4096"
abbreviation (input) BLOCK_SIZE_LOG2 :: nat where "BLOCK_SIZE_LOG2 \<equiv> 12"

definition BLOCK_PREAMBLE_MAGIC_BLOCK :: "byte list" where
  "BLOCK_PREAMBLE_MAGIC_BLOCK = [0x4D, 0x49, 0x4D, 0x52]"

definition BLOCK_PREAMBLE_MAGIC_BTREE :: "byte list" where
  "BLOCK_PREAMBLE_MAGIC_BTREE = [0x4D, 0x49, 0x4D, 0x42]"

record block_preamble =
  bp_magic :: "byte list"
  bp_kind :: u16
  bp_format_version :: u16

record block_header =
  bh_pre :: block_preamble
  bh_payload_length :: u32
  bh_generation :: u64
  bh_lsn :: u64
  bh_flags :: u32

text \<open>Type invariants: array lengths and integer widths of the packed structs.\<close>

definition preamble_ok :: "block_preamble \<Rightarrow> bool" where
  "preamble_ok p \<longleftrightarrow> length (bp_magic p) = 4 \<and> bp_kind p < 2 ^ 16 \<and> bp_format_version p < 2 ^ 16"

definition block_header_ok :: "block_header \<Rightarrow> bool" where
  "block_header_ok h \<longleftrightarrow> preamble_ok (bh_pre h) \<and> bh_payload_length h < 2 ^ 32 \<and>
     bh_generation h < 2 ^ 64 \<and> bh_lsn h < 2 ^ 64 \<and> bh_flags h < 2 ^ 32"

text \<open>\<open>bytemuck::bytes_of\<close> and \<open>bytemuck::from_bytes\<close> on the packed structs.\<close>

definition preamble_bytes :: "block_preamble \<Rightarrow> byte list" where
  "preamble_bytes p = bp_magic p @ le_bytes 2 (bp_kind p) @ le_bytes 2 (bp_format_version p)"

definition preamble_of :: "byte list \<Rightarrow> block_preamble" where
  "preamble_of bs = \<lparr>bp_magic = bslice 0 4 bs, bp_kind = get_le 4 2 bs, bp_format_version = get_le 6 2 bs\<rparr>"

definition block_header_bytes :: "block_header \<Rightarrow> byte list" where
  "block_header_bytes h = preamble_bytes (bh_pre h) @ le_bytes 4 (bh_payload_length h) @
     le_bytes 8 (bh_generation h) @ le_bytes 8 (bh_lsn h) @ le_bytes 4 (bh_flags h)"

definition block_header_of :: "byte list \<Rightarrow> block_header" where
  "block_header_of bs = \<lparr>bh_pre = preamble_of bs, bh_payload_length = get_le 8 4 bs,
     bh_generation = get_le 12 8 bs, bh_lsn = get_le 20 8 bs, bh_flags = get_le 28 4 bs\<rparr>"

section \<open>Kinds\<close>

datatype block_kind = KSuperblock | KZoneMap | KPoolStateRoot | KWalSegment | KCheckpoint
  | KTagBitmapPage | KSequencePage | KRankedPage | KKvHashDirectory | KKvHashBucket | KOverflowRecord

fun block_kind_u16 :: "block_kind \<Rightarrow> u16" where
  "block_kind_u16 KSuperblock = 0"
| "block_kind_u16 KZoneMap = 1"
| "block_kind_u16 KPoolStateRoot = 2"
| "block_kind_u16 KWalSegment = 3"
| "block_kind_u16 KCheckpoint = 4"
| "block_kind_u16 KTagBitmapPage = 5"
| "block_kind_u16 KSequencePage = 6"
| "block_kind_u16 KRankedPage = 7"
| "block_kind_u16 KKvHashDirectory = 8"
| "block_kind_u16 KKvHashBucket = 9"
| "block_kind_u16 KOverflowRecord = 10"

definition block_kind_from_u16 :: "u16 \<Rightarrow> (storage_error, block_kind) res" where
  "block_kind_from_u16 v =
     (if v = 0 then ok KSuperblock else if v = 1 then ok KZoneMap
      else if v = 2 then ok KPoolStateRoot else if v = 3 then ok KWalSegment
      else if v = 4 then ok KCheckpoint else if v = 5 then ok KTagBitmapPage
      else if v = 6 then ok KSequencePage else if v = 7 then ok KRankedPage
      else if v = 8 then ok KKvHashDirectory else if v = 9 then ok KKvHashBucket
      else if v = 10 then ok KOverflowRecord else err (InvalidBlockKind v))"

datatype btree_kind = ObjectTable | ObjectHistory | LocationTable | LocationHistory | Forward
  | ForwardOverflow | TagDirectory | Range | KvDirectory | ValueSpill | ChunkIndex | ChunkList
  | Backpointer | Ontology | Subscriptions | Snapshots | BucketAlloc | FreespaceLru
  | DiskDescriptors | PlacementRules | ClusterPeers | ReconcileWork | ReconcileHighPrio
  | ReconcileWorkPhys | ReconcileHighPrioPhys | ReconcilePending | ReconcileScan

fun btree_kind_u16 :: "btree_kind \<Rightarrow> u16" where
  "btree_kind_u16 ObjectTable = 0"
| "btree_kind_u16 ObjectHistory = 1"
| "btree_kind_u16 LocationTable = 2"
| "btree_kind_u16 LocationHistory = 3"
| "btree_kind_u16 Forward = 4"
| "btree_kind_u16 ForwardOverflow = 5"
| "btree_kind_u16 TagDirectory = 6"
| "btree_kind_u16 Range = 7"
| "btree_kind_u16 KvDirectory = 8"
| "btree_kind_u16 ValueSpill = 9"
| "btree_kind_u16 ChunkIndex = 10"
| "btree_kind_u16 ChunkList = 11"
| "btree_kind_u16 Backpointer = 12"
| "btree_kind_u16 Ontology = 13"
| "btree_kind_u16 Subscriptions = 14"
| "btree_kind_u16 Snapshots = 15"
| "btree_kind_u16 BucketAlloc = 16"
| "btree_kind_u16 FreespaceLru = 17"
| "btree_kind_u16 DiskDescriptors = 18"
| "btree_kind_u16 PlacementRules = 19"
| "btree_kind_u16 ClusterPeers = 20"
| "btree_kind_u16 ReconcileWork = 21"
| "btree_kind_u16 ReconcileHighPrio = 22"
| "btree_kind_u16 ReconcileWorkPhys = 23"
| "btree_kind_u16 ReconcileHighPrioPhys = 24"
| "btree_kind_u16 ReconcilePending = 25"
| "btree_kind_u16 ReconcileScan = 26"

definition btree_kind_from_u16 :: "u16 \<Rightarrow> (storage_error, btree_kind) res" where
  "btree_kind_from_u16 v =
     (if v = 0 then ok ObjectTable else if v = 1 then ok ObjectHistory
      else if v = 2 then ok LocationTable else if v = 3 then ok LocationHistory
      else if v = 4 then ok Forward else if v = 5 then ok ForwardOverflow
      else if v = 6 then ok TagDirectory else if v = 7 then ok Range
      else if v = 8 then ok KvDirectory else if v = 9 then ok ValueSpill
      else if v = 10 then ok ChunkIndex else if v = 11 then ok ChunkList
      else if v = 12 then ok Backpointer else if v = 13 then ok Ontology
      else if v = 14 then ok Subscriptions else if v = 15 then ok Snapshots
      else if v = 16 then ok BucketAlloc else if v = 17 then ok FreespaceLru
      else if v = 18 then ok DiskDescriptors else if v = 19 then ok PlacementRules
      else if v = 20 then ok ClusterPeers else if v = 21 then ok ReconcileWork
      else if v = 22 then ok ReconcileHighPrio else if v = 23 then ok ReconcileWorkPhys
      else if v = 24 then ok ReconcileHighPrioPhys else if v = 25 then ok ReconcilePending
      else if v = 26 then ok ReconcileScan else err (InvalidBtreeKind v))"

definition block_header_new :: "block_kind \<Rightarrow> u16 \<Rightarrow> u32 \<Rightarrow> block_header" where
  "block_header_new kind format_version payload_length =
     \<lparr>bh_pre = \<lparr>bp_magic = BLOCK_PREAMBLE_MAGIC_BLOCK, bp_kind = block_kind_u16 kind,
                bp_format_version = format_version\<rparr>,
      bh_payload_length = payload_length, bh_generation = 0, bh_lsn = 0, bh_flags = 0\<rparr>"

section \<open>Zone extents\<close>

text \<open>The padding words of \<open>ZoneExtent\<close> are written by no code and stay zero.\<close>

record zone_extent =
  ze_offset :: u64
  ze_length :: u64
  ze_flags :: u32
  ze_pad :: u32

definition zone_extent_ok :: "zone_extent \<Rightarrow> bool" where
  "zone_extent_ok z \<longleftrightarrow> ze_offset z < 2 ^ 64 \<and> ze_length z < 2 ^ 64 \<and> ze_flags z < 2 ^ 32 \<and> ze_pad z < 2 ^ 32"

definition zone_extent_bytes :: "zone_extent \<Rightarrow> byte list" where
  "zone_extent_bytes z = le_bytes 8 (ze_offset z) @ le_bytes 8 (ze_length z) @
     le_bytes 4 (ze_flags z) @ le_bytes 4 (ze_pad z)"

definition zone_extent_of :: "byte list \<Rightarrow> zone_extent" where
  "zone_extent_of bs = \<lparr>ze_offset = get_le 0 8 bs, ze_length = get_le 8 8 bs,
     ze_flags = get_le 16 4 bs, ze_pad = get_le 20 4 bs\<rparr>"

text \<open>The external checksum yields 32-bit values.\<close>

definition crc_ok :: "(byte list \<Rightarrow> u32) \<Rightarrow> bool" where
  "crc_ok crc \<longleftrightarrow> (\<forall>bs. crc bs < 2 ^ 32)"

text \<open>The constant checksum, an instance of the parameter for the witnesses.\<close>

abbreviation zcrc :: "byte list \<Rightarrow> u32" where "zcrc \<equiv> \<lambda>_. 0"

lemma zcrc_ok: "crc_ok zcrc"
  by (simp add: crc_ok_def)

section \<open>Lemmas\<close>

lemma length_preamble_bytes: "preamble_ok p \<Longrightarrow> length (preamble_bytes p) = 8"
  by (simp add: preamble_ok_def preamble_bytes_def)

lemma length_block_header_bytes [codec_simps]: "block_header_ok h \<Longrightarrow> length (block_header_bytes h) = 32"
  by (simp add: block_header_ok_def block_header_bytes_def length_preamble_bytes)

lemma length_zone_extent_bytes [simp, codec_simps]: "length (zone_extent_bytes z) = 24"
  by (simp add: zone_extent_bytes_def)

lemma preamble_of_append: "preamble_ok p \<Longrightarrow> preamble_of (preamble_bytes p @ rest) = p"
  by (simp add: preamble_ok_def preamble_bytes_def preamble_of_def get_le_def bslice_def)

lemma block_header_of_append [codec_simps]:
  "block_header_ok h \<Longrightarrow> block_header_of (block_header_bytes h @ rest) = h"
  by (simp add: block_header_ok_def block_header_bytes_def block_header_of_def preamble_of_append
      get_le_def bslice_def length_preamble_bytes)

lemma block_header_of_bytes [codec_simps]: "block_header_ok h \<Longrightarrow> block_header_of (block_header_bytes h) = h"
  using block_header_of_append [of h "[]"] by simp

lemma zone_extent_of_bytes [codec_simps]:
  "zone_extent_ok z \<Longrightarrow> zone_extent_of (zone_extent_bytes z) = z"
  by (simp add: zone_extent_ok_def zone_extent_bytes_def zone_extent_of_def get_le_def bslice_def)

lemma block_kind_u16_less: "block_kind_u16 k < 11"
  by (cases k) auto

lemma btree_kind_u16_less: "btree_kind_u16 k < 27"
  by (cases k) auto

lemma block_kind_from_u16_u16 [simp]: "block_kind_from_u16 (block_kind_u16 k) = ok k"
  by (cases k) (simp_all add: block_kind_from_u16_def)

lemma btree_kind_from_u16_u16 [simp]: "btree_kind_from_u16 (btree_kind_u16 k) = ok k"
  by (cases k) (simp_all add: btree_kind_from_u16_def)

lemma block_kind_from_u16_Inr: "block_kind_from_u16 v = ok k \<Longrightarrow> v = block_kind_u16 k"
  by (auto simp: block_kind_from_u16_def split: if_splits)

lemma btree_kind_from_u16_Inr: "btree_kind_from_u16 v = ok k \<Longrightarrow> v = btree_kind_u16 k"
  by (auto simp: btree_kind_from_u16_def split: if_splits)

lemma block_header_new_ok:
  "format_version < 2 ^ 16 \<Longrightarrow> payload_length < 2 ^ 32 \<Longrightarrow>
   block_header_ok (block_header_new kind format_version payload_length)"
  using block_kind_u16_less [of kind]
  by (simp add: block_header_ok_def preamble_ok_def block_header_new_def BLOCK_PREAMBLE_MAGIC_BLOCK_def)

end
