(* ===== verification/Mb_Types.thy ===== *)
theory Mb_Types
  imports Mb_Prelude "HOL-Library.Product_Lexorder"
begin

text \<open>
  Foundational types (\<open>crates/types/src/object_id.rs\<close>, \<open>timestamp.rs\<close>,
  \<open>ids.rs\<close>) and the hybrid clock of the engine (\<open>crates/engine/src/clock.rs\<close>).
  Timestamps are ordered by \<open>(physical_ns, logical, node_id)\<close> and the type is made a
  linear order; object identifiers are 64-bit words split into a 16-bit node and a 48-bit
  sequence.
\<close>

unbundle bit_operations_syntax

section \<open>Signed 64-bit integers on the wire\<close>

definition i64_ok :: "int \<Rightarrow> bool" where
  "i64_ok x \<longleftrightarrow> - (2 ^ 63) \<le> x \<and> x < 2 ^ 63"

definition i64_bytes :: "int \<Rightarrow> byte list" where
  "i64_bytes x = le_bytes 8 (nat (x mod 2 ^ 64))"

definition i64_of :: "byte list \<Rightarrow> int" where
  "i64_of bs = (let n = int (le_nat bs) in if n < 2 ^ 63 then n else n - 2 ^ 64)"

section \<open>HybridTimestamp\<close>

datatype hybrid_timestamp =
  HybridTimestamp (physical_ns: int) (logical: u16) (node_id: u16)

definition ts_ok :: "hybrid_timestamp \<Rightarrow> bool" where
  "ts_ok t \<longleftrightarrow> i64_ok (physical_ns t) \<and> logical t < 2 ^ 16 \<and> node_id t < 2 ^ 16"

definition sat_add_u16 :: "u16 \<Rightarrow> u16 \<Rightarrow> u16" where
  "sat_add_u16 a b = min (a + b) 65535"

fun tick :: "hybrid_timestamp \<Rightarrow> int \<Rightarrow> hybrid_timestamp" where
  "tick (HybridTimestamp p l n) now_ns =
     (if now_ns > p then HybridTimestamp now_ns 0 n
      else HybridTimestamp p (sat_add_u16 l 1) n)"

fun recv :: "hybrid_timestamp \<Rightarrow> int \<Rightarrow> hybrid_timestamp \<Rightarrow> hybrid_timestamp" where
  "recv (HybridTimestamp p l n) now_ns (HybridTimestamp op ol on) =
     (if now_ns > p \<and> now_ns > op then HybridTimestamp now_ns 0 n
      else if p = op then HybridTimestamp p (sat_add_u16 (max l ol) 1) n
      else if op > p then HybridTimestamp op (sat_add_u16 ol 1) n
      else HybridTimestamp p (sat_add_u16 l 1) n)"

text \<open>\<open>impl Ord\<close>: compare \<open>physical_ns\<close>, then \<open>logical\<close>, then \<open>node_id\<close>.\<close>

definition ts_key :: "hybrid_timestamp \<Rightarrow> int \<times> nat \<times> nat" where
  "ts_key t = (physical_ns t, logical t, node_id t)"

lemma ts_key_inject: "ts_key a = ts_key b \<longleftrightarrow> a = b"
  by (cases a; cases b) (simp add: ts_key_def)

instantiation hybrid_timestamp :: linorder
begin

definition less_eq_hybrid_timestamp :: "hybrid_timestamp \<Rightarrow> hybrid_timestamp \<Rightarrow> bool" where
  "less_eq_hybrid_timestamp a b \<longleftrightarrow> ts_key a \<le> ts_key b"

definition less_hybrid_timestamp :: "hybrid_timestamp \<Rightarrow> hybrid_timestamp \<Rightarrow> bool" where
  "less_hybrid_timestamp a b \<longleftrightarrow> ts_key a < ts_key b"

instance
  by standard
    (auto simp: less_eq_hybrid_timestamp_def less_hybrid_timestamp_def ts_key_inject less_le_not_le
      dest: antisym)

end

section \<open>HybridClock\<close>

record hybrid_clock =
  clock_node_id :: u16
  clock_last :: hybrid_timestamp

definition clock_new :: "u16 \<Rightarrow> hybrid_clock" where
  "clock_new n = \<lparr>clock_node_id = n, clock_last = HybridTimestamp 0 0 n\<rparr>"

text \<open>
  The wall clock is an input: \<open>Some d\<close> for \<open>duration_since(UNIX_EPOCH)\<close> in
  nanoseconds, \<open>None\<close> for a system time before the epoch.
\<close>

definition clock_now_ns :: "hybrid_clock \<Rightarrow> nat option \<Rightarrow> int" where
  "clock_now_ns c sys = (case sys of
      Some d \<Rightarrow> (if int d < 2 ^ 63 then int d else physical_ns (clock_last c))
    | None \<Rightarrow> physical_ns (clock_last c))"

fun set_node_id :: "hybrid_timestamp \<Rightarrow> u16 \<Rightarrow> hybrid_timestamp" where
  "set_node_id (HybridTimestamp p l _) n = HybridTimestamp p l n"

definition clock_now :: "hybrid_clock \<Rightarrow> nat option \<Rightarrow> hybrid_timestamp \<times> hybrid_clock" where
  "clock_now c sys =
     (let now_ns = clock_now_ns c sys;
          next_ts = set_node_id (tick (clock_last c) now_ns) (clock_node_id c)
      in (next_ts, c\<lparr>clock_last := next_ts\<rparr>))"

definition clock_observe :: "hybrid_clock \<Rightarrow> nat option \<Rightarrow> hybrid_timestamp \<Rightarrow> hybrid_clock" where
  "clock_observe c sys remote =
     (let now_ns = clock_now_ns c sys;
          merged = set_node_id (recv (clock_last c) now_ns remote) (clock_node_id c)
      in c\<lparr>clock_last := merged\<rparr>)"

definition clock_ok :: "hybrid_clock \<Rightarrow> bool" where
  "clock_ok c \<longleftrightarrow> ts_ok (clock_last c) \<and> clock_node_id c < 2 ^ 16 \<and> node_id (clock_last c) = clock_node_id c"

text \<open>A run of a clock: local events and received timestamps in any order, each with its wall-clock
  reading, the clock after them and the timestamps \<open>clock_now\<close> issued on the way.\<close>

datatype clock_event = Now "nat option" | Observe "nat option" hybrid_timestamp

fun clock_steps :: "hybrid_clock \<Rightarrow> clock_event list \<Rightarrow> hybrid_clock" where
  "clock_steps c [] = c"
| "clock_steps c (Now s # evs) = clock_steps (snd (clock_now c s)) evs"
| "clock_steps c (Observe s r # evs) = clock_steps (clock_observe c s r) evs"

fun clock_issued :: "hybrid_clock \<Rightarrow> clock_event list \<Rightarrow> hybrid_timestamp list" where
  "clock_issued c [] = []"
| "clock_issued c (Now s # evs) = (let (t, c') = clock_now c s in t # clock_issued c' evs)"
| "clock_issued c (Observe s r # evs) = clock_issued (clock_observe c s r) evs"

text \<open>No local event of the run meets a saturated counter under a wall clock that has not passed the
  last timestamp; received timestamps are of the type, saturated or not.\<close>

fun clock_unstuck :: "hybrid_clock \<Rightarrow> clock_event list \<Rightarrow> bool" where
  "clock_unstuck c [] \<longleftrightarrow> True"
| "clock_unstuck c (Now s # evs) \<longleftrightarrow>
     (logical (clock_last c) < 65535 \<or> physical_ns (clock_last c) < clock_now_ns c s) \<and>
     clock_unstuck (snd (clock_now c s)) evs"
| "clock_unstuck c (Observe s r # evs) \<longleftrightarrow> ts_ok r \<and> clock_unstuck (clock_observe c s r) evs"

section \<open>ObjectId\<close>

text \<open>The bit field: local sequence in bits 0--47, node in bits 48--63.\<close>

type_synonym object_id = "64 word"

definition oid_from_parts :: "16 word \<Rightarrow> 64 word \<Rightarrow> object_id" where
  "oid_from_parts node loc =
     (let masked = loc AND 0x0000ffffffffffff
      in push_bit 48 (ucast node) OR masked)"

definition oid_node_id :: "object_id \<Rightarrow> 16 word" where
  "oid_node_id oid = ucast (drop_bit 48 oid)"

definition oid_local_seq :: "object_id \<Rightarrow> 64 word" where
  "oid_local_seq oid = oid AND 0x0000ffffffffffff"

section \<open>Lemmas\<close>

lemma unat64_less: "unat (b :: 64 word) < 2 ^ 64"
  using unsigned_less [of b] by simp

lemma length_i64_bytes [simp, codec_simps]: "length (i64_bytes x) = 8"
  by (simp add: i64_bytes_def)

lemma i64_of_bytes [simp]: "i64_ok x \<Longrightarrow> i64_of (i64_bytes x) = x"
proof -
  assume ok: "i64_ok x"
  have "nat (x mod 2 ^ 64) < 256 ^ 8" by (simp add: nat_less_iff)
  then have n: "le_nat (i64_bytes x) = nat (x mod 2 ^ 64)" by (simp add: i64_bytes_def)
  show ?thesis
  proof (cases "0 \<le> x")
    case True
    with ok have "x mod 2 ^ 64 = x" by (simp add: i64_ok_def)
    with True ok n show ?thesis by (simp add: i64_of_def i64_ok_def)
  next
    case False
    have "(x + 2 ^ 64) mod 2 ^ 64 = x mod 2 ^ 64" by (rule mod_add_self2)
    moreover have "(x + 2 ^ 64) mod 2 ^ 64 = x + 2 ^ 64"
      using False ok by (intro mod_pos_pos_trivial) (auto simp: i64_ok_def)
    ultimately have "x mod 2 ^ 64 = x + 2 ^ 64" by simp
    with False ok n show ?thesis by (simp add: i64_of_def i64_ok_def)
  qed
qed

lemma i64_of_ok: "length bs = 8 \<Longrightarrow> i64_ok (i64_of bs)"
  using le_nat_less [of bs] by (simp add: i64_ok_def i64_of_def Let_def)

lemma tick_ok: "ts_ok t \<Longrightarrow> i64_ok now_ns \<Longrightarrow> ts_ok (tick t now_ns)"
  by (cases t) (auto simp: ts_ok_def sat_add_u16_def min_def)

lemma recv_ok: "ts_ok t \<Longrightarrow> ts_ok r \<Longrightarrow> i64_ok now_ns \<Longrightarrow> ts_ok (recv t now_ns r)"
  by (cases t; cases r) (auto simp: ts_ok_def sat_add_u16_def min_def max_def)

text \<open>Time without the node: the pair that \<open>tick\<close> and \<open>recv\<close> move forward.\<close>

definition ts_time :: "hybrid_timestamp \<Rightarrow> int \<times> nat" where
  "ts_time t = (physical_ns t, logical t)"

lemma ts_time_less: "ts_time a < ts_time b \<Longrightarrow> a < b"
  by (auto simp: ts_time_def less_hybrid_timestamp_def ts_key_def)

lemma tick_time_less:
  "logical t < 65535 \<or> physical_ns t < now_ns \<Longrightarrow> ts_time t < ts_time (tick t now_ns)"
  by (cases t) (auto simp: ts_time_def sat_add_u16_def)

lemma tick_mono: "logical t \<le> 65535 \<Longrightarrow> t \<le> tick t now_ns"
  by (cases t) (auto simp: less_eq_hybrid_timestamp_def ts_key_def sat_add_u16_def min_def)

lemma recv_time_le:
  assumes "logical t \<le> 65535" and "logical r \<le> 65535"
  shows "ts_time t \<le> ts_time (recv t now_ns r)" and "ts_time r \<le> ts_time (recv t now_ns r)"
  using assms by (cases t; cases r; auto simp: ts_time_def sat_add_u16_def min_def max_def)+

lemma node_id_tick [simp]: "node_id (tick t now_ns) = node_id t"
  by (cases t) simp

lemma node_id_recv [simp]: "node_id (recv t now_ns r) = node_id t"
  by (cases t; cases r) simp

lemma set_node_id_same [simp]: "set_node_id t (node_id t) = t"
  by (cases t) simp

lemma clock_now_eq:
  "clock_ok c \<Longrightarrow> clock_now c sys = (tick (clock_last c) (clock_now_ns c sys),
     c\<lparr>clock_last := tick (clock_last c) (clock_now_ns c sys)\<rparr>)"
  by (metis clock_now_def clock_ok_def node_id_tick set_node_id_same)

lemma clock_now_ns_ok: "clock_ok c \<Longrightarrow> i64_ok (clock_now_ns c sys)"
  by (auto simp: clock_ok_def ts_ok_def clock_now_ns_def i64_ok_def split: option.splits)

lemma clock_now_ok: "clock_ok c \<Longrightarrow> clock_ok (snd (clock_now c sys))"
  by (simp add: clock_now_eq) (simp add: clock_ok_def tick_ok clock_now_ns_ok [unfolded clock_ok_def])

lemma clock_observe_eq:
  "clock_ok c \<Longrightarrow> clock_observe c sys r = c\<lparr>clock_last := recv (clock_last c) (clock_now_ns c sys) r\<rparr>"
  by (metis clock_observe_def clock_ok_def node_id_recv set_node_id_same)

lemma clock_observe_ok: "clock_ok c \<Longrightarrow> ts_ok r \<Longrightarrow> clock_ok (clock_observe c sys r)"
  by (simp add: clock_observe_eq) (simp add: clock_ok_def recv_ok clock_now_ns_ok [unfolded clock_ok_def])

lemma clock_ok_logical: "clock_ok c \<Longrightarrow> logical (clock_last c) \<le> 65535"
  by (simp add: clock_ok_def ts_ok_def)

lemma clock_ok_new: "n < 2 ^ 16 \<Longrightarrow> clock_ok (clock_new n)"
  by (simp add: clock_ok_def clock_new_def ts_ok_def i64_ok_def)

lemma clock_steps_append [simp]: "clock_steps c (xs @ ys) = clock_steps (clock_steps c xs) ys"
  by (induction c xs rule: clock_steps.induct) simp_all

lemma clock_unstuck_append [simp]:
  "clock_unstuck c (xs @ ys) \<longleftrightarrow> clock_unstuck c xs \<and> clock_unstuck (clock_steps c xs) ys"
  by (induction c xs rule: clock_steps.induct) simp_all

lemma clock_steps_ok: "clock_ok c \<Longrightarrow> clock_unstuck c evs \<Longrightarrow> clock_ok (clock_steps c evs)"
  by (induction c evs rule: clock_steps.induct) (auto simp: clock_now_ok clock_observe_ok)

text \<open>Every timestamp issued later is above the clock's present time, and the issued ones increase.\<close>

lemma clock_issued_above:
  "clock_ok c \<Longrightarrow> clock_unstuck c evs \<Longrightarrow> t \<in> set (clock_issued c evs) \<Longrightarrow> ts_time (clock_last c) < ts_time t"
proof (induction c evs rule: clock_issued.induct)
  case (2 c s evs)
  then have "ts_time (clock_last c) < ts_time (fst (clock_now c s))"
    using tick_time_less [of "clock_last c"] by (simp add: clock_now_eq)
  moreover have "clock_last (snd (clock_now c s)) = fst (clock_now c s)" using "2.prems"(1) by (simp add: clock_now_eq)
  ultimately show ?case
    using 2 clock_now_ok [of c s] by (cases "clock_now c s") (force intro: less_trans)
next
  case (3 c s r evs)
  then have "ts_time (clock_last c) \<le> ts_time (clock_last (clock_observe c s r))"
    using clock_ok_logical [of c] recv_time_le(1) [of "clock_last c" r] by (simp add: clock_observe_eq ts_ok_def)
  with 3 clock_observe_ok [of c r s] show ?case by (auto intro: le_less_trans)
qed simp

lemma clock_issued_sorted: "clock_ok c \<Longrightarrow> clock_unstuck c evs \<Longrightarrow> sorted_wrt (<) (clock_issued c evs)"
proof (induction c evs rule: clock_issued.induct)
  case (2 c s evs)
  have last: "clock_last (snd (clock_now c s)) = fst (clock_now c s)" using "2.prems"(1) by (simp add: clock_now_eq)
  have "\<forall>t \<in> set (clock_issued (snd (clock_now c s)) evs). fst (clock_now c s) < t"
    using clock_issued_above [of "snd (clock_now c s)" evs] clock_now_ok [OF "2.prems"(1), of s] "2.prems"(2) last
    by (auto intro: ts_time_less)
  with 2 clock_now_ok [of c s] show ?case by (cases "clock_now c s") auto
qed (auto simp: clock_observe_ok)

text \<open>Readings that never pass the time the clock has reached only count up, and stop at the maximum.\<close>

lemma clock_stalled:
  assumes "clock_ok c" and "\<forall>s \<in> set ss. clock_now_ns c s \<le> physical_ns (clock_last c)"
  shows "clock_issued c (map Now ss) =
     map (\<lambda>k. HybridTimestamp (physical_ns (clock_last c)) (min (logical (clock_last c) + k + 1) 65535) (clock_node_id c))
       [0..<length ss]"
  using assms
proof (induction ss arbitrary: c)
  case (Cons s ss)
  obtain p l n where t: "clock_last c = HybridTimestamp p l n" by (cases "clock_last c")
  have n: "n = clock_node_id c" using Cons.prems(1) t by (simp add: clock_ok_def)
  have l: "l \<le> 65535" using clock_ok_logical [OF Cons.prems(1)] t by simp
  let ?c = "snd (clock_now c s)"
  have now: "clock_now c s = (HybridTimestamp p (min (l + 1) 65535) n, c\<lparr>clock_last := HybridTimestamp p (min (l + 1) 65535) n\<rparr>)"
    using Cons.prems t by (simp add: clock_now_eq sat_add_u16_def min_def)
  have "\<forall>s \<in> set ss. clock_now_ns ?c s \<le> physical_ns (clock_last ?c)"
    using Cons.prems(2) t now by (auto simp: clock_now_ns_def split: option.splits)
  from Cons.IH [OF clock_now_ok [OF Cons.prems(1)] this]
  have "clock_issued ?c (map Now ss) = map (\<lambda>k. HybridTimestamp p (min (min (l + 1) 65535 + k + 1) 65535) n) [0..<length ss]"
    using now n by simp
  moreover have "map (\<lambda>k. HybridTimestamp p (min (l + k + 1) 65535) n) [0..<length (s # ss)] =
      HybridTimestamp p (min (l + 1) 65535) n #
      map (\<lambda>k. HybridTimestamp p (min (min (l + 1) 65535 + k + 1) 65535) n) [0..<length ss]"
    by (simp only: list.size(4) add_0_right add_Suc_right map_upt_Suc) (auto simp: min_def)
  ultimately show ?case using now t n by simp
qed simp

section \<open>Properties\<close>

text \<open>C32. In every run of a node's clock, local events and received timestamps mixed in any order under
  any wall-clock readings, in which no local event meets a saturated counter together with a wall clock that
  has not passed the last timestamp, the issued timestamps strictly increase, and a timestamp issued after a
  remote one was observed is later than that remote one.\<close>

theorem clock_run_strict:
  assumes "n < 2 ^ 16" and "clock_unstuck (clock_new n) evs"
  shows "sorted_wrt (<) (clock_issued (clock_new n) evs) \<and>
    (\<forall>pre s r post. evs = pre @ Observe s r # post \<longrightarrow>
       (\<forall>t \<in> set (clock_issued (clock_steps (clock_new n) (pre @ [Observe s r])) post). r < t))"
proof (intro conjI allI impI ballI)
  show "sorted_wrt (<) (clock_issued (clock_new n) evs)"
    using assms by (simp add: clock_issued_sorted clock_ok_new)
next
  fix pre s r post t
  let ?c = "clock_steps (clock_new n) pre"
  assume evs: "evs = pre @ Observe s r # post"
    and t: "t \<in> set (clock_issued (clock_steps (clock_new n) (pre @ [Observe s r])) post)"
  have c: "clock_ok ?c" using assms evs by (simp add: clock_steps_ok clock_ok_new)
  have r: "ts_ok r" using assms(2) evs by simp
  have "ts_time r \<le> ts_time (clock_last (clock_observe ?c s r))"
    using clock_ok_logical [OF c] recv_time_le(2) [of "clock_last ?c" r] r c
    by (simp add: clock_observe_eq ts_ok_def)
  moreover have "ts_time (clock_last (clock_observe ?c s r)) < ts_time t"
    using t assms(2) evs by (intro clock_issued_above [OF clock_observe_ok [OF c r], where evs = post]) simp_all
  ultimately show "r < t" by (intro ts_time_less) simp
qed

theorem clock_run_strict_witness:
  "sorted_wrt (<) (clock_issued (clock_new 3)
     [Now (Some 10), Observe (Some 9) (HybridTimestamp 50 65535 7), Now (Some 51), Now None])"
  using clock_run_strict [of 3 "[Now (Some 10), Observe (Some 9) (HybridTimestamp 50 65535 7), Now (Some 51), Now None]"]
  by (simp add: clock_new_def clock_now_def clock_observe_def clock_now_ns_def ts_ok_def i64_ok_def sat_add_u16_def Let_def)

text \<open>C33. A stalled wall clock exhausts the counter: when a new clock reads a positive time and every later
  reading is at most that time, the timestamps issued are those with the counters 0, 1, 2, up to 65535 and
  from then on the same timestamp again and again.\<close>

theorem clock_stalled_repeats:
  assumes "n < 2 ^ 16" and "0 < w" and "w < 2 ^ 63" and "\<forall>d \<in> set ds. d \<le> w"
  shows "clock_issued (clock_new n) (map (Now \<circ> Some) (w # ds)) =
    map (\<lambda>k. HybridTimestamp (int w) (min k 65535) n) [0..<Suc (length ds)]"
proof -
  let ?c = "\<lparr>clock_node_id = n, clock_last = HybridTimestamp (int w) 0 n\<rparr>"
  have now: "clock_now (clock_new n) (Some w) = (HybridTimestamp (int w) 0 n, ?c)"
    using assms(2,3) by (simp add: clock_now_def clock_new_def clock_now_ns_def Let_def)
  then have ok: "clock_ok ?c" using clock_now_ok [OF clock_ok_new [OF assms(1)], of "Some w"] by simp
  have "\<forall>s \<in> set (map Some ds). clock_now_ns ?c s \<le> physical_ns (clock_last ?c)"
    using assms(4) by (auto simp: clock_now_ns_def)
  from clock_stalled [OF ok this] have "clock_issued ?c (map (Now \<circ> Some) ds) =
      map (\<lambda>k. HybridTimestamp (int w) (min (Suc k) 65535) n) [0..<length ds]" by simp
  with now show ?thesis unfolding map_upt_Suc by simp
qed

theorem clock_stalled_repeats_witness:
  "clock_issued (clock_new 1) (map (Now \<circ> Some) (5 # replicate 70000 4)) ! 65535 = HybridTimestamp 5 65535 1 \<and>
   clock_issued (clock_new 1) (map (Now \<circ> Some) (5 # replicate 70000 4)) ! 70000 = HybridTimestamp 5 65535 1"
proof -
  have e: "clock_issued (clock_new 1) (map (Now \<circ> Some) (5 # replicate 70000 4)) =
      map (\<lambda>k. HybridTimestamp 5 (min k 65535) 1) [0..<Suc 70000]"
    using clock_stalled_repeats [of 1 5 "replicate 70000 4"] by simp
  show ?thesis unfolding e by (simp del: upt_Suc upt.simps map_upt_Suc)
qed

lemma oid_mask: "(0x0000ffffffffffff :: 64 word) = mask 48"
  by (simp add: mask_eq_exp_minus_1)

text \<open>An object id determines its node and its 48-bit sequence number, and these determine it.\<close>

theorem oid_roundtrip:
  "oid_node_id (oid_from_parts node loc) = node \<and>
   oid_local_seq (oid_from_parts node loc) = loc AND mask 48 \<and>
   oid_from_parts (oid_node_id oid) (oid_local_seq oid) = oid"
proof (intro conjI)
  show "oid_node_id (oid_from_parts node loc) = node"
    unfolding oid_node_id_def oid_from_parts_def Let_def oid_mask
    by (rule bit_word_eqI) (auto simp: bit_simps)
  show "oid_local_seq (oid_from_parts node loc) = loc AND mask 48"
    unfolding oid_local_seq_def oid_from_parts_def Let_def oid_mask
    by (rule bit_word_eqI) (auto simp: bit_simps)
  show "oid_from_parts (oid_node_id oid) (oid_local_seq oid) = oid"
    unfolding oid_local_seq_def oid_node_id_def oid_from_parts_def Let_def oid_mask
    by (rule bit_word_eqI) (auto simp: bit_simps)
qed

end
