(* ===== verification/Mb_Wal_Entry.thy ===== *)
theory Mb_Wal_Entry
  imports Mb_Block Mb_Types
begin

text \<open>
  WAL entries and the WAL header block (\<open>crates/wal/src/entry.rs\<close>, \<open>header.rs\<close>,
  \<open>error.rs\<close>, \<open>dirty.rs\<close>): the 40-byte entry header, the 4 KiB ring header, their
  packed images, and the pinned operation kinds.
\<close>

unbundle bit_operations_syntax

section \<open>Errors\<close>

datatype wal_error =
    Storage storage_error
  | WalIo string
  | WalCborEncode string
  | WalCborDecode string
  | WalInvalidMagic "byte list" "byte list"
  | WalCrcMismatch u32 u32
  | InvalidOpKind u8
  | PayloadTooLarge nat nat
  | RingFull u64 u64
  | LsnOverflow
  | NoValidHeader
  | WalUnsupportedFormatVersion u16
  | InvalidSize u64
  | EncryptionUnsupported
  | CompressionUnsupported
  | WalReadOnly

section \<open>Constants\<close>

definition WAL_ENTRY_MAGIC :: "byte list" where
  "WAL_ENTRY_MAGIC = [0x57, 0x41, 0x4C, 0x52]"

abbreviation (input) WAL_ENTRY_FORMAT_VERSION :: nat where "WAL_ENTRY_FORMAT_VERSION \<equiv> 1"
abbreviation (input) WAL_SECTOR_SIZE :: nat where "WAL_SECTOR_SIZE \<equiv> 4096"
abbreviation (input) WAL_FRAMING_CRC_LEN :: nat where "WAL_FRAMING_CRC_LEN \<equiv> 4"
abbreviation (input) WAL_ENTRY_HEADER_SIZE :: nat where "WAL_ENTRY_HEADER_SIZE \<equiv> 40"
abbreviation (input) WAL_MAX_PAYLOAD_PLAINTEXT :: nat where "WAL_MAX_PAYLOAD_PLAINTEXT \<equiv> 4052"
abbreviation (input) WAL_HEADER_FORMAT_VERSION :: nat where "WAL_HEADER_FORMAT_VERSION \<equiv> 1"
abbreviation (input) WAL_ENTRY_FLAG_ENCRYPTED :: nat where "WAL_ENTRY_FLAG_ENCRYPTED \<equiv> 1"
abbreviation (input) WAL_ENTRY_FLAG_COMPRESSED :: nat where "WAL_ENTRY_FLAG_COMPRESSED \<equiv> 2"

section \<open>Operation kinds\<close>

datatype wal_op_kind =
    OpCreateObject | OpDeleteObject | OpAddTag | OpRemoveTag
  | OpSetAttr | OpRemoveAttr | OpAddRelation | OpRemoveRelation
  | OpWriteBlob | OpChunkInsertBatch | OpChunkListAppend | OpChunkListReplace
  | OpChunkListShrink | OpChunkObjectFinalize | OpBucketAlloc | OpBucketWrite
  | OpBucketGenBump | OpBucketDiscard | OpBackpointerInsert | OpBackpointerRemove
  | OpTagBitmapGrow | OpTagBitmapShrink | OpSnapshotCreate | OpSnapshotDelete
  | OpSnapshotUnlink | OpSnapshotDepthUpdate | OpReconcileEnqueue | OpReconcileDequeue
  | OpReconcileMove | OpReconcileScanStep | OpFormatPromote | OpCheckpoint

fun wal_op_kind_u8 :: "wal_op_kind \<Rightarrow> u8" where
  "wal_op_kind_u8 OpCreateObject = 0"
| "wal_op_kind_u8 OpDeleteObject = 1"
| "wal_op_kind_u8 OpAddTag = 2"
| "wal_op_kind_u8 OpRemoveTag = 3"
| "wal_op_kind_u8 OpSetAttr = 4"
| "wal_op_kind_u8 OpRemoveAttr = 5"
| "wal_op_kind_u8 OpAddRelation = 6"
| "wal_op_kind_u8 OpRemoveRelation = 7"
| "wal_op_kind_u8 OpWriteBlob = 8"
| "wal_op_kind_u8 OpChunkInsertBatch = 9"
| "wal_op_kind_u8 OpChunkListAppend = 10"
| "wal_op_kind_u8 OpChunkListReplace = 11"
| "wal_op_kind_u8 OpChunkListShrink = 12"
| "wal_op_kind_u8 OpChunkObjectFinalize = 13"
| "wal_op_kind_u8 OpBucketAlloc = 14"
| "wal_op_kind_u8 OpBucketWrite = 15"
| "wal_op_kind_u8 OpBucketGenBump = 16"
| "wal_op_kind_u8 OpBucketDiscard = 17"
| "wal_op_kind_u8 OpBackpointerInsert = 18"
| "wal_op_kind_u8 OpBackpointerRemove = 19"
| "wal_op_kind_u8 OpTagBitmapGrow = 20"
| "wal_op_kind_u8 OpTagBitmapShrink = 21"
| "wal_op_kind_u8 OpSnapshotCreate = 22"
| "wal_op_kind_u8 OpSnapshotDelete = 23"
| "wal_op_kind_u8 OpSnapshotUnlink = 24"
| "wal_op_kind_u8 OpSnapshotDepthUpdate = 25"
| "wal_op_kind_u8 OpReconcileEnqueue = 26"
| "wal_op_kind_u8 OpReconcileDequeue = 27"
| "wal_op_kind_u8 OpReconcileMove = 28"
| "wal_op_kind_u8 OpReconcileScanStep = 29"
| "wal_op_kind_u8 OpFormatPromote = 30"
| "wal_op_kind_u8 OpCheckpoint = 31"

definition wal_op_kind_from_u8 :: "u8 \<Rightarrow> (wal_error, wal_op_kind) res" where
  "wal_op_kind_from_u8 v =
     (if v = 0 then ok OpCreateObject else
      if v = 1 then ok OpDeleteObject else
      if v = 2 then ok OpAddTag else
      if v = 3 then ok OpRemoveTag else
      if v = 4 then ok OpSetAttr else
      if v = 5 then ok OpRemoveAttr else
      if v = 6 then ok OpAddRelation else
      if v = 7 then ok OpRemoveRelation else
      if v = 8 then ok OpWriteBlob else
      if v = 9 then ok OpChunkInsertBatch else
      if v = 10 then ok OpChunkListAppend else
      if v = 11 then ok OpChunkListReplace else
      if v = 12 then ok OpChunkListShrink else
      if v = 13 then ok OpChunkObjectFinalize else
      if v = 14 then ok OpBucketAlloc else
      if v = 15 then ok OpBucketWrite else
      if v = 16 then ok OpBucketGenBump else
      if v = 17 then ok OpBucketDiscard else
      if v = 18 then ok OpBackpointerInsert else
      if v = 19 then ok OpBackpointerRemove else
      if v = 20 then ok OpTagBitmapGrow else
      if v = 21 then ok OpTagBitmapShrink else
      if v = 22 then ok OpSnapshotCreate else
      if v = 23 then ok OpSnapshotDelete else
      if v = 24 then ok OpSnapshotUnlink else
      if v = 25 then ok OpSnapshotDepthUpdate else
      if v = 26 then ok OpReconcileEnqueue else
      if v = 27 then ok OpReconcileDequeue else
      if v = 28 then ok OpReconcileMove else
      if v = 29 then ok OpReconcileScanStep else
      if v = 30 then ok OpFormatPromote else
      if v = 31 then ok OpCheckpoint else
      err (InvalidOpKind v))"

section \<open>WalEntryHeader\<close>

text \<open>The wire timestamp: \<open>i64\<close>, two \<open>u16\<close> and a zero pad word.\<close>

record wal_ts_wire =
  tw_physical_ns :: int
  tw_logical :: u16
  tw_node_id :: u16
  tw_pad :: u32

definition ts_from_logical :: "hybrid_timestamp \<Rightarrow> wal_ts_wire" where
  "ts_from_logical ts = \<lparr>tw_physical_ns = physical_ns ts, tw_logical = logical ts,
     tw_node_id = node_id ts, tw_pad = 0\<rparr>"

definition ts_to_logical :: "wal_ts_wire \<Rightarrow> hybrid_timestamp" where
  "ts_to_logical w = HybridTimestamp (tw_physical_ns w) (tw_logical w) (tw_node_id w)"

record wal_entry_header =
  eh_magic :: "byte list"
  eh_op_kind :: u8
  eh_format_version :: u8
  eh_flags :: u16
  eh_lsn :: u64
  eh_timestamp :: wal_ts_wire
  eh_payload_length :: u32
  eh_payload_crc :: u32

definition ts_wire_ok :: "wal_ts_wire \<Rightarrow> bool" where
  "ts_wire_ok w \<longleftrightarrow> i64_ok (tw_physical_ns w) \<and> tw_logical w < 2 ^ 16 \<and> tw_node_id w < 2 ^ 16 \<and> tw_pad w < 2 ^ 32"

definition entry_header_ok :: "wal_entry_header \<Rightarrow> bool" where
  "entry_header_ok h \<longleftrightarrow> length (eh_magic h) = 4 \<and> eh_op_kind h < 2 ^ 8 \<and> eh_format_version h < 2 ^ 8 \<and>
     eh_flags h < 2 ^ 16 \<and> eh_lsn h < 2 ^ 64 \<and> ts_wire_ok (eh_timestamp h) \<and>
     eh_payload_length h < 2 ^ 32 \<and> eh_payload_crc h < 2 ^ 32"

definition ts_wire_bytes :: "wal_ts_wire \<Rightarrow> byte list" where
  "ts_wire_bytes w = i64_bytes (tw_physical_ns w) @ le_bytes 2 (tw_logical w) @
     le_bytes 2 (tw_node_id w) @ le_bytes 4 (tw_pad w)"

definition ts_wire_of :: "byte list \<Rightarrow> wal_ts_wire" where
  "ts_wire_of bs = \<lparr>tw_physical_ns = i64_of (bslice 0 8 bs), tw_logical = get_le 8 2 bs,
     tw_node_id = get_le 10 2 bs, tw_pad = get_le 12 4 bs\<rparr>"

definition entry_header_bytes :: "wal_entry_header \<Rightarrow> byte list" where
  "entry_header_bytes h = eh_magic h @ le_bytes 1 (eh_op_kind h) @ le_bytes 1 (eh_format_version h) @
     le_bytes 2 (eh_flags h) @ le_bytes 8 (eh_lsn h) @ ts_wire_bytes (eh_timestamp h) @
     le_bytes 4 (eh_payload_length h) @ le_bytes 4 (eh_payload_crc h)"

definition entry_header_of :: "byte list \<Rightarrow> wal_entry_header" where
  "entry_header_of bs = \<lparr>eh_magic = bslice 0 4 bs, eh_op_kind = get_le 4 1 bs,
     eh_format_version = get_le 5 1 bs, eh_flags = get_le 6 2 bs, eh_lsn = get_le 8 8 bs,
     eh_timestamp = ts_wire_of (bslice 16 16 bs), eh_payload_length = get_le 32 4 bs,
     eh_payload_crc = get_le 36 4 bs\<rparr>"

definition entry_header_new ::
  "wal_op_kind \<Rightarrow> u16 \<Rightarrow> u64 \<Rightarrow> hybrid_timestamp \<Rightarrow> u32 \<Rightarrow> wal_entry_header" where
  "entry_header_new op_kind flags lsn timestamp payload_length =
     \<lparr>eh_magic = WAL_ENTRY_MAGIC, eh_op_kind = wal_op_kind_u8 op_kind,
      eh_format_version = WAL_ENTRY_FORMAT_VERSION, eh_flags = flags, eh_lsn = lsn,
      eh_timestamp = ts_from_logical timestamp, eh_payload_length = payload_length,
      eh_payload_crc = 0\<rparr>"

definition check_magic :: "wal_entry_header \<Rightarrow> (wal_error, unit) res" where
  "check_magic h = (if eh_magic h = WAL_ENTRY_MAGIC then ok ()
     else err (WalInvalidMagic WAL_ENTRY_MAGIC (eh_magic h)))"

section \<open>WalHeader\<close>

record wal_header =
  wh_header :: block_header
  wh_next_lsn :: u64
  wh_write_cursor :: u64
  wh_read_cursor :: u64
  wh_used_bytes :: u64
  wh_last_checkpoint_lsn :: u64
  wh_segment_size :: u32
  wh_pad :: u32
  wh_encryption_keyid :: "byte list"
  wh_reserved :: "byte list"
  wh_crc :: u32

definition wal_header_ok :: "wal_header \<Rightarrow> bool" where
  "wal_header_ok h \<longleftrightarrow> block_header_ok (wh_header h) \<and> wh_next_lsn h < 2 ^ 64 \<and>
     wh_write_cursor h < 2 ^ 64 \<and> wh_read_cursor h < 2 ^ 64 \<and> wh_used_bytes h < 2 ^ 64 \<and>
     wh_last_checkpoint_lsn h < 2 ^ 64 \<and> wh_segment_size h < 2 ^ 32 \<and> wh_pad h < 2 ^ 32 \<and>
     length (wh_encryption_keyid h) = 16 \<and> length (wh_reserved h) = 3996 \<and> wh_crc h < 2 ^ 32"

definition wal_header_default :: wal_header where
  "wal_header_default =
     \<lparr>wh_header = block_header_new KWalSegment WAL_HEADER_FORMAT_VERSION 0, wh_next_lsn = 1,
      wh_write_cursor = 0, wh_read_cursor = 0, wh_used_bytes = 0, wh_last_checkpoint_lsn = 0,
      wh_segment_size = 1024 * 1024, wh_pad = 0, wh_encryption_keyid = replicate 16 0,
      wh_reserved = replicate 3996 0, wh_crc = 0\<rparr>"

definition wal_header_body :: "wal_header \<Rightarrow> byte list" where
  "wal_header_body h = block_header_bytes (wh_header h) @ le_bytes 8 (wh_next_lsn h) @
     le_bytes 8 (wh_write_cursor h) @ le_bytes 8 (wh_read_cursor h) @ le_bytes 8 (wh_used_bytes h) @
     le_bytes 8 (wh_last_checkpoint_lsn h) @ le_bytes 4 (wh_segment_size h) @ le_bytes 4 (wh_pad h) @
     wh_encryption_keyid h @ wh_reserved h"

definition wal_header_bytes :: "wal_header \<Rightarrow> byte list" where
  "wal_header_bytes h = wal_header_body h @ le_bytes 4 (wh_crc h)"

definition wal_header_of :: "byte list \<Rightarrow> wal_header" where
  "wal_header_of bs = \<lparr>wh_header = block_header_of bs, wh_next_lsn = get_le 32 8 bs,
     wh_write_cursor = get_le 40 8 bs, wh_read_cursor = get_le 48 8 bs,
     wh_used_bytes = get_le 56 8 bs, wh_last_checkpoint_lsn = get_le 64 8 bs,
     wh_segment_size = get_le 72 4 bs, wh_pad = get_le 76 4 bs,
     wh_encryption_keyid = bslice 80 16 bs, wh_reserved = bslice 96 3996 bs,
     wh_crc = get_le 4092 4 bs\<rparr>"

definition wal_header_recompute_crc :: "(byte list \<Rightarrow> u32) \<Rightarrow> wal_header \<Rightarrow> wal_header" where
  "wal_header_recompute_crc crc h =
     (let h0 = h\<lparr>wh_crc := 0\<rparr> in h0\<lparr>wh_crc := crc (take 4092 (wal_header_bytes h0))\<rparr>)"

definition wal_header_verify_crc :: "(byte list \<Rightarrow> u32) \<Rightarrow> wal_header \<Rightarrow> (wal_error, unit) res" where
  "wal_header_verify_crc crc h =
     (let expected = wh_crc h; actual = crc (take 4092 (wal_header_bytes (h\<lparr>wh_crc := 0\<rparr>)))
      in if expected = actual then ok () else err (WalCrcMismatch expected actual))"

definition wal_header_verify_kind :: "wal_header \<Rightarrow> (wal_error, unit) res" where
  "wal_header_verify_kind h =
     rbind (map_err Storage (block_kind_from_u16 (bp_kind (bh_pre (wh_header h))))) (\<lambda>kind.
     if kind \<noteq> KWalSegment then err (WalInvalidMagic WAL_ENTRY_MAGIC [0, 0, 0, 0])
     else let version = bp_format_version (bh_pre (wh_header h)) in
       if version \<noteq> WAL_HEADER_FORMAT_VERSION then err (WalUnsupportedFormatVersion version)
       else ok ())"

section \<open>Lemmas\<close>

lemma wal_op_kind_u8_less: "wal_op_kind_u8 k < 32"
  by (cases k) auto

lemma wal_op_kind_from_u8_u8: "wal_op_kind_from_u8 (wal_op_kind_u8 k) = ok k"
  by (cases k) (simp_all add: wal_op_kind_from_u8_def)

lemma ts_from_logical_ok: "ts_ok ts \<Longrightarrow> ts_wire_ok (ts_from_logical ts)"
  by (simp add: ts_ok_def ts_wire_ok_def ts_from_logical_def)

lemma ts_to_from_logical [simp]: "ts_to_logical (ts_from_logical ts) = ts"
  by (simp add: ts_to_logical_def ts_from_logical_def)

lemma length_ts_wire_bytes [simp]: "length (ts_wire_bytes w) = 16"
  by (simp add: ts_wire_bytes_def)

lemma ts_wire_of_bytes [simp]: "ts_wire_ok w \<Longrightarrow> ts_wire_of (ts_wire_bytes w) = w"
  by (simp add: ts_wire_ok_def ts_wire_bytes_def ts_wire_of_def get_le_def bslice_def)

lemma length_entry_header_bytes [codec_simps]:
  "entry_header_ok h \<Longrightarrow> length (entry_header_bytes h) = 40"
  by (simp add: entry_header_ok_def entry_header_bytes_def)

lemma entry_header_of_append [codec_simps]:
  "entry_header_ok h \<Longrightarrow> entry_header_of (entry_header_bytes h @ rest) = h"
  by (simp add: entry_header_ok_def entry_header_bytes_def entry_header_of_def get_le_def bslice_def)

lemma length_wal_header_body: "wal_header_ok h \<Longrightarrow> length (wal_header_body h) = 4092"
  by (simp add: wal_header_ok_def wal_header_body_def length_block_header_bytes)

lemma length_wal_header_bytes [codec_simps]: "wal_header_ok h \<Longrightarrow> length (wal_header_bytes h) = 4096"
  by (simp add: wal_header_bytes_def length_wal_header_body)

lemma wal_header_of_bytes [codec_simps]: "wal_header_ok h \<Longrightarrow> wal_header_of (wal_header_bytes h) = h"
  by (simp add: wal_header_ok_def wal_header_bytes_def wal_header_body_def wal_header_of_def
      get_le_def bslice_def block_header_of_append length_block_header_bytes)

lemma wal_header_body_crc [simp]: "wal_header_body (h\<lparr>wh_crc := c\<rparr>) = wal_header_body h"
  by (simp add: wal_header_body_def)

lemma recompute_crc_ok: "crc_ok crc \<Longrightarrow> wal_header_ok h \<Longrightarrow> wal_header_ok (wal_header_recompute_crc crc h)"
  by (simp add: crc_ok_def wal_header_ok_def wal_header_recompute_crc_def Let_def)

lemma verify_recompute_crc [simp]:
  "wal_header_verify_crc crc (wal_header_recompute_crc crc h) = ok ()"
  by (simp add: wal_header_verify_crc_def wal_header_recompute_crc_def Let_def wal_header_bytes_def)

lemma verify_kind_iff:
  "wal_header_verify_kind h = ok () \<longleftrightarrow>
     bp_kind (bh_pre (wh_header h)) = 3 \<and> bp_format_version (bh_pre (wh_header h)) = 1"
proof -
  have "block_kind_from_u16 3 = ok KWalSegment" by (simp add: block_kind_from_u16_def)
  then show ?thesis
    by (cases "block_kind_from_u16 (bp_kind (bh_pre (wh_header h)))")
      (auto simp: wal_header_verify_kind_def map_err_def Let_def split: failure.splits
        dest: block_kind_from_u16_Inr)
qed

lemma wal_header_default_ok: "wal_header_ok wal_header_default"
  by (simp add: wal_header_ok_def wal_header_default_def block_header_new_ok)

end
