(* ===== verification/Mb_Device.thy ===== *)
theory Mb_Device
  imports Mb_Block
begin

text \<open>
  The block-device interface (\<open>crates/storage/src/block_device.rs\<close>) and its
  file-backed implementation (\<open>file_device.rs\<close>).

  A \<open>&dyn BlockDevice\<close> is a table of operations over a device state \<open>'d\<close>; code
  that takes one is modelled by a definition that takes such a table. The locale
  \<open>block_dev\<close> states what callers may rely on, over the byte image \<open>image\<close> of
  the device; \<open>FileBlockDevice\<close> is shown to provide it.

  The host file is a byte list. Failures of the host (a failing \<open>seek\<close>, a full disk)
  are not modelled, except the end-of-file failure of \<open>read_exact\<close>.
\<close>

section \<open>The BlockDevice trait\<close>

record 'd block_device =
  read_at :: "'d \<Rightarrow> u64 \<Rightarrow> nat \<Rightarrow> (storage_error, byte list) res"
  write_at :: "'d \<Rightarrow> u64 \<Rightarrow> byte list \<Rightarrow> (storage_error, 'd) res"
  dev_capacity :: "'d \<Rightarrow> u64"
  dev_sync :: "'d \<Rightarrow> (storage_error, 'd) res"

section \<open>FileBlockDevice\<close>

record file_device =
  fd_file :: "byte list"
  fd_capacity :: u64
  fd_read_only :: bool

text \<open>\<open>File::set_len\<close> on a file that is too short pads it with zeros.\<close>

definition extend_file :: "byte list \<Rightarrow> nat \<Rightarrow> byte list" where
  "extend_file f n = (if length f < n then f @ replicate (n - length f) 0 else f)"

definition file_device_open :: "byte list \<Rightarrow> u64 \<Rightarrow> file_device" where
  "file_device_open f capacity =
     (if capacity = 0 then \<lparr>fd_file = f, fd_capacity = length f, fd_read_only = False\<rparr>
      else \<lparr>fd_file = extend_file f capacity, fd_capacity = capacity, fd_read_only = False\<rparr>)"

definition file_device_open_read_only :: "byte list \<Rightarrow> file_device" where
  "file_device_open_read_only f = \<lparr>fd_file = f, fd_capacity = length f, fd_read_only = True\<rparr>"

definition file_device_from_file :: "byte list \<Rightarrow> u64 \<Rightarrow> file_device" where
  "file_device_from_file f capacity =
     \<lparr>fd_file = extend_file f capacity, fd_capacity = capacity, fd_read_only = False\<rparr>"

definition file_read_at :: "file_device \<Rightarrow> u64 \<Rightarrow> nat \<Rightarrow> (storage_error, byte list) res" where
  "file_read_at dev offset n =
     rbind (add_u64 offset n) (\<lambda>end.
     if end > fd_capacity dev then err (OutOfBounds offset n (fd_capacity dev))
     else if offset + n \<le> length (fd_file dev) then ok (bslice offset n (fd_file dev))
     else err (Io ''unexpected end of file''))"

text \<open>Writing past the end of the file fills the gap with zeros.\<close>

definition file_write_at :: "file_device \<Rightarrow> u64 \<Rightarrow> byte list \<Rightarrow> (storage_error, file_device) res" where
  "file_write_at dev offset buf =
     (if fd_read_only dev then err ReadOnly
      else rbind (add_u64 offset (length buf)) (\<lambda>end.
      if end > fd_capacity dev then err (OutOfBounds offset (length buf) (fd_capacity dev))
      else ok (dev\<lparr>fd_file := bsplice offset buf (extend_file (fd_file dev) offset)\<rparr>)))"

definition file_sync :: "file_device \<Rightarrow> (storage_error, file_device) res" where
  "file_sync dev = (if fd_read_only dev then err ReadOnly else ok dev)"

definition file_block_device :: "file_device block_device" where
  "file_block_device = \<lparr>read_at = file_read_at, write_at = file_write_at,
     dev_capacity = fd_capacity, dev_sync = file_sync\<rparr>"

text \<open>The state every constructor above establishes: the file backs the whole capacity.\<close>

definition file_device_inv :: "file_device \<Rightarrow> bool" where
  "file_device_inv dev \<longleftrightarrow> fd_capacity dev \<le> length (fd_file dev) \<and> fd_capacity dev < 2 ^ 64"

definition fd_writable :: "file_device \<Rightarrow> bool" where
  "fd_writable dev \<longleftrightarrow> \<not> fd_read_only dev"

section \<open>What a block device promises\<close>

locale block_dev =
  fixes ops :: "'d block_device"
    and image :: "'d \<Rightarrow> byte list"
    and dinv :: "'d \<Rightarrow> bool"
    and writable :: "'d \<Rightarrow> bool"
  assumes cap_image: "dinv d \<Longrightarrow> dev_capacity ops d \<le> length (image d)"
    and cap_u64: "dinv d \<Longrightarrow> dev_capacity ops d < 2 ^ 64"
    and read_in: "dinv d \<Longrightarrow> off + n \<le> dev_capacity ops d \<Longrightarrow>
      read_at ops d off n = Inr (bslice off n (image d))"
    and read_out: "dinv d \<Longrightarrow> dev_capacity ops d < off + n \<Longrightarrow> \<exists>e. read_at ops d off n = Inl e"
    and write_in: "dinv d \<Longrightarrow> writable d \<Longrightarrow> off + length bs \<le> dev_capacity ops d \<Longrightarrow>
      \<exists>d'. write_at ops d off bs = Inr d' \<and> dinv d' \<and> writable d' \<and>
        dev_capacity ops d' = dev_capacity ops d \<and> image d' = bsplice off bs (image d)"
    and write_bad: "dinv d \<Longrightarrow> dev_capacity ops d < off + length bs \<or> \<not> writable d \<Longrightarrow>
      \<exists>e. write_at ops d off bs = Inl e"
    and sync_ok: "dinv d \<Longrightarrow> writable d \<Longrightarrow> dev_sync ops d = Inr d"
begin

lemma read_success:
  assumes "dinv d" and "read_at ops d off n = Inr bs"
  shows "off + n \<le> dev_capacity ops d" and "bs = bslice off n (image d)"
proof -
  show le: "off + n \<le> dev_capacity ops d"
    using assms read_out [of d off n] by (cases "off + n \<le> dev_capacity ops d") auto
  show "bs = bslice off n (image d)"
    using assms read_in [OF assms(1) le] by simp
qed

lemma write_success:
  assumes "dinv d" and "write_at ops d off bs = Inr d'"
  shows "writable d" and "off + length bs \<le> dev_capacity ops d"
    and "dinv d'" and "writable d'" and "dev_capacity ops d' = dev_capacity ops d"
    and "image d' = bsplice off bs (image d)"
proof -
  show w: "writable d" and le: "off + length bs \<le> dev_capacity ops d"
    using assms write_bad [of d off bs] by (force simp: not_less)+
  from write_in [OF assms(1) w le] assms(2)
  show "dinv d'" and "writable d'" and "dev_capacity ops d' = dev_capacity ops d"
    and "image d' = bsplice off bs (image d)" by auto
qed

text \<open>Reading back a range after writing it, and ranges a write leaves alone.\<close>

lemma read_after_write:
  assumes "dinv d" and "write_at ops d off bs = Inr d'"
  shows "read_at ops d' off (length bs) = Inr bs"
proof -
  note w = write_success [OF assms]
  have "off + length bs \<le> length (image d)"
    using w(2) cap_image [OF assms(1)] by simp
  then show ?thesis
    using w read_in [of d' off "length bs"] by simp
qed

lemma read_other_after_write:
  assumes "dinv d" and "write_at ops d off bs = Inr d'"
    and "a + n \<le> off \<or> off + length bs \<le> a"
  shows "read_at ops d' a n = read_at ops d a n \<or> dev_capacity ops d < a + n"
proof (cases "a + n \<le> dev_capacity ops d")
  case True
  note w = write_success [OF assms(1,2)]
  have "off + length bs \<le> length (image d)"
    using w(2) cap_image [OF assms(1)] by simp
  with assms(3) w True show ?thesis
    by (simp add: read_in assms(1) bslice_bsplice_other)
next
  case False
  then show ?thesis by simp
qed

end

section \<open>FileBlockDevice provides it\<close>

lemma extend_file_id [simp]: "n \<le> length f \<Longrightarrow> extend_file f n = f"
  by (simp add: extend_file_def)

lemma length_extend_file [simp]: "length (extend_file f n) = max (length f) n"
  by (simp add: extend_file_def)

lemma file_device_open_inv:
  "length f < 2 ^ 64 \<Longrightarrow> capacity < 2 ^ 64 \<Longrightarrow> file_device_inv (file_device_open f capacity)"
  by (simp add: file_device_inv_def file_device_open_def)

lemma file_device_from_file_inv:
  "capacity < 2 ^ 64 \<Longrightarrow> file_device_inv (file_device_from_file f capacity)"
  by (simp add: file_device_inv_def file_device_from_file_def)

lemma file_write_at_ok:
  assumes "file_device_inv d" and "\<not> fd_read_only d" and "off + length bs \<le> fd_capacity d"
  shows "file_write_at d off bs = Inr (d\<lparr>fd_file := bsplice off bs (fd_file d)\<rparr>)"
  using assms by (simp add: file_write_at_def file_device_inv_def)

lemma file_capacity [simp]: "dev_capacity file_block_device = fd_capacity"
  by (simp add: file_block_device_def)

interpretation fdev: block_dev file_block_device fd_file file_device_inv fd_writable
proof
  fix d off n bs
  assume inv: "file_device_inv d"
  then have small: "fd_capacity d < 2 ^ 64" and backed: "fd_capacity d \<le> length (fd_file d)"
    by (auto simp: file_device_inv_def)
  show "dev_capacity file_block_device d \<le> length (fd_file d)"
    and "dev_capacity file_block_device d < 2 ^ 64"
    using small backed by (simp_all add: file_block_device_def)
  show "read_at file_block_device d off n = Inr (bslice off n (fd_file d))"
    if "off + n \<le> dev_capacity file_block_device d"
    using that small backed by (simp add: file_block_device_def file_read_at_def)
  show "\<exists>e. read_at file_block_device d off n = Inl e"
    if "dev_capacity file_block_device d < off + n"
    using that by (simp add: file_block_device_def file_read_at_def add_u64_def)
  show "\<exists>d'. write_at file_block_device d off bs = Inr d' \<and> file_device_inv d' \<and> fd_writable d' \<and>
      dev_capacity file_block_device d' = dev_capacity file_block_device d \<and>
      fd_file d' = bsplice off bs (fd_file d)"
    if "fd_writable d" and "off + length bs \<le> dev_capacity file_block_device d"
    using that inv backed
    by (simp add: file_block_device_def fd_writable_def file_write_at_ok file_device_inv_def)
  show "\<exists>e. write_at file_block_device d off bs = Inl e"
    if "dev_capacity file_block_device d < off + length bs \<or> \<not> fd_writable d"
    using that by (auto simp: file_block_device_def fd_writable_def file_write_at_def add_u64_def)
  show "dev_sync file_block_device d = Inr d" if "fd_writable d"
    using that by (simp add: file_block_device_def fd_writable_def file_sync_def)
qed

end
