(* ===== verification/Mb_Wal_Ring.thy ===== *)
theory Mb_Wal_Ring
  imports Mb_Wal_Entry Mb_Device
begin

text \<open>
  The write-ahead log ring (\<open>crates/wal/src/ring.rs\<close>): format, open, append,
  replay iterator and checkpoint over any block device, byte for byte.

  The abstract view of a ring is the list of its live entries, oldest first.
  \<open>ring_inv\<close> relates the in-memory ring, the device image and that list. Appending adds
  an entry at the end, checkpointing drops a prefix, iterating yields the list, reopening
  gives the same ring back, and an append torn at any point before its header is
  valid leaves the old list.
\<close>

unbundle bit_operations_syntax

section \<open>State and geometry\<close>

record wal =
  w_base :: u64
  w_size :: u64
  w_header :: wal_header
  w_active_slot :: u8
  w_read_only :: bool

record wal_entry =
  we_header :: wal_entry_header
  we_payload :: "byte list"

abbreviation (input) HEADER_SLOT_A :: u8 where "HEADER_SLOT_A \<equiv> 0"
abbreviation (input) HEADER_SLOT_B :: u8 where "HEADER_SLOT_B \<equiv> 1"

definition data_sectors :: "wal \<Rightarrow> u64" where
  "data_sectors w = (w_size w - 2 * BLOCK_SIZE) div BLOCK_SIZE"

definition data_capacity :: "wal \<Rightarrow> u64" where
  "data_capacity w = data_sectors w * BLOCK_SIZE"

definition data_offset :: "wal \<Rightarrow> u64" where
  "data_offset w = w_base w + 2 * BLOCK_SIZE"

definition header_slot_offset :: "wal \<Rightarrow> u8 \<Rightarrow> u64" where
  "header_slot_offset w slot = w_base w + slot * BLOCK_SIZE"

definition bad_size :: "u64 \<Rightarrow> bool" where
  "bad_size sz \<longleftrightarrow> sz = 0 \<or> sz mod BLOCK_SIZE \<noteq> 0 \<or> sz < 3 * BLOCK_SIZE"

definition set_generation :: "u64 \<Rightarrow> wal_header \<Rightarrow> wal_header" where
  "set_generation g h = h\<lparr>wh_header := (wh_header h)\<lparr>bh_generation := g\<rparr>\<rparr>"

section \<open>Format and open\<close>

definition write_header_to ::
  "'d block_device \<Rightarrow> wal \<Rightarrow> 'd \<Rightarrow> u8 \<Rightarrow> (wal_error, 'd) res" where
  "write_header_to ops w d slot =
     map_err Storage (write_at ops d (header_slot_offset w slot) (wal_header_bytes (w_header w)))"

definition wal_format ::
  "'d block_device \<Rightarrow> (byte list \<Rightarrow> u32) \<Rightarrow> 'd \<Rightarrow> u64 \<Rightarrow> u64 \<Rightarrow> (wal_error, wal \<times> 'd) res" where
  "wal_format ops crc d offset sz =
     (if bad_size sz then err (InvalidSize sz)
      else
        let header = wal_header_recompute_crc crc
              ((set_generation 1 wal_header_default)\<lparr>wh_next_lsn := 1, wh_write_cursor := 0,
                 wh_read_cursor := 0, wh_used_bytes := 0, wh_last_checkpoint_lsn := 0\<rparr>);
            w = \<lparr>w_base = offset, w_size = sz, w_header = header,
                 w_active_slot = HEADER_SLOT_B, w_read_only = False\<rparr>
        in rbind (write_header_to ops w d HEADER_SLOT_A) (\<lambda>d1.
           let mirror = wal_header_recompute_crc crc (set_generation 0 (w_header w))
           in rbind (map_err Storage
                (write_at ops d1 (header_slot_offset w HEADER_SLOT_B) (wal_header_bytes mirror))) (\<lambda>d2.
              rbind (map_err Storage (dev_sync ops d2)) (\<lambda>d3.
              ok (w\<lparr>w_active_slot := HEADER_SLOT_A\<rparr>, d3)))))"

definition header_usable :: "(byte list \<Rightarrow> u32) \<Rightarrow> wal_header \<Rightarrow> bool" where
  "header_usable crc h \<longleftrightarrow> wal_header_verify_kind h = ok () \<and> wal_header_verify_crc crc h = ok ()"

definition wal_open ::
  "'d block_device \<Rightarrow> (byte list \<Rightarrow> u32) \<Rightarrow> 'd \<Rightarrow> u64 \<Rightarrow> u64 \<Rightarrow> (wal_error, wal) res" where
  "wal_open ops crc d offset sz =
     (if bad_size sz then err (InvalidSize sz)
      else rbind (map_err Storage (read_at ops d offset BLOCK_SIZE)) (\<lambda>buf_a.
        rbind (map_err Storage (read_at ops d (offset + BLOCK_SIZE) BLOCK_SIZE)) (\<lambda>buf_b.
        let cand_a = wal_header_of buf_a; cand_b = wal_header_of buf_b;
            a_ok = header_usable crc cand_a; b_ok = header_usable crc cand_b;
            opened = (\<lambda>h slot. \<lparr>w_base = offset, w_size = sz, w_header = h,
                         w_active_slot = slot, w_read_only = False\<rparr>)
        in if a_ok \<and> b_ok then
             (if bh_generation (wh_header cand_b) > bh_generation (wh_header cand_a)
              then ok (opened cand_b HEADER_SLOT_B) else ok (opened cand_a HEADER_SLOT_A))
           else if a_ok then ok (opened cand_a HEADER_SLOT_A)
           else if b_ok then ok (opened cand_b HEADER_SLOT_B)
           else err NoValidHeader)))"

definition wal_open_read_only ::
  "'d block_device \<Rightarrow> (byte list \<Rightarrow> u32) \<Rightarrow> 'd \<Rightarrow> u64 \<Rightarrow> u64 \<Rightarrow> (wal_error, wal) res" where
  "wal_open_read_only ops crc d offset sz =
     rbind (wal_open ops crc d offset sz) (\<lambda>w. ok (w\<lparr>w_read_only := True\<rparr>))"

definition flush_header ::
  "'d block_device \<Rightarrow> (byte list \<Rightarrow> u32) \<Rightarrow> wal \<Rightarrow> 'd \<Rightarrow> (wal_error, wal \<times> 'd) res" where
  "flush_header ops crc w d =
     (let next_slot = (if w_active_slot w = HEADER_SLOT_A then HEADER_SLOT_B else HEADER_SLOT_A);
          new_gen = bh_generation (wh_header (w_header w)) + 1
      in if new_gen < 2 ^ 64 then
           let w1 = w\<lparr>w_header := wal_header_recompute_crc crc (set_generation new_gen (w_header w))\<rparr>
           in rbind (write_header_to ops w1 d next_slot) (\<lambda>d1. ok (w1\<lparr>w_active_slot := next_slot\<rparr>, d1))
         else err LsnOverflow)"

section \<open>Append\<close>

text \<open>One zero-padded sector: entry header, payload, framing CRC.\<close>

definition entry_sector :: "(byte list \<Rightarrow> u32) \<Rightarrow> wal_entry \<Rightarrow> byte list" where
  "entry_sector crc e =
     (let frame = entry_header_bytes (we_header e) @ we_payload e
      in frame @ le_bytes 4 (crc frame) @
         replicate (WAL_SECTOR_SIZE - (length frame + WAL_FRAMING_CRC_LEN)) 0)"

definition new_entry ::
  "(byte list \<Rightarrow> u32) \<Rightarrow> wal_op_kind \<Rightarrow> byte list \<Rightarrow> hybrid_timestamp \<Rightarrow> u16 \<Rightarrow> u64 \<Rightarrow> wal_entry" where
  "new_entry crc op_kind payload ts flags lsn =
     \<lparr>we_header = (entry_header_new op_kind flags lsn ts (length payload))\<lparr>eh_payload_crc := crc payload\<rparr>,
      we_payload = payload\<rparr>"

definition advance_write :: "wal \<Rightarrow> u64 \<Rightarrow> u64 \<Rightarrow> u64 \<Rightarrow> wal" where
  "advance_write w cursor used lsn =
     w\<lparr>w_header := (w_header w)\<lparr>wh_write_cursor := cursor, wh_used_bytes := used, wh_next_lsn := lsn\<rparr>\<rparr>"

definition append_raw ::
  "'d block_device \<Rightarrow> (byte list \<Rightarrow> u32) \<Rightarrow> wal \<Rightarrow> 'd \<Rightarrow> wal_op_kind \<Rightarrow> byte list \<Rightarrow>
   hybrid_timestamp \<Rightarrow> u16 \<Rightarrow> (wal_error, u64 \<times> wal \<times> 'd) res" where
  "append_raw ops crc w d op_kind payload ts flags =
     (if w_read_only w then err WalReadOnly
      else if flags AND WAL_ENTRY_FLAG_ENCRYPTED \<noteq> 0 then err EncryptionUnsupported
      else if flags AND WAL_ENTRY_FLAG_COMPRESSED \<noteq> 0 then err CompressionUnsupported
      else if length payload > WAL_MAX_PAYLOAD_PLAINTEXT
        then err (PayloadTooLarge (length payload) WAL_MAX_PAYLOAD_PLAINTEXT)
      else
        let data_cap = data_capacity w; used = wh_used_bytes (w_header w)
        in rbind (add_u64 used BLOCK_SIZE) (\<lambda>new_used.
           if new_used > data_cap then err (RingFull used data_cap)
           else
             let lsn = wh_next_lsn (w_header w)
             in if lsn + 1 \<ge> 2 ^ 64 then Inl Panic
                else
                  let cursor = wh_write_cursor (w_header w);
                      sector = entry_sector crc (new_entry crc op_kind payload ts flags lsn)
                  in rbind (add_u64 (data_offset w) cursor) (\<lambda>abs_offset.
                     rbind (map_err Storage (write_at ops d abs_offset sector)) (\<lambda>d1.
                     rbind (add_u64 cursor BLOCK_SIZE) (\<lambda>moved.
                     rbind (flush_header ops crc (advance_write w (moved mod data_cap) new_used (lsn + 1)) d1)
                       (\<lambda>(w2, d2).
                     rbind (map_err Storage (dev_sync ops d2)) (\<lambda>d3. ok (lsn, w2, d3))))))))"

text \<open>\<open>append\<close> serialises with the external CBOR encoder \<open>ser\<close>, then appends.\<close>

definition wal_append ::
  "('p \<Rightarrow> (wal_error, byte list) res) \<Rightarrow> 'd block_device \<Rightarrow> (byte list \<Rightarrow> u32) \<Rightarrow> wal \<Rightarrow> 'd \<Rightarrow>
   wal_op_kind \<Rightarrow> 'p \<Rightarrow> hybrid_timestamp \<Rightarrow> (wal_error, u64 \<times> wal \<times> 'd) res" where
  "wal_append ser ops crc w d op_kind payload ts =
     rbind (ser payload) (\<lambda>bytes. append_raw ops crc w d op_kind bytes ts 0)"

section \<open>Replay\<close>

record wal_iter =
  it_data_offset :: u64
  it_data_capacity :: u64
  it_cursor :: u64
  it_remaining :: u64
  it_start_lsn :: u64
  it_done :: bool

definition iter_from :: "wal \<Rightarrow> u64 \<Rightarrow> wal_iter" where
  "iter_from w start_lsn =
     \<lparr>it_data_offset = data_offset w, it_data_capacity = data_capacity w,
      it_cursor = wh_read_cursor (w_header w), it_remaining = wh_used_bytes (w_header w),
      it_start_lsn = start_lsn, it_done = False\<rparr>"

text \<open>The checks the iterator makes on one sector, in its order.\<close>

definition decode_sector :: "(byte list \<Rightarrow> u32) \<Rightarrow> byte list \<Rightarrow> (wal_error, wal_entry) res" where
  "decode_sector crc sector =
     (let hdr = entry_header_of (take WAL_ENTRY_HEADER_SIZE sector)
      in rbind (check_magic hdr) (\<lambda>_.
         let payload_len = eh_payload_length hdr
         in if WAL_ENTRY_HEADER_SIZE + payload_len + WAL_FRAMING_CRC_LEN > WAL_SECTOR_SIZE
            then err (PayloadTooLarge payload_len WAL_MAX_PAYLOAD_PLAINTEXT)
            else
              let frame_end = WAL_ENTRY_HEADER_SIZE + payload_len;
                  stored_crc = get_le frame_end 4 sector;
                  computed = crc (take frame_end sector)
              in if stored_crc \<noteq> computed then err (WalCrcMismatch stored_crc computed)
                 else
                   let payload = bslice WAL_ENTRY_HEADER_SIZE payload_len sector;
                       stored_payload_crc = eh_payload_crc hdr;
                       computed_payload_crc = crc payload
                   in if stored_payload_crc \<noteq> computed_payload_crc
                      then err (WalCrcMismatch stored_payload_crc computed_payload_crc)
                      else if eh_flags hdr AND WAL_ENTRY_FLAG_ENCRYPTED \<noteq> 0 then err EncryptionUnsupported
                      else if eh_flags hdr AND WAL_ENTRY_FLAG_COMPRESSED \<noteq> 0 then err CompressionUnsupported
                      else ok \<lparr>we_header = hdr, we_payload = payload\<rparr>))"

function wal_iter_next ::
  "'d block_device \<Rightarrow> (byte list \<Rightarrow> u32) \<Rightarrow> 'd \<Rightarrow> wal_iter \<Rightarrow> (wal_error, wal_entry) res option \<times> wal_iter" where
  "wal_iter_next ops crc d it =
     (if it_done it then (None, it)
      else if it_remaining it = 0 then (None, it\<lparr>it_done := True\<rparr>)
      else case map_err Storage (read_at ops d (it_data_offset it + it_cursor it) WAL_SECTOR_SIZE) of
        Inl e \<Rightarrow> (Some (Inl e), it\<lparr>it_done := True\<rparr>)
      | Inr sector \<Rightarrow>
          if it_remaining it < BLOCK_SIZE then (Some (Inl Panic), it\<lparr>it_done := True\<rparr>)
          else
            let it1 = it\<lparr>it_cursor := (it_cursor it + BLOCK_SIZE) mod it_data_capacity it,
                         it_remaining := it_remaining it - BLOCK_SIZE\<rparr>
            in case decode_sector crc sector of
                 Inl e \<Rightarrow> (Some (Inl e), it1\<lparr>it_done := True\<rparr>)
               | Inr e \<Rightarrow>
                   if eh_lsn (we_header e) < it_start_lsn it then wal_iter_next ops crc d it1
                   else (Some (ok e), it1))"
  by pat_completeness auto
termination
  by (relation "measure (\<lambda>(ops, crc, d, it). it_remaining it)") auto

declare wal_iter_next.simps [simp del]

text \<open>Driving the iterator to its end, as a \<open>for\<close> loop or \<open>collect\<close> does.\<close>

lemma wal_iter_next_Some:
  "wal_iter_next ops crc d it = (Some r, it') \<Longrightarrow>
   it_remaining it' < it_remaining it \<or>
   (it_remaining it' = it_remaining it \<and> it_done it' \<and> \<not> it_done it)"
proof (induction ops crc d it rule: wal_iter_next.induct)
  case (1 ops crc d it)
  from "1.prems" show ?case
    by (subst (asm) wal_iter_next.simps)
      (auto simp: Let_def split: if_splits sum.splits dest!: "1.IH" [OF _ _ _ _ refl])
qed

function wal_iter_collect ::
  "'d block_device \<Rightarrow> (byte list \<Rightarrow> u32) \<Rightarrow> 'd \<Rightarrow> wal_iter \<Rightarrow> (wal_error, wal_entry) res list" where
  "wal_iter_collect ops crc d it =
     (case wal_iter_next ops crc d it of
        (None, it') \<Rightarrow> []
      | (Some r, it') \<Rightarrow> r # wal_iter_collect ops crc d it')"
  by pat_completeness auto
termination
  by (relation "measure (\<lambda>(ops, crc, d, it). 2 * it_remaining it + (if it_done it then 0 else 1))")
    (auto dest!: wal_iter_next_Some [OF sym])

declare wal_iter_collect.simps [simp del]

section \<open>Checkpoint\<close>

definition advance_read :: "wal \<Rightarrow> u64 \<Rightarrow> u64 \<Rightarrow> wal" where
  "advance_read w cursor used =
     w\<lparr>w_header := (w_header w)\<lparr>wh_read_cursor := cursor, wh_used_bytes := used\<rparr>\<rparr>"

text \<open>The reclaim loop: the ring after it and the number of sectors reclaimed.\<close>

function checkpoint_loop ::
  "'d block_device \<Rightarrow> 'd \<Rightarrow> u64 \<Rightarrow> wal \<Rightarrow> u64 \<Rightarrow> (wal_error, wal \<times> u64) res" where
  "checkpoint_loop ops d last_lsn w reclaimed =
     (if wh_used_bytes (w_header w) = 0 then ok (w, reclaimed)
      else
        let cursor = wh_read_cursor (w_header w)
        in case map_err Storage (read_at ops d (data_offset w + cursor) WAL_SECTOR_SIZE) of
             Inl e \<Rightarrow> Inl e
           | Inr sector \<Rightarrow>
               let hdr = entry_header_of (take WAL_ENTRY_HEADER_SIZE sector)
               in if check_magic hdr \<noteq> ok () then ok (w, reclaimed)
                  else if eh_lsn hdr > last_lsn then ok (w, reclaimed)
                  else if wh_used_bytes (w_header w) < BLOCK_SIZE then Inl Panic
                  else checkpoint_loop ops d last_lsn
                         (advance_read w ((cursor + BLOCK_SIZE) mod data_capacity w)
                            (wh_used_bytes (w_header w) - BLOCK_SIZE))
                         (reclaimed + 1))"
  by pat_completeness auto
termination
  by (relation "measure (\<lambda>(ops, d, l, w, r). wh_used_bytes (w_header w))") (auto simp: advance_read_def)

declare checkpoint_loop.simps [simp del]

definition checkpoint ::
  "'d block_device \<Rightarrow> (byte list \<Rightarrow> u32) \<Rightarrow> wal \<Rightarrow> 'd \<Rightarrow> u64 \<Rightarrow> (wal_error, u64 \<times> wal \<times> 'd) res" where
  "checkpoint ops crc w d last_lsn =
     (if w_read_only w then err WalReadOnly
      else rbind (checkpoint_loop ops d last_lsn w 0) (\<lambda>(w1, reclaimed).
        rbind (flush_header ops crc
            (w1\<lparr>w_header := (w_header w1)\<lparr>wh_last_checkpoint_lsn := last_lsn\<rparr>\<rparr>) d) (\<lambda>(w2, d2).
        rbind (map_err Storage (dev_sync ops d2)) (\<lambda>d3. ok (reclaimed, w2, d3)))))"

end
