(* ===== verification/Mb_Wal_Inv.thy ===== *)
theory Mb_Wal_Inv
  imports Mb_Wal_Ring
begin

text \<open>
  The ring invariant and the refinement of the WAL ring to a list of entries, proved once for
  every block device that satisfies \<open>block_dev\<close>.
\<close>

unbundle bit_operations_syntax

section \<open>Invariant\<close>

definition entry_ok :: "(byte list \<Rightarrow> u32) \<Rightarrow> wal_entry \<Rightarrow> bool" where
  "entry_ok crc e \<longleftrightarrow> entry_header_ok (we_header e) \<and> eh_magic (we_header e) = WAL_ENTRY_MAGIC \<and>
     eh_payload_length (we_header e) = length (we_payload e) \<and> length (we_payload e) \<le> 4052 \<and>
     eh_payload_crc (we_header e) = crc (we_payload e) \<and>
     eh_flags (we_header e) AND 1 = 0 \<and> eh_flags (we_header e) AND 2 = 0"

definition entry_lsn :: "wal_entry \<Rightarrow> u64" where
  "entry_lsn e = eh_lsn (we_header e)"

text \<open>The reservation: whole sectors, at least one for data, inside the device.\<close>

definition geometry_ok :: "wal \<Rightarrow> u64 \<Rightarrow> bool" where
  "geometry_ok w cap \<longleftrightarrow> \<not> bad_size (w_size w) \<and> w_base w + w_size w \<le> cap \<and> cap < 2 ^ 64"

text \<open>Byte position in the data area of the sector \<open>i\<close> places after the read cursor.\<close>

definition sector_pos :: "wal \<Rightarrow> nat \<Rightarrow> nat" where
  "sector_pos w i = 4096 * ((wh_read_cursor (w_header w) div 4096 + i) mod data_sectors w)"

definition cursors_ok :: "wal \<Rightarrow> nat \<Rightarrow> bool" where
  "cursors_ok w n \<longleftrightarrow> wh_used_bytes (w_header w) = 4096 * n \<and> n \<le> data_sectors w \<and>
     wh_read_cursor (w_header w) = sector_pos w 0 \<and> wh_write_cursor (w_header w) = sector_pos w n"

definition lsns_ok :: "wal \<Rightarrow> wal_entry list \<Rightarrow> bool" where
  "lsns_ok w es \<longleftrightarrow> (\<forall>i<length es. entry_lsn (es ! i) + (length es - i) = wh_next_lsn (w_header w))"

definition data_ok :: "(byte list \<Rightarrow> u32) \<Rightarrow> wal \<Rightarrow> byte list \<Rightarrow> wal_entry list \<Rightarrow> bool" where
  "data_ok crc w img es \<longleftrightarrow> cursors_ok w (length es) \<and> lsns_ok w es \<and> (\<forall>e\<in>set es. entry_ok crc e) \<and>
     (\<forall>i<length es. bslice (data_offset w + sector_pos w i) 4096 img = entry_sector crc (es ! i))"

definition other_slot :: "u8 \<Rightarrow> u8" where
  "other_slot slot = (if slot = 0 then 1 else 0)"

definition slot_header :: "wal \<Rightarrow> byte list \<Rightarrow> u8 \<Rightarrow> wal_header" where
  "slot_header w img slot = wal_header_of (bslice (header_slot_offset w slot) 4096 img)"

text \<open>The active slot holds the current header; the other one is unusable or older.\<close>

definition headers_ok :: "(byte list \<Rightarrow> u32) \<Rightarrow> wal \<Rightarrow> byte list \<Rightarrow> bool" where
  "headers_ok crc w img \<longleftrightarrow> w_active_slot w < 2 \<and> wal_header_ok (w_header w) \<and>
     header_usable crc (w_header w) \<and>
     bslice (header_slot_offset w (w_active_slot w)) 4096 img = wal_header_bytes (w_header w) \<and>
     (let h = slot_header w img (other_slot (w_active_slot w))
      in header_usable crc h \<longrightarrow>
         bh_generation (wh_header h) < bh_generation (wh_header (w_header w)))"

definition ring_inv :: "(byte list \<Rightarrow> u32) \<Rightarrow> wal \<Rightarrow> byte list \<Rightarrow> u64 \<Rightarrow> wal_entry list \<Rightarrow> bool" where
  "ring_inv crc w img cap es \<longleftrightarrow> geometry_ok w cap \<and> headers_ok crc w img \<and> data_ok crc w img es"

section \<open>Sectors\<close>

lemma length_entry_sector: "entry_ok crc e \<Longrightarrow> length (entry_sector crc e) = 4096"
  by (simp add: entry_ok_def entry_sector_def Let_def length_entry_header_bytes)

lemma take_entry_sector:
  assumes "entry_ok crc e"
  shows "take 40 (entry_sector crc e) = entry_header_bytes (we_header e)"
    and "take (40 + length (we_payload e)) (entry_sector crc e) = entry_header_bytes (we_header e) @ we_payload e"
    and "bslice 40 (length (we_payload e)) (entry_sector crc e) = we_payload e"
    and "crc_ok crc \<Longrightarrow> get_le (40 + length (we_payload e)) 4 (entry_sector crc e) =
      crc (entry_header_bytes (we_header e) @ we_payload e)"
  using assms
  by (simp_all add: entry_ok_def entry_sector_def Let_def length_entry_header_bytes bslice_def get_le_def crc_ok_def)

lemma entry_header_of_bytes [simp]: "entry_header_ok h \<Longrightarrow> entry_header_of (entry_header_bytes h) = h"
  using entry_header_of_append [of h "[]"] by simp

text \<open>An intact sector decodes to the entry it was built from.\<close>

lemma decode_entry_sector:
  assumes "crc_ok crc" and "entry_ok crc e"
  shows "decode_sector crc (entry_sector crc e) = ok e"
  using assms take_entry_sector [OF assms(2)]
  by (simp add: decode_sector_def entry_ok_def check_magic_def Let_def)

lemma entry_lsn_of_sector:
  assumes "entry_ok crc e"
  shows "entry_header_of (take 40 (entry_sector crc e)) = we_header e"
  using assms take_entry_sector(1) [OF assms] by (simp add: entry_ok_def)

section \<open>Positions\<close>

lemma data_sectors_pos: "geometry_ok w cap \<Longrightarrow> 0 < data_sectors w"
  by (auto simp: geometry_ok_def bad_size_def data_sectors_def)

lemma data_area_in: "geometry_ok w cap \<Longrightarrow> data_offset w + data_capacity w = w_base w + w_size w"
  by (auto simp: geometry_ok_def bad_size_def data_sectors_def data_offset_def data_capacity_def
      mod_eq_0_iff_dvd elim!: dvdE)

lemma sector_pos_less: "geometry_ok w cap \<Longrightarrow> sector_pos w i + 4096 \<le> data_capacity w"
proof -
  assume "geometry_ok w cap"
  then have "(wh_read_cursor (w_header w) div 4096 + i) mod data_sectors w < data_sectors w"
    using data_sectors_pos by simp
  then have "(wh_read_cursor (w_header w) div 4096 + i) mod data_sectors w + 1 \<le> data_sectors w" by simp
  then have "4096 * ((wh_read_cursor (w_header w) div 4096 + i) mod data_sectors w + 1) \<le> 4096 * data_sectors w"
    by (rule mult_le_mono2)
  then show ?thesis by (simp add: sector_pos_def data_capacity_def)
qed

lemma mod_add_inj:
  fixes r i j s :: nat
  assumes "(r + i) mod s = (r + j) mod s" and "i < s" and "j < s"
  shows "i = j"
proof -
  have *: "a = b" if "(r + a) mod s = (r + b) mod s" and "a \<le> b" and "b < s" for a b
  proof -
    have "s dvd (r + b) - (r + a)"
      using that mod_eq_dvd_iff_nat [of "r + a" "r + b" s] by simp
    then have "s dvd b - a" by simp
    then show ?thesis using that by (auto dest: dvd_imp_le)
  qed
  show ?thesis using assms *[of i j] *[of j i] by (cases "i \<le> j") auto
qed

lemma sector_pos_disjoint:
  assumes "i < data_sectors w" and "j < data_sectors w" and "i \<noteq> j"
  shows "sector_pos w i + 4096 \<le> sector_pos w j \<or> sector_pos w j + 4096 \<le> sector_pos w i"
proof -
  let ?p = "\<lambda>i. (wh_read_cursor (w_header w) div 4096 + i) mod data_sectors w"
  have "?p i \<noteq> ?p j" using assms mod_add_inj by blast
  then have "?p i + 1 \<le> ?p j \<or> ?p j + 1 \<le> ?p i" by linarith
  then have "4096 * (?p i + 1) \<le> 4096 * ?p j \<or> 4096 * (?p j + 1) \<le> 4096 * ?p i"
    using mult_le_mono2 by blast
  then show ?thesis by (simp add: sector_pos_def add.commute)
qed

lemma sector_pos_step: "(sector_pos w i + 4096) mod data_capacity w = sector_pos w (Suc i)"
proof -
  let ?r = "wh_read_cursor (w_header w) div 4096" and ?s = "data_sectors w"
  have "(sector_pos w i + 4096) mod data_capacity w = (4096 * Suc ((?r + i) mod ?s)) mod (4096 * ?s)"
    by (simp add: sector_pos_def data_capacity_def mult.commute add.commute)
  also have "\<dots> = 4096 * (Suc ((?r + i) mod ?s) mod ?s)" by (rule mult_mod_right [symmetric])
  also have "\<dots> = sector_pos w (Suc i)" by (simp add: sector_pos_def mod_Suc_eq)
  finally show ?thesis .
qed

section \<open>What the updates of the ring leave alone\<close>

lemma geometry_simps [simp]:
  "data_sectors (w\<lparr>w_header := h\<rparr>) = data_sectors w"
  "data_sectors (w\<lparr>w_active_slot := s\<rparr>) = data_sectors w"
  "data_capacity (w\<lparr>w_header := h\<rparr>) = data_capacity w"
  "data_capacity (w\<lparr>w_active_slot := s\<rparr>) = data_capacity w"
  "data_offset (w\<lparr>w_header := h\<rparr>) = data_offset w"
  "data_offset (w\<lparr>w_active_slot := s\<rparr>) = data_offset w"
  "header_slot_offset (w\<lparr>w_header := h\<rparr>) slot = header_slot_offset w slot"
  "header_slot_offset (w\<lparr>w_active_slot := s\<rparr>) slot = header_slot_offset w slot"
  "geometry_ok (w\<lparr>w_header := h\<rparr>) cap = geometry_ok w cap"
  "geometry_ok (w\<lparr>w_active_slot := s\<rparr>) cap = geometry_ok w cap"
  by (simp_all add: data_sectors_def data_capacity_def data_offset_def header_slot_offset_def geometry_ok_def)

lemma advance_simps [simp]:
  "data_sectors (advance_write w c u l) = data_sectors w"
  "data_offset (advance_write w c u l) = data_offset w"
  "wh_used_bytes (w_header (advance_write w c u l)) = u"
  "wh_write_cursor (w_header (advance_write w c u l)) = c"
  "wh_read_cursor (w_header (advance_write w c u l)) = wh_read_cursor (w_header w)"
  "wh_next_lsn (w_header (advance_write w c u l)) = l"
  "data_sectors (advance_read w c u) = data_sectors w"
  "data_offset (advance_read w c u) = data_offset w"
  "wh_used_bytes (w_header (advance_read w c u)) = u"
  "wh_write_cursor (w_header (advance_read w c u)) = wh_write_cursor (w_header w)"
  "wh_read_cursor (w_header (advance_read w c u)) = c"
  "wh_next_lsn (w_header (advance_read w c u)) = wh_next_lsn (w_header w)"
  "geometry_ok (advance_write w c u l) cap = geometry_ok w cap"
  "geometry_ok (advance_read w c u) cap = geometry_ok w cap"
  by (simp_all add: advance_write_def advance_read_def)

lemma sector_pos_advance [simp]: "sector_pos (advance_write w c u l) i = sector_pos w i"
  by (simp add: sector_pos_def)

lemma sector_pos_advance_read: "sector_pos (advance_read w (sector_pos w 1) u) i = sector_pos w (Suc i)"
  by (simp add: sector_pos_def mod_add_left_eq)

lemma data_ok_cong:
  assumes "data_ok crc w img es"
    and "w_base w' = w_base w" and "w_size w' = w_size w"
    and "wh_used_bytes (w_header w') = wh_used_bytes (w_header w)"
    and "wh_read_cursor (w_header w') = wh_read_cursor (w_header w)"
    and "wh_write_cursor (w_header w') = wh_write_cursor (w_header w)"
    and "wh_next_lsn (w_header w') = wh_next_lsn (w_header w)"
  shows "data_ok crc w' img es"
  using assms
  by (simp add: data_ok_def cursors_ok_def lsns_ok_def sector_pos_def data_sectors_def data_offset_def)

lemma header_slot_below_data: "slot < 2 \<Longrightarrow> header_slot_offset w slot + 4096 \<le> data_offset w"
  by (simp add: header_slot_offset_def data_offset_def)

lemma header_slots_disjoint:
  "slot < 2 \<Longrightarrow> header_slot_offset w slot + 4096 \<le> header_slot_offset w (other_slot slot) \<or>
   header_slot_offset w (other_slot slot) + 4096 \<le> header_slot_offset w slot"
  by (auto simp: header_slot_offset_def other_slot_def)

lemma other_slot_less [simp]: "other_slot slot < 2"
  by (simp add: other_slot_def)

lemma other_other_slot [simp]: "slot < 2 \<Longrightarrow> other_slot (other_slot slot) = slot"
  by (auto simp: other_slot_def)

lemma data_end: "geometry_ok w cap \<Longrightarrow> data_offset w + sector_pos w i + 4096 \<le> cap"
  using data_area_in [of w cap] sector_pos_less [of w cap i] by (simp add: geometry_ok_def)

lemma slot_end: "geometry_ok w cap \<Longrightarrow> slot < 2 \<Longrightarrow> header_slot_offset w slot + 4096 \<le> cap"
  using header_slot_below_data [of slot w] data_end [of w cap 0] by simp

text \<open>A header write does not reach the data area, and a data write does not reach the headers.\<close>

lemma data_ok_header_write:
  assumes "data_ok crc w img es" and "slot < 2" and "length hb = 4096"
    and "header_slot_offset w slot + 4096 \<le> length img"
  shows "data_ok crc w (bsplice (header_slot_offset w slot) hb img) es"
proof -
  have "bslice (data_offset w + sector_pos w i) 4096 (bsplice (header_slot_offset w slot) hb img) =
      bslice (data_offset w + sector_pos w i) 4096 img" for i
    using assms header_slot_below_data [of slot w] by (intro bslice_bsplice_other) auto
  with assms(1) show ?thesis by (simp add: data_ok_def)
qed

lemma headers_ok_data_write:
  assumes "headers_ok crc w img" and "data_offset w + p + length s \<le> length img"
  shows "headers_ok crc w (bsplice (data_offset w + p) s img)"
proof -
  have "bslice (header_slot_offset w slot) 4096 (bsplice (data_offset w + p) s img) =
      bslice (header_slot_offset w slot) 4096 img" if "slot < 2" for slot
    using assms(2) header_slot_below_data [OF that, of w] by (intro bslice_bsplice_other) auto
  then show ?thesis
    using assms(1) by (simp add: headers_ok_def slot_header_def)
qed

lemma headers_ok_inactive_write:
  assumes "headers_ok crc w img" and "length hb = 4096"
    and "header_slot_offset w (other_slot (w_active_slot w)) + 4096 \<le> length img"
    and "\<not> header_usable crc (wal_header_of hb)"
  shows "headers_ok crc w (bsplice (header_slot_offset w (other_slot (w_active_slot w))) hb img)"
proof -
  let ?o = "other_slot (w_active_slot w)"
  have act: "w_active_slot w < 2" using assms(1) by (simp add: headers_ok_def)
  have "bslice (header_slot_offset w (w_active_slot w)) 4096 (bsplice (header_slot_offset w ?o) hb img) =
      bslice (header_slot_offset w (w_active_slot w)) 4096 img"
    using header_slots_disjoint [OF act, of w] assms(2,3) by (intro bslice_bsplice_other) auto
  then show ?thesis
    using assms by (simp add: headers_ok_def slot_header_def)
qed

section \<open>The effect of one append and one reclaim on the data area\<close>

lemma data_ok_append:
  assumes geo: "geometry_ok w cap" and cap: "cap \<le> length img"
    and data: "data_ok crc w img es" and room: "length es < data_sectors w"
    and e: "entry_ok crc e" "entry_lsn e = wh_next_lsn (w_header w)"
  shows "data_ok crc (advance_write w (sector_pos w (Suc (length es))) (4096 * Suc (length es))
      (wh_next_lsn (w_header w) + 1))
      (bsplice (data_offset w + sector_pos w (length es)) (entry_sector crc e) img) (es @ [e])"
    (is "data_ok crc ?w ?img _")
proof -
  let ?n = "length es"
  have len: "length (entry_sector crc e) = 4096" using e(1) by (rule length_entry_sector)
  have fits: "data_offset w + sector_pos w ?n + length (entry_sector crc e) \<le> length img"
    using data_end [OF geo, of ?n] cap len by simp
  have "bslice (data_offset w + sector_pos w i) 4096 ?img = entry_sector crc ((es @ [e]) ! i)"
    if "i < length (es @ [e])" for i
  proof (cases "i = ?n")
    case True
    then show ?thesis using fits len by simp
  next
    case False
    with that have i: "i < ?n" by simp
    then have "sector_pos w i + 4096 \<le> sector_pos w ?n \<or> sector_pos w ?n + 4096 \<le> sector_pos w i"
      using room by (intro sector_pos_disjoint) auto
    then have "bslice (data_offset w + sector_pos w i) 4096 ?img = bslice (data_offset w + sector_pos w i) 4096 img"
      using fits len by (intro bslice_bsplice_other) auto
    with i data show ?thesis by (simp add: data_ok_def nth_append)
  qed
  moreover have "cursors_ok ?w (length (es @ [e]))"
    using data room by (simp add: data_ok_def cursors_ok_def)
  moreover have "lsns_ok ?w (es @ [e])"
    using data e(2) by (auto simp: data_ok_def lsns_ok_def nth_append less_Suc_eq Suc_diff_le)
  ultimately show ?thesis
    using data e by (auto simp: data_ok_def)
qed

lemma data_ok_reclaim:
  assumes geo: "geometry_ok w cap" and data: "data_ok crc w img (e # es)"
  shows "data_ok crc (advance_read w (sector_pos w 1) (wh_used_bytes (w_header w) - 4096)) img es"
    (is "data_ok crc ?w _ _")
proof -
  note [simp] = sector_pos_advance_read [simplified]
  have "lsns_ok ?w es"
    using data by (auto simp: data_ok_def lsns_ok_def dest!: spec [of _ "Suc _"])
  moreover have "cursors_ok ?w (length es)"
    using data by (simp add: data_ok_def cursors_ok_def)
  ultimately show ?thesis
    using data by (auto simp: data_ok_def dest!: spec [of _ "Suc _"])
qed

text \<open>Sequence numbers of live entries are consecutive, hence ascending.\<close>

lemma lsns_sorted: "lsns_ok w es \<Longrightarrow> sorted_wrt (<) (map entry_lsn es)"
proof -
  assume l: "lsns_ok w es"
  have "entry_lsn (es ! i) < entry_lsn (es ! j)" if "i < j" and "j < length es" for i j
  proof -
    have "entry_lsn (es ! i) + (length es - i) = entry_lsn (es ! j) + (length es - j)"
      using l that by (simp add: lsns_ok_def)
    with that show ?thesis by arith
  qed
  then show ?thesis by (simp add: sorted_wrt_iff_nth_less)
qed

section \<open>Headers\<close>

lemma set_generation_simps [simp]:
  "wh_next_lsn (set_generation g h) = wh_next_lsn h"
  "wh_write_cursor (set_generation g h) = wh_write_cursor h"
  "wh_read_cursor (set_generation g h) = wh_read_cursor h"
  "wh_used_bytes (set_generation g h) = wh_used_bytes h"
  "wh_last_checkpoint_lsn (set_generation g h) = wh_last_checkpoint_lsn h"
  "bh_generation (wh_header (set_generation g h)) = g"
  "bh_pre (wh_header (set_generation g h)) = bh_pre (wh_header h)"
  by (simp_all add: set_generation_def)

lemma recompute_crc_simps [simp]:
  "wh_header (wal_header_recompute_crc crc h) = wh_header h"
  "wh_next_lsn (wal_header_recompute_crc crc h) = wh_next_lsn h"
  "wh_write_cursor (wal_header_recompute_crc crc h) = wh_write_cursor h"
  "wh_read_cursor (wal_header_recompute_crc crc h) = wh_read_cursor h"
  "wh_used_bytes (wal_header_recompute_crc crc h) = wh_used_bytes h"
  "wh_last_checkpoint_lsn (wal_header_recompute_crc crc h) = wh_last_checkpoint_lsn h"
  by (simp_all add: wal_header_recompute_crc_def Let_def)

lemma set_generation_ok: "wal_header_ok h \<Longrightarrow> g < 2 ^ 64 \<Longrightarrow> wal_header_ok (set_generation g h)"
  by (simp add: wal_header_ok_def set_generation_def block_header_ok_def)

lemma header_usable_recompute:
  "header_usable crc (wal_header_recompute_crc crc h) \<longleftrightarrow> wal_header_verify_kind h = ok ()"
  by (simp add: header_usable_def verify_kind_iff)

text \<open>What \<open>flush_header\<close> needs: a well-formed header whose generation is at least that of the
  header in the active slot.\<close>

definition flushable :: "wal \<Rightarrow> byte list \<Rightarrow> bool" where
  "flushable w img \<longleftrightarrow> w_active_slot w < 2 \<and> wal_header_ok (w_header w) \<and>
     wal_header_verify_kind (w_header w) = ok () \<and>
     bh_generation (wh_header (slot_header w img (w_active_slot w))) \<le> bh_generation (wh_header (w_header w))"

definition flushed_header :: "(byte list \<Rightarrow> u32) \<Rightarrow> wal \<Rightarrow> wal_header" where
  "flushed_header crc w = wal_header_recompute_crc crc
     (set_generation (bh_generation (wh_header (w_header w)) + 1) (w_header w))"

lemma flushed_header_ok:
  "crc_ok crc \<Longrightarrow> flushable w img \<Longrightarrow> bh_generation (wh_header (w_header w)) + 1 < 2 ^ 64 \<Longrightarrow>
   wal_header_ok (flushed_header crc w) \<and> header_usable crc (flushed_header crc w)"
  by (simp add: flushed_header_def flushable_def recompute_crc_ok set_generation_ok
      header_usable_recompute verify_kind_iff)

lemma headers_ok_flushable: "headers_ok crc w img \<Longrightarrow> flushable w img"
  by (simp add: headers_ok_def flushable_def header_usable_def slot_header_def wal_header_of_bytes)

lemma new_entry_ok:
  assumes "crc_ok crc" and "ts_ok ts" and "flags < 2 ^ 16" and "lsn < 2 ^ 64" and "length payload \<le> 4052"
    and "flags AND 1 = 0" and "flags AND 2 = 0"
  shows "entry_ok crc (new_entry crc op_kind payload ts flags lsn)"
    and "entry_lsn (new_entry crc op_kind payload ts flags lsn) = lsn"
  using assms wal_op_kind_u8_less [of op_kind] ts_from_logical_ok [of ts]
  by (simp_all add: entry_ok_def new_entry_def entry_header_new_def entry_header_ok_def crc_ok_def
      WAL_ENTRY_MAGIC_def entry_lsn_def)

lemma data_ok_free_write:
  assumes geo: "geometry_ok w cap" and cap: "cap \<le> length img"
    and data: "data_ok crc w img es" and room: "length es < data_sectors w" and len: "length s = 4096"
  shows "data_ok crc w (bsplice (data_offset w + wh_write_cursor (w_header w)) s img) es"
proof -
  have wc: "wh_write_cursor (w_header w) = sector_pos w (length es)"
    using data by (simp add: data_ok_def cursors_ok_def)
  have "bslice (data_offset w + sector_pos w i) 4096 (bsplice (data_offset w + sector_pos w (length es)) s img) =
      bslice (data_offset w + sector_pos w i) 4096 img" if "i < length es" for i
    using sector_pos_disjoint [of i w "length es"] that room len data_end [OF geo, of "length es"] cap
    by (intro bslice_bsplice_other) auto
  then show ?thesis using data wc by (simp add: data_ok_def)
qed

lemma dropWhile_eq_filter_sorted:
  assumes "sorted_wrt (<) (map f xs)"
  shows "dropWhile (\<lambda>x. f x \<le> (n :: nat)) xs = filter (\<lambda>x. n < f x) xs"
    and "takeWhile (\<lambda>x. f x \<le> n) xs = filter (\<lambda>x. f x \<le> n) xs"
  using assms
proof (induction xs)
  case (Cons x xs)
  {
    case 1
    with Cons show ?case by (auto simp: filter_id_conv [symmetric, THEN sym] intro!: filter_True [symmetric])
  next
    case 2
    with Cons show ?case by (fastforce simp: filter_empty_conv [symmetric] intro!: sym [OF filter_False])
  }
qed auto

section \<open>Operations over a block device\<close>

context block_dev
begin

lemma open_ring:
  assumes "dinv d" and geo: "geometry_ok w (dev_capacity ops d)" and hd: "headers_ok crc w (image d)"
  shows "wal_open ops crc d (w_base w) (w_size w) = ok (w\<lparr>w_read_only := False\<rparr>)"
proof -
  have ra: "read_at ops d (w_base w) 4096 = Inr (bslice (header_slot_offset w 0) 4096 (image d))"
    using slot_end [OF geo, of 0] assms(1) by (simp add: read_in header_slot_offset_def)
  have rb: "read_at ops d (w_base w + 4096) 4096 = Inr (bslice (header_slot_offset w 1) 4096 (image d))"
    using slot_end [OF geo, of 1] assms(1) by (simp add: read_in header_slot_offset_def)
  have size: "\<not> bad_size (w_size w)" using geo by (simp add: geometry_ok_def)
  have ok: "wal_header_ok (w_header w)" using hd by (simp add: headers_ok_def)
  consider "w_active_slot w = 0" | "w_active_slot w = 1"
    using hd by (auto simp: headers_ok_def less_2_cases_iff)
  then show ?thesis
  proof cases
    case 1
    with hd size ra rb show ?thesis
      by (auto simp: wal_open_def headers_ok_def Let_def slot_header_def other_slot_def wal_header_of_bytes)
  next
    case 2
    with hd size ra rb show ?thesis
      by (auto simp: wal_open_def headers_ok_def Let_def slot_header_def other_slot_def wal_header_of_bytes)
  qed
qed

lemma flush_header_ring:
  assumes crc: "crc_ok crc" and d: "dinv d" "writable d" and geo: "geometry_ok w (dev_capacity ops d)"
    and fl: "flushable w (image d)" and gen: "bh_generation (wh_header (w_header w)) + 1 < 2 ^ 64"
  obtains d' where
    "flush_header ops crc w d =
       ok (w\<lparr>w_header := flushed_header crc w, w_active_slot := other_slot (w_active_slot w)\<rparr>, d')"
    and "dinv d'" and "writable d'" and "dev_capacity ops d' = dev_capacity ops d"
    and "image d' = bsplice (header_slot_offset w (other_slot (w_active_slot w)))
           (wal_header_bytes (flushed_header crc w)) (image d)"
    and "headers_ok crc
       (w\<lparr>w_header := flushed_header crc w, w_active_slot := other_slot (w_active_slot w)\<rparr>) (image d')"
proof -
  let ?o = "other_slot (w_active_slot w)" and ?h = "flushed_header crc w"
  have h: "wal_header_ok ?h" "header_usable crc ?h" using flushed_header_ok [OF crc fl gen] by auto
  have len: "length (wal_header_bytes ?h) = 4096" using h(1) by (rule length_wal_header_bytes)
  have "header_slot_offset w ?o + length (wal_header_bytes ?h) \<le> dev_capacity ops d"
    using slot_end [OF geo, of ?o] len by simp
  from write_in [OF d this] obtain d' where
    d': "write_at ops d (header_slot_offset w ?o) (wal_header_bytes ?h) = Inr d'" "dinv d'" "writable d'"
      "dev_capacity ops d' = dev_capacity ops d"
      "image d' = bsplice (header_slot_offset w ?o) (wal_header_bytes ?h) (image d)" by blast
  have fits: "header_slot_offset w ?o + 4096 \<le> length (image d)"
    using slot_end [OF geo, of ?o] cap_image [OF d(1)] by simp
  have act: "w_active_slot w < 2" using fl by (simp add: flushable_def)
  have old: "bslice (header_slot_offset w (w_active_slot w)) 4096 (image d') =
      bslice (header_slot_offset w (w_active_slot w)) 4096 (image d)"
    unfolding d'(5) using header_slots_disjoint [OF act, of w] fits len by (intro bslice_bsplice_other) auto
  have new: "bslice (header_slot_offset w ?o) 4096 (image d') = wal_header_bytes ?h"
    unfolding d'(5) using fits len by simp
  have "flush_header ops crc w d = ok (w\<lparr>w_header := ?h, w_active_slot := ?o\<rparr>, d')"
    using d'(1) gen
    by (simp add: flush_header_def Let_def write_header_to_def flushed_header_def other_slot_def)
  moreover have "headers_ok crc (w\<lparr>w_header := ?h, w_active_slot := ?o\<rparr>) (image d')"
    using fl h old new act
    by (simp add: headers_ok_def slot_header_def flushable_def) (simp add: flushed_header_def)
  ultimately show ?thesis using d' that by blast
qed

text \<open>Flushing a ring whose data area is consistent makes the whole ring consistent on disk.\<close>

lemma flush_ring:
  assumes crc: "crc_ok crc" and d: "dinv d" "writable d" and geo: "geometry_ok w (dev_capacity ops d)"
    and fl: "flushable w (image d)" and gen: "bh_generation (wh_header (w_header w)) + 1 < 2 ^ 64"
    and data: "data_ok crc w (image d) es"
  obtains w' d' where "flush_header ops crc w d = ok (w', d')" and "dinv d'" and "writable d'"
    and "dev_capacity ops d' = dev_capacity ops d"
    and "ring_inv crc w' (image d') (dev_capacity ops d') es"
    and "w_base w' = w_base w" and "w_size w' = w_size w" and "w_read_only w' = w_read_only w"
    and "w_header w' = flushed_header crc w"
proof -
  let ?w = "w\<lparr>w_header := flushed_header crc w, w_active_slot := other_slot (w_active_slot w)\<rparr>"
  let ?o = "other_slot (w_active_slot w)"
  obtain d' where d': "flush_header ops crc w d = ok (?w, d')" "dinv d'" "writable d'"
    "dev_capacity ops d' = dev_capacity ops d"
    "image d' = bsplice (header_slot_offset w ?o) (wal_header_bytes (flushed_header crc w)) (image d)"
    "headers_ok crc ?w (image d')"
    using flush_header_ring [OF crc d geo fl gen] by metis
  have hlen: "length (wal_header_bytes (flushed_header crc w)) = 4096"
    using flushed_header_ok [OF crc fl gen] by (simp add: length_wal_header_bytes)
  have "data_ok crc w (image d') es"
    unfolding d'(5) using slot_end [OF geo, of ?o] cap_image [OF d(1)] hlen
    by (intro data_ok_header_write [OF data]) auto
  then have "data_ok crc ?w (image d') es"
    by (rule data_ok_cong) (simp_all add: flushed_header_def)
  then have "ring_inv crc ?w (image d') (dev_capacity ops d') es"
    using d'(4,6) geo by (simp add: ring_inv_def)
  with that d' show ?thesis by simp
qed

text \<open>Append on a ring with room: the entry joins the list and the ring stays consistent.\<close>

lemma append_ring:
  assumes crc: "crc_ok crc" and d: "dinv d" "writable d"
    and inv: "ring_inv crc w (image d) (dev_capacity ops d) es"
    and rw: "\<not> w_read_only w" and fl: "flags AND 1 = 0" "flags AND 2 = 0" "flags < 2 ^ 16"
    and len: "length payload \<le> 4052" and room: "length es < data_sectors w"
    and lsn: "wh_next_lsn (w_header w) + 1 < 2 ^ 64"
    and gen: "bh_generation (wh_header (w_header w)) + 1 < 2 ^ 64" and ts: "ts_ok ts"
  obtains w' d' where "append_raw ops crc w d op_kind payload ts flags = ok (wh_next_lsn (w_header w), w', d')"
    and "dinv d'" and "writable d'" and "dev_capacity ops d' = dev_capacity ops d"
    and "ring_inv crc w' (image d') (dev_capacity ops d')
      (es @ [new_entry crc op_kind payload ts flags (wh_next_lsn (w_header w))])"
    and "w_base w' = w_base w" and "w_size w' = w_size w" and "\<not> w_read_only w'"
proof -
  let ?n = "length es" and ?lsn = "wh_next_lsn (w_header w)" and ?cap = "dev_capacity ops d"
  let ?e = "new_entry crc op_kind payload ts flags ?lsn"
  let ?w1 = "advance_write w (sector_pos w (Suc ?n)) (4096 * Suc ?n) (?lsn + 1)"
  have geo: "geometry_ok w ?cap" and hd: "headers_ok crc w (image d)" and data: "data_ok crc w (image d) es"
    using inv by (auto simp: ring_inv_def)
  have e: "entry_ok crc ?e" "entry_lsn ?e = ?lsn" using new_entry_ok [OF crc ts fl(3) _ len fl(1,2)] lsn by auto
  have wc: "wh_write_cursor (w_header w) = sector_pos w ?n" and used: "wh_used_bytes (w_header w) = 4096 * ?n"
    using data by (auto simp: data_ok_def cursors_ok_def)
  have cap64: "?cap < 2 ^ 64" using geo by (simp add: geometry_ok_def)
  have fits: "data_offset w + sector_pos w ?n + length (entry_sector crc ?e) \<le> ?cap"
    using data_end [OF geo, of ?n] length_entry_sector [OF e(1)] by simp
  have used_le: "4096 * Suc ?n \<le> data_capacity w"
    using room by (simp add: data_capacity_def)
  have bounds: "data_capacity w \<le> ?cap" "sector_pos w (Suc ?n) < ?cap"
    using data_area_in [OF geo] sector_pos_less [OF geo, of "Suc ?n"] geo by (auto simp: geometry_ok_def)
  from write_in [OF d fits] obtain d1 where
    d1: "write_at ops d (data_offset w + sector_pos w ?n) (entry_sector crc ?e) = Inr d1" "dinv d1"
      "writable d1" "dev_capacity ops d1 = ?cap"
      "image d1 = bsplice (data_offset w + sector_pos w ?n) (entry_sector crc ?e) (image d)" by blast
  have data1: "data_ok crc ?w1 (image d1) (es @ [?e])"
    unfolding d1(5) using data_ok_append [OF geo cap_image [OF d(1)] data room e] .
  have hd1: "headers_ok crc w (image d1)"
    unfolding d1(5) using hd fits cap_image [OF d(1)] by (intro headers_ok_data_write) auto
  have geo1: "geometry_ok ?w1 (dev_capacity ops d1)" using geo d1(4) by simp
  have "flushable w (image d1)" using hd1 by (rule headers_ok_flushable)
  then have fl1: "flushable ?w1 (image d1)"
    using bounds cap64 used_le lsn
    by (simp add: flushable_def wal_header_ok_def advance_write_def verify_kind_iff slot_header_def)
  have gen1: "bh_generation (wh_header (w_header ?w1)) + 1 < 2 ^ 64" using gen by (simp add: advance_write_def)
  obtain w2 d2 where d2: "flush_header ops crc ?w1 d1 = ok (w2, d2)" "dinv d2" "writable d2"
    "dev_capacity ops d2 = dev_capacity ops d1"
    "ring_inv crc w2 (image d2) (dev_capacity ops d2) (es @ [?e])"
    "w_base w2 = w_base ?w1" "w_size w2 = w_size ?w1" "w_read_only w2 = w_read_only ?w1"
    using flush_ring [OF crc d1(2,3) geo1 fl1 gen1 data1] by metis
  have "append_raw ops crc w d op_kind payload ts flags = ok (?lsn, w2, d2)"
    using rw fl len lsn used_le used wc d1(1) d2(1) sync_ok [OF d2(2,3)] bounds cap64 fits
      sector_pos_less [OF geo, of ?n] sector_pos_step [of w ?n]
    by (simp add: append_raw_def Let_def add.commute [of "4096 * length es" 4096])
  then show ?thesis
    using that d2 d1(4) rw by (simp add: advance_write_def)
qed

text \<open>The append that finds no free sector changes nothing.\<close>

lemma append_full:
  assumes inv: "ring_inv crc w (image d) (dev_capacity ops d) es"
    and rw: "\<not> w_read_only w" and fl: "flags AND 1 = 0" "flags AND 2 = 0"
    and len: "length payload \<le> 4052" and full: "length es = data_sectors w"
  shows "append_raw ops crc w d op_kind payload ts flags = err (RingFull (data_capacity w) (data_capacity w))"
proof -
  have geo: "geometry_ok w (dev_capacity ops d)" and used: "wh_used_bytes (w_header w) = data_capacity w"
    using inv full by (auto simp: ring_inv_def data_ok_def cursors_ok_def data_capacity_def)
  have "data_capacity w + 4096 < 2 ^ 64"
    using data_area_in [OF geo] geo by (simp add: geometry_ok_def data_offset_def)
  with rw fl len used show ?thesis by (simp add: append_raw_def Let_def)
qed

section \<open>Replay\<close>

text \<open>One step of the collected iteration over an intact sector.\<close>

lemma collect_step:
  assumes "\<not> it_done it" and "4096 \<le> it_remaining it"
    and "read_at ops d (it_data_offset it + it_cursor it) 4096 = Inr sector"
    and "decode_sector crc sector = ok e"
  shows "wal_iter_collect ops crc d it =
    (if entry_lsn e < it_start_lsn it then [] else [ok e]) @
    wal_iter_collect ops crc d (it\<lparr>it_cursor := (it_cursor it + 4096) mod it_data_capacity it,
      it_remaining := it_remaining it - 4096\<rparr>)"
  using assms
  by (subst wal_iter_collect.simps, subst wal_iter_next.simps)
    (auto simp: Let_def entry_lsn_def wal_iter_collect.simps [of ops crc d "it\<lparr>it_cursor := _, it_remaining := _\<rparr>"])

lemma collect_from:
  assumes crc: "crc_ok crc" and d: "dinv d" and geo: "geometry_ok w (dev_capacity ops d)"
    and data: "data_ok crc w (image d) es" and k: "k \<le> length es"
    and it: "it = (iter_from w start)\<lparr>it_cursor := sector_pos w k, it_remaining := 4096 * (length es - k)\<rparr>"
  shows "wal_iter_collect ops crc d it = map ok (filter (\<lambda>e. start \<le> entry_lsn e) (drop k es))"
  using k it
proof (induction "length es - k" arbitrary: k it)
  case 0
  then show ?case
    by (subst wal_iter_collect.simps, subst wal_iter_next.simps) (simp add: iter_from_def)
next
  case (Suc m)
  let ?e = "es ! k"
  have lt: "k < length es" using Suc.hyps(2) by simp
  have e: "entry_ok crc ?e" and sec: "bslice (data_offset w + sector_pos w k) 4096 (image d) = entry_sector crc ?e"
    using data lt by (auto simp: data_ok_def)
  have rd: "read_at ops d (it_data_offset it + it_cursor it) 4096 = Inr (entry_sector crc ?e)"
    using Suc.prems(2) data_end [OF geo, of k] d sec by (simp add: iter_from_def read_in)
  let ?it = "it\<lparr>it_cursor := (it_cursor it + 4096) mod it_data_capacity it, it_remaining := it_remaining it - 4096\<rparr>"
  have it1: "?it = (iter_from w start)\<lparr>it_cursor := sector_pos w (Suc k), it_remaining := 4096 * (length es - Suc k)\<rparr>"
    using Suc.prems(2) lt by (simp add: iter_from_def sector_pos_step diff_mult_distrib2)
  have "wal_iter_collect ops crc d ?it = map ok (filter (\<lambda>e. start \<le> entry_lsn e) (drop (Suc k) es))"
    using Suc.hyps lt it1 by (intro Suc.hyps(1)) auto
  moreover have "wal_iter_collect ops crc d it =
      (if entry_lsn ?e < start then [] else [ok ?e]) @ wal_iter_collect ops crc d ?it"
    using collect_step [OF _ _ rd decode_entry_sector [OF crc e]] Suc.prems(2) lt by (simp add: iter_from_def)
  ultimately show ?case
    using Cons_nth_drop_Suc [OF lt, symmetric] by simp
qed

lemma iter_ring:
  assumes "crc_ok crc" and "dinv d" and "ring_inv crc w (image d) (dev_capacity ops d) es"
  shows "wal_iter_collect ops crc d (iter_from w start) = map ok (filter (\<lambda>e. start \<le> entry_lsn e) es)"
  using assms collect_from [of crc d w es 0 _ start]
  by (simp add: ring_inv_def data_ok_def cursors_ok_def iter_from_def)

section \<open>Checkpoint\<close>

lemma checkpoint_loop_ring:
  assumes "dinv d" and "geometry_ok w (dev_capacity ops d)" and "data_ok crc w (image d) es"
  shows "\<exists>c u. checkpoint_loop ops d n w r =
      ok (advance_read w c u, r + length (takeWhile (\<lambda>e. entry_lsn e \<le> n) es)) \<and>
    data_ok crc (advance_read w c u) (image d) (dropWhile (\<lambda>e. entry_lsn e \<le> n) es)"
  using assms
proof (induction es arbitrary: w r)
  case Nil
  then have "wh_used_bytes (w_header w) = 0" by (simp add: data_ok_def cursors_ok_def)
  moreover have "advance_read w (wh_read_cursor (w_header w)) (wh_used_bytes (w_header w)) = w"
    by (simp add: advance_read_def)
  ultimately show ?case using Nil by (subst checkpoint_loop.simps) (metis dropWhile.simps(1) list.size(3) takeWhile.simps(1) add.right_neutral)
next
  case (Cons e es)
  let ?w = "advance_read w (sector_pos w 1) (wh_used_bytes (w_header w) - 4096)"
  have id: "advance_read w (wh_read_cursor (w_header w)) (wh_used_bytes (w_header w)) = w"
    by (simp add: advance_read_def)
  have used: "4096 \<le> wh_used_bytes (w_header w)" and rc: "wh_read_cursor (w_header w) = sector_pos w 0"
    using Cons.prems(3) by (auto simp: data_ok_def cursors_ok_def)
  have e: "entry_ok crc e" and sec: "bslice (data_offset w + sector_pos w 0) 4096 (image d) = entry_sector crc e"
    using Cons.prems(3) by (auto simp: data_ok_def)
  have rd: "read_at ops d (data_offset w + wh_read_cursor (w_header w)) 4096 = Inr (entry_sector crc e)"
    using data_end [OF Cons.prems(2), of 0] Cons.prems(1) sec by (simp add: read_in rc)
  have hdr: "entry_header_of (take 40 (entry_sector crc e)) = we_header e"
    and magic: "check_magic (we_header e) = ok ()"
    using e entry_lsn_of_sector [OF e] by (auto simp: entry_ok_def check_magic_def)
  have step: "checkpoint_loop ops d n w r =
      (if entry_lsn e > n then ok (w, r) else checkpoint_loop ops d n ?w (r + 1))"
    using used rd hdr magic sector_pos_step [of w 0] rc
    by (subst checkpoint_loop.simps) (simp add: entry_lsn_def Let_def)
  show ?case
  proof (cases "entry_lsn e > n")
    case True
    with step id Cons.prems(3) show ?thesis by (metis (mono_tags, lifting) dropWhile.simps(2) takeWhile.simps(2)
          add.right_neutral leD list.size(3))
  next
    case False
    have "data_ok crc ?w (image d) es" by (rule data_ok_reclaim [OF Cons.prems(2,3)])
    then obtain c u where "checkpoint_loop ops d n ?w (r + 1) =
        ok (advance_read ?w c u, r + 1 + length (takeWhile (\<lambda>e. entry_lsn e \<le> n) es))"
      and "data_ok crc (advance_read ?w c u) (image d) (dropWhile (\<lambda>e. entry_lsn e \<le> n) es)"
      using Cons.IH [of ?w "r + 1"] Cons.prems(1,2) by auto
    moreover have "advance_read ?w c u = advance_read w c u" by (simp add: advance_read_def)
    ultimately show ?thesis using False step by auto
  qed
qed

lemma checkpoint_ring:
  assumes crc: "crc_ok crc" and d: "dinv d" "writable d"
    and inv: "ring_inv crc w (image d) (dev_capacity ops d) es" and rw: "\<not> w_read_only w"
    and n: "n < 2 ^ 64" and gen: "bh_generation (wh_header (w_header w)) + 1 < 2 ^ 64"
  obtains w' d' where
    "checkpoint ops crc w d n = ok (length (filter (\<lambda>e. entry_lsn e \<le> n) es), w', d')"
    and "dinv d'" and "writable d'" and "dev_capacity ops d' = dev_capacity ops d"
    and "ring_inv crc w' (image d') (dev_capacity ops d') (filter (\<lambda>e. n < entry_lsn e) es)"
    and "w_base w' = w_base w" and "w_size w' = w_size w" and "\<not> w_read_only w'"
    and "wh_last_checkpoint_lsn (w_header w') = n" and "wh_next_lsn (w_header w') = wh_next_lsn (w_header w)"
proof -
  have geo: "geometry_ok w (dev_capacity ops d)" and hd: "headers_ok crc w (image d)"
    and data: "data_ok crc w (image d) es"
    using inv by (auto simp: ring_inv_def)
  have "sorted_wrt (<) (map entry_lsn es)" using data lsns_sorted by (auto simp: data_ok_def)
  note filters = dropWhile_eq_filter_sorted [OF this, of n]
  obtain c u where loop: "checkpoint_loop ops d n w 0 = ok (advance_read w c u, length (filter (\<lambda>e. entry_lsn e \<le> n) es))"
    and data1: "data_ok crc (advance_read w c u) (image d) (filter (\<lambda>e. n < entry_lsn e) es)"
    using checkpoint_loop_ring [OF d(1) geo data, of n 0] by (auto simp: filters)
  let ?w1 = "advance_read w c u"
  let ?w2 = "?w1\<lparr>w_header := (w_header ?w1)\<lparr>wh_last_checkpoint_lsn := n\<rparr>\<rparr>"
  have data2: "data_ok crc ?w2 (image d) (filter (\<lambda>e. n < entry_lsn e) es)"
    using data1 by (rule data_ok_cong) simp_all
  have "c = sector_pos ?w1 0" and "u \<le> data_capacity ?w1"
    using data1 by (auto simp: data_ok_def cursors_ok_def data_capacity_def)
  moreover have "sector_pos ?w1 0 + 4096 \<le> data_capacity ?w1" and "data_capacity ?w1 \<le> dev_capacity ops d"
    and "dev_capacity ops d < 2 ^ 64"
    using sector_pos_less [of ?w1 "dev_capacity ops d"] data_area_in [of ?w1 "dev_capacity ops d"] geo
    by (auto simp: geometry_ok_def advance_read_def)
  ultimately have "c < 2 ^ 64" and "u < 2 ^ 64" by auto
  then have fl: "flushable ?w2 (image d)"
    using headers_ok_flushable [OF hd] n
    by (simp add: flushable_def wal_header_ok_def advance_read_def verify_kind_iff slot_header_def)
  have "geometry_ok ?w2 (dev_capacity ops d)" and "bh_generation (wh_header (w_header ?w2)) + 1 < 2 ^ 64"
    using geo gen by (simp_all add: advance_read_def)
  then obtain w' d' where f: "flush_header ops crc ?w2 d = ok (w', d')" "dinv d'" "writable d'"
    "dev_capacity ops d' = dev_capacity ops d"
    "ring_inv crc w' (image d') (dev_capacity ops d') (filter (\<lambda>e. n < entry_lsn e) es)"
    "w_base w' = w_base ?w2" "w_size w' = w_size ?w2" "w_read_only w' = w_read_only ?w2"
    "w_header w' = flushed_header crc ?w2"
    using flush_ring [OF crc d _ fl _ data2] by metis
  have "checkpoint ops crc w d n = ok (length (filter (\<lambda>e. entry_lsn e \<le> n) es), w', d')"
    using rw loop f(1) sync_ok [OF f(2,3)] by (simp add: checkpoint_def)
  with that f rw show ?thesis by (simp add: advance_read_def flushed_header_def)
qed

section \<open>Format\<close>

lemma format_ring:
  assumes crc: "crc_ok crc" and d: "dinv d" "writable d" and sz: "\<not> bad_size sz"
    and fits: "offset + sz \<le> dev_capacity ops d"
  obtains w d' where "wal_format ops crc d offset sz = ok (w, d')" and "dinv d'" and "writable d'"
    and "dev_capacity ops d' = dev_capacity ops d" and "ring_inv crc w (image d') (dev_capacity ops d') []"
    and "w_base w = offset" and "w_size w = sz" and "\<not> w_read_only w"
    and "wh_next_lsn (w_header w) = 1" and "bh_generation (wh_header (w_header w)) = 1"
proof -
  let ?h = "wal_header_recompute_crc crc
    ((set_generation 1 wal_header_default)\<lparr>wh_next_lsn := 1, wh_write_cursor := 0,
       wh_read_cursor := 0, wh_used_bytes := 0, wh_last_checkpoint_lsn := 0\<rparr>)"
  let ?m = "wal_header_recompute_crc crc (set_generation 0 ?h)"
  let ?w = "\<lparr>w_base = offset, w_size = sz, w_header = ?h, w_active_slot = 0, w_read_only = False\<rparr>"
  have dflt: "wal_header_ok ((set_generation 1 wal_header_default)\<lparr>wh_next_lsn := 1, wh_write_cursor := 0,
       wh_read_cursor := 0, wh_used_bytes := 0, wh_last_checkpoint_lsn := 0\<rparr>)"
    using set_generation_ok [OF wal_header_default_ok, of 1] by (simp add: wal_header_ok_def)
  then have h: "wal_header_ok ?h" by (rule recompute_crc_ok [OF crc])
  have m: "wal_header_ok ?m" using recompute_crc_ok [OF crc set_generation_ok [OF h, of 0]] by simp
  note len = length_wal_header_bytes [OF h] length_wal_header_bytes [OF m]
  have usable: "header_usable crc ?h"
    by (simp add: header_usable_recompute verify_kind_iff wal_header_default_def block_header_new_def set_generation_def)
  have room: "offset + 8192 \<le> dev_capacity ops d" using sz fits by (simp add: bad_size_def)
  obtain d1 where d1: "write_at ops d offset (wal_header_bytes ?h) = Inr d1" "dinv d1" "writable d1"
    "dev_capacity ops d1 = dev_capacity ops d" "image d1 = bsplice offset (wal_header_bytes ?h) (image d)"
    using write_in [OF d, of offset "wal_header_bytes ?h"] room len by auto
  obtain d2 where d2: "write_at ops d1 (offset + 4096) (wal_header_bytes ?m) = Inr d2" "dinv d2" "writable d2"
    "dev_capacity ops d2 = dev_capacity ops d" "image d2 = bsplice (offset + 4096) (wal_header_bytes ?m) (image d1)"
    using write_in [OF d1(2,3), of "offset + 4096" "wal_header_bytes ?m"] room len d1(4) by auto
  have big: "offset + 8192 \<le> length (image d)" "offset + 8192 \<le> length (image d1)"
    using room cap_image [OF d(1)] cap_image [OF d1(2)] d1(4) by auto
  have "bslice offset 4096 (image d2) = bslice offset 4096 (image d1)"
    unfolding d2(5) using big len by (intro bslice_bsplice_other) auto
  then have sl: "bslice offset 4096 (image d2) = wal_header_bytes ?h"
    "bslice (offset + 4096) 4096 (image d2) = wal_header_bytes ?m"
    using big len by (simp_all add: d1(5) d2(5))
  have geo: "geometry_ok ?w (dev_capacity ops d2)"
    using sz fits cap_u64 [OF d2(2)] d2(4) by (simp add: geometry_ok_def)
  have "headers_ok crc ?w (image d2)"
    using h usable sl wal_header_of_bytes [OF m]
    by (simp add: headers_ok_def header_slot_offset_def slot_header_def other_slot_def)
  moreover have "data_ok crc ?w (image d2) []"
    by (simp add: data_ok_def cursors_ok_def lsns_ok_def sector_pos_def)
  ultimately have "ring_inv crc ?w (image d2) (dev_capacity ops d2) []"
    using geo by (simp add: ring_inv_def)
  moreover have "wal_format ops crc d offset sz = ok (?w, d2)"
    using sz d1(1) d2(1) sync_ok [OF d2(2,3)]
    by (simp add: wal_format_def Let_def write_header_to_def header_slot_offset_def)
  ultimately show ?thesis using that d2 by simp
qed

end

end
