(* ===== verification/Mb_Wal_Thms.thy ===== *)
theory Mb_Wal_Thms
  imports Mb_Wal_Inv
begin

text \<open>
  The WAL ring over the file-backed device: runs of format, append, checkpoint, reopen and torn
  appends as a step relation, and the properties of the ring that follow from the
  refinement in \<open>Mb_Wal_Inv\<close>.
\<close>

unbundle bit_operations_syntax

abbreviation fring :: "(byte list \<Rightarrow> u32) \<Rightarrow> wal \<Rightarrow> file_device \<Rightarrow> wal_entry list \<Rightarrow> bool" where
  "fring crc w d es \<equiv> file_device_inv d \<and> fd_writable d \<and> ring_inv crc w (fd_file d) (fd_capacity d) es"

text \<open>A torn append: any bytes in the sector at the write cursor, and, if the header write had
  started, any bytes in the inactive slot that do not pass for a header.\<close>

definition torn_data :: "wal \<Rightarrow> file_device \<Rightarrow> byte list \<Rightarrow> file_device" where
  "torn_data w d s = d\<lparr>fd_file := bsplice (data_offset w + wh_write_cursor (w_header w)) s (fd_file d)\<rparr>"

definition torn_header :: "wal \<Rightarrow> file_device \<Rightarrow> byte list \<Rightarrow> file_device" where
  "torn_header w d hb = d\<lparr>fd_file := bsplice (header_slot_offset w (other_slot (w_active_slot w))) hb (fd_file d)\<rparr>"

text \<open>Everything that can happen to a ring on one device, with the log it should hold.\<close>

inductive wal_reach :: "(byte list \<Rightarrow> u32) \<Rightarrow> wal \<Rightarrow> file_device \<Rightarrow> wal_entry list \<Rightarrow> bool"
  for crc where
  reach_format: "file_device_inv d \<Longrightarrow> fd_writable d \<Longrightarrow> offset + sz \<le> fd_capacity d \<Longrightarrow>
    wal_format file_block_device crc d offset sz = ok (w, d') \<Longrightarrow> wal_reach crc w d' []"
| reach_append: "wal_reach crc w d es \<Longrightarrow> ts_ok ts \<Longrightarrow> flags < 2 ^ 16 \<Longrightarrow>
    append_raw file_block_device crc w d op_kind payload ts flags = ok (lsn, w', d') \<Longrightarrow>
    wal_reach crc w' d' (es @ [new_entry crc op_kind payload ts flags lsn])"
| reach_checkpoint: "wal_reach crc w d es \<Longrightarrow> n < 2 ^ 64 \<Longrightarrow>
    checkpoint file_block_device crc w d n = ok (k, w', d') \<Longrightarrow>
    wal_reach crc w' d' (filter (\<lambda>e. n < entry_lsn e) es)"
| reach_reopen: "wal_reach crc w d es \<Longrightarrow>
    wal_open file_block_device crc d (w_base w) (w_size w) = ok w' \<Longrightarrow> wal_reach crc w' d es"
| reach_torn_data: "wal_reach crc w d es \<Longrightarrow> length es < data_sectors w \<Longrightarrow> length s = 4096 \<Longrightarrow>
    wal_reach crc w (torn_data w d s) es"
| reach_torn_header: "wal_reach crc w d es \<Longrightarrow> length hb = 4096 \<Longrightarrow>
    \<not> header_usable crc (wal_header_of hb) \<Longrightarrow> wal_reach crc w (torn_header w d hb) es"

section \<open>What a successful operation implies\<close>

lemma append_raw_InrD:
  assumes "append_raw ops crc w d op_kind payload ts flags = ok (lsn, w', d')"
  shows "\<not> w_read_only w" and "flags AND 1 = 0" and "flags AND 2 = 0" and "length payload \<le> 4052"
    and "wh_used_bytes (w_header w) + 4096 \<le> data_capacity w" and "wh_next_lsn (w_header w) + 1 < 2 ^ 64"
    and "bh_generation (wh_header (w_header w)) + 1 < 2 ^ 64" and "lsn = wh_next_lsn (w_header w)"
  using assms
  by (auto simp: append_raw_def Let_def add_u64_def res_simps flush_header_def advance_write_def
      split: if_splits prod.splits)

lemma checkpoint_InrD:
  assumes "checkpoint ops crc w d n = ok (k, w', d')"
    and "\<exists>c u r. checkpoint_loop ops d n w 0 = ok (advance_read w c u, r)"
  shows "\<not> w_read_only w" and "bh_generation (wh_header (w_header w)) + 1 < 2 ^ 64"
  using assms
  by (force simp: checkpoint_def Let_def res_simps flush_header_def advance_read_def
      split: if_splits prod.splits)+

section \<open>Steps keep the invariant\<close>

lemma fring_append:
  assumes crc: "crc_ok crc" and r: "fring crc w d es" and ts: "ts_ok ts" "flags < 2 ^ 16"
    and app: "append_raw file_block_device crc w d op_kind payload ts flags = ok (lsn, w', d')"
  shows "fring crc w' d' (es @ [new_entry crc op_kind payload ts flags lsn])"
    and "w_base w' = w_base w \<and> w_size w' = w_size w \<and> fd_capacity d' = fd_capacity d"
proof -
  note c = append_raw_InrD [OF app]
  have room: "length es < data_sectors w"
    using r c(5) by (auto simp: ring_inv_def data_ok_def cursors_ok_def data_capacity_def)
  obtain w2 d2 where eq: "append_raw file_block_device crc w d op_kind payload ts flags = ok (lsn, w2, d2)"
    and inv: "fring crc w2 d2 (es @ [new_entry crc op_kind payload ts flags lsn])"
    and same: "w_base w2 = w_base w" "w_size w2 = w_size w" "fd_capacity d2 = fd_capacity d"
    using fdev.append_ring [OF crc, of d w es flags payload ts op_kind] r c room ts
    unfolding file_capacity by blast
  from eq app have "w2 = w'" "d2 = d'" by simp_all
  with inv same show "fring crc w' d' (es @ [new_entry crc op_kind payload ts flags lsn])"
    and "w_base w' = w_base w \<and> w_size w' = w_size w \<and> fd_capacity d' = fd_capacity d" by simp_all
qed

lemma fring_checkpoint:
  assumes crc: "crc_ok crc" and r: "fring crc w d es" and n: "n < 2 ^ 64"
    and cp: "checkpoint file_block_device crc w d n = ok (k, w', d')"
  shows "fring crc w' d' (filter (\<lambda>e. n < entry_lsn e) es)"
    and "k = length (filter (\<lambda>e. entry_lsn e \<le> n) es)"
    and "w_base w' = w_base w \<and> w_size w' = w_size w \<and> fd_capacity d' = fd_capacity d"
    and "wh_last_checkpoint_lsn (w_header w') = n"
proof -
  have "\<exists>c u. checkpoint_loop file_block_device d n w 0 =
      ok (advance_read w c u, 0 + length (takeWhile (\<lambda>e. entry_lsn e \<le> n) es))"
    using fdev.checkpoint_loop_ring [of d w crc es n 0] r unfolding ring_inv_def file_capacity by blast
  then have "\<exists>c u r. checkpoint_loop file_block_device d n w 0 = ok (advance_read w c u, r)" by blast
  note c = checkpoint_InrD [OF cp this]
  obtain w2 d2 where eq: "checkpoint file_block_device crc w d n =
      ok (length (filter (\<lambda>e. entry_lsn e \<le> n) es), w2, d2)"
    and inv: "fring crc w2 d2 (filter (\<lambda>e. n < entry_lsn e) es)"
    and same: "w_base w2 = w_base w" "w_size w2 = w_size w" "fd_capacity d2 = fd_capacity d"
      "wh_last_checkpoint_lsn (w_header w2) = n"
    using fdev.checkpoint_ring [OF crc, of d w es n] r n c unfolding file_capacity by blast
  from eq cp have "w2 = w'" "d2 = d'" and k: "k = length (filter (\<lambda>e. entry_lsn e \<le> n) es)" by simp_all
  with inv same show "fring crc w' d' (filter (\<lambda>e. n < entry_lsn e) es)"
    and "k = length (filter (\<lambda>e. entry_lsn e \<le> n) es)"
    and "w_base w' = w_base w \<and> w_size w' = w_size w \<and> fd_capacity d' = fd_capacity d"
    and "wh_last_checkpoint_lsn (w_header w') = n" by simp_all
qed

lemma fring_format:
  assumes crc: "crc_ok crc" and d: "file_device_inv d" "fd_writable d" "offset + sz \<le> fd_capacity d"
    and f: "wal_format file_block_device crc d offset sz = ok (w, d')"
  shows "fring crc w d' []" and "w_base w = offset" and "w_size w = sz"
proof -
  have "\<not> bad_size sz" using f by (auto simp: wal_format_def split: if_splits)
  then obtain w2 d2 where "wal_format file_block_device crc d offset sz = ok (w2, d2)" "fring crc w2 d2 []"
      "w_base w2 = offset" "w_size w2 = sz"
    using fdev.format_ring [OF crc, of d sz offset] d unfolding file_capacity by blast
  with f show "fring crc w d' []" and "w_base w = offset" and "w_size w = sz" by auto
qed

lemma fring_open:
  "fring crc w d es \<Longrightarrow>
   wal_open file_block_device crc d (w_base w) (w_size w) = ok (w\<lparr>w_read_only := False\<rparr>)"
  using fdev.open_ring [of d w crc] by (simp add: ring_inv_def)

lemma fring_torn_data:
  assumes "fring crc w d es" and "length es < data_sectors w" and "length s = 4096"
  shows "fring crc w (torn_data w d s) es"
proof -
  let ?p = "wh_write_cursor (w_header w)"
  have geo: "geometry_ok w (fd_capacity d)" and wc: "?p = sector_pos w (length es)"
    and backed: "fd_capacity d \<le> length (fd_file d)"
    using assms(1) by (auto simp: ring_inv_def data_ok_def cursors_ok_def file_device_inv_def)
  have fits: "data_offset w + ?p + 4096 \<le> length (fd_file d)"
    using data_end [OF geo, of "length es"] wc backed by simp
  then show ?thesis
    using assms data_ok_free_write [OF geo backed, of crc es s] headers_ok_data_write [of crc w "fd_file d" ?p s]
    by (simp add: ring_inv_def torn_data_def file_device_inv_def fd_writable_def)
qed

lemma fring_torn_header:
  assumes "fring crc w d es" and "length hb = 4096" and "\<not> header_usable crc (wal_header_of hb)"
  shows "fring crc w (torn_header w d hb) es"
proof -
  let ?o = "other_slot (w_active_slot w)"
  have geo: "geometry_ok w (fd_capacity d)" and backed: "fd_capacity d \<le> length (fd_file d)"
    using assms(1) by (auto simp: ring_inv_def file_device_inv_def)
  then have "header_slot_offset w ?o + 4096 \<le> length (fd_file d)"
    using slot_end [OF geo, of ?o] by simp
  then show ?thesis
    using assms data_ok_header_write [of crc w "fd_file d" es ?o hb] headers_ok_inactive_write [of crc w "fd_file d" hb]
    by (simp add: ring_inv_def torn_header_def file_device_inv_def fd_writable_def)
qed

lemma ring_inv_read_only [simp]: "ring_inv crc (w\<lparr>w_read_only := b\<rparr>) img cap es = ring_inv crc w img cap es"
  by (simp add: ring_inv_def geometry_ok_def headers_ok_def data_ok_def cursors_ok_def lsns_ok_def
      header_slot_offset_def slot_header_def sector_pos_def data_sectors_def data_offset_def)

lemma wal_reach_fring: "wal_reach crc w d es \<Longrightarrow> crc_ok crc \<Longrightarrow> fring crc w d es"
proof (induction rule: wal_reach.induct)
  case (reach_format d offset sz w d')
  then show ?case using fring_format by blast
next
  case (reach_append w d es ts flags op_kind payload lsn w' d')
  then show ?case using fring_append(1) by blast
next
  case (reach_checkpoint w d es n k w' d')
  then show ?case using fring_checkpoint(1) by blast
next
  case (reach_reopen w d es w')
  then show ?case using fring_open [where w = w and d = d] by auto
next
  case (reach_torn_data w d es s)
  then show ?case using fring_torn_data by blast
next
  case (reach_torn_header w d es hb)
  then show ?case using fring_torn_header by blast
qed

section \<open>Replay of arbitrary bytes\<close>

definition entry_valid :: "(byte list \<Rightarrow> u32) \<Rightarrow> wal_entry \<Rightarrow> bool" where
  "entry_valid crc e \<longleftrightarrow> eh_magic (we_header e) = WAL_ENTRY_MAGIC \<and>
     crc (we_payload e) = eh_payload_crc (we_header e) \<and>
     eh_flags (we_header e) AND 1 = 0 \<and> eh_flags (we_header e) AND 2 = 0"

lemma decode_sector_InrD: "decode_sector crc sector = ok e \<Longrightarrow> entry_valid crc e"
  by (auto simp: entry_valid_def decode_sector_def check_magic_def Let_def res_simps split: if_splits)

lemma wal_iter_next_entry:
  "wal_iter_next ops crc d it = (Some (ok e), it') \<Longrightarrow> entry_valid crc e \<and> it_start_lsn it \<le> entry_lsn e"
proof (induction ops crc d it rule: wal_iter_next.induct)
  case (1 ops crc d it)
  from "1.prems" show ?case
    by (subst (asm) wal_iter_next.simps)
      (auto simp: Let_def entry_lsn_def not_less split: if_splits sum.splits
        dest: decode_sector_InrD dest!: "1.IH" [OF _ _ _ _ refl])
qed

lemma wal_iter_next_start: "it_start_lsn (snd (wal_iter_next ops crc d it)) = it_start_lsn it"
proof (induction ops crc d it rule: wal_iter_next.induct)
  case (1 ops crc d it)
  show ?case
    by (subst wal_iter_next.simps)
      (auto simp: Let_def "1.IH" [OF _ _ _ _ refl] split: sum.splits)
qed

lemma wal_iter_next_failed:
  "wal_iter_next ops crc d it = (Some (Inl e), it') \<Longrightarrow> it_done it'"
proof (induction ops crc d it rule: wal_iter_next.induct)
  case (1 ops crc d it)
  from "1.prems" show ?case
    by (subst (asm) wal_iter_next.simps)
      (auto simp: Let_def split: if_splits sum.splits dest!: "1.IH" [OF _ _ _ _ refl])
qed

lemma collect_done [simp]: "it_done it \<Longrightarrow> wal_iter_collect ops crc d it = []"
  by (subst wal_iter_collect.simps, subst wal_iter_next.simps) simp

lemma collect_shape:
  "\<exists>es tl. wal_iter_collect ops crc d it = map ok es @ tl \<and> (tl = [] \<or> (\<exists>e. tl = [Inl e])) \<and>
     (\<forall>e\<in>set es. entry_valid crc e \<and> it_start_lsn it \<le> entry_lsn e)"
proof (induction ops crc d it rule: wal_iter_collect.induct)
  case (1 ops crc d it)
  obtain o' it' where n: "wal_iter_next ops crc d it = (o', it')" by fastforce
  show ?case
  proof (cases o')
    case None
    then show ?thesis using n by (subst wal_iter_collect.simps) simp
  next
    case (Some r)
    show ?thesis
    proof (cases r)
      case (Inl e)
      then have "wal_iter_collect ops crc d it = [Inl e]"
        using n Some wal_iter_next_failed [of ops crc d it e it'] by (subst wal_iter_collect.simps) simp
      then show ?thesis by (metis append_Nil empty_iff empty_set list.simps(8))
    next
      case (Inr e)
      then have e: "entry_valid crc e" "it_start_lsn it \<le> entry_lsn e"
        using wal_iter_next_entry [of ops crc d it e it'] n Some by simp_all
      have st: "it_start_lsn it' = it_start_lsn it" using wal_iter_next_start [of ops crc d it] n by simp
      obtain es tl where es: "wal_iter_collect ops crc d it' = map ok es @ tl"
        "tl = [] \<or> (\<exists>e. tl = [Inl e])" "\<forall>e\<in>set es. entry_valid crc e \<and> it_start_lsn it' \<le> entry_lsn e"
        using "1.IH" [OF n [symmetric] Some] by blast
      have "wal_iter_collect ops crc d it = map ok (e # es) @ tl"
        using n Some Inr es(1) by (subst wal_iter_collect.simps) simp
      with e es st show ?thesis by (intro exI [of _ "e # es"] exI [of _ tl]) auto
    qed
  qed
qed

section \<open>Properties\<close>

text \<open>C1. After any run of formatting, appends, checkpoints, reopens and torn writes, opening
  the ring from the device alone gives the ring in memory, and replaying it from any LSN
  yields exactly the entries the run left live, in order, none of them an error.\<close>

theorem wal_recovery:
  assumes "crc_ok crc" and "wal_reach crc w d es"
  shows "wal_open file_block_device crc d (w_base w) (w_size w) = ok (w\<lparr>w_read_only := False\<rparr>) \<and>
    wal_iter_collect file_block_device crc d (iter_from w start) =
      map ok (filter (\<lambda>e. start \<le> entry_lsn e) es)"
proof -
  have inv: "fring crc w d es" using wal_reach_fring assms by blast
  then show ?thesis
    using fring_open [OF inv] fdev.iter_ring [OF assms(1), of d w es start] by simp
qed

text \<open>The concrete ring of the witnesses: four blocks of a fresh file, two of them data sectors,
  with a checksum that is constant, one entry appended, the next sector and the
  inactive header torn.\<close>

abbreviation wit_dev :: file_device where "wit_dev \<equiv> file_device_open [] 16384"

abbreviation wit_ts :: hybrid_timestamp where "wit_ts \<equiv> HybridTimestamp 7 1 3"

abbreviation wit_entry :: "u64 \<Rightarrow> wal_entry" where
  "wit_entry lsn \<equiv> new_entry zcrc OpAddTag [1, 2, 3] wit_ts 0 lsn"

lemma wit_dev_ok: "file_device_inv wit_dev" "fd_writable wit_dev" "fd_capacity wit_dev = 16384"
  by (simp_all add: file_device_inv_def file_device_open_def fd_writable_def)

lemma wit_ts_ok: "ts_ok wit_ts"
  by (simp add: ts_ok_def i64_ok_def)

lemma torn_header_unusable: "\<not> header_usable crc (wal_header_of (replicate 4096 255))"
proof -
  have "replicate 2 (255 :: byte) = [255, 255]" by (simp add: numeral_2_eq_2)
  then show ?thesis
    by (simp add: header_usable_def verify_kind_iff wal_header_of_def block_header_of_def preamble_of_def
        get_le_def bslice_replicate)
qed

lemma wit_format:
  obtains w d where "wal_format file_block_device zcrc wit_dev 0 16384 = ok (w, d)"
    and "wal_reach zcrc w d []" and "data_sectors w = 2" and "\<not> w_read_only w"
    and "wh_next_lsn (w_header w) = 1" and "bh_generation (wh_header (w_header w)) = 1"
    and "w_base w = 0" and "w_size w = 16384"
proof -
  have "\<not> bad_size 16384" by (simp add: bad_size_def)
  then obtain w d where w: "wal_format file_block_device zcrc wit_dev 0 16384 = ok (w, d)"
      "w_base w = 0" "w_size w = 16384" "\<not> w_read_only w" "wh_next_lsn (w_header w) = 1"
      "bh_generation (wh_header (w_header w)) = 1"
    using fdev.format_ring [OF zcrc_ok wit_dev_ok(1,2), of 16384 0] wit_dev_ok(3)
    unfolding file_capacity by (metis add_0 order_refl)
  then show ?thesis using reach_format [OF wit_dev_ok(1,2) _ w(1)] wit_dev_ok(3) that [OF w(1)]
    by (simp add: data_sectors_def)
qed

lemma wal_append_step:
  assumes crc: "crc_ok crc" and r: "wal_reach crc w d es" and rw: "\<not> w_read_only w"
    and fl: "flags AND 1 = 0" "flags AND 2 = 0" "flags < 2 ^ 16" and len: "length payload \<le> 4052"
    and lsn: "wh_next_lsn (w_header w) + 1 < 2 ^ 64"
    and gen: "bh_generation (wh_header (w_header w)) + 1 < 2 ^ 64" and ts: "ts_ok ts"
    and room: "length es < data_sectors w"
  obtains w' d' where "append_raw file_block_device crc w d op_kind payload ts flags =
      ok (wh_next_lsn (w_header w), w', d')"
    and "wal_reach crc w' d' (es @ [new_entry crc op_kind payload ts flags (wh_next_lsn (w_header w))])"
    and "\<not> w_read_only w'" and "w_base w' = w_base w" and "w_size w' = w_size w"
proof -
  have inv: "fring crc w d es" using wal_reach_fring r crc by blast
  obtain w' d' where app: "append_raw file_block_device crc w d op_kind payload ts flags =
      ok (wh_next_lsn (w_header w), w', d')" and "\<not> w_read_only w'" "w_base w' = w_base w" "w_size w' = w_size w"
    using fdev.append_ring [OF crc, of d w es flags payload ts op_kind] inv rw fl len room lsn gen ts
    unfolding file_capacity by blast
  with that [OF app reach_append [OF r ts fl(3) app]] show ?thesis by simp
qed

lemma entry_lsn_new [simp]: "entry_lsn (new_entry crc k p ts fl lsn) = lsn"
  by (simp add: entry_lsn_def new_entry_def entry_header_new_def)

text \<open>A ring with one live entry whose next sector and inactive header were torn.\<close>

lemma wit_torn:
  obtains w d where "wal_reach zcrc w d [wit_entry 1]" and "data_sectors w = 2" and "\<not> w_read_only w"
    and "w_base w = 0" and "w_size w = 16384" and "wh_next_lsn (w_header w) = 2"
    and "bh_generation (wh_header (w_header w)) + 1 < 2 ^ 64"
proof -
  obtain w d where w: "wal_reach zcrc w d []" "data_sectors w = 2" "\<not> w_read_only w"
      "wh_next_lsn (w_header w) = 1" "bh_generation (wh_header (w_header w)) = 1" "w_base w = 0" "w_size w = 16384"
    using wit_format by metis
  obtain w1 d1 where app: "append_raw file_block_device zcrc w d OpAddTag [1, 2, 3] wit_ts 0 = ok (1, w1, d1)"
      and w1: "wal_reach zcrc w1 d1 [wit_entry 1]" "\<not> w_read_only w1" "w_base w1 = 0" "w_size w1 = 16384"
    using wal_append_step [OF zcrc_ok w(1,3), of 0 "[1, 2, 3]" wit_ts OpAddTag] w wit_ts_ok by auto
  have hdr: "wh_next_lsn (w_header w1) = 2 \<and> bh_generation (wh_header (w_header w1)) = 2"
    using app w(4,5) by (auto simp: append_raw_def Let_def res_simps flush_header_def add_u64_def advance_write_def
        split: if_splits)
  have "wal_reach zcrc w1 (torn_header w1 (torn_data w1 d1 (replicate 4096 9)) (replicate 4096 255)) [wit_entry 1]"
    using w1 torn_header_unusable
    by (intro reach_torn_header reach_torn_data) (simp_all add: data_sectors_def)
  with that w1 hdr show ?thesis by (simp add: data_sectors_def)
qed

theorem wal_recovery_witness:
  "\<exists>w d. wal_open file_block_device zcrc d 0 16384 = ok w \<and>
     wal_iter_collect file_block_device zcrc d (iter_from w 0) = [ok (wit_entry 1)] \<and>
     wal_iter_collect file_block_device zcrc d (iter_from w 2) = []"
proof -
  obtain w d where w: "wal_reach zcrc w d [wit_entry 1]" "\<not> w_read_only w" "w_base w = 0" "w_size w = 16384"
    using wit_torn by metis
  have "w\<lparr>w_read_only := False\<rparr> = w" using w(2) by (cases w) simp
  then show ?thesis
    using wal_recovery [OF zcrc_ok w(1), of 0] wal_recovery [OF zcrc_ok w(1), of 2] w(3,4)
    by (intro exI [of _ w] exI [of _ d]) simp
qed

text \<open>An append to a ring in use never overwrites a live entry: with a sector free it returns the
  next LSN, and reopening and replaying the device gives the old entries and then the new
  one; with none free it reports the ring full.\<close>

theorem wal_append_durable:
  assumes "crc_ok crc" and "wal_reach crc w d es" and "\<not> w_read_only w"
    and "flags AND 1 = 0" and "flags AND 2 = 0" and "flags < 2 ^ 16" and "length payload \<le> 4052"
    and "wh_next_lsn (w_header w) + 1 < 2 ^ 64"
    and "bh_generation (wh_header (w_header w)) + 1 < 2 ^ 64" and "ts_ok ts"
  defines "lsn \<equiv> wh_next_lsn (w_header w)"
  shows "if length es < data_sectors w
    then \<exists>w' d'. append_raw file_block_device crc w d op_kind payload ts flags = ok (lsn, w', d') \<and>
      wal_open file_block_device crc d' (w_base w) (w_size w) = ok w' \<and>
      wal_iter_collect file_block_device crc d' (iter_from w' start) =
        map ok (filter (\<lambda>e. start \<le> entry_lsn e) (es @ [new_entry crc op_kind payload ts flags lsn]))
    else append_raw file_block_device crc w d op_kind payload ts flags =
      err (RingFull (data_capacity w) (data_capacity w))"
proof -
  have inv: "fring crc w d es" using wal_reach_fring assms(1,2) by blast
  then have full: "length es \<le> data_sectors w" by (simp add: ring_inv_def data_ok_def cursors_ok_def)
  show ?thesis
  proof (cases "length es < data_sectors w")
    case True
    then obtain w' d' where app: "append_raw file_block_device crc w d op_kind payload ts flags = ok (lsn, w', d')"
      and w': "wal_reach crc w' d' (es @ [new_entry crc op_kind payload ts flags lsn])"
        "\<not> w_read_only w'" "w_base w' = w_base w" "w_size w' = w_size w"
      using wal_append_step [OF assms(1-10)] unfolding lsn_def by metis
    have same: "w'\<lparr>w_read_only := False\<rparr> = w'" using w'(2) by (cases w') simp
    have inv': "fring crc w' d' (es @ [new_entry crc op_kind payload ts flags lsn])"
      using wal_reach_fring w'(1) assms(1) by blast
    show ?thesis
      using True app fring_open [OF inv'] same w'(3,4) fdev.iter_ring [OF assms(1), of d' w' _ start] inv' by auto
  next
    case False
    then show ?thesis
      using full fdev.append_full [of crc w d es flags payload] inv assms(3-7) by simp
  qed
qed

theorem wal_append_durable_witness:
  "\<exists>w d w' d'. wal_open file_block_device zcrc d 0 16384 = ok w \<and>
     append_raw file_block_device zcrc w d OpAddTag [1, 2, 3] wit_ts 0 = ok (2, w', d') \<and>
     wal_iter_collect file_block_device zcrc d' (iter_from w' 0) = [ok (wit_entry 1), ok (wit_entry 2)]"
proof -
  obtain w d where w: "wal_reach zcrc w d [wit_entry 1]" "data_sectors w = 2" "\<not> w_read_only w" "w_base w = 0"
      "w_size w = 16384" "wh_next_lsn (w_header w) = 2" "bh_generation (wh_header (w_header w)) + 1 < 2 ^ 64"
    using wit_torn by metis
  have "w\<lparr>w_read_only := False\<rparr> = w" using w(3) by (cases w) simp
  then have "wal_open file_block_device zcrc d 0 16384 = ok w"
    using fring_open [OF wal_reach_fring [OF w(1) zcrc_ok]] w(4,5) by simp
  moreover have "\<exists>w' d'. append_raw file_block_device zcrc w d OpAddTag [1, 2, 3] wit_ts 0 = ok (2, w', d') \<and>
     wal_open file_block_device zcrc d' (w_base w) (w_size w) = ok w' \<and>
     wal_iter_collect file_block_device zcrc d' (iter_from w' 0) = [ok (wit_entry 1), ok (wit_entry 2)]"
    using wal_append_durable [OF zcrc_ok w(1,3), of 0 "[1, 2, 3]" wit_ts OpAddTag 0] w(2,6,7) wit_ts_ok by simp
  ultimately show ?thesis by blast
qed

text \<open>C2. A checkpoint of a reachable writable ring at LSN \<open>n\<close>, where the generation counter of the header can still
  be raised, reclaims exactly the entries up to \<open>n\<close> and reports how many; the device then opens to the
  checkpointed ring, which replays exactly the later ones.\<close>

theorem wal_checkpoint_exact:
  assumes "crc_ok crc" and "wal_reach crc w d es" and "\<not> w_read_only w" and "n < 2 ^ 64"
    and "bh_generation (wh_header (w_header w)) + 1 < 2 ^ 64"
  shows "\<exists>w' d'. checkpoint file_block_device crc w d n =
      ok (length (filter (\<lambda>e. entry_lsn e \<le> n) es), w', d') \<and>
    wal_open file_block_device crc d' (w_base w) (w_size w) = ok w' \<and>
    wh_last_checkpoint_lsn (w_header w') = n \<and>
    wal_iter_collect file_block_device crc d' (iter_from w' start) =
      map ok (filter (\<lambda>e. max start (n + 1) \<le> entry_lsn e) es)"
proof -
  have inv: "fring crc w d es" using wal_reach_fring assms(1,2) by blast
  obtain w' d' where cp: "checkpoint file_block_device crc w d n =
      ok (length (filter (\<lambda>e. entry_lsn e \<le> n) es), w', d')"
    and inv': "fring crc w' d' (filter (\<lambda>e. n < entry_lsn e) es)"
    and w': "\<not> w_read_only w'" "w_base w' = w_base w" "w_size w' = w_size w"
      "wh_last_checkpoint_lsn (w_header w') = n"
    using fdev.checkpoint_ring [OF assms(1), of d w es n] inv assms(3-5) unfolding file_capacity by blast
  have same: "w'\<lparr>w_read_only := False\<rparr> = w'" using w'(1) by (cases w') simp
  have "wal_iter_collect file_block_device crc d' (iter_from w' start) =
      map ok (filter (\<lambda>e. max start (n + 1) \<le> entry_lsn e) es)"
    using fdev.iter_ring [OF assms(1), of d' w' "filter (\<lambda>e. n < entry_lsn e) es" start] inv'
    by (simp add: Suc_le_eq conj_commute)
  then show ?thesis using cp fring_open [OF inv'] same w' by auto
qed

theorem wal_checkpoint_exact_witness:
  "\<exists>w d w' d'. wal_reach zcrc w d [wit_entry 1] \<and>
     checkpoint file_block_device zcrc w d 1 = ok (1, w', d') \<and>
     wal_iter_collect file_block_device zcrc d' (iter_from w' 0) = []"
proof -
  obtain w d where w: "wal_reach zcrc w d [wit_entry 1]" "\<not> w_read_only w"
      "bh_generation (wh_header (w_header w)) + 1 < 2 ^ 64"
    using wit_torn by metis
  then show ?thesis using wal_checkpoint_exact [OF zcrc_ok w(1,2), of 1 0] by auto
qed

text \<open>A crash in the middle of an append loses only that append: whatever bytes reached the data
  sector, and whatever reached the inactive header block short of a header that passes
  its own checks, reopening gives the ring from before the append and all its entries.\<close>

theorem wal_torn_append:
  assumes "crc_ok crc" and "wal_reach crc w d es" and "length es < data_sectors w"
    and "length s = 4096" and "length hb = 4096" and "\<not> header_usable crc (wal_header_of hb)"
  defines "d' \<equiv> torn_header w (torn_data w d s) hb"
  shows "wal_open file_block_device crc d' (w_base w) (w_size w) = ok (w\<lparr>w_read_only := False\<rparr>) \<and>
    wal_iter_collect file_block_device crc d' (iter_from w 0) = map ok es"
proof -
  have inv: "fring crc w d' es"
    unfolding d'_def
    using fring_torn_header [OF fring_torn_data [OF wal_reach_fring [OF assms(2,1)] assms(3,4)] assms(5,6)] .
  then show ?thesis
    using fring_open [OF inv] fdev.iter_ring [OF assms(1), of d' w es 0] by simp
qed

theorem wal_torn_append_witness:
  "\<exists>w d. wal_reach zcrc w d [wit_entry 1] \<and>
     wal_open file_block_device zcrc (torn_header w (torn_data w d (replicate 4096 7)) (replicate 4096 255)) 0 16384 = ok w"
proof -
  obtain w d where w: "wal_reach zcrc w d [wit_entry 1]" "data_sectors w = 2" "\<not> w_read_only w" "w_base w = 0"
      "w_size w = 16384"
    using wit_torn by metis
  have "w\<lparr>w_read_only := False\<rparr> = w" using w(3) by (cases w) simp
  then show ?thesis
    using wal_torn_append [OF zcrc_ok w(1) _ _ _ torn_header_unusable, of "replicate 4096 7"] w
    by (intro exI [of _ w] exI [of _ d]) simp
qed

text \<open>The live entries of a ring carry consecutive LSNs that end just below the next one.\<close>

theorem wal_lsns_consecutive:
  assumes "crc_ok crc" and "wal_reach crc w d es"
  shows "map entry_lsn es = [wh_next_lsn (w_header w) - length es ..< wh_next_lsn (w_header w)]"
proof -
  have lsns: "lsns_ok w es"
    using wal_reach_fring [OF assms(2,1)] by (simp add: ring_inv_def data_ok_def)
  have le: "length es \<le> wh_next_lsn (w_header w)"
  proof (cases es)
    case (Cons e es')
    then show ?thesis using lsns by (force simp: lsns_ok_def)
  qed simp
  show ?thesis
  proof (rule nth_equalityI)
    show "length (map entry_lsn es) = length [wh_next_lsn (w_header w) - length es ..< wh_next_lsn (w_header w)]"
      using le by simp
    fix i assume "i < length (map entry_lsn es)"
    then have i: "i < length es" and "entry_lsn (es ! i) + (length es - i) = wh_next_lsn (w_header w)"
      using lsns by (simp_all add: lsns_ok_def)
    then show "map entry_lsn es ! i = [wh_next_lsn (w_header w) - length es ..< wh_next_lsn (w_header w)] ! i"
      using le by simp
  qed
qed

theorem wal_lsns_consecutive_witness: "\<exists>w d. wal_reach zcrc w d [wit_entry 1] \<and> [1] = [wh_next_lsn (w_header w) - 1 ..< wh_next_lsn (w_header w)]"
proof -
  obtain w d where w: "wal_reach zcrc w d [wit_entry 1]" using wit_torn by metis
  then show ?thesis using wal_lsns_consecutive [OF zcrc_ok w] by auto
qed

text \<open>On any device with any contents, replay yields valid entries at or after the start LSN
  and at most one failure, which is the last item: nothing is replayed past a damaged
  sector, and no entry with a wrong magic, payload checksum or unsupported flag is replayed.\<close>

theorem wal_replay_valid_prefix:
  "\<exists>es tl. wal_iter_collect ops crc d (iter_from w start) = map ok es @ tl \<and>
     (tl = [] \<or> (\<exists>e. tl = [Inl e])) \<and> list_all (\<lambda>e. entry_valid crc e \<and> start \<le> entry_lsn e) es"
proof -
  have "it_start_lsn (iter_from w start) = start" by (simp add: iter_from_def)
  then show ?thesis
    using collect_shape [of ops crc d "iter_from w start"] by (simp add: list_all_iff)
qed

text \<open>A sector built from a well-formed entry decodes to that entry, whatever the checksum function.\<close>

theorem wal_sector_roundtrip:
  "crc_ok crc \<Longrightarrow> entry_ok crc e \<Longrightarrow>
   length (entry_sector crc e) = 4096 \<and> decode_sector crc (entry_sector crc e) = ok e"
  using length_entry_sector decode_entry_sector by blast

theorem wal_sector_roundtrip_witness:
  "decode_sector zcrc (entry_sector zcrc (wit_entry 5)) = ok (wit_entry 5)"
proof -
  have "entry_ok zcrc (wit_entry 5)"
    using new_entry_ok [OF zcrc_ok wit_ts_ok, of 0 5 "[1, 2, 3]" OpAddTag] by simp
  then show ?thesis using wal_sector_roundtrip [OF zcrc_ok, of "wit_entry 5"] by simp
qed

end
