(* ===== verification/Mb_Root.thy ===== *)
theory Mb_Root
  imports Mb_Block
begin

text \<open>
  Block references and the root pointer (\<open>crates/storage/src/root_pointer.rs\<close>): the packed
  images, the trailing checksum and the generation check. The external CRC-32C is the
  parameter \<open>crc\<close>.
\<close>

section \<open>BlockRef and BlobRef\<close>

record block_ref =
  br_disk_id :: u16
  br_pad :: u16
  br_block_no :: u32
  br_generation :: u64

record blob_ref =
  blob_disk_id :: u16
  blob_pad :: u16
  blob_block_no :: u32
  blob_length :: u64

definition block_ref_new :: "u16 \<Rightarrow> u32 \<Rightarrow> u64 \<Rightarrow> block_ref" where
  "block_ref_new disk_id block_no generation =
     \<lparr>br_disk_id = disk_id, br_pad = 0, br_block_no = block_no, br_generation = generation\<rparr>"

definition block_ref_zero :: block_ref where
  "block_ref_zero = block_ref_new 0 0 0"

definition block_ref_ok :: "block_ref \<Rightarrow> bool" where
  "block_ref_ok r \<longleftrightarrow> br_disk_id r < 2 ^ 16 \<and> br_pad r < 2 ^ 16 \<and> br_block_no r < 2 ^ 32 \<and> br_generation r < 2 ^ 64"

definition block_ref_bytes :: "block_ref \<Rightarrow> byte list" where
  "block_ref_bytes r = le_bytes 2 (br_disk_id r) @ le_bytes 2 (br_pad r) @
     le_bytes 4 (br_block_no r) @ le_bytes 8 (br_generation r)"

definition block_ref_of :: "byte list \<Rightarrow> block_ref" where
  "block_ref_of bs = \<lparr>br_disk_id = get_le 0 2 bs, br_pad = get_le 2 2 bs,
     br_block_no = get_le 4 4 bs, br_generation = get_le 8 8 bs\<rparr>"

section \<open>RootPointer\<close>

record root_pointer =
  rp_seq :: u64
  rp_lsn :: u64
  rp_object_table_root :: block_ref
  rp_object_history_root :: block_ref
  rp_location_table_root :: block_ref
  rp_location_history_root :: block_ref
  rp_forward_index_root :: block_ref
  rp_tag_index_root :: block_ref
  rp_kv_index_root :: block_ref
  rp_range_index_root :: block_ref
  rp_chunk_index_root :: block_ref
  rp_value_spill_root :: block_ref
  rp_backpointer_root :: block_ref
  rp_ontology_root :: block_ref
  rp_subscriptions_root :: block_ref
  rp_pool_state_root :: block_ref
  rp_snapshot_chain_root :: block_ref
  rp_reconcile_work_root :: block_ref
  rp_reconcile_high_prio_root :: block_ref
  rp_reconcile_work_phys_root :: block_ref
  rp_reconcile_high_prio_phys_root :: block_ref
  rp_reconcile_pending_root :: block_ref
  rp_reconcile_scan_root :: block_ref
  rp_disks_overflow_root :: block_ref
  rp_placement_rules_root :: block_ref
  rp_cluster_peers_root :: block_ref
  rp_flags :: u32
  rp_crc :: u32

definition root_pointer_zero :: root_pointer where
  "root_pointer_zero =
     \<lparr>rp_seq = 0, rp_lsn = 0,
      rp_object_table_root = block_ref_zero, rp_object_history_root = block_ref_zero, rp_location_table_root = block_ref_zero,
      rp_location_history_root = block_ref_zero, rp_forward_index_root = block_ref_zero, rp_tag_index_root = block_ref_zero,
      rp_kv_index_root = block_ref_zero, rp_range_index_root = block_ref_zero, rp_chunk_index_root = block_ref_zero,
      rp_value_spill_root = block_ref_zero, rp_backpointer_root = block_ref_zero, rp_ontology_root = block_ref_zero,
      rp_subscriptions_root = block_ref_zero, rp_pool_state_root = block_ref_zero, rp_snapshot_chain_root = block_ref_zero,
      rp_reconcile_work_root = block_ref_zero, rp_reconcile_high_prio_root = block_ref_zero, rp_reconcile_work_phys_root = block_ref_zero,
      rp_reconcile_high_prio_phys_root = block_ref_zero, rp_reconcile_pending_root = block_ref_zero, rp_reconcile_scan_root = block_ref_zero,
      rp_disks_overflow_root = block_ref_zero, rp_placement_rules_root = block_ref_zero, rp_cluster_peers_root = block_ref_zero,
      rp_flags = 0, rp_crc = 0\<rparr>"

definition root_pointer_ok :: "root_pointer \<Rightarrow> bool" where
  "root_pointer_ok r \<longleftrightarrow> rp_seq r < 2 ^ 64 \<and> rp_lsn r < 2 ^ 64 \<and>
     block_ref_ok (rp_object_table_root r) \<and> block_ref_ok (rp_object_history_root r) \<and> block_ref_ok (rp_location_table_root r) \<and>
     block_ref_ok (rp_location_history_root r) \<and> block_ref_ok (rp_forward_index_root r) \<and> block_ref_ok (rp_tag_index_root r) \<and>
     block_ref_ok (rp_kv_index_root r) \<and> block_ref_ok (rp_range_index_root r) \<and> block_ref_ok (rp_chunk_index_root r) \<and>
     block_ref_ok (rp_value_spill_root r) \<and> block_ref_ok (rp_backpointer_root r) \<and> block_ref_ok (rp_ontology_root r) \<and>
     block_ref_ok (rp_subscriptions_root r) \<and> block_ref_ok (rp_pool_state_root r) \<and> block_ref_ok (rp_snapshot_chain_root r) \<and>
     block_ref_ok (rp_reconcile_work_root r) \<and> block_ref_ok (rp_reconcile_high_prio_root r) \<and> block_ref_ok (rp_reconcile_work_phys_root r) \<and>
     block_ref_ok (rp_reconcile_high_prio_phys_root r) \<and> block_ref_ok (rp_reconcile_pending_root r) \<and> block_ref_ok (rp_reconcile_scan_root r) \<and>
     block_ref_ok (rp_disks_overflow_root r) \<and> block_ref_ok (rp_placement_rules_root r) \<and> block_ref_ok (rp_cluster_peers_root r) \<and>
     rp_flags r < 2 ^ 32 \<and> rp_crc r < 2 ^ 32"

text \<open>Bytes \<open>[0..404]\<close>, which the checksum covers, and the whole image.\<close>

definition root_pointer_body :: "root_pointer \<Rightarrow> byte list" where
  "root_pointer_body r = le_bytes 8 (rp_seq r) @ le_bytes 8 (rp_lsn r) @
     block_ref_bytes (rp_object_table_root r) @ block_ref_bytes (rp_object_history_root r) @ block_ref_bytes (rp_location_table_root r) @
     block_ref_bytes (rp_location_history_root r) @ block_ref_bytes (rp_forward_index_root r) @ block_ref_bytes (rp_tag_index_root r) @
     block_ref_bytes (rp_kv_index_root r) @ block_ref_bytes (rp_range_index_root r) @ block_ref_bytes (rp_chunk_index_root r) @
     block_ref_bytes (rp_value_spill_root r) @ block_ref_bytes (rp_backpointer_root r) @ block_ref_bytes (rp_ontology_root r) @
     block_ref_bytes (rp_subscriptions_root r) @ block_ref_bytes (rp_pool_state_root r) @ block_ref_bytes (rp_snapshot_chain_root r) @
     block_ref_bytes (rp_reconcile_work_root r) @ block_ref_bytes (rp_reconcile_high_prio_root r) @ block_ref_bytes (rp_reconcile_work_phys_root r) @
     block_ref_bytes (rp_reconcile_high_prio_phys_root r) @ block_ref_bytes (rp_reconcile_pending_root r) @ block_ref_bytes (rp_reconcile_scan_root r) @
     block_ref_bytes (rp_disks_overflow_root r) @ block_ref_bytes (rp_placement_rules_root r) @ block_ref_bytes (rp_cluster_peers_root r) @
     le_bytes 4 (rp_flags r)"

definition root_pointer_bytes :: "root_pointer \<Rightarrow> byte list" where
  "root_pointer_bytes r = root_pointer_body r @ le_bytes 4 (rp_crc r)"

definition root_pointer_of :: "byte list \<Rightarrow> root_pointer" where
  "root_pointer_of bs =
     \<lparr>rp_seq = get_le 0 8 bs, rp_lsn = get_le 8 8 bs,
      rp_object_table_root = block_ref_of (bslice 16 16 bs), rp_object_history_root = block_ref_of (bslice 32 16 bs),
      rp_location_table_root = block_ref_of (bslice 48 16 bs), rp_location_history_root = block_ref_of (bslice 64 16 bs),
      rp_forward_index_root = block_ref_of (bslice 80 16 bs), rp_tag_index_root = block_ref_of (bslice 96 16 bs),
      rp_kv_index_root = block_ref_of (bslice 112 16 bs), rp_range_index_root = block_ref_of (bslice 128 16 bs),
      rp_chunk_index_root = block_ref_of (bslice 144 16 bs), rp_value_spill_root = block_ref_of (bslice 160 16 bs),
      rp_backpointer_root = block_ref_of (bslice 176 16 bs), rp_ontology_root = block_ref_of (bslice 192 16 bs),
      rp_subscriptions_root = block_ref_of (bslice 208 16 bs), rp_pool_state_root = block_ref_of (bslice 224 16 bs),
      rp_snapshot_chain_root = block_ref_of (bslice 240 16 bs), rp_reconcile_work_root = block_ref_of (bslice 256 16 bs),
      rp_reconcile_high_prio_root = block_ref_of (bslice 272 16 bs), rp_reconcile_work_phys_root = block_ref_of (bslice 288 16 bs),
      rp_reconcile_high_prio_phys_root = block_ref_of (bslice 304 16 bs), rp_reconcile_pending_root = block_ref_of (bslice 320 16 bs),
      rp_reconcile_scan_root = block_ref_of (bslice 336 16 bs), rp_disks_overflow_root = block_ref_of (bslice 352 16 bs),
      rp_placement_rules_root = block_ref_of (bslice 368 16 bs), rp_cluster_peers_root = block_ref_of (bslice 384 16 bs),
      rp_flags = get_le 400 4 bs, rp_crc = get_le 404 4 bs\<rparr>"

definition root_pointer_recompute_crc :: "(byte list \<Rightarrow> u32) \<Rightarrow> root_pointer \<Rightarrow> root_pointer" where
  "root_pointer_recompute_crc crc r =
     (let r0 = r\<lparr>rp_crc := 0\<rparr> in r0\<lparr>rp_crc := crc (take 404 (root_pointer_bytes r0))\<rparr>)"

definition root_pointer_verify_crc :: "(byte list \<Rightarrow> u32) \<Rightarrow> root_pointer \<Rightarrow> (storage_error, unit) res" where
  "root_pointer_verify_crc crc r =
     (let expected = rp_crc r; actual = crc (take 404 (root_pointer_bytes (r\<lparr>rp_crc := 0\<rparr>)))
      in if expected = actual then ok () else err (CrcMismatch expected actual))"

section \<open>Lemmas\<close>

lemma length_block_ref_bytes [simp]: "length (block_ref_bytes r) = 16"
  by (simp add: block_ref_bytes_def)

lemma block_ref_of_bytes [codec_simps]: "block_ref_ok r \<Longrightarrow> block_ref_of (block_ref_bytes r) = r"
  by (simp add: block_ref_ok_def block_ref_bytes_def block_ref_of_def get_le_def bslice_def)

lemma length_root_pointer_body [simp]: "length (root_pointer_body r) = 404"
  by (simp add: root_pointer_body_def)

lemma length_root_pointer_bytes [simp]: "length (root_pointer_bytes r) = 408"
  by (simp add: root_pointer_bytes_def)

lemma root_pointer_body_crc [simp]: "root_pointer_body (r\<lparr>rp_crc := c\<rparr>) = root_pointer_body r"
  by (simp add: root_pointer_body_def)

lemma root_pointer_of_bytes [codec_simps]:
  "root_pointer_ok r \<Longrightarrow> root_pointer_of (root_pointer_bytes r) = r"
  by (simp add: root_pointer_ok_def root_pointer_bytes_def root_pointer_body_def root_pointer_of_def
      get_le_def codec_simps)

lemma root_verify_recompute [simp]:
  "root_pointer_verify_crc crc (root_pointer_recompute_crc crc r) = ok ()"
  by (simp add: root_pointer_verify_crc_def root_pointer_recompute_crc_def Let_def root_pointer_bytes_def)

lemma root_recompute_simps [simp]:
  "rp_seq (root_pointer_recompute_crc crc r) = rp_seq r"
  "rp_lsn (root_pointer_recompute_crc crc r) = rp_lsn r"
  by (simp_all add: root_pointer_recompute_crc_def Let_def)

end
