(* ===== verification/Mb_Superblock.thy ===== *)
theory Mb_Superblock
  imports Mb_Root Mb_Types Mb_Device
begin

text \<open>
  The superblock (\<open>crates/storage/src/superblock.rs\<close>): its 4 KiB image, formatting,
  opening from the best of three copies, and the atomic root commit.
\<close>

section \<open>Media types and tiers\<close>

datatype media_type = NVMe | Ssd | Hdd | SmrHdd | Remote

fun media_type_to_u8 :: "media_type \<Rightarrow> u8" where
  "media_type_to_u8 NVMe = 0"
| "media_type_to_u8 Ssd = 1"
| "media_type_to_u8 Hdd = 2"
| "media_type_to_u8 SmrHdd = 3"
| "media_type_to_u8 Remote = 4"

definition media_type_from_u8 :: "u8 \<Rightarrow> (storage_error, media_type) res" where
  "media_type_from_u8 v =
     (if v = 0 then ok NVMe else if v = 1 then ok Ssd else if v = 2 then ok Hdd
      else if v = 3 then ok SmrHdd else if v = 4 then ok Remote else err (InvalidMediaType v))"

datatype storage_tier = Hot | Warm | Cold | Glacier

fun storage_tier_u8 :: "storage_tier \<Rightarrow> u8" where
  "storage_tier_u8 Hot = 0"
| "storage_tier_u8 Warm = 1"
| "storage_tier_u8 Cold = 2"
| "storage_tier_u8 Glacier = 3"

definition storage_tier_from_u8 :: "u8 \<Rightarrow> storage_tier option" where
  "storage_tier_from_u8 v =
     (if v = 0 then Some Hot else if v = 1 then Some Warm else if v = 2 then Some Cold
      else if v = 3 then Some Glacier else None)"

section \<open>Layout\<close>

definition SUPERBLOCK_MAGIC_FULL :: "byte list" where
  "SUPERBLOCK_MAGIC_FULL = [0x4D, 0x49, 0x4D, 0x49, 0x53, 0x42, 0x52, 0x55, 0x4E, 0x4E, 0x52, 0, 0, 0, 0, 0]"

text \<open>\<open>default_chunking\<close> is the 16-byte \<open>ChunkParamsRecord\<close>, opaque in the source too.\<close>

record superblock =
  sb_header :: block_header
  sb_magic_full :: "byte list"
  sb_fs_uuid :: "byte list"
  sb_node_id :: u16
  sb_disk_id :: u16
  sb_media_type :: u8
  sb_tier :: u8
  sb_pad0 :: "byte list"
  sb_device_capacity :: u64
  sb_block_size_log2 :: u8
  sb_pad1 :: "byte list"
  sb_creation_timestamp_ns :: int
  sb_last_mount_timestamp_ns :: int
  sb_mount_count :: u64
  sb_root_a :: root_pointer
  sb_root_b :: root_pointer
  sb_active_root :: u8
  sb_pad2 :: "byte list"
  sb_wal_offset :: u64
  sb_wal_size :: u64
  sb_bucket_size_log2 :: u8
  sb_copygc_reserve_pct :: u8
  sb_btree_node_size_log2 :: u8
  sb_pad3 :: "byte list"
  sb_bootstrap_buckets :: u32
  sb_pad4 :: "byte list"
  sb_zone_map_offset :: u64
  sb_index_zone :: zone_extent
  sb_metadata_zone :: zone_extent
  sb_blob_zone :: zone_extent
  sb_encryption_keyid :: "byte list"
  sb_fs_format_version :: u32
  sb_fs_min_on_disk :: u32
  sb_compat_features :: u64
  sb_ro_compat_features :: u64
  sb_incompat_features :: u64
  sb_downgrade_log_ref :: block_ref
  sb_default_chunking_threshold :: u64
  sb_default_chunking :: "byte list"
  sb_reserved :: "byte list"
  sb_crc :: u32

definition block_header_zero :: block_header where
  "block_header_zero = \<lparr>bh_pre = \<lparr>bp_magic = replicate 4 0, bp_kind = 0, bp_format_version = 0\<rparr>,
     bh_payload_length = 0, bh_generation = 0, bh_lsn = 0, bh_flags = 0\<rparr>"

definition zone_extent_zero :: zone_extent where
  "zone_extent_zero = \<lparr>ze_offset = 0, ze_length = 0, ze_flags = 0, ze_pad = 0\<rparr>"

definition superblock_zero :: superblock where
  "superblock_zero =
     \<lparr>sb_header = block_header_zero, sb_magic_full = replicate 16 0, sb_fs_uuid = replicate 16 0,
      sb_node_id = 0, sb_disk_id = 0, sb_media_type = 0,
      sb_tier = 0, sb_pad0 = replicate 2 0, sb_device_capacity = 0,
      sb_block_size_log2 = 0, sb_pad1 = replicate 7 0, sb_creation_timestamp_ns = 0,
      sb_last_mount_timestamp_ns = 0, sb_mount_count = 0, sb_root_a = root_pointer_zero,
      sb_root_b = root_pointer_zero, sb_active_root = 0, sb_pad2 = replicate 7 0,
      sb_wal_offset = 0, sb_wal_size = 0, sb_bucket_size_log2 = 0,
      sb_copygc_reserve_pct = 0, sb_btree_node_size_log2 = 0, sb_pad3 = replicate 5 0,
      sb_bootstrap_buckets = 0, sb_pad4 = replicate 4 0, sb_zone_map_offset = 0,
      sb_index_zone = zone_extent_zero, sb_metadata_zone = zone_extent_zero, sb_blob_zone = zone_extent_zero,
      sb_encryption_keyid = replicate 16 0, sb_fs_format_version = 0, sb_fs_min_on_disk = 0,
      sb_compat_features = 0, sb_ro_compat_features = 0, sb_incompat_features = 0,
      sb_downgrade_log_ref = block_ref_zero, sb_default_chunking_threshold = 0, sb_default_chunking = replicate 16 0,
      sb_reserved = replicate 2956 0, sb_crc = 0\<rparr>"

definition superblock_ok :: "superblock \<Rightarrow> bool" where
  "superblock_ok s \<longleftrightarrow> block_header_ok (sb_header s) \<and> length (sb_magic_full s) = 16 \<and> length (sb_fs_uuid s) = 16 \<and>
     sb_node_id s < 2 ^ 16 \<and> sb_disk_id s < 2 ^ 16 \<and> sb_media_type s < 2 ^ 8 \<and>
     sb_tier s < 2 ^ 8 \<and> length (sb_pad0 s) = 2 \<and> sb_device_capacity s < 2 ^ 64 \<and>
     sb_block_size_log2 s < 2 ^ 8 \<and> length (sb_pad1 s) = 7 \<and> i64_ok (sb_creation_timestamp_ns s) \<and>
     i64_ok (sb_last_mount_timestamp_ns s) \<and> sb_mount_count s < 2 ^ 64 \<and> root_pointer_ok (sb_root_a s) \<and>
     root_pointer_ok (sb_root_b s) \<and> sb_active_root s < 2 ^ 8 \<and> length (sb_pad2 s) = 7 \<and>
     sb_wal_offset s < 2 ^ 64 \<and> sb_wal_size s < 2 ^ 64 \<and> sb_bucket_size_log2 s < 2 ^ 8 \<and>
     sb_copygc_reserve_pct s < 2 ^ 8 \<and> sb_btree_node_size_log2 s < 2 ^ 8 \<and> length (sb_pad3 s) = 5 \<and>
     sb_bootstrap_buckets s < 2 ^ 32 \<and> length (sb_pad4 s) = 4 \<and> sb_zone_map_offset s < 2 ^ 64 \<and>
     zone_extent_ok (sb_index_zone s) \<and> zone_extent_ok (sb_metadata_zone s) \<and> zone_extent_ok (sb_blob_zone s) \<and>
     length (sb_encryption_keyid s) = 16 \<and> sb_fs_format_version s < 2 ^ 32 \<and> sb_fs_min_on_disk s < 2 ^ 32 \<and>
     sb_compat_features s < 2 ^ 64 \<and> sb_ro_compat_features s < 2 ^ 64 \<and> sb_incompat_features s < 2 ^ 64 \<and>
     block_ref_ok (sb_downgrade_log_ref s) \<and> sb_default_chunking_threshold s < 2 ^ 64 \<and> length (sb_default_chunking s) = 16 \<and>
     length (sb_reserved s) = 2956 \<and> sb_crc s < 2 ^ 32"

definition superblock_body :: "superblock \<Rightarrow> byte list" where
  "superblock_body s = block_header_bytes (sb_header s) @ sb_magic_full s @ sb_fs_uuid s @
     le_bytes 2 (sb_node_id s) @ le_bytes 2 (sb_disk_id s) @ le_bytes 1 (sb_media_type s) @
     le_bytes 1 (sb_tier s) @ sb_pad0 s @ le_bytes 8 (sb_device_capacity s) @
     le_bytes 1 (sb_block_size_log2 s) @ sb_pad1 s @ i64_bytes (sb_creation_timestamp_ns s) @
     i64_bytes (sb_last_mount_timestamp_ns s) @ le_bytes 8 (sb_mount_count s) @ root_pointer_bytes (sb_root_a s) @
     root_pointer_bytes (sb_root_b s) @ le_bytes 1 (sb_active_root s) @ sb_pad2 s @
     le_bytes 8 (sb_wal_offset s) @ le_bytes 8 (sb_wal_size s) @ le_bytes 1 (sb_bucket_size_log2 s) @
     le_bytes 1 (sb_copygc_reserve_pct s) @ le_bytes 1 (sb_btree_node_size_log2 s) @ sb_pad3 s @
     le_bytes 4 (sb_bootstrap_buckets s) @ sb_pad4 s @ le_bytes 8 (sb_zone_map_offset s) @
     zone_extent_bytes (sb_index_zone s) @ zone_extent_bytes (sb_metadata_zone s) @ zone_extent_bytes (sb_blob_zone s) @
     sb_encryption_keyid s @ le_bytes 4 (sb_fs_format_version s) @ le_bytes 4 (sb_fs_min_on_disk s) @
     le_bytes 8 (sb_compat_features s) @ le_bytes 8 (sb_ro_compat_features s) @ le_bytes 8 (sb_incompat_features s) @
     block_ref_bytes (sb_downgrade_log_ref s) @ le_bytes 8 (sb_default_chunking_threshold s) @ sb_default_chunking s @
     sb_reserved s"

definition superblock_bytes :: "superblock \<Rightarrow> byte list" where
  "superblock_bytes s = superblock_body s @ le_bytes 4 (sb_crc s)"

definition superblock_of :: "byte list \<Rightarrow> superblock" where
  "superblock_of bs =
     \<lparr>sb_header = block_header_of (bslice 0 32 bs), sb_magic_full = bslice 32 16 bs,
      sb_fs_uuid = bslice 48 16 bs, sb_node_id = get_le 64 2 bs,
      sb_disk_id = get_le 66 2 bs, sb_media_type = get_le 68 1 bs,
      sb_tier = get_le 69 1 bs, sb_pad0 = bslice 70 2 bs,
      sb_device_capacity = get_le 72 8 bs, sb_block_size_log2 = get_le 80 1 bs,
      sb_pad1 = bslice 81 7 bs, sb_creation_timestamp_ns = i64_of (bslice 88 8 bs),
      sb_last_mount_timestamp_ns = i64_of (bslice 96 8 bs), sb_mount_count = get_le 104 8 bs,
      sb_root_a = root_pointer_of (bslice 112 408 bs), sb_root_b = root_pointer_of (bslice 520 408 bs),
      sb_active_root = get_le 928 1 bs, sb_pad2 = bslice 929 7 bs,
      sb_wal_offset = get_le 936 8 bs, sb_wal_size = get_le 944 8 bs,
      sb_bucket_size_log2 = get_le 952 1 bs, sb_copygc_reserve_pct = get_le 953 1 bs,
      sb_btree_node_size_log2 = get_le 954 1 bs, sb_pad3 = bslice 955 5 bs,
      sb_bootstrap_buckets = get_le 960 4 bs, sb_pad4 = bslice 964 4 bs,
      sb_zone_map_offset = get_le 968 8 bs, sb_index_zone = zone_extent_of (bslice 976 24 bs),
      sb_metadata_zone = zone_extent_of (bslice 1000 24 bs), sb_blob_zone = zone_extent_of (bslice 1024 24 bs),
      sb_encryption_keyid = bslice 1048 16 bs, sb_fs_format_version = get_le 1064 4 bs,
      sb_fs_min_on_disk = get_le 1068 4 bs, sb_compat_features = get_le 1072 8 bs,
      sb_ro_compat_features = get_le 1080 8 bs, sb_incompat_features = get_le 1088 8 bs,
      sb_downgrade_log_ref = block_ref_of (bslice 1096 16 bs), sb_default_chunking_threshold = get_le 1112 8 bs,
      sb_default_chunking = bslice 1120 16 bs, sb_reserved = bslice 1136 2956 bs,
      sb_crc = get_le 4092 4 bs\<rparr>"

lemma length_superblock_body: "superblock_ok s \<Longrightarrow> length (superblock_body s) = 4092"
  by (simp add: superblock_ok_def superblock_body_def length_block_header_bytes)

lemma length_superblock_bytes [codec_simps]: "superblock_ok s \<Longrightarrow> length (superblock_bytes s) = 4096"
  by (simp add: superblock_bytes_def length_superblock_body)

lemma superblock_of_bytes [codec_simps]: "superblock_ok s \<Longrightarrow> superblock_of (superblock_bytes s) = s"
  by (simp add: superblock_ok_def superblock_bytes_def superblock_body_def superblock_of_def
      get_le_def codec_simps block_header_of_append [where rest = "[]", simplified])

section \<open>Operations\<close>

definition superblock_recompute_crc :: "(byte list \<Rightarrow> u32) \<Rightarrow> superblock \<Rightarrow> superblock" where
  "superblock_recompute_crc crc s =
     (let s0 = s\<lparr>sb_crc := 0\<rparr> in s0\<lparr>sb_crc := crc (take 4092 (superblock_bytes s0))\<rparr>)"

definition superblock_verify_crc :: "(byte list \<Rightarrow> u32) \<Rightarrow> superblock \<Rightarrow> (storage_error, unit) res" where
  "superblock_verify_crc crc s =
     (let expected = sb_crc s; actual = crc (take 4092 (superblock_bytes (s\<lparr>sb_crc := 0\<rparr>)))
      in if expected = actual then ok () else err (CrcMismatch expected actual))"

record sb_params =
  fp_fs_uuid :: "byte list"
  fp_node_id :: u16
  fp_disk_id :: u16
  fp_media_type :: media_type
  fp_tier :: storage_tier
  fp_bucket_size_log2 :: u8
  fp_btree_node_size_log2 :: u8
  fp_bootstrap_buckets :: u32
  fp_wal_offset :: u64
  fp_wal_size :: u64
  fp_index_zone :: zone_extent
  fp_metadata_zone :: zone_extent
  fp_blob_zone :: zone_extent
  fp_format_version :: u16

definition sb_new_blank :: "(byte list \<Rightarrow> u32) \<Rightarrow> sb_params \<Rightarrow> u64 \<Rightarrow> superblock" where
  "sb_new_blank crc p device_capacity =
     superblock_recompute_crc crc (superblock_zero
       \<lparr>sb_header := block_header_new KSuperblock (fp_format_version p) (BLOCK_SIZE - 32 - 4),
        sb_magic_full := SUPERBLOCK_MAGIC_FULL,
        sb_fs_uuid := fp_fs_uuid p,
        sb_node_id := fp_node_id p,
        sb_disk_id := fp_disk_id p,
        sb_media_type := media_type_to_u8 (fp_media_type p),
        sb_tier := storage_tier_u8 (fp_tier p),
        sb_device_capacity := device_capacity,
        sb_block_size_log2 := 12,
        sb_bucket_size_log2 := fp_bucket_size_log2 p,
        sb_btree_node_size_log2 := fp_btree_node_size_log2 p,
        sb_bootstrap_buckets := fp_bootstrap_buckets p,
        sb_wal_offset := fp_wal_offset p,
        sb_wal_size := fp_wal_size p,
        sb_index_zone := fp_index_zone p,
        sb_metadata_zone := fp_metadata_zone p,
        sb_blob_zone := fp_blob_zone p,
        sb_fs_format_version := fp_format_version p,
        sb_fs_min_on_disk := fp_format_version p,
        sb_copygc_reserve_pct := 8,
        sb_active_root := 0,
        sb_root_a := root_pointer_recompute_crc crc root_pointer_zero,
        sb_root_b := root_pointer_recompute_crc crc root_pointer_zero\<rparr>)"

definition sb_media_type_of :: "superblock \<Rightarrow> (storage_error, media_type) res" where
  "sb_media_type_of s = media_type_from_u8 (sb_media_type s)"

definition sb_tier_of :: "superblock \<Rightarrow> (storage_error, storage_tier) res" where
  "sb_tier_of s = (case storage_tier_from_u8 (sb_tier s) of None \<Rightarrow> err (InvalidStorageTier (sb_tier s)) | Some t \<Rightarrow> ok t)"

definition sb_set_media_type :: "media_type \<Rightarrow> superblock \<Rightarrow> superblock" where
  "sb_set_media_type m s = s\<lparr>sb_media_type := media_type_to_u8 m\<rparr>"

definition sb_set_tier :: "storage_tier \<Rightarrow> superblock \<Rightarrow> superblock" where
  "sb_set_tier t s = s\<lparr>sb_tier := storage_tier_u8 t\<rparr>"

definition active_root_pointer :: "superblock \<Rightarrow> root_pointer" where
  "active_root_pointer s = (if sb_active_root s = 0 then sb_root_a s else sb_root_b s)"

definition inactive_root_pointer :: "superblock \<Rightarrow> root_pointer" where
  "inactive_root_pointer s = (if sb_active_root s = 0 then sb_root_b s else sb_root_a s)"

text \<open>The subtraction of \<open>copy_offsets\<close> underflows on a device below one block.\<close>

definition copy_offsets :: "u64 \<Rightarrow> ('e, u64 list) res" where
  "copy_offsets capacity = (if capacity < BLOCK_SIZE then Inl Panic else ok [0, BLOCK_SIZE, capacity - BLOCK_SIZE])"

fun write_copies :: "'d block_device \<Rightarrow> 'd \<Rightarrow> byte list \<Rightarrow> u64 list \<Rightarrow> (storage_error, 'd) res" where
  "write_copies ops d bytes [] = ok d"
| "write_copies ops d bytes (off # offs) =
     rbind (write_at ops d off bytes) (\<lambda>d1. write_copies ops d1 bytes offs)"

definition sb_format ::
  "'d block_device \<Rightarrow> (byte list \<Rightarrow> u32) \<Rightarrow> 'd \<Rightarrow> sb_params \<Rightarrow> (storage_error, superblock \<times> 'd) res" where
  "sb_format ops crc d p =
     (let capacity = dev_capacity ops d
      in if capacity < BLOCK_SIZE * 3 then err (DeviceTooSmall (BLOCK_SIZE * 3) capacity)
         else
           let sb = sb_new_blank crc p capacity
           in rbind (copy_offsets capacity) (\<lambda>offs.
              rbind (write_copies ops d (superblock_bytes sb) offs) (\<lambda>d1.
              rbind (dev_sync ops d1) (\<lambda>d2. ok (sb, d2)))))"

text \<open>\<open>active_root ^= 1\<close> on a byte.\<close>

definition flip_active :: "u8 \<Rightarrow> u8" where
  "flip_active a = (if even a then a + 1 else a - 1)"

text \<open>What one copy contributes to the choice: nothing, or its key and the superblock to use.\<close>

definition sb_candidate :: "(byte list \<Rightarrow> u32) \<Rightarrow> byte list \<Rightarrow> (u64 \<times> u64 \<times> superblock) option" where
  "sb_candidate crc buf =
     (let sb = superblock_of buf
      in if sb_magic_full sb \<noteq> SUPERBLOCK_MAGIC_FULL then None
         else if superblock_verify_crc crc sb \<noteq> ok () then None
         else
           let active = active_root_pointer sb
           in if root_pointer_verify_crc crc active \<noteq> ok () then
                let inactive = inactive_root_pointer sb
                in if root_pointer_verify_crc crc inactive \<noteq> ok () then None
                   else
                     let healed = superblock_recompute_crc crc (sb\<lparr>sb_active_root := flip_active (sb_active_root sb)\<rparr>)
                     in Some (rp_seq inactive, rp_lsn inactive, healed)
              else Some (rp_seq active, rp_lsn active, sb))"

definition sb_better :: "u64 \<times> u64 \<times> superblock \<Rightarrow> (u64 \<times> u64 \<times> superblock) option \<Rightarrow> bool" where
  "sb_better cand best = (case (cand, best) of
       (_, None) \<Rightarrow> True
     | ((s, l, _), Some (s', l', _)) \<Rightarrow> s > s' \<or> s = s' \<and> l > l')"

fun sb_scan ::
  "'d block_device \<Rightarrow> (byte list \<Rightarrow> u32) \<Rightarrow> 'd \<Rightarrow> u64 list \<Rightarrow> (u64 \<times> u64 \<times> superblock) option \<Rightarrow>
   (u64 \<times> u64 \<times> superblock) option" where
  "sb_scan ops crc d [] best = best"
| "sb_scan ops crc d (off # offs) best =
     sb_scan ops crc d offs
       (case read_at ops d off BLOCK_SIZE of
          Inl _ \<Rightarrow> best
        | Inr buf \<Rightarrow>
            (case sb_candidate crc buf of
               None \<Rightarrow> best
             | Some cand \<Rightarrow> if sb_better cand best then Some cand else best))"

definition sb_open :: "'d block_device \<Rightarrow> (byte list \<Rightarrow> u32) \<Rightarrow> 'd \<Rightarrow> (storage_error, superblock) res" where
  "sb_open ops crc d =
     (let capacity = dev_capacity ops d
      in if capacity < BLOCK_SIZE * 3 then err (DeviceTooSmall (BLOCK_SIZE * 3) capacity)
         else rbind (copy_offsets capacity) (\<lambda>offs.
           case sb_scan ops crc d offs None of
             None \<Rightarrow> err NoValidSuperblock
           | Some (_, _, sb) \<Rightarrow> ok sb))"

text \<open>The superblock in memory after the assignments of \<open>commit_root\<close>.\<close>

definition sb_with_root :: "(byte list \<Rightarrow> u32) \<Rightarrow> superblock \<Rightarrow> root_pointer \<Rightarrow> superblock" where
  "sb_with_root crc s new_root =
     (let new1 = root_pointer_recompute_crc crc new_root
      in superblock_recompute_crc crc
        (if sb_active_root s = 0 then s\<lparr>sb_root_b := new1, sb_active_root := 1\<rparr>
         else s\<lparr>sb_root_a := new1, sb_active_root := 0\<rparr>))"

definition commit_root ::
  "'d block_device \<Rightarrow> (byte list \<Rightarrow> u32) \<Rightarrow> superblock \<Rightarrow> 'd \<Rightarrow> root_pointer \<Rightarrow>
   (storage_error, superblock \<times> 'd) res" where
  "commit_root ops crc s d new_root =
     (let s1 = sb_with_root crc s new_root
      in rbind (copy_offsets (dev_capacity ops d)) (\<lambda>offs.
         rbind (write_copies ops d (superblock_bytes s1) offs) (\<lambda>d1.
         rbind (dev_sync ops d1) (\<lambda>d2. ok (s1, d2)))))"

end
