(* ===== verification/Mb_Superblock_Thms.thy ===== *)
theory Mb_Superblock_Thms
  imports Mb_Superblock
begin

text \<open>
  What the superblock promises: an opened device yields the newest valid copy, a commit is
  atomic with respect to a crash at any of its three writes, and a copy that is lost does
  not lose the superblock.
\<close>

section \<open>Valid superblocks\<close>

definition sb_valid :: "(byte list \<Rightarrow> u32) \<Rightarrow> superblock \<Rightarrow> bool" where
  "sb_valid crc s \<longleftrightarrow> superblock_ok s \<and> sb_magic_full s = SUPERBLOCK_MAGIC_FULL \<and>
     superblock_verify_crc crc s = ok () \<and> root_pointer_verify_crc crc (active_root_pointer s) = ok ()"

definition sb_key :: "superblock \<Rightarrow> u64 \<times> u64" where
  "sb_key s = (rp_seq (active_root_pointer s), rp_lsn (active_root_pointer s))"

definition key_less :: "u64 \<times> u64 \<Rightarrow> u64 \<times> u64 \<Rightarrow> bool" where
  "key_less a b \<longleftrightarrow> fst a < fst b \<or> fst a = fst b \<and> snd a < snd b"

definition sb_params_ok :: "sb_params \<Rightarrow> bool" where
  "sb_params_ok p \<longleftrightarrow> length (fp_fs_uuid p) = 16 \<and> fp_node_id p < 2 ^ 16 \<and> fp_disk_id p < 2 ^ 16 \<and>
     fp_bucket_size_log2 p < 2 ^ 8 \<and> fp_btree_node_size_log2 p < 2 ^ 8 \<and> fp_bootstrap_buckets p < 2 ^ 32 \<and>
     fp_wal_offset p < 2 ^ 64 \<and> fp_wal_size p < 2 ^ 64 \<and> zone_extent_ok (fp_index_zone p) \<and>
     zone_extent_ok (fp_metadata_zone p) \<and> zone_extent_ok (fp_blob_zone p) \<and> fp_format_version p < 2 ^ 16"

lemma superblock_body_crc [simp]: "superblock_body (s\<lparr>sb_crc := c\<rparr>) = superblock_body s"
  by (simp add: superblock_body_def)

lemma sb_recompute_simps [simp]:
  "sb_magic_full (superblock_recompute_crc crc s) = sb_magic_full s"
  "sb_active_root (superblock_recompute_crc crc s) = sb_active_root s"
  "sb_root_a (superblock_recompute_crc crc s) = sb_root_a s"
  "sb_root_b (superblock_recompute_crc crc s) = sb_root_b s"
  by (simp_all add: superblock_recompute_crc_def Let_def)

lemma sb_recompute_roots [simp]:
  "active_root_pointer (superblock_recompute_crc crc s) = active_root_pointer s"
  "inactive_root_pointer (superblock_recompute_crc crc s) = inactive_root_pointer s"
  by (simp_all add: active_root_pointer_def inactive_root_pointer_def)

lemma sb_recompute_ok: "crc_ok crc \<Longrightarrow> superblock_ok s \<Longrightarrow> superblock_ok (superblock_recompute_crc crc s)"
  by (simp add: superblock_ok_def superblock_recompute_crc_def Let_def crc_ok_def)

lemma sb_verify_recompute:
  "superblock_ok s \<Longrightarrow> superblock_verify_crc crc (superblock_recompute_crc crc s) = ok ()"
  by (simp add: superblock_verify_crc_def superblock_recompute_crc_def Let_def superblock_bytes_def length_superblock_body)

lemma root_recompute_ok:
  "crc_ok crc \<Longrightarrow> root_pointer_ok r \<Longrightarrow> root_pointer_ok (root_pointer_recompute_crc crc r)"
  by (simp add: root_pointer_ok_def root_pointer_recompute_crc_def Let_def crc_ok_def)

lemma root_pointer_zero_ok: "root_pointer_ok root_pointer_zero"
  by (simp add: root_pointer_ok_def root_pointer_zero_def block_ref_ok_def block_ref_zero_def block_ref_new_def)

lemma superblock_zero_ok: "superblock_ok superblock_zero"
  by (simp add: superblock_ok_def superblock_zero_def root_pointer_zero_ok block_header_ok_def preamble_ok_def
      block_header_zero_def zone_extent_ok_def zone_extent_zero_def block_ref_ok_def block_ref_zero_def
      block_ref_new_def i64_ok_def)

lemma media_type_u8_less: "media_type_to_u8 m < 256"
  by (cases m) auto

lemma storage_tier_u8_less: "storage_tier_u8 t < 256"
  by (cases t) auto

lemma sb_new_blank_valid:
  assumes "crc_ok crc" and "sb_params_ok p" and "cap < 2 ^ 64"
  shows "sb_valid crc (sb_new_blank crc p cap)"
proof -
  let ?f = "sb_new_blank crc p cap"
  obtain s0 where s0: "?f = superblock_recompute_crc crc s0" "superblock_ok s0"
      "sb_magic_full s0 = SUPERBLOCK_MAGIC_FULL"
      "active_root_pointer s0 = root_pointer_recompute_crc crc root_pointer_zero"
    using assms superblock_zero_ok root_recompute_ok [OF assms(1) root_pointer_zero_ok]
      block_header_new_ok [of "fp_format_version p" 4060 KSuperblock]
      media_type_u8_less [of "fp_media_type p"] storage_tier_u8_less [of "fp_tier p"]
    by (fastforce simp: sb_new_blank_def superblock_ok_def sb_params_ok_def SUPERBLOCK_MAGIC_FULL_def
        active_root_pointer_def)
  then show ?thesis
    using sb_recompute_ok [OF assms(1) s0(2)] sb_verify_recompute [OF s0(2)] by (simp add: sb_valid_def)
qed

lemma sb_with_root_roots [simp]:
  "active_root_pointer (sb_with_root crc s r) = root_pointer_recompute_crc crc r"
  "inactive_root_pointer (sb_with_root crc s r) = active_root_pointer s"
  by (auto simp: sb_with_root_def Let_def active_root_pointer_def inactive_root_pointer_def)

lemma sb_with_root_key [simp]: "sb_key (sb_with_root crc s r) = (rp_seq r, rp_lsn r)"
  by (simp add: sb_key_def)

lemma sb_with_root_valid:
  assumes "crc_ok crc" and "superblock_ok s" and "sb_magic_full s = SUPERBLOCK_MAGIC_FULL" and "root_pointer_ok r"
  shows "sb_valid crc (sb_with_root crc s r)"
proof -
  define s0 where "s0 = (if sb_active_root s = 0 then s\<lparr>sb_root_b := root_pointer_recompute_crc crc r, sb_active_root := 1\<rparr>
         else s\<lparr>sb_root_a := root_pointer_recompute_crc crc r, sb_active_root := 0\<rparr>)"
  have eq: "sb_with_root crc s r = superblock_recompute_crc crc s0"
    by (simp add: sb_with_root_def s0_def Let_def)
  have ok0: "superblock_ok s0"
    using assms(2) root_recompute_ok [OF assms(1,4)] by (simp add: superblock_ok_def s0_def)
  have "sb_magic_full s0 = SUPERBLOCK_MAGIC_FULL" using assms(3) by (simp add: s0_def)
  moreover have "root_pointer_verify_crc crc (active_root_pointer (sb_with_root crc s r)) = ok ()" by simp
  ultimately show ?thesis
    using sb_recompute_ok [OF assms(1) ok0] sb_verify_recompute [OF ok0] unfolding sb_valid_def eq by simp
qed

lemma sb_candidate_valid:
  "sb_valid crc s \<Longrightarrow> sb_candidate crc (superblock_bytes s) = Some (fst (sb_key s), snd (sb_key s), s)"
  by (simp add: sb_valid_def sb_candidate_def superblock_of_bytes sb_key_def Let_def)

section \<open>The three copies\<close>

definition copy_offs :: "u64 \<Rightarrow> u64 list" where
  "copy_offs cap = [0, 4096, cap - 4096]"

definition sb_copies :: "byte list \<Rightarrow> u64 \<Rightarrow> byte list list" where
  "sb_copies img cap = map (\<lambda>off. bslice off 4096 img) (copy_offs cap)"

text \<open>The image after \<open>k\<close> complete copy writes and a torn one.\<close>

definition torn_copies :: "byte list \<Rightarrow> u64 \<Rightarrow> byte list \<Rightarrow> nat \<Rightarrow> byte list \<Rightarrow> byte list" where
  "torn_copies img cap new_bytes k junk =
     bsplice (copy_offs cap ! k) junk (fold (\<lambda>off. bsplice off new_bytes) (take k (copy_offs cap)) img)"

definition torn_commit :: "(byte list \<Rightarrow> u32) \<Rightarrow> superblock \<Rightarrow> file_device \<Rightarrow> root_pointer \<Rightarrow> nat \<Rightarrow> byte list \<Rightarrow> file_device" where
  "torn_commit crc s d r k junk =
     d\<lparr>fd_file := torn_copies (fd_file d) (fd_capacity d) (superblock_bytes (sb_with_root crc s r)) k junk\<rparr>"

definition sb_intact :: "(byte list \<Rightarrow> u32) \<Rightarrow> superblock \<Rightarrow> file_device \<Rightarrow> bool" where
  "sb_intact crc s d \<longleftrightarrow> sb_valid crc s \<and> 12288 \<le> fd_capacity d \<and>
     sb_copies (fd_file d) (fd_capacity d) = replicate 3 (superblock_bytes s)"

lemma copies_after_write:
  assumes "length bs = 4096" and "12288 \<le> cap" and "cap \<le> length img"
  shows "sb_copies (bsplice 0 bs img) cap = (sb_copies img cap)[0 := bs]"
    and "sb_copies (bsplice 4096 bs img) cap = (sb_copies img cap)[1 := bs]"
    and "sb_copies (bsplice (cap - 4096) bs img) cap = (sb_copies img cap)[2 := bs]"
  using assms
  by (simp_all add: sb_copies_def copy_offs_def bslice_bsplice_other bslice_bsplice_same [of 0, simplified]
      numeral_2_eq_2 del: bslice_0)

lemma length_torn_copies:
  assumes "length bs = 4096" and "length junk = 4096" and "12288 \<le> cap" and "cap \<le> length img" and "k < 3"
  shows "length (torn_copies img cap bs k junk) = length img"
proof -
  from assms(5) consider "k = 0" | "k = 1" | "k = 2" by linarith
  then show ?thesis using assms by cases (simp_all add: torn_copies_def copy_offs_def numeral_2_eq_2)
qed

lemma copies_torn:
  assumes "length bs = 4096" and "length junk = 4096" and "12288 \<le> cap" and "cap \<le> length img" and "k < 3"
  shows "sb_copies (torn_copies img cap bs k junk) cap =
    map (\<lambda>i. if i < k then bs else if i = k then junk else sb_copies img cap ! i) [0, 1, 2]"
proof -
  obtain a b c where abc: "sb_copies img cap = [a, b, c]" by (simp add: sb_copies_def copy_offs_def)
  note w = copies_after_write [OF _ assms(3)]
  have len: "length (bsplice 0 bs img) = length img" using assms by simp
  then have len2: "length (bsplice 4096 bs (bsplice 0 bs img)) = length img" using assms by simp
  from assms(5) consider "k = 0" | "k = 1" | "k = 2" by linarith
  then show ?thesis
  proof cases
    case 1
    then show ?thesis using assms w(1) [of junk img] abc by (simp add: torn_copies_def copy_offs_def)
  next
    case 2
    then show ?thesis
      using assms w(1) [of bs img] w(2) [of junk "bsplice 0 bs img"] abc len by (simp add: torn_copies_def copy_offs_def)
  next
    case 3
    then show ?thesis
      using assms w(1) [of bs img] w(2) [of bs "bsplice 0 bs img"]
        w(3) [of junk "bsplice 4096 bs (bsplice 0 bs img)"] abc len len2
      by (simp add: torn_copies_def copy_offs_def numeral_2_eq_2)
  qed
qed

section \<open>The choice among the copies\<close>

definition sb_pick :: "(u64 \<times> u64 \<times> superblock) option list \<Rightarrow> (u64 \<times> u64 \<times> superblock) option" where
  "sb_pick cs = fold (\<lambda>c best. case c of None \<Rightarrow> best
     | Some cand \<Rightarrow> if sb_better cand best then Some cand else best) cs None"

lemma sb_scan_fold:
  assumes "\<And>off. off \<in> set offs \<Longrightarrow> read_at ops d off 4096 = Inr (rd off)"
  shows "sb_scan ops crc d offs best =
    fold (\<lambda>c best. case c of None \<Rightarrow> best | Some cand \<Rightarrow> if sb_better cand best then Some cand else best)
      (map (\<lambda>off. sb_candidate crc (rd off)) offs) best"
  using assms by (induction offs arbitrary: best) simp_all

context block_dev
begin

lemma sb_open_image:
  assumes "dinv d" and "12288 \<le> dev_capacity ops d"
  shows "sb_open ops crc d =
    (case sb_pick (map (sb_candidate crc) (sb_copies (image d) (dev_capacity ops d))) of
       None \<Rightarrow> err NoValidSuperblock | Some (_, _, s) \<Rightarrow> ok s)"
proof -
  let ?offs = "copy_offs (dev_capacity ops d)"
  have "sb_scan ops crc d ?offs None =
      sb_pick (map (\<lambda>off. sb_candidate crc (bslice off 4096 (image d))) ?offs)"
    unfolding sb_pick_def using assms by (intro sb_scan_fold read_in) (auto simp: copy_offs_def)
  with assms show ?thesis
    by (simp add: sb_open_def Let_def copy_offsets_def sb_copies_def copy_offs_def del: sb_scan.simps)
qed

lemma write_copies_image:
  assumes "dinv d" and "writable d" and "12288 \<le> dev_capacity ops d" and "length bs = 4096"
  obtains d' where "write_copies ops d bs (copy_offs (dev_capacity ops d)) = ok d'" and "dinv d'" and "writable d'"
    and "dev_capacity ops d' = dev_capacity ops d"
    and "sb_copies (image d') (dev_capacity ops d) = replicate 3 bs"
proof -
  let ?cap = "dev_capacity ops d"
  obtain d1 where d1: "write_at ops d 0 bs = Inr d1" "dinv d1" "writable d1" "dev_capacity ops d1 = ?cap"
      "image d1 = bsplice 0 bs (image d)"
    using write_in [OF assms(1,2), of 0 bs] assms(3,4) by auto
  obtain d2 where d2: "write_at ops d1 4096 bs = Inr d2" "dinv d2" "writable d2" "dev_capacity ops d2 = ?cap"
      "image d2 = bsplice 4096 bs (image d1)"
    using write_in [OF d1(2,3), of 4096 bs] d1(4) assms(3,4) by auto
  obtain d3 where d3: "write_at ops d2 (?cap - 4096) bs = Inr d3" "dinv d3" "writable d3" "dev_capacity ops d3 = ?cap"
      "image d3 = bsplice (?cap - 4096) bs (image d2)"
    using write_in [OF d2(2,3), of "?cap - 4096" bs] d2(4) assms(3,4) by auto
  have "image d3 = torn_copies (image d) ?cap bs 2 bs"
    using d1(5) d2(5) d3(5) by (simp add: torn_copies_def copy_offs_def numeral_2_eq_2)
  moreover have "sb_copies (torn_copies (image d) ?cap bs 2 bs) ?cap = replicate 3 bs"
    using copies_torn [OF assms(4,4,3) cap_image [OF assms(1)], of 2] by (simp add: numeral_3_eq_3)
  ultimately show ?thesis
    using that [of d3] d1(1) d2(1) d3 by (simp add: copy_offs_def)
qed

end

definition sb_cand :: "superblock \<Rightarrow> u64 \<times> u64 \<times> superblock" where
  "sb_cand s = (fst (sb_key s), snd (sb_key s), s)"

lemma sb_better_simps:
  "sb_better c None"
  "sb_better (sb_cand s) (Some (sb_cand s')) \<longleftrightarrow> key_less (sb_key s') (sb_key s)"
  by (auto simp: sb_better_def sb_cand_def key_less_def)

lemma key_less_irrefl [simp]: "\<not> key_less k k"
  by (simp add: key_less_def)

lemma key_less_asym: "key_less a b \<Longrightarrow> \<not> key_less b a"
  by (auto simp: key_less_def)

text \<open>Copies that are old, new or unusable: the newest usable one is chosen.\<close>

lemma sb_pick_mixed:
  assumes "key_less (sb_key s) (sb_key s')"
    and "\<forall>c\<in>{a, b, c}. c = None \<or> c = Some (sb_cand s) \<or> c = Some (sb_cand s')"
  shows "sb_pick [a, b, c] =
    (if Some (sb_cand s') \<in> {a, b, c} then Some (sb_cand s')
     else if Some (sb_cand s) \<in> {a, b, c} then Some (sb_cand s) else None)"
proof -
  have ne: "sb_cand s \<noteq> sb_cand s'" "sb_cand s' \<noteq> sb_cand s"
    using assms(1) by (auto simp: sb_cand_def)
  have "(a = None \<or> a = Some (sb_cand s) \<or> a = Some (sb_cand s')) \<and>
      (b = None \<or> b = Some (sb_cand s) \<or> b = Some (sb_cand s')) \<and>
      (c = None \<or> c = Some (sb_cand s) \<or> c = Some (sb_cand s'))"
    using assms(2) by blast
  then show ?thesis
    using assms(1) key_less_asym [OF assms(1)]
    by (elim conjE disjE) (simp_all add: sb_pick_def sb_better_simps ne)
qed

lemma sb_pick_one:
  assumes "\<forall>c\<in>{a, b, c}. c = None \<or> c = Some (sb_cand s)"
  shows "sb_pick [a, b, c] = (if Some (sb_cand s) \<in> {a, b, c} then Some (sb_cand s) else None)"
proof -
  have "(a = None \<or> a = Some (sb_cand s)) \<and> (b = None \<or> b = Some (sb_cand s)) \<and> (c = None \<or> c = Some (sb_cand s))"
    using assms by blast
  then show ?thesis by (elim conjE disjE) (simp_all add: sb_pick_def sb_better_simps)
qed

lemma cand_valid: "sb_valid crc s \<Longrightarrow> sb_candidate crc (superblock_bytes s) = Some (sb_cand s)"
  by (simp add: sb_candidate_valid sb_cand_def)

lemma sb_open_copies:
  assumes "file_device_inv d" and "12288 \<le> fd_capacity d" and "sb_copies (fd_file d) (fd_capacity d) = [a, b, c]"
  shows "sb_open file_block_device crc d =
    (case sb_pick [sb_candidate crc a, sb_candidate crc b, sb_candidate crc c] of
       None \<Rightarrow> err NoValidSuperblock | Some (_, _, s) \<Rightarrow> ok s)"
  using fdev.sb_open_image [of d crc] assms by simp

lemma length_copies: obtains a b c where "sb_copies img cap = [a, b, c]"
  by (simp add: sb_copies_def copy_offs_def)

lemma sb_open_usable:
  assumes "file_device_inv d" and "12288 \<le> fd_capacity d" and "sb_valid crc s"
    and "superblock_bytes s \<in> set (sb_copies (fd_file d) (fd_capacity d))"
    and "\<forall>c\<in>set (sb_copies (fd_file d) (fd_capacity d)). c = superblock_bytes s \<or> sb_candidate crc c = None"
  shows "sb_open file_block_device crc d = ok s"
proof -
  obtain a b c where abc: "sb_copies (fd_file d) (fd_capacity d) = [a, b, c]" by (rule length_copies)
  have "sb_pick [sb_candidate crc a, sb_candidate crc b, sb_candidate crc c] = Some (sb_cand s)"
    using sb_pick_one [of "sb_candidate crc a" "sb_candidate crc b" "sb_candidate crc c" s] assms(3-5) abc
      cand_valid [OF assms(3)] by fastforce
  then show ?thesis using sb_open_copies [OF assms(1,2) abc] by (simp add: sb_cand_def)
qed

lemma sb_intact_open:
  assumes "file_device_inv d" and "sb_intact crc s d"
  shows "sb_open file_block_device crc d = ok s"
  using sb_open_usable [OF assms(1), of crc s] assms(2) by (simp add: sb_intact_def)

lemma sb_commit_step:
  assumes "crc_ok crc" and "file_device_inv d" and "fd_writable d" and "12288 \<le> fd_capacity d"
    and "superblock_ok s" and "sb_magic_full s = SUPERBLOCK_MAGIC_FULL" and "root_pointer_ok r"
  obtains d' where "commit_root file_block_device crc s d r = ok (sb_with_root crc s r, d')"
    and "file_device_inv d'" and "fd_writable d'" and "fd_capacity d' = fd_capacity d"
    and "sb_intact crc (sb_with_root crc s r) d'"
proof -
  let ?s = "sb_with_root crc s r"
  have v: "sb_valid crc ?s" using sb_with_root_valid [OF assms(1,5-7)] .
  then have "length (superblock_bytes ?s) = 4096" by (simp add: sb_valid_def length_superblock_bytes)
  then obtain d' where d': "write_copies file_block_device d (superblock_bytes ?s) (copy_offs (fd_capacity d)) = ok d'"
      "file_device_inv d'" "fd_writable d'" "fd_capacity d' = fd_capacity d"
      "sb_copies (fd_file d') (fd_capacity d) = replicate 3 (superblock_bytes ?s)"
    using fdev.write_copies_image [of d "superblock_bytes ?s"] assms(2-4) unfolding file_capacity by metis
  have "commit_root file_block_device crc s d r = ok (?s, d')"
    using d'(1) fdev.sync_ok [OF d'(2,3)] assms(4)
    by (simp add: commit_root_def Let_def copy_offsets_def copy_offs_def del: write_copies.simps)
  then show ?thesis using that [of d'] d' v assms(4) by (simp add: sb_intact_def)
qed

lemma sb_format_step:
  assumes "crc_ok crc" and "file_device_inv d" and "fd_writable d" and "12288 \<le> fd_capacity d" and "sb_params_ok p"
  obtains d' where "sb_format file_block_device crc d p = ok (sb_new_blank crc p (fd_capacity d), d')"
    and "file_device_inv d'" and "fd_writable d'" and "fd_capacity d' = fd_capacity d"
    and "sb_intact crc (sb_new_blank crc p (fd_capacity d)) d'"
proof -
  let ?s = "sb_new_blank crc p (fd_capacity d)"
  have v: "sb_valid crc ?s"
    using sb_new_blank_valid [OF assms(1,5)] assms(2) by (simp add: file_device_inv_def)
  then have "length (superblock_bytes ?s) = 4096" by (simp add: sb_valid_def length_superblock_bytes)
  then obtain d' where d': "write_copies file_block_device d (superblock_bytes ?s) (copy_offs (fd_capacity d)) = ok d'"
      "file_device_inv d'" "fd_writable d'" "fd_capacity d' = fd_capacity d"
      "sb_copies (fd_file d') (fd_capacity d) = replicate 3 (superblock_bytes ?s)"
    using fdev.write_copies_image [of d "superblock_bytes ?s"] assms(2-4) unfolding file_capacity by metis
  have "sb_format file_block_device crc d p = ok (?s, d')"
    using d'(1) fdev.sync_ok [OF d'(2,3)] assms(4)
    by (simp add: sb_format_def Let_def copy_offsets_def copy_offs_def del: write_copies.simps)
  then show ?thesis using that [of d'] d' v assms(4) by (simp add: sb_intact_def)
qed

lemma torn_commit_simps [simp]:
  "fd_capacity (torn_commit crc s d r k junk) = fd_capacity d"
  "fd_read_only (torn_commit crc s d r k junk) = fd_read_only d"
  by (simp_all add: torn_commit_def)

lemma torn_commit_inv:
  assumes "file_device_inv d" and "12288 \<le> fd_capacity d" and "superblock_ok (sb_with_root crc s r)"
    and "length junk = 4096" and "k < 3"
  shows "file_device_inv (torn_commit crc s d r k junk)"
    and "sb_copies (fd_file (torn_commit crc s d r k junk)) (fd_capacity d) =
      map (\<lambda>i. if i < k then superblock_bytes (sb_with_root crc s r) else if i = k then junk
        else sb_copies (fd_file d) (fd_capacity d) ! i) [0, 1, 2]"
proof -
  have len: "length (superblock_bytes (sb_with_root crc s r)) = 4096"
    using assms(3) by (rule length_superblock_bytes)
  have backed: "fd_capacity d \<le> length (fd_file d)" using assms(1) by (simp add: file_device_inv_def)
  show "file_device_inv (torn_commit crc s d r k junk)"
    using length_torn_copies [OF len assms(4,2) backed assms(5)] assms(1)
    by (simp add: file_device_inv_def torn_commit_def)
  show "sb_copies (fd_file (torn_commit crc s d r k junk)) (fd_capacity d) =
      map (\<lambda>i. if i < k then superblock_bytes (sb_with_root crc s r) else if i = k then junk
        else sb_copies (fd_file d) (fd_capacity d) ! i) [0, 1, 2]"
    using copies_torn [OF len assms(4,2) backed assms(5)] by (simp add: torn_commit_def)
qed

lemma sb_torn_open:
  assumes crc: "crc_ok crc" and d: "file_device_inv d" and int: "sb_intact crc s d" and r: "root_pointer_ok r"
    and key: "key_less (sb_key s) (rp_seq r, rp_lsn r)" and k: "k < 3" and len: "length junk = 4096"
    and junk: "sb_candidate crc junk = None"
  shows "sb_open file_block_device crc (torn_commit crc s d r k junk) =
    ok (if k = 0 then s else sb_with_root crc s r)"
proof -
  let ?s = "sb_with_root crc s r" and ?d = "torn_commit crc s d r k junk"
  have s: "sb_valid crc s" "12288 \<le> fd_capacity d" using int by (simp_all add: sb_intact_def)
  then have v: "sb_valid crc ?s" using sb_with_root_valid [OF crc _ _ r] by (simp add: sb_valid_def)
  note t = torn_commit_inv [OF d s(2) _ len k, of crc s r]
  have cap: "12288 \<le> fd_capacity ?d" using s(2) by simp
  have old: "sb_copies (fd_file d) (fd_capacity d) = replicate 3 (superblock_bytes s)" using int by (simp add: sb_intact_def)
  note pick = sb_pick_mixed [of s ?s]
  from k consider "k = 0" | "k = 1" | "k = 2" by linarith
  then show ?thesis
  proof cases
    case 1
    then have "sb_copies (fd_file ?d) (fd_capacity ?d) = [junk, superblock_bytes s, superblock_bytes s]"
      using t(2) v old by (simp add: sb_valid_def numeral_3_eq_3)
    from sb_open_copies [OF t(1) cap this] v 1 show ?thesis
      using cand_valid [OF s(1)] junk key by (simp add: sb_valid_def sb_pick_def sb_better_simps sb_cand_def)
  next
    case 2
    then have "sb_copies (fd_file ?d) (fd_capacity ?d) = [superblock_bytes ?s, junk, superblock_bytes s]"
      using t(2) v old by (simp add: sb_valid_def numeral_3_eq_3)
    from sb_open_copies [OF t(1) cap this] v 2 show ?thesis
      using cand_valid [OF s(1)] cand_valid [OF v] junk key pick
      by (simp add: sb_valid_def) (simp add: sb_cand_def)
  next
    case 3
    then have "sb_copies (fd_file ?d) (fd_capacity ?d) = [superblock_bytes ?s, superblock_bytes ?s, junk]"
      using t(2) v old by (simp add: sb_valid_def numeral_3_eq_3)
    from sb_open_copies [OF t(1) cap this] v 3 show ?thesis
      using cand_valid [OF v] junk sb_pick_one [of "Some (sb_cand ?s)" "Some (sb_cand ?s)" None ?s]
      by (simp add: sb_valid_def) (simp add: sb_cand_def)
  qed
qed

section \<open>Properties\<close>

text \<open>A freshly formatted device opens to the superblock that formatting returned.\<close>

theorem sb_format_open:
  assumes "crc_ok crc" and "file_device_inv d" and "fd_writable d" and "12288 \<le> fd_capacity d" and "sb_params_ok p"
  shows "\<exists>s d'. sb_format file_block_device crc d p = ok (s, d') \<and> sb_open file_block_device crc d' = ok s \<and>
    sb_fs_uuid s = fp_fs_uuid p \<and> sb_wal_offset s = fp_wal_offset p \<and> sb_wal_size s = fp_wal_size p \<and>
    sb_media_type_of s = ok (fp_media_type p) \<and> sb_tier_of s = ok (fp_tier p)"
proof -
  obtain d' where d': "sb_format file_block_device crc d p = ok (sb_new_blank crc p (fd_capacity d), d')"
      "file_device_inv d'" "sb_intact crc (sb_new_blank crc p (fd_capacity d)) d'"
    using sb_format_step [OF assms] by metis
  have "media_type_from_u8 (media_type_to_u8 m) = ok m" for m by (cases m) (simp_all add: media_type_from_u8_def)
  moreover have "storage_tier_from_u8 (storage_tier_u8 t) = Some t" for t
    by (cases t) (simp_all add: storage_tier_from_u8_def)
  ultimately show ?thesis
    using d'(1) sb_intact_open [OF d'(2,3)]
    by (simp add: sb_new_blank_def superblock_recompute_crc_def Let_def sb_media_type_of_def sb_tier_of_def)
qed

abbreviation wit_zone :: zone_extent where "wit_zone \<equiv> zone_extent_zero"

abbreviation wit_params :: sb_params where
  "wit_params \<equiv> \<lparr>fp_fs_uuid = replicate 16 5, fp_node_id = 1, fp_disk_id = 2, fp_media_type = Ssd,
     fp_tier = Warm, fp_bucket_size_log2 = 20, fp_btree_node_size_log2 = 18, fp_bootstrap_buckets = 4,
     fp_wal_offset = 8192, fp_wal_size = 16384, fp_index_zone = wit_zone, fp_metadata_zone = wit_zone,
     fp_blob_zone = wit_zone, fp_format_version = 1\<rparr>"

abbreviation wit_disk :: file_device where "wit_disk \<equiv> file_device_open [] 65536"

abbreviation wit_root :: "u64 \<Rightarrow> root_pointer" where "wit_root n \<equiv> root_pointer_zero\<lparr>rp_seq := n\<rparr>"

lemma wit_disk_ok: "file_device_inv wit_disk" "fd_writable wit_disk" "fd_capacity wit_disk = 65536"
  by (simp_all add: file_device_inv_def file_device_open_def fd_writable_def)

lemma wit_params_ok: "sb_params_ok wit_params"
  by (simp add: sb_params_ok_def zone_extent_ok_def zone_extent_zero_def)

lemma wit_root_ok: "n < 2 ^ 64 \<Longrightarrow> root_pointer_ok (wit_root n)"
  using root_pointer_zero_ok by (simp add: root_pointer_ok_def)

lemma wit_junk: "sb_candidate crc (replicate 4096 255) = None"
proof -
  have "sb_magic_full (superblock_of (replicate 4096 255)) = replicate 16 255"
    by (simp add: superblock_of_def bslice_replicate)
  moreover have "hd (replicate 16 (255 :: byte)) \<noteq> hd SUPERBLOCK_MAGIC_FULL"
    by (simp add: SUPERBLOCK_MAGIC_FULL_def)
  ultimately have "sb_magic_full (superblock_of (replicate 4096 255)) \<noteq> SUPERBLOCK_MAGIC_FULL" by metis
  then show ?thesis by (simp add: sb_candidate_def)
qed

lemma wit_formatted:
  obtains s d where "sb_intact zcrc s d" and "file_device_inv d" and "fd_writable d" and "sb_key s = (0, 0)"
proof -
  obtain d where d: "file_device_inv d" "fd_writable d" "sb_intact zcrc (sb_new_blank zcrc wit_params 65536) d"
    using sb_format_step [OF zcrc_ok wit_disk_ok(1,2) _ wit_params_ok] wit_disk_ok(3) by auto
  moreover have "sb_key (sb_new_blank zcrc wit_params 65536) = (0, 0)"
    by (simp add: sb_key_def sb_new_blank_def active_root_pointer_def root_pointer_zero_def)
  ultimately show ?thesis using that by blast
qed

theorem sb_format_open_witness:
  "\<exists>s d'. sb_format file_block_device zcrc wit_disk wit_params = ok (s, d') \<and>
     sb_open file_block_device zcrc d' = ok s \<and> sb_wal_size s = 16384"
  using sb_format_open [OF zcrc_ok wit_disk_ok(1,2) _ wit_params_ok] wit_disk_ok(3) by auto

text \<open>A successful commit makes the new root active and keeps the previous active root as the
  inactive one, and the device opens to exactly that superblock, whatever it held before.\<close>

theorem sb_commit_durable:
  assumes "crc_ok crc" and "file_device_inv d" and "fd_writable d" and "12288 \<le> fd_capacity d"
    and "superblock_ok s" and "sb_magic_full s = SUPERBLOCK_MAGIC_FULL" and "root_pointer_ok r"
  shows "\<exists>s' d'. commit_root file_block_device crc s d r = ok (s', d') \<and> sb_open file_block_device crc d' = ok s' \<and>
    active_root_pointer s' = root_pointer_recompute_crc crc r \<and> inactive_root_pointer s' = active_root_pointer s"
proof -
  obtain d' where d': "commit_root file_block_device crc s d r = ok (sb_with_root crc s r, d')"
      "file_device_inv d'" "sb_intact crc (sb_with_root crc s r) d'"
    using sb_commit_step [OF assms] by metis
  then show ?thesis using sb_intact_open [OF d'(2,3)] by auto
qed

theorem sb_commit_durable_witness:
  "\<exists>s d s' d'. commit_root file_block_device zcrc s d (wit_root 9) = ok (s', d') \<and>
     sb_open file_block_device zcrc d' = ok s' \<and> rp_seq (active_root_pointer s') = 9"
proof -
  obtain s d where s: "sb_intact zcrc s d" "file_device_inv d" "fd_writable d" using wit_formatted by metis
  then show ?thesis
    using sb_commit_durable [OF zcrc_ok s(2,3), of s "wit_root 9"] wit_root_ok [of 9]
    by (fastforce simp: sb_intact_def sb_valid_def)
qed

text \<open>C4. A commit interrupted by a crash is atomic. All three copies are intact before it, and the root that
  is committed has a greater sequence number, or the same one and a greater LSN. With \<open>k\<close> of the three copies
  written and the next one torn into bytes that do not pass for a superblock, the device opens to the old
  superblock when no copy was complete and to the new one otherwise. With a stale copy left by an
  earlier crash this fails.\<close>

theorem sb_commit_crash_atomic:
  assumes "crc_ok crc" and "file_device_inv d" and "sb_intact crc s d" and "root_pointer_ok r"
    and "key_less (sb_key s) (rp_seq r, rp_lsn r)" and "k < 3" and "length junk = 4096"
    and "sb_candidate crc junk = None"
  shows "sb_open file_block_device crc (torn_commit crc s d r k junk) =
    ok (if k = 0 then s else sb_with_root crc s r)"
  using assms by (rule sb_torn_open)

theorem sb_commit_crash_atomic_witness:
  "\<exists>s d. sb_open file_block_device zcrc (torn_commit zcrc s d (wit_root 9) 0 (replicate 4096 255)) = ok s \<and>
     sb_open file_block_device zcrc (torn_commit zcrc s d (wit_root 9) 1 (replicate 4096 255)) =
       ok (sb_with_root zcrc s (wit_root 9))"
proof -
  obtain s d where s: "sb_intact zcrc s d" "file_device_inv d" "sb_key s = (0, 0)" using wit_formatted by metis
  have "key_less (sb_key s) (rp_seq (wit_root 9), rp_lsn (wit_root 9))" using s(3) by (simp add: key_less_def)
  from sb_commit_crash_atomic [OF zcrc_ok s(2,1) wit_root_ok this _ _ wit_junk, of 0]
    sb_commit_crash_atomic [OF zcrc_ok s(2,1) wit_root_ok this _ _ wit_junk, of 1]
  show ?thesis by auto
qed

text \<open>A device holding at least one usable copy of a superblock opens to it, whatever the other
  two copies hold, as long as they do not pass for a superblock.\<close>

theorem sb_open_survives_lost_copies:
  assumes "file_device_inv d" and "12288 \<le> fd_capacity d" and "sb_valid crc s"
    and "superblock_bytes s \<in> set (sb_copies (fd_file d) (fd_capacity d))"
    and "\<forall>c\<in>set (sb_copies (fd_file d) (fd_capacity d)). c = superblock_bytes s \<or> sb_candidate crc c = None"
  shows "sb_open file_block_device crc d = ok s"
  using assms by (rule sb_open_usable)

theorem sb_open_survives_lost_copies_witness:
  "\<exists>s d. sb_open file_block_device zcrc d = ok s"
proof -
  obtain s d where s: "sb_intact zcrc s d" "file_device_inv d" using wit_formatted by metis
  then show ?thesis using sb_open_survives_lost_copies [OF s(2), of zcrc s] by (auto simp: sb_intact_def)
qed

text \<open>C29. Opening does not rewrite the copies a crash left behind, so two interrupted commits in a row
  can undo a recovered one: after a first commit torn at its second copy the device opens to
  the new superblock, and after the next commit is torn at its first copy it opens to the
  superblock from before both.\<close>

theorem sb_second_crash_rolls_back:
  assumes "crc_ok crc" and "file_device_inv d" and "sb_intact crc s d"
    and "root_pointer_ok r1" and "root_pointer_ok r2" and "key_less (sb_key s) (rp_seq r1, rp_lsn r1)"
    and "length junk = 4096" and "sb_candidate crc junk = None"
  defines "d1 \<equiv> torn_commit crc s d r1 1 junk" and "s1 \<equiv> sb_with_root crc s r1"
  defines "d2 \<equiv> torn_commit crc s1 d1 r2 0 junk"
  shows "sb_open file_block_device crc d1 = ok s1 \<and> sb_open file_block_device crc d2 = ok s"
proof
  show "sb_open file_block_device crc d1 = ok s1"
    unfolding d1_def s1_def using sb_torn_open [OF assms(1-4,6) _ assms(7,8), of 1] by simp
  have s: "sb_valid crc s" "12288 \<le> fd_capacity d" using assms(3) by (simp_all add: sb_intact_def)
  have old: "sb_copies (fd_file d) (fd_capacity d) = replicate 3 (superblock_bytes s)"
    using assms(3) by (simp add: sb_intact_def)
  have v1: "sb_valid crc s1"
    unfolding s1_def using sb_with_root_valid [OF assms(1) _ _ assms(4)] s(1) by (simp add: sb_valid_def)
  then have v2: "superblock_ok (sb_with_root crc s1 r2)"
    using sb_with_root_valid [OF assms(1) _ _ assms(5), of s1] by (simp add: sb_valid_def)
  have inv1: "file_device_inv d1"
    and c1: "sb_copies (fd_file d1) (fd_capacity d) = [superblock_bytes s1, junk, superblock_bytes s]"
    using torn_commit_inv [OF assms(2) s(2) _ assms(7), of crc s r1 1] v1 old
    by (simp_all add: d1_def s1_def sb_valid_def numeral_3_eq_3)
  have cap: "fd_capacity d1 = fd_capacity d" by (simp add: d1_def)
  have inv2: "file_device_inv d2" and c2: "sb_copies (fd_file d2) (fd_capacity d2) = [junk, junk, superblock_bytes s]"
    using torn_commit_inv [OF inv1 _ v2 assms(7), of 0] s(2) c1 by (simp_all add: d2_def cap)
  show "sb_open file_block_device crc d2 = ok s"
    using sb_open_copies [OF inv2 _ c2] s(2) cap assms(8) cand_valid [OF s(1)]
    by (simp add: d2_def sb_pick_def sb_better_simps sb_cand_def)
qed

theorem sb_second_crash_rolls_back_witness:
  "\<exists>s d. sb_open file_block_device zcrc (torn_commit zcrc (sb_with_root zcrc s (wit_root 5))
     (torn_commit zcrc s d (wit_root 5) 1 (replicate 4096 255)) (wit_root 6) 0 (replicate 4096 255)) = ok s"
proof -
  obtain s d where s: "sb_intact zcrc s d" "file_device_inv d" "sb_key s = (0, 0)" using wit_formatted by metis
  have "key_less (sb_key s) (rp_seq (wit_root 5), rp_lsn (wit_root 5))" using s(3) by (simp add: key_less_def)
  from sb_second_crash_rolls_back [OF zcrc_ok s(2,1) wit_root_ok wit_root_ok this _ wit_junk, of 6]
  show ?thesis by auto
qed

text \<open>The packed image of a well-formed superblock is one block and reads back to the same
  superblock, every field of it.\<close>

theorem superblock_roundtrip:
  "superblock_ok s \<Longrightarrow> length (superblock_bytes s) = 4096 \<and> superblock_of (superblock_bytes s) = s"
  by (simp add: length_superblock_bytes superblock_of_bytes)

theorem superblock_roundtrip_witness: "superblock_of (superblock_bytes superblock_zero) = superblock_zero"
  using superblock_roundtrip [OF superblock_zero_ok] by simp

end
