(* ===== verification/Mb_Ordered_Map.thy ===== *)
theory Mb_Ordered_Map
  imports Mb_Prelude
begin

text \<open>
  Rust's \<open>BTreeMap\<close> as the list of its entries in ascending key order, and the
  contract its clients rely on as the locale \<open>map_api\<close>: what a lookup returns after an
  insert or a remove, and that both keep the representation well formed. The locale carries the
  facts about building a map entry by entry, which the in-memory tables of the storage crate use.
\<close>

type_synonym ('k, 'v) btree_map = "('k \<times> 'v) list"

definition bm_wf :: "('k :: linorder, 'v) btree_map \<Rightarrow> bool" where
  "bm_wf m \<longleftrightarrow> sorted_wrt (<) (map fst m)"

fun bm_get :: "('k :: linorder, 'v) btree_map \<Rightarrow> 'k \<Rightarrow> 'v option" where
  "bm_get [] k = None"
| "bm_get ((k', v) # m) k = (if k = k' then Some v else if k < k' then None else bm_get m k)"

fun bm_insert :: "'k :: linorder \<Rightarrow> 'v \<Rightarrow> ('k, 'v) btree_map \<Rightarrow> ('k, 'v) btree_map" where
  "bm_insert k v [] = [(k, v)]"
| "bm_insert k v ((k', v') # m) =
     (if k < k' then (k, v) # (k', v') # m
      else if k = k' then (k, v) # m
      else (k', v') # bm_insert k v m)"

fun bm_remove :: "'k :: linorder \<Rightarrow> ('k, 'v) btree_map \<Rightarrow> ('k, 'v) btree_map" where
  "bm_remove k [] = []"
| "bm_remove k ((k', v') # m) =
     (if k < k' then (k', v') # m else if k = k' then m else (k', v') # bm_remove k m)"

text \<open>\<open>range\<close> with both bounds included.\<close>

definition bm_range_incl :: "'k :: linorder \<Rightarrow> 'k \<Rightarrow> ('k, 'v) btree_map \<Rightarrow> ('k \<times> 'v) list" where
  "bm_range_incl lo hi m = takeWhile (\<lambda>(k, _). k \<le> hi) (dropWhile (\<lambda>(k, _). k < lo) m)"

section \<open>The contract\<close>

locale map_api =
  fixes empty :: "'m"
    and lookup :: "'m \<Rightarrow> 'k \<Rightarrow> 'v option"
    and update :: "'k \<Rightarrow> 'v \<Rightarrow> 'm \<Rightarrow> 'm"
    and delete :: "'k \<Rightarrow> 'm \<Rightarrow> 'm"
    and inv :: "'m \<Rightarrow> bool"
  assumes inv_empty: "inv empty"
    and inv_update: "inv m \<Longrightarrow> inv (update k v m)"
    and inv_delete: "inv m \<Longrightarrow> inv (delete k m)"
    and lookup_empty: "lookup empty = Map.empty"
    and lookup_update: "inv m \<Longrightarrow> lookup (update k v m) = (lookup m)(k \<mapsto> v)"
    and lookup_delete: "inv m \<Longrightarrow> lookup (delete k m) = (lookup m)(k := None)"
begin

text \<open>Inserting the pairs of a list one after the other, as the loaders do.\<close>

lemma inv_fold_update: "inv m \<Longrightarrow> inv (fold (\<lambda>(k, v). update k v) kvs m)"
  by (induction kvs arbitrary: m) (auto simp: inv_update)

lemma lookup_fold_update:
  "inv m \<Longrightarrow> lookup (fold (\<lambda>(k, v). update k v) kvs m) = lookup m ++ map_of (rev kvs)"
  by (induction kvs arbitrary: m) (auto simp: inv_update lookup_update map_add_assoc [symmetric] fun_eq_iff map_add_def
      split: option.splits)

lemma lookup_build:
  assumes "distinct (map fst kvs)"
  shows "lookup (fold (\<lambda>(k, v). update k v) kvs empty) = map_of kvs"
proof -
  have "map_of (rev kvs) = map_of kvs"
    using assms by (intro map_of_inject_set [THEN iffD2]) (auto simp: rev_map [symmetric])
  then show ?thesis by (simp add: lookup_fold_update inv_empty lookup_empty)
qed

end

section \<open>The sorted list provides it\<close>

lemma bm_get_eq_map_of: "bm_wf m \<Longrightarrow> bm_get m = map_of m"
proof
  fix k
  show "bm_wf m \<Longrightarrow> bm_get m k = map_of m k"
  proof (induction m)
    case (Cons p m)
    obtain k' v where p: "p = (k', v)" by fastforce
    have "k \<notin> fst ` set m" if "k < k'" using Cons.prems that p by (fastforce simp: bm_wf_def)
    then have "map_of m k = None" if "k < k'" using that by (simp add: map_of_eq_None_iff)
    with Cons p show ?case by (simp add: bm_wf_def)
  qed simp
qed

lemma keys_bm_insert: "set (map fst (bm_insert k v m)) = insert k (set (map fst m))"
  by (induction k v m rule: bm_insert.induct) auto

lemma bm_wf_Cons: "bm_wf ((k, v) # m) \<longleftrightarrow> bm_wf m \<and> (\<forall>x\<in>set (map fst m). k < x)"
  by (auto simp: bm_wf_def)

lemma bm_wf_Nil [simp]: "bm_wf []"
  by (simp add: bm_wf_def)

lemma bm_wf_insert: "bm_wf m \<Longrightarrow> bm_wf (bm_insert k v m)"
proof (induction k v m rule: bm_insert.induct)
  case (2 k v k' v' m)
  from "2.prems" have wf: "bm_wf m" and gt: "\<forall>x\<in>set (map fst m). k' < x" by (simp_all add: bm_wf_Cons)
  consider "k < k'" | "k = k'" | "k' < k" by force
  then show ?case
  proof cases
    case 3
    then have "bm_wf (bm_insert k v m)" using "2.IH" wf by simp
    with 3 gt wf show ?thesis by (auto simp: bm_wf_Cons keys_bm_insert simp del: set_map)
  qed (use wf gt in \<open>auto simp: bm_wf_Cons intro: less_trans\<close>)
qed (simp add: bm_wf_Cons)

lemma bm_get_insert: "bm_wf m \<Longrightarrow> bm_get (bm_insert k v m) = (bm_get m)(k \<mapsto> v)"
  by (induction m) (auto simp: fun_eq_iff bm_wf_def)

lemma keys_bm_remove: "set (bm_remove k m) \<subseteq> set m"
  by (induction k m rule: bm_remove.induct) auto

lemma bm_wf_remove: "bm_wf m \<Longrightarrow> bm_wf (bm_remove k m)"
proof (induction k m rule: bm_remove.induct)
  case (2 k k' v' m)
  from "2.prems" have wf: "bm_wf m" and gt: "\<forall>x\<in>set (map fst m). k' < x" by (simp_all add: bm_wf_Cons)
  have "set (map fst (bm_remove k m)) \<subseteq> set (map fst m)" using keys_bm_remove [of k m] by auto
  then have gt': "\<forall>x\<in>set (map fst (bm_remove k m)). k' < x" using gt by blast
  show ?case
  proof (cases "k' < k")
    case True
    then have "bm_wf (bm_remove k m)" using "2.IH" wf by simp
    with gt' True wf show ?thesis by (auto simp: bm_wf_Cons simp del: set_map)
  qed (use wf gt in \<open>auto simp: bm_wf_Cons\<close>)
qed simp

lemma bm_get_below: "\<forall>x\<in>set (map fst m). k' < x \<Longrightarrow> k \<le> k' \<Longrightarrow> bm_get m k = None"
  by (cases m) auto

lemma bm_get_remove: "bm_wf m \<Longrightarrow> bm_get (bm_remove k m) = (bm_get m)(k := None)"
proof (induction k m rule: bm_remove.induct)
  case (2 k k' v' m)
  from "2.prems" have wf: "bm_wf m" and gt: "\<forall>x\<in>set (map fst m). k' < x" by (simp_all add: bm_wf_Cons)
  consider "k < k'" | "k = k'" | "k' < k" by force
  then show ?case
    using "2.IH" wf bm_get_below [OF gt] by cases (auto simp: fun_eq_iff)
qed auto

interpretation btm: map_api "[]" bm_get bm_insert bm_remove bm_wf
  by unfold_locales (auto simp: bm_wf_insert bm_wf_remove bm_get_insert bm_get_remove fun_eq_iff bm_wf_def [of "[]"])

lemma bm_wf_distinct: "bm_wf m \<Longrightarrow> distinct (map fst m)"
  by (simp add: bm_wf_def strict_sorted_iff)

lemma bm_get_mem: "bm_wf m \<Longrightarrow> (k, v) \<in> set m \<longleftrightarrow> bm_get m k = Some v"
  by (simp add: bm_get_eq_map_of bm_wf_distinct)

lemma bm_wf_ext:
  assumes "bm_wf m" and "bm_wf m'" and "bm_get m = bm_get m'"
  shows "m = m'"
proof -
  have "set m = set m'"
    using assms(3) bm_get_mem [OF assms(1)] bm_get_mem [OF assms(2)] by (auto simp: set_eq_iff)
  moreover have "sorted (map fst m)" "sorted (map fst m')" "distinct (map fst m)" "distinct (map fst m')"
    using assms(1,2) by (simp_all add: bm_wf_def strict_sorted_iff)
  ultimately show ?thesis using map_sorted_distinct_set_unique [of fst m m'] by (metis distinct_map sup.idem)
qed

lemma bm_range_incl_filter:
  assumes "bm_wf m"
  shows "bm_range_incl lo hi m = filter (\<lambda>(k, _). lo \<le> k \<and> k \<le> hi) m"
  using assms
proof (induction m)
  case (Cons p m)
  obtain k v where p: "p = (k, v)" by fastforce
  have wf: "bm_wf m" and gt: "\<forall>x\<in>set m. k < fst x" using Cons.prems p by (auto simp: bm_wf_def)
  have IH: "bm_range_incl lo hi m = filter (\<lambda>(k, _). lo \<le> k \<and> k \<le> hi) m" using Cons.IH [OF wf] .
  show ?case
  proof (cases "lo \<le> k")
    case True
    have d: "dropWhile (\<lambda>(k, _). k < lo) m = m"
      using gt True by (cases m) (auto simp: not_less)
    have e: "filter (\<lambda>(k, _). lo \<le> k \<and> k \<le> hi) m = []" if "\<not> k \<le> hi"
      using gt that by (auto simp: filter_empty_conv)
    show ?thesis using True IH d e p by (auto simp: bm_range_incl_def)
  next
    case False
    then show ?thesis using IH p by (auto simp: bm_range_incl_def)
  qed
qed (simp add: bm_range_incl_def)

end
