(* ===== verification/Mb_Btree.thy ===== *)
theory Mb_Btree
  imports Mb_Block Mb_Ordered_Map "HOL-Library.Product_Lexorder"
begin

text \<open>
  The in-memory B+ tree node of \<open>crates/storage/src/btree.rs\<close> and the region headers of
  \<open>btree_node.rs\<close>: sorted runs, the pending-journal overlay with its WAL pin, the
  k-way merge, point lookup through the lazily built merged view, flushing the journal into
  a run, and compaction.

  \<open>kmerge\<close> is the external \<open>itertools::kmerge_by\<close>, a parameter. The
  \<open>RefCell\<close> cache of the source is a field that \<open>node_lookup\<close> returns updated.
  \<open>binary_search_by\<close> is the halving search of the standard library.
\<close>

unbundle bit_operations_syntax

section \<open>Region and run headers\<close>

record btree_node_header =
  nh_pre :: block_preamble
  nh_seq :: u64
  nh_last_persisted_lsn :: u64
  nh_region_size_log2 :: u8
  nh_level :: u8
  nh_sorted_run_count :: u8
  nh_flags :: u8
  nh_payload_used :: u32
  nh_min_key :: "byte list"
  nh_max_key :: "byte list"

definition node_header_new :: "btree_kind \<Rightarrow> u16 \<Rightarrow> u8 \<Rightarrow> u8 \<Rightarrow> btree_node_header" where
  "node_header_new kind format_version level region_size_log2 =
     \<lparr>nh_pre = \<lparr>bp_magic = BLOCK_PREAMBLE_MAGIC_BTREE, bp_kind = btree_kind_u16 kind,
                bp_format_version = format_version\<rparr>,
      nh_seq = 0, nh_last_persisted_lsn = 0, nh_region_size_log2 = region_size_log2, nh_level = level,
      nh_sorted_run_count = 0, nh_flags = 0, nh_payload_used = 0,
      nh_min_key = replicate 16 0, nh_max_key = replicate 16 0\<rparr>"

record sorted_run_header =
  rh_magic :: u32
  rh_seq :: u32
  rh_journal_seq :: u64
  rh_entry_count :: u32
  rh_payload_length :: u32
  rh_flags :: u32
  rh_crc :: u32

section \<open>JournalPin\<close>

record journal_pin =
  pin_lsn_min :: u64
  pin_lsn_max :: u64
  pin_count :: u32

definition pin_default :: journal_pin where
  "pin_default = \<lparr>pin_lsn_min = 0, pin_lsn_max = 0, pin_count = 0\<rparr>"

definition pin_record :: "journal_pin \<Rightarrow> u64 \<Rightarrow> journal_pin" where
  "pin_record p lsn =
     (let p1 = (if pin_count p = 0 then p\<lparr>pin_lsn_min := lsn, pin_lsn_max := lsn\<rparr>
                else p\<lparr>pin_lsn_min := min (pin_lsn_min p) lsn, pin_lsn_max := max (pin_lsn_max p) lsn\<rparr>)
      in p1\<lparr>pin_count := min (pin_count p + 1) (2 ^ 32 - 1)\<rparr>)"

definition pin_is_active :: "journal_pin \<Rightarrow> bool" where
  "pin_is_active p \<longleftrightarrow> pin_count p > 0"

section \<open>Sorted runs\<close>

record ('k, 'v) sorted_run =
  run_seq :: u32
  run_journal_seq :: u64
  run_flags :: u32
  run_entries :: "('k \<times> 'v) list"

definition run_new :: "u32 \<Rightarrow> u64 \<Rightarrow> ('k, 'v) sorted_run" where
  "run_new s j = \<lparr>run_seq = s, run_journal_seq = j, run_flags = 0, run_entries = []\<rparr>"

text \<open>The \<open>debug_assert\<close> on the order of the entries is a panic.\<close>

definition run_from_sorted :: "u32 \<Rightarrow> u64 \<Rightarrow> ('k :: linorder \<times> 'v) list \<Rightarrow> ('e, ('k, 'v) sorted_run) res" where
  "run_from_sorted s j es =
     (if sorted (map fst es) then ok \<lparr>run_seq = s, run_journal_seq = j, run_flags = 0, run_entries = es\<rparr>
      else Inl Panic)"

text \<open>Halving search over the half-open index range \<open>[lo, hi)\<close>.\<close>

function bsearch_from :: "('k :: linorder \<times> 'v) list \<Rightarrow> 'k \<Rightarrow> nat \<Rightarrow> nat \<Rightarrow> nat option" where
  "bsearch_from xs key lo hi =
     (if lo \<ge> hi then None
      else
        let mid = lo + (hi - lo) div 2; k = fst (xs ! mid)
        in if k = key then Some mid
           else if k < key then bsearch_from xs key (mid + 1) hi
           else bsearch_from xs key lo mid)"
  by pat_completeness auto
termination
  by (relation "measure (\<lambda>(xs, key, lo, hi). hi - lo)") (auto simp: Let_def)

declare bsearch_from.simps [simp del]

definition binary_search :: "('k :: linorder \<times> 'v) list \<Rightarrow> 'k \<Rightarrow> 'v option" where
  "binary_search xs key = map_option (\<lambda>i. snd (xs ! i)) (bsearch_from xs key 0 (length xs))"

definition run_lookup :: "('k :: linorder, 'v) sorted_run \<Rightarrow> 'k \<Rightarrow> 'v option" where
  "run_lookup r key = binary_search (run_entries r) key"

definition partition_point :: "('a \<Rightarrow> bool) \<Rightarrow> 'a list \<Rightarrow> nat" where
  "partition_point P xs = length (takeWhile P xs)"

text \<open>A slice whose end is before its start panics.\<close>

definition run_range :: "('k :: linorder, 'v) sorted_run \<Rightarrow> 'k \<Rightarrow> 'k \<Rightarrow> ('e, ('k \<times> 'v) list) res" where
  "run_range r lo hi =
     (let lo_idx = partition_point (\<lambda>(k, _). k < lo) (run_entries r);
          hi_idx = partition_point (\<lambda>(k, _). k < hi) (run_entries r)
      in if lo_idx \<le> hi_idx then ok (bslice lo_idx (hi_idx - lo_idx) (run_entries r)) else Inl Panic)"

section \<open>Journal\<close>

datatype ('k, 'v) journal_op = JInsert 'k 'v | JRemove 'k | JWhiteout 'k

fun jop_key :: "('k, 'v) journal_op \<Rightarrow> 'k" where
  "jop_key (JInsert k v) = k"
| "jop_key (JRemove k) = k"
| "jop_key (JWhiteout k) = k"

fun is_tombstone :: "('k, 'v) journal_op \<Rightarrow> bool" where
  "is_tombstone (JInsert k v) = False"
| "is_tombstone (JRemove k) = True"
| "is_tombstone (JWhiteout k) = True"

record ('k, 'v) journal_entry =
  je_lsn :: u64
  je_op :: "('k, 'v) journal_op"

section \<open>Nodes\<close>

record ('k, 'v) loaded_node =
  n_header :: btree_node_header
  n_sorted_runs :: "('k, 'v) sorted_run list"
  n_merged_view :: "('k \<times> 'v) list option"
  n_pending_journal :: "('k, 'v) journal_entry list"
  n_dirty :: bool
  n_pin :: journal_pin

definition node_new :: "btree_kind \<Rightarrow> u8 \<Rightarrow> u8 \<Rightarrow> ('k, 'v) loaded_node" where
  "node_new kind level region_size_log2 =
     \<lparr>n_header = node_header_new kind 1 level region_size_log2, n_sorted_runs = [], n_merged_view = None,
      n_pending_journal = [], n_dirty = False, n_pin = pin_default\<rparr>"

definition invalidate_cache :: "('k, 'v) loaded_node \<Rightarrow> ('k, 'v) loaded_node" where
  "invalidate_cache n = n\<lparr>n_merged_view := None\<rparr>"

definition push_journal :: "('k, 'v) loaded_node \<Rightarrow> ('k, 'v) journal_entry \<Rightarrow> ('k, 'v) loaded_node" where
  "push_journal n entry =
     invalidate_cache (n\<lparr>n_pin := pin_record (n_pin n) (je_lsn entry),
       n_pending_journal := n_pending_journal n @ [entry], n_dirty := True\<rparr>)"

definition node_insert :: "('k, 'v) loaded_node \<Rightarrow> u64 \<Rightarrow> 'k \<Rightarrow> 'v \<Rightarrow> ('k, 'v) loaded_node" where
  "node_insert n lsn key value = push_journal n \<lparr>je_lsn = lsn, je_op = JInsert key value\<rparr>"

definition node_remove :: "('k, 'v) loaded_node \<Rightarrow> u64 \<Rightarrow> 'k \<Rightarrow> ('k, 'v) loaded_node" where
  "node_remove n lsn key = push_journal n \<lparr>je_lsn = lsn, je_op = JRemove key\<rparr>"

section \<open>K-way merge\<close>

datatype journal_kind = Live | Tombstone

record ('k, 'v) merge_row =
  mr_key :: 'k
  mr_layer :: nat
  mr_kind :: journal_kind
  mr_value :: "'v option"
  mr_lsn :: u64

type_synonym ('k, 'v) kmerge =
  "(('k, 'v) merge_row \<Rightarrow> ('k, 'v) merge_row \<Rightarrow> bool) \<Rightarrow> ('k, 'v) merge_row list list \<Rightarrow> ('k, 'v) merge_row list"

definition pending_row :: "nat \<Rightarrow> ('k, 'v) journal_entry \<Rightarrow> ('k, 'v) merge_row" where
  "pending_row layer entry = (case je_op entry of
       JInsert k v \<Rightarrow> \<lparr>mr_key = k, mr_layer = layer, mr_kind = Live, mr_value = Some v, mr_lsn = je_lsn entry\<rparr>
     | JRemove k \<Rightarrow> \<lparr>mr_key = k, mr_layer = layer, mr_kind = Tombstone, mr_value = None, mr_lsn = je_lsn entry\<rparr>
     | JWhiteout k \<Rightarrow> \<lparr>mr_key = k, mr_layer = layer, mr_kind = Tombstone, mr_value = None, mr_lsn = je_lsn entry\<rparr>)"

definition run_row :: "nat \<Rightarrow> 'k \<times> 'v \<Rightarrow> ('k, 'v) merge_row" where
  "run_row layer kv = \<lparr>mr_key = fst kv, mr_layer = layer, mr_kind = Live, mr_value = Some (snd kv), mr_lsn = 0\<rparr>"

text \<open>\<open>sort_by\<close> of the standard library is stable.\<close>

definition merge_sources :: "('k :: linorder, 'v) loaded_node \<Rightarrow> ('k, 'v) merge_row list list" where
  "merge_sources n =
     map (\<lambda>(layer, run). map (run_row layer) (run_entries run)) (enumerate 0 (n_sorted_runs n)) @
     [sort_key (\<lambda>r. (mr_key r, mr_lsn r)) (map (pending_row (length (n_sorted_runs n))) (n_pending_journal n))]"

definition row_less :: "('k :: linorder, 'v) merge_row \<Rightarrow> ('k, 'v) merge_row \<Rightarrow> bool" where
  "row_less a b \<longleftrightarrow> (mr_key a, mr_layer a, mr_lsn a) < (mr_key b, mr_layer b, mr_lsn b)"

function dedup_rows :: "('k, 'v) merge_row list \<Rightarrow> ('k \<times> 'v) list" where
  "dedup_rows [] = []"
| "dedup_rows (first # rows) =
     (let newest = last (first # takeWhile (\<lambda>r. mr_key r = mr_key first) rows);
          rest = dropWhile (\<lambda>r. mr_key r = mr_key first) rows
      in (case (mr_kind newest, mr_value newest) of
            (Live, Some v) \<Rightarrow> (mr_key newest, v) # dedup_rows rest
          | _ \<Rightarrow> dedup_rows rest))"
  by pat_completeness auto
termination
  by (relation "measure length") (auto simp: le_imp_less_Suc length_dropWhile_le)

definition merge_iter :: "('k, 'v) kmerge \<Rightarrow> ('k :: linorder, 'v) loaded_node \<Rightarrow> ('k \<times> 'v) list" where
  "merge_iter kmerge n = dedup_rows (kmerge row_less (merge_sources n))"

section \<open>Lookup and range\<close>

text \<open>The newest-first walk over the journal: \<open>Some r\<close> if an entry decides the key.\<close>

fun journal_lookup :: "('k, 'v) journal_entry list \<Rightarrow> 'k \<Rightarrow> 'v option option" where
  "journal_lookup [] key = None"
| "journal_lookup (e # es) key =
     (case je_op e of
        JInsert k v \<Rightarrow> if k = key then Some (Some v) else journal_lookup es key
      | JRemove k \<Rightarrow> if k = key then Some None else journal_lookup es key
      | JWhiteout k \<Rightarrow> if k = key then Some None else journal_lookup es key)"

definition node_lookup ::
  "('k, 'v) kmerge \<Rightarrow> ('k :: linorder, 'v) loaded_node \<Rightarrow> 'k \<Rightarrow> 'v option \<times> ('k, 'v) loaded_node" where
  "node_lookup kmerge n key =
     (case journal_lookup (rev (n_pending_journal n)) key of
        Some r \<Rightarrow> (r, n)
      | None \<Rightarrow>
          (case n_merged_view n of
             Some view \<Rightarrow> (binary_search view key, n)
           | None \<Rightarrow>
               let view = merge_iter kmerge n
               in (binary_search view key, n\<lparr>n_merged_view := Some view\<rparr>)))"

definition node_range :: "('k, 'v) kmerge \<Rightarrow> ('k :: linorder, 'v) loaded_node \<Rightarrow> 'k \<Rightarrow> 'k \<Rightarrow> ('k \<times> 'v) list" where
  "node_range kmerge n lo hi = filter (\<lambda>(k, _). k \<ge> lo \<and> k < hi) (merge_iter kmerge n)"

section \<open>Flush and compaction\<close>

definition max_lsn_of :: "u64 list \<Rightarrow> u64" where
  "max_lsn_of ls = fold max ls 0"

fun journal_by_key :: "('k :: linorder, 'v) journal_entry list \<Rightarrow> ('k, 'v) btree_map \<Rightarrow> ('k, 'v) btree_map" where
  "journal_by_key [] m = m"
| "journal_by_key (e # es) m =
     journal_by_key es (case je_op e of JInsert k v \<Rightarrow> bm_insert k v m | _ \<Rightarrow> m)"

definition next_run_seq :: "('k, 'v) sorted_run list \<Rightarrow> ('e, u32) res" where
  "next_run_seq runs =
     (if runs = [] then ok 0
      else let s = fold max (map run_seq runs) 0 in if s + 1 < 2 ^ 32 then ok (s + 1) else Inl Panic)"

definition raise_persisted_lsn :: "u64 \<Rightarrow> btree_node_header \<Rightarrow> btree_node_header" where
  "raise_persisted_lsn lsn h = (if lsn > nh_last_persisted_lsn h then h\<lparr>nh_last_persisted_lsn := lsn\<rparr> else h)"

definition flush_to_run :: "('k :: linorder, 'v) loaded_node \<Rightarrow> (storage_error, ('k, 'v) loaded_node) res" where
  "flush_to_run n =
     (if n_pending_journal n = [] then ok n
      else if list_ex (\<lambda>e. is_tombstone (je_op e)) (n_pending_journal n)
        then err (CborEncode ''flush_to_run: tombstones require compact() until BTREE5'')
      else
        let max_lsn = max_lsn_of (map je_lsn (n_pending_journal n));
            entries = journal_by_key (n_pending_journal n) []
        in rbind (next_run_seq (n_sorted_runs n)) (\<lambda>next_seq.
           rbind (run_from_sorted next_seq max_lsn entries) (\<lambda>run.
           let runs = n_sorted_runs n @ [run];
               header = raise_persisted_lsn max_lsn
                 ((n_header n)\<lparr>nh_sorted_run_count := length runs mod 2 ^ 8\<rparr>)
           in ok (invalidate_cache (n\<lparr>n_header := header, n_sorted_runs := runs, n_pending_journal := [],
                n_dirty := True, n_pin := pin_default\<rparr>)))))"

definition should_compact :: "btree_node_header \<Rightarrow> u32 \<Rightarrow> bool" where
  "should_compact h region_size \<longleftrightarrow>
     nh_payload_used h > (region_size * 3) div 4 \<or> nh_sorted_run_count h > 4"

definition BTREE_NODE_FLAG_COMPACTION_IN_PROGRESS :: u8 where
  "BTREE_NODE_FLAG_COMPACTION_IN_PROGRESS = 1"

definition compact :: "('k, 'v) kmerge \<Rightarrow> ('k :: linorder, 'v) loaded_node \<Rightarrow> (storage_error, ('k, 'v) loaded_node) res" where
  "compact kmerge n =
     (let merged = merge_iter kmerge n;
          max_lsn = max_lsn_of (map je_lsn (n_pending_journal n) @ map run_journal_seq (n_sorted_runs n));
          h0 = n_header n
      in rbind (add_u64 (nh_seq h0) 1) (\<lambda>seq1.
         rbind (if merged = [] then ok [] else rbind (run_from_sorted 0 max_lsn merged) (\<lambda>r. ok [r])) (\<lambda>runs.
         let header = raise_persisted_lsn max_lsn
               (h0\<lparr>nh_seq := seq1,
                   nh_flags := nh_flags h0 AND (255 - BTREE_NODE_FLAG_COMPACTION_IN_PROGRESS),
                   nh_sorted_run_count := (if merged = [] then 0 else 1),
                   nh_payload_used := 0\<rparr>)
         in ok \<lparr>n_header = header, n_sorted_runs = runs, n_merged_view = None, n_pending_journal = [],
               n_dirty = True, n_pin = pin_default\<rparr>)))"

end
