(* ===== verification/Mb_Region.thy ===== *)
theory Mb_Region
  imports Mb_Btree Mb_Device
begin

text \<open>
  B+ tree regions on a block device (\<open>BtreeRegion\<close> of
  \<open>crates/storage/src/btree.rs\<close> and the header codecs of \<open>btree_node.rs\<close>): the
  header sector, sector-aligned sorted runs with their checksums, the full rewrite, the
  append of one run, and the reader that stops at the first damaged run.

  The external functions the code calls are the fields of \<open>region_env\<close>: the CBOR encoder and
  decoder of a run's entries and the two CRC-32C functions.
\<close>

unbundle bit_operations_syntax

section \<open>Header images\<close>

definition SORTED_RUN_MAGIC :: u32 where
  "SORTED_RUN_MAGIC = 0x54455342"

definition node_header_ok :: "btree_node_header \<Rightarrow> bool" where
  "node_header_ok h \<longleftrightarrow> preamble_ok (nh_pre h) \<and> nh_seq h < 2 ^ 64 \<and> nh_last_persisted_lsn h < 2 ^ 64 \<and>
     nh_region_size_log2 h < 2 ^ 8 \<and> nh_level h < 2 ^ 8 \<and> nh_sorted_run_count h < 2 ^ 8 \<and> nh_flags h < 2 ^ 8 \<and>
     nh_payload_used h < 2 ^ 32 \<and> length (nh_min_key h) = 16 \<and> length (nh_max_key h) = 16"

definition node_header_bytes :: "btree_node_header \<Rightarrow> byte list" where
  "node_header_bytes h = preamble_bytes (nh_pre h) @ le_bytes 8 (nh_seq h) @ le_bytes 8 (nh_last_persisted_lsn h) @
     le_bytes 1 (nh_region_size_log2 h) @ le_bytes 1 (nh_level h) @ le_bytes 1 (nh_sorted_run_count h) @
     le_bytes 1 (nh_flags h) @ le_bytes 4 (nh_payload_used h) @ nh_min_key h @ nh_max_key h"

definition node_header_of :: "byte list \<Rightarrow> btree_node_header" where
  "node_header_of bs = \<lparr>nh_pre = preamble_of (bslice 0 8 bs), nh_seq = get_le 8 8 bs,
     nh_last_persisted_lsn = get_le 16 8 bs, nh_region_size_log2 = get_le 24 1 bs, nh_level = get_le 25 1 bs,
     nh_sorted_run_count = get_le 26 1 bs, nh_flags = get_le 27 1 bs, nh_payload_used = get_le 28 4 bs,
     nh_min_key = bslice 32 16 bs, nh_max_key = bslice 48 16 bs\<rparr>"

definition node_header_parse :: "byte list \<Rightarrow> (storage_error, btree_node_header) res" where
  "node_header_parse bs =
     (if length bs < 64 then err (BufferTooSmall 64 (length bs))
      else
        let header = node_header_of (take 64 bs); magic = bp_magic (nh_pre header)
        in if magic \<noteq> BLOCK_PREAMBLE_MAGIC_BTREE then err (InvalidMagic BLOCK_PREAMBLE_MAGIC_BTREE magic)
           else ok header)"

definition run_header_ok :: "sorted_run_header \<Rightarrow> bool" where
  "run_header_ok h \<longleftrightarrow> rh_magic h < 2 ^ 32 \<and> rh_seq h < 2 ^ 32 \<and> rh_journal_seq h < 2 ^ 64 \<and>
     rh_entry_count h < 2 ^ 32 \<and> rh_payload_length h < 2 ^ 32 \<and> rh_flags h < 2 ^ 32 \<and> rh_crc h < 2 ^ 32"

definition run_header_bytes :: "sorted_run_header \<Rightarrow> byte list" where
  "run_header_bytes h = le_bytes 4 (rh_magic h) @ le_bytes 4 (rh_seq h) @ le_bytes 8 (rh_journal_seq h) @
     le_bytes 4 (rh_entry_count h) @ le_bytes 4 (rh_payload_length h) @ le_bytes 4 (rh_flags h) @ le_bytes 4 (rh_crc h)"

definition run_header_of :: "byte list \<Rightarrow> sorted_run_header" where
  "run_header_of bs = \<lparr>rh_magic = get_le 0 4 bs, rh_seq = get_le 4 4 bs, rh_journal_seq = get_le 8 8 bs,
     rh_entry_count = get_le 16 4 bs, rh_payload_length = get_le 20 4 bs, rh_flags = get_le 24 4 bs,
     rh_crc = get_le 28 4 bs\<rparr>"

section \<open>Runs\<close>

record ('k, 'v) region_env =
  env_encode :: "('k \<times> 'v) list \<Rightarrow> (string, byte list) res"
  env_decode :: "byte list \<Rightarrow> (string, ('k \<times> 'v) list) res"
  env_crc32c :: "byte list \<Rightarrow> u32"
  env_crc32c_append :: "u32 \<Rightarrow> byte list \<Rightarrow> u32"

definition compute_crc :: "('k, 'v) region_env \<Rightarrow> byte list \<Rightarrow> byte list \<Rightarrow> u32" where
  "compute_crc env header_with_zero_crc payload = env_crc32c_append env (env_crc32c env header_with_zero_crc) payload"

definition run_header_verify :: "('k, 'v) region_env \<Rightarrow> sorted_run_header \<Rightarrow> byte list \<Rightarrow> (storage_error, unit) res" where
  "run_header_verify env h payload =
     (let expected = rh_crc h; actual = compute_crc env (run_header_bytes (h\<lparr>rh_crc := 0\<rparr>)) payload
      in if expected = actual then ok () else err (CrcMismatch expected actual))"

definition encode_run ::
  "('k, 'v) region_env \<Rightarrow> ('k, 'v) sorted_run \<Rightarrow> (storage_error, sorted_run_header \<times> byte list) res" where
  "encode_run env run =
     rbind (map_err CborEncode (env_encode env (run_entries run))) (\<lambda>payload.
     let header = \<lparr>rh_magic = SORTED_RUN_MAGIC, rh_seq = run_seq run, rh_journal_seq = run_journal_seq run,
           rh_entry_count = length (run_entries run) mod 2 ^ 32, rh_payload_length = length payload mod 2 ^ 32,
           rh_flags = run_flags run, rh_crc = 0\<rparr>
     in ok (header\<lparr>rh_crc := compute_crc env (run_header_bytes header) payload\<rparr>, payload))"

text \<open>\<open>1u64 << log2\<close>: a shift by 64 or more is an overflow.\<close>

definition region_size :: "btree_node_header \<Rightarrow> (storage_error, u64) res" where
  "region_size h = (if nh_region_size_log2 h < 64 then ok (2 ^ nh_region_size_log2 h) else Inl Panic)"

definition align_up_to_sector :: "u64 \<Rightarrow> u64" where
  "align_up_to_sector value = (value + BLOCK_SIZE - 1) div BLOCK_SIZE * BLOCK_SIZE"

section \<open>Writing\<close>

fun write_runs ::
  "'d block_device \<Rightarrow> ('k, 'v) region_env \<Rightarrow> u64 \<Rightarrow> u64 \<Rightarrow> ('k, 'v) sorted_run list \<Rightarrow> u64 \<Rightarrow> 'd \<Rightarrow>
   (storage_error, u64 \<times> 'd) res" where
  "write_runs ops env offset rsize [] cursor d = ok (cursor, d)"
| "write_runs ops env offset rsize (run # runs) cursor d =
     rbind (encode_run env run) (\<lambda>(run_header, payload).
     let run_total = 32 + length payload
     in if cursor + run_total > rsize then err (RegionFull (cursor + run_total) rsize)
        else rbind (write_at ops d (offset + cursor) (run_header_bytes run_header)) (\<lambda>d1.
          rbind (write_at ops d1 (offset + cursor + 32) payload) (\<lambda>d2.
          write_runs ops env offset rsize runs (align_up_to_sector (cursor + run_total)) d2)))"

definition header_sector :: "btree_node_header \<Rightarrow> byte list" where
  "header_sector h = node_header_bytes h @ replicate (BLOCK_SIZE - length (node_header_bytes h)) 0"

definition write_full ::
  "'d block_device \<Rightarrow> ('k, 'v) region_env \<Rightarrow> 'd \<Rightarrow> u64 \<Rightarrow> ('k, 'v) loaded_node \<Rightarrow>
   (storage_error, ('k, 'v) loaded_node \<times> 'd) res" where
  "write_full ops env d offset node =
     rbind (region_size (n_header node)) (\<lambda>rsize.
     rbind (write_runs ops env offset rsize (n_sorted_runs node) BLOCK_SIZE d) (\<lambda>(cursor, d1).
     let payload_used = cursor - BLOCK_SIZE
     in if payload_used > 2 ^ 32 - 1 then err (RegionFull payload_used rsize)
        else rbind (add_u64 (nh_seq (n_header node)) 1) (\<lambda>seq1.
          let header = (n_header node)\<lparr>nh_payload_used := payload_used,
                nh_sorted_run_count := length (n_sorted_runs node) mod 2 ^ 8, nh_seq := seq1\<rparr>
          in rbind (write_at ops d1 offset (header_sector header)) (\<lambda>d2.
             ok (node\<lparr>n_header := header, n_dirty := False\<rparr>, d2)))))"

text \<open>The alignment \<open>debug_assert\<close> and the overflow of the \<open>u8\<close> run count are panics.\<close>

definition append_sorted_run ::
  "'d block_device \<Rightarrow> ('k, 'v) region_env \<Rightarrow> 'd \<Rightarrow> u64 \<Rightarrow> btree_node_header \<Rightarrow> ('k, 'v) sorted_run \<Rightarrow>
   (storage_error, btree_node_header \<times> 'd) res" where
  "append_sorted_run ops env d offset existing new_run =
     rbind (region_size existing) (\<lambda>rsize.
     let cursor = BLOCK_SIZE + nh_payload_used existing
     in if cursor mod BLOCK_SIZE \<noteq> 0 then Inl Panic
        else rbind (encode_run env new_run) (\<lambda>(run_header, payload).
          let run_total = 32 + length payload
          in if cursor + run_total > rsize then err (RegionFull (cursor + run_total) rsize)
             else rbind (write_at ops d (offset + cursor) (run_header_bytes run_header)) (\<lambda>d1.
               rbind (write_at ops d1 (offset + cursor + 32) payload) (\<lambda>d2.
               let new_payload_used = align_up_to_sector (cursor + run_total) - BLOCK_SIZE
               in if new_payload_used > 2 ^ 32 - 1 then err (RegionFull new_payload_used rsize)
                  else if nh_sorted_run_count existing + 1 \<ge> 2 ^ 8 then Inl Panic
                  else rbind (add_u64 (nh_seq existing) 1) (\<lambda>seq1.
                    let header = raise_persisted_lsn (run_journal_seq new_run)
                          (existing\<lparr>nh_payload_used := new_payload_used,
                             nh_sorted_run_count := nh_sorted_run_count existing + 1, nh_seq := seq1\<rparr>)
                    in rbind (write_at ops d2 offset (header_sector header)) (\<lambda>d3. ok (header, d3)))))))"

section \<open>Reading\<close>

text \<open>The loop over at most \<open>n\<close> further runs; a damaged run ends it without an error.\<close>

fun read_runs ::
  "'d block_device \<Rightarrow> ('k, 'v) region_env \<Rightarrow> 'd \<Rightarrow> u64 \<Rightarrow> u64 \<Rightarrow> nat \<Rightarrow> u64 \<Rightarrow>
   (storage_error, ('k, 'v) sorted_run list) res" where
  "read_runs ops env d offset payload_end 0 cursor = ok []"
| "read_runs ops env d offset payload_end (Suc n) cursor =
     (if cursor \<ge> payload_end then ok []
      else rbind (read_at ops d (offset + cursor) 32) (\<lambda>run_header_buf.
        let rh = run_header_of run_header_buf
        in if rh_magic rh \<noteq> SORTED_RUN_MAGIC then ok []
           else if rh_flags rh AND 1 \<noteq> 0 then err (UnsupportedFormatVersion 0)
           else rbind (read_at ops d (offset + cursor + 32) (rh_payload_length rh)) (\<lambda>payload.
             if run_header_verify env rh payload \<noteq> ok () then ok []
             else rbind (map_err CborDecode (env_decode env payload)) (\<lambda>entries.
               rbind (read_runs ops env d offset payload_end n
                        (align_up_to_sector (cursor + (32 + rh_payload_length rh)))) (\<lambda>runs.
               ok (\<lparr>run_seq = rh_seq rh, run_journal_seq = rh_journal_seq rh, run_flags = rh_flags rh,
                    run_entries = entries\<rparr> # runs))))))"

definition region_read ::
  "'d block_device \<Rightarrow> ('k, 'v) region_env \<Rightarrow> 'd \<Rightarrow> u64 \<Rightarrow> btree_kind \<Rightarrow> (storage_error, ('k, 'v) loaded_node) res" where
  "region_read ops env d offset kind =
     rbind (read_at ops d offset BLOCK_SIZE) (\<lambda>sector.
     rbind (node_header_parse sector) (\<lambda>header.
     if bp_kind (nh_pre header) \<noteq> btree_kind_u16 kind then err (InvalidBtreeKind (bp_kind (nh_pre header)))
     else rbind (region_size header) (\<lambda>rsize.
       if nh_payload_used header > rsize then err (RegionFull (nh_payload_used header) rsize)
       else rbind (read_runs ops env d offset (BLOCK_SIZE + nh_payload_used header)
                     (nh_sorted_run_count header) BLOCK_SIZE) (\<lambda>runs.
         ok \<lparr>n_header = header, n_sorted_runs = runs, n_merged_view = None, n_pending_journal = [],
             n_dirty = False, n_pin = pin_default\<rparr>))))"

section \<open>Codec lemmas\<close>

lemma length_node_header_bytes [codec_simps]: "node_header_ok h \<Longrightarrow> length (node_header_bytes h) = 64"
  by (simp add: node_header_ok_def node_header_bytes_def length_preamble_bytes)

lemma preamble_of_bytes: "preamble_ok p \<Longrightarrow> preamble_of (preamble_bytes p) = p"
  using preamble_of_append [of p "[]"] by simp

lemma node_header_of_bytes [codec_simps]: "node_header_ok h \<Longrightarrow> node_header_of (node_header_bytes h) = h"
  by (simp add: node_header_ok_def node_header_bytes_def node_header_of_def get_le_def bslice_def
      length_preamble_bytes preamble_of_bytes)

lemma length_run_header_bytes [simp]: "length (run_header_bytes h) = 32"
  by (simp add: run_header_bytes_def)

lemma run_header_of_bytes [codec_simps]: "run_header_ok h \<Longrightarrow> run_header_of (run_header_bytes h) = h"
  by (simp add: run_header_ok_def run_header_bytes_def run_header_of_def get_le_def bslice_def)

lemma length_header_sector: "node_header_ok h \<Longrightarrow> length (header_sector h) = 4096"
  by (simp add: header_sector_def length_node_header_bytes)

lemma parse_header_sector:
  "node_header_ok h \<Longrightarrow> bp_magic (nh_pre h) = BLOCK_PREAMBLE_MAGIC_BTREE \<Longrightarrow> node_header_parse (header_sector h) = ok h"
  by (simp add: node_header_parse_def length_header_sector Let_def)
    (simp add: header_sector_def length_node_header_bytes node_header_of_bytes)

lemma align_up_ge: "x \<le> align_up_to_sector x"
  using div_mult_mod_eq [of "x + 4095" 4096] mod_less_divisor [of 4096 "x + 4095"] by (simp add: align_up_to_sector_def)

lemma align_up_mod [simp]: "align_up_to_sector x mod 4096 = 0"
  by (simp add: align_up_to_sector_def)

end
