(* ===== verification/Mb_Pack.thy ===== *)
theory Mb_Pack
  imports Mb_Region
begin

text \<open>
  The packed-key codec of sorted runs (\<open>crates/storage/src/btree/pack.rs\<close>) and its format descriptor
  (\<open>crates/storage/src/btree_node.rs\<close>): format selection, the varint and bit-stream codecs, the encoder and
  the decoder of a run, and the check whether a key fits a format.

  The trait \<open>PackableKey\<close> is a record of its functions. Values are the bytes that \<open>as_ref\<close> gives.
\<close>

section \<open>Descriptors\<close>

record field_hints =
  fh_signed :: bool
  fh_msb_first :: bool

definition hints_unsigned :: field_hints where
  "hints_unsigned = \<lparr>fh_signed = False, fh_msb_first = False\<rparr>"

definition hints_signed :: field_hints where
  "hints_signed = \<lparr>fh_signed = True, fh_msb_first = False\<rparr>"

definition hints_unsigned_msb :: field_hints where
  "hints_unsigned_msb = \<lparr>fh_signed = False, fh_msb_first = True\<rparr>"

definition FIELD_FORMAT_FLAG_SIGNED :: u8 where
  "FIELD_FORMAT_FLAG_SIGNED = 1"

definition FIELD_FORMAT_FLAG_MSB_FIRST :: u8 where
  "FIELD_FORMAT_FLAG_MSB_FIRST = 2"

definition to_flags :: "field_hints \<Rightarrow> u8" where
  "to_flags h = (if fh_signed h then FIELD_FORMAT_FLAG_SIGNED else 0) + (if fh_msb_first h then FIELD_FORMAT_FLAG_MSB_FIRST else 0)"

definition VALUE_SIZE_KIND_FIXED :: u8 where
  "VALUE_SIZE_KIND_FIXED = 0"

definition VALUE_SIZE_KIND_VARINT :: u8 where
  "VALUE_SIZE_KIND_VARINT = 1"

record field_format =
  ff_bit_width :: u8
  ff_flags :: u8
  ff_pad0 :: u16
  ff_base :: u64
  ff_pad1 :: u32

record run_key_format =
  kf_nr_fields :: u8
  kf_key_header_bytes :: u8
  kf_common_value_prefix :: u8
  kf_value_size_kind :: u8
  kf_sum_bit_width :: u32

definition field_format_ok :: "field_format \<Rightarrow> bool" where
  "field_format_ok f \<longleftrightarrow> ff_bit_width f < 2 ^ 8 \<and> ff_flags f < 2 ^ 8 \<and> ff_pad0 f < 2 ^ 16 \<and> ff_base f < 2 ^ 64 \<and> ff_pad1 f < 2 ^ 32"

definition run_key_format_ok :: "run_key_format \<Rightarrow> bool" where
  "run_key_format_ok h \<longleftrightarrow> kf_nr_fields h < 2 ^ 8 \<and> kf_key_header_bytes h < 2 ^ 8 \<and> kf_common_value_prefix h < 2 ^ 8 \<and>
     kf_value_size_kind h < 2 ^ 8 \<and> kf_sum_bit_width h < 2 ^ 32"

definition field_format_bytes :: "field_format \<Rightarrow> byte list" where
  "field_format_bytes f = le_bytes 1 (ff_bit_width f) @ le_bytes 1 (ff_flags f) @ le_bytes 2 (ff_pad0 f) @
     le_bytes 8 (ff_base f) @ le_bytes 4 (ff_pad1 f)"

definition field_format_of :: "byte list \<Rightarrow> field_format" where
  "field_format_of bs = \<lparr>ff_bit_width = get_le 0 1 bs, ff_flags = get_le 1 1 bs, ff_pad0 = get_le 2 2 bs,
     ff_base = get_le 4 8 bs, ff_pad1 = get_le 12 4 bs\<rparr>"

definition key_format_bytes :: "run_key_format \<Rightarrow> byte list" where
  "key_format_bytes h = le_bytes 1 (kf_nr_fields h) @ le_bytes 1 (kf_key_header_bytes h) @ le_bytes 1 (kf_common_value_prefix h) @
     le_bytes 1 (kf_value_size_kind h) @ le_bytes 4 (kf_sum_bit_width h)"

definition key_format_of :: "byte list \<Rightarrow> run_key_format" where
  "key_format_of bs = \<lparr>kf_nr_fields = get_le 0 1 bs, kf_key_header_bytes = get_le 1 1 bs, kf_common_value_prefix = get_le 2 1 bs,
     kf_value_size_kind = get_le 3 1 bs, kf_sum_bit_width = get_le 4 4 bs\<rparr>"

definition format_total_size :: "run_key_format \<Rightarrow> nat" where
  "format_total_size h = 8 + kf_nr_fields h * 16 + kf_common_value_prefix h"

text \<open>\<open>cast_slice\<close> to an array of \<open>n\<close> field formats.\<close>

primrec field_formats_of :: "nat \<Rightarrow> byte list \<Rightarrow> field_format list" where
  "field_formats_of 0 bs = []"
| "field_formats_of (Suc n) bs = field_format_of (take 16 bs) # field_formats_of n (drop 16 bs)"

definition format_parse :: "byte list \<Rightarrow> (storage_error, run_key_format \<times> field_format list \<times> byte list) res" where
  "format_parse bs =
     (if length bs < 8 then err (BufferTooSmall 8 (length bs))
      else
        let head = key_format_of (take 8 bs); nr = kf_nr_fields head; prefix_len = kf_common_value_prefix head;
            fields_end = 8 + nr * 16; size = fields_end + prefix_len
        in if length bs < size then err (BufferTooSmall size (length bs))
           else ok (head, field_formats_of nr (bslice 8 (nr * 16) bs), bslice fields_end prefix_len bs))"

definition format_serialise :: "run_key_format \<Rightarrow> field_format list \<Rightarrow> byte list \<Rightarrow> byte list" where
  "format_serialise head ffs value_prefix = key_format_bytes head @ concat (map field_format_bytes ffs) @ value_prefix"

section \<open>Packable keys\<close>

record 'k packable =
  pk_nr_fields :: nat
  pk_key_header_bytes :: nat
  pk_field_hints :: "field_hints list"
  pk_key_header :: "'k \<Rightarrow> u32"
  pk_field_values :: "'k \<Rightarrow> u64 list"
  pk_from_components :: "u32 \<Rightarrow> u64 list \<Rightarrow> (pack_error, 'k) res"

definition pack_u64 :: "u64 packable" where
  "pack_u64 = \<lparr>pk_nr_fields = 1, pk_key_header_bytes = 0, pk_field_hints = [hints_unsigned], pk_key_header = \<lambda>_. 0,
     pk_field_values = \<lambda>k. [k],
     pk_from_components = \<lambda>_ ffs. (case ffs of [a] \<Rightarrow> ok a | _ \<Rightarrow> err (Malformed ''u64: wrong field count''))\<rparr>"

definition pack_u32 :: "u32 packable" where
  "pack_u32 = \<lparr>pk_nr_fields = 1, pk_key_header_bytes = 0, pk_field_hints = [hints_unsigned], pk_key_header = \<lambda>_. 0,
     pk_field_values = \<lambda>k. [k],
     pk_from_components = \<lambda>_ ffs. (case ffs of
         [a] \<Rightarrow> if a > 2 ^ 32 - 1 then err (Malformed ''u32: field overflow on decode'') else ok a
       | _ \<Rightarrow> err (Malformed ''u32: wrong field count''))\<rparr>"

definition pack_u64_u32 :: "(u64 \<times> u32) packable" where
  "pack_u64_u32 = \<lparr>pk_nr_fields = 2, pk_key_header_bytes = 0, pk_field_hints = [hints_unsigned, hints_unsigned], pk_key_header = \<lambda>_. 0,
     pk_field_values = \<lambda>(a, b). [a, b],
     pk_from_components = \<lambda>_ ffs. (case ffs of
         [a, b] \<Rightarrow> if b > 2 ^ 32 - 1 then err (Malformed ''(u64, u32): u32 field overflow'') else ok (a, b)
       | _ \<Rightarrow> err (Malformed ''(u64, u32): wrong field count''))\<rparr>"

definition pack_u32_u32 :: "(u32 \<times> u32) packable" where
  "pack_u32_u32 = \<lparr>pk_nr_fields = 2, pk_key_header_bytes = 0, pk_field_hints = [hints_unsigned, hints_unsigned], pk_key_header = \<lambda>_. 0,
     pk_field_values = \<lambda>(a, b). [a, b],
     pk_from_components = \<lambda>_ ffs. (case ffs of
         [a, b] \<Rightarrow> if a > 2 ^ 32 - 1 \<or> b > 2 ^ 32 - 1 then err (Malformed ''(u32, u32): u32 field overflow'') else ok (a, b)
       | _ \<Rightarrow> err (Malformed ''(u32, u32): wrong field count''))\<rparr>"

section \<open>Format selection\<close>

text \<open>\<open>64 - n.leading_zeros()\<close>: the number of bits of \<open>n\<close>.\<close>

fun bit_len :: "nat \<Rightarrow> nat" where
  "bit_len n = (if n = 0 then 0 else Suc (bit_len (n div 2)))"

declare bit_len.simps [simp del]

definition field_mins :: "'k packable \<Rightarrow> ('k \<times> byte list) list \<Rightarrow> u64 list" where
  "field_mins pk entries =
     (if entries = [] then replicate (pk_nr_fields pk) 0
      else map (\<lambda>i. fold min (map (\<lambda>(k, _). pk_field_values pk k ! i) entries) (2 ^ 64 - 1)) [0..<pk_nr_fields pk])"

definition field_maxs :: "'k packable \<Rightarrow> ('k \<times> byte list) list \<Rightarrow> u64 list" where
  "field_maxs pk entries =
     map (\<lambda>i. fold max (map (\<lambda>(k, _). pk_field_values pk k ! i) entries) 0) [0..<pk_nr_fields pk]"

definition select_field :: "bool \<Rightarrow> u64 \<Rightarrow> u64 \<Rightarrow> field_hints \<Rightarrow> field_format" where
  "select_field have_any lo hi hint =
     (let (bw, base) = (if \<not> have_any \<or> lo = hi then (0, if have_any then lo else 0) else (bit_len (hi - lo), lo))
      in \<lparr>ff_bit_width = bw, ff_flags = to_flags hint, ff_pad0 = 0, ff_base = base, ff_pad1 = 0\<rparr>)"

definition common_prefix_len :: "byte list list \<Rightarrow> nat" where
  "common_prefix_len vs =
     (case vs of
        [] \<Rightarrow> 0
      | first # others \<Rightarrow>
          let max_len = min (fold min (map length others) (length first)) 255
          in length (takeWhile (\<lambda>j. list_all (\<lambda>v. v ! j = first ! j) others) [0..<max_len]))"

definition select_value_size_kind :: "bool \<Rightarrow> ('k \<times> byte list) list \<Rightarrow> u8" where
  "select_value_size_kind force_varint entries =
     (if force_varint \<and> entries \<noteq> [] then VALUE_SIZE_KIND_VARINT
      else if length entries < 2 then VALUE_SIZE_KIND_FIXED
      else if list_all (\<lambda>(_, v). length v = length (snd (hd entries))) entries then VALUE_SIZE_KIND_FIXED
      else VALUE_SIZE_KIND_VARINT)"

definition select_format_with_hint ::
  "'k packable \<Rightarrow> ('k \<times> byte list) list \<Rightarrow> bool \<Rightarrow> (pack_error, run_key_format \<times> field_format list \<times> byte list) res" where
  "select_format_with_hint pk entries force_varint =
     (let nr = pk_nr_fields pk; header_bytes = pk_key_header_bytes pk; hints = pk_field_hints pk
      in if nr = 0 \<or> nr > 8 then err (TooManyFields nr)
         else if header_bytes > 4 then err (InvalidKeyHeaderBytes (header_bytes mod 2 ^ 8))
         else if length hints \<noteq> nr then err (Malformed ''PackableKey: hints length != nr_fields'')
         else
           let ffs = map (\<lambda>i. select_field (entries \<noteq> []) (field_mins pk entries ! i) (field_maxs pk entries ! i) (hints ! i)) [0..<nr];
               prefix_len = common_prefix_len (map snd entries)
           in ok (\<lparr>kf_nr_fields = nr, kf_key_header_bytes = header_bytes, kf_common_value_prefix = prefix_len,
                   kf_value_size_kind = select_value_size_kind force_varint entries,
                   kf_sum_bit_width = header_bytes * 8 + sum_list (map ff_bit_width ffs)\<rparr>,
                  ffs, if entries = [] then [] else take prefix_len (snd (hd entries))))"

definition select_format ::
  "'k packable \<Rightarrow> ('k \<times> byte list) list \<Rightarrow> (pack_error, run_key_format \<times> field_format list \<times> byte list) res" where
  "select_format pk entries = select_format_with_hint pk entries False"

section \<open>Varints\<close>

fun write_varint_u64 :: "u64 \<Rightarrow> byte list" where
  "write_varint_u64 value =
     (let byte = word_of_nat (value mod 128); rest = value div 128
      in if rest = 0 then [byte] else (byte OR 128) # write_varint_u64 rest)"

declare write_varint_u64.simps [simp del]

text \<open>The loop reads from the front of \<open>bs\<close>, the part of the buffer that begins at the cursor, and returns the
  value and what is left.\<close>

primrec read_varint_from :: "byte list \<Rightarrow> u32 \<Rightarrow> u64 \<Rightarrow> (pack_error, u64 \<times> byte list) res" where
  "read_varint_from [] shift acc = err (Malformed ''varint: truncated'')"
| "read_varint_from (byte # bs) shift acc =
     (let chunk = unat (byte AND 127)
      in if shift \<ge> 64 then err (Malformed ''varint: too wide for u64'')
         else if shift = 63 \<and> chunk > 1 then err (Malformed ''varint: too wide for u64'')
         else
           let acc1 = acc OR push_bit shift chunk
           in if byte AND 128 = 0 then ok (acc1, bs) else read_varint_from bs (shift + 7) acc1)"

definition read_varint_u64 :: "byte list \<Rightarrow> (pack_error, u64 \<times> byte list) res" where
  "read_varint_u64 bs = read_varint_from bs 0 0"

section \<open>Bit streams\<close>

text \<open>The bits \<open>i - 1\<close> down to 0 of the value; \<open>pack_bits\<close> runs it for the bit width.\<close>

primrec pack_bits_from :: "nat \<Rightarrow> byte list \<Rightarrow> nat \<Rightarrow> u64 \<Rightarrow> byte list \<times> nat" where
  "pack_bits_from 0 buf bit_pos value = (buf, bit_pos)"
| "pack_bits_from (Suc i) buf bit_pos value =
     (let bit_val = value div 2 ^ i mod 2;
          byte_idx = bit_pos div 8;
          bit_in_byte = 7 - bit_pos mod 8;
          buf1 = (if byte_idx \<ge> length buf then buf @ [0] else buf);
          buf2 = (if bit_val \<noteq> 0 then buf1[byte_idx := buf1 ! byte_idx OR push_bit bit_in_byte 1] else buf1)
      in pack_bits_from i buf2 (bit_pos + 1) value)"

definition pack_bits :: "byte list \<Rightarrow> nat \<Rightarrow> u64 \<Rightarrow> u8 \<Rightarrow> byte list \<times> nat" where
  "pack_bits buf bit_pos value bit_width = pack_bits_from bit_width buf bit_pos value"

primrec read_bits_from :: "nat \<Rightarrow> byte list \<Rightarrow> nat \<Rightarrow> u64 \<Rightarrow> u64" where
  "read_bits_from 0 buf bit_pos acc = acc"
| "read_bits_from (Suc n) buf bit_pos acc =
     (let bit_val = unat (drop_bit (7 - bit_pos mod 8) (buf ! (bit_pos div 8)) AND 1)
      in read_bits_from n buf (bit_pos + 1) (acc * 2 + bit_val))"

text \<open>The \<open>debug_assert\<close> on the width is a panic. Returns the value; the cursor moves by the width.\<close>

definition read_bits :: "byte list \<Rightarrow> nat \<Rightarrow> u8 \<Rightarrow> (pack_error, u64) res" where
  "read_bits buf bit_pos bit_width =
     (if bit_width = 0 then ok 0
      else if bit_width > 64 then Inl Panic
      else if bit_pos + bit_width > length buf * 8 then err (Malformed ''read_bits: out of range'')
      else ok (read_bits_from bit_width buf bit_pos 0))"

definition data_bits_per_key :: "field_format list \<Rightarrow> nat" where
  "data_bits_per_key ffs = sum_list (map ff_bit_width ffs)"

definition bytes_per_key :: "run_key_format \<Rightarrow> field_format list \<Rightarrow> nat" where
  "bytes_per_key head ffs = kf_key_header_bytes head + (data_bits_per_key ffs + 7) div 8"

section \<open>Encoder\<close>

definition check_prefixes :: "byte list \<Rightarrow> byte list list \<Rightarrow> (pack_error, unit) res" where
  "check_prefixes value_prefix vs =
     rbind (rcollect (\<lambda>v. if length v < length value_prefix then err (InvalidPrefix (length value_prefix))
         else if length value_prefix > 0 \<and> take (length value_prefix) v \<noteq> value_prefix
           then err (Malformed ''encode: common_value_prefix does not match every value'')
         else ok ()) vs) (\<lambda>_. ok ())"

text \<open>What the bit stream stores for a field of positive width; a shift by the full width or more is a panic.\<close>

definition field_delta :: "field_format \<Rightarrow> u64 \<Rightarrow> (pack_error, u64) res" where
  "field_delta f v =
     (let bw = ff_bit_width f; delta = (v + 2 ^ 64 - ff_base f) mod 2 ^ 64;
          max_repr = (if bw = 64 then 2 ^ 64 - 1 else 2 ^ bw - 1)
      in if bw > 64 then Inl Panic else if delta > max_repr then err (FieldOverflow v bw) else ok delta)"

primrec pack_fields :: "(field_format \<times> u64) list \<Rightarrow> byte list \<Rightarrow> nat \<Rightarrow> (pack_error, byte list) res" where
  "pack_fields [] packed bit_pos = ok packed"
| "pack_fields (fv # fvs) packed bit_pos =
     (let (f, v) = fv; bw = ff_bit_width f
      in if bw = 0
         then if v \<noteq> ff_base f then err (FieldOverflow v 0) else pack_fields fvs packed bit_pos
         else rbind (field_delta f v) (\<lambda>delta.
           let (packed1, bit_pos1) = pack_bits packed bit_pos delta bw in pack_fields fvs packed1 bit_pos1))"

definition header_le :: "nat \<Rightarrow> u32 \<Rightarrow> (pack_error, byte list) res" where
  "header_le header_bytes h = (if header_bytes > 4 then Inl Panic else ok (map (\<lambda>b. word_of_nat (drop_bit (b * 8) h)) [0..<header_bytes]))"

definition encode_entry ::
  "'k packable \<Rightarrow> run_key_format \<Rightarrow> field_format list \<Rightarrow> 'k \<times> byte list \<Rightarrow> (pack_error, byte list) res" where
  "encode_entry pk head ffs kv =
     (let (k, v) = kv; header_bytes = kf_key_header_bytes head; prefix = kf_common_value_prefix head
      in rbind (header_le header_bytes (pk_key_header pk k)) (\<lambda>hdr.
         rbind (pack_fields (zip ffs (pk_field_values pk k)) [] 0) (\<lambda>packed.
         let data_bytes = bytes_per_key head ffs - header_bytes;
             tail = drop prefix v
         in ok (hdr @ packed @ replicate (data_bytes - length packed) 0 @
              (if kf_value_size_kind head = VALUE_SIZE_KIND_VARINT then write_varint_u64 (length tail) else []) @ tail))))"

definition encode_packed_run ::
  "'k packable \<Rightarrow> ('k \<times> byte list) list \<Rightarrow> run_key_format \<Rightarrow> field_format list \<Rightarrow> byte list \<Rightarrow> (pack_error, byte list) res" where
  "encode_packed_run pk entries head ffs value_prefix =
     (if length ffs \<noteq> pk_nr_fields pk then err (Malformed ''encode: format field count mismatch with PackableKey'')
      else if length value_prefix \<noteq> kf_common_value_prefix head then err (InvalidPrefix (length value_prefix))
      else if kf_value_size_kind head \<noteq> VALUE_SIZE_KIND_FIXED \<and> kf_value_size_kind head \<noteq> VALUE_SIZE_KIND_VARINT
        then err (Malformed ''encode: unknown value_size_kind'')
      else if entries = [] then ok (format_serialise head ffs value_prefix)
      else if kf_value_size_kind head = VALUE_SIZE_KIND_FIXED \<and>
          list_ex (\<lambda>(_, v). length v \<noteq> length (snd (hd entries))) entries
        then err (Malformed ''encode: fixed mode requires uniform value lengths; select_format should have chosen VARINT'')
      else
        rbind (check_prefixes value_prefix (map snd entries)) (\<lambda>_.
        rbind (rcollect (encode_entry pk head ffs) entries) (\<lambda>parts.
        ok (format_serialise head ffs value_prefix @ concat parts))))"

section \<open>Decoder\<close>

primrec read_fields :: "field_format list \<Rightarrow> byte list \<Rightarrow> nat \<Rightarrow> (pack_error, u64 list) res" where
  "read_fields [] packed bit_pos = ok []"
| "read_fields (f # fs) packed bit_pos =
     rbind (read_bits packed bit_pos (ff_bit_width f)) (\<lambda>delta.
     rbind (read_fields fs packed (bit_pos + ff_bit_width f)) (\<lambda>vals.
     ok ((ff_base f + delta) mod 2 ^ 64 # vals)))"

text \<open>One entry from the front of \<open>bs\<close>, the entry bytes from the cursor on: the key, the value and what is
  left. A shift of the \<open>u32\<close> header by 32 or more and an overflow of the cursor are panics.\<close>

definition decode_entry ::
  "'k packable \<Rightarrow> run_key_format \<Rightarrow> field_format list \<Rightarrow> byte list \<Rightarrow> nat \<Rightarrow> nat \<Rightarrow> byte list \<Rightarrow>
   (pack_error, ('k \<times> byte list) \<times> byte list) res" where
  "decode_entry pk head ffs value_prefix value_size total_len bs =
     (let header_bytes = kf_key_header_bytes head; body_size = bytes_per_key head ffs;
          data_bytes = body_size - header_bytes
      in if body_size > length bs then err (Malformed ''decode: entry body truncated'')
         else if header_bytes > 4 then Inl Panic
         else
           let h = le_nat (take header_bytes bs);
               packed = bslice header_bytes data_bytes bs
           in rbind (read_fields ffs packed 0) (\<lambda>vals.
              rbind (if kf_value_size_kind head = VALUE_SIZE_KIND_FIXED
                     then ok (value_size - kf_common_value_prefix head, drop body_size bs)
                     else read_varint_u64 (drop body_size bs)) (\<lambda>(tail_len, rest).
              if total_len - length rest + tail_len \<ge> 2 ^ 64 then Inl Panic
              else if tail_len > length rest then err (Malformed ''decode: value tail truncated'')
              else rbind (pk_from_components pk h vals) (\<lambda>key.
                ok ((key, value_prefix @ take tail_len rest), drop tail_len rest)))))"

primrec decode_entries ::
  "'k packable \<Rightarrow> run_key_format \<Rightarrow> field_format list \<Rightarrow> byte list \<Rightarrow> nat \<Rightarrow> nat \<Rightarrow> nat \<Rightarrow> byte list \<Rightarrow>
   (pack_error, ('k \<times> byte list) list) res" where
  "decode_entries pk head ffs value_prefix value_size total_len 0 bs = ok []"
| "decode_entries pk head ffs value_prefix value_size total_len (Suc n) bs =
     rbind (decode_entry pk head ffs value_prefix value_size total_len bs) (\<lambda>(kv, rest).
     rbind (decode_entries pk head ffs value_prefix value_size total_len n rest) (\<lambda>kvs. ok (kv # kvs)))"

definition decode_packed_run ::
  "'k packable \<Rightarrow> byte list \<Rightarrow> nat \<Rightarrow> u32 \<Rightarrow> (pack_error, ('k \<times> byte list) list \<times> run_key_format \<times> field_format list) res" where
  "decode_packed_run pk payload value_size entry_count =
     (case format_parse payload of
        Inl _ \<Rightarrow> err (Malformed ''decode: format header truncated'')
      | Inr (head, ffs, value_prefix) \<Rightarrow>
          if kf_nr_fields head \<noteq> pk_nr_fields pk
          then err (Malformed ''decode: descriptor nr_fields mismatch with PackableKey'')
          else
            let entries_bytes = drop (format_total_size head) payload; prefix = kf_common_value_prefix head
            in rbind
                 (if kf_value_size_kind head = VALUE_SIZE_KIND_FIXED
                  then if prefix > value_size then err (InvalidPrefix prefix)
                    else
                      let needed = entry_count * (bytes_per_key head ffs + (value_size - prefix))
                      in if needed \<ge> 2 ^ 64 then Inl Panic
                         else if length entries_bytes < needed then err (Malformed ''decode: entries truncated'')
                         else ok ()
                  else if kf_value_size_kind head = VALUE_SIZE_KIND_VARINT then ok ()
                  else err (Malformed ''decode: unknown value_size_kind'')) (\<lambda>_.
               rbind (decode_entries pk head ffs value_prefix value_size (length entries_bytes) entry_count entries_bytes) (\<lambda>kvs.
               ok (kvs, head, ffs))))"

section \<open>Comparison and fit\<close>

fun compare_packed_keys :: "byte list \<Rightarrow> byte list \<Rightarrow> ordering" where
  "compare_packed_keys [] [] = Equal"
| "compare_packed_keys [] (b # bs) = Less"
| "compare_packed_keys (a # as) [] = Greater"
| "compare_packed_keys (a # as) (b # bs) =
     (if a < b then Less else if b < a then Greater else compare_packed_keys as bs)"

datatype format_fit = Fits | NeedsPromotion run_key_format "field_format list"

text \<open>The field widened to take \<open>value\<close>, or \<open>None\<close> if it fits as it is; the upper end of the old range may
  overflow.\<close>

definition widen_field :: "field_format \<Rightarrow> u64 \<Rightarrow> (pack_error, field_format option) res" where
  "widen_field f value =
     (let bw = ff_bit_width f; base = ff_base f;
          widened = (\<lambda>new_base range_max.
            let req_bw = (if range_max = 0 then 0 else bit_len range_max)
            in if req_bw > bw \<or> new_base \<noteq> base
               then Some \<lparr>ff_bit_width = max req_bw bw, ff_flags = ff_flags f, ff_pad0 = 0, ff_base = new_base, ff_pad1 = 0\<rparr>
               else None)
      in if bw > 64 then Inl Panic
         else if value < base
         then rbind (if bw = 0 then ok base else if bw = 64 then ok (2 ^ 64 - 1)
                     else if base + 2 ^ bw < 2 ^ 64 then ok (base + 2 ^ bw - 1) else Inl Panic) (\<lambda>old_upper.
              ok (widened value (old_upper - value)))
         else
           let cur_max = (if bw = 0 then 0 else if bw = 64 then 2 ^ 64 - 1 else 2 ^ bw - 1); delta = value - base
           in if delta > cur_max then ok (widened base delta) else ok None)"

definition check_fit :: "'k packable \<Rightarrow> run_key_format \<Rightarrow> field_format list \<Rightarrow> 'k \<Rightarrow> (pack_error, format_fit) res" where
  "check_fit pk head ffs key =
     (if length ffs \<noteq> pk_nr_fields pk then err (Malformed ''check_fit: format field count mismatch with PackableKey'')
      else if pk_key_header_bytes pk \<noteq> kf_key_header_bytes head then err (InvalidKeyHeaderBytes (kf_key_header_bytes head))
      else rbind (rcollect (\<lambda>(f, v). widen_field f v) (zip ffs (pk_field_values pk key))) (\<lambda>ws.
        if list_all (\<lambda>w. w = None) ws then ok Fits
        else
          let new_fields = map (\<lambda>(f, w). case w of None \<Rightarrow> f | Some f' \<Rightarrow> f') (zip ffs ws)
          in ok (NeedsPromotion
               \<lparr>kf_nr_fields = pk_nr_fields pk, kf_key_header_bytes = kf_key_header_bytes head,
                kf_common_value_prefix = kf_common_value_prefix head, kf_value_size_kind = VALUE_SIZE_KIND_FIXED,
                kf_sum_bit_width = kf_key_header_bytes head * 8 + sum_list (map ff_bit_width new_fields)\<rparr>
               new_fields)))"

record format_promote_event =
  fpe_sorted_run_seq :: u32
  fpe_new_format :: run_key_format
  fpe_new_fields :: "field_format list"

end
