(* ===== verification/Mb_Pack_Thms.thy ===== *)
theory Mb_Pack_Thms
  imports Mb_Pack
begin

text \<open>
  The packed codec round trips, and comparing packed bytes is comparing field tuples. A buffer of packed bits
  is read as one big-endian number: packing a value shifts the number and adds to it, reading divides.
\<close>

section \<open>Buffers as numbers\<close>

lemma be_nat_nth:
  assumes "i < length bs"
  shows "unat (bs ! i) = be_nat bs div 256 ^ (length bs - 1 - i) mod 256"
  using assms
proof (induction bs arbitrary: i)
  case (Cons b bs)
  have b: "unat b < 256" using unsigned_less [of b] by simp
  show ?case
  proof (cases i)
    case 0
    then show ?thesis using b be_nat_less [of bs] by (simp add: be_nat_Cons)
  next
    case (Suc j)
    then have j: "j < length bs" using Cons.prems by simp
    define n where "n = length bs - 1 - j"
    have "length bs = n + Suc j" using j by (simp add: n_def)
    then have len: "256 ^ length bs = 256 ^ n * (256 * 256 ^ j :: nat)" by (simp add: power_add)
    have "be_nat (b # bs) div 256 ^ n = unat b * (256 * 256 ^ j) + be_nat bs div 256 ^ n"
      unfolding be_nat_Cons len mult.left_commute [of "unat b" "256 ^ n"] by (rule div_mult_self4) simp
    then have "be_nat (b # bs) div 256 ^ n mod 256 = be_nat bs div 256 ^ n mod 256"
      by (simp add: mult.left_commute [of _ 256])
    then show ?thesis using Cons.IH [OF j] Suc by (simp add: n_def)
  qed
qed simp

lemma unat_or_bit:
  fixes b :: byte
  assumes "k < 8" and "2 ^ Suc k dvd unat b"
  shows "unat (b OR push_bit k 1) = unat b + 2 ^ k"
proof -
  obtain m where m: "unat b = 2 ^ Suc k * m" using assms(2) by (rule dvdE)
  have "\<not> bit (unat b) k" by (simp add: bit_iff_odd m)
  then have "\<not> bit b k" by (simp add: bit_unsigned_iff)
  then have "b + push_bit k 1 = b OR push_bit k 1" by (intro disjunctive_add) (auto simp: bit_exp_iff)
  moreover have "unat (push_bit k 1 :: byte) = 2 ^ k" 
  proof -
    have "(2 :: nat) ^ k < 2 ^ 8" using assms(1) by (intro power_strict_increasing) simp_all
    then have "(2 :: nat) ^ k mod 256 = 2 ^ k" by simp
    then show ?thesis using unat_byte_of_nat [of "2 ^ k"] by (simp add: push_bit_eq_mult)
  qed
  moreover have "unat b + 2 ^ k < 256"
  proof -
    have e: "(256 :: nat) = 2 ^ Suc k * 2 ^ (7 - k)"
    proof -
      have "(2 :: nat) ^ Suc k * 2 ^ (7 - k) = 2 ^ (Suc k + (7 - k))" by (simp only: power_add)
      also have "Suc k + (7 - k) = 8" using assms(1) by simp
      finally show ?thesis by simp
    qed
    have "unat b < 256" using unsigned_less [of b] by simp
    then have "m < 2 ^ (7 - k)" unfolding m e by simp
    then have "2 ^ Suc k * Suc m \<le> 2 ^ Suc k * 2 ^ (7 - k)" by (intro mult_le_mono2) simp
    then have "unat b + 2 ^ Suc k \<le> 256" unfolding m e by simp
    moreover have "(2 :: nat) ^ k < 2 ^ Suc k" by simp
    ultimately show ?thesis by linarith
  qed
  ultimately show ?thesis using unat_word_ariths(1) [of b "push_bit k 1"] by simp
qed

section \<open>Bit streams\<close>

text \<open>The buffer holds the bits of \<open>V\<close> from the front, and zeros up to the end of its last byte.\<close>

definition holds_bits :: "byte list \<Rightarrow> nat \<Rightarrow> nat \<Rightarrow> bool" where
  "holds_bits buf pos V \<longleftrightarrow> length buf = (pos + 7) div 8 \<and> be_nat buf = V * 2 ^ (8 * length buf - pos)"

lemma pack_bit_step:
  assumes "holds_bits buf pos V"
  defines "buf1 \<equiv> if pos div 8 \<ge> length buf then buf @ [0] else buf"
  shows "holds_bits buf1 (Suc pos) (2 * V)"
    and "holds_bits (buf1[pos div 8 := buf1 ! (pos div 8) OR push_bit (7 - pos mod 8) 1]) (Suc pos) (2 * V + 1)"
proof -
  define r where "r = pos mod 8"
  have r: "r < 8" and pos: "pos = 8 * (pos div 8) + r" by (simp_all add: r_def)
  have l: "length buf = (pos + 7) div 8" and v: "be_nat buf = V * 2 ^ (8 * length buf - pos)"
    using assms(1) by (simp_all add: holds_bits_def)
  obtain bs b where b: "buf1 = bs @ [b]" "length bs = pos div 8" "unat b + 256 * be_nat bs = V * 2 ^ (8 - r)"
  proof (cases "r = 0")
    case True
    then have "length buf = pos div 8" using l pos by simp
    moreover from this have "8 * length buf - pos = 0" using pos True by simp
    then have "be_nat buf = V" using v by simp
    ultimately show ?thesis using that [of buf 0] True by (simp add: buf1_def)
  next
    case False
    then have len: "length buf = Suc (pos div 8)" using l pos r by simp
    then obtain bs b where bs: "buf = bs @ [b]" by (metis length_0_conv nat.distinct(1) rev_exhaust)
    have "8 * length buf - pos = 8 - r" using len pos r by simp
    then show ?thesis using that [of bs b] bs len v by (simp add: buf1_def)
  qed
  have len1: "length buf1 = (Suc pos + 7) div 8" using b(1,2) pos r by simp
  have sh: "8 * length buf1 - Suc pos = 7 - r" using b(1,2) pos r by simp
  have pw: "(2 :: nat) ^ (8 - r) = 2 * 2 ^ (7 - r)" using r by (simp flip: power_Suc add: Suc_diff_le)
  show "holds_bits buf1 (Suc pos) (2 * V)"
    unfolding holds_bits_def sh using len1 b pw by simp
  have "2 ^ Suc (7 - r) dvd unat b"
  proof -
    have "(2 :: nat) ^ (8 - r) dvd 2 ^ 8" by (intro le_imp_power_dvd) simp
    then have "(2 :: nat) ^ (8 - r) dvd 256" by simp
    moreover have "2 ^ (8 - r) dvd unat b + 256 * be_nat bs" unfolding b(3) by simp
    ultimately have "2 ^ (8 - r) dvd unat b" using dvd_add_left_iff dvd_mult2 by blast
    then show ?thesis using pw by simp
  qed
  from unat_or_bit [OF _ this] have u: "unat (b OR push_bit (7 - r) 1) = unat b + 2 ^ (7 - r)" by simp
  have e: "buf1[pos div 8 := buf1 ! (pos div 8) OR push_bit (7 - pos mod 8) 1] = bs @ [b OR push_bit (7 - r) 1]"
    using b(1,2) by (simp add: r_def nth_append list_update_append)
  show "holds_bits (buf1[pos div 8 := buf1 ! (pos div 8) OR push_bit (7 - pos mod 8) 1]) (Suc pos) (2 * V + 1)"
    unfolding holds_bits_def e using len1 sh b u pw by (simp add: algebra_simps)
qed

lemma pack_bits_from_holds:
  "holds_bits buf pos V \<Longrightarrow> pack_bits_from n buf pos x = (buf', pos') \<Longrightarrow>
    pos' = pos + n \<and> holds_bits buf' pos' (V * 2 ^ n + x mod 2 ^ n)"
proof (induction n arbitrary: buf pos V)
  case (Suc n)
  note st = pack_bit_step [OF Suc.prems(1)]
  define b where "b = x div 2 ^ n mod 2"
  have "b = 0 \<or> b = 1" by (auto simp: b_def)
  have "x mod 2 ^ Suc n = b * 2 ^ n + x mod 2 ^ n"
    using mod_mult2_eq [of x "2 ^ n" 2] by (simp add: b_def mult.commute)
  then have e: "(2 * V + b) * 2 ^ n + x mod 2 ^ n = V * 2 ^ Suc n + x mod 2 ^ Suc n" by (simp add: algebra_simps)
  have "pos' = Suc pos + n \<and> holds_bits buf' pos' ((2 * V + b) * 2 ^ n + x mod 2 ^ n)"
  proof (cases "b = 0")
    case True
    then show ?thesis using Suc.IH [OF st(1)] Suc.prems(2) by (auto simp: b_def Let_def)
  next
    case False
    then have "b = 1" using \<open>b = 0 \<or> b = 1\<close> by simp
    then show ?thesis using Suc.IH [OF st(2)] Suc.prems(2) by (auto simp: b_def Let_def)
  qed
  then show ?case unfolding e by auto
qed simp

lemma read_bit:
  assumes "pos < 8 * length buf"
  shows "unat (drop_bit (7 - pos mod 8) (buf ! (pos div 8)) AND 1) = be_nat buf div 2 ^ (8 * length buf - pos - 1) mod 2"
proof -
  define i j where "i = pos div 8" and "j = 7 - pos mod 8"
  have i: "i < length buf" and j: "j < 8" using assms by (auto simp: i_def j_def)
  have e: "8 * length buf - pos - 1 = 8 * (length buf - 1 - i) + j"
    using assms div_mult_mod_eq [of pos 8] unfolding i_def j_def by linarith
  let ?x = "be_nat buf div 256 ^ (length buf - 1 - i)"
  have "unat (drop_bit j (buf ! i) AND 1) = unat (buf ! i) div 2 ^ j mod 2"
  proof -
    have "unat (drop_bit j (buf ! i) AND 1) = drop_bit j (unat (buf ! i)) AND 1"
      using unsigned_less [of "buf ! i", where 'a = nat] by (simp only: unsigned_and_eq unsigned_1) (simp add: unsigned_drop_bit_eq take_bit_nat_eq_self)
    then show ?thesis by (simp only: and_one_eq drop_bit_eq_div)
  qed
  also have "\<dots> = ?x mod 256 div 2 ^ j mod 2" by (simp only: be_nat_nth [OF i])
  also have "\<dots> = ?x div 2 ^ j mod 2"
  proof -
    have e256: "(256 :: nat) = 2 ^ j * 2 ^ (8 - j)" using j by (simp flip: power_add)
    have "y mod 256 div 2 ^ j = y div 2 ^ j mod 2 ^ (8 - j)" for y :: nat unfolding e256 by (simp add: mod_mult2_eq)
    moreover have "(2 :: nat) ^ (8 - j) = 2 * 2 ^ (7 - j)" using j by (simp flip: power_Suc add: Suc_diff_le)
    ultimately show ?thesis by (simp add: mod_mult2_eq)
  qed
  also have "\<dots> = be_nat buf div (256 ^ (length buf - 1 - i) * 2 ^ j) mod 2" by (simp only: div_mult2_eq)
  also have "256 ^ (length buf - 1 - i) * 2 ^ j = (2 :: nat) ^ (8 * (length buf - 1 - i) + j)" by (simp add: power_add power_mult)
  finally show ?thesis using e by (simp add: i_def j_def)
qed

lemma read_bits_from_eq:
  "pos + n \<le> 8 * length buf \<Longrightarrow>
    read_bits_from n buf pos acc = acc * 2 ^ n + be_nat buf div 2 ^ (8 * length buf - pos - n) mod 2 ^ n"
proof (induction n arbitrary: pos acc)
  case (Suc n)
  let ?L = "8 * length buf - pos - Suc n"
  have e: "8 * length buf - Suc pos - n = ?L" "8 * length buf - pos - 1 = ?L + n" using Suc.prems by auto
  have b: "unat (drop_bit (7 - pos mod 8) (buf ! (pos div 8)) AND 1) = be_nat buf div 2 ^ ?L div 2 ^ n mod 2"
  proof -
    have "pos < 8 * length buf" using Suc.prems by simp
    from read_bit [OF this, unfolded e(2)] show ?thesis by (simp only: power_add div_mult2_eq)
  qed
  have "be_nat buf div 2 ^ ?L mod 2 ^ Suc n = be_nat buf div 2 ^ ?L div 2 ^ n mod 2 * 2 ^ n + be_nat buf div 2 ^ ?L mod 2 ^ n"
    using mod_mult2_eq [of "be_nat buf div 2 ^ ?L" "2 ^ n" 2] by (simp add: mult.commute)
  then show ?case using Suc.IH [of "Suc pos"] Suc.prems b unfolding e(1)
    by (simp add: Let_def algebra_simps)
qed simp

section \<open>Packed fields\<close>

definition fdelta :: "field_format \<Rightarrow> u64 \<Rightarrow> nat" where
  "fdelta f v = (v + 2 ^ 64 - ff_base f) mod 2 ^ 64"

definition encodable :: "field_format \<times> u64 \<Rightarrow> bool" where
  "encodable fv = (case fv of (f, v) \<Rightarrow> ff_bit_width f \<le> 64 \<and> ff_base f < 2 ^ 64 \<and> v < 2 ^ 64 \<and> fdelta f v < 2 ^ ff_bit_width f)"

fun fpack :: "nat \<Rightarrow> (field_format \<times> u64) list \<Rightarrow> nat" where
  "fpack V [] = V"
| "fpack V ((f, v) # fvs) = fpack (V * 2 ^ ff_bit_width f + fdelta f v) fvs"

fun fbits :: "(field_format \<times> u64) list \<Rightarrow> nat" where
  "fbits [] = 0"
| "fbits ((f, v) # fvs) = ff_bit_width f + fbits fvs"

lemma fbits_eq: "fbits fvs = data_bits_per_key (map fst fvs)"
  by (induction fvs) (auto simp: data_bits_per_key_def)

lemma fpack_shift: "fpack V fvs = V * 2 ^ fbits fvs + fpack 0 fvs"
proof (induction fvs arbitrary: V)
  case (Cons fv fvs)
  obtain f v where fv: "fv = (f, v)" by fastforce
  show ?case using Cons.IH [of "V * 2 ^ ff_bit_width f + fdelta f v"] Cons.IH [of "fdelta f v"]
    by (simp add: fv power_add algebra_simps)
qed simp

lemma fpack_less: "list_all encodable fvs \<Longrightarrow> fpack 0 fvs < 2 ^ fbits fvs"
proof (induction fvs)
  case (Cons fv fvs)
  obtain f v where fv: "fv = (f, v)" by fastforce
  have "fdelta f v < 2 ^ ff_bit_width f" using Cons.prems fv by (simp add: encodable_def)
  then have "Suc (fdelta f v) * 2 ^ fbits fvs \<le> 2 ^ ff_bit_width f * 2 ^ fbits fvs" by (intro mult_le_mono1) simp
  moreover have "fpack 0 fvs < 2 ^ fbits fvs" using Cons by simp
  ultimately show ?case using fpack_shift [of "fdelta f v" fvs] by (simp add: fv power_add)
qed simp

lemma fdelta_inverse: "ff_base f < 2 ^ 64 \<Longrightarrow> v < 2 ^ 64 \<Longrightarrow> (ff_base f + fdelta f v) mod 2 ^ 64 = v"
  by (simp add: fdelta_def mod_add_right_eq)

lemma fdelta_ge: "ff_base f \<le> v \<Longrightarrow> v < 2 ^ 64 \<Longrightarrow> fdelta f v = v - ff_base f"
proof -
  assume "ff_base f \<le> v" "v < 2 ^ 64"
  then have "v + 2 ^ 64 - ff_base f = (v - ff_base f) + 2 ^ 64" and "v - ff_base f < 2 ^ 64" by linarith+
  then show ?thesis unfolding fdelta_def by (simp only: mod_add_self2 mod_less)
qed

lemma encodable_const: "encodable (f, v) \<Longrightarrow> ff_bit_width f = 0 \<Longrightarrow> v = ff_base f"
  using fdelta_inverse [of f v] by (simp add: encodable_def)

lemma field_delta_ok: "encodable (f, v) \<Longrightarrow> field_delta f v = ok (fdelta f v)"
proof -
  assume e: "encodable (f, v)"
  then have "fdelta f v < 2 ^ ff_bit_width f" by (simp add: encodable_def)
  then have "\<not> fdelta f v > 2 ^ ff_bit_width f - 1" by linarith
  moreover have "\<not> fdelta f v > 2 ^ 64 - 1" using mod_less_divisor [of "2 ^ 64" "v + 2 ^ 64 - ff_base f"] by (simp add: fdelta_def)
  ultimately show ?thesis using e unfolding field_delta_def fdelta_def [symmetric] Let_def by (simp add: encodable_def)
qed

lemma pack_fields_holds:
  "list_all encodable fvs \<Longrightarrow> holds_bits buf pos V \<Longrightarrow>
    \<exists>buf'. pack_fields fvs buf pos = ok buf' \<and> holds_bits buf' (pos + fbits fvs) (fpack V fvs)"
proof (induction fvs arbitrary: buf pos V)
  case (Cons fv fvs)
  obtain f v where fv: "fv = (f, v)" by fastforce
  have e: "encodable (f, v)" and rest: "list_all encodable fvs" using Cons.prems fv by simp_all
  show ?case
  proof (cases "ff_bit_width f = 0")
    case True
    have "fdelta f v = 0" using e True by (simp add: encodable_def)
    then show ?thesis using Cons.IH [OF rest Cons.prems(2)] True encodable_const [OF e True] fv by simp
  next
    case False
    obtain buf1 pos1 where b: "pack_bits buf pos (fdelta f v) (ff_bit_width f) = (buf1, pos1)" by fastforce
    have "fdelta f v mod 2 ^ ff_bit_width f = fdelta f v" using e by (simp add: encodable_def)
    then have h: "pos1 = pos + ff_bit_width f" "holds_bits buf1 pos1 (V * 2 ^ ff_bit_width f + fdelta f v)"
      using pack_bits_from_holds [OF Cons.prems(2) b [unfolded pack_bits_def]] by auto
    show ?thesis using Cons.IH [OF rest h(2)] False b h(1) fv field_delta_ok [OF e] by (simp add: add.assoc)
  qed
qed simp

lemma read_fields_ok:
  "list_all encodable fvs \<Longrightarrow> be_nat buf = fpack V fvs * 2 ^ pad \<Longrightarrow> 8 * length buf = pos + fbits fvs + pad \<Longrightarrow>
    read_fields (map fst fvs) buf pos = ok (map snd fvs)"
proof (induction fvs arbitrary: pos V)
  case (Cons fv fvs)
  obtain f v where fv: "fv = (f, v)" by fastforce
  let ?w = "ff_bit_width f"
  have e: "encodable (f, v)" and rest: "list_all encodable fvs" using Cons.prems fv by simp_all
  have d: "fdelta f v < 2 ^ ?w" and w: "?w \<le> 64" using e by (simp_all add: encodable_def)
  have bits: "read_bits buf pos ?w = ok (fdelta f v)"
  proof (cases "?w = 0")
    case False
    have len: "8 * length buf - pos - ?w = fbits fvs + pad" "pos + ?w \<le> 8 * length buf" using Cons.prems(3) fv by simp_all
    let ?U = "V * 2 ^ ?w + fdelta f v"
    have "be_nat buf = (?U * 2 ^ fbits fvs + fpack 0 fvs) * 2 ^ pad"
      using Cons.prems(2) fv fpack_shift [of ?U fvs] by simp
    then have "be_nat buf div 2 ^ (fbits fvs + pad) = ?U"
      using fpack_less [OF rest] by (simp add: power_add mult.commute [of "2 ^ fbits fvs"] div_mult2_eq)
    then have "be_nat buf div 2 ^ (fbits fvs + pad) mod 2 ^ ?w = fdelta f v" using d by simp
    then show ?thesis using read_bits_from_eq [OF len(2), of 0] False w len by (simp add: read_bits_def mult.commute)
  qed (use d in \<open>simp add: read_bits_def\<close>)
  have "read_fields (map fst fvs) buf (pos + ?w) = ok (map snd fvs)"
    using Cons.IH [OF rest, of "V * 2 ^ ?w + fdelta f v" "pos + ?w"] Cons.prems(2,3) fv by simp
  then show ?case using bits fv fdelta_inverse [of f v] e by (simp add: encodable_def)
qed simp

text \<open>What the encoder writes for the fields of a key, and that the decoder reads it back.\<close>

lemma packed_key_spec:
  assumes "list_all encodable fvs"
  obtains packed where "pack_fields fvs [] 0 = ok packed" and "length packed = (fbits fvs + 7) div 8"
    and "be_nat packed = fpack 0 fvs * 2 ^ (8 * length packed - fbits fvs)"
    and "read_fields (map fst fvs) packed 0 = ok (map snd fvs)"
proof -
  have "holds_bits [] 0 0" by (simp add: holds_bits_def)
  from pack_fields_holds [OF assms this] obtain p where p: "pack_fields fvs [] 0 = ok p" "holds_bits p (fbits fvs) (fpack 0 fvs)"
    by auto
  then have l: "length p = (fbits fvs + 7) div 8" "be_nat p = fpack 0 fvs * 2 ^ (8 * length p - fbits fvs)"
    by (simp_all add: holds_bits_def)
  have "read_fields (map fst fvs) p 0 = ok (map snd fvs)"
    by (rule read_fields_ok [OF assms l(2)]) (use l(1) in simp)
  then show ?thesis using that p(1) l by blast
qed

section \<open>Packed order\<close>

definition cmp :: "nat \<Rightarrow> nat \<Rightarrow> ordering" where
  "cmp a b = (if a < b then Less else if b < a then Greater else Equal)"

fun compare_fields :: "u64 list \<Rightarrow> u64 list \<Rightarrow> ordering" where
  "compare_fields (a # as) (b # bs) = (if a < b then Less else if b < a then Greater else compare_fields as bs)"
| "compare_fields as bs = cmp (length as) (length bs)"

lemma cmp_radix:
  assumes "x < M" and "y < M"
  shows "cmp (a * M + x) (b * M + y) = (if a < b then Less else if b < a then Greater else cmp x y)"
proof -
  have less: "p * M + u < q * M + v" if "p < q" "u < M" for p q u v
  proof -
    have "Suc p * M \<le> q * M" using that(1) by (intro mult_le_mono1) simp
    then show ?thesis using that(2) by simp
  qed
  show ?thesis using less [of a b x y] less [of b a y x] assms by (auto simp: cmp_def)
qed

lemma compare_packed_cmp: "length a = length b \<Longrightarrow> compare_packed_keys a b = cmp (be_nat a) (be_nat b)"
proof (induction a b rule: compare_packed_keys.induct)
  case (4 a as b bs)
  then show ?case
    using cmp_radix [OF be_nat_less [of as], of "be_nat bs" "unat a" "unat b"] be_nat_less [of bs]
    by (simp add: be_nat_Cons word_less_nat_alt)
qed (simp_all add: cmp_def)

lemma cmp_mult: "0 < m \<Longrightarrow> cmp (a * m) (b * m) = cmp a b"
  by (simp add: cmp_def)

lemma cmp_fpack:
  assumes "length us = length fs" and "length vs = length fs" and "list_all encodable (zip fs us)" and "list_all encodable (zip fs vs)"
    and "list_all2 (\<lambda>f u. ff_base f \<le> u) fs us" and "list_all2 (\<lambda>f v. ff_base f \<le> v) fs vs"
  shows "cmp (fpack 0 (zip fs us)) (fpack 0 (zip fs vs)) = compare_fields us vs"
  using assms
proof (induction fs arbitrary: us vs)
  case (Cons f fs)
  obtain u us' v vs' where uv: "us = u # us'" "vs = v # vs'" using Cons.prems(1,2) by (auto simp: length_Suc_conv)
  have eu: "list_all encodable (zip fs us')" and ev: "list_all encodable (zip fs vs')" using Cons.prems uv by simp_all
  have fb: "fbits (zip fs us') = data_bits_per_key fs" "fbits (zip fs vs') = data_bits_per_key fs"
    using Cons.prems uv by (simp_all add: fbits_eq)
  have du: "fdelta f u = u - ff_base f" and dv: "fdelta f v = v - ff_base f" and b: "ff_base f \<le> u" "ff_base f \<le> v"
    using Cons.prems uv by (simp_all add: encodable_def fdelta_ge)
  have IH: "cmp (fpack 0 (zip fs us')) (fpack 0 (zip fs vs')) = compare_fields us' vs'"
    using Cons.IH Cons.prems uv by simp
  have "cmp (fpack 0 (zip (f # fs) us)) (fpack 0 (zip (f # fs) vs)) =
      (if fdelta f u < fdelta f v then Less else if fdelta f v < fdelta f u then Greater else compare_fields us' vs')"
    unfolding uv using cmp_radix [OF fpack_less [OF eu] fpack_less [OF ev, unfolded fb, folded fb(1)], of "fdelta f u" "fdelta f v"] IH
      fpack_shift [of "fdelta f u" "zip fs us'"] fpack_shift [of "fdelta f v" "zip fs vs'"] fb by simp
  then show ?case using du dv b uv by auto
qed (simp add: cmp_def)

section \<open>Varints\<close>

lemma or_shift_add:
  fixes a :: nat
  assumes "a < 2 ^ s"
  shows "a OR push_bit s c = a + c * 2 ^ s"
proof -
  have "\<not> bit a n" if "s \<le> n" for n
  proof -
    have "(2 :: nat) ^ s \<le> 2 ^ n" using that by (intro power_increasing) simp_all
    then have "a < 2 ^ n" using assms by linarith
    then show ?thesis by (simp add: bit_iff_odd)
  qed
  then have "a + push_bit s c = a OR push_bit s c" by (intro disjunctive_add) (auto simp: bit_push_bit_iff_nat not_le)
  then show ?thesis by (simp add: push_bit_eq_mult)
qed

lemma varint_bytes:
  assumes "m < 128"
  shows "unat ((word_of_nat m :: byte) AND 127) = m" and "(word_of_nat m :: byte) AND 128 = 0"
    and "unat ((word_of_nat m OR 128 :: byte) AND 127) = m" and "(word_of_nat m OR 128 :: byte) AND 128 \<noteq> 0"
proof -
  have all: "list_all (\<lambda>m. unat ((word_of_nat m :: byte) AND 127) = m \<and> (word_of_nat m :: byte) AND 128 = 0 \<and>
      unat ((word_of_nat m OR 128 :: byte) AND 127) = m \<and> (word_of_nat m OR 128 :: byte) AND 128 \<noteq> 0) [0..<128]"
    by code_simp
  have "m \<in> set [0..<128]" using assms by simp
  with all show "unat ((word_of_nat m :: byte) AND 127) = m" "(word_of_nat m :: byte) AND 128 = 0"
      "unat ((word_of_nat m OR 128 :: byte) AND 127) = m" "(word_of_nat m OR 128 :: byte) AND 128 \<noteq> 0"
    unfolding list_all_iff by blast+
qed

lemma read_write_varint:
  "acc < 2 ^ shift \<Longrightarrow> n * 2 ^ shift < 2 ^ 64 \<Longrightarrow> shift < 64 \<Longrightarrow>
    read_varint_from (write_varint_u64 n @ rest) shift acc = ok (acc + n * 2 ^ shift, rest)"
proof (induction n arbitrary: acc shift rule: write_varint_u64.induct)
  case (1 n)
  have m: "n mod 128 < 128" by simp
  note vb = varint_bytes [OF m]
  have acc1: "acc OR push_bit shift (n mod 128) = acc + n mod 128 * 2 ^ shift" by (rule or_shift_add [OF 1(2)])
  have top: "n < 2" if "shift = 63" using 1(3) that by simp
  show ?case
  proof (cases "n div 128 = 0")
    case True
    then have "n mod 128 = n" by (metis div_mult_mod_eq add_0 mult_0)
    then show ?thesis using True vb(1,2) acc1 top 1(4) by (subst write_varint_u64.simps) (auto simp: Let_def)
  next
    case False
    have e: "n div 128 * 2 ^ (shift + 7) + n mod 128 * 2 ^ shift = n * 2 ^ shift"
    proof -
      have "q * 2 ^ (shift + 7) + r * 2 ^ shift = (q * 128 + r) * 2 ^ shift" for q r :: nat by (simp add: power_add algebra_simps)
      from this [of "n div 128" "n mod 128"] show ?thesis by (simp only: div_mult_mod_eq)
    qed
    have "2 ^ (shift + 7) \<le> n div 128 * 2 ^ (shift + 7)" using False by simp
    also have "\<dots> \<le> n * 2 ^ shift" using e by simp
    finally have "(2 :: nat) ^ (shift + 7) < 2 ^ 64" using 1(3) by linarith
    then have s: "shift + 7 < 64" by (rule power_less_imp_less_exp [rotated]) simp
    have a: "acc + n mod 128 * 2 ^ shift < 2 ^ (shift + 7)"
    proof -
      have "acc + n mod 128 * 2 ^ shift < Suc (n mod 128) * 2 ^ shift" using 1(2) by simp
      also have "\<dots> \<le> 128 * 2 ^ shift" using m by (intro mult_le_mono1) linarith
      finally show ?thesis by (simp add: power_add mult.commute)
    qed
    have "read_varint_from (write_varint_u64 (n div 128) @ rest) (shift + 7) (acc + n mod 128 * 2 ^ shift) =
        ok (acc + n mod 128 * 2 ^ shift + n div 128 * 2 ^ (shift + 7), rest)"
      using e 1(3) by (intro 1(1) [OF refl refl False a _ s]) linarith
    then show ?thesis using False vb(3,4) acc1 s e by (subst write_varint_u64.simps) (simp add: Let_def add.assoc)
  qed
qed

section \<open>Format selection\<close>

lemma bit_len_greater: "n < 2 ^ bit_len n"
proof (induction n rule: bit_len.induct)
  case (1 n)
  show ?case
  proof (cases "n = 0")
    case False
    have "Suc (n div 2) \<le> 2 ^ bit_len (n div 2)" using 1 False by simp
    then show ?thesis using False by (subst bit_len.simps) simp
  qed (simp add: bit_len.simps)
qed

lemma bit_len_le: "n < 2 ^ m \<Longrightarrow> bit_len n \<le> m"
proof (induction m arbitrary: n)
  case (Suc m)
  show ?case
  proof (cases "n = 0")
    case False
    have "n div 2 < 2 ^ m" using Suc.prems by simp
    then show ?thesis using Suc.IH False by (subst bit_len.simps) simp
  qed (simp add: bit_len.simps)
qed (simp add: bit_len.simps)

lemma fold_min_le: "fold min xs (a :: nat) \<le> a" and fold_min_mem: "x \<in> set xs \<Longrightarrow> fold min xs (a :: nat) \<le> x"
proof -
  show le: "fold min xs a \<le> a" for xs and a :: nat
  proof (induction xs arbitrary: a)
    case (Cons y ys)
    then show ?case using order_trans [OF Cons.IH min.cobounded2] by simp
  qed simp
  show "x \<in> set xs \<Longrightarrow> fold min xs a \<le> x"
  proof (induction xs arbitrary: a)
    case (Cons y ys)
    then show ?case using order_trans [OF le min.cobounded1] by auto
  qed simp
qed

lemma fold_max_mem: "fold max xs (a :: nat) \<in> insert a (set xs)"
proof (induction xs arbitrary: a)
  case (Cons y ys)
  then show ?case using Cons.IH [of "max y a"] by (auto simp: max_def split: if_splits)
qed simp

lemma select_field_fits:
  assumes "lo \<le> u" and "u \<le> hi" and "hi < 2 ^ 64"
  shows "encodable (select_field True lo hi hint, u)" and "ff_base (select_field True lo hi hint) = lo"
    and "field_format_ok (select_field True lo hi hint)"
proof -
  let ?f = "select_field True lo hi hint"
  show b: "ff_base ?f = lo" by (simp add: select_field_def Let_def split: prod.splits if_splits)
  have w: "ff_bit_width ?f = (if lo = hi then 0 else bit_len (hi - lo))"
    by (simp add: select_field_def Let_def split: prod.splits if_splits)
  have le: "ff_bit_width ?f \<le> 64" using bit_len_le [of "hi - lo" 64] assms(3) w by simp
  have "u - lo < 2 ^ ff_bit_width ?f" using bit_len_greater [of "hi - lo"] assms(1,2) w by (auto intro: le_less_trans [of "u - lo" "hi - lo"])
  then show "encodable (?f, u)" using b le assms fdelta_ge [of ?f u] by (simp add: encodable_def)
  show "field_format_ok ?f" using b le assms
    by (simp add: field_format_ok_def select_field_def to_flags_def FIELD_FORMAT_FLAG_SIGNED_def FIELD_FORMAT_FLAG_MSB_FIRST_def Let_def split: prod.splits if_splits)
qed

lemma common_prefix_spec:
  assumes "v \<in> set vs"
  shows "common_prefix_len vs \<le> length v" and "take (common_prefix_len vs) v = take (common_prefix_len vs) (hd vs)"
    and "common_prefix_len vs < 2 ^ 8"
proof -
  obtain first others where vs: "vs = first # others" using assms by (cases vs) auto
  define m where "m = min (fold min (map length others) (length first)) 255"
  define P where "P = (\<lambda>j. list_all (\<lambda>v. v ! j = first ! j) others)"
  have n: "common_prefix_len vs = length (takeWhile P [0..<m])" by (simp add: vs common_prefix_len_def m_def P_def Let_def)
  have le: "common_prefix_len vs \<le> m" unfolding n using length_takeWhile_le [of P "[0..<m]"] by simp
  have mv: "m \<le> length v"
    using assms fold_min_le [of "map length others" "length first"] fold_min_mem [of "length v" "map length others" "length first"]
    by (auto simp: vs m_def)
  show "common_prefix_len vs < 2 ^ 8" using le by (simp add: m_def)
  show "common_prefix_len vs \<le> length v" using le mv by simp
  have mf: "m \<le> length first" using fold_min_le [of "map length others" "length first"] by (simp add: m_def)
  have "v ! j = first ! j" if "j < common_prefix_len vs" for j
  proof -
    have "takeWhile P [0..<m] ! j = j" using that le unfolding n by (simp add: takeWhile_nth)
    then have "P j" using that nth_mem [of j "takeWhile P [0..<m]"] set_takeWhileD [of j P "[0..<m]"] unfolding n by auto
    then show ?thesis using assms vs by (auto simp: P_def list_all_iff)
  qed
  then show "take (common_prefix_len vs) v = take (common_prefix_len vs) (hd vs)"
    using le mv mf by (intro nth_equalityI) (simp_all add: vs)
qed

section \<open>Descriptors\<close>

lemma field_format_roundtrip:
  "field_format_ok f \<Longrightarrow> length (field_format_bytes f) = 16 \<and> field_format_of (field_format_bytes f) = f"
  by (simp add: field_format_ok_def field_format_bytes_def field_format_of_def get_le_def bslice_def)

lemma key_format_roundtrip:
  "run_key_format_ok h \<Longrightarrow> length (key_format_bytes h) = 8 \<and> key_format_of (key_format_bytes h) = h"
  by (simp add: run_key_format_ok_def key_format_bytes_def key_format_of_def get_le_def bslice_def)

lemma field_formats_roundtrip:
  "list_all field_format_ok fs \<Longrightarrow> field_formats_of (length fs) (concat (map field_format_bytes fs)) = fs"
  by (induction fs) (simp_all add: field_format_roundtrip)

lemma length_field_formats: "list_all field_format_ok fs \<Longrightarrow> length (concat (map field_format_bytes fs)) = 16 * length fs"
  by (induction fs) (simp_all add: field_format_roundtrip)

lemma format_roundtrip:
  assumes "run_key_format_ok head" and "list_all field_format_ok fs" and "kf_nr_fields head = length fs"
    and "kf_common_value_prefix head = length pre"
  shows "format_parse (format_serialise head fs pre @ rest) = ok (head, fs, pre)"
    and "length (format_serialise head fs pre) = format_total_size head"
proof -
  note k = key_format_roundtrip [OF assms(1)] and l = length_field_formats [OF assms(2)] and f = field_formats_roundtrip [OF assms(2)]
  show len: "length (format_serialise head fs pre) = format_total_size head"
    using k l assms(3,4) by (simp add: format_serialise_def format_total_size_def)
  have "take 8 (format_serialise head fs pre @ rest) = key_format_bytes head" using k by (simp add: format_serialise_def)
  moreover have "bslice 8 (length fs * 16) (format_serialise head fs pre @ rest) = concat (map field_format_bytes fs)"
    using k l by (simp add: format_serialise_def bslice_def)
  moreover have "bslice (8 + length fs * 16) (length pre) (format_serialise head fs pre @ rest) = pre"
    using k l by (simp add: format_serialise_def bslice_def)
  ultimately show "format_parse (format_serialise head fs pre @ rest) = ok (head, fs, pre)"
    using k f len assms(3,4) by (simp add: format_parse_def format_total_size_def Let_def)
qed

section \<open>The contract of packable keys\<close>

locale packable_key =
  fixes pk :: "'k packable" and kvalid :: "'k \<Rightarrow> bool"
  assumes nr: "0 < pk_nr_fields pk" "pk_nr_fields pk \<le> 8"
    and header: "pk_key_header_bytes pk \<le> 4"
    and hints: "length (pk_field_hints pk) = pk_nr_fields pk"
    and vals: "kvalid k \<Longrightarrow> length (pk_field_values pk k) = pk_nr_fields pk"
    and vals_range: "kvalid k \<Longrightarrow> v \<in> set (pk_field_values pk k) \<Longrightarrow> v < 2 ^ 64"
    and comps: "kvalid k \<Longrightarrow>
      pk_from_components pk (pk_key_header pk k mod 256 ^ pk_key_header_bytes pk) (pk_field_values pk k) = ok k"
begin

lemma select_bounds:
  assumes "(k, v) \<in> set entries" and "\<forall>(k, v)\<in>set entries. kvalid k" and "i < pk_nr_fields pk"
  shows "field_mins pk entries ! i \<le> pk_field_values pk k ! i" and "pk_field_values pk k ! i \<le> field_maxs pk entries ! i"
    and "field_maxs pk entries ! i < 2 ^ 64"
proof -
  have m: "pk_field_values pk k ! i \<in> set (map (\<lambda>(k, _). pk_field_values pk k ! i) entries)" using assms(1) by force
  have ne: "entries \<noteq> []" using assms(1) by auto
  show "field_mins pk entries ! i \<le> pk_field_values pk k ! i"
    using fold_min_mem [OF m] ne assms(3) by (simp add: field_mins_def)
  show "pk_field_values pk k ! i \<le> field_maxs pk entries ! i"
    using fold_max_ge(2) [OF m] assms(3) by (simp add: field_maxs_def)
  have "x < 2 ^ 64" if "x \<in> set (map (\<lambda>(k, _). pk_field_values pk k ! i) entries)" for x
    using that assms(2,3) vals vals_range by (fastforce simp: nth_mem)
  then have "fold max (map (\<lambda>(k, _). pk_field_values pk k ! i) entries) 0 < 2 ^ 64"
    using fold_max_mem [of "map (\<lambda>(k, _). pk_field_values pk k ! i) entries" 0] by (metis insert_iff zero_less_numeral zero_less_power)
  then show "field_maxs pk entries ! i < 2 ^ 64" using assms(3) by (simp add: field_maxs_def)
qed

text \<open>The format that is selected has the descriptor in range and takes every entry it was selected for.\<close>

lemma select_format_spec:
  assumes ne: "entries \<noteq> []" and ok: "\<forall>(k, v)\<in>set entries. kvalid k"
  obtains head ffs where "select_format_with_hint pk entries force = ok (head, ffs, take (kf_common_value_prefix head) (snd (hd entries)))"
    and "run_key_format_ok head" and "list_all field_format_ok ffs" and "length ffs = pk_nr_fields pk"
    and "kf_nr_fields head = pk_nr_fields pk" and "kf_key_header_bytes head = pk_key_header_bytes pk"
    and "kf_common_value_prefix head = common_prefix_len (map snd entries)"
    and "kf_value_size_kind head = select_value_size_kind force entries"
    and "\<And>k v. (k, v) \<in> set entries \<Longrightarrow> list_all encodable (zip ffs (pk_field_values pk k))"
    and "\<And>k v. (k, v) \<in> set entries \<Longrightarrow> list_all2 (\<lambda>f u. ff_base f \<le> u) ffs (pk_field_values pk k)"
proof -
  let ?f = "\<lambda>i. select_field True (field_mins pk entries ! i) (field_maxs pk entries ! i) (pk_field_hints pk ! i)"
  define ffs where "ffs = map ?f [0..<pk_nr_fields pk]"
  define head where "head = \<lparr>kf_nr_fields = pk_nr_fields pk, kf_key_header_bytes = pk_key_header_bytes pk,
    kf_common_value_prefix = common_prefix_len (map snd entries), kf_value_size_kind = select_value_size_kind force entries,
    kf_sum_bit_width = pk_key_header_bytes pk * 8 + sum_list (map ff_bit_width ffs)\<rparr>"
  obtain k0 v0 where kv: "(k0, v0) \<in> set entries" using ne by (cases entries) auto
  have fit: "encodable (?f i, pk_field_values pk k ! i)" "ff_base (?f i) = field_mins pk entries ! i" "field_format_ok (?f i)"
    if "(k, v) \<in> set entries" "i < pk_nr_fields pk" for k v i
    using select_field_fits [OF select_bounds [OF that(1) ok that(2)]] by auto
  have s: "select_format_with_hint pk entries force = ok (head, ffs, take (kf_common_value_prefix head) (snd (hd entries)))"
    using nr header hints ne by (simp add: select_format_with_hint_def head_def ffs_def Let_def)
  have fok: "list_all field_format_ok ffs" using fit(3) [OF kv] by (auto simp: ffs_def list_all_iff)
  have enc: "list_all encodable (zip ffs (pk_field_values pk k))" if "(k, v) \<in> set entries" for k v
  proof -
    have "length (pk_field_values pk k) = pk_nr_fields pk" using ok that vals by auto
    then show ?thesis using fit(1) [OF that] by (auto simp: list_all_iff set_zip ffs_def)
  qed
  have base: "list_all2 (\<lambda>f u. ff_base f \<le> u) ffs (pk_field_values pk k)" if "(k, v) \<in> set entries" for k v
  proof -
    have "length (pk_field_values pk k) = pk_nr_fields pk" using ok that vals by auto
    then show ?thesis using fit(2) [OF that] select_bounds(1) [OF that ok] by (auto simp: list_all2_conv_all_nth ffs_def)
  qed
  have "sum_list (map ff_bit_width ffs) \<le> 8 * 64"
  proof -
    have "\<forall>f\<in>set ffs. ff_bit_width f \<le> 64" using fit(1) [OF kv] by (auto simp: ffs_def encodable_def)
    then have "sum_list (map ff_bit_width ffs) \<le> length ffs * 64" by (induction ffs) auto
    then show ?thesis using nr(2) by (simp add: ffs_def)
  qed
  moreover have "common_prefix_len (map snd entries) < 2 ^ 8" using common_prefix_spec(3) [of v0 "map snd entries"] kv by force
  ultimately have "run_key_format_ok head"
    using nr header by (auto simp: head_def run_key_format_ok_def select_value_size_kind_def VALUE_SIZE_KIND_FIXED_def VALUE_SIZE_KIND_VARINT_def)
  with that [OF s _ fok _ _ _ _ _ enc base] show ?thesis by (simp add: head_def ffs_def)
qed

end

section \<open>Entries and runs\<close>

lemma header_le_eq: "n \<le> 4 \<Longrightarrow> header_le n h = ok (le_bytes n h)"
proof -
  have "le_bytes n h = map (\<lambda>b. word_of_nat (h div 256 ^ b)) [0..<n]"
  proof (induction n arbitrary: h)
    case (Suc n)
    have "map (\<lambda>b. word_of_nat (h div 256 ^ b) :: byte) [0..<Suc n] =
        word_of_nat h # map (\<lambda>b. word_of_nat (h div 256 div 256 ^ b)) [0..<n]"
      by (simp add: map_upt_Suc div_mult2_eq del: upt_Suc)
    then show ?case using Suc.IH [of "h div 256"] by (simp add: le_bytes.simps)
  qed simp
  moreover have "drop_bit (b * 8) h = h div 256 ^ b" for b
    by (simp add: drop_bit_eq_div power_mult mult.commute [of b])
  ultimately show "n \<le> 4 \<Longrightarrow> header_le n h = ok (le_bytes n h)" by (simp add: header_le_def)
qed

lemma rcollect_ok: "(\<And>x. x \<in> set xs \<Longrightarrow> f x = ok (g x)) \<Longrightarrow> rcollect f xs = ok (map g xs)"
  by (induction xs) simp_all

lemma check_prefixes_ok:
  "(\<And>v. v \<in> set vs \<Longrightarrow> length pre \<le> length v \<and> take (length pre) v = pre) \<Longrightarrow> check_prefixes pre vs = ok ()"
  unfolding check_prefixes_def by (subst rcollect_ok [where g = "\<lambda>_. ()"]) (auto simp: not_less)

text \<open>The descriptor \<open>(head, ffs, pre)\<close> takes the entry; \<open>value_size\<close> is what the caller of the decoder passes.\<close>

definition takes_entry ::
  "'k packable \<Rightarrow> run_key_format \<Rightarrow> field_format list \<Rightarrow> byte list \<Rightarrow> nat \<Rightarrow> 'k \<times> byte list \<Rightarrow> bool" where
  "takes_entry pk head ffs pre value_size kv = (case kv of (k, v) \<Rightarrow>
     list_all encodable (zip ffs (pk_field_values pk k)) \<and> length (pk_field_values pk k) = length ffs \<and>
     length pre \<le> length v \<and> take (length pre) v = pre \<and> length v < 2 ^ 64 \<and>
     (kf_value_size_kind head = VALUE_SIZE_KIND_FIXED \<longrightarrow> length v = value_size))"

definition head_for :: "'k packable \<Rightarrow> run_key_format \<Rightarrow> field_format list \<Rightarrow> byte list \<Rightarrow> bool" where
  "head_for pk head ffs pre \<longleftrightarrow> kf_key_header_bytes head = pk_key_header_bytes pk \<and> length ffs = pk_nr_fields pk \<and>
     kf_nr_fields head = length ffs \<and> kf_common_value_prefix head = length pre \<and>
     kf_value_size_kind head \<in> {VALUE_SIZE_KIND_FIXED, VALUE_SIZE_KIND_VARINT}"

context packable_key
begin

lemma entry_roundtrip:
  assumes h: "head_for pk head ffs pre" and k: "kvalid k" and t: "takes_entry pk head ffs pre value_size (k, v)"
  obtains bs where "encode_entry pk head ffs (k, v) = ok bs"
    and "kf_value_size_kind head = VALUE_SIZE_KIND_FIXED \<Longrightarrow> length bs = bytes_per_key head ffs + (value_size - kf_common_value_prefix head)"
    and "\<And>rest len. length bs + length rest \<le> len \<Longrightarrow> len < 2 ^ 64 \<Longrightarrow>
      decode_entry pk head ffs pre value_size len (bs @ rest) = ok ((k, v), rest)"
proof -
  let ?vs = "pk_field_values pk k" and ?hb = "pk_key_header_bytes pk" and ?tail = "drop (length pre) v"
  have z: "map fst (zip ffs ?vs) = ffs" "map snd (zip ffs ?vs) = ?vs" using t by (simp_all add: takes_entry_def)
  have "list_all encodable (zip ffs ?vs)" using t by (simp add: takes_entry_def)
  from packed_key_spec [OF this] obtain packed where p: "pack_fields (zip ffs ?vs) [] 0 = ok packed"
      "length packed = (data_bits_per_key ffs + 7) div 8" "read_fields ffs packed 0 = ok ?vs"
    unfolding z fbits_eq by metis
  have hb: "kf_key_header_bytes head = ?hb" "kf_common_value_prefix head = length pre" using h by (simp_all add: head_for_def)
  have body: "bytes_per_key head ffs = ?hb + length packed" by (simp add: bytes_per_key_def hb p(2))
  let ?len = "if kf_value_size_kind head = VALUE_SIZE_KIND_VARINT then write_varint_u64 (length ?tail) else []"
  let ?bs = "le_bytes ?hb (pk_key_header pk k) @ packed @ ?len @ ?tail"
  have e: "encode_entry pk head ffs (k, v) = ok ?bs"
    using header p(1) by (simp add: encode_entry_def hb body header_le_eq Let_def)
  have fv: "VALUE_SIZE_KIND_VARINT \<noteq> VALUE_SIZE_KIND_FIXED" by (simp add: VALUE_SIZE_KIND_FIXED_def VALUE_SIZE_KIND_VARINT_def)
  have fixed: "length ?bs = bytes_per_key head ffs + (value_size - kf_common_value_prefix head)"
    if "kf_value_size_kind head = VALUE_SIZE_KIND_FIXED"
    using that t fv by (auto simp: body hb takes_entry_def)
  have "decode_entry pk head ffs pre value_size len (?bs @ rest) = ok ((k, v), rest)" if len: "length ?bs + length rest \<le> len" "len < 2 ^ 64" for rest len
  proof -
    have d: "drop (bytes_per_key head ffs) (?bs @ rest) = ?len @ ?tail @ rest" "take ?hb (?bs @ rest) = le_bytes ?hb (pk_key_header pk k)"
        "bslice ?hb (bytes_per_key head ffs - ?hb) (?bs @ rest) = packed"
      by (simp_all add: body bslice_def)
    have tl: "(if kf_value_size_kind head = VALUE_SIZE_KIND_FIXED then ok (value_size - length pre, ?len @ ?tail @ rest)
        else read_varint_u64 (?len @ ?tail @ rest)) = ok (length ?tail, ?tail @ rest)"
    proof (cases "kf_value_size_kind head = VALUE_SIZE_KIND_FIXED")
      case True
      then show ?thesis using t fv by (simp add: takes_entry_def)
    next
      case False
      have "length ?tail < 2 ^ 64" using t by (auto simp: takes_entry_def)
      then show ?thesis using False h read_write_varint [of 0 0 "length ?tail" "?tail @ rest"] by (auto simp: head_for_def read_varint_u64_def)
    qed
    have ov: "\<not> 2 ^ 64 \<le> len - length (?tail @ rest) + length ?tail" using len by simp
    have v: "pre @ ?tail = v" using t append_take_drop_id [of "length pre" v] by (simp add: takes_entry_def)
    have nb: "\<not> length (?bs @ rest) < bytes_per_key head ffs" and nh: "\<not> 4 < ?hb" using body header by simp_all
    have "decode_entry pk head ffs pre value_size len (?bs @ rest) =
        rbind (ok (length ?tail, ?tail @ rest)) (\<lambda>(tail_len, rest).
          if len - length rest + tail_len \<ge> 2 ^ 64 then Inl Panic
          else if tail_len > length rest then err (Malformed ''decode: value tail truncated'')
          else rbind (pk_from_components pk (le_nat (le_bytes ?hb (pk_key_header pk k))) ?vs) (\<lambda>key.
            ok ((key, pre @ take tail_len rest), drop tail_len rest)))"
      by (simp only: decode_entry_def hb Let_def nb nh if_False d p(3) rbind_Inr tl)
    also have "\<dots> = ok ((k, v), rest)"
      using ov comps [OF k] v by (simp add: le_nat_le_bytes_mod)
    finally show ?thesis .
  qed
  then show ?thesis using that [OF e fixed] by blast
qed

lemma entries_roundtrip:
  assumes h: "head_for pk head ffs pre"
    and "\<forall>(k, v)\<in>set entries. kvalid k \<and> takes_entry pk head ffs pre value_size (k, v)"
  shows "\<exists>parts. rcollect (encode_entry pk head ffs) entries = ok parts \<and>
    (kf_value_size_kind head = VALUE_SIZE_KIND_FIXED \<longrightarrow>
      length (concat parts) = length entries * (bytes_per_key head ffs + (value_size - kf_common_value_prefix head))) \<and>
    (\<forall>rest len. length (concat parts) + length rest \<le> len \<longrightarrow> len < 2 ^ 64 \<longrightarrow>
      decode_entries pk head ffs pre value_size len (length entries) (concat parts @ rest) = ok entries)"
  using assms(2)
proof (induction entries)
  case (Cons kv entries)
  obtain k v where kv: "kv = (k, v)" by fastforce
  have k: "kvalid k" and t: "takes_entry pk head ffs pre value_size (k, v)" using Cons.prems kv by auto
  obtain bs where bs: "encode_entry pk head ffs (k, v) = ok bs"
      "kf_value_size_kind head = VALUE_SIZE_KIND_FIXED \<Longrightarrow> length bs = bytes_per_key head ffs + (value_size - kf_common_value_prefix head)"
      "\<And>rest len. length bs + length rest \<le> len \<Longrightarrow> len < 2 ^ 64 \<Longrightarrow>
        decode_entry pk head ffs pre value_size len (bs @ rest) = ok ((k, v), rest)"
    using entry_roundtrip [OF h k t] by blast
  obtain parts where p: "rcollect (encode_entry pk head ffs) entries = ok parts"
      "kf_value_size_kind head = VALUE_SIZE_KIND_FIXED \<longrightarrow>
        length (concat parts) = length entries * (bytes_per_key head ffs + (value_size - kf_common_value_prefix head))"
      "\<And>rest len. length (concat parts) + length rest \<le> len \<Longrightarrow> len < 2 ^ 64 \<Longrightarrow>
        decode_entries pk head ffs pre value_size len (length entries) (concat parts @ rest) = ok entries"
    using Cons by auto
  have "rcollect (encode_entry pk head ffs) (kv # entries) = ok (bs # parts)" using bs(1) p(1) kv by simp
  moreover have "decode_entries pk head ffs pre value_size len (length (kv # entries)) (concat (bs # parts) @ rest) = ok (kv # entries)"
    if "length (concat (bs # parts)) + length rest \<le> len" "len < 2 ^ 64" for rest len
    using that bs(3) [of "concat parts @ rest" len] p(3) [of rest len] kv by simp
  moreover have "kf_value_size_kind head = VALUE_SIZE_KIND_FIXED \<longrightarrow> length (concat (bs # parts)) =
      length (kv # entries) * (bytes_per_key head ffs + (value_size - kf_common_value_prefix head))"
    using bs(2) p(2) by simp
  ultimately show ?case by blast
qed simp

lemma select_empty:
  obtains head ffs where "select_format_with_hint pk [] force = ok (head, ffs, [])" and "run_key_format_ok head"
    and "list_all field_format_ok ffs" and "head_for pk head ffs []" and "kf_value_size_kind head = VALUE_SIZE_KIND_FIXED"
proof -
  let ?f = "\<lambda>i. select_field False (field_mins pk [] ! i) (field_maxs pk [] ! i) (pk_field_hints pk ! i)"
  define ffs where "ffs = map ?f [0..<pk_nr_fields pk]"
  have w: "ff_bit_width f = 0 \<and> field_format_ok f" if "f \<in> set ffs" for f
    using that by (auto simp: ffs_def select_field_def field_format_ok_def to_flags_def FIELD_FORMAT_FLAG_SIGNED_def FIELD_FORMAT_FLAG_MSB_FIRST_def)
  have sum: "sum_list (map ff_bit_width ffs) = 0" using w by simp
  define head where "head = \<lparr>kf_nr_fields = pk_nr_fields pk, kf_key_header_bytes = pk_key_header_bytes pk,
    kf_common_value_prefix = 0, kf_value_size_kind = VALUE_SIZE_KIND_FIXED, kf_sum_bit_width = pk_key_header_bytes pk * 8\<rparr>"
  have "select_format_with_hint pk [] force = ok (head, ffs, [])"
    using nr header hints sum by (simp add: select_format_with_hint_def common_prefix_len_def select_value_size_kind_def head_def ffs_def Let_def)
  moreover have "run_key_format_ok head" using nr header by (simp add: head_def run_key_format_ok_def VALUE_SIZE_KIND_FIXED_def)
  moreover have "list_all field_format_ok ffs" using w by (simp add: list_all_iff)
  moreover have "head_for pk head ffs []" by (simp add: head_for_def head_def ffs_def)
  ultimately show ?thesis using that by (simp add: head_def)
qed

lemma decode_run_spec:
  assumes h: "head_for pk head ffs pre" and d: "run_key_format_ok head" "list_all field_format_ok ffs"
    and fixed: "kf_value_size_kind head = VALUE_SIZE_KIND_FIXED \<Longrightarrow> kf_common_value_prefix head \<le> value_size \<and>
      length body = n * (bytes_per_key head ffs + (value_size - kf_common_value_prefix head))"
    and len: "length body < 2 ^ 64" and dec: "decode_entries pk head ffs pre value_size (length body) n body = ok kvs"
  shows "decode_packed_run pk (format_serialise head ffs pre @ body) value_size n = ok (kvs, head, ffs)"
proof -
  have hh: "kf_nr_fields head = length ffs" "kf_common_value_prefix head = length pre" "length ffs = pk_nr_fields pk"
      "kf_value_size_kind head = VALUE_SIZE_KIND_FIXED \<or> kf_value_size_kind head = VALUE_SIZE_KIND_VARINT"
    using h by (simp_all add: head_for_def)
  note f = format_roundtrip [OF d hh(1,2)]
  have b: "drop (format_total_size head) (format_serialise head ffs pre @ body) = body" using f(2) by simp
  show ?thesis
    using hh fixed len dec f(1) b by (auto simp: decode_packed_run_def Let_def)
qed

lemma run_roundtrip:
  assumes ok: "\<forall>(k, v)\<in>set entries. kvalid k \<and> length v < 2 ^ 64"
    and fixed: "select_value_size_kind force entries = VALUE_SIZE_KIND_FIXED \<Longrightarrow> \<forall>(k, v)\<in>set entries. length v = value_size"
  shows "\<exists>head ffs pre payload. select_format_with_hint pk entries force = ok (head, ffs, pre) \<and>
    encode_packed_run pk entries head ffs pre = ok payload \<and>
    (length payload < 2 ^ 64 \<longrightarrow> decode_packed_run pk payload value_size (length entries) = ok (entries, head, ffs))"
proof (cases "entries = []")
  case True
  obtain head ffs where s: "select_format_with_hint pk [] force = ok (head, ffs, [])" "run_key_format_ok head"
      "list_all field_format_ok ffs" "head_for pk head ffs []" "kf_value_size_kind head = VALUE_SIZE_KIND_FIXED"
    using select_empty by blast
  have "encode_packed_run pk [] head ffs [] = ok (format_serialise head ffs [])"
    using s(4,5) by (simp add: encode_packed_run_def head_for_def)
  moreover have "decode_packed_run pk (format_serialise head ffs [] @ []) value_size 0 = ok ([], head, ffs)"
    using s(4) by (intro decode_run_spec s) (simp_all add: head_for_def)
  ultimately show ?thesis using s(1) True by auto
next
  case False
  have kv: "\<forall>(k, v)\<in>set entries. kvalid k" using ok by auto
  obtain head ffs where s: "select_format_with_hint pk entries force = ok (head, ffs, take (kf_common_value_prefix head) (snd (hd entries)))"
      "run_key_format_ok head" "list_all field_format_ok ffs" "length ffs = pk_nr_fields pk"
      "kf_nr_fields head = pk_nr_fields pk" "kf_key_header_bytes head = pk_key_header_bytes pk"
      "kf_common_value_prefix head = common_prefix_len (map snd entries)"
      "kf_value_size_kind head = select_value_size_kind force entries"
      "\<And>k v. (k, v) \<in> set entries \<Longrightarrow> list_all encodable (zip ffs (pk_field_values pk k))"
    using select_format_spec [OF False kv, of force] by metis
  define pre where "pre = take (kf_common_value_prefix head) (snd (hd entries))"
  have hd: "snd (hd entries) \<in> set (map snd entries)" "hd (map snd entries) = snd (hd entries)" using False by (simp_all add: hd_map)
  have pl: "length pre = kf_common_value_prefix head" using common_prefix_spec(1) [OF hd(1)] s(7) by (simp add: pre_def)
  have h: "head_for pk head ffs pre"
    using s pl by (auto simp: head_for_def select_value_size_kind_def)
  have prefix: "length pre \<le> length v \<and> take (length pre) v = pre" if "(k, v) \<in> set entries" for k v
  proof -
    have "v \<in> set (map snd entries)" using that by force
    then show ?thesis using common_prefix_spec(1,2) [of v "map snd entries"] hd(2) s(7) pl by (simp add: pre_def)
  qed
  have takes: "\<forall>(k, v)\<in>set entries. kvalid k \<and> takes_entry pk head ffs pre value_size (k, v)"
  proof clarify
    fix k v assume m: "(k, v) \<in> set entries"
    then have "kvalid k" "length v < 2 ^ 64" using ok by auto
    moreover have "kf_value_size_kind head = VALUE_SIZE_KIND_FIXED \<longrightarrow> length v = value_size" using fixed s(8) m by auto
    ultimately show "kvalid k \<and> takes_entry pk head ffs pre value_size (k, v)"
      using s(4,9) m prefix [OF m] vals [of k] by (auto simp: takes_entry_def)
  qed
  obtain parts where p: "rcollect (encode_entry pk head ffs) entries = ok parts"
      "kf_value_size_kind head = VALUE_SIZE_KIND_FIXED \<Longrightarrow>
        length (concat parts) = length entries * (bytes_per_key head ffs + (value_size - kf_common_value_prefix head))"
      "length (concat parts) < 2 ^ 64 \<Longrightarrow>
        decode_entries pk head ffs pre value_size (length (concat parts)) (length entries) (concat parts) = ok entries"
    using entries_roundtrip [OF h takes] by (metis add.right_neutral append_Nil2 le_refl list.size(3))
  have "check_prefixes pre (map snd entries) = ok ()" using prefix by (intro check_prefixes_ok) auto
  moreover have "\<not> (kf_value_size_kind head = VALUE_SIZE_KIND_FIXED \<and> list_ex (\<lambda>(_, v). length v \<noteq> length (snd (hd entries))) entries)"
  proof
    assume a: "kf_value_size_kind head = VALUE_SIZE_KIND_FIXED \<and> list_ex (\<lambda>(_, v). length v \<noteq> length (snd (hd entries))) entries"
    then have all: "\<forall>(k, v)\<in>set entries. length v = value_size" using fixed s(8) by simp
    then have "length (snd (hd entries)) = value_size" using hd_in_set [OF False] by (simp add: case_prod_unfold)
    then show False using a all by (auto simp: list_ex_iff)
  qed
  ultimately have e: "encode_packed_run pk entries head ffs pre = ok (format_serialise head ffs pre @ concat parts)"
    using h p(1) False by (auto simp: encode_packed_run_def head_for_def)
  have "decode_packed_run pk (format_serialise head ffs pre @ concat parts) value_size (length entries) = ok (entries, head, ffs)"
    if "length (format_serialise head ffs pre @ concat parts) < 2 ^ 64"
  proof (rule decode_run_spec [OF h s(2,3)])
    have l: "length (concat parts) < 2 ^ 64" using that by simp
    then show "length (concat parts) < 2 ^ 64" "decode_entries pk head ffs pre value_size (length (concat parts)) (length entries) (concat parts) = ok entries"
      using p(3) by blast+
    assume k: "kf_value_size_kind head = VALUE_SIZE_KIND_FIXED"
    have "length (snd (hd entries)) = value_size" using fixed s(8) k hd_in_set [OF False] by auto
    moreover have "length pre \<le> length (snd (hd entries))" using prefix [of "fst (hd entries)" "snd (hd entries)"] False by simp
    ultimately show "kf_common_value_prefix head \<le> value_size \<and>
        length (concat parts) = length entries * (bytes_per_key head ffs + (value_size - kf_common_value_prefix head))"
      using p(2) [OF k] pl by simp
  qed
  then show ?thesis using s(1) e pre_def by blast
qed

end

section \<open>The key types of the crate\<close>

lemmas pack_impl_defs = pack_u64_def pack_u32_def pack_u64_u32_def pack_u32_u32_def

interpretation key_u64: packable_key pack_u64 "\<lambda>k. k < 2 ^ 64"
  by unfold_locales (auto simp: pack_impl_defs)

interpretation key_u32: packable_key pack_u32 "\<lambda>k. k < 2 ^ 32"
  by unfold_locales (auto simp: pack_impl_defs)

interpretation key_u64_u32: packable_key pack_u64_u32 "\<lambda>(a, b). a < 2 ^ 64 \<and> b < 2 ^ 32"
  by unfold_locales (auto simp: pack_impl_defs)

interpretation key_u32_u32: packable_key pack_u32_u32 "\<lambda>(a, b). a < 2 ^ 32 \<and> b < 2 ^ 32"
  by unfold_locales (auto simp: pack_impl_defs)

section \<open>Widening\<close>

lemma widen_field_spec:
  assumes "ff_base f < 2 ^ 64" and "v < 2 ^ 64" and "widen_field f v = ok w"
  shows "case w of None \<Rightarrow> encodable (f, v)
    | Some f' \<Rightarrow> encodable (f', v) \<and> (\<forall>u. ff_base f \<le> u \<longrightarrow> encodable (f, u) \<longrightarrow> encodable (f', u))"
proof -
  let ?w = "ff_bit_width f" and ?b = "ff_base f"
  let ?wide = "\<lambda>nb r. \<lparr>ff_bit_width = max (if r = 0 then 0 else bit_len r) ?w, ff_flags = ff_flags f, ff_pad0 = 0, ff_base = nb, ff_pad1 = 0\<rparr>"
  have w64: "?w \<le> 64" using assms(3) by (auto simp: widen_field_def Let_def split: if_splits)
  have enc: "encodable (?wide nb r, u)" if "nb \<le> u" "u < 2 ^ 64" "u - nb \<le> r" "r < 2 ^ 64" for nb r u
  proof -
    have "r < 2 ^ max (if r = 0 then 0 else bit_len r) ?w"
    proof (cases "r = 0")
      case False
      have "(2 :: nat) ^ bit_len r \<le> 2 ^ max (bit_len r) ?w" by (intro power_increasing) simp_all
      from less_le_trans [OF bit_len_greater this] show ?thesis using False by simp
    qed simp
    moreover have "fdelta (?wide nb r) u = u - nb" using fdelta_ge [of "?wide nb r" u] that(1,2) by simp
    ultimately show ?thesis using that w64 bit_len_le [of r 64] by (simp add: encodable_def)
  qed
  have range: "u - ?b < 2 ^ ?w" if "?b \<le> u" "encodable (f, u)" for u
    using that fdelta_ge [of f u] by (simp add: encodable_def)
  show ?thesis
  proof (cases "v < ?b")
    case True
    obtain up where up: "w = Some (?wide v (up - v))" "?b \<le> up" "up < 2 ^ 64" "\<And>u. ?b \<le> u \<Longrightarrow> u < 2 ^ 64 \<Longrightarrow> u - ?b < 2 ^ ?w \<Longrightarrow> u \<le> up"
    proof (cases "?w = 0 \<or> ?w = 64")
      case A: True
      then show ?thesis
      proof
        assume z: "?w = 0"
        then show ?thesis using that [of ?b] True assms by (auto simp: widen_field_def Let_def)
      next
        assume z: "?w = 64"
        then show ?thesis using that [of "2 ^ 64 - 1"] True assms by (auto simp: widen_field_def Let_def)
      qed
    next
      case False
      have "?b + 2 ^ ?w < 2 ^ 64 \<and> w = Some (?wide v (?b + 2 ^ ?w - 1 - v))"
        using assms(3) True False w64 by (auto simp: widen_field_def Let_def split: if_splits)
      then show ?thesis using that [of "?b + 2 ^ ?w - 1"] by auto
    qed
    have "encodable (?wide v (up - v), v)" using enc [of v v "up - v"] assms(2) up(3) by simp
    moreover have "encodable (?wide v (up - v), u)" if u: "?b \<le> u" "encodable (f, u)" for u
    proof -
      have ub: "u < 2 ^ 64" using u(2) by (simp add: encodable_def)
      have "u \<le> up" by (rule up(4) [OF u(1) ub range [OF u]])
      then show ?thesis using enc [of v u "up - v"] ub True u(1) up(3) by (simp add: diff_le_mono)
    qed
    ultimately show ?thesis using up(1) by simp
  next
    case False
    define cur where "cur = (if ?w = 0 then 0 else if ?w = 64 then 2 ^ 64 - 1 else 2 ^ ?w - 1 :: nat)"
    have cur: "x \<le> cur \<longleftrightarrow> x < 2 ^ ?w" if "x < 2 ^ 64" for x
    proof -
      have "(0 :: nat) < 2 ^ ?w" by simp
      then have "x < 2 ^ ?w \<longleftrightarrow> x \<le> 2 ^ ?w - 1" by linarith
      then show ?thesis by (simp add: cur_def)
    qed
    have d: "v - ?b < 2 ^ 64" using assms(2) by linarith
    have wd: "w = (if v - ?b > cur then if bit_len (v - ?b) > ?w then Some (?wide ?b (v - ?b)) else None else None)"
      using assms(3) False w64 unfolding cur_def widen_field_def Let_def by (auto simp: bit_len.simps [of 0] split: if_splits)
    have pos: "bit_len (v - ?b) > ?w" if "v - ?b > cur"
    proof (rule ccontr)
      assume "\<not> ?thesis"
      then have "(2 :: nat) ^ bit_len (v - ?b) \<le> 2 ^ ?w" by (intro power_increasing) simp_all
      from less_le_trans [OF bit_len_greater this] show False using cur [OF d] that by linarith
    qed
    show ?thesis
    proof (cases "v - ?b > cur")
      case True
      have "encodable (?wide ?b (v - ?b), u)" if u: "?b \<le> u" "encodable (f, u)" for u
      proof -
        have "u < 2 ^ 64" using u(2) by (simp add: encodable_def)
        moreover have "u - ?b \<le> cur" using cur [of "u - ?b"] range [OF u] \<open>u < 2 ^ 64\<close> by linarith
        ultimately show ?thesis using enc [of ?b u "v - ?b"] u(1) True d by simp
      qed
      then show ?thesis using wd True pos [OF True] enc [of ?b v "v - ?b"] False assms(2) d by simp
    next
      case F: False
      then have "v - ?b < 2 ^ ?w" using cur [OF d] by simp
      then have "encodable (f, v)" using fdelta_ge [of f v] False assms w64 by (simp add: encodable_def)
      then show ?thesis using wd F by simp
    qed
  qed
qed

section \<open>Properties\<close>

text \<open>The packed codec is lossless: for the format selected for a run, encoding succeeds and decoding the
  payload gives the entries back, in fixed and in varint mode, for every key type that meets the contract of
  \<open>PackableKey\<close>.\<close>

theorem packed_run_roundtrip:
  assumes "packable_key pk kvalid" and "\<forall>(k, v)\<in>set entries. kvalid k \<and> length v < 2 ^ 64"
    and "select_value_size_kind force entries = VALUE_SIZE_KIND_FIXED \<Longrightarrow> \<forall>(k, v)\<in>set entries. length v = value_size"
  shows "\<exists>head ffs pre payload. select_format_with_hint pk entries force = ok (head, ffs, pre) \<and>
    encode_packed_run pk entries head ffs pre = ok payload \<and>
    (length payload < 2 ^ 64 \<longrightarrow> decode_packed_run pk payload value_size (length entries) = ok (entries, head, ffs))"
  by (rule packable_key.run_roundtrip [OF assms])

definition wit_run_entries :: "((nat \<times> nat) \<times> byte list) list" where
  "wit_run_entries = [((7, 1), [5, 6]), ((9, 0), [5, 6, 7])]"

theorem packed_run_roundtrip_witness:
  "\<exists>head ffs pre payload. select_format_with_hint pack_u64_u32 wit_run_entries False = ok (head, ffs, pre) \<and>
    encode_packed_run pack_u64_u32 wit_run_entries head ffs pre = ok payload \<and>
    (length payload < 2 ^ 64 \<longrightarrow> decode_packed_run pack_u64_u32 payload 0 2 = ok (wit_run_entries, head, ffs))"
proof -
  have k: "select_value_size_kind False wit_run_entries \<noteq> VALUE_SIZE_KIND_FIXED"
    by (simp add: select_value_size_kind_def wit_run_entries_def VALUE_SIZE_KIND_FIXED_def VALUE_SIZE_KIND_VARINT_def)
  have "\<forall>(k, v)\<in>set wit_run_entries. (case k of (a, b) \<Rightarrow> a < 2 ^ 64 \<and> b < 2 ^ 32) \<and> length v < 2 ^ 64"
    by (simp add: wit_run_entries_def)
  moreover have "length wit_run_entries = 2" by (simp add: wit_run_entries_def)
  ultimately show ?thesis using packed_run_roundtrip [OF key_u64_u32.packable_key_axioms, of wit_run_entries False 0] k by simp
qed

text \<open>C10. Packed keys compare like the keys: for two entries of a run, the byte order of the bit-packed fields
  under the selected format is the lexicographic order of their field tuples.\<close>

theorem packed_order:
  assumes "packable_key pk kvalid" and "\<forall>(k, v)\<in>set entries. kvalid k"
    and "select_format_with_hint pk entries force = ok (head, ffs, pre)" and "(k1, v1) \<in> set entries" and "(k2, v2) \<in> set entries"
  shows "\<exists>p1 p2. pack_fields (zip ffs (pk_field_values pk k1)) [] 0 = ok p1 \<and> pack_fields (zip ffs (pk_field_values pk k2)) [] 0 = ok p2 \<and>
    compare_packed_keys p1 p2 = compare_fields (pk_field_values pk k1) (pk_field_values pk k2)"
proof -
  have ne: "entries \<noteq> []" using assms(4) by auto
  obtain head' ffs' where s: "select_format_with_hint pk entries force = ok (head', ffs', take (kf_common_value_prefix head') (snd (hd entries)))"
      "length ffs' = pk_nr_fields pk"
      "\<And>k v. (k, v) \<in> set entries \<Longrightarrow> list_all encodable (zip ffs' (pk_field_values pk k))"
      "\<And>k v. (k, v) \<in> set entries \<Longrightarrow> list_all2 (\<lambda>f u. ff_base f \<le> u) ffs' (pk_field_values pk k)"
    using packable_key.select_format_spec [OF assms(1) ne assms(2), of force] by metis
  have f: "ffs' = ffs" using s(1) assms(3) by simp
  have l: "length (pk_field_values pk k1) = length ffs" "length (pk_field_values pk k2) = length ffs"
    using packable_key.vals [OF assms(1)] assms(2,4,5) s(2) f by auto
  note e1 = s(3) [OF assms(4), unfolded f] and e2 = s(3) [OF assms(5), unfolded f]
  have b: "fbits (zip ffs (pk_field_values pk k1)) = data_bits_per_key ffs" "fbits (zip ffs (pk_field_values pk k2)) = data_bits_per_key ffs"
    using l by (simp_all add: fbits_eq)
  obtain p1 where p1: "pack_fields (zip ffs (pk_field_values pk k1)) [] 0 = ok p1" "length p1 = (data_bits_per_key ffs + 7) div 8"
      "be_nat p1 = fpack 0 (zip ffs (pk_field_values pk k1)) * 2 ^ (8 * length p1 - data_bits_per_key ffs)"
    using packed_key_spec [OF e1, unfolded b] by metis
  obtain p2 where p2: "pack_fields (zip ffs (pk_field_values pk k2)) [] 0 = ok p2" "length p2 = (data_bits_per_key ffs + 7) div 8"
      "be_nat p2 = fpack 0 (zip ffs (pk_field_values pk k2)) * 2 ^ (8 * length p2 - data_bits_per_key ffs)"
    using packed_key_spec [OF e2, unfolded b] by metis
  have "compare_packed_keys p1 p2 = cmp (be_nat p1) (be_nat p2)" using compare_packed_cmp p1(2) p2(2) by simp
  also have "\<dots> = cmp (fpack 0 (zip ffs (pk_field_values pk k1))) (fpack 0 (zip ffs (pk_field_values pk k2)))"
    using p1(2,3) p2(2,3) by (simp add: cmp_mult)
  also have "\<dots> = compare_fields (pk_field_values pk k1) (pk_field_values pk k2)"
    using cmp_fpack [OF l e1 e2] s(4) [OF assms(4)] s(4) [OF assms(5)] f by simp
  finally show ?thesis using p1(1) p2(1) by blast
qed

theorem packed_order_witness:
  "\<exists>head ffs pre p1 p2. select_format_with_hint pack_u64_u32 wit_run_entries False = ok (head, ffs, pre) \<and>
    pack_fields (zip ffs [7, 1]) [] 0 = ok p1 \<and> pack_fields (zip ffs [9, 0]) [] 0 = ok p2 \<and> compare_packed_keys p1 p2 = Less"
proof -
  have v: "\<forall>(k, v)\<in>set wit_run_entries. (case k of (a, b) \<Rightarrow> a < 2 ^ 64 \<and> b < 2 ^ 32)" by (simp add: wit_run_entries_def)
  obtain head ffs pre where s: "select_format_with_hint pack_u64_u32 wit_run_entries False = ok (head, ffs, pre)"
  proof -
    have "wit_run_entries \<noteq> []" by (simp add: wit_run_entries_def)
    from key_u64_u32.select_format_spec [OF this v, of False] show ?thesis using that by metis
  qed
  have m: "((7, 1), [5, 6]) \<in> set wit_run_entries" "((9, 0), [5, 6, 7]) \<in> set wit_run_entries" by (simp_all add: wit_run_entries_def)
  have "pk_field_values pack_u64_u32 (7, 1) = [7, 1]" "pk_field_values pack_u64_u32 (9, 0) = [9, 0]" by (simp_all add: pack_u64_u32_def)
  with packed_order [OF key_u64_u32.packable_key_axioms v s m] s show ?thesis by fastforce
qed

text \<open>\<open>check_fit\<close> is sound: a key that fits is accepted by the encoder, and the format it suggests otherwise
  accepts the key and every value at or above its base that the old format accepted. The suggested descriptor
  is always in fixed mode, also for a run in varint mode.\<close>

theorem check_fit_sound:
  assumes "packable_key pk kvalid" and "kvalid k" and "list_all (\<lambda>f. ff_base f < 2 ^ 64) ffs" and "check_fit pk head ffs k = ok fit"
  shows "case fit of Fits \<Rightarrow> list_all encodable (zip ffs (pk_field_values pk k))
    | NeedsPromotion head' ffs' \<Rightarrow> list_all encodable (zip ffs' (pk_field_values pk k)) \<and> length ffs' = length ffs \<and>
        (\<forall>us. list_all2 (\<lambda>f u. ff_base f \<le> u) ffs us \<longrightarrow> list_all encodable (zip ffs us) \<longrightarrow> list_all encodable (zip ffs' us)) \<and>
        kf_value_size_kind head' = VALUE_SIZE_KIND_FIXED"
proof -
  let ?vs = "pk_field_values pk k"
  have l: "length ffs = pk_nr_fields pk" "length ?vs = length ffs"
    using assms(4) packable_key.vals [OF assms(1,2)] by (auto simp: check_fit_def split: if_splits)
  obtain ws where ws: "list_all2 (\<lambda>fv w. widen_field (fst fv) (snd fv) = ok w) (zip ffs ?vs) ws"
      "fit = (if list_all (\<lambda>w. w = None) ws then Fits else NeedsPromotion
        \<lparr>kf_nr_fields = pk_nr_fields pk, kf_key_header_bytes = kf_key_header_bytes head,
          kf_common_value_prefix = kf_common_value_prefix head, kf_value_size_kind = VALUE_SIZE_KIND_FIXED,
          kf_sum_bit_width = kf_key_header_bytes head * 8 + sum_list (map ff_bit_width (map (\<lambda>(f, w). case w of None \<Rightarrow> f | Some f' \<Rightarrow> f') (zip ffs ws)))\<rparr>
        (map (\<lambda>(f, w). case w of None \<Rightarrow> f | Some f' \<Rightarrow> f') (zip ffs ws)))"
    using assms(4) by (auto simp: check_fit_def res_simps case_prod_beta Let_def split: if_splits)
  have lw: "length ws = length ffs" using list_all2_lengthD [OF ws(1)] l(2) by simp
  have st: "case ws ! i of None \<Rightarrow> encodable (ffs ! i, ?vs ! i)
      | Some f' \<Rightarrow> encodable (f', ?vs ! i) \<and> (\<forall>u. ff_base (ffs ! i) \<le> u \<longrightarrow> encodable (ffs ! i, u) \<longrightarrow> encodable (f', u))"
    if "i < length ffs" for i
  proof (rule widen_field_spec)
    show "ff_base (ffs ! i) < 2 ^ 64" using assms(3) that by (simp add: list_all_length)
    show "?vs ! i < 2 ^ 64" using packable_key.vals_range [OF assms(1,2)] that l by simp
    show "widen_field (ffs ! i) (?vs ! i) = ok (ws ! i)" using list_all2_nthD [OF ws(1), of i] that l by simp
  qed
  define new where "new = map (\<lambda>(f, w). case w of None \<Rightarrow> f | Some f' \<Rightarrow> f') (zip ffs ws)"
  have nth: "new ! i = (case ws ! i of None \<Rightarrow> ffs ! i | Some f' \<Rightarrow> f')" if "i < length ffs" for i using that lw by (simp add: new_def)
  have ln: "length new = length ffs" using lw by (simp add: new_def)
  have new1: "encodable (new ! i, ?vs ! i)" if "i < length ffs" for i
    using st [OF that] nth [OF that] by (cases "ws ! i") simp_all
  have new2: "encodable (new ! i, u)" if "i < length ffs" "ff_base (ffs ! i) \<le> u" "encodable (ffs ! i, u)" for i u
    using st [OF that(1)] nth [OF that(1)] that(2,3) by (cases "ws ! i") simp_all
  have old: "encodable (ffs ! i, ?vs ! i)" if "i < length ffs" "ws ! i = None" for i
    using st [OF that(1)] that(2) by simp
  have "list_all encodable (zip new ?vs)" using new1 ln l by (simp add: list_all_length)
  moreover have "list_all encodable (zip new us)" if "list_all2 (\<lambda>f u. ff_base f \<le> u) ffs us" "list_all encodable (zip ffs us)" for us
    using that new2 ln by (simp add: list_all_length list_all2_conv_all_nth)
  moreover have "list_all encodable (zip ffs ?vs)" if "list_all (\<lambda>w. w = None) ws"
    using that old lw l by (simp add: list_all_length)
  ultimately show ?thesis using ws(2) ln by (auto simp: new_def split: if_splits)
qed

theorem check_fit_sound_witness:
  "\<exists>head' f. check_fit pack_u64 \<lparr>kf_nr_fields = 1, kf_key_header_bytes = 0, kf_common_value_prefix = 0, kf_value_size_kind = 1, kf_sum_bit_width = 2\<rparr>
      [\<lparr>ff_bit_width = 2, ff_flags = 0, ff_pad0 = 0, ff_base = 10, ff_pad1 = 0\<rparr>] 20 = ok (NeedsPromotion head' [f]) \<and>
    encodable (f, 20) \<and> kf_value_size_kind head' = 0"
proof -
  let ?h = "\<lparr>kf_nr_fields = 1, kf_key_header_bytes = 0, kf_common_value_prefix = 0, kf_value_size_kind = 1, kf_sum_bit_width = 2\<rparr>"
  let ?f = "\<lparr>ff_bit_width = 2, ff_flags = 0, ff_pad0 = 0, ff_base = 10, ff_pad1 = 0\<rparr>"
  have "bit_len 10 = 4" by (simp add: bit_len.simps)
  then have c: "\<exists>head' f. check_fit pack_u64 ?h [?f] 20 = ok (NeedsPromotion head' [f])"
    by (simp add: check_fit_def widen_field_def pack_u64_def)
  then obtain head' f where c: "check_fit pack_u64 ?h [?f] 20 = ok (NeedsPromotion head' [f])" by blast
  from check_fit_sound [OF key_u64.packable_key_axioms _ _ c] show ?thesis
    using c by (simp add: pack_u64_def VALUE_SIZE_KIND_FIXED_def)
qed

text \<open>The decoder is not total on damaged payloads: a descriptor in varint mode followed by a length near
  the top of the \<open>u64\<close> range overflows the cursor instead of being reported as malformed.\<close>

theorem decode_damaged_panics:
  "\<exists>payload. decode_packed_run pack_u64 payload 0 1 = Inl Panic"
proof -
  let ?h = "\<lparr>kf_nr_fields = 1, kf_key_header_bytes = 0, kf_common_value_prefix = 0, kf_value_size_kind = VALUE_SIZE_KIND_VARINT, kf_sum_bit_width = 0\<rparr>"
  let ?f = "\<lparr>ff_bit_width = 0, ff_flags = 0, ff_pad0 = 0, ff_base = 0, ff_pad1 = 0\<rparr>"
  let ?n = "2 ^ 64 - 1 :: nat"
  let ?body = "write_varint_u64 ?n"
  have f: "format_parse (format_serialise ?h [?f] [] @ ?body) = ok (?h, [?f], [])"
      "drop (format_total_size ?h) (format_serialise ?h [?f] [] @ ?body) = ?body"
    using format_roundtrip(1) [of ?h "[?f]" "[]" ?body] format_roundtrip(2) [of ?h "[?f]" "[]"]
    by (simp_all add: run_key_format_ok_def field_format_ok_def VALUE_SIZE_KIND_VARINT_def)
  have r: "read_varint_u64 ?body = ok (?n, [])"
    using read_write_varint [of 0 0 ?n "[]"] by (simp add: read_varint_u64_def)
  have len: "length ?body > 0" by (subst write_varint_u64.simps) (simp add: Let_def)
  have b: "bytes_per_key ?h [?f] = 0" by (simp add: bytes_per_key_def data_bits_per_key_def)
  have "decode_entry pack_u64 ?h [?f] [] 0 (length ?body) ?body = Inl Panic"
    using len r b by (simp add: Suc_le_eq decode_entry_def read_bits_def VALUE_SIZE_KIND_FIXED_def VALUE_SIZE_KIND_VARINT_def)
  then have "decode_packed_run pack_u64 (format_serialise ?h [?f] [] @ ?body) 0 1 = Inl Panic"
    using f by (simp add: decode_packed_run_def pack_u64_def VALUE_SIZE_KIND_FIXED_def VALUE_SIZE_KIND_VARINT_def)
  then show ?thesis by blast
qed

end
