(* ===== verification/Mb_Btree_Thms.thy ===== *)
theory Mb_Btree_Thms
  imports Mb_Btree
begin

text \<open>
  The B+ tree node refines a map. \<open>node_map\<close> replays the sorted runs, oldest first, and
  then the journal in push order; the merge, lookups, range scans, inserts, removes, flushes
  and compaction are shown to agree with it.
\<close>

section \<open>Specification\<close>

definition apply_op :: "('k, 'v) journal_op \<Rightarrow> ('k \<rightharpoonup> 'v) \<Rightarrow> ('k \<rightharpoonup> 'v)" where
  "apply_op op m = (case op of JInsert k v \<Rightarrow> m(k \<mapsto> v) | JRemove k \<Rightarrow> m(k := None) | JWhiteout k \<Rightarrow> m(k := None))"

definition runs_map :: "('k, 'v) sorted_run list \<Rightarrow> ('k \<rightharpoonup> 'v)" where
  "runs_map runs = fold (\<lambda>r m. m ++ map_of (run_entries r)) runs Map.empty"

definition node_map :: "('k, 'v) loaded_node \<Rightarrow> ('k \<rightharpoonup> 'v)" where
  "node_map n = fold (\<lambda>e. apply_op (je_op e)) (n_pending_journal n) (runs_map (n_sorted_runs n))"

text \<open>Runs have ascending distinct keys; the journal entries of one key have ascending LSNs.\<close>

definition journal_ok :: "('k, 'v) journal_entry list \<Rightarrow> bool" where
  "journal_ok es \<longleftrightarrow> (\<forall>k. sorted_wrt (<) (map je_lsn (filter (\<lambda>e. jop_key (je_op e) = k) es)))"

definition pin_ok :: "journal_pin \<Rightarrow> ('k, 'v) journal_entry list \<Rightarrow> bool" where
  "pin_ok p es \<longleftrightarrow> pin_count p = min (length es) (2 ^ 32 - 1) \<and>
     (es \<noteq> [] \<longrightarrow> pin_lsn_min p = Min (je_lsn ` set es) \<and> pin_lsn_max p = Max (je_lsn ` set es))"

definition node_ok :: "('k, 'v) kmerge \<Rightarrow> ('k :: linorder, 'v) loaded_node \<Rightarrow> bool" where
  "node_ok kmerge n \<longleftrightarrow> (\<forall>r\<in>set (n_sorted_runs n). bm_wf (run_entries r)) \<and> journal_ok (n_pending_journal n) \<and>
     (\<forall>view. n_merged_view n = Some view \<longrightarrow> view = merge_iter kmerge n) \<and> pin_ok (n_pin n) (n_pending_journal n)"

text \<open>What \<open>kmerge_by\<close> documents: merging sources that are each in order yields all their
  elements in order.\<close>

definition kmerge_ok :: "('k :: linorder, 'v) kmerge \<Rightarrow> bool" where
  "kmerge_ok kmerge \<longleftrightarrow> (\<forall>xss. (\<forall>xs\<in>set xss. sorted_wrt (\<lambda>a b. \<not> row_less b a) xs) \<longrightarrow>
     mset (kmerge row_less xss) = mset (concat xss) \<and> sorted_wrt (\<lambda>a b. \<not> row_less b a) (kmerge row_less xss))"

section \<open>Journal replay\<close>

lemma fold_apply_op:
  "fold (\<lambda>e. apply_op (je_op e)) es m k =
     (case journal_lookup (rev es) k of Some r \<Rightarrow> r | None \<Rightarrow> m k)"
proof (induction es rule: rev_induct)
  case (snoc e es)
  then show ?case by (cases "je_op e") (auto simp: apply_op_def)
qed simp

lemma node_map_alt:
  "node_map n k = (case journal_lookup (rev (n_pending_journal n)) k of Some r \<Rightarrow> r | None \<Rightarrow> runs_map (n_sorted_runs n) k)"
  by (simp add: node_map_def fold_apply_op)

lemma journal_lookup_none: "journal_lookup es k = None \<longleftrightarrow> (\<forall>e\<in>set es. jop_key (je_op e) \<noteq> k)"
  by (induction es) (auto split: journal_op.splits)

lemma runs_map_snoc [simp]: "runs_map (runs @ [r]) = runs_map runs ++ map_of (run_entries r)"
  by (simp add: runs_map_def)

lemma runs_map_Nil [simp]: "runs_map [] = Map.empty"
  by (simp add: runs_map_def)

section \<open>Binary search\<close>

lemma bsearch_from_some: "bsearch_from xs key lo hi = Some i \<Longrightarrow> lo \<le> i \<and> i < hi \<and> fst (xs ! i) = key"
proof (induction xs key lo hi rule: bsearch_from.induct)
  case (1 xs key lo hi)
  let ?m = "lo + (hi - lo) div 2"
  from "1.prems" have lh: "lo < hi" by (subst (asm) bsearch_from.simps) (auto split: if_splits)
  then have m: "lo \<le> ?m" "?m < hi" by auto
  consider "fst (xs ! ?m) = key" | "fst (xs ! ?m) \<noteq> key" "fst (xs ! ?m) < key"
    | "fst (xs ! ?m) \<noteq> key" "\<not> fst (xs ! ?m) < key" by blast
  then show ?case
  proof cases
    case 1
    then have "i = ?m" using "1.prems" lh by (subst (asm) bsearch_from.simps) (simp add: Let_def)
    with 1 m show ?thesis by blast
  next
    case 2
    then have "bsearch_from xs key (?m + 1) hi = Some i"
      using "1.prems" lh by (subst (asm) bsearch_from.simps) (simp add: Let_def)
    then show ?thesis using "1.IH"(1) [OF _ refl refl] lh 2 m by fastforce
  next
    case 3
    then have "bsearch_from xs key lo ?m = Some i"
      using "1.prems" lh by (subst (asm) bsearch_from.simps) (simp add: Let_def)
    then show ?thesis using "1.IH"(2) [OF _ refl refl] lh 3 m by fastforce
  qed
qed

lemma bsearch_from_none:
  assumes "sorted (map fst xs)" and "hi \<le> length xs" and "bsearch_from xs key lo hi = None"
  shows "\<forall>i. lo \<le> i \<and> i < hi \<longrightarrow> fst (xs ! i) \<noteq> key"
  using assms
proof (induction xs key lo hi rule: bsearch_from.induct)
  case (1 xs key lo hi)
  show ?case
  proof (cases "lo < hi")
    case True
    let ?m = "lo + (hi - lo) div 2"
    have m: "lo \<le> ?m" "?m < hi" "?m < length xs" using True "1.prems"(2) by auto
    have mono: "fst (xs ! i) \<le> fst (xs ! j)" if "i \<le> j" "j < length xs" for i j
      using sorted_nth_mono [OF "1.prems"(1), of i j] that by simp
    from "1.prems"(3) True have ne: "fst (xs ! ?m) \<noteq> key"
      by (subst (asm) bsearch_from.simps) (auto simp: Let_def split: if_splits)
    show ?thesis
    proof (cases "fst (xs ! ?m) < key")
      case less: True
      with "1.prems"(3) True ne have "bsearch_from xs key (?m + 1) hi = None"
        by (subst (asm) bsearch_from.simps) (simp add: Let_def)
      then have "\<forall>i. ?m + 1 \<le> i \<and> i < hi \<longrightarrow> fst (xs ! i) \<noteq> key"
        using "1.IH"(1) True ne less "1.prems"(1,2) by simp
      moreover have "fst (xs ! i) \<noteq> key" if "i \<le> ?m" for i
        using mono [of i ?m] that m(3) less by auto
      ultimately show ?thesis using not_less_eq_eq [of _ ?m] by auto
    next
      case False
      with ne have gt: "key < fst (xs ! ?m)" by simp
      with "1.prems"(3) True ne False have "bsearch_from xs key lo ?m = None"
        by (subst (asm) bsearch_from.simps) (simp add: Let_def)
      then have "\<forall>i. lo \<le> i \<and> i < ?m \<longrightarrow> fst (xs ! i) \<noteq> key"
        using "1.IH"(2) True ne False "1.prems"(1,2) m by simp
      moreover have "fst (xs ! i) \<noteq> key" if "?m \<le> i" "i < hi" for i
        using mono [of ?m i] that "1.prems"(2) gt by auto
      ultimately show ?thesis using not_less [of _ ?m] by auto
    qed
  qed auto
qed

lemma binary_search_eq: "bm_wf xs \<Longrightarrow> binary_search xs key = map_of xs key"
proof -
  assume wf: "bm_wf xs"
  then have s: "sorted (map fst xs)" and d: "distinct (map fst xs)"
    by (simp_all add: bm_wf_def strict_sorted_iff)
  show ?thesis
  proof (cases "bsearch_from xs key 0 (length xs)")
    case None
    then have "\<forall>i<length xs. fst (xs ! i) \<noteq> key" using bsearch_from_none [OF s order_refl None] by simp
    then have "key \<notin> fst ` set xs" by (auto simp: in_set_conv_nth) (metis fst_conv)
    then have "map_of xs key = None" by (simp add: map_of_eq_None_iff)
    then show ?thesis using None by (simp add: binary_search_def)
  next
    case (Some i)
    then have i: "i < length xs" "fst (xs ! i) = key" using bsearch_from_some [OF Some] by auto
    then have "(key, snd (xs ! i)) \<in> set xs" by (metis nth_mem prod.collapse)
    then have "map_of xs key = Some (snd (xs ! i))" using d by simp
    then show ?thesis using Some by (simp add: binary_search_def)
  qed
qed

section \<open>Merging\<close>

definition row_val :: "('k, 'v) merge_row \<Rightarrow> 'v option" where
  "row_val r = (if mr_kind r = Live then mr_value r else None)"

text \<open>The rows of one key in the merged sequence, and what they leave.\<close>

definition key_group :: "'k \<Rightarrow> ('k, 'v) merge_row list \<Rightarrow> ('k, 'v) merge_row list" where
  "key_group k rows = filter (\<lambda>r. mr_key r = k) rows"

definition group_val :: "('k, 'v) merge_row list \<Rightarrow> 'v option" where
  "group_val g = (if g = [] then None else row_val (last g))"

lemma dedup_step:
  fixes first :: "('k, 'v) merge_row"
  defines "same \<equiv> \<lambda>r :: ('k, 'v) merge_row. mr_key r = mr_key first"
  shows "dedup_rows (first # rows) =
    (case row_val (last (first # takeWhile same rows)) of None \<Rightarrow> [] | Some v \<Rightarrow> [(mr_key first, v)]) @
    dedup_rows (dropWhile same rows)"
proof -
  have "mr_key (last (first # takeWhile same rows)) = mr_key first"
    by (metis (mono_tags) last_ConsL last_ConsR last_in_set same_def set_takeWhileD)
  then show ?thesis
    unfolding same_def
    by (simp add: Let_def row_val_def del: last.simps split: journal_kind.splits option.splits)
qed

lemma sorted_keys_groups:
  assumes "sorted (map mr_key (first # rows))"
  shows "takeWhile (\<lambda>r. mr_key r = mr_key first) rows = filter (\<lambda>r. mr_key r = mr_key first) rows"
    and "\<forall>r\<in>set (dropWhile (\<lambda>r. mr_key r = mr_key first) rows). mr_key first < mr_key r"
    and "sorted (map mr_key (dropWhile (\<lambda>r. mr_key r = mr_key first) rows))"
  using assms
proof (induction rows)
  case (Cons r rows)
  {
    case 1
    show ?case
    proof (cases "mr_key r = mr_key first")
      case True
      then show ?thesis using 1 Cons.IH(1) by simp
    next
      case False
      then have "filter (\<lambda>r. mr_key r = mr_key first) rows = []"
        using 1 by (auto simp: filter_empty_conv)
      then show ?thesis using False by simp
    qed
  next
    case 2
    then show ?case using Cons.IH(2) by (cases "mr_key r = mr_key first") auto
  next
    case 3
    then show ?case using Cons.IH(3) by (cases "mr_key r = mr_key first") auto
  }
qed auto

lemma dedup_spec:
  "sorted (map mr_key rows) \<Longrightarrow>
   bm_wf (dedup_rows rows) \<and> set (map fst (dedup_rows rows)) \<subseteq> mr_key ` set rows \<and>
   (\<forall>k. map_of (dedup_rows rows) k = group_val (key_group k rows))"
proof (induction "length rows" arbitrary: rows rule: less_induct)
  case less
  show ?case
  proof (cases rows)
    case Nil
    then show ?thesis by (simp add: key_group_def group_val_def)
  next
    case (Cons first rest)
    let ?same = "\<lambda>r. mr_key r = mr_key first" and ?k = "mr_key first"
    let ?tail = "dropWhile ?same rest" and ?v = "row_val (last (first # takeWhile ?same rest))"
    note g = sorted_keys_groups [of first rest, OF less.prems [unfolded Cons]]
    have "length ?tail < length rows" using Cons by (simp add: length_dropWhile_le le_imp_less_Suc)
    from less.hyps [OF this g(3)]
    have IH: "bm_wf (dedup_rows ?tail)" "set (map fst (dedup_rows ?tail)) \<subseteq> mr_key ` set ?tail"
      "\<And>k. map_of (dedup_rows ?tail) k = group_val (key_group k ?tail)" by auto
    have step: "dedup_rows rows = (case ?v of None \<Rightarrow> [] | Some v \<Rightarrow> [(?k, v)]) @ dedup_rows ?tail"
      using dedup_step [of first rest] Cons by simp
    have gt: "\<forall>x\<in>set (map fst (dedup_rows ?tail)). ?k < x" using IH(2) g(2) by blast
    have sub: "mr_key ` set ?tail \<subseteq> mr_key ` set rows" using Cons set_dropWhileD by fastforce
    have tk: "?k \<in> mr_key ` set rows" using Cons by simp
    have split: "rest = takeWhile ?same rest @ ?tail" by simp
    have grp: "key_group k rows = (if k = ?k then first # takeWhile ?same rest else key_group k ?tail)" for k
    proof (cases "k = ?k")
      case True
      then show ?thesis using Cons g(1) by (simp add: key_group_def)
    next
      case False
      then have "filter (\<lambda>r. mr_key r = k) (takeWhile ?same rest) = []"
        by (auto simp: filter_empty_conv dest: set_takeWhileD)
      moreover have "key_group k rows = filter (\<lambda>r. mr_key r = k) (first # takeWhile ?same rest @ ?tail)"
        by (simp only: key_group_def Cons takeWhile_dropWhile_id)
      ultimately show ?thesis using False by (simp add: key_group_def del: takeWhile_dropWhile_id)
    qed
    have none: "map_of (dedup_rows ?tail) ?k = None" using gt by (auto simp: map_of_eq_None_iff)
    show ?thesis
    proof (intro conjI allI)
      show "bm_wf (dedup_rows rows)" using IH(1) gt step by (cases ?v) (simp_all add: bm_wf_Cons)
      show "set (map fst (dedup_rows rows)) \<subseteq> mr_key ` set rows"
        using IH(2) sub tk step by (cases ?v) auto
      show "map_of (dedup_rows rows) k = group_val (key_group k rows)" for k
        using IH(3) [of k] none step grp [of k] by (cases ?v) (auto simp: group_val_def)
    qed
  qed
qed

definition row_pos :: "('k, 'v) merge_row \<Rightarrow> 'k \<times> nat \<times> nat" where
  "row_pos r = (mr_key r, mr_layer r, mr_lsn r)"

lemma row_less_pos: "\<not> row_less b a \<longleftrightarrow> row_pos a \<le> row_pos b"
  unfolding row_less_def row_pos_def by (rule linorder_not_less)

lemma pending_row_simps [simp]:
  "mr_key (pending_row l e) = jop_key (je_op e)" "mr_layer (pending_row l e) = l" "mr_lsn (pending_row l e) = je_lsn e"
  by (cases "je_op e"; simp add: pending_row_def)+

lemma run_row_simps [simp]:
  "mr_key (run_row l kv) = fst kv" "mr_layer (run_row l kv) = l" "mr_lsn (run_row l kv) = 0"
  "row_val (run_row l kv) = Some (snd kv)"
  by (simp_all add: run_row_def row_val_def)

lemma sources_sorted:
  assumes "\<forall>r\<in>set (n_sorted_runs n). bm_wf (run_entries r)" and "xs \<in> set (merge_sources n)"
  shows "sorted (map row_pos xs)"
proof -
  let ?f = "\<lambda>r. (mr_key r, mr_lsn r)" and ?N = "length (n_sorted_runs n)"
  from assms(2) consider i r where "r \<in> set (n_sorted_runs n)" "xs = map (run_row i) (run_entries r)"
    | "xs = sort_key ?f (map (pending_row ?N) (n_pending_journal n))"
    by (auto simp: merge_sources_def in_set_enumerate_eq) (metis nth_mem)
  then show ?thesis
  proof cases
    case 1
    have "map row_pos xs = map (\<lambda>k. (k, i, 0)) (map fst (run_entries r))"
      using 1(2) by (simp add: row_pos_def)
    moreover have "sorted (map fst (run_entries r))"
      using assms(1) 1(1) by (auto simp: bm_wf_def strict_sorted_iff)
    ultimately show ?thesis
      by (auto simp: sorted_map sorted_wrt_map simp del: map_map elim: sorted_wrt_mono_rel [rotated])
  next
    case 2
    have "sorted (map ?f xs)" using 2 by simp
    moreover have "\<forall>r\<in>set xs. mr_layer r = ?N" using 2 by auto
    ultimately show ?thesis by (auto simp: sorted_map row_pos_def elim: sorted_wrt_mono_rel [rotated])
  qed
qed

definition run_group :: "'k \<Rightarrow> nat \<times> ('k, 'v) sorted_run \<Rightarrow> ('k, 'v) merge_row list" where
  "run_group k = (\<lambda>(i, r). case map_of (run_entries r) k of None \<Rightarrow> [] | Some v \<Rightarrow> [run_row i (k, v)])"

lemma group_run:
  "distinct (map fst (run_entries r)) \<Longrightarrow> key_group k (map (run_row i) (run_entries r)) = run_group k (i, r)"
proof -
  have "distinct (map fst es) \<Longrightarrow> filter (\<lambda>r. mr_key r = k) (map (run_row i) es) =
      (case map_of es k of None \<Rightarrow> [] | Some v \<Rightarrow> [run_row i (k, v)])" for es
  proof (induction es)
    case (Cons e es)
    obtain a b where e: "e = (a, b)" by fastforce
    have "map_of es k = None" if "a = k" using Cons.prems e that by (simp add: map_of_eq_None_iff)
    then show ?case using Cons e by auto
  qed simp
  then show "distinct (map fst (run_entries r)) \<Longrightarrow> ?thesis" by (simp add: key_group_def run_group_def)
qed

lemma group_pending:
  assumes "journal_ok es"
  shows "key_group k (sort_key (\<lambda>r. (mr_key r, mr_lsn r)) (map (pending_row l) es)) =
    map (pending_row l) (filter (\<lambda>e. jop_key (je_op e) = k) es)" (is "?lhs = map _ ?es")
proof -
  let ?f = "\<lambda>r. (mr_key r, mr_lsn r)"
  have "?lhs = sort_key ?f (map (pending_row l) ?es)"
    by (simp add: key_group_def filter_sort filter_map o_def)
  moreover have "sorted (map ?f (map (pending_row l) ?es))"
  proof -
    have "sorted_wrt (\<lambda>a b. je_lsn a < je_lsn b) ?es"
      using assms by (simp add: journal_ok_def sorted_wrt_map)
    then have "sorted_wrt (\<lambda>a b. ?f (pending_row l a) \<le> ?f (pending_row l b)) ?es"
      by (rule sorted_wrt_mono_rel [rotated]) auto
    then show ?thesis by (simp add: sorted_map sorted_wrt_map)
  qed
  ultimately show ?thesis using sort_key_id_if_sorted by metis
qed

text \<open>The sources' rows of one key, oldest run first, then the journal in push order.\<close>

definition source_group :: "'k \<Rightarrow> ('k, 'v) loaded_node \<Rightarrow> ('k, 'v) merge_row list" where
  "source_group k n = concat (map (run_group k) (enumerate 0 (n_sorted_runs n))) @
     map (pending_row (length (n_sorted_runs n))) (filter (\<lambda>e. jop_key (je_op e) = k) (n_pending_journal n))"

lemma group_concat: "key_group k (concat xss) = concat (map (key_group k) xss)"
  by (induction xss) (simp_all add: key_group_def)

lemma key_group_append: "key_group k (xs @ ys) = key_group k xs @ key_group k ys"
  by (simp add: key_group_def)

lemma group_sources:
  assumes "\<forall>r\<in>set (n_sorted_runs n). bm_wf (run_entries r)" and "journal_ok (n_pending_journal n)"
  shows "key_group k (concat (merge_sources n)) = source_group k n"
proof -
  have g: "key_group k ((\<lambda>(layer, run). map (run_row layer) (run_entries run)) p) = run_group k p"
    if "p \<in> set (enumerate 0 (n_sorted_runs n))" for p
  proof -
    obtain i r where p: "p = (i, r)" by (cases p) simp
    then have "r \<in> set (n_sorted_runs n)" using that by (auto simp: in_set_enumerate_eq)
    then have "distinct (map fst (run_entries r))" using assms(1) bm_wf_distinct by blast
    then show ?thesis using p group_run by simp
  qed
  have "map (key_group k) (map (\<lambda>(layer, run). map (run_row layer) (run_entries run)) (enumerate 0 (n_sorted_runs n))) =
      map (run_group k) (enumerate 0 (n_sorted_runs n))"
    unfolding map_map o_def by (rule map_cong [OF refl g])
  then show ?thesis
    using group_pending [OF assms(2), of k]
    by (simp add: merge_sources_def source_group_def group_concat key_group_append del: map_map)
qed

lemma run_groups_bounds:
  "r \<in> set (concat (map (run_group k) (enumerate m runs))) \<Longrightarrow> mr_key r = k \<and> m \<le> mr_layer r \<and> mr_layer r < m + length runs"
  by (auto simp: run_group_def in_set_enumerate_eq split: option.splits)

lemma run_groups_sorted:
  fixes k :: "'k :: linorder"
  shows "sorted_wrt (<) (map row_pos (concat (map (run_group k) (enumerate m runs))))"
proof (induction runs arbitrary: m)
  case (Cons r runs)
  show ?case
  proof (cases "map_of (run_entries r) k")
    case None
    then show ?thesis using Cons.IH [of "Suc m"] by (simp add: run_group_def)
  next
    case (Some v)
    have "row_pos (run_row m (k, v)) < row_pos x" if "x \<in> set (concat (map (run_group k) (enumerate (Suc m) runs)))" for x
      using run_groups_bounds [OF that] by (simp add: row_pos_def)
    then show ?thesis using Some Cons.IH [of "Suc m"] by (auto simp: run_group_def)
  qed
qed simp

lemma source_group_sorted:
  fixes k :: "'k :: linorder"
  assumes "journal_ok (n_pending_journal n)"
  shows "sorted_wrt (<) (map row_pos (source_group k n))"
proof -
  let ?N = "length (n_sorted_runs n)" and ?es = "filter (\<lambda>e. jop_key (je_op e) = k) (n_pending_journal n)"
  have "sorted_wrt (\<lambda>a b. je_lsn a < je_lsn b) ?es"
    using assms by (simp add: journal_ok_def sorted_wrt_map)
  then have "sorted_wrt (\<lambda>a b. row_pos (pending_row ?N a) < row_pos (pending_row ?N b)) ?es"
    by (rule sorted_wrt_mono_rel [rotated]) (auto simp: row_pos_def)
  then have p: "sorted_wrt (<) (map row_pos (map (pending_row ?N) ?es))" by (simp add: sorted_wrt_map)
  have lt: "row_pos a < row_pos (pending_row ?N e)"
    if "a \<in> set (concat (map (run_group k) (enumerate 0 (n_sorted_runs n))))" and "e \<in> set ?es" for a e
    using run_groups_bounds [OF that(1)] that(2) by (simp add: row_pos_def)
  show ?thesis
    unfolding source_group_def map_append sorted_wrt_append using run_groups_sorted p lt by (auto simp del: set_concat)
qed

text \<open>The merge groups the rows of each key in that order, whatever the merge does with the rest.\<close>

lemma merged_group:
  assumes km: "kmerge_ok kmerge" and runs: "\<forall>r\<in>set (n_sorted_runs n). bm_wf (run_entries r)"
    and j: "journal_ok (n_pending_journal n)"
  shows "sorted (map mr_key (kmerge row_less (merge_sources n)))"
    and "key_group k (kmerge row_less (merge_sources n)) = source_group k n"
proof -
  let ?rows = "kmerge row_less (merge_sources n)"
  have "\<forall>xs\<in>set (merge_sources n). sorted_wrt (\<lambda>a b. \<not> row_less b a) xs"
    using sources_sorted [OF runs] by (simp add: row_less_pos sorted_map)
  then have ms: "mset ?rows = mset (concat (merge_sources n))" and s: "sorted_wrt (\<lambda>a b. row_pos a \<le> row_pos b) ?rows"
    using km by (auto simp: kmerge_ok_def row_less_pos)
  show "sorted (map mr_key ?rows)"
    using s unfolding sorted_map by (rule sorted_wrt_mono_rel [rotated]) (auto simp: row_pos_def)
  let ?g = "key_group k ?rows" and ?h = "source_group k n"
  have "mset ?g = mset ?h"
    using ms unfolding group_sources [OF runs j, symmetric] key_group_def by (simp add: mset_filter)
  moreover have sh: "sorted (map row_pos ?h)" and inj: "inj_on row_pos (set ?h)"
    using source_group_sorted [OF j, of k] by (simp_all add: strict_sorted_iff distinct_map)
  ultimately have "sort_key row_pos ?g = ?h"
    using sort_key_inj_key_eq [of ?g ?h row_pos] mset_eq_setD [of ?g ?h] by metis
  moreover have "sort_key row_pos ?g = ?g"
    using s by (intro sort_key_id_if_sorted) (simp add: key_group_def sorted_map sorted_wrt_filter)
  ultimately show "?g = ?h" by simp
qed

lemma journal_lookup_Cons:
  "journal_lookup (e # es) k =
    (if jop_key (je_op e) = k then Some (row_val (pending_row l e)) else journal_lookup es k)"
  by (cases "je_op e") (simp_all add: pending_row_def row_val_def)

lemma journal_lookup_filter:
  "journal_lookup (rev es) k =
    (let g = filter (\<lambda>e. jop_key (je_op e) = k) es
     in if g = [] then None else Some (row_val (pending_row l (last g))))"
proof (induction es rule: rev_induct)
  case (snoc e es)
  then show ?case by (simp add: Let_def journal_lookup_Cons [where l = l] del: journal_lookup.simps(2))
qed simp

lemma run_groups_val: "group_val (concat (map (run_group k) (enumerate m runs))) = runs_map runs k"
proof (induction runs rule: rev_induct)
  case (snoc r runs)
  have "enumerate m (runs @ [r]) = enumerate m runs @ [(m + length runs, r)]"
    by (simp add: enumerate_append_eq)
  then show ?case
    using snoc by (cases "map_of (run_entries r) k")
      (simp_all add: run_group_def group_val_def map_add_def split: option.splits)
qed (simp add: group_val_def)

lemma source_group_val: "group_val (source_group k n) = node_map n k"
proof (cases "filter (\<lambda>e. jop_key (je_op e) = k) (n_pending_journal n) = []")
  case True
  then have "source_group k n = concat (map (run_group k) (enumerate 0 (n_sorted_runs n)))"
    by (simp add: source_group_def)
  then show ?thesis
    using True run_groups_val [of k 0 "n_sorted_runs n"] journal_lookup_filter [of "n_pending_journal n" k]
    by (simp add: node_map_alt)
next
  case False
  then show ?thesis
    using journal_lookup_filter [of "n_pending_journal n" k "length (n_sorted_runs n)"]
    by (simp add: node_map_alt source_group_def group_val_def last_map Let_def)
qed

text \<open>The merge yields the live keys in ascending order, each with its newest value.\<close>

lemma merge_iter_spec:
  assumes "kmerge_ok kmerge" and "node_ok kmerge n"
  shows "bm_wf (merge_iter kmerge n)" and "map_of (merge_iter kmerge n) = node_map n"
proof -
  have runs: "\<forall>r\<in>set (n_sorted_runs n). bm_wf (run_entries r)" and j: "journal_ok (n_pending_journal n)"
    using assms(2) by (simp_all add: node_ok_def)
  note d = dedup_spec [OF merged_group(1) [OF assms(1) runs j]]
  show "bm_wf (merge_iter kmerge n)" using d by (simp add: merge_iter_def)
  show "map_of (merge_iter kmerge n) = node_map n"
    using d merged_group(2) [OF assms(1) runs j] by (auto simp: merge_iter_def source_group_val fun_eq_iff)
qed

section \<open>Operations keep the invariant\<close>

lemma node_ok_new: "node_ok kmerge (node_new kind level lg)"
  by (simp add: node_ok_def node_new_def journal_ok_def pin_ok_def pin_default_def)

lemma node_map_new [simp]: "node_map (node_new kind level lg) = Map.empty"
  by (simp add: node_map_def node_new_def)

lemma pin_ok_record:
  assumes "pin_ok p es"
  shows "pin_ok (pin_record p lsn) (es @ [\<lparr>je_lsn = lsn, je_op = op\<rparr>])"
proof (cases "es = []")
  case True
  then show ?thesis using assms by (simp add: pin_ok_def pin_record_def)
next
  case False
  then have "Min (insert lsn (je_lsn ` set es)) = min (Min (je_lsn ` set es)) lsn"
    and "Max (insert lsn (je_lsn ` set es)) = max (Max (je_lsn ` set es)) lsn"
    by (simp_all add: min.commute max.commute)
  with assms False show ?thesis by (auto simp: pin_ok_def pin_record_def Let_def)
qed

lemma push_ok:
  assumes "node_ok kmerge n"
    and "\<forall>e\<in>set (n_pending_journal n). jop_key (je_op e) = jop_key op \<longrightarrow> je_lsn e < lsn"
  shows "node_ok kmerge (push_journal n \<lparr>je_lsn = lsn, je_op = op\<rparr>)"
    and "node_map (push_journal n \<lparr>je_lsn = lsn, je_op = op\<rparr>) = apply_op op (node_map n)"
proof -
  have "journal_ok (n_pending_journal n @ [\<lparr>je_lsn = lsn, je_op = op\<rparr>])"
    using assms by (auto simp: journal_ok_def node_ok_def sorted_wrt_append)
  then show "node_ok kmerge (push_journal n \<lparr>je_lsn = lsn, je_op = op\<rparr>)"
    using assms(1) pin_ok_record [of "n_pin n" "n_pending_journal n"]
    by (simp add: node_ok_def push_journal_def invalidate_cache_def)
  show "node_map (push_journal n \<lparr>je_lsn = lsn, je_op = op\<rparr>) = apply_op op (node_map n)"
    by (simp add: node_map_def push_journal_def invalidate_cache_def)
qed

lemma lookup_spec:
  assumes "kmerge_ok kmerge" and "node_ok kmerge n"
  shows "fst (node_lookup kmerge n key) = node_map n key"
    and "node_ok kmerge (snd (node_lookup kmerge n key))"
    and "node_map (snd (node_lookup kmerge n key)) = node_map n"
proof -
  note m = merge_iter_spec [OF assms]
  have view: "merge_iter kmerge (n\<lparr>n_merged_view := v\<rparr>) = merge_iter kmerge n" for v
    by (simp add: merge_iter_def merge_sources_def)
  have eq: "binary_search (merge_iter kmerge n) key = node_map n key" using binary_search_eq [OF m(1)] m(2) by simp
  show "fst (node_lookup kmerge n key) = node_map n key"
    using eq assms(2) node_map_alt [of n key] by (auto simp: node_lookup_def node_ok_def Let_def split: option.splits)
  show "node_ok kmerge (snd (node_lookup kmerge n key))"
    using assms(2) view by (auto simp: node_lookup_def node_ok_def Let_def split: option.splits)
  show "node_map (snd (node_lookup kmerge n key)) = node_map n"
    by (auto simp: node_lookup_def node_map_def Let_def split: option.splits)
qed

lemma journal_by_key_spec:
  assumes "bm_wf m" and "\<not> list_ex (\<lambda>e. is_tombstone (je_op e)) es"
  shows "bm_wf (journal_by_key es m)"
    and "fold (\<lambda>e. apply_op (je_op e)) es (M ++ bm_get m) = M ++ bm_get (journal_by_key es m)"
  using assms
proof (induction es arbitrary: m)
  case (Cons e es)
  {
    case 1
    then obtain k v where e: "je_op e = JInsert k v" by (cases "je_op e") auto
    then show ?case using 1 Cons.IH(1) [of "bm_insert k v m"] by (simp add: bm_wf_insert)
  next
    case 2
    then obtain k v where e: "je_op e = JInsert k v" by (cases "je_op e") auto
    have "(M ++ bm_get m)(k \<mapsto> v) = M ++ bm_get (bm_insert k v m)"
      using 2 by (simp add: bm_get_insert fun_eq_iff map_add_def)
    then show ?case using 2 Cons.IH(2) [of "bm_insert k v m"] e by (simp add: bm_wf_insert apply_op_def)
  }
qed auto

lemma max_lsn_ge: "l \<in> set ls \<Longrightarrow> l \<le> max_lsn_of ls"
  by (simp add: max_lsn_of_def fold_max_ge)

lemma flush_spec:
  assumes "node_ok kmerge n" and "flush_to_run n = ok n'"
  shows "node_ok kmerge n' \<and> node_map n' = node_map n \<and> n_pending_journal n' = []"
proof (cases "n_pending_journal n = []")
  case True
  then show ?thesis using assms by (simp add: flush_to_run_def)
next
  case False
  let ?es = "journal_by_key (n_pending_journal n) []"
  have nt: "\<not> list_ex (\<lambda>e. is_tombstone (je_op e)) (n_pending_journal n)"
    using assms(2) False by (auto simp: flush_to_run_def split: if_splits)
  note j = journal_by_key_spec [OF bm_wf_Nil nt]
  obtain s h where n': "n' = n\<lparr>n_header := h, n_sorted_runs := n_sorted_runs n @ [\<lparr>run_seq = s,
      run_journal_seq = max_lsn_of (map je_lsn (n_pending_journal n)), run_flags = 0, run_entries = ?es\<rparr>],
      n_pending_journal := [], n_dirty := True, n_pin := pin_default, n_merged_view := None\<rparr>"
    using assms(2) False nt
    by (auto simp: flush_to_run_def Let_def res_simps run_from_sorted_def invalidate_cache_def split: if_splits)
  have "node_map n' = node_map n"
    using j(2) [of "runs_map (n_sorted_runs n)"] bm_get_eq_map_of [OF j(1)] unfolding n'
    by (simp add: node_map_def btm.lookup_empty)
  moreover have "node_ok kmerge n'"
    using assms(1) j(1) unfolding n' by (auto simp: node_ok_def journal_ok_def pin_ok_def pin_default_def)
  ultimately show ?thesis unfolding n' by simp
qed

lemma compact_spec:
  assumes "kmerge_ok kmerge" and "node_ok kmerge n" and "compact kmerge n = ok n'"
  shows "node_ok kmerge n' \<and> node_map n' = node_map n \<and> n_pending_journal n' = [] \<and>
    length (n_sorted_runs n') \<le> 1 \<and> nh_sorted_run_count (n_header n') = length (n_sorted_runs n') \<and>
    \<not> pin_is_active (n_pin n')"
proof -
  note m = merge_iter_spec [OF assms(1,2)]
  obtain h j where n': "n' = \<lparr>n_header = h, n_sorted_runs = (if merge_iter kmerge n = [] then []
      else [\<lparr>run_seq = 0, run_journal_seq = j, run_flags = 0, run_entries = merge_iter kmerge n\<rparr>]),
      n_merged_view = None, n_pending_journal = [], n_dirty = True, n_pin = pin_default\<rparr>"
    and h: "nh_sorted_run_count h = (if merge_iter kmerge n = [] then 0 else 1)"
    using assms(3)
    by (auto simp: compact_def Let_def res_simps run_from_sorted_def raise_persisted_lsn_def split: if_splits)
  have "node_map n' = node_map n"
    using m(2) unfolding n' by (auto simp: node_map_def runs_map_def)
  then show ?thesis
    using m(1) h unfolding n' by (auto simp: node_ok_def journal_ok_def pin_ok_def pin_default_def pin_is_active_def)
qed

section \<open>Runs of operations\<close>

text \<open>Everything a client does to a node, with the map it should hold. A new journal entry for a key is newer
  than the pending ones for that key; entries for different keys come in any order.\<close>

definition fresh_lsn :: "('k, 'v) loaded_node \<Rightarrow> 'k \<Rightarrow> u64 \<Rightarrow> bool" where
  "fresh_lsn n k lsn \<longleftrightarrow> list_all (\<lambda>e. jop_key (je_op e) = k \<longrightarrow> je_lsn e < lsn) (n_pending_journal n)"

inductive node_reach :: "('k :: linorder, 'v) kmerge \<Rightarrow> ('k, 'v) loaded_node \<Rightarrow> ('k \<rightharpoonup> 'v) \<Rightarrow> bool"
  for kmerge where
  node_fresh: "node_reach kmerge (node_new kind level lg) Map.empty"
| node_ins: "node_reach kmerge n m \<Longrightarrow> fresh_lsn n k lsn \<Longrightarrow> node_reach kmerge (node_insert n lsn k v) (m(k \<mapsto> v))"
| node_del: "node_reach kmerge n m \<Longrightarrow> fresh_lsn n k lsn \<Longrightarrow> node_reach kmerge (node_remove n lsn k) (m(k := None))"
| node_look: "node_reach kmerge n m \<Longrightarrow> node_reach kmerge (snd (node_lookup kmerge n k)) m"
| node_flush: "node_reach kmerge n m \<Longrightarrow> flush_to_run n = ok n' \<Longrightarrow> node_reach kmerge n' m"
| node_compact: "node_reach kmerge n m \<Longrightarrow> compact kmerge n = ok n' \<Longrightarrow> node_reach kmerge n' m"

lemma node_reach_ok:
  assumes "node_reach kmerge n m" and "kmerge_ok kmerge"
  shows "node_ok kmerge n \<and> node_map n = m"
  using assms
proof (induction rule: node_reach.induct)
  case (node_fresh kind level lg)
  show ?case by (simp add: node_ok_new)
next
  case (node_ins n m k lsn v)
  then show ?case
    using push_ok [of kmerge n "JInsert k v" lsn]
    by (simp add: node_insert_def fresh_lsn_def list_all_iff apply_op_def)
next
  case (node_del n m k lsn)
  then show ?case
    using push_ok [of kmerge n "JRemove k" lsn]
    by (simp add: node_remove_def fresh_lsn_def list_all_iff apply_op_def)
next
  case (node_look n m k)
  then show ?case using lookup_spec by blast
next
  case (node_flush n m n')
  then show ?case using flush_spec by blast
next
  case (node_compact n m n')
  then show ?case using compact_spec by blast
qed

section \<open>Properties\<close>

text \<open>C5. A node behaves as a map under any sequence of inserts, removes, lookups, flushes and
  compactions in which each insert or remove has an LSN above those of the pending entries for the same key
  (entries for different keys may come in any order): a lookup, cached or not, returns the last value written,
  and a range scan returns exactly the live entries of the range in ascending key order.\<close>

theorem node_refines_map:
  assumes "kmerge_ok kmerge" and "node_reach kmerge n m"
  shows "fst (node_lookup kmerge n key) = m key \<and>
    sorted_wrt (<) (map fst (node_range kmerge n lo hi)) \<and>
    set (node_range kmerge n lo hi) = {(k, v). m k = Some v \<and> lo \<le> k \<and> k < hi}"
proof -
  have n: "node_ok kmerge n" and m: "node_map n = m" using node_reach_ok [OF assms(2,1)] by simp_all
  note mi = merge_iter_spec [OF assms(1) n]
  have d: "distinct (map fst (merge_iter kmerge n))" using mi(1) by (rule bm_wf_distinct)
  have "sorted_wrt (<) (map fst (node_range kmerge n lo hi))"
    using mi(1) by (simp add: node_range_def bm_wf_def sorted_wrt_map sorted_wrt_filter)
  moreover have "set (node_range kmerge n lo hi) = {(k, v). m k = Some v \<and> lo \<le> k \<and> k < hi}"
    using mi(2) m d by (auto simp: node_range_def map_of_eq_Some_iff)
  ultimately show ?thesis using lookup_spec(1) [OF assms(1) n] m by simp
qed

text \<open>An instance of the merge: sort all rows.\<close>

definition kmerge_sort :: "('k :: linorder, 'v) kmerge" where
  "kmerge_sort lt xss = sort_key row_pos (concat xss)"

lemma kmerge_sort_ok: "kmerge_ok kmerge_sort"
  unfolding kmerge_ok_def kmerge_sort_def row_less_pos
  by (intro allI impI conjI) (simp, metis sorted_map sorted_sort_key)

abbreviation wit_node :: "(nat, nat) loaded_node" where
  "wit_node \<equiv> node_remove (node_insert (node_insert (node_new Forward 0 18) 30 5 50) 12 7 70) 41 5"

lemma wit_node_reach: "node_reach kmerge_sort wit_node (Map.empty(5 \<mapsto> 50, 7 \<mapsto> 70, 5 := None))"
  by (intro node_del node_ins node_fresh)
    (simp_all add: fresh_lsn_def node_insert_def push_journal_def invalidate_cache_def node_new_def)

theorem node_refines_map_witness:
  "fst (node_lookup kmerge_sort wit_node 7) = Some 70 \<and> fst (node_lookup kmerge_sort wit_node 5) = None"
  using node_refines_map [OF kmerge_sort_ok wit_node_reach, of 7]
    node_refines_map [OF kmerge_sort_ok wit_node_reach, of 5] by simp

text \<open>Compaction loses nothing and leaves a single run: the compacted node holds the same map,
  has at most one sorted run, an empty journal, an inactive WAL pin, and a persisted LSN that
  covers every entry folded in.\<close>

theorem compact_preserves_map:
  assumes "kmerge_ok kmerge" and "node_reach kmerge n m" and "nh_seq (n_header n) + 1 < 2 ^ 64"
  shows "\<exists>n'. compact kmerge n = ok n' \<and> node_map n' = m \<and> length (n_sorted_runs n') \<le> 1 \<and>
    n_pending_journal n' = [] \<and> \<not> pin_is_active (n_pin n') \<and>
    list_all (\<lambda>e. je_lsn e \<le> nh_last_persisted_lsn (n_header n')) (n_pending_journal n)"
proof -
  have n: "node_ok kmerge n" and m: "node_map n = m" using node_reach_ok [OF assms(2,1)] by simp_all
  have "sorted (map fst (merge_iter kmerge n))"
    using merge_iter_spec(1) [OF assms(1) n] by (simp add: bm_wf_def strict_sorted_iff)
  then have "\<exists>n'. compact kmerge n = ok n' \<and>
      max_lsn_of (map je_lsn (n_pending_journal n) @ map run_journal_seq (n_sorted_runs n))
        \<le> nh_last_persisted_lsn (n_header n')"
    using assms(3) by (cases "merge_iter kmerge n = []")
      (simp_all add: compact_def Let_def run_from_sorted_def raise_persisted_lsn_def)
  then obtain n' where n': "compact kmerge n = ok n'"
    and lsn: "max_lsn_of (map je_lsn (n_pending_journal n) @ map run_journal_seq (n_sorted_runs n))
        \<le> nh_last_persisted_lsn (n_header n')" by blast
  have "je_lsn e \<le> nh_last_persisted_lsn (n_header n')" if "e \<in> set (n_pending_journal n)" for e
    using lsn max_lsn_ge [of "je_lsn e" "map je_lsn (n_pending_journal n) @ map run_journal_seq (n_sorted_runs n)"] that
    by simp
  then show ?thesis using n' compact_spec [OF assms(1) n n'] m by (simp add: list_all_iff)
qed

theorem compact_preserves_map_witness:
  "\<exists>n'. compact kmerge_sort wit_node = ok n' \<and> node_map n' = (\<lambda>k. if k = 7 then Some 70 else None) \<and>
     n_pending_journal n' = []"
proof -
  have "nh_seq (n_header wit_node) = 0"
    by (simp add: node_insert_def node_remove_def push_journal_def invalidate_cache_def node_new_def node_header_new_def)
  then show ?thesis using compact_preserves_map [OF kmerge_sort_ok wit_node_reach] by fastforce
qed

text \<open>Flushing the journal into a run either preserves the map and empties the journal, or is
  refused because the journal holds a tombstone, which a run cannot represent.\<close>

theorem flush_preserves_map:
  assumes "kmerge_ok kmerge" and "node_reach kmerge n m"
    and "list_all (\<lambda>r. run_seq r + 1 < 2 ^ 32) (n_sorted_runs n)"
  shows "if list_ex (\<lambda>e. is_tombstone (je_op e)) (n_pending_journal n) then \<exists>msg. flush_to_run n = err (CborEncode msg)
    else \<exists>n'. flush_to_run n = ok n' \<and> node_map n' = m \<and> n_pending_journal n' = []"
proof -
  have n: "node_ok kmerge n" and m: "node_map n = m" using node_reach_ok [OF assms(2,1)] by simp_all
  show ?thesis
  proof (cases "list_ex (\<lambda>e. is_tombstone (je_op e)) (n_pending_journal n)")
    case True
    then have "n_pending_journal n \<noteq> []" by auto
    with True show ?thesis by (simp add: flush_to_run_def)
  next
    case False
    have "fold max (map run_seq rs) a + 1 < 2 ^ 32" if "list_all (\<lambda>r. run_seq r + 1 < 2 ^ 32) rs" "a + 1 < 2 ^ 32"
      for rs :: "('a, 'b) sorted_run list" and a using that by (induction rs arbitrary: a) auto
    from this [OF assms(3), of 0] obtain s where "next_run_seq (n_sorted_runs n) = (ok s :: (storage_error, nat) res)"
      by (cases "n_sorted_runs n = []") (auto simp: next_run_seq_def Let_def)
    moreover have "sorted (map fst (journal_by_key (n_pending_journal n) []))"
      using journal_by_key_spec(1) [OF bm_wf_Nil False] by (simp add: bm_wf_def strict_sorted_iff)
    ultimately have "\<exists>n'. flush_to_run n = ok n'"
      using False by (cases "n_pending_journal n = []") (simp_all add: flush_to_run_def Let_def run_from_sorted_def)
    then show ?thesis using False flush_spec [OF n] m by auto
  qed
qed

theorem flush_preserves_map_witness:
  "(\<exists>msg. flush_to_run wit_node = err (CborEncode msg))"
  using flush_preserves_map [OF kmerge_sort_ok wit_node_reach]
  by (simp add: node_insert_def node_remove_def push_journal_def invalidate_cache_def node_new_def)

text \<open>The WAL pin of a node covers exactly its pending journal: it is active while something is
  pending, and then its bounds are the lowest and the highest pending LSN.\<close>

theorem node_pin_covers_journal:
  assumes "kmerge_ok kmerge" and "node_reach kmerge n m"
  shows "pin_is_active (n_pin n) = (n_pending_journal n \<noteq> []) \<and>
    list_all (\<lambda>e. pin_lsn_min (n_pin n) \<le> je_lsn e \<and> je_lsn e \<le> pin_lsn_max (n_pin n)) (n_pending_journal n)"
  using node_reach_ok [OF assms(2,1)] by (auto simp: node_ok_def pin_ok_def pin_is_active_def list_all_iff)

theorem node_pin_covers_journal_witness: "pin_is_active (n_pin wit_node) \<and> pin_lsn_min (n_pin wit_node) \<le> 12"
  using node_pin_covers_journal [OF kmerge_sort_ok wit_node_reach]
  by (simp add: node_insert_def node_remove_def push_journal_def invalidate_cache_def node_new_def)

end
