(* ===== verification/Mb_Region_Thms.thy ===== *)
theory Mb_Region_Thms
  imports Mb_Region Mb_Btree_Thms
begin

text \<open>
  What a region on a device holds: \<open>region_ok\<close> relates the device image, the header and
  the list of sorted runs. The full rewrite establishes it, the append of a run extends it, the
  reader returns it, and a run that was damaged is dropped without losing the earlier ones.
\<close>

unbundle bit_operations_syntax

section \<open>Layout\<close>

definition env_ok :: "('k, 'v) region_env \<Rightarrow> bool" where
  "env_ok env \<longleftrightarrow> (\<forall>es bs. env_encode env es = ok bs \<longrightarrow> env_decode env bs = ok es) \<and>
     (\<forall>c bs. env_crc32c_append env c bs < 2 ^ 32)"

definition run_wf :: "('k, 'v) sorted_run \<Rightarrow> bool" where
  "run_wf r \<longleftrightarrow> run_seq r < 2 ^ 32 \<and> run_journal_seq r < 2 ^ 64 \<and> run_flags r < 2 ^ 32 \<and> run_flags r AND 1 = 0"

fun runs_at ::
  "('k, 'v) region_env \<Rightarrow> byte list \<Rightarrow> u64 \<Rightarrow> u64 \<Rightarrow> ('k, 'v) sorted_run list \<Rightarrow> u64 \<Rightarrow> u64 \<Rightarrow> bool" where
  "runs_at env img cap offset [] cursor endc \<longleftrightarrow> cursor = endc"
| "runs_at env img cap offset (run # runs) cursor endc \<longleftrightarrow>
     (case encode_run env run of
        Inl _ \<Rightarrow> False
      | Inr (h, p) \<Rightarrow> length p < 2 ^ 32 \<and> offset + cursor + 32 + length p \<le> cap \<and>
          bslice (offset + cursor) (32 + length p) img = run_header_bytes h @ p \<and>
          runs_at env img cap offset runs (align_up_to_sector (cursor + (32 + length p))) endc)"

fun runs_fit :: "('k, 'v) region_env \<Rightarrow> u64 \<Rightarrow> ('k, 'v) sorted_run list \<Rightarrow> u64 \<Rightarrow> bool" where
  "runs_fit env rsize [] cursor \<longleftrightarrow> True"
| "runs_fit env rsize (run # runs) cursor \<longleftrightarrow>
     (case encode_run env run of
        Inl _ \<Rightarrow> False
      | Inr (h, p) \<Rightarrow> cursor + (32 + length p) \<le> rsize \<and>
          runs_fit env rsize runs (align_up_to_sector (cursor + (32 + length p))))"

definition region_at ::
  "('k, 'v) region_env \<Rightarrow> byte list \<Rightarrow> u64 \<Rightarrow> u64 \<Rightarrow> btree_node_header \<Rightarrow> ('k, 'v) sorted_run list \<Rightarrow> bool" where
  "region_at env img cap offset h runs \<longleftrightarrow> node_header_ok h \<and> bp_magic (nh_pre h) = BLOCK_PREAMBLE_MAGIC_BTREE \<and>
     12 \<le> nh_region_size_log2 h \<and> nh_region_size_log2 h < 32 \<and> offset + 2 ^ nh_region_size_log2 h \<le> cap \<and>
     bslice offset 4096 img = header_sector h \<and> nh_sorted_run_count h = length runs \<and>
     runs_at env img cap offset runs 4096 (4096 + nh_payload_used h) \<and>
     4096 + nh_payload_used h \<le> 2 ^ nh_region_size_log2 h \<and> nh_payload_used h mod 4096 = 0"

definition region_ok ::
  "('k, 'v) region_env \<Rightarrow> byte list \<Rightarrow> u64 \<Rightarrow> u64 \<Rightarrow> btree_node_header \<Rightarrow> ('k, 'v) sorted_run list \<Rightarrow> bool" where
  "region_ok env img cap offset h runs \<longleftrightarrow> region_at env img cap offset h runs \<and> list_all run_wf runs"

lemma encode_runD:
  assumes "encode_run env run = ok (h, p)"
  shows "env_encode env (run_entries run) = ok p" and "rh_magic h = SORTED_RUN_MAGIC" and "rh_seq h = run_seq run"
    and "rh_journal_seq h = run_journal_seq run" and "rh_flags h = run_flags run"
    and "rh_payload_length h = length p mod 2 ^ 32" and "run_header_verify env h p = ok ()"
    and "rh_entry_count h = length (run_entries run) mod 2 ^ 32"
    and "rh_crc h = compute_crc env (run_header_bytes (h\<lparr>rh_crc := 0\<rparr>)) p"
  using assms by (auto simp: encode_run_def res_simps Let_def run_header_verify_def)

lemma encode_run_header_ok:
  assumes "encode_run env run = ok (h, p)" and "env_ok env" and "run_wf run"
  shows "run_header_ok h"
proof -
  note e = encode_runD [OF assms(1)]
  have "compute_crc env x p < 2 ^ 32" for x using assms(2) by (simp add: compute_crc_def env_ok_def)
  then have "rh_crc h < 2 ^ 32" using e(9) by metis
  moreover have "rh_entry_count h < 2 ^ 32" "rh_payload_length h < 2 ^ 32" unfolding e(6,8) by simp_all
  ultimately show ?thesis
    using e(2-5) assms(3) by (simp add: run_header_ok_def run_wf_def SORTED_RUN_MAGIC_def)
qed

lemma runs_at_le: "runs_at env img cap offset runs cursor endc \<Longrightarrow> cursor \<le> endc"
proof (induction runs arbitrary: cursor)
  case (Cons run runs)
  from Cons.prems obtain h p where "encode_run env run = ok (h, p)"
    and "runs_at env img cap offset runs (align_up_to_sector (cursor + (32 + length p))) endc"
    by (auto split: sum.splits)
  then show ?case using Cons.IH align_up_ge [of "cursor + (32 + length p)"] by fastforce
qed simp

lemma runs_at_append:
  "runs_at env img cap offset (xs @ ys) cursor endc \<longleftrightarrow>
   (\<exists>mid. runs_at env img cap offset xs cursor mid \<and> runs_at env img cap offset ys mid endc)"
  by (induction xs arbitrary: cursor) (auto split: sum.splits)

text \<open>Only the bytes from the first run on matter.\<close>

lemma runs_at_cong:
  assumes "runs_at env img cap offset runs cursor endc"
    and "\<And>a n. offset + cursor \<le> a \<Longrightarrow> a + n \<le> offset + endc \<Longrightarrow> bslice a n img' = bslice a n img"
  shows "runs_at env img' cap offset runs cursor endc"
  using assms
proof (induction runs arbitrary: cursor)
  case (Cons run runs)
  from Cons.prems(1) obtain h p where e: "encode_run env run = ok (h, p)" and p: "length p < 2 ^ 32"
    "offset + cursor + 32 + length p \<le> cap" "bslice (offset + cursor) (32 + length p) img = run_header_bytes h @ p"
    "runs_at env img cap offset runs (align_up_to_sector (cursor + (32 + length p))) endc"
    by (auto split: sum.splits)
  have up: "cursor + (32 + length p) \<le> align_up_to_sector (cursor + (32 + length p))" by (rule align_up_ge)
  have "cursor + (32 + length p) \<le> endc" using up runs_at_le [OF p(4)] by simp
  then have "bslice (offset + cursor) (32 + length p) img' = run_header_bytes h @ p"
    using Cons.prems(2) [of "offset + cursor" "32 + length p"] p(3) by simp
  moreover have "runs_at env img' cap offset runs (align_up_to_sector (cursor + (32 + length p))) endc"
    using Cons.IH [OF p(4)] Cons.prems(2) up by simp
  ultimately show ?case using e p by simp
qed simp

lemma align_up_le: "x \<le> r \<Longrightarrow> r mod 4096 = 0 \<Longrightarrow> align_up_to_sector x \<le> r"
proof -
  assume "x \<le> r" and "r mod 4096 = 0"
  then obtain q where r: "r = q * 4096" by (metis mod_0_imp_dvd dvd_def mult.commute)
  have "(x + 4095) div 4096 \<le> (r + 4095) div 4096" using \<open>x \<le> r\<close> by (intro div_le_mono) simp
  also have "\<dots> = r div 4096" using div_mult_self3 [of 4096 q 4095] unfolding r by simp
  finally have "align_up_to_sector x \<le> r div 4096 * 4096" by (simp add: align_up_to_sector_def)
  also have "\<dots> \<le> r" by simp
  finally show ?thesis .
qed

lemma pow_mod_sector: "12 \<le> k \<Longrightarrow> (2 ^ k :: nat) mod 4096 = 0"
proof -
  assume "12 \<le> k"
  then have "(2 :: nat) ^ k = 2 ^ 12 * 2 ^ (k - 12)" by (metis le_add_diff_inverse power_add)
  then show ?thesis by simp
qed

section \<open>Reading and writing over a block device\<close>

context block_dev
begin

lemma read_runs_append:
  assumes env: "env_ok env" and d: "dinv d" and wf: "list_all run_wf runs"
    and at: "runs_at env (image d) (dev_capacity ops d) offset runs cursor endc" and pe: "endc \<le> payload_end"
  shows "read_runs ops env d offset payload_end (length runs + m) cursor =
    rbind (read_runs ops env d offset payload_end m endc) (\<lambda>rest. ok (runs @ rest))"
  using wf at
proof (induction runs arbitrary: cursor)
  case Nil
  then show ?case by (cases "read_runs ops env d offset payload_end m endc") simp_all
next
  case (Cons run runs)
  from Cons.prems(2) obtain h p where e: "encode_run env run = ok (h, p)" and p: "length p < 2 ^ 32"
    "offset + cursor + 32 + length p \<le> dev_capacity ops d"
    "bslice (offset + cursor) (32 + length p) (image d) = run_header_bytes h @ p"
    "runs_at env (image d) (dev_capacity ops d) offset runs (align_up_to_sector (cursor + (32 + length p))) endc"
    by (auto split: sum.splits)
  let ?next = "align_up_to_sector (cursor + (32 + length p))"
  note D = encode_runD [OF e]
  have hok: "run_header_ok h" using encode_run_header_ok [OF e env] Cons.prems(1) by simp
  have len: "rh_payload_length h = length p" using D(6) p(1) by simp
  have lt: "cursor < payload_end" using align_up_ge [of "cursor + (32 + length p)"] runs_at_le [OF p(4)] pe by simp
  have "bslice (offset + cursor) 32 (image d) = take 32 (bslice (offset + cursor) (32 + length p) (image d))"
    by (simp add: bslice_def)
  then have r1: "read_at ops d (offset + cursor) 32 = Inr (run_header_bytes h)"
    using read_in [OF d, of "offset + cursor" 32] p(2,3) by simp
  have "bslice (offset + cursor + 32) (length p) (image d) = drop 32 (bslice (offset + cursor) (32 + length p) (image d))"
    by (simp add: bslice_def drop_take add.commute add.left_commute)
  then have r2: "read_at ops d (offset + cursor + 32) (length p) = Inr p"
    using read_in [OF d, of "offset + cursor + 32" "length p"] p(2,3) by simp
  have dec: "env_decode env p = ok (run_entries run)" using env D(1) by (simp add: env_ok_def)
  have "\<not> payload_end \<le> cursor" using lt by simp
  moreover have "run_flags run AND 1 = 0" using Cons.prems(1) by (simp add: run_wf_def)
  moreover have "read_runs ops env d offset payload_end (length runs + m) ?next =
      rbind (read_runs ops env d offset payload_end m endc) (\<lambda>rest. ok (runs @ rest))"
    using Cons.IH [OF _ p(4)] Cons.prems(1) by simp
  ultimately show ?case
    using r1 r2 len D dec run_header_of_bytes [OF hok]
    by (cases "read_runs ops env d offset payload_end m endc") (simp_all add: Let_def)
qed

lemma region_read_ok:
  assumes env: "env_ok env" and d: "dinv d" and r: "region_ok env (image d) (dev_capacity ops d) offset h runs"
    and k: "bp_kind (nh_pre h) = btree_kind_u16 kind"
  shows "region_read ops env d offset kind = ok \<lparr>n_header = h, n_sorted_runs = runs, n_merged_view = None,
    n_pending_journal = [], n_dirty = False, n_pin = pin_default\<rparr>"
proof -
  have h: "node_header_ok h" "bp_magic (nh_pre h) = BLOCK_PREAMBLE_MAGIC_BTREE" "nh_region_size_log2 h < 32"
      "12 \<le> nh_region_size_log2 h" "offset + 2 ^ nh_region_size_log2 h \<le> dev_capacity ops d"
      "bslice offset 4096 (image d) = header_sector h" "nh_sorted_run_count h = length runs"
      "runs_at env (image d) (dev_capacity ops d) offset runs 4096 (4096 + nh_payload_used h)"
      "4096 + nh_payload_used h \<le> 2 ^ nh_region_size_log2 h" "list_all run_wf runs"
    using r by (simp_all add: region_ok_def region_at_def)
  have "read_at ops d offset 4096 = Inr (header_sector h)"
    using read_in [OF d, of offset 4096] h(5,6,9) by simp
  moreover have "read_runs ops env d offset (4096 + nh_payload_used h) (length runs) 4096 = ok runs"
    using read_runs_append [OF env d h(10,8) order_refl, of 0] by simp
  ultimately show ?thesis
    using parse_header_sector [OF h(1,2)] k h(3,7,9) by (simp add: region_read_def region_size_def)
qed

lemma write_runs_ok:
  assumes "dinv d" and "writable d" and "runs_fit env rsize runs cursor" and "offset + rsize \<le> dev_capacity ops d"
    and "rsize < 2 ^ 32" and "rsize mod 4096 = 0" and "cursor \<le> rsize"
  obtains endc d' where "write_runs ops env offset rsize runs cursor d = ok (endc, d')" and "dinv d'" and "writable d'"
    and "dev_capacity ops d' = dev_capacity ops d" and "endc \<le> rsize" and "length (image d') = length (image d)"
    and "runs_at env (image d') (dev_capacity ops d) offset runs cursor endc"
    and "\<forall>a n. a + n \<le> offset + cursor \<longrightarrow> bslice a n (image d') = bslice a n (image d)"
    and "runs \<noteq> [] \<Longrightarrow> endc mod 4096 = 0"
  using assms
proof (induction runs arbitrary: cursor d thesis)
  case Nil
  then show ?case by simp
next
  case (Cons run runs)
  from Cons.prems(4) obtain h p where e: "encode_run env run = ok (h, p)"
    and fit: "cursor + (32 + length p) \<le> rsize" "runs_fit env rsize runs (align_up_to_sector (cursor + (32 + length p)))"
    by (auto split: sum.splits)
  let ?next = "align_up_to_sector (cursor + (32 + length p))" and ?cap = "dev_capacity ops d"
  have nx: "cursor + (32 + length p) \<le> ?next" "?next \<le> rsize" "?next mod 4096 = 0"
    using align_up_ge align_up_le [OF fit(1) Cons.prems(7)] by simp_all
  obtain d1 where d1: "write_at ops d (offset + cursor) (run_header_bytes h) = Inr d1" "dinv d1" "writable d1"
      "dev_capacity ops d1 = ?cap" "image d1 = bsplice (offset + cursor) (run_header_bytes h) (image d)"
    using write_in [OF Cons.prems(2,3), of "offset + cursor" "run_header_bytes h"] fit(1) Cons.prems(5) by auto
  obtain d2 where d2: "write_at ops d1 (offset + cursor + 32) p = Inr d2" "dinv d2" "writable d2"
      "dev_capacity ops d2 = ?cap" "image d2 = bsplice (offset + cursor + 32) p (image d1)"
    using write_in [OF d1(2,3), of "offset + cursor + 32" p] d1(4) fit(1) Cons.prems(5) by auto
  have big: "offset + cursor + 32 + length p \<le> length (image d)"
    using fit(1) Cons.prems(5) cap_image [OF Cons.prems(2)] by simp
  then have len2: "length (image d2) = length (image d)" using d1(5) d2(5) by simp
  have img2: "image d2 = bsplice (offset + cursor) (run_header_bytes h @ p) (image d)"
    using big unfolding d2(5) d1(5) by (simp add: bsplice_def add.assoc add.commute add.left_commute)
  obtain endc d' where IH: "write_runs ops env offset rsize runs ?next d2 = ok (endc, d')" "dinv d'" "writable d'"
      "dev_capacity ops d' = dev_capacity ops d2" "endc \<le> rsize" "length (image d') = length (image d2)"
      "runs_at env (image d') (dev_capacity ops d2) offset runs ?next endc"
      "\<forall>a n. a + n \<le> offset + ?next \<longrightarrow> bslice a n (image d') = bslice a n (image d2)"
      "runs \<noteq> [] \<Longrightarrow> endc mod 4096 = 0"
    using Cons.IH [OF _ d2(2,3) fit(2)] d2(4) Cons.prems(5-7) nx(2) by (metis (no_types, lifting))
  have "write_runs ops env offset rsize (run # runs) cursor d = ok (endc, d')"
    using e d1(1) d2(1) IH(1) fit(1) by (simp add: Let_def)
  moreover have "bslice (offset + cursor) (32 + length p) (image d') = run_header_bytes h @ p"
    using IH(8) nx(1) big img2 by simp
  then have "runs_at env (image d') ?cap offset (run # runs) cursor endc"
    using e IH(7) d2(4) fit(1) Cons.prems(5,6) by simp
  moreover have "bslice a n (image d') = bslice a n (image d)" if "a + n \<le> offset + cursor" for a n
    using that IH(8) nx(1) big unfolding img2 by (simp add: bslice_bsplice_before)
  moreover have "endc mod 4096 = 0" using IH(1,9) nx(3) by (cases runs) auto
  ultimately show ?case using Cons.prems(1) IH d2(4) len2 by simp
qed

lemma header_write_ok:
  assumes "dinv d" and "writable d" and h: "node_header_ok h" and "offset + 4096 \<le> dev_capacity ops d"
    and at: "runs_at env (image d) (dev_capacity ops d) offset runs 4096 endc"
  obtains d' where "write_at ops d offset (header_sector h) = Inr d'" and "dinv d'" and "writable d'"
    and "dev_capacity ops d' = dev_capacity ops d" and "bslice offset 4096 (image d') = header_sector h"
    and "runs_at env (image d') (dev_capacity ops d) offset runs 4096 endc"
proof -
  note len = length_header_sector [OF h]
  obtain d' where d': "write_at ops d offset (header_sector h) = Inr d'" "dinv d'" "writable d'"
      "dev_capacity ops d' = dev_capacity ops d" "image d' = bsplice offset (header_sector h) (image d)"
    using write_in [OF assms(1,2), of offset "header_sector h"] assms(4) len by auto
  have room: "offset + 4096 \<le> length (image d)" using assms(4) cap_image [OF assms(1)] by simp
  have "runs_at env (image d') (dev_capacity ops d) offset runs 4096 endc"
    using at by (rule runs_at_cong) (use room len d'(5) in \<open>simp add: bslice_bsplice_after\<close>)
  then show ?thesis using that [of d'] d' room len by simp
qed

lemma write_full_at:
  assumes "dinv d" and "writable d" and h: "node_header_ok (n_header node)"
    and magic: "bp_magic (nh_pre (n_header node)) = BLOCK_PREAMBLE_MAGIC_BTREE"
    and lg: "12 \<le> nh_region_size_log2 (n_header node)" "nh_region_size_log2 (n_header node) < 32"
    and cap: "offset + 2 ^ nh_region_size_log2 (n_header node) \<le> dev_capacity ops d"
    and fit: "runs_fit env (2 ^ nh_region_size_log2 (n_header node)) (n_sorted_runs node) 4096"
    and cnt: "length (n_sorted_runs node) < 256" and seq: "nh_seq (n_header node) + 1 < 2 ^ 64"
  obtains h' d' where "write_full ops env d offset node = ok (node\<lparr>n_header := h', n_dirty := False\<rparr>, d')"
    and "dinv d'" and "writable d'" and "dev_capacity ops d' = dev_capacity ops d" and "nh_pre h' = nh_pre (n_header node)"
    and "region_at env (image d') (dev_capacity ops d') offset h' (n_sorted_runs node)"
proof -
  let ?lg = "nh_region_size_log2 (n_header node)" and ?runs = "n_sorted_runs node"
  have sz: "(2 :: nat) ^ ?lg < 2 ^ 32" using lg(2) by (intro power_strict_increasing) auto
  have "(2 :: nat) ^ 12 \<le> 2 ^ ?lg" using lg(1) by (intro power_increasing) auto
  then have min: "4096 \<le> (2 :: nat) ^ ?lg" by simp
  obtain endc d1 where w: "write_runs ops env offset (2 ^ ?lg) ?runs 4096 d = ok (endc, d1)" "dinv d1" "writable d1"
      "dev_capacity ops d1 = dev_capacity ops d" "endc \<le> 2 ^ ?lg"
      "runs_at env (image d1) (dev_capacity ops d) offset ?runs 4096 endc" "?runs \<noteq> [] \<Longrightarrow> endc mod 4096 = 0"
    using write_runs_ok [OF assms(1,2) fit cap sz pow_mod_sector [OF lg(1)] min] by metis
  have ge: "4096 \<le> endc" using runs_at_le [OF w(6)] .
  have al: "endc mod 4096 = 0" using w(1,7) by (cases "?runs = []") auto
  define h' where "h' = (n_header node)\<lparr>nh_payload_used := endc - 4096, nh_sorted_run_count := length ?runs,
    nh_seq := nh_seq (n_header node) + 1\<rparr>"
  have h': "node_header_ok h'" using h cnt seq w(5) sz by (simp add: h'_def node_header_ok_def)
  obtain d2 where d2: "write_at ops d1 offset (header_sector h') = Inr d2" "dinv d2" "writable d2"
      "dev_capacity ops d2 = dev_capacity ops d1" "bslice offset 4096 (image d2) = header_sector h'"
      "runs_at env (image d2) (dev_capacity ops d1) offset ?runs 4096 endc"
    using header_write_ok [OF w(2,3) h', of offset env ?runs endc] w(4,6) cap min by (metis add_left_mono order_trans)
  have "write_full ops env d offset node = ok (node\<lparr>n_header := h', n_dirty := False\<rparr>, d2)"
    using w(1,5) lg sz cnt seq d2(1) by (simp add: write_full_def region_size_def Let_def h'_def)
  moreover have "(endc - 4096) mod 4096 = 0" using al ge by (simp add: mod_eq_0_iff_dvd dvd_diff_nat)
  then have "region_at env (image d2) (dev_capacity ops d2) offset h' ?runs"
    using h' magic lg cap d2(4-6) w(4,5) ge by (simp add: region_at_def h'_def)
  ultimately show ?thesis using that d2(2-4) w(4) by (simp add: h'_def)
qed

lemma write_full_ok:
  assumes "dinv d" and "writable d" and "node_header_ok (n_header node)"
    and "bp_magic (nh_pre (n_header node)) = BLOCK_PREAMBLE_MAGIC_BTREE"
    and "12 \<le> nh_region_size_log2 (n_header node)" "nh_region_size_log2 (n_header node) < 32"
    and "offset + 2 ^ nh_region_size_log2 (n_header node) \<le> dev_capacity ops d"
    and "runs_fit env (2 ^ nh_region_size_log2 (n_header node)) (n_sorted_runs node) 4096"
    and "length (n_sorted_runs node) < 256" and "nh_seq (n_header node) + 1 < 2 ^ 64"
    and "list_all run_wf (n_sorted_runs node)"
  obtains h' d' where "write_full ops env d offset node = ok (node\<lparr>n_header := h', n_dirty := False\<rparr>, d')"
    and "dinv d'" and "writable d'" and "dev_capacity ops d' = dev_capacity ops d" and "nh_pre h' = nh_pre (n_header node)"
    and "region_ok env (image d') (dev_capacity ops d') offset h' (n_sorted_runs node)"
  using write_full_at [OF assms(1-10)] assms(11) unfolding region_ok_def by metis

lemma append_run_ok:
  assumes env: "env_ok env" and d: "dinv d" "writable d"
    and r: "region_ok env (image d) (dev_capacity ops d) offset h runs" and wf: "run_wf run"
    and e: "encode_run env run = ok (rh, p)"
    and fit: "4096 + nh_payload_used h + (32 + length p) \<le> 2 ^ nh_region_size_log2 h"
    and cnt: "length runs + 1 < 256" and seq: "nh_seq h + 1 < 2 ^ 64"
  obtains h' d' where "append_sorted_run ops env d offset h run = ok (h', d')" and "dinv d'" and "writable d'"
    and "dev_capacity ops d' = dev_capacity ops d" and "nh_pre h' = nh_pre h"
    and "region_ok env (image d') (dev_capacity ops d') offset h' (runs @ [run])"
proof -
  let ?lg = "nh_region_size_log2 h" and ?c = "4096 + nh_payload_used h" and ?cap = "dev_capacity ops d"
  have h: "node_header_ok h" "bp_magic (nh_pre h) = BLOCK_PREAMBLE_MAGIC_BTREE" "12 \<le> ?lg" "?lg < 32"
      "offset + 2 ^ ?lg \<le> ?cap" "nh_sorted_run_count h = length runs"
      "runs_at env (image d) ?cap offset runs 4096 ?c" "nh_payload_used h mod 4096 = 0" "list_all run_wf runs"
    using r by (simp_all add: region_ok_def region_at_def)
  have sz: "(2 :: nat) ^ ?lg < 2 ^ 32" using h(4) by (intro power_strict_increasing) auto
  have fits: "runs_fit env (2 ^ ?lg) [run] ?c" using e fit by simp
  have le: "?c \<le> 2 ^ ?lg" using fit by simp
  obtain endc d1 where w: "write_runs ops env offset (2 ^ ?lg) [run] ?c d = ok (endc, d1)" "dinv d1" "writable d1"
      "dev_capacity ops d1 = ?cap" "endc \<le> 2 ^ ?lg" "runs_at env (image d1) ?cap offset [run] ?c endc"
      "\<forall>a n. a + n \<le> offset + ?c \<longrightarrow> bslice a n (image d1) = bslice a n (image d)" "endc mod 4096 = 0"
    using write_runs_ok [OF d fits h(5) sz pow_mod_sector [OF h(3)] le] by (metis list.distinct(1))
  have endc: "endc = align_up_to_sector (?c + (32 + length p))" using w(6) e by simp
  have ge: "4096 \<le> endc" using runs_at_le [OF w(6)] by simp
  have at1: "runs_at env (image d1) ?cap offset runs 4096 ?c"
    using h(7) by (rule runs_at_cong) (use w(7) in simp)
  then have at: "runs_at env (image d1) ?cap offset (runs @ [run]) 4096 endc"
    using w(6) by (auto simp: runs_at_append)
  define h' where "h' = raise_persisted_lsn (run_journal_seq run) (h\<lparr>nh_payload_used := endc - 4096,
    nh_sorted_run_count := nh_sorted_run_count h + 1, nh_seq := nh_seq h + 1\<rparr>)"
  have h': "node_header_ok h'" "nh_pre h' = nh_pre h" "nh_region_size_log2 h' = ?lg" "nh_payload_used h' = endc - 4096"
      "nh_sorted_run_count h' = length runs + 1"
    using h(1,6) cnt seq w(5) sz wf by (simp_all add: h'_def node_header_ok_def raise_persisted_lsn_def run_wf_def)
  have cap: "offset + 4096 \<le> dev_capacity ops d1" using h(5) w(4,5) ge by simp
  have atcap: "runs_at env (image d1) (dev_capacity ops d1) offset (runs @ [run]) 4096 endc" using at w(4) by simp
  obtain d2 where d2: "write_at ops d1 offset (header_sector h') = Inr d2" "dinv d2" "writable d2"
      "dev_capacity ops d2 = dev_capacity ops d1" "bslice offset 4096 (image d2) = header_sector h'"
      "runs_at env (image d2) (dev_capacity ops d1) offset (runs @ [run]) 4096 endc"
    using header_write_ok [OF w(2,3) h'(1) cap atcap] by metis
  obtain dm where wr: "write_at ops d (offset + ?c) (run_header_bytes rh) = Inr dm" "write_at ops dm (offset + ?c + 32) p = Inr d1"
    using w(1) e fit by (auto simp: Let_def res_simps)
  have "?c mod 4096 = 0" using h(8) by (simp add: mod_add_left_eq [symmetric])
  moreover have "endc - 4096 \<le> 2 ^ 32 - 1" using w(5) sz by simp
  moreover have "align_up_to_sector (4128 + (nh_payload_used h + length p)) = endc"
    using endc by (simp add: ac_simps)
  moreover have "raise_persisted_lsn (run_journal_seq run) (h\<lparr>nh_payload_used := endc - 4096,
      nh_sorted_run_count := Suc (length runs), nh_seq := Suc (nh_seq h)\<rparr>) = h'"
    using h(6) by (simp add: h'_def)
  ultimately have "append_sorted_run ops env d offset h run = ok (h', d2)"
    using h(4,6) e fit wr d2(1) cnt seq
    by (simp add: append_sorted_run_def region_size_def Let_def add.assoc)
  moreover have "(endc - 4096) mod 4096 = 0" using w(8) ge by (simp add: mod_eq_0_iff_dvd dvd_diff_nat)
  then have "region_ok env (image d2) (dev_capacity ops d2) offset h' (runs @ [run])"
    using h' h(2,3,4,5,9) d2(4-6) w(4,5) ge wf by (simp add: region_ok_def region_at_def)
  ultimately show ?thesis using that d2(2-4) w(4) h'(2) by simp
qed

end

section \<open>Properties\<close>

abbreviation fregion ::
  "('k, 'v) region_env \<Rightarrow> file_device \<Rightarrow> u64 \<Rightarrow> btree_node_header \<Rightarrow> ('k, 'v) sorted_run list \<Rightarrow> bool" where
  "fregion env d offset h runs \<equiv> file_device_inv d \<and> fd_writable d \<and> region_ok env (fd_file d) (fd_capacity d) offset h runs"

definition node_writable :: "('k, 'v) region_env \<Rightarrow> file_device \<Rightarrow> u64 \<Rightarrow> ('k, 'v) loaded_node \<Rightarrow> bool" where
  "node_writable env d offset node \<longleftrightarrow> node_header_ok (n_header node) \<and>
     bp_magic (nh_pre (n_header node)) = BLOCK_PREAMBLE_MAGIC_BTREE \<and>
     12 \<le> nh_region_size_log2 (n_header node) \<and> nh_region_size_log2 (n_header node) < 32 \<and>
     offset + 2 ^ nh_region_size_log2 (n_header node) \<le> fd_capacity d \<and>
     runs_fit env (2 ^ nh_region_size_log2 (n_header node)) (n_sorted_runs node) 4096 \<and>
     list_all run_wf (n_sorted_runs node) \<and> length (n_sorted_runs node) < 256 \<and> nh_seq (n_header node) + 1 < 2 ^ 64"

text \<open>C6. A node whose runs fit its region is written and read back: the write succeeds, and reading the
  region returns the same sorted runs, so the same map, whatever the device held before.\<close>

theorem region_roundtrip:
  assumes "env_ok env" and "file_device_inv d" and "fd_writable d" and "node_writable env d offset node"
    and "bp_kind (nh_pre (n_header node)) = btree_kind_u16 kind"
  shows "\<exists>node' d' r. write_full file_block_device env d offset node = ok (node', d') \<and>
    region_read file_block_device env d' offset kind = ok r \<and> n_header r = n_header node' \<and>
    n_sorted_runs r = n_sorted_runs node \<and> node_map r = runs_map (n_sorted_runs node) \<and> \<not> n_dirty node'"
proof -
  obtain h' d' where w: "write_full file_block_device env d offset node = ok (node\<lparr>n_header := h', n_dirty := False\<rparr>, d')"
      "file_device_inv d'" "nh_pre h' = nh_pre (n_header node)"
      "region_ok env (fd_file d') (fd_capacity d') offset h' (n_sorted_runs node)"
    using fdev.write_full_ok [OF assms(2,3), of node offset env] assms(4)
    unfolding node_writable_def file_capacity by metis
  have "bp_kind (nh_pre h') = btree_kind_u16 kind" using w(3) assms(5) by simp
  from fdev.region_read_ok [OF assms(1) w(2) _ this] w(1,4) show ?thesis
    by (simp add: node_map_def)
qed

fun byte_pairs :: "byte list \<Rightarrow> (byte \<times> byte) list" where
  "byte_pairs (a # b # bs) = (a, b) # byte_pairs bs"
| "byte_pairs _ = []"

definition byte_env :: "(byte, byte) region_env" where
  "byte_env = \<lparr>env_encode = \<lambda>es. ok (concat (map (\<lambda>(k, v). [k, v]) es)), env_decode = \<lambda>bs. ok (byte_pairs bs),
     env_crc32c = zcrc, env_crc32c_append = \<lambda>_. zcrc\<rparr>"

lemma byte_env_ok: "env_ok byte_env"
proof -
  have "byte_pairs (concat (map (\<lambda>(k, v). [k, v]) es)) = es" for es by (induction es) auto
  then show ?thesis by (simp add: env_ok_def byte_env_def)
qed

definition wit_run :: "byte \<Rightarrow> (byte, byte) sorted_run" where
  "wit_run k = \<lparr>run_seq = 0, run_journal_seq = 9, run_flags = 0, run_entries = [(k, 7)]\<rparr>"

definition wit_region_node :: "(byte, byte) loaded_node" where
  "wit_region_node = (node_new Forward 0 14)\<lparr>n_sorted_runs := [wit_run 1]\<rparr>"

abbreviation wit_file :: file_device where "wit_file \<equiv> file_device_open [] 32768"

lemma wit_file_ok: "file_device_inv wit_file" "fd_writable wit_file" "fd_capacity wit_file = 32768"
  by (simp_all add: file_device_inv_def file_device_open_def fd_writable_def)

lemma wit_encode: "\<exists>h p. encode_run byte_env (wit_run k) = ok (h, p) \<and> length p = 2"
  by (simp add: encode_run_def byte_env_def wit_run_def Let_def)

lemma wit_region_writable: "node_writable byte_env wit_file 0 wit_region_node"
proof -
  obtain h p where e: "encode_run byte_env (wit_run 1) = ok (h, p)" "length p = 2" using wit_encode by blast
  have "runs_fit byte_env 16384 [wit_run 1] 4096" using e by simp
  then show ?thesis
    by (simp add: node_writable_def wit_region_node_def node_new_def node_header_new_def node_header_ok_def
        preamble_ok_def BLOCK_PREAMBLE_MAGIC_BTREE_def wit_file_ok(3) wit_run_def run_wf_def)
qed

theorem region_roundtrip_witness:
  "\<exists>node' d' r. write_full file_block_device byte_env wit_file 0 wit_region_node = ok (node', d') \<and>
     region_read file_block_device byte_env d' 0 Forward = ok r \<and> node_map r 1 = Some 7"
proof -
  have "bp_kind (nh_pre (n_header wit_region_node)) = btree_kind_u16 Forward"
    by (simp add: wit_region_node_def node_new_def node_header_new_def)
  from region_roundtrip [OF byte_env_ok wit_file_ok(1,2) wit_region_writable this]
  show ?thesis by (auto simp: wit_region_node_def runs_map_def wit_run_def)
qed

lemma wit_region:
  obtains h d where "fregion byte_env d 0 h [wit_run 1]" and "nh_seq h = 1" and "nh_payload_used h = 4096"
    and "nh_region_size_log2 h = 14" and "bp_kind (nh_pre h) = btree_kind_u16 Forward"
proof -
  obtain h' d' where w: "write_full file_block_device byte_env wit_file 0 wit_region_node =
      ok (wit_region_node\<lparr>n_header := h', n_dirty := False\<rparr>, d')" "file_device_inv d'" "fd_writable d'"
      "nh_pre h' = nh_pre (n_header wit_region_node)"
      "region_ok byte_env (fd_file d') (fd_capacity d') 0 h' (n_sorted_runs wit_region_node)"
    using fdev.write_full_ok [OF wit_file_ok(1,2), of wit_region_node 0 byte_env] wit_region_writable
    unfolding node_writable_def file_capacity by metis
  obtain rh p where e: "encode_run byte_env (wit_run 1) = ok (rh, p)" "length p = 2" using wit_encode by blast
  have "runs_at byte_env (fd_file d') (fd_capacity d') 0 [wit_run 1] 4096 (4096 + nh_payload_used h')"
    using w(5) by (simp add: region_ok_def region_at_def wit_region_node_def)
  then have "4096 + nh_payload_used h' = align_up_to_sector 4130" using e by simp
  moreover have "align_up_to_sector 4130 = 8192" by (simp add: align_up_to_sector_def)
  moreover have "nh_seq h' = 1 \<and> nh_region_size_log2 h' = 14"
    using w(1) by (auto simp: write_full_def Let_def res_simps region_size_def add_u64_def
        wit_region_node_def node_new_def node_header_new_def loaded_node.ext_inject split: if_splits prod.splits)
  ultimately show ?thesis
    using that [of d' h'] w(2-5) by (simp add: wit_region_node_def node_new_def node_header_new_def)
qed

text \<open>Appending a run to a region keeps every run already there: the append succeeds when the run
  fits, and the region then reads back as the old runs followed by the new one.\<close>

theorem region_append_extends:
  assumes "env_ok env" and "fregion env d offset h runs" and "run_wf run"
    and "encode_run env run = ok (rh, p)"
    and "4096 + nh_payload_used h + (32 + length p) \<le> 2 ^ nh_region_size_log2 h"
    and "length runs + 1 < 256" and "nh_seq h + 1 < 2 ^ 64" and "bp_kind (nh_pre h) = btree_kind_u16 kind"
  shows "\<exists>h' d' r. append_sorted_run file_block_device env d offset h run = ok (h', d') \<and>
    region_read file_block_device env d' offset kind = ok r \<and> n_sorted_runs r = runs @ [run] \<and>
    node_map r = runs_map runs ++ map_of (run_entries run)"
proof -
  have d: "file_device_inv d" "fd_writable d" and r: "region_ok env (fd_file d) (fd_capacity d) offset h runs"
    using assms(2) by simp_all
  obtain h' d' where w: "append_sorted_run file_block_device env d offset h run = ok (h', d')" "file_device_inv d'"
      "nh_pre h' = nh_pre h" "region_ok env (fd_file d') (fd_capacity d') offset h' (runs @ [run])"
    using fdev.append_run_ok [OF assms(1) d, of offset h runs run rh p] r assms(3-7) unfolding file_capacity by metis
  have "bp_kind (nh_pre h') = btree_kind_u16 kind" using w(3) assms(8) by simp
  from fdev.region_read_ok [OF assms(1) w(2) _ this] w(1,4) show ?thesis
    by (simp add: node_map_def)
qed

theorem region_append_extends_witness:
  "\<exists>d h h' d' r. append_sorted_run file_block_device byte_env d 0 h (wit_run 2) = ok (h', d') \<and>
     region_read file_block_device byte_env d' 0 Forward = ok r \<and> n_sorted_runs r = [wit_run 1, wit_run 2]"
proof -
  obtain h d where r: "fregion byte_env d 0 h [wit_run 1]" "nh_seq h = 1" "nh_payload_used h = 4096"
      "nh_region_size_log2 h = 14" "bp_kind (nh_pre h) = btree_kind_u16 Forward"
    using wit_region by metis
  obtain rh p where e: "encode_run byte_env (wit_run 2) = ok (rh, p)" "length p = 2" using wit_encode by blast
  have wf: "run_wf (wit_run 2)" by (simp add: run_wf_def wit_run_def)
  have fit: "4096 + nh_payload_used h + (32 + length p) \<le> 2 ^ nh_region_size_log2 h"
    unfolding r(3,4) e(2) by simp
  from region_append_extends [OF byte_env_ok r(1) wf e(1) fit _ _ r(5)] r(2) show ?thesis by fastforce
qed

definition run_damaged :: "('k, 'v) region_env \<Rightarrow> byte list \<Rightarrow> u64 \<Rightarrow> u64 \<Rightarrow> bool" where
  "run_damaged env img cap pos \<longleftrightarrow> pos + 32 \<le> cap \<and>
     (let rh = run_header_of (bslice pos 32 img)
      in rh_magic rh \<noteq> SORTED_RUN_MAGIC \<or>
         (rh_flags rh AND 1 = 0 \<and> pos + 32 + rh_payload_length rh \<le> cap \<and>
          run_header_verify env rh (bslice (pos + 32) (rh_payload_length rh) img) \<noteq> ok ()))"

text \<open>A damaged run costs only itself and what follows: when the header promises more runs than are
  intact, the reader returns the intact prefix instead of an error.\<close>

theorem region_damaged_run_dropped:
  assumes "env_ok env" and "file_device_inv d" and "node_header_ok h" and "bp_magic (nh_pre h) = BLOCK_PREAMBLE_MAGIC_BTREE"
    and "bp_kind (nh_pre h) = btree_kind_u16 kind" and "nh_region_size_log2 h < 64"
    and "nh_payload_used h \<le> 2 ^ nh_region_size_log2 h" and "offset + 4096 \<le> fd_capacity d"
    and "bslice offset 4096 (fd_file d) = header_sector h" and "list_all run_wf runs"
    and "runs_at env (fd_file d) (fd_capacity d) offset runs 4096 endc" and "endc < 4096 + nh_payload_used h"
    and "length runs < nh_sorted_run_count h" and "run_damaged env (fd_file d) (fd_capacity d) (offset + endc)"
  shows "\<exists>r. region_read file_block_device env d offset kind = ok r \<and> n_sorted_runs r = runs"
proof -
  let ?pe = "4096 + nh_payload_used h"
  obtain m where m: "nh_sorted_run_count h = length runs + Suc m" using assms(13) less_imp_Suc_add by fastforce
  have rd: "read_at file_block_device d a n = Inr (bslice a n (fd_file d))" if "a + n \<le> fd_capacity d" for a n
    using fdev.read_in [OF assms(2), of a n] that by simp
  have "read_runs file_block_device env d offset ?pe (Suc m) endc = ok []"
    using assms(12,14) rd [of "offset + endc" 32] rd [of "offset + endc + 32"]
    by (auto simp: run_damaged_def Let_def)
  then have "read_runs file_block_device env d offset ?pe (nh_sorted_run_count h) 4096 = ok runs"
    using fdev.read_runs_append [OF assms(1,2,10), of offset 4096 endc ?pe "Suc m"] assms(11,12) m by simp
  then show ?thesis
    using rd [OF assms(8)] parse_header_sector [OF assms(3,4)] assms(5-7,9)
    by (simp add: region_read_def region_size_def)
qed

theorem region_damaged_run_dropped_witness:
  "\<exists>d h r. fregion byte_env d 0 h [wit_run 1] \<and>
     region_read file_block_device byte_env (d\<lparr>fd_file := bsplice 4096 (replicate 32 0) (fd_file d)\<rparr>) 0 Forward = ok r \<and>
     n_sorted_runs r = []"
proof -
  obtain h d where r: "fregion byte_env d 0 h [wit_run 1]" "nh_payload_used h = 4096" "nh_region_size_log2 h = 14"
      "bp_kind (nh_pre h) = btree_kind_u16 Forward"
    using wit_region by metis
  let ?d = "d\<lparr>fd_file := bsplice 4096 (replicate 32 0) (fd_file d)\<rparr>"
  have h: "node_header_ok h" "bp_magic (nh_pre h) = BLOCK_PREAMBLE_MAGIC_BTREE" "16384 \<le> fd_capacity d"
      "bslice 0 4096 (fd_file d) = header_sector h" "nh_sorted_run_count h = 1"
    using r(1) unfolding region_ok_def region_at_def r(3) by (simp_all del: bslice_0)
  have len: "16384 \<le> length (fd_file d)" using r(1) h(3) by (simp add: file_device_inv_def)
  have inv: "file_device_inv ?d" using r(1) len by (simp add: file_device_inv_def)
  have hs: "bslice 0 4096 (fd_file ?d) = header_sector h"
    using h(4) len bslice_bsplice_before [of 0 4096 4096 "fd_file d" "replicate 32 0"] by (simp del: bslice_0)
  have "bslice 4096 32 (fd_file ?d) = replicate 32 0" using len by simp
  then have "rh_magic (run_header_of (bslice 4096 32 (fd_file ?d))) = 0"
    by (simp add: run_header_of_def get_le_def bslice_replicate del: bslice_0)
  then have dam: "run_damaged byte_env (fd_file ?d) (fd_capacity ?d) (0 + 4096)"
    using h(3) by (simp add: run_damaged_def SORTED_RUN_MAGIC_def)
  have lg: "nh_region_size_log2 h < 64" "nh_payload_used h \<le> 2 ^ nh_region_size_log2 h" unfolding r(2,3) by simp_all
  from region_damaged_run_dropped [OF byte_env_ok inv h(1,2) r(4) lg _ hs _ _ _ _ dam, of "[]"] h(3,5) r(2)
  have "\<exists>r. region_read file_block_device byte_env ?d 0 Forward = ok r \<and> n_sorted_runs r = []" by simp
  with r(1) show ?thesis by blast
qed

section \<open>Appending on a device that loses writes\<close>

text \<open>A device that keeps only a prefix of each write: \<open>ld_fate\<close> says how many bytes of the following writes reach
  the file, and writes beyond the list are complete. The caller sees every write succeed, as before a crash.\<close>

record lossy_device =
  ld_file :: file_device
  ld_fate :: "nat list"

definition lossy_put :: "lossy_device \<Rightarrow> u64 \<Rightarrow> byte list \<Rightarrow> lossy_device" where
  "lossy_put d off bs =
     (let k = (case ld_fate d of [] \<Rightarrow> length bs | k # _ \<Rightarrow> k); f = ld_file d
      in \<lparr>ld_file = f\<lparr>fd_file := bsplice off (take k bs) (fd_file f)\<rparr>, ld_fate = tl (ld_fate d)\<rparr>)"

definition lossy_block_device :: "lossy_device block_device" where
  "lossy_block_device =
     \<lparr>read_at = (\<lambda>d. file_read_at (ld_file d)),
      write_at = (\<lambda>d off bs. rbind (file_write_at (ld_file d) off bs) (\<lambda>_. ok (lossy_put d off bs))),
      dev_capacity = (\<lambda>d. fd_capacity (ld_file d)), dev_sync = ok\<rparr>"

lemma lossy_write:
  assumes "file_device_inv (ld_file d)" and "fd_writable (ld_file d)" and "off + length bs \<le> fd_capacity (ld_file d)"
  shows "write_at lossy_block_device d off bs = ok (lossy_put d off bs)"
  using assms by (simp add: lossy_block_device_def file_write_at_def fd_writable_def file_device_inv_def add_u64_def)

lemma lossy_put_file:
  assumes "file_device_inv (ld_file d)" and "off + length bs \<le> fd_capacity (ld_file d)"
  shows "file_device_inv (ld_file (lossy_put d off bs))"
proof -
  have "off + length (take k bs) \<le> length (fd_file (ld_file d))" for k
    using assms by (auto simp: file_device_inv_def min_def)
  then show ?thesis using assms by (simp add: lossy_put_def Let_def file_device_inv_def del: length_take)
qed

lemma lossy_put_fields [simp]:
  "fd_writable (ld_file (lossy_put d off bs)) = fd_writable (ld_file d)"
  "fd_capacity (ld_file (lossy_put d off bs)) = fd_capacity (ld_file d)"
  by (simp_all add: lossy_put_def Let_def fd_writable_def)

text \<open>An append does on one device what it does on another where its three writes succeed.\<close>

lemma append_sorted_run_transfer:
  assumes "append_sorted_run ops env d offset h run = ok (h', d')" and "encode_run env run = ok (rh, p)"
    and "write_at ops2 e (offset + (4096 + nh_payload_used h)) (run_header_bytes rh) = ok e1"
    and "write_at ops2 e1 (offset + (4096 + nh_payload_used h) + 32) p = ok e2"
    and "write_at ops2 e2 offset (header_sector h') = ok e3"
  shows "append_sorted_run ops2 env e offset h run = ok (h', e3)"
  using assms by (auto simp: append_sorted_run_def Let_def res_simps split: if_splits)

lemma append_sorted_run_file:
  assumes "append_sorted_run file_block_device env d offset h run = ok (h', d')" and "encode_run env run = ok (rh, p)"
    and "file_device_inv d" and "offset + (4096 + nh_payload_used h) + 32 + length p \<le> fd_capacity d"
  shows "fd_file d' = bsplice offset (header_sector h') (bsplice (offset + (4096 + nh_payload_used h) + 32) p
    (bsplice (offset + (4096 + nh_payload_used h)) (run_header_bytes rh) (fd_file d)))"
  using assms
  by (auto simp: append_sorted_run_def Let_def res_simps file_block_device_def file_write_at_def extend_file_def
      file_device_inv_def split: if_splits)

lemma bsplice_Nil [simp]: "bsplice a [] bs = bs"
  by (simp add: bsplice_def)

lemma fd_file_same [simp]: "d\<lparr>fd_file := fd_file d\<rparr> = d"
  by simp

text \<open>Only the bytes up to the used payload matter to a region.\<close>

lemma region_ok_past:
  assumes "region_ok env img cap offset h runs"
    and "\<And>a n. a + n \<le> offset + (4096 + nh_payload_used h) \<Longrightarrow> bslice a n img' = bslice a n img"
  shows "region_ok env img' cap offset h runs"
proof -
  have "runs_at env img cap offset runs 4096 (4096 + nh_payload_used h)" using assms(1) by (simp add: region_ok_def region_at_def)
  then have "runs_at env img' cap offset runs 4096 (4096 + nh_payload_used h)" by (rule runs_at_cong) (use assms(2) in simp)
  then show ?thesis using assms by (simp add: region_ok_def region_at_def)
qed

lemma region_append_file:
  assumes "env_ok env" and "fregion env d offset h runs" and "run_wf run" and "encode_run env run = ok (rh, p)"
    and "4096 + nh_payload_used h + (32 + length p) \<le> 2 ^ nh_region_size_log2 h"
    and "length runs + 1 < 256" and "nh_seq h + 1 < 2 ^ 64"
  obtains h' d' where "append_sorted_run file_block_device env d offset h run = ok (h', d')" and "nh_pre h' = nh_pre h"
    and "fregion env d' offset h' (runs @ [run])" and "fd_capacity d' = fd_capacity d"
    and "4096 + nh_payload_used h < 4096 + nh_payload_used h'"
    and "offset + (4096 + nh_payload_used h) + 32 + length p \<le> fd_capacity d"
proof -
  have d: "file_device_inv d" "fd_writable d" and r: "region_ok env (fd_file d) (fd_capacity d) offset h runs"
    using assms(2) by simp_all
  obtain h' d' where w: "append_sorted_run file_block_device env d offset h run = ok (h', d')" "file_device_inv d'"
      "fd_writable d'" "fd_capacity d' = fd_capacity d" "nh_pre h' = nh_pre h"
      "region_ok env (fd_file d') (fd_capacity d') offset h' (runs @ [run])"
    using fdev.append_run_ok [OF assms(1) d, of offset h runs run rh p] r assms(3-7) unfolding file_capacity by metis
  have cap: "offset + (4096 + nh_payload_used h) + 32 + length p \<le> fd_capacity d"
    using r assms(5) by (simp add: region_ok_def region_at_def)
  have "nh_payload_used h' = align_up_to_sector (4096 + nh_payload_used h + (32 + length p)) - 4096"
    using w(1) assms(4) by (auto simp: append_sorted_run_def Let_def res_simps raise_persisted_lsn_def split: if_splits)
  then have "4096 + nh_payload_used h < 4096 + nh_payload_used h'"
    using align_up_ge [of "4096 + nh_payload_used h + (32 + length p)"] by simp
  then show thesis using that w cap by simp
qed

text \<open>What the three writes leave behind, and that a part of a write stays within its range.\<close>

definition torn_file :: "file_device \<Rightarrow> u64 \<Rightarrow> byte list \<Rightarrow> byte list \<Rightarrow> file_device" where
  "torn_file d pos rhb p = d\<lparr>fd_file := bsplice (pos + 32) p (bsplice pos rhb (fd_file d))\<rparr>"

lemma torn_file_before:
  assumes "file_device_inv d" and "pos + 32 + length p \<le> fd_capacity d" and "length rhb \<le> 32"
  shows "file_device_inv (torn_file d pos rhb p)" and "fd_capacity (torn_file d pos rhb p) = fd_capacity d"
    and "a + n \<le> pos \<Longrightarrow> bslice a n (fd_file (torn_file d pos rhb p)) = bslice a n (fd_file d)"
  using assms by (simp_all add: torn_file_def file_device_inv_def bslice_bsplice_before)

lemma torn_region:
  assumes "fregion env d offset h runs" and "offset + (4096 + nh_payload_used h) + 32 + length p \<le> fd_capacity d"
    and "length rhb \<le> 32"
  defines "t \<equiv> torn_file d (offset + (4096 + nh_payload_used h)) rhb p"
  shows "file_device_inv t" and "fd_capacity t = fd_capacity d" and "region_ok env (fd_file t) (fd_capacity t) offset h runs"
  using region_ok_past [of env "fd_file d" "fd_capacity d" offset h runs "fd_file t"] assms(1)
    torn_file_before [OF _ assms(2,3)] by (auto simp: t_def)

lemma append_lossy:
  assumes "append_sorted_run file_block_device env d offset h run = ok (h', d')" and "encode_run env run = ok (rh, p)"
    and "file_device_inv d" and "fd_writable d" and "offset + (4096 + nh_payload_used h) + 32 + length p \<le> fd_capacity d"
    and "length (header_sector h') = 4096"
  shows "append_sorted_run lossy_block_device env \<lparr>ld_file = d, ld_fate = [n1, n2, n3]\<rparr> offset h run =
    ok (h', \<lparr>ld_file = (torn_file d (offset + (4096 + nh_payload_used h)) (take n1 (run_header_bytes rh)) (take n2 p))
      \<lparr>fd_file := bsplice offset (take n3 (header_sector h')) (fd_file (torn_file d (offset + (4096 + nh_payload_used h))
         (take n1 (run_header_bytes rh)) (take n2 p)))\<rparr>, ld_fate = []\<rparr>)"
proof -
  let ?P = "offset + (4096 + nh_payload_used h)" and ?D = "\<lparr>ld_file = d, ld_fate = [n1, n2, n3]\<rparr>"
  let ?D1 = "lossy_put ?D ?P (run_header_bytes rh)" and ?D2 = "lossy_put (lossy_put ?D ?P (run_header_bytes rh)) (?P + 32) p"
  have i0: "file_device_inv (ld_file ?D)" using assms(3) by simp
  have i1: "file_device_inv (ld_file ?D1)" by (rule lossy_put_file [OF i0]) (use assms(5) in simp)
  have i2: "file_device_inv (ld_file ?D2)" by (rule lossy_put_file [OF i1]) (use assms(5) in simp)
  have "append_sorted_run lossy_block_device env ?D offset h run = ok (h', lossy_put ?D2 offset (header_sector h'))"
    by (rule append_sorted_run_transfer [OF assms(1,2) lossy_write [OF i0] lossy_write [OF i1] lossy_write [OF i2]])
      (use assms(4-6) in simp_all)
  then show ?thesis by (simp add: lossy_put_def torn_file_def Let_def)
qed

text \<open>A new header sector over a damaged new run: the reader stops at the run.\<close>

lemma damaged_new_run:
  assumes "env_ok env" and "fregion env d' offset h' (runs @ [run])" and "bp_kind (nh_pre h') = btree_kind_u16 kind"
    and "file_device_inv t" and "fd_capacity d' = fd_capacity t"
    and "runs_at env (fd_file t) (fd_capacity t) offset runs 4096 endc" and "endc < 4096 + nh_payload_used h'"
    and "run_damaged env (fd_file t) (fd_capacity t) (offset + endc)"
  shows "\<exists>r. region_read file_block_device env (t\<lparr>fd_file := bsplice offset (header_sector h') (fd_file t)\<rparr>) offset kind = ok r \<and>
    n_sorted_runs r = runs"
proof -
  let ?d = "t\<lparr>fd_file := bsplice offset (header_sector h') (fd_file t)\<rparr>"
  have h: "node_header_ok h'" "bp_magic (nh_pre h') = BLOCK_PREAMBLE_MAGIC_BTREE" "nh_region_size_log2 h' < 64"
      "nh_payload_used h' \<le> 2 ^ nh_region_size_log2 h'" "nh_sorted_run_count h' = length runs + 1"
      "list_all run_wf runs" "offset + 4096 \<le> fd_capacity t"
    using assms(2,5) by (auto simp: region_ok_def region_at_def)
  note hs = length_header_sector [OF h(1)]
  have len: "offset + 4096 \<le> length (fd_file t)" using assms(4) h(7) by (simp add: file_device_inv_def)
  have i: "file_device_inv ?d" using assms(4) len hs by (simp add: file_device_inv_def)
  have after: "bslice a n (fd_file ?d) = bslice a n (fd_file t)" if "offset + 4096 \<le> a" for a n
    using bslice_bsplice_after [of offset "header_sector h'" a "fd_file t" n] that len hs by simp
  have sec: "bslice offset 4096 (fd_file ?d) = header_sector h'" using len hs by simp
  have at: "runs_at env (fd_file ?d) (fd_capacity ?d) offset runs 4096 endc" using assms(6) after by (simp add: runs_at_cong)
  have "4096 \<le> endc" by (rule runs_at_le [OF assms(6)])
  then have "run_damaged env (fd_file ?d) (fd_capacity ?d) (offset + endc)" using assms(8) after by (simp add: run_damaged_def Let_def)
  from region_damaged_run_dropped [OF assms(1) i h(1,2) assms(3) h(3,4) _ sec h(6) at assms(7) _ this] h(5,7)
  show ?thesis by simp
qed

text \<open>C30. An append is atomic on a device that loses writes. The three writes of \<open>append_sorted_run\<close>, of the run header,
  the payload and the header sector, reach the device in part or not at all, in any combination, the header
  sector being kept whole or lost. Reading the region that is left gives the old runs followed by the new one
  when all three are complete and the old runs otherwise. Where the header sector was written although the
  run was not, the bytes left at the place of the run fail its magic number or its checksum.\<close>

theorem region_torn_append:
  assumes "env_ok env" and "fregion env d offset h runs" and "run_wf run" and "encode_run env run = ok (rh, p)"
    and "4096 + nh_payload_used h + (32 + length p) \<le> 2 ^ nh_region_size_log2 h"
    and "length runs + 1 < 256" and "nh_seq h + 1 < 2 ^ 64" and "bp_kind (nh_pre h) = btree_kind_u16 kind"
    and "n3 = 0 \<or> 4096 \<le> n3"
    and "4096 \<le> n3 \<and> (n1 < 32 \<or> n2 < length p) \<Longrightarrow> run_damaged env
      (bsplice (offset + (4096 + nh_payload_used h) + 32) (take n2 p)
        (bsplice (offset + (4096 + nh_payload_used h)) (take n1 (run_header_bytes rh)) (fd_file d)))
      (fd_capacity d) (offset + (4096 + nh_payload_used h))"
  shows "\<exists>h' d' r. append_sorted_run lossy_block_device env \<lparr>ld_file = d, ld_fate = [n1, n2, n3]\<rparr> offset h run = ok (h', d') \<and>
    region_read file_block_device env (ld_file d') offset kind = ok r \<and>
    n_sorted_runs r = (if 32 \<le> n1 \<and> length p \<le> n2 \<and> 4096 \<le> n3 then runs @ [run] else runs)"
proof -
  let ?P = "offset + (4096 + nh_payload_used h)"
  let ?t = "torn_file d ?P (take n1 (run_header_bytes rh)) (take n2 p)"
  obtain h' d' where w: "append_sorted_run file_block_device env d offset h run = ok (h', d')" "nh_pre h' = nh_pre h"
      "fregion env d' offset h' (runs @ [run])" "fd_capacity d' = fd_capacity d"
      "4096 + nh_payload_used h < 4096 + nh_payload_used h'" "?P + 32 + length p \<le> fd_capacity d"
    by (rule region_append_file [OF assms(1-7)])
  have d: "file_device_inv d" "fd_writable d" using assms(2) by simp_all
  have hs: "length (header_sector h') = 4096" and kd: "bp_kind (nh_pre h') = btree_kind_u16 kind"
    using w(2,3) assms(8) by (auto simp: region_ok_def region_at_def length_header_sector)
  have t1: "file_device_inv ?t" "fd_capacity ?t = fd_capacity d"
    and rt: "region_ok env (fd_file ?t) (fd_capacity ?t) offset h runs"
    using torn_region [OF assms(2), of "take n2 p" "take n1 (run_header_bytes rh)"] w(6) by simp_all
  have len: "offset + 4096 \<le> length (fd_file ?t)" using t1 w(6) by (simp add: file_device_inv_def)
  let ?d3 = "?t\<lparr>fd_file := bsplice offset (take n3 (header_sector h')) (fd_file ?t)\<rparr>"
  note ap = append_lossy [OF w(1) assms(4) d w(6) hs, of n1 n2 n3]
  have "\<exists>r. region_read file_block_device env ?d3 offset kind = ok r \<and>
    n_sorted_runs r = (if 32 \<le> n1 \<and> length p \<le> n2 \<and> 4096 \<le> n3 then runs @ [run] else runs)"
  proof (cases "n3 = 0")
    case True
    then show ?thesis using rt fdev.region_read_ok [OF assms(1) t1(1), of offset h runs kind] assms(8) by simp
  next
    case False
    then have n3: "take n3 (header_sector h') = header_sector h'" "4096 \<le> n3" using assms(9) hs by auto
    have i3: "file_device_inv ?d3" using t1 len hs n3 by (simp add: file_device_inv_def)
    show ?thesis
    proof (cases "32 \<le> n1 \<and> length p \<le> n2")
      case True
      then have "fd_file ?d3 = fd_file d'"
        using append_sorted_run_file [OF w(1) assms(4) d(1) w(6)] n3 by (simp add: torn_file_def)
      then have "region_ok env (fd_file ?d3) (fd_capacity ?d3) offset h' (runs @ [run])" using w(3,4) t1(2) by simp
      from fdev.region_read_ok [OF assms(1) i3 _ kd] this True n3(2) show ?thesis by simp
    next
      case no: False
      have at: "runs_at env (fd_file ?t) (fd_capacity ?t) offset runs 4096 (4096 + nh_payload_used h)"
        using rt by (simp add: region_ok_def region_at_def)
      have dam: "run_damaged env (fd_file ?t) (fd_capacity ?t) ?P" using assms(10) no n3(2) t1(2) by (auto simp: torn_file_def)
      have "\<exists>r. region_read file_block_device env ?d3 offset kind = ok r \<and> n_sorted_runs r = runs"
        unfolding n3(1) by (rule damaged_new_run [OF assms(1) w(3) kd t1(1) _ at w(5) dam]) (use w(4) t1(2) in simp)
      then show ?thesis using no by auto
    qed
  qed
  with ap show ?thesis by auto
qed

text \<open>Twenty bytes of the run header reach the device and nothing else; only the header sector does; everything does.\<close>

theorem region_torn_append_witness:
  "\<exists>d h rh p. encode_run byte_env (wit_run 2) = ok (rh, p) \<and>
    (\<forall>(n1, n2, n3) \<in> {(20, 0, 0), (0, 0, 4096), (32, 2, 4096)}. \<exists>h' d' r.
      append_sorted_run lossy_block_device byte_env \<lparr>ld_file = d, ld_fate = [n1, n2, n3]\<rparr> 0 h (wit_run 2) = ok (h', d') \<and>
      region_read file_block_device byte_env (ld_file d') 0 Forward = ok r \<and>
      n_sorted_runs r = (if n1 = 32 then [wit_run 1, wit_run 2] else [wit_run 1]))"
proof -
  obtain h d0 where r0: "fregion byte_env d0 0 h [wit_run 1]" "nh_seq h = 1" "nh_payload_used h = 4096"
      "nh_region_size_log2 h = 14" "bp_kind (nh_pre h) = btree_kind_u16 Forward"
    using wit_region by metis
  define d where "d = d0\<lparr>fd_file := bsplice 8192 (replicate 32 0) (fd_file d0)\<rparr>"
  have cap: "16384 \<le> fd_capacity d0" using r0(1) unfolding region_ok_def region_at_def r0(4) by simp
  then have len: "16384 \<le> length (fd_file d0)" using r0(1) by (simp add: file_device_inv_def)
  have ok0: "region_ok byte_env (fd_file d0) (fd_capacity d0) 0 h [wit_run 1]" using r0(1) by blast
  have same: "bslice a n (fd_file d) = bslice a n (fd_file d0)" if "a + n \<le> 0 + (4096 + nh_payload_used h)" for a n
    using that len r0(3) bslice_bsplice_before [of a n 8192 "fd_file d0" "replicate 32 0"] by (simp add: d_def)
  have d: "fd_capacity d = fd_capacity d0" "fd_writable d = fd_writable d0" "file_device_inv d = file_device_inv d0"
    using len by (simp_all add: d_def fd_writable_def file_device_inv_def)
  have r: "fregion byte_env d 0 h [wit_run 1]" unfolding d using region_ok_past [OF ok0 same] r0(1) by blast
  obtain rh p where e: "encode_run byte_env (wit_run 2) = ok (rh, p)" "length p = 2" using wit_encode by blast
  have wf: "run_wf (wit_run 2)" by (simp add: run_wf_def wit_run_def)
  have fit: "4096 + nh_payload_used h + (32 + length p) \<le> 2 ^ nh_region_size_log2 h" unfolding r0(3,4) e(2) by simp
  have "bslice 8192 32 (fd_file d) = replicate 32 0" using len by (simp add: d_def)
  then have z: "rh_magic (run_header_of (bslice 8192 32 (fd_file d))) = 0"
    by (simp add: run_header_of_def get_le_def bslice_replicate)
  have dam: "run_damaged byte_env (fd_file d) (fd_capacity d) 8192"
    using cap z by (simp add: run_damaged_def SORTED_RUN_MAGIC_def d_def)
  let ?reads = "\<lambda>n1 n2 n3 rs. \<exists>h' d' r.
      append_sorted_run lossy_block_device byte_env \<lparr>ld_file = d, ld_fate = [n1, n2, n3]\<rparr> 0 h (wit_run 2) = ok (h', d') \<and>
      region_read file_block_device byte_env (ld_file d') 0 Forward = ok r \<and> n_sorted_runs r = rs"
  have s: "nh_seq h + 1 < 2 ^ 64" "length [wit_run 1] + 1 < 256" using r0(2) by simp_all
  note T = region_torn_append [OF byte_env_ok r wf e(1) fit s(2,1) r0(5)]
  have "?reads 20 0 0 [wit_run 1]" using T [of 0 20 0] by simp
  moreover have "?reads 0 0 4096 [wit_run 1]" using T [of 4096 0 0] dam r0(3) by simp
  moreover have "?reads 32 2 4096 [wit_run 1, wit_run 2]" using T [of 4096 32 2] e(2) by simp
  ultimately have "\<forall>(n1, n2, n3) \<in> {(20, 0, 0), (0, 0, 4096), (32, 2, 4096)}.
      ?reads n1 n2 n3 (if n1 = 32 then [wit_run 1, wit_run 2] else [wit_run 1])" by simp
  with e(1) show ?thesis by blast
qed

end
