(* ===== verification/Mb_Pack_Region.thy ===== *)
theory Mb_Pack_Region
  imports Mb_Pack_Thms Mb_Region_Thms
begin

text \<open>
  The packed path of a B+ tree region (\<open>crates/storage/src/btree.rs\<close>): runs written with the packed-key codec,
  and the reader that takes a mix of packed and CBOR runs. Values are byte strings. The proofs reduce the
  packed writer to the CBOR one with the packed codec in place of the encoder.
\<close>

unbundle bit_operations_syntax

section \<open>Operations\<close>

definition SORTED_RUN_FLAG_PACKED_KEYS :: u32 where
  "SORTED_RUN_FLAG_PACKED_KEYS = 1"

definition encode_run_packed_with_hint ::
  "'k packable \<Rightarrow> ('k, byte list) region_env \<Rightarrow> bool \<Rightarrow> ('k, byte list) sorted_run \<Rightarrow>
   (storage_error, sorted_run_header \<times> byte list) res" where
  "encode_run_packed_with_hint pk env force_varint run =
     rbind (map_err Pack (select_format_with_hint pk (run_entries run) force_varint)) (\<lambda>(head, ffs, value_prefix).
     rbind (map_err Pack (encode_packed_run pk (run_entries run) head ffs value_prefix)) (\<lambda>payload.
     let header = \<lparr>rh_magic = SORTED_RUN_MAGIC, rh_seq = run_seq run, rh_journal_seq = run_journal_seq run,
           rh_entry_count = length (run_entries run) mod 2 ^ 32, rh_payload_length = length payload mod 2 ^ 32,
           rh_flags = run_flags run OR SORTED_RUN_FLAG_PACKED_KEYS, rh_crc = 0\<rparr>
     in ok (header\<lparr>rh_crc := compute_crc env (run_header_bytes header) payload\<rparr>, payload)))"

definition encode_run_packed ::
  "'k packable \<Rightarrow> ('k, byte list) region_env \<Rightarrow> ('k, byte list) sorted_run \<Rightarrow> (storage_error, sorted_run_header \<times> byte list) res" where
  "encode_run_packed pk env run = encode_run_packed_with_hint pk env False run"

primrec write_runs_packed ::
  "'d block_device \<Rightarrow> 'k packable \<Rightarrow> ('k, byte list) region_env \<Rightarrow> bool \<Rightarrow> u64 \<Rightarrow> u64 \<Rightarrow> ('k, byte list) sorted_run list \<Rightarrow>
   u64 \<Rightarrow> 'd \<Rightarrow> (storage_error, u64 \<times> 'd) res" where
  "write_runs_packed ops pk env force_varint offset rsize [] cursor d = ok (cursor, d)"
| "write_runs_packed ops pk env force_varint offset rsize (run # runs) cursor d =
     rbind (encode_run_packed_with_hint pk env force_varint run) (\<lambda>(run_header, payload).
     let run_total = 32 + length payload
     in if cursor + run_total > rsize then err (RegionFull (cursor + run_total) rsize)
        else rbind (write_at ops d (offset + cursor) (run_header_bytes run_header)) (\<lambda>d1.
          rbind (write_at ops d1 (offset + cursor + 32) payload) (\<lambda>d2.
          write_runs_packed ops pk env force_varint offset rsize runs (align_up_to_sector (cursor + run_total)) d2)))"

definition write_full_packed_with_hint ::
  "'d block_device \<Rightarrow> 'k packable \<Rightarrow> ('k, byte list) region_env \<Rightarrow> 'd \<Rightarrow> u64 \<Rightarrow> ('k, byte list) loaded_node \<Rightarrow> bool \<Rightarrow>
   (storage_error, ('k, byte list) loaded_node \<times> 'd) res" where
  "write_full_packed_with_hint ops pk env d offset node force_varint =
     rbind (region_size (n_header node)) (\<lambda>rsize.
     rbind (write_runs_packed ops pk env force_varint offset rsize (n_sorted_runs node) BLOCK_SIZE d) (\<lambda>(cursor, d1).
     let payload_used = cursor - BLOCK_SIZE
     in if payload_used > 2 ^ 32 - 1 then err (RegionFull payload_used rsize)
        else rbind (add_u64 (nh_seq (n_header node)) 1) (\<lambda>seq1.
          let header = (n_header node)\<lparr>nh_payload_used := payload_used,
                nh_sorted_run_count := length (n_sorted_runs node) mod 2 ^ 8, nh_seq := seq1\<rparr>
          in rbind (write_at ops d1 offset (header_sector header)) (\<lambda>d2.
             ok (node\<lparr>n_header := header, n_dirty := False\<rparr>, d2)))))"

definition write_full_packed ::
  "'d block_device \<Rightarrow> 'k packable \<Rightarrow> ('k, byte list) region_env \<Rightarrow> 'd \<Rightarrow> u64 \<Rightarrow> ('k, byte list) loaded_node \<Rightarrow>
   (storage_error, ('k, byte list) loaded_node \<times> 'd) res" where
  "write_full_packed ops pk env d offset node = write_full_packed_with_hint ops pk env d offset node False"

definition write_full_packed_force_varint ::
  "'d block_device \<Rightarrow> 'k packable \<Rightarrow> ('k, byte list) region_env \<Rightarrow> 'd \<Rightarrow> u64 \<Rightarrow> ('k, byte list) loaded_node \<Rightarrow>
   (storage_error, ('k, byte list) loaded_node \<times> 'd) res" where
  "write_full_packed_force_varint ops pk env d offset node = write_full_packed_with_hint ops pk env d offset node True"

definition append_sorted_run_packed ::
  "'d block_device \<Rightarrow> 'k packable \<Rightarrow> ('k, byte list) region_env \<Rightarrow> 'd \<Rightarrow> u64 \<Rightarrow> btree_node_header \<Rightarrow>
   ('k, byte list) sorted_run \<Rightarrow> (storage_error, btree_node_header \<times> 'd) res" where
  "append_sorted_run_packed ops pk env d offset existing new_run =
     rbind (region_size existing) (\<lambda>rsize.
     let cursor = BLOCK_SIZE + nh_payload_used existing
     in if cursor mod BLOCK_SIZE \<noteq> 0 then Inl Panic
        else rbind (encode_run_packed pk env new_run) (\<lambda>(run_header, payload).
          let run_total = 32 + length payload
          in if cursor + run_total > rsize then err (RegionFull (cursor + run_total) rsize)
             else rbind (write_at ops d (offset + cursor) (run_header_bytes run_header)) (\<lambda>d1.
               rbind (write_at ops d1 (offset + cursor + 32) payload) (\<lambda>d2.
               let new_payload_used = align_up_to_sector (cursor + run_total) - BLOCK_SIZE
               in if new_payload_used > 2 ^ 32 - 1 then err (RegionFull new_payload_used rsize)
                  else if nh_sorted_run_count existing + 1 \<ge> 2 ^ 8 then Inl Panic
                  else rbind (add_u64 (nh_seq existing) 1) (\<lambda>seq1.
                    let header = raise_persisted_lsn (run_journal_seq new_run)
                          (existing\<lparr>nh_payload_used := new_payload_used,
                             nh_sorted_run_count := nh_sorted_run_count existing + 1, nh_seq := seq1\<rparr>)
                    in rbind (write_at ops d2 offset (header_sector header)) (\<lambda>d3. ok (header, d3)))))))"

definition decode_run_payload ::
  "'k packable \<Rightarrow> ('k, byte list) region_env \<Rightarrow> nat \<Rightarrow> sorted_run_header \<Rightarrow> byte list \<Rightarrow>
   (storage_error, ('k \<times> byte list) list) res" where
  "decode_run_payload pk env value_size rh payload =
     (if rh_flags rh AND SORTED_RUN_FLAG_PACKED_KEYS \<noteq> 0
      then rbind (map_err Pack (decode_packed_run pk payload value_size (rh_entry_count rh))) (\<lambda>(entries, _). ok entries)
      else map_err CborDecode (env_decode env payload))"

primrec read_runs_packed ::
  "'d block_device \<Rightarrow> 'k packable \<Rightarrow> ('k, byte list) region_env \<Rightarrow> nat \<Rightarrow> 'd \<Rightarrow> u64 \<Rightarrow> u64 \<Rightarrow> nat \<Rightarrow> u64 \<Rightarrow>
   (storage_error, ('k, byte list) sorted_run list) res" where
  "read_runs_packed ops pk env value_size d offset payload_end 0 cursor = ok []"
| "read_runs_packed ops pk env value_size d offset payload_end (Suc n) cursor =
     (if cursor \<ge> payload_end then ok []
      else rbind (read_at ops d (offset + cursor) 32) (\<lambda>run_header_buf.
        let rh = run_header_of run_header_buf
        in if rh_magic rh \<noteq> SORTED_RUN_MAGIC then ok []
           else rbind (read_at ops d (offset + cursor + 32) (rh_payload_length rh)) (\<lambda>payload.
             if run_header_verify env rh payload \<noteq> ok () then ok []
             else rbind (decode_run_payload pk env value_size rh payload) (\<lambda>entries.
               rbind (read_runs_packed ops pk env value_size d offset payload_end n
                        (align_up_to_sector (cursor + (32 + rh_payload_length rh)))) (\<lambda>runs.
               ok (\<lparr>run_seq = rh_seq rh, run_journal_seq = rh_journal_seq rh, run_flags = rh_flags rh,
                    run_entries = entries\<rparr> # runs))))))"

definition read_packed ::
  "'d block_device \<Rightarrow> 'k packable \<Rightarrow> ('k, byte list) region_env \<Rightarrow> 'd \<Rightarrow> u64 \<Rightarrow> btree_kind \<Rightarrow> nat \<Rightarrow>
   (storage_error, ('k, byte list) loaded_node) res" where
  "read_packed ops pk env d offset kind value_size =
     rbind (read_at ops d offset BLOCK_SIZE) (\<lambda>sector.
     rbind (node_header_parse sector) (\<lambda>header.
     if bp_kind (nh_pre header) \<noteq> btree_kind_u16 kind then err (InvalidBtreeKind (bp_kind (nh_pre header)))
     else rbind (region_size header) (\<lambda>rsize.
       if nh_payload_used header > rsize then err (RegionFull (nh_payload_used header) rsize)
       else rbind (read_runs_packed ops pk env value_size d offset (BLOCK_SIZE + nh_payload_used header)
                     (nh_sorted_run_count header) BLOCK_SIZE) (\<lambda>runs.
         ok \<lparr>n_header = header, n_sorted_runs = runs, n_merged_view = None, n_pending_journal = [],
             n_dirty = False, n_pin = pin_default\<rparr>))))"

section \<open>Reduction to the CBOR writer\<close>

definition flag_run :: "('k, 'v) sorted_run \<Rightarrow> ('k, 'v) sorted_run" where
  "flag_run run = run\<lparr>run_flags := run_flags run OR SORTED_RUN_FLAG_PACKED_KEYS\<rparr>"

definition packed_env :: "'k packable \<Rightarrow> bool \<Rightarrow> ('k, byte list) region_env \<Rightarrow> ('k, byte list) region_env" where
  "packed_env pk force env = env\<lparr>env_encode := (\<lambda>es.
     map_err (\<lambda>_. '''') (rbind (select_format_with_hint pk es force) (\<lambda>(head, ffs, pre). encode_packed_run pk es head ffs pre)))\<rparr>"

lemma encode_packed_eq:
  assumes "encode_run (packed_env pk force env) (flag_run run) = ok hp"
  shows "encode_run_packed_with_hint pk env force run = ok hp"
proof -
  have c: "compute_crc (packed_env pk force env) = compute_crc env" by (simp add: fun_eq_iff compute_crc_def packed_env_def)
  obtain head ffs pre payload where s: "select_format_with_hint pk (run_entries run) force = ok (head, ffs, pre)"
      "encode_packed_run pk (run_entries run) head ffs pre = ok payload"
    using assms by (auto simp: encode_run_def packed_env_def flag_run_def res_simps)
  then have e: "env_encode (packed_env pk force env) (run_entries (flag_run run)) = ok payload"
    by (simp add: packed_env_def flag_run_def)
  show ?thesis using assms unfolding encode_run_def e encode_run_packed_with_hint_def s
    by (simp add: c s(2) flag_run_def Let_def)
qed

lemma write_runs_packed_eq:
  "write_runs ops (packed_env pk force env) offset rsize (map flag_run runs) cursor d = ok r \<Longrightarrow>
   write_runs_packed ops pk env force offset rsize runs cursor d = ok r"
proof (induction runs arbitrary: cursor d)
  case (Cons run runs)
  obtain h p where e: "encode_run (packed_env pk force env) (flag_run run) = ok (h, p)"
    using Cons.prems by (auto simp: res_simps)
  show ?case using Cons.prems Cons.IH encode_packed_eq [OF e] e
    by (auto simp: res_simps Let_def split: if_splits)
qed simp

lemma write_full_packed_eq:
  assumes "write_full ops (packed_env pk force env) d offset (node\<lparr>n_sorted_runs := map flag_run (n_sorted_runs node)\<rparr>) = ok (node', d')"
  shows "write_full_packed_with_hint ops pk env d offset node force = ok (node'\<lparr>n_sorted_runs := n_sorted_runs node\<rparr>, d')"
  using assms write_runs_packed_eq [of ops pk force env offset _ "n_sorted_runs node" BLOCK_SIZE d]
  by (auto simp: write_full_def write_full_packed_with_hint_def res_simps Let_def split: if_splits)

section \<open>Reading back\<close>

definition packed_run_wf :: "'k packable \<Rightarrow> ('k \<Rightarrow> bool) \<Rightarrow> bool \<Rightarrow> nat \<Rightarrow> ('k, byte list) sorted_run \<Rightarrow> bool" where
  "packed_run_wf pk kvalid force value_size r \<longleftrightarrow> run_seq r < 2 ^ 32 \<and> run_journal_seq r < 2 ^ 64 \<and> run_flags r < 2 ^ 32 \<and>
     length (run_entries r) < 2 ^ 32 \<and> (\<forall>(k, v)\<in>set (run_entries r). kvalid k \<and> length v < 2 ^ 64) \<and>
     (select_value_size_kind force (run_entries r) = VALUE_SIZE_KIND_FIXED \<longrightarrow> (\<forall>(k, v)\<in>set (run_entries r). length v = value_size))"

lemma flag_less: "n < 2 ^ 32 \<Longrightarrow> n OR SORTED_RUN_FLAG_PACKED_KEYS < 2 ^ 32" for n :: nat
proof -
  assume "n < 2 ^ 32"
  then have "n + of_bool (even n) < 2 ^ 32" by (cases "even n") (simp_all, presburger)
  then show ?thesis by (simp add: SORTED_RUN_FLAG_PACKED_KEYS_def or_Suc_0_eq)
qed

lemma flag_set: "(n OR SORTED_RUN_FLAG_PACKED_KEYS) AND SORTED_RUN_FLAG_PACKED_KEYS \<noteq> 0" for n :: nat
  by (cases "even n") (simp_all add: SORTED_RUN_FLAG_PACKED_KEYS_def or_Suc_0_eq and_Suc_0_eq, presburger+)

lemma packed_encode_spec:
  assumes pk: "packable_key pk kvalid" and crc: "\<And>c bs. env_crc32c_append env c bs < 2 ^ 32"
    and wf: "packed_run_wf pk kvalid force value_size run" and e: "encode_run (packed_env pk force env) (flag_run run) = ok (h, p)"
    and len: "length p < 2 ^ 32"
  shows "run_header_ok h" and "rh_magic h = SORTED_RUN_MAGIC" and "rh_payload_length h = length p"
    and "run_header_verify env h p = ok ()" and "rh_flags h = run_flags (flag_run run)" and "rh_seq h = run_seq run"
    and "rh_journal_seq h = run_journal_seq run" and "decode_run_payload pk env value_size h p = ok (run_entries run)"
proof -
  note D = encode_runD [OF e]
  show m: "rh_magic h = SORTED_RUN_MAGIC" "rh_payload_length h = length p" "rh_flags h = run_flags (flag_run run)"
      "rh_seq h = run_seq run" "rh_journal_seq h = run_journal_seq run"
    using D len by (simp_all add: flag_run_def)
  have c: "compute_crc (packed_env pk force env) = compute_crc env" by (simp add: fun_eq_iff compute_crc_def packed_env_def)
  show "run_header_verify env h p = ok ()" using D(7) by (simp add: run_header_verify_def c Let_def split: if_splits)
  have "rh_crc h < 2 ^ 32" using D(9) crc by (simp add: compute_crc_def packed_env_def)
  moreover have "run_flags (flag_run run) < 2 ^ 32" using flag_less wf by (simp add: flag_run_def packed_run_wf_def)
  ultimately show "run_header_ok h"
    using m D(8) wf len by (simp add: run_header_ok_def packed_run_wf_def SORTED_RUN_MAGIC_def)
  have cnt: "rh_entry_count h = length (run_entries run)" using D(8) wf by (simp add: packed_run_wf_def flag_run_def)
  obtain head ffs pre payload where s: "select_format_with_hint pk (run_entries run) force = ok (head, ffs, pre)"
      "encode_packed_run pk (run_entries run) head ffs pre = ok payload"
      "length payload < 2 ^ 64 \<Longrightarrow> decode_packed_run pk payload value_size (length (run_entries run)) = ok (run_entries run, head, ffs)"
    using packable_key.run_roundtrip [OF pk, of "run_entries run" force value_size] wf unfolding packed_run_wf_def by blast
  have "p = payload" using D(1) s(1,2) by (simp add: packed_env_def flag_run_def)
  then have "decode_packed_run pk p value_size (length (run_entries run)) = ok (run_entries run, head, ffs)" using s(3) len by simp
  then show "decode_run_payload pk env value_size h p = ok (run_entries run)"
    using flag_set m(3) cnt by (simp add: decode_run_payload_def flag_run_def)
qed

context block_dev
begin

lemma read_runs_packed_ok:
  assumes pk: "packable_key pk kvalid" and crc: "\<And>c bs. env_crc32c_append env c bs < 2 ^ 32" and d: "dinv d"
    and wf: "list_all (packed_run_wf pk kvalid force value_size) runs"
    and at: "runs_at (packed_env pk force env) (image d) (dev_capacity ops d) offset (map flag_run runs) cursor endc"
  shows "read_runs_packed ops pk env value_size d offset endc (length runs) cursor = ok (map flag_run runs)"
  using wf at
proof (induction runs arbitrary: cursor)
  case (Cons run runs)
  from Cons.prems(2) obtain h p where e: "encode_run (packed_env pk force env) (flag_run run) = ok (h, p)" and p: "length p < 2 ^ 32"
    "offset + cursor + 32 + length p \<le> dev_capacity ops d"
    "bslice (offset + cursor) (32 + length p) (image d) = run_header_bytes h @ p"
    "runs_at (packed_env pk force env) (image d) (dev_capacity ops d) offset (map flag_run runs) (align_up_to_sector (cursor + (32 + length p))) endc"
    by (auto split: sum.splits)
  have wf: "packed_run_wf pk kvalid force value_size run" using Cons.prems(1) by simp
  note D = packed_encode_spec [OF pk crc wf e p(1)]
  have lt: "\<not> endc \<le> cursor" using align_up_ge [of "cursor + (32 + length p)"] runs_at_le [OF p(4)] by simp
  have "bslice (offset + cursor) 32 (image d) = take 32 (bslice (offset + cursor) (32 + length p) (image d))"
    by (simp add: bslice_def)
  then have r1: "read_at ops d (offset + cursor) 32 = Inr (run_header_bytes h)"
    using read_in [OF d, of "offset + cursor" 32] p(2,3) by simp
  have "bslice (offset + cursor + 32) (length p) (image d) = drop 32 (bslice (offset + cursor) (32 + length p) (image d))"
    by (simp add: bslice_def drop_take add.commute add.left_commute)
  then have r2: "read_at ops d (offset + cursor + 32) (length p) = Inr p"
    using read_in [OF d, of "offset + cursor + 32" "length p"] p(2,3) by simp
  have IH: "read_runs_packed ops pk env value_size d offset endc (length runs) (align_up_to_sector (cursor + (32 + length p))) =
      ok (map flag_run runs)" using Cons.IH [OF _ p(4)] Cons.prems(1) by simp
  show ?case using lt r1 r2 D IH run_header_of_bytes [OF D(1)] by (simp add: Let_def flag_run_def)
qed simp

lemma read_packed_ok:
  assumes pk: "packable_key pk kvalid" and crc: "\<And>c bs. env_crc32c_append env c bs < 2 ^ 32" and d: "dinv d"
    and wf: "list_all (packed_run_wf pk kvalid force value_size) runs"
    and r: "region_at (packed_env pk force env) (image d) (dev_capacity ops d) offset h (map flag_run runs)"
    and k: "bp_kind (nh_pre h) = btree_kind_u16 kind"
  shows "read_packed ops pk env d offset kind value_size = ok \<lparr>n_header = h, n_sorted_runs = map flag_run runs, n_merged_view = None,
    n_pending_journal = [], n_dirty = False, n_pin = pin_default\<rparr>"
proof -
  have h: "node_header_ok h" "bp_magic (nh_pre h) = BLOCK_PREAMBLE_MAGIC_BTREE" "nh_region_size_log2 h < 32"
      "offset + 2 ^ nh_region_size_log2 h \<le> dev_capacity ops d"
      "bslice offset 4096 (image d) = header_sector h" "nh_sorted_run_count h = length runs"
      "runs_at (packed_env pk force env) (image d) (dev_capacity ops d) offset (map flag_run runs) 4096 (4096 + nh_payload_used h)"
      "4096 + nh_payload_used h \<le> 2 ^ nh_region_size_log2 h"
    using r by (simp_all add: region_at_def)
  have "read_at ops d offset 4096 = Inr (header_sector h)"
    using read_in [OF d, of offset 4096] h(4,5,8) by simp
  moreover note read_runs_packed_ok [OF pk crc d wf h(7)]
  ultimately show ?thesis
    using parse_header_sector [OF h(1,2)] k h(3,6,8) by (simp add: read_packed_def region_size_def)
qed

end

section \<open>Properties\<close>

definition packed_writable ::
  "'k packable \<Rightarrow> ('k \<Rightarrow> bool) \<Rightarrow> ('k, byte list) region_env \<Rightarrow> bool \<Rightarrow> nat \<Rightarrow> file_device \<Rightarrow> u64 \<Rightarrow> ('k, byte list) loaded_node \<Rightarrow> bool" where
  "packed_writable pk kvalid env force value_size d offset node \<longleftrightarrow> node_header_ok (n_header node) \<and>
     bp_magic (nh_pre (n_header node)) = BLOCK_PREAMBLE_MAGIC_BTREE \<and>
     12 \<le> nh_region_size_log2 (n_header node) \<and> nh_region_size_log2 (n_header node) < 32 \<and>
     offset + 2 ^ nh_region_size_log2 (n_header node) \<le> fd_capacity d \<and>
     runs_fit (packed_env pk force env) (2 ^ nh_region_size_log2 (n_header node)) (map flag_run (n_sorted_runs node)) 4096 \<and>
     list_all (packed_run_wf pk kvalid force value_size) (n_sorted_runs node) \<and>
     length (n_sorted_runs node) < 256 \<and> nh_seq (n_header node) + 1 < 2 ^ 64"

text \<open>C7. The packed region path is lossless: a node whose packed runs fit its region is written, and the reader
  returns runs with the same entries, sequence numbers and journal positions, flagged as packed, in both value
  modes and whatever the device held before.\<close>

theorem packed_region_roundtrip:
  assumes "packable_key pk kvalid" and "\<And>c bs. env_crc32c_append env c bs < 2 ^ 32" and "file_device_inv d" and "fd_writable d"
    and "packed_writable pk kvalid env force value_size d offset node"
    and "bp_kind (nh_pre (n_header node)) = btree_kind_u16 kind"
  shows "\<exists>node' d' r. write_full_packed_with_hint file_block_device pk env d offset node force = ok (node', d') \<and>
    read_packed file_block_device pk env d' offset kind value_size = ok r \<and> n_header r = n_header node' \<and>
    n_sorted_runs r = map flag_run (n_sorted_runs node) \<and> n_sorted_runs node' = n_sorted_runs node \<and> \<not> n_dirty node'"
proof -
  let ?node = "node\<lparr>n_sorted_runs := map flag_run (n_sorted_runs node)\<rparr>" and ?env = "packed_env pk force env"
  obtain h' d' where w: "write_full file_block_device ?env d offset ?node = ok (?node\<lparr>n_header := h', n_dirty := False\<rparr>, d')"
      "file_device_inv d'" "nh_pre h' = nh_pre (n_header node)"
      "region_at ?env (fd_file d') (fd_capacity d') offset h' (map flag_run (n_sorted_runs node))"
  proof (rule fdev.write_full_at [OF assms(3,4), of ?node offset ?env])
    show "node_header_ok (n_header ?node)" "bp_magic (nh_pre (n_header ?node)) = BLOCK_PREAMBLE_MAGIC_BTREE"
        "12 \<le> nh_region_size_log2 (n_header ?node)" "nh_region_size_log2 (n_header ?node) < 32"
        "offset + 2 ^ nh_region_size_log2 (n_header ?node) \<le> dev_capacity file_block_device d"
        "runs_fit ?env (2 ^ nh_region_size_log2 (n_header ?node)) (n_sorted_runs ?node) 4096"
        "length (n_sorted_runs ?node) < 256" "nh_seq (n_header ?node) + 1 < 2 ^ 64"
      using assms(5) by (simp_all add: packed_writable_def)
  qed simp
  have wf: "list_all (packed_run_wf pk kvalid force value_size) (n_sorted_runs node)" using assms(5) by (simp add: packed_writable_def)
  have k: "bp_kind (nh_pre h') = btree_kind_u16 kind" using w(3) assms(6) by simp
  from fdev.read_packed_ok [OF assms(1,2) w(2) wf _ k] w(4) write_full_packed_eq [OF w(1)] show ?thesis by simp
qed

definition wit_packed_run :: "(nat \<times> nat, byte list) sorted_run" where
  "wit_packed_run = \<lparr>run_seq = 0, run_journal_seq = 9, run_flags = 0, run_entries = [((7, 1), [5, 6]), ((9, 1), [5, 8])]\<rparr>"

definition wit_packed_node :: "(nat \<times> nat, byte list) loaded_node" where
  "wit_packed_node = (node_new Forward 0 14)\<lparr>n_sorted_runs := [wit_packed_run]\<rparr>"

definition wit_packed_env :: "(nat \<times> nat, byte list) region_env" where
  "wit_packed_env = \<lparr>env_encode = \<lambda>_. err ''none'', env_decode = \<lambda>_. err ''none'', env_crc32c = zcrc, env_crc32c_append = \<lambda>_. zcrc\<rparr>"

lemma wit_packed_encode:
  "\<exists>h p. encode_run (packed_env pack_u64_u32 False wit_packed_env) (flag_run wit_packed_run) = ok (h, p) \<and> length p < 100"
proof -
  let ?es = "[((7, 1), [5, 6]), ((9, 1), [5, 8])] :: ((nat \<times> nat) \<times> byte list) list"
  let ?f = "\<lambda>w b. \<lparr>ff_bit_width = w, ff_flags = 0, ff_pad0 = 0, ff_base = b, ff_pad1 = 0\<rparr>"
  let ?h = "\<lparr>kf_nr_fields = 2, kf_key_header_bytes = 0, kf_common_value_prefix = 1, kf_value_size_kind = 0, kf_sum_bit_width = 2\<rparr>"
  have b: "bit_len 2 = 2" by (simp add: bit_len.simps)
  have pk: "pk_nr_fields pack_u64_u32 = 2" "pk_key_header_bytes pack_u64_u32 = 0" "pk_field_hints pack_u64_u32 = [hints_unsigned, hints_unsigned]"
      "pk_field_values pack_u64_u32 (a, b) = [a, b]" "pk_key_header pack_u64_u32 k = 0" for a b k by (simp_all add: pack_u64_u32_def)
  have upt: "[0..<2] = [0, 1 :: nat]" by (simp add: upt_rec)
  have m: "field_mins pack_u64_u32 ?es = [7, 1]" "field_maxs pack_u64_u32 ?es = [9, 1]"
    by (simp_all add: field_mins_def field_maxs_def pk upt)
  have pl: "common_prefix_len (map snd ?es) = 1" by (simp add: common_prefix_len_def upt)
  have sk: "select_value_size_kind False ?es = 0" by (simp add: select_value_size_kind_def VALUE_SIZE_KIND_FIXED_def)
  have "select_format_with_hint pack_u64_u32 ?es False = ok (?h, [?f 2 7, ?f 0 1], [5])"
    unfolding select_format_with_hint_def Let_def pk m pl sk upt by (simp add: select_field_def b to_flags_def hints_unsigned_def)
  moreover have e: "\<exists>q. encode_entry pack_u64_u32 ?h [?f 2 7, ?f 0 1] ((a, 1), [5, c]) = ok q \<and> length q = 2" if "a = 7 \<or> a = 9" for a c
  proof -
    have "list_all encodable [(?f 2 7, a), (?f 0 1, 1)]" using that by (auto simp: encodable_def fdelta_def)
    from packed_key_spec [OF this] obtain p where "pack_fields [(?f 2 7, a), (?f 0 1, 1)] [] 0 = ok p" "length p = 1" by auto
    then show ?thesis by (simp add: encode_entry_def pk header_le_def bytes_per_key_def data_bits_per_key_def VALUE_SIZE_KIND_VARINT_def)
  qed
  obtain q r where "encode_entry pack_u64_u32 ?h [?f 2 7, ?f 0 1] ((7, 1), [5, 6]) = ok q" "length q = 2"
      "encode_entry pack_u64_u32 ?h [?f 2 7, ?f 0 1] ((9, 1), [5, 8]) = ok r" "length r = 2"
    using e [of 7 6] e [of 9 8] by auto
  then have "\<exists>p. encode_packed_run pack_u64_u32 ?es ?h [?f 2 7, ?f 0 1] [5] = ok p \<and> length p < 100"
    by (simp add: encode_packed_run_def pk VALUE_SIZE_KIND_FIXED_def check_prefixes_def format_serialise_def
        key_format_bytes_def field_format_bytes_def)
  ultimately show ?thesis
    by (auto simp: encode_run_def packed_env_def flag_run_def wit_packed_run_def Let_def)
qed

lemma wit_packed_writable:
  "packed_writable pack_u64_u32 (\<lambda>(a, b). a < 2 ^ 64 \<and> b < 2 ^ 32) wit_packed_env False 2 wit_file 0 wit_packed_node"
proof -
  obtain h p where e: "encode_run (packed_env pack_u64_u32 False wit_packed_env) (flag_run wit_packed_run) = ok (h, p)" "length p < 100"
    using wit_packed_encode by blast
  have "runs_fit (packed_env pack_u64_u32 False wit_packed_env) 16384 [flag_run wit_packed_run] 4096" using e by simp
  then show ?thesis
    by (simp add: packed_writable_def wit_packed_node_def node_new_def node_header_new_def node_header_ok_def
        preamble_ok_def BLOCK_PREAMBLE_MAGIC_BTREE_def wit_file_ok(3) packed_run_wf_def)
      (simp add: wit_packed_run_def)
qed

theorem packed_region_roundtrip_witness:
  "\<exists>node' d' r. write_full_packed_with_hint file_block_device pack_u64_u32 wit_packed_env wit_file 0 wit_packed_node False = ok (node', d') \<and>
    read_packed file_block_device pack_u64_u32 wit_packed_env d' 0 Forward 2 = ok r \<and>
    map run_entries (n_sorted_runs r) = [[((7, 1), [5, 6]), ((9, 1), [5, 8])]]"
proof -
  have c: "env_crc32c_append wit_packed_env c bs < 2 ^ 32" for c bs by (simp add: wit_packed_env_def)
  have "bp_kind (nh_pre (n_header wit_packed_node)) = btree_kind_u16 Forward"
    by (simp add: wit_packed_node_def node_new_def node_header_new_def)
  from packed_region_roundtrip [OF key_u64_u32.packable_key_axioms c wit_file_ok(1,2) wit_packed_writable this]
  obtain node' d' r where "write_full_packed_with_hint file_block_device pack_u64_u32 wit_packed_env wit_file 0 wit_packed_node False = ok (node', d')"
      "read_packed file_block_device pack_u64_u32 wit_packed_env d' 0 Forward 2 = ok r"
      "n_sorted_runs r = map flag_run (n_sorted_runs wit_packed_node)" by blast
  moreover have "map run_entries (map flag_run (n_sorted_runs wit_packed_node)) = [[((7, 1), [5, 6]), ((9, 1), [5, 8])]]"
    by (simp add: wit_packed_node_def wit_packed_run_def flag_run_def)
  ultimately show ?thesis by metis
qed

end
