(* ===== verification/Mb_Alloc.thy ===== *)
theory Mb_Alloc
  imports Mb_Region Mb_Root
begin

text \<open>
  Bucket allocation (\<open>crates/storage/src/alloc.rs\<close>, \<open>allocator.rs\<close>,
  \<open>addressing.rs\<close>, \<open>freespace.rs\<close>): the allocation table and its records, the
  allocator over it, the freespace LRU, and their persistence as B+ tree regions.
\<close>

unbundle bit_operations_syntax

section \<open>Records and keys\<close>

record bucket_alloc_entry =
  bae_generation :: u32
  bae_data_type :: u8
  bae_flags :: u8
  bae_dirty_sectors :: u16
  bae_last_modify_lsn :: u64

definition alloc_entry_ok :: "bucket_alloc_entry \<Rightarrow> bool" where
  "alloc_entry_ok e \<longleftrightarrow> bae_generation e < 2 ^ 32 \<and> bae_data_type e < 2 ^ 8 \<and> bae_flags e < 2 ^ 8 \<and>
     bae_dirty_sectors e < 2 ^ 16 \<and> bae_last_modify_lsn e < 2 ^ 64"

definition alloc_entry_bytes :: "bucket_alloc_entry \<Rightarrow> byte list" where
  "alloc_entry_bytes e = le_bytes 4 (bae_generation e) @ le_bytes 1 (bae_data_type e) @ le_bytes 1 (bae_flags e) @
     le_bytes 2 (bae_dirty_sectors e) @ le_bytes 8 (bae_last_modify_lsn e)"

text \<open>\<open>Deserialize\<close>: a byte string of exactly 16 bytes.\<close>

definition alloc_entry_deserialize :: "byte list \<Rightarrow> (string, bucket_alloc_entry) res" where
  "alloc_entry_deserialize bs =
     (if length bs \<noteq> 16 then err ''expected 16 bytes for BucketAllocEntry''
      else ok \<lparr>bae_generation = get_le 0 4 bs, bae_data_type = get_le 4 1 bs, bae_flags = get_le 5 1 bs,
              bae_dirty_sectors = get_le 6 2 bs, bae_last_modify_lsn = get_le 8 8 bs\<rparr>)"

datatype bucket_alloc_key = BucketAllocKey (bak_disk_id: u16) (bak_bucket_no: u32)

definition bak_bytes :: "bucket_alloc_key \<Rightarrow> byte list" where
  "bak_bytes k = le_bytes 2 (bak_disk_id k) @ le_bytes 4 (bak_bucket_no k)"

definition bak_deserialize :: "byte list \<Rightarrow> (string, bucket_alloc_key) res" where
  "bak_deserialize bs =
     (if length bs \<noteq> 6 then err ''expected 6 bytes for BucketAllocKey''
      else ok (BucketAllocKey (get_le 0 2 bs) (get_le 2 4 bs)))"

definition bak_cmp_le :: "bucket_alloc_key \<Rightarrow> bucket_alloc_key \<Rightarrow> bool" where
  "bak_cmp_le a b \<longleftrightarrow> (bak_disk_id a, bak_bucket_no a) \<le> (bak_disk_id b, bak_bucket_no b)"

instantiation bucket_alloc_key :: linorder
begin

definition less_eq_bucket_alloc_key :: "bucket_alloc_key \<Rightarrow> bucket_alloc_key \<Rightarrow> bool" where
  "a \<le> b \<longleftrightarrow> bak_cmp_le a b"

definition less_bucket_alloc_key :: "bucket_alloc_key \<Rightarrow> bucket_alloc_key \<Rightarrow> bool" where
  "a < b \<longleftrightarrow> bak_cmp_le a b \<and> \<not> bak_cmp_le b a"

instance
  by standard (auto simp: less_eq_bucket_alloc_key_def less_bucket_alloc_key_def bak_cmp_le_def bucket_alloc_key.expand)

end

datatype bucket_data_type = BFree | BWal | BIndex | BMetadata | BBlob | BBtreeNode | BStripe | BNeedDiscard | BReserved

fun bucket_data_type_u8 :: "bucket_data_type \<Rightarrow> u8" where
  "bucket_data_type_u8 BFree = 0"
| "bucket_data_type_u8 BWal = 1"
| "bucket_data_type_u8 BIndex = 2"
| "bucket_data_type_u8 BMetadata = 3"
| "bucket_data_type_u8 BBlob = 4"
| "bucket_data_type_u8 BBtreeNode = 5"
| "bucket_data_type_u8 BStripe = 6"
| "bucket_data_type_u8 BNeedDiscard = 7"
| "bucket_data_type_u8 BReserved = 8"

definition bucket_data_type_from_u8 :: "u8 \<Rightarrow> (storage_error, bucket_data_type) res" where
  "bucket_data_type_from_u8 v =
     (if v = 0 then ok BFree else if v = 1 then ok BWal else if v = 2 then ok BIndex
      else if v = 3 then ok BMetadata else if v = 4 then ok BBlob else if v = 5 then ok BBtreeNode
      else if v = 6 then ok BStripe else if v = 7 then ok BNeedDiscard else if v = 8 then ok BReserved
      else err (InvalidBucketDataType v))"

section \<open>BucketAllocTable\<close>

type_synonym bucket_alloc_table = "(u32, bucket_alloc_entry) btree_map"

definition table_insert :: "u32 \<Rightarrow> bucket_alloc_entry \<Rightarrow> bucket_alloc_table \<Rightarrow> bucket_alloc_table" where
  "table_insert bucket_no entry t = bm_insert bucket_no entry t"

definition table_get :: "bucket_alloc_table \<Rightarrow> u32 \<Rightarrow> bucket_alloc_entry option" where
  "table_get t bucket_no = bm_get t bucket_no"

definition table_to_loaded_node ::
  "bucket_alloc_table \<Rightarrow> u16 \<Rightarrow> (storage_error, (bucket_alloc_key, bucket_alloc_entry) loaded_node) res" where
  "table_to_loaded_node t disk_id =
     (let entries = map (\<lambda>(bucket_no, e). (BucketAllocKey disk_id bucket_no, e)) t;
          node = node_new BucketAlloc 0 18
      in if entries = [] then ok node
         else rbind (run_from_sorted 0 0 entries) (\<lambda>run.
           ok (node\<lparr>n_sorted_runs := [run], n_header := (n_header node)\<lparr>nh_sorted_run_count := 1\<rparr>\<rparr>)))"

definition table_from_loaded_node ::
  "(bucket_alloc_key, bucket_alloc_entry) kmerge \<Rightarrow> (bucket_alloc_key, bucket_alloc_entry) loaded_node \<Rightarrow> bucket_alloc_table" where
  "table_from_loaded_node kmerge node =
     fold (\<lambda>(k, v). bm_insert (bak_bucket_no k) v) (merge_iter kmerge node) []"

definition table_flush_to_region ::
  "'d block_device \<Rightarrow> (bucket_alloc_key, bucket_alloc_entry) region_env \<Rightarrow> bucket_alloc_table \<Rightarrow> 'd \<Rightarrow> u64 \<Rightarrow> u16 \<Rightarrow>
   (storage_error, 'd) res" where
  "table_flush_to_region ops env t d offset disk_id =
     rbind (table_to_loaded_node t disk_id) (\<lambda>node.
     rbind (write_full ops env d offset node) (\<lambda>(_, d1). ok d1))"

definition table_load_from_region ::
  "'d block_device \<Rightarrow> (bucket_alloc_key, bucket_alloc_entry) region_env \<Rightarrow>
   (bucket_alloc_key, bucket_alloc_entry) kmerge \<Rightarrow> 'd \<Rightarrow> u64 \<Rightarrow> (storage_error, bucket_alloc_table) res" where
  "table_load_from_region ops env kmerge d offset =
     rbind (read_at ops d offset 8) (\<lambda>probe.
     if list_all (\<lambda>b. b = 0) probe then ok []
     else rbind (region_read ops env d offset BucketAlloc) (\<lambda>node. ok (table_from_loaded_node kmerge node)))"

section \<open>Addressing\<close>

text \<open>A bucket below one block is a failed assertion, a shift by 32 or more an overflow.\<close>

definition bucket_shift :: "u8 \<Rightarrow> ('e, nat) res" where
  "bucket_shift bucket_size_log2 =
     (if bucket_size_log2 < BLOCK_SIZE_LOG2 \<or> bucket_size_log2 - BLOCK_SIZE_LOG2 \<ge> 32 then Inl Panic
      else ok (bucket_size_log2 - BLOCK_SIZE_LOG2))"

definition block_no_to_bucket :: "u32 \<Rightarrow> u8 \<Rightarrow> ('e, u32 \<times> u32) res" where
  "block_no_to_bucket block_no bucket_size_log2 =
     rbind (bucket_shift bucket_size_log2) (\<lambda>shift.
     ok (drop_bit shift block_no, block_no AND (2 ^ shift - 1)))"

section \<open>BucketAllocator\<close>

record bucket_allocator =
  ba_table :: bucket_alloc_table
  ba_bucket_size_log2 :: u8
  ba_first_usable_bucket :: u32
  ba_total_buckets :: u32
  ba_disk_id :: u16

definition allocator_new ::
  "bucket_alloc_table \<Rightarrow> u16 \<Rightarrow> u8 \<Rightarrow> u32 \<Rightarrow> u32 \<Rightarrow> ('e, bucket_allocator) res" where
  "allocator_new t disk_id bucket_size_log2 first_usable total_buckets =
     (if bucket_size_log2 \<ge> BLOCK_SIZE_LOG2 \<and> first_usable \<le> total_buckets
      then ok \<lparr>ba_table = t, ba_bucket_size_log2 = bucket_size_log2, ba_first_usable_bucket = first_usable,
              ba_total_buckets = total_buckets, ba_disk_id = disk_id\<rparr>
      else Inl Panic)"

definition block_ref_offset :: "block_ref \<Rightarrow> u64" where
  "block_ref_offset r = push_bit BLOCK_SIZE_LOG2 (br_block_no r)"

definition ba_bucket_size :: "bucket_allocator \<Rightarrow> ('e, u64) res" where
  "ba_bucket_size a = (if ba_bucket_size_log2 a < 64 then ok (2 ^ ba_bucket_size_log2 a) else Inl Panic)"

text \<open>\<open>(bucket_no as u64) << bucket_size_log2\<close> drops the bits above 64.\<close>

definition ba_bucket_offset :: "bucket_allocator \<Rightarrow> u32 \<Rightarrow> ('e, u64) res" where
  "ba_bucket_offset a bucket_no =
     (if ba_bucket_size_log2 a < 64 then ok (push_bit (ba_bucket_size_log2 a) bucket_no mod 2 ^ 64) else Inl Panic)"

definition alloc_entry :: "u32 \<Rightarrow> u8 \<Rightarrow> bucket_alloc_entry" where
  "alloc_entry generation data_type = \<lparr>bae_generation = generation, bae_data_type = data_type, bae_flags = 0,
     bae_dirty_sectors = 0, bae_last_modify_lsn = 0\<rparr>"

definition bucket_is_free :: "bucket_alloc_table \<Rightarrow> u32 \<Rightarrow> bool" where
  "bucket_is_free t bucket_no = (case table_get t bucket_no of None \<Rightarrow> True | Some e \<Rightarrow> bae_data_type e = 0)"

fun alloc_scan ::
  "bucket_allocator \<Rightarrow> bucket_data_type \<Rightarrow> u32 list \<Rightarrow> (storage_error, block_ref \<times> bucket_allocator) res" where
  "alloc_scan a dt [] = err (AllocatorExhausted (bucket_data_type_u8 dt))"
| "alloc_scan a dt (bucket_no # bucket_nos) =
     (if \<not> bucket_is_free (ba_table a) bucket_no then alloc_scan a dt bucket_nos
      else
        let prev_gen = (case table_get (ba_table a) bucket_no of None \<Rightarrow> 0 | Some e \<Rightarrow> bae_generation e);
            new_gen = min (prev_gen + 1) (2 ^ 32 - 1);
            t = table_insert bucket_no (alloc_entry new_gen (bucket_data_type_u8 dt)) (ba_table a)
        in rbind (bucket_shift (ba_bucket_size_log2 a)) (\<lambda>shift.
           let block_no = push_bit shift bucket_no mod 2 ^ 32
           in ok (block_ref_new (ba_disk_id a) block_no new_gen, a\<lparr>ba_table := t\<rparr>)))"

definition allocator_alloc ::
  "bucket_allocator \<Rightarrow> bucket_data_type \<Rightarrow> (storage_error, block_ref \<times> bucket_allocator) res" where
  "allocator_alloc a dt =
     (if dt = BFree then Inl Panic
      else alloc_scan a dt [ba_first_usable_bucket a ..< ba_total_buckets a])"

definition allocator_free :: "bucket_allocator \<Rightarrow> block_ref \<Rightarrow> (storage_error, bucket_allocator) res" where
  "allocator_free a r =
     (if br_disk_id r \<noteq> ba_disk_id a then err (CrossDiskBlockRef (ba_disk_id a) (br_disk_id r))
      else rbind (block_no_to_bucket (br_block_no r) (ba_bucket_size_log2 a)) (\<lambda>(bucket_no, _).
        case table_get (ba_table a) bucket_no of
          None \<Rightarrow> err (FreeOfUnallocatedBucket bucket_no)
        | Some entry \<Rightarrow>
            if br_generation r \<noteq> bae_generation entry
            then err (StaleBlockRef (br_generation r) (bae_generation entry))
            else ok (a\<lparr>ba_table := table_insert bucket_no (alloc_entry (bae_generation entry) (bucket_data_type_u8 BFree)) (ba_table a)\<rparr>)))"

definition allocator_validate :: "bucket_allocator \<Rightarrow> block_ref \<Rightarrow> (storage_error, unit) res" where
  "allocator_validate a r =
     (if br_disk_id r \<noteq> ba_disk_id a then err (CrossDiskBlockRef (ba_disk_id a) (br_disk_id r))
      else rbind (block_no_to_bucket (br_block_no r) (ba_bucket_size_log2 a)) (\<lambda>(bucket_no, _).
        case table_get (ba_table a) bucket_no of
          None \<Rightarrow> err (StaleBlockRef (br_generation r) 0)
        | Some entry \<Rightarrow>
            if br_generation r \<noteq> bae_generation entry
            then err (StaleBlockRef (br_generation r) (bae_generation entry)) else ok ()))"

definition dereference_check :: "block_ref \<Rightarrow> bucket_alloc_entry \<Rightarrow> bool" where
  "dereference_check r e \<longleftrightarrow> bae_generation e = br_generation r"

definition seed_freelist :: "bucket_allocator \<Rightarrow> bucket_allocator" where
  "seed_freelist a =
     a\<lparr>ba_table := fold (\<lambda>bucket_no t.
         if table_get t bucket_no = None then table_insert bucket_no (alloc_entry 1 (bucket_data_type_u8 BFree)) t else t)
       [ba_first_usable_bucket a ..< ba_total_buckets a] (ba_table a)\<rparr>"

section \<open>Freespace LRU\<close>

datatype freespace_lru_key = FreespaceLruKey (flk_band: u8) (flk_disk_id: u16) (flk_bucket_no: u32)

definition flk_pos :: "freespace_lru_key \<Rightarrow> nat \<times> nat \<times> nat" where
  "flk_pos k = (flk_band k, flk_disk_id k, flk_bucket_no k)"

definition flk_cmp_le :: "freespace_lru_key \<Rightarrow> freespace_lru_key \<Rightarrow> bool" where
  "flk_cmp_le a b \<longleftrightarrow> flk_pos a \<le> flk_pos b"

instantiation freespace_lru_key :: linorder
begin

definition less_eq_freespace_lru_key :: "freespace_lru_key \<Rightarrow> freespace_lru_key \<Rightarrow> bool" where
  "a \<le> b \<longleftrightarrow> flk_cmp_le a b"

definition less_freespace_lru_key :: "freespace_lru_key \<Rightarrow> freespace_lru_key \<Rightarrow> bool" where
  "a < b \<longleftrightarrow> flk_cmp_le a b \<and> \<not> flk_cmp_le b a"

instance
  by standard (auto simp: less_eq_freespace_lru_key_def less_freespace_lru_key_def flk_cmp_le_def flk_pos_def freespace_lru_key.expand)

end

definition flk_bytes :: "freespace_lru_key \<Rightarrow> byte list" where
  "flk_bytes k = le_bytes 1 (flk_band k) @ le_bytes 2 (flk_disk_id k) @ le_bytes 4 (flk_bucket_no k)"

definition flk_deserialize :: "byte list \<Rightarrow> (string, freespace_lru_key) res" where
  "flk_deserialize bs =
     (if length bs \<noteq> 7 then err ''expected 7 bytes for FreespaceLruKey''
      else ok (FreespaceLruKey (get_le 0 1 bs) (get_le 1 2 bs) (get_le 3 4 bs)))"

type_synonym freespace_lru = "(freespace_lru_key, unit) btree_map"

definition lru_insert :: "freespace_lru \<Rightarrow> u8 \<Rightarrow> u16 \<Rightarrow> u32 \<Rightarrow> freespace_lru" where
  "lru_insert l band disk_id bucket_no = bm_insert (FreespaceLruKey band disk_id bucket_no) () l"

definition lru_remove :: "freespace_lru \<Rightarrow> u8 \<Rightarrow> u16 \<Rightarrow> u32 \<Rightarrow> bool \<times> freespace_lru" where
  "lru_remove l band disk_id bucket_no =
     (let k = FreespaceLruKey band disk_id bucket_no in (bm_get l k \<noteq> None, bm_remove k l))"

definition lru_contains :: "freespace_lru \<Rightarrow> u8 \<Rightarrow> u16 \<Rightarrow> u32 \<Rightarrow> bool" where
  "lru_contains l band disk_id bucket_no \<longleftrightarrow> bm_get l (FreespaceLruKey band disk_id bucket_no) \<noteq> None"

definition lru_iter_band :: "freespace_lru \<Rightarrow> u8 \<Rightarrow> freespace_lru_key list" where
  "lru_iter_band l band =
     map fst (bm_range_incl (FreespaceLruKey band 0 0) (FreespaceLruKey band (2 ^ 16 - 1) (2 ^ 32 - 1)) l)"

definition lru_to_loaded_node :: "freespace_lru \<Rightarrow> (storage_error, (freespace_lru_key, unit) loaded_node) res" where
  "lru_to_loaded_node l =
     (let entries = map (\<lambda>(k, _). (k, ())) l;
          node = node_new FreespaceLru 0 18
      in if entries = [] then ok node
         else rbind (run_from_sorted 0 0 entries) (\<lambda>run.
           ok (node\<lparr>n_sorted_runs := [run], n_header := (n_header node)\<lparr>nh_sorted_run_count := 1\<rparr>\<rparr>)))"

definition lru_from_loaded_node :: "(freespace_lru_key, unit) kmerge \<Rightarrow> (freespace_lru_key, unit) loaded_node \<Rightarrow> freespace_lru" where
  "lru_from_loaded_node kmerge node = fold (\<lambda>(k, _). bm_insert k ()) (merge_iter kmerge node) []"

definition lru_flush_to_region ::
  "'d block_device \<Rightarrow> (freespace_lru_key, unit) region_env \<Rightarrow> freespace_lru \<Rightarrow> 'd \<Rightarrow> u64 \<Rightarrow> (storage_error, 'd) res" where
  "lru_flush_to_region ops env l d offset =
     rbind (lru_to_loaded_node l) (\<lambda>node.
     rbind (write_full ops env d offset node) (\<lambda>(_, d1). ok d1))"

definition lru_load_from_region ::
  "'d block_device \<Rightarrow> (freespace_lru_key, unit) region_env \<Rightarrow> (freespace_lru_key, unit) kmerge \<Rightarrow> 'd \<Rightarrow> u64 \<Rightarrow>
   (storage_error, freespace_lru) res" where
  "lru_load_from_region ops env kmerge d offset =
     rbind (read_at ops d offset 8) (\<lambda>probe.
     if list_all (\<lambda>b. b = 0) probe then ok []
     else rbind (region_read ops env d offset FreespaceLru) (\<lambda>node. ok (lru_from_loaded_node kmerge node)))"

end
