(* ===== verification/Mb_Alloc_Thms.thy ===== *)
theory Mb_Alloc_Thms
  imports Mb_Alloc Mb_Region_Thms
begin

text \<open>
  The allocator hands out disjoint buckets and its references go stale when a bucket is reused;
  the allocation table and the freespace LRU survive a flush and a load.
\<close>

unbundle bit_operations_syntax

section \<open>Addressing\<close>

lemma block_no_to_bucket_ok:
  assumes "12 \<le> lg" and "lg - 12 < 32"
  shows "block_no_to_bucket n lg = ok (n div 2 ^ (lg - 12), n mod 2 ^ (lg - 12))"
proof -
  have "n AND (2 ^ (lg - 12) - 1) = n mod 2 ^ (lg - 12)"
    by (metis mask_eq_exp_minus_1 take_bit_eq_mask take_bit_eq_mod)
  then show ?thesis using assms by (simp add: block_no_to_bucket_def bucket_shift_def drop_bit_eq_div)
qed

section \<open>Runs of the allocator\<close>

text \<open>The disk's buckets, all of them addressable by a 32-bit block number.\<close>

definition alloc_geometry :: "bucket_allocator \<Rightarrow> bool" where
  "alloc_geometry a \<longleftrightarrow> 12 \<le> ba_bucket_size_log2 a \<and> ba_bucket_size_log2 a - 12 < 32 \<and>
     ba_first_usable_bucket a \<le> ba_total_buckets a \<and> ba_total_buckets a * 2 ^ (ba_bucket_size_log2 a - 12) \<le> 2 ^ 32"

definition ref_bucket :: "bucket_allocator \<Rightarrow> block_ref \<Rightarrow> u32" where
  "ref_bucket a r = br_block_no r div 2 ^ (ba_bucket_size_log2 a - 12)"

text \<open>Allocations and frees of live references, starting from a table with nothing allocated: the
  references that are live and the ones freed so far.\<close>

inductive alloc_reach :: "bucket_allocator \<Rightarrow> block_ref list \<Rightarrow> block_ref list \<Rightarrow> bool" where
  alloc_start: "alloc_geometry a \<Longrightarrow> ba_table a = [] \<Longrightarrow> alloc_reach (if seeded then seed_freelist a else a) [] []"
| alloc_step: "alloc_reach a live freed \<Longrightarrow> dt \<noteq> BFree \<Longrightarrow> allocator_alloc a dt = ok (r, a') \<Longrightarrow>
    alloc_reach a' (r # live) freed"
| free_step: "alloc_reach a live freed \<Longrightarrow> r \<in> set live \<Longrightarrow> allocator_free a r = ok a' \<Longrightarrow>
    alloc_reach a' (remove1 r live) (r # freed)"

definition live_ok :: "bucket_allocator \<Rightarrow> block_ref \<Rightarrow> bool" where
  "live_ok a r \<longleftrightarrow> br_disk_id r = ba_disk_id a \<and> ba_first_usable_bucket a \<le> ref_bucket a r \<and>
     ref_bucket a r < ba_total_buckets a \<and> br_block_no r = ref_bucket a r * 2 ^ (ba_bucket_size_log2 a - 12) \<and>
     (\<exists>e. bm_get (ba_table a) (ref_bucket a r) = Some e \<and> bae_data_type e \<noteq> 0 \<and> bae_generation e = br_generation r)"

definition freed_ok :: "bucket_allocator \<Rightarrow> block_ref \<Rightarrow> bool" where
  "freed_ok a r \<longleftrightarrow> br_disk_id r = ba_disk_id a \<and>
     (\<exists>e. bm_get (ba_table a) (ref_bucket a r) = Some e \<and> br_generation r \<le> bae_generation e \<and>
       (bae_data_type e \<noteq> 0 \<longrightarrow> bae_generation e < 2 ^ 32 - 1 \<longrightarrow> br_generation r < bae_generation e))"

definition alloc_inv :: "bucket_allocator \<Rightarrow> block_ref list \<Rightarrow> block_ref list \<Rightarrow> bool" where
  "alloc_inv a live freed \<longleftrightarrow> alloc_geometry a \<and> bm_wf (ba_table a) \<and>
     (\<forall>b e. bm_get (ba_table a) b = Some e \<longrightarrow> bae_generation e \<le> 2 ^ 32 - 1) \<and>
     distinct (map (ref_bucket a) live) \<and> (\<forall>r\<in>set live. live_ok a r) \<and> (\<forall>r\<in>set freed. freed_ok a r) \<and>
     (\<forall>b. ba_first_usable_bucket a \<le> b \<longrightarrow> b < ba_total_buckets a \<longrightarrow> \<not> bucket_is_free (ba_table a) b \<longrightarrow>
       b \<in> ref_bucket a ` set live)"

lemma seed_fold:
  fixes bs :: "u32 list"
  assumes "bm_wf t" and "\<forall>b e. bm_get t b = Some e \<longrightarrow> bae_data_type e = 0 \<and> bae_generation e \<le> 1"
  defines "t' \<equiv> fold (\<lambda>b t. if table_get t b = None then table_insert b (alloc_entry 1 (bucket_data_type_u8 BFree)) t else t) bs t"
  shows "bm_wf t' \<and> (\<forall>b e. bm_get t' b = Some e \<longrightarrow> bae_data_type e = 0 \<and> bae_generation e \<le> 1)"
  unfolding t'_def using assms(1,2)
proof (induction bs arbitrary: t)
  case (Cons b bs)
  let ?t = "if table_get t b = None then table_insert b (alloc_entry 1 (bucket_data_type_u8 BFree)) t else t"
  have wf: "bm_wf ?t" using Cons.prems(1) by (simp add: table_insert_def bm_wf_insert)
  have "\<forall>b' e. bm_get ?t b' = Some e \<longrightarrow> bae_data_type e = 0 \<and> bae_generation e \<le> 1"
    using Cons.prems by (auto simp: table_insert_def bm_get_insert alloc_entry_def)
  from Cons.IH [OF wf this] show ?case by simp
qed simp

lemma one_le_max_u32: "(1 :: nat) \<le> 2 ^ 32 - 1"
  by simp

lemma alloc_inv_start:
  assumes "alloc_geometry a" and "ba_table a = []"
  shows "alloc_inv (if seeded then seed_freelist a else a) [] []"
proof -
  let ?a = "if seeded then seed_freelist a else a"
  have "bm_wf (ba_table ?a) \<and> (\<forall>b e. bm_get (ba_table ?a) b = Some e \<longrightarrow> bae_data_type e = 0 \<and> bae_generation e \<le> 1)"
    using seed_fold [of "[]"] assms(2) by (simp add: seed_freelist_def)
  moreover from this have "\<forall>b e. bm_get (ba_table ?a) b = Some e \<longrightarrow> bae_generation e \<le> 2 ^ 32 - 1"
    using order_trans [of _ 1 "2 ^ 32 - 1 :: nat", OF _ one_le_max_u32] by blast
  moreover have "alloc_geometry ?a" using assms(1) by (simp add: alloc_geometry_def seed_freelist_def)
  ultimately show ?thesis
    by (auto simp: alloc_inv_def bucket_is_free_def table_get_def split: option.splits)
qed

text \<open>The scan takes the first free bucket.\<close>

lemma alloc_scan_spec:
  assumes "alloc_geometry a"
  shows "(\<forall>b\<in>set bs. \<not> bucket_is_free (ba_table a) b) \<and> alloc_scan a dt bs = err (AllocatorExhausted (bucket_data_type_u8 dt)) \<or>
    (\<exists>b\<in>set bs. bucket_is_free (ba_table a) b \<and>
      (let prev = (case bm_get (ba_table a) b of None \<Rightarrow> 0 | Some e \<Rightarrow> bae_generation e); g = min (prev + 1) (2 ^ 32 - 1)
       in alloc_scan a dt bs = ok (block_ref_new (ba_disk_id a) (b * 2 ^ (ba_bucket_size_log2 a - 12) mod 2 ^ 32) g,
            a\<lparr>ba_table := bm_insert b (alloc_entry g (bucket_data_type_u8 dt)) (ba_table a)\<rparr>)))"
proof (induction bs)
  case (Cons b bs)
  show ?case
  proof (cases "bucket_is_free (ba_table a) b")
    case True
    have "alloc_scan a dt (b # bs) = (let prev = (case bm_get (ba_table a) b of None \<Rightarrow> 0 | Some e \<Rightarrow> bae_generation e);
        g = min (prev + 1) (2 ^ 32 - 1) in
        ok (block_ref_new (ba_disk_id a) (b * 2 ^ (ba_bucket_size_log2 a - 12) mod 2 ^ 32) g,
            a\<lparr>ba_table := bm_insert b (alloc_entry g (bucket_data_type_u8 dt)) (ba_table a)\<rparr>))"
      using True assms by (simp add: alloc_geometry_def bucket_shift_def table_get_def table_insert_def push_bit_eq_mult Let_def)
    then show ?thesis using True by (metis list.set_intros(1))
  next
    case False
    then have "alloc_scan a dt (b # bs) = alloc_scan a dt bs" by simp
    with Cons.IH False show ?thesis by auto
  qed
qed simp

lemma bucket_data_type_u8_pos: "dt \<noteq> BFree \<Longrightarrow> bucket_data_type_u8 dt \<noteq> 0"
  by (cases dt) auto

lemma ref_bucket_table [simp]: "ref_bucket (a\<lparr>ba_table := t\<rparr>) = ref_bucket a"
  by (simp add: ref_bucket_def fun_eq_iff)

lemma alloc_geometry_table [simp]: "alloc_geometry (a\<lparr>ba_table := t\<rparr>) = alloc_geometry a"
  by (simp add: alloc_geometry_def)

lemma bucket_is_free_alt: "bucket_is_free t b \<longleftrightarrow> (\<forall>e. bm_get t b = Some e \<longrightarrow> bae_data_type e = 0)"
  by (simp add: bucket_is_free_def table_get_def split: option.splits)

text \<open>The reference to a bucket in range names exactly that bucket.\<close>

lemma ref_bucket_new:
  assumes "alloc_geometry a" and "b < ba_total_buckets a"
  shows "b * 2 ^ (ba_bucket_size_log2 a - 12) mod 2 ^ 32 = b * 2 ^ (ba_bucket_size_log2 a - 12)"
    and "ref_bucket a (block_ref_new d (b * 2 ^ (ba_bucket_size_log2 a - 12)) g) = b"
proof -
  let ?s = "(2 :: nat) ^ (ba_bucket_size_log2 a - 12)"
  have "b * ?s < ba_total_buckets a * ?s" using assms(2) by simp
  also have "\<dots> \<le> 2 ^ 32" using assms(1) by (simp add: alloc_geometry_def)
  finally show "b * ?s mod 2 ^ 32 = b * ?s" by simp
  show "ref_bucket a (block_ref_new d (b * ?s) g) = b" by (simp add: ref_bucket_def block_ref_new_def)
qed

lemma alloc_entry_simps [simp]: "bae_generation (alloc_entry g t) = g" "bae_data_type (alloc_entry g t) = t"
  by (simp_all add: alloc_entry_def)

lemma alloc_inv_alloc:
  assumes inv: "alloc_inv a live freed" and dt: "dt \<noteq> BFree" and al: "allocator_alloc a dt = ok (r, a')"
  shows "alloc_inv a' (r # live) freed"
proof -
  let ?s = "(2 :: nat) ^ (ba_bucket_size_log2 a - 12)"
  have geo: "alloc_geometry a" and wf: "bm_wf (ba_table a)" using inv by (simp_all add: alloc_inv_def)
  obtain b g where b: "ba_first_usable_bucket a \<le> b" "b < ba_total_buckets a" "bucket_is_free (ba_table a) b"
    and g: "g = min ((case bm_get (ba_table a) b of None \<Rightarrow> 0 | Some e \<Rightarrow> bae_generation e) + 1) (2 ^ 32 - 1)"
    and r: "r = block_ref_new (ba_disk_id a) (b * ?s) g"
    and a': "a' = a\<lparr>ba_table := bm_insert b (alloc_entry g (bucket_data_type_u8 dt)) (ba_table a)\<rparr>"
    using alloc_scan_spec [OF geo, of "[ba_first_usable_bucket a ..< ba_total_buckets a]" dt] al dt ref_bucket_new(1) [OF geo]
    by (auto simp: allocator_alloc_def Let_def)
  note get = bm_get_insert [OF wf, of b "alloc_entry g (bucket_data_type_u8 dt)"]
  have rb: "ref_bucket a r = b" using ref_bucket_new(2) [OF geo b(2)] r by simp
  have notin: "b \<notin> ref_bucket a ` set live"
    using inv b(3) by (auto simp: alloc_inv_def live_ok_def bucket_is_free_alt)
  have live: "live_ok a' x" if "x \<in> set live" for x
    using inv that notin by (auto simp: alloc_inv_def live_ok_def get a')
  have "live_ok a' r"
    using b rb bucket_data_type_u8_pos [OF dt] by (auto simp: live_ok_def get a' r block_ref_new_def)
  moreover have "freed_ok a' x" if "x \<in> set freed" for x
  proof -
    have "freed_ok a x" using inv that by (simp add: alloc_inv_def)
    then obtain e where e: "br_disk_id x = ba_disk_id a" "bm_get (ba_table a) (ref_bucket a x) = Some e"
        "br_generation x \<le> bae_generation e"
        "bae_data_type e \<noteq> 0 \<longrightarrow> bae_generation e < 2 ^ 32 - 1 \<longrightarrow> br_generation x < bae_generation e"
      unfolding freed_ok_def by blast
    have le: "bae_generation e \<le> 2 ^ 32 - 1" using inv e(2) by (auto simp: alloc_inv_def)
    show ?thesis
    proof (cases "ref_bucket a x = b")
      case True
      then have "g = min (bae_generation e + 1) (2 ^ 32 - 1)" using g e(2) by simp
      then have "br_generation x \<le> g \<and> (g < 2 ^ 32 - 1 \<longrightarrow> br_generation x < g)" using e(3) le by linarith
      then show ?thesis using e(1) True by (auto simp: freed_ok_def get a')
    qed (use e in \<open>auto simp: freed_ok_def get a'\<close>)
  qed
  moreover have "bae_generation e \<le> 2 ^ 32 - 1" if "bm_get (ba_table a') b' = Some e" for b' e
  proof -
    have "g \<le> 2 ^ 32 - 1" unfolding g by (rule min.cobounded2)
    then show ?thesis using that inv by (auto simp: alloc_inv_def get a' split: if_splits)
  qed
  moreover have "b' \<in> ref_bucket a ` set (r # live)"
    if "ba_first_usable_bucket a \<le> b'" "b' < ba_total_buckets a" "\<not> bucket_is_free (ba_table a') b'" for b'
    using that inv rb by (auto simp: alloc_inv_def bucket_is_free_alt get a' split: if_splits)
  ultimately show ?thesis
    using geo bm_wf_insert [OF wf] inv notin rb live by (auto simp: alloc_inv_def a')
qed

lemma free_live:
  assumes inv: "alloc_inv a live freed" and r: "r \<in> set live"
  obtains e where "bm_get (ba_table a) (ref_bucket a r) = Some e" and "bae_generation e = br_generation r"
    and "allocator_free a r = ok (a\<lparr>ba_table := bm_insert (ref_bucket a r) (alloc_entry (br_generation r) 0) (ba_table a)\<rparr>)"
    and "allocator_validate a r = ok ()"
proof -
  have geo: "12 \<le> ba_bucket_size_log2 a" "ba_bucket_size_log2 a - 12 < 32"
    using inv by (simp_all add: alloc_inv_def alloc_geometry_def)
  obtain e where e: "br_disk_id r = ba_disk_id a" "bm_get (ba_table a) (ref_bucket a r) = Some e"
      "bae_generation e = br_generation r"
    using inv r by (auto simp: alloc_inv_def live_ok_def)
  have "allocator_free a r = ok (a\<lparr>ba_table := bm_insert (ref_bucket a r) (alloc_entry (br_generation r) 0) (ba_table a)\<rparr>)"
    and "allocator_validate a r = ok ()"
    using e by (simp_all add: block_no_to_bucket_ok [OF geo] allocator_free_def allocator_validate_def table_get_def
        table_insert_def ref_bucket_def)
  with that e(2,3) show ?thesis by blast
qed

lemma alloc_inv_free:
  assumes inv: "alloc_inv a live freed" and r: "r \<in> set live" and fr: "allocator_free a r = ok a'"
  shows "alloc_inv a' (remove1 r live) (r # freed)"
proof -
  let ?b = "ref_bucket a r"
  have geo: "alloc_geometry a" and wf: "bm_wf (ba_table a)" and dist: "distinct (map (ref_bucket a) live)"
    using inv by (simp_all add: alloc_inv_def)
  obtain e where e: "bm_get (ba_table a) ?b = Some e" "bae_generation e = br_generation r"
    and a': "a' = a\<lparr>ba_table := bm_insert ?b (alloc_entry (br_generation r) 0) (ba_table a)\<rparr>"
    using free_live [OF inv r] fr by (metis Inr_inject)
  note get = bm_get_insert [OF wf, of ?b "alloc_entry (br_generation r) 0"]
  have other: "ref_bucket a x \<noteq> ?b" if "x \<in> set (remove1 r live)" for x
  proof -
    have dl: "distinct live" using dist by (simp add: distinct_map)
    then have "x \<in> set live" "x \<noteq> r" using that set_remove1_eq [OF dl, of r] by auto
    then show ?thesis using dist r by (auto simp: distinct_map inj_on_def)
  qed
  have disk: "br_disk_id r = ba_disk_id a" using inv r by (auto simp: alloc_inv_def live_ok_def)
  have "live_ok a' x" if "x \<in> set (remove1 r live)" for x
    using inv other [OF that] notin_set_remove1 [of x live r] that
    by (auto simp: alloc_inv_def live_ok_def get a' dest: set_remove1_subset [THEN subsetD])
  moreover have "freed_ok a' x" if "x \<in> set freed" for x
  proof (cases "ref_bucket a x = ?b")
    case True
    then show ?thesis using inv that e by (auto simp: alloc_inv_def freed_ok_def get a')
  next
    case False
    then show ?thesis using inv that by (auto simp: alloc_inv_def freed_ok_def get a')
  qed
  moreover have "freed_ok a' r" using disk by (auto simp: freed_ok_def get a')
  moreover have "bae_generation x \<le> 2 ^ 32 - 1" if "bm_get (ba_table a') b' = Some x" for b' x
  proof -
    have "br_generation r \<le> 2 ^ 32 - 1" using inv e unfolding alloc_inv_def by metis
    then show ?thesis using that inv by (auto simp: alloc_inv_def get a' split: if_splits)
  qed
  moreover have "distinct (map (ref_bucket a) (remove1 r live))"
    using dist by (metis distinct_map distinct_remove1 inj_on_subset set_remove1_subset)
  moreover have "b' \<in> ref_bucket a ` set (remove1 r live)"
    if b': "ba_first_usable_bucket a \<le> b'" "b' < ba_total_buckets a" "\<not> bucket_is_free (ba_table a') b'" for b'
  proof -
    have ne: "b' \<noteq> ?b" and "\<not> bucket_is_free (ba_table a) b'"
      using b'(3) by (auto simp: bucket_is_free_alt get a' split: if_splits)
    then obtain x where "x \<in> set live" "b' = ref_bucket a x" using inv b'(1,2) by (auto simp: alloc_inv_def)
    with ne show ?thesis by (metis imageI in_set_remove1)
  qed
  ultimately show ?thesis using geo bm_wf_insert [OF wf] by (auto simp: alloc_inv_def a')
qed

lemma alloc_reach_inv: "alloc_reach a live freed \<Longrightarrow> alloc_inv a live freed"
proof (induction rule: alloc_reach.induct)
  case (alloc_start a seeded)
  then show ?case by (rule alloc_inv_start)
next
  case (alloc_step a live freed dt r a')
  then show ?case using alloc_inv_alloc by blast
next
  case (free_step a live freed r a')
  then show ?case using alloc_inv_free by blast
qed


lemma live_in_range:
  assumes "alloc_inv a live freed" and "r \<in> set live"
  shows "br_block_no r = ref_bucket a r * 2 ^ (ba_bucket_size_log2 a - 12)"
    and "ba_first_usable_bucket a \<le> ref_bucket a r" and "ref_bucket a r < ba_total_buckets a"
    and "br_disk_id r = ba_disk_id a"
  using assms by (auto simp: alloc_inv_def live_ok_def)

text \<open>The byte offset of a reference that names the start of bucket \<open>b\<close>.\<close>

lemma bucket_ref_offset:
  assumes "12 \<le> lg" and "br_block_no r = b * 2 ^ (lg - 12)"
  shows "block_ref_offset r = b * 2 ^ lg"
proof -
  have "(2 :: nat) ^ lg = 2 ^ (lg - 12) * 2 ^ 12" using assms(1) by (metis le_add_diff_inverse2 power_add)
  then show ?thesis using assms(2) by (simp add: block_ref_offset_def push_bit_eq_mult)
qed

lemma alloc_scan_fields:
  "alloc_scan a dt bs = ok (r, a') \<Longrightarrow> ba_disk_id a' = ba_disk_id a \<and> ba_first_usable_bucket a' = ba_first_usable_bucket a \<and>
     ba_total_buckets a' = ba_total_buckets a \<and> ba_bucket_size_log2 a' = ba_bucket_size_log2 a"
  by (induction bs) (auto simp: Let_def res_simps split: if_splits)

lemma allocator_alloc_fields:
  assumes "allocator_alloc a dt = ok (r, a')"
  shows "ba_disk_id a' = ba_disk_id a" and "ba_first_usable_bucket a' = ba_first_usable_bucket a"
    and "ba_total_buckets a' = ba_total_buckets a"
  using alloc_scan_fields assms by (auto simp: allocator_alloc_def split: if_splits)

section \<open>Properties of the allocator\<close>

text \<open>C22. On a disk of at most $2^{32}$ blocks of 4096 bytes, the range of a 32-bit block number, however allocations and
  frees of live references are interleaved from an empty table, the live references name disjoint byte ranges
  of the disk's usable buckets, each of them passes the generation check and can be freed.\<close>

theorem alloc_live_disjoint:
  assumes "alloc_reach a live freed"
  defines "sz \<equiv> 2 ^ ba_bucket_size_log2 a"
  shows "(\<forall>r\<in>set live. allocator_validate a r = ok () \<and> (\<exists>a'. allocator_free a r = ok a') \<and>
      ba_first_usable_bucket a * sz \<le> block_ref_offset r \<and> block_ref_offset r + sz \<le> ba_total_buckets a * sz) \<and>
    (\<forall>i<length live. \<forall>j<length live. i \<noteq> j \<longrightarrow>
      {block_ref_offset (live ! i) ..< block_ref_offset (live ! i) + sz} \<inter>
      {block_ref_offset (live ! j) ..< block_ref_offset (live ! j) + sz} = {})"
proof -
  note inv = alloc_reach_inv [OF assms(1)]
  have lg: "12 \<le> ba_bucket_size_log2 a" using inv by (simp add: alloc_inv_def alloc_geometry_def)
  have off: "block_ref_offset r = ref_bucket a r * sz" if "r \<in> set live" for r
    using bucket_ref_offset [OF lg live_in_range(1) [OF inv that]] by (simp add: sz_def)
  have one: "allocator_validate a r = ok () \<and> (\<exists>a'. allocator_free a r = ok a') \<and>
      ba_first_usable_bucket a * sz \<le> block_ref_offset r \<and> block_ref_offset r + sz \<le> ba_total_buckets a * sz"
    if r: "r \<in> set live" for r
  proof -
    have "Suc (ref_bucket a r) * sz \<le> ba_total_buckets a * sz" using live_in_range(3) [OF inv r] by (intro mult_le_mono1) simp
    then show ?thesis using free_live [OF inv r] live_in_range(2) [OF inv r] off [OF r] by (auto simp: add.commute)
  qed
  have "{block_ref_offset (live ! i) ..< block_ref_offset (live ! i) + sz} \<inter>
      {block_ref_offset (live ! j) ..< block_ref_offset (live ! j) + sz} = {}"
    if ij: "i < length live" "j < length live" "i \<noteq> j" for i j
  proof -
    have "ref_bucket a (live ! i) \<noteq> ref_bucket a (live ! j)"
      using inv ij nth_eq_iff_index_eq [of "map (ref_bucket a) live" i j] by (simp add: alloc_inv_def)
    then consider "Suc (ref_bucket a (live ! i)) \<le> ref_bucket a (live ! j)" | "Suc (ref_bucket a (live ! j)) \<le> ref_bucket a (live ! i)"
      by linarith
    then show ?thesis using off ij(1,2) mult_le_mono1 [of "Suc _" _ sz] by cases (force simp: off)+
  qed
  with one show ?thesis by blast
qed

definition wit_alloc :: bucket_allocator where
  "wit_alloc = \<lparr>ba_table = [], ba_bucket_size_log2 = 20, ba_first_usable_bucket = 1, ba_total_buckets = 3, ba_disk_id = 7\<rparr>"

definition wit_alloc2 :: bucket_allocator where
  "wit_alloc2 = wit_alloc\<lparr>ba_table := [(1, alloc_entry 1 5), (2, alloc_entry 1 4)]\<rparr>"

lemma wit_alloc_geometry: "alloc_geometry wit_alloc"
  by (simp add: alloc_geometry_def wit_alloc_def)

lemma wit_alloc_reach: "alloc_reach wit_alloc2 [block_ref_new 7 512 1, block_ref_new 7 256 1] []"
proof -
  have s: "bucket_shift 20 = (ok 8 :: (storage_error, nat) res)" by (simp add: bucket_shift_def)
  have r: "[Suc 0..<3] = [Suc 0, 2]" by (simp add: upt_rec)
  have 0: "alloc_reach wit_alloc [] []"
    using alloc_start [OF wit_alloc_geometry, of False] by (simp add: wit_alloc_def)
  have 1: "allocator_alloc wit_alloc BBtreeNode = ok (block_ref_new 7 256 1, wit_alloc\<lparr>ba_table := [(1, alloc_entry 1 5)]\<rparr>)"
    by (simp add: allocator_alloc_def wit_alloc_def r bucket_is_free_def table_get_def table_insert_def s push_bit_eq_mult)
  have 2: "allocator_alloc (wit_alloc\<lparr>ba_table := [(1, alloc_entry 1 5)]\<rparr>) BBlob = ok (block_ref_new 7 512 1, wit_alloc2)"
    by (simp add: allocator_alloc_def wit_alloc_def wit_alloc2_def r bucket_is_free_def table_get_def table_insert_def s
        push_bit_eq_mult)
  show ?thesis using alloc_step [OF alloc_step [OF 0 _ 1] _ 2] by simp
qed

theorem alloc_live_disjoint_witness:
  "alloc_reach wit_alloc2 [block_ref_new 7 512 1, block_ref_new 7 256 1] [] \<and>
   allocator_validate wit_alloc2 (block_ref_new 7 512 1) = ok ()"
  using alloc_live_disjoint [OF wit_alloc_reach] wit_alloc_reach by simp

text \<open>C23. Allocation is complete. After any interleaving of allocations and frees of live references on a disk of at most
  $2^{32}$ blocks, allocating for a type other than free fails, with \<open>AllocatorExhausted\<close>, exactly when every
  usable bucket of the disk is live; otherwise it returns a reference on the disk, one that was not live.\<close>

theorem alloc_complete:
  assumes "alloc_reach a live freed" and "dt \<noteq> BFree"
  shows "if length live < ba_total_buckets a - ba_first_usable_bucket a
    then \<exists>r a'. allocator_alloc a dt = ok (r, a') \<and> r \<notin> set live \<and> br_disk_id r = ba_disk_id a \<and> alloc_reach a' (r # live) freed
    else allocator_alloc a dt = err (AllocatorExhausted (bucket_data_type_u8 dt))"
proof -
  note inv = alloc_reach_inv [OF assms(1)]
  let ?bs = "{ba_first_usable_bucket a ..< ba_total_buckets a}" and ?used = "ref_bucket a ` set live"
  have geo: "alloc_geometry a" using inv by (simp add: alloc_inv_def)
  have card: "card ?used = length live"
    using inv by (metis (no_types, lifting) alloc_inv_def distinct_card length_map set_map)
  have sub: "?used \<subseteq> ?bs" using live_in_range(2,3) [OF inv] by auto
  have free: "bucket_is_free (ba_table a) b \<longleftrightarrow> b \<notin> ?used" if "b \<in> ?bs" for b
    using inv that by (auto simp: alloc_inv_def live_ok_def bucket_is_free_alt)
  have some: "\<exists>b\<in>?bs. bucket_is_free (ba_table a) b" if "length live < ba_total_buckets a - ba_first_usable_bucket a"
    using that free card sub by (metis card_atLeastLessThan less_irrefl subset_antisym subsetI)
  have none: "\<forall>b\<in>?bs. \<not> bucket_is_free (ba_table a) b" if "\<not> length live < ba_total_buckets a - ba_first_usable_bucket a"
    using that free card card_seteq [OF _ sub] by auto
  show ?thesis
  proof (cases "length live < ba_total_buckets a - ba_first_usable_bucket a")
    case True
    then obtain r a' where al: "allocator_alloc a dt = ok (r, a')"
      using alloc_scan_spec [OF geo, of "[ba_first_usable_bucket a ..< ba_total_buckets a]" dt] some assms(2)
      by (auto simp: allocator_alloc_def Let_def)
    have reach: "alloc_reach a' (r # live) freed" using alloc_step [OF assms(1,2) al] .
    have inv': "alloc_inv a' (r # live) freed" using alloc_reach_inv [OF reach] .
    then have "r \<notin> set live" by (auto simp: alloc_inv_def)
    moreover have "br_disk_id r = ba_disk_id a"
      using live_in_range(4) [OF inv', of r] allocator_alloc_fields(1) [OF al] by simp
    ultimately show ?thesis using True al reach by auto
  next
    case False
    then show ?thesis
      using alloc_scan_spec [OF geo, of "[ba_first_usable_bucket a ..< ba_total_buckets a]" dt] none assms(2)
      by (auto simp: allocator_alloc_def)
  qed
qed


theorem alloc_complete_witness: "allocator_alloc wit_alloc2 BBlob = err (AllocatorExhausted 4)"
  using alloc_complete [OF wit_alloc_reach, of BBlob] by (simp add: wit_alloc2_def wit_alloc_def)

text \<open>A freed reference whose bucket has been handed out again is stale: both the generation check
  and a second free reject it with \<open>StaleBlockRef\<close> and both generations, as long as the bucket's
  generation has not saturated.\<close>

theorem freed_ref_stale:
  assumes "alloc_reach a live freed" and "r \<in> set freed" and "x \<in> set live"
    and "ref_bucket a x = ref_bucket a r" and "br_generation x < 2 ^ 32 - 1"
  shows "allocator_validate a r = err (StaleBlockRef (br_generation r) (br_generation x)) \<and>
    allocator_free a r = err (StaleBlockRef (br_generation r) (br_generation x))"
proof -
  note inv = alloc_reach_inv [OF assms(1)]
  have geo: "12 \<le> ba_bucket_size_log2 a" "ba_bucket_size_log2 a - 12 < 32"
    using inv by (simp_all add: alloc_inv_def alloc_geometry_def)
  obtain e where e: "bm_get (ba_table a) (ref_bucket a r) = Some e" "bae_data_type e \<noteq> 0" "bae_generation e = br_generation x"
    using inv assms(3,4) by (auto simp: alloc_inv_def live_ok_def)
  have "freed_ok a r" using inv assms(2) by (simp add: alloc_inv_def)
  then have "br_disk_id r = ba_disk_id a" "br_generation r < br_generation x"
    using e assms(5) unfolding freed_ok_def by auto
  then show ?thesis
    using e by (simp add: block_no_to_bucket_ok [OF geo] allocator_free_def allocator_validate_def table_get_def
        ref_bucket_def)
qed

definition wit_alloc3 :: bucket_allocator where
  "wit_alloc3 = wit_alloc\<lparr>ba_table := [(1, alloc_entry 2 4), (2, alloc_entry 1 4)]\<rparr>"

lemma wit_alloc3_reach:
  "alloc_reach wit_alloc3 [block_ref_new 7 256 2, block_ref_new 7 512 1] [block_ref_new 7 256 1]"
proof -
  have s: "bucket_shift 20 = (ok 8 :: (storage_error, nat) res)" by (simp add: bucket_shift_def)
  have r: "[Suc 0..<3] = [Suc 0, 2]" by (simp add: upt_rec)
  let ?a = "wit_alloc\<lparr>ba_table := [(1, alloc_entry 1 0), (2, alloc_entry 1 4)]\<rparr>"
  have b: "block_no_to_bucket 256 20 = (ok (1, 0) :: (storage_error, u32 \<times> u32) res)"
    by (simp add: block_no_to_bucket_ok)
  have f: "allocator_free wit_alloc2 (block_ref_new 7 256 1) = ok ?a"
    using b by (simp add: allocator_free_def wit_alloc_def wit_alloc2_def block_ref_new_def table_get_def table_insert_def)
  have al: "allocator_alloc ?a BBlob = ok (block_ref_new 7 256 2, wit_alloc3)"
    by (simp add: allocator_alloc_def wit_alloc_def wit_alloc3_def r bucket_is_free_def table_get_def table_insert_def s
        push_bit_eq_mult) (simp add: numeral_2_eq_2)
  have "alloc_reach ?a [block_ref_new 7 512 1] [block_ref_new 7 256 1]"
    using free_step [OF wit_alloc_reach _ f] by (simp add: block_ref_new_def)
  from alloc_step [OF this _ al] show ?thesis by simp
qed

theorem freed_ref_stale_witness:
  "allocator_validate wit_alloc3 (block_ref_new 7 256 1) = err (StaleBlockRef 1 2)"
  using freed_ref_stale [OF wit_alloc3_reach, of "block_ref_new 7 256 1" "block_ref_new 7 256 2"]
  by (simp add: ref_bucket_def block_ref_new_def)

text \<open>Until its bucket is handed out again a freed reference is not detected: freeing a live
  reference leaves the generation as it was, so the same reference still passes the generation check
  and a second free of it succeeds without changing anything.\<close>

theorem freed_ref_accepted:
  assumes "alloc_reach a live freed" and "r \<in> set live" and "allocator_free a r = ok a'"
  shows "allocator_validate a' r = ok () \<and> allocator_free a' r = ok a'"
proof -
  note inv = alloc_reach_inv [OF assms(1)]
  have geo: "12 \<le> ba_bucket_size_log2 a" "ba_bucket_size_log2 a - 12 < 32"
    using inv by (simp_all add: alloc_inv_def alloc_geometry_def)
  have wf: "bm_wf (ba_table a)" using inv by (simp add: alloc_inv_def)
  have a': "a' = a\<lparr>ba_table := bm_insert (ref_bucket a r) (alloc_entry (br_generation r) 0) (ba_table a)\<rparr>"
    using free_live [OF inv assms(2)] assms(3) by (metis Inr_inject)
  have get: "bm_get (ba_table a') (ref_bucket a r) = Some (alloc_entry (br_generation r) 0)"
    using a' bm_get_insert [OF wf] by simp
  have wf': "bm_wf (ba_table a')" using a' bm_wf_insert [OF wf] by simp
  have same: "bm_insert (ref_bucket a r) (alloc_entry (br_generation r) 0) (ba_table a') = ba_table a'"
    by (rule bm_wf_ext) (use wf' get in \<open>simp_all add: bm_wf_insert bm_get_insert fun_upd_idem\<close>)
  have disk: "br_disk_id r = ba_disk_id a" using live_in_range(4) [OF inv assms(2)] .
  have f: "ba_disk_id a' = ba_disk_id a" "ba_bucket_size_log2 a' = ba_bucket_size_log2 a" using a' by simp_all
  show ?thesis
    using get same disk f
    by (simp add: block_no_to_bucket_ok [OF geo] allocator_free_def allocator_validate_def table_get_def
        table_insert_def ref_bucket_def)
qed

theorem freed_ref_accepted_witness:
  "\<exists>a'. allocator_free wit_alloc2 (block_ref_new 7 256 1) = ok a' \<and> allocator_validate a' (block_ref_new 7 256 1) = ok ()"
proof -
  have l: "block_ref_new 7 256 1 \<in> set [block_ref_new 7 512 1, block_ref_new 7 256 1]" by simp
  obtain a' where "allocator_free wit_alloc2 (block_ref_new 7 256 1) = ok a'"
    using free_live [OF alloc_reach_inv [OF wit_alloc_reach] l] by metis
  with freed_ref_accepted [OF wit_alloc_reach l] show ?thesis by blast
qed


section \<open>Persistence\<close>

text \<open>The node a table or the LRU is flushed as: one sorted run, or none.\<close>

definition one_run_node :: "btree_kind \<Rightarrow> ('k \<times> 'v) list \<Rightarrow> ('k, 'v) loaded_node" where
  "one_run_node kind es = (let node = node_new kind 0 18 in if es = [] then node
     else node\<lparr>n_sorted_runs := [\<lparr>run_seq = 0, run_journal_seq = 0, run_flags = 0, run_entries = es\<rparr>],
       n_header := (n_header node)\<lparr>nh_sorted_run_count := 1\<rparr>\<rparr>)"

definition entries_fit :: "('k, 'v) region_env \<Rightarrow> ('k \<times> 'v) list \<Rightarrow> bool" where
  "entries_fit env es \<longleftrightarrow> (case env_encode env es of Inl _ \<Rightarrow> False | Inr bs \<Rightarrow> length bs \<le> 2 ^ 18 - 4096 - 32)"

lemma one_run_writable:
  assumes "entries_fit env es" and "offset + 2 ^ 18 \<le> fd_capacity d"
  shows "node_writable env d offset (one_run_node kind es)"
proof -
  obtain bs where bs: "env_encode env es = ok bs" "length bs \<le> 2 ^ 18 - 4096 - 32"
    using assms(1) by (auto simp: entries_fit_def split: sum.splits)
  have k: "btree_kind_u16 kind < 2 ^ 16" by (cases kind) auto
  show ?thesis
    using bs assms(2) k
    by (simp add: one_run_node_def node_writable_def Let_def node_new_def node_header_new_def node_header_ok_def
        preamble_ok_def BLOCK_PREAMBLE_MAGIC_BTREE_def run_wf_def encode_run_def)
qed

lemma header_probe:
  assumes "node_header_ok h" and "bp_magic (nh_pre h) = BLOCK_PREAMBLE_MAGIC_BTREE"
  shows "\<not> list_all (\<lambda>b. b = 0) (take 8 (header_sector h))"
proof
  assume z: "list_all (\<lambda>b. b = 0) (take 8 (header_sector h))"
  have p: "preamble_ok (nh_pre h)" using assms(1) by (simp add: node_header_ok_def)
  have "take 8 (header_sector h) = preamble_bytes (nh_pre h)"
    using length_preamble_bytes [OF p] by (simp add: header_sector_def node_header_bytes_def)
  then have "preamble_bytes (nh_pre h) = replicate 8 0"
    using z length_preamble_bytes [OF p] by (simp add: list_all_iff replicate_eqI)
  then have "nh_pre h = preamble_of (replicate 8 0)" using preamble_of_bytes [OF p] by simp
  then have "hd (bp_magic (nh_pre h)) = 0" by (simp add: preamble_of_def)
  then show False using assms(2) by (simp add: BLOCK_PREAMBLE_MAGIC_BTREE_def)
qed

lemma one_run_roundtrip:
  assumes "env_ok env" and "kmerge_ok kmerge" and "file_device_inv d" and "fd_writable d"
    and "offset + 2 ^ 18 \<le> fd_capacity d" and "entries_fit env es" and "bm_wf es"
  obtains node' d' r probe where "write_full file_block_device env d offset (one_run_node kind es) = ok (node', d')"
    and "read_at file_block_device d' offset 8 = ok probe" and "\<not> list_all (\<lambda>b. b = 0) probe"
    and "region_read file_block_device env d' offset kind = ok r" and "merge_iter kmerge r = es"
proof -
  let ?node = "one_run_node kind es"
  have kind: "bp_kind (nh_pre (n_header ?node)) = btree_kind_u16 kind"
    by (simp add: one_run_node_def node_new_def node_header_new_def Let_def)
  obtain h' d' where w: "write_full file_block_device env d offset ?node = ok (?node\<lparr>n_header := h', n_dirty := False\<rparr>, d')"
      "file_device_inv d'" "nh_pre h' = nh_pre (n_header ?node)"
      "region_ok env (fd_file d') (fd_capacity d') offset h' (n_sorted_runs ?node)"
    using fdev.write_full_ok [OF assms(3,4), of ?node offset env] one_run_writable [OF assms(6,5), of kind]
    unfolding node_writable_def file_capacity by metis
  have k: "bp_kind (nh_pre h') = btree_kind_u16 kind" using w(3) kind by simp
  let ?r = "\<lparr>n_header = h', n_sorted_runs = n_sorted_runs ?node, n_merged_view = None, n_pending_journal = [],
      n_dirty = False, n_pin = pin_default\<rparr>"
  have rd: "region_read file_block_device env d' offset kind = ok ?r"
    using fdev.region_read_ok [OF assms(1) w(2) _ k] w(4) by simp
  have h: "node_header_ok h'" "bp_magic (nh_pre h') = BLOCK_PREAMBLE_MAGIC_BTREE" "bslice offset 4096 (fd_file d') = header_sector h'"
      "4096 + nh_payload_used h' \<le> 2 ^ nh_region_size_log2 h'" "offset + 2 ^ nh_region_size_log2 h' \<le> fd_capacity d'"
    using w(4) by (simp_all add: region_ok_def region_at_def)
  have probe: "read_at file_block_device d' offset 8 = ok (take 8 (header_sector h'))"
    using fdev.read_in [OF w(2), of offset 8] h(4,5) bslice_bslice [of 0 8 4096 offset "fd_file d'"] h(3) by simp
  have ok: "node_ok kmerge ?r"
    using assms(7) by (simp add: node_ok_def one_run_node_def Let_def node_new_def journal_ok_def pin_ok_def pin_default_def)
  have "map_of (merge_iter kmerge ?r) = map_of es"
    using merge_iter_spec(2) [OF assms(2) ok] by (simp add: node_map_def runs_map_def one_run_node_def Let_def node_new_def)
  then have "merge_iter kmerge ?r = es"
    using merge_iter_spec(1) [OF assms(2) ok] assms(7) by (intro bm_wf_ext) (simp_all add: bm_get_eq_map_of)
  then show ?thesis using that w(1) probe header_probe [OF h(1,2)] rd by blast
qed


lemma bm_wf_mono_map:
  assumes "bm_wf m" and "\<And>x y. x < y \<Longrightarrow> f x < f y"
  shows "bm_wf (map (\<lambda>(k, v). (f k, v)) m)"
proof -
  have "map fst (map (\<lambda>(k, v). (f k, v)) m) = map f (map fst m)" by (simp add: case_prod_beta)
  then show ?thesis using assms by (simp add: bm_wf_def sorted_wrt_map sorted_wrt_mono_rel [of _ "\<lambda>x y. fst x < fst y"])
qed

lemma run_from_sorted_wf:
  "bm_wf es \<Longrightarrow> run_from_sorted s j es = ok \<lparr>run_seq = s, run_journal_seq = j, run_flags = 0, run_entries = es\<rparr>"
  by (simp add: run_from_sorted_def bm_wf_def strict_sorted_imp_sorted)

abbreviation table_rows :: "u16 \<Rightarrow> bucket_alloc_table \<Rightarrow> (bucket_alloc_key \<times> bucket_alloc_entry) list" where
  "table_rows disk_id t \<equiv> map (\<lambda>(b, e). (BucketAllocKey disk_id b, e)) t"

lemma table_rows_wf: "bm_wf t \<Longrightarrow> bm_wf (table_rows disk_id t)"
  by (rule bm_wf_mono_map) (auto simp: less_bucket_alloc_key_def bak_cmp_le_def)

lemma table_to_loaded_node_eq:
  "bm_wf t \<Longrightarrow> table_to_loaded_node t disk_id = ok (one_run_node BucketAlloc (table_rows disk_id t))"
  by (simp add: table_to_loaded_node_def one_run_node_def Let_def run_from_sorted_wf table_rows_wf)

lemma bm_rebuild: "bm_wf m \<Longrightarrow> fold (\<lambda>(k, v). bm_insert k v) m [] = m"
  by (rule bm_wf_ext) (simp_all add: btm.inv_fold_update btm.lookup_build bm_wf_distinct, simp add: bm_get_eq_map_of)

text \<open>The allocation table survives a restart: a table that fits its region is flushed, and loading
  the region returns the same table, the references' generations included.\<close>

theorem alloc_table_roundtrip:
  assumes "env_ok env" and "kmerge_ok kmerge" and "file_device_inv d" and "fd_writable d"
    and "offset + 2 ^ 18 \<le> fd_capacity d" and "bm_wf t"
    and "entries_fit env (table_rows disk_id t)"
  shows "\<exists>d'. table_flush_to_region file_block_device env t d offset disk_id = ok d' \<and>
    table_load_from_region file_block_device env kmerge d' offset = ok t"
proof -
  obtain node' d' r probe where w: "write_full file_block_device env d offset (one_run_node BucketAlloc (table_rows disk_id t)) = ok (node', d')"
    and p: "read_at file_block_device d' offset 8 = ok probe" "\<not> list_all (\<lambda>b. b = 0) probe"
    and r: "region_read file_block_device env d' offset BucketAlloc = ok r" "merge_iter kmerge r = table_rows disk_id t"
    using one_run_roundtrip [OF assms(1-5,7) table_rows_wf [OF assms(6)]] by metis
  have "fold (\<lambda>(k, v). bm_insert (bak_bucket_no k) v) (table_rows disk_id t) [] = fold (\<lambda>(k, v). bm_insert k v) t []"
    by (simp add: fold_map comp_def case_prod_unfold)
  then have "table_from_loaded_node kmerge r = t"
    using r(2) bm_rebuild [OF assms(6)] by (simp add: table_from_loaded_node_def)
  with w p r(1) show ?thesis
    by (simp add: table_flush_to_region_def table_to_loaded_node_eq [OF assms(6)] table_load_from_region_def)
qed

text \<open>An encoder of fixed-width rows for the concrete inputs below. It fails on rows whose fields do not fit
  their widths, as no such Rust value exists.\<close>

fun row_chunks :: "nat \<Rightarrow> nat \<Rightarrow> byte list \<Rightarrow> byte list list" where
  "row_chunks w 0 bs = []"
| "row_chunks w (Suc n) bs = take w bs # row_chunks w n (drop w bs)"

lemma row_chunks_concat: "\<forall>x\<in>set xs. length (f x) = w \<Longrightarrow> row_chunks w (length xs) (concat (map f xs)) = map f xs"
  by (induction xs) auto

definition row_env ::
  "nat \<Rightarrow> ('k \<times> 'v \<Rightarrow> bool) \<Rightarrow> ('k \<times> 'v \<Rightarrow> byte list) \<Rightarrow> (byte list \<Rightarrow> 'k \<times> 'v) \<Rightarrow> ('k, 'v) region_env" where
  "row_env w fits enc dec = \<lparr>
     env_encode = \<lambda>rows. if list_all fits rows then ok (concat (map enc rows)) else err ''width'',
     env_decode = \<lambda>bs. ok (map dec (row_chunks w (length bs div w) bs)),
     env_crc32c = zcrc, env_crc32c_append = \<lambda>_. zcrc\<rparr>"

lemma row_env_ok:
  assumes "0 < w" and "\<And>r. fits r \<Longrightarrow> length (enc r) = w \<and> dec (enc r) = r"
  shows "env_ok (row_env w fits enc dec)"
proof -
  have "map dec (row_chunks w (length (concat (map enc rows)) div w) (concat (map enc rows))) = rows"
    if "list_all fits rows" for rows
  proof -
    have l: "\<forall>x\<in>set rows. length (enc x) = w" using that assms(2) by (simp add: list_all_iff)
    then have "length (concat (map enc rows)) = length rows * w"
      by (induction rows) auto
    then have "length (concat (map enc rows)) div w = length rows" using assms(1) by simp
    moreover have "map (dec \<circ> enc) rows = rows" using that assms(2) by (intro map_idI) (auto simp: list_all_iff)
    ultimately show ?thesis using row_chunks_concat [OF l] by simp
  qed
  then show ?thesis by (auto simp: env_ok_def row_env_def split: if_splits)
qed

lemma bak_roundtrip:
  "bak_disk_id k < 2 ^ 16 \<Longrightarrow> bak_bucket_no k < 2 ^ 32 \<Longrightarrow> bak_deserialize (bak_bytes k) = ok k"
  by (simp add: bak_deserialize_def bak_bytes_def get_le_def bslice_def)

lemma alloc_entry_roundtrip: "alloc_entry_ok e \<Longrightarrow> alloc_entry_deserialize (alloc_entry_bytes e) = ok e"
  by (simp add: alloc_entry_deserialize_def alloc_entry_bytes_def alloc_entry_ok_def get_le_def bslice_def)

lemma flk_roundtrip:
  "flk_band k < 2 ^ 8 \<Longrightarrow> flk_disk_id k < 2 ^ 16 \<Longrightarrow> flk_bucket_no k < 2 ^ 32 \<Longrightarrow> flk_deserialize (flk_bytes k) = ok k"
  by (simp add: flk_deserialize_def flk_bytes_def get_le_def bslice_def)

definition table_env :: "(bucket_alloc_key, bucket_alloc_entry) region_env" where
  "table_env = row_env 22 (\<lambda>(k, e). bak_disk_id k < 2 ^ 16 \<and> bak_bucket_no k < 2 ^ 32 \<and> alloc_entry_ok e)
     (\<lambda>(k, e). bak_bytes k @ alloc_entry_bytes e)
     (\<lambda>bs. (projr (bak_deserialize (take 6 bs)), projr (alloc_entry_deserialize (drop 6 bs))))"

lemma table_env_ok: "env_ok table_env"
proof -
  have "length (bak_bytes k) = 6" "length (alloc_entry_bytes e) = 16" for k e
    by (simp_all add: bak_bytes_def alloc_entry_bytes_def)
  then show ?thesis unfolding table_env_def
    by (intro row_env_ok) (auto simp: bak_roundtrip alloc_entry_roundtrip)
qed

definition lru_env :: "(freespace_lru_key, unit) region_env" where
  "lru_env = row_env 7 (\<lambda>(k, _). flk_band k < 2 ^ 8 \<and> flk_disk_id k < 2 ^ 16 \<and> flk_bucket_no k < 2 ^ 32)
     (\<lambda>(k, _). flk_bytes k) (\<lambda>bs. (projr (flk_deserialize bs), ()))"

lemma lru_env_ok: "env_ok lru_env"
proof -
  have "length (flk_bytes k) = 7" for k by (simp add: flk_bytes_def)
  then show ?thesis unfolding lru_env_def by (intro row_env_ok) (auto simp: flk_roundtrip)
qed

abbreviation wit_alloc_disk :: file_device where "wit_alloc_disk \<equiv> file_device_open [] 262144"

lemma wit_alloc_disk_ok: "file_device_inv wit_alloc_disk" "fd_writable wit_alloc_disk" "fd_capacity wit_alloc_disk = 262144"
  by (simp_all add: file_device_inv_def file_device_open_def fd_writable_def)

theorem alloc_table_roundtrip_witness:
  "\<exists>d'. table_flush_to_region file_block_device table_env (ba_table wit_alloc3) wit_alloc_disk 0 7 = ok d' \<and>
    table_load_from_region file_block_device table_env kmerge_sort d' 0 = ok (ba_table wit_alloc3)"
  by (rule alloc_table_roundtrip [OF table_env_ok kmerge_sort_ok wit_alloc_disk_ok(1,2)])
    (simp_all add: wit_alloc_disk_ok wit_alloc3_def bm_wf_def entries_fit_def table_env_def row_env_def alloc_entry_ok_def
      alloc_entry_def bak_bytes_def alloc_entry_bytes_def)

text \<open>The freespace LRU survives a restart: what fits its region is flushed, and loading the region
  returns the same set of keys.\<close>

theorem freespace_lru_roundtrip:
  assumes "env_ok env" and "kmerge_ok kmerge" and "file_device_inv d" and "fd_writable d"
    and "offset + 2 ^ 18 \<le> fd_capacity d" and "bm_wf l" and "entries_fit env l"
  shows "\<exists>d'. lru_flush_to_region file_block_device env l d offset = ok d' \<and>
    lru_load_from_region file_block_device env kmerge d' offset = ok l"
proof -
  obtain node' d' r probe where w: "write_full file_block_device env d offset (one_run_node FreespaceLru l) = ok (node', d')"
    and p: "read_at file_block_device d' offset 8 = ok probe" "\<not> list_all (\<lambda>b. b = 0) probe"
    and r: "region_read file_block_device env d' offset FreespaceLru = ok r" "merge_iter kmerge r = l"
    using one_run_roundtrip [OF assms(1-5,7,6)] by metis
  have "lru_from_loaded_node kmerge r = l"
    using r(2) bm_rebuild [OF assms(6)] by (simp add: lru_from_loaded_node_def)
  moreover have "lru_to_loaded_node l = ok (one_run_node FreespaceLru l)"
    by (simp add: lru_to_loaded_node_def one_run_node_def Let_def case_prod_beta run_from_sorted_wf [OF assms(6)])
  ultimately show ?thesis using w p r(1) by (simp add: lru_flush_to_region_def lru_load_from_region_def)
qed

theorem freespace_lru_roundtrip_witness:
  "\<exists>d'. lru_flush_to_region file_block_device lru_env [(FreespaceLruKey 3 1 2, ())] wit_alloc_disk 0 = ok d' \<and>
    lru_load_from_region file_block_device lru_env kmerge_sort d' 0 = ok [(FreespaceLruKey 3 1 2, ())]"
  by (rule freespace_lru_roundtrip [OF lru_env_ok kmerge_sort_ok wit_alloc_disk_ok(1,2)])
    (simp_all add: wit_alloc_disk_ok bm_wf_def entries_fit_def lru_env_def row_env_def flk_bytes_def)

text \<open>Runs of the freespace LRU, with the set of keys they leave.\<close>

inductive lru_reach :: "freespace_lru \<Rightarrow> freespace_lru_key set \<Rightarrow> bool" where
  lru_empty: "lru_reach [] {}"
| lru_ins: "lru_reach l s \<Longrightarrow> b < 2 ^ 8 \<Longrightarrow> dd < 2 ^ 16 \<Longrightarrow> n < 2 ^ 32 \<Longrightarrow>
    lru_reach (lru_insert l b dd n) (insert (FreespaceLruKey b dd n) s)"
| lru_rem: "lru_reach l s \<Longrightarrow> lru_reach (snd (lru_remove l b dd n)) (s - {FreespaceLruKey b dd n})"

lemma lru_reach_wf:
  assumes "lru_reach l s"
  shows "bm_wf l \<and> (\<forall>k. bm_get l k \<noteq> None \<longleftrightarrow> k \<in> s) \<and>
    (\<forall>k\<in>s. flk_disk_id k \<le> 2 ^ 16 - 1 \<and> flk_bucket_no k \<le> 2 ^ 32 - 1)"
  using assms
proof induction
  case (lru_ins l s b dd n)
  then show ?case by (auto simp: lru_insert_def bm_wf_insert bm_get_insert)
next
  case (lru_rem l s b dd n)
  then show ?case by (auto simp: lru_remove_def Let_def bm_wf_remove bm_get_remove)
qed simp

lemma band_bounds:
  assumes "flk_disk_id k \<le> 2 ^ 16 - 1" and "flk_bucket_no k \<le> 2 ^ 32 - 1"
  shows "FreespaceLruKey b 0 0 \<le> k \<and> k \<le> FreespaceLruKey b (2 ^ 16 - 1) (2 ^ 32 - 1) \<longleftrightarrow> flk_band k = b"
  using assms by (cases k) (auto simp: less_eq_freespace_lru_key_def flk_cmp_le_def flk_pos_def)

text \<open>The keys of the freespace LRU are the buckets inserted and not removed since, and the iteration
  over one band lists exactly that band's keys, in ascending order of disk and bucket.\<close>

theorem lru_band_iteration:
  assumes "lru_reach l s"
  shows "(\<forall>b dd n. lru_contains l b dd n \<longleftrightarrow> FreespaceLruKey b dd n \<in> s) \<and>
    set (lru_iter_band l band) = {k \<in> s. flk_band k = band} \<and> sorted_wrt (<) (lru_iter_band l band)"
proof -
  note wf = lru_reach_wf [OF assms]
  have band: "lru_iter_band l band = map fst (filter (\<lambda>(k, _). flk_band k = band) l)"
  proof -
    have "(case p of (k, _) \<Rightarrow> FreespaceLruKey band 0 0 \<le> k \<and> k \<le> FreespaceLruKey band (2 ^ 16 - 1) (2 ^ 32 - 1)) \<longleftrightarrow>
        (case p of (k, _) \<Rightarrow> flk_band k = band)" if p: "p \<in> set l" for p
    proof -
      have "fst p \<in> s" using wf p bm_get_mem [of l "fst p" "snd p"] by (metis option.distinct(1) prod.collapse)
      then show ?thesis using wf band_bounds [of "fst p" band] unfolding case_prod_unfold by blast
    qed
    then have "filter (\<lambda>(k, _). FreespaceLruKey band 0 0 \<le> k \<and> k \<le> FreespaceLruKey band (2 ^ 16 - 1) (2 ^ 32 - 1)) l =
        filter (\<lambda>(k, _). flk_band k = band) l" by (intro filter_cong refl)
    then show ?thesis using wf bm_range_incl_filter [of l] by (simp add: lru_iter_band_def)
  qed
  have "k \<in> fst ` set l \<longleftrightarrow> k \<in> s" for k
    using wf bm_get_mem [of l k "()"] by (auto simp: image_iff intro: bexI [of _ "(k, ())"])
  then have "fst ` set l = s" by blast
  then have "set (lru_iter_band l band) = {k \<in> s. flk_band k = band}" by (auto simp: band image_iff)
  moreover have "sorted_wrt (<) (lru_iter_band l band)"
    using wf by (simp add: band bm_wf_def sorted_wrt_map sorted_wrt_filter)
  ultimately show ?thesis using wf by (simp add: lru_contains_def)
qed

theorem lru_band_iteration_witness:
  "set (lru_iter_band (lru_insert (lru_insert [] 3 1 256) 4 1 2) 3) = {FreespaceLruKey 3 1 256} \<and>
   lru_contains (lru_insert (lru_insert [] 3 1 256) 4 1 2) 4 1 2"
proof -
  have "lru_reach (lru_insert (lru_insert [] 3 1 256) 4 1 2) (insert (FreespaceLruKey 4 1 2) (insert (FreespaceLruKey 3 1 256) {}))"
    by (intro lru_ins lru_empty) simp_all
  from lru_band_iteration [OF this, of 3] show ?thesis by auto
qed

end
