(* ===== verification/Mb_Dag.thy ===== *)
theory Mb_Dag
  imports Mb_Prelude "HOL-Library.Multiset" "HOL-Library.Product_Lexorder"
begin

text \<open>
  The implication DAG (\<open>crates/ontology/src/implication_dag.rs\<close>) and the materialiser over it
  (\<open>materializer.rs\<close>), with the errors of the ontology crate (\<open>error.rs\<close>).

  \<open>petgraph\<close> is an external crate: the graph operations the code calls are the fields of
  \<open>pg_ops\<close>, over an abstract graph type, and node indices are naturals. The breadth-first loops
  are partial functions whose value \<open>None\<close> is a loop that does not end.
\<close>

type_synonym tag_id = u32

section \<open>Errors\<close>

datatype storage_axis = Chunking | Compression | Encryption

datatype ontology_error =
    TagNotFound tag_id
  | TagNameNotFound string
  | DuplicateTagName string
  | CycleDetected tag_id tag_id
  | UnknownTag string
  | AxisConflict storage_axis tag_id string tag_id string
  | ModuleAlreadyInstalled string
  | ModuleNotInstalled string
  | ModuleParse string
  | ModuleSerialise string
  | OntologyCbor string

section \<open>The external graph\<close>

text \<open>\<open>pg_edges\<close> are the endpoints of \<open>edge_references\<close>, in the order of the edge indices;
  \<open>pg_sources\<close> are the sources of the edges into a node; \<open>pg_toposort\<close> is a topological
  order or a node on a cycle.\<close>

record 'g pg_ops =
  pg_empty :: 'g
  pg_node_count :: "'g \<Rightarrow> nat"
  pg_add_node :: "'g \<Rightarrow> tag_id \<Rightarrow> nat \<times> 'g"
  pg_weight :: "'g \<Rightarrow> nat \<Rightarrow> tag_id"
  pg_find_edge :: "'g \<Rightarrow> nat \<Rightarrow> nat \<Rightarrow> nat option"
  pg_add_edge :: "'g \<Rightarrow> nat \<Rightarrow> nat \<Rightarrow> nat \<times> 'g"
  pg_remove_edge :: "'g \<Rightarrow> nat \<Rightarrow> 'g"
  pg_remove_node :: "'g \<Rightarrow> nat \<Rightarrow> 'g"
  pg_neighbors :: "'g \<Rightarrow> nat \<Rightarrow> nat list"
  pg_sources :: "'g \<Rightarrow> nat \<Rightarrow> nat list"
  pg_edges :: "'g \<Rightarrow> (nat \<times> nat) list"
  pg_toposort :: "'g \<Rightarrow> nat + nat list"

section \<open>ImplicationDag\<close>

record 'g dag =
  dag_graph :: 'g
  dag_nodes :: "tag_id \<rightharpoonup> nat"

definition dag_new :: "'g pg_ops \<Rightarrow> 'g dag" where
  "dag_new ops = \<lparr>dag_graph = pg_empty ops, dag_nodes = Map.empty\<rparr>"

definition add_tag :: "'g pg_ops \<Rightarrow> 'g dag \<Rightarrow> tag_id \<Rightarrow> 'g dag" where
  "add_tag ops d tag =
     (if dag_nodes d tag = None
      then let (idx, g) = pg_add_node ops (dag_graph d) tag
           in d\<lparr>dag_graph := g, dag_nodes := (dag_nodes d)(tag \<mapsto> idx)\<rparr>
      else d)"

definition dag_contains :: "'g dag \<Rightarrow> tag_id \<Rightarrow> bool" where
  "dag_contains d tag \<longleftrightarrow> dag_nodes d tag \<noteq> None"

text \<open>The error built from the node a failed topological sort reports.\<close>

definition cycle_error :: "'g pg_ops \<Rightarrow> 'g \<Rightarrow> nat \<Rightarrow> ontology_error" where
  "cycle_error ops g node =
     (let to = pg_weight ops g node;
          from = (case pg_sources ops g node of [] \<Rightarrow> to | s # _ \<Rightarrow> pg_weight ops g s)
      in CycleDetected from to)"

definition cycle_check :: "'g pg_ops \<Rightarrow> 'g dag \<Rightarrow> (ontology_error, unit) res" where
  "cycle_check ops d =
     (case pg_toposort ops (dag_graph d) of
        Inr _ \<Rightarrow> ok ()
      | Inl node \<Rightarrow> err (cycle_error ops (dag_graph d) node))"

definition topological_sort :: "'g pg_ops \<Rightarrow> 'g dag \<Rightarrow> (ontology_error, tag_id list) res" where
  "topological_sort ops d =
     (case pg_toposort ops (dag_graph d) of
        Inr order \<Rightarrow> ok (map (pg_weight ops (dag_graph d)) order)
      | Inl node \<Rightarrow> err (cycle_error ops (dag_graph d) node))"

text \<open>The state is returned beside the result: a cycle takes the new edge back out.\<close>

definition add_implication ::
  "'g pg_ops \<Rightarrow> 'g dag \<Rightarrow> tag_id \<Rightarrow> tag_id \<Rightarrow> (ontology_error, unit) res \<times> 'g dag" where
  "add_implication ops d from to =
     (case dag_nodes d from of
        None \<Rightarrow> (err (TagNotFound from), d)
      | Some from_idx \<Rightarrow>
          (case dag_nodes d to of
             None \<Rightarrow> (err (TagNotFound to), d)
           | Some to_idx \<Rightarrow>
               if pg_find_edge ops (dag_graph d) from_idx to_idx \<noteq> None then (ok (), d)
               else
                 let (edge, g) = pg_add_edge ops (dag_graph d) from_idx to_idx;
                     d1 = d\<lparr>dag_graph := g\<rparr>
                 in (case cycle_check ops d1 of
                       Inr _ \<Rightarrow> (ok (), d1)
                     | Inl e \<Rightarrow> (Inl e, d1\<lparr>dag_graph := pg_remove_edge ops g edge\<rparr>))))"

definition remove_implication :: "'g pg_ops \<Rightarrow> 'g dag \<Rightarrow> tag_id \<Rightarrow> tag_id \<Rightarrow> 'g dag" where
  "remove_implication ops d from to =
     (case (dag_nodes d from, dag_nodes d to) of
        (Some fi, Some ti) \<Rightarrow>
          (case pg_find_edge ops (dag_graph d) fi ti of
             Some e \<Rightarrow> d\<lparr>dag_graph := pg_remove_edge ops (dag_graph d) e\<rparr>
           | None \<Rightarrow> d)
      | _ \<Rightarrow> d)"

definition remove_tag :: "'g pg_ops \<Rightarrow> 'g dag \<Rightarrow> tag_id \<Rightarrow> 'g dag" where
  "remove_tag ops d tag =
     (case dag_nodes d tag of
        None \<Rightarrow> d
      | Some idx \<Rightarrow>
          let nodes = (dag_nodes d)(tag := None);
              last_idx = pg_node_count ops (dag_graph d) - 1;
              last_tag = pg_weight ops (dag_graph d) last_idx
          in \<lparr>dag_graph = pg_remove_node ops (dag_graph d) idx,
              dag_nodes = (if last_idx \<noteq> idx then nodes(last_tag \<mapsto> idx) else nodes)\<rparr>)"

section \<open>Reachability\<close>

text \<open>One pass over the neighbours of a node: \<open>None\<close> when the target is among them.\<close>

fun reach_scan :: "nat \<Rightarrow> nat list \<Rightarrow> nat set \<Rightarrow> nat list \<Rightarrow> (nat set \<times> nat list) option" where
  "reach_scan target [] visited queue = Some (visited, queue)"
| "reach_scan target (neigh # ns) visited queue =
     (if neigh = target then None
      else if neigh \<in> visited then reach_scan target ns visited queue
      else reach_scan target ns (insert neigh visited) (queue @ [neigh]))"

partial_function (option) reach_loop ::
  "(nat \<Rightarrow> nat list) \<Rightarrow> nat \<Rightarrow> nat set \<Rightarrow> nat list \<Rightarrow> bool option" where
  "reach_loop nbrs target visited queue =
     (if queue = [] then Some False
      else
        let found = reach_scan target (nbrs (hd queue)) visited (tl queue)
        in if found = None then Some True
           else reach_loop nbrs target (fst (the found)) (snd (the found)))"

definition reachable :: "'g pg_ops \<Rightarrow> 'g dag \<Rightarrow> nat \<Rightarrow> nat \<Rightarrow> bool option" where
  "reachable ops d start target = reach_loop (pg_neighbors ops (dag_graph d)) target {start} [start]"

definition is_a :: "'g pg_ops \<Rightarrow> 'g dag \<Rightarrow> tag_id \<Rightarrow> tag_id \<Rightarrow> bool option" where
  "is_a ops d tag ancestor =
     (if tag = ancestor then Some (dag_nodes d tag \<noteq> None)
      else
        (case dag_nodes d tag of
           None \<Rightarrow> Some False
         | Some start \<Rightarrow>
             (case dag_nodes d ancestor of
                None \<Rightarrow> Some False
              | Some target \<Rightarrow> reachable ops d start target)))"

definition direct_implies :: "'g pg_ops \<Rightarrow> 'g dag \<Rightarrow> tag_id \<Rightarrow> tag_id list" where
  "direct_implies ops d tag =
     (case dag_nodes d tag of
        None \<Rightarrow> []
      | Some idx \<Rightarrow> map (pg_weight ops (dag_graph d)) (pg_neighbors ops (dag_graph d) idx))"

text \<open>The state of the closure loop: visited nodes, queue, result set.\<close>

type_synonym closure_state = "nat set \<times> nat list \<times> tag_id set"

fun closure_seed :: "(tag_id \<rightharpoonup> nat) \<Rightarrow> tag_id list \<Rightarrow> closure_state \<Rightarrow> closure_state" where
  "closure_seed nodes [] st = st"
| "closure_seed nodes (t # ts) (visited, queue, result) =
     closure_seed nodes ts
       (case nodes t of
          None \<Rightarrow> (visited, queue, result)
        | Some idx \<Rightarrow>
            if idx \<in> visited then (visited, queue, result)
            else (insert idx visited, queue @ [idx], insert t result))"

fun closure_scan :: "(nat \<Rightarrow> tag_id) \<Rightarrow> nat list \<Rightarrow> closure_state \<Rightarrow> closure_state" where
  "closure_scan weight [] st = st"
| "closure_scan weight (neigh # ns) (visited, queue, result) =
     (if neigh \<in> visited then closure_scan weight ns (visited, queue, result)
      else closure_scan weight ns (insert neigh visited, queue @ [neigh], insert (weight neigh) result))"

partial_function (option) closure_loop ::
  "(nat \<Rightarrow> nat list) \<Rightarrow> (nat \<Rightarrow> tag_id) \<Rightarrow> closure_state \<Rightarrow> tag_id set option" where
  "closure_loop nbrs weight st =
     (let (visited, queue, result) = st
      in if queue = [] then Some result
         else closure_loop nbrs weight (closure_scan weight (nbrs (hd queue)) (visited, tl queue, result)))"

text \<open>\<open>BTreeSet\<close> iterates in ascending order.\<close>

definition closure :: "'g pg_ops \<Rightarrow> 'g dag \<Rightarrow> tag_id list \<Rightarrow> tag_id list option" where
  "closure ops d direct_tags =
     map_option sorted_list_of_set
       (closure_loop (pg_neighbors ops (dag_graph d)) (pg_weight ops (dag_graph d))
         (closure_seed (dag_nodes d) direct_tags ({}, [], {})))"

definition materialise :: "'g pg_ops \<Rightarrow> 'g dag \<Rightarrow> tag_id list \<Rightarrow> tag_id list option" where
  "materialise ops d direct = closure ops d direct"

section \<open>Listing and snapshots\<close>

definition dag_tags :: "'g pg_ops \<Rightarrow> 'g dag \<Rightarrow> tag_id list" where
  "dag_tags ops d = map (pg_weight ops (dag_graph d)) [0 ..< pg_node_count ops (dag_graph d)]"

definition dag_edges :: "'g pg_ops \<Rightarrow> 'g dag \<Rightarrow> (tag_id \<times> tag_id) list" where
  "dag_edges ops d =
     map (\<lambda>(s, t). (pg_weight ops (dag_graph d) s, pg_weight ops (dag_graph d) t)) (pg_edges ops (dag_graph d))"

definition dag_tag_count :: "'g pg_ops \<Rightarrow> 'g dag \<Rightarrow> nat" where
  "dag_tag_count ops d = pg_node_count ops (dag_graph d)"

definition dag_edge_count :: "'g pg_ops \<Rightarrow> 'g dag \<Rightarrow> nat" where
  "dag_edge_count ops d = length (pg_edges ops (dag_graph d))"

record dag_snapshot =
  snap_tags :: "tag_id list"
  snap_edges :: "(tag_id \<times> tag_id) list"

definition snapshot :: "'g pg_ops \<Rightarrow> 'g dag \<Rightarrow> dag_snapshot" where
  "snapshot ops d = \<lparr>snap_tags = sort (dag_tags ops d), snap_edges = sort (dag_edges ops d)\<rparr>"

fun add_implications ::
  "'g pg_ops \<Rightarrow> 'g dag \<Rightarrow> (tag_id \<times> tag_id) list \<Rightarrow> (ontology_error, 'g dag) res" where
  "add_implications ops d [] = ok d"
| "add_implications ops d ((from, to) # es) =
     (case add_implication ops d from to of
        (Inl e, _) \<Rightarrow> Inl e
      | (Inr _, d1) \<Rightarrow> add_implications ops d1 es)"

definition from_snapshot :: "'g pg_ops \<Rightarrow> dag_snapshot \<Rightarrow> (ontology_error, 'g dag) res" where
  "from_snapshot ops snap =
     add_implications ops (fold (\<lambda>t d. add_tag ops d t) (snap_tags snap) (dag_new ops)) (snap_edges snap)"

end
