(* ===== verification/Mb_Module.thy ===== *)
theory Mb_Module
  imports Mb_Dag
begin

text \<open>
  Tag definitions, storage policies (\<open>crates/types/src/ontology.rs\<close>, \<open>storage_policy.rs\<close>,
  \<open>placement.rs\<close>, \<open>transform.rs\<close>) and ontology modules
  (\<open>crates/ontology/src/module.rs\<close>): the TOML wire shape of a module, its conversion in both
  directions, and the allocator of tag ids.

  The TOML reader and printer are external: parameters of \<open>from_toml\<close> and \<open>to_toml\<close> that
  map between text and the wire shape. Error texts are those of the source.
\<close>

section \<open>Tag definitions and storage policies\<close>

datatype value_type = VtText | VtInt | VtFloat | VtTimestamp | VtBlob

datatype tag_semantics =
    Label
  | Attribute value_type
  | Grouping
  | OrderedCollection "tag_id option"
  | Hierarchical

datatype tag_relation = ImpliedBy | MutuallyExclusive | Requires | Alias

datatype chunking_algo = ChunkNone | ChunkFixedSize | ChunkFastCDC

definition chunking_algo_from_u8 :: "u8 \<Rightarrow> chunking_algo option" where
  "chunking_algo_from_u8 v =
     (if v = 0 then Some ChunkNone else if v = 1 then Some ChunkFixedSize else if v = 2 then Some ChunkFastCDC else None)"

record chunk_params =
  cp_algo :: chunking_algo
  cp_min_size :: u32
  cp_avg_size :: u32
  cp_max_size :: u32

definition chunk_params_default :: chunk_params where
  "chunk_params_default = \<lparr>cp_algo = ChunkNone, cp_min_size = 16 * 1024, cp_avg_size = 64 * 1024, cp_max_size = 256 * 1024\<rparr>"

datatype compression_algo = CompNone | Zstd int | Lz4

datatype encryption_mode = EncNone | Hctr2 u64 | Xts | AesGcm | ChaCha20Poly1305

record storage_policy =
  sp_chunking :: "chunk_params option"
  sp_compression :: "compression_algo option"
  sp_encryption :: "encryption_mode option"

definition policy_is_empty :: "storage_policy \<Rightarrow> bool" where
  "policy_is_empty p \<longleftrightarrow> sp_chunking p = None \<and> sp_compression p = None \<and> sp_encryption p = None"

record tag_definition =
  td_id :: tag_id
  td_name :: string
  td_semantics :: tag_semantics
  td_implies :: "tag_id list"
  td_storage :: "storage_policy option"

section \<open>Modules and the id allocator\<close>

record ontology_module =
  om_id :: string
  om_version :: string
  om_name :: string
  om_tags :: "tag_definition list"
  om_implications :: "(string \<times> string) list"
  om_relations :: "(string \<times> tag_relation \<times> string) list"

record install_result =
  ir_tags_registered :: nat
  ir_tags_skipped :: nat
  ir_implications_added :: nat
  ir_module_id :: string
  ir_module_name :: string

record id_allocator =
  ia_next :: u32

definition id_allocator_new :: id_allocator where
  "id_allocator_new = \<lparr>ia_next = 1\<rparr>"

definition starting_at :: "u32 \<Rightarrow> id_allocator" where
  "starting_at start = \<lparr>ia_next = max start 1\<rparr>"

text \<open>The increment of a \<open>u32\<close> panics when it overflows.\<close>

definition next_id :: "id_allocator \<Rightarrow> ('e, tag_id \<times> id_allocator) res" where
  "next_id a = (if ia_next a + 1 < 2 ^ 32 then ok (ia_next a, a\<lparr>ia_next := ia_next a + 1\<rparr>) else Inl Panic)"

definition observe_id :: "id_allocator \<Rightarrow> tag_id \<Rightarrow> ('e, id_allocator) res" where
  "observe_id a i =
     (if i \<ge> ia_next a then if i + 1 < 2 ^ 32 then ok (a\<lparr>ia_next := i + 1\<rparr>) else Inl Panic else ok a)"

section \<open>The TOML wire shape\<close>

record toml_header =
  th_id :: string
  th_version :: string
  th_name :: string

record toml_chunk_params =
  tcp_algo :: string
  tcp_min_size :: u32
  tcp_avg_size :: u32
  tcp_max_size :: u32

datatype toml_compression = TcPlain string | TcLevelled string int

datatype toml_encryption = TePlain string | TeHctr2 string u64

record toml_storage_policy =
  tsp_chunking :: "toml_chunk_params option"
  tsp_compression :: "toml_compression option"
  tsp_encryption :: "toml_encryption option"

record toml_tag =
  tt_name :: string
  tt_semantics :: string
  tt_value_type :: "string option"
  tt_element_constraint :: "string option"
  tt_storage :: "toml_storage_policy option"

record toml_relation =
  tr_from :: string
  tr_kind :: string
  tr_to :: string

record toml_module =
  tm_module :: toml_header
  tm_tags :: "toml_tag list"
  tm_implications :: "(string \<times> string) list"
  tm_relations :: "toml_relation list"

section \<open>Conversion of the parts\<close>

definition parse_value_type :: "string \<Rightarrow> (ontology_error, value_type) res" where
  "parse_value_type s =
     (if s = ''text'' then ok VtText
      else if s = ''int'' then ok VtInt
      else if s = ''float'' then ok VtFloat
      else if s = ''timestamp'' then ok VtTimestamp
      else if s = ''blob'' then ok VtBlob
      else err (ModuleParse (''unknown value type `'' @ s @ ''`'')))"

definition parse_semantics :: "string \<Rightarrow> string option \<Rightarrow> (ontology_error, tag_semantics) res" where
  "parse_semantics s vt =
     (if s = ''label'' then ok Label
      else if s = ''attribute'' \<or> s = ''attr''
        then rbind (parse_value_type (case vt of None \<Rightarrow> ''text'' | Some v \<Rightarrow> v)) (\<lambda>v. ok (Attribute v))
      else if s = ''grouping'' then ok Grouping
      else if s = ''ordered-collection'' \<or> s = ''ordered'' then ok (OrderedCollection None)
      else if s = ''hierarchical'' then ok Hierarchical
      else err (ModuleParse (''unknown semantics `'' @ s @ ''`'')))"

fun value_type_str :: "value_type \<Rightarrow> string" where
  "value_type_str VtText = ''text''"
| "value_type_str VtInt = ''int''"
| "value_type_str VtFloat = ''float''"
| "value_type_str VtTimestamp = ''timestamp''"
| "value_type_str VtBlob = ''blob''"

fun encode_semantics :: "tag_semantics \<Rightarrow> string \<times> string option \<times> string option" where
  "encode_semantics Label = (''label'', None, None)"
| "encode_semantics (Attribute v) = (''attribute'', Some (value_type_str v), None)"
| "encode_semantics Grouping = (''grouping'', None, None)"
| "encode_semantics (OrderedCollection c) = (''ordered-collection'', None, None)"
| "encode_semantics Hierarchical = (''hierarchical'', None, None)"

definition parse_relation_kind :: "string \<Rightarrow> (ontology_error, tag_relation) res" where
  "parse_relation_kind s =
     (if s = ''mutex'' \<or> s = ''mutually-exclusive'' then ok MutuallyExclusive
      else if s = ''requires'' then ok Requires
      else if s = ''alias'' then ok Alias
      else if s = ''implies'' \<or> s = ''implied-by'' \<or> s = ''is-a''
        then err (ModuleParse (''use [[implications]] for relation kind `'' @ s @ ''`''))
      else err (ModuleParse (''unknown relation kind `'' @ s @ ''`'')))"

fun relation_kind_to_str :: "tag_relation \<Rightarrow> string" where
  "relation_kind_to_str MutuallyExclusive = ''mutually-exclusive''"
| "relation_kind_to_str Requires = ''requires''"
| "relation_kind_to_str Alias = ''alias''"
| "relation_kind_to_str ImpliedBy = ''implied-by''"

definition parse_chunking :: "toml_chunk_params \<Rightarrow> (ontology_error, chunk_params) res" where
  "parse_chunking c =
     rbind (if tcp_algo c = ''none'' then ok ChunkNone
            else if tcp_algo c = ''fixed'' \<or> tcp_algo c = ''fixed-size'' then ok ChunkFixedSize
            else if tcp_algo c = ''fastcdc'' \<or> tcp_algo c = ''cdc'' then ok ChunkFastCDC
            else err (ModuleParse (''unknown chunking algo `'' @ tcp_algo c @ ''`''))) (\<lambda>algo.
     ok \<lparr>cp_algo = algo, cp_min_size = tcp_min_size c, cp_avg_size = tcp_avg_size c, cp_max_size = tcp_max_size c\<rparr>)"

fun parse_compression :: "toml_compression \<Rightarrow> (ontology_error, compression_algo) res" where
  "parse_compression (TcPlain name) =
     (if name = ''none'' then ok CompNone
      else if name = ''lz4'' then ok Lz4
      else if name = ''zstd'' then ok (Zstd 3)
      else err (ModuleParse (''unknown compression algo `'' @ name @ ''`'')))"
| "parse_compression (TcLevelled algo level) =
     (if algo = ''zstd'' then ok (Zstd level)
      else err (ModuleParse (''compression algo `'' @ algo @ ''` does not take a level'')))"

fun parse_encryption :: "toml_encryption \<Rightarrow> (ontology_error, encryption_mode) res" where
  "parse_encryption (TePlain name) =
     (if name = ''none'' then ok EncNone
      else if name = ''xts'' then ok Xts
      else if name = ''aes-gcm'' \<or> name = ''gcm'' then ok AesGcm
      else if name = ''chacha20'' \<or> name = ''chacha20-poly1305'' then ok ChaCha20Poly1305
      else err (ModuleParse (''unknown encryption mode `'' @ name @ ''`'')))"
| "parse_encryption (TeHctr2 algo object_id) =
     (if algo = ''hctr2'' then ok (Hctr2 object_id)
      else err (ModuleParse (''encryption mode `'' @ algo @ ''` does not take an object_id'')))"

text \<open>An optional part: absent stays absent.\<close>

definition opt_res :: "('a \<Rightarrow> ('e, 'b) res) \<Rightarrow> 'a option \<Rightarrow> ('e, 'b option) res" where
  "opt_res f x = (case x of None \<Rightarrow> ok None | Some a \<Rightarrow> rbind (f a) (\<lambda>b. ok (Some b)))"

definition parse_policy :: "toml_storage_policy \<Rightarrow> (ontology_error, storage_policy) res" where
  "parse_policy s =
     rbind (opt_res parse_chunking (tsp_chunking s)) (\<lambda>chunking.
     rbind (opt_res parse_compression (tsp_compression s)) (\<lambda>compression.
     rbind (opt_res parse_encryption (tsp_encryption s)) (\<lambda>encryption.
     ok \<lparr>sp_chunking = chunking, sp_compression = compression, sp_encryption = encryption\<rparr>)))"

definition parse_storage :: "toml_storage_policy option \<Rightarrow> (ontology_error, storage_policy option) res" where
  "parse_storage s = opt_res parse_policy s"

fun chunking_algo_str :: "chunking_algo \<Rightarrow> string" where
  "chunking_algo_str ChunkNone = ''none''"
| "chunking_algo_str ChunkFixedSize = ''fixed''"
| "chunking_algo_str ChunkFastCDC = ''fastcdc''"

definition encode_chunking :: "chunk_params \<Rightarrow> toml_chunk_params" where
  "encode_chunking c = \<lparr>tcp_algo = chunking_algo_str (cp_algo c), tcp_min_size = cp_min_size c,
     tcp_avg_size = cp_avg_size c, tcp_max_size = cp_max_size c\<rparr>"

fun encode_compression :: "compression_algo \<Rightarrow> toml_compression" where
  "encode_compression CompNone = TcPlain ''none''"
| "encode_compression Lz4 = TcPlain ''lz4''"
| "encode_compression (Zstd level) = TcLevelled ''zstd'' level"

fun encode_encryption :: "encryption_mode \<Rightarrow> toml_encryption" where
  "encode_encryption EncNone = TePlain ''none''"
| "encode_encryption Xts = TePlain ''xts''"
| "encode_encryption AesGcm = TePlain ''aes-gcm''"
| "encode_encryption ChaCha20Poly1305 = TePlain ''chacha20-poly1305''"
| "encode_encryption (Hctr2 object_id) = TeHctr2 ''hctr2'' object_id"

definition encode_storage :: "storage_policy option \<Rightarrow> toml_storage_policy option" where
  "encode_storage p =
     map_option (\<lambda>p. \<lparr>tsp_chunking = map_option encode_chunking (sp_chunking p),
       tsp_compression = map_option encode_compression (sp_compression p),
       tsp_encryption = map_option encode_encryption (sp_encryption p)\<rparr>) p"

section \<open>from_toml and to_toml\<close>

definition toml_tag_to_def :: "string list \<Rightarrow> toml_tag \<Rightarrow> (ontology_error, tag_definition) res" where
  "toml_tag_to_def names t =
     rbind (parse_semantics (tt_semantics t) (tt_value_type t)) (\<lambda>semantics.
     rbind (case (semantics, tt_element_constraint t) of
              (OrderedCollection _, Some name) \<Rightarrow> if name \<in> set names then ok semantics else err (UnknownTag name)
            | _ \<Rightarrow> ok semantics) (\<lambda>semantics.
     rbind (parse_storage (tt_storage t)) (\<lambda>storage.
     ok \<lparr>td_id = 0, td_name = tt_name t, td_semantics = semantics, td_implies = [], td_storage = storage\<rparr>)))"

definition module_of_toml :: "toml_module \<Rightarrow> (ontology_error, ontology_module) res" where
  "module_of_toml parsed =
     rbind (rcollect (toml_tag_to_def (map tt_name (tm_tags parsed))) (tm_tags parsed)) (\<lambda>tags.
     rbind (rcollect (\<lambda>r. rbind (parse_relation_kind (tr_kind r)) (\<lambda>kind. ok (tr_from r, kind, tr_to r)))
              (tm_relations parsed)) (\<lambda>relations.
     ok \<lparr>om_id = th_id (tm_module parsed), om_version = th_version (tm_module parsed), om_name = th_name (tm_module parsed),
         om_tags = tags, om_implications = tm_implications parsed, om_relations = relations\<rparr>))"

definition from_toml ::
  "(string \<Rightarrow> (string, toml_module) res) \<Rightarrow> string \<Rightarrow> (ontology_error, ontology_module) res" where
  "from_toml toml_parse s = rbind (map_err ModuleParse (toml_parse s)) module_of_toml"

definition toml_of_tag :: "tag_definition \<Rightarrow> toml_tag" where
  "toml_of_tag t =
     (let (semantics, vt, element_constraint) = encode_semantics (td_semantics t)
      in \<lparr>tt_name = td_name t, tt_semantics = semantics, tt_value_type = vt,
          tt_element_constraint = element_constraint, tt_storage = encode_storage (td_storage t)\<rparr>)"

definition toml_of_module :: "ontology_module \<Rightarrow> toml_module" where
  "toml_of_module m =
     \<lparr>tm_module = \<lparr>th_id = om_id m, th_version = om_version m, th_name = om_name m\<rparr>,
      tm_tags = map toml_of_tag (om_tags m), tm_implications = om_implications m,
      tm_relations = map (\<lambda>(f, kind, t). \<lparr>tr_from = f, tr_kind = relation_kind_to_str kind, tr_to = t\<rparr>) (om_relations m)\<rparr>"

definition to_toml ::
  "(toml_module \<Rightarrow> (string, string) res) \<Rightarrow> ontology_module \<Rightarrow> (ontology_error, string) res" where
  "to_toml toml_print m = map_err ModuleSerialise (toml_print (toml_of_module m))"

section \<open>Round trip\<close>

lemma parse_encode_semantics:
  "(case encode_semantics s of (n, vt, c) \<Rightarrow> parse_semantics n vt) =
     ok (case s of OrderedCollection _ \<Rightarrow> OrderedCollection None | _ \<Rightarrow> s)"
  by (cases s rule: encode_semantics.cases; (simp add: parse_semantics_def parse_value_type_def)?)
    (rename_tac v, case_tac v; simp add: parse_semantics_def parse_value_type_def)

lemma parse_encode_relation: "k \<noteq> ImpliedBy \<Longrightarrow> parse_relation_kind (relation_kind_to_str k) = ok k"
  by (cases k) (simp_all add: parse_relation_kind_def)

lemma parse_encode_chunking: "parse_chunking (encode_chunking c) = ok c"
  by (cases "cp_algo c") (simp_all add: parse_chunking_def encode_chunking_def)

lemma parse_encode_compression: "parse_compression (encode_compression c) = ok c"
  by (cases c) simp_all

lemma parse_encode_encryption: "parse_encryption (encode_encryption e) = ok e"
  by (cases e) simp_all

lemma opt_res_roundtrip: "(\<And>x. f (g x) = ok x) \<Longrightarrow> opt_res f (map_option g p) = ok p"
  by (cases p) (simp_all add: opt_res_def)

lemma parse_encode_storage: "parse_storage (encode_storage p) = ok p"
proof -
  have "parse_policy \<lparr>tsp_chunking = map_option encode_chunking (sp_chunking q),
       tsp_compression = map_option encode_compression (sp_compression q),
       tsp_encryption = map_option encode_encryption (sp_encryption q)\<rparr> = ok q" for q
    by (simp add: parse_policy_def opt_res_roundtrip parse_encode_chunking parse_encode_compression parse_encode_encryption)
  then show ?thesis unfolding parse_storage_def encode_storage_def by (rule opt_res_roundtrip)
qed

lemma rcollect_roundtrip: "(\<And>x. x \<in> set xs \<Longrightarrow> f (g x) = ok x) \<Longrightarrow> rcollect f (map g xs) = ok xs"
  by (induction xs) simp_all

text \<open>A module as it is distributed: placeholder ids, no resolved implications, and nothing the TOML shape
  has no place for.\<close>

definition module_portable :: "ontology_module \<Rightarrow> bool" where
  "module_portable m \<longleftrightarrow>
     list_all (\<lambda>t. td_id t = 0 \<and> td_implies t = [] \<and> (\<forall>c. td_semantics t \<noteq> OrderedCollection (Some c))) (om_tags m) \<and>
     list_all (\<lambda>(_, k, _). k \<noteq> ImpliedBy) (om_relations m)"

lemma toml_tag_roundtrip:
  assumes "td_id t = 0" and "td_implies t = []" and "\<forall>c. td_semantics t \<noteq> OrderedCollection (Some c)"
  shows "toml_tag_to_def names (toml_of_tag t) = ok t"
proof -
  obtain n vt c where e: "encode_semantics (td_semantics t) = (n, vt, c)" by (metis prod_cases3)
  have c: "c = None" using e by (cases "td_semantics t") auto
  have "parse_semantics n vt = ok (td_semantics t)"
    using parse_encode_semantics [of "td_semantics t"] e assms(3) by (auto split: tag_semantics.splits)
  then show ?thesis
    using e c assms(1,2) parse_encode_storage [of "td_storage t"]
    by (cases "td_semantics t") (simp_all add: toml_tag_to_def_def toml_of_tag_def)
qed

text \<open>C31. A distributed module survives printing and parsing: with a TOML reader that reads back what its
  printer writes, \<open>from_toml\<close> of the printed module is the module.\<close>

theorem module_toml_roundtrip:
  assumes "module_portable m" and "toml_print (toml_of_module m) = ok text" and "toml_parse text = ok (toml_of_module m)"
  shows "to_toml toml_print m = ok text \<and> from_toml toml_parse text = ok m"
proof -
  have "rcollect (toml_tag_to_def names) (map toml_of_tag (om_tags m)) = ok (om_tags m)" for names
    using assms(1) by (intro rcollect_roundtrip toml_tag_roundtrip) (auto simp: module_portable_def list_all_iff)
  moreover have "rcollect (\<lambda>r. rbind (parse_relation_kind (tr_kind r)) (\<lambda>kind. ok (tr_from r, kind, tr_to r)))
      (map (\<lambda>(f, kind, t). \<lparr>tr_from = f, tr_kind = relation_kind_to_str kind, tr_to = t\<rparr>) (om_relations m)) = ok (om_relations m)"
    using assms(1) by (intro rcollect_roundtrip) (auto simp: module_portable_def list_all_iff parse_encode_relation)
  ultimately have "module_of_toml (toml_of_module m) = ok m"
    by (simp add: module_of_toml_def toml_of_module_def)
  then show ?thesis using assms(2,3) by (simp add: to_toml_def from_toml_def)
qed

definition wit_module :: ontology_module where
  "wit_module = \<lparr>om_id = ''m'', om_version = ''1'', om_name = ''music'',
     om_tags = [\<lparr>td_id = 0, td_name = ''year'', td_semantics = Attribute VtInt, td_implies = [],
       td_storage = Some \<lparr>sp_chunking = None, sp_compression = Some (Zstd 7), sp_encryption = None\<rparr>\<rparr>],
     om_implications = [], om_relations = [(''a'', Alias, ''b'')]\<rparr>"

theorem module_toml_roundtrip_witness:
  "from_toml (\<lambda>s. if s = ''x'' then ok (toml_of_module wit_module) else err ''no'') ''x'' = ok wit_module"
  using module_toml_roundtrip [of wit_module "\<lambda>_. ok ''x''" "''x''" "\<lambda>s. if s = ''x'' then ok (toml_of_module wit_module) else err ''no''"]
  by (simp add: module_portable_def wit_module_def)

end
