(* ===== verification/Mb_Ontology.thy ===== *)
theory Mb_Ontology
  imports Mb_Module Mb_Region "HOL-Library.List_Lexorder" "HOL-Library.Char_ord"
begin

text \<open>
  The live ontology registry (\<open>crates/ontology/src/state.rs\<close>): installing, upgrading and scrubbing
  modules, the static check that the tags declaring a storage axis form a chain, the resolution of the
  storage policy of an object, and the persisted image.

  The hash maps of the source are ordered maps here: the code only sorts what it iterates over, or
  collects it into sets. A search that does not end and an index into a map that has no such key are
  both the failure \<open>Panic\<close>.
\<close>

section \<open>State\<close>

fun relation_rank :: "tag_relation \<Rightarrow> nat" where
  "relation_rank ImpliedBy = 0"
| "relation_rank MutuallyExclusive = 1"
| "relation_rank Requires = 2"
| "relation_rank Alias = 3"

instantiation tag_relation :: linorder
begin

definition less_eq_tag_relation :: "tag_relation \<Rightarrow> tag_relation \<Rightarrow> bool" where
  "a \<le> b \<longleftrightarrow> relation_rank a \<le> relation_rank b"

definition less_tag_relation :: "tag_relation \<Rightarrow> tag_relation \<Rightarrow> bool" where
  "a < b \<longleftrightarrow> relation_rank a < relation_rank b"

instance
proof
  fix a b :: tag_relation
  show "a \<le> b \<Longrightarrow> b \<le> a \<Longrightarrow> a = b"
    unfolding less_eq_tag_relation_def by (cases a; cases b) auto
qed (auto simp: less_eq_tag_relation_def less_tag_relation_def)

end

type_synonym relation_edge = "tag_id \<times> tag_relation \<times> tag_id"

record module_record =
  mr_id :: string
  mr_version :: string
  mr_name :: string
  mr_installed_tags :: "tag_id list"
  mr_installed_implications :: "(tag_id \<times> tag_id) list"
  mr_installed_relations :: "relation_edge list"

record 'g ontology_state =
  os_tags :: "(tag_id, tag_definition) btree_map"
  os_names :: "(string, tag_id) btree_map"
  os_dag :: "'g dag"
  os_relations :: "relation_edge list"
  os_modules :: "(string, module_record) btree_map"

definition ontology_new :: "'g pg_ops \<Rightarrow> 'g ontology_state" where
  "ontology_new ops = \<lparr>os_tags = [], os_names = [], os_dag = dag_new ops, os_relations = [], os_modules = []\<rparr>"

definition await :: "'a option \<Rightarrow> ('e, 'a) res" where
  "await x = (case x of None \<Rightarrow> Inl Panic | Some v \<Rightarrow> ok v)"

section \<open>The axis invariant\<close>

fun axis_set :: "storage_axis \<Rightarrow> storage_policy \<Rightarrow> bool" where
  "axis_set Chunking p \<longleftrightarrow> sp_chunking p \<noteq> None"
| "axis_set Compression p \<longleftrightarrow> sp_compression p \<noteq> None"
| "axis_set Encryption p \<longleftrightarrow> sp_encryption p \<noteq> None"

definition declares :: "storage_axis \<Rightarrow> tag_definition \<Rightarrow> bool" where
  "declares axis d = (case td_storage d of None \<Rightarrow> False | Some p \<Rightarrow> axis_set axis p)"

definition declaring_tags :: "'g ontology_state \<Rightarrow> storage_axis \<Rightarrow> tag_id list" where
  "declaring_tags st axis = sort (map fst (filter (\<lambda>(_, d). declares axis d) (os_tags st)))"

fun check_axis_against ::
  "'g pg_ops \<Rightarrow> 'g ontology_state \<Rightarrow> storage_axis \<Rightarrow> tag_id \<Rightarrow> tag_id list \<Rightarrow> (ontology_error, unit) res" where
  "check_axis_against ops st axis a [] = ok ()"
| "check_axis_against ops st axis a (b # bs) =
     rbind (await (is_a ops (os_dag st) a b)) (\<lambda>ab.
     rbind (if ab then ok True else await (is_a ops (os_dag st) b a)) (\<lambda>related.
     if related then check_axis_against ops st axis a bs
     else
       (case (bm_get (os_tags st) a, bm_get (os_tags st) b) of
          (Some da, Some db) \<Rightarrow> err (AxisConflict axis a (td_name da) b (td_name db))
        | _ \<Rightarrow> Inl Panic)))"

fun check_axis_pairs ::
  "'g pg_ops \<Rightarrow> 'g ontology_state \<Rightarrow> storage_axis \<Rightarrow> tag_id list \<Rightarrow> (ontology_error, unit) res" where
  "check_axis_pairs ops st axis [] = ok ()"
| "check_axis_pairs ops st axis (a # rest) =
     rbind (check_axis_against ops st axis a rest) (\<lambda>_. check_axis_pairs ops st axis rest)"

definition check_axis_invariant :: "'g pg_ops \<Rightarrow> 'g ontology_state \<Rightarrow> (ontology_error, unit) res" where
  "check_axis_invariant ops st =
     rbind (check_axis_pairs ops st Chunking (declaring_tags st Chunking)) (\<lambda>_.
     rbind (check_axis_pairs ops st Compression (declaring_tags st Compression)) (\<lambda>_.
     check_axis_pairs ops st Encryption (declaring_tags st Encryption)))"

section \<open>Install\<close>

text \<open>Step 1: the ids registered and the number of tags skipped. The allocator is the caller's and keeps
  what happened to it.\<close>

definition register_tag :: "'g pg_ops \<Rightarrow> 'g ontology_state \<Rightarrow> tag_id \<Rightarrow> tag_definition \<Rightarrow> 'g ontology_state" where
  "register_tag ops st i def =
     st\<lparr>os_dag := add_tag ops (os_dag st) i, os_names := bm_insert (td_name def) i (os_names st),
        os_tags := bm_insert i (def\<lparr>td_id := i\<rparr>) (os_tags st)\<rparr>"

fun register_tags ::
  "'g pg_ops \<Rightarrow> 'g ontology_state \<Rightarrow> id_allocator \<Rightarrow> tag_definition list \<Rightarrow>
   (ontology_error, 'g ontology_state \<times> tag_id list \<times> nat) res \<times> id_allocator" where
  "register_tags ops st alloc [] = (ok (st, [], 0), alloc)"
| "register_tags ops st alloc (def # defs) =
     (case bm_get (os_names st) (td_name def) of
        Some existing \<Rightarrow>
          (case observe_id alloc existing of
             Inl e \<Rightarrow> (Inl e, alloc)
           | Inr alloc1 \<Rightarrow>
               let (r, alloc2) = register_tags ops st alloc1 defs
               in (rbind r (\<lambda>(st2, new, skipped). ok (st2, new, skipped + 1)), alloc2))
      | None \<Rightarrow>
          (case next_id alloc of
             Inl e \<Rightarrow> (Inl e, alloc)
           | Inr (i, alloc1) \<Rightarrow>
               let (r, alloc2) = register_tags ops (register_tag ops st i def) alloc1 defs
               in (rbind r (\<lambda>(st2, new, skipped). ok (st2, i # new, skipped)), alloc2)))"

definition resolve_name :: "'g ontology_state \<Rightarrow> string \<Rightarrow> (ontology_error, tag_id) res" where
  "resolve_name st name = (case bm_get (os_names st) name of None \<Rightarrow> err (UnknownTag name) | Some i \<Rightarrow> ok i)"

definition push_implies :: "tag_id \<Rightarrow> tag_id \<Rightarrow> 'g ontology_state \<Rightarrow> 'g ontology_state" where
  "push_implies from to st =
     (case bm_get (os_tags st) from of
        Some def \<Rightarrow>
          if to \<in> set (td_implies def) then st
          else st\<lparr>os_tags := bm_insert from (def\<lparr>td_implies := td_implies def @ [to]\<rparr>) (os_tags st)\<rparr>
      | None \<Rightarrow> st)"

fun install_implications ::
  "'g pg_ops \<Rightarrow> 'g ontology_state \<Rightarrow> (string \<times> string) list \<Rightarrow>
   (ontology_error, 'g ontology_state \<times> (tag_id \<times> tag_id) list) res" where
  "install_implications ops st [] = ok (st, [])"
| "install_implications ops st ((from_name, to_name) # is) =
     rbind (resolve_name st from_name) (\<lambda>from.
     rbind (resolve_name st to_name) (\<lambda>to.
     (case add_implication ops (os_dag st) from to of
        (Inl e, _) \<Rightarrow> Inl e
      | (Inr _, d) \<Rightarrow>
          rbind (install_implications ops (push_implies from to (st\<lparr>os_dag := d\<rparr>)) is) (\<lambda>(st2, added).
          ok (st2, (from, to) # added)))))"

fun install_relations ::
  "'g ontology_state \<Rightarrow> (string \<times> tag_relation \<times> string) list \<Rightarrow>
   (ontology_error, 'g ontology_state \<times> relation_edge list) res" where
  "install_relations st [] = ok (st, [])"
| "install_relations st ((from_name, kind, to_name) # rs) =
     (if kind = ImpliedBy
      then err (ModuleParse ''use [[implications]] instead of a relation of kind `implied-by`'')
      else
        rbind (resolve_name st from_name) (\<lambda>from.
        rbind (resolve_name st to_name) (\<lambda>to.
        let edge = (from, kind, to);
            st1 = (if edge \<in> set (os_relations st) then st else st\<lparr>os_relations := os_relations st @ [edge]\<rparr>)
        in rbind (install_relations st1 rs) (\<lambda>(st2, added). ok (st2, edge # added)))))"

definition module_record_of ::
  "ontology_module \<Rightarrow> tag_id list \<Rightarrow> (tag_id \<times> tag_id) list \<Rightarrow> relation_edge list \<Rightarrow> module_record" where
  "module_record_of m new imps rels = \<lparr>mr_id = om_id m, mr_version = om_version m, mr_name = om_name m,
     mr_installed_tags = new, mr_installed_implications = imps, mr_installed_relations = rels\<rparr>"

definition install_inner ::
  "'g pg_ops \<Rightarrow> 'g ontology_state \<Rightarrow> ontology_module \<Rightarrow> id_allocator \<Rightarrow>
   (ontology_error, install_result \<times> 'g ontology_state) res \<times> id_allocator" where
  "install_inner ops st m alloc =
     (let (r, alloc1) = register_tags ops st alloc (om_tags m)
      in (rbind r (\<lambda>(st1, new, skipped).
          rbind (install_implications ops st1 (om_implications m)) (\<lambda>(st2, imps).
          rbind (install_relations st2 (om_relations m)) (\<lambda>(st3, rels).
          rbind (check_axis_invariant ops st3) (\<lambda>_.
          ok (\<lparr>ir_tags_registered = length new, ir_tags_skipped = skipped, ir_implications_added = length imps,
               ir_module_id = om_id m, ir_module_name = om_name m\<rparr>,
              st3\<lparr>os_modules := bm_insert (om_id m) (module_record_of m new imps rels) (os_modules st3)\<rparr>))))), alloc1))"

text \<open>A failed install puts the backup back; the allocator is not rolled back. A panic (the ids are used up) unwinds
  past the restoring \<open>match\<close> and leaves a partly changed registry behind; no crate catches it, so the state that
  stands beside \<open>Inl Panic\<close> is never used and is given here as the backup.\<close>

definition install ::
  "'g pg_ops \<Rightarrow> 'g ontology_state \<Rightarrow> ontology_module \<Rightarrow> id_allocator \<Rightarrow>
   (ontology_error, install_result) res \<times> 'g ontology_state \<times> id_allocator" where
  "install ops st m alloc =
     (if bm_get (os_modules st) (om_id m) \<noteq> None then (err (ModuleAlreadyInstalled (om_id m)), st, alloc)
      else
        (case install_inner ops st m alloc of
           (Inl e, alloc1) \<Rightarrow> (Inl e, st, alloc1)
         | (Inr (res, st1), alloc1) \<Rightarrow> (ok res, st1, alloc1)))"

section \<open>Upgrade\<close>

definition fresh_allocator :: "'g ontology_state \<Rightarrow> ('e, id_allocator) res" where
  "fresh_allocator st =
     (if os_tags st = [] then ok (starting_at 1)
      else let m = fold max (map fst (os_tags st)) 0 in if m + 1 < 2 ^ 32 then ok (starting_at (m + 1)) else Inl Panic)"

definition add_missing :: "'a list \<Rightarrow> 'a list \<Rightarrow> 'a list" where
  "add_missing old new = fold (\<lambda>x acc. if x \<in> set acc then acc else acc @ [x]) new old"

fun check_semantics :: "'g ontology_state \<Rightarrow> tag_definition list \<Rightarrow> (ontology_error, unit) res" where
  "check_semantics st [] = ok ()"
| "check_semantics st (t # ts) =
     (case bm_get (os_names st) (td_name t) of
        None \<Rightarrow> check_semantics st ts
      | Some i \<Rightarrow>
          (case bm_get (os_tags st) i of
             None \<Rightarrow> Inl Panic
           | Some existing \<Rightarrow>
               if td_semantics existing \<noteq> td_semantics t
               then err (ModuleParse (''upgrade would change semantics of tag `'' @ td_name t @ ''`''))
               else check_semantics st ts))"

text \<open>The checks before anything is changed: no tag of the previous version is missing, no known tag changes
  its semantics.\<close>

definition upgrade_check :: "'g ontology_state \<Rightarrow> module_record \<Rightarrow> ontology_module \<Rightarrow> (ontology_error, unit) res" where
  "upgrade_check st prev new =
     (let prev_names = set (List.map_filter (\<lambda>i. map_option td_name (bm_get (os_tags st) i)) (mr_installed_tags prev));
          new_names = set (map td_name (om_tags new))
      in (case sorted_list_of_set (prev_names - new_names) of
            name # _ \<Rightarrow> err (ModuleParse (''upgrade would remove tag `'' @ name @ ''`; explicit migration required''))
          | [] \<Rightarrow> check_semantics st (om_tags new)))"

definition carry_over :: "module_record \<Rightarrow> module_record \<Rightarrow> module_record" where
  "carry_over prev r =
     r\<lparr>mr_installed_tags := add_missing (mr_installed_tags prev) (mr_installed_tags r),
       mr_installed_implications := add_missing (mr_installed_implications prev) (mr_installed_implications r),
       mr_installed_relations := add_missing (mr_installed_relations prev) (mr_installed_relations r)\<rparr>"

definition upgrade_inner ::
  "'g pg_ops \<Rightarrow> 'g ontology_state \<Rightarrow> ontology_module \<Rightarrow> (ontology_error, install_result \<times> 'g ontology_state) res" where
  "upgrade_inner ops st new =
     (case bm_get (os_modules st) (om_id new) of
        None \<Rightarrow> err (ModuleNotInstalled (om_id new))
      | Some prev \<Rightarrow>
          rbind (upgrade_check st prev new) (\<lambda>_.
          rbind (fresh_allocator st) (\<lambda>alloc.
          rbind (fst (install_inner ops (st\<lparr>os_modules := bm_remove (om_id new) (os_modules st)\<rparr>) new alloc)) (\<lambda>(res, st1).
          (case bm_get (os_modules st1) (ir_module_id res) of
             None \<Rightarrow> Inl Panic
           | Some r \<Rightarrow>
               ok (res\<lparr>ir_tags_skipped := ir_tags_skipped res + length (mr_installed_tags prev)\<rparr>,
                   st1\<lparr>os_modules := bm_insert (ir_module_id res) (carry_over prev r) (os_modules st1)\<rparr>))))))"

text \<open>Every failure leaves or puts back the state as it was.\<close>

definition upgrade ::
  "'g pg_ops \<Rightarrow> 'g ontology_state \<Rightarrow> ontology_module \<Rightarrow> (ontology_error, install_result) res \<times> 'g ontology_state" where
  "upgrade ops st new =
     (case upgrade_inner ops st new of Inl e \<Rightarrow> (Inl e, st) | Inr (res, st1) \<Rightarrow> (ok res, st1))"

section \<open>Scrub\<close>

definition scrub_implication :: "'g pg_ops \<Rightarrow> tag_id \<times> tag_id \<Rightarrow> 'g ontology_state \<Rightarrow> 'g ontology_state" where
  "scrub_implication ops e st =
     (let (from, to) = e; st1 = st\<lparr>os_dag := remove_implication ops (os_dag st) from to\<rparr>
      in (case bm_get (os_tags st1) from of
            None \<Rightarrow> st1
          | Some def \<Rightarrow>
              st1\<lparr>os_tags := bm_insert from (def\<lparr>td_implies := filter (\<lambda>t. t \<noteq> to) (td_implies def)\<rparr>) (os_tags st1)\<rparr>))"

definition scrub_tag :: "'g pg_ops \<Rightarrow> tag_id \<Rightarrow> 'g ontology_state \<Rightarrow> 'g ontology_state" where
  "scrub_tag ops tag st =
     (let st1 = (case bm_get (os_tags st) tag of
                   None \<Rightarrow> st
                 | Some def \<Rightarrow>
                     st\<lparr>os_tags := bm_remove tag (os_tags st), os_names := bm_remove (td_name def) (os_names st)\<rparr>)
      in st1\<lparr>os_dag := remove_tag ops (os_dag st1) tag\<rparr>)"

definition scrub ::
  "'g pg_ops \<Rightarrow> 'g ontology_state \<Rightarrow> string \<Rightarrow> (ontology_error, nat \<times> 'g ontology_state) res" where
  "scrub ops st module_id =
     (case bm_get (os_modules st) module_id of
        None \<Rightarrow> err (ModuleNotInstalled module_id)
      | Some rec \<Rightarrow>
          let modules = bm_remove module_id (os_modules st);
              others = map snd modules;
              shared_tags = \<Union> (set (map (set \<circ> mr_installed_tags) others));
              shared_imps = \<Union> (set (map (set \<circ> mr_installed_implications) others));
              shared_rels = \<Union> (set (map (set \<circ> mr_installed_relations) others));
              st1 = fold (\<lambda>e st. if e \<in> shared_imps then st else scrub_implication ops e st)
                      (mr_installed_implications rec) (st\<lparr>os_modules := modules\<rparr>);
              st2 = fold (\<lambda>e st. if e \<in> shared_rels then st else st\<lparr>os_relations := filter (\<lambda>x. x \<noteq> e) (os_relations st)\<rparr>)
                      (mr_installed_relations rec) st1;
              gone = filter (\<lambda>t. t \<notin> shared_tags) (mr_installed_tags rec)
          in ok (length gone, fold (scrub_tag ops) gone st2))"

section \<open>Materialisation and policy resolution\<close>

definition state_materialise :: "'g pg_ops \<Rightarrow> 'g ontology_state \<Rightarrow> tag_id list \<Rightarrow> tag_id list option" where
  "state_materialise ops st direct = materialise ops (os_dag st) direct"

definition tag_declares :: "'g ontology_state \<Rightarrow> storage_axis \<Rightarrow> tag_id \<Rightarrow> bool" where
  "tag_declares st axis t = (case bm_get (os_tags st) t of None \<Rightarrow> False | Some d \<Rightarrow> declares axis d)"

fun dominated :: "'g pg_ops \<Rightarrow> 'g ontology_state \<Rightarrow> tag_id \<Rightarrow> tag_id list \<Rightarrow> ('e, bool) res" where
  "dominated ops st candidate [] = ok False"
| "dominated ops st candidate (t # others) =
     (if t = candidate then dominated ops st candidate others
      else rbind (await (is_a ops (os_dag st) t candidate)) (\<lambda>b.
        if b then ok True else dominated ops st candidate others))"

fun first_undominated :: "'g pg_ops \<Rightarrow> 'g ontology_state \<Rightarrow> tag_id list \<Rightarrow> tag_id list \<Rightarrow> ('e, tag_id option) res" where
  "first_undominated ops st declaring [] = ok None"
| "first_undominated ops st declaring (c # cs) =
     rbind (dominated ops st c declaring) (\<lambda>b. if b then first_undominated ops st declaring cs else ok (Some c))"

definition most_derived ::
  "'g pg_ops \<Rightarrow> 'g ontology_state \<Rightarrow> storage_axis \<Rightarrow> tag_id list \<Rightarrow> ('e, tag_id option) res" where
  "most_derived ops st axis candidates =
     (let declaring = filter (tag_declares st axis) candidates
      in if declaring = [] then ok None
         else rbind (first_undominated ops st declaring declaring) (\<lambda>c.
           ok (case c of Some t \<Rightarrow> Some t | None \<Rightarrow> Some (fold min (tl declaring) (hd declaring)))))"

definition axis_value ::
  "'g pg_ops \<Rightarrow> 'g ontology_state \<Rightarrow> storage_axis \<Rightarrow> (storage_policy \<Rightarrow> 'a) \<Rightarrow> tag_id list \<Rightarrow> 'a \<Rightarrow> ('e, 'a) res" where
  "axis_value ops st axis sel materialised dflt =
     rbind (most_derived ops st axis materialised) (\<lambda>c.
     case c of
       None \<Rightarrow> ok dflt
     | Some t \<Rightarrow>
         (case bm_get (os_tags st) t of
            None \<Rightarrow> Inl Panic
          | Some d \<Rightarrow> (case td_storage d of None \<Rightarrow> Inl Panic | Some p \<Rightarrow> ok (sel p))))"

definition resolve_policy ::
  "'g pg_ops \<Rightarrow> 'g ontology_state \<Rightarrow> tag_id list \<Rightarrow> storage_policy \<Rightarrow> ('e, storage_policy) res" where
  "resolve_policy ops st object_tags dflt =
     rbind (await (state_materialise ops st object_tags)) (\<lambda>materialised.
     rbind (axis_value ops st Chunking sp_chunking materialised (sp_chunking dflt)) (\<lambda>chunking.
     rbind (axis_value ops st Compression sp_compression materialised (sp_compression dflt)) (\<lambda>compression.
     rbind (axis_value ops st Encryption sp_encryption materialised (sp_encryption dflt)) (\<lambda>encryption.
     ok \<lparr>sp_chunking = chunking, sp_compression = compression, sp_encryption = encryption\<rparr>))))"

section \<open>The persisted image\<close>

definition ONTOLOGY_IMAGE_FORMAT_VERSION :: u16 where
  "ONTOLOGY_IMAGE_FORMAT_VERSION = 1"

record ontology_image =
  oi_format_version :: u16
  oi_tags :: "tag_definition list"
  oi_dag :: dag_snapshot
  oi_relations :: "relation_edge list"
  oi_modules :: "module_record list"

definition to_image :: "'g pg_ops \<Rightarrow> 'g ontology_state \<Rightarrow> ontology_image" where
  "to_image ops st =
     \<lparr>oi_format_version = ONTOLOGY_IMAGE_FORMAT_VERSION, oi_tags = sort_key td_id (map snd (os_tags st)),
      oi_dag = snapshot ops (os_dag st), oi_relations = sort (os_relations st),
      oi_modules = sort_key mr_id (map snd (os_modules st))\<rparr>"

definition into_state :: "'g pg_ops \<Rightarrow> (nat \<Rightarrow> nat \<Rightarrow> string) \<Rightarrow> ontology_image \<Rightarrow> (ontology_error, 'g ontology_state) res" where
  "into_state ops version_msg img =
     (if oi_format_version img > ONTOLOGY_IMAGE_FORMAT_VERSION
      then err (OntologyCbor (version_msg (oi_format_version img) ONTOLOGY_IMAGE_FORMAT_VERSION))
      else
        rbind (from_snapshot ops (oi_dag img)) (\<lambda>d.
        ok \<lparr>os_tags = fold (\<lambda>def. bm_insert (td_id def) def) (oi_tags img) [],
            os_names = fold (\<lambda>def. bm_insert (td_name def) (td_id def)) (oi_tags img) [],
            os_dag = d, os_relations = oi_relations img,
            os_modules = fold (\<lambda>r. bm_insert (mr_id r) r) (oi_modules img) []\<rparr>))"

definition ontology_to_loaded_node :: "'g pg_ops \<Rightarrow> 'g ontology_state \<Rightarrow> ('e, (u32, ontology_image) loaded_node) res" where
  "ontology_to_loaded_node ops st =
     (let node = node_new Ontology 0 18
      in rbind (run_from_sorted 0 0 [(0, to_image ops st)]) (\<lambda>run.
         ok (node\<lparr>n_sorted_runs := [run], n_header := (n_header node)\<lparr>nh_sorted_run_count := 1\<rparr>\<rparr>)))"

definition latest_image :: "(u32 \<times> ontology_image) list \<Rightarrow> (u32 \<times> ontology_image) option" where
  "latest_image rows =
     fold (\<lambda>(k, v) latest. case latest of None \<Rightarrow> Some (k, v) | Some (pk, pv) \<Rightarrow> if k \<ge> pk then Some (k, v) else latest)
       rows None"

definition ontology_from_loaded_node ::
  "'g pg_ops \<Rightarrow> (nat \<Rightarrow> nat \<Rightarrow> string) \<Rightarrow> (u32, ontology_image) kmerge \<Rightarrow> (u32, ontology_image) loaded_node \<Rightarrow>
   (ontology_error, 'g ontology_state) res" where
  "ontology_from_loaded_node ops version_msg kmerge node =
     (case latest_image (merge_iter kmerge node) of
        Some (_, img) \<Rightarrow> into_state ops version_msg img
      | None \<Rightarrow> ok (ontology_new ops))"

text \<open>\<open>display\<close> is the text of a storage error.\<close>

definition ontology_flush_to_region ::
  "'d block_device \<Rightarrow> (u32, ontology_image) region_env \<Rightarrow> 'g pg_ops \<Rightarrow> (storage_error \<Rightarrow> string) \<Rightarrow>
   'g ontology_state \<Rightarrow> 'd \<Rightarrow> u64 \<Rightarrow> (ontology_error, 'd) res" where
  "ontology_flush_to_region dev env ops display st d offset =
     rbind (ontology_to_loaded_node ops st) (\<lambda>node.
     rbind (map_err (OntologyCbor \<circ> display) (write_full dev env d offset node)) (\<lambda>(_, d1). ok d1))"

definition ontology_load_from_region ::
  "'d block_device \<Rightarrow> (u32, ontology_image) region_env \<Rightarrow> 'g pg_ops \<Rightarrow> (storage_error \<Rightarrow> string) \<Rightarrow>
   (nat \<Rightarrow> nat \<Rightarrow> string) \<Rightarrow> (u32, ontology_image) kmerge \<Rightarrow> 'd \<Rightarrow> u64 \<Rightarrow> (ontology_error, 'g ontology_state) res" where
  "ontology_load_from_region dev env ops display version_msg kmerge d offset =
     rbind (map_err (OntologyCbor \<circ> display) (read_at dev d offset 8)) (\<lambda>probe.
     if list_all (\<lambda>b. b = 0) probe then ok (ontology_new ops)
     else rbind (map_err (OntologyCbor \<circ> display) (region_read dev env d offset Ontology)) (\<lambda>node.
       ontology_from_loaded_node ops version_msg kmerge node))"

definition ontology_serialise ::
  "(ontology_image \<Rightarrow> (string, byte list) res) \<Rightarrow> 'g pg_ops \<Rightarrow> 'g ontology_state \<Rightarrow> (ontology_error, byte list) res" where
  "ontology_serialise cbor_encode ops st = map_err OntologyCbor (cbor_encode (to_image ops st))"

definition ontology_deserialise ::
  "(byte list \<Rightarrow> (string, ontology_image) res) \<Rightarrow> 'g pg_ops \<Rightarrow> (nat \<Rightarrow> nat \<Rightarrow> string) \<Rightarrow> byte list \<Rightarrow>
   (ontology_error, 'g ontology_state) res" where
  "ontology_deserialise cbor_decode ops version_msg bs =
     rbind (map_err OntologyCbor (cbor_decode bs)) (into_state ops version_msg)"

end
