(* ===== verification/Mb_Dag_Thms.thy ===== *)
theory Mb_Dag_Thms
  imports Mb_Dag
begin

text \<open>
  The implication DAG refines a set of tags with an acyclic relation on it. The documented behaviour
  of the external graph crate is the locale \<open>digraph\<close>; the DAG's operations over any graph that
  meets it have the contract \<open>implication_api\<close>, as a sublocale, which the ontology state uses.
\<close>

section \<open>The external graph's contract\<close>

text \<open>\<open>toposort\<close>: a permutation of the nodes in which every edge goes forward.\<close>

definition topo_order :: "nat \<Rightarrow> (nat \<times> nat) set \<Rightarrow> nat list \<Rightarrow> bool" where
  "topo_order n es order \<longleftrightarrow> distinct order \<and> set order = {..<n} \<and>
     (\<forall>(a, b)\<in>es. \<exists>xs ys zs. order = xs @ a # ys @ b # zs)"

locale digraph =
  fixes ops :: "'g pg_ops" and gwf :: "'g \<Rightarrow> bool"
  assumes empty: "gwf (pg_empty ops)" "pg_node_count ops (pg_empty ops) = 0" "pg_edges ops (pg_empty ops) = []"
    and edges_in: "gwf g \<Longrightarrow> (a, b) \<in> set (pg_edges ops g) \<Longrightarrow> a < pg_node_count ops g \<and> b < pg_node_count ops g"
    and add_node: "gwf g \<Longrightarrow> pg_add_node ops g t = (i, g') \<Longrightarrow> gwf g' \<and> i = pg_node_count ops g \<and>
      pg_node_count ops g' = Suc i \<and> pg_edges ops g' = pg_edges ops g \<and>
      (\<forall>j\<le>i. pg_weight ops g' j = (if j = i then t else pg_weight ops g j))"
    and add_edge: "gwf g \<Longrightarrow> a < pg_node_count ops g \<Longrightarrow> b < pg_node_count ops g \<Longrightarrow> pg_add_edge ops g a b = (e, g') \<Longrightarrow>
      gwf g' \<and> e = length (pg_edges ops g) \<and> pg_edges ops g' = pg_edges ops g @ [(a, b)] \<and>
      pg_node_count ops g' = pg_node_count ops g \<and> pg_weight ops g' = pg_weight ops g"
    and find_edge: "gwf g \<Longrightarrow> pg_find_edge ops g a b = Some e \<Longrightarrow> e < length (pg_edges ops g) \<and> pg_edges ops g ! e = (a, b)"
    and find_edge_None: "gwf g \<Longrightarrow> pg_find_edge ops g a b = None \<longleftrightarrow> (a, b) \<notin> set (pg_edges ops g)"
    and remove_edge: "gwf g \<Longrightarrow> e < length (pg_edges ops g) \<Longrightarrow> gwf (pg_remove_edge ops g e) \<and>
      mset (pg_edges ops (pg_remove_edge ops g e)) = mset (pg_edges ops g) - {#pg_edges ops g ! e#} \<and>
      pg_node_count ops (pg_remove_edge ops g e) = pg_node_count ops g \<and>
      pg_weight ops (pg_remove_edge ops g e) = pg_weight ops g"
    and remove_node: "gwf g \<Longrightarrow> pg_node_count ops g = Suc l \<Longrightarrow> i \<le> l \<Longrightarrow> gwf (pg_remove_node ops g i) \<and>
      pg_node_count ops (pg_remove_node ops g i) = l \<and>
      (\<forall>j<l. pg_weight ops (pg_remove_node ops g i) j = pg_weight ops g (if j = i then l else j)) \<and>
      mset (pg_edges ops (pg_remove_node ops g i)) =
        image_mset (\<lambda>(a, b). (if a = l then i else a, if b = l then i else b))
          (filter_mset (\<lambda>(a, b). a \<noteq> i \<and> b \<noteq> i) (mset (pg_edges ops g)))"
    and neighbors: "gwf g \<Longrightarrow> set (pg_neighbors ops g a) = {b. (a, b) \<in> set (pg_edges ops g)}"
    and sources: "gwf g \<Longrightarrow> set (pg_sources ops g b) = {a. (a, b) \<in> set (pg_edges ops g)}"
    and toposort_ok: "gwf g \<Longrightarrow> acyclic (set (pg_edges ops g)) \<Longrightarrow>
      \<exists>order. pg_toposort ops g = Inr order \<and> topo_order (pg_node_count ops g) (set (pg_edges ops g)) order"
    and toposort_cycle: "gwf g \<Longrightarrow> \<not> acyclic (set (pg_edges ops g)) \<Longrightarrow>
      \<exists>n. pg_toposort ops g = Inl n \<and> (n, n) \<in> (set (pg_edges ops g))\<^sup>+"

section \<open>Abstraction\<close>

definition dag_dom :: "'g dag \<Rightarrow> tag_id set" where
  "dag_dom d = dom (dag_nodes d)"

definition dag_rel :: "'g pg_ops \<Rightarrow> 'g dag \<Rightarrow> (tag_id \<times> tag_id) set" where
  "dag_rel ops d = set (dag_edges ops d)"

definition dag_inv :: "'g pg_ops \<Rightarrow> ('g \<Rightarrow> bool) \<Rightarrow> 'g dag \<Rightarrow> bool" where
  "dag_inv ops gwf d \<longleftrightarrow> gwf (dag_graph d) \<and>
     (\<forall>t i. dag_nodes d t = Some i \<longleftrightarrow> i < pg_node_count ops (dag_graph d) \<and> pg_weight ops (dag_graph d) i = t) \<and>
     distinct (pg_edges ops (dag_graph d)) \<and> acyclic (dag_rel ops d)"

text \<open>Paths through an injective renaming of the nodes.\<close>

lemma image_trancl: "(a, b) \<in> E\<^sup>+ \<Longrightarrow> (f a, f b) \<in> (map_prod f f ` E)\<^sup>+"
  by (induction rule: trancl.induct) (auto intro: trancl.intros)

lemma lift_rtrancl:
  assumes "inj_on f A" and "E \<subseteq> A \<times> A" and "(f a, t) \<in> (map_prod f f ` E)\<^sup>*" and "a \<in> A"
  shows "\<exists>b\<in>A. t = f b \<and> (a, b) \<in> E\<^sup>*"
  using assms(3)
proof (induction rule: rtrancl_induct)
  case base
  then show ?case using assms(4) by blast
next
  case (step y z)
  then obtain b where b: "b \<in> A" "y = f b" "(a, b) \<in> E\<^sup>*" by blast
  obtain b' c where e: "(b', c) \<in> E" "y = f b'" "z = f c" using step(2) by auto
  then have "b' = b" "c \<in> A" using b assms(1,2) by (auto simp: inj_on_def)
  with b e show ?case by (auto intro: rtrancl.rtrancl_into_rtrancl)
qed

lemma image_rtrancl: "(a, b) \<in> E\<^sup>* \<Longrightarrow> (f a, f b) \<in> (map_prod f f ` E)\<^sup>*"
  by (induction rule: rtrancl.induct) (auto intro: rtrancl.intros)

lemma image_acyclic:
  assumes "inj_on f A" and "E \<subseteq> A \<times> A"
  shows "acyclic (map_prod f f ` E) \<longleftrightarrow> acyclic E"
proof
  assume "acyclic (map_prod f f ` E)"
  then show "acyclic E" by (auto simp: acyclic_def dest: image_trancl)
next
  assume ac: "acyclic E"
  have False if c: "(x, x) \<in> (map_prod f f ` E)\<^sup>+" for x
  proof -
    obtain a b where ab: "(a, b) \<in> E" "x = f a" "(f b, x) \<in> (map_prod f f ` E)\<^sup>*"
      using tranclD [OF c] by auto
    then obtain c where "c \<in> A" "x = f c" "(b, c) \<in> E\<^sup>*" using lift_rtrancl [OF assms ab(3)] assms(2) by blast
    then have "(b, a) \<in> E\<^sup>*" using ab assms by (auto simp: inj_on_def)
    with ab(1) ac show False by (auto simp: acyclic_def dest: rtrancl_into_trancl2)
  qed
  then show "acyclic (map_prod f f ` E)" by (auto simp: acyclic_def)
qed

section \<open>The loops return\<close>

lemma closure_scan_spec:
  assumes "closure_scan w ns (V, q, R) = (V', q', R')" and "set q \<subseteq> V" and "R = w ` V"
  shows "V' = V \<union> set ns \<and> R' = w ` V' \<and> set q' \<subseteq> V' \<and> set q \<subseteq> set q' \<and> V' - V \<subseteq> set q' \<and>
    (finite V \<longrightarrow> 2 * card V + length q' \<le> 2 * card V' + length q \<and> length q \<le> length q')"
  using assms
proof (induction ns arbitrary: V q R)
  case (Cons n ns)
  show ?case
  proof (cases "n \<in> V")
    case True
    then show ?thesis using Cons by auto
  next
    case False
    then have "closure_scan w ns (insert n V, q @ [n], insert (w n) R) = (V', q', R')" using Cons.prems(1) by simp
    moreover have "set (q @ [n]) \<subseteq> insert n V" "insert (w n) R = w ` insert n V" using Cons.prems(2,3) by auto
    ultimately have "V' = insert n V \<union> set ns \<and> R' = w ` V' \<and> set q' \<subseteq> V' \<and> set (q @ [n]) \<subseteq> set q' \<and> V' - insert n V \<subseteq> set q' \<and>
        (finite (insert n V) \<longrightarrow> 2 * card (insert n V) + length q' \<le> 2 * card V' + length (q @ [n]) \<and> length (q @ [n]) \<le> length q')"
      by (rule Cons.IH)
    with False show ?thesis by (auto simp: card_insert_if)
  qed
qed auto

lemma closure_loop_Nil: "closure_loop nb w (V, [], R) = Some R"
  by (subst closure_loop.simps) simp

lemma closure_loop_Cons: "closure_loop nb w (V, m # q, R) = closure_loop nb w (closure_scan w (nb m) (V, q, R))"
  by (subst closure_loop.simps) simp

lemma closure_loop_spec:
  assumes "\<And>a. a < n \<Longrightarrow> set (nb a) = E `` {a}" and "E \<subseteq> {..<n} \<times> {..<n}"
    and "V \<subseteq> {..<n}" and "set q \<subseteq> V" and "R = w ` V" and "\<forall>a\<in>V - set q. E `` {a} \<subseteq> V"
  shows "closure_loop nb w (V, q, R) = Some (w ` (E\<^sup>* `` V))"
  using assms(3-)
proof (induction "2 * (n - card V) + length q" arbitrary: V q R rule: less_induct)
  case less
  show ?case
  proof (cases q)
    case Nil
    then have "E `` V \<subseteq> V" using less.prems(4) by auto
    then have "E\<^sup>* `` V = V" by (rule Image_closed_trancl)
    with Nil less.prems(3) show ?thesis by (simp add: closure_loop_Nil)
  next
    case (Cons m rest)
    obtain V' q' R' where sc: "closure_scan w (nb m) (V, rest, R) = (V', q', R')" by (metis prod_cases3)
    have m: "m < n" "m \<in> V" using Cons less.prems(1,2) by auto
    have rest: "set rest \<subseteq> V" using Cons less.prems(2) by simp
    note s = closure_scan_spec [OF sc rest less.prems(3)]
    have V': "V' = V \<union> E `` {m}" using s assms(1) [OF m(1)] by simp
    have sub: "V' \<subseteq> {..<n}" using V' less.prems(1) assms(2) by auto
    have fin: "finite V" "finite V'" using less.prems(1) sub finite_subset [OF _ finite_lessThan [of n]] by auto
    have le: "card V' \<le> n" using card_mono [OF finite_lessThan sub] by simp
    have mono: "card V \<le> card V'" using V' fin by (intro card_mono) auto
    have dec: "2 * (n - card V') + length q' < 2 * (n - card V) + length q"
      using s fin(1) le mono Cons by auto
    have cl: "\<forall>a\<in>V' - set q'. E `` {a} \<subseteq> V'"
    proof
      fix a assume a: "a \<in> V' - set q'"
      then have "a \<in> V" using s by auto
      show "E `` {a} \<subseteq> V'"
      proof (cases "a = m")
        case False
        then have "a \<in> V - set q" using a s \<open>a \<in> V\<close> Cons by auto
        then show ?thesis using less.prems(4) V' by auto
      qed (use V' in auto)
    qed
    have "E\<^sup>* `` V' = E\<^sup>* `` V"
    proof
      show "E\<^sup>* `` V' \<subseteq> E\<^sup>* `` V"
        using V' m(2) by (auto intro: converse_rtrancl_into_rtrancl)
    qed (use V' in auto)
    moreover have "set q' \<subseteq> V'" "R' = w ` V'" using s by blast+
    ultimately show ?thesis
      using less.hyps [OF dec sub _ _ cl, of R'] sc Cons by (simp add: closure_loop_Cons)
  qed
qed

lemma reach_scan_spec:
  assumes "set q \<subseteq> V" and "t \<notin> V"
  shows "if t \<in> set ns then reach_scan t ns V q = None
    else \<exists>q'. reach_scan t ns V q = Some (V \<union> set ns, q') \<and> set q' \<subseteq> V \<union> set ns \<and> set q \<subseteq> set q' \<and>
      set ns - V \<subseteq> set q' \<and> (finite V \<longrightarrow> 2 * card V + length q' \<le> 2 * card (V \<union> set ns) + length q)"
  using assms
proof (induction ns arbitrary: V q)
  case (Cons n ns)
  consider "n = t" | "n \<noteq> t" "n \<in> V" | "n \<noteq> t" "n \<notin> V" by blast
  then show ?case
  proof cases
    case 2
    then show ?thesis using Cons.IH [OF Cons.prems] by (auto simp: insert_absorb)
  next
    case 3
    have "set (q @ [n]) \<subseteq> insert n V" "t \<notin> insert n V" using Cons.prems 3 by auto
    from Cons.IH [OF this] 3 show ?thesis by (auto simp: card_insert_if split: if_splits)
  qed simp
qed auto

lemma reach_loop_Nil: "reach_loop nb t V [] = Some False"
  by (subst reach_loop.simps) simp

lemma reach_loop_Cons:
  "reach_loop nb t V (m # q) = (case reach_scan t (nb m) V q of None \<Rightarrow> Some True | Some (V', q') \<Rightarrow> reach_loop nb t V' q')"
  by (subst reach_loop.simps) (auto simp: Let_def split: option.splits)

text \<open>The search answers whether the target is a proper successor of the visited nodes.\<close>

lemma reach_loop_spec:
  assumes "\<And>a. a < n \<Longrightarrow> set (nb a) = E `` {a}" and "E \<subseteq> {..<n} \<times> {..<n}"
    and "V \<subseteq> {..<n}" and "set q \<subseteq> V" and "t \<notin> V" and "\<forall>a\<in>V - set q. E `` {a} \<subseteq> V"
  shows "reach_loop nb t V q = Some (t \<in> E\<^sup>* `` V)"
  using assms(3-)
proof (induction "2 * (n - card V) + length q" arbitrary: V q rule: less_induct)
  case less
  show ?case
  proof (cases q)
    case Nil
    then have "E `` V \<subseteq> V" using less.prems(4) by auto
    then have "E\<^sup>* `` V = V" by (rule Image_closed_trancl)
    with Nil less.prems(3) show ?thesis by (simp add: reach_loop_Nil)
  next
    case (Cons m rest)
    have m: "m < n" "m \<in> V" using Cons less.prems(1,2) by auto
    have rest: "set rest \<subseteq> V" using Cons less.prems(2) by simp
    have nb: "set (nb m) = E `` {m}" using assms(1) [OF m(1)] .
    note s = reach_scan_spec [OF rest less.prems(3), of "nb m"]
    show ?thesis
    proof (cases "t \<in> set (nb m)")
      case True
      then have "t \<in> E\<^sup>* `` V" using nb m(2) by auto
      with True s Cons show ?thesis by (simp add: reach_loop_Cons)
    next
      case False
      let ?V = "V \<union> set (nb m)"
      obtain q' where q': "reach_scan t (nb m) V rest = Some (?V, q')" "set q' \<subseteq> ?V" "set rest \<subseteq> set q'"
          "set (nb m) - V \<subseteq> set q'" "finite V \<longrightarrow> 2 * card V + length q' \<le> 2 * card ?V + length rest"
        using s False by auto
      have sub: "?V \<subseteq> {..<n}" using nb less.prems(1) assms(2) by auto
      have fin: "finite V" using less.prems(1) finite_subset [OF _ finite_lessThan [of n]] by auto
      have le: "card ?V \<le> n" using card_mono [OF finite_lessThan sub] by simp
      have mono: "card V \<le> card ?V" using fin by (intro card_mono) auto
      have dec: "2 * (n - card ?V) + length q' < 2 * (n - card V) + length q"
        using q'(5) fin le mono Cons by auto
      have t: "t \<notin> ?V" using False less.prems(3) by simp
      have cl: "\<forall>a\<in>?V - set q'. E `` {a} \<subseteq> ?V"
      proof
        fix a assume a: "a \<in> ?V - set q'"
        then have "a \<in> V" using q'(4) by auto
        then show "E `` {a} \<subseteq> ?V"
          using less.prems(4) a q'(3) nb Cons by (cases "a = m") auto
      qed
      have "E\<^sup>* `` ?V = E\<^sup>* `` V" unfolding nb using m(2) by (auto intro: converse_rtrancl_into_rtrancl)
      with less.hyps [OF dec sub q'(2) t cl] q'(1) Cons show ?thesis by (simp add: reach_loop_Cons)
    qed
  qed
qed


section \<open>The operations\<close>

text \<open>What the ontology state relies on: the DAG as a set of tags with an acyclic relation on it.\<close>

locale implication_api =
  fixes inv :: "'d \<Rightarrow> bool" and tags :: "'d \<Rightarrow> tag_id set" and rel :: "'d \<Rightarrow> (tag_id \<times> tag_id) set"
    and new :: 'd and add :: "'d \<Rightarrow> tag_id \<Rightarrow> 'd"
    and imply :: "'d \<Rightarrow> tag_id \<Rightarrow> tag_id \<Rightarrow> (ontology_error, unit) res \<times> 'd"
    and unimply :: "'d \<Rightarrow> tag_id \<Rightarrow> tag_id \<Rightarrow> 'd" and del :: "'d \<Rightarrow> tag_id \<Rightarrow> 'd"
    and isa :: "'d \<Rightarrow> tag_id \<Rightarrow> tag_id \<Rightarrow> bool option" and clos :: "'d \<Rightarrow> tag_id list \<Rightarrow> tag_id list option"
  assumes new_spec: "inv new" "tags new = {}" "rel new = {}"
    and rel_tags: "inv d \<Longrightarrow> rel d \<subseteq> tags d \<times> tags d"
    and rel_acyclic: "inv d \<Longrightarrow> acyclic (rel d)"
    and tags_finite: "inv d \<Longrightarrow> finite (tags d)"
    and add_spec: "inv d \<Longrightarrow> inv (add d t) \<and> tags (add d t) = insert t (tags d) \<and> rel (add d t) = rel d"
    and imply_unknown: "from \<notin> tags d \<or> to \<notin> tags d \<Longrightarrow>
      imply d from to = (err (TagNotFound (if from \<notin> tags d then from else to)), d)"
    and imply_ok: "inv d \<Longrightarrow> from \<in> tags d \<Longrightarrow> to \<in> tags d \<Longrightarrow> (to, from) \<notin> (rel d)\<^sup>* \<Longrightarrow>
      \<exists>d'. imply d from to = (ok (), d') \<and> inv d' \<and> tags d' = tags d \<and> rel d' = insert (from, to) (rel d)"
    and imply_cycle: "inv d \<Longrightarrow> from \<in> tags d \<Longrightarrow> to \<in> tags d \<Longrightarrow> (to, from) \<in> (rel d)\<^sup>* \<Longrightarrow>
      \<exists>x y d'. imply d from to = (err (CycleDetected x y), d') \<and> inv d' \<and> tags d' = tags d \<and> rel d' = rel d"
    and unimply_spec: "inv d \<Longrightarrow> inv (unimply d from to) \<and> tags (unimply d from to) = tags d \<and>
      rel (unimply d from to) = rel d - {(from, to)}"
    and del_spec: "inv d \<Longrightarrow> inv (del d t) \<and> tags (del d t) = tags d - {t} \<and>
      rel (del d t) = {(a, b) \<in> rel d. a \<noteq> t \<and> b \<noteq> t}"
    and isa_spec: "inv d \<Longrightarrow> isa d a b = Some (a \<in> tags d \<and> (a, b) \<in> (rel d)\<^sup>*)"
    and clos_spec: "inv d \<Longrightarrow> clos d ts = Some (sorted_list_of_set ((rel d)\<^sup>* `` (set ts \<inter> tags d)))"

context digraph
begin

lemma inv_nodes:
  assumes "dag_inv ops gwf d"
  defines "g \<equiv> dag_graph d"
  shows "gwf g" and "dag_nodes d t = Some i \<longleftrightarrow> i < pg_node_count ops g \<and> pg_weight ops g i = t"
    and "inj_on (pg_weight ops g) {..<pg_node_count ops g}" and "set (pg_edges ops g) \<subseteq> {..<pg_node_count ops g} \<times> {..<pg_node_count ops g}"
    and "dag_rel ops d = map_prod (pg_weight ops g) (pg_weight ops g) ` set (pg_edges ops g)"
    and "dag_dom d = pg_weight ops g ` {..<pg_node_count ops g}"
proof -
  show w: "gwf g" and n: "dag_nodes d t = Some i \<longleftrightarrow> i < pg_node_count ops g \<and> pg_weight ops g i = t" for t i
    using assms by (simp_all add: dag_inv_def)
  show "inj_on (pg_weight ops g) {..<pg_node_count ops g}"
  proof (rule inj_onI)
    fix i j assume ij: "i \<in> {..<pg_node_count ops g}" "j \<in> {..<pg_node_count ops g}" "pg_weight ops g i = pg_weight ops g j"
    have "dag_nodes d (pg_weight ops g i) = Some i" using n [of "pg_weight ops g i" i] ij by simp
    moreover have "dag_nodes d (pg_weight ops g i) = Some j" using n [of "pg_weight ops g i" j] ij by simp
    ultimately show "i = j" by simp
  qed
  show "set (pg_edges ops g) \<subseteq> {..<pg_node_count ops g} \<times> {..<pg_node_count ops g}"
    using edges_in [OF w] by auto
  show "dag_rel ops d = map_prod (pg_weight ops g) (pg_weight ops g) ` set (pg_edges ops g)"
    by (simp add: dag_rel_def dag_edges_def g_def map_prod_def)
  show "dag_dom d = pg_weight ops g ` {..<pg_node_count ops g}"
    using n by (auto simp: dag_dom_def dom_def)
qed

lemma nodes_None: "dag_inv ops gwf d \<Longrightarrow> dag_nodes d t = None \<longleftrightarrow> t \<notin> dag_dom d"
  by (auto simp: dag_dom_def)

lemma dag_new_spec: "dag_inv ops gwf (dag_new ops) \<and> dag_dom (dag_new ops) = {} \<and> dag_rel ops (dag_new ops) = {}"
  using empty by (simp add: dag_inv_def dag_new_def dag_dom_def dag_rel_def dag_edges_def acyclic_def)

lemma rel_dom: "dag_inv ops gwf d \<Longrightarrow> dag_rel ops d \<subseteq> dag_dom d \<times> dag_dom d"
  unfolding inv_nodes(5) inv_nodes(6) using inv_nodes(4) [of d] by auto

lemma add_tag_spec:
  assumes inv: "dag_inv ops gwf d"
  shows "dag_inv ops gwf (add_tag ops d t) \<and> dag_dom (add_tag ops d t) = insert t (dag_dom d) \<and>
    dag_rel ops (add_tag ops d t) = dag_rel ops d"
proof (cases "dag_nodes d t")
  case None
  note n = inv_nodes [OF inv]
  obtain i g where g: "pg_add_node ops (dag_graph d) t = (i, g)" by fastforce
  note a = add_node [OF n(1) g]
  let ?d = "add_tag ops d t"
  have d: "?d = d\<lparr>dag_graph := g, dag_nodes := (dag_nodes d)(t \<mapsto> i)\<rparr>" using None g by (simp add: add_tag_def)
  have w: "pg_weight ops g j = pg_weight ops (dag_graph d) j" if "j < pg_node_count ops (dag_graph d)" for j
    using a that by simp
  have rel: "dag_rel ops ?d = dag_rel ops d"
  proof -
    have "(\<lambda>(s, t). (pg_weight ops g s, pg_weight ops g t)) p =
        (\<lambda>(s, t). (pg_weight ops (dag_graph d) s, pg_weight ops (dag_graph d) t)) p" if "p \<in> set (pg_edges ops (dag_graph d))" for p
      using edges_in [OF n(1)] that w by (cases p) simp
    then show ?thesis using a by (simp add: dag_rel_def dag_edges_def d cong: image_cong)
  qed
  have "dag_nodes ?d u = Some j \<longleftrightarrow> j < pg_node_count ops g \<and> pg_weight ops g j = u" for u j
    using n(2) [of u j] None n(2) [of t j] a w [of j] by (auto simp: d less_Suc_eq)
  then have "dag_inv ops gwf ?d" using a inv rel by (simp add: dag_inv_def d)
  moreover have "dag_dom ?d = insert t (dag_dom d)" by (auto simp: dag_dom_def d)
  ultimately show ?thesis using rel by simp
qed (use inv in \<open>auto simp: add_tag_def dag_dom_def insert_absorb\<close>)

text \<open>Replacing the edges of the graph, weights and nodes kept.\<close>

lemma inv_edges:
  assumes inv: "dag_inv ops gwf d" and "gwf g" and "pg_node_count ops g = pg_node_count ops (dag_graph d)"
    and "pg_weight ops g = pg_weight ops (dag_graph d)" and "distinct (pg_edges ops g)"
  shows "dag_dom (d\<lparr>dag_graph := g\<rparr>) = dag_dom d"
    and "dag_rel ops (d\<lparr>dag_graph := g\<rparr>) = map_prod (pg_weight ops (dag_graph d)) (pg_weight ops (dag_graph d)) ` set (pg_edges ops g)"
    and "acyclic (dag_rel ops (d\<lparr>dag_graph := g\<rparr>)) \<Longrightarrow> dag_inv ops gwf (d\<lparr>dag_graph := g\<rparr>)"
  using assms by (simp_all add: dag_dom_def dag_rel_def dag_edges_def map_prod_def dag_inv_def)

lemma cycle_check_spec:
  assumes "gwf (dag_graph d)"
  shows "acyclic (set (pg_edges ops (dag_graph d))) \<Longrightarrow> cycle_check ops d = ok ()"
    and "\<not> acyclic (set (pg_edges ops (dag_graph d))) \<Longrightarrow> \<exists>x y. cycle_check ops d = err (CycleDetected x y)"
  using toposort_ok [OF assms] toposort_cycle [OF assms]
  by (auto simp: cycle_check_def cycle_error_def Let_def)

end


context digraph
begin

lemma imply_cases:
  assumes inv: "dag_inv ops gwf d" and t: "from \<in> dag_dom d" "to \<in> dag_dom d"
  obtains
    (ok) d' where "add_implication ops d from to = (ok (), d')" and "dag_inv ops gwf d'" and "dag_dom d' = dag_dom d"
      and "dag_rel ops d' = insert (from, to) (dag_rel ops d)" and "(to, from) \<notin> (dag_rel ops d)\<^sup>*"
  | (cycle) x y d' where "add_implication ops d from to = (err (CycleDetected x y), d')" and "dag_inv ops gwf d'"
      and "dag_dom d' = dag_dom d" and "dag_rel ops d' = dag_rel ops d" and "(to, from) \<in> (dag_rel ops d)\<^sup>*"
proof -
  let ?g = "dag_graph d" and ?w = "pg_weight ops (dag_graph d)"
  note n = inv_nodes [OF inv]
  obtain fi ti where i: "dag_nodes d from = Some fi" "dag_nodes d to = Some ti" using t by (auto simp: dag_dom_def)
  then have f: "fi < pg_node_count ops ?g" "?w fi = from" "ti < pg_node_count ops ?g" "?w ti = to" using n(2) by auto
  have ac: "acyclic (dag_rel ops d)" and dist: "distinct (pg_edges ops ?g)" using inv by (simp_all add: dag_inv_def)
  show thesis
  proof (cases "pg_find_edge ops ?g fi ti = None")
    case False
    then have "(fi, ti) \<in> set (pg_edges ops ?g)" using find_edge_None [OF n(1)] by simp
    then have "(from, to) \<in> dag_rel ops d" using n(5) f by force
    moreover from this have "(to, from) \<notin> (dag_rel ops d)\<^sup>*" using ac by (meson acyclic_def rtrancl_into_trancl2)
    ultimately show thesis using that(1) [of d] False i inv by (simp add: add_implication_def insert_absorb)
  next
    case True
    then have new: "(fi, ti) \<notin> set (pg_edges ops ?g)" using find_edge_None [OF n(1)] by blast
    obtain e g where g: "pg_add_edge ops ?g fi ti = (e, g)" by fastforce
    note a = add_edge [OF n(1) f(1,3) g]
    have d1: "distinct (pg_edges ops g)" using a dist new by simp
    note e1 = inv_edges [OF inv _ _ _ d1]
    have rel: "dag_rel ops (d\<lparr>dag_graph := g\<rparr>) = insert (from, to) (dag_rel ops d)" using a e1(2) f n(5) by simp
    have "acyclic (set (pg_edges ops g)) \<longleftrightarrow> acyclic (dag_rel ops (d\<lparr>dag_graph := g\<rparr>))"
      using e1(2) a image_acyclic [OF n(3), of "set (pg_edges ops g)"] n(4) f by simp
    then have cyc: "acyclic (set (pg_edges ops g)) \<longleftrightarrow> (to, from) \<notin> (dag_rel ops d)\<^sup>*" using rel ac by (simp add: acyclic_insert)
    have wf1: "gwf (dag_graph (d\<lparr>dag_graph := g\<rparr>))" using a by simp
    show thesis
    proof (cases "acyclic (set (pg_edges ops g))")
      case True
      have "add_implication ops d from to = (ok (), d\<lparr>dag_graph := g\<rparr>)"
        using i g cycle_check_spec(1) [OF wf1] True \<open>pg_find_edge ops ?g fi ti = None\<close> by (simp add: add_implication_def)
      then show thesis using that(1) e1(1,3) a rel True cyc ac by (simp add: acyclic_insert)
    next
      case False
      let ?g2 = "pg_remove_edge ops g e"
      obtain x y where c: "cycle_check ops (d\<lparr>dag_graph := g\<rparr>) = err (CycleDetected x y)"
        using cycle_check_spec(2) [OF wf1] False by auto
      have r: "gwf ?g2" "mset (pg_edges ops ?g2) = mset (pg_edges ops ?g)"
          "pg_node_count ops ?g2 = pg_node_count ops ?g" "pg_weight ops ?g2 = ?w"
        using remove_edge [of g e] a by simp_all
      have d2: "distinct (pg_edges ops ?g2)" "set (pg_edges ops ?g2) = set (pg_edges ops ?g)"
        using mset_eq_imp_distinct_iff [OF r(2)] mset_eq_setD [OF r(2)] dist by auto
      note e2 = inv_edges [OF inv r(1,3,4) d2(1)]
      have "dag_rel ops (d\<lparr>dag_graph := ?g2\<rparr>) = dag_rel ops d" using e2(2) d2(2) n(5) by simp
      moreover have "add_implication ops d from to = (err (CycleDetected x y), d\<lparr>dag_graph := ?g2\<rparr>)"
        using i g c \<open>pg_find_edge ops ?g fi ti = None\<close> by (simp add: add_implication_def)
      ultimately show thesis using that(2) e2(1,3) ac cyc False by simp
    qed
  qed
qed

lemma remove_implication_spec:
  assumes inv: "dag_inv ops gwf d"
  shows "dag_inv ops gwf (remove_implication ops d from to) \<and> dag_dom (remove_implication ops d from to) = dag_dom d \<and>
    dag_rel ops (remove_implication ops d from to) = dag_rel ops d - {(from, to)}"
proof (cases "from \<in> dag_dom d \<and> to \<in> dag_dom d")
  case False
  then have "remove_implication ops d from to = d" by (auto simp: remove_implication_def dag_dom_def split: option.splits)
  then show ?thesis using False inv rel_dom [OF inv] by auto
next
  case True
  let ?g = "dag_graph d" and ?w = "pg_weight ops (dag_graph d)"
  note n = inv_nodes [OF inv]
  obtain fi ti where i: "dag_nodes d from = Some fi" "dag_nodes d to = Some ti" using True by (auto simp: dag_dom_def)
  then have f: "fi < pg_node_count ops ?g" "?w fi = from" "ti < pg_node_count ops ?g" "?w ti = to" using n(2) by auto
  have pre: "p = (fi, ti)" if "p \<in> set (pg_edges ops ?g)" "map_prod ?w ?w p = (from, to)" for p
    using that f n(3,4) by (cases p) (auto simp: inj_on_def)
  show ?thesis
  proof (cases "pg_find_edge ops ?g fi ti")
    case None
    then have "(fi, ti) \<notin> set (pg_edges ops ?g)" using find_edge_None [OF n(1)] by blast
    then have "(from, to) \<notin> dag_rel ops d" using n(5) pre by auto
    then show ?thesis using None i inv by (simp add: remove_implication_def)
  next
    case (Some e)
    let ?g2 = "pg_remove_edge ops ?g e"
    have fe: "e < length (pg_edges ops ?g)" "pg_edges ops ?g ! e = (fi, ti)" using find_edge [OF n(1) Some] by auto
    have r: "gwf ?g2" "mset (pg_edges ops ?g2) = mset (pg_edges ops ?g) - {#(fi, ti)#}"
        "pg_node_count ops ?g2 = pg_node_count ops ?g" "pg_weight ops ?g2 = ?w"
      using remove_edge [OF n(1) fe(1)] fe(2) by simp_all
    have dist: "distinct (pg_edges ops ?g)" using inv by (simp add: dag_inv_def)
    have m: "mset (pg_edges ops ?g2) = mset (remove1 (fi, ti) (pg_edges ops ?g))" using r(2) by simp
    have d2: "distinct (pg_edges ops ?g2)" "set (pg_edges ops ?g2) = set (pg_edges ops ?g) - {(fi, ti)}"
      using mset_eq_imp_distinct_iff [OF m] mset_eq_setD [OF m] dist by auto
    note e2 = inv_edges [OF inv r(1,3,4) d2(1)]
    have rel: "dag_rel ops (d\<lparr>dag_graph := ?g2\<rparr>) = dag_rel ops d - {(from, to)}"
      unfolding e2(2) d2(2) n(5) using pre f by auto
    have "acyclic (dag_rel ops d - {(from, to)})" using inv by (metis Diff_subset acyclic_subset dag_inv_def)
    then show ?thesis using e2(1,3) rel Some i by (simp add: remove_implication_def)
  qed
qed

end


context digraph
begin

lemma remove_tag_graph:
  assumes inv: "dag_inv ops gwf d" and i: "dag_nodes d t = Some i" and l: "pg_node_count ops (dag_graph d) = Suc l"
  defines "g \<equiv> dag_graph d" and "g' \<equiv> pg_remove_node ops (dag_graph d) i"
  shows "gwf g'" and "pg_node_count ops g' = l" and "\<forall>j<l. pg_weight ops g' j = pg_weight ops g (if j = i then l else j)"
    and "distinct (pg_edges ops g')"
    and "set (pg_edges ops g') = map_prod (\<lambda>a. if a = l then i else a) (\<lambda>a. if a = l then i else a) `
      {(a, b) \<in> set (pg_edges ops g). a \<noteq> i \<and> b \<noteq> i}"
proof -
  note n = inv_nodes [OF inv]
  have il: "i \<le> l" using i n(2) [of t i] l by simp
  note r = remove_node [OF n(1) l il]
  show "gwf g'" and "pg_node_count ops g' = l" and "\<forall>j<l. pg_weight ops g' j = pg_weight ops g (if j = i then l else j)"
    using r by (simp_all add: g'_def g_def)
  let ?ren = "\<lambda>a. if a = l then i else a" and ?es = "filter (\<lambda>(a, b). a \<noteq> i \<and> b \<noteq> i) (pg_edges ops g)"
  have m: "mset (pg_edges ops g') = mset (map (map_prod ?ren ?ren) ?es)"
    using r by (simp add: g'_def g_def map_prod_def)
  have inj: "inj_on (map_prod ?ren ?ren) (set ?es)" by (auto simp: inj_on_def split: if_splits)
  have "distinct (map (map_prod ?ren ?ren) ?es)"
    using inv inj by (simp add: distinct_map dag_inv_def g_def)
  then show "distinct (pg_edges ops g')" using mset_eq_imp_distinct_iff [OF m] by simp
  show "set (pg_edges ops g') = map_prod ?ren ?ren ` {(a, b) \<in> set (pg_edges ops g). a \<noteq> i \<and> b \<noteq> i}"
  proof -
    have "{(a, b) \<in> set (pg_edges ops g). a \<noteq> i \<and> b \<noteq> i} = set ?es" by auto
    then show ?thesis using mset_eq_setD [OF m] by simp
  qed
qed

lemma remove_tag_spec:
  assumes inv: "dag_inv ops gwf d"
  shows "dag_inv ops gwf (remove_tag ops d t) \<and> dag_dom (remove_tag ops d t) = dag_dom d - {t} \<and>
    dag_rel ops (remove_tag ops d t) = {(a, b) \<in> dag_rel ops d. a \<noteq> t \<and> b \<noteq> t}"
proof (cases "dag_nodes d t")
  case None
  then have "t \<notin> dag_dom d" by (auto simp: dag_dom_def)
  then show ?thesis using rel_dom [OF inv] inv None by (auto simp: remove_tag_def)
next
  case (Some i)
  let ?g = "dag_graph d" and ?w = "pg_weight ops (dag_graph d)" and ?d = "remove_tag ops d t"
  note n = inv_nodes [OF inv]
  obtain l where l: "pg_node_count ops ?g = Suc l" using n(2) [of t i] Some by (cases "pg_node_count ops ?g") auto
  have i: "i \<le> l" "?w i = t" using n(2) [of t i] Some l by auto
  let ?g' = "pg_remove_node ops ?g i" and ?ren = "\<lambda>a. if a = l then i else a"
  note r = remove_tag_graph [OF inv Some l]
  have d: "dag_graph ?d = ?g'" "dag_nodes ?d = (if l \<noteq> i then ((dag_nodes d)(t := None))(?w l \<mapsto> i) else (dag_nodes d)(t := None))"
    using Some l by (simp_all add: remove_tag_def Let_def)
  have w': "pg_weight ops ?g' (?ren a) = ?w a" if "a \<le> l" "a \<noteq> i" for a
    using r(3) that i(1) by auto
  have inj: "?w a = ?w b \<longleftrightarrow> a = b" if "a \<le> l" "b \<le> l" for a b
    using n(3) that l by (auto simp: inj_on_def)
  have nodes: "dag_nodes ?d u = Some j \<longleftrightarrow> j < pg_node_count ops ?g' \<and> pg_weight ops ?g' j = u" for u j
  proof -
    have nd: "dag_nodes d u = Some j \<longleftrightarrow> j \<le> l \<and> ?w j = u" using n(2) [of u j] l by (simp add: less_Suc_eq_le)
    have wj: "pg_weight ops ?g' j = ?w (if j = i then l else j)" if "j < l" using r(3) that by simp
    show ?thesis
    proof (cases "l = i")
      case True
      then have "dag_nodes ?d u = Some j \<longleftrightarrow> u \<noteq> t \<and> j \<le> l \<and> ?w j = u" using nd by (simp add: d(2))
      also have "\<dots> \<longleftrightarrow> j < l \<and> ?w j = u" using True i(2) inj [of j l] by (auto simp: order_le_less)
      finally show ?thesis using wj r(2) True by auto
    next
      case False
      then have il: "i < l" using i(1) by simp
      consider "u = ?w l" | "u = t" "u \<noteq> ?w l" | "u \<noteq> t" "u \<noteq> ?w l" by blast
      then show ?thesis
      proof cases
        case 1
        have "dag_nodes ?d u = Some j \<longleftrightarrow> j = i" using 1 False by (auto simp: d(2))
        also have "\<dots> \<longleftrightarrow> j < l \<and> ?w (if j = i then l else j) = u" using 1 il inj [of j l] by auto
        finally show ?thesis using wj r(2) by auto
      next
        case 2
        have "dag_nodes ?d u = None" using 2 False by (simp add: d(2))
        moreover have "\<not> (j < l \<and> ?w (if j = i then l else j) = u)" using 2 i inj [of j i] by auto
        ultimately show ?thesis using wj r(2) by auto
      next
        case 3
        have "dag_nodes ?d u = Some j \<longleftrightarrow> j \<le> l \<and> ?w j = u" using 3 False nd by (simp add: d(2))
        also have "\<dots> \<longleftrightarrow> j < l \<and> ?w (if j = i then l else j) = u" using 3 i by (auto simp: order_le_less)
        finally show ?thesis using wj r(2) by auto
      qed
    qed
  qed
  have "dag_rel ops ?d = (\<lambda>(a, b). (pg_weight ops ?g' a, pg_weight ops ?g' b)) `
      map_prod ?ren ?ren ` {(a, b) \<in> set (pg_edges ops ?g). a \<noteq> i \<and> b \<noteq> i}"
    using r(5) by (simp add: dag_rel_def dag_edges_def d)
  also have "\<dots> = map_prod ?w ?w ` {(a, b) \<in> set (pg_edges ops ?g). a \<noteq> i \<and> b \<noteq> i}"
    unfolding image_image using n(4) l by (intro image_cong refl) (auto simp: w' less_Suc_eq_le)
  also have "\<dots> = {(a, b) \<in> dag_rel ops d. a \<noteq> t \<and> b \<noteq> t}"
  proof -
    have "a \<noteq> i \<and> b \<noteq> i \<longleftrightarrow> ?w a \<noteq> t \<and> ?w b \<noteq> t" if "(a, b) \<in> set (pg_edges ops ?g)" for a b
      using edges_in [OF n(1) that] l i inj [of a i] inj [of b i] by simp
    then have "{(a, b) \<in> set (pg_edges ops ?g). a \<noteq> i \<and> b \<noteq> i} = {(a, b) \<in> set (pg_edges ops ?g). ?w a \<noteq> t \<and> ?w b \<noteq> t}"
      by blast
    then show ?thesis unfolding n(5) by auto
  qed
  finally have rel: "dag_rel ops ?d = {(a, b) \<in> dag_rel ops d. a \<noteq> t \<and> b \<noteq> t}" .
  have "acyclic {(a, b) \<in> dag_rel ops d. a \<noteq> t \<and> b \<noteq> t}"
  proof -
    have "acyclic (dag_rel ops d)" using inv by (simp add: dag_inv_def)
    then show ?thesis by (rule acyclic_subset) blast
  qed
  then have "dag_inv ops gwf ?d" using nodes r(1,4) rel unfolding dag_inv_def d(1) by presburger
  moreover have "dag_dom ?d = dag_dom d - {t}"
  proof -
    have "dag_nodes d (?w l) = Some l" using n(2) [of "?w l" l] l by simp
    moreover have "l \<noteq> i \<Longrightarrow> ?w l \<noteq> t" using inj [of l i] i by auto
    ultimately show ?thesis by (auto simp: dag_dom_def d(2) split: if_splits)
  qed
  ultimately show ?thesis using rel by simp
qed

lemma is_a_spec:
  assumes inv: "dag_inv ops gwf d"
  shows "is_a ops d a b = Some (a \<in> dag_dom d \<and> (a, b) \<in> (dag_rel ops d)\<^sup>*)"
proof (cases "a \<in> dag_dom d \<and> b \<in> dag_dom d \<and> a \<noteq> b")
  case False
  have "b \<in> dag_dom d" if "(a, b) \<in> (dag_rel ops d)\<^sup>*" "a \<in> dag_dom d"
    using that rel_dom [OF inv] by (induction rule: rtrancl_induct) auto
  then show ?thesis using False by (auto simp: is_a_def dag_dom_def split: option.splits)
next
  case True
  let ?g = "dag_graph d" and ?w = "pg_weight ops (dag_graph d)"
  note n = inv_nodes [OF inv]
  obtain i j where ij: "dag_nodes d a = Some i" "dag_nodes d b = Some j" using True by (auto simp: dag_dom_def)
  then have w: "i < pg_node_count ops ?g" "?w i = a" "j < pg_node_count ops ?g" "?w j = b" using n(2) by auto
  have "(i, j) \<in> (set (pg_edges ops ?g))\<^sup>* \<longleftrightarrow> (a, b) \<in> (dag_rel ops d)\<^sup>*"
    using image_rtrancl [of i j "set (pg_edges ops ?g)" ?w] lift_rtrancl [OF n(3,4), of i b] w n(3,5)
    by (auto simp: inj_on_def)
  moreover have "reach_loop (pg_neighbors ops ?g) j {i} [i] = Some (j \<in> (set (pg_edges ops ?g))\<^sup>* `` {i})"
    using neighbors [OF n(1)] n(4) w True by (intro reach_loop_spec [of "pg_node_count ops ?g"]) auto
  ultimately show ?thesis using ij True by (simp add: is_a_def reachable_def)
qed

lemma closure_seed_spec:
  assumes "dag_inv ops gwf d" and "set q = V" and "V \<subseteq> {..<pg_node_count ops (dag_graph d)}"
    and "R = pg_weight ops (dag_graph d) ` V"
  shows "\<exists>V' q'. closure_seed (dag_nodes d) ts (V, q, R) = (V', q', pg_weight ops (dag_graph d) ` V') \<and> set q' = V' \<and>
    V' \<subseteq> {..<pg_node_count ops (dag_graph d)} \<and> pg_weight ops (dag_graph d) ` V' = R \<union> (set ts \<inter> dag_dom d)"
  using assms(2-)
proof (induction ts arbitrary: V q R)
  case (Cons t ts)
  note n = inv_nodes [OF assms(1)]
  show ?case
  proof (cases "dag_nodes d t")
    case None
    then have "t \<notin> dag_dom d" by (auto simp: dag_dom_def)
    then show ?thesis using Cons None by simp
  next
    case (Some i)
    then have i: "i < pg_node_count ops (dag_graph d)" "pg_weight ops (dag_graph d) i = t" "t \<in> dag_dom d"
      using n(2) by (auto simp: dag_dom_def)
    show ?thesis
    proof (cases "i \<in> V")
      case True
      then have "t \<in> R" using Cons.prems(3) i(2) by auto
      then show ?thesis using Cons.IH [OF Cons.prems] Some True by auto
    next
      case False
      have "set (q @ [i]) = insert i V" "insert i V \<subseteq> {..<pg_node_count ops (dag_graph d)}"
          "insert t R = pg_weight ops (dag_graph d) ` insert i V"
        using Cons.prems i by auto
      from Cons.IH [OF this] show ?thesis using Some False i(3) by auto
    qed
  qed
qed auto

lemma closure_spec:
  assumes inv: "dag_inv ops gwf d"
  shows "closure ops d ts = Some (sorted_list_of_set ((dag_rel ops d)\<^sup>* `` (set ts \<inter> dag_dom d)))"
proof -
  let ?g = "dag_graph d" and ?w = "pg_weight ops (dag_graph d)"
  note n = inv_nodes [OF inv]
  obtain V q where s: "closure_seed (dag_nodes d) ts ({}, [], {}) = (V, q, ?w ` V)" "set q = V"
      "V \<subseteq> {..<pg_node_count ops ?g}" "?w ` V = set ts \<inter> dag_dom d"
    using closure_seed_spec [OF inv, of "[]" "{}" "{}" ts] by auto
  have "closure_loop (pg_neighbors ops ?g) ?w (V, q, ?w ` V) = Some (?w ` ((set (pg_edges ops ?g))\<^sup>* `` V))"
    using neighbors [OF n(1)] n(4) s(2,3) by (intro closure_loop_spec [of "pg_node_count ops ?g"]) auto
  moreover have "?w ` ((set (pg_edges ops ?g))\<^sup>* `` V) = (dag_rel ops d)\<^sup>* `` (?w ` V)"
  proof
    show "?w ` ((set (pg_edges ops ?g))\<^sup>* `` V) \<subseteq> (dag_rel ops d)\<^sup>* `` (?w ` V)"
      unfolding n(5) by (auto dest: image_rtrancl [where f = ?w])
    show "(dag_rel ops d)\<^sup>* `` (?w ` V) \<subseteq> ?w ` ((set (pg_edges ops ?g))\<^sup>* `` V)"
      unfolding n(5) using lift_rtrancl [OF n(3,4)] s(3) by fastforce
  qed
  ultimately show ?thesis using s(1,4) by (simp add: closure_def)
qed

end

sublocale digraph \<subseteq> imp: implication_api "dag_inv ops gwf" dag_dom "dag_rel ops" "dag_new ops" "add_tag ops"
  "add_implication ops" "remove_implication ops" "remove_tag ops" "is_a ops" "closure ops"
proof unfold_locales
  show "finite (dag_dom d)" if "dag_inv ops gwf d" for d using inv_nodes(6) [OF that] by simp
  show "acyclic (dag_rel ops d)" if "dag_inv ops gwf d" for d using that by (simp add: dag_inv_def)
  show "add_implication ops d f t = (err (TagNotFound (if f \<notin> dag_dom d then f else t)), d)"
    if "f \<notin> dag_dom d \<or> t \<notin> dag_dom d" for d f t
    using that by (auto simp: add_implication_def dag_dom_def split: option.splits)
  show "\<exists>d'. add_implication ops d f t = (ok (), d') \<and> dag_inv ops gwf d' \<and> dag_dom d' = dag_dom d \<and>
      dag_rel ops d' = insert (f, t) (dag_rel ops d)"
    if "dag_inv ops gwf d" "f \<in> dag_dom d" "t \<in> dag_dom d" "(t, f) \<notin> (dag_rel ops d)\<^sup>*" for d f t
    using imply_cases [OF that(1-3)] that(4) by metis
  show "\<exists>x y d'. add_implication ops d f t = (err (CycleDetected x y), d') \<and> dag_inv ops gwf d' \<and>
      dag_dom d' = dag_dom d \<and> dag_rel ops d' = dag_rel ops d"
    if "dag_inv ops gwf d" "f \<in> dag_dom d" "t \<in> dag_dom d" "(t, f) \<in> (dag_rel ops d)\<^sup>*" for d f t
    using imply_cases [OF that(1-3)] that(4) by metis
qed (use dag_new_spec rel_dom add_tag_spec remove_implication_spec remove_tag_spec is_a_spec closure_spec in auto)


section \<open>A graph that meets the contract\<close>

text \<open>Node weights and edges as lists, with the removal behaviour the external crate documents: the last
  index takes the place of the removed one.\<close>

type_synonym list_graph = "tag_id list \<times> (nat \<times> nat) list"

function lg_topo :: "nat list \<Rightarrow> (nat \<times> nat) list \<Rightarrow> nat list" where
  "lg_topo ns es =
     (case filter (\<lambda>n. list_all (\<lambda>(a, b). b = n \<longrightarrow> a \<notin> set ns) es) ns of
        [] \<Rightarrow> []
      | n # _ \<Rightarrow> n # lg_topo (remove1 n ns) es)"
  by pat_completeness auto
termination
  by (relation "measure (\<lambda>(ns, es). length ns)")
    (auto simp: length_remove1 dest: filter_eq_ConsD intro: length_pos_if_in_set)

declare lg_topo.simps [simp del]

definition lg_ops :: "list_graph pg_ops" where
  "lg_ops = \<lparr>pg_empty = ([], []), pg_node_count = \<lambda>(ws, es). length ws,
     pg_add_node = \<lambda>(ws, es) t. (length ws, (ws @ [t], es)),
     pg_weight = \<lambda>(ws, es) i. ws ! i,
     pg_find_edge = \<lambda>(ws, es) a b. (if (a, b) \<in> set es then Some (length (takeWhile (\<lambda>e. e \<noteq> (a, b)) es)) else None),
     pg_add_edge = \<lambda>(ws, es) a b. (length es, (ws, es @ [(a, b)])),
     pg_remove_edge = \<lambda>(ws, es) e. (ws, take e es @ drop (Suc e) es),
     pg_remove_node = \<lambda>(ws, es) i. let l = length ws - 1 in
       (butlast (ws[i := last ws]),
        map (\<lambda>(a, b). (if a = l then i else a, if b = l then i else b)) (filter (\<lambda>(a, b). a \<noteq> i \<and> b \<noteq> i) es)),
     pg_neighbors = \<lambda>(ws, es) a. map snd (filter (\<lambda>e. fst e = a) es),
     pg_sources = \<lambda>(ws, es) b. map fst (filter (\<lambda>e. snd e = b) es),
     pg_edges = snd,
     pg_toposort = \<lambda>(ws, es). let order = lg_topo [0..<length ws] es
       in if length order = length ws then Inr order
          else Inl (hd (filter (\<lambda>n. (n, n) \<in> (set es)\<^sup>+) [0..<length ws]))\<rparr>"

definition lg_wf :: "list_graph \<Rightarrow> bool" where
  "lg_wf g \<longleftrightarrow> (\<forall>(a, b)\<in>set (snd g). a < length (fst g) \<and> b < length (fst g))"

lemma lg_topo_set: "distinct ns \<Longrightarrow> distinct (lg_topo ns es) \<and> set (lg_topo ns es) \<subseteq> set ns"
proof (induction ns es rule: lg_topo.induct)
  case (1 ns es)
  show ?case
  proof (cases "filter (\<lambda>n. list_all (\<lambda>(a, b). b = n \<longrightarrow> a \<notin> set ns) es) ns")
    case (Cons n rest)
    then have "n \<in> set ns" by (metis filter_eq_ConsD in_set_conv_decomp)
    with 1 Cons show ?thesis by (auto simp: lg_topo.simps [of ns] dest: set_remove1_subset [THEN subsetD])
  qed (simp add: lg_topo.simps)
qed

lemma lg_topo_forward:
  assumes "distinct ns" and "(a, b) \<in> set es" and "a \<in> set ns" and "b \<in> set (lg_topo ns es)"
  shows "\<exists>xs ys zs. lg_topo ns es = xs @ a # ys @ b # zs"
  using assms
proof (induction ns es rule: lg_topo.induct)
  case (1 ns es)
  obtain n rest where f: "filter (\<lambda>n. list_all (\<lambda>(a, b). b = n \<longrightarrow> a \<notin> set ns) es) ns = n # rest"
    using 1(5) by (cases "filter (\<lambda>n. list_all (\<lambda>(a, b). b = n \<longrightarrow> a \<notin> set ns) es) ns") (auto simp: lg_topo.simps [of ns])
  then have top: "lg_topo ns es = n # lg_topo (remove1 n ns) es" by (simp add: lg_topo.simps [of ns])
  have "list_all (\<lambda>(a, b). b = n \<longrightarrow> a \<notin> set ns) es" using f [THEN arg_cong [of _ _ set]] by auto
  then have "b \<noteq> n" using 1(3,4) by (auto simp: list_all_iff)
  then have b: "b \<in> set (lg_topo (remove1 n ns) es)" using 1(5) top by simp
  show ?case
  proof (cases "a = n")
    case True
    then show ?thesis using b top by (metis append_Nil split_list)
  next
    case False
    then obtain xs ys zs where "lg_topo (remove1 n ns) es = xs @ a # ys @ b # zs"
      using 1(1) [OF f] 1(2-4) b by auto
    then show ?thesis using top by (metis append_Cons)
  qed
qed

lemma lg_topo_complete:
  assumes "acyclic (set es)" and "distinct ns"
  shows "set (lg_topo ns es) = set ns"
  using assms
proof (induction ns es rule: lg_topo.induct)
  case (1 ns es)
  show ?case
  proof (cases "ns = []")
    case False
    have "wf (set es)" using finite_acyclic_wf [OF _ 1(2)] by simp
    then obtain z where z: "z \<in> set ns" "\<And>y. (y, z) \<in> set es \<Longrightarrow> y \<notin> set ns"
      using False wfE_min [of "set es" _ "set ns"] by (metis list.set_sel(1))
    then obtain n rest where f: "filter (\<lambda>n. list_all (\<lambda>(a, b). b = n \<longrightarrow> a \<notin> set ns) es) ns = n # rest"
      by (cases "filter (\<lambda>n. list_all (\<lambda>(a, b). b = n \<longrightarrow> a \<notin> set ns) es) ns") (auto simp: filter_empty_conv list_all_iff)
    have n: "n \<in> set ns" using f [THEN arg_cong [of _ _ set]] by auto
    then show ?thesis using 1 f by (simp add: lg_topo.simps [of ns] insert_absorb)
  qed (simp add: lg_topo.simps)
qed

lemma lg_take_drop_mset: "e < length es \<Longrightarrow> mset (take e es @ drop (Suc e) es) = mset es - {#es ! e#}"
  by (subst (3) id_take_nth_drop [of e]) auto

lemma lg_find:
  assumes "x \<in> set es"
  shows "length (takeWhile (\<lambda>e. e \<noteq> x) es) < length es" and "es ! length (takeWhile (\<lambda>e. e \<noteq> x) es) = x"
  using assms by (induction es) auto

lemma lg_wf_iff: "lg_wf (ws, es) \<longleftrightarrow> set es \<subseteq> {..<length ws} \<times> {..<length ws}"
  by (auto simp: lg_wf_def)

lemma lg_remove_node:
  assumes "lg_wf (ws, es)" and "length ws = Suc l" and "i \<le> l"
  shows "lg_wf (pg_remove_node lg_ops (ws, es) i)" and "pg_node_count lg_ops (pg_remove_node lg_ops (ws, es) i) = l"
    and "j < l \<Longrightarrow> pg_weight lg_ops (pg_remove_node lg_ops (ws, es) i) j = ws ! (if j = i then l else j)"
    and "mset (pg_edges lg_ops (pg_remove_node lg_ops (ws, es) i)) =
        image_mset (\<lambda>(a, b). (if a = l then i else a, if b = l then i else b))
          (filter_mset (\<lambda>(a, b). a \<noteq> i \<and> b \<noteq> i) (mset es))"
proof -
  have l: "last ws = ws ! l" using assms(2) by (cases ws) (auto simp: last_conv_nth)
  show "j < l \<Longrightarrow> pg_weight lg_ops (pg_remove_node lg_ops (ws, es) i) j = ws ! (if j = i then l else j)"
    using assms(2,3) l by (simp add: lg_ops_def nth_butlast nth_list_update)
  show "lg_wf (pg_remove_node lg_ops (ws, es) i)"
    using assms by (force simp: lg_ops_def lg_wf_def less_Suc_eq)
qed (use assms in \<open>simp_all add: lg_ops_def\<close>)

lemma lg_remove_edge:
  assumes "lg_wf (ws, es)"
  shows "lg_wf (ws, take e es @ drop (Suc e) es)"
  using assms set_take_subset [of e es] set_drop_subset [of "Suc e" es] by (auto simp: lg_wf_iff)

interpretation lg: digraph lg_ops lg_wf
proof unfold_locales
  show "lg_wf (pg_empty lg_ops)" "pg_node_count lg_ops (pg_empty lg_ops) = 0" "pg_edges lg_ops (pg_empty lg_ops) = []"
    by (simp_all add: lg_ops_def lg_wf_def)
next
  fix g :: list_graph
  obtain ws es where g: "g = (ws, es)" by fastforce
  assume w: "lg_wf g"
  show "\<exists>order. pg_toposort lg_ops g = Inr order \<and> topo_order (pg_node_count lg_ops g) (set (pg_edges lg_ops g)) order"
    if ac: "acyclic (set (pg_edges lg_ops g))"
  proof -
    let ?o = "lg_topo [0..<length ws] es"
    have acyc: "acyclic (set es)" using ac by (simp add: g lg_ops_def)
    have s: "set ?o = {..<length ws}" "distinct ?o"
      using lg_topo_complete [OF acyc, of "[0..<length ws]"] lg_topo_set [of "[0..<length ws]" es] by (simp_all add: lessThan_atLeast0)
    have "topo_order (length ws) (set es) ?o"
      unfolding topo_order_def
    proof (intro conjI ballI)
      fix e assume e: "e \<in> set es"
      then have "fst e < length ws" "snd e < length ws" using w by (auto simp: lg_wf_def g)
      then show "case e of (a, b) \<Rightarrow> \<exists>xs ys zs. ?o = xs @ a # ys @ b # zs"
        using e s(1) lg_topo_forward [of "[0..<length ws]" "fst e" "snd e" es] by (simp add: case_prod_unfold)
    qed (use s in simp_all)
    moreover have "length ?o = length ws" using s distinct_card [of ?o] by simp
    ultimately show ?thesis by (simp add: g lg_ops_def)
  qed
  show "\<exists>n. pg_toposort lg_ops g = Inl n \<and> (n, n) \<in> (set (pg_edges lg_ops g))\<^sup>+" if cyc: "\<not> acyclic (set (pg_edges lg_ops g))"
  proof -
    let ?o = "lg_topo [0..<length ws] es" and ?f = "filter (\<lambda>n. (n, n) \<in> (set es)\<^sup>+) [0..<length ws]"
    obtain n where n: "(n, n) \<in> (set es)\<^sup>+" using cyc by (auto simp: acyclic_def g lg_ops_def)
    have "n < length ws" using tranclD [OF n] w by (auto simp: lg_wf_def g)
    then have "hd ?f \<in> set ?f" using n by (intro hd_in_set) (auto simp: filter_empty_conv)
    then have "(hd ?f, hd ?f) \<in> (set es)\<^sup>+" by simp
    moreover have "length ?o \<noteq> length ws"
    proof
      assume l: "length ?o = length ws"
      have o: "distinct ?o" "set ?o \<subseteq> {..<length ws}" using lg_topo_set [of "[0..<length ws]" es] by auto
      then have "set ?o = {..<length ws}" using l card_subset_eq [of "{..<length ws}" "set ?o"] distinct_card [OF o(1)] by simp
      then have fw: "\<exists>xs ys zs. ?o = xs @ a # ys @ b # zs" if "(a, b) \<in> set es" for a b
        using lg_topo_forward [of "[0..<length ws]" a b es] that w by (auto simp: lg_wf_def g)
      have "\<exists>xs ys zs. ?o = xs @ a # ys @ b # zs" if "(a, b) \<in> (set es)\<^sup>+" for a b
        using that
      proof (induction rule: trancl.induct)
        case (trancl_into_trancl a b c)
        then obtain xs ys zs xs' ys' zs' where "?o = xs @ a # ys @ b # zs" "?o = xs' @ b # ys' @ c # zs'" using fw by metis
        moreover from this have "xs @ a # ys = xs'"
          using o(1) append_Cons_eq_iff [of b "xs @ a # ys" zs xs' "ys' @ c # zs'"] by fastforce
        ultimately show ?case by (metis append.assoc append_Cons)
      qed (use fw in auto)
      from this [OF n] o(1) show False by auto
    qed
    ultimately show ?thesis by (auto simp: g lg_ops_def Let_def)
  qed
  show "a < pg_node_count lg_ops g \<and> b < pg_node_count lg_ops g" if "(a, b) \<in> set (pg_edges lg_ops g)" for a b
    using w that by (auto simp: g lg_ops_def lg_wf_def)
  show "lg_wf g' \<and> i = pg_node_count lg_ops g \<and> pg_node_count lg_ops g' = Suc i \<and> pg_edges lg_ops g' = pg_edges lg_ops g \<and>
      (\<forall>j\<le>i. pg_weight lg_ops g' j = (if j = i then t else pg_weight lg_ops g j))"
    if "pg_add_node lg_ops g t = (i, g')" for t i g'
    using w that by (force simp: g lg_ops_def lg_wf_def nth_append)
  show "lg_wf g' \<and> e = length (pg_edges lg_ops g) \<and> pg_edges lg_ops g' = pg_edges lg_ops g @ [(a, b)] \<and>
      pg_node_count lg_ops g' = pg_node_count lg_ops g \<and> pg_weight lg_ops g' = pg_weight lg_ops g"
    if "a < pg_node_count lg_ops g" "b < pg_node_count lg_ops g" "pg_add_edge lg_ops g a b = (e, g')" for a b e g'
    using w that by (auto simp: g lg_ops_def lg_wf_def)
  show "e < length (pg_edges lg_ops g) \<and> pg_edges lg_ops g ! e = (a, b)" if "pg_find_edge lg_ops g a b = Some e" for a b e
    using that lg_find [of "(a, b)" es] by (auto simp: g lg_ops_def split: if_splits)
  show "(pg_find_edge lg_ops g a b = None) = ((a, b) \<notin> set (pg_edges lg_ops g))" for a b
    by (simp add: g lg_ops_def)
  show "lg_wf (pg_remove_edge lg_ops g e) \<and>
      mset (pg_edges lg_ops (pg_remove_edge lg_ops g e)) = mset (pg_edges lg_ops g) - {#pg_edges lg_ops g ! e#} \<and>
      pg_node_count lg_ops (pg_remove_edge lg_ops g e) = pg_node_count lg_ops g \<and>
      pg_weight lg_ops (pg_remove_edge lg_ops g e) = pg_weight lg_ops g" if "e < length (pg_edges lg_ops g)" for e
    using lg_take_drop_mset [of e es] lg_remove_edge [of ws es e] w that by (simp add: g lg_ops_def)
  show "lg_wf (pg_remove_node lg_ops g i) \<and> pg_node_count lg_ops (pg_remove_node lg_ops g i) = l \<and>
      (\<forall>j<l. pg_weight lg_ops (pg_remove_node lg_ops g i) j = pg_weight lg_ops g (if j = i then l else j)) \<and>
      mset (pg_edges lg_ops (pg_remove_node lg_ops g i)) =
        image_mset (\<lambda>(a, b). (if a = l then i else a, if b = l then i else b))
          (filter_mset (\<lambda>(a, b). a \<noteq> i \<and> b \<noteq> i) (mset (pg_edges lg_ops g)))"
    if "pg_node_count lg_ops g = Suc l" "i \<le> l" for l i
  proof -
    have c: "length ws = Suc l" using that(1) by (simp add: g lg_ops_def)
    have "pg_weight lg_ops g j = ws ! j" "pg_edges lg_ops g = es" for j by (simp_all add: g lg_ops_def)
    then show ?thesis using lg_remove_node [OF w [unfolded g] c that(2)] by (simp add: g)
  qed
  show "set (pg_neighbors lg_ops g a) = {b. (a, b) \<in> set (pg_edges lg_ops g)}"
    "set (pg_sources lg_ops g a) = {b. (b, a) \<in> set (pg_edges lg_ops g)}" for a
    by (force simp: g lg_ops_def)+
qed


section \<open>Properties\<close>

text \<open>Runs of the DAG's operations, with the tags and the relation they should leave.\<close>

inductive dag_reach :: "'g pg_ops \<Rightarrow> 'g dag \<Rightarrow> tag_id set \<Rightarrow> (tag_id \<times> tag_id) set \<Rightarrow> bool" for ops where
  dag_start: "dag_reach ops (dag_new ops) {} {}"
| dag_add: "dag_reach ops d T R \<Longrightarrow> dag_reach ops (add_tag ops d t) (insert t T) R"
| dag_imply: "dag_reach ops d T R \<Longrightarrow> add_implication ops d a b = (r, d') \<Longrightarrow>
    dag_reach ops d' T (if r = ok () then insert (a, b) R else R)"
| dag_unimply: "dag_reach ops d T R \<Longrightarrow> dag_reach ops (remove_implication ops d a b) T (R - {(a, b)})"
| dag_del: "dag_reach ops d T R \<Longrightarrow> dag_reach ops (remove_tag ops d t) (T - {t}) {(a, b) \<in> R. a \<noteq> t \<and> b \<noteq> t}"

context digraph
begin

lemma dag_reach_inv: "dag_reach ops d T R \<Longrightarrow> dag_inv ops gwf d \<and> dag_dom d = T \<and> dag_rel ops d = R"
proof (induction rule: dag_reach.induct)
  case (dag_imply d T R a b r d')
  show ?case
  proof (cases "a \<in> T \<and> b \<in> T")
    case True
    have h: "dag_inv ops gwf d" "dag_dom d = T" "dag_rel ops d = R" using dag_imply.IH by simp_all
    show ?thesis by (rule imply_cases [OF h(1), of a b]) (use True h(2,3) dag_imply.hyps(2) in simp_all)
  next
    case False
    then show ?thesis using dag_imply imp.imply_unknown [of a d b] by auto
  qed
qed (use dag_new_spec add_tag_spec remove_implication_spec remove_tag_spec in auto)

lemma topological_sort_spec:
  assumes inv: "dag_inv ops gwf d"
  shows "\<exists>order. topological_sort ops d = ok order \<and> distinct order \<and> set order = dag_dom d \<and>
    (\<forall>(a, b)\<in>dag_rel ops d. \<exists>xs ys zs. order = xs @ a # ys @ b # zs)"
proof -
  let ?g = "dag_graph d" and ?w = "pg_weight ops (dag_graph d)"
  note n = inv_nodes [OF inv]
  have "acyclic (set (pg_edges ops ?g))"
    using inv image_acyclic [OF n(3,4)] n(5) by (simp add: dag_inv_def)
  then obtain order where o: "pg_toposort ops ?g = Inr order" "distinct order" "set order = {..<pg_node_count ops ?g}"
      "\<forall>(a, b)\<in>set (pg_edges ops ?g). \<exists>xs ys zs. order = xs @ a # ys @ b # zs"
    using toposort_ok [OF n(1)] by (auto simp: topo_order_def)
  have "\<forall>(a, b)\<in>dag_rel ops d. \<exists>xs ys zs. map ?w order = xs @ a # ys @ b # zs"
  proof (clarsimp simp: n(5))
    fix a b assume "(a, b) \<in> set (pg_edges ops ?g)"
    then obtain xs ys zs where "order = xs @ a # ys @ b # zs" using o(4) by auto
    then show "\<exists>xs ys zs. map ?w order = xs @ ?w a # ys @ ?w b # zs" by (metis list.simps(9) map_append)
  qed
  then show ?thesis using o(1-3) n(3,6) by (auto simp: topological_sort_def distinct_map)
qed

lemma add_tags_spec:
  "dag_inv ops gwf d \<Longrightarrow> dag_inv ops gwf (fold (\<lambda>t d. add_tag ops d t) ts d) \<and>
     dag_dom (fold (\<lambda>t d. add_tag ops d t) ts d) = dag_dom d \<union> set ts \<and>
     dag_rel ops (fold (\<lambda>t d. add_tag ops d t) ts d) = dag_rel ops d"
  by (induction ts arbitrary: d) (auto simp: add_tag_spec)

lemma add_implications_spec:
  assumes "dag_inv ops gwf d" and "acyclic (dag_rel ops d \<union> set es)" and "set es \<subseteq> dag_dom d \<times> dag_dom d"
  shows "\<exists>d'. add_implications ops d es = ok d' \<and> dag_inv ops gwf d' \<and> dag_dom d' = dag_dom d \<and>
    dag_rel ops d' = dag_rel ops d \<union> set es"
  using assms
proof (induction es arbitrary: d)
  case (Cons e es)
  obtain a b where e: "e = (a, b)" by fastforce
  have "(b, a) \<notin> (dag_rel ops d)\<^sup>*"
  proof
    assume "(b, a) \<in> (dag_rel ops d)\<^sup>*"
    then have "(b, a) \<in> (dag_rel ops d \<union> set (e # es))\<^sup>*" using rtrancl_mono [of "dag_rel ops d"] by blast
    then have "(a, a) \<in> (dag_rel ops d \<union> set (e # es))\<^sup>+" using e by (intro rtrancl_into_trancl2 [of a b]) simp_all
    with Cons.prems(2) show False by (auto simp: acyclic_def)
  qed
  then obtain d1 where d1: "add_implication ops d a b = (ok (), d1)" "dag_inv ops gwf d1" "dag_dom d1 = dag_dom d"
      "dag_rel ops d1 = insert (a, b) (dag_rel ops d)"
    using imp.imply_ok [OF Cons.prems(1), of a b] Cons.prems(3) e by auto
  have "acyclic (dag_rel ops d1 \<union> set es)" using Cons.prems(2) d1(4) e by simp
  from Cons.IH [OF d1(2) this] Cons.prems(3) d1 show ?case by (auto simp: e)
qed simp

lemma snapshot_spec:
  assumes inv: "dag_inv ops gwf d"
  shows "\<exists>d'. from_snapshot ops (snapshot ops d) = ok d' \<and> dag_inv ops gwf d' \<and> dag_dom d' = dag_dom d \<and>
    dag_rel ops d' = dag_rel ops d"
proof -
  let ?ts = "snap_tags (snapshot ops d)" and ?es = "snap_edges (snapshot ops d)"
  have ts: "set ?ts = dag_dom d" and es: "set ?es = dag_rel ops d"
    using inv_nodes(6) [OF inv] by (auto simp: snapshot_def dag_tags_def dag_rel_def)
  let ?d0 = "fold (\<lambda>t d. add_tag ops d t) ?ts (dag_new ops)"
  have d0: "dag_inv ops gwf ?d0" "dag_dom ?d0 = dag_dom d" "dag_rel ops ?d0 = {}"
    using add_tags_spec [of "dag_new ops" ?ts] dag_new_spec ts by auto
  have "acyclic (dag_rel ops ?d0 \<union> set ?es)" using inv d0(3) es by (simp add: dag_inv_def)
  from add_implications_spec [OF d0(1) this] d0 es rel_dom [OF inv] show ?thesis
    by (auto simp: from_snapshot_def)
qed

end

text \<open>C25. After any sequence of operations the DAG is a set of tags with an acyclic relation on it, exactly
  the implications added, accepted and not removed since; the breadth-first searches end, \<open>is_a\<close> is
  reachability, and the materialised closure of a tag list is, in ascending order, everything its known
  tags reach.\<close>

theorem dag_refines_relation:
  assumes "digraph ops gwf" and "dag_reach ops d T R"
  shows "acyclic R \<and> R \<subseteq> T \<times> T \<and> set (dag_tags ops d) = T \<and> set (dag_edges ops d) = R \<and>
    (\<forall>t. dag_contains d t \<longleftrightarrow> t \<in> T) \<and> (\<forall>a b. is_a ops d a b = Some (a \<in> T \<and> (a, b) \<in> R\<^sup>*)) \<and>
    (\<forall>ts. materialise ops d ts = Some (sorted_list_of_set (R\<^sup>* `` (set ts \<inter> T))))"
proof -
  note r = digraph.dag_reach_inv [OF assms]
  have inv: "dag_inv ops gwf d" using r by simp
  have "set (dag_tags ops d) = T" using digraph.inv_nodes(6) [OF assms(1) inv] r by (auto simp: dag_tags_def)
  moreover have "dag_contains d t \<longleftrightarrow> t \<in> T" for t using r by (auto simp: dag_contains_def dag_dom_def)
  moreover have "acyclic R" using r by (metis dag_inv_def)
  ultimately show ?thesis
    using r digraph.rel_dom [OF assms(1) inv] digraph.is_a_spec [OF assms(1) inv] digraph.closure_spec [OF assms(1) inv]
    by (simp add: materialise_def dag_rel_def)
qed

abbreviation wit_dag :: "list_graph dag" where
  "wit_dag \<equiv> snd (add_implication lg_ops (add_tag lg_ops (add_tag lg_ops (dag_new lg_ops) 7) 3) 7 3)"

lemma wit_dag_reach: "dag_reach lg_ops wit_dag {7, 3} {(7, 3)}"
proof -
  have 0: "dag_reach lg_ops (add_tag lg_ops (add_tag lg_ops (dag_new lg_ops) 7) 3) {3, 7} {}"
    by (intro dag_add dag_start)
  note r = lg.dag_reach_inv [OF 0]
  obtain d' where d': "add_implication lg_ops (add_tag lg_ops (add_tag lg_ops (dag_new lg_ops) 7) 3) 7 3 = (ok (), d')"
    using lg.imp.imply_ok [of "add_tag lg_ops (add_tag lg_ops (dag_new lg_ops) 7) 3" 7 3] r by auto
  from dag_imply [OF 0 d'] d' show ?thesis by (simp add: insert_commute)
qed

theorem dag_refines_relation_witness:
  "is_a lg_ops wit_dag 7 3 = Some True \<and> materialise lg_ops wit_dag [7, 9] = Some [3, 7]"
proof -
  note w = dag_refines_relation [OF lg.digraph_axioms wit_dag_reach]
  have "x = 7 \<or> x = 3" if "(7, x) \<in> {(7 :: nat, 3)}\<^sup>*" for x using that by (induction rule: rtrancl_induct) auto
  then have "{(7 :: nat, 3)}\<^sup>* `` (set [7, 9] \<inter> {7, 3}) = {7, 3}" by auto
  then have "materialise lg_ops wit_dag [7, 9] = Some (sorted_list_of_set {7, 3})" using w by simp
  moreover have "sorted_list_of_set {7 :: nat, 3} = [3, 7]" by simp
  ultimately show ?thesis using w by auto
qed

text \<open>An implication between known tags is accepted unless it would close a cycle: then it is refused
  with \<open>CycleDetected\<close> and leaves the relation as it was; an unknown tag is refused by name.\<close>

theorem add_implication_exact:
  assumes "digraph ops gwf" and "dag_reach ops d T R" and "add_implication ops d a b = (r, d')"
  shows "if a \<notin> T then r = err (TagNotFound a) \<and> d' = d else if b \<notin> T then r = err (TagNotFound b) \<and> d' = d
    else if (b, a) \<in> R\<^sup>* then (\<exists>x y. r = err (CycleDetected x y)) \<and> dag_reach ops d' T R
    else r = ok () \<and> dag_reach ops d' T (insert (a, b) R)"
proof -
  note i = digraph.dag_reach_inv [OF assms(1,2)]
  have inv: "dag_inv ops gwf d" using i by simp
  note r = dag_imply [OF assms(2,3)]
  show ?thesis
  proof (cases "a \<in> T \<and> b \<in> T")
    case True
    show ?thesis by (rule digraph.imply_cases [OF assms(1) inv, of a b]) (use True i assms(3) r in simp_all)
  next
    case False
    then show ?thesis using assms(3) i by (auto simp: add_implication_def dag_dom_def split: option.splits)
  qed
qed

theorem add_implication_exact_witness:
  "\<exists>x y. fst (add_implication lg_ops wit_dag 3 7) = err (CycleDetected x y)"
proof -
  obtain r d' where a: "add_implication lg_ops wit_dag 3 7 = (r, d')" by fastforce
  have "(7 :: nat, 3 :: nat) \<in> {(7, 3)}\<^sup>*" by blast
  with add_implication_exact [OF lg.digraph_axioms wit_dag_reach a] a show ?thesis by simp
qed

text \<open>A snapshot is loadable: rebuilding the DAG from the sorted tags and edges of a snapshot succeeds,
  never reports a cycle, and gives the same tags and the same relation; and the tags can be listed in an
  order in which every tag comes before the tags it implies.\<close>

theorem dag_snapshot_roundtrip:
  assumes "digraph ops gwf" and "dag_reach ops d T R"
  shows "(\<exists>d'. from_snapshot ops (snapshot ops d) = ok d' \<and> set (dag_tags ops d') = T \<and> set (dag_edges ops d') = R) \<and>
    (\<exists>order. topological_sort ops d = ok order \<and> distinct order \<and> set order = T \<and>
      (\<forall>(a, b)\<in>R. \<exists>xs ys zs. order = xs @ a # ys @ b # zs))"
proof -
  note r = digraph.dag_reach_inv [OF assms]
  have inv: "dag_inv ops gwf d" using r by simp
  obtain d' where d': "from_snapshot ops (snapshot ops d) = ok d'" "dag_inv ops gwf d'" "dag_dom d' = T" "dag_rel ops d' = R"
    using digraph.snapshot_spec [OF assms(1) inv] r by auto
  have "set (dag_tags ops d') = T" using digraph.inv_nodes(6) [OF assms(1) d'(2)] d'(3) by (auto simp: dag_tags_def)
  then show ?thesis using d'(1,4) digraph.topological_sort_spec [OF assms(1) inv] r by (simp add: dag_rel_def)
qed

theorem dag_snapshot_roundtrip_witness:
  "\<exists>d'. from_snapshot lg_ops (snapshot lg_ops wit_dag) = ok d' \<and> set (dag_edges lg_ops d') = {(7, 3)}"
  using dag_snapshot_roundtrip [OF lg.digraph_axioms wit_dag_reach] by blast

end
