(* ===== verification/Mb_Ontology_Thms.thy ===== *)
theory Mb_Ontology_Thms
  imports Mb_Ontology Mb_Dag_Thms
begin

text \<open>
  The registry stays consistent under install, upgrade and scrub: names and ids are in bijection, every
  tag is a node of the DAG and conversely. An installed module leaves every storage axis a chain of the
  implication order, which is what policy resolution relies on. The proofs use the DAG only through its
  contract \<open>implication_api\<close>.
\<close>

section \<open>Invariant\<close>

abbreviation tag_of :: "'g ontology_state \<Rightarrow> tag_id \<Rightarrow> tag_definition option" where
  "tag_of st \<equiv> bm_get (os_tags st)"

abbreviation name_of :: "'g ontology_state \<Rightarrow> string \<Rightarrow> tag_id option" where
  "name_of st \<equiv> bm_get (os_names st)"

abbreviation onto_rel :: "'g pg_ops \<Rightarrow> 'g ontology_state \<Rightarrow> (tag_id \<times> tag_id) set" where
  "onto_rel ops st \<equiv> dag_rel ops (os_dag st)"

definition names_ok :: "(string, tag_id) btree_map \<Rightarrow> (tag_id, tag_definition) btree_map \<Rightarrow> bool" where
  "names_ok ns ts \<longleftrightarrow> bm_wf ns \<and> bm_wf ts \<and>
     (\<forall>i d. bm_get ts i = Some d \<longrightarrow> td_id d = i \<and> bm_get ns (td_name d) = Some i) \<and>
     (\<forall>n i. bm_get ns n = Some i \<longrightarrow> (\<exists>d. bm_get ts i = Some d \<and> td_name d = n))"

definition onto_inv :: "'g pg_ops \<Rightarrow> ('g \<Rightarrow> bool) \<Rightarrow> 'g ontology_state \<Rightarrow> bool" where
  "onto_inv ops gwf st \<longleftrightarrow> dag_inv ops gwf (os_dag st) \<and> dag_dom (os_dag st) = dom (tag_of st) \<and>
     names_ok (os_names st) (os_tags st) \<and> bm_wf (os_modules st) \<and>
     (\<forall>m r. bm_get (os_modules st) m = Some r \<longrightarrow> mr_id r = m)"

definition alloc_ok :: "'g ontology_state \<Rightarrow> id_allocator \<Rightarrow> bool" where
  "alloc_ok st a \<longleftrightarrow> (\<forall>i\<in>dom (tag_of st). i < ia_next a)"

text \<open>The same tags under the same names, with the same declarations.\<close>

definition same_decls :: "'g ontology_state \<Rightarrow> 'g ontology_state \<Rightarrow> bool" where
  "same_decls st st' \<longleftrightarrow> os_names st' = os_names st \<and>
     (\<forall>i. map_option (\<lambda>d. (td_name d, td_storage d)) (tag_of st' i) = map_option (\<lambda>d. (td_name d, td_storage d)) (tag_of st i))"

definition axis_chain :: "'g pg_ops \<Rightarrow> 'g ontology_state \<Rightarrow> storage_axis \<Rightarrow> bool" where
  "axis_chain ops st axis \<longleftrightarrow> (\<forall>a b. tag_declares st axis a \<longrightarrow> tag_declares st axis b \<longrightarrow>
     (a, b) \<in> (onto_rel ops st)\<^sup>* \<or> (b, a) \<in> (onto_rel ops st)\<^sup>*)"

lemma map_leD: "m \<subseteq>\<^sub>m m' \<Longrightarrow> m x = Some y \<Longrightarrow> m' x = Some y"
  by (auto simp: map_le_def dom_def)

lemma names_okD:
  assumes "names_ok ns ts"
  shows "bm_get ts i = Some d \<Longrightarrow> td_id d = i" and "bm_get ts i = Some d \<Longrightarrow> bm_get ns (td_name d) = Some i"
    and "bm_get ns n = Some i \<Longrightarrow> \<exists>d. bm_get ts i = Some d \<and> td_name d = n"
  using assms unfolding names_ok_def by blast+

lemma names_ok_register:
  assumes "names_ok ns ts" and "bm_get ns (td_name d) = None" and "bm_get ts i = None"
  shows "names_ok (bm_insert (td_name d) i ns) (bm_insert i (d\<lparr>td_id := i\<rparr>) ts)"
proof -
  have wf: "bm_wf ns" "bm_wf ts" using assms(1) by (simp_all add: names_ok_def)
  note g = bm_get_insert [OF wf(1)] bm_get_insert [OF wf(2)]
  show ?thesis
    unfolding names_ok_def g
  proof (intro conjI allI impI)
    fix j e assume e: "((bm_get ts)(i \<mapsto> d\<lparr>td_id := i\<rparr>)) j = Some e"
    show "td_id e = j" "((bm_get ns)(td_name d \<mapsto> i)) (td_name e) = Some j"
      using e assms(2,3) names_okD(1,2) [OF assms(1), of j e] by (auto split: if_splits)
  next
    fix n j assume n: "((bm_get ns)(td_name d \<mapsto> i)) n = Some j"
    show "\<exists>e. ((bm_get ts)(i \<mapsto> d\<lparr>td_id := i\<rparr>)) j = Some e \<and> td_name e = n"
    proof (cases "n = td_name d")
      case False
      then obtain e where "bm_get ts j = Some e" "td_name e = n" using n names_okD(3) [OF assms(1), of n j] by auto
      then show ?thesis using assms(3) by (intro exI [of _ e]) auto
    qed (use n in auto)
  qed (use wf in \<open>simp_all add: bm_wf_insert\<close>)
qed

lemma names_ok_update:
  assumes "names_ok ns ts" and "bm_get ts i = Some d" and "td_name d' = td_name d" and "td_id d' = td_id d"
  shows "names_ok ns (bm_insert i d' ts)"
proof -
  have wf: "bm_wf ns" "bm_wf ts" using assms(1) by (simp_all add: names_ok_def)
  show ?thesis
    unfolding names_ok_def bm_get_insert [OF wf(2)]
  proof (intro conjI allI impI)
    fix j e assume e: "((bm_get ts)(i \<mapsto> d')) j = Some e"
    show "td_id e = j" "bm_get ns (td_name e) = Some j"
      using e assms(2-4) names_okD(1,2) [OF assms(1), of j] by (auto split: if_splits)
  next
    fix n j assume n: "bm_get ns n = Some j"
    then obtain e where "bm_get ts j = Some e" "td_name e = n" using names_okD(3) [OF assms(1)] by blast
    then show "\<exists>e. ((bm_get ts)(i \<mapsto> d')) j = Some e \<and> td_name e = n" using assms(2,3) by (cases "j = i") auto
  qed (use wf in \<open>simp_all add: bm_wf_insert\<close>)
qed

lemma names_ok_remove:
  assumes "names_ok ns ts" and "bm_get ts i = Some d"
  shows "names_ok (bm_remove (td_name d) ns) (bm_remove i ts)"
proof -
  have wf: "bm_wf ns" "bm_wf ts" using assms(1) by (simp_all add: names_ok_def)
  show ?thesis
    unfolding names_ok_def bm_get_remove [OF wf(1)] bm_get_remove [OF wf(2)]
  proof (intro conjI allI impI)
    fix j e assume e: "((bm_get ts)(i := None)) j = Some e"
    show "td_id e = j" "((bm_get ns)(td_name d := None)) (td_name e) = Some j"
      using e assms(2) names_okD(1,2) [OF assms(1), of j e] names_okD(2) [OF assms(1,2)] by (auto split: if_splits)
  next
    fix n j assume n: "((bm_get ns)(td_name d := None)) n = Some j"
    then obtain e where "bm_get ts j = Some e" "td_name e = n" "n \<noteq> td_name d"
      using names_okD(3) [OF assms(1), of n j] by (auto split: if_splits)
    then show "\<exists>e. ((bm_get ts)(i := None)) j = Some e \<and> td_name e = n" using assms(2) by auto
  qed (use wf in \<open>simp_all add: bm_wf_remove\<close>)
qed

lemma same_decls_refl [simp]: "same_decls st st"
  by (simp add: same_decls_def)

lemma same_decls_trans: "same_decls a b \<Longrightarrow> same_decls b c \<Longrightarrow> same_decls a c"
  by (simp add: same_decls_def)

lemma same_decls_declares: "same_decls a b \<Longrightarrow> tag_declares b axis t = tag_declares a axis t"
  unfolding same_decls_def tag_declares_def declares_def
  by (drule conjunct2, drule spec [of _ t]) (auto split: option.splits)

section \<open>Install\<close>

context digraph
begin

lemma register_tag_inv:
  assumes inv: "onto_inv ops gwf st" and fresh: "name_of st (td_name d) = None" "tag_of st i = None"
  shows "onto_inv ops gwf (register_tag ops st i d)"
    and "tag_of (register_tag ops st i d) = (tag_of st)(i \<mapsto> d\<lparr>td_id := i\<rparr>)"
    and "name_of (register_tag ops st i d) = (name_of st)(td_name d \<mapsto> i)"
    and "onto_rel ops (register_tag ops st i d) = onto_rel ops st"
    and "os_modules (register_tag ops st i d) = os_modules st" and "os_relations (register_tag ops st i d) = os_relations st"
proof -
  have wf: "bm_wf (os_names st)" "bm_wf (os_tags st)" using inv by (simp_all add: onto_inv_def names_ok_def)
  have di: "dag_inv ops gwf (os_dag st)" using inv by (simp add: onto_inv_def)
  show t: "tag_of (register_tag ops st i d) = (tag_of st)(i \<mapsto> d\<lparr>td_id := i\<rparr>)"
    and "name_of (register_tag ops st i d) = (name_of st)(td_name d \<mapsto> i)"
    using wf by (simp_all add: register_tag_def bm_get_insert)
  show "onto_rel ops (register_tag ops st i d) = onto_rel ops st"
    using imp.add_spec [OF di] by (simp add: register_tag_def)
  show "onto_inv ops gwf (register_tag ops st i d)"
    using inv imp.add_spec [OF di, of i] names_ok_register [OF _ fresh] t
    by (simp add: onto_inv_def register_tag_def)
qed (simp_all add: register_tag_def)

lemma register_tags_inv:
  assumes "onto_inv ops gwf st" and "alloc_ok st a" and "register_tags ops st a defs = (ok (st', new, skipped), a')"
  shows "onto_inv ops gwf st' \<and> alloc_ok st' a' \<and> onto_rel ops st' = onto_rel ops st \<and> os_modules st' = os_modules st \<and>
    os_relations st' = os_relations st \<and> tag_of st \<subseteq>\<^sub>m tag_of st' \<and> name_of st \<subseteq>\<^sub>m name_of st' \<and>
    (\<forall>d\<in>set defs. name_of st' (td_name d) \<noteq> None) \<and> set new = dom (tag_of st') - dom (tag_of st)"
  using assms
proof (induction defs arbitrary: st a new skipped)
  case (Cons d defs)
  have wfn: "bm_wf (os_names st)" using Cons.prems(1) by (simp add: onto_inv_def names_ok_def)
  show ?case
  proof (cases "name_of st (td_name d)")
    case (Some i)
    obtain a1 where a1: "observe_id a i = (Inr a1 :: (ontology_error, id_allocator) res)"
      using Some Cons.prems(3) by (cases "observe_id a i :: (ontology_error, id_allocator) res") auto
    have ok1: "alloc_ok st a1"
    proof -
      have "ia_next a \<le> ia_next a1" using a1 by (auto simp: observe_id_def split: if_splits)
      then show ?thesis using Cons.prems(2) unfolding alloc_ok_def by (meson order_less_le_trans)
    qed
    obtain r a2 where r: "register_tags ops st a1 defs = (r, a2)" by fastforce
    obtain sk where "register_tags ops st a1 defs = (ok (st', new, sk), a')"
      using Cons.prems(3) Some a1 r by (auto simp: res_simps)
    note IH = Cons.IH [OF Cons.prems(1) ok1 this]
    have "name_of st' (td_name d) = Some i" using IH Some by (auto simp: map_le_def dom_def)
    then show ?thesis using IH by simp
  next
    case None
    obtain i a1 where a1: "next_id a = (Inr (i, a1) :: (ontology_error, tag_id \<times> id_allocator) res)"
      using None Cons.prems(3) by (cases "next_id a :: (ontology_error, tag_id \<times> id_allocator) res") auto
    then have i: "i = ia_next a" "ia_next a1 = Suc i" by (auto simp: next_id_def split: if_splits)
    have fr: "tag_of st i = None" using Cons.prems(2) i(1) by (auto simp: alloc_ok_def dom_def)
    note reg = register_tag_inv [OF Cons.prems(1) None fr]
    have ok1: "alloc_ok (register_tag ops st i d) a1"
      using Cons.prems(2) i reg(2) by (auto simp: alloc_ok_def less_Suc_eq)
    obtain r a2 where r: "register_tags ops (register_tag ops st i d) a1 defs = (r, a2)" by fastforce
    obtain new' where n: "register_tags ops (register_tag ops st i d) a1 defs = (ok (st', new', skipped), a')" "new = i # new'"
      using Cons.prems(3) None a1 r by (auto simp: res_simps)
    note IH = Cons.IH [OF reg(1) ok1 n(1)]
    have nm: "name_of st \<subseteq>\<^sub>m name_of (register_tag ops st i d)" and tm: "tag_of st \<subseteq>\<^sub>m tag_of (register_tag ops st i d)"
      using reg(2,3) None fr by (auto simp: map_le_def)
    have nle: "name_of (register_tag ops st i d) \<subseteq>\<^sub>m name_of st'" and tle: "tag_of (register_tag ops st i d) \<subseteq>\<^sub>m tag_of st'"
      using IH by simp_all
    have "name_of st' (td_name d) = Some i" using map_leD [OF nle, of "td_name d" i] reg(3) by simp
    moreover have "i \<in> dom (tag_of st')" using map_leD [OF tle, of i] reg(2) by auto
    moreover have "dom (tag_of (register_tag ops st i d)) = insert i (dom (tag_of st))" "i \<notin> dom (tag_of st)"
      using reg(2) fr by auto
    ultimately show ?thesis
      using IH reg(4-6) n(2) map_le_trans [OF nm nle] map_le_trans [OF tm tle] by auto
  qed
qed auto

end


context digraph
begin

lemma push_implies_inv:
  assumes "onto_inv ops gwf st"
  shows "onto_inv ops gwf (push_implies a b st)" and "same_decls st (push_implies a b st)"
    and "os_dag (push_implies a b st) = os_dag st" and "os_modules (push_implies a b st) = os_modules st"
    and "os_relations (push_implies a b st) = os_relations st" and "dom (tag_of (push_implies a b st)) = dom (tag_of st)"
proof -
  have ok: "names_ok (os_names st) (os_tags st)" and wf: "bm_wf (os_tags st)"
    using assms by (simp_all add: onto_inv_def names_ok_def)
  show i: "dom (tag_of (push_implies a b st)) = dom (tag_of st)"
    using bm_get_insert [OF wf] by (auto simp: push_implies_def split: option.splits)
  show "same_decls st (push_implies a b st)"
    using bm_get_insert [OF wf] by (auto simp: push_implies_def same_decls_def split: option.splits)
  have "names_ok (os_names st) (os_tags (push_implies a b st))"
    using names_ok_update [OF ok] ok by (auto simp: push_implies_def split: option.splits)
  then show "onto_inv ops gwf (push_implies a b st)"
    using assms i by (auto simp: onto_inv_def push_implies_def split: option.splits)
qed (auto simp: push_implies_def split: option.splits)

lemma resolve_name_eq: "resolve_name st n = ok i \<longleftrightarrow> name_of st n = Some i"
  by (auto simp: resolve_name_def split: option.splits)

lemma onto_inv_dag:
  assumes "onto_inv ops gwf st" and "dag_inv ops gwf d" and "dag_dom d = dag_dom (os_dag st)"
  shows "onto_inv ops gwf (st\<lparr>os_dag := d\<rparr>)"
  using assms by (simp add: onto_inv_def)

lemma install_implications_inv:
  assumes "onto_inv ops gwf st" and "install_implications ops st is = ok (st', added)"
  shows "onto_inv ops gwf st' \<and> same_decls st st' \<and> dom (tag_of st') = dom (tag_of st) \<and>
    os_modules st' = os_modules st \<and> os_relations st' = os_relations st \<and> onto_rel ops st' = onto_rel ops st \<union> set added \<and>
    map (map_prod (name_of st) (name_of st)) is = map (map_prod Some Some) added"
  using assms
proof (induction "is" arbitrary: st added)
  case (Cons e "is")
  obtain f t where e: "e = (f, t)" by fastforce
  obtain a b where ab: "name_of st f = Some a" "name_of st t = Some b"
    using Cons.prems(2) e by (auto simp: res_simps resolve_name_eq)
  obtain d added' where d: "add_implication ops (os_dag st) a b = (ok (), d)"
      "install_implications ops (push_implies a b (st\<lparr>os_dag := d\<rparr>)) is = ok (st', added')" "added = (a, b) # added'"
    using Cons.prems(2) e ab by (auto simp: res_simps resolve_name_def split: sum.splits prod.splits)
  have di: "dag_inv ops gwf (os_dag st)" using Cons.prems(1) by (simp add: onto_inv_def)
  have known: "a \<in> dag_dom (os_dag st)" "b \<in> dag_dom (os_dag st)"
    using Cons.prems(1) ab names_okD(3) unfolding onto_inv_def by blast+
  have d1: "dag_inv ops gwf d" "dag_dom d = dag_dom (os_dag st)" "dag_rel ops d = insert (a, b) (onto_rel ops st)"
    by (rule imply_cases [OF di known]; use d(1) in simp)+
  note p = push_implies_inv [OF onto_inv_dag [OF Cons.prems(1) d1(1,2)], of a b]
  have sd: "same_decls st (push_implies a b (st\<lparr>os_dag := d\<rparr>))" using p(2) by (simp add: same_decls_def)
  note IH = Cons.IH [OF p(1) d(2)]
  have nm: "name_of (push_implies a b (st\<lparr>os_dag := d\<rparr>)) = name_of st" using sd by (simp add: same_decls_def)
  show ?case using IH same_decls_trans [OF sd] p(3-6) d1(3) d(3) e ab nm by auto
qed simp

lemma install_relations_inv:
  assumes "onto_inv ops gwf st" and "install_relations st rs = ok (st', added)"
  shows "onto_inv ops gwf st' \<and> os_tags st' = os_tags st \<and> os_names st' = os_names st \<and> os_dag st' = os_dag st \<and>
    os_modules st' = os_modules st \<and> set (os_relations st') = set (os_relations st) \<union> set added"
  using assms
proof (induction rs arbitrary: st added)
  case (Cons r rs)
  obtain f k t where r: "r = (f, k, t)" by (metis prod_cases3)
  obtain a b added' where ab: "name_of st f = Some a" "name_of st t = Some b" "added = (a, k, b) # added'"
      "install_relations (if (a, k, b) \<in> set (os_relations st) then st else st\<lparr>os_relations := os_relations st @ [(a, k, b)]\<rparr>) rs =
        ok (st', added')"
    using Cons.prems(2) r by (auto simp: res_simps resolve_name_eq Let_def split: if_splits)
  let ?st = "if (a, k, b) \<in> set (os_relations st) then st else st\<lparr>os_relations := os_relations st @ [(a, k, b)]\<rparr>"
  have "onto_inv ops gwf ?st" using Cons.prems(1) by (simp add: onto_inv_def)
  from Cons.IH [OF this ab(4)] ab(3) show ?case by (auto split: if_splits)
qed simp

lemma is_a_await:
  assumes "onto_inv ops gwf st"
  shows "await (is_a ops (os_dag st) a b) = ok (tag_of st a \<noteq> None \<and> (a, b) \<in> (onto_rel ops st)\<^sup>*)"
  using assms imp.isa_spec [of "os_dag st" a b] by (auto simp: onto_inv_def await_def)

lemma check_axis_against_iff:
  assumes inv: "onto_inv ops gwf st" and "tag_of st a \<noteq> None" and "\<forall>b\<in>set bs. tag_of st b \<noteq> None"
  shows "check_axis_against ops st axis a bs = ok () \<longleftrightarrow>
      (\<forall>b\<in>set bs. (a, b) \<in> (onto_rel ops st)\<^sup>* \<or> (b, a) \<in> (onto_rel ops st)\<^sup>*)"
    and "check_axis_against ops st axis a bs \<noteq> Inl Panic"
  using assms(3) by (induction bs) (use assms(2) in \<open>auto simp: is_a_await [OF inv]\<close>)

lemma check_axis_pairs_iff:
  assumes inv: "onto_inv ops gwf st" and "\<forall>b\<in>set bs. tag_of st b \<noteq> None"
  shows "(check_axis_pairs ops st axis bs = ok () \<longleftrightarrow>
      (\<forall>a\<in>set bs. \<forall>b\<in>set bs. (a, b) \<in> (onto_rel ops st)\<^sup>* \<or> (b, a) \<in> (onto_rel ops st)\<^sup>*)) \<and>
    check_axis_pairs ops st axis bs \<noteq> Inl Panic"
  using assms(2)
proof (induction bs)
  case (Cons a bs)
  have "tag_of st a \<noteq> None" "\<forall>b\<in>set bs. tag_of st b \<noteq> None" using Cons.prems by auto
  note c = check_axis_against_iff [OF inv this, of axis]
  show ?case using Cons c by (cases "check_axis_against ops st axis a bs") auto
qed simp

lemma declaring_set: "bm_wf (os_tags st) \<Longrightarrow> set (declaring_tags st axis) = {t. tag_declares st axis t}"
  using bm_get_mem [of "os_tags st"]
  by (force simp: declaring_tags_def tag_declares_def image_iff split: option.splits)

lemma check_axis_invariant_iff:
  assumes inv: "onto_inv ops gwf st"
  shows "check_axis_invariant ops st = ok () \<longleftrightarrow> (\<forall>axis. axis_chain ops st axis)"
proof -
  have wf: "bm_wf (os_tags st)" using inv by (simp add: onto_inv_def names_ok_def)
  have "\<forall>b\<in>set (declaring_tags st axis). tag_of st b \<noteq> None" for axis
    using declaring_set [OF wf] by (auto simp: tag_declares_def split: option.splits)
  note c = check_axis_pairs_iff [OF inv this]
  have one: "check_axis_pairs ops st axis (declaring_tags st axis) = ok () \<longleftrightarrow> axis_chain ops st axis" for axis
    using c [of axis] declaring_set [OF wf, of axis] by (simp add: axis_chain_def)
  have all: "(\<forall>axis. P axis) \<longleftrightarrow> P Chunking \<and> P Compression \<and> P Encryption" for P
    by (metis storage_axis.exhaust)
  show ?thesis unfolding all check_axis_invariant_def one [symmetric] by (auto simp: rbind_def split: sum.splits)
qed

end


section \<open>Runs of the registry\<close>

text \<open>The allocator given to an install has issued every id in use, as the engine's callers ensure.\<close>

inductive onto_reach :: "'g pg_ops \<Rightarrow> 'g ontology_state \<Rightarrow> bool" for ops where
  onto_start: "onto_reach ops (ontology_new ops)"
| onto_install: "onto_reach ops st \<Longrightarrow> alloc_ok st alloc \<Longrightarrow> install ops st m alloc = (r, st', alloc') \<Longrightarrow> onto_reach ops st'"
| onto_upgrade: "onto_reach ops st \<Longrightarrow> upgrade ops st m = (r, st') \<Longrightarrow> onto_reach ops st'"
| onto_scrub: "onto_reach ops st \<Longrightarrow> scrub ops st m = ok (n, st') \<Longrightarrow> onto_reach ops st'"

text \<open>What a successful install has done.\<close>

definition installed ::
  "'g pg_ops \<Rightarrow> 'g ontology_state \<Rightarrow> ontology_module \<Rightarrow> install_result \<Rightarrow> 'g ontology_state \<Rightarrow> bool" where
  "installed ops st m res st' \<longleftrightarrow>
     (\<forall>axis. axis_chain ops st' axis) \<and> name_of st \<subseteq>\<^sub>m name_of st' \<and> onto_rel ops st \<subseteq> onto_rel ops st' \<and>
     (\<forall>d\<in>set (om_tags m). name_of st' (td_name d) \<noteq> None) \<and>
     (\<forall>(f, t)\<in>set (om_implications m). \<exists>a b. name_of st' f = Some a \<and> name_of st' t = Some b \<and> (a, b) \<in> onto_rel ops st') \<and>
     ir_module_id res = om_id m \<and>
     (\<exists>rec. os_modules st' = bm_insert (om_id m) rec (os_modules st) \<and> mr_id rec = om_id m \<and>
       set (mr_installed_tags rec) = dom (tag_of st') - dom (tag_of st))"

context digraph
begin

lemma onto_inv_new: "onto_inv ops gwf (ontology_new ops)"
  using imp.new_spec btm.lookup_empty by (simp add: onto_inv_def ontology_new_def names_ok_def dom_def)

lemma onto_inv_modules:
  "onto_inv ops gwf st \<Longrightarrow> mr_id rec = m \<Longrightarrow> onto_inv ops gwf (st\<lparr>os_modules := bm_insert m rec (os_modules st)\<rparr>)"
  by (auto simp: onto_inv_def bm_wf_insert bm_get_insert)

lemma onto_inv_modules_remove:
  "onto_inv ops gwf st \<Longrightarrow> onto_inv ops gwf (st\<lparr>os_modules := bm_remove m (os_modules st)\<rparr>)"
  by (auto simp: onto_inv_def bm_wf_remove bm_get_remove)

lemma install_inner_inv:
  assumes inv: "onto_inv ops gwf st" and al: "alloc_ok st alloc" and i: "install_inner ops st m alloc = (ok (res, st'), alloc')"
  shows "onto_inv ops gwf st' \<and> installed ops st m res st'"
proof -
  obtain st1 new sk st2 imps st3 rels where s:
      "register_tags ops st alloc (om_tags m) = (ok (st1, new, sk), alloc')"
      "install_implications ops st1 (om_implications m) = ok (st2, imps)"
      "install_relations st2 (om_relations m) = ok (st3, rels)" "check_axis_invariant ops st3 = ok ()"
      "ir_module_id res = om_id m"
      "st' = st3\<lparr>os_modules := bm_insert (om_id m) (module_record_of m new imps rels) (os_modules st3)\<rparr>"
    using i by (auto simp: install_inner_def res_simps split: prod.splits)
  have rec: "mr_id (module_record_of m new imps rels) = om_id m" "mr_installed_tags (module_record_of m new imps rels) = new"
    by (simp_all add: module_record_of_def)
  note r1 = register_tags_inv [OF inv al s(1)]
  have inv1: "onto_inv ops gwf st1" using r1 by simp
  note r2 = install_implications_inv [OF inv1 s(2)]
  have inv2: "onto_inv ops gwf st2" using r2 by simp
  note r3 = install_relations_inv [OF inv2 s(3)]
  have inv3: "onto_inv ops gwf st3" using r3 by simp
  have chain3: "axis_chain ops st3 axis" for axis using check_axis_invariant_iff [OF inv3] s(4) by simp
  have nm: "name_of st' = name_of st1" using r2 r3 s(6) by (simp add: same_decls_def)
  have dm: "dom (tag_of st') = dom (tag_of st1)" using r2 r3 s(6) by simp
  have rel: "onto_rel ops st' = onto_rel ops st \<union> set imps" using r1 r2 r3 s(6) by simp
  have imp: "\<exists>a b. name_of st' f = Some a \<and> name_of st' t = Some b \<and> (a, b) \<in> onto_rel ops st'"
    if "(f, t) \<in> set (om_implications m)" for f t
  proof -
    have "map_prod (name_of st1) (name_of st1) (f, t) \<in> set (map (map_prod Some Some) imps)"
      using r2 that by (metis (no_types, lifting) image_eqI list.set_map)
    then show ?thesis using nm rel by auto
  qed
  have "installed ops st m res st'"
    unfolding installed_def
  proof (intro conjI exI [of _ "module_record_of m new imps rels"])
    show "\<forall>axis. axis_chain ops st' axis" using chain3 s(6) by (simp add: axis_chain_def tag_declares_def)
    show "\<forall>d\<in>set (om_tags m). name_of st' (td_name d) \<noteq> None" using r1 nm by simp
    show "set (mr_installed_tags (module_record_of m new imps rels)) = dom (tag_of st') - dom (tag_of st)"
      using r1 dm rec(2) by simp
    show "\<forall>(f, t)\<in>set (om_implications m). \<exists>a b. name_of st' f = Some a \<and> name_of st' t = Some b \<and> (a, b) \<in> onto_rel ops st'"
      using imp by blast
  qed (use r1 r2 r3 s(5,6) nm rel rec(1) in simp_all)
  then show ?thesis using onto_inv_modules [OF inv3 rec(1)] s(6) by simp
qed

lemma install_inv:
  assumes "onto_inv ops gwf st" and "alloc_ok st alloc" and "install ops st m alloc = (r, st', alloc')"
  shows "onto_inv ops gwf st'" and "r = ok res \<Longrightarrow> installed ops st m res st'" and "r = Inl e \<Longrightarrow> st' = st"
  using assms install_inner_inv [OF assms(1,2)]
  by (auto simp: install_def split: if_splits prod.splits sum.splits)

lemma tag_le_max:
  assumes "onto_inv ops gwf st" and "i \<in> dom (tag_of st)"
  shows "os_tags st \<noteq> []" and "i \<le> fold max (map fst (os_tags st)) 0"
proof -
  have "bm_wf (os_tags st)" using assms(1) by (simp add: onto_inv_def names_ok_def)
  then have "i \<in> set (map fst (os_tags st))" using assms(2) bm_get_mem [of "os_tags st" i] by (auto simp: image_iff) force
  then show "os_tags st \<noteq> []" "i \<le> fold max (map fst (os_tags st)) 0" by (auto simp: fold_max_ge(2) [of i])
qed

lemma fresh_alloc_ok:
  assumes "onto_inv ops gwf st" and "fresh_allocator st = ok a"
  shows "alloc_ok st a"
  unfolding alloc_ok_def
proof
  fix i assume i: "i \<in> dom (tag_of st)"
  then have "ia_next a = max (fold max (map fst (os_tags st)) 0 + 1) 1"
    using assms(2) tag_le_max(1) [OF assms(1)] by (auto simp: fresh_allocator_def starting_at_def Let_def split: if_splits)
  then show "i < ia_next a" using tag_le_max(2) [OF assms(1) i] by simp
qed

lemma upgrade_inv:
  assumes inv: "onto_inv ops gwf st" and u: "upgrade ops st m = (r, st')"
  shows "onto_inv ops gwf st'"
proof (cases "upgrade_inner ops st m")
  case (Inl e)
  then show ?thesis using u inv by (simp add: upgrade_def)
next
  case (Inr p)
  let ?st0 = "st\<lparr>os_modules := bm_remove (om_id m) (os_modules st)\<rparr>"
  obtain res where p: "p = (res, st')" using u Inr by (cases p) (simp add: upgrade_def)
  obtain prev alloc res0 st1 rec where s: "fresh_allocator st = (ok alloc :: (ontology_error, id_allocator) res)"
      "fst (install_inner ops ?st0 m alloc) = ok (res0, st1)" "bm_get (os_modules st1) (ir_module_id res0) = Some rec"
      "st' = st1\<lparr>os_modules := bm_insert (ir_module_id res0) (carry_over prev rec) (os_modules st1)\<rparr>"
    using Inr p by (auto simp: upgrade_inner_def res_simps split: option.splits)
  have al: "alloc_ok ?st0 alloc" using fresh_alloc_ok [OF inv s(1)] by (simp add: alloc_ok_def)
  obtain alloc' where "install_inner ops ?st0 m alloc = (ok (res0, st1), alloc')" using s(2) by (metis prod.collapse)
  from install_inner_inv [OF onto_inv_modules_remove [OF inv] al this] have i: "onto_inv ops gwf st1" by simp
  have "mr_id (carry_over prev rec) = ir_module_id res0" using i s(3) by (simp add: onto_inv_def carry_over_def)
  then show ?thesis using onto_inv_modules [OF i, of "carry_over prev rec" "ir_module_id res0"] s(4) by simp
qed

lemma scrub_implication_inv:
  fixes e :: "tag_id \<times> tag_id"
  assumes inv: "onto_inv ops gwf st"
  defines "st' \<equiv> scrub_implication ops e st"
  shows "onto_inv ops gwf st' \<and> same_decls st st' \<and> dom (tag_of st') = dom (tag_of st) \<and>
    os_modules st' = os_modules st \<and> os_relations st' = os_relations st \<and> onto_rel ops st' = onto_rel ops st - {e}"
proof -
  obtain a b where e: "e = (a, b)" by fastforce
  let ?st = "st\<lparr>os_dag := remove_implication ops (os_dag st) a b\<rparr>"
  have di: "dag_inv ops gwf (os_dag st)" using inv by (simp add: onto_inv_def)
  have i: "onto_inv ops gwf ?st" and r: "onto_rel ops ?st = onto_rel ops st - {e}"
    using imp.unimply_spec [OF di] e by (auto intro!: onto_inv_dag [OF inv])
  have ok: "names_ok (os_names st) (os_tags st)" and wf: "bm_wf (os_tags st)"
    using inv by (simp_all add: onto_inv_def names_ok_def)
  show ?thesis
  proof (cases "tag_of st a")
    case None
    then show ?thesis using i r e by (simp add: st'_def scrub_implication_def same_decls_def)
  next
    case (Some d)
    note n = names_ok_update [OF ok Some, of "d\<lparr>td_implies := filter (\<lambda>t. t \<noteq> b) (td_implies d)\<rparr>"]
    show ?thesis using i r e Some n bm_get_insert [OF wf]
      by (auto simp: st'_def scrub_implication_def same_decls_def onto_inv_def)
  qed
qed

lemma scrub_implications_inv:
  fixes es :: "(tag_id \<times> tag_id) list" and S :: "(tag_id \<times> tag_id) set"
  assumes "onto_inv ops gwf st"
  defines "st' \<equiv> fold (\<lambda>e st. if e \<in> S then st else scrub_implication ops e st) es st"
  shows "onto_inv ops gwf st' \<and> same_decls st st' \<and> dom (tag_of st') = dom (tag_of st) \<and>
    os_modules st' = os_modules st \<and> os_relations st' = os_relations st \<and> onto_rel ops st' = onto_rel ops st - (set es - S)"
  using assms(1) unfolding st'_def
proof (induction es arbitrary: st)
  case (Cons e es)
  let ?st = "if e \<in> S then st else scrub_implication ops e st"
  have i: "onto_inv ops gwf ?st" "same_decls st ?st" "dom (tag_of ?st) = dom (tag_of st)" "os_modules ?st = os_modules st"
      "os_relations ?st = os_relations st" "onto_rel ops ?st = onto_rel ops st - ({e} - S)"
    using Cons.prems scrub_implication_inv [OF Cons.prems, of e] by auto
  have "set (e # es) - S = ({e} - S) \<union> (set es - S)" by auto
  then show ?case using Cons.IH [OF i(1)] same_decls_trans [OF i(2)] i(3-6) by (simp add: Diff_eq) blast
qed simp

lemma scrub_tag_inv:
  fixes t :: tag_id
  assumes inv: "onto_inv ops gwf st"
  defines "st' \<equiv> scrub_tag ops t st"
  shows "onto_inv ops gwf st' \<and> tag_of st' = (tag_of st)(t := None) \<and> os_modules st' = os_modules st \<and>
    os_relations st' = os_relations st \<and> onto_rel ops st' = {(a, b) \<in> onto_rel ops st. a \<noteq> t \<and> b \<noteq> t}"
proof -
  have di: "dag_inv ops gwf (os_dag st)" and dd: "dag_dom (os_dag st) = dom (tag_of st)"
    using inv by (simp_all add: onto_inv_def)
  have ok: "names_ok (os_names st) (os_tags st)" and wf: "bm_wf (os_tags st)"
    using inv by (simp_all add: onto_inv_def names_ok_def)
  note d = imp.del_spec [OF di, of t]
  show ?thesis
  proof (cases "tag_of st t")
    case None
    then show ?thesis
      using inv d dd by (auto simp: st'_def scrub_tag_def onto_inv_def fun_upd_idem)
  next
    case (Some e)
    then show ?thesis
      using inv d dd names_ok_remove [OF ok Some] bm_get_remove [OF wf]
      by (auto simp: st'_def scrub_tag_def onto_inv_def)
  qed
qed

lemma scrub_tags_inv:
  fixes ts :: "tag_id list"
  assumes "onto_inv ops gwf st"
  defines "st' \<equiv> fold (scrub_tag ops) ts st"
  shows "onto_inv ops gwf st' \<and> tag_of st' = tag_of st |` (- set ts) \<and> os_modules st' = os_modules st \<and>
    os_relations st' = os_relations st \<and> onto_rel ops st' = {(a, b) \<in> onto_rel ops st. a \<notin> set ts \<and> b \<notin> set ts}"
  using assms(1) unfolding st'_def
proof (induction ts arbitrary: st)
  case (Cons t ts)
  note i = scrub_tag_inv [OF Cons.prems, of t]
  note IH = Cons.IH [of "scrub_tag ops t st"]
  have "tag_of (fold (scrub_tag ops) (t # ts) st) = tag_of st |` (- set (t # ts))"
    using IH i by (auto simp: restrict_map_def fun_eq_iff)
  then show ?case using IH i by auto
qed (simp add: restrict_map_def)

text \<open>What scrubbing a module has done: exactly what the module installed and no other module recorded is
  gone.\<close>

end

definition own_of :: "'g ontology_state \<Rightarrow> string \<Rightarrow> (module_record \<Rightarrow> 'a list) \<Rightarrow> 'a set" where
  "own_of st m sel = (case bm_get (os_modules st) m of None \<Rightarrow> {} | Some rec \<Rightarrow>
     {x \<in> set (sel rec). \<forall>m' r'. m' \<noteq> m \<longrightarrow> bm_get (os_modules st) m' = Some r' \<longrightarrow> x \<notin> set (sel r')})"

definition scrubbed :: "'g pg_ops \<Rightarrow> 'g ontology_state \<Rightarrow> string \<Rightarrow> 'g ontology_state \<Rightarrow> bool" where
  "scrubbed ops st m st' \<longleftrightarrow>
     dom (tag_of st') = dom (tag_of st) - own_of st m mr_installed_tags \<and>
     onto_rel ops st' = {(a, b) \<in> onto_rel ops st - own_of st m mr_installed_implications.
       a \<notin> own_of st m mr_installed_tags \<and> b \<notin> own_of st m mr_installed_tags} \<and>
     set (os_relations st') = set (os_relations st) - own_of st m mr_installed_relations \<and>
     os_modules st' = bm_remove m (os_modules st)"

lemma own_of_remove:
  assumes "bm_wf (os_modules st)" and "bm_get (os_modules st) m = Some rec"
  shows "own_of st m sel = set (sel rec) - \<Union> (set (map (set \<circ> sel) (map snd (bm_remove m (os_modules st)))))"
proof -
  let ?ms = "bm_remove m (os_modules st)"
  have wf: "bm_wf ?ms" by (rule bm_wf_remove [OF assms(1)])
  have mem: "set (map snd ?ms) = {r'. \<exists>m'. m' \<noteq> m \<and> bm_get (os_modules st) m' = Some r'}"
  proof -
    have "set (map snd ?ms) = {r'. \<exists>m'. (m', r') \<in> set ?ms}" by force
    then show ?thesis unfolding bm_get_mem [OF wf] bm_get_remove [OF assms(1)] by (auto split: if_splits)
  qed
  show ?thesis unfolding own_of_def set_map [of "set \<circ> sel"] mem using assms(2) by auto
qed

lemma filter_fold_set:
  "fold (\<lambda>e st. if e \<in> S then st else st\<lparr>os_relations := filter (\<lambda>x. x \<noteq> e) (os_relations st)\<rparr>) es st =
     st\<lparr>os_relations := filter (\<lambda>x. x \<notin> set es - S) (os_relations st)\<rparr>"
  by (induction es arbitrary: st) (auto simp: conj_commute intro!: arg_cong [of _ _ "\<lambda>r. _\<lparr>os_relations := r\<rparr>"] filter_cong)

context digraph
begin

lemma onto_inv_relations: "onto_inv ops gwf st \<Longrightarrow> onto_inv ops gwf (st\<lparr>os_relations := r\<rparr>)"
  by (simp add: onto_inv_def)

lemma scrub_inv:
  assumes inv: "onto_inv ops gwf st" and s: "scrub ops st m = ok (n, st')"
  shows "onto_inv ops gwf st' \<and> scrubbed ops st m st'"
proof -
  have wf: "bm_wf (os_modules st)" using inv by (simp add: onto_inv_def)
  obtain rec where rec: "bm_get (os_modules st) m = Some rec" using s by (auto simp: scrub_def split: option.splits)
  note own = own_of_remove [OF wf rec]
  let ?sh = "\<lambda>sel. \<Union> (set (map (set \<circ> sel) (map snd (bm_remove m (os_modules st)))))"
  define st1 where "st1 = fold (\<lambda>e st. if e \<in> ?sh mr_installed_implications then st else scrub_implication ops e st)
    (mr_installed_implications rec) (st\<lparr>os_modules := bm_remove m (os_modules st)\<rparr>)"
  define st2 where "st2 = st1\<lparr>os_relations := filter (\<lambda>x. x \<notin> own_of st m mr_installed_relations) (os_relations st1)\<rparr>"
  define gone where "gone = filter (\<lambda>t. t \<notin> ?sh mr_installed_tags) (mr_installed_tags rec)"
  have st': "st' = fold (scrub_tag ops) gone st2"
    using s rec by (simp add: scrub_def Let_def filter_fold_set st1_def st2_def gone_def own [of mr_installed_relations])
  have g: "set gone = own_of st m mr_installed_tags" by (auto simp: gone_def own)
  note i1 = scrub_implications_inv [OF onto_inv_modules_remove [OF inv, of m],
      where S = "?sh mr_installed_implications" and es = "mr_installed_implications rec", folded st1_def, folded own]
  have i2: "onto_inv ops gwf st2" using onto_inv_relations i1 unfolding st2_def by blast
  note i3 = scrub_tags_inv [OF i2, of gone, folded st', unfolded g]
  have "dom (tag_of st') = dom (tag_of st) - own_of st m mr_installed_tags"
    using i1 i3 by (simp add: st2_def) blast
  then show ?thesis using i1 i3 by (auto simp: scrubbed_def st2_def)
qed

lemma onto_new_inv: "onto_inv ops gwf (ontology_new ops)"
  using imp.new_spec by (simp add: onto_inv_def ontology_new_def names_ok_def bm_wf_def fun_eq_iff dom_def)

lemma onto_reach_inv: "onto_reach ops st \<Longrightarrow> onto_inv ops gwf st"
proof (induction rule: onto_reach.induct)
  case (onto_install st alloc m r st' alloc')
  then show ?case using install_inv(1) by blast
next
  case (onto_upgrade st m r st')
  then show ?case using upgrade_inv by blast
next
  case (onto_scrub st m n st')
  then show ?case using scrub_inv by blast
qed (rule onto_new_inv)

end

section \<open>Policy resolution\<close>

text \<open>The tags an object has once implications are followed, and the tag of them that decides an axis.\<close>

definition onto_closure :: "'g pg_ops \<Rightarrow> 'g ontology_state \<Rightarrow> tag_id list \<Rightarrow> tag_id set" where
  "onto_closure ops st ts = (onto_rel ops st)\<^sup>* `` (set ts \<inter> dom (tag_of st))"

definition decides :: "'g pg_ops \<Rightarrow> 'g ontology_state \<Rightarrow> storage_axis \<Rightarrow> tag_id set \<Rightarrow> tag_id \<Rightarrow> bool" where
  "decides ops st axis ts t \<longleftrightarrow> t \<in> ts \<and> tag_declares st axis t \<and>
     (\<forall>u\<in>ts. tag_declares st axis u \<longrightarrow> (t, u) \<in> (onto_rel ops st)\<^sup>*)"

context digraph
begin

lemma dominated_eq:
  assumes inv: "onto_inv ops gwf st"
  shows "dominated ops st c ts = ok (\<exists>t\<in>set ts. t \<noteq> c \<and> tag_of st t \<noteq> None \<and> (t, c) \<in> (onto_rel ops st)\<^sup>*)"
  by (induction ts) (auto simp: is_a_await [OF inv])

lemma first_undominated_eq:
  assumes inv: "onto_inv ops gwf st"
  shows "first_undominated ops st ds cs =
    ok (find (\<lambda>c. \<not> (\<exists>t\<in>set ds. t \<noteq> c \<and> tag_of st t \<noteq> None \<and> (t, c) \<in> (onto_rel ops st)\<^sup>*)) cs)"
  by (induction cs) (auto simp: dominated_eq [OF inv])

lemma onto_rel_wf: "onto_inv ops gwf st \<Longrightarrow> wf ((onto_rel ops st)\<^sup>+)"
proof -
  assume inv: "onto_inv ops gwf st"
  then have di: "dag_inv ops gwf (os_dag st)" by (simp add: onto_inv_def)
  have "finite (onto_rel ops st)"
    using imp.rel_tags [OF di] imp.tags_finite [OF di] by (metis finite_SigmaI finite_subset)
  then show ?thesis using imp.rel_acyclic [OF di] by (simp add: finite_acyclic_wf wf_trancl)
qed

lemma most_derived_spec:
  assumes inv: "onto_inv ops gwf st" and chain: "axis_chain ops st axis"
  shows "(\<exists>t. most_derived ops st axis ts = ok (Some t) \<and> decides ops st axis (set ts) t) \<or>
    (most_derived ops st axis ts = ok None \<and> (\<forall>u\<in>set ts. \<not> tag_declares st axis u))"
proof (cases "filter (tag_declares st axis) ts = []")
  case True
  then show ?thesis by (auto simp: most_derived_def filter_empty_conv)
next
  case False
  let ?ds = "filter (tag_declares st axis) ts"
  let ?P = "\<lambda>c. \<not> (\<exists>t\<in>set ?ds. t \<noteq> c \<and> tag_of st t \<noteq> None \<and> (t, c) \<in> (onto_rel ops st)\<^sup>*)"
  obtain c where c: "c \<in> set ?ds" "\<And>y. (y, c) \<in> (onto_rel ops st)\<^sup>+ \<Longrightarrow> y \<notin> set ?ds"
    using wfE_min [OF onto_rel_wf [OF inv], of "hd ?ds" "set ?ds"] hd_in_set [OF False] by metis
  have "?P c" using c(2) by (metis rtranclD)
  then have "find ?P ?ds \<noteq> None" unfolding find_None_iff using c(1) by blast
  then obtain t where t: "find ?P ?ds = Some t" by (rule not_None_eq [THEN iffD1, THEN exE])
  then obtain i where i: "i < length ?ds" "?P (?ds ! i)" "t = ?ds ! i" using find_Some_iff [THEN iffD1, OF t] by blast
  have u: "?P t" "t \<in> set ?ds" unfolding i(3) by (rule i(2), rule nth_mem [OF i(1)])
  have "(t, v) \<in> (onto_rel ops st)\<^sup>*" if "v \<in> set ?ds" for v
  proof -
    have "tag_of st v \<noteq> None" using that by (auto simp: tag_declares_def split: option.splits)
    moreover have "(t, v) \<in> (onto_rel ops st)\<^sup>* \<or> (v, t) \<in> (onto_rel ops st)\<^sup>*"
      using chain that u(2) by (auto simp: axis_chain_def)
    ultimately show ?thesis using u(1) that by (cases "v = t") auto
  qed
  then have "decides ops st axis (set ts) t" using u(2) by (simp add: decides_def)
  moreover have "most_derived ops st axis ts = ok (Some t)"
    using False t by (simp add: most_derived_def first_undominated_eq [OF inv])
  ultimately show ?thesis by blast
qed

end

definition axis_resolved ::
  "'g pg_ops \<Rightarrow> 'g ontology_state \<Rightarrow> storage_axis \<Rightarrow> (storage_policy \<Rightarrow> 'a option) \<Rightarrow> tag_id set \<Rightarrow> 'a option \<Rightarrow> 'a option \<Rightarrow> bool" where
  "axis_resolved ops st axis sel ts dflt v \<longleftrightarrow>
     (if \<exists>u\<in>ts. tag_declares st axis u
      then \<exists>!t. decides ops st axis ts t \<and> v = Option.bind (Option.bind (tag_of st t) td_storage) sel \<and> v \<noteq> None
      else v = dflt)"

lemma axis_resolvedD:
  assumes "axis_resolved ops st axis sel ts dflt v" and "u \<in> ts" and "tag_declares st axis u"
  shows "\<exists>t. decides ops st axis ts t \<and> v = Option.bind (Option.bind (tag_of st t) td_storage) sel"
proof -
  have "\<exists>u\<in>ts. tag_declares st axis u" using assms(2,3) by blast
  with assms(1) have "\<exists>!t. decides ops st axis ts t \<and> v = Option.bind (Option.bind (tag_of st t) td_storage) sel \<and> v \<noteq> None"
    by (simp only: axis_resolved_def if_True)
  then show ?thesis by (elim ex1E conjE) (intro exI conjI)
qed

context digraph
begin

lemma decides_unique:
  assumes inv: "onto_inv ops gwf st" and "decides ops st axis ts t" and "decides ops st axis ts u"
  shows "t = u"
proof -
  have "(t, u) \<in> (onto_rel ops st)\<^sup>*" "(u, t) \<in> (onto_rel ops st)\<^sup>*" using assms(2,3) by (auto simp: decides_def)
  moreover have "acyclic (onto_rel ops st)" using inv imp.rel_acyclic by (simp add: onto_inv_def)
  ultimately show ?thesis using acyclic_impl_antisym_rtrancl antisymD by metis
qed

lemma axis_value_spec:
  assumes inv: "onto_inv ops gwf st" and chain: "axis_chain ops st axis" and "\<And>p. axis_set axis p \<longleftrightarrow> sel p \<noteq> None"
  shows "\<exists>v. (axis_value ops st axis sel ts dflt :: ('e, 'a option) res) = ok v \<and> axis_resolved ops st axis sel (set ts) dflt v"
  using most_derived_spec [OF inv chain, of ts]
proof (elim disjE exE conjE)
  fix t assume t: "(most_derived ops st axis ts :: ('e, tag_id option) res) = ok (Some t)" "decides ops st axis (set ts) t"
  then obtain d p where d: "tag_of st t = Some d" "td_storage d = Some p" "sel p \<noteq> None"
    using assms(3) by (auto simp: decides_def tag_declares_def declares_def split: option.splits)
  then have "(axis_value ops st axis sel ts dflt :: ('e, 'a option) res) = ok (sel p)" using t(1) by (simp add: axis_value_def)
  moreover have "axis_resolved ops st axis sel (set ts) dflt (sel p)"
  proof -
    have "\<exists>u\<in>set ts. tag_declares st axis u" using t(2) by (auto simp: decides_def)
    moreover have "\<exists>!t. decides ops st axis (set ts) t \<and> sel p = Option.bind (Option.bind (tag_of st t) td_storage) sel \<and> sel p \<noteq> None"
      using t(2) d by (intro ex1I [of _ t]) (simp_all add: decides_unique [OF inv _ t(2)])
    ultimately show ?thesis by (simp only: axis_resolved_def if_True)
  qed
  ultimately show ?thesis by blast
next
  assume "(most_derived ops st axis ts :: ('e, tag_id option) res) = ok None" "\<forall>u\<in>set ts. \<not> tag_declares st axis u"
  then show ?thesis by (auto simp: axis_value_def axis_resolved_def)
qed

lemma state_materialise_spec:
  assumes inv: "onto_inv ops gwf st"
  shows "\<exists>ts. state_materialise ops st direct = Some ts \<and> sorted ts \<and> distinct ts \<and> set ts = onto_closure ops st direct"
proof -
  have di: "dag_inv ops gwf (os_dag st)" using inv by (simp add: onto_inv_def)
  let ?c = "(onto_rel ops st)\<^sup>* `` (set direct \<inter> dag_dom (os_dag st))"
  have "?c \<subseteq> dag_dom (os_dag st)"
  proof
    fix y assume "y \<in> ?c"
    then obtain x where "(x, y) \<in> (onto_rel ops st)\<^sup>*" "x \<in> dag_dom (os_dag st)" by blast
    then show "y \<in> dag_dom (os_dag st)" using imp.rel_tags [OF di] by (induction rule: rtrancl_induct) auto
  qed
  then have "finite ?c" using imp.tags_finite [OF di] finite_subset by blast
  then show ?thesis
    using imp.clos_spec [OF di, of direct] inv by (simp add: state_materialise_def onto_closure_def materialise_def onto_inv_def)
qed

lemma resolve_policy_spec:
  assumes inv: "onto_inv ops gwf st" and "\<forall>axis. axis_chain ops st axis"
  shows "\<exists>p. (resolve_policy ops st tags dflt :: ('e, storage_policy) res) = ok p \<and>
    axis_resolved ops st Chunking sp_chunking (onto_closure ops st tags) (sp_chunking dflt) (sp_chunking p) \<and>
    axis_resolved ops st Compression sp_compression (onto_closure ops st tags) (sp_compression dflt) (sp_compression p) \<and>
    axis_resolved ops st Encryption sp_encryption (onto_closure ops st tags) (sp_encryption dflt) (sp_encryption p)"
proof -
  obtain ts where ts: "state_materialise ops st tags = Some ts" "set ts = onto_closure ops st tags"
    using state_materialise_spec [OF inv] by blast
  note v = axis_value_spec [OF inv, of _ _ ts]
  obtain c where c: "(axis_value ops st Chunking sp_chunking ts (sp_chunking dflt) :: ('e, _) res) = ok c"
      "axis_resolved ops st Chunking sp_chunking (set ts) (sp_chunking dflt) c" using v assms(2) by (metis axis_set.simps(1))
  obtain z where z: "(axis_value ops st Compression sp_compression ts (sp_compression dflt) :: ('e, _) res) = ok z"
      "axis_resolved ops st Compression sp_compression (set ts) (sp_compression dflt) z" using v assms(2) by (metis axis_set.simps(2))
  obtain e where e: "(axis_value ops st Encryption sp_encryption ts (sp_encryption dflt) :: ('e, _) res) = ok e"
      "axis_resolved ops st Encryption sp_encryption (set ts) (sp_encryption dflt) e" using v assms(2) by (metis axis_set.simps(3))
  show ?thesis using ts c z e by (simp add: resolve_policy_def await_def)
qed

end

section \<open>The image\<close>

lemma map_eqI: "(\<And>k v. m k = Some v \<longleftrightarrow> m' k = Some v) \<Longrightarrow> m = m'"
  by (rule ext) (metis not_None_eq)

lemma fold_insert_get:
  fixes g :: "'x \<Rightarrow> 'v" and f :: "'x \<Rightarrow> 'k :: linorder"
  assumes "bm_wf m" and "distinct (map f xs)"
  defines "m' \<equiv> fold (\<lambda>x. bm_insert (f x) (g x)) xs m"
  shows "bm_wf m' \<and> (bm_get m' k = Some v \<longleftrightarrow>
    (\<exists>x\<in>set xs. f x = k \<and> g x = v) \<or> k \<notin> f ` set xs \<and> bm_get m k = Some v)"
  using assms(1,2) unfolding m'_def
proof (induction xs arbitrary: m)
  case (Cons x xs)
  note IH = Cons.IH [OF bm_wf_insert [OF Cons.prems(1), of "f x" "g x"]]
  have fx: "f x \<notin> f ` set xs" and dx: "distinct (map f xs)" using Cons.prems(2) by auto
  show ?case
    using IH [OF dx] fx unfolding bm_get_insert [OF Cons.prems(1)] by (cases "k = f x") auto
qed simp

lemma rebuild_map:
  assumes wf: "bm_wf m" and keys: "\<And>k v. bm_get m k = Some v \<Longrightarrow> f v = k" and xs: "set xs = snd ` set m" "distinct (map f xs)"
  shows "fold (\<lambda>x. bm_insert (f x) x) xs [] = m"
proof (rule bm_wf_ext)
  have nil: "bm_wf []" by (simp add: bm_wf_def)
  note g = fold_insert_get [OF nil xs(2), where g = "\<lambda>x. x"]
  show "bm_wf (fold (\<lambda>x. bm_insert (f x) x) xs [])" using g by blast
  have "bm_get (fold (\<lambda>x. bm_insert (f x) x) xs []) k = Some v \<longleftrightarrow> bm_get m k = Some v" for k v
  proof -
    have "v \<in> set xs \<longleftrightarrow> (\<exists>k'. bm_get m k' = Some v)" unfolding xs(1) bm_get_mem [OF wf, symmetric] by force
    moreover have "bm_get (fold (\<lambda>x. bm_insert (f x) x) xs []) k = Some v \<longleftrightarrow> v \<in> set xs \<and> f v = k" using g [of k v] by auto
    ultimately show ?thesis using keys by blast
  qed
  then show "bm_get (fold (\<lambda>x. bm_insert (f x) x) xs []) = bm_get m" by (intro map_eqI) blast
qed (fact wf)

lemma keyed_distinct:
  assumes "bm_wf m" and "\<And>k v. bm_get m k = Some v \<Longrightarrow> f v = k"
  shows "distinct (map f (sort_key g (map snd m)))"
proof -
  have "map f (map snd m) = map fst m" using assms(2) bm_get_mem [OF assms(1)] by auto
  then have "distinct (map f (map snd m))" using bm_wf_distinct [OF assms(1)] by (simp only:)
  moreover have "mset (sort_key g (map snd m)) = mset (map snd m)" by simp
  ultimately show "distinct (map f (sort_key g (map snd m)))" by (metis mset_map mset_eq_imp_distinct_iff)
qed

context digraph
begin

lemma image_roundtrip_inv:
  assumes inv: "onto_inv ops gwf st"
  shows "\<exists>d. into_state ops vm (to_image ops st) = ok (st\<lparr>os_dag := d, os_relations := sort (os_relations st)\<rparr>) \<and>
    dag_inv ops gwf d \<and> dag_dom d = dag_dom (os_dag st) \<and> dag_rel ops d = onto_rel ops st"
proof -
  have ok: "names_ok (os_names st) (os_tags st)" and di: "dag_inv ops gwf (os_dag st)"
    and wf: "bm_wf (os_tags st)" "bm_wf (os_names st)" "bm_wf (os_modules st)" using inv by (simp_all add: onto_inv_def names_ok_def)
  have mk: "mr_id r = m" if "bm_get (os_modules st) m = Some r" for m r using inv that by (simp add: onto_inv_def)
  have tk: "td_id d = i" if "tag_of st i = Some d" for i d using names_okD(1) [OF ok that] .
  let ?ts = "sort_key td_id (map snd (os_tags st))"
  have nd: "distinct (map td_name ?ts)"
  proof (rule distinct_map [THEN iffD2], intro conjI inj_onI)
    have "distinct (map td_id ?ts)" by (rule keyed_distinct [OF wf(1) tk])
    then show "distinct ?ts" by (rule distinct_map [THEN iffD1, THEN conjunct1])
    fix x y assume "x \<in> set ?ts" "y \<in> set ?ts" and nm: "td_name x = td_name y"
    then obtain i j where ij: "tag_of st i = Some x" "tag_of st j = Some y" using bm_get_mem [OF wf(1)] by auto
    then have "i = j" using names_okD(2) [OF ok, of i x] names_okD(2) [OF ok, of j y] nm by simp
    then show "x = y" using ij by simp
  qed
  have names: "fold (\<lambda>d. bm_insert (td_name d) (td_id d)) ?ts [] = os_names st"
  proof (rule bm_wf_ext)
    have nil: "bm_wf []" by (simp add: bm_wf_def)
    note g = fold_insert_get [OF nil nd, of td_id]
    show "bm_wf (fold (\<lambda>d. bm_insert (td_name d) (td_id d)) ?ts [])" using g by blast
    have mem: "x \<in> set ?ts \<longleftrightarrow> (\<exists>i. tag_of st i = Some x)" for x unfolding bm_get_mem [OF wf(1), symmetric] by force
    have "bm_get (fold (\<lambda>d. bm_insert (td_name d) (td_id d)) ?ts []) n = Some i \<longleftrightarrow> name_of st n = Some i" for n i
    proof -
      have "bm_get (fold (\<lambda>d. bm_insert (td_name d) (td_id d)) ?ts []) n = Some i \<longleftrightarrow> (\<exists>x\<in>set ?ts. td_name x = n \<and> td_id x = i)"
        using g [of n i] by simp
      then show ?thesis unfolding Bex_def mem using names_okD [OF ok] by blast
    qed
    then show "bm_get (fold (\<lambda>d. bm_insert (td_name d) (td_id d)) ?ts []) = name_of st" by (intro map_eqI) blast
  qed (fact wf(2))
  obtain d where d: "from_snapshot ops (snapshot ops (os_dag st)) = ok d" "dag_inv ops gwf d" "dag_dom d = dag_dom (os_dag st)"
      "dag_rel ops d = onto_rel ops st" using snapshot_spec [OF di] by auto
  have "fold (\<lambda>d. bm_insert (td_id d) d) ?ts [] = os_tags st"
    by (intro rebuild_map keyed_distinct wf tk) simp_all
  moreover have "fold (\<lambda>r. bm_insert (mr_id r) r) (sort_key mr_id (map snd (os_modules st))) [] = os_modules st"
    by (intro rebuild_map keyed_distinct wf mk) simp_all
  ultimately show ?thesis
    using d names by (cases st) (auto simp: into_state_def to_image_def)
qed

end

section \<open>Properties\<close>

text \<open>A small run for the witnesses: a module with one tag that declares a compression, installed under two
  module ids.\<close>

definition wit_otag :: tag_definition where
  "wit_otag = \<lparr>td_id = 0, td_name = ''media'', td_semantics = Label, td_implies = [],
     td_storage = Some \<lparr>sp_chunking = None, sp_compression = Some Lz4, sp_encryption = None\<rparr>\<rparr>"

definition wit_omod :: "string \<Rightarrow> ontology_module" where
  "wit_omod i = \<lparr>om_id = i, om_version = ''1'', om_name = i, om_tags = [wit_otag], om_implications = [], om_relations = []\<rparr>"

definition wit_onto :: "list_graph ontology_state" where
  "wit_onto = fst (snd (install lg_ops (ontology_new lg_ops) (wit_omod ''a'') id_allocator_new))"

definition wit_onto2 :: "list_graph ontology_state" where
  "wit_onto2 = fst (snd (install lg_ops wit_onto (wit_omod ''b'') (starting_at 2)))"

lemmas install_eval = install_def install_inner_def wit_omod_def wit_otag_def ontology_new_def id_allocator_new_def next_id_def
  observe_id_def starting_at_def register_tag_def check_axis_invariant_def declaring_tags_def declares_def module_record_of_def

lemma wit_onto_eq:
  "install lg_ops (ontology_new lg_ops) (wit_omod ''a'') id_allocator_new =
     (ok \<lparr>ir_tags_registered = 1, ir_tags_skipped = 0, ir_implications_added = 0, ir_module_id = ''a'', ir_module_name = ''a''\<rparr>,
      wit_onto, \<lparr>ia_next = 2\<rparr>)"
  "wit_onto = \<lparr>os_tags = [(1, wit_otag\<lparr>td_id := 1\<rparr>)], os_names = [(''media'', 1)], os_dag = add_tag lg_ops (dag_new lg_ops) 1,
     os_relations = [], os_modules = [(''a'', module_record_of (wit_omod ''a'') [1] [] [])]\<rparr>"
  by (simp_all add: wit_onto_def install_eval)

lemma wit_onto2_eq:
  "install lg_ops wit_onto (wit_omod ''b'') (starting_at 2) =
     (ok \<lparr>ir_tags_registered = 0, ir_tags_skipped = 1, ir_implications_added = 0, ir_module_id = ''b'', ir_module_name = ''b''\<rparr>,
      wit_onto2, \<lparr>ia_next = 2\<rparr>)"
  "wit_onto2 = wit_onto\<lparr>os_modules := [(''a'', module_record_of (wit_omod ''a'') [1] [] []), (''b'', module_record_of (wit_omod ''b'') [] [] [])]\<rparr>"
proof -
  have str: "''a'' < ''b''" "\<not> ''b'' < ''a''" by code_simp+
  show "install lg_ops wit_onto (wit_omod ''b'') (starting_at 2) =
     (ok \<lparr>ir_tags_registered = 0, ir_tags_skipped = 1, ir_implications_added = 0, ir_module_id = ''b'', ir_module_name = ''b''\<rparr>,
      wit_onto2, \<lparr>ia_next = 2\<rparr>)"
    "wit_onto2 = wit_onto\<lparr>os_modules := [(''a'', module_record_of (wit_omod ''a'') [1] [] []), (''b'', module_record_of (wit_omod ''b'') [] [] [])]\<rparr>"
    using str by (simp_all add: wit_onto2_def wit_onto_eq(2) install_eval)
qed

lemma wit_onto_reach: "onto_reach lg_ops wit_onto" "onto_reach lg_ops wit_onto2"
proof -
  have "alloc_ok (ontology_new lg_ops) id_allocator_new" by (auto simp: alloc_ok_def ontology_new_def)
  from onto_install [OF onto_start this wit_onto_eq(1)] show 1: "onto_reach lg_ops wit_onto" .
  have "alloc_ok wit_onto (starting_at 2)" by (auto simp: alloc_ok_def wit_onto_eq(2) starting_at_def split: if_splits)
  from onto_install [OF 1 this wit_onto2_eq(1)] show "onto_reach lg_ops wit_onto2" .
qed

lemma wit_onto_tag: "tag_of wit_onto = [1 \<mapsto> wit_otag\<lparr>td_id := 1\<rparr>]"
  by (auto simp: wit_onto_eq(2) fun_eq_iff)

lemma wit_onto_chain: "axis_chain lg_ops wit_onto axis"
  by (auto simp: axis_chain_def tag_declares_def wit_onto_tag split: if_splits)

text \<open>C26. Whatever modules are installed, upgraded and scrubbed, in any order and with any failures in
  between, names and ids stay in bijection, the nodes of the implication DAG are exactly the registered
  tags, and the implications stay acyclic.\<close>

theorem registry_consistent:
  assumes "digraph ops gwf" and "onto_reach ops st"
  shows "(\<forall>n i. name_of st n = Some i \<longleftrightarrow> (\<exists>d. tag_of st i = Some d \<and> td_name d = n)) \<and>
    (\<forall>i d. tag_of st i = Some d \<longrightarrow> td_id d = i) \<and> (\<forall>i. dag_contains (os_dag st) i \<longleftrightarrow> tag_of st i \<noteq> None) \<and>
    acyclic (set (dag_edges ops (os_dag st))) \<and> set (dag_edges ops (os_dag st)) \<subseteq> dom (tag_of st) \<times> dom (tag_of st)"
proof -
  have inv: "onto_inv ops gwf st" by (rule digraph.onto_reach_inv [OF assms])
  then have di: "dag_inv ops gwf (os_dag st)" and dd: "dag_dom (os_dag st) = dom (tag_of st)"
    and ok: "names_ok (os_names st) (os_tags st)" by (simp_all add: onto_inv_def)
  have "dag_contains (os_dag st) i \<longleftrightarrow> tag_of st i \<noteq> None" for i
    using dd by (simp add: dag_contains_def dag_dom_def dom_def set_eq_iff)
  moreover have "acyclic (set (dag_edges ops (os_dag st)))" using di by (simp add: dag_inv_def dag_rel_def)
  ultimately show ?thesis
    using names_okD [OF ok] digraph.rel_dom [OF assms(1) di] dd by (simp add: dag_rel_def) blast
qed

theorem registry_consistent_witness: "name_of wit_onto ''media'' = Some 1 \<and> dag_contains (os_dag wit_onto) 1"
proof -
  note w = registry_consistent [OF lg.digraph_axioms wit_onto_reach(1)]
  have "tag_of wit_onto 1 = Some (wit_otag\<lparr>td_id := 1\<rparr>)" "td_name (wit_otag\<lparr>td_id := 1\<rparr>) = ''media''"
    by (simp_all add: wit_onto_tag wit_otag_def)
  with w show ?thesis by (metis option.distinct(1))
qed

text \<open>C27. An install is all or nothing: a refused module leaves the registry as it was, an accepted one
  leaves every name it declares resolvable, every implication it lists in force, everything that was known
  before unchanged, and for each storage axis the declaring tags in a chain of the implication order.\<close>

theorem install_all_or_nothing:
  assumes "digraph ops gwf" and "onto_reach ops st" and "alloc_ok st alloc" and "install ops st m alloc = (r, st', alloc')"
  shows "case r of Inl e \<Rightarrow> st' = st | Inr res \<Rightarrow> bm_get (os_modules st) (om_id m) = None \<and> installed ops st m res st'"
  using digraph.install_inv(2,3) [OF assms(1) digraph.onto_reach_inv [OF assms(1,2)] assms(3,4)] assms(4)
  by (auto simp: install_def split: sum.splits if_splits)

theorem install_all_or_nothing_witness:
  "installed lg_ops (ontology_new lg_ops) (wit_omod ''a'')
     \<lparr>ir_tags_registered = 1, ir_tags_skipped = 0, ir_implications_added = 0, ir_module_id = ''a'', ir_module_name = ''a''\<rparr> wit_onto"
proof -
  have "alloc_ok (ontology_new lg_ops) id_allocator_new" by (auto simp: alloc_ok_def ontology_new_def)
  from install_all_or_nothing [OF lg.digraph_axioms onto_start this wit_onto_eq(1)] show ?thesis by simp
qed

text \<open>Scrubbing a module removes exactly the tags, implications and relations that its record lists and
  no other record does, with the implications that touch a removed tag.\<close>

theorem scrub_exact:
  assumes "digraph ops gwf" and "onto_reach ops st"
  shows "case bm_get (os_modules st) m of
      None \<Rightarrow> scrub ops st m = err (ModuleNotInstalled m)
    | Some rec \<Rightarrow> \<exists>n st'. scrub ops st m = ok (n, st') \<and> scrubbed ops st m st'"
proof (cases "bm_get (os_modules st) m")
  case (Some rec)
  then obtain n st' where s: "scrub ops st m = ok (n, st')" by (simp add: scrub_def Let_def)
  then show ?thesis using Some digraph.scrub_inv [OF assms(1) digraph.onto_reach_inv [OF assms] s] by simp
qed (simp add: scrub_def)

theorem scrub_exact_witness: "\<exists>n st'. scrub lg_ops wit_onto ''a'' = ok (n, st') \<and> scrubbed lg_ops wit_onto ''a'' st'"
  using scrub_exact [OF lg.digraph_axioms wit_onto_reach(1), of "''a''"] by (simp add: wit_onto_eq(2))

text \<open>A tag that two installed modules declare is recorded for the first one only, so scrubbing the first
  removes the tag although the second module is still installed.\<close>

theorem scrub_drops_shared_tag:
  "\<exists>n st'. scrub lg_ops wit_onto2 ''a'' = ok (n, st') \<and> bm_get (os_modules st') ''b'' \<noteq> None \<and>
    td_name wit_otag \<in> td_name ` set (om_tags (wit_omod ''b'')) \<and> name_of st' (td_name wit_otag) = None"
proof -
  have str: "''a'' < ''b''" "\<not> ''b'' < ''a''" by code_simp+
  have g: "bm_get (os_modules wit_onto2) ''a'' = Some (module_record_of (wit_omod ''a'') [1] [] [])"
    by (simp add: wit_onto2_eq(2))
  show ?thesis
    using str by (simp add: scrub_def g Let_def) (simp add: wit_onto2_eq(2) wit_onto_eq(2) module_record_of_def scrub_tag_def wit_omod_def wit_otag_def)
qed

text \<open>C28. In a registry where the tags that declare an axis form a chain, for every axis, as they do after every
  successful install (a scrub can break the chain), policy resolution returns for each axis the setting of the one
  declaring tag of the object's closure that implies all the others, and the default where no tag of the closure
  declares the axis.\<close>

theorem resolve_policy_most_specific:
  assumes "digraph ops gwf" and "onto_reach ops st" and "\<forall>axis. axis_chain ops st axis"
  shows "\<exists>p. resolve_policy ops st tags dflt = ok p \<and>
    axis_resolved ops st Chunking sp_chunking (onto_closure ops st tags) (sp_chunking dflt) (sp_chunking p) \<and>
    axis_resolved ops st Compression sp_compression (onto_closure ops st tags) (sp_compression dflt) (sp_compression p) \<and>
    axis_resolved ops st Encryption sp_encryption (onto_closure ops st tags) (sp_encryption dflt) (sp_encryption p)"
  by (rule digraph.resolve_policy_spec [OF assms(1) digraph.onto_reach_inv [OF assms(1,2)] assms(3)])

theorem resolve_policy_most_specific_witness:
  "\<exists>p. resolve_policy lg_ops wit_onto [1, 9] \<lparr>sp_chunking = Some chunk_params_default, sp_compression = None, sp_encryption = None\<rparr> =
      (ok p :: (ontology_error, storage_policy) res) \<and> sp_compression p = Some Lz4 \<and> sp_chunking p = Some chunk_params_default"
proof -
  let ?dflt = "\<lparr>sp_chunking = Some chunk_params_default, sp_compression = None, sp_encryption = None\<rparr>"
  obtain p where p: "resolve_policy lg_ops wit_onto [1, 9] ?dflt = (ok p :: (ontology_error, storage_policy) res)"
      "axis_resolved lg_ops wit_onto Chunking sp_chunking (onto_closure lg_ops wit_onto [1, 9]) (sp_chunking ?dflt) (sp_chunking p)"
      "axis_resolved lg_ops wit_onto Compression sp_compression (onto_closure lg_ops wit_onto [1, 9]) (sp_compression ?dflt) (sp_compression p)"
    using resolve_policy_most_specific [OF lg.digraph_axioms wit_onto_reach(1), of "[1, 9]" ?dflt] wit_onto_chain by blast
  have one: "1 \<in> onto_closure lg_ops wit_onto [1, 9]" by (auto simp: onto_closure_def wit_onto_tag)
  have d: "tag_declares wit_onto Compression t \<longleftrightarrow> t = 1" "\<not> tag_declares wit_onto Chunking t" for t
    by (simp_all add: tag_declares_def wit_onto_tag declares_def wit_otag_def)
  have "sp_chunking p = Some chunk_params_default" using p(2) d(2) by (simp add: axis_resolved_def)
  moreover obtain t where "decides lg_ops wit_onto Compression (onto_closure lg_ops wit_onto [1, 9]) t"
      "sp_compression p = Option.bind (Option.bind (tag_of wit_onto t) td_storage) sp_compression"
    using axis_resolvedD [OF p(3) one] d(1) by blast
  then have "sp_compression p = Some Lz4" using d(1) by (simp add: decides_def wit_onto_tag wit_otag_def)
  ultimately show ?thesis using p(1) by blast
qed

text \<open>The persisted image loses nothing: decoding the image of a registry gives back its tags, names and
  modules, its relations in sorted order, and an implication DAG with the same tags and implications.\<close>

theorem ontology_image_roundtrip:
  assumes "digraph ops gwf" and "onto_reach ops st"
  shows "\<exists>d. into_state ops vm (to_image ops st) = ok (st\<lparr>os_dag := d, os_relations := sort (os_relations st)\<rparr>) \<and>
    (\<forall>t. dag_contains d t \<longleftrightarrow> dag_contains (os_dag st) t) \<and> set (dag_edges ops d) = set (dag_edges ops (os_dag st))"
proof -
  obtain d where d: "into_state ops vm (to_image ops st) = ok (st\<lparr>os_dag := d, os_relations := sort (os_relations st)\<rparr>)"
      "dag_dom d = dag_dom (os_dag st)" "dag_rel ops d = onto_rel ops st"
    using digraph.image_roundtrip_inv [OF assms(1) digraph.onto_reach_inv [OF assms]] by blast
  have "dag_contains d t \<longleftrightarrow> dag_contains (os_dag st) t" for t
    using d(2) by (simp add: dag_contains_def dag_dom_def set_eq_iff dom_def)
  then show ?thesis using d by (auto simp: dag_rel_def)
qed

theorem ontology_image_roundtrip_witness:
  "\<exists>d. into_state lg_ops (\<lambda>_ _. ''newer'') (to_image lg_ops wit_onto) = ok (wit_onto\<lparr>os_dag := d, os_relations := []\<rparr>)"
  using ontology_image_roundtrip [OF lg.digraph_axioms wit_onto_reach(1), of "\<lambda>_ _. ''newer''"] by (auto simp: wit_onto_eq(2))

end
