(* ===== verification/Mb_Value.thy ===== *)
theory Mb_Value
  imports Mb_Types Mb_Dag "HOL-Library.List_Lexorder"
begin

text \<open>
  Attribute values (\<open>crates/types/src/value.rs\<close>), the query algebra (\<open>query.rs\<close>), assertions
  (\<open>assertion.rs\<close>) and the order-preserving range keys (\<open>crates/index/src/normalised_key.rs\<close>).

  A string is the list of its UTF-8 bytes, whose order and prefixes are those of \<open>str\<close>; an \<open>f64\<close> is its
  bit pattern. CBOR and SipHash are external: the record \<open>value_codec\<close> holds them.
\<close>

section \<open>Value\<close>

datatype attr_value =
    VText "byte list"
  | VInt int
  | VFloat "64 word"
  | VTimestamp int
  | VBlob "byte list"
  | VScoped (scope_context: tag_id) (scope_inner: attr_value)

datatype types_error = NestedScopedValue | TypesCborEncode string | TypesCborDecode string

fun is_scoped :: "attr_value \<Rightarrow> bool" where
  "is_scoped (VScoped _ _) = True"
| "is_scoped _ = False"

definition scoped :: "tag_id \<Rightarrow> attr_value \<Rightarrow> (types_error, attr_value) res" where
  "scoped context inner = (if is_scoped inner then err NestedScopedValue else ok (VScoped context inner))"

fun type_tag :: "attr_value \<Rightarrow> u8" where
  "type_tag (VText _) = 0"
| "type_tag (VInt _) = 1"
| "type_tag (VFloat _) = 2"
| "type_tag (VTimestamp _) = 3"
| "type_tag (VBlob _) = 4"
| "type_tag (VScoped _ _) = 5"

fun type_name :: "attr_value \<Rightarrow> string" where
  "type_name (VText _) = ''text''"
| "type_name (VInt _) = ''int''"
| "type_name (VFloat _) = ''float''"
| "type_name (VTimestamp _) = ''timestamp''"
| "type_name (VBlob _) = ''blob''"
| "type_name (VScoped _ _) = ''scoped''"

fun validate_value :: "attr_value \<Rightarrow> (types_error, unit) res" where
  "validate_value (VScoped _ inner) = (if is_scoped inner then err NestedScopedValue else ok ())"
| "validate_value _ = ok ()"

text \<open>The comparison of \<open>f64\<close>: a pattern above that of infinity, apart from the sign, is not a number; other
  patterns compare as sign and magnitude, so the two zeros are equal.\<close>

definition f64_is_nan :: "64 word \<Rightarrow> bool" where
  "f64_is_nan b \<longleftrightarrow> 0x7ff0000000000000 < b AND 0x7fffffffffffffff"

definition f64_ord :: "64 word \<Rightarrow> int" where
  "f64_ord b = (if bit b 63 then - int (unat (b AND 0x7fffffffffffffff)) else int (unat (b AND 0x7fffffffffffffff)))"

definition ordering_of :: "'a :: linorder \<Rightarrow> 'a \<Rightarrow> ordering" where
  "ordering_of a b = (if a < b then Less else if b < a then Greater else Equal)"

fun value_partial_cmp :: "attr_value \<Rightarrow> attr_value \<Rightarrow> ordering option" where
  "value_partial_cmp (VInt a) (VInt b) = Some (ordering_of a b)"
| "value_partial_cmp (VFloat a) (VFloat b) =
     (if f64_is_nan a \<or> f64_is_nan b then None else Some (ordering_of (f64_ord a) (f64_ord b)))"
| "value_partial_cmp (VText a) (VText b) = Some (ordering_of a b)"
| "value_partial_cmp (VTimestamp a) (VTimestamp b) = Some (ordering_of a b)"
| "value_partial_cmp (VBlob a) (VBlob b) = Some (ordering_of a b)"
| "value_partial_cmp _ _ = None"

text \<open>The derived \<open>PartialEq\<close>.\<close>

fun value_eq :: "attr_value \<Rightarrow> attr_value \<Rightarrow> bool" where
  "value_eq (VFloat a) (VFloat b) \<longleftrightarrow> \<not> f64_is_nan a \<and> \<not> f64_is_nan b \<and> f64_ord a = f64_ord b"
| "value_eq (VScoped c a) (VScoped d b) \<longleftrightarrow> c = d \<and> value_eq a b"
| "value_eq (VText a) (VText b) \<longleftrightarrow> a = b"
| "value_eq (VInt a) (VInt b) \<longleftrightarrow> a = b"
| "value_eq (VTimestamp a) (VTimestamp b) \<longleftrightarrow> a = b"
| "value_eq (VBlob a) (VBlob b) \<longleftrightarrow> a = b"
| "value_eq _ _ \<longleftrightarrow> False"

text \<open>\<open>vc_hash\<close> is \<open>SipHasher24\<close> with its two keys, over the sequence of the slices written to it.\<close>

record value_codec =
  vc_ser :: "attr_value \<Rightarrow> (string, byte list) res"
  vc_de :: "byte list \<Rightarrow> (string, attr_value) res"
  vc_hash :: "u64 \<Rightarrow> u64 \<Rightarrow> byte list list \<Rightarrow> u64"

definition encode_cbor :: "value_codec \<Rightarrow> attr_value \<Rightarrow> (types_error, byte list) res" where
  "encode_cbor vc v = rbind (validate_value v) (\<lambda>_. map_err TypesCborEncode (vc_ser vc v))"

definition decode_cbor :: "value_codec \<Rightarrow> byte list \<Rightarrow> (types_error, attr_value) res" where
  "decode_cbor vc bs =
     rbind (map_err TypesCborDecode (vc_de vc bs)) (\<lambda>v. rbind (validate_value v) (\<lambda>_. ok v))"

definition KV_HASH_DOMAIN :: "byte list" where
  "KV_HASH_DOMAIN = map (word_of_nat \<circ> of_char) ''mimir-kv''"

text \<open>The \<open>expect\<close> on the encoder is a panic. The secret has 16 bytes.\<close>

definition value_hash :: "value_codec \<Rightarrow> attr_value \<Rightarrow> byte list \<Rightarrow> ('e, u64) res" where
  "value_hash vc v secret =
     (let key0 = get_le 0 8 secret; key1 = get_le 8 8 secret
      in case v of
           VScoped context inner \<Rightarrow>
             (case vc_ser vc inner of
                Inl _ \<Rightarrow> Inl Panic
              | Inr inner_buf \<Rightarrow>
                  ok (vc_hash vc key0 key1 [KV_HASH_DOMAIN, [word_of_nat (type_tag v)], le_bytes 4 context, inner_buf]))
         | _ \<Rightarrow>
             (case vc_ser vc v of
                Inl _ \<Rightarrow> Inl Panic
              | Inr buf \<Rightarrow> ok (vc_hash vc key0 key1 [KV_HASH_DOMAIN, [word_of_nat (type_tag v)], buf])))"

fun value_ok :: "attr_value \<Rightarrow> bool" where
  "value_ok (VInt v) \<longleftrightarrow> i64_ok v"
| "value_ok (VTimestamp v) \<longleftrightarrow> i64_ok v"
| "value_ok (VScoped c v) \<longleftrightarrow> c < 2 ^ 32 \<and> value_ok v"
| "value_ok _ \<longleftrightarrow> True"

section \<open>Query and Assertion\<close>

datatype cmp_op = OpEq | OpNe | OpLt | OpLe | OpGt | OpGe | OpPrefix | OpContains

datatype query =
    HasTag tag_id
  | HasAttr tag_id cmp_op attr_value
  | Related tag_id object_id
  | QAnd "query list"
  | QOr "query list"
  | QNot query
  | IsA tag_id

datatype assertion =
    ATag tag_id
  | AAttr tag_id attr_value
  | ARelation tag_id object_id

datatype tag_origin = Direct | Materialized

fun assertion_eq :: "assertion \<Rightarrow> assertion \<Rightarrow> bool" where
  "assertion_eq (ATag a) (ATag b) \<longleftrightarrow> a = b"
| "assertion_eq (AAttr k v) (AAttr l w) \<longleftrightarrow> k = l \<and> value_eq v w"
| "assertion_eq (ARelation p t) (ARelation q u) \<longleftrightarrow> p = q \<and> t = u"
| "assertion_eq _ _ \<longleftrightarrow> False"

section \<open>NormalisedKey\<close>

type_synonym normalised_key = "byte list"

definition be_bytes :: "nat \<Rightarrow> nat \<Rightarrow> byte list" where
  "be_bytes k n = rev (le_bytes k n)"

text \<open>The fifteen payload bytes of a string: thirteen of its bytes, a continuation flag and its length,
  saturated at 255.\<close>

definition text_payload :: "byte list \<Rightarrow> byte list" where
  "text_payload bs =
     (let n = min (length bs) 13
      in take n bs @ replicate (13 - n) 0 @ [if length bs > 13 then 1 else 0, word_of_nat (min (length bs) 255)])"

fun from_value :: "attr_value \<Rightarrow> normalised_key" where
  "from_value (VInt v) = 1 # be_bytes 8 (nat ((v + 2 ^ 63) mod 2 ^ 64)) @ replicate 7 0"
| "from_value (VTimestamp v) = 3 # be_bytes 8 (nat ((v + 2 ^ 63) mod 2 ^ 64)) @ replicate 7 0"
| "from_value (VFloat b) =
     2 # be_bytes 8 (unat (if drop_bit 63 b AND 1 = 0 then b XOR 0x8000000000000000 else NOT b)) @ replicate 7 0"
| "from_value (VText s) = 0 # text_payload s"
| "from_value (VBlob b) = 4 # text_payload b"
| "from_value (VScoped context inner) = 5 # be_bytes 4 context @ take 11 (drop 1 (from_value inner))"

section \<open>Lemmas\<close>

lemma length_be_bytes [simp, codec_simps]: "length (be_bytes k n) = k"
  by (simp add: be_bytes_def)

lemma be_nat_be_bytes: "n < 256 ^ k \<Longrightarrow> be_nat (be_bytes k n) = n"
  by (simp add: be_bytes_def be_nat_def)

lemma length_text_payload [simp]: "length (text_payload s) = 15"
  by (simp add: text_payload_def Let_def)

lemma length_from_value [simp]: "length (from_value v) = 16"
  by (induction v) simp_all

end
