(* ===== verification/Mb_Bitmap.thy ===== *)
theory Mb_Bitmap
  imports Mb_Prelude
begin

text \<open>
  The bitmaps of the index crates. \<open>RoaringBitmap\<close> is external code: the operations the source calls are the
  fields of \<open>rb_ops\<close> over an abstract bitmap type, and the locale \<open>roaring\<close> states what they are documented
  to do, as operations on a finite set of 32-bit numbers. The interpretation \<open>wl\<close> is on lists of words.
\<close>

section \<open>The external bitmap\<close>

text \<open>\<open>rb_remove\<close> also returns whether the entry was there; \<open>rb_deserialize\<close> is \<open>None\<close> on an image it does
  not accept.\<close>

record 'b rb_ops =
  rb_new :: 'b
  rb_insert :: "u32 \<Rightarrow> 'b \<Rightarrow> 'b"
  rb_remove :: "u32 \<Rightarrow> 'b \<Rightarrow> 'b \<times> bool"
  rb_contains :: "u32 \<Rightarrow> 'b \<Rightarrow> bool"
  rb_union :: "'b \<Rightarrow> 'b \<Rightarrow> 'b"
  rb_inter :: "'b \<Rightarrow> 'b \<Rightarrow> 'b"
  rb_diff :: "'b \<Rightarrow> 'b \<Rightarrow> 'b"
  rb_len :: "'b \<Rightarrow> u64"
  rb_is_empty :: "'b \<Rightarrow> bool"
  rb_iter :: "'b \<Rightarrow> u32 list"
  rb_serialize :: "'b \<Rightarrow> byte list"
  rb_deserialize :: "byte list \<Rightarrow> 'b option"

locale roaring =
  fixes rb :: "'b rb_ops" and bset :: "'b \<Rightarrow> u32 set"
  assumes new_set: "bset (rb_new rb) = {}"
    and set_bounded: "bset b \<subseteq> {..<2 ^ 32}"
    and insert_set: "x < 2 ^ 32 \<Longrightarrow> bset (rb_insert rb x b) = insert x (bset b)"
    and remove_set: "x < 2 ^ 32 \<Longrightarrow> bset (fst (rb_remove rb x b)) = bset b - {x}"
    and remove_was: "x < 2 ^ 32 \<Longrightarrow> snd (rb_remove rb x b) \<longleftrightarrow> x \<in> bset b"
    and contains_set: "x < 2 ^ 32 \<Longrightarrow> rb_contains rb x b \<longleftrightarrow> x \<in> bset b"
    and union_set: "bset (rb_union rb a b) = bset a \<union> bset b"
    and inter_set: "bset (rb_inter rb a b) = bset a \<inter> bset b"
    and diff_set: "bset (rb_diff rb a b) = bset a - bset b"
    and len_set: "rb_len rb b = card (bset b)"
    and is_empty_set: "rb_is_empty rb b \<longleftrightarrow> bset b = {}"
    and iter_set: "rb_iter rb b = sorted_list_of_set (bset b)"
    and serialize_set: "\<exists>b'. rb_deserialize rb (rb_serialize rb b) = Some b' \<and> bset b' = bset b"
begin

lemma set_finite [simp]: "finite (bset b)"
  by (rule finite_subset [OF set_bounded]) simp

lemma set_less: "x \<in> bset b \<Longrightarrow> x < 2 ^ 32"
  using set_bounded by auto

lemmas rb_sets = new_set insert_set remove_set remove_was contains_set union_set inter_set diff_set
  is_empty_set iter_set

lemma union_fold: "bset (fold (\<lambda>x acc. rb_union rb acc (f x)) xs acc) = bset acc \<union> (\<Union>x\<in>set xs. bset (f x))"
  by (induction xs arbitrary: acc) (auto simp: union_set)

lemma insert_fold:
  assumes "\<forall>x\<in>set xs. x < 2 ^ 32"
  shows "bset (fold (rb_insert rb) xs acc) = bset acc \<union> set xs"
  using assms by (induction xs arbitrary: acc) (auto simp: insert_set)

end

section \<open>Bitmaps as lists of words\<close>

fun chunks4 :: "byte list \<Rightarrow> 32 word list option" where
  "chunks4 [] = Some []"
| "chunks4 (a # b # c # d # bs) = map_option (Cons (word_of_nat (le_nat [a, b, c, d]))) (chunks4 bs)"
| "chunks4 bs = None"

definition wl_ops :: "32 word list rb_ops" where
  "wl_ops = \<lparr>rb_new = [], rb_insert = (\<lambda>x b. List.insert (word_of_nat x) b),
     rb_remove = (\<lambda>x b. (removeAll (word_of_nat x) b, word_of_nat x \<in> set b)),
     rb_contains = (\<lambda>x b. word_of_nat x \<in> set b), rb_union = (\<lambda>a b. a @ b),
     rb_inter = (\<lambda>a b. filter (\<lambda>x. x \<in> set b) a), rb_diff = (\<lambda>a b. filter (\<lambda>x. x \<notin> set b) a),
     rb_len = (\<lambda>b. length (remdups b)), rb_is_empty = (\<lambda>b. b = []),
     rb_iter = (\<lambda>b. sort (remdups (map unat b))), rb_serialize = (\<lambda>b. concat (map (\<lambda>w. le_bytes 4 (unat w)) b)),
     rb_deserialize = chunks4\<rparr>"

definition wl_set :: "32 word list \<Rightarrow> u32 set" where
  "wl_set b = unat ` set b"

lemma unat_word32_less: "unat (w :: 32 word) < 2 ^ 32"
  using unsigned_less [of w] by simp

lemma chunks4_concat: "chunks4 (concat (map (\<lambda>w. le_bytes 4 (unat w)) ws)) = Some ws"
proof (induction ws)
  case (Cons w ws)
  have len: "length (le_bytes 4 (unat w)) = 4" by simp
  have four: "length xs = 4 \<Longrightarrow> \<exists>a b c d. xs = [a, b, c, d]" for xs :: "byte list"
    by (auto simp: numeral_eq_Suc length_Suc_conv)
  then obtain a b c d where e: "le_bytes 4 (unat w) = [a, b, c, d]" using len by blast
  have "le_nat [a, b, c, d] = unat w"
    unfolding e [symmetric] using unat_word32_less [of w] by (simp del: le_nat.simps)
  then show ?case using Cons by (simp add: e del: le_nat.simps)
qed simp

lemma unat_of_small: "x < 2 ^ 32 \<Longrightarrow> unat (word_of_nat x :: 32 word) = x"
  by (simp add: unat_of_nat)

lemma wl_mem: "x < 2 ^ 32 \<Longrightarrow> (word_of_nat x :: 32 word) \<in> set b \<longleftrightarrow> x \<in> wl_set b"
proof -
  assume "x < 2 ^ 32"
  then have "unat (word_of_nat x :: 32 word) = x" by (rule unat_of_small)
  then show ?thesis by (auto simp: wl_set_def image_iff) (metis word_unat_eq_iff)+
qed

interpretation wl: roaring wl_ops wl_set
proof
  fix x :: nat and a b :: "32 word list"
  show "wl_set (rb_new wl_ops) = {}" by (simp add: wl_ops_def wl_set_def)
  show "wl_set b \<subseteq> {..<2 ^ 32}" using unat_word32_less by (auto simp: wl_set_def)
  show "wl_set (rb_union wl_ops a b) = wl_set a \<union> wl_set b" by (auto simp: wl_ops_def wl_set_def)
  show "wl_set (rb_inter wl_ops a b) = wl_set a \<inter> wl_set b" by (auto simp: wl_ops_def wl_set_def image_iff simp flip: word_unat_eq_iff)
  show "wl_set (rb_diff wl_ops a b) = wl_set a - wl_set b" by (auto simp: wl_ops_def wl_set_def image_iff simp flip: word_unat_eq_iff)
  have "card (unat ` set b) = card (set b)" by (rule card_image) (simp add: inj_on_def word_unat_eq_iff)
  then show "rb_len wl_ops b = card (wl_set b)" by (simp add: wl_ops_def wl_set_def length_remdups_card_conv)
  show "rb_is_empty wl_ops b \<longleftrightarrow> wl_set b = {}" by (simp add: wl_ops_def wl_set_def)
  show "rb_iter wl_ops b = sorted_list_of_set (wl_set b)"
    by (simp add: wl_ops_def wl_set_def sorted_list_of_set_sort_remdups flip: set_map)
  show "\<exists>b'. rb_deserialize wl_ops (rb_serialize wl_ops b) = Some b' \<and> wl_set b' = wl_set b"
    by (simp add: wl_ops_def chunks4_concat)
  assume x: "x < 2 ^ 32"
  show "wl_set (rb_insert wl_ops x b) = insert x (wl_set b)"
    using unat_of_small [OF x] by (simp add: wl_ops_def wl_set_def)
  show "snd (rb_remove wl_ops x b) \<longleftrightarrow> x \<in> wl_set b" "rb_contains wl_ops x b \<longleftrightarrow> x \<in> wl_set b"
    using wl_mem [OF x] by (simp_all add: wl_ops_def)
  show "wl_set (fst (rb_remove wl_ops x b)) = wl_set b - {x}"
    using unat_of_small [OF x] by (auto simp: wl_ops_def wl_set_def word_unat_eq_iff)
qed

end
