(* ===== verification/Mb_Index.thy ===== *)
theory Mb_Index
  imports Mb_Value Mb_Block Mb_Bitmap Mb_Ordered_Map "HOL-Library.Product_Lexorder"
begin

text \<open>
  The in-memory indexes (\<open>crates/index/src/{tag_store,tag_index,kv_index,range_index,forward_index,faceted}.rs\<close>).

  Hash maps are ordered maps: what the source collects from a hash map is sorted by its callers or used as a
  set. An object id is the 64-bit word \<open>to_u64\<close> returns, and bitmap entries are its low 32 bits.
\<close>

section \<open>Object ids in bitmaps\<close>

definition oid_entry :: "object_id \<Rightarrow> u32" where
  "oid_entry oid = unat (oid AND 0xffffffff)"

definition oid_of_entry :: "u32 \<Rightarrow> object_id" where
  "oid_of_entry x = word_of_nat x"

lemma oid_entry_mod: "oid_entry oid = unat oid mod 2 ^ 32"
proof -
  have "oid AND 0xffffffff = take_bit 32 oid" by (simp add: take_bit_eq_mask mask_eq_exp_minus_1)
  moreover have "unat (take_bit 32 oid) = take_bit 32 (unat oid)" by (rule unsigned_take_bit_eq)
  ultimately show ?thesis by (simp add: oid_entry_def take_bit_eq_mod)
qed

lemma oid_entry_less: "oid_entry oid < 2 ^ 32"
  by (simp add: oid_entry_mod)

section \<open>TagStore\<close>

datatype 'b tag_store =
    TsSimple 'b
  | TsOrdered 'b "object_id list"
  | TsRanked 'b "(object_id \<times> int) list"

datatype tag_store_kind = KindSimple | KindOrdered | KindRanked

fun ts_members :: "'b tag_store \<Rightarrow> 'b" where
  "ts_members (TsSimple b) = b"
| "ts_members (TsOrdered b _) = b"
| "ts_members (TsRanked b _) = b"

text \<open>Assignment through \<open>members_mut\<close>.\<close>

fun ts_set_members :: "'b \<Rightarrow> 'b tag_store \<Rightarrow> 'b tag_store" where
  "ts_set_members b (TsSimple _) = TsSimple b"
| "ts_set_members b (TsOrdered _ xs) = TsOrdered b xs"
| "ts_set_members b (TsRanked _ xs) = TsRanked b xs"

fun ts_sequence :: "'b tag_store \<Rightarrow> object_id list option" where
  "ts_sequence (TsOrdered _ xs) = Some xs"
| "ts_sequence _ = None"

fun ts_ranked :: "'b tag_store \<Rightarrow> (object_id \<times> int) list option" where
  "ts_ranked (TsRanked _ xs) = Some xs"
| "ts_ranked _ = None"

definition ts_add_member :: "'b rb_ops \<Rightarrow> object_id \<Rightarrow> 'b tag_store \<Rightarrow> 'b tag_store" where
  "ts_add_member rb oid s = ts_set_members (rb_insert rb (oid_entry oid) (ts_members s)) s"

fun ts_drop_listed :: "object_id \<Rightarrow> 'b tag_store \<Rightarrow> 'b tag_store" where
  "ts_drop_listed oid (TsOrdered b xs) = TsOrdered b (filter (\<lambda>o'. o' \<noteq> oid) xs)"
| "ts_drop_listed oid (TsRanked b xs) = TsRanked b (filter (\<lambda>(o', _). o' \<noteq> oid) xs)"
| "ts_drop_listed oid (TsSimple b) = TsSimple b"

definition ts_remove_member :: "'b rb_ops \<Rightarrow> object_id \<Rightarrow> 'b tag_store \<Rightarrow> 'b tag_store \<times> bool" where
  "ts_remove_member rb oid s =
     (let (b, present) = rb_remove rb (oid_entry oid) (ts_members s)
      in (ts_drop_listed oid (ts_set_members b s), present))"

fun ts_push_ordered :: "'b rb_ops \<Rightarrow> object_id \<Rightarrow> 'b tag_store \<Rightarrow> 'b tag_store" where
  "ts_push_ordered rb oid (TsOrdered b xs) = TsOrdered (rb_insert rb (oid_entry oid) b) (xs @ [oid])"
| "ts_push_ordered rb oid s = s"

fun ts_insert_ranked :: "'b rb_ops \<Rightarrow> object_id \<Rightarrow> int \<Rightarrow> 'b tag_store \<Rightarrow> 'b tag_store" where
  "ts_insert_ranked rb oid score (TsRanked b xs) =
     TsRanked (rb_insert rb (oid_entry oid) b) (sort_key (\<lambda>(_, s). - s) (xs @ [(oid, score)]))"
| "ts_insert_ranked rb oid score s = s"

definition ts_contains :: "'b rb_ops \<Rightarrow> object_id \<Rightarrow> 'b tag_store \<Rightarrow> bool" where
  "ts_contains rb oid s = rb_contains rb (oid_entry oid) (ts_members s)"

fun ts_kind :: "'b tag_store \<Rightarrow> tag_store_kind" where
  "ts_kind (TsSimple _) = KindSimple"
| "ts_kind (TsOrdered _ _) = KindOrdered"
| "ts_kind (TsRanked _ _) = KindRanked"

fun ts_upgrade_to_ordered :: "'b rb_ops \<Rightarrow> 'b tag_store \<Rightarrow> 'b tag_store" where
  "ts_upgrade_to_ordered rb (TsSimple b) = TsOrdered b (map oid_of_entry (rb_iter rb b))"
| "ts_upgrade_to_ordered rb s = s"

definition ts_upgrade_to_ranked :: "'b rb_ops \<Rightarrow> 'b tag_store \<Rightarrow> 'b tag_store" where
  "ts_upgrade_to_ranked rb s =
     (let members = ts_members s in TsRanked members (map (\<lambda>x. (oid_of_entry x, 0)) (rb_iter rb members)))"

section \<open>TagIndex\<close>

datatype index_error =
    IdxBufferTooSmall nat nat
  | AssertionCountOverflow nat
  | InvalidAssertionKind u8
  | InvalidAssertionOrigin u8
  | TagNotFound
  | IdxObjectNotFound
  | IndexCborEncode string
  | IndexCborDecode string
  | IndexRoaring string
  | IndexStorage storage_error
  | UnsupportedStoreKind u8
  | CardinalityOverflow u64
  | BitmapAreaExhausted nat nat
  | CorruptOverflowChain string
  | OverflowAreaExhausted nat nat

type_synonym 'b tag_index = "(tag_id, 'b tag_store) btree_map"

definition ti_add_member :: "'b rb_ops \<Rightarrow> tag_id \<Rightarrow> object_id \<Rightarrow> 'b tag_index \<Rightarrow> 'b tag_index" where
  "ti_add_member rb tag oid idx =
     bm_insert tag (ts_add_member rb oid (case bm_get idx tag of None \<Rightarrow> TsSimple (rb_new rb) | Some s \<Rightarrow> s)) idx"

definition ti_remove_member :: "'b rb_ops \<Rightarrow> tag_id \<Rightarrow> object_id \<Rightarrow> 'b tag_index \<Rightarrow> 'b tag_index \<times> bool" where
  "ti_remove_member rb tag oid idx =
     (case bm_get idx tag of
        None \<Rightarrow> (idx, False)
      | Some s \<Rightarrow> (let (s', present) = ts_remove_member rb oid s in (bm_insert tag s' idx, present)))"

definition ti_contains :: "'b rb_ops \<Rightarrow> tag_id \<Rightarrow> object_id \<Rightarrow> 'b tag_index \<Rightarrow> bool" where
  "ti_contains rb tag oid idx = (case bm_get idx tag of None \<Rightarrow> False | Some s \<Rightarrow> ts_contains rb oid s)"

definition query_simple :: "'b tag_index \<Rightarrow> tag_id \<Rightarrow> 'b option" where
  "query_simple idx tag = map_option ts_members (bm_get idx tag)"

fun intersect_from :: "'b rb_ops \<Rightarrow> 'b tag_index \<Rightarrow> 'b \<Rightarrow> tag_id list \<Rightarrow> 'b" where
  "intersect_from rb idx acc [] = acc"
| "intersect_from rb idx acc (t # ts) =
     (case query_simple idx t of None \<Rightarrow> rb_new rb | Some b \<Rightarrow> intersect_from rb idx (rb_inter rb acc b) ts)"

fun ti_intersect :: "'b rb_ops \<Rightarrow> 'b tag_index \<Rightarrow> tag_id list \<Rightarrow> 'b" where
  "ti_intersect rb idx [] = rb_new rb"
| "ti_intersect rb idx (t # ts) =
     (case query_simple idx t of None \<Rightarrow> rb_new rb | Some b \<Rightarrow> intersect_from rb idx b ts)"

definition ti_union :: "'b rb_ops \<Rightarrow> 'b tag_index \<Rightarrow> tag_id list \<Rightarrow> 'b" where
  "ti_union rb idx tags =
     fold (\<lambda>t acc. case query_simple idx t of None \<Rightarrow> acc | Some b \<Rightarrow> rb_union rb acc b) tags (rb_new rb)"

definition ti_upgrade_to_ordered :: "'b rb_ops \<Rightarrow> tag_id \<Rightarrow> 'b tag_index \<Rightarrow> (index_error, 'b tag_index) res" where
  "ti_upgrade_to_ordered rb tag idx =
     (case bm_get idx tag of None \<Rightarrow> err TagNotFound | Some s \<Rightarrow> ok (bm_insert tag (ts_upgrade_to_ordered rb s) idx))"

definition ti_upgrade_to_ranked :: "'b rb_ops \<Rightarrow> tag_id \<Rightarrow> 'b tag_index \<Rightarrow> (index_error, 'b tag_index) res" where
  "ti_upgrade_to_ranked rb tag idx =
     (case bm_get idx tag of None \<Rightarrow> err TagNotFound | Some s \<Rightarrow> ok (bm_insert tag (ts_upgrade_to_ranked rb s) idx))"

fun remove_object_from_all :: "'b rb_ops \<Rightarrow> object_id \<Rightarrow> 'b tag_index \<Rightarrow> 'b tag_index \<times> tag_id list" where
  "remove_object_from_all rb oid [] = ([], [])"
| "remove_object_from_all rb oid ((tag, s) # idx) =
     (let (s', present) = ts_remove_member rb oid s; (idx', removed) = remove_object_from_all rb oid idx
      in ((tag, s') # idx', if present then tag # removed else removed))"

definition ti_all_tags :: "'b tag_index \<Rightarrow> tag_id list" where
  "ti_all_tags idx = map fst idx"

section \<open>KvIndex\<close>

record 'b kv_index =
  kv_entries :: "(tag_id \<times> u64, 'b) btree_map"
  kv_secret :: "byte list"

definition kv_new :: "'b kv_index" where
  "kv_new = \<lparr>kv_entries = [], kv_secret = replicate 16 0\<rparr>"

definition kv_with_secret :: "byte list \<Rightarrow> 'b kv_index" where
  "kv_with_secret secret = \<lparr>kv_entries = [], kv_secret = secret\<rparr>"

text \<open>\<open>entry(k).or_default().insert(x)\<close>, and \<open>remove\<close> with the removal of an emptied entry.\<close>

definition bitmap_put :: "'b rb_ops \<Rightarrow> 'k :: linorder \<Rightarrow> u32 \<Rightarrow> ('k, 'b) btree_map \<Rightarrow> ('k, 'b) btree_map" where
  "bitmap_put rb k x m = bm_insert k (rb_insert rb x (case bm_get m k of None \<Rightarrow> rb_new rb | Some b \<Rightarrow> b)) m"

definition bitmap_del :: "'b rb_ops \<Rightarrow> 'k :: linorder \<Rightarrow> u32 \<Rightarrow> ('k, 'b) btree_map \<Rightarrow> ('k, 'b) btree_map \<times> bool" where
  "bitmap_del rb k x m =
     (case bm_get m k of
        None \<Rightarrow> (m, False)
      | Some b \<Rightarrow>
          (let (b', was) = rb_remove rb x b
           in (if rb_is_empty rb b' then bm_remove k m else bm_insert k b' m, was)))"

definition kv_insert ::
  "value_codec \<Rightarrow> 'b rb_ops \<Rightarrow> tag_id \<Rightarrow> attr_value \<Rightarrow> u32 \<Rightarrow> 'b kv_index \<Rightarrow> ('e, 'b kv_index) res" where
  "kv_insert vc rb tag v oid_local idx =
     rbind (value_hash vc v (kv_secret idx)) (\<lambda>h.
     ok (idx\<lparr>kv_entries := bitmap_put rb (tag, h) oid_local (kv_entries idx)\<rparr>))"

definition kv_remove ::
  "value_codec \<Rightarrow> 'b rb_ops \<Rightarrow> tag_id \<Rightarrow> attr_value \<Rightarrow> u32 \<Rightarrow> 'b kv_index \<Rightarrow> ('e, 'b kv_index \<times> bool) res" where
  "kv_remove vc rb tag v oid_local idx =
     rbind (value_hash vc v (kv_secret idx)) (\<lambda>h.
     let (m, was) = bitmap_del rb (tag, h) oid_local (kv_entries idx) in ok (idx\<lparr>kv_entries := m\<rparr>, was))"

definition kv_lookup :: "value_codec \<Rightarrow> 'b rb_ops \<Rightarrow> 'b kv_index \<Rightarrow> tag_id \<Rightarrow> attr_value \<Rightarrow> ('e, 'b) res" where
  "kv_lookup vc rb idx tag v =
     rbind (value_hash vc v (kv_secret idx)) (\<lambda>h.
     ok (case bm_get (kv_entries idx) (tag, h) of None \<Rightarrow> rb_new rb | Some b \<Rightarrow> b))"

definition value_hashes_for :: "'b kv_index \<Rightarrow> tag_id \<Rightarrow> u64 list" where
  "value_hashes_for idx tag = map snd (filter (\<lambda>(t, _). t = tag) (map fst (kv_entries idx)))"

section \<open>RangeIndex\<close>

type_synonym 'b range_index = "(tag_id \<times> normalised_key, 'b) btree_map"

definition range_insert :: "'b rb_ops \<Rightarrow> tag_id \<Rightarrow> attr_value \<Rightarrow> u32 \<Rightarrow> 'b range_index \<Rightarrow> 'b range_index" where
  "range_insert rb tag v oid_local idx = bitmap_put rb (tag, from_value v) oid_local idx"

definition range_remove ::
  "'b rb_ops \<Rightarrow> tag_id \<Rightarrow> attr_value \<Rightarrow> u32 \<Rightarrow> 'b range_index \<Rightarrow> 'b range_index \<times> bool" where
  "range_remove rb tag v oid_local idx = bitmap_del rb (tag, from_value v) oid_local idx"

definition range_lookup :: "'b rb_ops \<Rightarrow> 'b range_index \<Rightarrow> tag_id \<Rightarrow> attr_value \<Rightarrow> 'b" where
  "range_lookup rb idx tag v = (case bm_get idx (tag, from_value v) of None \<Rightarrow> rb_new rb | Some b \<Rightarrow> b)"

text \<open>\<open>BTreeMap::range\<close> panics when the start is above the end.\<close>

definition bm_range_half_open :: "'k :: linorder \<Rightarrow> 'k \<Rightarrow> ('k, 'v) btree_map \<Rightarrow> ('e, ('k \<times> 'v) list) res" where
  "bm_range_half_open lo hi m = (if hi < lo then Inl Panic else ok (filter (\<lambda>(k, _). lo \<le> k \<and> k < hi) m))"

definition range_scan ::
  "'b rb_ops \<Rightarrow> 'b range_index \<Rightarrow> tag_id \<Rightarrow> attr_value \<Rightarrow> attr_value \<Rightarrow> ('e, 'b) res" where
  "range_scan rb idx tag low high =
     rbind (bm_range_half_open (tag, from_value low) (tag, from_value high) idx) (\<lambda>rows.
     ok (fold (\<lambda>(_, b) acc. rb_union rb acc b) rows (rb_new rb)))"

section \<open>ForwardIndex\<close>

type_synonym forward_index = "(object_id, (assertion \<times> tag_origin) list) btree_map"

definition fw_assertions_of :: "forward_index \<Rightarrow> object_id \<Rightarrow> (assertion \<times> tag_origin) list" where
  "fw_assertions_of fw oid = (case bm_get fw oid of None \<Rightarrow> [] | Some v \<Rightarrow> v)"

definition fw_add_assertion :: "object_id \<Rightarrow> assertion \<Rightarrow> tag_origin \<Rightarrow> forward_index \<Rightarrow> forward_index" where
  "fw_add_assertion oid a origin fw = bm_insert oid (fw_assertions_of fw oid @ [(a, origin)]) fw"

definition swap_remove :: "nat \<Rightarrow> 'a list \<Rightarrow> 'a list" where
  "swap_remove pos xs = butlast (xs[pos := last xs])"

fun position :: "('a \<Rightarrow> bool) \<Rightarrow> 'a list \<Rightarrow> nat option" where
  "position P [] = None"
| "position P (x # xs) = (if P x then Some 0 else map_option Suc (position P xs))"

definition fw_remove_assertion :: "object_id \<Rightarrow> assertion \<Rightarrow> forward_index \<Rightarrow> forward_index \<times> bool" where
  "fw_remove_assertion oid a fw =
     (case bm_get fw oid of
        None \<Rightarrow> (fw, False)
      | Some v \<Rightarrow>
          (case position (\<lambda>(a', _). assertion_eq a' a) v of
             None \<Rightarrow> (fw, False)
           | Some pos \<Rightarrow>
               (let v' = swap_remove pos v
                in (if v' = [] then bm_remove oid fw else bm_insert oid v' fw, True))))"

definition tags_with_origin :: "tag_origin \<Rightarrow> (assertion \<times> tag_origin) list \<Rightarrow> tag_id list" where
  "tags_with_origin origin v =
     List.map_filter (\<lambda>(a, _). case a of ATag t \<Rightarrow> Some t | _ \<Rightarrow> None) (filter (\<lambda>(_, o'). o' = origin) v)"

definition fw_direct_tags :: "forward_index \<Rightarrow> object_id \<Rightarrow> tag_id list" where
  "fw_direct_tags fw oid = tags_with_origin Direct (fw_assertions_of fw oid)"

definition fw_materialized_tags :: "forward_index \<Rightarrow> object_id \<Rightarrow> tag_id list" where
  "fw_materialized_tags fw oid = tags_with_origin Materialized (fw_assertions_of fw oid)"

definition fw_remove_object :: "object_id \<Rightarrow> forward_index \<Rightarrow> forward_index \<times> (assertion \<times> tag_origin) list" where
  "fw_remove_object oid fw = (bm_remove oid fw, fw_assertions_of fw oid)"

definition LEAF_ENTRY_INLINE_SPILL_THRESHOLD :: nat where
  "LEAF_ENTRY_INLINE_SPILL_THRESHOLD = 8"

definition fw_would_spill :: "forward_index \<Rightarrow> object_id \<Rightarrow> bool" where
  "fw_would_spill fw oid =
     (case bm_get fw oid of None \<Rightarrow> False | Some v \<Rightarrow> length v > LEAF_ENTRY_INLINE_SPILL_THRESHOLD)"

section \<open>FacetedExplorer\<close>

text \<open>A facet is a tag and the size of its part of the selection.\<close>

definition facets_for :: "'b rb_ops \<Rightarrow> 'b tag_index \<Rightarrow> 'b \<Rightarrow> (tag_id \<times> u64) list" where
  "facets_for rb idx selection =
     sort_key (\<lambda>(tag, count). (- int count, tag))
       (List.map_filter (\<lambda>(tag, s).
          let count = rb_len rb (rb_inter rb selection (ts_members s)) in if count = 0 then None else Some (tag, count)) idx)"

end
