(* ===== verification/Mb_Query.thy ===== *)
theory Mb_Query
  imports Mb_Index Mb_Ontology
begin

text \<open>
  The query executor (\<open>crates/query/src/executor.rs\<close>) and the facets on top of it (\<open>facets.rs\<close>). The executor
  borrows the four indexes and the ontology; the bitmap, graph and value libraries come as the record \<open>qenv\<close>.
\<close>

section \<open>QueryExecutor\<close>

record ('b, 'g) qenv =
  q_rb :: "'b rb_ops"
  q_graph :: "'g pg_ops"
  q_vc :: value_codec

record ('b, 'g) executor =
  ex_tags :: "'b tag_index"
  ex_kv :: "'b kv_index"
  ex_range :: "'b range_index"
  ex_forward :: forward_index
  ex_ontology :: "'g ontology_state"

text \<open>The tokens of the query language are part of its error messages: a message has one constructor for each
  format string of the parser, with the arguments it formats.\<close>

datatype qtoken =
    QLParen
  | QRParen
  | QWord "byte list"
  | QStr "byte list"
  | QAtId u32
  | QObjId object_id

datatype parse_message =
    TrailingToken qtoken
  | UnterminatedString
  | ExpectedDigits
  | AtIdTooLarge
  | UnexpectedCharacter byte
  | BadObjectIdNode "byte list"
  | BadObjectIdLocal "byte list"
  | ExpectedToken qtoken qtoken
  | ExpectedTokenEof qtoken
  | ExpectedOperatorName qtoken
  | ExpectedOperatorNameEof
  | ExpectedObjectId qtoken
  | ExpectedObjectIdEof
  | ExpectedTagName qtoken
  | ExpectedTagNameEof
  | ExpectedOperator qtoken
  | ExpectedOperatorEof
  | ExpectedValue qtoken
  | ExpectedValueEof

datatype query_error =
    UnsupportedCmpOp string
  | ObjectIdTooLarge u64
  | QueryParse nat parse_message
  | QueryUnknownTag "byte list"
  | QueryUnknownOp "byte list"

definition oid_low32 :: "object_id \<Rightarrow> u32 option" where
  "oid_low32 oid =
     (let local48 = oid AND 0x0000ffffffffffff
      in if unat local48 > 2 ^ 32 - 1 then None else Some (unat local48))"

fun type_min :: "attr_value \<Rightarrow> attr_value" where
  "type_min (VInt _) = VInt (- (2 ^ 63))"
| "type_min (VFloat _) = VFloat 0xfff0000000000000"
| "type_min (VTimestamp _) = VTimestamp (- (2 ^ 63))"
| "type_min (VText _) = VText []"
| "type_min (VBlob _) = VBlob []"
| "type_min (VScoped context inner) = VScoped context (type_min inner)"

text \<open>\<open>from_utf8_lossy\<close> replaces each of the 32 bytes by the three bytes of U+FFFD.\<close>

fun type_max :: "attr_value \<Rightarrow> attr_value" where
  "type_max (VInt _) = VInt (2 ^ 63 - 1)"
| "type_max (VFloat _) = VFloat 0x7ff0000000000000"
| "type_max (VTimestamp _) = VTimestamp (2 ^ 63 - 1)"
| "type_max (VText _) = VText (concat (replicate 32 [0xef, 0xbf, 0xbd]))"
| "type_max (VBlob _) = VBlob (replicate 32 0xff)"
| "type_max (VScoped context inner) = VScoped context (type_max inner)"

subsection \<open>Leaf operators\<close>

definition eval_has_tag :: "('b, 'g) qenv \<Rightarrow> ('b, 'g) executor \<Rightarrow> tag_id \<Rightarrow> 'b" where
  "eval_has_tag en ex tag =
     (case bm_get (ex_tags ex) tag of None \<Rightarrow> rb_new (q_rb en) | Some store \<Rightarrow> ts_members store)"

text \<open>The loops over the forward index insert every object with an assertion that \<open>hit\<close> accepts.\<close>

definition scan_forward :: "('b, 'g) qenv \<Rightarrow> (assertion \<Rightarrow> bool) \<Rightarrow> forward_index \<Rightarrow> 'b" where
  "scan_forward en hit fw =
     fold (\<lambda>(oid, assertions) acc.
       fold (\<lambda>(a, _) acc.
         if hit a then (case oid_low32 oid of None \<Rightarrow> acc | Some local32 \<Rightarrow> rb_insert (q_rb en) local32 acc) else acc)
         assertions acc) fw (rb_new (q_rb en))"

fun prefix_hit :: "tag_id \<Rightarrow> byte list \<Rightarrow> assertion \<Rightarrow> bool" where
  "prefix_hit key needle (AAttr k (VText haystack)) \<longleftrightarrow> k = key \<and> take (length needle) haystack = needle"
| "prefix_hit key needle _ \<longleftrightarrow> False"

fun related_hit :: "tag_id \<Rightarrow> object_id \<Rightarrow> assertion \<Rightarrow> bool" where
  "related_hit predicate target (ARelation p t) \<longleftrightarrow> p = predicate \<and> t = target"
| "related_hit predicate target _ \<longleftrightarrow> False"

fun attr_key_hit :: "tag_id \<Rightarrow> assertion \<Rightarrow> bool" where
  "attr_key_hit key (AAttr k _) \<longleftrightarrow> k = key"
| "attr_key_hit key _ \<longleftrightarrow> False"

fun eval_prefix :: "('b, 'g) qenv \<Rightarrow> ('b, 'g) executor \<Rightarrow> tag_id \<Rightarrow> attr_value \<Rightarrow> 'b" where
  "eval_prefix en ex key (VText needle) = scan_forward en (prefix_hit key needle) (ex_forward ex)"
| "eval_prefix en ex key _ = rb_new (q_rb en)"

definition eval_related :: "('b, 'g) qenv \<Rightarrow> ('b, 'g) executor \<Rightarrow> tag_id \<Rightarrow> object_id \<Rightarrow> 'b" where
  "eval_related en ex predicate target = scan_forward en (related_hit predicate target) (ex_forward ex)"

definition objects_with_attr_key :: "('b, 'g) qenv \<Rightarrow> ('b, 'g) executor \<Rightarrow> tag_id \<Rightarrow> 'b" where
  "objects_with_attr_key en ex key = scan_forward en (attr_key_hit key) (ex_forward ex)"

definition eval_range ::
  "('b, 'g) qenv \<Rightarrow> ('b, 'g) executor \<Rightarrow> tag_id \<Rightarrow> cmp_op \<Rightarrow> attr_value \<Rightarrow> ('e, 'b) res" where
  "eval_range en ex key op v =
     (let rb = q_rb en; idx = ex_range ex; eq = range_lookup rb idx key v
      in case op of
           OpLt \<Rightarrow> range_scan rb idx key (type_min v) v
         | OpLe \<Rightarrow> rbind (range_scan rb idx key (type_min v) v) (\<lambda>acc. ok (rb_union rb acc eq))
         | OpGt \<Rightarrow> rbind (range_scan rb idx key v (type_max v)) (\<lambda>scan. ok (rb_diff rb scan eq))
         | OpGe \<Rightarrow> rbind (range_scan rb idx key v (type_max v)) (\<lambda>acc. ok (rb_union rb acc eq))
         | _ \<Rightarrow> ok (rb_new rb))"

definition eval_has_attr ::
  "('b, 'g) qenv \<Rightarrow> ('b, 'g) executor \<Rightarrow> tag_id \<Rightarrow> cmp_op \<Rightarrow> attr_value \<Rightarrow> (query_error, 'b) res" where
  "eval_has_attr en ex key op v =
     (case op of
        OpEq \<Rightarrow> kv_lookup (q_vc en) (q_rb en) (ex_kv ex) key v
      | OpNe \<Rightarrow>
          (let any_with_key = objects_with_attr_key en ex key
           in rbind (kv_lookup (q_vc en) (q_rb en) (ex_kv ex) key v) (\<lambda>eq. ok (rb_diff (q_rb en) any_with_key eq)))
      | OpPrefix \<Rightarrow> ok (eval_prefix en ex key v)
      | OpContains \<Rightarrow> err (UnsupportedCmpOp ''Contains'')
      | _ \<Rightarrow> eval_range en ex key op v)"

fun isa_loop :: "('b, 'g) qenv \<Rightarrow> ('b, 'g) executor \<Rightarrow> tag_id \<Rightarrow> tag_id list \<Rightarrow> 'b \<Rightarrow> ('e, 'b) res" where
  "isa_loop en ex tag [] acc = ok acc"
| "isa_loop en ex tag (store_tag # ts) acc =
     rbind (await (state_materialise (q_graph en) (ex_ontology ex) [store_tag])) (\<lambda>closure.
     isa_loop en ex tag ts
       (case bm_get (ex_tags ex) store_tag of
          Some store \<Rightarrow> if tag \<in> set closure then rb_union (q_rb en) acc (ts_members store) else acc
        | None \<Rightarrow> acc))"

definition eval_isa :: "('b, 'g) qenv \<Rightarrow> ('b, 'g) executor \<Rightarrow> tag_id \<Rightarrow> ('e, 'b) res" where
  "eval_isa en ex tag = isa_loop en ex tag (ti_all_tags (ex_tags ex)) (rb_new (q_rb en))"

subsection \<open>Combinators\<close>

definition universe :: "('b, 'g) qenv \<Rightarrow> ('b, 'g) executor \<Rightarrow> 'b" where
  "universe en ex =
     fold (\<lambda>(_, store) acc. rb_union (q_rb en) acc (ts_members store)) (ex_tags ex) (rb_new (q_rb en))"

fun and_loop :: "'b rb_ops \<Rightarrow> 'b \<Rightarrow> 'b list \<Rightarrow> 'b" where
  "and_loop rb acc [] = acc"
| "and_loop rb acc (other # bs) =
     (let acc' = rb_inter rb acc other in if rb_is_empty rb acc' then acc' else and_loop rb acc' bs)"

text \<open>\<open>swap_remove(0)\<close> takes the smallest bitmap and puts the last one in its place.\<close>

definition and_all :: "'b rb_ops \<Rightarrow> 'b list \<Rightarrow> 'b" where
  "and_all rb bitmaps =
     (let sorted = sort_key (rb_len rb) bitmaps in and_loop rb (hd sorted) (swap_remove 0 sorted))"

fun evaluate :: "('b, 'g) qenv \<Rightarrow> ('b, 'g) executor \<Rightarrow> query \<Rightarrow> (query_error, 'b) res"
  and eval_each :: "('b, 'g) qenv \<Rightarrow> ('b, 'g) executor \<Rightarrow> query list \<Rightarrow> (query_error, 'b list) res"
  and eval_or :: "('b, 'g) qenv \<Rightarrow> ('b, 'g) executor \<Rightarrow> query list \<Rightarrow> 'b \<Rightarrow> (query_error, 'b) res" where
  "evaluate en ex (HasTag tag) = ok (eval_has_tag en ex tag)"
| "evaluate en ex (HasAttr key op v) = eval_has_attr en ex key op v"
| "evaluate en ex (Related predicate target) = ok (eval_related en ex predicate target)"
| "evaluate en ex (QAnd qs) =
     (if qs = [] then ok (rb_new (q_rb en))
      else rbind (eval_each en ex qs) (\<lambda>bitmaps. ok (and_all (q_rb en) bitmaps)))"
| "evaluate en ex (QOr qs) = eval_or en ex qs (rb_new (q_rb en))"
| "evaluate en ex (QNot q) =
     (let u = universe en ex in rbind (evaluate en ex q) (\<lambda>inner. ok (rb_diff (q_rb en) u inner)))"
| "evaluate en ex (IsA tag) = eval_isa en ex tag"
| "eval_each en ex [] = ok []"
| "eval_each en ex (q # qs) = rbind (evaluate en ex q) (\<lambda>b. rbind (eval_each en ex qs) (\<lambda>bs. ok (b # bs)))"
| "eval_or en ex [] acc = ok acc"
| "eval_or en ex (q # qs) acc = rbind (evaluate en ex q) (\<lambda>b. eval_or en ex qs (rb_union (q_rb en) acc b))"

definition evaluate_full :: "('b, 'g) qenv \<Rightarrow> ('b, 'g) executor \<Rightarrow> query \<Rightarrow> (query_error, object_id list) res" where
  "evaluate_full en ex q =
     rbind (evaluate en ex q) (\<lambda>b. ok (map (\<lambda>entry. oid_from_parts 0 (word_of_nat entry)) (rb_iter (q_rb en) b)))"

section \<open>FacetedExplorer\<close>

definition explore ::
  "('b, 'g) qenv \<Rightarrow> ('b, 'g) executor \<Rightarrow> query \<Rightarrow> nat \<Rightarrow> (query_error, (tag_id \<times> u64) list) res" where
  "explore en ex base max_facets =
     rbind (evaluate en ex base) (\<lambda>selection.
     ok (take max_facets (facets_for (q_rb en) (ex_tags ex) selection)))"

end
