(* ===== verification/Mb_Value_Thms.thy ===== *)
theory Mb_Value_Thms
  imports Mb_Value
begin

text \<open>
  Which values the range keys order as the values themselves compare, and which they do not.
\<close>

section \<open>Lexicographic order of byte strings\<close>

lemma list_less_append:
  "length a = length b \<Longrightarrow> a @ x < b @ y \<longleftrightarrow> a < b \<or> a = b \<and> x < y" for a b :: "'a :: linorder list"
  by (induction a b rule: list_induct2) auto

lemma list_less_be_nat: "length a = length b \<Longrightarrow> a < b \<longleftrightarrow> be_nat a < be_nat b"
proof (induction a b rule: list_induct2)
  case (Cons x xs y ys)
  have lt: "be_nat xs < 256 ^ length xs" "be_nat ys < 256 ^ length xs"
    using be_nat_less [of xs] be_nat_less [of ys] Cons.hyps by simp_all
  have less: "u * n + p < v * n + q" if "u < v" and "p < n" for u v n p q :: nat
  proof -
    have "u * n + p < u * n + n" using that by simp
    also have "\<dots> = Suc u * n" by simp
    also have "\<dots> \<le> v * n" using that by (intro mult_le_mono1) simp
    finally show ?thesis by simp
  qed
  show ?case
  proof (cases "unat x" "unat y" rule: linorder_cases)
    case less': less
    then show ?thesis using less [OF less' lt(1), of "be_nat ys"] Cons.hyps
      by (simp add: be_nat_Cons word_less_nat_alt)
  next
    case greater
    then show ?thesis using less [OF greater lt(2), of "be_nat xs"] Cons.hyps
      by (auto simp: be_nat_Cons word_less_nat_alt)
  qed (use Cons in \<open>auto simp: be_nat_Cons word_less_nat_alt word_unat_eq_iff\<close>)
qed simp

lemma be_bytes_less: "m < 256 ^ k \<Longrightarrow> n < 256 ^ k \<Longrightarrow> be_bytes k m < be_bytes k n \<longleftrightarrow> m < n"
  by (simp add: list_less_be_nat be_nat_be_bytes)

lemma be_bytes_inject: "m < 256 ^ k \<Longrightarrow> n < 256 ^ k \<Longrightarrow> be_bytes k m = be_bytes k n \<longleftrightarrow> m = n"
  by (metis be_nat_be_bytes)

section \<open>Integers and timestamps\<close>

lemma i64_key: "i64_ok v \<Longrightarrow> (v + 2 ^ 63) mod 2 ^ 64 = v + 2 ^ 63 \<and> 0 \<le> v + 2 ^ 63 \<and> nat (v + 2 ^ 63) < 256 ^ 8"
  by (auto simp: i64_ok_def)

lemma int_key_less: "i64_ok a \<Longrightarrow> i64_ok b \<Longrightarrow> from_value (VInt a) < from_value (VInt b) \<longleftrightarrow> a < b"
  using i64_key [of a] i64_key [of b] by (auto simp: list_less_append be_bytes_less)

lemma timestamp_key_less:
  "i64_ok a \<Longrightarrow> i64_ok b \<Longrightarrow> from_value (VTimestamp a) < from_value (VTimestamp b) \<longleftrightarrow> a < b"
  using i64_key [of a] i64_key [of b] by (auto simp: list_less_append be_bytes_less)

lemma int_key_inject: "i64_ok a \<Longrightarrow> i64_ok b \<Longrightarrow> from_value (VInt a) = from_value (VInt b) \<longleftrightarrow> a = b"
  using int_key_less [of a b] int_key_less [of b a] by (metis linorder_less_linear less_irrefl)

lemma timestamp_key_inject:
  "i64_ok a \<Longrightarrow> i64_ok b \<Longrightarrow> from_value (VTimestamp a) = from_value (VTimestamp b) \<longleftrightarrow> a = b"
  using timestamp_key_less [of a b] timestamp_key_less [of b a] by (metis linorder_less_linear less_irrefl)

section \<open>Floating point\<close>

definition f64_bits :: "64 word \<Rightarrow> nat" where
  "f64_bits b = unat (if drop_bit 63 b AND 1 = 0 then b XOR 0x8000000000000000 else NOT b)"

lemma f64_mag: "unat (b AND 0x7fffffffffffffff) = unat b mod 2 ^ 63" for b :: "64 word"
proof -
  have "b AND 0x7fffffffffffffff = take_bit 63 b" by (simp add: take_bit_eq_mask mask_eq_exp_minus_1)
  moreover have "unat (take_bit 63 b) = take_bit 63 (unat b)" by (rule unsigned_take_bit_eq)
  ultimately show ?thesis by (simp add: take_bit_eq_mod)
qed

lemma f64_sign: "bit b 63 \<longleftrightarrow> 2 ^ 63 \<le> unat b" for b :: "64 word"
proof -
  have "bit (unat b) 63 \<longleftrightarrow> bit b 63" by (simp add: bit_unsigned_iff)
  then have "bit b 63 \<longleftrightarrow> odd (unat b div 2 ^ 63)" by (simp add: bit_iff_odd [of "unat b"])
  moreover have "unat b div 2 ^ 63 < 2" using unat64_less [of b] by (simp add: less_mult_imp_div_less)
  ultimately show ?thesis by (cases "unat b div 2 ^ 63") (auto simp: div_eq_0_iff less_2_cases_iff not_le)
qed

lemma f64_bits_eq: "f64_bits b = (if 2 ^ 63 \<le> unat b then 2 ^ 64 - 1 - unat b else unat b + 2 ^ 63)"
proof -
  have s: "drop_bit 63 b AND 1 = 0 \<longleftrightarrow> \<not> bit b 63"
    by (simp add: and_one_eq bit_iff_odd_drop_bit odd_iff_mod_2_eq_one)
  have n: "unat (NOT b) = 2 ^ 64 - 1 - unat b"
  proof -
    have "NOT b = - 1 - b" by (simp add: not_eq_complement)
    moreover have "unat (- 1 - b) = unat (- 1 :: 64 word) - unat b" by (rule unat_sub) simp
    moreover have "unat (- 1 :: 64 word) = 2 ^ 64 - 1" by (simp add: unsigned_minus_1_eq_mask mask_eq_exp_minus_1)
    ultimately show ?thesis by simp
  qed
  have x: "unat (b XOR 0x8000000000000000) = unat b + 2 ^ 63" if "\<not> bit b 63"
  proof -
    have "b AND 0x8000000000000000 = 0" using that and_exp_eq_0_iff_not_bit [of b 63] by simp
    then have "b XOR 0x8000000000000000 = b + 0x8000000000000000" by (simp add: disjunctive_add_eq_xor)
    then show ?thesis using that by (simp add: f64_sign unat_word_ariths)
  qed
  show ?thesis using s n x by (simp add: f64_bits_def f64_sign)
qed

lemma f64_ord_eq: "f64_ord b = (if 2 ^ 63 \<le> unat b then 2 ^ 63 - int (unat b) else int (unat b))"
proof -
  have "unat b mod 2 ^ 63 = (if 2 ^ 63 \<le> unat b then unat b - 2 ^ 63 else unat b)"
  proof (cases "2 ^ 63 \<le> unat b")
    case True
    then have "unat b mod 2 ^ 63 = (unat b - 2 ^ 63) mod 2 ^ 63" by (rule le_mod_geq)
    then show ?thesis using True unat64_less [of b] by simp
  qed simp
  then show ?thesis by (simp add: f64_ord_def f64_mag f64_sign of_nat_diff)
qed

lemma sign_magnitude_less:
  assumes "(if 2 ^ 63 \<le> m then 2 ^ 63 - int m else int m) < (if 2 ^ 63 \<le> n then 2 ^ 63 - int n else int n)"
    and "m < 2 ^ 64" and "n < 2 ^ 64"
  shows "(if 2 ^ 63 \<le> m then 2 ^ 64 - 1 - m else m + 2 ^ 63) < (if 2 ^ 63 \<le> n then 2 ^ 64 - 1 - n else n + 2 ^ 63)"
  using assms by (auto split: if_splits)

lemma f64_bits_less: "f64_bits b < 256 ^ 8"
  using unat64_less [of b] by (auto simp: f64_bits_eq)

lemma float_key_less: "f64_ord a < f64_ord b \<Longrightarrow> from_value (VFloat a) < from_value (VFloat b)"
proof -
  assume "f64_ord a < f64_ord b"
  then have "f64_bits a < f64_bits b"
    unfolding f64_bits_eq f64_ord_eq using unat64_less by (rule sign_magnitude_less) (rule unat64_less)
  then show ?thesis
    unfolding from_value.simps f64_bits_def [symmetric]
    by (simp add: list_less_append be_bytes_less [OF f64_bits_less f64_bits_less])
qed

section \<open>Strings\<close>

text \<open>Two strings longer than thirteen bytes with the same first thirteen are told apart by their lengths only.\<close>

definition key_faithful :: "attr_value \<Rightarrow> attr_value \<Rightarrow> bool" where
  "key_faithful a b = (case (a, b) of
       (VText s, VText t) \<Rightarrow> length s \<le> 13 \<or> take 13 s \<noteq> take 13 t
     | (VBlob s, VBlob t) \<Rightarrow> length s \<le> 13 \<or> take 13 s \<noteq> take 13 t
     | _ \<Rightarrow> True)"

definition pad_to :: "nat \<Rightarrow> byte list \<Rightarrow> byte list" where
  "pad_to n bs = take n bs @ replicate (n - length bs) 0"

lemma length_pad_to [simp]: "length (pad_to n bs) = n"
  by (simp add: pad_to_def)

lemma text_payload_pad:
  "text_payload s = pad_to 13 s @ [if length s > 13 then 1 else 0, word_of_nat (min (length s) 255)]"
  by (simp add: text_payload_def pad_to_def Let_def min_def)

lemma pad_to_less:
  assumes "s < t" and "take n s \<noteq> take n t \<or> length s \<le> n"
  shows "pad_to n s < pad_to n t \<or> pad_to n s = pad_to n t \<and> length s < length t"
  using assms
proof (induction n arbitrary: s t)
  case 0
  then show ?case by (cases t) (auto simp: pad_to_def)
next
  case (Suc n)
  obtain b t' where t: "t = b # t'" using Suc.prems(1) by (cases t) auto
  have pad: "pad_to (Suc n) (c # cs) = c # pad_to n cs" for c cs by (simp add: pad_to_def)
  have nil: "pad_to (Suc n) [] = 0 # pad_to n []" by (simp add: pad_to_def)
  show ?case
  proof (cases s)
    case Nil
    have "pad_to n [] \<le> pad_to n t'"
      using Suc.IH [of "[]" t'] by (cases t') (auto simp: pad_to_def)
    then show ?thesis by (auto simp: Nil t nil pad word_gt_0 order_le_less)
  next
    case (Cons a s')
    then show ?thesis using Suc.prems Suc.IH [of s' t'] by (auto simp: t pad)
  qed
qed

lemma text_payload_less:
  assumes "s < t" and "length s \<le> 13 \<or> take 13 s \<noteq> take 13 t"
  shows "text_payload s < text_payload t"
proof -
  have "pad_to 13 s < pad_to 13 t \<or> pad_to 13 s = pad_to 13 t \<and> length s < length t"
    using assms by (intro pad_to_less) auto
  moreover have "[if length s > 13 then 1 else 0, word_of_nat (min (length s) 255)]
      < [if length t > 13 then 1 else 0, word_of_nat (min (length t) 255) :: byte]"
    if "pad_to 13 s = pad_to 13 t" and "length s < length t"
  proof (cases "length s \<le> 13")
    case True
    then show ?thesis using that by (simp add: word_less_nat_alt unat_byte_of_nat min_def)
  next
    case False
    then have "take 13 s = take 13 t" using that by (simp add: pad_to_def)
    then show ?thesis using assms(2) False by simp
  qed
  ultimately show ?thesis by (auto simp: text_payload_pad list_less_append)
qed

section \<open>Keys of comparable values\<close>

lemma from_value_less:
  assumes "value_ok a" and "value_ok b" and "key_faithful a b" and "value_partial_cmp a b = Some Less"
  shows "from_value a < from_value b"
  using assms
proof (induction a b rule: value_partial_cmp.induct)
  case (1 a b)
  then show ?case using int_key_less [of a b] by (simp add: ordering_of_def split: if_splits)
next
  case (2 a b)
  then show ?case using float_key_less [of a b] by (simp add: ordering_of_def split: if_splits)
next
  case (4 a b)
  then show ?case using timestamp_key_less [of a b] by (simp add: ordering_of_def split: if_splits)
qed (auto simp: key_faithful_def ordering_of_def text_payload_less split: if_splits)

text \<open>The two zeros are equal numbers with different keys.\<close>

definition key_exact :: "attr_value \<Rightarrow> attr_value \<Rightarrow> bool" where
  "key_exact a b \<longleftrightarrow> key_faithful a b \<and> key_faithful b a \<and> a \<noteq> VFloat 0x8000000000000000 \<and> b \<noteq> VFloat 0x8000000000000000"

lemma cmp_swap: "value_partial_cmp a b = Some Greater \<longleftrightarrow> value_partial_cmp b a = Some Less"
  by (induction a b rule: value_partial_cmp.induct) (auto simp: ordering_of_def)

lemma f64_ord_inject:
  assumes "f64_ord a = f64_ord b" and "a \<noteq> 0x8000000000000000" and "b \<noteq> 0x8000000000000000"
  shows "a = b"
proof -
  have e: "unat (0x8000000000000000 :: 64 word) = 2 ^ 63" by simp
  have ne: "unat a \<noteq> 2 ^ 63" "unat b \<noteq> 2 ^ 63" using assms(2,3) by (simp_all only: word_unat_eq_iff e not_False_eq_True)
  have "m = n" if "(if 2 ^ 63 \<le> m then 2 ^ 63 - int m else int m) = (if 2 ^ 63 \<le> n then 2 ^ 63 - int n else int n)"
    and "m \<noteq> 2 ^ 63" and "n \<noteq> 2 ^ 63" for m n
    using that by (auto split: if_splits)
  from this [OF assms(1) [unfolded f64_ord_eq] ne] show ?thesis by (simp add: word_unat_eq_iff)
qed

lemma cmp_equal: "key_exact a b \<Longrightarrow> value_partial_cmp a b = Some Equal \<Longrightarrow> a = b"
  by (induction a b rule: value_partial_cmp.induct)
    (auto simp: ordering_of_def key_exact_def intro: f64_ord_inject split: if_splits)

lemma key_order_exact:
  assumes "value_ok a" and "value_ok b" and "key_exact a b" and "value_partial_cmp a b = Some c"
  shows "from_value a < from_value b \<longleftrightarrow> c = Less" and "from_value a = from_value b \<longleftrightarrow> c = Equal"
proof -
  have f: "key_faithful a b" "key_faithful b a" using assms(3) by (simp_all add: key_exact_def)
  show "from_value a < from_value b \<longleftrightarrow> c = Less" "from_value a = from_value b \<longleftrightarrow> c = Equal"
    using from_value_less [OF assms(1,2) f(1)] from_value_less [OF assms(2,1) f(2)] cmp_swap [of a b]
      cmp_equal [OF assms(3)] assms(4) by (cases c; force)+
qed

lemma hd_from_value: "from_value v = word_of_nat (type_tag v) # tl (from_value v)"
  by (cases v) simp_all

lemma type_tag_inject: "(word_of_nat (type_tag v) :: byte) = word_of_nat (type_tag w) \<longleftrightarrow> type_tag v = type_tag w"
  by (cases v; cases w) simp_all

lemma from_value_tag: "from_value v = from_value w \<Longrightarrow> type_tag v = type_tag w"
  by (subst (asm) hd_from_value, subst (asm) hd_from_value [of w]) (simp add: type_tag_inject)

text \<open>A key between two keys of one kind belongs to that kind.\<close>

lemma between_tag:
  assumes "from_value a \<le> from_value w" and "from_value w \<le> from_value b" and "type_tag a = type_tag b"
  shows "type_tag w = type_tag a"
proof -
  have "(word_of_nat (type_tag a) :: byte) \<le> word_of_nat (type_tag w)"
    "(word_of_nat (type_tag w) :: byte) \<le> word_of_nat (type_tag b)"
    using assms(1,2) hd_from_value [of a] hd_from_value [of b] hd_from_value [of w]
    by (metis Cons_le_Cons order.strict_implies_order order.refl)+
  then show ?thesis using assms(3) by (metis antisym type_tag_inject)
qed

text \<open>Equal values are identical, but for the two zeros.\<close>

lemma cmp_irrefl: "value_partial_cmp a a \<noteq> Some Less" "value_partial_cmp a a \<noteq> Some Greater"
  by (cases a; simp add: ordering_of_def)+

lemma f64_ord_zeros: "f64_ord 0 = 0" "f64_ord 0x8000000000000000 = 0"
  by (simp_all add: f64_ord_eq)

lemma f64_zeros_not_nan: "\<not> f64_is_nan 0" "\<not> f64_is_nan 0x8000000000000000"
  by (simp_all add: f64_is_nan_def)

lemma f64_ord_zero_cases: "f64_ord a = 0 \<Longrightarrow> a = 0 \<or> a = 0x8000000000000000"
  using f64_ord_inject [of a 0] by (auto simp: f64_ord_zeros)

lemma cmp_equal_zeros:
  assumes "value_partial_cmp a b = Some Equal"
  shows "a = b \<or> {a, b} = {VFloat 0, VFloat 0x8000000000000000}"
  using assms
proof (induction a b rule: value_partial_cmp.induct)
  case (2 a b)
  then have e: "f64_ord a = f64_ord b" by (auto simp: ordering_of_def split: if_splits)
  then consider "a = b" | "f64_ord a = 0" using f64_ord_inject [OF e] f64_ord_zeros(2) by fastforce
  then show ?case
    using e f64_ord_zero_cases [of a] f64_ord_zero_cases [of b] by cases auto
qed (auto simp: ordering_of_def split: if_splits)

lemma zero_keys_differ: "from_value (VFloat 0) \<noteq> from_value (VFloat 0x8000000000000000)"
  by (simp add: be_bytes_def le_bytes_def)

section \<open>Properties\<close>

text \<open>C34. The sixteen-byte range keys of two comparable values (numbers that are not NaN, integers and timestamps of
  64 bits, strings, blobs) compare exactly as the values do, unless the two are the zeros of floating point:
  0.0 and -0.0 are equal with different keys, and no other pair disagrees. Two different strings or blobs are
  covered when both have at most thirteen bytes or their first thirteen bytes differ.\<close>

theorem normalised_key_order:
  assumes "value_ok a" and "value_ok b" and "a = b \<or> key_faithful a b \<and> key_faithful b a"
    and "value_partial_cmp a b = Some c"
  shows "ordering_of (from_value a) (from_value b) = c \<longleftrightarrow> {a, b} \<noteq> {VFloat 0, VFloat 0x8000000000000000}"
proof (cases "{a, b} = {VFloat 0, VFloat 0x8000000000000000}")
  case True
  then have "c = Equal" using assms(4) by (auto simp: doubleton_eq_iff ordering_of_def f64_ord_zeros f64_zeros_not_nan)
  moreover have "from_value a \<noteq> from_value b" using True zero_keys_differ by (auto simp: doubleton_eq_iff)
  ultimately show ?thesis using True by (auto simp: ordering_of_def)
next
  case False
  have "a = b" if "c = Equal" using cmp_equal_zeros [of a b] assms(4) that False by blast
  moreover have "from_value a < from_value b" if "c = Less"
    using from_value_less [OF assms(1,2)] assms(3,4) that cmp_irrefl [of a] by auto
  moreover have "from_value b < from_value a" if "c = Greater"
    using from_value_less [OF assms(2,1)] assms(3,4) that cmp_irrefl [of a] cmp_swap [of a b] by auto
  ultimately show ?thesis using False by (cases c) (auto simp: ordering_of_def)
qed

theorem normalised_key_order_witness:
  "ordering_of (from_value (VInt (- 5))) (from_value (VInt 7)) = Less \<and>
   ordering_of (from_value (VText [97, 0])) (from_value (VText [97])) = Greater \<and>
   ordering_of (from_value (VFloat 0)) (from_value (VFloat 0x8000000000000000)) \<noteq> Equal"
proof (intro conjI)
  show "ordering_of (from_value (VInt (- 5))) (from_value (VInt 7)) = Less"
    using normalised_key_order [of "VInt (- 5)" "VInt 7" Less] by (auto simp: i64_ok_def ordering_of_def key_faithful_def doubleton_eq_iff simp del: from_value.simps)
  show "ordering_of (from_value (VText [97, 0])) (from_value (VText [97])) = Greater"
    using normalised_key_order [of "VText [97, 0]" "VText [97]" Greater] by (auto simp: ordering_of_def key_faithful_def doubleton_eq_iff simp del: from_value.simps)
  show "ordering_of (from_value (VFloat 0)) (from_value (VFloat 0x8000000000000000)) \<noteq> Equal"
    using normalised_key_order [of "VFloat 0" "VFloat 0x8000000000000000" Equal]
    by (simp add: f64_zeros_not_nan f64_ord_zeros key_faithful_def del: from_value.simps) (simp add: ordering_of_def)
qed

text \<open>Beyond thirteen bytes the key does not follow the order of the strings: of two strings with the same
  thirteen first bytes the shorter one has the smaller key, whichever is smaller, and strings of the same length
  share one key.\<close>

theorem long_text_key_order:
  assumes "length p = 13" and "s \<noteq> []" and "length s < length t" and "length t \<le> 200" and "length u = length t"
  shows "from_value (VText (p @ s)) < from_value (VText (p @ t)) \<and>
    from_value (VText (p @ u)) = from_value (VText (p @ t))"
proof -
  have "(word_of_nat (length (p @ s)) :: byte) < word_of_nat (length (p @ t))"
    using assms by (simp add: word_less_nat_alt unat_byte_of_nat del: of_nat_add)
  moreover have "t \<noteq> []" using assms by auto
  ultimately have "from_value (VText (p @ s)) < from_value (VText (p @ t))"
    using assms by (simp add: text_payload_pad pad_to_def list_less_append)
  moreover have "from_value (VText (p @ u)) = from_value (VText (p @ t))"
    using assms by (simp add: text_payload_pad pad_to_def)
  ultimately show ?thesis by blast
qed

theorem long_text_key_order_witness:
  "(let p = replicate 13 97 :: byte list in
     p @ [97, 97] < p @ [98] \<and> from_value (VText (p @ [98])) < from_value (VText (p @ [97, 97])) \<and>
     from_value (VText (p @ [98, 98])) = from_value (VText (p @ [97, 97])))"
  using long_text_key_order [of "replicate 13 97" "[98]" "[97, 97]" "[98, 98]"] by (simp add: Let_def list_less_append)

end
