(* ===== verification/Mb_Index_Thms.thy ===== *)
theory Mb_Index_Thms
  imports Mb_Index Mb_Value_Thms
begin

text \<open>
  The indexes as sets: which objects a bitmap of the tag, key-value or range index stands for, what every
  operation does to these sets, and the facts the forward index holds.
\<close>

section \<open>Bitmaps of an index\<close>

definition opt_bits :: "('b \<Rightarrow> u32 set) \<Rightarrow> 'b option \<Rightarrow> u32 set" where
  "opt_bits bset o' = (case o' of None \<Rightarrow> {} | Some b \<Rightarrow> bset b)"

definition map_bits :: "('b \<Rightarrow> u32 set) \<Rightarrow> ('k :: linorder, 'b) btree_map \<Rightarrow> 'k \<Rightarrow> u32 set" where
  "map_bits bset m k = opt_bits bset (bm_get m k)"

definition tag_bits :: "('b \<Rightarrow> u32 set) \<Rightarrow> 'b tag_index \<Rightarrow> tag_id \<Rightarrow> u32 set" where
  "tag_bits bset idx t = opt_bits bset (map_option ts_members (bm_get idx t))"

lemma opt_bits_simps [simp]: "opt_bits bset None = {}" "opt_bits bset (Some b) = bset b"
  by (simp_all add: opt_bits_def)

lemma ts_members_set [simp]: "ts_members (ts_set_members b s) = b"
  by (cases s) simp_all

lemma ts_members_drop [simp]: "ts_members (ts_drop_listed oid s) = ts_members s"
  by (cases s) simp_all

lemma ts_members_upgrade [simp]:
  "ts_members (ts_upgrade_to_ordered rb s) = ts_members s" "ts_members (ts_upgrade_to_ranked rb s) = ts_members s"
  by (cases s; simp add: ts_upgrade_to_ranked_def Let_def)+

lemma remove_all_fst: "map fst (fst (remove_object_from_all rb oid idx)) = map fst idx"
  by (induction idx) (auto simp: Let_def split: prod.splits)

lemma remove_all_wf: "bm_wf idx \<Longrightarrow> bm_wf (fst (remove_object_from_all rb oid idx))"
  by (simp add: bm_wf_def remove_all_fst)

context roaring
begin

lemma bitmap_put_wf: "bm_wf m \<Longrightarrow> bm_wf (bitmap_put rb k x m)"
  by (simp add: bitmap_put_def bm_wf_insert)

lemma bitmap_del_wf: "bm_wf m \<Longrightarrow> bm_wf (fst (bitmap_del rb k x m))"
  by (auto simp: bitmap_del_def Let_def bm_wf_insert bm_wf_remove split: option.splits prod.splits)

lemma bitmap_put_bits:
  assumes "bm_wf m" and "x < 2 ^ 32"
  shows "map_bits bset (bitmap_put rb k x m) = (map_bits bset m)(k := insert x (map_bits bset m k))"
  using assms by (auto simp: fun_eq_iff map_bits_def bitmap_put_def bm_get_insert insert_set new_set split: option.splits)

lemma bitmap_del_bits:
  assumes "bm_wf m" and "x < 2 ^ 32"
  shows "map_bits bset (fst (bitmap_del rb k x m)) = (map_bits bset m)(k := map_bits bset m k - {x})"
proof (cases "bm_get m k")
  case None
  then show ?thesis by (auto simp: fun_eq_iff map_bits_def bitmap_del_def)
next
  case (Some b)
  have e: "rb_is_empty rb (fst (rb_remove rb x b)) \<longleftrightarrow> bset b - {x} = {}"
    using assms(2) by (simp add: is_empty_set remove_set)
  have "map_bits bset (fst (bitmap_del rb k x m)) k' = ((map_bits bset m)(k := map_bits bset m k - {x})) k'" for k'
    using Some e assms
    by (auto simp: map_bits_def bitmap_del_def Let_def bm_get_insert bm_get_remove remove_set split_beta)
  then show ?thesis by blast
qed

lemma tag_add_bits:
  assumes "bm_wf idx"
  shows "tag_bits bset (ti_add_member rb t oid idx) = (tag_bits bset idx)(t := insert (oid_entry oid) (tag_bits bset idx t))"
  using assms oid_entry_less [of oid]
  by (auto simp: fun_eq_iff tag_bits_def ti_add_member_def bm_get_insert ts_add_member_def insert_set new_set split: option.splits)

lemma tag_remove_bits:
  assumes "bm_wf idx"
  shows "tag_bits bset (fst (ti_remove_member rb t oid idx)) = (tag_bits bset idx)(t := tag_bits bset idx t - {oid_entry oid})"
  using assms oid_entry_less [of oid]
  by (auto simp: fun_eq_iff tag_bits_def ti_remove_member_def bm_get_insert ts_remove_member_def remove_set Let_def split_beta
      split: option.splits)

lemma tag_add_wf: "bm_wf idx \<Longrightarrow> bm_wf (ti_add_member rb t oid idx)"
  by (simp add: ti_add_member_def bm_wf_insert)

lemma tag_remove_wf: "bm_wf idx \<Longrightarrow> bm_wf (fst (ti_remove_member rb t oid idx))"
  by (auto simp: ti_remove_member_def Let_def bm_wf_insert split: option.splits prod.splits)

lemma tag_remove_all_get:
  "bm_get (fst (remove_object_from_all rb oid idx)) t = map_option (\<lambda>s. fst (ts_remove_member rb oid s)) (bm_get idx t)"
  by (induction idx) (auto simp: Let_def split: prod.splits)

lemma tag_remove_all_bits:
  "tag_bits bset (fst (remove_object_from_all rb oid idx)) t = tag_bits bset idx t - {oid_entry oid}"
  using oid_entry_less [of oid]
  by (cases "bm_get idx t")
    (simp_all add: tag_bits_def tag_remove_all_get ts_remove_member_def remove_set Let_def split_beta)

text \<open>The tag list reported by the removal is the list of the tags that held the object.\<close>

lemma tag_remove_all_tags:
  "snd (remove_object_from_all rb oid idx) = map fst (filter (\<lambda>(t, s). oid_entry oid \<in> bset (ts_members s)) idx)"
  using oid_entry_less [of oid]
  by (induction idx) (auto simp: Let_def ts_remove_member_def remove_was split_beta)

lemma rows_union:
  "bset (fold (\<lambda>(_, b) acc. rb_union rb acc b) rows acc) = bset acc \<union> (\<Union>(k, b)\<in>set rows. bset b)"
  by (induction rows arbitrary: acc) (auto simp: union_set)

lemma rows_map_bits: "bm_wf m \<Longrightarrow> (\<Union>(k, b)\<in>set m \<inter> {(k, b). P k}. bset b) = (\<Union>k\<in>Collect P. map_bits bset m k)"
  by (fastforce simp: map_bits_def opt_bits_def bm_get_mem split: option.splits)

lemma range_scan_bits:
  assumes "bm_wf idx" and "from_value low \<le> from_value high"
  shows "\<exists>b. range_scan rb idx tag low high = ok b \<and>
    bset b = (\<Union>k\<in>{k. from_value low \<le> k \<and> k < from_value high}. map_bits bset idx (tag, k))"
proof -
  have le: "\<not> (tag, from_value high) < (tag, from_value low)" using assms(2) by auto
  let ?P = "\<lambda>k. (tag, from_value low) \<le> k \<and> k < (tag, from_value high)"
  have "set (filter (\<lambda>(k, _). ?P k) idx) = set idx \<inter> {(k, b). ?P k}" by auto
  moreover have "Collect ?P = Pair tag ` {k. from_value low \<le> k \<and> k < from_value high}"
    by (auto simp: less_eq_prod_def less_prod_def)
  ultimately show ?thesis
    using le rows_map_bits [OF assms(1), of ?P]
    by (simp add: range_scan_def bm_range_half_open_def rows_union new_set)
qed

lemma range_lookup_bits: "bset (range_lookup rb idx tag v) = map_bits bset idx (tag, from_value v)"
  by (simp add: range_lookup_def map_bits_def new_set split: option.splits)

lemma intersect_from_bits:
  "bset (intersect_from rb idx acc ts) = bset acc \<inter> (\<Inter>t\<in>set ts. tag_bits bset idx t)"
  by (induction ts arbitrary: acc) (auto simp: query_simple_def tag_bits_def new_set inter_set split: option.splits)

lemma ti_intersect_bits: "ts \<noteq> [] \<Longrightarrow> bset (ti_intersect rb idx ts) = (\<Inter>t\<in>set ts. tag_bits bset idx t)"
  by (cases ts) (auto simp: query_simple_def tag_bits_def new_set intersect_from_bits split: option.splits)

lemma ti_union_bits: "bset (ti_union rb idx ts) = (\<Union>t\<in>set ts. tag_bits bset idx t)"
proof -
  have "bset (fold (\<lambda>t acc. case query_simple idx t of None \<Rightarrow> acc | Some b \<Rightarrow> rb_union rb acc b) ts acc) =
      bset acc \<union> (\<Union>t\<in>set ts. tag_bits bset idx t)" for acc
    by (induction ts arbitrary: acc) (auto simp: query_simple_def tag_bits_def union_set split: option.splits)
  then show ?thesis by (simp add: ti_union_def new_set)
qed

end

section \<open>Facts of the forward index\<close>

text \<open>The assertions of an object as a multiset: \<open>swap_remove\<close> does not keep their order.\<close>

definition fw_count :: "forward_index \<Rightarrow> object_id \<Rightarrow> assertion \<Rightarrow> nat" where
  "fw_count fw oid a = count (mset (map fst (fw_assertions_of fw oid))) a"

definition fw_facts :: "forward_index \<Rightarrow> (object_id \<times> assertion) set" where
  "fw_facts fw = {(oid, a). 0 < fw_count fw oid a}"

lemma fw_facts_iff: "(oid, a) \<in> fw_facts fw \<longleftrightarrow> a \<in> fst ` set (fw_assertions_of fw oid)"
proof -
  have "0 < count M a \<longleftrightarrow> a \<in># M" for M by simp
  then show ?thesis by (simp add: fw_facts_def fw_count_def)
qed

lemma fw_facts_count: "(oid, a) \<in> fw_facts fw \<longleftrightarrow> 0 < fw_count fw oid a"
  by (simp add: fw_facts_def)

lemma fw_assertions_insert: "bm_wf fw \<Longrightarrow> fw_assertions_of (bm_insert oid v fw) = (fw_assertions_of fw)(oid := v)"
  by (auto simp: fw_assertions_of_def bm_get_insert fun_eq_iff)

lemma fw_assertions_delete: "bm_wf fw \<Longrightarrow> fw_assertions_of (bm_remove oid fw) = (fw_assertions_of fw)(oid := [])"
  by (auto simp: fw_assertions_of_def bm_get_remove fun_eq_iff)

lemma fw_add_wf: "bm_wf fw \<Longrightarrow> bm_wf (fw_add_assertion oid a og fw)"
  by (simp add: fw_add_assertion_def bm_wf_insert)

lemma fw_add_count:
  "bm_wf fw \<Longrightarrow> fw_count (fw_add_assertion oid a og fw) oid' a' = fw_count fw oid' a' + (if oid' = oid \<and> a' = a then 1 else 0)"
  by (simp add: fw_count_def fw_add_assertion_def fw_assertions_insert)

lemma position_Some: "position P xs = Some i \<Longrightarrow> i < length xs \<and> P (xs ! i)"
  by (induction xs arbitrary: i) (auto split: if_splits)

lemma position_None: "position P xs = None \<longleftrightarrow> (\<forall>x\<in>set xs. \<not> P x)"
  by (induction xs) auto

lemma swap_remove_mset: "i < length xs \<Longrightarrow> mset (swap_remove i xs) = mset xs - {#xs ! i#}"
proof -
  assume i: "i < length xs"
  then have ne: "xs \<noteq> []" by auto
  let ?ys = "xs[i := last xs]"
  have "?ys = butlast ?ys @ [last ?ys]" using ne by simp
  then have "mset ?ys = add_mset (last ?ys) (mset (butlast ?ys))" by (metis union_mset_add_mset_right mset.simps mset_append add_0_right)
  moreover have "last ?ys = last xs" using ne i by (simp add: last_list_update)
  moreover have "mset ?ys = add_mset (last xs) (mset xs - {#xs ! i#})" using i by (simp add: mset_update)
  ultimately show ?thesis by (simp add: swap_remove_def)
qed

text \<open>Removing an assertion takes out one that is equal to it, if there is one.\<close>

lemma fw_remove_cases:
  assumes "bm_wf fw"
  obtains (absent) "fw_remove_assertion oid a fw = (fw, False)" "\<forall>a'. assertion_eq a' a \<longrightarrow> fw_count fw oid a' = 0"
  | (removed) a' fw' where "fw_remove_assertion oid a fw = (fw', True)" "assertion_eq a' a" "0 < fw_count fw oid a'"
      "bm_wf fw'" "\<And>o' c. fw_count fw' o' c = fw_count fw o' c - (if o' = oid \<and> c = a' then 1 else 0)"
proof (cases "position (\<lambda>(a', _). assertion_eq a' a) (fw_assertions_of fw oid)")
  case None
  then have "fw_remove_assertion oid a fw = (fw, False)"
    by (auto simp: fw_remove_assertion_def fw_assertions_of_def split: option.splits)
  moreover have "\<forall>a'. assertion_eq a' a \<longrightarrow> fw_count fw oid a' = 0"
    using None by (auto simp: position_None fw_count_def count_eq_zero_iff)
  ultimately show ?thesis by (rule absent)
next
  case (Some i)
  let ?v = "fw_assertions_of fw oid"
  obtain a' og where x: "?v ! i = (a', og)" by fastforce
  have i: "i < length ?v" and eq: "assertion_eq a' a" using position_Some [OF Some] x by auto
  have get: "bm_get fw oid = Some ?v" using i by (cases "bm_get fw oid") (auto simp: fw_assertions_of_def)
  let ?v' = "swap_remove i ?v"
  let ?fw' = "if ?v' = [] then bm_remove oid fw else bm_insert oid ?v' fw"
  have r: "fw_remove_assertion oid a fw = (?fw', True)" using Some get by (simp add: fw_remove_assertion_def Let_def)
  have as: "fw_assertions_of ?fw' = (fw_assertions_of fw)(oid := ?v')"
    using assms by (auto simp: fw_assertions_insert fw_assertions_delete)
  have mem: "(a', og) \<in> set ?v" using i x by (metis nth_mem)
  then have m: "mset (map fst ?v') = mset (map fst ?v) - {#a'#}"
    using swap_remove_mset [OF i] x image_mset_Diff [of "{#(a', og)#}" "mset ?v" fst] by simp
  have "0 < fw_count fw oid a'" using mem fw_facts_iff [of oid a' fw] by (force simp: fw_facts_count)
  moreover have "bm_wf ?fw'" using assms by (simp add: bm_wf_insert bm_wf_remove)
  moreover have "fw_count ?fw' o' c = fw_count fw o' c - (if o' = oid \<and> c = a' then 1 else 0)" for o' c
    unfolding fw_count_def as using m by auto
  ultimately show ?thesis using r eq by (intro removed)
qed

lemma fw_remove_object_count:
  "bm_wf fw \<Longrightarrow> fw_count (fst (fw_remove_object oid fw)) oid' a = (if oid' = oid then 0 else fw_count fw oid' a)"
  by (simp add: fw_count_def fw_remove_object_def fw_assertions_delete)

lemma assertion_eq_ATag [simp]: "assertion_eq a (ATag t) \<longleftrightarrow> a = ATag t"
  by (cases a) auto

lemma assertion_eq_ARelation [simp]: "assertion_eq a (ARelation p t) \<longleftrightarrow> a = ARelation p t"
  by (cases a) auto

end
