(* ===== verification/Mb_Query_Thms.thy ===== *)
theory Mb_Query_Thms
  imports Mb_Query Mb_Index_Thms Mb_Ontology_Thms
begin

text \<open>
  The meaning of queries over the facts of the forward index, and the proof that the executor computes it
  from indexes that agree with those facts.
\<close>

section \<open>The meaning of a query\<close>

type_synonym facts = "(object_id \<times> assertion) set"

definition holding :: "facts \<Rightarrow> tag_id \<Rightarrow> (attr_value \<Rightarrow> bool) \<Rightarrow> object_id set" where
  "holding F k P = {oid. \<exists>w. (oid, AAttr k w) \<in> F \<and> P w}"

fun has_prefix :: "attr_value \<Rightarrow> attr_value \<Rightarrow> bool" where
  "has_prefix (VText needle) (VText hay) \<longleftrightarrow> take (length needle) hay = needle"
| "has_prefix _ _ \<longleftrightarrow> False"

fun attr_sem :: "facts \<Rightarrow> tag_id \<Rightarrow> cmp_op \<Rightarrow> attr_value \<Rightarrow> object_id set" where
  "attr_sem F k OpEq v = holding F k (\<lambda>w. w = v)"
| "attr_sem F k OpNe v = holding F k (\<lambda>_. True) - holding F k (\<lambda>w. w = v)"
| "attr_sem F k OpLt v = holding F k (\<lambda>w. value_partial_cmp w v = Some Less)"
| "attr_sem F k OpLe v = holding F k (\<lambda>w. value_partial_cmp w v \<in> {Some Less, Some Equal})"
| "attr_sem F k OpGt v = holding F k (\<lambda>w. value_partial_cmp w v = Some Greater)"
| "attr_sem F k OpGe v = holding F k (\<lambda>w. value_partial_cmp w v \<in> {Some Greater, Some Equal})"
| "attr_sem F k OpPrefix v = holding F k (has_prefix v)"
| "attr_sem F k OpContains v = {}"

text \<open>\<open>C s\<close> is the set of the tags that \<open>s\<close> implies, itself included. The complement is taken within the
  tagged objects, and an empty conjunction selects nothing.\<close>

fun qsem :: "facts \<Rightarrow> (tag_id \<Rightarrow> tag_id set) \<Rightarrow> query \<Rightarrow> object_id set" where
  "qsem F C (HasTag t) = {oid. (oid, ATag t) \<in> F}"
| "qsem F C (HasAttr k op v) = attr_sem F k op v"
| "qsem F C (Related p target) = {oid. (oid, ARelation p target) \<in> F}"
| "qsem F C (QAnd qs) = (if qs = [] then {} else \<Inter> (qsem F C ` set qs))"
| "qsem F C (QOr qs) = \<Union> (qsem F C ` set qs)"
| "qsem F C (QNot q) = {oid. \<exists>t. (oid, ATag t) \<in> F} - qsem F C q"
| "qsem F C (IsA t) = {oid. \<exists>s. (oid, ATag s) \<in> F \<and> t \<in> C s}"

section \<open>Queries the indexes can answer\<close>

definition hash_of :: "value_codec \<Rightarrow> byte list \<Rightarrow> attr_value \<Rightarrow> u64 option" where
  "hash_of vc secret v = (case value_hash vc v secret :: (unit, u64) res of Inl _ \<Rightarrow> None | Inr h \<Rightarrow> Some h)"

definition stored :: "facts \<Rightarrow> tag_id \<Rightarrow> attr_value set" where
  "stored F k = {w. \<exists>oid. (oid, AAttr k w) \<in> F}"

definition rangeable :: "attr_value set \<Rightarrow> attr_value \<Rightarrow> bool" where
  "rangeable W v \<longleftrightarrow> value_ok v \<and>
     (\<forall>w\<in>insert v W. type_tag w = type_tag v \<longrightarrow> value_partial_cmp w v \<noteq> None \<and> key_exact w v)"

text \<open>The upper end of a scan is excluded.\<close>

definition below_max :: "attr_value set \<Rightarrow> attr_value \<Rightarrow> bool" where
  "below_max W v \<longleftrightarrow> (\<forall>w\<in>insert v W. type_tag w = type_tag v \<longrightarrow> from_value w < from_value (type_max v))"

fun attr_answerable :: "value_codec \<Rightarrow> byte list \<Rightarrow> facts \<Rightarrow> tag_id \<Rightarrow> cmp_op \<Rightarrow> attr_value \<Rightarrow> bool" where
  "attr_answerable vc secret F k OpPrefix v \<longleftrightarrow> True"
| "attr_answerable vc secret F k OpContains v \<longleftrightarrow> False"
| "attr_answerable vc secret F k OpLt v \<longleftrightarrow> rangeable (stored F k) v"
| "attr_answerable vc secret F k OpLe v \<longleftrightarrow> rangeable (stored F k) v"
| "attr_answerable vc secret F k OpGe v \<longleftrightarrow> rangeable (stored F k) v \<and> below_max (stored F k) v"
| "attr_answerable vc secret F k OpGt v \<longleftrightarrow> rangeable (stored F k) v \<and> below_max (stored F k) v \<and>
     holding F k (\<lambda>w. w = v) \<inter> holding F k (\<lambda>w. value_partial_cmp w v = Some Greater) = {}"
| "attr_answerable vc secret F k _ v \<longleftrightarrow>
     hash_of vc secret v \<noteq> None \<and> (\<forall>w\<in>stored F k. hash_of vc secret w = hash_of vc secret v \<longrightarrow> w = v)"

fun answerable :: "value_codec \<Rightarrow> byte list \<Rightarrow> facts \<Rightarrow> query \<Rightarrow> bool" where
  "answerable vc secret F (HasAttr k op v) \<longleftrightarrow> attr_answerable vc secret F k op v"
| "answerable vc secret F (QAnd qs) \<longleftrightarrow> (\<forall>q\<in>set qs. answerable vc secret F q)"
| "answerable vc secret F (QOr qs) \<longleftrightarrow> (\<forall>q\<in>set qs. answerable vc secret F q)"
| "answerable vc secret F (QNot q) \<longleftrightarrow> answerable vc secret F q"
| "answerable vc secret F _ \<longleftrightarrow> True"

section \<open>Indexes that agree with the facts\<close>

definition index_rep :: "('b \<Rightarrow> u32 set) \<Rightarrow> value_codec \<Rightarrow> 'b tag_index \<Rightarrow> 'b kv_index \<Rightarrow> 'b range_index \<Rightarrow> facts \<Rightarrow> bool" where
  "index_rep bset vc tags kv rng F \<longleftrightarrow>
     bm_wf tags \<and> bm_wf (kv_entries kv) \<and> bm_wf rng \<and>
     (\<forall>oid a. (oid, a) \<in> F \<longrightarrow> unat oid < 2 ^ 32) \<and>
     (\<forall>oid k v. (oid, AAttr k v) \<in> F \<longrightarrow> value_ok v) \<and>
     (\<forall>t. tag_bits bset tags t = unat ` {oid. (oid, ATag t) \<in> F}) \<and>
     (\<forall>k h. map_bits bset (kv_entries kv) (k, h) = unat ` holding F k (\<lambda>w. hash_of vc (kv_secret kv) w = Some h)) \<and>
     (\<forall>k n. map_bits bset rng (k, n) = unat ` holding F k (\<lambda>w. from_value w = n))"

lemma index_repD:
  assumes "index_rep bset vc tags kv rng F"
  shows "bm_wf tags" "bm_wf (kv_entries kv)" "bm_wf rng" "(oid, a) \<in> F \<Longrightarrow> unat oid < 2 ^ 32"
    "(oid, AAttr k v) \<in> F \<Longrightarrow> value_ok v" "tag_bits bset tags t = unat ` {oid. (oid, ATag t) \<in> F}"
    "map_bits bset (kv_entries kv) (k, h) = unat ` holding F k (\<lambda>w. hash_of vc (kv_secret kv) w = Some h)"
    "map_bits bset rng (k, n) = unat ` holding F k (\<lambda>w. from_value w = n)"
  using assms unfolding index_rep_def by (simp_all del: all_simps)

lemma value_hash_cases:
  "(value_hash vc v secret :: ('e, u64) res) = (case hash_of vc secret v of None \<Rightarrow> Inl Panic | Some h \<Rightarrow> ok h)"
  by (auto simp: hash_of_def value_hash_def Let_def split: attr_value.splits sum.splits)

lemma unat_oid_inj: "inj_on unat S" for S :: "'a :: len word set"
  by (simp add: inj_on_def word_unat_eq_iff)

lemma holding_Union: "(\<Union>n\<in>N. unat ` holding F k (\<lambda>w. f w = n)) = unat ` holding F k (\<lambda>w. f w \<in> N)"
  by (auto simp: holding_def)

lemma holding_cong: "(\<And>w. w \<in> stored F k \<Longrightarrow> P w \<longleftrightarrow> Q w) \<Longrightarrow> holding F k P = holding F k Q"
  by (auto simp: holding_def stored_def)

lemma holding_or: "holding F k P \<union> holding F k Q = holding F k (\<lambda>w. P w \<or> Q w)"
  by (auto simp: holding_def)

section \<open>Ends of a range scan\<close>

lemma type_tag_min [simp]: "type_tag (type_min v) = type_tag v"
  by (cases v) simp_all

lemma type_tag_max [simp]: "type_tag (type_max v) = type_tag v"
  by (cases v) simp_all

lemma zeros_le: "replicate n (0 :: byte) \<le> xs" if "length xs = n"
  using that
proof (induction n arbitrary: xs)
  case (Suc n)
  then obtain y ys where "xs = y # ys" "length ys = n" by (auto simp: length_Suc_conv)
  then show ?case using Suc.IH [of ys] by (cases "y = 0") (simp_all add: word_gt_0)
qed simp

lemma text_payload_Nil_le: "text_payload [] \<le> text_payload s"
  using zeros_le [of "text_payload s" 15] by (simp add: text_payload_def [of "[]"] numeral_eq_Suc)

lemma f64_ord_min: "f64_ord 0xfff0000000000000 = - 0x7ff0000000000000"
  by (simp add: f64_ord_eq)

lemma f64_min_le: "\<not> f64_is_nan b \<Longrightarrow> f64_ord 0xfff0000000000000 \<le> f64_ord b"
proof -
  assume "\<not> f64_is_nan b"
  then have "unat (b AND 0x7fffffffffffffff) \<le> 0x7ff0000000000000"
    by (simp add: f64_is_nan_def not_less word_le_nat_alt)
  moreover have "- 0x7ff0000000000000 \<le> (if c then - int m else int m)" if "m \<le> 0x7ff0000000000000" for m c
    using that by auto
  ultimately have "- 0x7ff0000000000000 \<le> f64_ord b" unfolding f64_ord_def by blast
  then show ?thesis by (simp only: f64_ord_min)
qed

lemma type_min_le:
  assumes "value_ok w" and "value_partial_cmp w v \<noteq> None"
  shows "from_value (type_min v) \<le> from_value w"
  using assms
proof (induction w v rule: value_partial_cmp.induct)
  case (1 a b)
  then show ?case using int_key_less [of a "- (2 ^ 63)"] by (fastforce simp: i64_ok_def not_less simp del: from_value.simps)
next
  case (2 a b)
  then have n: "\<not> f64_is_nan a" by (auto split: if_splits)
  show ?case
  proof (cases "f64_ord 0xfff0000000000000 < f64_ord a")
    case True
    then show ?thesis using float_key_less by (simp del: from_value.simps add: order_le_less)
  next
    case False
    then have "f64_ord 0xfff0000000000000 = f64_ord a" using f64_min_le [OF n] by simp
    moreover have "f64_ord 0x8000000000000000 = 0" by (simp add: f64_ord_eq)
    ultimately have "a = 0xfff0000000000000" by (intro f64_ord_inject) (auto simp: f64_ord_min)
    then show ?thesis by simp
  qed
next
  case (4 a b)
  then show ?case using timestamp_key_less [of a "- (2 ^ 63)"] by (fastforce simp: i64_ok_def not_less simp del: from_value.simps)
qed (simp_all add: text_payload_Nil_le)

text \<open>The keys that a scan below or above \<open>v\<close> meets are those of the smaller or greater values.\<close>

lemma scan_below:
  assumes "rangeable W v" and "w \<in> W" and "value_ok w"
  shows "from_value (type_min v) \<le> from_value w \<and> from_value w < from_value v \<longleftrightarrow> value_partial_cmp w v = Some Less"
proof (cases "type_tag w = type_tag v")
  case True
  then obtain c where "value_partial_cmp w v = Some c" "key_exact w v" using assms by (auto simp: rangeable_def)
  then show ?thesis using key_order_exact [of w v c] type_min_le [of w v] assms by (auto simp: rangeable_def)
next
  case False
  then have "value_partial_cmp w v = None" by (induction w v rule: value_partial_cmp.induct) auto
  then show ?thesis using between_tag [of "type_min v" w v] False by (auto dest: order.strict_implies_order)
qed

lemma scan_above:
  assumes "rangeable W v" and "below_max W v" and "w \<in> W" and "value_ok w"
  shows "from_value v \<le> from_value w \<and> from_value w < from_value (type_max v) \<longleftrightarrow>
    value_partial_cmp w v \<in> {Some Greater, Some Equal}"
proof (cases "type_tag w = type_tag v")
  case True
  then obtain c where c: "value_partial_cmp w v = Some c" "key_exact w v" using assms by (auto simp: rangeable_def)
  have "from_value w < from_value (type_max v)" using assms True by (simp add: below_max_def)
  moreover have "from_value v \<le> from_value w \<longleftrightarrow> c \<noteq> Less"
    using key_order_exact(1) [of w v c] c assms by (auto simp: rangeable_def not_less [symmetric])
  ultimately show ?thesis using c by (cases c) auto
next
  case False
  then have "value_partial_cmp w v = None" by (induction w v rule: value_partial_cmp.induct) auto
  then show ?thesis using between_tag [of v w "type_max v"] False by (auto dest: order.strict_implies_order)
qed

lemma scan_equal:
  assumes "rangeable W v" and "w \<in> W" and "value_ok w"
  shows "from_value w = from_value v \<longleftrightarrow> value_partial_cmp w v = Some Equal" and "from_value w = from_value v \<longleftrightarrow> w = v"
proof -
  show "from_value w = from_value v \<longleftrightarrow> value_partial_cmp w v = Some Equal"
  proof (cases "type_tag w = type_tag v")
    case True
    then obtain c where "value_partial_cmp w v = Some c" "key_exact w v" using assms by (auto simp: rangeable_def)
    then show ?thesis using key_order_exact(2) [of w v c] assms by (auto simp: rangeable_def)
  next
    case False
    then have "value_partial_cmp w v = None" by (induction w v rule: value_partial_cmp.induct) auto
    then show ?thesis using from_value_tag [of w v] False by auto
  qed
  then show "from_value w = from_value v \<longleftrightarrow> w = v"
    using cmp_equal [of w v] from_value_tag [of w v] assms by (auto simp: rangeable_def)
qed

section \<open>The executor\<close>

lemma oid_low32_small: "unat oid < 2 ^ 32 \<Longrightarrow> oid_low32 oid = Some (unat oid)"
proof -
  assume small: "unat oid < 2 ^ 32"
  have "oid AND 0x0000ffffffffffff = take_bit 48 oid" by (simp add: take_bit_eq_mask mask_eq_exp_minus_1)
  moreover have "unat (take_bit 48 oid) = take_bit 48 (unat oid)" by (rule unsigned_take_bit_eq)
  moreover have "take_bit 48 (unat oid) = unat oid"
    using small by (simp add: take_bit_eq_mod)
  ultimately have "unat (oid AND 0x0000ffffffffffff) = unat oid" by simp
  then show ?thesis using small by (simp add: oid_low32_def Let_def)
qed

lemma fw_facts_rows: "bm_wf fw \<Longrightarrow> (oid, a) \<in> fw_facts fw \<longleftrightarrow> (\<exists>v. (oid, v) \<in> set fw \<and> a \<in> fst ` set v)"
  by (cases "bm_get fw oid") (auto simp: fw_facts_iff fw_assertions_of_def bm_get_mem)

lemma length_swap_remove0: "xs \<noteq> [] \<Longrightarrow> mset (hd xs # swap_remove 0 xs) = mset xs"
  using swap_remove_mset [of 0 xs] by (cases xs) auto

lemma qsem_ids: "oid \<in> qsem F C q \<Longrightarrow> \<exists>a. (oid, a) \<in> F"
proof (induction q)
  case (HasAttr k op v)
  then show ?case by (cases op) (auto simp: holding_def)
next
  case (QAnd qs)
  then have "hd qs \<in> set qs" "oid \<in> qsem F C (hd qs)" by (auto split: if_splits)
  then show ?case using QAnd.IH by blast
qed auto

lemma small_oid_parts: "unat oid < 2 ^ 32 \<Longrightarrow> oid_from_parts 0 (word_of_nat (unat oid)) = oid"
proof -
  assume "unat oid < 2 ^ 32"
  then have "take_bit 48 (unat oid) = unat oid" by (simp add: take_bit_eq_mod)
  then have "take_bit 48 oid = oid" by (metis unsigned_take_bit_eq word_unat_eq_iff)
  moreover have "oid AND 0x0000ffffffffffff = take_bit 48 oid" by (simp add: take_bit_eq_mask mask_eq_exp_minus_1)
  ultimately show ?thesis by (simp add: oid_from_parts_def)
qed

lemma entries_to_oids:
  assumes "finite S" and "\<forall>oid\<in>S. unat oid < 2 ^ 32"
  shows "map (\<lambda>entry. oid_from_parts 0 (word_of_nat entry)) (sorted_list_of_set (unat ` S)) = sorted_list_of_set S"
proof -
  let ?l = "sorted_list_of_set S"
  have l: "sorted ?l" "distinct ?l" "set ?l = S" using assms(1) by simp_all
  have "sorted (map unat ?l)" unfolding sorted_map word_le_nat_alt [symmetric] by (rule l(1))
  moreover have "distinct (map unat ?l)" using l(2) by (simp add: distinct_map unat_oid_inj)
  ultimately have "sorted_list_of_set (unat ` S) = map unat ?l"
    using sorted_list_of_set.idem_if_sorted_distinct [of "map unat ?l"] l(3) by (metis list.set_map)
  moreover have "map (\<lambda>entry. oid_from_parts 0 (word_of_nat entry)) (map unat ?l) = ?l"
    unfolding map_map by (rule map_idI) (use assms(2) l(3) small_oid_parts in \<open>simp only: comp_apply\<close>)
  ultimately show ?thesis by simp
qed

locale query_libs = roaring "q_rb en" bset + digraph "q_graph en" gwf
  for en :: "('b, 'g) qenv" and bset :: "'b \<Rightarrow> u32 set" and gwf :: "'g \<Rightarrow> bool"
begin

lemma scan_object_bits:
  assumes "unat oid < 2 ^ 32"
  shows "bset (fold (\<lambda>(a, _) acc. if hit a then (case oid_low32 oid of None \<Rightarrow> acc | Some local32 \<Rightarrow> rb_insert (q_rb en) local32 acc)
      else acc) v acc) = bset acc \<union> (if \<exists>x\<in>set v. hit (fst x) then {unat oid} else {})"
proof (induction v arbitrary: acc)
  case (Cons x v)
  then show ?case using oid_low32_small [OF assms] assms by (auto simp: insert_set split_beta)
qed simp

lemma scan_rows_bits:
  assumes "\<forall>(oid, v)\<in>set fw. v \<noteq> [] \<longrightarrow> unat oid < 2 ^ 32"
  shows "bset (fold (\<lambda>(oid, assertions) acc.
       fold (\<lambda>(a, _) acc.
         if hit a then (case oid_low32 oid of None \<Rightarrow> acc | Some local32 \<Rightarrow> rb_insert (q_rb en) local32 acc) else acc)
         assertions acc) fw acc) = bset acc \<union> unat ` {oid. \<exists>v. (oid, v) \<in> set fw \<and> (\<exists>x\<in>set v. hit (fst x))}"
  using assms
proof (induction fw arbitrary: acc)
  case (Cons r fw)
  obtain oid v where r: "r = (oid, v)" by fastforce
  have S: "{oid. \<exists>v. (oid, v) \<in> set (r # fw) \<and> (\<exists>x\<in>set v. hit (fst x))} =
      (if \<exists>x\<in>set v. hit (fst x) then {oid} else {}) \<union> {oid. \<exists>v. (oid, v) \<in> set fw \<and> (\<exists>x\<in>set v. hit (fst x))}"
    using r by auto
  have IH: "\<forall>(oid, v)\<in>set fw. v \<noteq> [] \<longrightarrow> unat oid < 2 ^ 32" using Cons.prems by simp
  show ?case
  proof (cases "v = []")
    case True
    then show ?thesis unfolding S using Cons.IH [OF IH] r by simp
  next
    case False
    then have "unat oid < 2 ^ 32" using Cons.prems r by auto
    then show ?thesis unfolding S using Cons.IH [OF IH] r by (auto simp: scan_object_bits)
  qed
qed simp

lemma scan_forward_bits:
  assumes "bm_wf fw" and "\<forall>oid a. (oid, a) \<in> fw_facts fw \<longrightarrow> unat oid < 2 ^ 32"
  shows "bset (scan_forward en hit fw) = unat ` {oid. \<exists>a. (oid, a) \<in> fw_facts fw \<and> hit a}"
proof -
  have "\<forall>(oid, v)\<in>set fw. v \<noteq> [] \<longrightarrow> unat oid < 2 ^ 32"
  proof safe
    fix oid v assume v: "(oid, v) \<in> set fw" "v \<noteq> []"
    then have "(oid, fst (hd v)) \<in> fw_facts fw" using fw_facts_rows [OF assms(1)] by fastforce
    then show "unat oid < 2 ^ 32" using assms(2) by blast
  qed
  from scan_rows_bits [OF this, of hit] show ?thesis
    by (simp add: scan_forward_def new_set) (auto simp: fw_facts_rows [OF assms(1)])
qed

lemma universe_bits: "bm_wf (ex_tags ex) \<Longrightarrow> bset (universe en ex) = (\<Union>t. tag_bits bset (ex_tags ex) t)"
proof -
  assume wf: "bm_wf (ex_tags ex)"
  have "bset (fold (\<lambda>(_, s) acc. rb_union (q_rb en) acc (ts_members s)) rows acc) =
      bset acc \<union> (\<Union>(t, s)\<in>set rows. bset (ts_members s))" for rows :: "(tag_id \<times> 'b tag_store) list" and acc
    by (induction rows arbitrary: acc) (auto simp: union_set)
  then show ?thesis
    by (simp add: universe_def new_set) (fastforce simp: tag_bits_def opt_bits_def bm_get_mem [OF wf] split: option.splits)
qed

lemma and_loop_bits: "bset (and_loop (q_rb en) acc bs) = bset acc \<inter> (\<Inter>b\<in>set bs. bset b)"
  by (induction bs arbitrary: acc) (auto simp: Let_def inter_set is_empty_set)

lemma and_all_bits:
  assumes "bs \<noteq> []"
  shows "bset (and_all (q_rb en) bs) = (\<Inter>b\<in>set bs. bset b)"
proof -
  let ?s = "sort_key (rb_len (q_rb en)) bs"
  have ne: "?s \<noteq> []" using assms by (metis length_0_conv length_sort)
  have "set (hd ?s # swap_remove 0 ?s) = set bs"
    using length_swap_remove0 [OF ne] by (metis mset_sort set_mset_mset)
  then have "(\<Inter>b\<in>set bs. bset b) = bset (hd ?s) \<inter> (\<Inter>b\<in>set (swap_remove 0 ?s). bset b)"
    by (metis INT_insert list.simps(15))
  then show ?thesis by (simp add: and_all_def Let_def and_loop_bits)
qed

lemma isa_loop_bits:
  assumes "onto_inv (q_graph en) gwf (ex_ontology ex)"
  shows "\<exists>b. (isa_loop en ex tag ts acc :: ('e, 'b) res) = ok b \<and>
    bset b = bset acc \<union> (\<Union>s\<in>{s \<in> set ts. tag \<in> onto_closure (q_graph en) (ex_ontology ex) [s]}. tag_bits bset (ex_tags ex) s)"
proof (induction ts arbitrary: acc)
  case (Cons s ts)
  obtain c where c: "state_materialise (q_graph en) (ex_ontology ex) [s] = Some c"
      "set c = onto_closure (q_graph en) (ex_ontology ex) [s]"
    using state_materialise_spec [OF assms] by blast
  let ?acc = "case bm_get (ex_tags ex) s of
          Some store \<Rightarrow> if tag \<in> set c then rb_union (q_rb en) acc (ts_members store) else acc | None \<Rightarrow> acc"
  have "bset ?acc = bset acc \<union> (if tag \<in> set c then tag_bits bset (ex_tags ex) s else {})"
    by (auto simp: tag_bits_def union_set split: option.splits)
  then show ?case using Cons.IH [of ?acc] c by (auto simp: await_def)
qed simp

lemma eval_range_bits:
  assumes rep: "index_rep bset (q_vc en) (ex_tags ex) (ex_kv ex) (ex_range ex) F"
    and ok: "attr_answerable vc secret F k op v" and op: "op \<in> {OpLt, OpLe, OpGt, OpGe}"
  shows "\<exists>b. (eval_range en ex k op v :: ('e, 'b) res) = ok b \<and> bset b = unat ` attr_sem F k op v"
proof -
  note R = index_repD [OF rep]
  have rg: "rangeable (stored F k) v" using ok op by auto
  have sv: "value_ok w" if "w \<in> stored F k" for w using that R(5) by (auto simp: stored_def)
  have vv: "value_ok v" "value_partial_cmp v v \<noteq> None" using rg by (auto simp: rangeable_def)
  let ?lookup = "range_lookup (q_rb en) (ex_range ex) k v"
  have eq: "bset ?lookup = unat ` holding F k (\<lambda>w. from_value w = from_value v)"
    by (simp add: range_lookup_bits R(8))
  have eq1: "holding F k (\<lambda>w. from_value w = from_value v) = holding F k (\<lambda>w. value_partial_cmp w v = Some Equal)"
    and eq2: "holding F k (\<lambda>w. from_value w = from_value v) = holding F k (\<lambda>w. w = v)"
    using scan_equal [OF rg _ sv] by (auto intro!: holding_cong)
  obtain lo where lo: "(range_scan (q_rb en) (ex_range ex) k (type_min v) v :: ('e, 'b) res) = ok lo"
      "bset lo = unat ` holding F k (\<lambda>w. value_partial_cmp w v = Some Less)"
  proof -
    have "(\<Union>n\<in>{n. from_value (type_min v) \<le> n \<and> n < from_value v}. map_bits bset (ex_range ex) (k, n)) =
        unat ` holding F k (\<lambda>w. value_partial_cmp w v = Some Less)"
      unfolding R(8) holding_Union using scan_below [OF rg _ sv] by (intro arg_cong [of _ _ "image unat"] holding_cong) simp
    then show thesis using range_scan_bits [OF R(3) type_min_le [OF vv], of k] that by auto
  qed
  have hi: "\<exists>b. (range_scan (q_rb en) (ex_range ex) k v (type_max v) :: ('e, 'b) res) = ok b \<and>
      bset b = unat ` holding F k (\<lambda>w. value_partial_cmp w v \<in> {Some Greater, Some Equal})"
    if bm: "below_max (stored F k) v"
  proof -
    have le: "from_value v \<le> from_value (type_max v)" using bm by (auto simp: below_max_def)
    have "(\<Union>n\<in>{n. from_value v \<le> n \<and> n < from_value (type_max v)}. map_bits bset (ex_range ex) (k, n)) =
        unat ` holding F k (\<lambda>w. value_partial_cmp w v \<in> {Some Greater, Some Equal})"
      unfolding R(8) holding_Union using scan_above [OF rg bm _ sv] by (intro arg_cong [of _ _ "image unat"] holding_cong) simp
    then show ?thesis using range_scan_bits [OF R(3) le, of k] by auto
  qed
  show ?thesis
  proof (cases op)
    case OpGt
    then have d: "holding F k (\<lambda>w. w = v) \<inter> holding F k (\<lambda>w. value_partial_cmp w v = Some Greater) = {}"
      and bm: "below_max (stored F k) v" using ok by auto
    obtain b where b: "(range_scan (q_rb en) (ex_range ex) k v (type_max v) :: ('e, 'b) res) = ok b"
        "bset b = unat ` holding F k (\<lambda>w. value_partial_cmp w v \<in> {Some Greater, Some Equal})"
      using hi [OF bm] by blast
    have "holding F k (\<lambda>w. value_partial_cmp w v \<in> {Some Greater, Some Equal}) =
        holding F k (\<lambda>w. value_partial_cmp w v = Some Greater) \<union> holding F k (\<lambda>w. w = v)"
      unfolding eq2 [symmetric] eq1 holding_or by (simp add: holding_def)
    then have "bset b - bset ?lookup = unat ` holding F k (\<lambda>w. value_partial_cmp w v = Some Greater)"
      unfolding b(2) eq eq2 using d by (simp flip: image_set_diff [OF unat_oid_inj]) (blast intro!: arg_cong [of _ _ "image unat"])
    then show ?thesis using OpGt b(1) by (simp add: eval_range_def Let_def diff_set)
  next
    case OpGe
    then have bm: "below_max (stored F k) v" using ok by auto
    obtain b where b: "(range_scan (q_rb en) (ex_range ex) k v (type_max v) :: ('e, 'b) res) = ok b"
        "bset b = unat ` holding F k (\<lambda>w. value_partial_cmp w v \<in> {Some Greater, Some Equal})"
      using hi [OF bm] by blast
    have "bset b \<union> bset ?lookup = bset b" unfolding b(2) eq eq1 by (auto simp: holding_def)
    then show ?thesis using OpGe b by (simp add: eval_range_def Let_def union_set)
  next
    case OpLe
    have "bset lo \<union> bset ?lookup = unat ` holding F k (\<lambda>w. value_partial_cmp w v \<in> {Some Less, Some Equal})"
      unfolding lo(2) eq eq1 by (auto simp: holding_def)
    then show ?thesis using OpLe lo by (simp add: eval_range_def Let_def union_set)
  qed (use op lo in \<open>auto simp: eval_range_def Let_def\<close>)
qed

lemma kv_lookup_map_bits:
  assumes "hash_of (q_vc en) (kv_secret kv) v = Some h"
  shows "\<exists>b. (kv_lookup (q_vc en) (q_rb en) kv k v :: ('e, 'b) res) = ok b \<and> bset b = map_bits bset (kv_entries kv) (k, h)"
  using assms by (auto simp: kv_lookup_def value_hash_cases map_bits_def opt_bits_def new_set split: option.splits)

lemma kv_lookup_bits:
  assumes rep: "index_rep bset (q_vc en) (ex_tags ex) (ex_kv ex) (ex_range ex) F"
    and ok: "hash_of (q_vc en) (kv_secret (ex_kv ex)) v \<noteq> None"
      "\<forall>w\<in>stored F k. hash_of (q_vc en) (kv_secret (ex_kv ex)) w = hash_of (q_vc en) (kv_secret (ex_kv ex)) v \<longrightarrow> w = v"
  shows "\<exists>b. (kv_lookup (q_vc en) (q_rb en) (ex_kv ex) k v :: ('e, 'b) res) = ok b \<and>
    bset b = unat ` holding F k (\<lambda>w. w = v)"
proof -
  obtain h where h: "hash_of (q_vc en) (kv_secret (ex_kv ex)) v = Some h" using ok(1) by blast
  have "holding F k (\<lambda>w. hash_of (q_vc en) (kv_secret (ex_kv ex)) w = Some h) = holding F k (\<lambda>w. w = v)"
    using ok(2) h by (intro holding_cong) auto
  then have "map_bits bset (kv_entries (ex_kv ex)) (k, h) = unat ` holding F k (\<lambda>w. w = v)"
    using index_repD(7) [OF rep] by simp
  then show ?thesis using kv_lookup_map_bits [OF h, where 'e = 'e, of k] by simp
qed

lemma eval_has_attr_bits:
  assumes rep: "index_rep bset (q_vc en) (ex_tags ex) (ex_kv ex) (ex_range ex) (fw_facts (ex_forward ex))"
    and wf: "bm_wf (ex_forward ex)"
    and ok: "attr_answerable (q_vc en) (kv_secret (ex_kv ex)) (fw_facts (ex_forward ex)) k op v"
  shows "\<exists>b. eval_has_attr en ex k op v = ok b \<and> bset b = unat ` attr_sem (fw_facts (ex_forward ex)) k op v"
proof -
  let ?F = "fw_facts (ex_forward ex)"
  have "\<forall>oid a. (oid, a) \<in> ?F \<longrightarrow> unat oid < 2 ^ 32" using index_repD(4) [OF rep] by blast
  note scan = scan_forward_bits [OF wf this]
  have any: "bset (objects_with_attr_key en ex k) = unat ` holding ?F k (\<lambda>_. True)"
  proof -
    have "(\<exists>a. (oid, a) \<in> ?F \<and> attr_key_hit k a) \<longleftrightarrow> oid \<in> holding ?F k (\<lambda>_. True)" for oid
      by (auto simp: holding_def elim!: attr_key_hit.elims)
    then show ?thesis using scan by (simp add: objects_with_attr_key_def)
  qed
  have prefix: "bset (eval_prefix en ex k v) = unat ` holding ?F k (has_prefix v)"
  proof (cases v)
    case (VText needle)
    have "(\<exists>a. (oid, a) \<in> ?F \<and> prefix_hit k needle a) \<longleftrightarrow> oid \<in> holding ?F k (has_prefix v)" for oid
      by (auto simp: holding_def VText elim!: prefix_hit.elims has_prefix.elims)
    then show ?thesis using scan VText by simp
  qed (simp_all add: holding_def new_set)
  show ?thesis
  proof (cases op)
    case OpEq
    then show ?thesis using kv_lookup_bits [OF rep, of v k] ok by (simp add: eval_has_attr_def)
  next
    case OpNe
    then obtain b where b: "(kv_lookup (q_vc en) (q_rb en) (ex_kv ex) k v :: (query_error, 'b) res) = ok b"
        "bset b = unat ` holding ?F k (\<lambda>w. w = v)" using kv_lookup_bits [OF rep, of v k] ok by auto
    then show ?thesis
      using OpNe any by (simp add: eval_has_attr_def Let_def diff_set image_set_diff [OF unat_oid_inj])
  next
    case OpPrefix
    then show ?thesis using prefix by (simp add: eval_has_attr_def)
  qed (use eval_range_bits [OF rep ok] ok in \<open>auto simp: eval_has_attr_def\<close>)
qed

lemma eval_each_bits:
  "(\<And>q. q \<in> set qs \<Longrightarrow> \<exists>b. evaluate en ex q = ok b \<and> bset b = S q) \<Longrightarrow>
     \<exists>bs. eval_each en ex qs = ok bs \<and> map bset bs = map S qs"
  by (induction qs) fastforce+

lemma eval_or_bits:
  "(\<And>q. q \<in> set qs \<Longrightarrow> \<exists>b. evaluate en ex q = ok b \<and> bset b = S q) \<Longrightarrow>
     \<exists>b. eval_or en ex qs acc = ok b \<and> bset b = bset acc \<union> (\<Union>q\<in>set qs. S q)"
proof (induction qs arbitrary: acc)
  case (Cons q qs)
  obtain b where b: "evaluate en ex q = ok b" "bset b = S q" using Cons.prems [of q] by auto
  obtain b' where "eval_or en ex qs (rb_union (q_rb en) acc b) = ok b'"
      "bset b' = bset (rb_union (q_rb en) acc b) \<union> (\<Union>q\<in>set qs. S q)"
    using Cons.IH [of "rb_union (q_rb en) acc b"] Cons.prems by auto
  then show ?case using b by (auto simp: union_set)
qed simp

lemma evaluate_bits:
  assumes rep: "index_rep bset (q_vc en) (ex_tags ex) (ex_kv ex) (ex_range ex) (fw_facts (ex_forward ex))"
    and wf: "bm_wf (ex_forward ex)" and onto: "onto_inv (q_graph en) gwf (ex_ontology ex)"
    and ok: "answerable (q_vc en) (kv_secret (ex_kv ex)) (fw_facts (ex_forward ex)) q"
  shows "\<exists>b. evaluate en ex q = ok b \<and>
    bset b = unat ` qsem (fw_facts (ex_forward ex)) (\<lambda>s. onto_closure (q_graph en) (ex_ontology ex) [s]) q"
proof -
  let ?F = "fw_facts (ex_forward ex)" and ?C = "\<lambda>s. onto_closure (q_graph en) (ex_ontology ex) [s]"
  let ?A = "answerable (q_vc en) (kv_secret (ex_kv ex)) ?F"
  note R = index_repD [OF rep]
  have mem: "tag_bits bset (ex_tags ex) s = {}" if "s \<notin> set (ti_all_tags (ex_tags ex))" for s
    using that bm_get_mem [OF R(1), of s]
    by (cases "bm_get (ex_tags ex) s") (force simp: ti_all_tags_def tag_bits_def)+
  have isa: "\<exists>b. evaluate en ex (IsA t) = ok b \<and> bset b = unat ` qsem ?F ?C (IsA t)" for t
  proof -
    obtain b where b: "(eval_isa en ex t :: (query_error, 'b) res) = ok b"
        "bset b = (\<Union>s\<in>{s \<in> set (ti_all_tags (ex_tags ex)). t \<in> ?C s}. tag_bits bset (ex_tags ex) s)"
      using isa_loop_bits [OF onto, of t "ti_all_tags (ex_tags ex)" "rb_new (q_rb en)"]
      by (auto simp: eval_isa_def new_set)
    have "bset b = (\<Union>s\<in>{s. t \<in> ?C s}. tag_bits bset (ex_tags ex) s)" unfolding b(2) using mem by blast
    also have "\<dots> = unat ` qsem ?F ?C (IsA t)" unfolding R(6) by auto
    finally show ?thesis using b(1) by simp
  qed
  show ?thesis
    using ok
  proof (induction q)
    case (HasTag t)
    have "bset (eval_has_tag en ex t) = tag_bits bset (ex_tags ex) t"
      by (simp add: eval_has_tag_def tag_bits_def new_set split: option.splits)
    then show ?case using R(6) by simp
  next
    case (HasAttr k op v)
    then show ?case using eval_has_attr_bits [OF rep wf] by simp
  next
    case (Related p target)
    have "(\<exists>a. (oid, a) \<in> ?F \<and> related_hit p target a) \<longleftrightarrow> (oid, ARelation p target) \<in> ?F" for oid
      by (auto elim!: related_hit.elims)
    moreover have "\<forall>oid a. (oid, a) \<in> ?F \<longrightarrow> unat oid < 2 ^ 32" using R(4) by blast
    ultimately show ?case using scan_forward_bits [OF wf] by (simp add: eval_related_def)
  next
    case (QAnd qs)
    show ?case
    proof (cases "qs = []")
      case False
      obtain bs where bs: "eval_each en ex qs = ok bs" "map bset bs = map (\<lambda>q. unat ` qsem ?F ?C q) qs"
        using eval_each_bits [of qs ex "\<lambda>q. unat ` qsem ?F ?C q"] QAnd by auto
      have ne: "bs \<noteq> []" using bs(2) False by auto
      have "(\<Inter>b\<in>set bs. bset b) = \<Inter> (set (map bset bs))" by simp
      also have "\<dots> = (\<Inter>q\<in>set qs. unat ` qsem ?F ?C q)" unfolding bs(2) by simp
      also have "\<dots> = unat ` (\<Inter>q\<in>set qs. qsem ?F ?C q)"
        using image_INT [OF unat_oid_inj [of UNIV], of "set qs" "qsem ?F ?C"] False by (metis hd_in_set subset_UNIV)
      finally show ?thesis using bs(1) ne False by (simp add: and_all_bits)
    qed (simp add: new_set)
  next
    case (QOr qs)
    then show ?case
      using eval_or_bits [of qs ex "\<lambda>q. unat ` qsem ?F ?C q" "rb_new (q_rb en)"] by (auto simp: new_set image_Union)
  next
    case (QNot q)
    have "bset (universe en ex) = unat ` {oid. \<exists>t. (oid, ATag t) \<in> ?F}" unfolding universe_bits [OF R(1)] R(6) by auto
    then show ?case using QNot by (auto simp: Let_def diff_set image_set_diff [OF unat_oid_inj])
  qed (rule isa)
qed

lemma evaluate_full_bits:
  assumes rep: "index_rep bset (q_vc en) (ex_tags ex) (ex_kv ex) (ex_range ex) (fw_facts (ex_forward ex))"
    and wf: "bm_wf (ex_forward ex)" and onto: "onto_inv (q_graph en) gwf (ex_ontology ex)"
    and ok: "answerable (q_vc en) (kv_secret (ex_kv ex)) (fw_facts (ex_forward ex)) q"
  shows "evaluate_full en ex q = ok (sorted_list_of_set
    (qsem (fw_facts (ex_forward ex)) (\<lambda>s. onto_closure (q_graph en) (ex_ontology ex) [s]) q))"
proof -
  let ?S = "qsem (fw_facts (ex_forward ex)) (\<lambda>s. onto_closure (q_graph en) (ex_ontology ex) [s]) q"
  obtain b where b: "evaluate en ex q = ok b" "bset b = unat ` ?S" using evaluate_bits [OF assms] by blast
  have fin: "finite ?S" using set_finite [of b] unfolding b(2) by (rule finite_imageD) (rule unat_oid_inj)
  have "\<forall>oid\<in>?S. unat oid < 2 ^ 32" using qsem_ids index_repD(4) [OF rep] by blast
  then have "map (\<lambda>entry. oid_from_parts 0 (word_of_nat entry)) (rb_iter (q_rb en) b) = sorted_list_of_set ?S"
    unfolding iter_set b(2) by (rule entries_to_oids [OF fin])
  then show ?thesis using b(1) by (simp add: evaluate_full_def)
qed

end

section \<open>Properties\<close>

text \<open>C11. The executor computes the meaning of the query: over indexes that agree with the facts of the forward
  index, every query they can answer returns, in ascending order, exactly the objects whose assertions satisfy
  it, with tags taken through the implications of the ontology.\<close>

theorem evaluate_refines:
  assumes "query_libs en bset gwf"
    and "index_rep bset (q_vc en) (ex_tags ex) (ex_kv ex) (ex_range ex) (fw_facts (ex_forward ex))"
    and "bm_wf (ex_forward ex)" and "onto_inv (q_graph en) gwf (ex_ontology ex)"
    and "answerable (q_vc en) (kv_secret (ex_kv ex)) (fw_facts (ex_forward ex)) q"
  shows "evaluate_full en ex q = ok (sorted_list_of_set
    (qsem (fw_facts (ex_forward ex)) (\<lambda>s. onto_closure (q_graph en) (ex_ontology ex) [s]) q))"
  using assms by (rule query_libs.evaluate_full_bits)

definition wit_vc :: value_codec where
  "wit_vc = \<lparr>vc_ser = (\<lambda>v. ok (from_value v)), vc_de = (\<lambda>_. err ''no decoder''), vc_hash = (\<lambda>_ _ bs. be_nat (concat bs))\<rparr>"

definition wit_qenv :: "(32 word list, list_graph) qenv" where
  "wit_qenv = \<lparr>q_rb = wl_ops, q_graph = lg_ops, q_vc = wit_vc\<rparr>"

interpretation wlq: query_libs wit_qenv wl_set lg_wf
  unfolding wit_qenv_def by (simp add: query_libs_def wl.roaring_axioms lg.digraph_axioms)

text \<open>Objects 5 and 6 carry tag 7; object 5 has the attribute 2 with the value 3.\<close>

definition wit_hash :: u64 where
  "wit_hash = be_nat (KV_HASH_DOMAIN @ [1] @ from_value (VInt 3))"

definition wit_executor :: "(32 word list, list_graph) executor" where
  "wit_executor = \<lparr>ex_tags = [(7, TsSimple [5, 6])],
     ex_kv = \<lparr>kv_entries = [((2, wit_hash), [5])], kv_secret = replicate 16 0\<rparr>,
     ex_range = [((2, from_value (VInt 3)), [5])],
     ex_forward = [(5, [(ATag 7, Direct), (AAttr 2 (VInt 3), Direct)]), (6, [(ATag 7, Direct)])],
     ex_ontology = ontology_new lg_ops\<rparr>"

lemma wit_facts: "fw_facts (ex_forward wit_executor) = {(5, ATag 7), (5, AAttr 2 (VInt 3)), (6, ATag 7)}"
  by (auto simp: fw_facts_iff wit_executor_def fw_assertions_of_def split: if_splits)

lemma wit_hash_of: "hash_of (q_vc wit_qenv) (kv_secret (ex_kv wit_executor)) (VInt 3) = Some wit_hash"
  by (simp add: hash_of_def value_hash_def wit_qenv_def wit_vc_def wit_hash_def wit_executor_def Let_def del: from_value.simps)

lemma wit_index_rep:
  "index_rep wl_set (q_vc wit_qenv) (ex_tags wit_executor) (ex_kv wit_executor) (ex_range wit_executor)
     (fw_facts (ex_forward wit_executor))"
proof -
  have "tag_bits wl_set (ex_tags wit_executor) t = unat ` {oid. (oid, ATag t) \<in> fw_facts (ex_forward wit_executor)}" for t
  proof -
    have "{oid. (oid, ATag t) \<in> fw_facts (ex_forward wit_executor)} = (if t = 7 then {5, 6} else {})"
      unfolding wit_facts by auto
    then show ?thesis by (auto simp: tag_bits_def wit_executor_def wl_set_def)
  qed
  moreover have "map_bits wl_set (kv_entries (ex_kv wit_executor)) (k, h) =
      unat ` holding (fw_facts (ex_forward wit_executor)) k (\<lambda>w. hash_of (q_vc wit_qenv) (kv_secret (ex_kv wit_executor)) w = Some h)"
    for k h
    unfolding holding_def wit_facts using wit_hash_of by (auto simp: map_bits_def wit_executor_def wl_set_def)
  moreover have "map_bits wl_set (ex_range wit_executor) (k, n) =
      unat ` holding (fw_facts (ex_forward wit_executor)) k (\<lambda>w. from_value w = n)" for k n
    unfolding holding_def wit_facts by (auto simp: map_bits_def wit_executor_def wl_set_def simp del: from_value.simps)
  ultimately show ?thesis
    unfolding index_rep_def by (simp add: wit_facts) (auto simp: wit_executor_def bm_wf_def i64_ok_def)
qed

theorem evaluate_refines_witness:
  "(let q = QAnd [HasTag 7, QNot (HasAttr 2 OpLt (VInt 9))] in evaluate_full wit_qenv wit_executor q = ok [6])"
proof -
  let ?q = "QAnd [HasTag 7, QNot (HasAttr 2 OpLt (VInt 9))]"
  have "answerable (q_vc wit_qenv) (kv_secret (ex_kv wit_executor)) (fw_facts (ex_forward wit_executor)) ?q"
    by (auto simp: wit_facts rangeable_def stored_def i64_ok_def key_exact_def key_faithful_def)
  moreover have "bm_wf (ex_forward wit_executor)" "onto_inv lg_ops lg_wf (ex_ontology wit_executor)"
    by (simp_all add: wit_executor_def bm_wf_def lg.onto_inv_new)
  moreover have "qsem (fw_facts (ex_forward wit_executor)) C ?q = {6}" for C
    by (auto simp: wit_facts holding_def ordering_of_def)
  ultimately show ?thesis
    using evaluate_refines [OF wlq.query_libs_axioms wit_index_rep, of ?q] by (simp add: wit_qenv_def)
qed

text \<open>C35. The upper sentinel of the text scans is the encoding of U+FFFD, below every character that takes four
  bytes: a comparison with a string that starts with such a character panics, whatever the indexes hold.\<close>

theorem text_range_panics:
  assumes "op \<in> {OpGt, OpGe}" and "0xf0 \<le> b"
  shows "evaluate en ex (HasAttr k op (VText (b # s))) = Inl Panic"
proof -
  have "(0xef :: byte) < b" using assms(2) by (simp add: word_less_nat_alt word_le_nat_alt)
  then have "text_payload (concat (replicate 32 [0xef, 0xbf, 0xbd])) < text_payload (b # s)"
    by (simp add: text_payload_def Let_def numeral_eq_Suc)
  then have "(k, from_value (type_max (VText (b # s)))) < (k, from_value (VText (b # s)))" by simp
  then show ?thesis
    using assms(1) by (auto simp: eval_has_attr_def eval_range_def range_scan_def bm_range_half_open_def Let_def
        simp del: from_value.simps type_max.simps)
qed

theorem text_range_panics_witness:
  "evaluate wit_qenv wit_executor (HasAttr 2 OpGe (VText [0xf0, 0x9f, 0x98, 0x80])) = Inl Panic"
  using text_range_panics [of OpGe "0xf0"] by simp

end
