(* ===== verification/Mb_Watch.thy ===== *)
theory Mb_Watch
  imports Mb_Query
begin

text \<open>
  The subscription engine (\<open>crates/watch/src/{engine,subscription,event}.rs\<close>) with the watch types of
  \<open>crates/types/src/watch.rs\<close>: an inverted index from tags to subscriptions and a queue of pending events for
  each subscription.
\<close>

section \<open>Watch types\<close>

type_synonym change_interest = "32 word"

definition TAG_ADDED :: change_interest where "TAG_ADDED = push_bit 0 1"
definition TAG_REMOVED :: change_interest where "TAG_REMOVED = push_bit 1 1"
definition CONTENT_CHANGED :: change_interest where "CONTENT_CHANGED = push_bit 2 1"
definition CREATED :: change_interest where "CREATED = push_bit 3 1"
definition DELETED :: change_interest where "DELETED = push_bit 4 1"
definition ENTERED :: change_interest where "ENTERED = push_bit 5 1"
definition EXITED :: change_interest where "EXITED = push_bit 6 1"

definition interest_contains :: "change_interest \<Rightarrow> change_interest \<Rightarrow> bool" where
  "interest_contains i m \<longleftrightarrow> i AND m = m"

datatype subscription_state = SubActive | SubDormant

datatype watch_event =
    EvEntered object_id hybrid_timestamp
  | EvExited object_id hybrid_timestamp
  | EvTagAdded object_id tag_id hybrid_timestamp
  | EvTagRemoved object_id tag_id hybrid_timestamp
  | EvContentChanged object_id hybrid_timestamp
  | EvDeleted object_id hybrid_timestamp
  | EvCreated object_id hybrid_timestamp

fun event_object_id :: "watch_event \<Rightarrow> object_id" where
  "event_object_id (EvEntered oid _) = oid"
| "event_object_id (EvExited oid _) = oid"
| "event_object_id (EvTagAdded oid _ _) = oid"
| "event_object_id (EvTagRemoved oid _ _) = oid"
| "event_object_id (EvContentChanged oid _) = oid"
| "event_object_id (EvDeleted oid _) = oid"
| "event_object_id (EvCreated oid _) = oid"

section \<open>Subscription\<close>

type_synonym subscription_id = u64

datatype retention = AtMostOnce | Bounded u32 | Unlimited

record 'b subscription =
  sub_id :: subscription_id
  sub_name :: string
  sub_query :: query
  sub_interest :: change_interest
  sub_cursor :: u64
  sub_state :: subscription_state
  sub_retention :: retention
  sub_debounce_ms :: "u32 option"
  sub_cached_result :: 'b

definition sub_is_active :: "'b subscription \<Rightarrow> bool" where
  "sub_is_active s \<longleftrightarrow> sub_state s = SubActive"

datatype watch_error =
    UnknownSubscription subscription_id
  | WatchCborEncode string
  | WatchCborDecode string
  | WatchBitmap string

section \<open>Tag extraction\<close>

fun walk :: "query \<Rightarrow> tag_id set \<Rightarrow> tag_id set"
  and walk_each :: "query list \<Rightarrow> tag_id set \<Rightarrow> tag_id set" where
  "walk (HasTag t) acc = insert t acc"
| "walk (IsA t) acc = insert t acc"
| "walk (HasAttr key _ _) acc = insert key acc"
| "walk (Related predicate _) acc = insert predicate acc"
| "walk (QAnd qs) acc = walk_each qs acc"
| "walk (QOr qs) acc = walk_each qs acc"
| "walk (QNot inner) acc = walk inner acc"
| "walk_each [] acc = acc"
| "walk_each (q # qs) acc = walk_each qs (walk q acc)"

definition extract_tags :: "query \<Rightarrow> tag_id list" where
  "extract_tags q = sorted_list_of_set (walk q {})"

text \<open>The tags of the DAG that have \<open>t\<close> as an ancestor.\<close>

fun isa_tags :: "'g pg_ops \<Rightarrow> 'g ontology_state \<Rightarrow> tag_id \<Rightarrow> tag_id list \<Rightarrow> tag_id set \<Rightarrow> ('e, tag_id set) res" where
  "isa_tags ops st t [] acc = ok acc"
| "isa_tags ops st t (other # ts) acc =
     (if other = t then isa_tags ops st t ts acc
      else rbind (await (is_a ops (os_dag st) other t)) (\<lambda>b. isa_tags ops st t ts (if b then insert other acc else acc)))"

fun walk_with_ontology :: "'g pg_ops \<Rightarrow> 'g ontology_state \<Rightarrow> query \<Rightarrow> tag_id set \<Rightarrow> ('e, tag_id set) res"
  and walk_each_with_ontology ::
    "'g pg_ops \<Rightarrow> 'g ontology_state \<Rightarrow> query list \<Rightarrow> tag_id set \<Rightarrow> ('e, tag_id set) res" where
  "walk_with_ontology ops st (HasTag t) acc = ok (insert t acc)"
| "walk_with_ontology ops st (IsA t) acc = isa_tags ops st t (dag_tags ops (os_dag st)) (insert t acc)"
| "walk_with_ontology ops st (HasAttr key _ _) acc = ok (insert key acc)"
| "walk_with_ontology ops st (Related predicate _) acc = ok (insert predicate acc)"
| "walk_with_ontology ops st (QAnd qs) acc = walk_each_with_ontology ops st qs acc"
| "walk_with_ontology ops st (QOr qs) acc = walk_each_with_ontology ops st qs acc"
| "walk_with_ontology ops st (QNot inner) acc = walk_with_ontology ops st inner acc"
| "walk_each_with_ontology ops st [] acc = ok acc"
| "walk_each_with_ontology ops st (q # qs) acc =
     rbind (walk_with_ontology ops st q acc) (\<lambda>acc'. walk_each_with_ontology ops st qs acc')"

definition tags_for_indexing :: "'g pg_ops \<Rightarrow> 'g ontology_state \<Rightarrow> query \<Rightarrow> ('e, tag_id list) res" where
  "tags_for_indexing ops st q = rbind (walk_with_ontology ops st q {}) (\<lambda>s. ok (sorted_list_of_set s))"

section \<open>SubscriptionEngine\<close>

record 'b sub_engine =
  se_subs :: "(subscription_id, 'b subscription) btree_map"
  se_tag_to_subs :: "(tag_id, subscription_id list) btree_map"
  se_pending :: "(subscription_id, watch_event list) btree_map"
  se_next_id :: subscription_id

definition se_new :: "'b sub_engine" where
  "se_new = \<lparr>se_subs = [], se_tag_to_subs = [], se_pending = [], se_next_id = 0\<rparr>"

text \<open>\<open>entry(tag).or_default().push(id)\<close>.\<close>

definition link_tag :: "subscription_id \<Rightarrow> tag_id \<Rightarrow> (tag_id, subscription_id list) btree_map
    \<Rightarrow> (tag_id, subscription_id list) btree_map" where
  "link_tag i tag m = bm_insert tag ((case bm_get m tag of None \<Rightarrow> [] | Some l \<Rightarrow> l) @ [i]) m"

definition unlink_tag :: "subscription_id \<Rightarrow> tag_id \<Rightarrow> (tag_id, subscription_id list) btree_map
    \<Rightarrow> (tag_id, subscription_id list) btree_map" where
  "unlink_tag i tag m =
     (case bm_get m tag of
        None \<Rightarrow> m
      | Some l \<Rightarrow>
          (let l' = filter (\<lambda>sid. sid \<noteq> i) l in if l' = [] then bm_remove tag m else bm_insert tag l' m))"

definition register ::
  "string \<Rightarrow> query \<Rightarrow> change_interest \<Rightarrow> retention \<Rightarrow> 'b \<Rightarrow> u64 \<Rightarrow> 'b sub_engine \<Rightarrow> subscription_id \<times> 'b sub_engine" where
  "register name q interest ret initial_result current_lsn se =
     (let i = (se_next_id se + 1) mod 2 ^ 64;
          links = fold (link_tag i) (extract_tags q) (se_tag_to_subs se);
          sub = \<lparr>sub_id = i, sub_name = name, sub_query = q, sub_interest = interest, sub_cursor = current_lsn,
                 sub_state = SubActive, sub_retention = ret, sub_debounce_ms = None,
                 sub_cached_result = initial_result\<rparr>
      in (i, \<lparr>se_subs = bm_insert i sub (se_subs se), se_tag_to_subs = links,
              se_pending = bm_insert i [] (se_pending se), se_next_id = i\<rparr>))"

definition unregister :: "subscription_id \<Rightarrow> 'b sub_engine \<Rightarrow> (watch_error, 'b sub_engine) res" where
  "unregister i se =
     (case bm_get (se_subs se) i of
        None \<Rightarrow> err (UnknownSubscription i)
      | Some sub \<Rightarrow>
          ok (se\<lparr>se_subs := bm_remove i (se_subs se),
                 se_tag_to_subs := fold (unlink_tag i) (extract_tags (sub_query sub)) (se_tag_to_subs se),
                 se_pending := bm_remove i (se_pending se)\<rparr>))"

definition set_sub_state :: "subscription_state \<Rightarrow> subscription_id \<Rightarrow> 'b sub_engine \<Rightarrow> 'b sub_engine" where
  "set_sub_state st i se =
     (case bm_get (se_subs se) i of
        None \<Rightarrow> se
      | Some sub \<Rightarrow> se\<lparr>se_subs := bm_insert i (sub\<lparr>sub_state := st\<rparr>) (se_subs se)\<rparr>)"

definition pause :: "subscription_id \<Rightarrow> 'b sub_engine \<Rightarrow> 'b sub_engine" where
  "pause = set_sub_state SubDormant"

definition resume :: "subscription_id \<Rightarrow> 'b sub_engine \<Rightarrow> 'b sub_engine" where
  "resume = set_sub_state SubActive"

definition drain :: "subscription_id \<Rightarrow> 'b sub_engine \<Rightarrow> watch_event list \<times> 'b sub_engine" where
  "drain i se =
     (case bm_get (se_pending se) i of
        None \<Rightarrow> ([], se)
      | Some q \<Rightarrow> (q, se\<lparr>se_pending := bm_insert i [] (se_pending se)\<rparr>))"

definition set_cursor :: "subscription_id \<Rightarrow> u64 \<Rightarrow> 'b sub_engine \<Rightarrow> (watch_error, 'b sub_engine) res" where
  "set_cursor i lsn se =
     (case bm_get (se_subs se) i of
        None \<Rightarrow> err (UnknownSubscription i)
      | Some sub \<Rightarrow> ok (se\<lparr>se_subs := bm_insert i (sub\<lparr>sub_cursor := lsn\<rparr>) (se_subs se)\<rparr>))"

definition set_membership :: "subscription_id \<Rightarrow> 'b \<Rightarrow> 'b sub_engine \<Rightarrow> (watch_error, 'b sub_engine) res" where
  "set_membership i members se =
     (case bm_get (se_subs se) i of
        None \<Rightarrow> err (UnknownSubscription i)
      | Some sub \<Rightarrow> ok (se\<lparr>se_subs := bm_insert i (sub\<lparr>sub_cached_result := members\<rparr>) (se_subs se)\<rparr>))"

fun refresh_loop :: "'g pg_ops \<Rightarrow> 'g ontology_state \<Rightarrow> (subscription_id \<times> 'b subscription) list
    \<Rightarrow> (tag_id, subscription_id list) btree_map \<Rightarrow> ('e, (tag_id, subscription_id list) btree_map) res" where
  "refresh_loop ops st [] m = ok m"
| "refresh_loop ops st ((i, sub) # subs) m =
     rbind (tags_for_indexing ops st (sub_query sub)) (\<lambda>tags. refresh_loop ops st subs (fold (link_tag i) tags m))"

definition refresh_ontology_links :: "'g pg_ops \<Rightarrow> 'g ontology_state \<Rightarrow> 'b sub_engine \<Rightarrow> ('e, 'b sub_engine) res" where
  "refresh_ontology_links ops st se =
     rbind (refresh_loop ops st (se_subs se) []) (\<lambda>m. ok (se\<lparr>se_tag_to_subs := m\<rparr>))"

section \<open>Mutation hooks\<close>

definition hlc :: "int \<Rightarrow> hybrid_timestamp" where
  "hlc ts_ns = HybridTimestamp ts_ns 0 0"

fun apply_retention :: "retention \<Rightarrow> watch_event list \<Rightarrow> watch_event list" where
  "apply_retention Unlimited q = q"
| "apply_retention AtMostOnce q = drop (length q - 1) q"
| "apply_retention (Bounded max_events) q = drop (length q - max_events) q"

definition emit :: "change_interest \<Rightarrow> u64 \<Rightarrow> watch_event
    \<Rightarrow> 'b subscription \<times> watch_event list \<Rightarrow> 'b subscription \<times> watch_event list" where
  "emit kind lsn ev sq = (case sq of (sub, q) \<Rightarrow>
     if interest_contains (sub_interest sub) kind
     then (sub\<lparr>sub_cursor := lsn\<rparr>, apply_retention (sub_retention sub) (q @ [ev]))
     else (sub, q))"

text \<open>\<open>pending_events.entry(sid).or_default()\<close> and the write back of both borrows.\<close>

definition with_queue :: "subscription_id \<Rightarrow> 'b subscription
    \<Rightarrow> ('b subscription \<times> watch_event list \<Rightarrow> 'b subscription \<times> watch_event list) \<Rightarrow> 'b sub_engine \<Rightarrow> 'b sub_engine" where
  "with_queue sid sub f se =
     (let (sub', q') = f (sub, case bm_get (se_pending se) sid of None \<Rightarrow> [] | Some q \<Rightarrow> q)
      in se\<lparr>se_subs := bm_insert sid sub' (se_subs se), se_pending := bm_insert sid q' (se_pending se)\<rparr>)"

definition handle_tag_added ::
  "'b rb_ops \<Rightarrow> object_id \<Rightarrow> tag_id \<Rightarrow> u64 \<Rightarrow> hybrid_timestamp \<Rightarrow> subscription_id \<Rightarrow> 'b sub_engine \<Rightarrow> 'b sub_engine" where
  "handle_tag_added rb oid tag lsn ts sid se =
     (case bm_get (se_subs se) sid of
        None \<Rightarrow> se
      | Some sub \<Rightarrow>
          if \<not> sub_is_active sub then se
          else if \<not> rb_contains rb (oid_entry oid) (sub_cached_result sub)
          then with_queue sid (sub\<lparr>sub_cached_result := rb_insert rb (oid_entry oid) (sub_cached_result sub)\<rparr>)
                 (emit ENTERED lsn (EvEntered oid ts)) se
          else with_queue sid sub (emit TAG_ADDED lsn (EvTagAdded oid tag ts)) se)"

definition on_tag_added :: "'b rb_ops \<Rightarrow> object_id \<Rightarrow> tag_id \<Rightarrow> u64 \<Rightarrow> int \<Rightarrow> 'b sub_engine \<Rightarrow> 'b sub_engine" where
  "on_tag_added rb oid tag lsn ts_ns se =
     fold (handle_tag_added rb oid tag lsn (hlc ts_ns))
       (case bm_get (se_tag_to_subs se) tag of None \<Rightarrow> [] | Some l \<Rightarrow> l) se"

definition handle_tag_removed ::
  "'b rb_ops \<Rightarrow> object_id \<Rightarrow> tag_id \<Rightarrow> u64 \<Rightarrow> hybrid_timestamp \<Rightarrow> subscription_id \<Rightarrow> 'b sub_engine \<Rightarrow> 'b sub_engine" where
  "handle_tag_removed rb oid tag lsn ts sid se =
     (case bm_get (se_subs se) sid of
        None \<Rightarrow> se
      | Some sub \<Rightarrow>
          if \<not> sub_is_active sub then se
          else if rb_contains rb (oid_entry oid) (sub_cached_result sub)
          then with_queue sid (sub\<lparr>sub_cached_result := fst (rb_remove rb (oid_entry oid) (sub_cached_result sub))\<rparr>)
                 (emit EXITED lsn (EvExited oid ts) \<circ> emit TAG_REMOVED lsn (EvTagRemoved oid tag ts)) se
          else se)"

definition on_tag_removed :: "'b rb_ops \<Rightarrow> object_id \<Rightarrow> tag_id \<Rightarrow> u64 \<Rightarrow> int \<Rightarrow> 'b sub_engine \<Rightarrow> 'b sub_engine" where
  "on_tag_removed rb oid tag lsn ts_ns se =
     fold (handle_tag_removed rb oid tag lsn (hlc ts_ns))
       (case bm_get (se_tag_to_subs se) tag of None \<Rightarrow> [] | Some l \<Rightarrow> l) se"

text \<open>The hooks below go through every subscription; \<open>step\<close> gives the borrowed pair its new value.\<close>

definition for_each_active :: "(subscription_id \<Rightarrow> 'b subscription \<Rightarrow> 'b sub_engine \<Rightarrow> 'b sub_engine) \<Rightarrow> 'b sub_engine
    \<Rightarrow> 'b sub_engine" where
  "for_each_active step se =
     fold (\<lambda>sid se. case bm_get (se_subs se) sid of
         None \<Rightarrow> se
       | Some sub \<Rightarrow> if sub_is_active sub then step sid sub se else se) (map fst (se_subs se)) se"

definition on_object_created :: "object_id \<Rightarrow> u64 \<Rightarrow> int \<Rightarrow> 'b sub_engine \<Rightarrow> 'b sub_engine" where
  "on_object_created oid lsn ts_ns =
     for_each_active (\<lambda>sid sub. with_queue sid sub (emit CREATED lsn (EvCreated oid (hlc ts_ns))))"

definition on_object_deleted :: "'b rb_ops \<Rightarrow> object_id \<Rightarrow> u64 \<Rightarrow> int \<Rightarrow> 'b sub_engine \<Rightarrow> 'b sub_engine" where
  "on_object_deleted rb oid lsn ts_ns =
     for_each_active (\<lambda>sid sub se.
       if rb_contains rb (oid_entry oid) (sub_cached_result sub)
       then with_queue sid (sub\<lparr>sub_cached_result := fst (rb_remove rb (oid_entry oid) (sub_cached_result sub))\<rparr>)
              (emit DELETED lsn (EvDeleted oid (hlc ts_ns))) se
       else se)"

definition on_content_changed :: "'b rb_ops \<Rightarrow> object_id \<Rightarrow> u64 \<Rightarrow> int \<Rightarrow> 'b sub_engine \<Rightarrow> 'b sub_engine" where
  "on_content_changed rb oid lsn ts_ns =
     for_each_active (\<lambda>sid sub se.
       if rb_contains rb (oid_entry oid) (sub_cached_result sub)
       then with_queue sid sub (emit CONTENT_CHANGED lsn (EvContentChanged oid (hlc ts_ns))) se
       else se)"

end
