(* ===== verification/Mb_Meta.thy ===== *)
theory Mb_Meta
  imports Mb_Types Mb_Region
begin

text \<open>
  Object records and locations (\<open>crates/meta/src/{record,location,radix,error}.rs\<close>, the states of
  \<open>crates/types/src/object_states.rs\<close>) and the in-memory tables (\<open>object_table.rs\<close>, \<open>location_table.rs\<close>).
\<close>

section \<open>ObjectRecord\<close>

datatype object_state = ObjActive | ObjTombstoned | ObjBlobReclaim | ObjCleared

fun object_state_u8 :: "object_state \<Rightarrow> u8" where
  "object_state_u8 ObjActive = 0"
| "object_state_u8 ObjTombstoned = 1"
| "object_state_u8 ObjBlobReclaim = 2"
| "object_state_u8 ObjCleared = 3"

definition object_state_from_u8 :: "u8 \<Rightarrow> object_state option" where
  "object_state_from_u8 v =
     (if v = 0 then Some ObjActive else if v = 1 then Some ObjTombstoned
      else if v = 2 then Some ObjBlobReclaim else if v = 3 then Some ObjCleared else None)"

datatype meta_error =
    MetaStorage storage_error
  | InvalidObjectState u8
  | InvalidCompressionState u8
  | InvalidEncryptionState u8
  | InvalidOwnerKind u8
  | MetaBufferTooSmall nat nat
  | InvalidReplicaCount u8
  | OidOutOfRange u64 u8

record object_record =
  or_id :: object_id
  or_generation :: u32
  or_state :: u8
  or_flags :: u8
  or_record_version :: u16
  or_content_hash :: "byte list"
  or_blob_offset :: u64
  or_blob_length :: u64
  or_created_ns :: int
  or_modified_ns :: int
  or_tag_count :: u16
  or_attr_count :: u16
  or_compression :: u8
  or_encryption :: u8
  or_relation_count :: u16
  or_inline_tags :: "u32 list"
  or_overflow_offset :: u64
  or_stored_size :: u64
  or_last_modify_lsn :: u64

definition object_record_new :: "object_id \<Rightarrow> object_record" where
  "object_record_new i = \<lparr>or_id = i, or_generation = 0, or_state = 0, or_flags = 0, or_record_version = 0,
     or_content_hash = replicate 32 0, or_blob_offset = 0, or_blob_length = 0, or_created_ns = 0, or_modified_ns = 0,
     or_tag_count = 0, or_attr_count = 0, or_compression = 0, or_encryption = 0, or_relation_count = 0,
     or_inline_tags = replicate 4 0, or_overflow_offset = 0, or_stored_size = 0, or_last_modify_lsn = 0\<rparr>"

definition object_record_state :: "object_record \<Rightarrow> (meta_error, object_state) res" where
  "object_record_state r =
     (case object_state_from_u8 (or_state r) of None \<Rightarrow> err (InvalidObjectState (or_state r)) | Some s \<Rightarrow> ok s)"

definition set_state :: "object_state \<Rightarrow> object_record \<Rightarrow> object_record" where
  "set_state s r = r\<lparr>or_state := object_state_u8 s\<rparr>"

definition object_record_ok :: "object_record \<Rightarrow> bool" where
  "object_record_ok r \<longleftrightarrow> or_generation r < 2 ^ 32 \<and> or_state r < 2 ^ 8 \<and> or_flags r < 2 ^ 8 \<and>
     or_record_version r < 2 ^ 16 \<and> length (or_content_hash r) = 32 \<and> or_blob_offset r < 2 ^ 64 \<and>
     or_blob_length r < 2 ^ 64 \<and> i64_ok (or_created_ns r) \<and> i64_ok (or_modified_ns r) \<and> or_tag_count r < 2 ^ 16 \<and>
     or_attr_count r < 2 ^ 16 \<and> or_compression r < 2 ^ 8 \<and> or_encryption r < 2 ^ 8 \<and> or_relation_count r < 2 ^ 16 \<and>
     length (or_inline_tags r) = 4 \<and> (\<forall>t\<in>set (or_inline_tags r). t < 2 ^ 32) \<and> or_overflow_offset r < 2 ^ 64 \<and>
     or_stored_size r < 2 ^ 64 \<and> or_last_modify_lsn r < 2 ^ 64"

definition object_record_bytes :: "object_record \<Rightarrow> byte list" where
  "object_record_bytes r = le_bytes 8 (unat (or_id r)) @ le_bytes 4 (or_generation r) @ le_bytes 1 (or_state r) @
     le_bytes 1 (or_flags r) @ le_bytes 2 (or_record_version r) @ or_content_hash r @ le_bytes 8 (or_blob_offset r) @
     le_bytes 8 (or_blob_length r) @ i64_bytes (or_created_ns r) @ i64_bytes (or_modified_ns r) @
     le_bytes 2 (or_tag_count r) @ le_bytes 2 (or_attr_count r) @ le_bytes 1 (or_compression r) @
     le_bytes 1 (or_encryption r) @ le_bytes 2 (or_relation_count r) @ concat (map (le_bytes 4) (or_inline_tags r)) @
     le_bytes 8 (or_overflow_offset r) @ le_bytes 8 (or_stored_size r) @ le_bytes 8 (or_last_modify_lsn r)"

definition object_record_of :: "byte list \<Rightarrow> object_record" where
  "object_record_of bs = \<lparr>or_id = word_of_nat (get_le 0 8 bs), or_generation = get_le 8 4 bs, or_state = get_le 12 1 bs,
     or_flags = get_le 13 1 bs, or_record_version = get_le 14 2 bs, or_content_hash = bslice 16 32 bs,
     or_blob_offset = get_le 48 8 bs, or_blob_length = get_le 56 8 bs, or_created_ns = i64_of (bslice 64 8 bs),
     or_modified_ns = i64_of (bslice 72 8 bs), or_tag_count = get_le 80 2 bs, or_attr_count = get_le 82 2 bs,
     or_compression = get_le 84 1 bs, or_encryption = get_le 85 1 bs, or_relation_count = get_le 86 2 bs,
     or_inline_tags = [get_le 88 4 bs, get_le 92 4 bs, get_le 96 4 bs, get_le 100 4 bs],
     or_overflow_offset = get_le 104 8 bs, or_stored_size = get_le 112 8 bs, or_last_modify_lsn = get_le 120 8 bs\<rparr>"

section \<open>ObjectLocation\<close>

record replica_ref =
  rr_disk_id :: u16
  rr_sector_offset :: u16
  rr_bucket_no :: u32

record object_location =
  loc_flags :: u8
  loc_replica_count :: u8
  loc_pad :: "byte list"
  loc_extent_length :: u64
  loc_replicas :: "replica_ref list"

definition MAX_INLINE_REPLICAS :: nat where
  "MAX_INLINE_REPLICAS = 4"

definition replica_ref_zero :: replica_ref where
  "replica_ref_zero = \<lparr>rr_disk_id = 0, rr_sector_offset = 0, rr_bucket_no = 0\<rparr>"

definition replica_ref_ok :: "replica_ref \<Rightarrow> bool" where
  "replica_ref_ok r \<longleftrightarrow> rr_disk_id r < 2 ^ 16 \<and> rr_sector_offset r < 2 ^ 16 \<and> rr_bucket_no r < 2 ^ 32"

definition replica_ref_bytes :: "replica_ref \<Rightarrow> byte list" where
  "replica_ref_bytes r = le_bytes 2 (rr_disk_id r) @ le_bytes 2 (rr_sector_offset r) @ le_bytes 4 (rr_bucket_no r)"

definition replica_ref_of :: "byte list \<Rightarrow> replica_ref" where
  "replica_ref_of bs = \<lparr>rr_disk_id = get_le 0 2 bs, rr_sector_offset = get_le 2 2 bs, rr_bucket_no = get_le 4 4 bs\<rparr>"

definition location_new :: "u64 \<Rightarrow> replica_ref list \<Rightarrow> (meta_error, object_location) res" where
  "location_new extent_length replicas =
     (if length replicas > MAX_INLINE_REPLICAS then err (InvalidReplicaCount (length replicas mod 2 ^ 8))
      else ok \<lparr>loc_flags = 0, loc_replica_count = length replicas, loc_pad = replicate 6 0,
        loc_extent_length = extent_length,
        loc_replicas = replicas @ replicate (MAX_INLINE_REPLICAS - length replicas) replica_ref_zero\<rparr>)"

definition active_replicas :: "object_location \<Rightarrow> replica_ref list" where
  "active_replicas l = take (min (loc_replica_count l) MAX_INLINE_REPLICAS) (loc_replicas l)"

definition location_header_bytes :: "object_location \<Rightarrow> byte list" where
  "location_header_bytes l = le_bytes 1 (loc_flags l) @ le_bytes 1 (loc_replica_count l) @ loc_pad l @
     le_bytes 8 (loc_extent_length l)"

definition location_serialize :: "object_location \<Rightarrow> byte list" where
  "location_serialize l = location_header_bytes l @ concat (map replica_ref_bytes (active_replicas l))"

text \<open>Returns the location and the number of bytes consumed.\<close>

definition location_parse :: "byte list \<Rightarrow> (meta_error, object_location \<times> nat) res" where
  "location_parse bs =
     (if length bs < 16 then err (MetaBufferTooSmall 16 (length bs))
      else
        let replica_count = get_le 1 1 bs; needed = 16 + replica_count * 8
        in if replica_count > MAX_INLINE_REPLICAS then err (InvalidReplicaCount replica_count)
           else if length bs < needed then err (MetaBufferTooSmall needed (length bs))
           else ok (\<lparr>loc_flags = get_le 0 1 bs, loc_replica_count = replica_count, loc_pad = bslice 2 6 bs,
             loc_extent_length = get_le 8 8 bs,
             loc_replicas = map (\<lambda>i. replica_ref_of (bslice (16 + 8 * i) 8 bs)) [0..<replica_count] @
               replicate (MAX_INLINE_REPLICAS - replica_count) replica_ref_zero\<rparr>, needed))"

definition location_ok :: "object_location \<Rightarrow> bool" where
  "location_ok l \<longleftrightarrow> loc_flags l < 2 ^ 8 \<and> loc_replica_count l \<le> MAX_INLINE_REPLICAS \<and> length (loc_pad l) = 6 \<and>
     loc_extent_length l < 2 ^ 64 \<and> length (loc_replicas l) = MAX_INLINE_REPLICAS \<and>
     (\<forall>r\<in>set (loc_replicas l). replica_ref_ok r)"

text \<open>\<open>bucket_size_log2\<close> below 12 underflows the shift.\<close>

definition block_no_to_bucket_offset :: "u64 \<Rightarrow> u32 \<Rightarrow> ('e, u32 \<times> u16) res" where
  "block_no_to_bucket_offset block_no bucket_size_log2 =
     (if bucket_size_log2 < 12 then Inl Panic
      else
        let shift = bucket_size_log2 - 12
        in if shift \<ge> 64 then Inl Panic
           else ok (block_no div 2 ^ shift mod 2 ^ 32, block_no mod 2 ^ shift mod 2 ^ 16))"

section \<open>Radix addressing\<close>

definition MAX_LEVELS :: nat where "MAX_LEVELS = 3"
definition LEAF_RECORDS :: nat where "LEAF_RECORDS = 2044"
definition LEAF_RECORDS_LOCATION :: nat where "LEAF_RECORDS_LOCATION = 5440"
definition INNER_FANOUT :: nat where "INNER_FANOUT = 16380"

record radix_path =
  rx_leaf_slot :: u16
  rx_child_path :: "u16 list"
  rx_used_levels :: u8

text \<open>The loop over the first \<open>n\<close> entries of the path; the second component is the rest of the index.\<close>

fun radix_digits :: "nat \<Rightarrow> u64 \<Rightarrow> u16 list \<times> u64" where
  "radix_digits 0 idx = ([], idx)"
| "radix_digits (Suc n) idx =
     (let (ds, rest) = radix_digits n (idx div INNER_FANOUT) in (idx mod INNER_FANOUT mod 2 ^ 16 # ds, rest))"

definition oid_to_radix_path_with_leaf_fanout :: "u64 \<Rightarrow> u8 \<Rightarrow> u64 \<Rightarrow> (meta_error, radix_path) res" where
  "oid_to_radix_path_with_leaf_fanout oid_local root_level leaf_fanout =
     (if root_level > MAX_LEVELS then err (OidOutOfRange oid_local root_level)
      else if leaf_fanout = 0 then Inl Panic
      else
        let (ds, rest) = radix_digits root_level (oid_local div leaf_fanout)
        in if rest \<noteq> 0 then err (OidOutOfRange oid_local root_level)
           else ok \<lparr>rx_leaf_slot = oid_local mod leaf_fanout mod 2 ^ 16,
             rx_child_path = ds @ replicate (MAX_LEVELS - root_level) 0, rx_used_levels = root_level\<rparr>)"

text \<open>Horner's scheme over the levels in descending order; indexing past the path is a panic, and so is an id
  above the range of \<open>u64\<close>.\<close>

definition radix_path_to_oid_with_leaf_fanout :: "radix_path \<Rightarrow> u8 \<Rightarrow> u64 \<Rightarrow> ('e, u64) res" where
  "radix_path_to_oid_with_leaf_fanout path root_level leaf_fanout =
     (if root_level > length (rx_child_path path) then Inl Panic
      else
        let oid = foldr (\<lambda>d idx. idx * INNER_FANOUT + d) (take root_level (rx_child_path path)) 0 * leaf_fanout
                    + rx_leaf_slot path
        in if oid < 2 ^ 64 then ok oid else Inl Panic)"

definition oid_to_radix_path :: "u64 \<Rightarrow> u8 \<Rightarrow> (meta_error, radix_path) res" where
  "oid_to_radix_path oid_local root_level = oid_to_radix_path_with_leaf_fanout oid_local root_level LEAF_RECORDS"

definition oid_to_radix_path_location :: "u64 \<Rightarrow> u8 \<Rightarrow> (meta_error, radix_path) res" where
  "oid_to_radix_path_location oid_local root_level =
     oid_to_radix_path_with_leaf_fanout oid_local root_level LEAF_RECORDS_LOCATION"

section \<open>Tables\<close>

type_synonym object_table = "(object_id, object_record) btree_map"
type_synonym location_table = "(object_id, object_location) btree_map"

definition object_table_insert :: "object_record \<Rightarrow> object_table \<Rightarrow> object_table" where
  "object_table_insert r t = bm_insert (or_id r) r t"

text \<open>Assignment through \<open>get_mut\<close>.\<close>

definition object_table_update :: "object_id \<Rightarrow> (object_record \<Rightarrow> object_record) \<Rightarrow> object_table \<Rightarrow> object_table" where
  "object_table_update oid f t = (case bm_get t oid of None \<Rightarrow> t | Some r \<Rightarrow> bm_insert oid (f r) t)"

definition location_table_remove :: "object_id \<Rightarrow> location_table \<Rightarrow> location_table" where
  "location_table_remove oid t = bm_remove oid t"

section \<open>Lemmas\<close>

lemma length_replica_ref_bytes [simp, codec_simps]: "length (replica_ref_bytes r) = 8"
  by (simp add: replica_ref_bytes_def)

lemma replica_ref_of_bytes [codec_simps]: "replica_ref_ok r \<Longrightarrow> replica_ref_of (replica_ref_bytes r) = r"
  by (simp add: replica_ref_ok_def replica_ref_bytes_def replica_ref_of_def get_le_def bslice_def)

lemma four_elements: "length xs = 4 \<Longrightarrow> \<exists>a b c d. xs = [a, b, c, d]"
  by (auto simp: numeral_eq_Suc length_Suc_conv)

lemma length_object_record_bytes: "object_record_ok r \<Longrightarrow> length (object_record_bytes r) = 128"
  using four_elements [of "or_inline_tags r"] by (auto simp: object_record_bytes_def object_record_ok_def)

lemma object_record_of_bytes: "object_record_ok r \<Longrightarrow> object_record_of (object_record_bytes r) = r"
proof -
  assume ok: "object_record_ok r"
  then obtain a b c d where t: "or_inline_tags r = [a, b, c, d]"
    using four_elements [of "or_inline_tags r"] by (auto simp: object_record_ok_def)
  have "unat (or_id r) < 256 ^ 8" using unat64_less [of "or_id r"] by simp
  then have i: "le_nat (le_bytes 8 (unat (or_id r))) = unat (or_id r)" by simp
  show ?thesis using ok t i
    by (simp add: object_record_ok_def object_record_bytes_def object_record_of_def get_le_def bslice_def)
qed

lemma radix_digits_spec:
  "radix_digits n idx = (ds, rest) \<Longrightarrow>
     length ds = n \<and> idx = rest * INNER_FANOUT ^ n + foldr (\<lambda>d i. i * INNER_FANOUT + d) ds 0"
proof (induction n arbitrary: idx ds)
  case (Suc n)
  obtain ds' where r: "radix_digits n (idx div INNER_FANOUT) = (ds', rest)" and d: "ds = idx mod INNER_FANOUT mod 2 ^ 16 # ds'"
    using Suc.prems by (auto simp: Let_def split: prod.splits)
  have "idx mod INNER_FANOUT < 2 ^ 16" by (rule less_trans [OF mod_less_divisor]) (simp_all add: INNER_FANOUT_def)
  then have m: "idx mod INNER_FANOUT mod 2 ^ 16 = idx mod INNER_FANOUT" by simp
  have "idx = idx div INNER_FANOUT * INNER_FANOUT + idx mod INNER_FANOUT" by simp
  also have "idx div INNER_FANOUT = rest * INNER_FANOUT ^ n + foldr (\<lambda>d i. i * INNER_FANOUT + d) ds' 0"
    using Suc.IH [OF r] by simp
  finally show ?case using Suc.IH [OF r] unfolding d m by (simp add: algebra_simps)
qed simp

lemma radix_horner_less:
  "radix_digits n idx = (ds, rest) \<Longrightarrow> foldr (\<lambda>d i. i * INNER_FANOUT + d) ds 0 < INNER_FANOUT ^ n"
proof (induction n arbitrary: idx ds)
  case (Suc n)
  obtain ds' where r: "radix_digits n (idx div INNER_FANOUT) = (ds', rest)" and d: "ds = idx mod INNER_FANOUT mod 2 ^ 16 # ds'"
    using Suc.prems by (auto simp: Let_def split: prod.splits)
  let ?h = "foldr (\<lambda>d i. i * INNER_FANOUT + d) ds' 0"
  have "idx mod INNER_FANOUT mod 2 ^ 16 \<le> idx mod INNER_FANOUT" by (rule mod_less_eq_dividend)
  also have "\<dots> < INNER_FANOUT" by (simp add: INNER_FANOUT_def)
  finally have "?h * INNER_FANOUT + idx mod INNER_FANOUT mod 2 ^ 16 < Suc ?h * INNER_FANOUT" by simp
  also have "\<dots> \<le> INNER_FANOUT ^ n * INNER_FANOUT" using Suc.IH [OF r] by (intro mult_le_mono1) simp
  finally show ?case unfolding d by (simp add: mult.commute)
qed simp

text \<open>Translating a local id to a radix path and back gives the id, at every tree height and for both leaf
  sizes; the translation fails only for ids beyond the range of the tree.\<close>

theorem radix_path_roundtrip:
  assumes "0 < leaf_fanout" and "leaf_fanout \<le> 2 ^ 16" and "root_level \<le> MAX_LEVELS" and "oid < 2 ^ 64"
  shows "if oid < leaf_fanout * INNER_FANOUT ^ root_level
     then \<exists>path. oid_to_radix_path_with_leaf_fanout oid root_level leaf_fanout = ok path \<and>
        radix_path_to_oid_with_leaf_fanout path root_level leaf_fanout = (ok oid :: (unit, nat) res)
     else oid_to_radix_path_with_leaf_fanout oid root_level leaf_fanout = err (OidOutOfRange oid root_level)"
proof -
  obtain ds rest where r: "radix_digits root_level (oid div leaf_fanout) = (ds, rest)" by fastforce
  let ?h = "foldr (\<lambda>d i. i * INNER_FANOUT + d) ds 0"
  have d: "length ds = root_level" "oid div leaf_fanout = rest * INNER_FANOUT ^ root_level + ?h"
    using radix_digits_spec [OF r] by simp_all
  have h: "?h < INNER_FANOUT ^ root_level" using radix_horner_less [OF r] d(1) by simp
  have "oid mod leaf_fanout < 2 ^ 16" using assms mod_less_divisor [of leaf_fanout oid] by linarith
  then have m: "oid mod leaf_fanout mod 2 ^ 16 = oid mod leaf_fanout" by (rule mod_less)
  have z: "rest = 0 \<longleftrightarrow> oid div leaf_fanout < INNER_FANOUT ^ root_level"
    using d(2) h by (cases rest) auto
  have lt: "oid div leaf_fanout < INNER_FANOUT ^ root_level \<longleftrightarrow> oid < leaf_fanout * INNER_FANOUT ^ root_level"
    using assms(1) by (simp add: div_less_iff_less_mult mult.commute)
  show ?thesis
  proof (cases "rest = 0")
    case False
    then show ?thesis using assms(1,3) z lt by (simp add: oid_to_radix_path_with_leaf_fanout_def r)
  next
    case True
    then have "?h = oid div leaf_fanout" using d(2) by simp
    then have "?h * leaf_fanout + oid mod leaf_fanout = oid" by simp
    then show ?thesis
      unfolding oid_to_radix_path_with_leaf_fanout_def radix_path_to_oid_with_leaf_fanout_def
      using assms(1,3,4) d(1) True z lt m by (simp add: r)
  qed
qed

theorem radix_path_roundtrip_witness:
  "oid_to_radix_path 40000000 0 = err (OidOutOfRange 40000000 0) \<and>
   (\<exists>path. oid_to_radix_path 40000000 2 = ok path \<and>
      radix_path_to_oid_with_leaf_fanout path 2 LEAF_RECORDS = (ok 40000000 :: (unit, nat) res))"
  using radix_path_roundtrip [of LEAF_RECORDS 2 40000000] radix_path_roundtrip [of LEAF_RECORDS 0 40000000]
  by (simp add: oid_to_radix_path_def LEAF_RECORDS_def INNER_FANOUT_def MAX_LEVELS_def)

end
