(* ===== verification/Mb_Transform.thy ===== *)
theory Mb_Transform
  imports Mb_Module
begin

text \<open>
  The transform pipeline of blob contents (\<open>crates/transform/src/{pipeline,compress,encrypt,pad,hasher,error}.rs\<close>):
  hash, compress, pad, encrypt. BLAKE3 and zstd are external and come as the record \<open>tf_ops\<close>.
\<close>

datatype transform_error =
    TfCompression string
  | TfDecompression string
  | UnsupportedAlgo string
  | EncryptionDisabled
  | HashMismatch

record tf_ops =
  tf_blake3 :: "byte list \<Rightarrow> byte list"
  tf_zstd_encode :: "int \<Rightarrow> byte list \<Rightarrow> (string, byte list) res"
  tf_zstd_decode :: "byte list \<Rightarrow> (string, byte list) res"

record transform_pipeline =
  tp_compression :: compression_algo
  tp_encryption :: encryption_mode
  tp_key :: "byte list option"

record transform_result =
  tr_content_hash :: "byte list"
  tr_data :: "byte list"
  tr_original_size :: u64
  tr_compressed_size :: u64
  tr_stored_size :: u64

definition passthrough :: transform_pipeline where
  "passthrough = \<lparr>tp_compression = CompNone, tp_encryption = EncNone, tp_key = None\<rparr>"

fun compress :: "tf_ops \<Rightarrow> byte list \<Rightarrow> compression_algo \<Rightarrow> (transform_error, byte list) res" where
  "compress tf plaintext CompNone = ok plaintext"
| "compress tf plaintext (Zstd level) = map_err TfCompression (tf_zstd_encode tf level plaintext)"
| "compress tf plaintext Lz4 = err (UnsupportedAlgo ''Lz4'')"

fun decompress :: "tf_ops \<Rightarrow> byte list \<Rightarrow> compression_algo \<Rightarrow> (transform_error, byte list) res" where
  "decompress tf compressed CompNone = ok compressed"
| "decompress tf compressed (Zstd _) = map_err TfDecompression (tf_zstd_decode tf compressed)"
| "decompress tf compressed Lz4 = err (UnsupportedAlgo ''Lz4'')"

text \<open>Every cipher is disabled; the key is not used.\<close>

fun encrypt :: "byte list \<Rightarrow> encryption_mode \<Rightarrow> byte list \<Rightarrow> (transform_error, byte list) res" where
  "encrypt data EncNone _ = ok data"
| "encrypt data _ _ = err EncryptionDisabled"

fun decrypt :: "byte list \<Rightarrow> encryption_mode \<Rightarrow> byte list \<Rightarrow> (transform_error, byte list) res" where
  "decrypt data EncNone _ = ok data"
| "decrypt data _ _ = err EncryptionDisabled"

fun is_length_preserving :: "encryption_mode \<Rightarrow> bool" where
  "is_length_preserving AesGcm = False"
| "is_length_preserving ChaCha20Poly1305 = False"
| "is_length_preserving _ = True"

fun requires_sector_alignment :: "encryption_mode \<Rightarrow> bool" where
  "requires_sector_alignment Xts = True"
| "requires_sector_alignment (Hctr2 _) = True"
| "requires_sector_alignment _ = False"

definition TF_SECTOR_SIZE :: nat where
  "TF_SECTOR_SIZE = 4096"

definition div_ceil :: "nat \<Rightarrow> nat \<Rightarrow> nat" where
  "div_ceil a b = (let d = a div b in if a mod b > 0 then d + 1 else d)"

text \<open>The assertion on the sector size is a panic; \<open>resize\<close> to a length that is not smaller appends zeros.\<close>

definition pad_to_sector :: "byte list \<Rightarrow> nat \<Rightarrow> ('e, byte list) res" where
  "pad_to_sector data sector_size =
     (if sector_size = 0 then Inl Panic
      else if data = [] then ok data
      else (let aligned = div_ceil (length data) sector_size * sector_size
            in ok (data @ replicate (aligned - length data) 0)))"

definition is_aligned :: "byte list \<Rightarrow> nat \<Rightarrow> ('e, bool) res" where
  "is_aligned data sector_size =
     (if sector_size = 0 then Inl Panic else ok (data = [] \<or> length data mod sector_size = 0))"

definition transform_apply :: "tf_ops \<Rightarrow> transform_pipeline \<Rightarrow> byte list \<Rightarrow> (transform_error, transform_result) res" where
  "transform_apply tf p plaintext =
     (let content_hash = tf_blake3 tf plaintext; original_size = length plaintext
      in rbind (compress tf plaintext (tp_compression p)) (\<lambda>compressed.
         rbind (if requires_sector_alignment (tp_encryption p) then pad_to_sector compressed TF_SECTOR_SIZE
                else ok compressed) (\<lambda>staged.
         rbind (encrypt staged (tp_encryption p) (case tp_key p of None \<Rightarrow> replicate 32 0 | Some k \<Rightarrow> k)) (\<lambda>data.
         ok \<lparr>tr_content_hash = content_hash, tr_data = data, tr_original_size = original_size,
             tr_compressed_size = length compressed, tr_stored_size = length data\<rparr>))))"

definition transform_invert ::
  "tf_ops \<Rightarrow> transform_pipeline \<Rightarrow> byte list \<Rightarrow> byte list option \<Rightarrow> (transform_error, byte list) res" where
  "transform_invert tf p stored expected_hash =
     rbind (decrypt stored (tp_encryption p) (case tp_key p of None \<Rightarrow> replicate 32 0 | Some k \<Rightarrow> k)) (\<lambda>decrypted.
     rbind (decompress tf decrypted (tp_compression p)) (\<lambda>plaintext.
     case expected_hash of
       Some expected \<Rightarrow> if tf_blake3 tf plaintext \<noteq> expected then err HashMismatch else ok plaintext
     | None \<Rightarrow> ok plaintext))"

section \<open>Lemmas\<close>

lemma pad_to_sector_aligned:
  assumes "0 < n" and "pad_to_sector data n = ok out"
  shows "length out mod n = 0" and "take (length data) out = data" and "length out < length data + n"
proof -
  have c: "length data \<le> div_ceil (length data) n * n \<and> div_ceil (length data) n * n < length data + n"
  proof -
    define q r where "q = length data div n" and "r = length data mod n"
    have e: "length data = q * n + r" by (simp add: q_def r_def)
    have "r < n" using assms(1) by (simp add: r_def)
    then show ?thesis unfolding div_ceil_def Let_def q_def [symmetric] r_def [symmetric] e by auto
  qed
  show "length out mod n = 0" "take (length data) out = data" "length out < length data + n"
    using assms c by (auto simp: pad_to_sector_def Let_def split: if_splits)
qed

text \<open>A transform environment for examples: a hash of the length, and a compressor that prefixes a byte.\<close>

definition wit_tf :: tf_ops where
  "wit_tf = \<lparr>tf_blake3 = (\<lambda>bs. replicate 32 (word_of_nat (length bs))), tf_zstd_encode = (\<lambda>_ bs. ok (1 # bs)),
     tf_zstd_decode = (\<lambda>bs. case bs of [] \<Rightarrow> err ''frame'' | _ # r \<Rightarrow> ok r)\<rparr>"

end
