(* ===== verification/Mb_Wal_Op.thy ===== *)
theory Mb_Wal_Op
  imports Mb_Value Mb_Wal_Entry Mb_Root
begin

text \<open>
  The operations a log entry carries (\<open>crates/wal/src/entry.rs\<close>) and the dirty nodes of \<open>dirty.rs\<close>. The
  payload structs are written and read by an external CBOR library: the locale \<open>wal_codec\<close> states what the
  log relies on, that reading at the payload type of the kind gives back what was written.
\<close>

section \<open>Payloads\<close>

datatype block_ref_wire = BlockRefWire (brw_disk_id: u16) (brw_block_no: u32) (brw_generation: u64)

definition block_ref_to_wire :: "block_ref \<Rightarrow> block_ref_wire" where
  "block_ref_to_wire b = BlockRefWire (br_disk_id b) (br_block_no b) (br_generation b)"

fun block_ref_of_wire :: "block_ref_wire \<Rightarrow> block_ref" where
  "block_ref_of_wire (BlockRefWire disk no gen) = \<lparr>br_disk_id = disk, br_pad = 0, br_block_no = no, br_generation = gen\<rparr>"

datatype wal_create_object = WalCreateObject (co_oid: object_id) (co_generation: u32) (co_created_ns: int)
datatype wal_delete_object = WalDeleteObject (do_oid: object_id) (do_lsn: u64)
datatype wal_add_tag = WalAddTag (at_oid: object_id) (at_tag: tag_id) (at_origin: u8)
datatype wal_remove_tag = WalRemoveTag (rt_oid: object_id) (rt_tag: tag_id)
datatype wal_set_attr = WalSetAttr (sa_oid: object_id) (sa_key: tag_id) (sa_value: attr_value)
datatype wal_remove_attr = WalRemoveAttr (ra_oid: object_id) (ra_key: tag_id) (ra_value_hash: u64)
datatype wal_add_relation = WalAddRelation (ar_oid: object_id) (ar_predicate: tag_id) (ar_target: object_id)
datatype wal_remove_relation = WalRemoveRelation (rr_oid: object_id) (rr_predicate: tag_id) (rr_target: object_id)
datatype wal_write_blob =
  WalWriteBlob (wb_oid: object_id) (wb_content_hash: "byte list") (wb_extent: block_ref_wire) (wb_size: u64)

datatype chunk_insert_entry =
  ChunkInsertEntry (ci_chunk_hash: "byte list") (ci_extent: block_ref_wire) (ci_length: u32)
datatype chunk_list_append =
  ChunkListAppend (cla_oid: object_id) (cla_position_start: u64) (cla_region: block_ref_wire) (cla_count: u32)
datatype chunk_list_replace =
  ChunkListReplace (clr_oid: object_id) (clr_position: u64) (clr_new_hashes: "byte list list")
datatype chunk_list_shrink = ChunkListShrink (cls_oid: object_id) (cls_new_length: u64)
datatype chunk_object_finalize =
  ChunkObjectFinalize (cof_oid: object_id) (cof_content_hash: "byte list") (cof_total_length: u64) (cof_list_head: block_ref_wire)

datatype bucket_alloc_op = BucketAllocOp (ba_disk_id: u16) (ba_bucket_no: u32) (ba_data_type: u8) (ba_generation: u32)
datatype bucket_write_op = BucketWriteOp (bw_disk_id: u16) (bw_bucket_no: u32) (bw_sectors_added: u16)
datatype bucket_gen_bump = BucketGenBump (bg_disk_id: u16) (bg_bucket_no: u32) (bg_new_generation: u32)
datatype bucket_discard = BucketDiscard (bd_disk_id: u16) (bd_bucket_no: u32)

datatype tag_bitmap_grow =
  TagBitmapGrow (tbg_tag_id: tag_id) (tbg_snapshot: u32) (tbg_store_kind: u8) (tbg_new_root: block_ref_wire)
datatype tag_bitmap_shrink = TagBitmapShrink (tbs_tag_id: tag_id) (tbs_snapshot: u32)

datatype snapshot_create =
  SnapshotCreate (sc_new_id: u32) (sc_parent_id: u32) (sc_current_replacement: u32) (sc_label: "string option")
datatype snapshot_unlink = SnapshotUnlink (su_id: u32) (su_parent: u32) (su_prev_sibling: u32)
datatype snapshot_depth_update =
  SnapshotDepthUpdate (sdu_id: u32) (sdu_new_depth: u16) (sdu_new_skiplist: "u32 list") (sdu_new_ancestor_bitmap: "byte list")

datatype work_item =
  WorkItem (wi_target_kind: u8) (wi_work_kind: u8) (wi_priority: u8) (wi_owner_key: "byte list") (wi_cursor: "byte list")
datatype reconcile_enqueue = ReconcileEnqueue (re_work: work_item) (re_high_prio: bool) (re_phys_index: bool)
datatype reconcile_dequeue = ReconcileDequeue (rd_target_kind: u8) (rd_owner_key: "byte list") (rd_work_kind: u8)
datatype reconcile_move = ReconcileMove (rm_from_loc: block_ref_wire) (rm_to_loc: block_ref_wire) (rm_owner_key: "byte list")
datatype reconcile_scan_step = ReconcileScanStep (rs_scan_id: u64) (rs_btree: u16) (rs_cursor_key: "byte list")

datatype format_promote =
  FormatPromote (fp_node_ref: block_ref_wire) (fp_sorted_run_seq: u32) (fp_new_format: "byte list")
datatype wal_checkpoint = WalCheckpoint (cp_new_root: "byte list") (cp_gc_reserve_buckets: u32)

definition checkpoint_from_root :: "root_pointer \<Rightarrow> u32 \<Rightarrow> wal_checkpoint" where
  "checkpoint_from_root rp gc_reserve_buckets = WalCheckpoint (root_pointer_bytes rp) gc_reserve_buckets"

definition checkpoint_root_pointer :: "wal_checkpoint \<Rightarrow> (wal_error, root_pointer) res" where
  "checkpoint_root_pointer cp =
     (if length (cp_new_root cp) \<noteq> 408 then err (WalCborDecode ''checkpoint root_pointer size'')
      else ok (root_pointer_of (cp_new_root cp)))"

section \<open>WalOp\<close>

datatype wal_op =
    WCreateObject wal_create_object
  | WDeleteObject wal_delete_object
  | WAddTag wal_add_tag
  | WRemoveTag wal_remove_tag
  | WSetAttr wal_set_attr
  | WRemoveAttr wal_remove_attr
  | WAddRelation wal_add_relation
  | WRemoveRelation wal_remove_relation
  | WWriteBlob wal_write_blob
  | WChunkInsertBatch "chunk_insert_entry list"
  | WChunkListAppend chunk_list_append
  | WChunkListReplace chunk_list_replace
  | WChunkListShrink chunk_list_shrink
  | WChunkObjectFinalize chunk_object_finalize
  | WBucketAlloc bucket_alloc_op
  | WBucketWrite bucket_write_op
  | WBucketGenBump bucket_gen_bump
  | WBucketDiscard bucket_discard
  | WBackpointerInsert "byte list" "byte list"
  | WBackpointerRemove "byte list"
  | WTagBitmapGrow tag_bitmap_grow
  | WTagBitmapShrink tag_bitmap_shrink
  | WSnapshotCreate snapshot_create
  | WSnapshotDelete u32
  | WSnapshotUnlink snapshot_unlink
  | WSnapshotDepthUpdate snapshot_depth_update
  | WReconcileEnqueue reconcile_enqueue
  | WReconcileDequeue reconcile_dequeue
  | WReconcileMove reconcile_move
  | WReconcileScanStep reconcile_scan_step
  | WFormatPromote format_promote
  | WCheckpoint wal_checkpoint

fun wal_op_kind_of :: "wal_op \<Rightarrow> wal_op_kind" where
  "wal_op_kind_of (WCreateObject _) = OpCreateObject"
| "wal_op_kind_of (WDeleteObject _) = OpDeleteObject"
| "wal_op_kind_of (WAddTag _) = OpAddTag"
| "wal_op_kind_of (WRemoveTag _) = OpRemoveTag"
| "wal_op_kind_of (WSetAttr _) = OpSetAttr"
| "wal_op_kind_of (WRemoveAttr _) = OpRemoveAttr"
| "wal_op_kind_of (WAddRelation _) = OpAddRelation"
| "wal_op_kind_of (WRemoveRelation _) = OpRemoveRelation"
| "wal_op_kind_of (WWriteBlob _) = OpWriteBlob"
| "wal_op_kind_of (WChunkInsertBatch _) = OpChunkInsertBatch"
| "wal_op_kind_of (WChunkListAppend _) = OpChunkListAppend"
| "wal_op_kind_of (WChunkListReplace _) = OpChunkListReplace"
| "wal_op_kind_of (WChunkListShrink _) = OpChunkListShrink"
| "wal_op_kind_of (WChunkObjectFinalize _) = OpChunkObjectFinalize"
| "wal_op_kind_of (WBucketAlloc _) = OpBucketAlloc"
| "wal_op_kind_of (WBucketWrite _) = OpBucketWrite"
| "wal_op_kind_of (WBucketGenBump _) = OpBucketGenBump"
| "wal_op_kind_of (WBucketDiscard _) = OpBucketDiscard"
| "wal_op_kind_of (WBackpointerInsert _ _) = OpBackpointerInsert"
| "wal_op_kind_of (WBackpointerRemove _) = OpBackpointerRemove"
| "wal_op_kind_of (WTagBitmapGrow _) = OpTagBitmapGrow"
| "wal_op_kind_of (WTagBitmapShrink _) = OpTagBitmapShrink"
| "wal_op_kind_of (WSnapshotCreate _) = OpSnapshotCreate"
| "wal_op_kind_of (WSnapshotDelete _) = OpSnapshotDelete"
| "wal_op_kind_of (WSnapshotUnlink _) = OpSnapshotUnlink"
| "wal_op_kind_of (WSnapshotDepthUpdate _) = OpSnapshotDepthUpdate"
| "wal_op_kind_of (WReconcileEnqueue _) = OpReconcileEnqueue"
| "wal_op_kind_of (WReconcileDequeue _) = OpReconcileDequeue"
| "wal_op_kind_of (WReconcileMove _) = OpReconcileMove"
| "wal_op_kind_of (WReconcileScanStep _) = OpReconcileScanStep"
| "wal_op_kind_of (WFormatPromote _) = OpFormatPromote"
| "wal_op_kind_of (WCheckpoint _) = OpCheckpoint"

text \<open>\<open>wc_ser\<close> writes the payload struct of an operation; \<open>wc_de k\<close> reads at the payload type of the kind \<open>k\<close>.\<close>

record wal_codec_ops =
  wc_ser :: "wal_op \<Rightarrow> (string, byte list) res"
  wc_de :: "wal_op_kind \<Rightarrow> byte list \<Rightarrow> (string, wal_op) res"

definition wal_op_encode :: "wal_codec_ops \<Rightarrow> wal_op \<Rightarrow> (wal_error, wal_op_kind \<times> byte list) res" where
  "wal_op_encode wc op = rbind (map_err WalCborEncode (wc_ser wc op)) (\<lambda>buf. ok (wal_op_kind_of op, buf))"

definition wal_op_decode :: "wal_codec_ops \<Rightarrow> wal_op_kind \<Rightarrow> byte list \<Rightarrow> (wal_error, wal_op) res" where
  "wal_op_decode wc kind payload = map_err WalCborDecode (wc_de wc kind payload)"

locale wal_codec =
  fixes wc :: wal_codec_ops
  assumes ser_de: "wc_ser wc op = ok bs \<Longrightarrow> wc_de wc (wal_op_kind_of op) bs = ok op"
    and de_kind: "wc_de wc k bs = ok op \<Longrightarrow> wal_op_kind_of op = k"
begin

lemma encode_decode: "wal_op_encode wc op = ok (k, bs) \<Longrightarrow> wal_op_decode wc k bs = ok op"
  by (auto simp: wal_op_encode_def wal_op_decode_def res_simps ser_de)

lemma decode_inject:
  "wal_op_encode wc op = ok (k, bs) \<Longrightarrow> wal_op_encode wc op' = ok (k, bs) \<Longrightarrow> op = op'"
  using encode_decode [of op] encode_decode [of op'] by auto

end

subsection \<open>A fixed-width codec\<close>

text \<open>The operations on objects, tags and relations and checkpoints as concatenations of their fields; it refuses the others.\<close>

fun fw_ser :: "wal_op \<Rightarrow> (string, byte list) res" where
  "fw_ser (WCreateObject (WalCreateObject oid gen ns)) =
     (if gen < 2 ^ 32 \<and> i64_ok ns then ok (le_bytes 8 (unat oid) @ le_bytes 4 gen @ i64_bytes ns) else err ''range'')"
| "fw_ser (WDeleteObject (WalDeleteObject oid lsn)) =
     (if lsn < 2 ^ 64 then ok (le_bytes 8 (unat oid) @ le_bytes 8 lsn) else err ''range'')"
| "fw_ser (WAddTag (WalAddTag oid tag origin)) =
     (if tag < 2 ^ 32 \<and> origin < 2 ^ 8 then ok (le_bytes 8 (unat oid) @ le_bytes 4 tag @ le_bytes 1 origin) else err ''range'')"
| "fw_ser (WRemoveTag (WalRemoveTag oid tag)) =
     (if tag < 2 ^ 32 then ok (le_bytes 8 (unat oid) @ le_bytes 4 tag) else err ''range'')"
| "fw_ser (WAddRelation (WalAddRelation oid p t)) =
     (if p < 2 ^ 32 then ok (le_bytes 8 (unat oid) @ le_bytes 4 p @ le_bytes 8 (unat t)) else err ''range'')"
| "fw_ser (WRemoveRelation (WalRemoveRelation oid p t)) =
     (if p < 2 ^ 32 then ok (le_bytes 8 (unat oid) @ le_bytes 4 p @ le_bytes 8 (unat t)) else err ''range'')"
| "fw_ser (WCheckpoint (WalCheckpoint root n)) =
     (if n < 2 ^ 32 \<and> length root \<le> 4000 then ok (le_bytes 4 n @ root) else err ''range'')"
| "fw_ser _ = err ''unsupported''"

fun fw_de :: "wal_op_kind \<Rightarrow> byte list \<Rightarrow> (string, wal_op) res" where
  "fw_de OpCreateObject bs =
     ok (WCreateObject (WalCreateObject (word_of_nat (get_le 0 8 bs)) (get_le 8 4 bs) (i64_of (bslice 12 8 bs))))"
| "fw_de OpDeleteObject bs = ok (WDeleteObject (WalDeleteObject (word_of_nat (get_le 0 8 bs)) (get_le 8 8 bs)))"
| "fw_de OpAddTag bs = ok (WAddTag (WalAddTag (word_of_nat (get_le 0 8 bs)) (get_le 8 4 bs) (get_le 12 1 bs)))"
| "fw_de OpRemoveTag bs = ok (WRemoveTag (WalRemoveTag (word_of_nat (get_le 0 8 bs)) (get_le 8 4 bs)))"
| "fw_de OpAddRelation bs =
     ok (WAddRelation (WalAddRelation (word_of_nat (get_le 0 8 bs)) (get_le 8 4 bs) (word_of_nat (get_le 12 8 bs))))"
| "fw_de OpRemoveRelation bs =
     ok (WRemoveRelation (WalRemoveRelation (word_of_nat (get_le 0 8 bs)) (get_le 8 4 bs) (word_of_nat (get_le 12 8 bs))))"
| "fw_de OpCheckpoint bs = ok (WCheckpoint (WalCheckpoint (drop 4 bs) (get_le 0 4 bs)))"
| "fw_de _ bs = err ''unsupported''"

definition fw_codec :: wal_codec_ops where
  "fw_codec = \<lparr>wc_ser = fw_ser, wc_de = fw_de\<rparr>"

lemma le_nat_oid: "word_of_nat (le_nat (le_bytes 8 (unat (oid :: object_id)))) = oid"
proof -
  have "unat oid < 256 ^ 8" using unat64_less [of oid] by simp
  then have "le_nat (le_bytes 8 (unat oid)) = unat oid" by (rule le_nat_le_bytes)
  then show ?thesis by simp
qed

lemma fw_ser_de: "fw_ser op = ok bs \<Longrightarrow> fw_de (wal_op_kind_of op) bs = ok op"
  by (induction op rule: fw_ser.induct)
    (auto simp: get_le_def codec_simps le_nat_oid bslice_def split: if_splits)

lemma fw_de_kind: "fw_de k bs = ok op \<Longrightarrow> wal_op_kind_of op = k"
  by (cases k) auto

interpretation fwc: wal_codec fw_codec
  by unfold_locales (simp_all add: fw_codec_def fw_ser_de fw_de_kind)

section \<open>DirtyNode\<close>

record dirty_node =
  dn_block_ref :: block_ref
  dn_last_persisted_lsn :: u64
  dn_pending_lsn_min :: u64
  dn_pending_lsn_max :: u64
  dn_pending_count :: u32

definition dirty_node_new :: "block_ref \<Rightarrow> u64 \<Rightarrow> dirty_node" where
  "dirty_node_new b lsn = \<lparr>dn_block_ref = b, dn_last_persisted_lsn = lsn, dn_pending_lsn_min = 0,
     dn_pending_lsn_max = 0, dn_pending_count = 0\<rparr>"

definition dirty_pin :: "u64 \<Rightarrow> dirty_node \<Rightarrow> ('e, dirty_node) res" where
  "dirty_pin lsn n =
     (if dn_pending_count n + 1 < 2 ^ 32
      then ok (n\<lparr>dn_pending_lsn_min := (if dn_pending_count n = 0 then lsn else dn_pending_lsn_min n),
                 dn_pending_lsn_max := lsn, dn_pending_count := dn_pending_count n + 1\<rparr>)
      else Inl Panic)"

definition dirty_is_clean :: "dirty_node \<Rightarrow> bool" where
  "dirty_is_clean n \<longleftrightarrow> dn_pending_count n = 0"

end
