(* ===== verification/Mb_Engine.thy ===== *)
theory Mb_Engine
  imports Mb_Watch Mb_Meta Mb_Transform Mb_Wal_Op
begin

text \<open>
  The in-memory engine (\<open>crates/engine/src/engine.rs\<close>), its operation log (\<open>oplog.rs\<close>) and the projection of
  operations to log entries and back (\<open>wal_proj.rs\<close>). The engine owns the object and location tables, the
  indexes, the ontology, the subscriptions and the clock.

  The fields of the source that no operation of the engine touches (chunk index, back pointers, allocation
  tables, path contexts) are left out. Every operation takes the reading of the wall clock. An operation that
  fails reports its error only: what it has assigned by then (the clock) is not tracked.
\<close>

section \<open>OpLog\<close>

datatype op_kind =
    KCreateObject object_id
  | KDeleteObject object_id
  | KAddTag object_id tag_id
  | KRemoveTag object_id tag_id
  | KSetAttr object_id tag_id attr_value
  | KRemoveAttr object_id tag_id u64
  | KAddRelation object_id tag_id object_id
  | KRemoveRelation object_id tag_id object_id
  | KWriteBlob object_id "byte list" u64

record op_log_entry =
  ole_timestamp :: hybrid_timestamp
  ole_lsn :: u64
  ole_op :: op_kind

record op_log =
  ol_entries :: "op_log_entry list"
  ol_max_len :: nat

definition DEFAULT_OPLOG_CAPACITY :: nat where
  "DEFAULT_OPLOG_CAPACITY = 4096"

definition oplog_new :: "nat \<Rightarrow> op_log" where
  "oplog_new capacity = \<lparr>ol_entries = [], ol_max_len = (if capacity = 0 then DEFAULT_OPLOG_CAPACITY else capacity)\<rparr>"

text \<open>The loop pops the front until there is room.\<close>

function pop_until :: "nat \<Rightarrow> 'a list \<Rightarrow> 'a list" where
  "pop_until max_len q = (if length q \<ge> max_len \<and> q \<noteq> [] then pop_until max_len (tl q) else q)"
  by pat_completeness auto
termination by (relation "measure (\<lambda>(_, q). length q)") auto

declare pop_until.simps [simp del]

definition oplog_record :: "op_kind \<Rightarrow> u64 \<Rightarrow> hybrid_timestamp \<Rightarrow> op_log \<Rightarrow> op_log" where
  "oplog_record op lsn ts l =
     l\<lparr>ol_entries := pop_until (ol_max_len l) (ol_entries l) @ [\<lparr>ole_timestamp = ts, ole_lsn = lsn, ole_op = op\<rparr>]\<rparr>"

definition oplog_since :: "u64 \<Rightarrow> op_log \<Rightarrow> op_log_entry list" where
  "oplog_since start_lsn l = filter (\<lambda>e. start_lsn \<le> ole_lsn e) (ol_entries l)"

section \<open>Engine\<close>

datatype engine_error =
    EngWal wal_error
  | EngMeta meta_error
  | EngIndex index_error
  | EngOntology ontology_error
  | EngTransform transform_error
  | EngQuery query_error
  | EngWatch watch_error
  | EngStorage storage_error
  | EngCbor string
  | EngNotImplemented string
  | EngObjectNotFound object_id
  | EngLsnAlreadyApplied u64
  | EngReadOnly

record ('b, 'g) engine =
  e_object_table :: object_table
  e_location_table :: location_table
  e_forward :: forward_index
  e_tags :: "'b tag_index"
  e_kv :: "'b kv_index"
  e_range :: "'b range_index"
  e_ontology :: "'g ontology_state"
  e_subs :: "'b sub_engine"
  e_oplog :: op_log
  e_clock :: hybrid_clock
  e_node_id :: u16
  e_transform :: transform_pipeline
  e_next_oid_local :: u64
  e_next_tag_id :: u32
  e_last_applied_lsn :: u64

definition engine_new :: "('b, 'g) qenv \<Rightarrow> u16 \<Rightarrow> ('b, 'g) engine" where
  "engine_new en node = \<lparr>e_object_table = [], e_location_table = [], e_forward = [], e_tags = [], e_kv = kv_new,
     e_range = [], e_ontology = ontology_new (q_graph en), e_subs = se_new, e_oplog = oplog_new DEFAULT_OPLOG_CAPACITY,
     e_clock = clock_new node, e_node_id = node, e_transform = passthrough, e_next_oid_local = 1, e_next_tag_id = 1,
     e_last_applied_lsn = 0\<rparr>"

definition set_transform :: "transform_pipeline \<Rightarrow> ('b, 'g) engine \<Rightarrow> ('b, 'g) engine" where
  "set_transform p e = e\<lparr>e_transform := p\<rparr>"

text \<open>\<open>clock.now()\<close>, a record in the operation log, and the update of an object record.\<close>

definition engine_now :: "nat option \<Rightarrow> ('b, 'g) engine \<Rightarrow> hybrid_timestamp \<times> ('b, 'g) engine" where
  "engine_now sys e = (let (ts, c) = clock_now (e_clock e) sys in (ts, e\<lparr>e_clock := c\<rparr>))"

definition engine_log :: "op_kind \<Rightarrow> hybrid_timestamp \<Rightarrow> ('b, 'g) engine \<Rightarrow> ('b, 'g) engine" where
  "engine_log op ts e = e\<lparr>e_oplog := oplog_record op 0 ts (e_oplog e)\<rparr>"

definition engine_touch :: "object_id \<Rightarrow> (object_record \<Rightarrow> object_record) \<Rightarrow> ('b, 'g) engine \<Rightarrow> ('b, 'g) engine" where
  "engine_touch oid f e = e\<lparr>e_object_table := object_table_update oid f (e_object_table e)\<rparr>"

definition has_object :: "object_id \<Rightarrow> ('b, 'g) engine \<Rightarrow> bool" where
  "has_object oid e \<longleftrightarrow> bm_get (e_object_table e) oid \<noteq> None"

definition sat_add16 :: "u16 \<Rightarrow> u16 \<Rightarrow> u16" where
  "sat_add16 a b = min (a + b) (2 ^ 16 - 1)"

definition create_object :: "nat option \<Rightarrow> ('b, 'g) engine \<Rightarrow> object_id \<times> ('b, 'g) engine" where
  "create_object sys e =
     (let loc = e_next_oid_local e;
          e1 = e\<lparr>e_next_oid_local := min (loc + 1) (2 ^ 64 - 1)\<rparr>;
          oid = oid_from_parts (word_of_nat (e_node_id e1)) (word_of_nat loc);
          (ts, e2) = engine_now sys e1;
          rec = (set_state ObjActive (object_record_new oid))\<lparr>or_created_ns := physical_ns ts, or_modified_ns := physical_ns ts\<rparr>;
          e3 = e2\<lparr>e_object_table := object_table_insert rec (e_object_table e2)\<rparr>;
          e4 = engine_log (KCreateObject oid) ts e3
      in (oid, e4\<lparr>e_subs := on_object_created oid 0 (physical_ns ts) (e_subs e4)\<rparr>))"

text \<open>The loop over the assertions of a deleted object.\<close>

fun strip_attrs :: "value_codec \<Rightarrow> 'b rb_ops \<Rightarrow> u32 \<Rightarrow> (assertion \<times> tag_origin) list \<Rightarrow> 'b kv_index \<times> 'b range_index
    \<Rightarrow> ('e, 'b kv_index \<times> 'b range_index) res" where
  "strip_attrs vc rb local32 [] ix = ok ix"
| "strip_attrs vc rb local32 ((AAttr key v, _) # as) (kv, rng) =
     rbind (kv_remove vc rb key v local32 kv) (\<lambda>(kv', _).
     strip_attrs vc rb local32 as (kv', fst (range_remove rb key v local32 rng)))"
| "strip_attrs vc rb local32 (_ # as) ix = strip_attrs vc rb local32 as ix"

definition delete_object ::
  "('b, 'g) qenv \<Rightarrow> nat option \<Rightarrow> object_id \<Rightarrow> ('b, 'g) engine \<Rightarrow> (engine_error, ('b, 'g) engine) res" where
  "delete_object en sys oid e =
     (if \<not> has_object oid e then err (EngObjectNotFound oid)
      else
        let (ts, e1) = engine_now sys e;
            e2 = engine_touch oid (\<lambda>r. (set_state ObjTombstoned r)\<lparr>or_modified_ns := physical_ns ts\<rparr>) e1;
            e3 = e2\<lparr>e_tags := fst (remove_object_from_all (q_rb en) oid (e_tags e2))\<rparr>
        in rbind (strip_attrs (q_vc en) (q_rb en) (oid_entry oid) (fw_assertions_of (e_forward e3) oid) (e_kv e3, e_range e3))
             (\<lambda>(kv, rng).
           let e4 = e3\<lparr>e_kv := kv, e_range := rng, e_forward := fst (fw_remove_object oid (e_forward e3)),
                       e_location_table := location_table_remove oid (e_location_table e3)\<rparr>;
               e5 = engine_log (KDeleteObject oid) ts e4
           in ok (e5\<lparr>e_subs := on_object_deleted (q_rb en) oid 0 (physical_ns ts) (e_subs e5)\<rparr>)))"

subsection \<open>Tags\<close>

definition holds_tag :: "forward_index \<Rightarrow> object_id \<Rightarrow> tag_id \<Rightarrow> bool" where
  "holds_tag fw oid t \<longleftrightarrow> (\<exists>x\<in>set (fw_assertions_of fw oid). fst x = ATag t)"

text \<open>One iteration of the loop over the closure, shared by the live operation and the replay.\<close>

definition add_closure_tag :: "('b, 'g) qenv \<Rightarrow> object_id \<Rightarrow> tag_id \<Rightarrow> tag_id \<Rightarrow> forward_index \<times> 'b tag_index
    \<Rightarrow> forward_index \<times> 'b tag_index" where
  "add_closure_tag en oid tag t ix = (case ix of (fw, tags) \<Rightarrow>
     if holds_tag fw oid t then (fw, tags)
     else (fw_add_assertion oid (ATag t) (if t = tag then Direct else Materialized) fw, ti_add_member (q_rb en) t oid tags))"

definition add_tag_indexes :: "('b, 'g) qenv \<Rightarrow> object_id \<Rightarrow> tag_id \<Rightarrow> tag_id list \<Rightarrow> ('b, 'g) engine \<Rightarrow> ('b, 'g) engine" where
  "add_tag_indexes en oid tag implied e =
     (let (fw, tags) = fold (add_closure_tag en oid tag) implied (e_forward e, e_tags e)
      in e\<lparr>e_forward := fw, e_tags := tags\<rparr>)"

definition engine_add_tag ::
  "('b, 'g) qenv \<Rightarrow> nat option \<Rightarrow> object_id \<Rightarrow> tag_id \<Rightarrow> ('b, 'g) engine \<Rightarrow> (engine_error, ('b, 'g) engine) res" where
  "engine_add_tag en sys oid tag e =
     (if \<not> has_object oid e then err (EngObjectNotFound oid)
      else
        let (ts, e1) = engine_now sys e
        in rbind (await (state_materialise (q_graph en) (e_ontology e1) [tag])) (\<lambda>closure.
           let e2 = add_tag_indexes en oid tag closure e1;
               e3 = e2\<lparr>e_subs := on_tag_added (q_rb en) oid tag 0 (physical_ns ts) (e_subs e2)\<rparr>;
               e4 = engine_touch oid (\<lambda>r. r\<lparr>or_tag_count := sat_add16 (or_tag_count r) (length closure mod 2 ^ 16),
                                         or_modified_ns := physical_ns ts\<rparr>) e3
           in ok (engine_log (KAddTag oid tag) ts e4)))"

text \<open>\<open>still_implied\<close>: the union of the closures of the surviving direct tags.\<close>

fun implied_by :: "('b, 'g) qenv \<Rightarrow> 'g ontology_state \<Rightarrow> tag_id list \<Rightarrow> tag_id set \<Rightarrow> ('e, tag_id set) res" where
  "implied_by en st [] acc = ok acc"
| "implied_by en st (t # ts) acc =
     rbind (await (state_materialise (q_graph en) st [t])) (\<lambda>c. implied_by en st ts (acc \<union> set c))"

text \<open>\<open>remove_assertion\<close> on the forward index and, when it removed something, \<open>remove_member\<close> on the tag index.\<close>

definition drop_tag :: "('b, 'g) qenv \<Rightarrow> object_id \<Rightarrow> tag_id \<Rightarrow> forward_index \<times> 'b tag_index \<Rightarrow> forward_index \<times> 'b tag_index" where
  "drop_tag en oid t ix = (case ix of (fw, tags) \<Rightarrow>
     let (fw', removed) = fw_remove_assertion oid (ATag t) fw
     in (fw', if removed then fst (ti_remove_member (q_rb en) t oid tags) else tags))"

definition remove_tag_indexes ::
  "('b, 'g) qenv \<Rightarrow> object_id \<Rightarrow> tag_id \<Rightarrow> ('b, 'g) engine \<Rightarrow> ('e, ('b, 'g) engine) res" where
  "remove_tag_indexes en oid tag e =
     (let was_direct = (ATag tag, Direct) \<in> set (fw_assertions_of (e_forward e) oid);
          (fw, tags) = drop_tag en oid tag (e_forward e, e_tags e)
      in if was_direct
         then rbind (implied_by en (e_ontology e) (fw_direct_tags fw oid) {}) (\<lambda>still_implied.
              let (fw', tags') = fold (\<lambda>m ix. if m \<in> still_implied then ix else drop_tag en oid m ix)
                                   (fw_materialized_tags fw oid) (fw, tags)
              in ok (e\<lparr>e_forward := fw', e_tags := tags'\<rparr>))
         else ok (e\<lparr>e_forward := fw, e_tags := tags\<rparr>))"

definition engine_remove_tag ::
  "('b, 'g) qenv \<Rightarrow> nat option \<Rightarrow> object_id \<Rightarrow> tag_id \<Rightarrow> ('b, 'g) engine \<Rightarrow> (engine_error, ('b, 'g) engine) res" where
  "engine_remove_tag en sys oid tag e =
     (if \<not> has_object oid e then err (EngObjectNotFound oid)
      else
        let (ts, e1) = engine_now sys e
        in rbind (remove_tag_indexes en oid tag e1) (\<lambda>e2.
           let e3 = engine_touch oid (\<lambda>r. r\<lparr>or_tag_count := or_tag_count r - 1, or_modified_ns := physical_ns ts\<rparr>) e2;
               e4 = e3\<lparr>e_subs := on_tag_removed (q_rb en) oid tag 0 (physical_ns ts) (e_subs e3)\<rparr>
           in ok (engine_log (KRemoveTag oid tag) ts e4)))"

subsection \<open>Attributes and relations\<close>

definition set_attr_indexes ::
  "('b, 'g) qenv \<Rightarrow> object_id \<Rightarrow> tag_id \<Rightarrow> attr_value \<Rightarrow> ('b, 'g) engine \<Rightarrow> ('e, ('b, 'g) engine) res" where
  "set_attr_indexes en oid key v e =
     rbind (kv_insert (q_vc en) (q_rb en) key v (oid_entry oid) (e_kv e)) (\<lambda>kv.
     ok (e\<lparr>e_forward := fw_add_assertion oid (AAttr key v) Direct (e_forward e), e_kv := kv,
           e_range := range_insert (q_rb en) key v (oid_entry oid) (e_range e)\<rparr>))"

definition set_attr ::
  "('b, 'g) qenv \<Rightarrow> nat option \<Rightarrow> object_id \<Rightarrow> tag_id \<Rightarrow> attr_value \<Rightarrow> ('b, 'g) engine
    \<Rightarrow> (engine_error, ('b, 'g) engine) res" where
  "set_attr en sys oid key v e =
     (if \<not> has_object oid e then err (EngObjectNotFound oid)
      else
        let (ts, e1) = engine_now sys e
        in rbind (set_attr_indexes en oid key v e1) (\<lambda>e2.
           let e3 = engine_touch oid (\<lambda>r. r\<lparr>or_attr_count := sat_add16 (or_attr_count r) 1, or_modified_ns := physical_ns ts\<rparr>) e2;
               e4 = e3\<lparr>e_subs := on_content_changed (q_rb en) oid 0 (physical_ns ts) (e_subs e3)\<rparr>
           in ok (engine_log (KSetAttr oid key v) ts e4)))"

definition engine_value_hash :: "value_codec \<Rightarrow> attr_value \<Rightarrow> ('e, u64) res" where
  "engine_value_hash vc v = value_hash vc v (replicate 16 0)"

text \<open>The first attribute with the key and the hash; the hash is computed for attributes with the key only.\<close>

fun find_attr :: "value_codec \<Rightarrow> tag_id \<Rightarrow> u64 \<Rightarrow> (assertion \<times> tag_origin) list \<Rightarrow> ('e, attr_value option) res" where
  "find_attr vc key h [] = ok None"
| "find_attr vc key h ((AAttr k v, _) # as) =
     (if k = key then rbind (engine_value_hash vc v) (\<lambda>h'. if h' = h then ok (Some v) else find_attr vc key h as)
      else find_attr vc key h as)"
| "find_attr vc key h (_ # as) = find_attr vc key h as"

text \<open>The result says whether an attribute was found.\<close>

definition remove_attr_indexes ::
  "('b, 'g) qenv \<Rightarrow> object_id \<Rightarrow> tag_id \<Rightarrow> u64 \<Rightarrow> ('b, 'g) engine \<Rightarrow> ('e, bool \<times> ('b, 'g) engine) res" where
  "remove_attr_indexes en oid key h e =
     rbind (find_attr (q_vc en) key h (fw_assertions_of (e_forward e) oid)) (\<lambda>found.
     case found of
       None \<Rightarrow> ok (False, e)
     | Some v \<Rightarrow>
         rbind (kv_remove (q_vc en) (q_rb en) key v (oid_entry oid) (e_kv e)) (\<lambda>(kv, _).
         ok (True, e\<lparr>e_forward := fst (fw_remove_assertion oid (AAttr key v) (e_forward e)), e_kv := kv,
               e_range := fst (range_remove (q_rb en) key v (oid_entry oid) (e_range e))\<rparr>)))"

definition remove_attr ::
  "('b, 'g) qenv \<Rightarrow> nat option \<Rightarrow> object_id \<Rightarrow> tag_id \<Rightarrow> u64 \<Rightarrow> ('b, 'g) engine
    \<Rightarrow> (engine_error, ('b, 'g) engine) res" where
  "remove_attr en sys oid key h e =
     (if \<not> has_object oid e then err (EngObjectNotFound oid)
      else
        let (ts, e1) = engine_now sys e
        in rbind (remove_attr_indexes en oid key h e1) (\<lambda>(found, e2).
           let e3 = if found
                    then engine_touch oid (\<lambda>r. r\<lparr>or_attr_count := or_attr_count r - 1, or_modified_ns := physical_ns ts\<rparr>) e2
                    else e2;
               e4 = e3\<lparr>e_subs := on_content_changed (q_rb en) oid 0 (physical_ns ts) (e_subs e3)\<rparr>
           in ok (engine_log (KRemoveAttr oid key h) ts e4)))"

definition add_relation ::
  "nat option \<Rightarrow> object_id \<Rightarrow> tag_id \<Rightarrow> object_id \<Rightarrow> ('b, 'g) engine \<Rightarrow> (engine_error, ('b, 'g) engine) res" where
  "add_relation sys oid predicate target e =
     (if \<not> has_object oid e then err (EngObjectNotFound oid)
      else
        let (ts, e1) = engine_now sys e;
            e2 = e1\<lparr>e_forward := fw_add_assertion oid (ARelation predicate target) Direct (e_forward e1)\<rparr>;
            e3 = engine_touch oid (\<lambda>r. r\<lparr>or_relation_count := sat_add16 (or_relation_count r) 1, or_modified_ns := physical_ns ts\<rparr>) e2
        in ok (engine_log (KAddRelation oid predicate target) ts e3))"

definition remove_relation ::
  "nat option \<Rightarrow> object_id \<Rightarrow> tag_id \<Rightarrow> object_id \<Rightarrow> ('b, 'g) engine \<Rightarrow> (engine_error, ('b, 'g) engine) res" where
  "remove_relation sys oid predicate target e =
     (if \<not> has_object oid e then err (EngObjectNotFound oid)
      else
        let (ts, e1) = engine_now sys e;
            (fw, removed) = fw_remove_assertion oid (ARelation predicate target) (e_forward e1);
            e2 = e1\<lparr>e_forward := fw\<rparr>;
            e3 = if removed
                 then engine_touch oid (\<lambda>r. r\<lparr>or_relation_count := or_relation_count r - 1, or_modified_ns := physical_ns ts\<rparr>) e2
                 else e2
        in ok (engine_log (KRemoveRelation oid predicate target) ts e3))"

subsection \<open>Contents\<close>

record blob_write_result =
  bwr_content_hash :: "byte list"
  bwr_original_size :: u64
  bwr_stored_size :: u64
  bwr_data :: "byte list"

definition write_blob ::
  "tf_ops \<Rightarrow> ('b, 'g) qenv \<Rightarrow> nat option \<Rightarrow> object_id \<Rightarrow> byte list \<Rightarrow> ('b, 'g) engine
    \<Rightarrow> (engine_error, blob_write_result \<times> ('b, 'g) engine) res" where
  "write_blob tf en sys oid plaintext e =
     (if \<not> has_object oid e then err (EngObjectNotFound oid)
      else
        let (ts, e1) = engine_now sys e
        in rbind (map_err EngTransform (transform_apply tf (e_transform e1) plaintext)) (\<lambda>r.
           let e2 = engine_touch oid (\<lambda>rec. rec\<lparr>or_content_hash := tr_content_hash r, or_blob_length := tr_original_size r,
                      or_stored_size := tr_stored_size r, or_modified_ns := physical_ns ts\<rparr>) e1;
               e3 = e2\<lparr>e_subs := on_content_changed (q_rb en) oid 0 (physical_ns ts) (e_subs e2)\<rparr>;
               e4 = engine_log (KWriteBlob oid (tr_content_hash r) (tr_original_size r)) ts e3
           in ok (\<lparr>bwr_content_hash = tr_content_hash r, bwr_original_size = tr_original_size r,
                   bwr_stored_size = tr_stored_size r, bwr_data = tr_data r\<rparr>, e4)))"

section \<open>Queries and subscriptions\<close>

definition executor_of :: "('b, 'g) engine \<Rightarrow> ('b, 'g) executor" where
  "executor_of e = \<lparr>ex_tags = e_tags e, ex_kv = e_kv e, ex_range = e_range e, ex_forward = e_forward e,
     ex_ontology = e_ontology e\<rparr>"

definition engine_query :: "('b, 'g) qenv \<Rightarrow> query \<Rightarrow> ('b, 'g) engine \<Rightarrow> (engine_error, 'b) res" where
  "engine_query en q e = map_err EngQuery (evaluate en (executor_of e) q)"

definition query_full :: "('b, 'g) qenv \<Rightarrow> query \<Rightarrow> ('b, 'g) engine \<Rightarrow> (engine_error, object_id list) res" where
  "query_full en q e = map_err EngQuery (evaluate_full en (executor_of e) q)"

definition subscribe ::
  "('b, 'g) qenv \<Rightarrow> string \<Rightarrow> query \<Rightarrow> change_interest \<Rightarrow> retention \<Rightarrow> ('b, 'g) engine
    \<Rightarrow> (engine_error, subscription_id \<times> ('b, 'g) engine) res" where
  "subscribe en name q interest ret e =
     rbind (map_err EngQuery (evaluate en (executor_of e) q)) (\<lambda>initial.
     let (i, subs) = register name q interest ret initial 0 (e_subs e) in ok (i, e\<lparr>e_subs := subs\<rparr>))"

section \<open>Ontology\<close>

definition max_tag_id :: "'g ontology_state \<Rightarrow> u32" where
  "max_tag_id st = fold max (map fst (os_tags st)) 0"

definition add_u32 :: "nat \<Rightarrow> nat \<Rightarrow> ('e, nat) res" where
  "add_u32 a b = (if a + b < 2 ^ 32 then ok (a + b) else Inl Panic)"

definition next_free_tag_id :: "('b, 'g) engine \<Rightarrow> ('e, u32) res" where
  "next_free_tag_id e = rbind (add_u32 (max_tag_id (e_ontology e)) 1) (\<lambda>n. ok (max (e_next_tag_id e) n))"

definition install_ontology_module ::
  "('b, 'g) qenv \<Rightarrow> ontology_module \<Rightarrow> ('b, 'g) engine \<Rightarrow> (engine_error, install_result \<times> ('b, 'g) engine) res" where
  "install_ontology_module en m e =
     rbind (next_free_tag_id e) (\<lambda>start.
     let (r, st, _) = install (q_graph en) (e_ontology e) m (starting_at start)
     in rbind (map_err EngOntology r) (\<lambda>res.
        rbind (add_u32 (max_tag_id st) 1) (\<lambda>n.
        rbind (refresh_ontology_links (q_graph en) st (e_subs e)) (\<lambda>subs.
        ok (res, e\<lparr>e_ontology := st, e_next_tag_id := max (e_next_tag_id e) n, e_subs := subs\<rparr>)))))"

definition resolve_tag_name :: "string \<Rightarrow> ('b, 'g) engine \<Rightarrow> tag_id option" where
  "resolve_tag_name name e = bm_get (os_names (e_ontology e)) name"

definition engine_register_tag :: "('b, 'g) qenv \<Rightarrow> string \<Rightarrow> ('b, 'g) engine \<Rightarrow> ('e, tag_id \<times> ('b, 'g) engine) res" where
  "engine_register_tag en name e =
     (case resolve_tag_name name e of
        Some existing \<Rightarrow> ok (existing, e)
      | None \<Rightarrow>
          rbind (next_free_tag_id e) (\<lambda>i.
          let st = e_ontology e;
              def = \<lparr>td_id = i, td_name = name, td_semantics = Label, td_implies = [], td_storage = None\<rparr>
          in ok (i, e\<lparr>e_next_tag_id := min (i + 1) (2 ^ 32 - 1),
                      e_ontology := st\<lparr>os_dag := add_tag (q_graph en) (os_dag st) i,
                                       os_names := bm_insert name i (os_names st), os_tags := bm_insert i def (os_tags st)\<rparr>\<rparr>)))"

section \<open>Replay\<close>

definition fresh_record :: "object_id \<Rightarrow> int \<Rightarrow> object_record" where
  "fresh_record oid ns = (set_state ObjActive (object_record_new oid))\<lparr>or_created_ns := ns, or_modified_ns := ns\<rparr>"

text \<open>The operations on a missing object insert an active record first.\<close>

definition ensure_record :: "object_id \<Rightarrow> ('b, 'g) engine \<Rightarrow> ('b, 'g) engine" where
  "ensure_record oid e =
     (if has_object oid e then e
      else e\<lparr>e_object_table := object_table_insert (set_state ObjActive (object_record_new oid)) (e_object_table e)\<rparr>)"

definition replay_create_object :: "object_id \<Rightarrow> int \<Rightarrow> ('b, 'g) engine \<Rightarrow> ('b, 'g) engine" where
  "replay_create_object oid created_ns e =
     (let e1 = if has_object oid e then e
               else e\<lparr>e_object_table := object_table_insert (fresh_record oid created_ns) (e_object_table e)\<rparr>;
          loc = unat (oid_local_seq oid)
      in if loc \<ge> e_next_oid_local e1 then e1\<lparr>e_next_oid_local := min (loc + 1) (2 ^ 64 - 1)\<rparr> else e1)"

definition ensure_oid_exists :: "object_id \<Rightarrow> ('b, 'g) engine \<Rightarrow> ('b, 'g) engine" where
  "ensure_oid_exists oid e = replay_create_object oid 0 e"

definition replay_delete_object :: "('b, 'g) qenv \<Rightarrow> object_id \<Rightarrow> ('b, 'g) engine \<Rightarrow> ('b, 'g) engine" where
  "replay_delete_object en oid e =
     (let e1 = engine_touch oid (set_state ObjTombstoned) e
      in e1\<lparr>e_tags := fst (remove_object_from_all (q_rb en) oid (e_tags e1)),
            e_forward := fst (fw_remove_object oid (e_forward e1)),
            e_location_table := location_table_remove oid (e_location_table e1)\<rparr>)"

definition replay_add_tag :: "('b, 'g) qenv \<Rightarrow> object_id \<Rightarrow> tag_id \<Rightarrow> ('b, 'g) engine \<Rightarrow> ('e, ('b, 'g) engine) res" where
  "replay_add_tag en oid tag e =
     (let e1 = ensure_record oid e
      in rbind (await (state_materialise (q_graph en) (e_ontology e1) [tag])) (\<lambda>closure.
         ok (add_tag_indexes en oid tag closure e1)))"

definition replay_remove_tag :: "('b, 'g) qenv \<Rightarrow> object_id \<Rightarrow> tag_id \<Rightarrow> ('b, 'g) engine \<Rightarrow> ('e, ('b, 'g) engine) res" where
  "replay_remove_tag en oid tag e = (if \<not> has_object oid e then ok e else remove_tag_indexes en oid tag e)"

definition replay_set_attr ::
  "('b, 'g) qenv \<Rightarrow> object_id \<Rightarrow> tag_id \<Rightarrow> attr_value \<Rightarrow> ('b, 'g) engine \<Rightarrow> ('e, ('b, 'g) engine) res" where
  "replay_set_attr en oid key v e = set_attr_indexes en oid key v (ensure_record oid e)"

definition replay_remove_attr_by_hash ::
  "('b, 'g) qenv \<Rightarrow> object_id \<Rightarrow> tag_id \<Rightarrow> u64 \<Rightarrow> ('b, 'g) engine \<Rightarrow> ('e, ('b, 'g) engine) res" where
  "replay_remove_attr_by_hash en oid key h e = rbind (remove_attr_indexes en oid key h e) (\<lambda>(_, e'). ok e')"

definition replay_add_relation :: "object_id \<Rightarrow> tag_id \<Rightarrow> object_id \<Rightarrow> ('b, 'g) engine \<Rightarrow> ('b, 'g) engine" where
  "replay_add_relation oid predicate target e =
     (let e1 = ensure_record oid e
      in e1\<lparr>e_forward := fw_add_assertion oid (ARelation predicate target) Direct (e_forward e1)\<rparr>)"

definition replay_remove_relation :: "object_id \<Rightarrow> tag_id \<Rightarrow> object_id \<Rightarrow> ('b, 'g) engine \<Rightarrow> ('b, 'g) engine" where
  "replay_remove_relation oid predicate target e =
     e\<lparr>e_forward := fst (fw_remove_assertion oid (ARelation predicate target) (e_forward e))\<rparr>"

definition replay_write_blob :: "object_id \<Rightarrow> byte list \<Rightarrow> u64 \<Rightarrow> ('b, 'g) engine \<Rightarrow> ('b, 'g) engine" where
  "replay_write_blob oid content_hash n e =
     engine_touch oid (\<lambda>r. r\<lparr>or_content_hash := content_hash, or_blob_length := n, or_stored_size := n\<rparr>) (ensure_record oid e)"

definition TAG_ORIGIN_DIRECT :: u8 where
  "TAG_ORIGIN_DIRECT = 0"

fun project_op :: "op_kind \<Rightarrow> wal_op" where
  "project_op (KCreateObject oid) = WCreateObject (WalCreateObject oid 0 0)"
| "project_op (KDeleteObject oid) = WDeleteObject (WalDeleteObject oid 0)"
| "project_op (KAddTag oid tag) = WAddTag (WalAddTag oid tag TAG_ORIGIN_DIRECT)"
| "project_op (KRemoveTag oid tag) = WRemoveTag (WalRemoveTag oid tag)"
| "project_op (KSetAttr oid key v) = WSetAttr (WalSetAttr oid key v)"
| "project_op (KRemoveAttr oid key h) = WRemoveAttr (WalRemoveAttr oid key h)"
| "project_op (KAddRelation oid p t) = WAddRelation (WalAddRelation oid p t)"
| "project_op (KRemoveRelation oid p t) = WRemoveRelation (WalRemoveRelation oid p t)"
| "project_op (KWriteBlob oid h n) = WWriteBlob (WalWriteBlob oid h (BlockRefWire 0 0 0) n)"

text \<open>The operations on chunks, buckets, back pointers, bitmaps, snapshots and the reconciler are not modelled
  by the engine: replay passes over them.\<close>

fun replay_op :: "('b, 'g) qenv \<Rightarrow> wal_op \<Rightarrow> ('b, 'g) engine \<Rightarrow> (engine_error, ('b, 'g) engine) res" where
  "replay_op en (WCreateObject (WalCreateObject oid _ ns)) e = ok (replay_create_object oid ns e)"
| "replay_op en (WDeleteObject (WalDeleteObject oid _)) e = ok (replay_delete_object en oid e)"
| "replay_op en (WAddTag (WalAddTag oid tag _)) e = replay_add_tag en oid tag e"
| "replay_op en (WRemoveTag (WalRemoveTag oid tag)) e = replay_remove_tag en oid tag e"
| "replay_op en (WSetAttr (WalSetAttr oid key v)) e = replay_set_attr en oid key v e"
| "replay_op en (WRemoveAttr (WalRemoveAttr oid key h)) e = replay_remove_attr_by_hash en oid key h e"
| "replay_op en (WAddRelation (WalAddRelation oid p t)) e = ok (replay_add_relation oid p t e)"
| "replay_op en (WRemoveRelation (WalRemoveRelation oid p t)) e = ok (replay_remove_relation oid p t e)"
| "replay_op en (WWriteBlob (WalWriteBlob oid h _ n)) e = ok (replay_write_blob oid h n e)"
| "replay_op en _ e = ok e"

definition replay_wal_op ::
  "wal_codec_ops \<Rightarrow> ('b, 'g) qenv \<Rightarrow> wal_op_kind \<Rightarrow> byte list \<Rightarrow> u64 \<Rightarrow> ('b, 'g) engine
    \<Rightarrow> (engine_error, ('b, 'g) engine) res" where
  "replay_wal_op wc en kind payload lsn e =
     (if lsn \<noteq> 0 \<and> lsn \<le> e_last_applied_lsn e then err (EngLsnAlreadyApplied lsn)
      else
        rbind (map_err EngWal (wal_op_decode wc kind payload)) (\<lambda>op.
        rbind (replay_op en op e) (\<lambda>e1.
        ok (e1\<lparr>e_last_applied_lsn := max (e_last_applied_lsn e1) lsn\<rparr>))))"

end
