(* ===== verification/Mb_Engine_Thms.thy ===== *)
theory Mb_Engine_Thms
  imports Mb_Engine Mb_Query_Thms
begin

text \<open>
  The indexes of the engine agree with the facts it holds, through every history of operations, and so queries
  on a reachable engine return what the facts say.
\<close>

section \<open>Agreement of the tag index\<close>

definition fw_ids :: "forward_index \<Rightarrow> bool" where
  "fw_ids fw \<longleftrightarrow> (\<forall>oid a. (oid, a) \<in> fw_facts fw \<longrightarrow> unat oid < 2 ^ 32)"

definition tag_rep :: "('b \<Rightarrow> u32 set) \<Rightarrow> forward_index \<times> 'b tag_index \<Rightarrow> bool" where
  "tag_rep bset ix \<longleftrightarrow> (case ix of (fw, tags) \<Rightarrow>
     bm_wf fw \<and> bm_wf tags \<and> fw_ids fw \<and> (\<forall>oid t. fw_count fw oid (ATag t) \<le> 1) \<and>
     (\<forall>t. tag_bits bset tags t = unat ` {oid. (oid, ATag t) \<in> fw_facts fw}))"

text \<open>The counts of assertions that are not tags, and those of the other objects.\<close>

definition same_rest :: "object_id \<Rightarrow> forward_index \<Rightarrow> forward_index \<Rightarrow> bool" where
  "same_rest oid fw fw' \<longleftrightarrow> (\<forall>o' a. (o' \<noteq> oid \<or> (\<forall>t. a \<noteq> ATag t)) \<longrightarrow> fw_count fw' o' a = fw_count fw o' a)"

lemma same_rest_refl: "same_rest oid fw fw"
  by (simp add: same_rest_def)

lemma same_rest_trans: "same_rest oid a b \<Longrightarrow> same_rest oid b c \<Longrightarrow> same_rest oid a c"
  by (simp add: same_rest_def)

lemma oid_entry_small: "unat oid < 2 ^ 32 \<Longrightarrow> oid_entry oid = unat oid"
  by (simp add: oid_entry_mod)

lemma fw_add_facts: "bm_wf fw \<Longrightarrow> fw_facts (fw_add_assertion oid a og fw) = insert (oid, a) (fw_facts fw)"
  by (auto simp: fw_facts_def fw_add_count)

lemma fw_add_ids: "bm_wf fw \<Longrightarrow> fw_ids fw \<Longrightarrow> unat oid < 2 ^ 32 \<Longrightarrow> fw_ids (fw_add_assertion oid a og fw)"
  by (auto simp: fw_ids_def fw_add_facts)

lemma fw_ids_mono: "fw_ids fw \<Longrightarrow> (\<And>o' a. fw_count fw' o' a \<le> fw_count fw o' a) \<Longrightarrow> fw_ids fw'"
  unfolding fw_ids_def fw_facts_count by (metis less_le_trans)

lemma holds_tag_fact: "holds_tag fw oid t \<longleftrightarrow> (oid, ATag t) \<in> fw_facts fw"
  by (force simp: holds_tag_def fw_facts_iff)

context roaring
begin

lemma add_closure_tag_rep:
  assumes rep: "tag_rep bset ix" and small: "unat oid < 2 ^ 32" and rb: "q_rb en = rb"
  shows "tag_rep bset (add_closure_tag en oid tag t ix) \<and> same_rest oid (fst ix) (fst (add_closure_tag en oid tag t ix)) \<and>
    fw_facts (fst (add_closure_tag en oid tag t ix)) = insert (oid, ATag t) (fw_facts (fst ix))"
proof -
  obtain fw tags where ix: "ix = (fw, tags)" by fastforce
  have r: "bm_wf fw" "bm_wf tags" "fw_ids fw" "\<And>oid t. fw_count fw oid (ATag t) \<le> 1"
    "\<And>t. tag_bits bset tags t = unat ` {oid. (oid, ATag t) \<in> fw_facts fw}"
    using rep by (simp_all add: tag_rep_def ix)
  show ?thesis
  proof (cases "holds_tag fw oid t")
    case True
    then show ?thesis using rep by (auto simp: add_closure_tag_def ix same_rest_refl holds_tag_fact)
  next
    case False
    then have zero: "fw_count fw oid (ATag t) = 0" by (simp add: holds_tag_fact fw_facts_count)
    let ?og = "if t = tag then Direct else Materialized"
    let ?fw = "fw_add_assertion oid (ATag t) ?og fw" and ?tags = "ti_add_member rb t oid tags"
    have e: "add_closure_tag en oid tag t ix = (?fw, ?tags)" using False rb by (simp add: add_closure_tag_def ix)
    have "fw_count ?fw o' (ATag t') \<le> 1" for o' t' using r(4) [of o' t'] zero by (auto simp: fw_add_count [OF r(1)])
    moreover have "tag_bits bset ?tags t' = unat ` {o'. (o', ATag t') \<in> fw_facts ?fw}" for t'
      using r(5) small by (auto simp: tag_add_bits [OF r(2)] fw_add_facts [OF r(1)] oid_entry_small)
    ultimately have "tag_rep bset (?fw, ?tags)"
      using r small by (simp add: tag_rep_def fw_add_wf tag_add_wf fw_add_ids)
    moreover have "same_rest oid fw ?fw" by (auto simp: same_rest_def fw_add_count [OF r(1)])
    ultimately show ?thesis unfolding e by (simp add: ix fw_add_facts [OF r(1)])
  qed
qed

lemma add_closure_rep:
  assumes "tag_rep bset ix" and small: "unat oid < 2 ^ 32" and rb: "q_rb en = rb"
  shows "tag_rep bset (fold (add_closure_tag en oid tag) ts ix) \<and>
    same_rest oid (fst ix) (fst (fold (add_closure_tag en oid tag) ts ix)) \<and>
    fw_facts (fst (fold (add_closure_tag en oid tag) ts ix)) = fw_facts (fst ix) \<union> {oid} \<times> ATag ` set ts"
  using assms(1)
proof (induction ts arbitrary: ix)
  case (Cons t ts)
  note 1 = add_closure_tag_rep [OF Cons.prems small rb, of tag t]
  show ?case using Cons.IH [of "add_closure_tag en oid tag t ix"] 1 by (auto intro: same_rest_trans)
qed (simp add: same_rest_refl)

lemma drop_tag_rep:
  assumes rep: "tag_rep bset ix" and small: "unat oid < 2 ^ 32" and rb: "q_rb en = rb"
  shows "tag_rep bset (drop_tag en oid t ix) \<and> same_rest oid (fst ix) (fst (drop_tag en oid t ix)) \<and>
    fw_facts (fst (drop_tag en oid t ix)) = fw_facts (fst ix) - {(oid, ATag t)}"
proof -
  obtain fw tags where ix: "ix = (fw, tags)" by fastforce
  have r: "bm_wf fw" "bm_wf tags" "fw_ids fw" "\<And>oid t. fw_count fw oid (ATag t) \<le> 1"
    "\<And>t. tag_bits bset tags t = unat ` {oid. (oid, ATag t) \<in> fw_facts fw}"
    using rep by (simp_all add: tag_rep_def ix)
  from r(1) show ?thesis
  proof (cases rule: fw_remove_cases [of fw oid "ATag t"])
    case absent
    then have "(oid, ATag t) \<notin> fw_facts fw" by (simp add: fw_facts_count)
    then show ?thesis using rep absent by (simp add: drop_tag_def ix same_rest_refl)
  next
    case (removed a' fw')
    then have a: "a' = ATag t" by simp
    let ?tags = "fst (ti_remove_member rb t oid tags)"
    have e: "drop_tag en oid t ix = (fw', ?tags)" using removed rb by (simp add: drop_tag_def ix)
    have c: "fw_count fw' o' x = fw_count fw o' x - (if o' = oid \<and> x = ATag t then 1 else 0)" for o' x
      using removed(5) a by simp
    have f: "fw_facts fw' = fw_facts fw - {(oid, ATag t)}"
      using r(4) [of oid t] by (auto simp: fw_facts_def c split: if_splits)
    have "fw_count fw' o' (ATag t') \<le> 1" for o' t' using r(4) [of o' t'] by (simp add: c)
    moreover have "fw_ids fw'" by (rule fw_ids_mono [OF r(3)]) (simp add: c)
    moreover have "tag_bits bset ?tags t' = unat ` {o'. (o', ATag t') \<in> fw_facts fw'}" for t'
      using r(5) small by (auto simp: tag_remove_bits [OF r(2)] f oid_entry_small word_unat_eq_iff image_iff)
    ultimately have "tag_rep bset (fw', ?tags)" using removed(4) r(2) by (simp add: tag_rep_def tag_remove_wf)
    moreover have "same_rest oid fw fw'" by (simp add: same_rest_def c)
    ultimately show ?thesis unfolding e by (simp add: ix f)
  qed
qed

lemma drop_tags_rep:
  assumes "tag_rep bset ix" and small: "unat oid < 2 ^ 32" and rb: "q_rb en = rb"
  shows "tag_rep bset (fold (\<lambda>m ix. if m \<in> S then ix else drop_tag en oid m ix) ts ix) \<and>
    same_rest oid (fst ix) (fst (fold (\<lambda>m ix. if m \<in> S then ix else drop_tag en oid m ix) ts ix)) \<and>
    fw_facts (fst (fold (\<lambda>m ix. if m \<in> S then ix else drop_tag en oid m ix) ts ix)) =
      fw_facts (fst ix) - {oid} \<times> ATag ` (set ts - S)"
  using assms(1)
proof (induction ts arbitrary: ix)
  case (Cons t ts)
  show ?case
  proof (cases "t \<in> S")
    case True
    then show ?thesis using Cons.IH [OF Cons.prems] by auto
  next
    case False
    note 1 = drop_tag_rep [OF Cons.prems small rb, of t]
    show ?thesis using Cons.IH [of "drop_tag en oid t ix"] 1 False by (auto intro: same_rest_trans)
  qed
qed (simp add: same_rest_refl)

end

section \<open>Agreement of the attribute indexes\<close>

definition zero_secret :: "byte list" where
  "zero_secret = replicate 16 0"

text \<open>Two values of one attribute of one object never share a hash, a range key, or equality.\<close>

definition attrs_distinct :: "value_codec \<Rightarrow> forward_index \<Rightarrow> bool" where
  "attrs_distinct vc fw \<longleftrightarrow>
     (\<forall>oid k v. fw_count fw oid (AAttr k v) \<le> 1) \<and>
     (\<forall>oid k v. (oid, AAttr k v) \<in> fw_facts fw \<longrightarrow> value_ok v \<and> value_eq v v \<and> hash_of vc zero_secret v \<noteq> None) \<and>
     (\<forall>oid k v w. (oid, AAttr k v) \<in> fw_facts fw \<longrightarrow> (oid, AAttr k w) \<in> fw_facts fw \<longrightarrow> v \<noteq> w \<longrightarrow>
        \<not> value_eq w v \<and> hash_of vc zero_secret w \<noteq> hash_of vc zero_secret v \<and> from_value w \<noteq> from_value v)"

definition attr_rep :: "('b \<Rightarrow> u32 set) \<Rightarrow> value_codec \<Rightarrow> forward_index \<Rightarrow> 'b kv_index \<Rightarrow> 'b range_index \<Rightarrow> bool" where
  "attr_rep bset vc fw kv rng \<longleftrightarrow> bm_wf (kv_entries kv) \<and> bm_wf rng \<and> kv_secret kv = zero_secret \<and> attrs_distinct vc fw \<and>
     (\<forall>k h. map_bits bset (kv_entries kv) (k, h) = unat ` holding (fw_facts fw) k (\<lambda>w. hash_of vc zero_secret w = Some h)) \<and>
     (\<forall>k n. map_bits bset rng (k, n) = unat ` holding (fw_facts fw) k (\<lambda>w. from_value w = n))"

definition attr_fresh :: "value_codec \<Rightarrow> forward_index \<Rightarrow> object_id \<Rightarrow> tag_id \<Rightarrow> attr_value \<Rightarrow> bool" where
  "attr_fresh vc fw oid k v \<longleftrightarrow> value_ok v \<and> value_eq v v \<and>
     (\<forall>w. (oid, AAttr k w) \<in> fw_facts fw \<longrightarrow> \<not> value_eq w v \<and> \<not> value_eq v w \<and>
        hash_of vc zero_secret w \<noteq> hash_of vc zero_secret v \<and> from_value w \<noteq> from_value v)"

lemma attr_repD:
  assumes "attr_rep bset vc fw kv rng"
  shows "bm_wf (kv_entries kv)" "bm_wf rng" "kv_secret kv = zero_secret" "attrs_distinct vc fw"
    "map_bits bset (kv_entries kv) (k, h) = unat ` holding (fw_facts fw) k (\<lambda>w. hash_of vc zero_secret w = Some h)"
    "map_bits bset rng (k, n) = unat ` holding (fw_facts fw) k (\<lambda>w. from_value w = n)"
  using assms by (simp_all add: attr_rep_def)

lemma attrs_distinctD:
  assumes "attrs_distinct vc fw"
  shows "fw_count fw oid (AAttr k v) \<le> 1" "(oid, AAttr k v) \<in> fw_facts fw \<Longrightarrow> value_ok v"
    "(oid, AAttr k v) \<in> fw_facts fw \<Longrightarrow> value_eq v v" "(oid, AAttr k v) \<in> fw_facts fw \<Longrightarrow> hash_of vc zero_secret v \<noteq> None"
    "(oid, AAttr k v) \<in> fw_facts fw \<Longrightarrow> (oid, AAttr k w) \<in> fw_facts fw \<Longrightarrow> value_eq w v \<Longrightarrow> w = v"
    "(oid, AAttr k v) \<in> fw_facts fw \<Longrightarrow> (oid, AAttr k w) \<in> fw_facts fw \<Longrightarrow> hash_of vc zero_secret w = hash_of vc zero_secret v \<Longrightarrow> w = v"
    "(oid, AAttr k v) \<in> fw_facts fw \<Longrightarrow> (oid, AAttr k w) \<in> fw_facts fw \<Longrightarrow> from_value w = from_value v \<Longrightarrow> w = v"
  using assms unfolding attrs_distinct_def by metis+

lemma attr_rep_same:
  assumes "attr_rep bset vc fw kv rng" and "\<And>o' k v. fw_count fw' o' (AAttr k v) = fw_count fw o' (AAttr k v)"
  shows "attr_rep bset vc fw' kv rng"
proof -
  have f: "(o', AAttr k v) \<in> fw_facts fw' \<longleftrightarrow> (o', AAttr k v) \<in> fw_facts fw" for o' k v
    using assms(2) by (simp add: fw_facts_count)
  have h: "holding (fw_facts fw') k P = holding (fw_facts fw) k P" for k P by (simp add: holding_def f)
  show ?thesis using assms by (simp add: attr_rep_def attrs_distinct_def f h)
qed

text \<open>Taking one value of an attribute out of a set of facts where no other value shares its image.\<close>

lemma holding_Diff:
  assumes "\<And>w. (oid, AAttr k w) \<in> F \<Longrightarrow> f w = f v \<Longrightarrow> w = v"
  shows "unat ` holding (F - {(oid, AAttr k v)}) k' (\<lambda>w. f w = n) =
    unat ` holding F k' (\<lambda>w. f w = n) - (if k' = k \<and> n = f v then {unat oid} else {})"
proof -
  have "holding (F - {(oid, AAttr k v)}) k' (\<lambda>w. f w = n) =
      holding F k' (\<lambda>w. f w = n) - (if k' = k \<and> n = f v then {oid} else {})"
    using assms by (auto simp: holding_def)
  then show ?thesis by (simp add: image_set_diff [OF unat_oid_inj])
qed

lemma holding_insert:
  "unat ` holding (insert (oid, AAttr k v) F) k' (\<lambda>w. f w = n) =
     unat ` holding F k' (\<lambda>w. f w = n) \<union> (if k' = k \<and> n = f v then {unat oid} else {})"
  by (auto simp: holding_def)

lemma find_attr_Some:
  "(find_attr vc key h as :: ('e, attr_value option) res) = ok (Some v) \<Longrightarrow>
     (\<exists>og. (AAttr key v, og) \<in> set as) \<and> hash_of vc zero_secret v = Some h"
  by (induction vc key h as rule: find_attr.induct)
    (auto simp: engine_value_hash_def zero_secret_def value_hash_cases res_simps split: if_splits option.splits)

lemma fw_remove_attr:
  assumes "bm_wf fw" and "attrs_distinct vc fw" and "(oid, AAttr k v) \<in> fw_facts fw"
  shows "bm_wf (fst (fw_remove_assertion oid (AAttr k v) fw))"
    and "fw_count (fst (fw_remove_assertion oid (AAttr k v) fw)) o' c =
      fw_count fw o' c - (if o' = oid \<and> c = AAttr k v then 1 else 0)"
proof -
  have "bm_wf (fst (fw_remove_assertion oid (AAttr k v) fw)) \<and>
    (\<forall>o' c. fw_count (fst (fw_remove_assertion oid (AAttr k v) fw)) o' c =
      fw_count fw o' c - (if o' = oid \<and> c = AAttr k v then 1 else 0))"
    using assms(1)
  proof (cases rule: fw_remove_cases [of fw oid "AAttr k v"])
    case absent
    have "assertion_eq (AAttr k v) (AAttr k v)" using attrs_distinctD(3) [OF assms(2,3)] by simp
    then show ?thesis using absent assms(3) by (simp add: fw_facts_count)
  next
    case (removed a' fw')
    then obtain w where a: "a' = AAttr k w" "value_eq w v" by (cases a') auto
    then have "w = v" using attrs_distinctD(5) [OF assms(2,3)] removed(3) by (simp add: fw_facts_count)
    then show ?thesis using removed a by simp
  qed
  then show "bm_wf (fst (fw_remove_assertion oid (AAttr k v) fw))"
    "fw_count (fst (fw_remove_assertion oid (AAttr k v) fw)) o' c =
      fw_count fw o' c - (if o' = oid \<and> c = AAttr k v then 1 else 0)" by blast+
qed

context roaring
begin

lemma set_attr_rep:
  assumes rep: "attr_rep bset vc fw kv rng" and wf: "bm_wf fw" and small: "unat oid < 2 ^ 32"
    and fresh: "attr_fresh vc fw oid k v"
    and kv: "(kv_insert vc rb k v (oid_entry oid) kv :: ('e, 'b kv_index) res) = ok kv'"
  shows "attr_rep bset vc (fw_add_assertion oid (AAttr k v) Direct fw) kv' (range_insert rb k v (oid_entry oid) rng)"
proof -
  note R = attr_repD [OF rep]
  let ?fw = "fw_add_assertion oid (AAttr k v) Direct fw"
  obtain h where h: "hash_of vc zero_secret v = Some h" and kv': "kv' = kv\<lparr>kv_entries := bitmap_put rb (k, h) (unat oid) (kv_entries kv)\<rparr>"
    using kv small R(3) by (auto simp: kv_insert_def value_hash_cases res_simps oid_entry_small split: option.splits)
  have f: "fw_facts ?fw = insert (oid, AAttr k v) (fw_facts fw)" by (rule fw_add_facts [OF wf])
  have new: "(oid, AAttr k v) \<notin> fw_facts fw" using fresh by (auto simp: attr_fresh_def)
  have "attrs_distinct vc ?fw"
    unfolding attrs_distinct_def
  proof (intro conjI allI impI)
    fix o' k' w
    show "fw_count ?fw o' (AAttr k' w) \<le> 1"
      using attrs_distinctD(1) [OF R(4), of o' k' w] new by (auto simp: fw_add_count [OF wf] fw_facts_count)
  next
    fix o' k' w
    assume "(o', AAttr k' w) \<in> fw_facts ?fw"
    then show "value_ok w" "value_eq w w" "hash_of vc zero_secret w \<noteq> None"
      using attrs_distinctD(2-4) [OF R(4), of o' k' w] fresh h by (auto simp: f attr_fresh_def)
  next
    fix o' k' w x
    assume "(o', AAttr k' w) \<in> fw_facts ?fw" "(o', AAttr k' x) \<in> fw_facts ?fw" "w \<noteq> x"
    then show "\<not> value_eq x w" "hash_of vc zero_secret x \<noteq> hash_of vc zero_secret w" "from_value x \<noteq> from_value w"
      using attrs_distinctD(5-7) [OF R(4), of o' k' w x] fresh unfolding f attr_fresh_def by auto
  qed
  moreover have "map_bits bset (kv_entries kv') (k', h') = unat ` holding (fw_facts ?fw) k' (\<lambda>w. hash_of vc zero_secret w = Some h')" for k' h'
    unfolding f holding_insert kv' using small h by (simp add: bitmap_put_bits [OF R(1)] R(5))
  moreover have "map_bits bset (range_insert rb k v (oid_entry oid) rng) (k', n) = unat ` holding (fw_facts ?fw) k' (\<lambda>w. from_value w = n)" for k' n
    unfolding f holding_insert range_insert_def using small by (simp add: bitmap_put_bits [OF R(2)] R(6) oid_entry_small)
  ultimately show ?thesis using R(1-3) by (simp add: attr_rep_def kv' bitmap_put_wf range_insert_def)
qed

lemma remove_attr_rep:
  assumes rep: "attr_rep bset vc fw kv rng" and wf: "bm_wf fw" and small: "unat oid < 2 ^ 32"
    and mem: "(oid, AAttr k v) \<in> fw_facts fw"
    and kv: "(kv_remove vc rb k v (oid_entry oid) kv :: ('e, 'b kv_index \<times> bool) res) = ok (kv', was)"
  shows "attr_rep bset vc (fst (fw_remove_assertion oid (AAttr k v) fw)) kv' (fst (range_remove rb k v (oid_entry oid) rng))"
proof -
  note R = attr_repD [OF rep]
  let ?fw = "fst (fw_remove_assertion oid (AAttr k v) fw)"
  obtain h where h: "hash_of vc zero_secret v = Some h"
      and kv': "kv' = kv\<lparr>kv_entries := fst (bitmap_del rb (k, h) (unat oid) (kv_entries kv))\<rparr>"
    using kv small R(3)
    by (auto simp: kv_remove_def value_hash_cases res_simps oid_entry_small Let_def split: option.splits prod.splits)
  note c = fw_remove_attr(2) [OF wf R(4) mem]
  have f: "fw_facts ?fw = fw_facts fw - {(oid, AAttr k v)}"
    using attrs_distinctD(1) [OF R(4), of oid k v] by (auto simp: fw_facts_def c split: if_splits)
  have "attrs_distinct vc ?fw"
    using R(4) unfolding attrs_distinct_def f by (auto simp: c intro: le_trans [OF diff_le_self])
  moreover have "map_bits bset (kv_entries kv') (k', h') = unat ` holding (fw_facts ?fw) k' (\<lambda>w. hash_of vc zero_secret w = Some h')" for k' h'
  proof -
    have "unat ` holding (fw_facts ?fw) k' (\<lambda>w. hash_of vc zero_secret w = Some h') =
        unat ` holding (fw_facts fw) k' (\<lambda>w. hash_of vc zero_secret w = Some h') -
        (if k' = k \<and> Some h' = hash_of vc zero_secret v then {unat oid} else {})"
      unfolding f by (rule holding_Diff) (use attrs_distinctD(6) [OF R(4) mem] in blast)
    then show ?thesis using small h by (simp add: kv' bitmap_del_bits [OF R(1)] R(5))
  qed
  moreover have "map_bits bset (fst (range_remove rb k v (oid_entry oid) rng)) (k', n) = unat ` holding (fw_facts ?fw) k' (\<lambda>w. from_value w = n)" for k' n
  proof -
    have "unat ` holding (fw_facts ?fw) k' (\<lambda>w. from_value w = n) =
        unat ` holding (fw_facts fw) k' (\<lambda>w. from_value w = n) - (if k' = k \<and> n = from_value v then {unat oid} else {})"
      unfolding f by (rule holding_Diff) (use attrs_distinctD(7) [OF R(4) mem] in blast)
    then show ?thesis using small by (simp add: range_remove_def bitmap_del_bits [OF R(2)] R(6) oid_entry_small)
  qed
  ultimately show ?thesis using R(1-3) by (simp add: attr_rep_def kv' bitmap_del_wf range_remove_def)
qed

lemma strip_attrs_bits:
  assumes "(strip_attrs vc rb x as (kv, rng) :: ('e, 'b kv_index \<times> 'b range_index) res) = ok (kv', rng')"
    and "bm_wf (kv_entries kv)" and "bm_wf rng" and "x < 2 ^ 32" and "kv_secret kv = zero_secret"
  shows "bm_wf (kv_entries kv') \<and> bm_wf rng' \<and> kv_secret kv' = zero_secret \<and>
    (\<forall>k h. map_bits bset (kv_entries kv') (k, h) = map_bits bset (kv_entries kv) (k, h) -
       (if \<exists>v. AAttr k v \<in> fst ` set as \<and> hash_of vc zero_secret v = Some h then {x} else {})) \<and>
    (\<forall>k n. map_bits bset rng' (k, n) = map_bits bset rng (k, n) -
       (if \<exists>v. AAttr k v \<in> fst ` set as \<and> from_value v = n then {x} else {}))"
  using assms
proof (induction as arbitrary: kv rng)
  case (Cons a as)
  obtain b og where a: "a = (b, og)" by fastforce
  show ?case
  proof (cases b)
    case (AAttr key v)
    let ?rng = "fst (bitmap_del rb (key, from_value v) x rng)"
    obtain h where h: "hash_of vc zero_secret v = Some h"
        and st: "(strip_attrs vc rb x as (kv\<lparr>kv_entries := fst (bitmap_del rb (key, h) x (kv_entries kv))\<rparr>, ?rng) ::
          ('e, 'b kv_index \<times> 'b range_index) res) = ok (kv', rng')"
      using Cons.prems(1,5) AAttr a
      by (auto simp: kv_remove_def value_hash_cases range_remove_def res_simps Let_def split: option.splits prod.splits)
    let ?kv = "kv\<lparr>kv_entries := fst (bitmap_del rb (key, h) x (kv_entries kv))\<rparr>"
    have p: "bm_wf (kv_entries ?kv)" "bm_wf ?rng" "kv_secret ?kv = zero_secret"
      using Cons.prems by (simp_all add: bitmap_del_wf)
    note IH = Cons.IH [OF st p(1,2) Cons.prems(4) p(3)]
    have "map_bits bset (kv_entries ?kv) (k, h') = map_bits bset (kv_entries kv) (k, h') - (if k = key \<and> h' = h then {x} else {})"
      "map_bits bset ?rng (k, n) = map_bits bset rng (k, n) - (if k = key \<and> n = from_value v then {x} else {})" for k h' n
      using Cons.prems(2-4) by (auto simp: bitmap_del_bits)
    then show ?thesis using IH h by (auto simp: AAttr a)
  qed (use Cons a in auto)
qed auto

lemma delete_attr_rep:
  assumes rep: "attr_rep bset vc fw kv rng" and wf: "bm_wf fw" and small: "unat oid < 2 ^ 32"
    and st: "(strip_attrs vc rb (oid_entry oid) (fw_assertions_of fw oid) (kv, rng) :: ('e, 'b kv_index \<times> 'b range_index) res) = ok (kv', rng')"
  shows "attr_rep bset vc (fst (fw_remove_object oid fw)) kv' rng'"
proof -
  note R = attr_repD [OF rep]
  let ?fw = "fst (fw_remove_object oid fw)"
  have f: "(o', a) \<in> fw_facts ?fw \<longleftrightarrow> o' \<noteq> oid \<and> (o', a) \<in> fw_facts fw" for o' a
    by (simp add: fw_facts_count fw_remove_object_count [OF wf])
  have hd: "unat ` holding (fw_facts ?fw) k P = unat ` holding (fw_facts fw) k P -
      (if \<exists>v. AAttr k v \<in> fst ` set (fw_assertions_of fw oid) \<and> P v then {unat oid} else {})" for k P
  proof -
    have "holding (fw_facts ?fw) k P = holding (fw_facts fw) k P -
        (if \<exists>v. AAttr k v \<in> fst ` set (fw_assertions_of fw oid) \<and> P v then {oid} else {})"
      unfolding fw_facts_iff [symmetric] by (auto simp: holding_def f)
    then show ?thesis by (simp add: image_set_diff [OF unat_oid_inj]) blast
  qed
  have "attrs_distinct vc ?fw"
    using R(4) unfolding attrs_distinct_def f by (auto simp: fw_remove_object_count [OF wf])
  then show ?thesis
    using strip_attrs_bits [OF st R(1,2) oid_entry_less R(3), unfolded R(5,6) oid_entry_small [OF small]]
    unfolding attr_rep_def hd by blast
qed

lemma delete_tag_rep:
  assumes rep: "tag_rep bset (fw, tags)" and small: "unat oid < 2 ^ 32"
  shows "tag_rep bset (fst (fw_remove_object oid fw), fst (remove_object_from_all rb oid tags))"
proof -
  let ?fw = "fst (fw_remove_object oid fw)"
  have r: "bm_wf fw" "bm_wf tags" "fw_ids fw" "\<And>oid t. fw_count fw oid (ATag t) \<le> 1"
    "\<And>t. tag_bits bset tags t = unat ` {oid. (oid, ATag t) \<in> fw_facts fw}"
    using rep by (simp_all add: tag_rep_def)
  have c: "fw_count ?fw o' a \<le> fw_count fw o' a" for o' a by (simp add: fw_remove_object_count [OF r(1)])
  have "fw_count ?fw o' (ATag t) \<le> 1" for o' t using c r(4) le_trans by blast
  moreover have "tag_bits bset (fst (remove_object_from_all rb oid tags)) t = unat ` {o'. (o', ATag t) \<in> fw_facts ?fw}" for t
  proof -
    have "{o'. (o', ATag t) \<in> fw_facts ?fw} = {o'. (o', ATag t) \<in> fw_facts fw} - {oid}"
      by (auto simp: fw_facts_count fw_remove_object_count [OF r(1)])
    then show ?thesis using r(5) small by (simp add: tag_remove_all_bits oid_entry_small image_set_diff [OF unat_oid_inj])
  qed
  moreover have "fw_ids ?fw" by (rule fw_ids_mono [OF r(3) c])
  moreover have "bm_wf ?fw" using r(1) by (simp add: fw_remove_object_def bm_wf_remove)
  ultimately show ?thesis using r(2) by (simp add: tag_rep_def remove_all_wf)
qed

end

section \<open>Histories of the engine\<close>

text \<open>The runs of an engine of node 0. Under \<open>strict\<close> no attribute is set while the object holds a value that is
  equal to it or shares its hash or its range key: clients remove a value before they set it again.\<close>

inductive engine_reach :: "tf_ops \<Rightarrow> ('b, 'g) qenv \<Rightarrow> bool \<Rightarrow> ('b, 'g) engine \<Rightarrow> bool" for tf en strict where
  er_start: "engine_reach tf en strict (engine_new en 0)"
| er_create: "engine_reach tf en strict e \<Longrightarrow> e_next_oid_local e < 2 ^ 32 \<Longrightarrow> create_object sys e = (oid, e') \<Longrightarrow>
    engine_reach tf en strict e'"
| er_delete: "engine_reach tf en strict e \<Longrightarrow> delete_object en sys oid e = ok e' \<Longrightarrow> engine_reach tf en strict e'"
| er_add_tag: "engine_reach tf en strict e \<Longrightarrow> engine_add_tag en sys oid t e = ok e' \<Longrightarrow> engine_reach tf en strict e'"
| er_remove_tag: "engine_reach tf en strict e \<Longrightarrow> engine_remove_tag en sys oid t e = ok e' \<Longrightarrow> engine_reach tf en strict e'"
| er_set_attr: "engine_reach tf en strict e \<Longrightarrow> strict \<longrightarrow> attr_fresh (q_vc en) (e_forward e) oid k v \<Longrightarrow>
    set_attr en sys oid k v e = ok e' \<Longrightarrow> engine_reach tf en strict e'"
| er_remove_attr: "engine_reach tf en strict e \<Longrightarrow> remove_attr en sys oid k h e = ok e' \<Longrightarrow> engine_reach tf en strict e'"
| er_add_relation: "engine_reach tf en strict e \<Longrightarrow> add_relation sys oid p t e = ok e' \<Longrightarrow> engine_reach tf en strict e'"
| er_remove_relation: "engine_reach tf en strict e \<Longrightarrow> remove_relation sys oid p t e = ok e' \<Longrightarrow> engine_reach tf en strict e'"
| er_write_blob: "engine_reach tf en strict e \<Longrightarrow> write_blob tf en sys oid bs e = ok (r, e') \<Longrightarrow> engine_reach tf en strict e'"
| er_transform: "engine_reach tf en strict e \<Longrightarrow> engine_reach tf en strict (set_transform p e)"
| er_subscribe: "engine_reach tf en strict e \<Longrightarrow> subscribe en name q i ret e = ok (sid, e') \<Longrightarrow> engine_reach tf en strict e'"
| er_install: "engine_reach tf en strict e \<Longrightarrow> install_ontology_module en m e = ok (res, e') \<Longrightarrow> engine_reach tf en strict e'"
| er_register: "engine_reach tf en strict e \<Longrightarrow> (engine_register_tag en name e :: (engine_error, tag_id \<times> ('b, 'g) engine) res) = ok (t, e') \<Longrightarrow>
    engine_reach tf en strict e'"

definition engine_ok :: "('b \<Rightarrow> u32 set) \<Rightarrow> ('b, 'g) qenv \<Rightarrow> ('g \<Rightarrow> bool) \<Rightarrow> bool \<Rightarrow> ('b, 'g) engine \<Rightarrow> bool" where
  "engine_ok bset en gwf strict e \<longleftrightarrow>
     bm_wf (e_object_table e) \<and> (\<forall>oid. has_object oid e \<longrightarrow> unat oid < e_next_oid_local e) \<and> e_next_oid_local e \<le> 2 ^ 32 \<and>
     e_node_id e = 0 \<and>
     onto_inv (q_graph en) gwf (e_ontology e) \<and> tag_rep bset (e_forward e, e_tags e) \<and>
     (strict \<longrightarrow> attr_rep bset (q_vc en) (e_forward e) (e_kv e) (e_range e))"

text \<open>Clock, operation log, subscriptions and the fields of the records play no part in it.\<close>

lemmas engine_aux = engine_now_def engine_log_def engine_touch_def split_beta Let_def

lemma object_table_update_get:
  "bm_wf t \<Longrightarrow> bm_get (object_table_update oid f t) o' = (if o' = oid then map_option f (bm_get t o') else bm_get t o')"
  by (auto simp: object_table_update_def bm_get_insert split: option.splits)

lemma object_table_update_wf: "bm_wf t \<Longrightarrow> bm_wf (object_table_update oid f t)"
  by (auto simp: object_table_update_def bm_wf_insert split: option.splits)

text \<open>What the operations on one object leave alone.\<close>

definition frame :: "('b, 'g) engine \<Rightarrow> ('b, 'g) engine \<Rightarrow> bool" where
  "frame e e' \<longleftrightarrow> e_node_id e' = e_node_id e \<and> e_ontology e' = e_ontology e \<and> e_next_oid_local e' = e_next_oid_local e \<and>
     (bm_wf (e_object_table e) \<longrightarrow> bm_wf (e_object_table e') \<and> (\<forall>o'. has_object o' e' \<longleftrightarrow> has_object o' e))"

lemmas frame_simps = frame_def has_object_def object_table_update_wf object_table_update_get

lemma engine_ok_frame:
  assumes "engine_ok bset en gwf strict e" and "frame e e'" and "tag_rep bset (e_forward e', e_tags e')"
    and "strict \<Longrightarrow> attr_rep bset (q_vc en) (e_forward e') (e_kv e') (e_range e')"
  shows "engine_ok bset en gwf strict e'"
  using assms unfolding engine_ok_def frame_def by simp

lemma engine_okD:
  assumes "engine_ok bset en gwf strict e"
  shows "bm_wf (e_object_table e)" "has_object oid e \<Longrightarrow> unat oid < 2 ^ 32" "onto_inv (q_graph en) gwf (e_ontology e)"
    "tag_rep bset (e_forward e, e_tags e)" "strict \<Longrightarrow> attr_rep bset (q_vc en) (e_forward e) (e_kv e) (e_range e)"
    "bm_wf (e_forward e)" "fw_ids (e_forward e)" "has_object oid e \<Longrightarrow> unat oid < e_next_oid_local e"
    "e_next_oid_local e \<le> 2 ^ 32" "e_node_id e = 0"
  using assms unfolding engine_ok_def tag_rep_def by (auto intro: less_le_trans)

lemma tag_rep_same:
  assumes "tag_rep bset (fw, tags)" and "bm_wf fw'" and "fw_ids fw'"
    and "\<And>o' t. fw_count fw' o' (ATag t) = fw_count fw o' (ATag t)"
  shows "tag_rep bset (fw', tags)"
  using assms by (auto simp: tag_rep_def fw_facts_count)

lemma tag_rep_remove:
  assumes "tag_rep bset (fw, tags)" and "\<And>t. a \<noteq> ATag t"
  shows "tag_rep bset (fst (fw_remove_assertion oid a fw), tags)"
proof -
  have r: "bm_wf fw" "fw_ids fw" using assms by (simp_all add: tag_rep_def)
  from r(1) show ?thesis
  proof (cases rule: fw_remove_cases [of fw oid a])
    case absent
    then show ?thesis using assms(1) by simp
  next
    case (removed a' fw')
    then have no: "a' \<noteq> ATag t" for t using assms(2) by (cases a; cases a') auto
    have "fw_count fw' o' (ATag t) = fw_count fw o' (ATag t)" for o' t using removed(5) [of o' "ATag t"] no [of t] by simp
    moreover have "fw_ids fw'" by (rule fw_ids_mono [OF r(2)]) (simp add: removed(5))
    ultimately show ?thesis using removed(1,4) tag_rep_same [OF assms(1)] by simp
  qed
qed

lemma same_rest_attr: "same_rest oid fw fw' \<Longrightarrow> fw_count fw' o' (AAttr k v) = fw_count fw o' (AAttr k v)"
  by (simp add: same_rest_def)

context query_libs
begin

lemma add_tag_ok:
  assumes inv: "engine_ok bset en gwf strict e" and op: "engine_add_tag en sys oid t e = ok e'"
  shows "engine_ok bset en gwf strict e'"
proof -
  note I = engine_okD [OF inv]
  have has: "has_object oid e" using op by (auto simp: engine_add_tag_def split: if_splits)
  obtain cl where "(e_forward e', e_tags e') = fold (add_closure_tag en oid t) cl (e_forward e, e_tags e)"
    and rest: "e_kv e' = e_kv e" "e_range e' = e_range e" "frame e e'"
    using op has by (auto simp: engine_add_tag_def engine_aux add_tag_indexes_def res_simps frame_simps)
  then have r: "tag_rep bset (e_forward e', e_tags e')" "same_rest oid (e_forward e) (e_forward e')"
    using add_closure_rep [OF I(4) I(2) [OF has] refl, of t cl] by (metis fst_conv)+
  show ?thesis
    using attr_rep_same [OF I(5) same_rest_attr [OF r(2)]] rest r(1) by (intro engine_ok_frame [OF inv]) simp_all
qed

lemma add_tag_facts:
  assumes inv: "engine_ok bset en gwf strict e" and op: "engine_add_tag en sys oid t e = ok e'"
  shows "fw_facts (e_forward e') = fw_facts (e_forward e) \<union> {oid} \<times> ATag ` onto_closure (q_graph en) (e_ontology e) [t]"
    and "e_ontology e' = e_ontology e"
proof -
  note I = engine_okD [OF inv]
  have has: "has_object oid e" using op by (auto simp: engine_add_tag_def split: if_splits)
  obtain cl where cl: "state_materialise (q_graph en) (e_ontology e) [t] = Some cl" "set cl = onto_closure (q_graph en) (e_ontology e) [t]"
    using state_materialise_spec [OF I(3)] by blast
  have "(e_forward e', e_tags e') = fold (add_closure_tag en oid t) cl (e_forward e, e_tags e)" and o: "e_ontology e' = e_ontology e"
    using op has cl(1) by (auto simp: engine_add_tag_def engine_aux add_tag_indexes_def await_def)
  then show "fw_facts (e_forward e') = fw_facts (e_forward e) \<union> {oid} \<times> ATag ` onto_closure (q_graph en) (e_ontology e) [t]"
    using add_closure_rep [OF I(4) I(2) [OF has] refl, of t cl] cl(2) by (metis fst_conv)
  show "e_ontology e' = e_ontology e" by (rule o)
qed

lemma remove_tag_ok:
  assumes inv: "engine_ok bset en gwf strict e" and op: "engine_remove_tag en sys oid t e = ok e'"
  shows "engine_ok bset en gwf strict e'"
proof -
  note I = engine_okD [OF inv]
  have has: "has_object oid e" using op by (auto simp: engine_remove_tag_def split: if_splits)
  let ?d = "drop_tag en oid t (e_forward e, e_tags e)"
  obtain ts S where "(e_forward e', e_tags e') = fold (\<lambda>m ix. if m \<in> S then ix else drop_tag en oid m ix) ts ?d"
    and rest: "e_kv e' = e_kv e" "e_range e' = e_range e" "frame e e'"
  proof -
    obtain e2 where e2: "(remove_tag_indexes en oid t (snd (engine_now sys e)) :: (engine_error, ('b, 'g) engine) res) = ok e2"
      and e': "e_forward e' = e_forward e2" "e_tags e' = e_tags e2" "e_kv e' = e_kv e2" "e_range e' = e_range e2" "frame e2 e'"
      using op has by (auto simp: engine_remove_tag_def engine_aux res_simps frame_simps split: if_splits)
    have k: "e_kv e2 = e_kv e" "e_range e2 = e_range e" "frame e e2"
      using e2 by (auto simp: remove_tag_indexes_def engine_aux res_simps frame_simps split: if_splits)
    then have "frame e e'" using e'(5) by (auto simp: frame_def)
    moreover have "(\<exists>S ts. (e_forward e2, e_tags e2) = fold (\<lambda>m ix. if m \<in> S then ix else drop_tag en oid m ix) ts ?d)"
    proof (cases "(ATag t, Direct) \<in> set (fw_assertions_of (e_forward e) oid)")
      case True
      then show ?thesis using e2 by (auto simp: remove_tag_indexes_def engine_aux res_simps) blast
    next
      case False
      then have "(e_forward e2, e_tags e2) = fold (\<lambda>m ix. if m \<in> {} then ix else drop_tag en oid m ix) [] ?d"
        using e2 by (auto simp: remove_tag_indexes_def engine_aux)
      then show ?thesis by blast
    qed
    ultimately show thesis using that e'(1-4) k(1,2) by auto
  qed
  moreover have d: "tag_rep bset ?d" "same_rest oid (e_forward e) (fst ?d)"
    using drop_tag_rep [OF I(4) I(2) [OF has] refl, of t] by simp_all
  moreover note ds = drop_tags_rep [OF d(1) I(2) [OF has] refl, of S ts]
  ultimately have r: "tag_rep bset (e_forward e', e_tags e')" "same_rest oid (fst ?d) (e_forward e')"
    by (metis fst_conv)+
  from d(2) r(2) have r': "same_rest oid (e_forward e) (e_forward e')" by (rule same_rest_trans)
  show ?thesis
    using attr_rep_same [OF I(5) same_rest_attr [OF r']] rest r(1) by (intro engine_ok_frame [OF inv]) simp_all
qed

lemma delete_ok:
  assumes inv: "engine_ok bset en gwf strict e" and op: "delete_object en sys oid e = ok e'"
  shows "engine_ok bset en gwf strict e'"
proof -
  note I = engine_okD [OF inv]
  have has: "has_object oid e" using op by (auto simp: delete_object_def split: if_splits)
  obtain kv rng where st: "(strip_attrs (q_vc en) (q_rb en) (oid_entry oid) (fw_assertions_of (e_forward e) oid) (e_kv e, e_range e) ::
      (engine_error, 'b kv_index \<times> 'b range_index) res) = ok (kv, rng)"
    and e': "e_forward e' = fst (fw_remove_object oid (e_forward e))" "e_kv e' = kv" "e_range e' = rng"
      "e_tags e' = fst (remove_object_from_all (q_rb en) oid (e_tags e))" "frame e e'"
    using op has by (auto simp: delete_object_def engine_aux res_simps frame_simps split: if_splits)
  show ?thesis
    using delete_tag_rep [OF I(4) I(2) [OF has]] delete_attr_rep [OF I(5) I(6) I(2) [OF has] st] e'
    by (intro engine_ok_frame [OF inv]) simp_all
qed

lemma set_attr_ok:
  assumes inv: "engine_ok bset en gwf strict e" and op: "set_attr en sys oid k v e = ok e'"
    and fresh: "strict \<Longrightarrow> attr_fresh (q_vc en) (e_forward e) oid k v"
  shows "engine_ok bset en gwf strict e'"
proof -
  note I = engine_okD [OF inv]
  have has: "has_object oid e" using op by (auto simp: set_attr_def split: if_splits)
  let ?fw = "fw_add_assertion oid (AAttr k v) Direct (e_forward e)"
  obtain kv where kv: "(kv_insert (q_vc en) (q_rb en) k v (oid_entry oid) (e_kv e) :: (engine_error, 'b kv_index) res) = ok kv"
    and e': "e_forward e' = ?fw" "e_kv e' = kv" "e_range e' = range_insert (q_rb en) k v (oid_entry oid) (e_range e)"
      "e_tags e' = e_tags e" "frame e e'"
    using op has by (auto simp: set_attr_def set_attr_indexes_def engine_aux res_simps frame_simps split: if_splits)
  have "tag_rep bset (?fw, e_tags e)"
    using I by (intro tag_rep_same [OF I(4)]) (simp_all add: fw_add_wf fw_add_ids fw_add_count has)
  then show ?thesis
    using set_attr_rep [OF I(5) I(6) I(2) [OF has] fresh kv] e' by (intro engine_ok_frame [OF inv]) simp_all
qed

lemma remove_attr_ok:
  assumes inv: "engine_ok bset en gwf strict e" and op: "remove_attr en sys oid k h e = ok e'"
  shows "engine_ok bset en gwf strict e'"
proof -
  note I = engine_okD [OF inv]
  have has: "has_object oid e" using op by (auto simp: remove_attr_def split: if_splits)
  obtain found e2 where e2: "(remove_attr_indexes en oid k h (snd (engine_now sys e)) :: (engine_error, bool \<times> ('b, 'g) engine) res) = ok (found, e2)"
    and e': "e_forward e' = e_forward e2" "e_tags e' = e_tags e2" "e_kv e' = e_kv e2" "e_range e' = e_range e2" "frame e2 e'"
    using op has by (auto simp: remove_attr_def engine_aux res_simps frame_simps split: if_splits)
  have e1: "e_forward (snd (engine_now sys e)) = e_forward e" "e_tags (snd (engine_now sys e)) = e_tags e"
    "e_kv (snd (engine_now sys e)) = e_kv e" "e_range (snd (engine_now sys e)) = e_range e" "frame e (snd (engine_now sys e))"
    by (simp_all add: engine_aux frame_simps split: if_splits)
  obtain found_v where fv: "(find_attr (q_vc en) k h (fw_assertions_of (e_forward e) oid) :: (engine_error, attr_value option) res) = ok found_v"
    using e2 e1(1) by (auto simp: remove_attr_indexes_def res_simps)
  show ?thesis
  proof (cases found_v)
    case None
    then have "e2 = snd (engine_now sys e)" using e2 fv e1(1) by (simp add: remove_attr_indexes_def)
    moreover have "frame e e'" using calculation e1(5) e'(5) by (auto simp: frame_def)
    ultimately show ?thesis using e' e1 I by (intro engine_ok_frame [OF inv]) simp_all
  next
    case (Some v)
    then have mem: "(oid, AAttr k v) \<in> fw_facts (e_forward e)"
      using find_attr_Some [of "q_vc en" k h "fw_assertions_of (e_forward e) oid" v] fv by (force simp: fw_facts_iff)
    obtain kv was where kv: "(kv_remove (q_vc en) (q_rb en) k v (oid_entry oid) (e_kv e) :: (engine_error, 'b kv_index \<times> bool) res) = ok (kv, was)"
      and e2': "e_forward e2 = fst (fw_remove_assertion oid (AAttr k v) (e_forward e))" "e_kv e2 = kv"
        "e_range e2 = fst (range_remove (q_rb en) k v (oid_entry oid) (e_range e))" "e_tags e2 = e_tags e" "frame e e2"
      using e2 fv e1 Some by (auto simp: remove_attr_indexes_def res_simps frame_def has_object_def)
    have fr: "frame e e'" using e2'(5) e'(5) by (auto simp: frame_def)
    have "tag_rep bset (e_forward e', e_tags e')"
      unfolding e' e2' by (rule tag_rep_remove [OF I(4)]) simp
    then show ?thesis
      using remove_attr_rep [OF I(5) I(6) I(2) [OF has] mem kv] e' e2' fr by (intro engine_ok_frame [OF inv]) simp_all
  qed
qed

lemma relation_ok:
  assumes inv: "engine_ok bset en gwf strict e" and fr: "frame e e'"
    and e': "e_tags e' = e_tags e" "e_kv e' = e_kv e" "e_range e' = e_range e"
    and same: "\<And>o' a. (\<forall>p t. a \<noteq> ARelation p t) \<Longrightarrow> fw_count (e_forward e') o' a = fw_count (e_forward e) o' a"
    and fw: "bm_wf (e_forward e')" "fw_ids (e_forward e')"
  shows "engine_ok bset en gwf strict e'"
proof -
  note I = engine_okD [OF inv]
  have "tag_rep bset (e_forward e', e_tags e')" unfolding e' by (rule tag_rep_same [OF I(4) fw]) (simp add: same)
  moreover have "attr_rep bset (q_vc en) (e_forward e') (e_kv e') (e_range e')" if strict
    unfolding e' by (rule attr_rep_same [OF I(5) [OF that]]) (simp add: same)
  ultimately show ?thesis by (intro engine_ok_frame [OF inv fr])
qed

lemma add_relation_ok:
  assumes inv: "engine_ok bset en gwf strict e" and op: "add_relation sys oid p t e = ok e'"
  shows "engine_ok bset en gwf strict e'"
proof -
  note I = engine_okD [OF inv]
  have has: "has_object oid e" using op by (auto simp: add_relation_def split: if_splits)
  have "e_forward e' = fw_add_assertion oid (ARelation p t) Direct (e_forward e)" "frame e e'"
    "e_tags e' = e_tags e" "e_kv e' = e_kv e" "e_range e' = e_range e"
    using op has by (auto simp: add_relation_def engine_aux frame_simps split: if_splits)
  then show ?thesis using I(6,7) I(2) [OF has] by (intro relation_ok [OF inv]) (auto simp: fw_add_wf fw_add_ids fw_add_count)
qed

lemma remove_relation_ok:
  assumes inv: "engine_ok bset en gwf strict e" and op: "remove_relation sys oid p t e = ok e'"
  shows "engine_ok bset en gwf strict e'"
proof -
  note I = engine_okD [OF inv]
  have has: "has_object oid e" using op by (auto simp: remove_relation_def split: if_splits)
  have e': "e_forward e' = fst (fw_remove_assertion oid (ARelation p t) (e_forward e))" "frame e e'"
    "e_tags e' = e_tags e" "e_kv e' = e_kv e" "e_range e' = e_range e"
    using op has by (auto simp: remove_relation_def engine_aux frame_simps split: if_splits)
  from I(6) show ?thesis
  proof (cases rule: fw_remove_cases [of "e_forward e" oid "ARelation p t"])
    case absent
    then show ?thesis using e' I by (intro relation_ok [OF inv]) simp_all
  next
    case (removed a' fw')
    moreover have "fw_ids fw'" by (rule fw_ids_mono [OF I(7)]) (simp add: removed(5))
    ultimately show ?thesis using e' by (intro relation_ok [OF inv]) auto
  qed
qed

lemma write_blob_ok:
  assumes inv: "engine_ok bset en gwf strict e" and op: "write_blob tf en sys oid bs e = ok (r, e')"
  shows "engine_ok bset en gwf strict e'"
proof -
  note I = engine_okD [OF inv]
  have has: "has_object oid e" using op by (auto simp: write_blob_def split: if_splits)
  have "e_forward e' = e_forward e" "frame e e'" "e_tags e' = e_tags e" "e_kv e' = e_kv e" "e_range e' = e_range e"
    using op has by (auto simp: write_blob_def engine_aux res_simps frame_simps split: if_splits)
  then show ?thesis using I by (intro engine_ok_frame [OF inv]) simp_all
qed

lemma create_ok:
  assumes inv: "engine_ok bset en gwf strict e" and op: "create_object sys e = (oid, e')" and n: "e_next_oid_local e < 2 ^ 32"
  shows "engine_ok bset en gwf strict e'" and "unat oid = e_next_oid_local e" and "\<not> has_object oid e" and "has_object o' e' \<longleftrightarrow> has_object o' e \<or> o' = oid"
    and "e_forward e' = e_forward e"
proof -
  note I = engine_okD [OF inv]
  have oid: "oid = oid_from_parts 0 (word_of_nat (e_next_oid_local e))"
    using op I(10) by (auto simp: create_object_def Let_def split_beta)
  have "unat (word_of_nat (e_next_oid_local e) :: object_id) = e_next_oid_local e"
    using n by (simp add: unat_of_nat)
  then show u: "unat oid = e_next_oid_local e" using small_oid_parts [of "word_of_nat (e_next_oid_local e)"] n oid by simp
  then show "\<not> has_object oid e" using I(8) by fastforce
  have e': "e_forward e' = e_forward e" "e_tags e' = e_tags e" "e_kv e' = e_kv e" "e_range e' = e_range e"
    "e_node_id e' = e_node_id e" "e_ontology e' = e_ontology e" "e_next_oid_local e' = e_next_oid_local e + 1"
    "\<exists>r. e_object_table e' = bm_insert oid r (e_object_table e)"
    using op n by (auto simp: create_object_def engine_aux object_table_insert_def set_state_def object_record_new_def)
  then obtain r where r: "e_object_table e' = bm_insert oid r (e_object_table e)" by blast
  then show "has_object o' e' \<longleftrightarrow> has_object o' e \<or> o' = oid" by (simp add: has_object_def bm_get_insert [OF I(1)])
  show "e_forward e' = e_forward e" by (rule e'(1))
  have "has_object o' e' \<Longrightarrow> unat o' < e_next_oid_local e'" for o'
    using I(8) [of o'] u e'(7) by (auto simp: has_object_def r bm_get_insert [OF I(1)] split: if_splits)
  then show "engine_ok bset en gwf strict e'"
    using I n r e' by (simp add: engine_ok_def bm_wf_insert)
qed

lemma start_ok: "engine_ok bset en gwf strict (engine_new en 0)"
  by (simp add: engine_ok_def engine_new_def has_object_def onto_inv_new tag_rep_def attr_rep_def attrs_distinct_def
      kv_new_def fw_ids_def zero_secret_def fw_facts_iff fw_assertions_of_def tag_bits_def map_bits_def holding_def fw_count_def)

lemma onto_change_ok:
  assumes "engine_ok bset en gwf strict e" and "onto_inv (q_graph en) gwf (e_ontology e')"
    and "e_object_table e' = e_object_table e" "e_next_oid_local e' = e_next_oid_local e" "e_node_id e' = e_node_id e"
    "e_forward e' = e_forward e" "e_tags e' = e_tags e" "e_kv e' = e_kv e" "e_range e' = e_range e"
  shows "engine_ok bset en gwf strict e'"
  using assms by (simp add: engine_ok_def has_object_def)

lemma next_free_fresh:
  assumes "onto_inv (q_graph en) gwf (e_ontology e)" and "(next_free_tag_id e :: ('x, u32) res) = ok n"
  shows "i \<in> dom (tag_of (e_ontology e)) \<Longrightarrow> i < n"
  using tag_le_max(2) [OF assms(1), of i] assms(2)
  by (auto simp: next_free_tag_id_def add_u32_def max_tag_id_def res_simps split: if_splits)

lemma install_ok:
  assumes inv: "engine_ok bset en gwf strict e" and op: "install_ontology_module en m e = ok (res, e')"
  shows "engine_ok bset en gwf strict e'"
proof -
  note I = engine_okD [OF inv]
  obtain n where n: "(next_free_tag_id e :: (engine_error, u32) res) = ok n"
    and st: "e_ontology e' = fst (snd (install (q_graph en) (e_ontology e) m (starting_at n)))"
    and rest: "e_object_table e' = e_object_table e" "e_next_oid_local e' = e_next_oid_local e" "e_node_id e' = e_node_id e"
      "e_forward e' = e_forward e" "e_tags e' = e_tags e" "e_kv e' = e_kv e" "e_range e' = e_range e"
    using op by (auto simp: install_ontology_module_def res_simps split_beta Let_def)
  have "alloc_ok (e_ontology e) (starting_at n)"
    using next_free_fresh [OF I(3) n] by (auto simp: alloc_ok_def starting_at_def less_max_iff_disj)
  then have "onto_inv (q_graph en) gwf (e_ontology e')" unfolding st by (rule install_inv(1) [OF I(3)]) (simp add: prod_eq_iff)
  then show ?thesis using rest by (intro onto_change_ok [OF inv])
qed

lemma register_ok:
  assumes inv: "engine_ok bset en gwf strict e"
    and op: "(engine_register_tag en name e :: (engine_error, tag_id \<times> ('b, 'g) engine) res) = ok (t, e')"
  shows "engine_ok bset en gwf strict e'"
proof (cases "resolve_tag_name name e")
  case None
  note I = engine_okD [OF inv]
  let ?d = "\<lparr>td_id = t, td_name = name, td_semantics = Label, td_implies = [], td_storage = None\<rparr>"
  have n: "(next_free_tag_id e :: (engine_error, u32) res) = ok t" and st: "e_ontology e' = register_tag (q_graph en) (e_ontology e) t ?d"
    and rest: "e_object_table e' = e_object_table e" "e_next_oid_local e' = e_next_oid_local e" "e_node_id e' = e_node_id e"
      "e_forward e' = e_forward e" "e_tags e' = e_tags e" "e_kv e' = e_kv e" "e_range e' = e_range e"
    using op None by (auto simp: engine_register_tag_def register_tag_def res_simps Let_def)
  have "tag_of (e_ontology e) t = None" using next_free_fresh [OF I(3) n, of t] by blast
  then have "onto_inv (q_graph en) gwf (e_ontology e')"
    unfolding st using None by (intro register_tag_inv [OF I(3)]) (simp_all add: resolve_tag_name_def)
  then show ?thesis using rest by (intro onto_change_ok [OF inv])
next
  case (Some i)
  then show ?thesis using op inv by (simp add: engine_register_tag_def)
qed

lemma engine_reach_ok: "engine_reach tf en strict e \<Longrightarrow> engine_ok bset en gwf strict e"
proof (induction rule: engine_reach.induct)
  case (er_transform e p)
  then show ?case by (auto intro: onto_change_ok simp: set_transform_def engine_okD(3))
next
  case (er_subscribe e name q i ret sid e')
  then show ?case by (auto intro!: onto_change_ok [OF er_subscribe.IH] simp: subscribe_def engine_okD(3) res_simps split_beta Let_def)
qed (blast intro: start_ok create_ok(1) delete_ok add_tag_ok remove_tag_ok set_attr_ok remove_attr_ok add_relation_ok
    remove_relation_ok write_blob_ok install_ok register_ok)+

lemma engine_query_bits:
  assumes "engine_reach tf en True e" and "answerable (q_vc en) zero_secret (fw_facts (e_forward e)) q"
  shows "query_full en q e = ok (sorted_list_of_set
    (qsem (fw_facts (e_forward e)) (\<lambda>s. onto_closure (q_graph en) (e_ontology e) [s]) q))"
proof -
  note I = engine_okD [OF engine_reach_ok [OF assms(1)]]
  note A = attr_repD [OF I(5) [OF TrueI]]
  have "index_rep bset (q_vc en) (e_tags e) (e_kv e) (e_range e) (fw_facts (e_forward e))"
    unfolding index_rep_def using I(4,7) A attrs_distinctD(2) [OF A(4)]
    by (auto simp: tag_rep_def fw_ids_def simp del: all_simps)
  then have "evaluate_full en (executor_of e) q = ok (sorted_list_of_set
      (qsem (fw_facts (e_forward e)) (\<lambda>s. onto_closure (q_graph en) (e_ontology e) [s]) q))"
    using evaluate_full_bits [of "executor_of e" q] I(3,6) A(3) assms(2) by (simp add: executor_of_def)
  then show ?thesis by (simp add: query_full_def)
qed

lemma implied_by_ok:
  assumes "onto_inv (q_graph en) gwf st"
  shows "(implied_by en st ts S :: ('e, tag_id set) res) = ok (S \<union> (\<Union>t\<in>set ts. onto_closure (q_graph en) st [t]))"
proof (induction ts arbitrary: S)
  case (Cons t ts)
  obtain c where "state_materialise (q_graph en) st [t] = Some c" "set c = onto_closure (q_graph en) st [t]"
    using state_materialise_spec [OF assms] by blast
  then show ?case using Cons by (simp add: await_def Un_assoc)
qed simp

lemma remove_tag_indexes_ok:
  assumes "onto_inv (q_graph en) gwf (e_ontology e)"
  shows "\<exists>e'. (remove_tag_indexes en oid t e :: ('x, ('b, 'g) engine) res) = ok e'"
  by (simp add: remove_tag_indexes_def implied_by_ok [OF assms] split_beta Let_def)

end

text \<open>With an encoder that never fails the attribute indexes always take the change.\<close>

definition hash_total :: "value_codec \<Rightarrow> bool" where
  "hash_total vc \<longleftrightarrow> (\<forall>s v. hash_of vc s v \<noteq> None)"

lemma value_hash_total: "hash_total vc \<Longrightarrow> (value_hash vc v s :: ('e, u64) res) = ok (the (hash_of vc s v))"
  by (auto simp: hash_total_def value_hash_cases split: option.splits)

lemma kv_insert_ok: "hash_total vc \<Longrightarrow> \<exists>kv'. (kv_insert vc rb k v n kv :: ('e, 'b kv_index) res) = ok kv'"
  by (simp add: kv_insert_def value_hash_total)

lemma kv_remove_ok: "hash_total vc \<Longrightarrow> \<exists>kv' b. (kv_remove vc rb k v n kv :: ('e, 'b kv_index \<times> bool) res) = ok (kv', b)"
  by (simp add: kv_remove_def value_hash_total split_beta Let_def)

lemma strip_attrs_ok: "hash_total vc \<Longrightarrow> \<exists>kv rng. (strip_attrs vc rb n as ix :: ('e, 'b kv_index \<times> 'b range_index) res) = ok (kv, rng)"
proof (induction vc rb n as ix rule: strip_attrs.induct)
  case (2 vc rb n key v og as kv rng)
  then show ?case using kv_remove_ok [OF 2(2), where 'e = 'e, of rb key v n kv] by auto
qed simp_all

lemma find_attr_ok: "hash_total vc \<Longrightarrow> \<exists>x. (find_attr vc k h as :: ('e, attr_value option) res) = ok x"
  by (induction vc k h as rule: find_attr.induct) (auto simp: engine_value_hash_def value_hash_total)

lemma remove_attr_indexes_ok:
  assumes "hash_total (q_vc en)"
  shows "\<exists>b e'. (remove_attr_indexes en oid k h e :: ('x, bool \<times> ('b, 'g) engine) res) = ok (b, e')"
proof -
  obtain x where x: "(find_attr (q_vc en) k h (fw_assertions_of (e_forward e) oid) :: ('x, attr_value option) res) = ok x"
    using find_attr_ok [OF assms] by blast
  show ?thesis
  proof (cases x)
    case (Some v)
    then show ?thesis
      using x kv_remove_ok [OF assms, where 'e = 'x, of "q_rb en" k v "oid_entry oid" "e_kv e"] by (auto simp: remove_attr_indexes_def)
  qed (auto simp: remove_attr_indexes_def x)
qed

lemma write_blob_ok_iff:
  "has_object oid e \<Longrightarrow>
     (\<exists>x. write_blob tf en sys oid bs e = ok x) \<longleftrightarrow> (\<exists>r. transform_apply tf (e_transform e) bs = ok r)"
  by (cases "transform_apply tf (e_transform e) bs") (auto simp: write_blob_def engine_aux map_err_def res_simps split: failure.splits)

lemma bm_wf_single: "bm_wf [(k, v)]"
  by (simp add: bm_wf_def)

text \<open>The parts of an id made from a node and a small sequence number.\<close>

lemma oid_node_from_parts: "oid_node_id (oid_from_parts node loc) = node"
  using oid_roundtrip [of node loc] by simp

lemma oid_entry_from_parts: "oid_entry (oid_from_parts node 1) = 1"
proof -
  have m: "(0xffffffff :: 64 word) = mask 32" by (simp add: mask_eq_exp_minus_1)
  have "oid_from_parts node 1 AND 0xffffffff = (1 :: object_id)"
    unfolding m by (rule bit_word_eqI) (auto simp: oid_from_parts_def Let_def bit_simps)
  then show ?thesis by (simp add: oid_entry_def)
qed

section \<open>Properties\<close>

text \<open>C14. In every reachable engine the tag index and the forward index agree: an object is in the bitmap of a tag
  exactly when it holds the tag, and it holds each tag once.\<close>

theorem engine_tags_exact:
  assumes "query_libs en bset gwf" and "engine_reach tf en strict e"
  shows "(\<forall>t. tag_bits bset (e_tags e) t = unat ` {oid. (oid, ATag t) \<in> fw_facts (e_forward e)}) \<and>
    (\<forall>oid t. fw_count (e_forward e) oid (ATag t) \<le> 1)"
  using engine_okD(4) [OF query_libs.engine_reach_ok [OF assms]] by (simp add: tag_rep_def)

text \<open>C12. Queries on an engine of node 0 are exact: on every engine reached from a new one of node 0 that
  has handed out fewer than $2^{32}$ ids, when clients remove a value before they set one that collides with
  it, every query the indexes can answer returns exactly the objects whose assertions satisfy it.\<close>

theorem engine_query_exact:
  assumes "query_libs en bset gwf" and "engine_reach tf en True e"
    and "answerable (q_vc en) zero_secret (fw_facts (e_forward e)) q"
  shows "query_full en q e = ok (sorted_list_of_set
    (qsem (fw_facts (e_forward e)) (\<lambda>s. onto_closure (q_graph en) (e_ontology e) [s]) q))"
  using assms by (rule query_libs.engine_query_bits)

text \<open>C13. On an engine of another node the ids are lost: the bitmaps hold the low 32 bits of an id and
  \<open>query_full\<close> rebuilds it with node 0. After one object is created on node \<open>n > 0\<close> and given an
  attribute, the equality query answers with the id 1, which no object of the engine has, and not with the
  object's own id.\<close>

theorem query_full_forgets_node:
  assumes "query_libs en bset gwf" and "0 < n" and "n < 2 ^ 16" and "create_object sys (engine_new en n) = (oid, e1)"
    and "set_attr en sys' oid k v e1 = ok e2"
  shows "query_full en (HasAttr k OpEq v) e2 = ok [1] \<and> \<not> has_object 1 e2 \<and> has_object oid e2 \<and> oid \<noteq> 1 \<and>
    fw_facts (e_forward e2) = {(oid, AAttr k v)}"
proof -
  let ?n = "word_of_nat n :: 16 word"
  have oid: "oid = oid_from_parts ?n 1" and t1: "\<exists>r. e_object_table e1 = bm_insert oid r []"
    and e1: "e_kv e1 = kv_new" "e_forward e1 = []"
    using assms(4) by (auto simp: create_object_def engine_aux engine_new_def object_table_insert_def set_state_def
        object_record_new_def)
  have one: "oid_node_id 1 = 0" "oid_local_seq 1 = 1" by (simp_all add: oid_node_id_def oid_local_seq_def)
  have "oid_node_id oid = ?n" using oid oid_node_from_parts by simp
  moreover have "unat ?n = n" using assms(3) by (simp add: unat_of_nat)
  ultimately have ne: "oid \<noteq> 1" using assms(2) one(1) by auto
  have ent: "oid_entry oid = 1" by (simp add: oid oid_entry_from_parts)
  obtain kv where kv: "(kv_insert (q_vc en) (q_rb en) k v 1 kv_new :: (engine_error, _) res) = ok kv"
    and e2: "e_kv e2 = kv" "e_forward e2 = fw_add_assertion oid (AAttr k v) Direct []"
      "\<And>o'. has_object o' e2 \<longleftrightarrow> o' = oid"
    using assms(5) t1 e1 ent object_table_update_get [OF bm_wf_single]
    by (auto simp: set_attr_def set_attr_indexes_def engine_aux has_object_def object_table_update_get bm_get_insert
        res_simps split: if_splits)
  obtain h where h: "hash_of (q_vc en) (replicate 16 0) v = Some h"
    using kv by (auto simp: kv_insert_def kv_new_def value_hash_cases split: option.splits)
  then have "kv = kv_new\<lparr>kv_entries := [((k, h), rb_insert (q_rb en) 1 (rb_new (q_rb en)))]\<rparr>"
    using kv by (simp add: kv_insert_def value_hash_cases bitmap_put_def kv_new_def)
  then have "(kv_lookup (q_vc en) (q_rb en) kv k v :: (query_error, _) res) = ok (rb_insert (q_rb en) 1 (rb_new (q_rb en)))"
    using h by (simp add: kv_lookup_def kv_new_def value_hash_cases)
  moreover have "rb_iter (q_rb en) (rb_insert (q_rb en) 1 (rb_new (q_rb en))) = [1]"
    by (simp add: roaring.rb_sets [OF query_libs.axioms(1) [OF assms(1)]])
  ultimately have "query_full en (HasAttr k OpEq v) e2 = ok [1]"
    by (simp add: query_full_def evaluate_full_def eval_has_attr_def executor_of_def e2(1) oid_from_parts_def)
  moreover have "fw_facts (e_forward e2) = {(oid, AAttr k v)}"
    unfolding e2(2) fw_add_facts [OF bm_wf_Nil] by (simp add: fw_facts_def fw_count_def fw_assertions_of_def)
  ultimately show ?thesis using e2(3) ne by simp
qed

text \<open>C18. On an object of a reachable engine, with a value encoder that never fails, the seven operations that
  tag and untag it, set and remove an attribute, add and remove a relation and delete it return, and writing
  its blob returns exactly when the transform pipeline accepts the blob. On any other id all eight report
  that the object does not exist.\<close>

theorem engine_ops_return:
  assumes "query_libs en bset gwf" and "engine_reach tf en strict e" and "hash_total (q_vc en)"
  shows "if has_object oid e
    then (\<exists>e'. engine_add_tag en sys oid t e = ok e') \<and> (\<exists>e'. engine_remove_tag en sys oid t e = ok e') \<and>
      (\<exists>e'. set_attr en sys oid t v e = ok e') \<and> (\<exists>e'. remove_attr en sys oid t h e = ok e') \<and>
      (\<exists>e'. add_relation sys oid t target e = ok e') \<and> (\<exists>e'. remove_relation sys oid t target e = ok e') \<and>
      (\<exists>e'. delete_object en sys oid e = ok e') \<and>
      ((\<exists>x. write_blob tf en sys oid bs e = ok x) \<longleftrightarrow> (\<exists>r. transform_apply tf (e_transform e) bs = ok r))
    else {engine_add_tag en sys oid t e, engine_remove_tag en sys oid t e, set_attr en sys oid t v e,
      remove_attr en sys oid t h e, add_relation sys oid t target e, remove_relation sys oid t target e,
      delete_object en sys oid e} = {err (EngObjectNotFound oid)} \<and>
      write_blob tf en sys oid bs e = err (EngObjectNotFound oid)"
proof (cases "has_object oid e")
  case True
  note inv = engine_okD(3) [OF query_libs.engine_reach_ok [OF assms(1,2)]]
  let ?e1 = "snd (engine_now sys e)"
  have o1: "onto_inv (q_graph en) gwf (e_ontology ?e1)" using inv by (simp add: engine_aux)
  obtain c where "state_materialise (q_graph en) (e_ontology ?e1) [t] = Some c"
    using digraph.state_materialise_spec [OF query_libs.axioms(2) [OF assms(1)] o1] by blast
  then have "\<exists>e'. engine_add_tag en sys oid t e = ok e'" using True by (simp add: engine_add_tag_def await_def split_beta Let_def)
  moreover have "\<exists>e'. engine_remove_tag en sys oid t e = ok e'"
    using True query_libs.remove_tag_indexes_ok [OF assms(1) o1, where 'x = engine_error, of oid t]
    by (auto simp: engine_remove_tag_def split_beta Let_def)
  moreover have "\<exists>e'. set_attr en sys oid t v e = ok e'"
    using True kv_insert_ok [OF assms(3), where 'e = engine_error, of "q_rb en" t v "oid_entry oid" "e_kv ?e1"]
    by (auto simp: set_attr_def set_attr_indexes_def split_beta Let_def)
  moreover have "\<exists>e'. remove_attr en sys oid t h e = ok e'"
    using True remove_attr_indexes_ok [OF assms(3), where 'x = engine_error, of oid t h ?e1]
    by (auto simp: remove_attr_def split_beta Let_def)
  moreover have "\<exists>e'. delete_object en sys oid e = ok e'"
    using True strip_attrs_ok [OF assms(3), where 'e = engine_error, of "q_rb en" "oid_entry oid"
        "fw_assertions_of (e_forward e) oid" "(e_kv e, e_range e)"]
    by (auto simp: delete_object_def engine_aux)
  moreover have "(\<exists>x. write_blob tf en sys oid bs e = ok x) \<longleftrightarrow> (\<exists>r. transform_apply tf (e_transform e) bs = ok r)"
    using True by (rule write_blob_ok_iff)
  ultimately show ?thesis using True by (simp add: add_relation_def remove_relation_def split_beta Let_def)
next
  case False
  then show ?thesis
    by (simp add: engine_add_tag_def engine_remove_tag_def set_attr_def remove_attr_def add_relation_def
        remove_relation_def delete_object_def write_blob_def)
qed

text \<open>C19. An object created on an engine of node 0 that has handed out fewer than $2^{32}$ ids gets an id that no
  object of the engine ever had: the table keeps the records of deleted objects, and the id is above all of
  them. The new record is an active one without tags, attributes, relations and content; every other record
  of the table and the location table, the indexes and the ontology are unchanged.\<close>

theorem create_object_fresh:
  assumes "query_libs en bset gwf" and "engine_reach tf en strict e" and "e_next_oid_local e < 2 ^ 32"
    and "create_object sys e = (oid, e')"
  shows "(\<forall>o'. has_object o' e \<longrightarrow> unat o' < unat oid) \<and>
    (\<forall>o'. o' \<noteq> oid \<longrightarrow> bm_get (e_object_table e') o' = bm_get (e_object_table e) o') \<and>
    (\<exists>ns. bm_get (e_object_table e') oid =
       Some (set_state ObjActive (object_record_new oid\<lparr>or_created_ns := ns, or_modified_ns := ns\<rparr>))) \<and>
    e_next_oid_local e' = e_next_oid_local e + 1 \<and> e_location_table e' = e_location_table e \<and>
    e_forward e' = e_forward e \<and> e_tags e' = e_tags e \<and> e_kv e' = e_kv e \<and> e_range e' = e_range e \<and>
    e_ontology e' = e_ontology e"
proof -
  note inv = query_libs.engine_reach_ok [OF assms(1,2)]
  have u: "unat oid = e_next_oid_local e" by (rule query_libs.create_ok(2) [OF assms(1) inv assms(4,3)])
  have t: "\<exists>ns. e_object_table e' = bm_insert oid
      (set_state ObjActive (object_record_new oid\<lparr>or_created_ns := ns, or_modified_ns := ns\<rparr>)) (e_object_table e)"
    using assms(4) by (auto simp: create_object_def engine_aux object_table_insert_def set_state_def object_record_new_def)
  have "e_next_oid_local e' = e_next_oid_local e + 1 \<and> e_location_table e' = e_location_table e \<and>
    e_forward e' = e_forward e \<and> e_tags e' = e_tags e \<and> e_kv e' = e_kv e \<and> e_range e' = e_range e \<and>
    e_ontology e' = e_ontology e"
    using assms(3,4) by (auto simp: create_object_def engine_aux)
  with t u engine_okD(8) [OF inv] show ?thesis by (auto simp: bm_get_insert [OF engine_okD(1) [OF inv]])
qed

subsection \<open>Witnesses\<close>

definition wit_e1 :: "(32 word list, list_graph) engine" where
  "wit_e1 = snd (create_object (Some 5) (engine_new wit_qenv 0))"

lemma wit_total: "hash_total (q_vc wit_qenv)"
  by (simp add: hash_total_def hash_of_def value_hash_def wit_qenv_def wit_vc_def Let_def split: attr_value.splits)

lemma wit_create: "create_object (Some 5) (engine_new wit_qenv 0) = (1, wit_e1)"
  by (simp add: wit_e1_def create_object_def engine_aux engine_new_def oid_from_parts_def prod_eq_iff)

lemma wit_e1_reach: "engine_reach tf wit_qenv strict wit_e1"
  by (rule er_create [OF er_start _ wit_create]) (simp add: engine_new_def)

lemma wit_e1_fields: "has_object 1 wit_e1" "e_forward wit_e1 = []" "e_ontology wit_e1 = ontology_new lg_ops"
  using wlq.create_ok(4) [OF wlq.start_ok wit_create, of 1]
  by (simp_all add: engine_new_def wit_e1_def create_object_def engine_aux wit_qenv_def)

text \<open>An engine with one object that has the tag 1 and the attribute 2 with the value 3.\<close>

lemma wit_e1_register:
  obtains e2 where "(engine_register_tag wit_qenv ''a'' wit_e1 :: (engine_error, tag_id \<times> (32 word list, list_graph) engine) res) = ok (1, e2)"
    "e_forward e2 = []" "has_object 1 e2" "onto_closure lg_ops (e_ontology e2) [1] = {1}"
proof -
  let ?d = "\<lparr>td_id = 1, td_name = ''a'', td_semantics = Label, td_implies = [], td_storage = None\<rparr>"
  let ?st = "register_tag lg_ops (ontology_new lg_ops) 1 ?d"
  have n: "e_next_tag_id wit_e1 = 1" by (simp add: wit_e1_def create_object_def engine_aux engine_new_def)
  have r: "(engine_register_tag wit_qenv ''a'' wit_e1 :: (engine_error, tag_id \<times> (32 word list, list_graph) engine) res) =
      ok (1, wit_e1\<lparr>e_next_tag_id := 2, e_ontology := ?st\<rparr>)"
    using wit_e1_fields n by (simp add: engine_register_tag_def resolve_tag_name_def next_free_tag_id_def max_tag_id_def
        add_u32_def ontology_new_def register_tag_def wit_qenv_def)
  note R = lg.register_tag_inv(2,4) [OF lg.onto_inv_new, of ?d 1]
  have "name_of (ontology_new lg_ops) ''a'' = None" "tag_of (ontology_new lg_ops) 1 = None" by (simp_all add: ontology_new_def)
  moreover have "onto_rel lg_ops (ontology_new lg_ops) = {}"
    using lg.dag_new_spec by (simp add: ontology_new_def)
  ultimately have "onto_closure lg_ops ?st [1] = {1}" using R by (simp add: onto_closure_def)
  then show thesis using that [OF r] wit_e1_fields by (simp add: has_object_def)
qed

text \<open>An engine with one object that has the tag 1 and the attribute 2 with the value 3.\<close>

lemma wit_engine:
  obtains e where "engine_reach tf wit_qenv True e" "has_object 1 e" "fw_facts (e_forward e) = {(1, ATag 1), (1, AAttr 2 (VInt 3))}"
proof -
  obtain e2 where e2: "(engine_register_tag wit_qenv ''a'' wit_e1 :: (engine_error, tag_id \<times> (32 word list, list_graph) engine) res) = ok (1, e2)"
    and f2: "e_forward e2 = []" "has_object 1 e2" "onto_closure lg_ops (e_ontology e2) [1] = {1}"
    by (rule wit_e1_register)
  note r2 = er_register [OF wit_e1_reach [of tf True] e2]
  note i2 = wlq.engine_reach_ok [OF r2]
  obtain c where "state_materialise (q_graph wit_qenv) (e_ontology e2) [1] = Some c"
    using wlq.state_materialise_spec [OF engine_okD(3) [OF i2]] by blast
  then obtain e3 where e3: "engine_add_tag wit_qenv (Some 6) 1 1 e2 = ok e3"
    using f2(2) by (simp add: engine_add_tag_def engine_aux await_def)
  note r3 = er_add_tag [OF r2 e3]
  have f3: "fw_facts (e_forward e3) = {(1, ATag 1)}"
    using wlq.add_tag_facts(1) [OF i2 e3] f2 by (simp add: fw_facts_iff fw_facts_def fw_count_def fw_assertions_of_def wit_qenv_def)
  have o3: "has_object 1 e3" using e3 f2(2) engine_okD(1) [OF i2]
    by (auto simp: engine_add_tag_def engine_aux add_tag_indexes_def res_simps has_object_def object_table_update_get)
  obtain kv where kv: "(kv_insert (q_vc wit_qenv) (q_rb wit_qenv) 2 (VInt 3) (oid_entry 1) (e_kv e3) :: (engine_error, 32 word list kv_index) res) = ok kv"
    using kv_insert_ok [OF wit_total] by blast
  then obtain e4 where e4: "set_attr wit_qenv (Some 7) 1 2 (VInt 3) e3 = ok e4"
      and o4: "has_object 1 e4" and fw4: "e_forward e4 = fw_add_assertion 1 (AAttr 2 (VInt 3)) Direct (e_forward e3)"
    using o3 engine_okD(1) [OF wlq.engine_reach_ok [OF r3]]
    by (simp add: set_attr_def set_attr_indexes_def engine_aux has_object_def object_table_update_get)
  have "attr_fresh (q_vc wit_qenv) (e_forward e3) 1 2 (VInt 3)" by (simp add: attr_fresh_def f3 i64_ok_def)
  from er_set_attr [OF r3 _ e4] this have "engine_reach tf wit_qenv True e4" by simp
  moreover have "fw_facts (e_forward e4) = {(1, ATag 1), (1, AAttr 2 (VInt 3))}"
    unfolding fw4 using engine_okD(6) [OF wlq.engine_reach_ok [OF r3]] f3 by (auto simp: fw_add_facts)
  ultimately show thesis using that o4 by blast
qed

theorem engine_tags_exact_witness:
  "\<exists>e. engine_reach wit_tf wit_qenv True e \<and> tag_bits wl_set (e_tags e) 1 = {1}"
proof -
  obtain e where e: "engine_reach wit_tf wit_qenv True e" "has_object 1 e" "fw_facts (e_forward e) = {(1, ATag 1), (1, AAttr 2 (VInt 3))}"
    by (rule wit_engine)
  have "tag_bits wl_set (e_tags e) 1 = unat ` {oid. (oid, ATag 1) \<in> fw_facts (e_forward e)}"
    using engine_tags_exact [OF wlq.query_libs_axioms e(1)] by blast
  then show ?thesis using e by auto
qed

theorem engine_query_exact_witness:
  "\<exists>e. engine_reach wit_tf wit_qenv True e \<and> query_full wit_qenv (QAnd [HasTag 1, HasAttr 2 OpEq (VInt 3)]) e = ok [1]"
proof -
  let ?q = "QAnd [HasTag 1, HasAttr 2 OpEq (VInt 3)]"
  obtain e where e: "engine_reach wit_tf wit_qenv True e" "has_object 1 e" "fw_facts (e_forward e) = {(1, ATag 1), (1, AAttr 2 (VInt 3))}"
    by (rule wit_engine)
  have "answerable (q_vc wit_qenv) zero_secret (fw_facts (e_forward e)) ?q"
    using wit_total by (auto simp: e(3) stored_def hash_total_def)
  moreover have "qsem (fw_facts (e_forward e)) C ?q = {1}" for C by (auto simp: e(3) holding_def)
  ultimately have "query_full wit_qenv ?q e = ok [1]" using engine_query_exact [OF wlq.query_libs_axioms e(1), of ?q] by simp
  then show ?thesis using e(1) by blast
qed

theorem engine_ops_return_witness:
  "(\<exists>e'. delete_object wit_qenv (Some 7) 1 wit_e1 = ok e') \<and> (\<exists>e'. engine_add_tag wit_qenv (Some 7) 1 4 wit_e1 = ok e')"
  using engine_ops_return [OF wlq.query_libs_axioms wit_e1_reach wit_total, of 1] wit_e1_fields(1) by simp

theorem create_object_fresh_witness:
  "\<exists>oid e'. create_object (Some 9) wit_e1 = (oid, e') \<and> 1 < unat oid \<and> has_object oid e' \<and>
     bm_get (e_object_table e') 1 = bm_get (e_object_table wit_e1) 1"
proof -
  have n: "e_next_oid_local wit_e1 < 2 ^ 32" by (simp add: wit_e1_def create_object_def engine_aux engine_new_def)
  obtain oid e' where c: "create_object (Some 9) wit_e1 = (oid, e')" by (cases "create_object (Some 9) wit_e1")
  note F = create_object_fresh [OF wlq.query_libs_axioms wit_e1_reach n c]
  have lt: "1 < unat oid" using F wit_e1_fields(1) by fastforce
  then have "oid \<noteq> 1" by auto
  then show ?thesis using F c lt by (auto simp: has_object_def)
qed

theorem query_full_forgets_node_witness:
  "\<exists>oid e1 e2. create_object (Some 5) (engine_new wit_qenv 3) = (oid, e1) \<and>
     set_attr wit_qenv (Some 6) oid 2 (VInt 3) e1 = ok e2 \<and>
     query_full wit_qenv (HasAttr 2 OpEq (VInt 3)) e2 = ok [1] \<and> \<not> has_object 1 e2 \<and> has_object oid e2"
proof -
  obtain oid e1 where c: "create_object (Some 5) (engine_new wit_qenv 3) = (oid, e1)"
    by (cases "create_object (Some 5) (engine_new wit_qenv 3)")
  have "has_object oid e1"
    using c by (auto simp: create_object_def engine_aux engine_new_def object_table_insert_def has_object_def
        set_state_def object_record_new_def)
  then obtain e2 where s: "set_attr wit_qenv (Some 6) oid 2 (VInt 3) e1 = ok e2"
    using kv_insert_ok [OF wit_total, where 'e = engine_error, of "q_rb wit_qenv" 2 "VInt 3" "oid_entry oid" "e_kv e1"]
    by (auto simp: set_attr_def set_attr_indexes_def engine_aux)
  show ?thesis using query_full_forgets_node [OF wlq.query_libs_axioms _ _ c s] c s by auto
qed

end
