(* ===== verification/Mb_Engine_Tags.thy ===== *)
theory Mb_Engine_Tags
  imports Mb_Engine_Thms
begin

text \<open>
  Implied tags: every tag an object holds is one it was given directly or follows from one it was given, through
  every history of tagging, untagging and ontology changes.
\<close>

section \<open>Tags by origin\<close>

definition tags_held :: "forward_index \<Rightarrow> object_id \<Rightarrow> tag_origin \<Rightarrow> tag_id set" where
  "tags_held fw oid og = {t. (ATag t, og) \<in> set (fw_assertions_of fw oid)}"

lemma set_tags_with_origin: "set (tags_with_origin og v) = {t. (ATag t, og) \<in> set v}"
  by (force simp: tags_with_origin_def map_filter_def split: assertion.splits)

lemma direct_tags_held: "set (fw_direct_tags fw oid) = tags_held fw oid Direct"
  and materialized_tags_held: "set (fw_materialized_tags fw oid) = tags_held fw oid Materialized"
  by (simp_all add: fw_direct_tags_def fw_materialized_tags_def tags_held_def set_tags_with_origin)

lemma held_fact: "(oid, ATag t) \<in> fw_facts fw \<longleftrightarrow> (\<exists>og. t \<in> tags_held fw oid og)"
  by (force simp: fw_facts_iff tags_held_def)

lemma held_add:
  "bm_wf fw \<Longrightarrow> tags_held (fw_add_assertion oid a og fw) o' og' =
     tags_held fw o' og' \<union> (if o' = oid \<and> og' = og then {t. a = ATag t} else {})"
  by (auto simp: tags_held_def fw_add_assertion_def fw_assertions_insert)

text \<open>Removing an assertion takes one pair out of the row.\<close>

lemma fw_remove_row:
  assumes "bm_wf fw"
  shows "fw_remove_assertion oid a fw = (fw, False) \<or>
    (\<exists>a' og. assertion_eq a' a \<and> (a', og) \<in> set (fw_assertions_of fw oid) \<and>
       mset (fw_assertions_of (fst (fw_remove_assertion oid a fw)) oid) = mset (fw_assertions_of fw oid) - {#(a', og)#} \<and>
       (\<forall>o'. o' \<noteq> oid \<longrightarrow> fw_assertions_of (fst (fw_remove_assertion oid a fw)) o' = fw_assertions_of fw o'))"
proof (cases "position (\<lambda>(a', _). assertion_eq a' a) (fw_assertions_of fw oid)")
  case None
  then show ?thesis by (auto simp: fw_remove_assertion_def fw_assertions_of_def split: option.splits)
next
  case (Some i)
  let ?v = "fw_assertions_of fw oid"
  obtain a' og where x: "?v ! i = (a', og)" by fastforce
  have i: "i < length ?v" and eq: "assertion_eq a' a" using position_Some [OF Some] x by auto
  have "bm_get fw oid = Some ?v" using i by (cases "bm_get fw oid") (auto simp: fw_assertions_of_def)
  then have r: "fst (fw_remove_assertion oid a fw) = (if swap_remove i ?v = [] then bm_remove oid fw else bm_insert oid (swap_remove i ?v) fw)"
    using Some by (simp add: fw_remove_assertion_def Let_def)
  have "fw_assertions_of (fst (fw_remove_assertion oid a fw)) = (fw_assertions_of fw)(oid := swap_remove i ?v)"
    unfolding r using assms by (auto simp: fw_assertions_insert fw_assertions_delete)
  moreover have "(a', og) \<in> set ?v" using i x by (metis nth_mem)
  ultimately show ?thesis using eq swap_remove_mset [OF i] x by auto
qed

lemma held_remove_neq:
  assumes "bm_wf fw" and "\<And>a'. assertion_eq a' a \<Longrightarrow> a' \<noteq> ATag t"
  shows "t \<in> tags_held (fst (fw_remove_assertion oid a fw)) o' og \<longleftrightarrow> t \<in> tags_held fw o' og"
  using fw_remove_row [OF assms(1), of oid a]
proof
  assume "\<exists>a' og. assertion_eq a' a \<and> (a', og) \<in> set (fw_assertions_of fw oid) \<and>
    mset (fw_assertions_of (fst (fw_remove_assertion oid a fw)) oid) = mset (fw_assertions_of fw oid) - {#(a', og)#} \<and>
    (\<forall>o'. o' \<noteq> oid \<longrightarrow> fw_assertions_of (fst (fw_remove_assertion oid a fw)) o' = fw_assertions_of fw o')"
  then obtain a' og' where r: "assertion_eq a' a"
    "mset (fw_assertions_of (fst (fw_remove_assertion oid a fw)) oid) = mset (fw_assertions_of fw oid) - {#(a', og')#}"
    "\<And>o'. o' \<noteq> oid \<Longrightarrow> fw_assertions_of (fst (fw_remove_assertion oid a fw)) o' = fw_assertions_of fw o'" by blast
  have "(ATag t, og) \<in># mset (fw_assertions_of fw oid) - {#(a', og')#} \<longleftrightarrow> (ATag t, og) \<in># mset (fw_assertions_of fw oid)"
    using assms(2) [OF r(1)] by (simp add: in_diff_count)
  then show ?thesis unfolding tags_held_def by (cases "o' = oid") (simp_all add: r(2) [symmetric] r(3))
qed simp

lemma held_remove_other:
  assumes "bm_wf fw" and "\<And>t. a \<noteq> ATag t"
  shows "tags_held (fst (fw_remove_assertion oid a fw)) o' og = tags_held fw o' og"
proof -
  have "a' \<noteq> ATag t" if "assertion_eq a' a" for a' t using that assms(2) by (cases a; cases a') auto
  then show ?thesis using held_remove_neq [OF assms(1)] by blast
qed

context roaring
begin

lemma held_drop:
  assumes "tag_rep bset ix" and "unat oid < 2 ^ 32" and "q_rb en = rb"
  shows "tags_held (fst (drop_tag en oid t ix)) o' og = tags_held (fst ix) o' og - (if o' = oid then {t} else {})"
proof -
  obtain fw tags where ix: "ix = (fw, tags)" by fastforce
  have wf: "bm_wf fw" using assms(1) by (simp add: tag_rep_def ix)
  have f: "fst (drop_tag en oid t ix) = fst (fw_remove_assertion oid (ATag t) fw)" by (simp add: drop_tag_def ix split_beta Let_def)
  have same: "fw_facts (fst (drop_tag en oid t ix)) = fw_facts fw - {(oid, ATag t)}" "same_rest oid fw (fst (drop_tag en oid t ix))"
    using drop_tag_rep [OF assms, of t] by (simp_all add: ix)
  have other: "t' \<in> tags_held (fst (drop_tag en oid t ix)) o' og \<longleftrightarrow> t' \<in> tags_held fw o' og" if "t' \<noteq> t" for t' o'
    unfolding f using held_remove_neq [OF wf, of "ATag t" t'] that by auto
  have "t \<notin> tags_held (fst (drop_tag en oid t ix)) oid og" using same(1) held_fact [of oid t "fst (drop_tag en oid t ix)"] by auto
  moreover have "t \<in> tags_held (fst (drop_tag en oid t ix)) o' og \<longleftrightarrow> t \<in> tags_held fw o' og" if "o' \<noteq> oid"
    using fw_remove_row [OF wf, of oid "ATag t"] that unfolding f tags_held_def by force
  ultimately have "x \<in> tags_held (fst (drop_tag en oid t ix)) o' og \<longleftrightarrow> x \<in> tags_held fw o' og \<and> \<not> (o' = oid \<and> x = t)" for x
    using other [of x o'] by (cases "x = t"; cases "o' = oid") simp_all
  then show ?thesis unfolding set_eq_iff by (simp add: ix)
qed

lemma held_drops:
  assumes "tag_rep bset ix" and "unat oid < 2 ^ 32" and "q_rb en = rb"
  shows "tags_held (fst (fold (\<lambda>m ix. if m \<in> S then ix else drop_tag en oid m ix) ts ix)) o' og =
    tags_held (fst ix) o' og - (if o' = oid then set ts - S else {})"
  using assms(1)
proof (induction ts arbitrary: ix)
  case (Cons t ts)
  show ?case
  proof (cases "t \<in> S")
    case False
    have "tag_rep bset (drop_tag en oid t ix)" using drop_tag_rep [OF Cons.prems assms(2,3)] by blast
    from Cons.IH [OF this] show ?thesis using False held_drop [OF Cons.prems assms(2,3), of t] by auto
  qed (use Cons.IH [OF Cons.prems] in auto)
qed simp

lemma held_add_closure_tag:
  assumes "tag_rep bset ix"
  shows "tags_held (fst (add_closure_tag en oid tag t ix)) o' og = tags_held (fst ix) o' og \<union>
    (if o' = oid \<and> \<not> holds_tag (fst ix) oid t \<and> og = (if t = tag then Direct else Materialized) then {t} else {})"
  using assms by (auto simp: add_closure_tag_def tag_rep_def held_add split: prod.splits if_splits)

text \<open>After the loop every tag of the closure is held, new ones other than \<open>tag\<close> as materialized.\<close>

lemma held_add_closure:
  assumes "tag_rep bset ix" and "unat oid < 2 ^ 32" and "q_rb en = rb"
  shows "tags_held (fst ix) o' og \<subseteq> tags_held (fst (fold (add_closure_tag en oid tag) ts ix)) o' og"
    and "tags_held (fst (fold (add_closure_tag en oid tag) ts ix)) o' og \<subseteq> tags_held (fst ix) o' og \<union>
      (if o' = oid then (if og = Direct then {tag} \<inter> set ts else set ts - {tag}) else {})"
  using assms(1)
proof (induction ts arbitrary: ix)
  case (Cons t ts)
  {
    case 1
    have "tag_rep bset (add_closure_tag en oid tag t ix)" using add_closure_tag_rep [OF 1 assms(2,3)] by blast
    from Cons.IH(1) [OF this] show ?case using held_add_closure_tag [OF 1, of en oid tag t o' og] by auto
  next
    case 2
    have "tag_rep bset (add_closure_tag en oid tag t ix)" using add_closure_tag_rep [OF 2 assms(2,3)] by blast
    from Cons.IH(2) [OF this] show ?case
      using held_add_closure_tag [OF 2, of en oid tag t o' og] by (auto split: if_splits)
  }
qed auto

end

section \<open>Soundness of the implied tags\<close>

lemma onto_closure_mono: "set ts \<subseteq> set us \<Longrightarrow> onto_closure ops st ts \<subseteq> onto_closure ops st us"
  by (auto simp: onto_closure_def)

lemma onto_closure_trans: "t \<in> onto_closure ops st us \<Longrightarrow> onto_closure ops st [t] \<subseteq> onto_closure ops st us"
  by (auto simp: onto_closure_def intro: rtrancl_trans)

lemma onto_closure_self: "t \<in> dom (tag_of st) \<Longrightarrow> t \<in> set us \<Longrightarrow> t \<in> onto_closure ops st us"
  by (auto simp: onto_closure_def)

lemma onto_closure_Union: "(\<Union>t\<in>set ts. onto_closure ops st [t]) = onto_closure ops st ts"
  by (auto simp: onto_closure_def)

lemma onto_closure_grows:
  "onto_rel ops st \<subseteq> onto_rel ops st' \<Longrightarrow> dom (tag_of st) \<subseteq> dom (tag_of st') \<Longrightarrow> onto_closure ops st ts \<subseteq> onto_closure ops st' ts"
  unfolding onto_closure_def by (intro Image_mono rtrancl_mono) auto

definition tag_sound :: "('b, 'g) qenv \<Rightarrow> ('b, 'g) engine \<Rightarrow> bool" where
  "tag_sound en e \<longleftrightarrow> (\<forall>oid. tags_held (e_forward e) oid Direct \<subseteq> dom (tag_of (e_ontology e)) \<and>
     tags_held (e_forward e) oid Materialized \<subseteq> onto_closure (q_graph en) (e_ontology e) (fw_direct_tags (e_forward e) oid))"

lemma tag_soundD:
  assumes "tag_sound en e"
  shows "t \<in> tags_held (e_forward e) oid Direct \<Longrightarrow> t \<in> dom (tag_of (e_ontology e))"
    and "t \<in> tags_held (e_forward e) oid Materialized \<Longrightarrow> t \<in> onto_closure (q_graph en) (e_ontology e) (fw_direct_tags (e_forward e) oid)"
  using assms by (auto simp: tag_sound_def)

text \<open>A row whose direct tags stay and whose materialized tags are kept or implied.\<close>

lemma tag_sound_subset:
  assumes "tag_sound en e" and "e_ontology e' = e_ontology e"
    and "\<And>oid. tags_held (e_forward e') oid Direct = tags_held (e_forward e) oid Direct \<and>
        tags_held (e_forward e') oid Materialized \<subseteq> tags_held (e_forward e) oid Materialized \<or>
      tags_held (e_forward e') oid Direct = {} \<and> tags_held (e_forward e') oid Materialized = {}"
  shows "tag_sound en e'"
  unfolding tag_sound_def
proof (intro allI conjI)
  fix oid
  note D = tag_soundD [OF assms(1), of _ oid] and S = assms(3) [of oid]
  show "tags_held (e_forward e') oid Direct \<subseteq> dom (tag_of (e_ontology e'))" using D(1) S assms(2) by auto
  have "onto_closure (q_graph en) (e_ontology e) (fw_direct_tags (e_forward e) oid) \<subseteq>
      onto_closure (q_graph en) (e_ontology e) (fw_direct_tags (e_forward e') oid) \<or> tags_held (e_forward e') oid Materialized = {}"
    using S onto_closure_mono [of "fw_direct_tags (e_forward e) oid" "fw_direct_tags (e_forward e') oid"] by (auto simp: direct_tags_held)
  then show "tags_held (e_forward e') oid Materialized \<subseteq> onto_closure (q_graph en) (e_ontology e') (fw_direct_tags (e_forward e') oid)"
    using D(2) S assms(2) by auto
qed

lemma tag_sound_grows:
  assumes "tag_sound en e" and "e_forward e' = e_forward e" and "onto_rel (q_graph en) (e_ontology e) \<subseteq> onto_rel (q_graph en) (e_ontology e')"
    and "dom (tag_of (e_ontology e)) \<subseteq> dom (tag_of (e_ontology e'))"
  shows "tag_sound en e'"
  using tag_soundD [OF assms(1)] onto_closure_grows [OF assms(3,4)] assms(2,4) unfolding tag_sound_def by fastforce

context query_libs
begin

lemma add_tag_sound:
  assumes inv: "engine_ok bset en gwf strict e" and sd: "tag_sound en e" and op: "engine_add_tag en sys oid t e = ok e'"
  shows "tag_sound en e'"
proof -
  note I = engine_okD [OF inv]
  have has: "has_object oid e" using op by (auto simp: engine_add_tag_def split: if_splits)
  obtain cl where cl: "state_materialise (q_graph en) (e_ontology e) [t] = Some cl" "set cl = onto_closure (q_graph en) (e_ontology e) [t]"
    using state_materialise_spec [OF I(3)] by blast
  let ?ix = "fold (add_closure_tag en oid t) cl (e_forward e, e_tags e)"
  have fw: "e_forward e' = fst ?ix" and on: "e_ontology e' = e_ontology e"
    using op has cl(1) by (auto simp: engine_add_tag_def engine_aux add_tag_indexes_def await_def)
  note H = held_add_closure [OF I(4) I(2) [OF has] refl, where tag = t and ts = cl, folded fw, unfolded fst_conv]
  have reg: "t \<in> dom (tag_of (e_ontology e))" if "x \<in> set cl" for x
    using that unfolding cl(2) onto_closure_def by auto
  show ?thesis
    unfolding tag_sound_def on
  proof (intro allI conjI subsetI)
    fix o' x assume "x \<in> tags_held (e_forward e') o' Direct"
    then have "x \<in> tags_held (e_forward e) o' Direct \<or> x = t \<and> t \<in> set cl" using H(2) [of o' Direct] by (auto split: if_splits)
    then show "x \<in> dom (tag_of (e_ontology e))" using tag_soundD(1) [OF sd] reg by blast
  next
    fix o' x assume x: "x \<in> tags_held (e_forward e') o' Materialized"
    let ?cl = "onto_closure (q_graph en) (e_ontology e)"
    have sub: "?cl (fw_direct_tags (e_forward e) o') \<subseteq> ?cl (fw_direct_tags (e_forward e') o')"
      using H(1) [of o' Direct] by (intro onto_closure_mono) (simp add: direct_tags_held)
    have old: "x \<in> ?cl (fw_direct_tags (e_forward e') o')" if "x \<in> tags_held (e_forward e) o' Materialized" for x
      using tag_soundD(2) [OF sd that] sub by blast
    consider "x \<in> tags_held (e_forward e) o' Materialized" | "o' = oid" "x \<in> set cl" using x H(2) [of o' Materialized] by (auto split: if_splits)
    then show "x \<in> ?cl (fw_direct_tags (e_forward e') o')"
    proof cases
      case 2
      have td: "t \<in> dom (tag_of (e_ontology e))" using reg 2(2) .
      then have "t \<in> ?cl [t]" by (rule onto_closure_self) simp
      then have "(oid, ATag t) \<in> fw_facts (e_forward e')" using add_tag_facts(1) [OF inv op] by blast
      then obtain og where og: "t \<in> tags_held (e_forward e') oid og" using held_fact by blast
      have "t \<in> ?cl (fw_direct_tags (e_forward e') oid)"
      proof (cases og)
        case Direct
        then show ?thesis using og td by (intro onto_closure_self) (simp_all add: direct_tags_held)
      next
        case Materialized
        then have "t \<in> tags_held (e_forward e) oid Materialized" using og H(2) [of oid Materialized] by auto
        then show ?thesis using old 2(1) by blast
      qed
      then show ?thesis using onto_closure_trans 2 cl(2) by blast
    qed (rule old)
  qed
qed

lemma remove_tag_held:
  assumes inv: "engine_ok bset en gwf strict e" and sd: "tag_sound en e" and op: "engine_remove_tag en sys oid t e = ok e'"
  defines "S \<equiv> onto_closure (q_graph en) (e_ontology e) (filter (\<lambda>u. u \<noteq> t) (fw_direct_tags (e_forward e) oid))"
  shows "e_ontology e' = e_ontology e"
    and "tags_held (e_forward e') o' Direct = tags_held (e_forward e) o' Direct - (if o' = oid then {t} else {})"
    and "tags_held (e_forward e') o' Materialized = (if o' \<noteq> oid then tags_held (e_forward e) o' Materialized
      else if t \<in> tags_held (e_forward e) oid Direct then (tags_held (e_forward e) oid Materialized - {t}) \<inter> S
      else tags_held (e_forward e) oid Materialized - {t})"
proof -
  note I = engine_okD [OF inv]
  have has: "has_object oid e" using op by (auto simp: engine_remove_tag_def split: if_splits)
  let ?ix = "drop_tag en oid t (e_forward e, e_tags e)"
  note d = held_drop [OF I(4) I(2) [OF has] refl, of t, unfolded fst_conv]
  have dir: "set (fw_direct_tags (fst ?ix) oid) = set (filter (\<lambda>u. u \<noteq> t) (fw_direct_tags (e_forward e) oid))"
    unfolding set_filter direct_tags_held d by auto
  have S: "onto_closure (q_graph en) (e_ontology e) (fw_direct_tags (fst ?ix) oid) = S"
    unfolding S_def onto_closure_def dir ..
  have fw: "e_forward e' = (if t \<in> tags_held (e_forward e) oid Direct
      then fst (fold (\<lambda>m ix. if m \<in> S then ix else drop_tag en oid m ix) (fw_materialized_tags (fst ?ix) oid) ?ix) else fst ?ix)"
    and on: "e_ontology e' = e_ontology e"
    using op has implied_by_ok [OF I(3), where 'e = engine_error, of "fw_direct_tags (fst ?ix) oid" "{}"]
    by (auto simp: engine_remove_tag_def remove_tag_indexes_def engine_aux tags_held_def onto_closure_Union S split: if_splits)
  have rep: "tag_rep bset ?ix" using drop_tag_rep [OF I(4) I(2) [OF has] refl] by blast
  note ds = held_drops [OF rep I(2) [OF has] refl, of S "fw_materialized_tags (fst ?ix) oid"]
  have "x \<in> S" if "x \<in> tags_held (e_forward e) oid Direct" "x \<noteq> t" for x
    unfolding S_def using that tag_soundD(1) [OF sd] by (intro onto_closure_self) (auto simp: direct_tags_held)
  then show "tags_held (e_forward e') o' Direct = tags_held (e_forward e) o' Direct - (if o' = oid then {t} else {})"
    unfolding fw using ds [of o' Direct] d [of o' Direct] by auto
  show "tags_held (e_forward e') o' Materialized = (if o' \<noteq> oid then tags_held (e_forward e) o' Materialized
      else if t \<in> tags_held (e_forward e) oid Direct then (tags_held (e_forward e) oid Materialized - {t}) \<inter> S
      else tags_held (e_forward e) oid Materialized - {t})"
    by (cases "o' = oid"; cases "t \<in> tags_held (e_forward e) oid Direct") (auto simp: fw ds d materialized_tags_held)
  show "e_ontology e' = e_ontology e" by (rule on)
qed

lemma remove_tag_sound:
  assumes inv: "engine_ok bset en gwf strict e" and sd: "tag_sound en e" and op: "engine_remove_tag en sys oid t e = ok e'"
  shows "tag_sound en e'"
proof -
  note H = remove_tag_held [OF assms]
  let ?cl = "onto_closure (q_graph en) (e_ontology e)"
  show ?thesis
  proof (cases "t \<in> tags_held (e_forward e) oid Direct")
    case True
    have cl: "?cl (fw_direct_tags (e_forward e') o') =
        (if o' = oid then ?cl (filter (\<lambda>u. u \<noteq> t) (fw_direct_tags (e_forward e) oid)) else ?cl (fw_direct_tags (e_forward e) o'))" for o'
    proof -
      have "set (fw_direct_tags (e_forward e') o') = (if o' = oid then set (filter (\<lambda>u. u \<noteq> t) (fw_direct_tags (e_forward e) oid))
          else set (fw_direct_tags (e_forward e) o'))"
        unfolding set_filter direct_tags_held H(2) by auto
      then show ?thesis by (simp add: onto_closure_def)
    qed
    show ?thesis
      unfolding tag_sound_def H(1) cl
    proof (intro allI conjI)
      fix o'
      show "tags_held (e_forward e') o' Direct \<subseteq> dom (tag_of (e_ontology e))" using tag_soundD(1) [OF sd] H(2) [of o'] by auto
      show "tags_held (e_forward e') o' Materialized \<subseteq> (if o' = oid then ?cl (filter (\<lambda>u. u \<noteq> t) (fw_direct_tags (e_forward e) oid))
          else ?cl (fw_direct_tags (e_forward e) o'))"
        using tag_soundD(2) [OF sd] H(3) [of o'] True by auto
    qed
  next
    case False
    then show ?thesis using H by (intro tag_sound_subset [OF sd H(1)]) auto
  qed
qed

lemma install_grows:
  assumes "engine_ok bset en gwf strict e" and "install_ontology_module en m e = ok (res, e')"
  shows "onto_rel (q_graph en) (e_ontology e) \<subseteq> onto_rel (q_graph en) (e_ontology e')"
    and "dom (tag_of (e_ontology e)) \<subseteq> dom (tag_of (e_ontology e'))" and "e_forward e' = e_forward e"
proof -
  note I = engine_okD [OF assms(1)]
  obtain n r al where n: "(next_free_tag_id e :: (engine_error, u32) res) = ok n"
    and i: "install (q_graph en) (e_ontology e) m (starting_at n) = (ok r, e_ontology e', al)" and "e_forward e' = e_forward e"
    using assms(2) by (cases "install (q_graph en) (e_ontology e) m (starting_at (projr (next_free_tag_id e :: (engine_error, u32) res)))")
      (auto simp: install_ontology_module_def res_simps)
  then show "e_forward e' = e_forward e" by simp
  have "alloc_ok (e_ontology e) (starting_at n)"
    using next_free_fresh [OF I(3) n] by (auto simp: alloc_ok_def starting_at_def less_max_iff_disj)
  note J = install_inv(1,2) [OF I(3) this i]
  have "installed (q_graph en) (e_ontology e) m r (e_ontology e')" using J(2) by simp
  then have names: "name_of (e_ontology e) \<subseteq>\<^sub>m name_of (e_ontology e')"
    and "onto_rel (q_graph en) (e_ontology e) \<subseteq> onto_rel (q_graph en) (e_ontology e')" by (simp_all add: installed_def)
  then show "onto_rel (q_graph en) (e_ontology e) \<subseteq> onto_rel (q_graph en) (e_ontology e')" by simp
  have ok: "names_ok (os_names (e_ontology e)) (os_tags (e_ontology e))" "names_ok (os_names (e_ontology e')) (os_tags (e_ontology e'))"
    using I(3) J(1) by (simp_all add: onto_inv_def)
  show "dom (tag_of (e_ontology e)) \<subseteq> dom (tag_of (e_ontology e'))"
  proof
    fix i assume "i \<in> dom (tag_of (e_ontology e))"
    then obtain n where "name_of (e_ontology e) n = Some i" using ok(1) unfolding names_ok_def by blast
    then have "name_of (e_ontology e') n = Some i" using names by (metis domI map_le_def)
    then show "i \<in> dom (tag_of (e_ontology e'))" using ok(2) unfolding names_ok_def by blast
  qed
qed

lemma register_grows:
  assumes "engine_ok bset en gwf strict e"
    and "(engine_register_tag en name e :: (engine_error, tag_id \<times> ('b, 'g) engine) res) = ok (t, e')"
  shows "onto_rel (q_graph en) (e_ontology e) \<subseteq> onto_rel (q_graph en) (e_ontology e')"
    and "dom (tag_of (e_ontology e)) \<subseteq> dom (tag_of (e_ontology e'))" and "e_forward e' = e_forward e"
proof -
  note I = engine_okD [OF assms(1)]
  let ?d = "\<lparr>td_id = t, td_name = name, td_semantics = Label, td_implies = [], td_storage = None\<rparr>"
  show "e_forward e' = e_forward e"
    using assms(2) by (auto simp: engine_register_tag_def Let_def res_simps split: option.splits)
  have "onto_rel (q_graph en) (e_ontology e) \<subseteq> onto_rel (q_graph en) (e_ontology e') \<and> dom (tag_of (e_ontology e)) \<subseteq> dom (tag_of (e_ontology e'))"
  proof (cases "resolve_tag_name name e")
    case None
    then have n: "(next_free_tag_id e :: (engine_error, u32) res) = ok t" and st: "e_ontology e' = register_tag (q_graph en) (e_ontology e) t ?d"
      using assms(2) by (auto simp: engine_register_tag_def register_tag_def res_simps Let_def)
    have "tag_of (e_ontology e) t = None" using next_free_fresh [OF I(3) n, of t] by blast
    then show ?thesis
      using None register_tag_inv(2,4) [OF I(3), of ?d t] unfolding st by (auto simp: resolve_tag_name_def)
  qed (use assms(2) in \<open>simp add: engine_register_tag_def\<close>)
  then show "onto_rel (q_graph en) (e_ontology e) \<subseteq> onto_rel (q_graph en) (e_ontology e')"
    "dom (tag_of (e_ontology e)) \<subseteq> dom (tag_of (e_ontology e'))" by blast+
qed

lemma remove_attr_held:
  assumes "bm_wf (e_forward e)" and "remove_attr en sys oid k h e = ok e'"
  shows "tags_held (e_forward e') o' og = tags_held (e_forward e) o' og" and "e_ontology e' = e_ontology e"
proof -
  obtain b e2 where e2: "(remove_attr_indexes en oid k h (snd (engine_now sys e)) :: (engine_error, bool \<times> ('b, 'g) engine) res) = ok (b, e2)"
      and e': "e_forward e' = e_forward e2" "e_ontology e' = e_ontology e2"
    using assms(2) by (auto simp: remove_attr_def engine_aux res_simps split: if_splits)
  have "(e_forward e2 = e_forward e \<or> (\<exists>v. e_forward e2 = fst (fw_remove_assertion oid (AAttr k v) (e_forward e)))) \<and> e_ontology e2 = e_ontology e"
    using e2 by (auto simp: remove_attr_indexes_def engine_aux res_simps split: option.splits) blast
  then show "tags_held (e_forward e') o' og = tags_held (e_forward e) o' og" "e_ontology e' = e_ontology e"
    using e' held_remove_other [OF assms(1)] by (elim conjE disjE exE; simp)+
qed

lemma delete_held:
  assumes "bm_wf (e_forward e)" and "delete_object en sys oid e = ok e'"
  shows "tags_held (e_forward e') o' og = (if o' = oid then {} else tags_held (e_forward e) o' og)" and "e_ontology e' = e_ontology e"
  using assms by (auto simp: delete_object_def engine_aux res_simps tags_held_def fw_remove_object_def fw_assertions_delete split: if_splits)

lemma engine_reach_sound: "engine_reach tf en strict e \<Longrightarrow> tag_sound en e"
proof (induction rule: engine_reach.induct)
  case er_start
  then show ?case by (simp add: tag_sound_def engine_new_def tags_held_def fw_assertions_of_def)
next
  case (er_create e sys oid e')
  then show ?case by (auto intro!: tag_sound_subset [OF er_create.IH] simp: create_object_def engine_aux)
next
  case (er_delete e sys oid e')
  then show ?case
    using delete_held [OF engine_okD(6) [OF engine_reach_ok [OF er_delete.hyps(1)]] er_delete.hyps(2)]
    by (intro tag_sound_subset [OF er_delete.IH]) simp_all
next
  case (er_add_tag e sys oid t e')
  then show ?case using add_tag_sound engine_reach_ok by blast
next
  case (er_remove_tag e sys oid t e')
  then show ?case using remove_tag_sound engine_reach_ok by blast
next
  case (er_set_attr e oid k v sys e')
  note wf = engine_okD(6) [OF engine_reach_ok [OF er_set_attr.hyps(1)]]
  have "e_forward e' = fw_add_assertion oid (AAttr k v) Direct (e_forward e) \<and> e_ontology e' = e_ontology e"
    using er_set_attr.hyps(3) by (auto simp: set_attr_def set_attr_indexes_def engine_aux res_simps split: if_splits)
  then show ?case by (intro tag_sound_subset [OF er_set_attr.IH]) (simp_all add: held_add [OF wf])
next
  case (er_remove_attr e sys oid k h e')
  note wf = engine_okD(6) [OF engine_reach_ok [OF er_remove_attr.hyps(1)]]
  show ?case using remove_attr_held [OF wf er_remove_attr.hyps(2)] by (intro tag_sound_subset [OF er_remove_attr.IH]) simp_all
next
  case (er_add_relation e sys oid p t e')
  note wf = engine_okD(6) [OF engine_reach_ok [OF er_add_relation.hyps(1)]]
  have "e_forward e' = fw_add_assertion oid (ARelation p t) Direct (e_forward e) \<and> e_ontology e' = e_ontology e"
    using er_add_relation.hyps(2) by (auto simp: add_relation_def engine_aux split: if_splits)
  then show ?case by (intro tag_sound_subset [OF er_add_relation.IH]) (simp_all add: held_add [OF wf])
next
  case (er_remove_relation e sys oid p t e')
  note wf = engine_okD(6) [OF engine_reach_ok [OF er_remove_relation.hyps(1)]]
  have "e_forward e' = fst (fw_remove_assertion oid (ARelation p t) (e_forward e)) \<and> e_ontology e' = e_ontology e"
    using er_remove_relation.hyps(2) by (auto simp: remove_relation_def engine_aux split: if_splits)
  then show ?case by (intro tag_sound_subset [OF er_remove_relation.IH]) (simp_all add: held_remove_other [OF wf])
next
  case (er_write_blob e sys oid bs r e')
  then show ?case by (auto intro!: tag_sound_subset [OF er_write_blob.IH] simp: write_blob_def engine_aux res_simps split: if_splits)
next
  case (er_transform e p)
  then show ?case by (auto intro!: tag_sound_subset [OF er_transform.IH] simp: set_transform_def)
next
  case (er_subscribe e name q i ret sid e')
  then show ?case by (auto intro!: tag_sound_subset [OF er_subscribe.IH] simp: subscribe_def res_simps split_beta Let_def)
next
  case (er_install e m res e')
  then show ?case using tag_sound_grows [OF er_install.IH] install_grows [OF engine_reach_ok [OF er_install.hyps(1)] er_install.hyps(2)] by blast
next
  case (er_register e name t e')
  then show ?case using tag_sound_grows [OF er_register.IH] register_grows [OF engine_reach_ok [OF er_register.hyps(1)] er_register.hyps(2)] by blast
qed

end

section \<open>Properties\<close>

text \<open>C15. No tag without a reason: in every reachable engine, each tag an object holds is implied by a tag it was given
  directly, whatever was tagged, untagged, installed and registered in between.\<close>

theorem held_tags_implied:
  assumes "query_libs en bset gwf" and "engine_reach tf en strict e" and "(oid, ATag t) \<in> fw_facts (e_forward e)"
  shows "t \<in> onto_closure (q_graph en) (e_ontology e) (fw_direct_tags (e_forward e) oid)"
proof -
  note S = tag_soundD [OF query_libs.engine_reach_sound [OF assms(1,2)]]
  obtain og where og: "t \<in> tags_held (e_forward e) oid og" using assms(3) held_fact by blast
  show ?thesis
  proof (cases og)
    case Direct
    then show ?thesis using og S(1) by (intro onto_closure_self) (auto simp: direct_tags_held)
  next
    case Materialized
    then show ?thesis using og S(2) by blast
  qed
qed

theorem held_tags_implied_witness:
  "\<exists>e. engine_reach wit_tf wit_qenv True e \<and> (1, ATag 1) \<in> fw_facts (e_forward e) \<and>
     1 \<in> onto_closure lg_ops (e_ontology e) (fw_direct_tags (e_forward e) 1)"
proof -
  obtain e where e: "engine_reach wit_tf wit_qenv True e" "fw_facts (e_forward e) = {(1, ATag 1), (1, AAttr 2 (VInt 3))}"
    using wit_engine by metis
  then show ?thesis using held_tags_implied [OF wlq.query_libs_axioms e(1), of 1 1] by (auto simp: wit_qenv_def)
qed



end
