(* ===== verification/Mb_Disk_Engine.thy ===== *)
theory Mb_Disk_Engine
  imports Mb_Engine Mb_Superblock Mb_Wal_Ring
begin

text \<open>
  The persistent engine (\<open>crates/engine/src/disk_engine.rs\<close>): the mutations, which apply to the engine in memory
  and then append to the log, the replay of the log, the layout of the index zone, the root pointer slots and
  the index blob with the scalars.

  The pool is not modelled, so neither are \<open>create\<close> and \<open>open\<close> as a whole; of \<open>commit\<close> the first step, which
  writes the images of all indexes, is left out. A mutation returns its result and the state, because an error of the
  log leaves the engine in memory changed. A mutation reads the wall clock twice, for the engine and for the log entry.
\<close>

section \<open>Layout of the index zone\<close>

definition CHUNK_INDEX_REGION_OFFSET :: u64 where "CHUNK_INDEX_REGION_OFFSET = 0"
definition KV_INDEX_REGION_OFFSET :: u64 where "KV_INDEX_REGION_OFFSET = 256 * 1024"
definition FORWARD_INDEX_REGION_OFFSET :: u64 where "FORWARD_INDEX_REGION_OFFSET = 512 * 1024"
definition TAG_INDEX_REGION_OFFSET :: u64 where "TAG_INDEX_REGION_OFFSET = 768 * 1024"
definition RANGE_INDEX_REGION_OFFSET :: u64 where "RANGE_INDEX_REGION_OFFSET = 1024 * 1024"
definition OBJECT_TABLE_REGION_OFFSET :: u64 where "OBJECT_TABLE_REGION_OFFSET = 1280 * 1024"
definition LOCATION_TABLE_REGION_OFFSET :: u64 where "LOCATION_TABLE_REGION_OFFSET = 1536 * 1024"
definition ONTOLOGY_REGION_OFFSET :: u64 where "ONTOLOGY_REGION_OFFSET = 1792 * 1024"
definition SUBSCRIPTIONS_REGION_OFFSET :: u64 where "SUBSCRIPTIONS_REGION_OFFSET = 2048 * 1024"
definition BACKPOINTER_TABLE_REGION_OFFSET :: u64 where "BACKPOINTER_TABLE_REGION_OFFSET = 2304 * 1024"
definition BUCKET_ALLOC_REGION_OFFSET :: u64 where "BUCKET_ALLOC_REGION_OFFSET = 2560 * 1024"
definition FREESPACE_LRU_REGION_OFFSET :: u64 where "FREESPACE_LRU_REGION_OFFSET = 2816 * 1024"
definition LEGACY_CBOR_BLOB_OFFSET :: u64 where "LEGACY_CBOR_BLOB_OFFSET = 3072 * 1024"
definition TAG_BITMAP_AREA_OFFSET :: u64 where "TAG_BITMAP_AREA_OFFSET = 4 * 1024 * 1024"
definition TAG_BITMAP_AREA_PAGES :: nat where "TAG_BITMAP_AREA_PAGES = 1024"
definition FORWARD_OVERFLOW_AREA_OFFSET :: u64 where "FORWARD_OVERFLOW_AREA_OFFSET = 8 * 1024 * 1024"
definition FORWARD_OVERFLOW_AREA_REGIONS :: nat where "FORWARD_OVERFLOW_AREA_REGIONS = 32"
definition REGION_SIZE :: u64 where "REGION_SIZE = 256 * 1024"

lemmas zone_layout = CHUNK_INDEX_REGION_OFFSET_def KV_INDEX_REGION_OFFSET_def FORWARD_INDEX_REGION_OFFSET_def
  TAG_INDEX_REGION_OFFSET_def RANGE_INDEX_REGION_OFFSET_def OBJECT_TABLE_REGION_OFFSET_def LOCATION_TABLE_REGION_OFFSET_def
  ONTOLOGY_REGION_OFFSET_def SUBSCRIPTIONS_REGION_OFFSET_def BACKPOINTER_TABLE_REGION_OFFSET_def BUCKET_ALLOC_REGION_OFFSET_def
  FREESPACE_LRU_REGION_OFFSET_def LEGACY_CBOR_BLOB_OFFSET_def TAG_BITMAP_AREA_OFFSET_def TAG_BITMAP_AREA_PAGES_def
  FORWARD_OVERFLOW_AREA_OFFSET_def FORWARD_OVERFLOW_AREA_REGIONS_def REGION_SIZE_def

definition root_slot_offset :: "block_ref \<Rightarrow> u64" where
  "root_slot_offset b = br_block_no b * BLOCK_SIZE"

text \<open>The block number is cut to 32 bits.\<close>

definition root_ref_for :: "u16 \<Rightarrow> u64 \<Rightarrow> u64 \<Rightarrow> ('e, block_ref) res" where
  "root_ref_for disk_id zone_offset tree_offset =
     rbind (add_u64 zone_offset tree_offset) (\<lambda>absolute.
     ok (block_ref_new disk_id (absolute div BLOCK_SIZE mod 2 ^ 32) 1))"

definition seed_root_pointer :: "root_pointer \<Rightarrow> u16 \<Rightarrow> u64 \<Rightarrow> ('e, root_pointer) res" where
  "seed_root_pointer root disk_id zone_offset =
     rbind (root_ref_for disk_id zone_offset CHUNK_INDEX_REGION_OFFSET) (\<lambda>chunk.
     rbind (root_ref_for disk_id zone_offset KV_INDEX_REGION_OFFSET) (\<lambda>kv.
     rbind (root_ref_for disk_id zone_offset FORWARD_INDEX_REGION_OFFSET) (\<lambda>fwd.
     rbind (root_ref_for disk_id zone_offset TAG_INDEX_REGION_OFFSET) (\<lambda>tag.
     rbind (root_ref_for disk_id zone_offset RANGE_INDEX_REGION_OFFSET) (\<lambda>rng.
     rbind (root_ref_for disk_id zone_offset OBJECT_TABLE_REGION_OFFSET) (\<lambda>obj.
     rbind (root_ref_for disk_id zone_offset LOCATION_TABLE_REGION_OFFSET) (\<lambda>loc.
     rbind (root_ref_for disk_id zone_offset ONTOLOGY_REGION_OFFSET) (\<lambda>onto.
     rbind (root_ref_for disk_id zone_offset SUBSCRIPTIONS_REGION_OFFSET) (\<lambda>subs.
     rbind (root_ref_for disk_id zone_offset BACKPOINTER_TABLE_REGION_OFFSET) (\<lambda>bp.
     ok (root\<lparr>rp_chunk_index_root := chunk, rp_kv_index_root := kv, rp_forward_index_root := fwd, rp_tag_index_root := tag,
              rp_range_index_root := rng, rp_object_table_root := obj, rp_location_table_root := loc,
              rp_ontology_root := onto, rp_subscriptions_root := subs, rp_backpointer_root := bp\<rparr>)))))))))))"

definition is_zero_ref :: "block_ref \<Rightarrow> bool" where
  "is_zero_ref b \<longleftrightarrow> br_block_no b = 0 \<and> br_generation b = 0"

section \<open>DiskEngine\<close>

text \<open>The fields of the pool and of its configuration are left out.\<close>

record ('b, 'g, 'd) disk_engine =
  de_engine :: "('b, 'g) engine"
  de_blobs :: "(u64, byte list) btree_map"
  de_dev :: 'd
  de_superblock :: superblock
  de_wal :: wal
  de_read_only :: bool

record 'd disk_env =
  denv_dev :: "'d block_device"
  denv_crc :: "byte list \<Rightarrow> u32"
  denv_wal :: wal_codec_ops

definition append_wal ::
  "'d disk_env \<Rightarrow> nat option \<Rightarrow> op_kind \<Rightarrow> ('b, 'g, 'd) disk_engine \<Rightarrow> (engine_error, u64) res \<times> ('b, 'g, 'd) disk_engine" where
  "append_wal dn sys op de =
     (case map_err EngWal (wal_op_encode (denv_wal dn) (project_op op)) of
        Inl f \<Rightarrow> (Inl f, de)
      | Inr (kind, payload) \<Rightarrow>
          let (ts, e) = engine_now sys (de_engine de);
              de1 = de\<lparr>de_engine := e\<rparr>
          in case map_err EngWal (append_raw (denv_dev dn) (denv_crc dn) (de_wal de1) (de_dev de1) kind payload ts 0) of
               Inl f \<Rightarrow> (Inl f, de1)
             | Inr (lsn, w, d) \<Rightarrow> (ok lsn, de1\<lparr>de_wal := w, de_dev := d\<rparr>))"

text \<open>The common tail of the mutations: the engine has changed to \<open>e'\<close>, the operation is logged, \<open>x\<close> is returned.\<close>

definition log_and_return ::
  "'d disk_env \<Rightarrow> nat option \<Rightarrow> op_kind \<Rightarrow> 'a \<Rightarrow> ('b, 'g) engine \<Rightarrow> ('b, 'g, 'd) disk_engine
    \<Rightarrow> (engine_error, 'a) res \<times> ('b, 'g, 'd) disk_engine" where
  "log_and_return dn sys op x e' de =
     (let (r, de') = append_wal dn sys op (de\<lparr>de_engine := e'\<rparr>) in (rbind r (\<lambda>_. ok x), de'))"

text \<open>The common head: refuse in read-only mode, apply the operation to the engine, keep the state when it fails.\<close>

definition mutate ::
  "'d disk_env \<Rightarrow> nat option \<Rightarrow> op_kind \<Rightarrow> (('b, 'g) engine \<Rightarrow> (engine_error, ('b, 'g) engine) res)
    \<Rightarrow> ('b, 'g, 'd) disk_engine \<Rightarrow> (engine_error, unit) res \<times> ('b, 'g, 'd) disk_engine" where
  "mutate dn sys op f de =
     (if de_read_only de then (err EngReadOnly, de)
      else case f (de_engine de) of
             Inl e \<Rightarrow> (Inl e, de)
           | Inr e' \<Rightarrow> log_and_return dn sys op () e' de)"

definition disk_create_object ::
  "'d disk_env \<Rightarrow> nat option \<Rightarrow> nat option \<Rightarrow> ('b, 'g, 'd) disk_engine \<Rightarrow> (engine_error, object_id) res \<times> ('b, 'g, 'd) disk_engine" where
  "disk_create_object dn sys sys' de =
     (if de_read_only de then (err EngReadOnly, de)
      else let (oid, e') = create_object sys (de_engine de) in log_and_return dn sys' (KCreateObject oid) oid e' de)"

definition disk_delete_object where
  "disk_delete_object dn en sys sys' oid de = mutate dn sys' (KDeleteObject oid) (delete_object en sys oid) de"

definition disk_add_tag where
  "disk_add_tag dn en sys sys' oid tag de = mutate dn sys' (KAddTag oid tag) (engine_add_tag en sys oid tag) de"

definition disk_remove_tag where
  "disk_remove_tag dn en sys sys' oid tag de = mutate dn sys' (KRemoveTag oid tag) (engine_remove_tag en sys oid tag) de"

definition disk_set_attr where
  "disk_set_attr dn en sys sys' oid key v de = mutate dn sys' (KSetAttr oid key v) (set_attr en sys oid key v) de"

definition disk_remove_attr where
  "disk_remove_attr dn en sys sys' oid key h de = mutate dn sys' (KRemoveAttr oid key h) (remove_attr en sys oid key h) de"

definition disk_add_relation where
  "disk_add_relation dn sys sys' oid p target de = mutate dn sys' (KAddRelation oid p target) (add_relation sys oid p target) de"

definition disk_remove_relation where
  "disk_remove_relation dn sys sys' oid p target de =
     mutate dn sys' (KRemoveRelation oid p target) (remove_relation sys oid p target) de"

definition disk_write_blob ::
  "'d disk_env \<Rightarrow> tf_ops \<Rightarrow> ('b, 'g) qenv \<Rightarrow> nat option \<Rightarrow> nat option \<Rightarrow> object_id \<Rightarrow> byte list \<Rightarrow> ('b, 'g, 'd) disk_engine
    \<Rightarrow> (engine_error, blob_write_result) res \<times> ('b, 'g, 'd) disk_engine" where
  "disk_write_blob dn tf en sys sys' oid plaintext de =
     (if de_read_only de then (err EngReadOnly, de)
      else case write_blob tf en sys oid plaintext (de_engine de) of
             Inl f \<Rightarrow> (Inl f, de)
           | Inr (res, e') \<Rightarrow>
               log_and_return dn sys' (KWriteBlob oid (bwr_content_hash res) (bwr_original_size res)) res e'
                 (de\<lparr>de_blobs := bm_insert (unat (oid_local_seq oid)) (bwr_data res) (de_blobs de)\<rparr>))"

definition disk_read_blob :: "object_id \<Rightarrow> ('b, 'g, 'd) disk_engine \<Rightarrow> byte list option" where
  "disk_read_blob oid de = bm_get (de_blobs de) (unat (oid_local_seq oid))"

definition disk_subscribe where
  "disk_subscribe en name q interest ret de =
     (if de_read_only de then err EngReadOnly
      else rbind (subscribe en name q interest ret (de_engine de)) (\<lambda>(i, e). ok (i, de\<lparr>de_engine := e\<rparr>)))"

definition disk_install_ontology_module where
  "disk_install_ontology_module en m de =
     (if de_read_only de then err EngReadOnly
      else rbind (install_ontology_module en m (de_engine de)) (\<lambda>(res, e). ok (res, de\<lparr>de_engine := e\<rparr>)))"

text \<open>The message of the error is longer in the source.\<close>

definition disk_snapshot_create :: "string option \<Rightarrow> (engine_error, u32) res" where
  "disk_snapshot_create label = err (EngNotImplemented ''snapshots'')"

definition reconcile_step :: "nat \<Rightarrow> (engine_error, nat) res" where
  "reconcile_step max_items = ok 0"

section \<open>Replay of the log\<close>

text \<open>Only a failure to read the log or its kind byte stops the loop: every error of \<open>replay_wal_op\<close> is passed over,
  and none of them has changed the engine.\<close>

fun replay_entries ::
  "wal_codec_ops \<Rightarrow> ('b, 'g) qenv \<Rightarrow> (wal_error, wal_entry) res list \<Rightarrow> ('b, 'g) engine \<Rightarrow> (engine_error, ('b, 'g) engine) res" where
  "replay_entries wc en [] e = ok e"
| "replay_entries wc en (r # rs) e =
     rbind (map_err EngWal r) (\<lambda>entry.
     rbind (map_err EngWal (wal_op_kind_from_u8 (eh_op_kind (we_header entry)))) (\<lambda>kind.
     if kind = OpCheckpoint then replay_entries wc en rs e
     else case replay_wal_op wc en kind (we_payload entry) (eh_lsn (we_header entry)) e of
            Inl Panic \<Rightarrow> Inl Panic
          | Inl (Err _) \<Rightarrow> replay_entries wc en rs e
          | Inr e' \<Rightarrow> replay_entries wc en rs e'))"

definition replay_wal :: "'d disk_env \<Rightarrow> ('b, 'g) qenv \<Rightarrow> ('b, 'g, 'd) disk_engine \<Rightarrow> (engine_error, ('b, 'g, 'd) disk_engine) res" where
  "replay_wal dn en de =
     (let start = min (e_last_applied_lsn (de_engine de) + 1) (2 ^ 64 - 1);
          entries = wal_iter_collect (denv_dev dn) (denv_crc dn) (de_dev de) (iter_from (de_wal de) start)
      in rbind (replay_entries (denv_wal dn) en entries (de_engine de)) (\<lambda>e. ok (de\<lparr>de_engine := e\<rparr>)))"

section \<open>Commit\<close>

text \<open>The part of \<open>commit\<close> that follows \<open>save_index_state\<close>: the checkpoint entry, the trim of the log, the root flip.
  The sum of the sequence number saturates. A failure leaves what was done before it.\<close>

definition commit_after_save ::
  "'d disk_env \<Rightarrow> nat option \<Rightarrow> ('b, 'g, 'd) disk_engine \<Rightarrow> (engine_error, unit) res \<times> ('b, 'g, 'd) disk_engine" where
  "commit_after_save dn sys de =
     (let root = active_root_pointer (de_superblock de);
          root1 = root\<lparr>rp_seq := min (rp_seq root + 1) (2 ^ 64 - 1), rp_lsn := wh_next_lsn (w_header (de_wal de))\<rparr>
      in case seed_root_pointer root1 (sb_disk_id (de_superblock de)) (ze_offset (sb_index_zone (de_superblock de))) of
           Inl f \<Rightarrow> (Inl f, de)
         | Inr root2 \<Rightarrow>
             let new_root = root_pointer_recompute_crc (denv_crc dn) root2;
                 cp = WCheckpoint (checkpoint_from_root new_root 0);
                 (ts, e) = engine_now sys (de_engine de);
                 de1 = de\<lparr>de_engine := e\<rparr>
             in case map_err EngWal (rbind (wal_op_encode (denv_wal dn) cp) (\<lambda>(kind, payload).
                       append_raw (denv_dev dn) (denv_crc dn) (de_wal de1) (de_dev de1) kind payload ts 0)) of
                  Inl f \<Rightarrow> (Inl f, de1)
                | Inr (lsn, w, d) \<Rightarrow>
                    let de2 = de1\<lparr>de_wal := w, de_dev := d\<rparr>
                    in case map_err EngWal (checkpoint (denv_dev dn) (denv_crc dn) w d lsn) of
                         Inl f \<Rightarrow> (Inl f, de2)
                       | Inr (reclaimed, w', d') \<Rightarrow>
                           let de3 = de2\<lparr>de_wal := w', de_dev := d'\<rparr>;
                               flipped = root_pointer_recompute_crc (denv_crc dn) (new_root\<lparr>rp_lsn := lsn\<rparr>)
                           in case map_err EngStorage (commit_root (denv_dev dn) (denv_crc dn) (de_superblock de3) d' flipped) of
                                Inl f \<Rightarrow> (Inl f, de3)
                              | Inr (sb, d'') \<Rightarrow>
                                  (ok (), de3\<lparr>de_superblock := sb, de_dev := d'',
                                     de_engine := (de_engine de3)\<lparr>e_last_applied_lsn := max (e_last_applied_lsn (de_engine de3)) lsn\<rparr>\<rparr>))"

section \<open>The index blob\<close>

record index_blob =
  ib_path_contexts_bytes :: "byte list"
  ib_oplog_bytes :: "byte list"
  ib_next_oid_local :: u64
  ib_next_tag_id :: u32
  ib_last_applied_lsn :: u64
  ib_blobs :: "(u64, byte list) btree_map"

definition INDEX_BLOB_MAGIC :: u32 where
  "INDEX_BLOB_MAGIC = 0x4D495849"

text \<open>The external CBOR library, at the types the blob uses.\<close>

record blob_codec =
  bc_ser :: "index_blob \<Rightarrow> (string, byte list) res"
  bc_de :: "byte list \<Rightarrow> (string, index_blob) res"
  bc_ser_oplog :: "op_log \<Rightarrow> (string, byte list) res"
  bc_de_oplog :: "byte list \<Rightarrow> (string, op_log) res"

text \<open>One above the greatest registered tag; the sum panics beyond 32 bits.\<close>

definition index_blob_next_tag_id :: "('b, 'g) engine \<Rightarrow> ('e, u32) res" where
  "index_blob_next_tag_id e =
     (if os_tags (e_ontology e) = [] then ok 1 else add_u32 (max_tag_id (e_ontology e)) 1)"

text \<open>The bytes of the path contexts come from a component that is not modelled.\<close>

definition build_index_blob ::
  "blob_codec \<Rightarrow> byte list \<Rightarrow> ('b, 'g) engine \<Rightarrow> (u64, byte list) btree_map \<Rightarrow> (engine_error, index_blob) res" where
  "build_index_blob bc paths e blobs =
     rbind (map_err EngCbor (bc_ser_oplog bc (e_oplog e))) (\<lambda>ol.
     rbind (index_blob_next_tag_id e) (\<lambda>next_tag.
     ok \<lparr>ib_path_contexts_bytes = paths, ib_oplog_bytes = ol, ib_next_oid_local = e_next_oid_local e,
         ib_next_tag_id = next_tag, ib_last_applied_lsn = e_last_applied_lsn e, ib_blobs = blobs\<rparr>))"

text \<open>The check of the zone size at the head of \<open>save_index_state\<close>, and its second half, which writes the blob.\<close>

definition check_zone_length :: "u64 \<Rightarrow> (engine_error, unit) res" where
  "check_zone_length zone_length =
     (if zone_length < FORWARD_OVERFLOW_AREA_OFFSET + FORWARD_OVERFLOW_AREA_REGIONS * 256 * 1024
      then err (EngNotImplemented ''index zone too small for the fixed-offset layout'') else ok ())"

definition save_index_blob ::
  "'d block_device \<Rightarrow> blob_codec \<Rightarrow> u64 \<Rightarrow> u64 \<Rightarrow> index_blob \<Rightarrow> 'd \<Rightarrow> (engine_error, 'd) res" where
  "save_index_blob bd bc zone_offset zone_length blob d =
     rbind (map_err EngCbor (bc_ser bc blob)) (\<lambda>payload.
     rbind (add_u64 8 (length payload)) (\<lambda>sz.
     if zone_length < LEGACY_CBOR_BLOB_OFFSET then Inl Panic
     else if sz > zone_length - LEGACY_CBOR_BLOB_OFFSET then err (EngNotImplemented ''legacy index blob too large for the index zone'')
     else
       let framed = le_bytes 4 INDEX_BLOB_MAGIC @ le_bytes 4 (length payload mod 2 ^ 32) @ payload
       in rbind (add_u64 zone_offset LEGACY_CBOR_BLOB_OFFSET) (\<lambda>at.
          rbind (map_err EngStorage (write_at bd d at framed)) (\<lambda>d1.
          map_err EngStorage (dev_sync bd d1)))))"

definition read_index_blob ::
  "'d block_device \<Rightarrow> blob_codec \<Rightarrow> u64 \<Rightarrow> u64 \<Rightarrow> 'd \<Rightarrow> (engine_error, index_blob option) res" where
  "read_index_blob bd bc zone_offset zone_length d =
     (if zone_length < LEGACY_CBOR_BLOB_OFFSET + 8 then ok None
      else
        rbind (add_u64 zone_offset LEGACY_CBOR_BLOB_OFFSET) (\<lambda>blob_offset.
        let blob_room = zone_length - LEGACY_CBOR_BLOB_OFFSET
        in rbind (map_err EngStorage (read_at bd d blob_offset 8)) (\<lambda>header.
           let magic = get_le 0 4 header
           in if magic = 0 then ok None
              else if magic \<noteq> INDEX_BLOB_MAGIC then ok None
              else
                let payload_len = get_le 4 4 header
                in if payload_len + 8 > blob_room then ok None
                   else rbind (add_u64 blob_offset 8) (\<lambda>at.
                        rbind (map_err EngStorage (read_at bd d at payload_len)) (\<lambda>payload.
                        rbind (map_err EngCbor (bc_de bc payload)) (\<lambda>blob. ok (Some blob)))))))"

definition apply_index_blob :: "blob_codec \<Rightarrow> index_blob \<Rightarrow> ('b, 'g) engine \<Rightarrow> ('b, 'g) engine" where
  "apply_index_blob bc blob e =
     (let e1 = (case bc_de_oplog bc (ib_oplog_bytes blob) of Inr ol \<Rightarrow> e\<lparr>e_oplog := ol\<rparr> | Inl _ \<Rightarrow> e);
          next_local = max (ib_next_oid_local blob) (e_next_oid_local e1);
          e2 = (if next_local > e_next_oid_local e1
                then ensure_oid_exists (oid_from_parts (word_of_nat (e_node_id e1)) (word_of_nat (next_local - 1))) e1
                else e1)
      in e2\<lparr>e_last_applied_lsn := max (e_last_applied_lsn e2) (ib_last_applied_lsn blob)\<rparr>)"

end
