(* ===== verification/Mb_Engine_Replay.thy ===== *)
theory Mb_Engine_Replay
  imports Mb_Engine_Thms
begin

text \<open>
  Replaying the operations that an engine logged rebuilds it: the indexes, the tables of object states and
  contents and the id counter come out the same, timestamps and counters excepted.
\<close>

unbundle bit_operations_syntax

section \<open>Engines that agree on what replay restores\<close>

definition same_rec :: "object_record \<Rightarrow> object_record \<Rightarrow> bool" where
  "same_rec a b \<longleftrightarrow> or_id b = or_id a \<and> or_state b = or_state a \<and> or_content_hash b = or_content_hash a \<and>
     or_blob_length b = or_blob_length a"

definition same_ix :: "('b, 'g) engine \<Rightarrow> ('b, 'g) engine \<Rightarrow> bool" where
  "same_ix e r \<longleftrightarrow> e_forward r = e_forward e \<and> e_tags r = e_tags e \<and> e_kv r = e_kv e \<and> e_range r = e_range e \<and>
     e_ontology r = e_ontology e \<and> e_next_oid_local r = e_next_oid_local e \<and> e_location_table r = e_location_table e \<and>
     bm_wf (e_object_table e) \<and> bm_wf (e_object_table r) \<and>
     (\<forall>oid. rel_option same_rec (bm_get (e_object_table e) oid) (bm_get (e_object_table r) oid))"

lemma same_ixD:
  assumes "same_ix e r"
  shows "e_forward r = e_forward e" "e_tags r = e_tags e" "e_kv r = e_kv e" "e_range r = e_range e"
    "e_ontology r = e_ontology e" "e_next_oid_local r = e_next_oid_local e" "e_location_table r = e_location_table e"
    "bm_wf (e_object_table e)" "bm_wf (e_object_table r)"
    "rel_option same_rec (bm_get (e_object_table e) oid) (bm_get (e_object_table r) oid)"
    "has_object oid r \<longleftrightarrow> has_object oid e"
proof -
  have r: "rel_option same_rec (bm_get (e_object_table e) oid) (bm_get (e_object_table r) oid)"
    using assms by (simp add: same_ix_def)
  then show "has_object oid r \<longleftrightarrow> has_object oid e" by (auto simp: has_object_def elim: option.rel_cases)
  show "rel_option same_rec (bm_get (e_object_table e) oid) (bm_get (e_object_table r) oid)" by (rule r)
qed (use assms in \<open>simp_all add: same_ix_def\<close>)

lemma same_ix_query: "same_ix e r \<Longrightarrow> query_full en q r = query_full en q e"
  by (simp add: same_ix_def query_full_def executor_of_def)

lemma rel_update:
  assumes "bm_wf s" and "bm_wf t" and "\<And>oid. rel_option same_rec (bm_get s oid) (bm_get t oid)"
    and "\<And>a b. same_rec a b \<Longrightarrow> same_rec (f a) (g b)"
  shows "rel_option same_rec (bm_get (object_table_update oid f s) o') (bm_get (object_table_update oid g t) o')"
  using assms(3) [of o'] assms(4)
  by (auto simp: object_table_update_get [OF assms(1)] object_table_update_get [OF assms(2)] option.rel_map elim: option.rel_mono_strong)

lemma rel_update_left:
  assumes "bm_wf s" and "\<And>oid. rel_option same_rec (bm_get s oid) (bm_get t oid)" and "\<And>a b. same_rec a b \<Longrightarrow> same_rec (f a) b"
  shows "rel_option same_rec (bm_get (object_table_update oid f s) o') (bm_get t o')"
  using assms(2) [of o'] assms(3) by (auto simp: object_table_update_get [OF assms(1)] option.rel_map elim: option.rel_mono_strong)

section \<open>Live operations and their log entries\<close>

text \<open>\<open>live op e e'\<close>: an operation that the engine records as \<open>op\<close> takes it from \<open>e\<close> to \<open>e'\<close>.\<close>

inductive live :: "tf_ops \<Rightarrow> ('b, 'g) qenv \<Rightarrow> op_kind \<Rightarrow> ('b, 'g) engine \<Rightarrow> ('b, 'g) engine \<Rightarrow> bool" for tf en where
  live_create: "create_object sys e = (oid, e') \<Longrightarrow> live tf en (KCreateObject oid) e e'"
| live_delete: "delete_object en sys oid e = ok e' \<Longrightarrow> live tf en (KDeleteObject oid) e e'"
| live_add_tag: "engine_add_tag en sys oid t e = ok e' \<Longrightarrow> live tf en (KAddTag oid t) e e'"
| live_remove_tag: "engine_remove_tag en sys oid t e = ok e' \<Longrightarrow> live tf en (KRemoveTag oid t) e e'"
| live_set_attr: "set_attr en sys oid k v e = ok e' \<Longrightarrow> live tf en (KSetAttr oid k v) e e'"
| live_remove_attr: "remove_attr en sys oid k h e = ok e' \<Longrightarrow> live tf en (KRemoveAttr oid k h) e e'"
| live_add_relation: "add_relation sys oid p t e = ok e' \<Longrightarrow> live tf en (KAddRelation oid p t) e e'"
| live_remove_relation: "remove_relation sys oid p t e = ok e' \<Longrightarrow> live tf en (KRemoveRelation oid p t) e e'"
| live_write_blob: "write_blob tf en sys oid bs e = ok (r, e') \<Longrightarrow>
    live tf en (KWriteBlob oid (bwr_content_hash r) (bwr_original_size r)) e e'"

text \<open>What replay relies on: local ids that are new and below 48 bits, and no deletion of an object that has attributes.\<close>

fun replayable :: "op_kind \<Rightarrow> ('b, 'g) engine \<Rightarrow> bool" where
  "replayable (KCreateObject oid) e \<longleftrightarrow> e_next_oid_local e < 2 ^ 48 \<and> \<not> has_object oid e"
| "replayable (KDeleteObject oid) e \<longleftrightarrow> (\<forall>k v. (oid, AAttr k v) \<notin> fw_facts (e_forward e))"
| "replayable _ e \<longleftrightarrow> True"

inductive live_run :: "tf_ops \<Rightarrow> ('b, 'g) qenv \<Rightarrow> op_kind list \<Rightarrow> ('b, 'g) engine \<Rightarrow> ('b, 'g) engine \<Rightarrow> bool" for tf en where
  run_start: "live_run tf en [] e e"
| run_clock: "live_run tf en ops e e' \<Longrightarrow> live_run tf en ops e (snd (engine_now sys e'))"
| run_step: "live_run tf en ops e e' \<Longrightarrow> replayable op e' \<Longrightarrow> live tf en op e' e'' \<Longrightarrow> live_run tf en (ops @ [op]) e e''"

fun replay_ops :: "('b, 'g) qenv \<Rightarrow> wal_op list \<Rightarrow> ('b, 'g) engine \<Rightarrow> (engine_error, ('b, 'g) engine) res" where
  "replay_ops en [] e = ok e"
| "replay_ops en (op # ops) e = rbind (replay_op en op e) (replay_ops en ops)"

lemma replay_ops_append: "replay_ops en (xs @ ys) e = rbind (replay_ops en xs e) (replay_ops en ys)"
proof (induction xs arbitrary: e)
  case (Cons x xs)
  then show ?case by (cases "replay_op en x e") simp_all
qed simp

lemma ensure_record_has: "has_object oid e \<Longrightarrow> ensure_record oid e = e"
  by (simp add: ensure_record_def)

lemma strip_attrs_none: "\<forall>x\<in>set as. \<forall>k v. fst x \<noteq> AAttr k v \<Longrightarrow> strip_attrs vc rb n as ix = ok ix"
  by (induction vc rb n as ix rule: strip_attrs.induct) auto

text \<open>Fields that live operations and replays change alike, and a live update that replay leaves out.\<close>

definition same_fields :: "('b, 'g) engine \<Rightarrow> ('b, 'g) engine \<Rightarrow> bool" where
  "same_fields e r \<longleftrightarrow> e_forward r = e_forward e \<and> e_tags r = e_tags e \<and> e_kv r = e_kv e \<and> e_range r = e_range e \<and>
     e_ontology r = e_ontology e \<and> e_next_oid_local r = e_next_oid_local e \<and> e_location_table r = e_location_table e"

lemma same_ixI:
  assumes "same_ix e r" and "same_fields e' r'" and "e_object_table e' = e_object_table e" and "e_object_table r' = e_object_table r"
  shows "same_ix e' r'"
  using assms by (auto simp: same_ix_def same_fields_def)

lemma same_ixI_touch:
  assumes s: "same_ix e r" and t: "e_object_table e' = object_table_update oid f (e_object_table e)"
    and rt: "e_object_table r' = e_object_table r" and eq: "same_fields e' r'" and f: "\<And>a b. same_rec a b \<Longrightarrow> same_rec (f a) b"
  shows "same_ix e' r'"
  using t rel_update_left [OF same_ixD(8,10) [OF s] f] same_ixD(8,9) [OF s] rt eq
  by (auto simp: same_ix_def same_fields_def object_table_update_wf)

lemma replay_add_tag_same:
  assumes s: "same_ix e r" and op: "engine_add_tag en sys oid t e = ok e'"
  shows "\<exists>r'. (replay_add_tag en oid t r :: (engine_error, ('b, 'g) engine) res) = ok r' \<and> same_ix e' r'"
proof -
  note S = same_ixD [OF s]
  have has: "has_object oid e" using op by (auto simp: engine_add_tag_def split: if_splits)
  then obtain cl where cl: "state_materialise (q_graph en) (e_ontology e) [t] = Some cl"
    using op by (auto simp: engine_add_tag_def engine_aux await_def split: option.splits)
  let ?r = "add_tag_indexes en oid t cl r"
  have "(replay_add_tag en oid t r :: (engine_error, ('b, 'g) engine) res) = ok ?r"
    using has cl S by (simp add: replay_add_tag_def ensure_record_has await_def)
  moreover have "e_object_table e' = object_table_update oid (\<lambda>r. r\<lparr>or_tag_count := sat_add16 (or_tag_count r) (length cl mod 2 ^ 16),
        or_modified_ns := physical_ns (fst (engine_now sys e))\<rparr>) (e_object_table e)" "e_object_table ?r = e_object_table r"
      "same_fields e' ?r"
    using op has cl S(1-7) by (auto simp: engine_add_tag_def engine_aux add_tag_indexes_def await_def same_fields_def)
  then have "same_ix e' ?r" by (rule same_ixI_touch [OF s]) (simp add: same_rec_def)
  ultimately show ?thesis by blast
qed

lemma remove_tag_indexes_cong:
  assumes "(remove_tag_indexes en oid t e :: ('x, ('b, 'g) engine) res) = ok e2"
    and "e_forward r = e_forward e" "e_tags r = e_tags e" "e_ontology r = e_ontology e"
  shows "(remove_tag_indexes en oid t r :: ('x, ('b, 'g) engine) res) = ok (r\<lparr>e_forward := e_forward e2, e_tags := e_tags e2\<rparr>)"
  using assms by (auto simp: remove_tag_indexes_def Let_def split_beta res_simps split: if_splits)

lemma remove_tag_indexes_rest:
  assumes "(remove_tag_indexes en oid t e :: ('x, ('b, 'g) engine) res) = ok e2"
  shows "e_kv e2 = e_kv e" "e_range e2 = e_range e" "e_ontology e2 = e_ontology e" "e_next_oid_local e2 = e_next_oid_local e"
    "e_location_table e2 = e_location_table e" "e_object_table e2 = e_object_table e"
  using assms by (auto simp: remove_tag_indexes_def Let_def split_beta res_simps split: if_splits)

lemma replay_remove_tag_same:
  assumes s: "same_ix e r" and op: "engine_remove_tag en sys oid t e = ok e'"
  shows "\<exists>r'. (replay_remove_tag en oid t r :: (engine_error, ('b, 'g) engine) res) = ok r' \<and> same_ix e' r'"
proof -
  note S = same_ixD [OF s]
  have has: "has_object oid e" using op by (auto simp: engine_remove_tag_def split: if_splits)
  let ?e1 = "snd (engine_now sys e)"
  obtain e2 where e2: "(remove_tag_indexes en oid t ?e1 :: (engine_error, ('b, 'g) engine) res) = ok e2"
    and e': "e_forward e' = e_forward e2" "e_tags e' = e_tags e2" "e_kv e' = e_kv e2" "e_range e' = e_range e2"
      "e_ontology e' = e_ontology e2" "e_next_oid_local e' = e_next_oid_local e2" "e_location_table e' = e_location_table e2"
      "e_object_table e' = object_table_update oid (\<lambda>r. r\<lparr>or_tag_count := or_tag_count r - 1,
        or_modified_ns := physical_ns (fst (engine_now sys e))\<rparr>) (e_object_table e2)"
    using op has by (auto simp: engine_remove_tag_def engine_aux res_simps)
  let ?r = "r\<lparr>e_forward := e_forward e2, e_tags := e_tags e2\<rparr>"
  note c = remove_tag_indexes_cong [OF e2, of r] and rest = remove_tag_indexes_rest [OF e2]
  have e1: "e_forward ?e1 = e_forward e" "e_tags ?e1 = e_tags e" "e_ontology ?e1 = e_ontology e" "e_kv ?e1 = e_kv e"
    "e_range ?e1 = e_range e" "e_next_oid_local ?e1 = e_next_oid_local e" "e_location_table ?e1 = e_location_table e"
    "e_object_table ?e1 = e_object_table e"
    by (simp_all add: engine_aux)
  have "(replay_remove_tag en oid t r :: (engine_error, ('b, 'g) engine) res) = ok ?r"
    using c S e1 has by (simp add: replay_remove_tag_def)
  moreover have "same_fields e' ?r" using S(1-7) e' rest e1 by (simp add: same_fields_def)
  then have "same_ix e' ?r"
    by (intro same_ixI_touch [OF s e'(8) [unfolded rest e1]]) (simp_all add: same_rec_def)
  ultimately show ?thesis by blast
qed

lemma replay_set_attr_same:
  assumes s: "same_ix e r" and op: "set_attr en sys oid k v e = ok e'"
  shows "\<exists>r'. (replay_set_attr en oid k v r :: (engine_error, ('b, 'g) engine) res) = ok r' \<and> same_ix e' r'"
proof -
  note S = same_ixD [OF s]
  have has: "has_object oid e" using op by (auto simp: set_attr_def split: if_splits)
  obtain kv where kv: "(kv_insert (q_vc en) (q_rb en) k v (oid_entry oid) (e_kv e) :: (engine_error, 'b kv_index) res) = ok kv"
    using op has by (auto simp: set_attr_def set_attr_indexes_def engine_aux res_simps)
  let ?r = "r\<lparr>e_forward := fw_add_assertion oid (AAttr k v) Direct (e_forward r), e_kv := kv,
    e_range := range_insert (q_rb en) k v (oid_entry oid) (e_range r)\<rparr>"
  have "(replay_set_attr en oid k v r :: (engine_error, ('b, 'g) engine) res) = ok ?r"
    using has S kv by (simp add: replay_set_attr_def ensure_record_has set_attr_indexes_def)
  moreover have "e_object_table e' = object_table_update oid (\<lambda>r. r\<lparr>or_attr_count := sat_add16 (or_attr_count r) 1,
      or_modified_ns := physical_ns (fst (engine_now sys e))\<rparr>) (e_object_table e)" "e_object_table ?r = e_object_table r"
    "same_fields e' ?r"
    using op has S(1-7) kv by (auto simp: set_attr_def set_attr_indexes_def engine_aux same_fields_def)
  then have "same_ix e' ?r" by (rule same_ixI_touch [OF s]) (simp add: same_rec_def)
  ultimately show ?thesis by blast
qed

lemma replay_remove_attr_same:
  assumes s: "same_ix e r" and op: "remove_attr en sys oid k h e = ok e'"
  shows "\<exists>r'. (replay_remove_attr_by_hash en oid k h r :: (engine_error, ('b, 'g) engine) res) = ok r' \<and> same_ix e' r'"
proof -
  note S = same_ixD [OF s]
  have has: "has_object oid e" using op by (auto simp: remove_attr_def split: if_splits)
  obtain x where x: "(find_attr (q_vc en) k h (fw_assertions_of (e_forward e) oid) :: (engine_error, attr_value option) res) = ok x"
    using op has by (auto simp: remove_attr_def remove_attr_indexes_def engine_aux res_simps)
  show ?thesis
  proof (cases x)
    case None
    then have "(replay_remove_attr_by_hash en oid k h r :: (engine_error, ('b, 'g) engine) res) = ok r"
      using S x by (simp add: replay_remove_attr_by_hash_def remove_attr_indexes_def)
    moreover have "same_ix e' r"
      using op has x None S(1-7) by (intro same_ixI [OF s]) (auto simp: remove_attr_def remove_attr_indexes_def engine_aux same_fields_def)
    ultimately show ?thesis by blast
  next
    case (Some v)
    then obtain kv b where kv: "(kv_remove (q_vc en) (q_rb en) k v (oid_entry oid) (e_kv e) :: (engine_error, 'b kv_index \<times> bool) res) = ok (kv, b)"
      using op has x by (auto simp: remove_attr_def remove_attr_indexes_def engine_aux res_simps)
    let ?r = "r\<lparr>e_forward := fst (fw_remove_assertion oid (AAttr k v) (e_forward r)), e_kv := kv,
      e_range := fst (range_remove (q_rb en) k v (oid_entry oid) (e_range r))\<rparr>"
    have "(replay_remove_attr_by_hash en oid k h r :: (engine_error, ('b, 'g) engine) res) = ok ?r"
      using S x Some kv by (simp add: replay_remove_attr_by_hash_def remove_attr_indexes_def)
    moreover have "e_object_table e' = object_table_update oid (\<lambda>r. r\<lparr>or_attr_count := or_attr_count r - 1,
        or_modified_ns := physical_ns (fst (engine_now sys e))\<rparr>) (e_object_table e)" "e_object_table ?r = e_object_table r"
      "same_fields e' ?r"
      using op has S(1-7) kv x Some by (auto simp: remove_attr_def remove_attr_indexes_def engine_aux same_fields_def)
    then have "same_ix e' ?r" by (rule same_ixI_touch [OF s]) (simp add: same_rec_def)
    ultimately show ?thesis by blast
  qed
qed

lemma replay_relation_same:
  assumes s: "same_ix e r"
  shows "add_relation sys oid p t e = ok e' \<Longrightarrow> same_ix e' (replay_add_relation oid p t r)"
    and "remove_relation sys oid p t e = ok e' \<Longrightarrow> same_ix e' (replay_remove_relation oid p t r)"
proof -
  note S = same_ixD [OF s]
  let ?a = "replay_add_relation oid p t r" and ?d = "replay_remove_relation oid p t r"
  assume op: "add_relation sys oid p t e = ok e'"
  then have has: "has_object oid e" by (auto simp: add_relation_def split: if_splits)
  then have "e_object_table e' = object_table_update oid (\<lambda>r. r\<lparr>or_relation_count := sat_add16 (or_relation_count r) 1,
      or_modified_ns := physical_ns (fst (engine_now sys e))\<rparr>) (e_object_table e)" "e_object_table ?a = e_object_table r"
    "same_fields e' ?a"
    using op S(1-7,11) by (auto simp: add_relation_def engine_aux same_fields_def replay_add_relation_def ensure_record_has)
  then show "same_ix e' ?a" by (rule same_ixI_touch [OF s]) (simp add: same_rec_def)
next
  note S = same_ixD [OF s]
  let ?d = "replay_remove_relation oid p t r"
  assume op: "remove_relation sys oid p t e = ok e'"
  then have has: "has_object oid e" by (auto simp: remove_relation_def split: if_splits)
  have f: "same_fields e' ?d" "e_object_table ?d = e_object_table r"
    using op has S(1-7) by (auto simp: remove_relation_def engine_aux same_fields_def replay_remove_relation_def)
  show "same_ix e' ?d"
  proof (cases "snd (fw_remove_assertion oid (ARelation p t) (e_forward e))")
    case True
    then have "e_object_table e' = object_table_update oid (\<lambda>r. r\<lparr>or_relation_count := or_relation_count r - 1,
        or_modified_ns := physical_ns (fst (engine_now sys e))\<rparr>) (e_object_table e)"
      using op has by (auto simp: remove_relation_def engine_aux)
    from this f(2,1) show ?thesis by (rule same_ixI_touch [OF s]) (simp add: same_rec_def)
  next
    case False
    then have "e_object_table e' = e_object_table e" using op has by (auto simp: remove_relation_def engine_aux)
    from this f(2) show ?thesis by (rule same_ixI [OF s f(1)])
  qed
qed

lemma replay_write_blob_same:
  assumes s: "same_ix e r" and op: "write_blob tf en sys oid bs e = ok (res, e')"
  shows "same_ix e' (replay_write_blob oid (bwr_content_hash res) (bwr_original_size res) r)"
proof -
  note S = same_ixD [OF s]
  let ?r = "replay_write_blob oid (bwr_content_hash res) (bwr_original_size res) r"
  have has: "has_object oid e" using op by (auto simp: write_blob_def split: if_splits)
  then obtain f where "e_object_table e' = object_table_update oid f (e_object_table e)" and f: "same_fields e' ?r"
      "\<And>a. or_id (f a) = or_id a \<and> or_state (f a) = or_state a \<and> or_content_hash (f a) = bwr_content_hash res \<and>
        or_blob_length (f a) = bwr_original_size res"
    using op S(1-7,11) by (auto simp: write_blob_def engine_aux res_simps same_fields_def replay_write_blob_def ensure_record_has)
  moreover have "e_object_table ?r = object_table_update oid (\<lambda>rec. rec\<lparr>or_content_hash := bwr_content_hash res,
      or_blob_length := bwr_original_size res, or_stored_size := bwr_original_size res\<rparr>) (e_object_table r)"
    using has S(11) by (simp add: replay_write_blob_def ensure_record_has engine_touch_def)
  ultimately show ?thesis
    using rel_update [OF S(8-10), of f] S(8,9)
    by (auto simp: same_ix_def same_fields_def object_table_update_wf same_rec_def)
qed

lemma replay_delete_same:
  assumes s: "same_ix e r" and op: "delete_object en sys oid e = ok e'" and na: "\<forall>k v. (oid, AAttr k v) \<notin> fw_facts (e_forward e)"
  shows "same_ix e' (replay_delete_object en oid r)"
proof -
  note S = same_ixD [OF s]
  let ?r = "replay_delete_object en oid r"
  have has: "has_object oid e" using op by (auto simp: delete_object_def split: if_splits)
  have "\<forall>x\<in>set (fw_assertions_of (e_forward e) oid). \<forall>k v. fst x \<noteq> AAttr k v" using na by (force simp: fw_facts_iff)
  note st = strip_attrs_none [OF this]
  have "e_object_table e' = object_table_update oid (\<lambda>r. (set_state ObjTombstoned r)\<lparr>or_modified_ns := physical_ns (fst (engine_now sys e))\<rparr>) (e_object_table e)"
    and "same_fields e' ?r" and "e_object_table ?r = object_table_update oid (set_state ObjTombstoned) (e_object_table r)"
    using op has S(1-7,11) by (auto simp: delete_object_def engine_aux st same_fields_def replay_delete_object_def)
  then show ?thesis
    using rel_update [OF S(8-10), of "\<lambda>r. (set_state ObjTombstoned r)\<lparr>or_modified_ns := physical_ns (fst (engine_now sys e))\<rparr>"
        "set_state ObjTombstoned"] S(8,9)
    by (auto simp: same_ix_def same_fields_def object_table_update_wf same_rec_def set_state_def)
qed

lemma replay_create_same:
  assumes s: "same_ix e r" and op: "create_object sys e = (oid, e')" and n: "e_next_oid_local e < 2 ^ 48"
    and new: "\<not> has_object oid e"
  shows "same_ix e' (replay_create_object oid ns r)"
proof -
  note S = same_ixD [OF s]
  let ?r = "replay_create_object oid ns r" and ?n = "e_next_oid_local e"
  have oid: "oid = oid_from_parts (word_of_nat (e_node_id e)) (word_of_nat ?n)"
    using op by (auto simp: create_object_def Let_def split_beta)
  have "oid_local_seq oid = word_of_nat ?n AND mask 48" unfolding oid using oid_roundtrip by blast
  then have loc: "unat (oid_local_seq oid) = ?n"
    using n by (simp add: take_bit_eq_mask [symmetric] take_bit_eq_mod unat_mod unat_of_nat)
  let ?ns = "physical_ns (fst (clock_now (e_clock e) sys))"
  let ?rec = "(set_state ObjActive (object_record_new oid))\<lparr>or_created_ns := ?ns, or_modified_ns := ?ns\<rparr>"
  have rec: "same_rec ?rec (fresh_record oid ns)" by (simp add: same_rec_def fresh_record_def set_state_def object_record_new_def)
  have "e_object_table (snd (create_object sys e)) = bm_insert (fst (create_object sys e))
      ((set_state ObjActive (object_record_new (fst (create_object sys e))))\<lparr>or_created_ns := ?ns, or_modified_ns := ?ns\<rparr>)
      (e_object_table e)"
    by (simp add: create_object_def engine_aux object_table_insert_def set_state_def object_record_new_def)
  then have e': "e_object_table e' = bm_insert oid ?rec (e_object_table e)" by (simp only: op prod.sel)
  have tr: "e_object_table ?r = bm_insert oid (fresh_record oid ns) (e_object_table r)"
    using new S(11) by (simp add: replay_create_object_def Let_def object_table_insert_def fresh_record_def set_state_def object_record_new_def)
  have "same_fields (e\<lparr>e_next_oid_local := min (?n + 1) (2 ^ 64 - 1)\<rparr>) (snd (create_object sys e))"
    by (simp add: create_object_def engine_aux same_fields_def)
  then have "same_fields (e\<lparr>e_next_oid_local := min (?n + 1) (2 ^ 64 - 1)\<rparr>) e'" unfolding op by simp
  moreover have "same_fields (e\<lparr>e_next_oid_local := min (?n + 1) (2 ^ 64 - 1)\<rparr>) ?r"
    using S(1-7) new S(11) loc by (simp add: replay_create_object_def Let_def same_fields_def)
  ultimately have "same_fields e' ?r" by (simp add: same_fields_def)
  then show ?thesis
    using e' tr rec S(8-10) by (auto simp: same_ix_def same_fields_def bm_wf_insert bm_get_insert)
qed

lemma replay_step:
  assumes s: "same_ix e r" and op: "live tf en op e e'" and ok: "replayable op e"
  shows "\<exists>r'. replay_op en (project_op op) r = ok r' \<and> same_ix e' r'"
  using op
proof cases
  case (live_create sys oid)
  then show ?thesis using replay_create_same [OF s live_create(2)] ok by simp
next
  case (live_delete sys oid)
  then show ?thesis using replay_delete_same [OF s live_delete(2)] ok by simp
next
  case (live_add_tag sys oid t)
  then show ?thesis using replay_add_tag_same [OF s live_add_tag(2)] by simp
next
  case (live_remove_tag sys oid t)
  then show ?thesis using replay_remove_tag_same [OF s live_remove_tag(2)] by simp
next
  case (live_set_attr sys oid k v)
  then show ?thesis using replay_set_attr_same [OF s live_set_attr(2)] by simp
next
  case (live_remove_attr sys oid k h)
  then show ?thesis using replay_remove_attr_same [OF s live_remove_attr(2)] by simp
next
  case (live_add_relation sys oid p t)
  then show ?thesis using replay_relation_same(1) [OF s live_add_relation(2)] by simp
next
  case (live_remove_relation sys oid p t)
  then show ?thesis using replay_relation_same(2) [OF s live_remove_relation(2)] by simp
next
  case (live_write_blob sys oid bs res)
  then show ?thesis using replay_write_blob_same [OF s live_write_blob(2)] by simp
qed

lemma same_ix_now: "same_ix e r \<Longrightarrow> same_ix (snd (engine_now sys e)) r"
  by (simp add: engine_aux same_ix_def)

lemma replay_run:
  assumes "live_run tf en ops e e'" and "same_ix e r"
  shows "\<exists>r'. replay_ops en (map project_op ops) r = ok r' \<and> same_ix e' r'"
  using assms
proof induction
  case (run_clock ops e e' sys)
  then show ?case using same_ix_now by blast
next
  case (run_step ops e e' op e'')
  then obtain r' where "replay_ops en (map project_op ops) r = ok r'" "same_ix e' r'" by blast
  moreover from replay_step [OF this(2) run_step(3,2)] obtain r'' where
    "replay_op en (project_op op) r' = ok r''" "same_ix e'' r''" by blast
  ultimately show ?case by (simp add: replay_ops_append)
qed simp

section \<open>Properties\<close>

text \<open>C17. The log entries of a run rebuild the engine. Take a run of live operations in which every created object is new with
  an id below $2^{48}$ and no object is deleted that still has attributes. Replaying its log entries on an engine that
  agreed at the start gives one that agrees at the end: the same indexes, ontology, id counter and location table,
  object records with the same id, state, content hash and blob length, and the same answers to all queries.\<close>

theorem replay_rebuilds:
  assumes "live_run tf en ops e e'" and "same_ix e r"
  shows "\<exists>r'. replay_ops en (map project_op ops) r = ok r' \<and> same_ix e' r' \<and> query_full en q r' = query_full en q e'"
  using replay_run [OF assms] same_ix_query by blast

theorem replay_rebuilds_witness:
  "\<exists>r'. replay_ops wit_qenv [WCreateObject (WalCreateObject 1 0 0)] (engine_new wit_qenv 0) = ok r' \<and> same_ix wit_e1 r'"
proof -
  have "live_run wit_tf wit_qenv [KCreateObject 1] (engine_new wit_qenv 0) wit_e1"
    using run_step [OF run_start _ live_create [OF wit_create]] by (simp add: engine_new_def has_object_def)
  moreover have "same_ix (engine_new wit_qenv 0) (engine_new wit_qenv 0)" by (simp add: same_ix_def engine_new_def)
  ultimately show ?thesis using replay_rebuilds [of wit_tf wit_qenv "[KCreateObject 1]"] by fastforce
qed

text \<open>C37. Without that restriction it fails: replaying a deletion leaves the values of the object in the value index,
  so an equality query on the rebuilt engine still returns the deleted object, while the live engine forgets it.\<close>

theorem replay_delete_keeps_values:
  assumes "query_libs en bset gwf" and "engine_reach tf en True e" and "(oid, AAttr k v) \<in> fw_facts (e_forward e)"
    and "replay_op en (project_op (KDeleteObject oid)) e = ok r" and "delete_object en sys oid e = ok e'"
  shows "(\<exists>b. engine_query en (HasAttr k OpEq v) r = ok b \<and> unat oid \<in> bset b) \<and>
    (\<exists>b. engine_query en (HasAttr k OpEq v) e' = ok b \<and> unat oid \<notin> bset b)"
proof -
  note inv = query_libs.engine_reach_ok [OF assms(1,2)]
  note A = attr_repD [OF engine_okD(5) [OF inv TrueI]]
  note A' = attr_repD [OF engine_okD(5) [OF query_libs.delete_ok [OF assms(1) inv assms(5)] TrueI]]
  obtain h where h: "hash_of (q_vc en) zero_secret v = Some h" using attrs_distinctD(4) [OF A(4) assms(3)] by auto
  have "oid \<in> holding (fw_facts (e_forward e)) k (\<lambda>w. hash_of (q_vc en) zero_secret w = Some h)"
    using assms(3) h by (auto simp: holding_def)
  then have live: "unat oid \<in> map_bits bset (kv_entries (e_kv e)) (k, h)" unfolding A(5) by simp
  have "e_forward e' = fst (fw_remove_object oid (e_forward e))"
    using assms(5) by (auto simp: delete_object_def engine_aux res_simps split: if_splits)
  then have "(oid, AAttr k' w) \<notin> fw_facts (e_forward e')" for k' w
    using engine_okD(6) [OF inv] by (simp add: fw_facts_count fw_remove_object_count)
  then have gone: "unat oid \<notin> map_bits bset (kv_entries (e_kv e')) (k, h)"
    unfolding A'(5) by (auto simp: holding_def word_unat_eq_iff [symmetric])
  have r: "e_kv r = e_kv e" using assms(4) by (auto simp: replay_delete_object_def engine_aux)
  have q: "\<exists>b. engine_query en (HasAttr k OpEq v) x = ok b \<and> bset b = map_bits bset (kv_entries (e_kv x)) (k, h)"
    if "kv_secret (e_kv x) = zero_secret" for x
    using query_libs.kv_lookup_map_bits [OF assms(1), where 'e = query_error, of "e_kv x" v h k] h that
    by (auto simp: engine_query_def eval_has_attr_def executor_of_def)
  show ?thesis using q [of r] q [of e'] live gone A(3) A'(3) unfolding r by auto
qed

theorem replay_delete_keeps_values_witness:
  "\<exists>e r e' b b'. engine_reach wit_tf wit_qenv True e \<and> replay_op wit_qenv (WDeleteObject (WalDeleteObject 1 0)) e = ok r \<and>
     delete_object wit_qenv (Some 9) 1 e = ok e' \<and>
     engine_query wit_qenv (HasAttr 2 OpEq (VInt 3)) r = ok b \<and> 1 \<in> wl_set b \<and>
     engine_query wit_qenv (HasAttr 2 OpEq (VInt 3)) e' = ok b' \<and> 1 \<notin> wl_set b'"
proof -
  obtain e where e: "engine_reach wit_tf wit_qenv True e" "has_object 1 e" "fw_facts (e_forward e) = {(1, ATag 1), (1, AAttr 2 (VInt 3))}"
    by (rule wit_engine)
  obtain r where r: "replay_op wit_qenv (project_op (KDeleteObject 1)) e = ok r" by simp
  obtain e' where e': "delete_object wit_qenv (Some 9) 1 e = ok e'"
    using e(2) strip_attrs_ok [OF wit_total, where 'e = engine_error, of "q_rb wit_qenv" "oid_entry 1"
        "fw_assertions_of (e_forward e) 1" "(e_kv e, e_range e)"]
    by (auto simp: delete_object_def engine_aux)
  show ?thesis
    using replay_delete_keeps_values [OF wlq.query_libs_axioms e(1) _ r e', of 2 "VInt 3"] e r e' by auto
qed

end
