(* ===== verification/Mb_Disk_Engine_Thms.thy ===== *)
theory Mb_Disk_Engine_Thms
  imports Mb_Disk_Engine Mb_Engine_Replay Mb_Wal_Thms
begin

text \<open>
  Recovery of the persistent engine: whatever operations were acknowledged since the log was empty, reopening
  the log and replaying it on the saved engine gives an engine with the same indexes and tables.
\<close>

section \<open>Runs of the persistent engine\<close>

inductive disk_step ::
  "'d disk_env \<Rightarrow> tf_ops \<Rightarrow> ('b, 'g) qenv \<Rightarrow> op_kind \<Rightarrow> ('b, 'g, 'd) disk_engine \<Rightarrow> ('b, 'g, 'd) disk_engine \<Rightarrow> bool"
  for dn tf en where
  ds_create: "disk_create_object dn sys sys' de = (ok oid, de') \<Longrightarrow> disk_step dn tf en (KCreateObject oid) de de'"
| ds_delete: "disk_delete_object dn en sys sys' oid de = (ok (), de') \<Longrightarrow> disk_step dn tf en (KDeleteObject oid) de de'"
| ds_add_tag: "disk_add_tag dn en sys sys' oid t de = (ok (), de') \<Longrightarrow> disk_step dn tf en (KAddTag oid t) de de'"
| ds_remove_tag: "disk_remove_tag dn en sys sys' oid t de = (ok (), de') \<Longrightarrow> disk_step dn tf en (KRemoveTag oid t) de de'"
| ds_set_attr: "disk_set_attr dn en sys sys' oid k v de = (ok (), de') \<Longrightarrow> disk_step dn tf en (KSetAttr oid k v) de de'"
| ds_remove_attr: "disk_remove_attr dn en sys sys' oid k h de = (ok (), de') \<Longrightarrow> disk_step dn tf en (KRemoveAttr oid k h) de de'"
| ds_add_relation: "disk_add_relation dn sys sys' oid p t de = (ok (), de') \<Longrightarrow> disk_step dn tf en (KAddRelation oid p t) de de'"
| ds_remove_relation: "disk_remove_relation dn sys sys' oid p t de = (ok (), de') \<Longrightarrow> disk_step dn tf en (KRemoveRelation oid p t) de de'"
| ds_write_blob: "disk_write_blob dn tf en sys sys' oid bs de = (ok r, de') \<Longrightarrow>
    disk_step dn tf en (KWriteBlob oid (bwr_content_hash r) (bwr_original_size r)) de de'"

text \<open>An acknowledged operation applied to the engine and went to the log.\<close>

lemma append_wal_ok:
  assumes "append_wal dn sys op de = (ok lsn, de')"
  obtains kind payload w d where "wal_op_encode (denv_wal dn) (project_op op) = ok (kind, payload)"
    "append_raw (denv_dev dn) (denv_crc dn) (de_wal de) (de_dev de) kind payload (fst (engine_now sys (de_engine de))) 0 = ok (lsn, w, d)"
    "de' = de\<lparr>de_engine := snd (engine_now sys (de_engine de)), de_wal := w, de_dev := d\<rparr>"
  using assms by (auto simp: append_wal_def split_beta Let_def res_simps split: sum.splits)

lemma log_and_return_ok:
  assumes "log_and_return dn sys op x e' de = (ok y, de')"
  obtains lsn where "append_wal dn sys op (de\<lparr>de_engine := e'\<rparr>) = (ok lsn, de')" "y = x"
  using assms by (auto simp: log_and_return_def res_simps split: prod.splits)

definition logged_step ::
  "'d disk_env \<Rightarrow> tf_ops \<Rightarrow> ('b, 'g) qenv \<Rightarrow> op_kind \<Rightarrow> ('b, 'g, 'd) disk_engine \<Rightarrow> ('b, 'g, 'd) disk_engine \<Rightarrow> bool" where
  "logged_step dn tf en op de de' \<longleftrightarrow> (\<exists>de1 sys lsn. live tf en op (de_engine de) (de_engine de1) \<and> de_wal de1 = de_wal de \<and>
     de_dev de1 = de_dev de \<and> append_wal dn sys op de1 = (ok lsn, de'))"

lemma logged_stepI:
  assumes "append_wal dn sys op de1 = (ok lsn, de')" and "live tf en op (de_engine de) (de_engine de1)"
    and "de_wal de1 = de_wal de" and "de_dev de1 = de_dev de"
  shows "logged_step dn tf en op de de'"
  using assms unfolding logged_step_def by blast

lemma mutate_logged:
  assumes "mutate dn sys op f de = (ok u, de')" and "\<And>e'. f (de_engine de) = ok e' \<Longrightarrow> live tf en op (de_engine de) e'"
  shows "logged_step dn tf en op de de'"
  using assms by (auto simp: mutate_def elim!: log_and_return_ok intro: logged_stepI split: if_splits sum.splits)

lemma logged_stepI':
  assumes "append_wal dn sys op (de1\<lparr>de_engine := e'\<rparr>) = (ok lsn, de')" and "live tf en op (de_engine de) e'"
    and "de_wal de1 = de_wal de" and "de_dev de1 = de_dev de"
  shows "logged_step dn tf en op de de'"
  using assms by (auto intro: logged_stepI)

lemma disk_step_logged:
  assumes "disk_step dn tf en op de de'"
  shows "logged_step dn tf en op de de'"
  using assms
proof cases
  case (ds_create sys sys' oid)
  then show ?thesis
    by (auto simp: disk_create_object_def elim!: log_and_return_ok intro: logged_stepI' live_create split: if_splits prod.splits)
next
  case (ds_write_blob sys sys' oid bs r)
  then show ?thesis
    by (auto simp: disk_write_blob_def elim!: log_and_return_ok intro: logged_stepI' live_write_blob split: if_splits sum.splits prod.splits)
qed (auto simp: disk_delete_object_def disk_add_tag_def disk_remove_tag_def disk_set_attr_def disk_remove_attr_def
    disk_add_relation_def disk_remove_relation_def elim!: mutate_logged intro: live.intros)

text \<open>Acknowledged operations on a file-backed device, with interrupted appends in between, from a state with an empty
  log and the engine \<open>e0\<close> whose first log entry gets the number \<open>n0\<close>.\<close>

abbreviation file_env :: "(byte list \<Rightarrow> u32) \<Rightarrow> wal_codec_ops \<Rightarrow> file_device disk_env" where
  "file_env crc wc \<equiv> \<lparr>denv_dev = file_block_device, denv_crc = crc, denv_wal = wc\<rparr>"

inductive disk_run ::
  "(byte list \<Rightarrow> u32) \<Rightarrow> wal_codec_ops \<Rightarrow> tf_ops \<Rightarrow> ('b, 'g) qenv \<Rightarrow> ('b, 'g) engine \<Rightarrow> u64 \<Rightarrow> op_kind list
    \<Rightarrow> ('b, 'g, file_device) disk_engine \<Rightarrow> bool"
  for crc wc tf en where
  dr_start: "wal_reach crc (de_wal de) (de_dev de) [] \<Longrightarrow> clock_ok (e_clock (de_engine de)) \<Longrightarrow>
    disk_run crc wc tf en (de_engine de) (wh_next_lsn (w_header (de_wal de))) [] de"
| dr_step: "disk_run crc wc tf en e0 n0 ops de \<Longrightarrow> replayable op (de_engine de) \<Longrightarrow>
    disk_step (file_env crc wc) tf en op de de' \<Longrightarrow> disk_run crc wc tf en e0 n0 (ops @ [op]) de'"
| dr_torn_data: "disk_run crc wc tf en e0 n0 ops de \<Longrightarrow>
    wh_used_bytes (w_header (de_wal de)) + 4096 \<le> data_capacity (de_wal de) \<Longrightarrow> length s = 4096 \<Longrightarrow>
    disk_run crc wc tf en e0 n0 ops (de\<lparr>de_dev := torn_data (de_wal de) (de_dev de) s\<rparr>)"
| dr_torn_header: "disk_run crc wc tf en e0 n0 ops de \<Longrightarrow> length hb = 4096 \<Longrightarrow> \<not> header_usable crc (wal_header_of hb) \<Longrightarrow>
    disk_run crc wc tf en e0 n0 ops (de\<lparr>de_dev := torn_header (de_wal de) (de_dev de) hb\<rparr>)"

section \<open>Replay of the entries of a run\<close>

lemma live_clock:
  fixes e e' :: "('b, 'g) engine"
  assumes "live tf en op e e'"
  shows "\<exists>sys. e_clock e' = snd (clock_now (e_clock e) sys)"
  using assms
proof cases
  case (live_remove_tag sys oid t)
  then obtain e2 where e2: "(remove_tag_indexes en oid t (snd (engine_now sys e)) :: (engine_error, ('b, 'g) engine) res) = ok e2"
      "e_clock e' = e_clock e2"
    by (auto simp: engine_remove_tag_def engine_aux res_simps split: if_splits)
  from e2(1) have "e_clock e2 = snd (clock_now (e_clock e) sys)"
    by (auto simp: remove_tag_indexes_def engine_aux res_simps split: if_splits)
  then show ?thesis using e2(2) by auto
next
  case (live_remove_attr sys oid k h)
  then obtain b e2 where e2: "(remove_attr_indexes en oid k h (snd (engine_now sys e)) :: (engine_error, bool \<times> ('b, 'g) engine) res) = ok (b, e2)"
      "e_clock e' = e_clock e2"
    by (auto simp: remove_attr_def engine_aux res_simps split: if_splits)
  from e2(1) have "e_clock e2 = snd (clock_now (e_clock e) sys)"
    by (auto simp: remove_attr_indexes_def engine_aux res_simps split: option.splits)
  then show ?thesis using e2(2) by auto
qed (auto simp: create_object_def delete_object_def engine_add_tag_def add_tag_indexes_def set_attr_def set_attr_indexes_def
    add_relation_def remove_relation_def write_blob_def engine_aux res_simps split: if_splits)

lemma replay_op_lsn: "replay_op en op e = ok e' \<Longrightarrow> e_last_applied_lsn e' = e_last_applied_lsn e"
proof (induction en op e rule: replay_op.induct)
  case (4 en oid tag e)
  then show ?case by (auto simp: replay_remove_tag_def remove_tag_indexes_def Let_def res_simps split_beta split: if_splits)
next
  case (6 en oid key h e)
  then show ?case by (auto simp: replay_remove_attr_by_hash_def remove_attr_indexes_def res_simps split: option.splits)
qed (auto simp: replay_create_object_def replay_delete_object_def replay_add_tag_def add_tag_indexes_def replay_set_attr_def
    set_attr_indexes_def replay_add_relation_def replay_remove_relation_def replay_write_blob_def ensure_record_def engine_touch_def
    Let_def res_simps split_beta split: if_splits)

lemma replay_entries_append:
  "replay_entries wc en (xs @ ys) e = rbind (replay_entries wc en xs e) (replay_entries wc en ys)"
proof (induction xs arbitrary: e)
  case (Cons x xs)
  show ?case
  proof (cases x)
    case (Inr entry)
    then show ?thesis
      by (cases "wal_op_kind_from_u8 (eh_op_kind (we_header entry)) :: (wal_error, wal_op_kind) res")
        (auto simp: Cons.IH map_err_def split: sum.splits failure.splits)
  qed (simp add: map_err_def split: failure.splits)
qed simp

lemma project_not_checkpoint: "wal_op_kind_of (project_op op) \<noteq> OpCheckpoint"
  by (cases op) simp_all

text \<open>One more entry of the run.\<close>

lemma replay_entry:
  assumes wc: "wal_codec wc" and enc: "wal_op_encode wc (project_op op) = ok (kind, payload)"
    and r: "replay_op en (project_op op) r = ok r'" and lsn: "e_last_applied_lsn r < lsn"
  shows "replay_entries wc en [ok (new_entry crc kind payload ts 0 lsn)] r = ok (r'\<lparr>e_last_applied_lsn := lsn\<rparr>)"
proof -
  have "kind \<noteq> OpCheckpoint" using enc project_not_checkpoint by (auto simp: wal_op_encode_def res_simps)
  then show ?thesis
    using wal_codec.encode_decode [OF wc enc] r lsn replay_op_lsn [OF r]
    by (simp add: new_entry_def entry_header_new_def wal_op_kind_from_u8_u8 replay_wal_op_def)
qed

definition disk_inv where
  "disk_inv crc wc en e0 n0 de \<longleftrightarrow> (\<exists>es. wal_reach crc (de_wal de) (de_dev de) es \<and> (\<forall>x\<in>set es. n0 \<le> entry_lsn x) \<and>
     n0 \<le> wh_next_lsn (w_header (de_wal de)) \<and> clock_ok (e_clock (de_engine de)) \<and>
     (\<forall>r. same_ix e0 r \<longrightarrow> e_last_applied_lsn r < n0 \<longrightarrow>
        (\<exists>r'. replay_entries wc en (map ok es) r = ok r' \<and> same_ix (de_engine de) r' \<and>
              e_last_applied_lsn r' < wh_next_lsn (w_header (de_wal de)))))"

lemma clock_now_ts: "clock_ok c \<Longrightarrow> ts_ok (fst (clock_now c sys))"
  by (simp add: clock_now_eq tick_ok clock_now_ns_ok) (simp add: clock_ok_def tick_ok clock_now_ns_ok)

lemma appended_next_lsn:
  assumes "crc_ok crc" and "wal_reach crc w d (es @ [x])"
  shows "wh_next_lsn (w_header w) = entry_lsn x + 1"
proof -
  have "lsns_ok w (es @ [x])" using wal_reach_fring [OF assms(2,1)] by (simp add: ring_inv_def data_ok_def)
  then show ?thesis by (auto simp: lsns_ok_def dest: spec [of _ "length es"])
qed

lemma disk_step_inv:
  assumes crc: "crc_ok crc" and wc: "wal_codec wc" and inv: "disk_inv crc wc en e0 n0 de"
    and rp: "replayable op (de_engine de)" and st: "disk_step (file_env crc wc) tf en op de de'"
  shows "disk_inv crc wc en e0 n0 de'"
proof -
  obtain es where es: "wal_reach crc (de_wal de) (de_dev de) es" "\<forall>x\<in>set es. n0 \<le> entry_lsn x"
    "n0 \<le> wh_next_lsn (w_header (de_wal de))" "clock_ok (e_clock (de_engine de))"
    and ih: "\<And>r. same_ix e0 r \<Longrightarrow> e_last_applied_lsn r < n0 \<Longrightarrow> \<exists>r'. replay_entries wc en (map ok es) r = ok r' \<and>
      same_ix (de_engine de) r' \<and> e_last_applied_lsn r' < wh_next_lsn (w_header (de_wal de))"
    using inv unfolding disk_inv_def by blast
  obtain de1 sys lsn where live: "live tf en op (de_engine de) (de_engine de1)" and same: "de_wal de1 = de_wal de" "de_dev de1 = de_dev de"
    and app: "append_wal (file_env crc wc) sys op de1 = (ok lsn, de')"
    using disk_step_logged [OF st] unfolding logged_step_def by blast
  have c1: "clock_ok (e_clock (de_engine de1))" using live_clock [OF live] es(4) clock_now_ok by metis
  let ?ts = "fst (engine_now sys (de_engine de1))"
  have ts: "ts_ok ?ts" using clock_now_ts [OF c1] by (simp add: engine_aux)
  from app obtain kind payload w d where enc: "wal_op_encode wc (project_op op) = ok (kind, payload)"
    and ap: "append_raw file_block_device crc (de_wal de) (de_dev de) kind payload ?ts 0 = ok (lsn, w, d)"
    and de': "de' = de1\<lparr>de_engine := snd (engine_now sys (de_engine de1)), de_wal := w, de_dev := d\<rparr>"
    by (rule append_wal_ok) (simp add: same)
  let ?x = "new_entry crc kind payload ?ts 0 lsn"
  have reach: "wal_reach crc w d (es @ [?x])" using reach_append [OF es(1) ts _ ap] by simp
  have lsn: "lsn = wh_next_lsn (w_header (de_wal de))" using append_raw_InrD(8) [OF ap] .
  have nxt: "wh_next_lsn (w_header w) = lsn + 1" using appended_next_lsn [OF crc reach] by simp
  have "\<exists>r'. replay_entries wc en (map ok (es @ [?x])) r = ok r' \<and> same_ix (de_engine de') r' \<and> e_last_applied_lsn r' < lsn + 1"
    if r: "same_ix e0 r" "e_last_applied_lsn r < n0" for r
  proof -
    obtain r1 where r1: "replay_entries wc en (map ok es) r = ok r1" "same_ix (de_engine de) r1" "e_last_applied_lsn r1 < lsn"
      using ih [OF r] lsn by blast
    obtain r2 where r2: "replay_op en (project_op op) r1 = ok r2" "same_ix (de_engine de1) r2" using replay_step [OF r1(2) live rp] by blast
    have "replay_entries wc en (map ok (es @ [?x])) r = ok (r2\<lparr>e_last_applied_lsn := lsn\<rparr>)"
      using replay_entry [OF wc enc r2(1) r1(3)] r1(1) by (simp only: map_append replay_entries_append list.map) simp
    moreover have "same_ix (de_engine de') (r2\<lparr>e_last_applied_lsn := lsn\<rparr>)"
      using same_ix_now [OF r2(2), of sys] by (simp add: de' same_ix_def)
    ultimately show ?thesis by fastforce
  qed
  moreover have "clock_ok (e_clock (de_engine de'))" using clock_now_ok [OF c1] by (simp add: de' engine_aux)
  ultimately show ?thesis
    using reach es(2,3) lsn nxt unfolding disk_inv_def by (intro exI [of _ "es @ [?x]"]) (auto simp: de')
qed

lemma ring_room:
  assumes "crc_ok crc" and "wal_reach crc w d es"
  shows "length es < data_sectors w \<longleftrightarrow> wh_used_bytes (w_header w) + 4096 \<le> data_capacity w"
  using wal_reach_fring [OF assms(2,1)] by (auto simp: ring_inv_def data_ok_def cursors_ok_def data_capacity_def)

lemma disk_run_inv:
  assumes "disk_run crc wc tf en e0 n0 ops de" and "crc_ok crc" and "wal_codec wc"
  shows "disk_inv crc wc en e0 n0 de"
  using assms
proof induction
  case (dr_start de)
  then show ?case unfolding disk_inv_def by (intro exI [of _ "[]"]) simp
next
  case (dr_step e0 n0 ops de op de')
  then show ?case using disk_step_inv by blast
next
  case (dr_torn_data e0 n0 ops de s)
  then obtain es where es: "wal_reach crc (de_wal de) (de_dev de) es" and "\<forall>x\<in>set es. n0 \<le> entry_lsn x"
    "n0 \<le> wh_next_lsn (w_header (de_wal de))" "clock_ok (e_clock (de_engine de))"
    "\<forall>r. same_ix e0 r \<longrightarrow> e_last_applied_lsn r < n0 \<longrightarrow> (\<exists>r'. replay_entries wc en (map ok es) r = ok r' \<and>
      same_ix (de_engine de) r' \<and> e_last_applied_lsn r' < wh_next_lsn (w_header (de_wal de)))"
    unfolding disk_inv_def by blast
  moreover have "wal_reach crc (de_wal de) (torn_data (de_wal de) (de_dev de) s) es"
    using reach_torn_data [OF es _ dr_torn_data(3)] ring_room [OF dr_torn_data.prems(1) es] dr_torn_data(2) by simp
  ultimately show ?case unfolding disk_inv_def by (intro exI [of _ es]) simp
next
  case (dr_torn_header e0 n0 ops de hb)
  then obtain es where es: "wal_reach crc (de_wal de) (de_dev de) es" and "\<forall>x\<in>set es. n0 \<le> entry_lsn x"
    "n0 \<le> wh_next_lsn (w_header (de_wal de))" "clock_ok (e_clock (de_engine de))"
    "\<forall>r. same_ix e0 r \<longrightarrow> e_last_applied_lsn r < n0 \<longrightarrow> (\<exists>r'. replay_entries wc en (map ok es) r = ok r' \<and>
      same_ix (de_engine de) r' \<and> e_last_applied_lsn r' < wh_next_lsn (w_header (de_wal de)))"
    unfolding disk_inv_def by blast
  moreover have "wal_reach crc (de_wal de) (torn_header (de_wal de) (de_dev de) hb) es"
    using reach_torn_header [OF es dr_torn_header(2,3)] .
  ultimately show ?case unfolding disk_inv_def by (intro exI [of _ es]) simp
qed

section \<open>Properties\<close>

text \<open>C3. No acknowledged operation is lost. Take a run of the nine logged operations, each acknowledged, since the
  log was empty, with appends interrupted in between whose torn header slot does not pass for a header, in which
  every created object is new with an id below $2^{48}$ and no object is deleted that still has attributes
  (replaying such a deletion leaves its values behind). Opening the log and replaying it on an engine that
  agrees with the one at the start of the run and has applied none of the entries gives an engine with the same
  tag, value, range and forward indexes, ontology, id counter and location table, object records with the same
  id, state, content hash and blob length, and the same answers to queries as the one that was lost. Stored
  sizes, counters and timestamps of the records are not logged and may differ.\<close>

theorem disk_recovery:
  assumes "crc_ok crc" and "wal_codec wc" and "disk_run crc wc tf en e0 n0 ops de" and "same_ix e0 r"
    and "e_last_applied_lsn r < n0"
  shows "\<exists>w r'. wal_open file_block_device crc (de_dev de) (w_base (de_wal de)) (w_size (de_wal de)) = ok w \<and>
    replay_wal (file_env crc wc) en (de\<lparr>de_engine := r, de_wal := w\<rparr>) = ok (de\<lparr>de_engine := r', de_wal := w\<rparr>) \<and>
    same_ix (de_engine de) r' \<and> query_full en q r' = query_full en q (de_engine de)"
proof -
  let ?w = "(de_wal de)\<lparr>w_read_only := False\<rparr>"
  obtain es where es: "wal_reach crc (de_wal de) (de_dev de) es" "\<forall>x\<in>set es. n0 \<le> entry_lsn x"
    and ih: "\<And>r. same_ix e0 r \<Longrightarrow> e_last_applied_lsn r < n0 \<Longrightarrow> \<exists>r'. replay_entries wc en (map ok es) r = ok r' \<and> same_ix (de_engine de) r'"
    using disk_run_inv [OF assms(3,1,2)] unfolding disk_inv_def by blast
  obtain r' where r': "replay_entries wc en (map ok es) r = ok r'" "same_ix (de_engine de) r'" using ih [OF assms(4,5)] by blast
  have inv: "fring crc (de_wal de) (de_dev de) es" using wal_reach_fring [OF es(1) assms(1)] .
  let ?s = "min (e_last_applied_lsn r + 1) (2 ^ 64 - 1)"
  have "?s \<le> entry_lsn x" if "x \<in> set es" for x
    using es(2) assms(5) that by (intro min.coboundedI1) (auto simp: Suc_le_eq intro: less_le_trans)
  then have "filter (\<lambda>x. ?s \<le> entry_lsn x) es = es" by simp
  then have "wal_iter_collect file_block_device crc (de_dev de) (iter_from ?w ?s) = map ok es"
    using fdev.iter_ring [OF assms(1), of "de_dev de" ?w es ?s] inv by simp
  then have "replay_wal (file_env crc wc) en (de\<lparr>de_engine := r, de_wal := ?w\<rparr>) = ok (de\<lparr>de_engine := r', de_wal := ?w\<rparr>)"
    using r'(1) by (simp add: replay_wal_def Let_def)
  then show ?thesis using fring_open [OF inv] r'(2) same_ix_query [OF r'(2)] by blast
qed

text \<open>A disk engine on a fresh log with two sectors.\<close>

lemma wit_disk:
  obtains w d where "disk_run zcrc fw_codec wit_tf wit_qenv (engine_new wit_qenv 0) 1 []
      \<lparr>de_engine = engine_new wit_qenv 0, de_blobs = [], de_dev = d, de_superblock = superblock_zero, de_wal = w, de_read_only = False\<rparr>"
    "wal_reach zcrc w d []" "data_sectors w = 2" "\<not> w_read_only w" "wh_next_lsn (w_header w) = 1"
    "bh_generation (wh_header (w_header w)) = 1"
proof -
  obtain w d where w: "wal_reach zcrc w d []" "data_sectors w = 2" "\<not> w_read_only w"
      "wh_next_lsn (w_header w) = 1" "bh_generation (wh_header (w_header w)) = 1"
    using wit_format by metis
  let ?de = "\<lparr>de_engine = engine_new wit_qenv 0, de_blobs = [], de_dev = d, de_superblock = superblock_zero, de_wal = w, de_read_only = False\<rparr>"
  have "clock_ok (e_clock (engine_new wit_qenv 0))" by (simp add: engine_new_def clock_ok_def clock_new_def ts_ok_def i64_ok_def)
  then have "disk_run zcrc fw_codec wit_tf wit_qenv (engine_new wit_qenv 0) 1 [] ?de"
    using dr_start [of zcrc ?de fw_codec wit_tf wit_qenv] w by simp
  then show thesis using that w by blast
qed

lemma wit_disk_create:
  obtains de where "disk_run zcrc fw_codec wit_tf wit_qenv (engine_new wit_qenv 0) 1 [KCreateObject 1] de" "has_object 1 (de_engine de)"
proof -
  obtain w d where run: "disk_run zcrc fw_codec wit_tf wit_qenv (engine_new wit_qenv 0) 1 []
      \<lparr>de_engine = engine_new wit_qenv 0, de_blobs = [], de_dev = d, de_superblock = superblock_zero, de_wal = w, de_read_only = False\<rparr>"
    and w: "wal_reach zcrc w d []" "data_sectors w = 2" "\<not> w_read_only w" "wh_next_lsn (w_header w) = 1"
    "bh_generation (wh_header (w_header w)) = 1" by (rule wit_disk)
  let ?de = "\<lparr>de_engine = engine_new wit_qenv 0, de_blobs = [], de_dev = d, de_superblock = superblock_zero, de_wal = w, de_read_only = False\<rparr>"
  obtain p where p: "wal_op_encode fw_codec (WCreateObject (WalCreateObject 1 0 0)) = ok (OpCreateObject, p)" "length p \<le> 4052"
    by (simp add: wal_op_encode_def fw_codec_def i64_ok_def)
  let ?ts = "fst (engine_now (Some 6) wit_e1)"
  have "clock_ok (e_clock (engine_new wit_qenv 0))" by (simp add: engine_new_def clock_ok_def clock_new_def ts_ok_def i64_ok_def)
  then have "clock_ok (e_clock wit_e1)" by (simp add: wit_e1_def create_object_def engine_aux engine_new_def clock_now_ok)
  then have ts: "ts_ok ?ts" using clock_now_ts by (simp add: engine_aux)
  obtain w' d' where "append_raw file_block_device zcrc w d OpCreateObject p ?ts 0 = ok (wh_next_lsn (w_header w), w', d')"
    by (rule wal_append_step [OF zcrc_ok w(1,3), of 0 p ?ts OpCreateObject]) (use w p(2) ts in simp_all)
  then obtain de' where step: "disk_create_object (file_env zcrc fw_codec) (Some 5) (Some 6) ?de = (ok 1, de')"
      and eng: "de_engine de' = snd (engine_now (Some 6) wit_e1)"
    using p(1) wit_create by (simp add: disk_create_object_def log_and_return_def append_wal_def split_beta Let_def)
  have "disk_run zcrc fw_codec wit_tf wit_qenv (engine_new wit_qenv 0) 1 ([] @ [KCreateObject 1]) de'"
    by (rule dr_step [OF run _ ds_create [OF step]]) (simp add: engine_new_def has_object_def)
  moreover have "has_object 1 (de_engine de')" using wit_e1_fields(1) eng by (simp add: has_object_def engine_aux)
  ultimately show thesis using that by simp
qed

theorem disk_recovery_witness:
  "\<exists>de w r'. has_object 1 (de_engine de) \<and>
     wal_open file_block_device zcrc (de_dev de) (w_base (de_wal de)) (w_size (de_wal de)) = ok w \<and>
     replay_wal (file_env zcrc fw_codec) wit_qenv (de\<lparr>de_engine := engine_new wit_qenv 0, de_wal := w\<rparr>) =
       ok (de\<lparr>de_engine := r', de_wal := w\<rparr>) \<and> has_object 1 r'"
proof -
  obtain de where de: "disk_run zcrc fw_codec wit_tf wit_qenv (engine_new wit_qenv 0) 1 [KCreateObject 1] de" "has_object 1 (de_engine de)"
    by (rule wit_disk_create)
  have "same_ix (engine_new wit_qenv 0) (engine_new wit_qenv 0)" "e_last_applied_lsn (engine_new wit_qenv 0) < 1"
    by (simp_all add: same_ix_def engine_new_def)
  from disk_recovery [OF zcrc_ok fwc.wal_codec_axioms de(1) this] show ?thesis using de(2) same_ixD(11) by blast
qed

subsection \<open>A full log\<close>

lemma append_raw_full:
  assumes "crc_ok crc" and "wal_reach crc w d es" and "\<not> w_read_only w" and "data_capacity w < wh_used_bytes (w_header w) + 4096"
    and "length payload \<le> 4052"
  shows "append_raw file_block_device crc w d kind payload ts 0 = err (RingFull (data_capacity w) (data_capacity w))"
proof -
  have inv: "fring crc w d es" using wal_reach_fring [OF assms(2,1)] .
  then have "length es \<le> data_sectors w" by (simp add: ring_inv_def data_ok_def cursors_ok_def)
  then have "length es = data_sectors w" using ring_room [OF assms(1,2)] assms(4) by linarith
  then show ?thesis using fdev.append_full [of crc w d es 0 payload] inv assms(3,5) by simp
qed

text \<open>C36. A full log leaves the engine stuck and out of step: creating an object reports that the ring is full, although the
  object is there in memory, and \<open>commit\<close>, which alone trims the log, fails the same way, because it first appends its own
  checkpoint entry. Log and device stay as they were.\<close>

theorem full_log_stuck:
  assumes "crc_ok crc" and "disk_run crc wc tf en e0 n0 ops de" and "wal_codec wc" and "\<not> de_read_only de" and "\<not> w_read_only (de_wal de)"
    and "data_capacity (de_wal de) < wh_used_bytes (w_header (de_wal de)) + 4096" and "bm_wf (e_object_table (de_engine de))"
    and "ze_offset (sb_index_zone (de_superblock de)) < 2 ^ 63"
    and "\<And>oid. \<exists>k p. wal_op_encode wc (WCreateObject (WalCreateObject oid 0 0)) = ok (k, p) \<and> length p \<le> 4052"
    and "\<And>root. \<exists>k p. wal_op_encode wc (WCheckpoint (checkpoint_from_root root 0)) = ok (k, p) \<and> length p \<le> 4052"
  shows "(\<exists>de' oid. disk_create_object (file_env crc wc) sys sys' de =
        (err (EngWal (RingFull (data_capacity (de_wal de)) (data_capacity (de_wal de)))), de') \<and>
      fst (create_object sys (de_engine de)) = oid \<and> has_object oid (de_engine de') \<and> de_wal de' = de_wal de \<and> de_dev de' = de_dev de) \<and>
    (\<exists>de'. commit_after_save (file_env crc wc) sys de =
        (err (EngWal (RingFull (data_capacity (de_wal de)) (data_capacity (de_wal de)))), de') \<and>
      de_wal de' = de_wal de \<and> de_dev de' = de_dev de)"
proof
  obtain es where "wal_reach crc (de_wal de) (de_dev de) es" using disk_run_inv [OF assms(2,1,3)] unfolding disk_inv_def by blast
  note full = append_raw_full [OF assms(1) this assms(5,6)]
  obtain oid e' where c: "create_object sys (de_engine de) = (oid, e')" by fastforce
  obtain k p where p: "wal_op_encode wc (WCreateObject (WalCreateObject oid 0 0)) = ok (k, p)" "length p \<le> 4052"
    using assms(9) by blast
  have "e_object_table (snd (create_object sys (de_engine de))) = object_table_insert
      ((set_state ObjActive (object_record_new (fst (create_object sys (de_engine de)))))\<lparr>
         or_created_ns := physical_ns (fst (clock_now (e_clock (de_engine de)) sys)),
         or_modified_ns := physical_ns (fst (clock_now (e_clock (de_engine de)) sys))\<rparr>) (e_object_table (de_engine de))"
    by (simp add: create_object_def engine_aux)
  then have "has_object oid e'"
    using assms(7) by (simp add: c has_object_def object_table_insert_def set_state_def object_record_new_def bm_get_insert)
  then have "has_object oid (snd (engine_now sys' e'))" by (simp add: has_object_def engine_aux)
  then show "\<exists>de' oid. disk_create_object (file_env crc wc) sys sys' de =
        (err (EngWal (RingFull (data_capacity (de_wal de)) (data_capacity (de_wal de)))), de') \<and>
      fst (create_object sys (de_engine de)) = oid \<and> has_object oid (de_engine de') \<and> de_wal de' = de_wal de \<and> de_dev de' = de_dev de"
    using full [OF p(2)] p(1) c assms(4) by (simp add: disk_create_object_def log_and_return_def append_wal_def split_beta Let_def)
  let ?root = "active_root_pointer (de_superblock de)"
  obtain root2 where r2: "seed_root_pointer (?root\<lparr>rp_seq := min (rp_seq ?root + 1) (2 ^ 64 - 1),
      rp_lsn := wh_next_lsn (w_header (de_wal de))\<rparr>) (sb_disk_id (de_superblock de)) (ze_offset (sb_index_zone (de_superblock de))) =
      (ok root2 :: (engine_error, root_pointer) res)"
    using assms(8) by (simp add: seed_root_pointer_def root_ref_for_def zone_layout)
  obtain k p where p: "wal_op_encode wc (WCheckpoint (checkpoint_from_root (root_pointer_recompute_crc crc root2) 0)) = ok (k, p)"
      "length p \<le> 4052"
    using assms(10) by blast
  show "\<exists>de'. commit_after_save (file_env crc wc) sys de =
        (err (EngWal (RingFull (data_capacity (de_wal de)) (data_capacity (de_wal de)))), de') \<and>
      de_wal de' = de_wal de \<and> de_dev de' = de_dev de"
    using full [OF p(2)] p(1) r2 by (simp add: commit_after_save_def split_beta Let_def)
qed

definition wit_disk_at :: "nat \<Rightarrow> (32 word list, list_graph, file_device) disk_engine \<Rightarrow> bool" where
  "wit_disk_at k de \<longleftrightarrow> (\<exists>ops. disk_run zcrc fw_codec wit_tf wit_qenv (engine_new wit_qenv 0) 1 ops de) \<and>
     (\<exists>es. wal_reach zcrc (de_wal de) (de_dev de) es \<and> length es = k) \<and> data_sectors (de_wal de) = 2 \<and>
     \<not> de_read_only de \<and> \<not> w_read_only (de_wal de) \<and> wh_next_lsn (w_header (de_wal de)) = k + 1 \<and>
     bh_generation (wh_header (w_header (de_wal de))) = k + 1 \<and> de_superblock de = superblock_zero \<and>
     engine_ok wl_set wit_qenv lg_wf False (de_engine de) \<and> clock_ok (e_clock (de_engine de)) \<and> e_next_oid_local (de_engine de) = k + 1"

lemma wit_disk_next:
  assumes "wit_disk_at k de" and k: "k < 2"
  obtains de' where "wit_disk_at (k + 1) de'"
proof -
  obtain ops es where run: "disk_run zcrc fw_codec wit_tf wit_qenv (engine_new wit_qenv 0) 1 ops de"
    and es: "wal_reach zcrc (de_wal de) (de_dev de) es" "length es = k" and w: "data_sectors (de_wal de) = 2"
    "\<not> de_read_only de" "\<not> w_read_only (de_wal de)" "wh_next_lsn (w_header (de_wal de)) = k + 1"
    "bh_generation (wh_header (w_header (de_wal de))) = k + 1" "de_superblock de = superblock_zero"
    "engine_ok wl_set wit_qenv lg_wf False (de_engine de)" "clock_ok (e_clock (de_engine de))" "e_next_oid_local (de_engine de) = k + 1"
    using assms(1) unfolding wit_disk_at_def by blast
  obtain oid e' where c: "create_object None (de_engine de) = (oid, e')" by fastforce
  note C = wlq.create_ok [OF w(7) c]
  have n: "e_next_oid_local (de_engine de) < 2 ^ 32" using w(9) k by simp
  have c1: "clock_ok (e_clock e')" using live_clock [OF live_create [OF c]] w(8) clock_now_ok by metis
  have nx: "e_next_oid_local e' = k + 2" using c w(9) k by (auto simp: create_object_def engine_aux)
  let ?ts = "fst (engine_now None e')"
  have ts: "ts_ok ?ts" using clock_now_ts [OF c1] by (simp add: engine_aux)
  obtain p where p: "wal_op_encode fw_codec (WCreateObject (WalCreateObject oid 0 0)) = ok (OpCreateObject, p)" "length p \<le> 4052"
    by (simp add: wal_op_encode_def fw_codec_def i64_ok_def)
  obtain w' d' where app: "append_raw file_block_device zcrc (de_wal de) (de_dev de) OpCreateObject p ?ts 0 = ok (wh_next_lsn (w_header (de_wal de)), w', d')"
    and r': "wal_reach zcrc w' d' (es @ [new_entry zcrc OpCreateObject p ?ts 0 (wh_next_lsn (w_header (de_wal de)))])"
    and w': "\<not> w_read_only w'" "w_size w' = w_size (de_wal de)"
    by (rule wal_append_step [OF zcrc_ok es(1) w(3), of 0 p ?ts OpCreateObject]) (use w es p(2) ts k in simp_all)
  have hdr: "wh_next_lsn (w_header w') = k + 2" "bh_generation (wh_header (w_header w')) = k + 2"
    using app w(4,5) by (auto simp: append_raw_def Let_def res_simps flush_header_def add_u64_def advance_write_def split: if_splits)
  let ?de = "de\<lparr>de_engine := snd (engine_now None e'), de_wal := w', de_dev := d'\<rparr>"
  have step: "disk_create_object (file_env zcrc fw_codec) None None de = (ok oid, ?de)"
    using p(1) c app w(2) by (simp add: disk_create_object_def log_and_return_def append_wal_def split_beta Let_def)
  have "disk_run zcrc fw_codec wit_tf wit_qenv (engine_new wit_qenv 0) 1 (ops @ [KCreateObject oid]) ?de"
    by (rule dr_step [OF run _ ds_create [OF step]]) (use C(3) [OF n] n w(9) in simp)
  moreover have "engine_ok wl_set wit_qenv lg_wf False (snd (engine_now None e'))"
    by (rule wlq.onto_change_ok [OF C(1) [OF n]]) (simp_all add: engine_aux engine_okD(3) [OF C(1) [OF n]])
  ultimately have "wit_disk_at (k + 1) ?de"
    unfolding wit_disk_at_def
    using r' es(2) w w' hdr nx clock_now_ok [OF c1] by (auto simp: engine_aux data_sectors_def)
  then show thesis by (rule that)
qed

theorem full_log_stuck_witness:
  "\<exists>(de :: (32 word list, list_graph, file_device) disk_engine) oid de'.
     disk_create_object (file_env zcrc fw_codec) None None de = (err (EngWal (RingFull 8192 8192)), de') \<and>
     has_object oid (de_engine de') \<and> de_dev de' = de_dev de \<and>
     fst (commit_after_save (file_env zcrc fw_codec) None de) = err (EngWal (RingFull 8192 8192))"
proof -
  obtain w d where run: "disk_run zcrc fw_codec wit_tf wit_qenv (engine_new wit_qenv 0) 1 []
      \<lparr>de_engine = engine_new wit_qenv 0, de_blobs = [], de_dev = d, de_superblock = superblock_zero, de_wal = w, de_read_only = False\<rparr>"
    and w: "wal_reach zcrc w d []" "data_sectors w = 2" "\<not> w_read_only w" "wh_next_lsn (w_header w) = 1"
    "bh_generation (wh_header (w_header w)) = 1" by (rule wit_disk)
  have "wit_disk_at 0 \<lparr>de_engine = engine_new wit_qenv 0, de_blobs = [], de_dev = d, de_superblock = superblock_zero, de_wal = w, de_read_only = False\<rparr>"
    unfolding wit_disk_at_def using run w wlq.start_ok [of False]
    by (auto simp: engine_new_def clock_ok_def clock_new_def ts_ok_def i64_ok_def)
  then obtain de1 where "wit_disk_at 1 de1" using wit_disk_next [of 0] by auto
  then obtain de where "wit_disk_at 2 de" using wit_disk_next [of 1] by (auto simp: numeral_2_eq_2)
  then obtain ops es where run: "disk_run zcrc fw_codec wit_tf wit_qenv (engine_new wit_qenv 0) 1 ops de"
    and es: "wal_reach zcrc (de_wal de) (de_dev de) es" "length es = 2" and de: "data_sectors (de_wal de) = 2" "\<not> de_read_only de"
    "\<not> w_read_only (de_wal de)" "de_superblock de = superblock_zero" "bm_wf (e_object_table (de_engine de))"
    unfolding wit_disk_at_def using engine_okD(1) by blast
  have cap: "data_capacity (de_wal de) = 8192" using de(1) by (simp add: data_sectors_def data_capacity_def)
  have full: "data_capacity (de_wal de) < wh_used_bytes (w_header (de_wal de)) + 4096"
    using ring_room [OF zcrc_ok es(1)] es(2) de(1) by simp
  have cr: "\<exists>k p. wal_op_encode fw_codec (WCreateObject (WalCreateObject oid 0 0)) = ok (k, p) \<and> length p \<le> 4052" for oid
    by (simp add: wal_op_encode_def fw_codec_def i64_ok_def)
  have cp: "\<exists>k p. wal_op_encode fw_codec (WCheckpoint (checkpoint_from_root root 0)) = ok (k, p) \<and> length p \<le> 4052" for root
    by (simp add: wal_op_encode_def fw_codec_def checkpoint_from_root_def)
  have "ze_offset (sb_index_zone (de_superblock de)) < 2 ^ 63" by (simp add: de(4) superblock_zero_def zone_extent_zero_def)
  from full_log_stuck [OF zcrc_ok run fwc.wal_codec_axioms de(2,3) full de(5) this cr cp, of None None]
  show ?thesis unfolding cap by (intro exI [of _ de]) force
qed

end
