(* ===== verification/Mb_Zone.thy ===== *)
theory Mb_Zone
  imports Mb_Disk_Engine
begin

text \<open>
  The layout of the index zone: the slots of the root pointer, the blob with the scalars, and where it runs into its
  neighbour.
\<close>

section \<open>Root slots\<close>

text \<open>The ten regions named by the root pointer, with their offsets.\<close>

definition root_slots :: "(nat \<times> (root_pointer \<Rightarrow> block_ref)) list" where
  "root_slots = [(CHUNK_INDEX_REGION_OFFSET, rp_chunk_index_root), (KV_INDEX_REGION_OFFSET, rp_kv_index_root),
     (FORWARD_INDEX_REGION_OFFSET, rp_forward_index_root), (TAG_INDEX_REGION_OFFSET, rp_tag_index_root),
     (RANGE_INDEX_REGION_OFFSET, rp_range_index_root), (OBJECT_TABLE_REGION_OFFSET, rp_object_table_root),
     (LOCATION_TABLE_REGION_OFFSET, rp_location_table_root), (ONTOLOGY_REGION_OFFSET, rp_ontology_root),
     (SUBSCRIPTIONS_REGION_OFFSET, rp_subscriptions_root), (BACKPOINTER_TABLE_REGION_OFFSET, rp_backpointer_root)]"

lemma root_ref_offset:
  assumes "4096 dvd zone" and "4096 dvd off" and "zone + off < 2 ^ 44" and "(root_ref_for disk zone off :: ('e, block_ref) res) = ok b"
  shows "root_slot_offset b = zone + off"
proof -
  have "(zone + off) div 4096 < 2 ^ 32" using assms(3) by (simp add: less_mult_imp_div_less)
  then show ?thesis
    using assms by (auto simp: root_ref_for_def root_slot_offset_def block_ref_new_def add_u64_def dvd_div_mult_self split: if_splits)
qed

section \<open>The index blob\<close>

context block_dev
begin

lemma save_index_blob_image:
  assumes "dinv d" and "bc_ser bc blob = ok payload" and "save_index_blob ops bc zone len blob d = ok d'"
  defines "framed \<equiv> le_bytes 4 INDEX_BLOB_MAGIC @ le_bytes 4 (length payload mod 2 ^ 32) @ payload"
  shows "dinv d'" and "image d' = bsplice (zone + LEGACY_CBOR_BLOB_OFFSET) framed (image d)"
    and "zone + LEGACY_CBOR_BLOB_OFFSET + length framed \<le> dev_capacity ops d" "dev_capacity ops d' = dev_capacity ops d"
    and "8 + length payload \<le> len - LEGACY_CBOR_BLOB_OFFSET" "LEGACY_CBOR_BLOB_OFFSET \<le> len"
proof -
  obtain d1 where w: "write_at ops d (zone + LEGACY_CBOR_BLOB_OFFSET) framed = ok d1" and sync: "dev_sync ops d1 = ok d'"
    and len: "8 + length payload \<le> len - LEGACY_CBOR_BLOB_OFFSET" "LEGACY_CBOR_BLOB_OFFSET \<le> len"
    using assms(2,3) unfolding framed_def by (auto simp: save_index_blob_def res_simps add_u64_def Let_def split: if_splits)
  note ws = write_success [OF assms(1) w]
  obtain d2 where "write_at ops d (zone + LEGACY_CBOR_BLOB_OFFSET) framed = Inr d2" "dinv d2" "writable d2"
      "dev_capacity ops d2 = dev_capacity ops d" "image d2 = bsplice (zone + LEGACY_CBOR_BLOB_OFFSET) framed (image d)"
    using write_in [OF assms(1) ws(1,2)] by blast
  moreover then have "d2 = d1" "d' = d1" using w sync sync_ok [of d1] by auto
  ultimately show "dinv d'" "image d' = bsplice (zone + LEGACY_CBOR_BLOB_OFFSET) framed (image d)"
    "zone + LEGACY_CBOR_BLOB_OFFSET + length framed \<le> dev_capacity ops d" "dev_capacity ops d' = dev_capacity ops d"
    using ws(2) by simp_all
qed (use assms(2,3) in \<open>auto simp: save_index_blob_def res_simps add_u64_def Let_def split: if_splits\<close>)

lemma index_blob_read_back:
  assumes "dinv d" and ser: "bc_ser bc blob = ok payload" "bc_de bc payload = ok blob" and "length payload < 2 ^ 32"
    and save: "save_index_blob ops bc zone len blob d = ok d'"
  shows "read_index_blob ops bc zone len d' = ok (Some blob)"
proof -
  note S = save_index_blob_image [OF assms(1) ser(1) save]
  let ?at = "zone + LEGACY_CBOR_BLOB_OFFSET"
  let ?f = "le_bytes 4 INDEX_BLOB_MAGIC @ le_bytes 4 (length payload mod 2 ^ 32) @ payload"
  have fit: "?at + length ?f \<le> length (image d)" using S(3) cap_image [OF assms(1)] by simp
  have img: "bslice (?at + a) n (image d') = bslice a n ?f" if "a + n \<le> length ?f" for a n
    using bslice_bslice [of a n "length ?f" ?at "image d'"] that fit unfolding S(2) by simp
  have cap: "?at + 8 + length payload \<le> dev_capacity ops d'" "dev_capacity ops d' < 2 ^ 64"
    using S(3,4) cap_u64 [OF assms(1)] by simp_all
  have h: "read_at ops d' ?at 8 = ok (bslice 0 8 ?f)" using read_in [OF S(1), of ?at 8] cap img [of 0 8] by simp
  have p: "read_at ops d' (?at + 8) (length payload) = ok payload"
    using read_in [OF S(1), of "?at + 8" "length payload"] cap img [of 8 "length payload"] by (simp add: bslice_def)
  have m: "get_le 0 4 (bslice 0 8 ?f) = INDEX_BLOB_MAGIC" "get_le 4 4 (bslice 0 8 ?f) = length payload"
    using assms(4) by (simp_all add: get_le_def bslice_def INDEX_BLOB_MAGIC_def le_nat_le_bytes)
  have "zone + LEGACY_CBOR_BLOB_OFFSET < 2 ^ 64" "?at + 8 < 2 ^ 64" using cap by linarith+
  then show ?thesis
    using S(5,6) h p m ser(2) unfolding read_index_blob_def by (simp add: INDEX_BLOB_MAGIC_def Let_def)
qed

lemma save_index_blob_ok:
  assumes "dinv d" and "writable d" and "bc_ser bc blob = ok payload" and "8 + length payload \<le> len - LEGACY_CBOR_BLOB_OFFSET"
    and "LEGACY_CBOR_BLOB_OFFSET \<le> len" and "zone + len \<le> dev_capacity ops d"
  shows "\<exists>d'. save_index_blob ops bc zone len blob d = ok d'"
proof -
  let ?f = "le_bytes 4 INDEX_BLOB_MAGIC @ le_bytes 4 (length payload mod 2 ^ 32) @ payload"
  have "zone + LEGACY_CBOR_BLOB_OFFSET + length ?f \<le> dev_capacity ops d" using assms(4-6) by simp
  from write_in [OF assms(1,2) this] obtain d1 where
    d1: "write_at ops d (zone + LEGACY_CBOR_BLOB_OFFSET) ?f = Inr d1" "dinv d1" "writable d1" by blast
  moreover have "8 + length payload < 2 ^ 64" "zone + LEGACY_CBOR_BLOB_OFFSET < 2 ^ 64"
    using assms(4-6) cap_u64 [OF assms(1)] by linarith+
  ultimately show ?thesis using sync_ok [OF d1(2,3)] assms(3-5) by (simp add: save_index_blob_def Let_def)
qed

lemma index_blob_overlap:
  assumes "dinv d" and ser: "bc_ser bc blob = ok payload" and "1024 * 1024 - 8 < length payload"
    and save: "save_index_blob ops bc zone len blob d = ok d'"
  shows "bslice (zone + TAG_BITMAP_AREA_OFFSET) 1 (image d') = [payload ! (1024 * 1024 - 8)]"
proof -
  note S = save_index_blob_image [OF assms(1) ser(1) save]
  let ?at = "zone + LEGACY_CBOR_BLOB_OFFSET"
  let ?f = "le_bytes 4 INDEX_BLOB_MAGIC @ le_bytes 4 (length payload mod 2 ^ 32) @ payload"
  have fit: "?at + length ?f \<le> length (image d)" using S(3) cap_image [OF assms(1)] by simp
  have z: "zone + TAG_BITMAP_AREA_OFFSET = ?at + 1024 * 1024" by (simp add: zone_layout)
  have "bslice (?at + 1024 * 1024) 1 (image d') = bslice (1024 * 1024) 1 ?f"
    using bslice_bslice [of "1024 * 1024" 1 "length ?f" ?at "image d'"] assms(3) fit unfolding S(2) by simp
  moreover have "bslice (1024 * 1024) 1 ?f = [payload ! (1024 * 1024 - 8)]"
    using assms(3) by (simp add: bslice_def take_Suc_conv_app_nth hd_drop_conv_nth)
  ultimately show ?thesis unfolding z by (rule trans)
qed

end

section \<open>Properties\<close>

text \<open>Every slot of a seeded root pointer names the region at its offset in the zone, and the regions do not overlap.\<close>

lemma seeded_roots:
  assumes "4096 dvd zone" and "zone + 4194304 < 2 ^ 44" and "(seed_root_pointer root disk zone :: ('e, root_pointer) res) = ok r"
  shows "\<forall>(off, slot)\<in>set root_slots. root_slot_offset (slot r) = zone + off \<and> \<not> is_zero_ref (slot r)"
    and "sorted_wrt (\<lambda>a b. fst a + REGION_SIZE \<le> fst b) root_slots"
proof -
  have ref: "root_slot_offset b = zone + off \<and> \<not> is_zero_ref b"
    if "(root_ref_for disk zone off :: ('e, block_ref) res) = ok b" "4096 dvd off" "off < 4194304" for off b
    using root_ref_offset [OF assms(1) that(2) _ that(1)] assms(2) that
    by (auto simp: root_ref_for_def is_zero_ref_def block_ref_new_def res_simps)
  show "\<forall>(off, slot)\<in>set root_slots. root_slot_offset (slot r) = zone + off \<and> \<not> is_zero_ref (slot r)"
  proof -
    have "\<forall>(off, slot)\<in>set root_slots. (root_ref_for disk zone off :: ('e, block_ref) res) = ok (slot r)"
      using assms(3) by (auto simp: seed_root_pointer_def root_slots_def res_simps)
    moreover have "\<forall>(off, slot)\<in>set root_slots. 4096 dvd off \<and> off < 4194304" by (simp add: root_slots_def zone_layout)
    ultimately show ?thesis using ref by fast
  qed
  show "sorted_wrt (\<lambda>a b. fst a + REGION_SIZE \<le> fst b) root_slots"
    by (simp add: root_slots_def zone_layout)
qed

text \<open>What the engine saves with its indexes (id counter, log position, operation log, blob contents) is read back
  as it was written.\<close>

theorem index_blob_roundtrip:
  assumes "file_device_inv d" and "bc_ser bc blob = ok payload" and "bc_de bc payload = ok blob" and "length payload < 2 ^ 32"
    and "save_index_blob file_block_device bc zone len blob d = ok d'"
  shows "read_index_blob file_block_device bc zone len d' = ok (Some blob)"
  using assms by (rule fdev.index_blob_read_back)

text \<open>C38. The size check of the blob ignores its neighbour: a blob of more than one megabyte is accepted and overwrites the
  area of the tag bitmaps, which the same save wrote just before.\<close>

theorem index_blob_overruns:
  assumes "file_device_inv d" and "fd_writable d" and "bc_ser bc blob = ok payload" and "1024 * 1024 - 8 < length payload"
    and "check_zone_length len = ok ()" and "LEGACY_CBOR_BLOB_OFFSET + 8 + length payload \<le> len" and "zone + len \<le> fd_capacity d"
  shows "\<exists>d'. save_index_blob file_block_device bc zone len blob d = ok d' \<and>
    bslice (zone + TAG_BITMAP_AREA_OFFSET) 1 (fd_file d') = [payload ! (1024 * 1024 - 8)]"
proof -
  have "8 + length payload \<le> len - LEGACY_CBOR_BLOB_OFFSET" "LEGACY_CBOR_BLOB_OFFSET \<le> len" "zone + len \<le> dev_capacity file_block_device d"
    using assms(6,7) by simp_all
  then obtain d' where s: "save_index_blob file_block_device bc zone len blob d = ok d'"
    using fdev.save_index_blob_ok [OF assms(1-3)] by blast
  show ?thesis using s fdev.index_blob_overlap [OF assms(1,3,4) s] by blast
qed

subsection \<open>Witnesses\<close>

definition wit_blob :: index_blob where
  "wit_blob = \<lparr>ib_path_contexts_bytes = [], ib_oplog_bytes = [], ib_next_oid_local = 2, ib_next_tag_id = 1, ib_last_applied_lsn = 0,
     ib_blobs = []\<rparr>"

text \<open>A codec that knows one blob, whose encoding has the given length.\<close>

definition wit_bc :: "nat \<Rightarrow> blob_codec" where
  "wit_bc n = \<lparr>bc_ser = (\<lambda>_. ok (replicate n 7)), bc_de = (\<lambda>_. ok wit_blob), bc_ser_oplog = (\<lambda>_. ok []), bc_de_oplog = (\<lambda>_. err ''x'')\<rparr>"

theorem index_blob_roundtrip_witness:
  "\<exists>d'. save_index_blob file_block_device (wit_bc 3) 0 16777216 wit_blob (file_device_open [] 16777216) = ok d' \<and>
     read_index_blob file_block_device (wit_bc 3) 0 16777216 d' = ok (Some wit_blob)"
proof -
  let ?d = "file_device_open [] 16777216"
  have d: "file_device_inv ?d" "fd_writable ?d" "fd_capacity ?d = 16777216"
    by (simp_all add: file_device_inv_def file_device_open_def fd_writable_def)
  obtain d' where s: "save_index_blob file_block_device (wit_bc 3) 0 16777216 wit_blob ?d = ok d'"
    using fdev.save_index_blob_ok [OF d(1,2), of "wit_bc 3" wit_blob "replicate 3 7" 16777216 0] d(3) by (auto simp: wit_bc_def zone_layout)
  show ?thesis using s index_blob_roundtrip [OF d(1) _ _ _ s, of "replicate 3 7"] by (simp add: wit_bc_def)
qed

theorem index_blob_overruns_witness:
  "\<exists>d'. save_index_blob file_block_device (wit_bc 1048576) 0 16777216 wit_blob (file_device_open [] 16777216) = ok d' \<and>
     bslice TAG_BITMAP_AREA_OFFSET 1 (fd_file d') = [7]"
proof -
  let ?d = "file_device_open [] 16777216"
  have "file_device_inv ?d" "fd_writable ?d" "fd_capacity ?d = 16777216"
    by (simp_all add: file_device_inv_def file_device_open_def fd_writable_def)
  moreover have "check_zone_length 16777216 = ok ()" by (simp add: check_zone_length_def zone_layout)
  ultimately show ?thesis
    using index_blob_overruns [of ?d "wit_bc 1048576" wit_blob "replicate 1048576 7" 16777216 0]
    by (simp add: wit_bc_def LEGACY_CBOR_BLOB_OFFSET_def)
qed

end
