(* ===== verification/Mb_Text.thy ===== *)
theory Mb_Text
  imports Mb_Types
begin

text \<open>
  Numbers as text, as the standard library prints and reads them: \<open>to_string\<close> and \<open>{:x}\<close> of the integer types,
  \<open>from_str_radix\<close> and \<open>parse\<close>. A string is the list of its UTF-8 bytes.

  An unsigned type accepts one leading plus sign, \<open>i64\<close> also one leading minus sign; the empty digit string, a byte
  that is no digit of the radix and a number out of range are errors. Reading inverts printing.
\<close>

section \<open>Bytes of literals\<close>

definition asc :: "string \<Rightarrow> byte list" where
  "asc s = map (\<lambda>c. word_of_nat (of_char c)) s"

definition starts_with :: "byte list \<Rightarrow> byte list \<Rightarrow> bool" where
  "starts_with p bs \<longleftrightarrow> take (length p) bs = p"

text \<open>\<open>str::strip_prefix\<close>.\<close>

definition strip_prefix :: "byte list \<Rightarrow> byte list \<Rightarrow> byte list option" where
  "strip_prefix p bs = (if starts_with p bs then Some (drop (length p) bs) else None)"

section \<open>Printing\<close>

definition digit_byte :: "nat \<Rightarrow> byte" where
  "digit_byte d = word_of_nat (if d < 10 then 48 + d else 87 + d)"

function show_radix :: "nat \<Rightarrow> nat \<Rightarrow> byte list" where
  "show_radix r n =
     (if r < 2 \<or> n < r then [digit_byte n] else show_radix r (n div r) @ [digit_byte (n mod r)])"
  by pat_completeness auto
termination
  by (relation "measure snd") auto

declare show_radix.simps [simp del]

definition show_i64 :: "int \<Rightarrow> byte list" where
  "show_i64 x = (if x < 0 then 45 # show_radix 10 (nat (- x)) else show_radix 10 (nat x))"

section \<open>Reading\<close>

text \<open>\<open>char::to_digit\<close>.\<close>

definition to_digit :: "nat \<Rightarrow> byte \<Rightarrow> nat option" where
  "to_digit r b =
     (let n = unat b;
          d = (if 48 \<le> n \<and> n \<le> 57 then n - 48
               else if 97 \<le> n \<and> n \<le> 122 then n - 87
               else if 65 \<le> n \<and> n \<le> 90 then n - 55
               else r)
      in if d < r then Some d else None)"

fun read_digits :: "nat \<Rightarrow> nat \<Rightarrow> byte list \<Rightarrow> nat option" where
  "read_digits r acc [] = Some acc"
| "read_digits r acc (b # bs) =
     (case to_digit r b of None \<Rightarrow> None | Some d \<Rightarrow> read_digits r (acc * r + d) bs)"

definition digits_below :: "nat \<Rightarrow> nat \<Rightarrow> byte list \<Rightarrow> nat option" where
  "digits_below r bound ds =
     (if ds = [] then None
      else case read_digits r 0 ds of None \<Rightarrow> None | Some n \<Rightarrow> if n < bound then Some n else None)"

definition parse_unsigned :: "nat \<Rightarrow> nat \<Rightarrow> byte list \<Rightarrow> nat option" where
  "parse_unsigned r bound bs =
     (case bs of [] \<Rightarrow> None | b # ds \<Rightarrow> if b = 43 then digits_below r bound ds else digits_below r bound bs)"

definition parse_i64 :: "byte list \<Rightarrow> int option" where
  "parse_i64 bs =
     (case bs of
        [] \<Rightarrow> None
      | b # ds \<Rightarrow>
          if b = 45 then map_option (\<lambda>n. - int n) (digits_below 10 (2 ^ 63 + 1) ds)
          else map_option int (digits_below 10 (2 ^ 63) (if b = 43 then ds else bs)))"

section \<open>Reading what was printed\<close>

lemma asc_append [simp]: "asc (s @ t) = asc s @ asc t"
  by (simp add: asc_def)

lemma asc_Nil [simp]: "asc [] = []"
  by (simp add: asc_def)

lemma asc_Cons: "asc (c # s) = word_of_nat (of_char c) # asc s"
  by (simp add: asc_def)

lemma starts_with_append [simp]: "starts_with p (p @ bs)"
  by (simp add: starts_with_def)

lemma strip_prefix_append [simp]: "strip_prefix p (p @ bs) = Some bs"
  by (simp add: strip_prefix_def)

lemma strip_prefix_SomeD: "strip_prefix p bs = Some r \<Longrightarrow> bs = p @ r"
  by (metis append_take_drop_id option.discI option.inject starts_with_def strip_prefix_def)

lemma unat_digit_byte: "d < 36 \<Longrightarrow> unat (digit_byte d) = (if d < 10 then 48 + d else 87 + d)"
  unfolding digit_byte_def by (simp add: unat_of_nat)

lemma to_digit_byte: "\<lbrakk> d < r; r \<le> 36 \<rbrakk> \<Longrightarrow> to_digit r (digit_byte d) = Some d"
  by (auto simp: to_digit_def unat_digit_byte Let_def)

lemma read_digits_append:
  "read_digits r acc (xs @ ys) = (case read_digits r acc xs of None \<Rightarrow> None | Some a \<Rightarrow> read_digits r a ys)"
  by (induction r acc xs rule: read_digits.induct) (auto split: option.splits)

lemma read_show_radix:
  assumes "2 \<le> r" "r \<le> 36"
  shows "read_digits r 0 (show_radix r n) = Some n"
  using assms
proof (induction r n rule: show_radix.induct)
  case (1 r n)
  show ?case
  proof (cases "n < r")
    case True
    with 1 show ?thesis by (subst show_radix.simps) (simp add: to_digit_byte)
  next
    case False
    with 1 have "read_digits r 0 (show_radix r (n div r)) = Some (n div r)" by auto
    moreover have "to_digit r (digit_byte (n mod r)) = Some (n mod r)" using 1 by (simp add: to_digit_byte)
    ultimately show ?thesis
      using False 1 by (subst show_radix.simps) (auto simp: read_digits_append mult.commute)
  qed
qed

text \<open>Every byte printed is a digit of the radix, so it is neither a sign nor white space nor punctuation.\<close>

lemma show_radix_digits:
  assumes "2 \<le> r" "r \<le> 36" "b \<in> set (show_radix r n)"
  shows "\<exists>d < r. b = digit_byte d"
  using assms
proof (induction r n rule: show_radix.induct)
  case (1 r n)
  show ?case
  proof (cases "n < r")
    case True
    with 1 show ?thesis by (subst (asm) show_radix.simps) auto
  next
    case False
    with 1 have "b \<in> set (show_radix r (n div r)) \<or> b = digit_byte (n mod r)"
      by (subst (asm) (2) show_radix.simps) auto
    then show ?thesis
    proof
      assume "b \<in> set (show_radix r (n div r))"
      with 1 False show ?thesis by simp
    next
      assume "b = digit_byte (n mod r)"
      with 1 show ?thesis by (auto intro!: exI [of _ "n mod r"])
    qed
  qed
qed

lemma show_radix_not_Nil [simp]: "show_radix r n \<noteq> []"
  by (subst show_radix.simps) auto

lemma show_radix_byte:
  assumes "2 \<le> r" "r \<le> 36" "b \<in> set (show_radix r n)"
  shows "48 \<le> unat b" "unat b \<le> 57 \<or> 97 \<le> unat b \<and> unat b \<le> 122"
  using show_radix_digits [OF assms] assms(2) by (auto simp: unat_digit_byte split: if_splits)

lemma show_decimal_byte: "b \<in> set (show_radix 10 n) \<Longrightarrow> 48 \<le> unat b \<and> unat b \<le> 57"
  using show_radix_digits [of 10 b n] by (auto simp: unat_digit_byte)

lemma digits_below_show: "\<lbrakk> 2 \<le> r; r \<le> 36 \<rbrakk> \<Longrightarrow> digits_below r bound (show_radix r n) = (if n < bound then Some n else None)"
  by (simp add: digits_below_def read_show_radix)

lemma show_radix_Cons:
  assumes "2 \<le> r" "r \<le> 36"
  obtains b bs where "show_radix r n = b # bs" "b \<noteq> 43" "b \<noteq> 45"
proof -
  obtain b bs where s: "show_radix r n = b # bs" by (meson neq_Nil_conv show_radix_not_Nil)
  then have "48 \<le> unat b" using show_radix_byte(1) [OF assms, of b n] by simp
  then have "b \<noteq> 43" "b \<noteq> 45" by auto
  with s that show thesis by blast
qed

lemma parse_unsigned_show [simp]:
  assumes "2 \<le> r" "r \<le> 36" "n < bound"
  shows "parse_unsigned r bound (show_radix r n) = Some n"
proof -
  obtain b bs where s: "show_radix r n = b # bs" "b \<noteq> 43" using show_radix_Cons [OF assms(1,2)] by metis
  then have "parse_unsigned r bound (show_radix r n) = digits_below r bound (show_radix r n)"
    by (simp add: parse_unsigned_def)
  with assms show ?thesis by (simp add: digits_below_show)
qed

lemma parse_i64_show [simp]:
  assumes "i64_ok x"
  shows "parse_i64 (show_i64 x) = Some x"
proof (cases "x < 0")
  case True
  then have "nat (- x) < 2 ^ 63 + 1" using assms by (simp add: i64_ok_def)
  with True show ?thesis by (simp add: parse_i64_def show_i64_def digits_below_show)
next
  case False
  obtain b bs where s: "show_radix 10 (nat x) = b # bs" "b \<noteq> 43" "b \<noteq> 45" using show_radix_Cons [of 10] by auto
  have "nat x < 2 ^ 63" using assms False by (simp add: i64_ok_def)
  with s False have "parse_i64 (show_i64 x) = map_option int (digits_below 10 (2 ^ 63) (show_radix 10 (nat x)))"
    by (simp add: parse_i64_def show_i64_def)
  with \<open>nat x < 2 ^ 63\<close> False show ?thesis by (simp add: digits_below_show)
qed

text \<open>A result of reading is in range.\<close>

lemma parse_unsigned_less: "parse_unsigned r bound bs = Some n \<Longrightarrow> n < bound"
  by (auto simp: parse_unsigned_def digits_below_def split: list.splits if_splits option.splits)

lemma parse_i64_ok: "parse_i64 bs = Some x \<Longrightarrow> i64_ok x"
  by (auto simp: parse_i64_def digits_below_def i64_ok_def split: list.splits if_splits option.splits)

end
