(* ===== verification/Mb_Parser.thy ===== *)
theory Mb_Parser
  imports Mb_Query Mb_Text
begin

text \<open>
  The S-expression language of queries (\<open>crates/query/src/parser.rs\<close>) and the explain printer
  (\<open>explain.rs\<close>): tokeniser, recursive-descent parser, and the two renderers.

  The tokeniser walks the bytes of the input, the parser walks the tokens. Both keep the position they report in
  errors beside the rest of their input: a byte offset in the tokeniser, the number of tokens consumed in the parser.
  \<open>f64::parse\<close> and the \<open>Display\<close> of \<open>f64\<close> are the record \<open>float_text\<close>. The slices the tokeniser cuts end at ASCII
  bytes, so \<open>from_utf8\<close> on them does not fail.

  \<open>parse_atom\<close> and the loop over children call each other on the rest of the tokens; the loop goes on from where
  \<open>parse_atom\<close> stopped, so that they end is proved together with the fact that \<open>parse_atom\<close> consumes a token.
\<close>

record float_text =
  ft_parse :: "byte list \<Rightarrow> 64 word option"
  ft_show :: "64 word \<Rightarrow> byte list"

section \<open>Renderer\<close>

fun cmp_to_str :: "cmp_op \<Rightarrow> byte list" where
  "cmp_to_str OpEq = asc ''=''"
| "cmp_to_str OpNe = asc ''!=''"
| "cmp_to_str OpLt = asc ''<''"
| "cmp_to_str OpLe = asc ''<=''"
| "cmp_to_str OpGt = asc ''>''"
| "cmp_to_str OpGe = asc ''>=''"
| "cmp_to_str OpPrefix = asc ''prefix''"
| "cmp_to_str OpContains = asc ''contains''"

text \<open>Quotes and backslashes are escaped; both are ASCII, so the loop over \<open>chars\<close> is a loop over bytes.\<close>

definition escape_text :: "byte list \<Rightarrow> byte list" where
  "escape_text s = concat (map (\<lambda>c. if c = 34 then [92, 34] else if c = 92 then [92, 92] else [c]) s)"

fun push_value :: "float_text \<Rightarrow> attr_value \<Rightarrow> byte list" where
  "push_value ft (VInt i) = show_i64 i"
| "push_value ft (VFloat f) = ft_show ft f"
| "push_value ft (VTimestamp t) = asc ''ts:'' @ show_i64 t"
| "push_value ft (VText s) = [34] @ escape_text s @ [34]"
| "push_value ft (VBlob b) = asc ''blob['' @ show_radix 10 (length b) @ asc '']''"
| "push_value ft (VScoped c inner) =
     asc ''scoped(@'' @ show_radix 10 c @ asc '','' @ push_value ft inner @ asc '')''"

text \<open>\<open>Display\<close> of \<open>ObjectId\<close>.\<close>

definition show_oid :: "object_id \<Rightarrow> byte list" where
  "show_oid oid =
     asc ''obj:'' @ show_radix 16 (unat (oid_node_id oid)) @ asc '':'' @ show_radix 10 (unat (oid_local_seq oid))"

fun render :: "float_text \<Rightarrow> (tag_id \<Rightarrow> byte list) \<Rightarrow> query \<Rightarrow> byte list" where
  "render ft nl (HasTag t) = asc ''(tag '' @ nl t @ asc '')''"
| "render ft nl (IsA t) = asc ''(isa '' @ nl t @ asc '')''"
| "render ft nl (HasAttr key op v) =
     asc ''(attr '' @ nl key @ asc '' '' @ cmp_to_str op @ asc '' '' @ push_value ft v @ asc '')''"
| "render ft nl (Related p target) = asc ''(related '' @ nl p @ asc '' '' @ show_oid target @ asc '')''"
| "render ft nl (QAnd qs) = asc ''(and'' @ concat (map (\<lambda>q. asc '' '' @ render ft nl q) qs) @ asc '')''"
| "render ft nl (QOr qs) = asc ''(or'' @ concat (map (\<lambda>q. asc '' '' @ render ft nl q) qs) @ asc '')''"
| "render ft nl (QNot q) = asc ''(not '' @ render ft nl q @ asc '')''"

definition to_sexpr :: "float_text \<Rightarrow> query \<Rightarrow> (tag_id \<Rightarrow> byte list) \<Rightarrow> byte list" where
  "to_sexpr ft q nl = render ft nl q"

section \<open>Explain\<close>

definition indent :: "nat \<Rightarrow> byte list" where
  "indent depth = concat (replicate depth (asc ''  ''))"

text \<open>\<open>Display\<close> of \<open>TagId\<close> and of \<open>Value\<close>: unlike \<open>push_value\<close> it does not escape.\<close>

definition show_tag_id :: "tag_id \<Rightarrow> byte list" where
  "show_tag_id t = asc ''tag:'' @ show_radix 10 t"

fun display_value :: "float_text \<Rightarrow> attr_value \<Rightarrow> byte list" where
  "display_value ft (VText s) = [34] @ s @ [34]"
| "display_value ft (VInt i) = show_i64 i"
| "display_value ft (VFloat f) = ft_show ft f"
| "display_value ft (VTimestamp t) = asc ''ts:'' @ show_i64 t"
| "display_value ft (VBlob b) = asc ''blob['' @ show_radix 10 (length b) @ asc '']''"
| "display_value ft (VScoped c inner) =
     asc ''scoped('' @ show_tag_id c @ asc '','' @ display_value ft inner @ asc '')''"

fun explain_render :: "float_text \<Rightarrow> nat \<Rightarrow> query \<Rightarrow> byte list" where
  "explain_render ft d (HasTag t) = indent d @ asc ''HasTag('' @ show_radix 10 t @ asc '')'' @ [10]"
| "explain_render ft d (IsA t) = indent d @ asc ''IsA('' @ show_radix 10 t @ asc '')'' @ [10]"
| "explain_render ft d (HasAttr key op v) =
     indent d @ asc ''HasAttr(key='' @ show_radix 10 key @ asc '', op='' @ cmp_to_str op @ asc '', value=''
       @ display_value ft v @ asc '')'' @ [10]"
| "explain_render ft d (Related p target) =
     indent d @ asc ''Related(predicate='' @ show_radix 10 p @ asc '', target='' @ show_oid target @ asc '')'' @ [10]"
| "explain_render ft d (QAnd qs) =
     indent d @ asc ''And ['' @ show_radix 10 (length qs) @ asc '' children]'' @ [10]
       @ concat (map (explain_render ft (d + 1)) qs)"
| "explain_render ft d (QOr qs) =
     indent d @ asc ''Or ['' @ show_radix 10 (length qs) @ asc '' children]'' @ [10]
       @ concat (map (explain_render ft (d + 1)) qs)"
| "explain_render ft d (QNot q) = indent d @ asc ''Not'' @ [10] @ explain_render ft (d + 1) q"

definition explain :: "float_text \<Rightarrow> query \<Rightarrow> byte list" where
  "explain ft q = explain_render ft 0 q"

section \<open>Tokeniser\<close>

definition is_ascii_whitespace :: "byte \<Rightarrow> bool" where
  "is_ascii_whitespace b \<longleftrightarrow> b = 32 \<or> b = 9 \<or> b = 10 \<or> b = 12 \<or> b = 13"

definition is_ascii_digit :: "byte \<Rightarrow> bool" where
  "is_ascii_digit b \<longleftrightarrow> 48 \<le> b \<and> b \<le> 57"

text \<open>\<open>buf.push(b as char)\<close>: the UTF-8 encoding of the code point \<open>b\<close>, two bytes from 128 on.\<close>

definition push_char :: "byte \<Rightarrow> byte list" where
  "push_char b = (if b < 128 then [b] else [0xC0 OR drop_bit 6 b, 0x80 OR (b AND 0x3F)])"

text \<open>The loop over a quoted string: the decoded bytes, the position it stopped at and the rest from there.\<close>

fun scan_str :: "nat \<Rightarrow> byte list \<Rightarrow> byte list \<times> nat \<times> byte list" where
  "scan_str i [] = ([], i, [])"
| "scan_str i [b] = (if b = 34 then ([], i, [b]) else (push_char b, i + 1, []))"
| "scan_str i (b # n # bs) =
     (if b = 34 then ([], i, b # n # bs)
      else if b = 92 then (let (buf, j, rest) = scan_str (i + 2) bs in (push_char n @ buf, j, rest))
      else (let (buf, j, rest) = scan_str (i + 1) (n # bs) in (push_char b @ buf, j, rest)))"

definition is_word_byte :: "byte \<Rightarrow> bool" where
  "is_word_byte b \<longleftrightarrow> b \<noteq> 40 \<and> b \<noteq> 41 \<and> \<not> is_ascii_whitespace b \<and> b \<noteq> 34"

text \<open>\<open>splitn(2, ':')\<close> with \<open>unwrap_or("")\<close> for a missing second part.\<close>

definition split_colon :: "byte list \<Rightarrow> byte list \<times> byte list" where
  "split_colon bs = (takeWhile (\<lambda>b. b \<noteq> 58) bs, drop 1 (dropWhile (\<lambda>b. b \<noteq> 58) bs))"

definition word_token :: "nat \<Rightarrow> byte list \<Rightarrow> (query_error, qtoken) res" where
  "word_token start word =
     (case strip_prefix (asc ''obj:'') word of
        Some stripped \<Rightarrow>
          (let (node_part, local_part) = split_colon stripped
           in case parse_unsigned 16 (2 ^ 16) node_part of
                None \<Rightarrow> err (QueryParse start (BadObjectIdNode node_part))
              | Some node \<Rightarrow>
                  (case parse_unsigned 10 (2 ^ 64) local_part of
                     None \<Rightarrow> err (QueryParse start (BadObjectIdLocal local_part))
                   | Some loc \<Rightarrow> ok (QObjId (oid_from_parts (word_of_nat node) (word_of_nat loc)))))
      | None \<Rightarrow> ok (QWord word))"

lemma scan_str_length: "scan_str i bs = (buf, j, rest) \<Longrightarrow> length rest \<le> length bs"
  by (induction i bs arbitrary: buf j rest rule: scan_str.induct)
    (fastforce split: if_splits prod.splits simp: Let_def)+

lemma rbind_cong [fundef_cong]:
  assumes "r = r'" "\<And>x. r' = Inr x \<Longrightarrow> f x = f' x"
  shows "rbind r f = rbind r' f'"
  using assms by (cases r') auto

function tokenize_at :: "nat \<Rightarrow> byte list \<Rightarrow> (query_error, qtoken list) res" where
  "tokenize_at i [] = ok []"
| "tokenize_at i (c # bs) =
     (if is_ascii_whitespace c then tokenize_at (i + 1) bs
      else if c = 40 then rbind (tokenize_at (i + 1) bs) (\<lambda>out. ok (QLParen # out))
      else if c = 41 then rbind (tokenize_at (i + 1) bs) (\<lambda>out. ok (QRParen # out))
      else if c = 34 then
        (case scan_str (i + 1) bs of
           (buf, j, []) \<Rightarrow> err (QueryParse j UnterminatedString)
         | (buf, j, _ # rest) \<Rightarrow> rbind (tokenize_at (j + 1) rest) (\<lambda>out. ok (QStr buf # out)))
      else if c = 64 then
        (let digits = takeWhile is_ascii_digit bs
         in if digits = [] then err (QueryParse i ExpectedDigits)
            else case parse_unsigned 10 (2 ^ 32) digits of
                   None \<Rightarrow> err (QueryParse i AtIdTooLarge)
                 | Some raw \<Rightarrow>
                     rbind (tokenize_at (i + 1 + length digits) (dropWhile is_ascii_digit bs))
                       (\<lambda>out. ok (QAtId raw # out)))
      else
        (let word = takeWhile is_word_byte (c # bs)
         in if word = [] then err (QueryParse i (UnexpectedCharacter c))
            else rbind (word_token i word) (\<lambda>tok.
                 rbind (tokenize_at (i + length word) (drop (length word) (c # bs))) (\<lambda>out. ok (tok # out)))))"
  by pat_completeness auto
termination
  by (relation "measure (\<lambda>(i, bs). length bs)")
    (auto dest!: scan_str_length [OF sym] simp: le_imp_less_Suc length_dropWhile_le)

definition tokenize :: "byte list \<Rightarrow> (query_error, qtoken list) res" where
  "tokenize input = tokenize_at 0 input"


section \<open>Recursive-descent parser\<close>

text \<open>The cursor: \<open>pos\<close> tokens consumed, \<open>ts\<close> left.\<close>

fun expect :: "qtoken \<Rightarrow> nat \<Rightarrow> qtoken list \<Rightarrow> (query_error, nat \<times> qtoken list) res" where
  "expect want pos (tok # ts) =
     (if tok = want then ok (pos + 1, ts) else err (QueryParse pos (ExpectedToken want tok)))"
| "expect want pos [] = err (QueryParse pos (ExpectedTokenEof want))"

fun parse_name_as_tag ::
  "(byte list \<Rightarrow> tag_id option) \<Rightarrow> nat \<Rightarrow> qtoken list \<Rightarrow> (query_error, tag_id \<times> nat \<times> qtoken list) res" where
  "parse_name_as_tag resolver pos (QWord w # ts) =
     (case resolver w of None \<Rightarrow> err (QueryUnknownTag w) | Some t \<Rightarrow> ok (t, pos + 1, ts))"
| "parse_name_as_tag resolver pos (QAtId raw # ts) = ok (raw, pos + 1, ts)"
| "parse_name_as_tag resolver pos (other # ts) = err (QueryParse pos (ExpectedTagName other))"
| "parse_name_as_tag resolver pos [] = err (QueryParse pos ExpectedTagNameEof)"

fun expect_word :: "nat \<Rightarrow> qtoken list \<Rightarrow> (query_error, byte list \<times> nat \<times> qtoken list) res" where
  "expect_word pos (QWord w # ts) = ok (w, pos + 1, ts)"
| "expect_word pos (other # ts) = err (QueryParse pos (ExpectedOperator other))"
| "expect_word pos [] = err (QueryParse pos ExpectedOperatorEof)"

text \<open>An integer first, then a float, else the word itself as text.\<close>

definition word_value :: "float_text \<Rightarrow> byte list \<Rightarrow> attr_value" where
  "word_value ft w =
     (case parse_i64 w of
        Some i \<Rightarrow> VInt i
      | None \<Rightarrow> (case ft_parse ft w of Some f \<Rightarrow> VFloat f | None \<Rightarrow> VText w))"

fun parse_value :: "float_text \<Rightarrow> nat \<Rightarrow> qtoken list \<Rightarrow> (query_error, attr_value \<times> nat \<times> qtoken list) res" where
  "parse_value ft pos (QStr s # ts) = ok (VText s, pos + 1, ts)"
| "parse_value ft pos (QWord w # ts) = ok (word_value ft w, pos + 1, ts)"
| "parse_value ft pos (other # ts) = err (QueryParse pos (ExpectedValue other))"
| "parse_value ft pos [] = err (QueryParse pos ExpectedValueEof)"

definition cmp_of_str :: "byte list \<Rightarrow> cmp_op option" where
  "cmp_of_str w =
     (if w = asc ''='' then Some OpEq
      else if w = asc ''!='' then Some OpNe
      else if w = asc ''<'' then Some OpLt
      else if w = asc ''<='' then Some OpLe
      else if w = asc ''>'' then Some OpGt
      else if w = asc ''>='' then Some OpGe
      else if w = asc ''prefix'' then Some OpPrefix
      else if w = asc ''contains'' then Some OpContains
      else None)"

definition parse_attr ::
  "float_text \<Rightarrow> (byte list \<Rightarrow> tag_id option) \<Rightarrow> nat \<Rightarrow> qtoken list \<Rightarrow> (query_error, query \<times> nat \<times> qtoken list) res" where
  "parse_attr ft resolver pos ts =
     rbind (parse_name_as_tag resolver pos ts) (\<lambda>(key, p1, t1).
     rbind (expect_word p1 t1) (\<lambda>(op_word, p2, t2).
     case cmp_of_str op_word of
       None \<Rightarrow> err (QueryUnknownOp op_word)
     | Some op \<Rightarrow> rbind (parse_value ft p2 t2) (\<lambda>(v, p3, t3). ok (HasAttr key op v, p3, t3))))"

fun parse_target :: "nat \<Rightarrow> qtoken list \<Rightarrow> (query_error, object_id \<times> nat \<times> qtoken list) res" where
  "parse_target pos (QObjId oid # ts) = ok (oid, pos + 1, ts)"
| "parse_target pos (other # ts) = err (QueryParse pos (ExpectedObjectId other))"
| "parse_target pos [] = err (QueryParse pos ExpectedObjectIdEof)"

definition parse_related ::
  "(byte list \<Rightarrow> tag_id option) \<Rightarrow> nat \<Rightarrow> qtoken list \<Rightarrow> (query_error, query \<times> nat \<times> qtoken list) res" where
  "parse_related resolver pos ts =
     rbind (parse_name_as_tag resolver pos ts) (\<lambda>(predicate, p1, t1).
     rbind (parse_target p1 t1) (\<lambda>(target, p2, t2). ok (Related predicate target, p2, t2)))"

text \<open>The operator name after the opening parenthesis.\<close>

fun operator_name :: "nat \<Rightarrow> qtoken list \<Rightarrow> (query_error, byte list \<times> nat \<times> qtoken list) res" where
  "operator_name pos (QWord w # ts) = ok (w, pos + 1, ts)"
| "operator_name pos (other # ts) = err (QueryParse pos (ExpectedOperatorName other))"
| "operator_name pos [] = err (QueryParse pos ExpectedOperatorNameEof)"

definition parse_head :: "nat \<Rightarrow> qtoken list \<Rightarrow> (query_error, byte list \<times> nat \<times> qtoken list) res" where
  "parse_head pos ts = rbind (expect QLParen pos ts) (\<lambda>(p1, t1). operator_name p1 t1)"

definition close_paren :: "query \<times> nat \<times> qtoken list \<Rightarrow> (query_error, query \<times> nat \<times> qtoken list) res" where
  "close_paren = (\<lambda>(q, pos, ts). rbind (expect QRParen pos ts) (\<lambda>(p, t). ok (q, p, t)))"

lemma rbind_pair_eq_Inr: "rbind r (\<lambda>(a, b). f a b) = Inr y \<longleftrightarrow> (\<exists>a b. r = Inr (a, b) \<and> f a b = Inr y)"
  by (auto simp: res_simps)

lemma rbind_triple_eq_Inr:
  "rbind r (\<lambda>(a, b, c). f a b c) = Inr y \<longleftrightarrow> (\<exists>a b c. r = Inr (a, b, c) \<and> f a b c = Inr y)"
  by (auto simp: res_simps)

lemmas parse_iffs = rbind_triple_eq_Inr rbind_pair_eq_Inr

lemma expect_length: "expect w pos ts = Inr (p, t) \<Longrightarrow> length ts = length t + 1"
  by (cases "(w, pos, ts)" rule: expect.cases) (auto split: if_splits)

lemma operator_name_length: "operator_name pos ts = Inr (w, p, t) \<Longrightarrow> length ts = length t + 1"
  by (cases "(pos, ts)" rule: operator_name.cases) auto

lemma parse_name_length: "parse_name_as_tag r pos ts = Inr (x, p, t) \<Longrightarrow> length ts = length t + 1"
  by (cases "(r, pos, ts)" rule: parse_name_as_tag.cases) (auto split: option.splits)

lemma expect_word_length: "expect_word pos ts = Inr (x, p, t) \<Longrightarrow> length ts = length t + 1"
  by (cases "(pos, ts)" rule: expect_word.cases) auto

lemma parse_value_length: "parse_value ft pos ts = Inr (x, p, t) \<Longrightarrow> length ts = length t + 1"
  by (cases "(ft, pos, ts)" rule: parse_value.cases) auto

lemma parse_target_length: "parse_target pos ts = Inr (x, p, t) \<Longrightarrow> length ts = length t + 1"
  by (cases "(pos, ts)" rule: parse_target.cases) auto

lemmas token_lengths = expect_length operator_name_length parse_name_length expect_word_length parse_value_length
  parse_target_length

lemma parse_head_length: "parse_head pos ts = Inr (w, p, t) \<Longrightarrow> length ts = length t + 2"
  by (auto simp: parse_head_def parse_iffs dest!: token_lengths)

lemma parse_attr_length: "parse_attr ft r pos ts = Inr (x, p, t) \<Longrightarrow> length ts = length t + 3"
  by (auto simp: parse_attr_def parse_iffs split: option.splits dest!: token_lengths)

lemma parse_related_length: "parse_related r pos ts = Inr (x, p, t) \<Longrightarrow> length ts = length t + 2"
  by (auto simp: parse_related_def parse_iffs dest!: token_lengths)

lemma close_paren_length: "close_paren (q, pos, ts) = Inr (x, p, t) \<Longrightarrow> length ts = length t + 1"
  by (auto simp: close_paren_def parse_iffs dest!: token_lengths)

function (sequential) parse_atom ::
  "float_text \<Rightarrow> (byte list \<Rightarrow> tag_id option) \<Rightarrow> nat \<Rightarrow> qtoken list \<Rightarrow> (query_error, query \<times> nat \<times> qtoken list) res"
  and parse_children ::
  "float_text \<Rightarrow> (byte list \<Rightarrow> tag_id option) \<Rightarrow> nat \<Rightarrow> qtoken list \<Rightarrow> (query_error, query list \<times> nat \<times> qtoken list) res" where
  "parse_atom ft resolver pos ts =
     rbind (parse_head pos ts) (\<lambda>(head, p, t).
     rbind
       (if head = asc ''tag'' then
          rbind (parse_name_as_tag resolver p t) (\<lambda>(tag, p1, t1). ok (HasTag tag, p1, t1))
        else if head = asc ''isa'' then
          rbind (parse_name_as_tag resolver p t) (\<lambda>(tag, p1, t1). ok (IsA tag, p1, t1))
        else if head = asc ''attr'' then parse_attr ft resolver p t
        else if head = asc ''related'' then parse_related resolver p t
        else if head = asc ''and'' then
          rbind (parse_children ft resolver p t) (\<lambda>(children, p1, t1). ok (QAnd children, p1, t1))
        else if head = asc ''or'' then
          rbind (parse_children ft resolver p t) (\<lambda>(children, p1, t1). ok (QOr children, p1, t1))
        else if head = asc ''not'' then
          rbind (parse_atom ft resolver p t) (\<lambda>(inner, p1, t1). ok (QNot inner, p1, t1))
        else err (QueryUnknownOp head))
       close_paren)"
| "parse_children ft resolver pos ts =
     (if ts = [] \<or> hd ts = QRParen then ok ([], pos, ts)
      else rbind (parse_atom ft resolver pos ts) (\<lambda>(q, p1, t1).
           rbind (parse_children ft resolver p1 t1) (\<lambda>(qs, p2, t2). ok (q # qs, p2, t2))))"
  by pat_completeness auto

termination
proof -
  have consumed: "parse_atom_parse_children_dom (Inl (ft, r, pos, ts)) \<Longrightarrow>
      parse_atom ft r pos ts = Inr (q, p, t) \<Longrightarrow> length t < length ts"
    "parse_atom_parse_children_dom (Inr (ft, r, pos, ts)) \<Longrightarrow>
      parse_children ft r pos ts = Inr (qs, p, t) \<Longrightarrow> length t \<le> length ts" for ft r pos ts q qs p t
  proof (induction arbitrary: q p t and qs p t rule: parse_atom_parse_children.pinduct)
    case (1 ft r pos ts)
    from 1(5) 1(1) obtain w p0 t0 where h: "parse_head pos ts = Inr (w, p0, t0)"
      by (auto simp: parse_atom.psimps parse_iffs)
    from 1(5) 1(1) h obtain q1 p1 t1 where c: "close_paren (q1, p1, t1) = Inr (q, p, t)"
      and b: "length t1 \<le> length t0"
      using 1(2) [OF h refl refl] 1(3) [OF h refl refl] 1(4) [OF h refl refl]
      by (auto simp: parse_atom.psimps parse_iffs rbind_eq_Inr split: if_split_asm
          dest!: parse_attr_length parse_related_length token_lengths
          intro: that less_imp_le)
    then show ?case using parse_head_length [OF h] close_paren_length [OF c] by simp
  next
    case (2 ft r pos ts)
    from 2(4) 2(1) 2(2) 2(3) show ?case
      by (fastforce simp: parse_children.psimps parse_iffs split: if_split_asm)
  qed
  show ?thesis
  proof (relation "measure (\<lambda>x. case x of
      Inl (ft, r, pos, ts) \<Rightarrow> 2 * length ts | Inr (ft, r, pos, ts) \<Rightarrow> 2 * length ts + 1)", goal_cases)
    case (6 ft r pos ts x q y p1 t1)
    then show ?case using consumed(1) [of ft r pos ts q p1 t1] by auto
  qed (auto dest!: parse_head_length)
qed

declare parse_atom.simps [simp del] parse_children.simps [simp del]

fun finish :: "query \<Rightarrow> nat \<Rightarrow> qtoken list \<Rightarrow> (query_error, query) res" where
  "finish q pos (tok # _) = err (QueryParse pos (TrailingToken tok))"
| "finish q pos [] = ok q"

definition query_parse ::
  "float_text \<Rightarrow> byte list \<Rightarrow> (byte list \<Rightarrow> tag_id option) \<Rightarrow> (query_error, query) res" where
  "query_parse ft input resolver =
     rbind (tokenize input) (\<lambda>tokens.
     rbind (parse_atom ft resolver 0 tokens) (\<lambda>(q, pos, rest). finish q pos rest))"

end
