(* ===== verification/Mb_Parser_Thms.thy ===== *)
theory Mb_Parser_Thms
  imports Mb_Parser
begin

text \<open>
  What the query language guarantees: every input ends in a query or an error, a query read has its numbers in range
  and no more operators than the input has room for, and a printed query is read back. The printer and the reader
  disagree on text outside ASCII.
\<close>

section \<open>Results of the parser\<close>

fun query_nodes :: "query \<Rightarrow> nat" where
  "query_nodes (QAnd qs) = 1 + sum_list (map query_nodes qs)"
| "query_nodes (QOr qs) = 1 + sum_list (map query_nodes qs)"
| "query_nodes (QNot q) = 1 + query_nodes q"
| "query_nodes _ = 1"

fun query_ok :: "query \<Rightarrow> bool" where
  "query_ok (HasTag t) \<longleftrightarrow> t < 2 ^ 32"
| "query_ok (IsA t) \<longleftrightarrow> t < 2 ^ 32"
| "query_ok (HasAttr k op v) \<longleftrightarrow> k < 2 ^ 32 \<and> value_ok v"
| "query_ok (Related p oid) \<longleftrightarrow> p < 2 ^ 32"
| "query_ok (QAnd qs) \<longleftrightarrow> list_all query_ok qs"
| "query_ok (QOr qs) \<longleftrightarrow> list_all query_ok qs"
| "query_ok (QNot q) \<longleftrightarrow> query_ok q"

fun token_ok :: "qtoken \<Rightarrow> bool" where
  "token_ok (QAtId n) \<longleftrightarrow> n < 2 ^ 32"
| "token_ok _ \<longleftrightarrow> True"

definition no_panic :: "('e, 'a) res \<Rightarrow> bool" where
  "no_panic r \<longleftrightarrow> r \<noteq> Inl Panic"

lemma no_panic_simps [simp]: "no_panic (Inr x)" "no_panic (Inl (Err e))" "\<not> no_panic (Inl Panic)"
  by (simp_all add: no_panic_def)

lemma no_panic_rbind: "\<lbrakk> no_panic r; \<And>x. r = Inr x \<Longrightarrow> no_panic (f x) \<rbrakk> \<Longrightarrow> no_panic (rbind r f)"
  by (cases r) (auto simp: no_panic_def)

lemma word_token_no_panic: "no_panic (word_token i w)"
  by (auto simp: word_token_def Let_def split: option.splits prod.splits)

lemma word_token_ok: "word_token i w = Inr tok \<Longrightarrow> token_ok tok"
  by (auto simp: word_token_def Let_def split: option.splits prod.splits)

lemma tokenize_no_panic: "no_panic (tokenize_at i bs)"
proof (induction i bs rule: tokenize_at.induct)
  case (1 i)
  show ?case by simp
next
  case (2 i c bs)
  then show ?case
    by (auto simp del: takeWhile.simps intro!: no_panic_rbind word_token_no_panic split: prod.splits list.splits option.splits
        simp: Let_def)
qed

text \<open>The tokens are no more than the bytes, and a literal tag id fits its type.\<close>

lemma tokenize_result: "tokenize_at i bs = Inr ts \<Longrightarrow> length ts \<le> length bs \<and> list_all token_ok ts"
proof (induction i bs arbitrary: ts rule: tokenize_at.induct)
  case (1 i)
  then show ?case by simp
next
  case (2 i c bs)
  note IH = "2.IH" and r = "2.prems"
  consider (ws) "is_ascii_whitespace c" | (lp) "\<not> is_ascii_whitespace c" "c = 40"
    | (rp) "\<not> is_ascii_whitespace c" "c = 41" | (quote) "\<not> is_ascii_whitespace c" "c = 34"
    | (at) "\<not> is_ascii_whitespace c" "c = 64"
    | (word) "\<not> is_ascii_whitespace c" "c \<noteq> 40" "c \<noteq> 41" "c \<noteq> 34" "c \<noteq> 64"
    by blast
  then show ?case
  proof cases
    case ws
    with IH(1) r show ?thesis by (auto simp: le_SucI)
  next
    case lp
    with IH(2) r show ?thesis by (auto simp: res_simps)
  next
    case rp
    with IH(3) r show ?thesis by (auto simp: res_simps)
  next
    case quote
    with r obtain buf j b rest out where s: "scan_str (i + 1) bs = (buf, j, b # rest)"
      and t: "tokenize_at (j + 1) rest = Inr out" "ts = QStr buf # out"
      by (auto simp: res_simps split: prod.split_asm list.split_asm)
    with IH(4) quote have "length out \<le> length rest \<and> list_all token_ok out" by auto
    with t scan_str_length [OF s] show ?thesis by simp
  next
    case at
    with r obtain raw out where p: "parse_unsigned 10 (2 ^ 32) (takeWhile is_ascii_digit bs) = Some raw"
      and d: "takeWhile is_ascii_digit bs \<noteq> []"
      and t: "tokenize_at (i + 1 + length (takeWhile is_ascii_digit bs)) (dropWhile is_ascii_digit bs) = Inr out"
        "ts = QAtId raw # out"
      by (auto simp: res_simps Let_def simp del: power_numeral split: if_split_asm option.split_asm)
    with IH(5) at have "length out \<le> length (dropWhile is_ascii_digit bs) \<and> list_all token_ok out" by simp
    with t(2) parse_unsigned_less [OF p] length_dropWhile_le [of is_ascii_digit bs] show ?thesis by simp
  next
    case word
    with r obtain tok out where w: "word_token i (takeWhile is_word_byte (c # bs)) = Inr tok"
      and d: "takeWhile is_word_byte (c # bs) \<noteq> []"
      and t: "tokenize_at (i + length (takeWhile is_word_byte (c # bs)))
          (drop (length (takeWhile is_word_byte (c # bs))) (c # bs)) = Inr out" "ts = tok # out"
      by (auto simp: res_simps Let_def simp del: takeWhile.simps split: if_split_asm)
    with IH(6) word have "length out \<le> length (drop (length (takeWhile is_word_byte (c # bs))) (c # bs)) \<and> list_all token_ok out"
      by (simp del: takeWhile.simps)
    moreover have "0 < length (takeWhile is_word_byte (c # bs))" using d by (simp only: length_greater_0_conv) simp
    ultimately have "length out \<le> length bs" "list_all token_ok out" unfolding length_drop list.size by linarith+
    with t(2) word_token_ok [OF w] show ?thesis by simp
  qed
qed

lemma token_no_panic:
  "no_panic (expect w pos ts)" "no_panic (parse_name_as_tag r pos ts)" "no_panic (expect_word pos ts)"
  "no_panic (parse_value ft pos ts)" "no_panic (parse_target pos ts)" "no_panic (operator_name pos ts)"
proof -
  show "no_panic (expect w pos ts)" by (cases "(w, pos, ts)" rule: expect.cases) auto
  show "no_panic (parse_name_as_tag r pos ts)"
    by (cases "(r, pos, ts)" rule: parse_name_as_tag.cases) (auto split: option.splits)
  show "no_panic (expect_word pos ts)" by (cases "(pos, ts)" rule: expect_word.cases) auto
  show "no_panic (parse_value ft pos ts)" by (cases "(ft, pos, ts)" rule: parse_value.cases) auto
  show "no_panic (parse_target pos ts)" by (cases "(pos, ts)" rule: parse_target.cases) auto
  show "no_panic (operator_name pos ts)" by (cases "(pos, ts)" rule: operator_name.cases) auto
qed

lemma finish_no_panic: "no_panic (finish q pos ts)"
  by (cases ts) auto

lemma parse_parts_no_panic:
  "no_panic (parse_head pos ts)" "no_panic (parse_attr ft r pos ts)" "no_panic (parse_related r pos ts)"
  "no_panic (close_paren x)"
  by (auto simp: parse_head_def parse_attr_def parse_related_def close_paren_def
      intro!: no_panic_rbind token_no_panic split: prod.splits option.splits)

lemma no_panic_if: "\<lbrakk> b \<Longrightarrow> no_panic x; \<not> b \<Longrightarrow> no_panic y \<rbrakk> \<Longrightarrow> no_panic (if b then x else y)"
  by simp

lemma parse_no_panic: "no_panic (parse_atom ft r pos ts)" "no_panic (parse_children ft r pos ts)"
proof (induction ft r pos ts and ft r pos ts rule: parse_atom_parse_children.induct)
  case (1 ft r pos ts)
  show ?case
  proof (cases "parse_head pos ts")
    case (Inl e)
    then show ?thesis using parse_parts_no_panic(1) [of pos ts] by (subst parse_atom.simps) (cases e, simp_all)
  next
    case (Inr x)
    obtain w p0 t0 where x: "x = (w, p0, t0)" by (cases x)
    note IH = "1.IH" [OF Inr [unfolded x] refl refl]
    show ?thesis unfolding parse_atom.simps [of ft r pos ts] Inr x rbind_Inr prod.case
      by (intro no_panic_rbind no_panic_if parse_parts_no_panic token_no_panic IH) (simp_all split: prod.split)
  qed
next
  case (2 ft r pos ts)
  then show ?case by (subst parse_children.simps) (auto intro!: no_panic_rbind)
qed

text \<open>The ways a parse of one parenthesised operator succeeds.\<close>

lemma parse_atom_InrE:
  assumes "parse_atom ft r pos ts = Inr (q, p, t)"
  obtains w p0 t0 p1 t1 where
    "parse_head pos ts = Inr (w, p0, t0)" "close_paren (q, p1, t1) = Inr (q, p, t)"
    "(\<exists>tag. q = HasTag tag \<and> w = asc ''tag'' \<and> parse_name_as_tag r p0 t0 = Inr (tag, p1, t1))
     \<or> (\<exists>tag. q = IsA tag \<and> w = asc ''isa'' \<and> parse_name_as_tag r p0 t0 = Inr (tag, p1, t1))
     \<or> w = asc ''attr'' \<and> parse_attr ft r p0 t0 = Inr (q, p1, t1)
     \<or> w = asc ''related'' \<and> parse_related r p0 t0 = Inr (q, p1, t1)
     \<or> (\<exists>qs. (q = QAnd qs \<and> w = asc ''and'' \<or> q = QOr qs \<and> w = asc ''or'')
          \<and> parse_children ft r p0 t0 = Inr (qs, p1, t1))
     \<or> (\<exists>q1. q = QNot q1 \<and> w = asc ''not'' \<and> parse_atom ft r p0 t0 = Inr (q1, p1, t1))"
proof -
  from assms obtain w p0 t0 where h: "parse_head pos ts = Inr (w, p0, t0)"
    by (subst (asm) parse_atom.simps) (auto simp: parse_iffs)
  from assms h obtain q1 p1 t1 where c: "close_paren (q1, p1, t1) = Inr (q, p, t)"
    and b: "(if w = asc ''tag'' then
          rbind (parse_name_as_tag r p0 t0) (\<lambda>(tag, p1, t1). ok (HasTag tag, p1, t1))
        else if w = asc ''isa'' then
          rbind (parse_name_as_tag r p0 t0) (\<lambda>(tag, p1, t1). ok (IsA tag, p1, t1))
        else if w = asc ''attr'' then parse_attr ft r p0 t0
        else if w = asc ''related'' then parse_related r p0 t0
        else if w = asc ''and'' then
          rbind (parse_children ft r p0 t0) (\<lambda>(children, p1, t1). ok (QAnd children, p1, t1))
        else if w = asc ''or'' then
          rbind (parse_children ft r p0 t0) (\<lambda>(children, p1, t1). ok (QOr children, p1, t1))
        else if w = asc ''not'' then
          rbind (parse_atom ft r p0 t0) (\<lambda>(inner, p1, t1). ok (QNot inner, p1, t1))
        else err (QueryUnknownOp w)) = Inr (q1, p1, t1)"
    by (subst (asm) parse_atom.simps) (simp add: parse_iffs rbind_eq_Inr del: if_split, blast)
  have "q1 = q" using c by (auto simp: close_paren_def parse_iffs)
  with h c b show thesis
    by (intro that) (auto simp: parse_iffs split: if_split_asm)
qed

lemma heads_differ:
  "asc ''and'' \<noteq> asc ''tag''" "asc ''and'' \<noteq> asc ''isa''" "asc ''and'' \<noteq> asc ''attr''" "asc ''and'' \<noteq> asc ''related''"
  "asc ''or'' \<noteq> asc ''tag''" "asc ''or'' \<noteq> asc ''isa''" "asc ''or'' \<noteq> asc ''attr''" "asc ''or'' \<noteq> asc ''related''"
  "asc ''or'' \<noteq> asc ''and''" "asc ''not'' \<noteq> asc ''tag''" "asc ''not'' \<noteq> asc ''isa''" "asc ''not'' \<noteq> asc ''attr''"
  "asc ''not'' \<noteq> asc ''related''" "asc ''not'' \<noteq> asc ''and''" "asc ''not'' \<noteq> asc ''or''"
  "asc ''isa'' \<noteq> asc ''tag''" "asc ''attr'' \<noteq> asc ''tag''" "asc ''attr'' \<noteq> asc ''isa''"
  "asc ''related'' \<noteq> asc ''tag''" "asc ''related'' \<noteq> asc ''isa''" "asc ''related'' \<noteq> asc ''attr''"
  by (simp_all add: asc_def)

section \<open>The grammar\<close>

text \<open>The grammar of the parser: the token lists it reads, with the query each stands for. It differs from the
  grammar in the comment at the head of \<open>parser.rs\<close>, which is \<open>doc_sexpr\<close> below, in three places: a name
  may also be \<open>@id\<close>, any bare word is a value, and \<open>@id\<close> is not a value.\<close>

fun name_token :: "(byte list \<Rightarrow> tag_id option) \<Rightarrow> qtoken \<Rightarrow> tag_id option" where
  "name_token r (QWord w) = r w"
| "name_token r (QAtId n) = Some n"
| "name_token r _ = None"

fun value_token :: "float_text \<Rightarrow> qtoken \<Rightarrow> attr_value option" where
  "value_token ft (QStr s) = Some (VText s)"
| "value_token ft (QWord w) = Some (word_value ft w)"
| "value_token ft _ = None"

inductive sexpr :: "float_text \<Rightarrow> (byte list \<Rightarrow> tag_id option) \<Rightarrow> qtoken list \<Rightarrow> query \<Rightarrow> bool"
  and sexprs :: "float_text \<Rightarrow> (byte list \<Rightarrow> tag_id option) \<Rightarrow> qtoken list \<Rightarrow> query list \<Rightarrow> bool"
  for ft r where
  sexpr_tag: "name_token r n = Some t \<Longrightarrow> sexpr ft r [QLParen, QWord (asc ''tag''), n, QRParen] (HasTag t)"
| sexpr_isa: "name_token r n = Some t \<Longrightarrow> sexpr ft r [QLParen, QWord (asc ''isa''), n, QRParen] (IsA t)"
| sexpr_attr: "\<lbrakk> name_token r n = Some k; cmp_of_str w = Some op; value_token ft v = Some x \<rbrakk> \<Longrightarrow>
    sexpr ft r [QLParen, QWord (asc ''attr''), n, QWord w, v, QRParen] (HasAttr k op x)"
| sexpr_related: "name_token r n = Some p \<Longrightarrow>
    sexpr ft r [QLParen, QWord (asc ''related''), n, QObjId oid, QRParen] (Related p oid)"
| sexpr_and: "sexprs ft r ts qs \<Longrightarrow> sexpr ft r (QLParen # QWord (asc ''and'') # ts @ [QRParen]) (QAnd qs)"
| sexpr_or: "sexprs ft r ts qs \<Longrightarrow> sexpr ft r (QLParen # QWord (asc ''or'') # ts @ [QRParen]) (QOr qs)"
| sexpr_not: "sexpr ft r ts q \<Longrightarrow> sexpr ft r (QLParen # QWord (asc ''not'') # ts @ [QRParen]) (QNot q)"
| sexprs_Nil: "sexprs ft r [] []"
| sexprs_Cons: "\<lbrakk> sexpr ft r ts q; sexprs ft r us qs \<rbrakk> \<Longrightarrow> sexprs ft r (ts @ us) (q # qs)"

lemma parse_name_iff:
  "parse_name_as_tag r pos ts = Inr (x, p, t) \<longleftrightarrow> (\<exists>n. ts = n # t \<and> p = pos + 1 \<and> name_token r n = Some x)"
  by (cases "(r, pos, ts)" rule: parse_name_as_tag.cases) (auto split: option.splits)

lemma parse_value_iff:
  "parse_value ft pos ts = Inr (x, p, t) \<longleftrightarrow> (\<exists>v. ts = v # t \<and> p = pos + 1 \<and> value_token ft v = Some x)"
  by (cases "(ft, pos, ts)" rule: parse_value.cases) auto

lemma expect_word_iff: "expect_word pos ts = Inr (w, p, t) \<longleftrightarrow> ts = QWord w # t \<and> p = pos + 1"
  by (cases "(pos, ts)" rule: expect_word.cases) auto

lemma parse_target_iff: "parse_target pos ts = Inr (w, p, t) \<longleftrightarrow> ts = QObjId w # t \<and> p = pos + 1"
  by (cases "(pos, ts)" rule: parse_target.cases) auto

lemma operator_name_iff: "operator_name pos ts = Inr (w, p, t) \<longleftrightarrow> ts = QWord w # t \<and> p = pos + 1"
  by (cases "(pos, ts)" rule: operator_name.cases) auto

lemma expect_iff: "expect w pos ts = Inr (p, t) \<longleftrightarrow> ts = w # t \<and> p = pos + 1"
  by (cases "(w, pos, ts)" rule: expect.cases) auto

lemmas token_iffs = parse_name_iff parse_value_iff expect_word_iff parse_target_iff operator_name_iff expect_iff

lemma parse_name_tok [simp]: "name_token r n = Some k \<Longrightarrow> parse_name_as_tag r pos (n # t) = Inr (k, pos + 1, t)"
  by (simp add: parse_name_iff)

lemma parse_value_tok [simp]: "value_token ft v = Some x \<Longrightarrow> parse_value ft pos (v # t) = Inr (x, pos + 1, t)"
  by (simp add: parse_value_iff)

lemma parse_head_iff: "parse_head pos ts = Inr (w, p, t) \<longleftrightarrow> ts = QLParen # QWord w # t \<and> p = pos + 2"
  by (auto simp: parse_head_def parse_iffs token_iffs)

lemma close_paren_iff: "close_paren (q, pos, ts) = Inr (q', p, t) \<longleftrightarrow> ts = QRParen # t \<and> p = pos + 1 \<and> q' = q"
  by (auto simp: close_paren_def parse_iffs token_iffs)

lemma parse_attr_iff:
  "parse_attr ft r pos ts = Inr (q, p, t) \<longleftrightarrow>
     (\<exists>n w v k op x. ts = n # QWord w # v # t \<and> p = pos + 3 \<and> q = HasAttr k op x \<and>
        name_token r n = Some k \<and> cmp_of_str w = Some op \<and> value_token ft v = Some x)" (is "?l \<longleftrightarrow> ?r")
proof
  assume ?l
  then show ?r by (auto simp: parse_attr_def parse_iffs token_iffs split: option.split_asm)
next
  assume ?r
  then show ?l by (auto simp: parse_attr_def)
qed

lemma parse_related_iff:
  "parse_related r pos ts = Inr (q, p, t) \<longleftrightarrow>
     (\<exists>n k oid. ts = n # QObjId oid # t \<and> p = pos + 2 \<and> q = Related k oid \<and> name_token r n = Some k)"
  by (auto simp: parse_related_def parse_iffs token_iffs)

lemmas part_iffs = parse_head_iff close_paren_iff parse_attr_iff parse_related_iff token_iffs

text \<open>What the parser accepts is in the grammar.\<close>

lemma parse_sound:
  "parse_atom ft r pos ts = Inr (q, p, t) \<Longrightarrow> \<exists>a. ts = a @ t \<and> p = pos + length a \<and> sexpr ft r a q"
  "parse_children ft r pos ts = Inr (qs, p, t) \<Longrightarrow> \<exists>a. ts = a @ t \<and> p = pos + length a \<and> sexprs ft r a qs"
proof (induction ft r pos ts and ft r pos ts arbitrary: q p t and qs p t rule: parse_atom_parse_children.induct)
  case (1 ft r pos ts)
  from 1(4) obtain w p0 t0 p1 t1 where h: "parse_head pos ts = Inr (w, p0, t0)"
    and c: "close_paren (q, p1, t1) = Inr (q, p, t)"
    and b: "(\<exists>tag. q = HasTag tag \<and> w = asc ''tag'' \<and> parse_name_as_tag r p0 t0 = Inr (tag, p1, t1))
     \<or> (\<exists>tag. q = IsA tag \<and> w = asc ''isa'' \<and> parse_name_as_tag r p0 t0 = Inr (tag, p1, t1))
     \<or> w = asc ''attr'' \<and> parse_attr ft r p0 t0 = Inr (q, p1, t1)
     \<or> w = asc ''related'' \<and> parse_related r p0 t0 = Inr (q, p1, t1)
     \<or> (\<exists>qs. (q = QAnd qs \<and> w = asc ''and'' \<or> q = QOr qs \<and> w = asc ''or'')
          \<and> parse_children ft r p0 t0 = Inr (qs, p1, t1))
     \<or> (\<exists>q1. q = QNot q1 \<and> w = asc ''not'' \<and> parse_atom ft r p0 t0 = Inr (q1, p1, t1))"
    by (rule parse_atom_InrE)
  note IH = "1.IH" [OF h refl refl]
  from h c have ts: "ts = QLParen # QWord w # t0" "p0 = pos + 2" and t1: "t1 = QRParen # t" "p = p1 + 1"
    by (auto simp: part_iffs)
  from b have "\<exists>a. t0 = a @ t1 \<and> p1 = p0 + length a \<and> sexpr ft r (QLParen # QWord w # a @ [QRParen]) q"
    using IH by (auto simp: part_iffs heads_differ dest!: IH intro!: sexpr_sexprs.intros)
  then obtain a where "t0 = a @ t1" "p1 = p0 + length a" "sexpr ft r (QLParen # QWord w # a @ [QRParen]) q" by blast
  with ts t1 show ?case by (intro exI [of _ "QLParen # QWord w # a @ [QRParen]"]) simp
next
  case (2 ft r pos ts)
  show ?case
  proof (cases "ts = [] \<or> hd ts = QRParen")
    case True
    with 2(3) show ?thesis by (subst (asm) parse_children.simps) (auto intro: sexprs_Nil)
  next
    case False
    with 2(3) obtain q p1 t1 qs' where a: "parse_atom ft r pos ts = Inr (q, p1, t1)"
      and s: "parse_children ft r p1 t1 = Inr (qs', p, t)" "qs = q # qs'"
      by (subst (asm) parse_children.simps) (auto simp: parse_iffs)
    from 2(1) [OF False a] obtain u where u: "ts = u @ t1" "p1 = pos + length u" "sexpr ft r u q" by blast
    from 2(2) [OF False a refl refl s(1)] obtain v where "t1 = v @ t" "p = p1 + length v" "sexprs ft r v qs'" by blast
    with u s(2) show ?thesis by (intro exI [of _ "u @ v"]) (auto intro: sexprs_Cons)
  qed
qed

text \<open>What is in the grammar is accepted, whatever follows; the children loop stops at the parenthesis that closes it.\<close>

lemma sexpr_hd: "sexpr ft r a q \<Longrightarrow> \<exists>a'. a = QLParen # a'"
  by (induction rule: sexpr.cases) auto

lemma parse_atom_head:
  "parse_atom ft r pos (QLParen # QWord w # t) =
     rbind
       (if w = asc ''tag'' then
          rbind (parse_name_as_tag r (pos + 2) t) (\<lambda>(tag, p1, t1). ok (HasTag tag, p1, t1))
        else if w = asc ''isa'' then
          rbind (parse_name_as_tag r (pos + 2) t) (\<lambda>(tag, p1, t1). ok (IsA tag, p1, t1))
        else if w = asc ''attr'' then parse_attr ft r (pos + 2) t
        else if w = asc ''related'' then parse_related r (pos + 2) t
        else if w = asc ''and'' then
          rbind (parse_children ft r (pos + 2) t) (\<lambda>(children, p1, t1). ok (QAnd children, p1, t1))
        else if w = asc ''or'' then
          rbind (parse_children ft r (pos + 2) t) (\<lambda>(children, p1, t1). ok (QOr children, p1, t1))
        else if w = asc ''not'' then
          rbind (parse_atom ft r (pos + 2) t) (\<lambda>(inner, p1, t1). ok (QNot inner, p1, t1))
        else err (QueryUnknownOp w))
       close_paren"
  by (subst parse_atom.simps) (simp add: parse_head_def)

lemma close_paren_tok [simp]: "close_paren (q, pos, QRParen # t) = Inr (q, pos + 1, t)"
  by (simp add: close_paren_def)

lemma parse_complete:
  "sexpr ft r a q \<Longrightarrow> parse_atom ft r pos (a @ t) = Inr (q, pos + length a, t)"
  "sexprs ft r a qs \<Longrightarrow> parse_children ft r pos (a @ QRParen # t) = Inr (qs, pos + length a, QRParen # t)"
proof (induction arbitrary: pos t and pos t rule: sexpr_sexprs.inducts)
  case sexprs_Nil
  then show ?case by (subst parse_children.simps) simp
next
  case (sexprs_Cons ts q us qs)
  obtain ts' where "ts = QLParen # ts'" using sexpr_hd [OF sexprs_Cons(1)] by blast
  with sexprs_Cons.IH show ?case by (subst parse_children.simps) simp
qed (simp_all add: parse_atom_head heads_differ parse_attr_def parse_related_def)

text \<open>The grammar of the comment. The flag says whether some value is written \<open>@id\<close>.\<close>

fun doc_name :: "(byte list \<Rightarrow> tag_id option) \<Rightarrow> qtoken \<Rightarrow> bool" where
  "doc_name r (QWord w) \<longleftrightarrow> r w \<noteq> None"
| "doc_name r _ \<longleftrightarrow> False"

fun doc_value :: "float_text \<Rightarrow> qtoken \<Rightarrow> bool \<Rightarrow> bool" where
  "doc_value ft (QStr s) u \<longleftrightarrow> \<not> u"
| "doc_value ft (QWord w) u \<longleftrightarrow> \<not> u \<and> (parse_i64 w \<noteq> None \<or> ft_parse ft w \<noteq> None)"
| "doc_value ft (QAtId n) u \<longleftrightarrow> u"
| "doc_value ft _ u \<longleftrightarrow> False"

inductive doc_sexpr :: "float_text \<Rightarrow> (byte list \<Rightarrow> tag_id option) \<Rightarrow> qtoken list \<Rightarrow> bool \<Rightarrow> bool"
  and doc_sexprs :: "float_text \<Rightarrow> (byte list \<Rightarrow> tag_id option) \<Rightarrow> qtoken list \<Rightarrow> bool \<Rightarrow> bool"
  for ft r where
  doc_tag: "doc_name r n \<Longrightarrow> doc_sexpr ft r [QLParen, QWord (asc ''tag''), n, QRParen] False"
| doc_isa: "doc_name r n \<Longrightarrow> doc_sexpr ft r [QLParen, QWord (asc ''isa''), n, QRParen] False"
| doc_attr: "\<lbrakk> doc_name r n; cmp_of_str w = Some op; doc_value ft v u \<rbrakk> \<Longrightarrow>
    doc_sexpr ft r [QLParen, QWord (asc ''attr''), n, QWord w, v, QRParen] u"
| doc_related: "doc_name r n \<Longrightarrow> doc_sexpr ft r [QLParen, QWord (asc ''related''), n, QObjId oid, QRParen] False"
| doc_and: "doc_sexprs ft r ts u \<Longrightarrow> doc_sexpr ft r (QLParen # QWord (asc ''and'') # ts @ [QRParen]) u"
| doc_or: "doc_sexprs ft r ts u \<Longrightarrow> doc_sexpr ft r (QLParen # QWord (asc ''or'') # ts @ [QRParen]) u"
| doc_not: "doc_sexpr ft r ts u \<Longrightarrow> doc_sexpr ft r (QLParen # QWord (asc ''not'') # ts @ [QRParen]) u"
| docs_Nil: "doc_sexprs ft r [] False"
| docs_Cons: "\<lbrakk> doc_sexpr ft r ts u; doc_sexprs ft r us u' \<rbrakk> \<Longrightarrow> doc_sexprs ft r (ts @ us) (u \<or> u')"

lemma doc_name_token: "doc_name r n \<Longrightarrow> \<exists>t. name_token r n = Some t"
  by (cases n) auto

lemma doc_plain:
  "doc_sexpr ft r ts u \<Longrightarrow> \<not> u \<Longrightarrow> \<exists>q. sexpr ft r ts q"
  "doc_sexprs ft r ts u \<Longrightarrow> \<not> u \<Longrightarrow> \<exists>qs. sexprs ft r ts qs"
proof (induction rule: doc_sexpr_doc_sexprs.inducts)
  case (doc_attr n w op v u)
  then have "value_token ft v \<noteq> None" by (cases v) auto
  then show ?case using doc_attr doc_name_token [of r n] by (auto intro: sexpr_attr)
qed (blast dest: doc_name_token intro: sexpr_sexprs.intros)+

text \<open>A value written \<open>@id\<close> stops the parser wherever it stands.\<close>

lemma doc_hd: "doc_sexpr ft r a u \<Longrightarrow> \<exists>a'. a = QLParen # a'"
  by (induction rule: doc_sexpr.cases) auto

lemma doc_at_refused:
  "doc_sexpr ft r a u \<Longrightarrow> u \<Longrightarrow> \<exists>e. parse_atom ft r pos (a @ t) = Inl e"
  "doc_sexprs ft r a u \<Longrightarrow> u \<Longrightarrow> \<exists>e. parse_children ft r pos (a @ QRParen # t) = Inl e"
proof (induction arbitrary: pos t and pos t rule: doc_sexpr_doc_sexprs.inducts)
  case (doc_attr n w op v u)
  then obtain i where "v = QAtId i" by (cases v) auto
  then show ?case using doc_attr doc_name_token [of r n] by (auto simp: parse_atom_head heads_differ parse_attr_def)
next
  case (doc_and ts u)
  from doc_and(2) [OF doc_and(3), of "pos + 2" t] show ?case by (auto simp: parse_atom_head heads_differ)
next
  case (doc_or ts u)
  from doc_or(2) [OF doc_or(3), of "pos + 2" t] show ?case by (auto simp: parse_atom_head heads_differ)
next
  case (doc_not ts u)
  from doc_not(2) [OF doc_not(3), of "pos + 2" "QRParen # t"] show ?case by (auto simp: parse_atom_head heads_differ)
next
  case (docs_Cons ts u us u')
  obtain ts' where ts: "ts = QLParen # ts'" using doc_hd [OF docs_Cons(1)] by blast
  show ?case
  proof (cases u)
    case True
    then show ?thesis using docs_Cons(2) [of pos "us @ QRParen # t"] ts by (subst parse_children.simps) auto
  next
    case False
    then obtain q where "parse_atom ft r pos (ts @ us @ QRParen # t) = Inr (q, pos + length ts, us @ QRParen # t)"
      using doc_plain(1) [OF docs_Cons(1)] parse_complete(1) by blast
    then show ?thesis using docs_Cons(4) [of "pos + length ts" t] docs_Cons(5) False ts
      by (subst parse_children.simps) auto
  qed
qed simp_all

lemma query_parse_iff:
  "query_parse ft input r = Inr q \<longleftrightarrow>
     (\<exists>toks p. tokenize input = Inr toks \<and> parse_atom ft r 0 toks = Inr (q, p, []))"
proof -
  have "finish x p t = Inr q \<longleftrightarrow> t = [] \<and> x = q" for x p t by (cases t) auto
  then show ?thesis by (auto simp: query_parse_def parse_iffs rbind_eq_Inr)
qed

text \<open>Each operator takes two parentheses and its name; tag ids and integers are in range.\<close>

lemma sexpr_nodes:
  "sexpr ft r a q \<Longrightarrow> 3 * query_nodes q \<le> length a"
  "sexprs ft r a qs \<Longrightarrow> 3 * sum_list (map query_nodes qs) \<le> length a"
  by (induction rule: sexpr_sexprs.inducts) auto

lemma name_token_ok:
  "\<lbrakk> name_token r n = Some t; token_ok n; \<And>w t. r w = Some t \<Longrightarrow> t < 2 ^ 32 \<rbrakk> \<Longrightarrow> t < 2 ^ 32"
  by (cases n) auto

lemma value_token_ok: "value_token ft v = Some x \<Longrightarrow> value_ok x"
  by (cases v) (auto simp: word_value_def dest: parse_i64_ok split: option.splits)

lemma sexpr_ok:
  assumes "\<And>w t. r w = Some t \<Longrightarrow> t < 2 ^ 32"
  shows "sexpr ft r a q \<Longrightarrow> list_all token_ok a \<Longrightarrow> query_ok q"
    "sexprs ft r a qs \<Longrightarrow> list_all token_ok a \<Longrightarrow> list_all query_ok qs"
proof (induction rule: sexpr_sexprs.inducts)
  case (sexpr_attr n k w op v x)
  then show ?case using value_token_ok by (auto simp del: power_numeral intro: name_token_ok assms)
qed (auto simp del: power_numeral intro: name_token_ok assms)

section \<open>Printing and reading back\<close>

text \<open>\<open>lexes s ts\<close>: the tokeniser reads \<open>s\<close> as \<open>ts\<close> wherever it starts. A word ends where a byte follows that is in no
  word.\<close>

definition lexes :: "byte list \<Rightarrow> qtoken list \<Rightarrow> bool" where
  "lexes s ts \<longleftrightarrow> (\<forall>i. tokenize_at i s = Inr ts)"

definition word_ends :: "byte list \<Rightarrow> bool" where
  "word_ends s \<longleftrightarrow> s = [] \<or> \<not> is_word_byte (hd s)"

definition bare_word :: "byte list \<Rightarrow> bool" where
  "bare_word w \<longleftrightarrow> w \<noteq> [] \<and> list_all is_word_byte w \<and> hd w \<noteq> 64 \<and> \<not> starts_with (asc ''obj:'') w"

lemma lexes_Nil: "lexes [] []"
  by (simp add: lexes_def)

lemma lexes_space: "lexes s ts \<Longrightarrow> lexes (32 # s) ts"
  by (simp add: lexes_def is_ascii_whitespace_def)

lemma lexes_paren: "lexes s ts \<Longrightarrow> lexes (40 # s) (QLParen # ts)" "lexes s ts \<Longrightarrow> lexes (41 # s) (QRParen # ts)"
  by (simp_all add: lexes_def is_ascii_whitespace_def)

lemma takeWhile_word:
  "\<lbrakk> list_all is_word_byte w; word_ends s \<rbrakk> \<Longrightarrow> takeWhile is_word_byte (w @ s) = w"
  by (induction w) (auto simp: word_ends_def takeWhile_eq_Nil_iff)

lemma lexes_token:
  assumes "w \<noteq> []" "list_all is_word_byte w" "hd w \<noteq> 64" "word_ends s" "\<And>i. word_token i w = Inr tok" "lexes s ts"
  shows "lexes (w @ s) (tok # ts)"
  unfolding lexes_def
proof
  fix i
  obtain c w' where w: "w = c # w'" using assms(1) by (cases w) auto
  with assms have c: "\<not> is_ascii_whitespace c" "c \<noteq> 40" "c \<noteq> 41" "c \<noteq> 34" "c \<noteq> 64"
    by (auto simp: is_word_byte_def)
  have t: "takeWhile is_word_byte (c # (w' @ s)) = w" using takeWhile_word [OF assms(2,4)] w by simp
  show "tokenize_at i (w @ s) = Inr (tok # ts)"
    unfolding w append_Cons tokenize_at.simps(2) t Let_def using c assms(1,5,6) w
    by (simp add: lexes_def)
qed

lemma lexes_word:
  assumes "bare_word w" "word_ends s" "lexes s ts"
  shows "lexes (w @ s) (QWord w # ts)"
  using assms by (intro lexes_token) (auto simp: bare_word_def word_token_def strip_prefix_def)

lemma word_byte_ge: "42 \<le> unat b \<Longrightarrow> is_word_byte b"
  by (auto simp: is_word_byte_def is_ascii_whitespace_def)

lemma word_bytes_show: "\<lbrakk> 2 \<le> r; r \<le> 36 \<rbrakk> \<Longrightarrow> list_all is_word_byte (show_radix r n)"
  by (auto simp: list_all_iff intro!: word_byte_ge dest: show_radix_byte(1))

lemma word_ends_not_digit: "word_ends s \<Longrightarrow> takeWhile is_ascii_digit s = []"
  by (cases s) (auto simp: word_ends_def is_ascii_digit_def is_word_byte_def is_ascii_whitespace_def)

lemma show_decimal_digits: "b \<in> set (show_radix 10 n) \<Longrightarrow> is_ascii_digit b"
  using show_decimal_byte [of b n] by (simp add: is_ascii_digit_def word_le_nat_alt)

lemma lexes_at:
  assumes "t < 2 ^ 32" "word_ends s" "lexes s ts"
  shows "lexes (64 # show_radix 10 t @ s) (QAtId t # ts)"
  unfolding lexes_def
proof
  fix i
  have "takeWhile is_ascii_digit (show_radix 10 t @ s) = show_radix 10 t"
    using word_ends_not_digit [OF assms(2)] show_decimal_digits
    by (subst takeWhile_append2) auto
  moreover have "dropWhile is_ascii_digit (show_radix 10 t @ s) = s"
    using word_ends_not_digit [OF assms(2)] show_decimal_digits
    by (subst dropWhile_append2) (auto simp: takeWhile_eq_Nil_iff dropWhile_eq_self_iff)
  moreover have "parse_unsigned 10 (2 ^ 32) (show_radix 10 t) = Some t"
    using assms(1) by (intro parse_unsigned_show) auto
  ultimately show "tokenize_at i (64 # show_radix 10 t @ s) = Inr (QAtId t # ts)"
    using assms(3) unfolding tokenize_at.simps(2) Let_def
    by (simp add: is_ascii_whitespace_def lexes_def)
qed

lemma scan_str_escape:
  "scan_str i (escape_text x @ 34 # s) = (concat (map push_char x), i + length (escape_text x), 34 # s)"
proof (induction x arbitrary: i)
  case Nil
  show ?case by (cases s) (auto simp: escape_text_def)
next
  case (Cons c x)
  have e: "escape_text (c # x) = (if c = 34 then [92, 34] else if c = 92 then [92, 92] else [c]) @ escape_text x"
    by (simp add: escape_text_def)
  obtain n bs where n: "escape_text x @ 34 # s = n # bs" by (cases "escape_text x") auto
  show ?case
  proof (cases "c = 34 \<or> c = 92")
    case True
    then show ?thesis using Cons.IH [of "i + 2"] by (auto simp: e)
  next
    case False
    then show ?thesis using Cons.IH [of "i + 1"] by (simp add: e n)
  qed
qed

lemma lexes_str:
  assumes "lexes s ts"
  shows "lexes (34 # escape_text x @ 34 # s) (QStr (concat (map push_char x)) # ts)"
  using assms unfolding lexes_def by (simp add: scan_str_escape is_ascii_whitespace_def)

lemma split_colon_append: "58 \<notin> set a \<Longrightarrow> split_colon (a @ 58 # b) = (a, b)"
proof -
  assume "58 \<notin> set a"
  then have "\<forall>x \<in> set a. x \<noteq> 58" by auto
  then show ?thesis by (simp add: split_colon_def takeWhile_append2 dropWhile_append2)
qed

lemma colon_not_digit: "\<lbrakk> 2 \<le> r; r \<le> 36 \<rbrakk> \<Longrightarrow> 58 \<notin> set (show_radix r n)"
  using show_radix_byte(2) [of r 58 n] by auto

lemma word_token_oid: "word_token i (show_oid oid) = Inr (QObjId oid)"
proof -
  have "unat (oid_node_id oid) < 2 ^ 16" "unat (oid_local_seq oid) < 2 ^ 64"
    using unsigned_less [of "oid_node_id oid"] unsigned_less [of "oid_local_seq oid"] by simp_all
  then have p: "parse_unsigned 16 (2 ^ 16) (show_radix 16 (unat (oid_node_id oid))) = Some (unat (oid_node_id oid))"
    "parse_unsigned 10 (2 ^ 64) (show_radix 10 (unat (oid_local_seq oid))) = Some (unat (oid_local_seq oid))"
    by (intro parse_unsigned_show; simp)+
  have s: "strip_prefix (asc ''obj:'') (show_oid oid) =
      Some (show_radix 16 (unat (oid_node_id oid)) @ 58 # show_radix 10 (unat (oid_local_seq oid)))"
    unfolding show_oid_def strip_prefix_append by (simp add: asc_def)
  show ?thesis
    unfolding word_token_def s option.case split_colon_append [OF colon_not_digit [of 16, simplified]] Let_def prod.case p
    by (simp add: oid_roundtrip)
qed

lemma lexes_oid:
  assumes "word_ends s" "lexes s ts"
  shows "lexes (show_oid oid @ s) (QObjId oid # ts)"
proof (rule lexes_token)
  show "list_all is_word_byte (show_oid oid)"
    using word_bytes_show [of 16] word_bytes_show [of 10] by (simp add: show_oid_def asc_def is_word_byte_def is_ascii_whitespace_def)
qed (use assms word_token_oid in \<open>auto simp: show_oid_def asc_def\<close>)

text \<open>The names and values that survive: a name is \<open>@\<close> and the number of the tag, or a bare word the resolver maps back
  to the tag; text is ASCII; a float is printed as a word that is read as that float and not as an integer.\<close>

definition name_printable :: "(byte list \<Rightarrow> tag_id option) \<Rightarrow> (tag_id \<Rightarrow> byte list) \<Rightarrow> tag_id \<Rightarrow> bool" where
  "name_printable r nl t \<longleftrightarrow> t < 2 ^ 32 \<and> nl t = 64 # show_radix 10 t \<or> bare_word (nl t) \<and> r (nl t) = Some t"

fun value_printable :: "float_text \<Rightarrow> attr_value \<Rightarrow> bool" where
  "value_printable ft (VText s) \<longleftrightarrow> list_all (\<lambda>b. b < 128) s"
| "value_printable ft (VInt i) \<longleftrightarrow> i64_ok i"
| "value_printable ft (VFloat f) \<longleftrightarrow>
     bare_word (ft_show ft f) \<and> parse_i64 (ft_show ft f) = None \<and> ft_parse ft (ft_show ft f) = Some f"
| "value_printable ft _ \<longleftrightarrow> False"

fun query_printable :: "float_text \<Rightarrow> (byte list \<Rightarrow> tag_id option) \<Rightarrow> (tag_id \<Rightarrow> byte list) \<Rightarrow> query \<Rightarrow> bool" where
  "query_printable ft r nl (HasTag t) \<longleftrightarrow> name_printable r nl t"
| "query_printable ft r nl (IsA t) \<longleftrightarrow> name_printable r nl t"
| "query_printable ft r nl (HasAttr k op v) \<longleftrightarrow> name_printable r nl k \<and> value_printable ft v"
| "query_printable ft r nl (Related p oid) \<longleftrightarrow> name_printable r nl p"
| "query_printable ft r nl (QAnd qs) \<longleftrightarrow> list_all (query_printable ft r nl) qs"
| "query_printable ft r nl (QOr qs) \<longleftrightarrow> list_all (query_printable ft r nl) qs"
| "query_printable ft r nl (QNot q) \<longleftrightarrow> query_printable ft r nl q"

lemma word_ends_simps [simp]: "word_ends []" "word_ends (32 # s)" "word_ends (41 # s)"
  by (simp_all add: word_ends_def is_word_byte_def is_ascii_whitespace_def)

lemma lexes_name:
  assumes "name_printable r nl t" "word_ends s" "lexes s ts"
  obtains n where "lexes (nl t @ s) (n # ts)" "name_token r n = Some t"
  using assms lexes_at [of t s ts] lexes_word [of "nl t" s ts] by (auto simp: name_printable_def)

lemma bare_word_i64:
  assumes "i64_ok i"
  shows "bare_word (show_i64 i)"
proof -
  have n: "list_all is_word_byte (show_radix 10 n)" for n using word_bytes_show [of 10] by simp
  obtain b bs where s: "show_radix 10 (nat i) = b # bs" by (meson neq_Nil_conv show_radix_not_Nil)
  then have "unat b \<le> 57" using show_decimal_byte [of b "nat i"] by simp
  then have "b \<noteq> 64" "b \<noteq> 111" by auto
  moreover have "is_word_byte 45" by (simp add: is_word_byte_def is_ascii_whitespace_def)
  ultimately show ?thesis using n [of "nat (- i)"] n [of "nat i"] s
    by (auto simp: bare_word_def show_i64_def starts_with_def asc_def)
qed

lemma concat_push_char: "list_all (\<lambda>b. b < 128) s \<Longrightarrow> concat (map push_char s) = s"
  by (induction s) (auto simp: push_char_def)

lemma lexes_value:
  assumes "value_printable ft v" "word_ends s" "lexes s ts"
  obtains n where "lexes (push_value ft v @ s) (n # ts)" "value_token ft n = Some v"
proof (cases v)
  case (VText x)
  then show ?thesis using assms lexes_str [OF assms(3), of x] that [of "QStr x"] by (simp add: concat_push_char)
next
  case (VInt i)
  then show ?thesis using assms lexes_word [OF bare_word_i64 assms(2,3)] that [of "QWord (show_i64 i)"]
    by (simp add: word_value_def)
next
  case (VFloat f)
  then show ?thesis using assms lexes_word [OF _ assms(2,3), of "ft_show ft f"] that [of "QWord (ft_show ft f)"]
    by (simp add: word_value_def)
qed (use assms in auto)

lemma lexes_keyword:
  "lexes s ts \<Longrightarrow> lexes (asc ''(tag '' @ s) (QLParen # QWord (asc ''tag'') # ts)"
  "lexes s ts \<Longrightarrow> lexes (asc ''(isa '' @ s) (QLParen # QWord (asc ''isa'') # ts)"
  "lexes s ts \<Longrightarrow> lexes (asc ''(attr '' @ s) (QLParen # QWord (asc ''attr'') # ts)"
  "lexes s ts \<Longrightarrow> lexes (asc ''(related '' @ s) (QLParen # QWord (asc ''related'') # ts)"
  "lexes s ts \<Longrightarrow> lexes (asc ''(not '' @ s) (QLParen # QWord (asc ''not'') # ts)"
  "lexes s ts \<Longrightarrow> word_ends s \<Longrightarrow> lexes (asc ''(and'' @ s) (QLParen # QWord (asc ''and'') # ts)"
  "lexes s ts \<Longrightarrow> word_ends s \<Longrightarrow> lexes (asc ''(or'' @ s) (QLParen # QWord (asc ''or'') # ts)"
  using lexes_paren(1) [OF lexes_word [OF _ word_ends_simps(2) lexes_space, of "asc ''tag''" s ts]]
    lexes_paren(1) [OF lexes_word [OF _ word_ends_simps(2) lexes_space, of "asc ''isa''" s ts]]
    lexes_paren(1) [OF lexes_word [OF _ word_ends_simps(2) lexes_space, of "asc ''attr''" s ts]]
    lexes_paren(1) [OF lexes_word [OF _ word_ends_simps(2) lexes_space, of "asc ''related''" s ts]]
    lexes_paren(1) [OF lexes_word [OF _ word_ends_simps(2) lexes_space, of "asc ''not''" s ts]]
    lexes_paren(1) [OF lexes_word, of "asc ''and''" s ts] lexes_paren(1) [OF lexes_word, of "asc ''or''" s ts]
  by (simp_all add: asc_def bare_word_def is_word_byte_def is_ascii_whitespace_def starts_with_def)

lemma lexes_op: "lexes s ts \<Longrightarrow> lexes (cmp_to_str op @ 32 # s) (QWord (cmp_to_str op) # ts)"
  by (rule lexes_word [OF _ _ lexes_space], cases op)
    (simp_all add: asc_def bare_word_def is_word_byte_def is_ascii_whitespace_def starts_with_def)

lemma cmp_of_to_str [simp]: "cmp_of_str (cmp_to_str op) = Some op"
  by (cases op) (simp_all add: cmp_of_str_def asc_def)

lemma asc_space: "asc '' '' = [32]" and asc_close: "asc '')'' = [41]"
  by (simp_all add: asc_def)

lemma lexes_children:
  assumes "\<And>q s ts. q \<in> set qs \<Longrightarrow> lexes s ts \<Longrightarrow> \<exists>a. lexes (render ft nl q @ s) (a @ ts) \<and> sexpr ft r a q"
    and "lexes s ts"
  shows "\<exists>a. lexes (concat (map (\<lambda>q. 32 # render ft nl q) qs) @ s) (a @ ts) \<and> sexprs ft r a qs"
  using assms(1)
proof (induction qs)
  case Nil
  then show ?case using assms(2) by (intro exI [of _ "[]"]) (simp add: sexprs_Nil)
next
  case (Cons q qs)
  then obtain b where b: "lexes (concat (map (\<lambda>q. 32 # render ft nl q) qs) @ s) (b @ ts)" "sexprs ft r b qs" by fastforce
  from Cons.prems [OF _ b(1), of q] obtain a
    where "lexes (render ft nl q @ concat (map (\<lambda>q. 32 # render ft nl q) qs) @ s) (a @ b @ ts)" "sexpr ft r a q" by auto
  with b(2) show ?case by (intro exI [of _ "a @ b"]) (auto intro: lexes_space sexprs_Cons)
qed

lemma word_ends_children: "word_ends (concat (map (\<lambda>q. 32 # render ft nl q) qs) @ 41 # s)"
  by (cases qs) auto

lemma lexes_render:
  "\<lbrakk> query_printable ft r nl q; lexes s ts \<rbrakk> \<Longrightarrow> \<exists>a. lexes (render ft nl q @ s) (a @ ts) \<and> sexpr ft r a q"
proof (induction q arbitrary: s ts)
  case (HasTag t)
  obtain n where "lexes (nl t @ 41 # s) (n # QRParen # ts)" "name_token r n = Some t"
    by (rule lexes_name [OF _ _ lexes_paren(2) [OF HasTag(2)]]) (use HasTag in auto)
  then show ?case using lexes_keyword(1) by (intro exI [of _ "[QLParen, QWord (asc ''tag''), n, QRParen]"])
    (auto simp: asc_close intro: sexpr_tag)
next
  case (IsA t)
  obtain n where "lexes (nl t @ 41 # s) (n # QRParen # ts)" "name_token r n = Some t"
    by (rule lexes_name [OF _ _ lexes_paren(2) [OF IsA(2)]]) (use IsA in auto)
  then show ?case using lexes_keyword(2) by (intro exI [of _ "[QLParen, QWord (asc ''isa''), n, QRParen]"])
    (auto simp: asc_close intro: sexpr_isa)
next
  case (HasAttr k op x)
  obtain v where v: "lexes (push_value ft x @ 41 # s) (v # QRParen # ts)" "value_token ft v = Some x"
    by (rule lexes_value [OF _ _ lexes_paren(2) [OF HasAttr(2)]]) (use HasAttr in auto)
  obtain n where "lexes (nl k @ 32 # cmp_to_str op @ 32 # push_value ft x @ 41 # s)
      (n # QWord (cmp_to_str op) # v # QRParen # ts)" "name_token r n = Some k"
    by (rule lexes_name [OF _ _ lexes_space [OF lexes_op [OF v(1)]]]) (use HasAttr in auto)
  with v(2) show ?case using lexes_keyword(3)
    by (intro exI [of _ "[QLParen, QWord (asc ''attr''), n, QWord (cmp_to_str op), v, QRParen]"])
      (auto simp: asc_close asc_space intro: sexpr_attr)
next
  case (Related p oid)
  obtain n where "lexes (nl p @ 32 # show_oid oid @ 41 # s) (n # QObjId oid # QRParen # ts)" "name_token r n = Some p"
    by (rule lexes_name [OF _ _ lexes_space [OF lexes_oid [OF _ lexes_paren(2) [OF Related(2)]]]]) (use Related in auto)
  then show ?case using lexes_keyword(4) by (intro exI [of _ "[QLParen, QWord (asc ''related''), n, QObjId oid, QRParen]"])
    (auto simp: asc_close asc_space intro: sexpr_related)
next
  case (QAnd qs)
  have "\<exists>a. lexes (concat (map (\<lambda>q. 32 # render ft nl q) qs) @ 41 # s) (a @ QRParen # ts) \<and> sexprs ft r a qs"
    by (rule lexes_children [OF _ lexes_paren(2) [OF QAnd.prems(2)]]) (use QAnd in \<open>auto simp: list_all_iff\<close>)
  then obtain a where "lexes (concat (map (\<lambda>q. 32 # render ft nl q) qs) @ 41 # s) (a @ QRParen # ts)" "sexprs ft r a qs"
    by blast
  then show ?case using lexes_keyword(6) [OF _ word_ends_children]
    by (intro exI [of _ "QLParen # QWord (asc ''and'') # a @ [QRParen]"]) (auto simp: asc_close asc_space intro: sexpr_and)
next
  case (QOr qs)
  have "\<exists>a. lexes (concat (map (\<lambda>q. 32 # render ft nl q) qs) @ 41 # s) (a @ QRParen # ts) \<and> sexprs ft r a qs"
    by (rule lexes_children [OF _ lexes_paren(2) [OF QOr.prems(2)]]) (use QOr in \<open>auto simp: list_all_iff\<close>)
  then obtain a where "lexes (concat (map (\<lambda>q. 32 # render ft nl q) qs) @ 41 # s) (a @ QRParen # ts)" "sexprs ft r a qs"
    by blast
  then show ?case using lexes_keyword(7) [OF _ word_ends_children]
    by (intro exI [of _ "QLParen # QWord (asc ''or'') # a @ [QRParen]"]) (auto simp: asc_close asc_space intro: sexpr_or)
next
  case (QNot q)
  from QNot.IH [OF _ lexes_paren(2) [OF QNot.prems(2)]] QNot.prems(1)
  obtain a where "lexes (render ft nl q @ 41 # s) (a @ QRParen # ts)" "sexpr ft r a q" by auto
  then show ?case using lexes_keyword(5)
    by (intro exI [of _ "QLParen # QWord (asc ''not'') # a @ [QRParen]"]) (auto simp: asc_close intro: sexpr_not)
qed

lemma parse_lexed:
  assumes "lexes s ts" "sexpr ft r ts q"
  shows "query_parse ft s r = Inr q"
  using assms parse_complete(1) [OF assms(2), of 0 "[]"] by (auto simp: query_parse_iff tokenize_def lexes_def)

section \<open>Properties\<close>

text \<open>An input for the examples.\<close>

lemma lex_example: "lexes (asc ''(not (tag @7))'') [QLParen, QWord (asc ''not''), QLParen, QWord (asc ''tag''), QAtId 7, QRParen, QRParen]"
proof -
  have "lexes (64 # show_radix 10 7 @ [41, 41]) [QAtId 7, QRParen, QRParen]"
    by (rule lexes_at) (simp_all add: lexes_paren lexes_Nil)
  from lexes_keyword(5) [OF lexes_keyword(1) [OF this]] show ?thesis
    by (simp add: asc_def show_radix.simps digit_byte_def)
qed

lemma sexpr_example:
  "sexpr ft r [QLParen, QWord (asc ''not''), QLParen, QWord (asc ''tag''), QAtId 7, QRParen, QRParen] (QNot (HasTag 7))"
  using sexpr_not [OF sexpr_tag [of r "QAtId 7" 7 ft]] by simp

text \<open>A float library that reads no word as a float, for the examples.\<close>

definition no_floats :: float_text where
  "no_floats = \<lparr>ft_parse = (\<lambda>_. None), ft_show = (\<lambda>_. [])\<rparr>"

lemma query_parse_no_panic: "query_parse ft input r \<noteq> Inl Panic"
proof -
  have "no_panic (query_parse ft input r)"
    by (auto simp: query_parse_def tokenize_def intro!: no_panic_rbind tokenize_no_panic parse_no_panic finish_no_panic)
  then show ?thesis by (simp add: no_panic_def)
qed

text \<open>The sizes and ranges of what is read: at most one operator for every three bytes of the input, and tag ids
  of 32 bits when the resolver returns such ids.\<close>

lemma query_parse_size: "query_parse ft input r = ok q \<Longrightarrow> 3 * query_nodes q \<le> length input"
  using parse_sound(1) sexpr_nodes(1) tokenize_result by (fastforce simp: query_parse_iff tokenize_def)

lemma query_parse_ok:
  assumes "\<And>w t. r w = Some t \<Longrightarrow> t < 2 ^ 32" and "query_parse ft input r = ok q"
  shows "query_ok q"
  using assms(2) parse_sound(1) sexpr_ok(1) [OF assms(1)] tokenize_result by (fastforce simp: query_parse_iff tokenize_def)

text \<open>C20. The parser and the grammars. On an input that splits into tokens, parsing returns a query exactly
  when the token list derives it in the parser's own grammar; an input that does not split is refused with
  the tokeniser's error. An input of the grammar documented in \<open>parser.rs\<close> is accepted when no value in it
  is written \<open>@id\<close>, and refused with an error when some value is, although the comment lists that form.\<close>

theorem parse_iff_grammar:
  "(\<forall>toks q. tokenize input = ok toks \<longrightarrow> (query_parse ft input r = ok q \<longleftrightarrow> sexpr ft r toks q))
   \<and> (\<forall>e. tokenize input = Inl e \<longrightarrow> query_parse ft input r = Inl e)
   \<and> (\<forall>toks. tokenize input = ok toks \<longrightarrow> doc_sexpr ft r toks False \<longrightarrow> (\<exists>q. query_parse ft input r = ok q))
   \<and> (\<forall>toks. tokenize input = ok toks \<longrightarrow> doc_sexpr ft r toks True \<longrightarrow> (\<exists>e. query_parse ft input r = err e))"
proof (intro conjI allI impI)
  have acc: "query_parse ft input r = ok q" if "tokenize input = ok toks" "sexpr ft r toks q" for toks q
    using parse_complete(1) [OF that(2), of 0 "[]"] that(1) by (simp add: query_parse_iff)
  fix toks
  assume t: "tokenize input = ok toks"
  show "query_parse ft input r = ok q \<longleftrightarrow> sexpr ft r toks q" for q
  proof
    assume "query_parse ft input r = ok q"
    with t obtain p where "parse_atom ft r 0 toks = Inr (q, p, [])" by (auto simp: query_parse_iff)
    from parse_sound(1) [OF this] show "sexpr ft r toks q" by simp
  qed (rule acc [OF t])
  show "\<exists>q. query_parse ft input r = ok q" if "doc_sexpr ft r toks False"
    using doc_plain(1) [OF that] acc [OF t] by blast
  show "\<exists>e. query_parse ft input r = err e" if at: "doc_sexpr ft r toks True"
  proof -
    obtain e where "parse_atom ft r 0 toks = Inl e" using doc_at_refused(1) [OF at, of 0 "[]"] by auto
    then have "query_parse ft input r = Inl e" using t by (simp add: query_parse_def)
    then show ?thesis using query_parse_no_panic [of ft input r] by (cases e) auto
  qed
qed (simp add: query_parse_def)

text \<open>\<open>(not (tag \@7))\<close> is read; \<open>(attr a = \@7)\<close> is refused.\<close>

lemma lex_at_value:
  "lexes (asc ''(attr a = @7)'') [QLParen, QWord (asc ''attr''), QWord (asc ''a''), QWord (asc ''=''), QAtId 7, QRParen]"
proof -
  have "lexes (64 # show_radix 10 7 @ [41]) [QAtId 7, QRParen]" by (rule lexes_at) (simp_all add: lexes_paren lexes_Nil)
  from lexes_keyword(3) [OF lexes_word [OF _ _ lexes_space [OF lexes_op [OF this, of OpEq]], of "asc ''a''"]] show ?thesis
    by (simp add: asc_def show_radix.simps digit_byte_def bare_word_def is_word_byte_def is_ascii_whitespace_def starts_with_def)
qed

theorem parse_iff_grammar_witness:
  "query_parse no_floats (asc ''(not (tag @7))'') (\<lambda>_. Some 1) = ok (QNot (HasTag 7)) \<and>
   (\<exists>e. query_parse no_floats (asc ''(attr a = @7)'') (\<lambda>_. Some 1) = err e)"
proof
  show "query_parse no_floats (asc ''(not (tag @7))'') (\<lambda>_. Some 1) = ok (QNot (HasTag 7))"
    using parse_iff_grammar [of "asc ''(not (tag @7))''" no_floats "\<lambda>_. Some 1"] lex_example
      sexpr_example [of no_floats "\<lambda>_. Some 1"] by (auto simp: tokenize_def lexes_def)
  have "doc_sexpr no_floats (\<lambda>_. Some 1) [QLParen, QWord (asc ''attr''), QWord (asc ''a''), QWord (asc ''=''), QAtId 7, QRParen] True"
    using cmp_of_to_str [of OpEq] by (intro doc_attr) simp_all
  then show "\<exists>e. query_parse no_floats (asc ''(attr a = @7)'') (\<lambda>_. Some 1) = err e"
    using parse_iff_grammar [of "asc ''(attr a = @7)''" no_floats "\<lambda>_. Some 1"] lex_at_value
    by (auto simp: tokenize_def lexes_def)
qed

text \<open>C21. Reading inverts printing: a query whose names resolve back to their tags, whose text values are ASCII and whose
  other values are integers, or floats that print as floats, is returned unchanged by parsing its S-expression.\<close>

theorem sexpr_roundtrip:
  assumes "query_printable ft r nl q"
  shows "query_parse ft (to_sexpr ft q nl) r = ok q"
proof -
  from lexes_render [OF assms lexes_Nil] obtain a where "lexes (render ft nl q) a" "sexpr ft r a q" by auto
  then show ?thesis unfolding to_sexpr_def by (rule parse_lexed)
qed

theorem sexpr_roundtrip_witness:
  "query_parse no_floats (to_sexpr no_floats
       (QAnd [HasTag 7, QNot (IsA 9), HasAttr 7 OpLe (VInt (- 42)), HasAttr 9 OpEq (VText (asc ''a \"b'')), Related 7 513])
       (\<lambda>t. if t = 7 then asc ''rock'' else 64 # show_radix 10 t))
     (\<lambda>w. if w = asc ''rock'' then Some 7 else None)
   = ok (QAnd [HasTag 7, QNot (IsA 9), HasAttr 7 OpLe (VInt (- 42)), HasAttr 9 OpEq (VText (asc ''a \"b'')), Related 7 513])"
  by (rule sexpr_roundtrip)
    (simp add: name_printable_def bare_word_def is_word_byte_def is_ascii_whitespace_def starts_with_def asc_def i64_ok_def)

lemma push_char_fixed: "concat (map push_char s) = s \<longleftrightarrow> list_all (\<lambda>b. b < 128) s"
proof
  have len: "length s \<le> length (concat (map push_char s))" for s
    by (induction s) (auto simp: push_char_def)
  show "concat (map push_char s) = s \<Longrightarrow> list_all (\<lambda>b. b < 128) s"
  proof (induction s)
    case (Cons b s)
    show ?case
    proof (cases "b < 128")
      case True
      with Cons show ?thesis by (simp add: push_char_def)
    next
      case False
      then have "length (concat (map push_char (b # s))) > length (b # s)" using len [of s] by (simp add: push_char_def)
      with Cons.prems show ?thesis by (metis less_irrefl)
    qed
  qed simp
qed (rule concat_push_char)

text \<open>C39. A text value is read back as every byte of it re-encoded as one character, so it survives printing and reading
  exactly when it is ASCII.\<close>

theorem sexpr_text_value:
  assumes "name_printable r nl k"
  shows "query_parse ft (to_sexpr ft (HasAttr k op (VText s)) nl) r = ok (HasAttr k op (VText (concat (map push_char s))))
    \<and> (query_parse ft (to_sexpr ft (HasAttr k op (VText s)) nl) r = ok (HasAttr k op (VText s)) \<longleftrightarrow> list_all (\<lambda>b. b < 128) s)"
proof -
  have p: "lexes [41] [QRParen]" using lexes_paren(2) [OF lexes_Nil] .
  have v: "lexes (34 # escape_text s @ 34 # [41]) (QStr (concat (map push_char s)) # [QRParen])" by (rule lexes_str [OF p])
  obtain n where "lexes (nl k @ 32 # cmp_to_str op @ 32 # 34 # escape_text s @ 34 # [41])
      [n, QWord (cmp_to_str op), QStr (concat (map push_char s)), QRParen]" "name_token r n = Some k"
    by (rule lexes_name [OF assms _ lexes_space [OF lexes_op [OF v]]]) auto
  then have "query_parse ft (to_sexpr ft (HasAttr k op (VText s)) nl) r = ok (HasAttr k op (VText (concat (map push_char s))))"
    using lexes_keyword(3) by (intro parse_lexed) (auto simp: to_sexpr_def asc_space asc_close intro: sexpr_attr)
  then show ?thesis by (simp add: push_char_fixed)
qed

theorem sexpr_text_value_witness:
  "query_parse no_floats (to_sexpr no_floats (HasAttr 5 OpEq (VText [0xC3, 0xA9])) (\<lambda>t. 64 # show_radix 10 t)) (\<lambda>_. None)
   = ok (HasAttr 5 OpEq (VText [0xC3, 0x83, 0xC2, 0xA9]))"
  using sexpr_text_value [of "\<lambda>_. None" "\<lambda>t. 64 # show_radix 10 t" 5 no_floats OpEq "[0xC3, 0xA9]"]
  by (simp add: name_printable_def push_char_def)

end
