(* ===== verification/Mb_Cli.thy ===== *)
theory Mb_Cli
  imports Mb_Parser_Thms
begin

text \<open>
  The argument parsers of the \<open>mimir\<close> command: attribute values (\<open>bin/mimir/src/value_parse.rs\<close>) and object ids
  (\<open>bin/mimir/src/oid.rs\<close>). An error has one constructor for each format string, with the text it quotes.
\<close>

section \<open>Attribute values\<close>

datatype value_kind = KInt | KFloat | KText | KTimestamp | KBlob | KAuto

datatype cli_error =
    UnknownValueType "byte list"
  | NotAnInt "byte list"
  | NotAFloat "byte list"
  | BadNsTimestamp "byte list"
  | BadSTimestamp "byte list"
  | NotATimestamp "byte list"
  | ExpectedObj "byte list"
  | BadNodeId "byte list"
  | BadLocalId "byte list"
  | BadHexId "byte list"
  | BadOid "byte list"

definition parse_kind :: "byte list \<Rightarrow> (cli_error, value_kind) res" where
  "parse_kind s =
     (if s = asc ''int'' then ok KInt
      else if s = asc ''float'' then ok KFloat
      else if s = asc ''text'' then ok KText
      else if s = asc ''timestamp'' \<or> s = asc ''ts'' then ok KTimestamp
      else if s = asc ''blob'' then ok KBlob
      else err (UnknownValueType s))"

text \<open>\<open>i64::saturating_mul\<close>.\<close>

definition saturating_mul_i64 :: "int \<Rightarrow> int \<Rightarrow> int" where
  "saturating_mul_i64 a b = max (- (2 ^ 63)) (min (2 ^ 63 - 1) (a * b))"

definition parse_timestamp :: "byte list \<Rightarrow> (cli_error, attr_value) res" where
  "parse_timestamp raw =
     (case strip_prefix (asc ''ns:'') raw of
        Some rest \<Rightarrow> (case parse_i64 rest of Some i \<Rightarrow> ok (VTimestamp i) | None \<Rightarrow> err (BadNsTimestamp rest))
      | None \<Rightarrow>
          (case strip_prefix (asc ''s:'') raw of
             Some rest \<Rightarrow>
               (case parse_i64 rest of
                  Some s \<Rightarrow> ok (VTimestamp (saturating_mul_i64 s 1000000000))
                | None \<Rightarrow> err (BadSTimestamp rest))
           | None \<Rightarrow>
               (case parse_i64 raw of
                  Some i \<Rightarrow>
                    if \<bar>i\<bar> \<ge> 1000000000000000000 then ok (VTimestamp i) else err (NotATimestamp raw)
                | None \<Rightarrow> err (NotATimestamp raw))))"

definition infer :: "float_text \<Rightarrow> byte list \<Rightarrow> attr_value" where
  "infer ft raw =
     (case parse_i64 raw of
        Some i \<Rightarrow> VInt i
      | None \<Rightarrow>
          (case ft_parse ft raw of
             Some f \<Rightarrow> VFloat f
           | None \<Rightarrow> (case parse_timestamp raw of Inr v \<Rightarrow> v | Inl _ \<Rightarrow> VText raw)))"

fun cli_parse_value :: "float_text \<Rightarrow> byte list \<Rightarrow> value_kind \<Rightarrow> (cli_error, attr_value) res" where
  "cli_parse_value ft raw KInt = (case parse_i64 raw of Some i \<Rightarrow> ok (VInt i) | None \<Rightarrow> err (NotAnInt raw))"
| "cli_parse_value ft raw KFloat = (case ft_parse ft raw of Some f \<Rightarrow> ok (VFloat f) | None \<Rightarrow> err (NotAFloat raw))"
| "cli_parse_value ft raw KText = ok (VText raw)"
| "cli_parse_value ft raw KTimestamp = parse_timestamp raw"
| "cli_parse_value ft raw KBlob = ok (VBlob raw)"
| "cli_parse_value ft raw KAuto = ok (infer ft raw)"

section \<open>Object ids\<close>

text \<open>\<open>str::split_once(':')\<close>.\<close>

definition split_once_colon :: "byte list \<Rightarrow> (byte list \<times> byte list) option" where
  "split_once_colon bs = (if 58 \<in> set bs then Some (split_colon bs) else None)"

definition parse_oid :: "byte list \<Rightarrow> (cli_error, object_id) res" where
  "parse_oid s =
     (case strip_prefix (asc ''obj:'') s of
        None \<Rightarrow> err (ExpectedObj s)
      | Some body \<Rightarrow>
          (case split_once_colon body of
             Some (node_part, local_part) \<Rightarrow>
               (case parse_unsigned 16 (2 ^ 16) node_part of
                  None \<Rightarrow> err (BadNodeId node_part)
                | Some node \<Rightarrow>
                    (case parse_unsigned 10 (2 ^ 64) local_part of
                       None \<Rightarrow> err (BadLocalId local_part)
                     | Some loc \<Rightarrow> ok (oid_from_parts (word_of_nat node) (word_of_nat loc))))
           | None \<Rightarrow>
               (case strip_prefix (asc ''0x'') body of
                  Some hex \<Rightarrow>
                    (case parse_unsigned 16 (2 ^ 64) hex of
                       None \<Rightarrow> err (BadHexId hex)
                     | Some loc \<Rightarrow> ok (oid_from_parts 0 (word_of_nat loc)))
                | None \<Rightarrow>
                    (case parse_unsigned 10 (2 ^ 64) body of
                       None \<Rightarrow> err (BadOid body)
                     | Some loc \<Rightarrow> ok (oid_from_parts 0 (word_of_nat loc))))))"

section \<open>Lemmas\<close>

text \<open>The command reads the printed form of an object id as the query language does.\<close>

lemma parse_oid_show: "parse_oid (show_oid oid) = ok oid"
proof -
  have "word_token 0 (show_oid oid) = Inr (QObjId oid)" by (rule word_token_oid)
  moreover obtain body where s: "strip_prefix (asc ''obj:'') (show_oid oid) = Some body" "58 \<in> set body"
    unfolding show_oid_def strip_prefix_append by (simp add: asc_def)
  ultimately show ?thesis
    by (auto simp: parse_oid_def word_token_def split_once_colon_def Let_def split: option.split_asm prod.split_asm)
qed

text \<open>A value the command returns has its integers in range.\<close>

lemma parse_timestamp_ok: "parse_timestamp raw = Inr v \<Longrightarrow> value_ok v"
  by (auto simp: parse_timestamp_def saturating_mul_i64_def i64_ok_def dest!: parse_i64_ok split: option.split_asm if_split_asm)

lemma cli_value_ok: "cli_parse_value ft raw kind = Inr v \<Longrightarrow> value_ok v"
  by (cases kind)
    (auto simp: infer_def dest: parse_i64_ok parse_timestamp_ok split: option.split_asm sum.split)

text \<open>A bare number is never inferred to be a timestamp, however large: the integer reading comes first.\<close>

lemma infer_number: "parse_i64 raw = Some i \<Longrightarrow> infer ft raw = VInt i"
  by (simp add: infer_def)

end
