(* ===== verification/Mb_Pages.thy ===== *)
theory Mb_Pages
  imports Mb_Device Mb_Root Mb_Index
begin

text \<open>
  The 4 KiB blocks of the index crate: the hash bucket (\<open>crates/index/src/kv_bucket.rs\<close>), the hash directory
  (\<open>kv_directory.rs\<close>) and the bitmap page (\<open>tag_bitmap_page.rs\<close>).

  The three files repeat one scheme: a block header, a body, a checksum in the last four bytes, and the operations
  that recompute, verify, write and read. The scheme is the record \<open>page_fmt\<close> with the operations over it; each
  block is an instance, and the locale \<open>page_format\<close> states what an instance provides. A page that was written is
  read back, whatever the format.
\<close>

section \<open>The common scheme\<close>

record ('p, 'e) page_fmt =
  pf_body :: "'p \<Rightarrow> byte list"
  pf_crc :: "'p \<Rightarrow> u32"
  pf_set_crc :: "u32 \<Rightarrow> 'p \<Rightarrow> 'p"
  pf_of :: "byte list \<Rightarrow> 'p"
  pf_validate :: "'p \<Rightarrow> ('e, unit) res"
  pf_mismatch :: "u32 \<Rightarrow> u32 \<Rightarrow> 'e"
  pf_io :: "storage_error \<Rightarrow> 'e"

definition page_recompute_crc :: "(byte list \<Rightarrow> u32) \<Rightarrow> ('p, 'e) page_fmt \<Rightarrow> 'p \<Rightarrow> 'p" where
  "page_recompute_crc crc f p = pf_set_crc f (crc (pf_body f p)) p"

definition page_verify_crc :: "(byte list \<Rightarrow> u32) \<Rightarrow> ('p, 'e) page_fmt \<Rightarrow> 'p \<Rightarrow> ('e, unit) res" where
  "page_verify_crc crc f p =
     (let expected = pf_crc f p; actual = crc (pf_body f p)
      in if expected = actual then ok () else err (pf_mismatch f expected actual))"

definition page_write ::
  "'d block_device \<Rightarrow> (byte list \<Rightarrow> u32) \<Rightarrow> ('p, 'e) page_fmt \<Rightarrow> 'd \<Rightarrow> u64 \<Rightarrow> 'p \<Rightarrow> ('e, 'p \<times> 'd) res" where
  "page_write ops crc f d offset p =
     (let p' = page_recompute_crc crc f p
      in rbind (map_err (pf_io f) (write_at ops d offset (pf_body f p' @ le_bytes 4 (pf_crc f p'))))
           (\<lambda>d'. ok (p', d')))"

definition page_read ::
  "'d block_device \<Rightarrow> (byte list \<Rightarrow> u32) \<Rightarrow> ('p, 'e) page_fmt \<Rightarrow> 'd \<Rightarrow> u64 \<Rightarrow> ('e, 'p) res" where
  "page_read ops crc f d offset =
     rbind (map_err (pf_io f) (read_at ops d offset BLOCK_SIZE)) (\<lambda>buf.
     let p = pf_of f buf
     in rbind (pf_validate f p) (\<lambda>_. rbind (page_verify_crc crc f p) (\<lambda>_. ok p)))"

section \<open>KvBucketBlock\<close>

abbreviation (input) KV_BUCKET_MAX_ENTRIES :: nat where "KV_BUCKET_MAX_ENTRIES \<equiv> 144"
abbreviation (input) KV_BUCKET_FORMAT_VERSION :: nat where "KV_BUCKET_FORMAT_VERSION \<equiv> 1"

record kv_bucket_entry =
  ke_tag_id :: u32
  ke_value_hash :: u64
  ke_bitmap_ref :: block_ref

definition bucket_entry_bytes :: "kv_bucket_entry \<Rightarrow> byte list" where
  "bucket_entry_bytes e = le_bytes 4 (ke_tag_id e) @ le_bytes 8 (ke_value_hash e) @ block_ref_bytes (ke_bitmap_ref e)"

definition bucket_entry_of :: "byte list \<Rightarrow> kv_bucket_entry" where
  "bucket_entry_of bs = \<lparr>ke_tag_id = get_le 0 4 bs, ke_value_hash = get_le 4 8 bs,
     ke_bitmap_ref = block_ref_of (bslice 12 16 bs)\<rparr>"

definition bucket_entry_default :: kv_bucket_entry where
  "bucket_entry_default = \<lparr>ke_tag_id = 0, ke_value_hash = 0, ke_bitmap_ref = block_ref_zero\<rparr>"

record kv_bucket =
  kb_header :: block_header
  kb_local_depth :: u8
  kb_entry_count :: u16
  kb_pad :: u8
  kb_entries :: "kv_bucket_entry list"
  kb_pad_tail :: "byte list"
  kb_crc :: u32

datatype kv_bucket_error =
    BucketCrcMismatch u32 u32
  | BucketInvalidMagic "byte list"
  | BucketInvalidKind u16
  | BucketInvalidVersion u16
  | OverCapacity u16
  | BucketFull

definition bucket_new :: "u8 \<Rightarrow> kv_bucket" where
  "bucket_new local_depth =
     \<lparr>kb_header = block_header_new KKvHashBucket KV_BUCKET_FORMAT_VERSION (BLOCK_SIZE - 32 - 4),
      kb_local_depth = local_depth, kb_entry_count = 0, kb_pad = 0,
      kb_entries = replicate KV_BUCKET_MAX_ENTRIES bucket_entry_default, kb_pad_tail = replicate 24 0, kb_crc = 0\<rparr>"

definition bucket_len :: "kv_bucket \<Rightarrow> nat" where
  "bucket_len b = min (kb_entry_count b) KV_BUCKET_MAX_ENTRIES"

definition bucket_is_empty :: "kv_bucket \<Rightarrow> bool" where
  "bucket_is_empty b \<longleftrightarrow> kb_entry_count b = 0"

definition bucket_is_full :: "kv_bucket \<Rightarrow> bool" where
  "bucket_is_full b \<longleftrightarrow> kb_entry_count b \<ge> KV_BUCKET_MAX_ENTRIES"

definition bucket_iter :: "kv_bucket \<Rightarrow> kv_bucket_entry list" where
  "bucket_iter b = take (bucket_len b) (kb_entries b)"

definition entry_matches :: "u32 \<Rightarrow> u64 \<Rightarrow> kv_bucket_entry \<Rightarrow> bool" where
  "entry_matches tag h e \<longleftrightarrow> ke_tag_id e = tag \<and> ke_value_hash e = h"

definition bucket_lookup :: "kv_bucket \<Rightarrow> u32 \<Rightarrow> u64 \<Rightarrow> block_ref option" where
  "bucket_lookup b tag h =
     map_option ke_bitmap_ref
       (List.find (entry_matches tag h) (take (min (kb_entry_count b) KV_BUCKET_MAX_ENTRIES) (kb_entries b)))"

text \<open>The loop over the indices, the first that matches.\<close>

definition bucket_position :: "kv_bucket \<Rightarrow> u32 \<Rightarrow> u64 \<Rightarrow> nat option" where
  "bucket_position b tag h =
     List.find (\<lambda>i. entry_matches tag h (kb_entries b ! i)) [0 ..< min (kb_entry_count b) KV_BUCKET_MAX_ENTRIES]"

definition bucket_upsert :: "u32 \<Rightarrow> u64 \<Rightarrow> block_ref \<Rightarrow> kv_bucket \<Rightarrow> (kv_bucket_error, kv_bucket) res" where
  "bucket_upsert tag h r b =
     (let count = kb_entry_count b
      in case bucket_position b tag h of
           Some i \<Rightarrow> ok (b\<lparr>kb_entries := (kb_entries b)[i := (kb_entries b ! i)\<lparr>ke_bitmap_ref := r\<rparr>]\<rparr>)
         | None \<Rightarrow>
             if count \<ge> KV_BUCKET_MAX_ENTRIES then err BucketFull
             else ok (b\<lparr>kb_entries := (kb_entries b)[count := \<lparr>ke_tag_id = tag, ke_value_hash = h, ke_bitmap_ref = r\<rparr>],
                        kb_entry_count := count + 1\<rparr>))"

definition bucket_body :: "kv_bucket \<Rightarrow> byte list" where
  "bucket_body b = block_header_bytes (kb_header b) @ le_bytes 1 (kb_local_depth b) @ le_bytes 2 (kb_entry_count b) @
     le_bytes 1 (kb_pad b) @ concat (map bucket_entry_bytes (kb_entries b)) @ kb_pad_tail b"

definition bucket_of :: "byte list \<Rightarrow> kv_bucket" where
  "bucket_of bs =
     \<lparr>kb_header = block_header_of bs, kb_local_depth = get_le 32 1 bs, kb_entry_count = get_le 33 2 bs,
      kb_pad = get_le 35 1 bs,
      kb_entries = map (\<lambda>i. bucket_entry_of (bslice (36 + 28 * i) 28 bs)) [0 ..< KV_BUCKET_MAX_ENTRIES],
      kb_pad_tail = bslice 4068 24 bs, kb_crc = get_le 4092 4 bs\<rparr>"

definition bucket_validate :: "kv_bucket \<Rightarrow> (kv_bucket_error, unit) res" where
  "bucket_validate b =
     (let pre = bh_pre (kb_header b)
      in if bp_magic pre \<noteq> BLOCK_PREAMBLE_MAGIC_BLOCK then err (BucketInvalidMagic (bp_magic pre))
         else if bp_kind pre \<noteq> block_kind_u16 KKvHashBucket then err (BucketInvalidKind (bp_kind pre))
         else if bp_format_version pre \<noteq> KV_BUCKET_FORMAT_VERSION then err (BucketInvalidVersion (bp_format_version pre))
         else if kb_entry_count b > KV_BUCKET_MAX_ENTRIES then err (OverCapacity (kb_entry_count b))
         else ok ())"

definition bucket_fmt :: "(kv_bucket, kv_bucket_error) page_fmt" where
  "bucket_fmt = \<lparr>pf_body = bucket_body, pf_crc = kb_crc, pf_set_crc = (\<lambda>c b. b\<lparr>kb_crc := c\<rparr>), pf_of = bucket_of,
     pf_validate = bucket_validate, pf_mismatch = BucketCrcMismatch, pf_io = (\<lambda>_. BucketCrcMismatch 0 0)\<rparr>"

definition bucket_recompute_crc :: "(byte list \<Rightarrow> u32) \<Rightarrow> kv_bucket \<Rightarrow> kv_bucket" where
  "bucket_recompute_crc crc = page_recompute_crc crc bucket_fmt"

definition bucket_verify_crc :: "(byte list \<Rightarrow> u32) \<Rightarrow> kv_bucket \<Rightarrow> (kv_bucket_error, unit) res" where
  "bucket_verify_crc crc = page_verify_crc crc bucket_fmt"

definition bucket_write ::
  "'d block_device \<Rightarrow> (byte list \<Rightarrow> u32) \<Rightarrow> 'd \<Rightarrow> u64 \<Rightarrow> kv_bucket \<Rightarrow> (kv_bucket_error, kv_bucket \<times> 'd) res" where
  "bucket_write ops crc = page_write ops crc bucket_fmt"

definition bucket_read ::
  "'d block_device \<Rightarrow> (byte list \<Rightarrow> u32) \<Rightarrow> 'd \<Rightarrow> u64 \<Rightarrow> (kv_bucket_error, kv_bucket) res" where
  "bucket_read ops crc = page_read ops crc bucket_fmt"

section \<open>KvDirectoryBlock\<close>

abbreviation (input) KV_DIRECTORY_INLINE_ENTRIES :: nat where "KV_DIRECTORY_INLINE_ENTRIES \<equiv> 252"
abbreviation (input) KV_DIRECTORY_MAX_INLINE_DEPTH :: nat where "KV_DIRECTORY_MAX_INLINE_DEPTH \<equiv> 7"
abbreviation (input) KV_DIRECTORY_FORMAT_VERSION :: nat where "KV_DIRECTORY_FORMAT_VERSION \<equiv> 1"

record kv_directory =
  kd_header :: block_header
  kd_global_depth :: u8
  kd_pad0 :: "byte list"
  kd_bucket_count :: u32
  kd_entries :: "block_ref list"
  kd_spillover_root :: block_ref
  kd_pad_tail :: "byte list"
  kd_crc :: u32

datatype kv_directory_error =
    DirCrcMismatch u32 u32
  | DirInvalidMagic "byte list"
  | DirInvalidKind u16
  | DirInvalidVersion u16
  | SpilloverUnsupported u8
  | InconsistentBucketCount u32 u32

definition directory_new :: "u8 \<Rightarrow> (kv_directory_error, kv_directory) res" where
  "directory_new global_depth =
     (if global_depth > KV_DIRECTORY_MAX_INLINE_DEPTH then err (SpilloverUnsupported global_depth)
      else ok \<lparr>kd_header = block_header_new KKvHashDirectory KV_DIRECTORY_FORMAT_VERSION (BLOCK_SIZE - 32 - 4),
        kd_global_depth = global_depth, kd_pad0 = replicate 3 0, kd_bucket_count = 2 ^ global_depth,
        kd_entries = replicate KV_DIRECTORY_INLINE_ENTRIES block_ref_zero, kd_spillover_root = block_ref_zero,
        kd_pad_tail = replicate 4 0, kd_crc = 0\<rparr>)"

definition directory_set_entry :: "u32 \<Rightarrow> block_ref \<Rightarrow> kv_directory \<Rightarrow> kv_directory" where
  "directory_set_entry idx r dir =
     (if idx < min (kd_bucket_count dir) KV_DIRECTORY_INLINE_ENTRIES then dir\<lparr>kd_entries := (kd_entries dir)[idx := r]\<rparr>
      else dir)"

definition directory_get_entry :: "kv_directory \<Rightarrow> u32 \<Rightarrow> block_ref" where
  "directory_get_entry dir idx =
     (if idx < min (kd_bucket_count dir) KV_DIRECTORY_INLINE_ENTRIES then kd_entries dir ! idx else block_ref_zero)"

definition directory_body :: "kv_directory \<Rightarrow> byte list" where
  "directory_body dir = block_header_bytes (kd_header dir) @ le_bytes 1 (kd_global_depth dir) @ kd_pad0 dir @
     le_bytes 4 (kd_bucket_count dir) @ concat (map block_ref_bytes (kd_entries dir)) @
     block_ref_bytes (kd_spillover_root dir) @ kd_pad_tail dir"

definition directory_of :: "byte list \<Rightarrow> kv_directory" where
  "directory_of bs =
     \<lparr>kd_header = block_header_of bs, kd_global_depth = get_le 32 1 bs, kd_pad0 = bslice 33 3 bs,
      kd_bucket_count = get_le 36 4 bs,
      kd_entries = map (\<lambda>i. block_ref_of (bslice (40 + 16 * i) 16 bs)) [0 ..< KV_DIRECTORY_INLINE_ENTRIES],
      kd_spillover_root = block_ref_of (bslice 4072 16 bs), kd_pad_tail = bslice 4088 4 bs, kd_crc = get_le 4092 4 bs\<rparr>"

definition directory_validate :: "kv_directory \<Rightarrow> (kv_directory_error, unit) res" where
  "directory_validate dir =
     (let pre = bh_pre (kd_header dir); depth = kd_global_depth dir
      in if bp_magic pre \<noteq> BLOCK_PREAMBLE_MAGIC_BLOCK then err (DirInvalidMagic (bp_magic pre))
         else if bp_kind pre \<noteq> block_kind_u16 KKvHashDirectory then err (DirInvalidKind (bp_kind pre))
         else if bp_format_version pre \<noteq> KV_DIRECTORY_FORMAT_VERSION then err (DirInvalidVersion (bp_format_version pre))
         else if depth > KV_DIRECTORY_MAX_INLINE_DEPTH then err (SpilloverUnsupported depth)
         else if kd_bucket_count dir \<noteq> 2 ^ depth then err (InconsistentBucketCount (kd_bucket_count dir) (2 ^ depth))
         else ok ())"

definition directory_fmt :: "(kv_directory, kv_directory_error) page_fmt" where
  "directory_fmt = \<lparr>pf_body = directory_body, pf_crc = kd_crc, pf_set_crc = (\<lambda>c d. d\<lparr>kd_crc := c\<rparr>), pf_of = directory_of,
     pf_validate = directory_validate, pf_mismatch = DirCrcMismatch, pf_io = (\<lambda>_. DirCrcMismatch 0 0)\<rparr>"

definition directory_recompute_crc :: "(byte list \<Rightarrow> u32) \<Rightarrow> kv_directory \<Rightarrow> kv_directory" where
  "directory_recompute_crc crc = page_recompute_crc crc directory_fmt"

definition directory_verify_crc :: "(byte list \<Rightarrow> u32) \<Rightarrow> kv_directory \<Rightarrow> (kv_directory_error, unit) res" where
  "directory_verify_crc crc = page_verify_crc crc directory_fmt"

definition directory_write ::
  "'d block_device \<Rightarrow> (byte list \<Rightarrow> u32) \<Rightarrow> 'd \<Rightarrow> u64 \<Rightarrow> kv_directory \<Rightarrow> (kv_directory_error, kv_directory \<times> 'd) res" where
  "directory_write ops crc = page_write ops crc directory_fmt"

definition directory_read ::
  "'d block_device \<Rightarrow> (byte list \<Rightarrow> u32) \<Rightarrow> 'd \<Rightarrow> u64 \<Rightarrow> (kv_directory_error, kv_directory) res" where
  "directory_read ops crc = page_read ops crc directory_fmt"

section \<open>TagBitmapPage\<close>

abbreviation (input) TAG_BITMAP_PAGE_MAX_BYTES :: nat where "TAG_BITMAP_PAGE_MAX_BYTES \<equiv> 4036"
abbreviation (input) TAG_BITMAP_PAGE_FORMAT_VERSION :: nat where "TAG_BITMAP_PAGE_FORMAT_VERSION \<equiv> 1"

record tag_bitmap_page =
  tp_header :: block_header
  tp_bitmap_len :: u32
  tp_next_page :: block_ref
  tp_bitmap_bytes :: "byte list"
  tp_pad :: "byte list"
  tp_crc :: u32

datatype tag_page_error =
    PageCrcMismatch u32 u32
  | PageInvalidMagic "byte list"
  | PageInvalidKind u16
  | PageInvalidVersion u16
  | Oversize nat
  | PageRoaring string
  | PageIo

text \<open>The copy into the array panics when the chunk is longer than the array.\<close>

definition from_bytes_chunk :: "byte list \<Rightarrow> block_ref \<Rightarrow> ('e, tag_bitmap_page) res" where
  "from_bytes_chunk chunk next_page =
     (if length chunk > TAG_BITMAP_PAGE_MAX_BYTES then Inl Panic
      else ok \<lparr>tp_header = block_header_new KTagBitmapPage TAG_BITMAP_PAGE_FORMAT_VERSION (BLOCK_SIZE - 32 - 4),
        tp_bitmap_len = length chunk, tp_next_page = next_page,
        tp_bitmap_bytes = chunk @ replicate (TAG_BITMAP_PAGE_MAX_BYTES - length chunk) 0,
        tp_pad = replicate 4 0, tp_crc = 0\<rparr>)"

definition from_bitmap :: "'b rb_ops \<Rightarrow> 'b \<Rightarrow> (tag_page_error, tag_bitmap_page) res" where
  "from_bitmap rb b =
     (let bytes = rb_serialize rb b
      in if length bytes > TAG_BITMAP_PAGE_MAX_BYTES then err (Oversize (length bytes))
         else from_bytes_chunk bytes block_ref_zero)"

definition to_bitmap :: "'b rb_ops \<Rightarrow> tag_bitmap_page \<Rightarrow> (tag_page_error, 'b) res" where
  "to_bitmap rb p =
     (let len = tp_bitmap_len p
      in if len > TAG_BITMAP_PAGE_MAX_BYTES then err (Oversize len)
         else case rb_deserialize rb (take len (tp_bitmap_bytes p)) of
                None \<Rightarrow> err (PageRoaring ''deserialise'')
              | Some b \<Rightarrow> ok b)"

definition bitmap_slice :: "tag_bitmap_page \<Rightarrow> byte list" where
  "bitmap_slice p = take (min (tp_bitmap_len p) TAG_BITMAP_PAGE_MAX_BYTES) (tp_bitmap_bytes p)"

definition next_link :: "tag_bitmap_page \<Rightarrow> block_ref" where
  "next_link p = tp_next_page p"

definition tag_page_body :: "tag_bitmap_page \<Rightarrow> byte list" where
  "tag_page_body p = block_header_bytes (tp_header p) @ le_bytes 4 (tp_bitmap_len p) @ block_ref_bytes (tp_next_page p) @
     tp_bitmap_bytes p @ tp_pad p"

definition tag_page_of :: "byte list \<Rightarrow> tag_bitmap_page" where
  "tag_page_of bs =
     \<lparr>tp_header = block_header_of bs, tp_bitmap_len = get_le 32 4 bs, tp_next_page = block_ref_of (bslice 36 16 bs),
      tp_bitmap_bytes = bslice 52 4036 bs, tp_pad = bslice 4088 4 bs, tp_crc = get_le 4092 4 bs\<rparr>"

definition tag_page_validate :: "tag_bitmap_page \<Rightarrow> (tag_page_error, unit) res" where
  "tag_page_validate p =
     (let pre = bh_pre (tp_header p)
      in if bp_magic pre \<noteq> BLOCK_PREAMBLE_MAGIC_BLOCK then err (PageInvalidMagic (bp_magic pre))
         else if bp_kind pre \<noteq> block_kind_u16 KTagBitmapPage then err (PageInvalidKind (bp_kind pre))
         else if bp_format_version pre \<noteq> TAG_BITMAP_PAGE_FORMAT_VERSION then err (PageInvalidVersion (bp_format_version pre))
         else ok ())"

definition tag_page_fmt :: "(tag_bitmap_page, tag_page_error) page_fmt" where
  "tag_page_fmt = \<lparr>pf_body = tag_page_body, pf_crc = tp_crc, pf_set_crc = (\<lambda>c p. p\<lparr>tp_crc := c\<rparr>), pf_of = tag_page_of,
     pf_validate = tag_page_validate, pf_mismatch = PageCrcMismatch, pf_io = (\<lambda>_. PageIo)\<rparr>"

definition tag_page_recompute_crc :: "(byte list \<Rightarrow> u32) \<Rightarrow> tag_bitmap_page \<Rightarrow> tag_bitmap_page" where
  "tag_page_recompute_crc crc = page_recompute_crc crc tag_page_fmt"

definition tag_page_verify_crc :: "(byte list \<Rightarrow> u32) \<Rightarrow> tag_bitmap_page \<Rightarrow> (tag_page_error, unit) res" where
  "tag_page_verify_crc crc = page_verify_crc crc tag_page_fmt"

definition tag_page_write ::
  "'d block_device \<Rightarrow> (byte list \<Rightarrow> u32) \<Rightarrow> 'd \<Rightarrow> u64 \<Rightarrow> tag_bitmap_page \<Rightarrow> (tag_page_error, tag_bitmap_page \<times> 'd) res" where
  "tag_page_write ops crc = page_write ops crc tag_page_fmt"

definition tag_page_read ::
  "'d block_device \<Rightarrow> (byte list \<Rightarrow> u32) \<Rightarrow> 'd \<Rightarrow> u64 \<Rightarrow> (tag_page_error, tag_bitmap_page) res" where
  "tag_page_read ops crc = page_read ops crc tag_page_fmt"

section \<open>What a format provides\<close>

definition page_image :: "(byte list \<Rightarrow> u32) \<Rightarrow> ('p, 'e) page_fmt \<Rightarrow> 'p \<Rightarrow> byte list" where
  "page_image crc f p = pf_body f p @ le_bytes 4 (crc (pf_body f p))"

locale page_format =
  fixes f :: "('p, 'e) page_fmt" and page_ok :: "'p \<Rightarrow> bool"
  assumes body_length: "page_ok p \<Longrightarrow> length (pf_body f p) = 4092"
    and of_bytes: "page_ok p \<Longrightarrow> c < 2 ^ 32 \<Longrightarrow> pf_of f (pf_body f p @ le_bytes 4 c) = pf_set_crc f c p"
    and body_set_crc: "pf_body f (pf_set_crc f c p) = pf_body f p"
    and crc_set_crc: "pf_crc f (pf_set_crc f c p) = c"
    and validate_set_crc: "pf_validate f (pf_set_crc f c p) = pf_validate f p"
begin

lemma length_page_image: "page_ok p \<Longrightarrow> length (page_image crc f p) = 4096"
  by (simp add: page_image_def body_length)

lemma recompute_verifies: "page_verify_crc crc f (page_recompute_crc crc f p) = ok ()"
  by (simp add: page_verify_crc_def page_recompute_crc_def body_set_crc crc_set_crc)

lemma write_image: "page_write ops crc f d off p = ok (p', d') \<longleftrightarrow>
    p' = page_recompute_crc crc f p \<and> write_at ops d off (page_image crc f p) = ok d'"
  by (auto simp: page_write_def page_recompute_crc_def body_set_crc crc_set_crc page_image_def res_simps Let_def)

lemma read_image:
  assumes "page_ok p" and "pf_validate f p = ok ()" and "crc_ok crc" and "read_at ops d off 4096 = ok (page_image crc f p)"
  shows "page_read ops crc f d off = ok (page_recompute_crc crc f p)"
proof -
  have c: "crc (pf_body f p) < 2 ^ 32" using assms(3) by (simp add: crc_ok_def)
  show ?thesis
    using of_bytes [OF assms(1) c] assms(2,4) recompute_verifies [of crc p]
    by (simp add: page_read_def page_image_def page_recompute_crc_def validate_set_crc)
qed

end

section \<open>The three formats provide it\<close>

lemma bslice_concat_nth:
  assumes "\<forall>x\<in>set xs. length (enc x) = s" and "i < length xs"
  shows "bslice (s * i) s (concat (map enc xs)) = enc (xs ! i)"
  using assms
proof (induction xs arbitrary: i)
  case (Cons x xs)
  then show ?case by (cases i) (auto simp: bslice_def)
qed simp

text \<open>An array of equal-sized records inside a larger image.\<close>

lemma array_of_bytes:
  assumes "\<forall>x\<in>set xs. length (enc x) = s" and "\<forall>x\<in>set xs. dec (enc x) = x" and "length pre = off" and "length xs = n"
  shows "map (\<lambda>i. dec (bslice (off + s * i) s (pre @ concat (map enc xs) @ post))) [0 ..< n] = xs"
proof (rule nth_equalityI)
  fix i assume "i < length (map (\<lambda>i. dec (bslice (off + s * i) s (pre @ concat (map enc xs) @ post))) [0 ..< n])"
  then have i: "i < length xs" using assms(4) by simp
  have len: "length (concat (map enc xs)) = s * length xs"
    using assms(1) by (induction xs) auto
  have "s * i + s \<le> s * length xs" using i by (metis Suc_leI add.commute mult_Suc_right mult_le_mono2)
  then have "bslice (off + s * i) s (pre @ concat (map enc xs) @ post) = bslice (s * i) s (concat (map enc xs))"
    using assms(3) len by (simp add: bslice_def)
  also have "\<dots> = enc (xs ! i)" by (rule bslice_concat_nth [OF assms(1) i])
  finally show "map (\<lambda>i. dec (bslice (off + s * i) s (pre @ concat (map enc xs) @ post))) [0 ..< n] ! i = xs ! i"
    using assms(2,4) i by simp
qed (use assms(4) in simp)

definition bucket_entry_ok :: "kv_bucket_entry \<Rightarrow> bool" where
  "bucket_entry_ok e \<longleftrightarrow> ke_tag_id e < 2 ^ 32 \<and> ke_value_hash e < 2 ^ 64 \<and> block_ref_ok (ke_bitmap_ref e)"

definition bucket_ok :: "kv_bucket \<Rightarrow> bool" where
  "bucket_ok b \<longleftrightarrow> block_header_ok (kb_header b) \<and> kb_local_depth b < 2 ^ 8 \<and> kb_entry_count b < 2 ^ 16 \<and> kb_pad b < 2 ^ 8 \<and>
     length (kb_entries b) = 144 \<and> list_all bucket_entry_ok (kb_entries b) \<and> length (kb_pad_tail b) = 24"

definition directory_ok :: "kv_directory \<Rightarrow> bool" where
  "directory_ok d \<longleftrightarrow> block_header_ok (kd_header d) \<and> kd_global_depth d < 2 ^ 8 \<and> length (kd_pad0 d) = 3 \<and>
     kd_bucket_count d < 2 ^ 32 \<and> length (kd_entries d) = 252 \<and> list_all block_ref_ok (kd_entries d) \<and>
     block_ref_ok (kd_spillover_root d) \<and> length (kd_pad_tail d) = 4"

definition tag_page_ok :: "tag_bitmap_page \<Rightarrow> bool" where
  "tag_page_ok p \<longleftrightarrow> block_header_ok (tp_header p) \<and> tp_bitmap_len p < 2 ^ 32 \<and> block_ref_ok (tp_next_page p) \<and>
     length (tp_bitmap_bytes p) = 4036 \<and> length (tp_pad p) = 4"

lemma length_bucket_entry [simp]: "length (bucket_entry_bytes e) = 28"
  by (simp add: bucket_entry_bytes_def)

lemma bucket_entry_of_bytes: "bucket_entry_ok e \<Longrightarrow> bucket_entry_of (bucket_entry_bytes e) = e"
  by (simp add: bucket_entry_ok_def bucket_entry_of_def bucket_entry_bytes_def get_le_def bslice_def block_ref_of_bytes)

lemma length_concat_const: "\<forall>x\<in>set xs. length (enc x) = s \<Longrightarrow> length (concat (map enc xs)) = s * length xs"
  by (induction xs) auto

lemma get_le_append1: "off + n \<le> length xs \<Longrightarrow> get_le off n (xs @ ys) = get_le off n xs"
  by (simp add: get_le_def bslice_def)

lemma get_le_append2: "length xs \<le> off \<Longrightarrow> get_le off n (xs @ ys) = get_le (off - length xs) n ys"
  by (simp add: get_le_def bslice_def)

lemma get_le_le_bytes: "v < 256 ^ n \<Longrightarrow> get_le 0 n (le_bytes n v) = v"
  by (simp add: get_le_def)

lemmas image_simps = get_le_append1 get_le_append2 bslice_append1 bslice_append2 get_le_le_bytes

interpretation bucket_page: page_format bucket_fmt bucket_ok
proof
  fix b and c :: u32
  assume b: "bucket_ok b"
  have es: "length (concat (map bucket_entry_bytes (kb_entries b))) = 4032"
    using b length_concat_const [of "kb_entries b" bucket_entry_bytes 28] by (simp add: bucket_ok_def)
  with b show "length (pf_body bucket_fmt b) = 4092"
    by (simp add: bucket_fmt_def bucket_body_def bucket_ok_def length_block_header_bytes)
  assume c: "c < 2 ^ 32"
  let ?pre = "block_header_bytes (kb_header b) @ le_bytes 1 (kb_local_depth b) @ le_bytes 2 (kb_entry_count b) @ le_bytes 1 (kb_pad b)"
  have entries: "map (\<lambda>i. bucket_entry_of (bslice (36 + 28 * i) 28
      (?pre @ concat (map bucket_entry_bytes (kb_entries b)) @ kb_pad_tail b @ le_bytes 4 c))) [0 ..< 144] = kb_entries b"
    using b by (intro array_of_bytes) (auto simp: bucket_ok_def list_all_iff bucket_entry_of_bytes length_block_header_bytes)
  have hdr: "length (block_header_bytes (kb_header b)) = 32" using b by (simp add: bucket_ok_def length_block_header_bytes)
  show "pf_of bucket_fmt (pf_body bucket_fmt b @ le_bytes 4 c) = pf_set_crc bucket_fmt c b"
    using b c es entries hdr
    by (simp add: bucket_fmt_def bucket_of_def bucket_body_def bucket_ok_def block_header_of_append image_simps)
qed (simp_all add: bucket_fmt_def bucket_body_def bucket_validate_def Let_def)

interpretation directory_page: page_format directory_fmt directory_ok
proof
  fix b and c :: u32
  assume b: "directory_ok b"
  have es: "length (concat (map block_ref_bytes (kd_entries b))) = 4032"
    using b length_concat_const [of "kd_entries b" block_ref_bytes 16] by (simp add: directory_ok_def)
  with b show "length (pf_body directory_fmt b) = 4092"
    by (simp add: directory_fmt_def directory_body_def directory_ok_def length_block_header_bytes)
  assume c: "c < 2 ^ 32"
  let ?pre = "block_header_bytes (kd_header b) @ le_bytes 1 (kd_global_depth b) @ kd_pad0 b @ le_bytes 4 (kd_bucket_count b)"
  have entries: "map (\<lambda>i. block_ref_of (bslice (40 + 16 * i) 16
      (?pre @ concat (map block_ref_bytes (kd_entries b)) @ block_ref_bytes (kd_spillover_root b) @ kd_pad_tail b @ le_bytes 4 c)))
      [0 ..< 252] = kd_entries b"
    using b by (intro array_of_bytes) (auto simp: directory_ok_def list_all_iff block_ref_of_bytes length_block_header_bytes)
  have hdr: "length (block_header_bytes (kd_header b)) = 32" using b by (simp add: directory_ok_def length_block_header_bytes)
  show "pf_of directory_fmt (pf_body directory_fmt b @ le_bytes 4 c) = pf_set_crc directory_fmt c b"
    using b c es entries hdr
    by (simp add: directory_fmt_def directory_of_def directory_body_def directory_ok_def block_header_of_append image_simps
        block_ref_of_bytes)
qed (simp_all add: directory_fmt_def directory_body_def directory_validate_def Let_def)

interpretation tag_page: page_format tag_page_fmt tag_page_ok
proof
  fix b and c :: u32
  assume b: "tag_page_ok b"
  then show "length (pf_body tag_page_fmt b) = 4092"
    by (simp add: tag_page_fmt_def tag_page_body_def tag_page_ok_def length_block_header_bytes)
  assume c: "c < 2 ^ 32"
  have hdr: "length (block_header_bytes (tp_header b)) = 32" using b by (simp add: tag_page_ok_def length_block_header_bytes)
  show "pf_of tag_page_fmt (pf_body tag_page_fmt b @ le_bytes 4 c) = pf_set_crc tag_page_fmt c b"
    using b c hdr
    by (simp add: tag_page_fmt_def tag_page_of_def tag_page_body_def tag_page_ok_def block_header_of_append image_simps
        block_ref_of_bytes)
qed (simp_all add: tag_page_fmt_def tag_page_body_def tag_page_validate_def Let_def)

section \<open>Pages on a device\<close>

context block_dev
begin

lemma page_written:
  assumes "page_format f page_ok" and "dinv d" and "page_ok p" and "page_write ops crc f d off p = ok (p', d')"
  shows "dinv d'" and "writable d'" and "dev_capacity ops d' = dev_capacity ops d" and "off + 4096 \<le> dev_capacity ops d"
    and "image d' = bsplice off (page_image crc f p) (image d)" and "writable d"
proof -
  have w: "write_at ops d off (page_image crc f p) = ok d'"
    using assms(4) by (simp add: page_format.write_image [OF assms(1)])
  have "length (page_image crc f p) = 4096" by (rule page_format.length_page_image [OF assms(1,3)])
  with write_success [OF assms(2) w] show "dinv d'" "writable d'" "dev_capacity ops d' = dev_capacity ops d"
    "off + 4096 \<le> dev_capacity ops d" "image d' = bsplice off (page_image crc f p) (image d)" "writable d" by simp_all
qed

lemma page_slices:
  assumes "page_format f page_ok" and "dinv d" and "page_ok p" and "page_write ops crc f d off p = ok (p', d')"
  shows "bslice off 4096 (image d') = page_image crc f p"
    and "a + n \<le> off \<or> off + 4096 \<le> a \<Longrightarrow> bslice a n (image d') = bslice a n (image d)"
proof -
  have l: "length (page_image crc f p) = 4096" by (rule page_format.length_page_image [OF assms(1,3)])
  have "off + 4096 \<le> length (image d)" using page_written(4) [OF assms] cap_image [OF assms(2)] by linarith
  with l show "bslice off 4096 (image d') = page_image crc f p"
    "a + n \<le> off \<or> off + 4096 \<le> a \<Longrightarrow> bslice a n (image d') = bslice a n (image d)"
    by (auto simp: page_written(5) [OF assms] bslice_bsplice_other)
qed

lemma page_read_back:
  assumes "page_format f page_ok" and "dinv d" and "page_ok p" and "pf_validate f p = ok ()" and "crc_ok crc"
    and "off + 4096 \<le> dev_capacity ops d" and "bslice off 4096 (image d) = page_image crc f p"
  shows "page_read ops crc f d off = ok (page_recompute_crc crc f p)"
  using page_format.read_image [OF assms(1,3,4,5)] read_in [OF assms(2,6)] assms(7) by simp

lemma page_write_ok:
  assumes "page_format f page_ok" and "dinv d" and "writable d" and "page_ok p" and "off + 4096 \<le> dev_capacity ops d"
  obtains d' where "page_write ops crc f d off p = ok (page_recompute_crc crc f p, d')"
proof -
  have "off + length (page_image crc f p) \<le> dev_capacity ops d"
    using page_format.length_page_image [OF assms(1,4)] assms(5) by simp
  from write_in [OF assms(2,3) this] that show thesis by (auto simp: page_format.write_image [OF assms(1)])
qed

end

section \<open>Buckets as maps\<close>

definition bucket_map :: "kv_bucket \<Rightarrow> u32 \<times> u64 \<rightharpoonup> block_ref" where
  "bucket_map b = map_of (map (\<lambda>e. ((ke_tag_id e, ke_value_hash e), ke_bitmap_ref e)) (bucket_iter b))"

lemma find_matches:
  "map_option ke_bitmap_ref (List.find (entry_matches t h) es) =
     map_of (map (\<lambda>e. ((ke_tag_id e, ke_value_hash e), ke_bitmap_ref e)) es) (t, h)"
  by (induction es) (auto simp: entry_matches_def)

lemma bucket_lookup_map: "bucket_lookup b t h = bucket_map b (t, h)"
  by (simp add: bucket_lookup_def bucket_map_def bucket_iter_def bucket_len_def find_matches)

lemma bucket_position_None:
  assumes "bucket_ok b"
  shows "bucket_position b t h = None \<longleftrightarrow> bucket_map b (t, h) = None"
proof -
  have "bucket_iter b = map ((!) (kb_entries b)) [0 ..< min (kb_entry_count b) 144]"
    using assms by (auto simp: bucket_iter_def bucket_len_def bucket_ok_def intro!: nth_equalityI)
  then show ?thesis by (auto simp: bucket_position_def find_None_iff bucket_map_def map_of_eq_None_iff entry_matches_def image_iff)
qed

lemma bucket_upsert_new:
  assumes "bucket_ok b" and "kb_entry_count b < 144" and "bucket_map b (t, h) = None" and "t < 2 ^ 32" "h < 2 ^ 64" "block_ref_ok r"
  obtains b' where "bucket_upsert t h r b = ok b'" "bucket_ok b'" "kb_entry_count b' = kb_entry_count b + 1"
    "bucket_iter b' = bucket_iter b @ [\<lparr>ke_tag_id = t, ke_value_hash = h, ke_bitmap_ref = r\<rparr>]" "kb_header b' = kb_header b"
proof -
  let ?e = "\<lparr>ke_tag_id = t, ke_value_hash = h, ke_bitmap_ref = r\<rparr>"
  let ?b = "b\<lparr>kb_entries := (kb_entries b)[kb_entry_count b := ?e], kb_entry_count := kb_entry_count b + 1\<rparr>"
  have u: "bucket_upsert t h r b = ok ?b"
    using assms(2,3) bucket_position_None [OF assms(1), of t h] by (simp add: bucket_upsert_def Let_def)
  have "bucket_entry_ok ?e" using assms(4-6) by (simp add: bucket_entry_ok_def)
  then have o: "bucket_ok ?b" using assms(1,2) by (simp add: bucket_ok_def list_all_length nth_list_update)
  have "bucket_iter ?b = bucket_iter b @ [?e]"
    using assms(1,2) by (simp add: bucket_iter_def bucket_len_def bucket_ok_def min_def take_Suc_conv_app_nth)
  with u o that show thesis by simp
qed

end
