(* ===== verification/Mb_Kv_Region.thy ===== *)
theory Mb_Kv_Region
  imports Mb_Pages Mb_Region
begin

text \<open>
  The key-value index on disk (\<open>crates/index/src/kv_index.rs\<close>): one directory block, the hash buckets and one bitmap
  page for every entry, in the 64 blocks of a region. The older path through a B+ tree node, which the source keeps for
  tools, is here too.

  The texts of the \<open>Roaring\<close> errors are descriptions only. An index that is written is read back with the same sets of
  objects; the secret of the value hash is not part of the image and comes back as zeros.
\<close>

section \<open>Layout\<close>

abbreviation (input) SLOT_SIZE :: nat where "SLOT_SIZE \<equiv> 4096"
abbreviation (input) SLOTS_PER_REGION :: nat where "SLOTS_PER_REGION \<equiv> 64"

definition directory_index :: "u64 \<Rightarrow> u8 \<Rightarrow> u32" where
  "directory_index h global_depth = (if global_depth = 0 then 0 else (h div 2 ^ (64 - global_depth)) mod 2 ^ 32)"

function depth_loop :: "nat \<Rightarrow> u8 \<Rightarrow> u8" where
  "depth_loop buckets_needed depth =
     (if 2 ^ depth < buckets_needed then
        (if depth + 1 > KV_DIRECTORY_MAX_INLINE_DEPTH then depth + 1 else depth_loop buckets_needed (depth + 1))
      else depth)"
  by pat_completeness auto
termination
  by (relation "measure (\<lambda>(n, depth). 8 - depth)") auto

declare depth_loop.simps [simp del]

definition select_global_depth :: "nat \<Rightarrow> u8" where
  "select_global_depth entry_count =
     (if entry_count \<le> KV_BUCKET_MAX_ENTRIES then 0
      else depth_loop ((entry_count + (KV_BUCKET_MAX_ENTRIES - 1)) div KV_BUCKET_MAX_ENTRIES) 0)"

definition slot_block_ref :: "u64 \<Rightarrow> nat \<Rightarrow> u16 \<Rightarrow> ('e, block_ref) res" where
  "slot_block_ref region_offset slot_idx disk_id =
     rbind (add_u64 region_offset (slot_idx * SLOT_SIZE)) (\<lambda>absolute.
     ok \<lparr>br_disk_id = disk_id, br_pad = 0, br_block_no = absolute div SLOT_SIZE mod 2 ^ 32, br_generation = 1\<rparr>)"

section \<open>Writing\<close>

text \<open>The bitmap page of one entry and its place in a bucket; indexing past the buckets panics.\<close>

definition kv_write_entry ::
  "'d block_device \<Rightarrow> (byte list \<Rightarrow> u32) \<Rightarrow> 'b rb_ops \<Rightarrow> u64 \<Rightarrow> u8 \<Rightarrow> nat \<Rightarrow> (tag_id \<times> u64) \<times> 'b \<Rightarrow> 'd \<times> kv_bucket list \<Rightarrow>
   (index_error, 'd \<times> kv_bucket list) res" where
  "kv_write_entry ops crc rb offset global_depth bitmap_slot = (\<lambda>((tag, h), bm) (d, buckets).
     rbind (slot_block_ref offset bitmap_slot 0) (\<lambda>bitmap_block_ref.
     rbind (add_u64 offset (bitmap_slot * SLOT_SIZE)) (\<lambda>bitmap_byte_offset.
     rbind (map_err (\<lambda>_. IndexRoaring ''bitmap page'') (from_bitmap rb bm)) (\<lambda>page.
     rbind (map_err (\<lambda>_. IndexRoaring ''bitmap page'') (tag_page_write ops crc d bitmap_byte_offset page)) (\<lambda>(_, d1).
     let dir_idx = directory_index h global_depth
     in if dir_idx \<ge> length buckets then Inl Panic
        else rbind (map_err (\<lambda>_. IndexRoaring ''bucket'') (bucket_upsert tag h bitmap_block_ref (buckets ! dir_idx))) (\<lambda>b.
             ok (d1, buckets[dir_idx := b])))))))"

fun kv_write_entries ::
  "'d block_device \<Rightarrow> (byte list \<Rightarrow> u32) \<Rightarrow> 'b rb_ops \<Rightarrow> u64 \<Rightarrow> u8 \<Rightarrow> nat \<Rightarrow> ((tag_id \<times> u64) \<times> 'b) list \<Rightarrow> 'd \<times> kv_bucket list \<Rightarrow>
   (index_error, 'd \<times> kv_bucket list) res" where
  "kv_write_entries ops crc rb offset global_depth slot [] st = ok st"
| "kv_write_entries ops crc rb offset global_depth slot (e # es) st =
     rbind (kv_write_entry ops crc rb offset global_depth slot e st)
       (kv_write_entries ops crc rb offset global_depth (slot + 1) es)"

fun kv_write_buckets ::
  "'d block_device \<Rightarrow> (byte list \<Rightarrow> u32) \<Rightarrow> u64 \<Rightarrow> nat \<Rightarrow> kv_bucket list \<Rightarrow> 'd \<Rightarrow> (index_error, 'd) res" where
  "kv_write_buckets ops crc offset bucket_idx [] d = ok d"
| "kv_write_buckets ops crc offset bucket_idx (b # bs) d =
     rbind (add_u64 offset ((1 + bucket_idx) * SLOT_SIZE)) (\<lambda>bucket_byte_offset.
     rbind (map_err (\<lambda>_. IndexRoaring ''bucket'') (bucket_write ops crc d bucket_byte_offset b)) (\<lambda>(_, d1).
     kv_write_buckets ops crc offset (bucket_idx + 1) bs d1))"

fun kv_fill_directory :: "u64 \<Rightarrow> nat list \<Rightarrow> kv_directory \<Rightarrow> ('e, kv_directory) res" where
  "kv_fill_directory offset [] dir = ok dir"
| "kv_fill_directory offset (i # is) dir =
     rbind (slot_block_ref offset (1 + i) 0) (\<lambda>r. kv_fill_directory offset is (directory_set_entry (i mod 2 ^ 32) r dir))"

definition flush_extendible_hash ::
  "'d block_device \<Rightarrow> (byte list \<Rightarrow> u32) \<Rightarrow> 'b rb_ops \<Rightarrow> 'b kv_index \<Rightarrow> 'd \<Rightarrow> u64 \<Rightarrow> (index_error, 'd) res" where
  "flush_extendible_hash ops crc rb idx d offset =
     (let entry_count = length (kv_entries idx);
          global_depth = select_global_depth entry_count;
          bucket_count = 2 ^ global_depth
      in if global_depth > KV_DIRECTORY_MAX_INLINE_DEPTH then err (IndexRoaring ''global depth exceeds the inline cap'')
         else if 1 + bucket_count + entry_count > SLOTS_PER_REGION then err (IndexRoaring ''region too small'')
         else rbind (kv_write_entries ops crc rb offset global_depth (1 + bucket_count) (kv_entries idx)
                      (d, replicate bucket_count (bucket_new global_depth))) (\<lambda>(d1, buckets).
              rbind (kv_write_buckets ops crc offset 0 buckets d1) (\<lambda>d2.
              rbind (map_err (\<lambda>_. IndexRoaring ''directory'') (directory_new global_depth)) (\<lambda>dir0.
              rbind (kv_fill_directory offset [0 ..< bucket_count] dir0) (\<lambda>dir.
              rbind (map_err (\<lambda>_. IndexRoaring ''directory'') (directory_write ops crc d2 offset dir)) (\<lambda>(_, d3).
              ok d3))))))"

definition kv_flush_to_region ::
  "'d block_device \<Rightarrow> (byte list \<Rightarrow> u32) \<Rightarrow> 'b rb_ops \<Rightarrow> 'b kv_index \<Rightarrow> 'd \<Rightarrow> u64 \<Rightarrow> (index_error, 'd) res" where
  "kv_flush_to_region ops crc rb idx d offset = flush_extendible_hash ops crc rb idx d offset"

section \<open>Reading\<close>

fun kv_load_entries ::
  "'d block_device \<Rightarrow> (byte list \<Rightarrow> u32) \<Rightarrow> 'b rb_ops \<Rightarrow> 'd \<Rightarrow> kv_bucket_entry list \<Rightarrow> (tag_id \<times> u64, 'b) btree_map \<Rightarrow>
   (index_error, (tag_id \<times> u64, 'b) btree_map) res" where
  "kv_load_entries ops crc rb d [] m = ok m"
| "kv_load_entries ops crc rb d (e # es) m =
     (let bitmap_block_no = br_block_no (ke_bitmap_ref e)
      in if bitmap_block_no = 0 then kv_load_entries ops crc rb d es m
         else rbind (map_err (\<lambda>_. IndexRoaring ''bitmap page'') (tag_page_read ops crc d (bitmap_block_no * SLOT_SIZE))) (\<lambda>page.
              rbind (map_err (\<lambda>_. IndexRoaring ''bitmap page'') (to_bitmap rb page)) (\<lambda>bm.
              kv_load_entries ops crc rb d es (bm_insert (ke_tag_id e, ke_value_hash e) bm m))))"

fun kv_load_buckets ::
  "'d block_device \<Rightarrow> (byte list \<Rightarrow> u32) \<Rightarrow> 'b rb_ops \<Rightarrow> 'd \<Rightarrow> block_ref list \<Rightarrow> u32 set \<Rightarrow> (tag_id \<times> u64, 'b) btree_map \<Rightarrow>
   (index_error, (tag_id \<times> u64, 'b) btree_map) res" where
  "kv_load_buckets ops crc rb d [] seen m = ok m"
| "kv_load_buckets ops crc rb d (r # rs) seen m =
     (let bucket_block_no = br_block_no r
      in if bucket_block_no = 0 then kv_load_buckets ops crc rb d rs seen m
         else if bucket_block_no \<in> seen then kv_load_buckets ops crc rb d rs seen m
         else rbind (map_err (\<lambda>_. IndexRoaring ''bucket'') (bucket_read ops crc d (bucket_block_no * SLOT_SIZE))) (\<lambda>bucket.
              rbind (kv_load_entries ops crc rb d (bucket_iter bucket) m)
                (kv_load_buckets ops crc rb d rs (insert bucket_block_no seen))))"

definition load_extendible_hash ::
  "'d block_device \<Rightarrow> (byte list \<Rightarrow> u32) \<Rightarrow> 'b rb_ops \<Rightarrow> 'd \<Rightarrow> u64 \<Rightarrow> (index_error, 'b kv_index) res" where
  "load_extendible_hash ops crc rb d offset =
     rbind (map_err (\<lambda>_. IndexRoaring ''directory'') (directory_read ops crc d offset)) (\<lambda>dir.
     rbind (kv_load_buckets ops crc rb d (map (directory_get_entry dir) [0 ..< kd_bucket_count dir]) {} []) (\<lambda>m.
     ok \<lparr>kv_entries = m, kv_secret = replicate 16 0\<rparr>))"

definition kv_load_from_region ::
  "'d block_device \<Rightarrow> (byte list \<Rightarrow> u32) \<Rightarrow> 'b rb_ops \<Rightarrow> 'd \<Rightarrow> u64 \<Rightarrow> (index_error, 'b kv_index) res" where
  "kv_load_from_region ops crc rb d offset =
     rbind (map_err IndexStorage (read_at ops d offset 8)) (\<lambda>probe.
     if list_all (\<lambda>b. b = 0) probe then ok kv_new
     else load_extendible_hash ops crc rb d offset)"

section \<open>The path through a B+ tree node\<close>

definition kv_to_loaded_node ::
  "'b rb_ops \<Rightarrow> 'b kv_index \<Rightarrow> ('e, (tag_id \<times> u64, byte list) loaded_node) res" where
  "kv_to_loaded_node rb idx =
     (let entries = map (\<lambda>(k, bm). (k, rb_serialize rb bm)) (kv_entries idx);
          node = node_new KvDirectory 0 18
      in if entries = [] then ok node
         else rbind (run_from_sorted 0 0 entries) (\<lambda>run.
           ok (node\<lparr>n_sorted_runs := [run], n_header := (n_header node)\<lparr>nh_sorted_run_count := 1\<rparr>\<rparr>)))"

fun kv_restore :: "'b rb_ops \<Rightarrow> ((tag_id \<times> u64) \<times> byte list) list \<Rightarrow> (tag_id \<times> u64, 'b) btree_map \<Rightarrow>
   (index_error, (tag_id \<times> u64, 'b) btree_map) res" where
  "kv_restore rb [] m = ok m"
| "kv_restore rb ((k, bytes) # es) m =
     (case rb_deserialize rb bytes of
        None \<Rightarrow> err (IndexRoaring ''deserialise'')
      | Some bm \<Rightarrow> kv_restore rb es (bm_insert k bm m))"

definition kv_from_loaded_node ::
  "'b rb_ops \<Rightarrow> (tag_id \<times> u64, byte list) kmerge \<Rightarrow> (tag_id \<times> u64, byte list) loaded_node \<Rightarrow> (index_error, 'b kv_index) res" where
  "kv_from_loaded_node rb kmerge node =
     rbind (kv_restore rb (merge_iter kmerge node) []) (\<lambda>m. ok \<lparr>kv_entries = m, kv_secret = replicate 16 0\<rparr>)"

section \<open>Lemmas\<close>

text \<open>A flush that is not refused has at most 62 entries, all in one bucket.\<close>

lemma depth_loop_ge: "depth \<le> depth_loop n depth"
proof (induction n depth rule: depth_loop.induct)
  case (1 n depth)
  then show ?case by (subst depth_loop.simps) auto
qed

lemma flush_capacity:
  assumes "1 + 2 ^ select_global_depth n + n \<le> (64 :: nat)"
  shows "select_global_depth n = 0" and "n \<le> 62"
  using assms by (auto simp: select_global_depth_def split: if_splits)

text \<open>The reference to a slot of an aligned region below 16 TiB names the bytes of the slot.\<close>

definition slot_ref :: "u64 \<Rightarrow> nat \<Rightarrow> block_ref" where
  "slot_ref offset slot = \<lparr>br_disk_id = 0, br_pad = 0, br_block_no = offset div 4096 + slot, br_generation = 1\<rparr>"

definition region_aligned :: "u64 \<Rightarrow> bool" where
  "region_aligned offset \<longleftrightarrow> 4096 dvd offset \<and> offset + 64 * 4096 \<le> 2 ^ 44"

lemma slot_ref_offset:
  assumes "region_aligned offset"
  shows "br_block_no (slot_ref offset slot) * 4096 = offset + slot * 4096"
  using assms by (simp add: slot_ref_def region_aligned_def add_mult_distrib)

lemma slot_block_no_less: "region_aligned offset \<Longrightarrow> slot < 64 \<Longrightarrow> offset div 4096 + slot < 2 ^ 32"
  unfolding region_aligned_def by (auto elim!: dvdE)

lemma slot_ref_ok: "region_aligned offset \<Longrightarrow> slot < 64 \<Longrightarrow> block_ref_ok (slot_ref offset slot)"
  using slot_block_no_less [of offset slot] by (simp add: block_ref_ok_def slot_ref_def)

lemma slot_add_u64: "region_aligned offset \<Longrightarrow> slot < 64 \<Longrightarrow> add_u64 offset (slot * 4096) = ok (offset + slot * 4096)"
  by (simp add: region_aligned_def)

lemma slot_block_ref_eq:
  assumes "region_aligned offset" and "slot < 64"
  shows "slot_block_ref offset slot 0 = ok (slot_ref offset slot)"
proof -
  have "(offset + slot * 4096) div 4096 = offset div 4096 + slot" by simp
  then show ?thesis
    using slot_block_no_less [OF assms] by (simp add: slot_block_ref_def slot_add_u64 [OF assms] slot_ref_def del: div_mult_self1)
qed

lemma from_bitmap_page:
  assumes "from_bitmap rb b = ok page"
  shows "tag_page_ok page" and "tag_page_validate page = ok ()"
    and "rb_deserialize rb (rb_serialize rb b) = Some b' \<Longrightarrow> to_bitmap rb (page_recompute_crc crc tag_page_fmt page) = ok b'"
  using assms
  by (auto simp: from_bitmap_def from_bytes_chunk_def Let_def tag_page_ok_def tag_page_validate_def block_header_ok_def preamble_ok_def
      BLOCK_PREAMBLE_MAGIC_BLOCK_def block_header_new_def block_ref_ok_def block_ref_zero_def block_ref_new_def to_bitmap_def page_recompute_crc_def
      tag_page_fmt_def split: if_splits)

lemma bm_insert_last: "\<forall>x\<in>set m. fst x < k \<Longrightarrow> bm_insert k v m = m @ [(k, v)]"
  by (induction m) (auto simp: not_less_iff_gr_or_eq)

lemma fold_bm_insert_sorted: "bm_wf (m @ es) \<Longrightarrow> fold (\<lambda>(k, v). bm_insert k v) es m = m @ es"
proof (induction es arbitrary: m)
  case (Cons e es)
  obtain k v where e: "e = (k, v)" by (cases e)
  have "\<forall>x\<in>set m. fst x < k" using Cons.prems by (auto simp: bm_wf_def sorted_wrt_append e)
  then show ?case using Cons.IH [of "m @ [e]"] Cons.prems by (simp add: e bm_insert_last)
qed simp

fun entries_of :: "u64 \<Rightarrow> nat \<Rightarrow> ((tag_id \<times> u64) \<times> 'b) list \<Rightarrow> kv_bucket_entry list" where
  "entries_of offset slot [] = []"
| "entries_of offset slot (((t, h), b) # es) =
     \<lparr>ke_tag_id = t, ke_value_hash = h, ke_bitmap_ref = slot_ref offset slot\<rparr> # entries_of offset (slot + 1) es"

fun pages_at :: "(byte list \<Rightarrow> u32) \<Rightarrow> 'b rb_ops \<Rightarrow> byte list \<Rightarrow> u64 \<Rightarrow> nat \<Rightarrow> ((tag_id \<times> u64) \<times> 'b) list \<Rightarrow> bool" where
  "pages_at crc rb img offset slot [] \<longleftrightarrow> True"
| "pages_at crc rb img offset slot ((k, b) # es) \<longleftrightarrow>
     (\<exists>page. from_bitmap rb b = ok page \<and> bslice (offset + slot * 4096) 4096 img = page_image crc tag_page_fmt page) \<and>
     pages_at crc rb img offset (slot + 1) es"

lemma pages_at_frame:
  assumes "pages_at crc rb img offset slot es"
    and "\<And>a n. offset + slot * 4096 \<le> a \<Longrightarrow> bslice a n img' = bslice a n img"
  shows "pages_at crc rb img' offset slot es"
  using assms
proof (induction es arbitrary: slot)
  case (Cons e es)
  obtain k b where e: "e = (k, b)" by (cases e)
  have "pages_at crc rb img' offset (slot + 1) es" using Cons.IH [of "slot + 1"] Cons.prems by (auto simp: e)
  with Cons.prems show ?case by (auto simp: e)
qed simp

lemma bucket_new_empty:
  "bucket_ok (bucket_new 0)" "kb_entry_count (bucket_new 0) = 0" "bucket_iter (bucket_new 0) = []"
  by (simp_all add: bucket_new_def bucket_ok_def block_header_new_def block_header_ok_def preamble_ok_def
      BLOCK_PREAMBLE_MAGIC_BLOCK_def list_all_length bucket_entry_ok_def bucket_entry_default_def block_ref_ok_def
      block_ref_zero_def block_ref_new_def bucket_iter_def bucket_len_def)

lemma new_directory_page:
  assumes "region_aligned offset" and "directory_new 0 = ok dir"
  shows "directory_ok (directory_set_entry 0 (slot_ref offset 1) dir)"
    and "directory_validate (directory_set_entry 0 (slot_ref offset 1) dir) = ok ()"
    and "kd_bucket_count (directory_set_entry 0 (slot_ref offset 1) dir) = 1"
    and "directory_get_entry ((directory_set_entry 0 (slot_ref offset 1) dir)\<lparr>kd_crc := c\<rparr>) 0 = slot_ref offset 1"
  using assms(2) slot_ref_ok [OF assms(1), of 1]
  by (auto simp: directory_new_def directory_set_entry_def directory_ok_def block_header_new_def block_header_ok_def
      preamble_ok_def BLOCK_PREAMBLE_MAGIC_BLOCK_def list_all_length nth_list_update block_ref_ok_def block_ref_zero_def
      block_ref_new_def directory_validate_def directory_get_entry_def)

lemma from_bitmap_ok: "(\<exists>page. from_bitmap rb b = ok page) \<longleftrightarrow> length (rb_serialize rb b) \<le> 4036"
  by (auto simp: from_bitmap_def from_bytes_chunk_def Let_def)

lemma pages_at_fit: "pages_at crc rb img offset slot es \<Longrightarrow> (k, b) \<in> set es \<Longrightarrow> length (rb_serialize rb b) \<le> 4036"
  by (induction es arbitrary: slot) (use from_bitmap_ok in fastforce)+

lemma upsert_keeps_fresh:
  assumes "bucket_iter b1 = bucket_iter b @ [\<lparr>ke_tag_id = t, ke_value_hash = h, ke_bitmap_ref = r\<rparr>]"
    and "\<forall>((t', h'), _)\<in>set es. bucket_map b (t', h') = None \<and> t' < 2 ^ 32 \<and> h' < 2 ^ 64" and "(t, h) \<notin> fst ` set es"
  shows "\<forall>((t', h'), _)\<in>set es. bucket_map b1 (t', h') = None \<and> t' < 2 ^ 32 \<and> h' < 2 ^ 64"
proof (clarify, intro conjI)
  fix t' h' bm' assume m: "((t', h'), bm') \<in> set es"
  then have "(t', h') \<noteq> (t, h)" using assms(3) by force
  moreover have "bucket_map b (t', h') = None" "t' < 2 ^ 32" "h' < 2 ^ 64" using assms(2) m by auto
  ultimately show "bucket_map b1 (t', h') = None" "t' < 2 ^ 32" "h' < 2 ^ 64"
    by (simp_all add: bucket_map_def assms(1) map_add_def)
qed

context block_dev
begin

lemma write_entry:
  assumes d: "dinv d" and r: "region_aligned offset" "slot < 64" and b: "bucket_ok b" "kb_entry_count b < 144"
    and k: "bucket_map b (t, h) = None" "t < 2 ^ 32" "h < 2 ^ 64"
    and w: "kv_write_entry ops crc rb offset 0 slot ((t, h), bm) (d, [b]) = ok st"
  obtains d' b' where "st = (d', [b'])" "dinv d'" "dev_capacity ops d' = dev_capacity ops d" "bucket_ok b'"
    "kb_entry_count b' = kb_entry_count b + 1" "kb_header b' = kb_header b"
    "bucket_iter b' = bucket_iter b @ [\<lparr>ke_tag_id = t, ke_value_hash = h, ke_bitmap_ref = slot_ref offset slot\<rparr>]"
    "pages_at crc rb (image d') offset slot [((t, h), bm)]"
    "\<And>a n. a + n \<le> offset + slot * 4096 \<or> offset + (slot + 1) * 4096 \<le> a \<Longrightarrow> bslice a n (image d') = bslice a n (image d)"
    "offset + (slot + 1) * 4096 \<le> dev_capacity ops d" "writable d'"
proof -
  obtain b' where u: "bucket_upsert t h (slot_ref offset slot) b = ok b'" "bucket_ok b'"
    "kb_entry_count b' = kb_entry_count b + 1" "kb_header b' = kb_header b"
    "bucket_iter b' = bucket_iter b @ [\<lparr>ke_tag_id = t, ke_value_hash = h, ke_bitmap_ref = slot_ref offset slot\<rparr>]"
    by (rule bucket_upsert_new [OF b k slot_ref_ok [OF r]]) blast
  from w u obtain page p' d' where page: "from_bitmap rb bm = ok page"
    and pw: "page_write ops crc tag_page_fmt d (offset + slot * 4096) page = ok (p', d')" and st: "st = (d', [b'])"
    by (auto simp: kv_write_entry_def slot_block_ref_eq [OF r] slot_add_u64 [OF r] res_simps tag_page_write_def
        directory_index_def Let_def)
  note P = tag_page.page_format_axioms d from_bitmap_page(1) [OF page] pw
  note W = page_written [OF P] and S = page_slices [OF P]
  show thesis
  proof (rule that [OF st W(1) W(3) u(2-4) u(5)])
    show "pages_at crc rb (image d') offset slot [((t, h), bm)]" using page S(1) by simp
  qed (use S(2) W(2,4) in \<open>auto simp: algebra_simps\<close>)
qed

lemma write_entries:
  assumes "dinv d" and "region_aligned offset" "slot + length es \<le> 64" and "bucket_ok b" "kb_entry_count b + length es \<le> 144"
    and "\<forall>((t, h), _)\<in>set es. bucket_map b (t, h) = None \<and> t < 2 ^ 32 \<and> h < 2 ^ 64" and "distinct (map fst es)"
    and "kv_write_entries ops crc rb offset 0 slot es (d, [b]) = ok st"
  shows "\<exists>d' b'. st = (d', [b']) \<and> dinv d' \<and> dev_capacity ops d' = dev_capacity ops d \<and> bucket_ok b' \<and>
    kb_entry_count b' = kb_entry_count b + length es \<and> kb_header b' = kb_header b \<and>
    bucket_iter b' = bucket_iter b @ entries_of offset slot es \<and> pages_at crc rb (image d') offset slot es \<and>
    (\<forall>a n. a + n \<le> offset + slot * 4096 \<longrightarrow> bslice a n (image d') = bslice a n (image d)) \<and>
    (es \<noteq> [] \<longrightarrow> offset + (slot + length es) * 4096 \<le> dev_capacity ops d)"
  using assms
proof (induction es arbitrary: slot d b st)
  case Nil
  then show ?case by auto
next
  case (Cons e es)
  obtain t h bm where e: "e = ((t, h), bm)" by (metis prod.exhaust)
  from Cons.prems(8) obtain st1 where w: "kv_write_entry ops crc rb offset 0 slot ((t, h), bm) (d, [b]) = ok st1"
    and ws: "kv_write_entries ops crc rb offset 0 (slot + 1) es st1 = ok st" by (auto simp: e res_simps)
  obtain d1 b1 where st1: "st1 = (d1, [b1])" and D1: "dinv d1" "dev_capacity ops d1 = dev_capacity ops d" "bucket_ok b1"
    "kb_entry_count b1 = kb_entry_count b + 1" "kb_header b1 = kb_header b"
    "bucket_iter b1 = bucket_iter b @ [\<lparr>ke_tag_id = t, ke_value_hash = h, ke_bitmap_ref = slot_ref offset slot\<rparr>]"
    and P1: "pages_at crc rb (image d1) offset slot [((t, h), bm)]"
    and S1: "\<And>a n. a + n \<le> offset + slot * 4096 \<or> offset + (slot + 1) * 4096 \<le> a \<Longrightarrow> bslice a n (image d1) = bslice a n (image d)"
    and C1: "offset + (slot + 1) * 4096 \<le> dev_capacity ops d"
    by (rule write_entry [OF Cons.prems(1,2) _ Cons.prems(4) _ _ _ _ w]) (use Cons.prems in \<open>auto simp: e\<close>)
  have fresh: "\<forall>((t', h'), _)\<in>set es. bucket_map b1 (t', h') = None \<and> t' < 2 ^ 32 \<and> h' < 2 ^ 64"
    by (rule upsert_keeps_fresh [OF D1(6)]) (use Cons.prems(6,7) in \<open>auto simp: e\<close>)
  obtain d' b' where IH: "st = (d', [b'])" "dinv d'" "dev_capacity ops d' = dev_capacity ops d1" "bucket_ok b'"
    "kb_entry_count b' = kb_entry_count b1 + length es" "kb_header b' = kb_header b1"
    "bucket_iter b' = bucket_iter b1 @ entries_of offset (slot + 1) es" "pages_at crc rb (image d') offset (slot + 1) es"
    and S: "\<And>a n. a + n \<le> offset + (slot + 1) * 4096 \<Longrightarrow> bslice a n (image d') = bslice a n (image d1)"
    and C: "es \<noteq> [] \<Longrightarrow> offset + (slot + 1 + length es) * 4096 \<le> dev_capacity ops d1"
    using Cons.IH [OF D1(1) Cons.prems(2) _ D1(3) _ fresh _ ws [unfolded st1]] Cons.prems D1(4) by auto
  have "pages_at crc rb (image d') offset slot (e # es)" using P1 IH(8) S [of "offset + slot * 4096" 4096] by (simp add: e algebra_simps)
  moreover have "bslice a n (image d') = bslice a n (image d)" if "a + n \<le> offset + slot * 4096" for a n
    using S [of a n] S1 [of a n] that by simp
  moreover have "offset + (slot + length (e # es)) * 4096 \<le> dev_capacity ops d"
    using C C1 D1(2) by (cases "es = []") auto
  ultimately show ?case using IH D1 by (simp add: e)
qed

lemma write_entry_ok:
  assumes d: "dinv d" "writable d" and r: "region_aligned offset" "slot < 64" and b: "bucket_ok b" "kb_entry_count b < 144"
    and k: "bucket_map b (t, h) = None" "t < 2 ^ 32" "h < 2 ^ 64"
    and page: "from_bitmap rb bm = ok page" and c: "offset + (slot + 1) * 4096 \<le> dev_capacity ops d"
  shows "\<exists>st. kv_write_entry ops crc rb offset 0 slot ((t, h), bm) (d, [b]) = ok st"
proof -
  obtain b' where u: "bucket_upsert t h (slot_ref offset slot) b = ok b'"
    by (rule bucket_upsert_new [OF b k slot_ref_ok [OF r]])
  obtain d' where "page_write ops crc tag_page_fmt d (offset + slot * 4096) page = ok (page_recompute_crc crc tag_page_fmt page, d')"
    by (rule page_write_ok [OF tag_page.page_format_axioms d from_bitmap_page(1) [OF page]]) (use c in \<open>auto simp: algebra_simps\<close>)
  with u page show ?thesis
    by (simp add: kv_write_entry_def slot_block_ref_eq [OF r] slot_add_u64 [OF r] tag_page_write_def directory_index_def)
qed

lemma write_entries_ok:
  assumes "dinv d" "writable d" and "region_aligned offset" "slot + length es \<le> 64" and "bucket_ok b" "kb_entry_count b + length es \<le> 144"
    and "\<forall>((t, h), _)\<in>set es. bucket_map b (t, h) = None \<and> t < 2 ^ 32 \<and> h < 2 ^ 64" and "distinct (map fst es)"
    and "\<forall>(k, bm)\<in>set es. \<exists>page. from_bitmap rb bm = ok page" and "offset + (slot + length es) * 4096 \<le> dev_capacity ops d"
  shows "\<exists>d' b'. kv_write_entries ops crc rb offset 0 slot es (d, [b]) = ok (d', [b']) \<and> dinv d' \<and> writable d' \<and>
    dev_capacity ops d' = dev_capacity ops d \<and> bucket_ok b'"
  using assms
proof (induction es arbitrary: slot d b)
  case (Cons e es)
  obtain t h bm where e: "e = ((t, h), bm)" by (metis prod.exhaust)
  from Cons.prems(9) obtain page where page: "from_bitmap rb bm = ok page" by (auto simp: e)
  obtain st where w: "kv_write_entry ops crc rb offset 0 slot ((t, h), bm) (d, [b]) = ok st"
    using write_entry_ok [OF Cons.prems(1-3) _ Cons.prems(5) _ _ _ _ page] Cons.prems by (fastforce simp: e algebra_simps)
  obtain d1 b1 where st: "st = (d1, [b1])" and D1: "dinv d1" "dev_capacity ops d1 = dev_capacity ops d" "bucket_ok b1"
    "kb_entry_count b1 = kb_entry_count b + 1"
    "bucket_iter b1 = bucket_iter b @ [\<lparr>ke_tag_id = t, ke_value_hash = h, ke_bitmap_ref = slot_ref offset slot\<rparr>]" "writable d1"
    by (rule write_entry [OF Cons.prems(1,3) _ Cons.prems(5) _ _ _ _ w]) (use Cons.prems in \<open>auto simp: e\<close>)
  have fresh: "\<forall>((t', h'), _)\<in>set es. bucket_map b1 (t', h') = None \<and> t' < 2 ^ 32 \<and> h' < 2 ^ 64"
    by (rule upsert_keeps_fresh [OF D1(5)]) (use Cons.prems(7,8) in \<open>auto simp: e\<close>)
  have "\<exists>d' b'. kv_write_entries ops crc rb offset 0 (slot + 1) es (d1, [b1]) = ok (d', [b']) \<and> dinv d' \<and> writable d' \<and>
      dev_capacity ops d' = dev_capacity ops d1 \<and> bucket_ok b'"
    by (rule Cons.IH [OF D1(1,6) Cons.prems(3) _ D1(3) _ fresh]) (use Cons.prems D1(2,4) in auto)
  with w show ?case by (auto simp: e st D1(2))
qed auto

lemma load_entries:
  assumes d: "dinv d" and r: "region_aligned offset" and crc: "crc_ok crc" and "slot + length es \<le> 64" and "0 < slot"
    and "pages_at crc rb (image d) offset slot es" and "es \<noteq> [] \<longrightarrow> offset + (slot + length es) * 4096 \<le> dev_capacity ops d"
    and "\<forall>(k, b)\<in>set es. rb_deserialize rb (rb_serialize rb b) = Some (g b)"
  shows "kv_load_entries ops crc rb d (entries_of offset slot es) m =
    ok (fold (\<lambda>(k, v). bm_insert k v) (map (\<lambda>(k, b). (k, g b)) es) m)"
  using assms(4-)
proof (induction es arbitrary: slot m)
  case (Cons e es)
  obtain t h b where e: "e = ((t, h), b)" by (metis prod.exhaust)
  from Cons.prems(3) obtain page where page: "from_bitmap rb b = ok page"
    and img: "bslice (offset + slot * 4096) 4096 (image d) = page_image crc tag_page_fmt page"
    and rest: "pages_at crc rb (image d) offset (slot + 1) es" by (auto simp: e)
  have no: "br_block_no (slot_ref offset slot) \<noteq> 0" using Cons.prems(2) by (simp add: slot_ref_def)
  have "tag_page_read ops crc d (br_block_no (slot_ref offset slot) * 4096) = ok (page_recompute_crc crc tag_page_fmt page)"
    unfolding tag_page_read_def slot_ref_offset [OF r]
    by (rule page_read_back [OF tag_page.page_format_axioms d from_bitmap_page(1) [OF page] _ crc _ img])
      (use from_bitmap_page(2) [OF page] Cons.prems(4) in \<open>auto simp: tag_page_fmt_def algebra_simps\<close>)
  moreover have "to_bitmap rb (page_recompute_crc crc tag_page_fmt page) = ok (g b)"
    using from_bitmap_page(3) [OF page] Cons.prems(5) by (simp add: e)
  moreover have "kv_load_entries ops crc rb d (entries_of offset (slot + 1) es) (bm_insert (t, h) (g b) m) =
      ok (fold (\<lambda>(k, v). bm_insert k v) (map (\<lambda>(k, b). (k, g b)) es) (bm_insert (t, h) (g b) m))"
    by (rule Cons.IH) (use Cons.prems rest in auto)
  ultimately show ?case using no by (simp add: e)
qed simp

lemma flush_steps:
  assumes d: "dinv d" and r: "region_aligned offset" and keys: "bm_wf (kv_entries idx)"
    "\<forall>((t, h), _)\<in>set (kv_entries idx). t < 2 ^ 32 \<and> h < 2 ^ 64"
    and flush: "flush_extendible_hash ops crc rb idx d offset = ok d'"
  obtains d1 b d2 dir b1 dir1 where "length (kv_entries idx) \<le> 62"
    "dinv d1" "dinv d2" "bucket_ok b" "kb_entry_count b = length (kv_entries idx)" "kb_header b = kb_header (bucket_new 0)"
    "bucket_iter b = entries_of offset 2 (kv_entries idx)" "pages_at crc rb (image d1) offset 2 (kv_entries idx)"
    "kv_entries idx \<noteq> [] \<longrightarrow> offset + (2 + length (kv_entries idx)) * 4096 \<le> dev_capacity ops d1"
    "page_write ops crc bucket_fmt d1 (offset + 4096) b = ok (b1, d2)"
    "directory_new 0 = ok dir" "page_write ops crc directory_fmt d2 offset (directory_set_entry 0 (slot_ref offset 1) dir) = ok (dir1, d')"
proof -
  let ?n = "length (kv_entries idx)"
  from flush have "1 + 2 ^ select_global_depth ?n + ?n \<le> (64 :: nat)"
    by (auto simp: flush_extendible_hash_def Let_def split: if_splits)
  note cap = flush_capacity [OF this]
  note new = bucket_new_empty
  from flush cap(1) obtain st d2 dir b1 dir1 where
    w: "kv_write_entries ops crc rb offset 0 2 (kv_entries idx) (d, [bucket_new 0]) = ok st"
    and bs: "kv_write_buckets ops crc offset 0 (snd st) (fst st) = ok d2" and dir: "directory_new 0 = ok dir"
    and dw: "page_write ops crc directory_fmt d2 offset (directory_set_entry 0 (slot_ref offset 1) dir) = ok (dir1, d')"
    by (auto simp: slot_block_ref_eq [OF r] flush_extendible_hash_def Let_def res_simps directory_write_def numeral_2_eq_2 [symmetric] split: if_splits)
  have "\<forall>((t, h), _)\<in>set (kv_entries idx). bucket_map (bucket_new 0) (t, h) = None \<and> t < 2 ^ 32 \<and> h < 2 ^ 64"
    using keys(2) new(3) by (auto simp: bucket_map_def)
  from write_entries [OF d r _ new(1) _ this bm_wf_distinct [OF keys(1)] w] cap(2) new(2,3)
  obtain d1 b where st: "st = (d1, [b])" and D1: "dinv d1" "dev_capacity ops d1 = dev_capacity ops d" "bucket_ok b"
    "kb_entry_count b = ?n" "kb_header b = kb_header (bucket_new 0)" "bucket_iter b = entries_of offset 2 (kv_entries idx)"
    "pages_at crc rb (image d1) offset 2 (kv_entries idx)"
    and c: "kv_entries idx \<noteq> [] \<longrightarrow> offset + (2 + ?n) * 4096 \<le> dev_capacity ops d" by auto
  from bs obtain b1 where bw: "page_write ops crc bucket_fmt d1 (offset + 4096) b = ok (b1, d2)"
    using slot_add_u64 [OF r, of 1, where 'a = index_error] by (auto simp: st res_simps bucket_write_def)
  note B = page_written [OF bucket_page.page_format_axioms D1(1,3) bw]
  show thesis by (rule that [OF cap(2) D1(1) B(1) D1(3-7) _ bw dir dw]) (use c D1(2) in simp)
qed


lemma directory_image_probe:
  assumes "directory_new 0 = ok dir"
  shows "take 8 (page_image crc directory_fmt (directory_set_entry i r dir)) ! 0 = 0x4D"
  using assms by (auto simp: directory_new_def page_image_def directory_fmt_def directory_body_def directory_set_entry_def
      block_header_bytes_def block_header_new_def preamble_bytes_def BLOCK_PREAMBLE_MAGIC_BLOCK_def)

lemma kv_region_read_back:
  assumes d: "dinv d" and r: "region_aligned offset" and crc: "crc_ok crc" and keys: "bm_wf (kv_entries idx)"
    "\<forall>((t, h), _)\<in>set (kv_entries idx). t < 2 ^ 32 \<and> h < 2 ^ 64"
    and g: "\<forall>(k, b)\<in>set (kv_entries idx). rb_deserialize rb (rb_serialize rb b) = Some (g b)"
    and flush: "kv_flush_to_region ops crc rb idx d offset = ok d'"
  shows "kv_load_from_region ops crc rb d' offset =
    ok \<lparr>kv_entries = map (\<lambda>(k, b). (k, g b)) (kv_entries idx), kv_secret = replicate 16 0\<rparr>"
proof -
  let ?es = "kv_entries idx" and ?n = "length (kv_entries idx)"
  obtain d1 b d2 dir b1 dir1 where n: "?n \<le> 62" and D: "dinv d1" "dinv d2"
    and B: "bucket_ok b" "kb_entry_count b = ?n" "kb_header b = kb_header (bucket_new 0)" "bucket_iter b = entries_of offset 2 ?es"
    and P: "pages_at crc rb (image d1) offset 2 ?es" and C: "?es \<noteq> [] \<longrightarrow> offset + (2 + ?n) * 4096 \<le> dev_capacity ops d1"
    and bw: "page_write ops crc bucket_fmt d1 (offset + 4096) b = ok (b1, d2)" and dir: "directory_new 0 = ok dir"
    and dw: "page_write ops crc directory_fmt d2 offset (directory_set_entry 0 (slot_ref offset 1) dir) = ok (dir1, d')"
    using flush_steps [OF d r keys flush [unfolded kv_flush_to_region_def]] by metis
  let ?dir = "directory_set_entry 0 (slot_ref offset 1) dir"
  note dirs = new_directory_page [OF r dir]
  note WB = page_written [OF bucket_page.page_format_axioms D(1) B(1) bw] and SB = page_slices [OF bucket_page.page_format_axioms D(1) B(1) bw]
  note WD = page_written [OF directory_page.page_format_axioms D(2) dirs(1) dw]
    and SD = page_slices [OF directory_page.page_format_axioms D(2) dirs(1) dw]
  have bimg: "bslice (offset + 4096) 4096 (image d') = page_image crc bucket_fmt b"
    using SB(1) SD(2) [of "offset + 4096" 4096] by simp
  have pages: "pages_at crc rb (image d') offset 2 ?es"
    by (rule pages_at_frame [OF P]) (use SB(2) SD(2) in auto)
  have "pf_validate bucket_fmt b = ok ()" using B n by (simp add: bucket_fmt_def bucket_validate_def Let_def bucket_new_def block_header_new_def)
  from page_read_back [OF bucket_page.page_format_axioms WD(1) B(1) this crc _ bimg] WB(4) WD(3) WB(3)
  have br: "bucket_read ops crc d' (offset + 4096) = ok (page_recompute_crc crc bucket_fmt b)"
    by (simp add: bucket_read_def)
  have "pf_validate directory_fmt ?dir = ok ()" using dirs(2) by (simp add: directory_fmt_def)
  from page_read_back [OF directory_page.page_format_axioms WD(1) dirs(1) this crc _ SD(1)] WD(3,4)
  have dr: "directory_read ops crc d' offset = ok (page_recompute_crc crc directory_fmt ?dir)"
    by (simp add: directory_read_def)
  have it: "bucket_iter (page_recompute_crc crc bucket_fmt b) = entries_of offset 2 ?es"
    using B(4) by (simp add: page_recompute_crc_def bucket_fmt_def bucket_iter_def bucket_len_def)
  have le: "kv_load_entries ops crc rb d' (entries_of offset 2 ?es) [] = ok (map (\<lambda>(k, b). (k, g b)) ?es)"
  proof -
    have "bm_wf (map (\<lambda>(k, b). (k, g b)) ?es)" using keys(1) by (simp add: bm_wf_def case_prod_unfold comp_def)
    from fold_bm_insert_sorted [of "[]", simplified, OF this] show ?thesis
      using load_entries [OF WD(1) r crc _ _ pages, of g "[]"] n C WB(3) WD(3) g by simp
  qed
  have no: "br_block_no (slot_ref offset 1) \<noteq> 0" "br_block_no (slot_ref offset 1) * 4096 = offset + 4096"
    using slot_ref_offset [OF r, of 1] by (simp_all add: slot_ref_def)
  have probe: "read_at ops d' offset 8 = ok (take 8 (page_image crc directory_fmt ?dir))"
  proof -
    have "bslice offset 8 (image d') = bslice 0 8 (bslice offset 4096 (image d'))" by (subst bslice_bslice) auto
    then show ?thesis using read_in [OF WD(1), of offset 8] WD(3,4) SD(1) by simp
  qed
  have "\<not> list_all (\<lambda>x. x = 0) (take 8 (page_image crc directory_fmt ?dir))"
  proof -
    have "length (page_image crc directory_fmt ?dir) = 4096" by (rule directory_page.length_page_image [OF dirs(1)])
    then show ?thesis using directory_image_probe [OF dir, of crc 0 "slot_ref offset 1"] by (auto simp: list_all_length intro!: exI [of _ 0])
  qed
  moreover have "load_extendible_hash ops crc rb d' offset =
      ok \<lparr>kv_entries = map (\<lambda>(k, b). (k, g b)) ?es, kv_secret = replicate 16 0\<rparr>"
    using dr br it le no dirs(3,4)
    by (simp add: load_extendible_hash_def page_recompute_crc_def directory_fmt_def)
  ultimately show ?thesis using probe by (simp add: kv_load_from_region_def)
qed

lemma kv_flush_iff:
  assumes d: "dinv d" "writable d" and r: "region_aligned offset" and keys: "bm_wf (kv_entries idx)"
    "\<forall>((t, h), _)\<in>set (kv_entries idx). t < 2 ^ 32 \<and> h < 2 ^ 64" and c: "offset + 64 * 4096 \<le> dev_capacity ops d"
  shows "(\<exists>d'. kv_flush_to_region ops crc rb idx d offset = ok d') \<longleftrightarrow>
    length (kv_entries idx) \<le> 62 \<and> (\<forall>(k, b)\<in>set (kv_entries idx). length (rb_serialize rb b) \<le> 4036)"
proof
  assume "\<exists>d'. kv_flush_to_region ops crc rb idx d offset = ok d'"
  then obtain d' where "flush_extendible_hash ops crc rb idx d offset = ok d'" by (auto simp: kv_flush_to_region_def)
  from flush_steps [OF d(1) r keys this] show "length (kv_entries idx) \<le> 62 \<and>
      (\<forall>(k, b)\<in>set (kv_entries idx). length (rb_serialize rb b) \<le> 4036)"
    by (metis (no_types, lifting) case_prodI2 pages_at_fit)
next
  let ?es = "kv_entries idx"
  assume a: "length ?es \<le> 62 \<and> (\<forall>(k, b)\<in>set ?es. length (rb_serialize rb b) \<le> 4036)"
  have depth: "select_global_depth (length ?es) = 0" using a by (simp add: select_global_depth_def)
  have fresh: "\<forall>((t, h), _)\<in>set ?es. bucket_map (bucket_new 0) (t, h) = None \<and> t < 2 ^ 32 \<and> h < 2 ^ 64"
    using keys(2) by (auto simp: bucket_map_def bucket_new_empty)
  have "\<forall>(k, bm)\<in>set ?es. \<exists>page. from_bitmap rb bm = ok page" using a by (auto simp: from_bitmap_ok)
  then obtain d1 b where w: "kv_write_entries ops crc rb offset 0 2 ?es (d, [bucket_new 0]) = ok (d1, [b])" and D1: "dinv d1" "writable d1"
    "dev_capacity ops d1 = dev_capacity ops d" "bucket_ok b"
    using write_entries_ok [OF d r _ bucket_new_empty(1) _ fresh bm_wf_distinct [OF keys(1)], of 2 rb crc] a c
    by (auto simp: bucket_new_empty(2))
  obtain d2 where bw: "page_write ops crc bucket_fmt d1 (offset + 4096) b = ok (page_recompute_crc crc bucket_fmt b, d2)"
    by (rule page_write_ok [OF bucket_page.page_format_axioms D1(1,2,4)]) (use c D1(3) in auto)
  note W = page_written [OF bucket_page.page_format_axioms D1(1,4) bw]
  obtain dir where dir: "directory_new 0 = ok dir" by (auto simp: directory_new_def)
  let ?dir = "directory_set_entry 0 (slot_ref offset 1) dir"
  obtain d3 where "page_write ops crc directory_fmt d2 offset ?dir = ok (page_recompute_crc crc directory_fmt ?dir, d3)"
    by (rule page_write_ok [OF directory_page.page_format_axioms W(1,2) new_directory_page(1) [OF r dir]]) (use c D1(3) W(3) in auto)
  then show "\<exists>d'. kv_flush_to_region ops crc rb idx d offset = ok d'"
    using w bw dir a depth slot_add_u64 [OF r, of 1, where 'a = index_error]
    by (simp add: kv_flush_to_region_def flush_extendible_hash_def bucket_write_def directory_write_def slot_block_ref_eq [OF r]
        numeral_2_eq_2 [symmetric])
qed

end

section \<open>Properties\<close>

text \<open>C8. On a device with room for the region, the key-value index is written exactly when it has at most 62 entries and
  every bitmap image fits one page; what is then read back has the same keys, for each of them the same set of objects,
  and the secret of zeros, whatever secret the index had.\<close>

theorem kv_region_roundtrip:
  assumes "roaring rb bset" and "crc_ok crc" and "file_device_inv d" and "fd_writable d"
    and "region_aligned offset" and "offset + 64 * 4096 \<le> fd_capacity d" and "bm_wf (kv_entries idx)"
    and "\<forall>((t, h), _)\<in>set (kv_entries idx). t < 2 ^ 32 \<and> h < 2 ^ 64"
  shows "((\<exists>d'. kv_flush_to_region file_block_device crc rb idx d offset = ok d') \<longleftrightarrow>
      length (kv_entries idx) \<le> 62 \<and> (\<forall>(k, b)\<in>set (kv_entries idx). length (rb_serialize rb b) \<le> 4036)) \<and>
    (\<forall>d'. kv_flush_to_region file_block_device crc rb idx d offset = ok d' \<longrightarrow>
      (\<exists>idx'. kv_load_from_region file_block_device crc rb d' offset = ok idx' \<and> kv_secret idx' = replicate 16 0 \<and>
        list_all2 (\<lambda>(k, b) (k', b'). k' = k \<and> bset b' = bset b) (kv_entries idx) (kv_entries idx')))"
proof (intro conjI allI impI)
  show "(\<exists>d'. kv_flush_to_region file_block_device crc rb idx d offset = ok d') \<longleftrightarrow>
      length (kv_entries idx) \<le> 62 \<and> (\<forall>(k, b)\<in>set (kv_entries idx). length (rb_serialize rb b) \<le> 4036)"
    using assms by (intro fdev.kv_flush_iff) (auto simp: file_block_device_def)
next
  fix d' assume flush: "kv_flush_to_region file_block_device crc rb idx d offset = ok d'"
  define g where "g b = the (rb_deserialize rb (rb_serialize rb b))" for b
  have g: "rb_deserialize rb (rb_serialize rb b) = Some (g b)" "bset (g b) = bset b" for b
  proof -
    obtain b' where "rb_deserialize rb (rb_serialize rb b) = Some b'" "bset b' = bset b"
      using roaring.serialize_set [OF assms(1), of b] by blast
    then show "rb_deserialize rb (rb_serialize rb b) = Some (g b)" "bset (g b) = bset b" by (simp_all add: g_def)
  qed
  have "kv_load_from_region file_block_device crc rb d' offset =
      ok \<lparr>kv_entries = map (\<lambda>(k, b). (k, g b)) (kv_entries idx), kv_secret = replicate 16 0\<rparr>"
    by (rule fdev.kv_region_read_back [OF assms(3,5,2,7,8) _ flush]) (use g in auto)
  then show "\<exists>idx'. kv_load_from_region file_block_device crc rb d' offset = ok idx' \<and> kv_secret idx' = replicate 16 0 \<and>
      list_all2 (\<lambda>(k, b) (k', b'). k' = k \<and> bset b' = bset b) (kv_entries idx) (kv_entries idx')"
    by (auto simp: list_all2_map2 g list.rel_refl_strong case_prod_unfold)
qed

text \<open>A device of 256 KiB with the region at its start, and an index with a secret.\<close>

definition wit_kv_device :: file_device where
  "wit_kv_device = \<lparr>fd_file = replicate 262144 0, fd_capacity = 262144, fd_read_only = False\<rparr>"

definition wit_kv :: "32 word list kv_index" where
  "wit_kv = \<lparr>kv_entries = [((1, 10), [5, 7]), ((2, 3), [9])], kv_secret = replicate 16 1\<rparr>"

theorem kv_region_roundtrip_witness:
  "\<exists>d' idx'. kv_flush_to_region file_block_device zcrc wl_ops wit_kv wit_kv_device 0 = ok d' \<and>
     kv_load_from_region file_block_device zcrc wl_ops d' 0 = ok idx' \<and> kv_secret idx' \<noteq> kv_secret wit_kv \<and>
     list_all2 (\<lambda>(k, b) (k', b'). k' = k \<and> wl_set b' = wl_set b) (kv_entries wit_kv) (kv_entries idx')"
proof -
  note R = kv_region_roundtrip [OF wl.roaring_axioms zcrc_ok, of wit_kv_device 0 wit_kv]
  have "file_device_inv wit_kv_device" "fd_writable wit_kv_device" "region_aligned 0" "0 + 64 * 4096 \<le> fd_capacity wit_kv_device"
    "bm_wf (kv_entries wit_kv)" "\<forall>((t, h), _)\<in>set (kv_entries wit_kv). t < 2 ^ 32 \<and> h < 2 ^ 64"
    by (simp_all add: wit_kv_device_def wit_kv_def file_device_inv_def fd_writable_def region_aligned_def bm_wf_def)
  note C = R [OF this]
  have "length (kv_entries wit_kv) \<le> 62 \<and> (\<forall>(k, b)\<in>set (kv_entries wit_kv). length (rb_serialize wl_ops b) \<le> 4036)"
    by (simp add: wit_kv_def wl_ops_def)
  with C obtain d' where d': "kv_flush_to_region file_block_device zcrc wl_ops wit_kv wit_kv_device 0 = ok d'" by blast
  with C obtain idx' where "kv_load_from_region file_block_device zcrc wl_ops d' 0 = ok idx'" "kv_secret idx' = replicate 16 0"
    "list_all2 (\<lambda>(k, b) (k', b'). k' = k \<and> wl_set b' = wl_set b) (kv_entries wit_kv) (kv_entries idx')" by blast
  then show ?thesis using d' by (auto simp: wit_kv_def replicate_eq_replicate)
qed

end
