(* ===== verification/Mb_Pool.thy ===== *)
theory Mb_Pool
  imports Mb_Pages Mb_Superblock Mb_Region Mb_Module Mb_Value
begin

text \<open>
  The pool of disks (\<open>crates/pool/src\<close>): \<open>config.rs\<close>, \<open>disk.rs\<close>, \<open>pool.rs\<close>, \<open>placement.rs\<close>, \<open>tier.rs\<close> and
  the disk types of \<open>crates/types/src/{disk,presence,placement}.rs\<close>.

  The host's files are a map from paths to contents; a device of the pool is the path it was opened on with its
  capacity, so two disks on one path share their bytes. An operation returns its result and the files as it
  leaves them, on errors as well. Paths are UTF-8 text, as \<open>pool.toml\<close> gives them. The TOML reader and printer and the CBOR
  codec are parameters.
\<close>

section \<open>Errors and disk types\<close>

datatype pool_error =
    PoolIo
  | PoolStorage storage_error
  | PoolTomlDe
  | PoolTomlSer
  | PoolCborEncode
  | PoolCborDecode
  | DiskPathTooLong nat nat
  | InvalidDiskPathUtf8
  | PoolInvalidMediaType u8
  | PoolInvalidStorageTier u8
  | InvalidDiskState u8
  | EmptyPool
  | DiskNotFound u16
  | DuplicateDiskId u16
  | DiskOverflowUnsupported u32 u32
  | NodeIdMismatch u16 u16 u16
  | DiskIdMismatch u16 u16
  | PoolCrcMismatch u32 u32
  | PoolInvalidBlockKind u16
  | PoolInvalidPayload "byte list"

datatype disk_state = Online | Draining | Removed | Faulted

datatype placement_rule =
    Pin query storage_tier
  | Prefer query storage_tier u8
  | Replicate query u8 bool
  | Colocate query
  | AutoTier u32 u32 u32
  | Chunk query chunk_params

fun media_type_name :: "media_type \<Rightarrow> string" where
  "media_type_name NVMe = ''NVMe''"
| "media_type_name Ssd = ''Ssd''"
| "media_type_name Hdd = ''Hdd''"
| "media_type_name SmrHdd = ''SmrHdd''"
| "media_type_name Remote = ''Remote''"

fun storage_tier_name :: "storage_tier \<Rightarrow> string" where
  "storage_tier_name Hot = ''Hot''"
| "storage_tier_name Warm = ''Warm''"
| "storage_tier_name Cold = ''Cold''"
| "storage_tier_name Glacier = ''Glacier''"

fun disk_state_name :: "disk_state \<Rightarrow> string" where
  "disk_state_name Online = ''Online''"
| "disk_state_name Draining = ''Draining''"
| "disk_state_name Removed = ''Removed''"
| "disk_state_name Faulted = ''Faulted''"

datatype content_presence =
    Local (cp_disk: u16) (cp_extent_offset: u64) (cp_extent_length: u64)
  | RemoteOnly (cp_origin: u16) (cp_mirrors: "u16 list")
  | Hydrating (cp_source: u16) (cp_progress: u64) (cp_total: u64)
  | Cached (cp_disk: u16) (cp_extent_offset: u64) (cp_fetched_at_ns: int)
  | Partial (cp_stub_length: u64) (cp_full_length: u64) (cp_origin: u16)

record disk_descriptor_logical =
  dl_id :: u16
  dl_capacity :: u64
  dl_used :: u64
  dl_media_type :: media_type
  dl_tier :: storage_tier
  dl_state :: disk_state
  dl_seq_read_mbps :: u32
  dl_random_iops :: u32
  dl_latency_us :: u32
  dl_path :: "string option"

text \<open>The derived order of \<open>StorageTier\<close> is the order of its discriminants.\<close>

instantiation storage_tier :: linorder
begin
definition "a \<le> b \<longleftrightarrow> storage_tier_u8 a \<le> storage_tier_u8 b"
definition "a < b \<longleftrightarrow> storage_tier_u8 a < storage_tier_u8 b"
instance
proof
  fix a b :: storage_tier
  show "a \<le> b \<Longrightarrow> b \<le> a \<Longrightarrow> a = b" by (cases a; cases b) (simp_all add: less_eq_storage_tier_def)
qed (auto simp: less_eq_storage_tier_def less_storage_tier_def)
end

definition pool_media_type_from_u8 :: "u8 \<Rightarrow> (pool_error, media_type) res" where
  "pool_media_type_from_u8 v =
     (if v = 0 then ok NVMe else if v = 1 then ok Ssd else if v = 2 then ok Hdd
      else if v = 3 then ok SmrHdd else if v = 4 then ok Remote else err (PoolInvalidMediaType v))"

fun disk_state_to_u8 :: "disk_state \<Rightarrow> u8" where
  "disk_state_to_u8 Online = 0"
| "disk_state_to_u8 Draining = 1"
| "disk_state_to_u8 Removed = 2"
| "disk_state_to_u8 Faulted = 3"

definition disk_state_from_u8 :: "u8 \<Rightarrow> (pool_error, disk_state) res" where
  "disk_state_from_u8 v =
     (if v = 0 then ok Online else if v = 1 then ok Draining else if v = 2 then ok Removed
      else if v = 3 then ok Faulted else err (InvalidDiskState v))"

text \<open>\<open>std::str::from_utf8\<close>: no stray or missing continuation bytes, no overlong forms, no surrogates, nothing above
  U+10FFFF.\<close>

definition is_cont :: "byte \<Rightarrow> bool" where
  "is_cont b \<longleftrightarrow> 128 \<le> unat b \<and> unat b < 192"

definition second_byte_ok :: "nat \<Rightarrow> byte \<Rightarrow> bool" where
  "second_byte_ok n c \<longleftrightarrow> is_cont c \<and> (n = 224 \<longrightarrow> 160 \<le> unat c) \<and> (n = 237 \<longrightarrow> unat c < 160) \<and>
     (n = 240 \<longrightarrow> 144 \<le> unat c) \<and> (n = 244 \<longrightarrow> unat c < 144)"

fun utf8_tail :: "nat \<Rightarrow> byte list \<Rightarrow> byte list option" where
  "utf8_tail 0 bs = Some bs"
| "utf8_tail (Suc n) [] = None"
| "utf8_tail (Suc n) (b # bs) = (if is_cont b then utf8_tail n bs else None)"

definition utf8_width :: "byte \<Rightarrow> nat option" where
  "utf8_width b = (let n = unat b in
     if n < 128 then Some 0 else if n < 194 then None else if n < 224 then Some 1 else if n < 240 then Some 2
     else if n < 245 then Some 3 else None)"

lemma utf8_tail_length: "utf8_tail n bs = Some r \<Longrightarrow> length r \<le> length bs"
  by (induction n bs rule: utf8_tail.induct) (auto split: if_splits)

function utf8_valid :: "byte list \<Rightarrow> bool" where
  "utf8_valid [] = True"
| "utf8_valid (b # bs) =
     (case utf8_width b of
        None \<Rightarrow> False
      | Some w \<Rightarrow> (w > 0 \<longrightarrow> bs \<noteq> [] \<and> second_byte_ok (unat b) (hd bs)) \<and>
          (case utf8_tail w bs of None \<Rightarrow> False | Some rest \<Rightarrow> utf8_valid rest))"
  by pat_completeness auto
termination
  by (relation "measure length") (auto dest: utf8_tail_length)

section \<open>PoolConfig\<close>

record disk_config_entry =
  dc_id :: u16
  dc_path :: "byte list"
  dc_media_type :: media_type
  dc_tier :: storage_tier
  dc_capacity_bytes :: u64

record pool_config =
  pc_node_id :: u16
  pc_disks :: "disk_config_entry list"

type_synonym host = "byte list \<rightharpoonup> byte list"

definition pool_config_new :: "u16 \<Rightarrow> pool_config" where
  "pool_config_new node = \<lparr>pc_node_id = node, pc_disks = []\<rparr>"

definition load_toml :: "(byte list \<Rightarrow> pool_config option) \<Rightarrow> host \<Rightarrow> byte list \<Rightarrow> (pool_error, pool_config) res" where
  "load_toml toml_de fs path =
     (case fs path of
        None \<Rightarrow> err PoolIo
      | Some body \<Rightarrow> if \<not> utf8_valid body then err PoolIo
          else (case toml_de body of None \<Rightarrow> err PoolTomlDe | Some cfg \<Rightarrow> ok cfg))"

definition save_toml :: "(pool_config \<Rightarrow> byte list option) \<Rightarrow> pool_config \<Rightarrow> host \<Rightarrow> byte list \<Rightarrow> (pool_error, unit) res \<times> host" where
  "save_toml toml_ser cfg fs path =
     (case toml_ser cfg of None \<Rightarrow> (err PoolTomlSer, fs) | Some body \<Rightarrow> (ok (), fs(path \<mapsto> body)))"

definition find_disk :: "pool_config \<Rightarrow> u16 \<Rightarrow> disk_config_entry option" where
  "find_disk cfg i = List.find (\<lambda>d. dc_id d = i) (pc_disks cfg)"

text \<open>\<open>min_by_key\<close> returns the first of several minimal elements.\<close>

definition primary :: "pool_config \<Rightarrow> disk_config_entry option" where
  "primary cfg = (case pc_disks cfg of [] \<Rightarrow> None
     | d # ds \<Rightarrow> Some (fold (\<lambda>x m. if dc_id x < dc_id m then x else m) ds d))"

section \<open>DiskDescriptorOnDisk\<close>

abbreviation (input) DISK_PATH_INLINE_LEN :: nat where "DISK_PATH_INLINE_LEN \<equiv> 192"

record disk_descriptor =
  dd_disk_id :: u16
  dd_media_type :: u8
  dd_tier :: u8
  dd_state :: u8
  dd_pad0 :: u8
  dd_path_len :: u8
  dd_pad1 :: u8
  dd_capacity_bytes :: u64
  dd_used_bytes :: u64
  dd_bucket_count :: u32
  dd_first_usable_bucket :: u32
  dd_buckets_root :: block_ref
  dd_freespace_root :: block_ref
  dd_path :: "byte list"

definition descriptor_bytes :: "disk_descriptor \<Rightarrow> byte list" where
  "descriptor_bytes d = le_bytes 2 (dd_disk_id d) @ le_bytes 1 (dd_media_type d) @ le_bytes 1 (dd_tier d) @
     le_bytes 1 (dd_state d) @ le_bytes 1 (dd_pad0 d) @ le_bytes 1 (dd_path_len d) @ le_bytes 1 (dd_pad1 d) @
     le_bytes 8 (dd_capacity_bytes d) @ le_bytes 8 (dd_used_bytes d) @ le_bytes 4 (dd_bucket_count d) @
     le_bytes 4 (dd_first_usable_bucket d) @ block_ref_bytes (dd_buckets_root d) @
     block_ref_bytes (dd_freespace_root d) @ dd_path d"

definition descriptor_of :: "byte list \<Rightarrow> disk_descriptor" where
  "descriptor_of bs =
     \<lparr>dd_disk_id = get_le 0 2 bs, dd_media_type = get_le 2 1 bs, dd_tier = get_le 3 1 bs, dd_state = get_le 4 1 bs,
      dd_pad0 = get_le 5 1 bs, dd_path_len = get_le 6 1 bs, dd_pad1 = get_le 7 1 bs, dd_capacity_bytes = get_le 8 8 bs,
      dd_used_bytes = get_le 16 8 bs, dd_bucket_count = get_le 24 4 bs, dd_first_usable_bucket = get_le 28 4 bs,
      dd_buckets_root = block_ref_of (bslice 32 16 bs), dd_freespace_root = block_ref_of (bslice 48 16 bs),
      dd_path = bslice 64 192 bs\<rparr>"

definition descriptor_zero :: disk_descriptor where
  "descriptor_zero =
     \<lparr>dd_disk_id = 0, dd_media_type = 0, dd_tier = 0, dd_state = 0, dd_pad0 = 0, dd_path_len = 0, dd_pad1 = 0,
      dd_capacity_bytes = 0, dd_used_bytes = 0, dd_bucket_count = 0, dd_first_usable_bucket = 0,
      dd_buckets_root = block_ref_zero, dd_freespace_root = block_ref_zero, dd_path = replicate 192 0\<rparr>"

definition descriptor_new ::
  "u16 \<Rightarrow> media_type \<Rightarrow> storage_tier \<Rightarrow> disk_state \<Rightarrow> u64 \<Rightarrow> byte list \<Rightarrow> (pool_error, disk_descriptor) res" where
  "descriptor_new disk_id media_type tier state capacity_bytes path =
     (if length path > DISK_PATH_INLINE_LEN then err (DiskPathTooLong (length path) DISK_PATH_INLINE_LEN)
      else ok (descriptor_zero\<lparr>dd_disk_id := disk_id, dd_media_type := media_type_to_u8 media_type,
        dd_tier := storage_tier_u8 tier, dd_state := disk_state_to_u8 state, dd_path_len := length path,
        dd_capacity_bytes := capacity_bytes, dd_path := path @ replicate (DISK_PATH_INLINE_LEN - length path) 0\<rparr>))"

definition path_str :: "disk_descriptor \<Rightarrow> (pool_error, byte list) res" where
  "path_str d =
     (let len = dd_path_len d
      in if len > DISK_PATH_INLINE_LEN then err (DiskPathTooLong len DISK_PATH_INLINE_LEN)
         else let s = take len (dd_path d) in if utf8_valid s then ok s else err InvalidDiskPathUtf8)"

definition media_type_typed :: "disk_descriptor \<Rightarrow> (pool_error, media_type) res" where
  "media_type_typed d = pool_media_type_from_u8 (dd_media_type d)"

definition tier_typed :: "disk_descriptor \<Rightarrow> (pool_error, storage_tier) res" where
  "tier_typed d = (case storage_tier_from_u8 (dd_tier d) of None \<Rightarrow> err (PoolInvalidStorageTier (dd_tier d)) | Some t \<Rightarrow> ok t)"

definition state_typed :: "disk_descriptor \<Rightarrow> (pool_error, disk_state) res" where
  "state_typed d = disk_state_from_u8 (dd_state d)"

section \<open>PoolStateRoot\<close>

abbreviation (input) POOL_STATE_ROOT_INLINE_DISKS :: nat where "POOL_STATE_ROOT_INLINE_DISKS \<equiv> 12"

record pool_state_root =
  ps_header :: block_header
  ps_disk_count :: u32
  ps_cluster_node_count :: u32
  ps_inline_disks :: "disk_descriptor list"
  ps_reserved :: "byte list"
  ps_crc :: u32

definition psr_new_blank :: pool_state_root where
  "psr_new_blank =
     \<lparr>ps_header = block_header_new KPoolStateRoot 1 (BLOCK_SIZE - 32 - 4), ps_disk_count = 0, ps_cluster_node_count = 0,
      ps_inline_disks = replicate POOL_STATE_ROOT_INLINE_DISKS descriptor_zero, ps_reserved = replicate 980 0, ps_crc = 0\<rparr>"

definition psr_body :: "pool_state_root \<Rightarrow> byte list" where
  "psr_body p = block_header_bytes (ps_header p) @ le_bytes 4 (ps_disk_count p) @ le_bytes 4 (ps_cluster_node_count p) @
     concat (map descriptor_bytes (ps_inline_disks p)) @ ps_reserved p"

definition psr_of :: "byte list \<Rightarrow> pool_state_root" where
  "psr_of bs =
     \<lparr>ps_header = block_header_of bs, ps_disk_count = get_le 32 4 bs, ps_cluster_node_count = get_le 36 4 bs,
      ps_inline_disks = map (\<lambda>i. descriptor_of (bslice (40 + 256 * i) 256 bs)) [0 ..< POOL_STATE_ROOT_INLINE_DISKS],
      ps_reserved = bslice 3112 980 bs, ps_crc = get_le 4092 4 bs\<rparr>"

definition validate_header :: "pool_state_root \<Rightarrow> (pool_error, unit) res" where
  "validate_header p =
     (let pre = bh_pre (ps_header p)
      in if bp_magic pre \<noteq> BLOCK_PREAMBLE_MAGIC_BLOCK then err (PoolInvalidPayload (bp_magic pre))
         else if bp_kind pre \<noteq> block_kind_u16 KPoolStateRoot then err (PoolInvalidBlockKind (bp_kind pre))
         else ok ())"

definition psr_fmt :: "(pool_state_root, pool_error) page_fmt" where
  "psr_fmt = \<lparr>pf_body = psr_body, pf_crc = ps_crc, pf_set_crc = (\<lambda>c p. p\<lparr>ps_crc := c\<rparr>), pf_of = psr_of,
     pf_validate = validate_header, pf_mismatch = PoolCrcMismatch, pf_io = PoolStorage\<rparr>"

definition psr_recompute_crc :: "(byte list \<Rightarrow> u32) \<Rightarrow> pool_state_root \<Rightarrow> pool_state_root" where
  "psr_recompute_crc crc = page_recompute_crc crc psr_fmt"

definition psr_verify_crc :: "(byte list \<Rightarrow> u32) \<Rightarrow> pool_state_root \<Rightarrow> (pool_error, unit) res" where
  "psr_verify_crc crc = page_verify_crc crc psr_fmt"

definition inline_disk_count :: "pool_state_root \<Rightarrow> nat" where
  "inline_disk_count p = min (ps_disk_count p) POOL_STATE_ROOT_INLINE_DISKS"

definition set_inline_disks :: "disk_descriptor list \<Rightarrow> pool_state_root \<Rightarrow> (pool_error, pool_state_root) res" where
  "set_inline_disks disks p =
     (if length disks > POOL_STATE_ROOT_INLINE_DISKS
      then err (DiskOverflowUnsupported (length disks mod 2 ^ 32) POOL_STATE_ROOT_INLINE_DISKS)
      else ok (p\<lparr>ps_inline_disks := disks @ replicate (POOL_STATE_ROOT_INLINE_DISKS - length disks) descriptor_zero,
             ps_disk_count := length disks\<rparr>))"

definition inline_iter :: "pool_state_root \<Rightarrow> disk_descriptor list" where
  "inline_iter p = take (inline_disk_count p) (ps_inline_disks p)"

definition psr_write ::
  "'d block_device \<Rightarrow> (byte list \<Rightarrow> u32) \<Rightarrow> 'd \<Rightarrow> u64 \<Rightarrow> pool_state_root \<Rightarrow> (pool_error, pool_state_root \<times> 'd) res" where
  "psr_write ops crc = page_write ops crc psr_fmt"

definition psr_read :: "'d block_device \<Rightarrow> (byte list \<Rightarrow> u32) \<Rightarrow> 'd \<Rightarrow> u64 \<Rightarrow> (pool_error, pool_state_root) res" where
  "psr_read ops crc = page_read ops crc psr_fmt"

section \<open>PoolManager\<close>

abbreviation (input) POOL_STATE_ROOT_OFFSET :: nat where "POOL_STATE_ROOT_OFFSET \<equiv> 16384"

text \<open>An open device: the file it names and the capacity it was opened with.\<close>

record pool_device =
  pd_path :: "byte list"
  pd_capacity :: u64

definition host_file :: "host \<Rightarrow> byte list \<Rightarrow> byte list" where
  "host_file fs path = (case fs path of None \<Rightarrow> [] | Some f \<Rightarrow> f)"

definition device_on :: "host \<Rightarrow> pool_device \<Rightarrow> file_device" where
  "device_on fs h = \<lparr>fd_file = host_file fs (pd_path h), fd_capacity = pd_capacity h, fd_read_only = False\<rparr>"

record disk_runtime =
  dr_config :: disk_config_entry
  dr_state :: disk_state
  dr_used_bytes :: u64
  dr_device :: pool_device
  dr_superblock :: superblock

record pool_manager =
  pm_config :: pool_config
  pm_disks :: "(u16, disk_runtime) btree_map"
  pm_placement_rules :: "placement_rule list"

definition fs_uuid_for :: "u16 \<Rightarrow> u16 \<Rightarrow> byte list" where
  "fs_uuid_for node disk_id = le_bytes 2 node @ le_bytes 2 disk_id @ [77, 73, 77, 73] @ [80, 79, 79, 76] @ replicate 4 0"

definition fmt_params :: "disk_config_entry \<Rightarrow> u16 \<Rightarrow> sb_params" where
  "fmt_params entry node =
     (let wal_offset = 64 * 1024; wal_size = 1024 * 1024; index_offset = wal_offset + wal_size;
          index_size = 32 * 1024 * 1024; metadata_offset = index_offset + index_size; metadata_size = 4 * 1024 * 1024;
          blob_offset = metadata_offset + metadata_size
      in \<lparr>fp_fs_uuid = fs_uuid_for node (dc_id entry), fp_node_id = node, fp_disk_id = dc_id entry,
          fp_media_type = dc_media_type entry, fp_tier = dc_tier entry, fp_bucket_size_log2 = 20,
          fp_btree_node_size_log2 = 18, fp_bootstrap_buckets = 64, fp_wal_offset = wal_offset, fp_wal_size = wal_size,
          fp_index_zone = \<lparr>ze_offset = index_offset, ze_length = index_size, ze_flags = 0, ze_pad = 0\<rparr>,
          fp_metadata_zone = \<lparr>ze_offset = metadata_offset, ze_length = metadata_size, ze_flags = 0, ze_pad = 0\<rparr>,
          fp_blob_zone = \<lparr>ze_offset = blob_offset, ze_length = dc_capacity_bytes entry - blob_offset, ze_flags = 0, ze_pad = 0\<rparr>,
          fp_format_version = 1\<rparr>)"

text \<open>A device is opened on its file, formatted if asked, and its superblock is read; on a plain open the identity
  recorded in the superblock must be the configured one.\<close>

definition check_identity :: "disk_config_entry \<Rightarrow> u16 \<Rightarrow> superblock \<Rightarrow> (pool_error, unit) res" where
  "check_identity entry node sb =
     (if sb_node_id sb \<noteq> node then err (NodeIdMismatch (dc_id entry) node (sb_node_id sb))
      else if sb_disk_id sb \<noteq> dc_id entry then err (DiskIdMismatch (dc_id entry) (sb_disk_id sb))
      else ok ())"

definition open_or_format_disk ::
  "(byte list \<Rightarrow> u32) \<Rightarrow> disk_config_entry \<Rightarrow> u16 \<Rightarrow> bool \<Rightarrow> host \<Rightarrow> (pool_error, pool_device \<times> superblock) res \<times> host" where
  "open_or_format_disk crc entry node format fs =
     (let dev = file_device_open (host_file fs (dc_path entry)) (if format then dc_capacity_bytes entry else 0);
          h = \<lparr>pd_path = dc_path entry, pd_capacity = fd_capacity dev\<rparr>;
          fs1 = fs(dc_path entry \<mapsto> fd_file dev)
      in if format then
           (case sb_format file_block_device crc dev (fmt_params entry node) of
              Inl e \<Rightarrow> (map_err PoolStorage (Inl e), fs1)
            | Inr (_, dev1) \<Rightarrow>
                (rbind (map_err PoolStorage (sb_open file_block_device crc dev1)) (\<lambda>sb. ok (h, sb)),
                 fs1(dc_path entry \<mapsto> fd_file dev1)))
         else
           (rbind (map_err PoolStorage (sb_open file_block_device crc dev)) (\<lambda>sb.
            rbind (check_identity entry node sb) (\<lambda>_. ok (h, sb))), fs1))"

definition fresh_runtime :: "disk_config_entry \<Rightarrow> pool_device \<times> superblock \<Rightarrow> disk_runtime" where
  "fresh_runtime entry = (\<lambda>(dev, sb).
     \<lparr>dr_config = entry, dr_state = Online, dr_used_bytes = 0, dr_device = dev, dr_superblock = sb\<rparr>)"

fun open_disks ::
  "(byte list \<Rightarrow> u32) \<Rightarrow> u16 \<Rightarrow> bool \<Rightarrow> disk_config_entry list \<Rightarrow> (u16, disk_runtime) btree_map \<Rightarrow> host \<Rightarrow>
   (pool_error, (u16, disk_runtime) btree_map) res \<times> host" where
  "open_disks crc node format [] disks fs = (ok disks, fs)"
| "open_disks crc node format (entry # entries) disks fs =
     (case open_or_format_disk crc entry node format fs of
        (Inl e, fs1) \<Rightarrow> (Inl e, fs1)
      | (Inr opened, fs1) \<Rightarrow>
          open_disks crc node format entries (bm_insert (dc_id entry) (fresh_runtime entry opened) disks) fs1)"

fun wire_descriptors :: "disk_runtime list \<Rightarrow> (pool_error, disk_descriptor list) res" where
  "wire_descriptors [] = ok []"
| "wire_descriptors (rt # rts) =
     (let c = dr_config rt; path = dc_path c
      in if length path > DISK_PATH_INLINE_LEN then err (DiskPathTooLong (length path) DISK_PATH_INLINE_LEN)
         else rbind (descriptor_new (dc_id c) (dc_media_type c) (dc_tier c) (dr_state rt) (dc_capacity_bytes c) path) (\<lambda>d.
              rbind (wire_descriptors rts) (\<lambda>ds. ok (d\<lparr>dd_used_bytes := dr_used_bytes rt\<rparr> # ds))))"

definition write_pool_state_root :: "(byte list \<Rightarrow> u32) \<Rightarrow> pool_manager \<Rightarrow> host \<Rightarrow> (pool_error, unit) res \<times> host" where
  "write_pool_state_root crc pm fs =
     (case primary (pm_config pm) of
        None \<Rightarrow> (err EmptyPool, fs)
      | Some entry \<Rightarrow>
          (case rbind (wire_descriptors (map snd (pm_disks pm))) (\<lambda>wire.
                set_inline_disks wire (psr_new_blank\<lparr>ps_cluster_node_count := 1\<rparr>)) of
             Inl e \<Rightarrow> (Inl e, fs)
           | Inr psr \<Rightarrow>
               (case bm_get (pm_disks pm) (dc_id entry) of
                  None \<Rightarrow> (err (DiskNotFound (dc_id entry)), fs)
                | Some rt \<Rightarrow>
                    (case psr_write file_block_device crc (device_on fs (dr_device rt)) POOL_STATE_ROOT_OFFSET psr of
                       Inl e \<Rightarrow> (Inl e, fs)
                     | Inr (_, dev) \<Rightarrow>
                         (rbind (map_err PoolStorage (file_sync dev)) (\<lambda>_. ok ()),
                          fs(pd_path (dr_device rt) \<mapsto> fd_file dev))))))"

fun apply_descriptors ::
  "disk_descriptor list \<Rightarrow> (u16, disk_runtime) btree_map \<Rightarrow> (pool_error, (u16, disk_runtime) btree_map) res" where
  "apply_descriptors [] disks = ok disks"
| "apply_descriptors (d # ds) disks =
     rbind (state_typed d) (\<lambda>st.
     apply_descriptors ds
       (case bm_get disks (dd_disk_id d) of
          None \<Rightarrow> disks
        | Some rt \<Rightarrow> bm_insert (dd_disk_id d) (rt\<lparr>dr_state := st, dr_used_bytes := dd_used_bytes d\<rparr>) disks))"

definition apply_pool_state_root :: "pool_state_root \<Rightarrow> pool_manager \<Rightarrow> (pool_error, pool_manager) res" where
  "apply_pool_state_root psr pm =
     rbind (apply_descriptors (inline_iter psr) (pm_disks pm)) (\<lambda>disks. ok (pm\<lparr>pm_disks := disks\<rparr>))"

fun first_duplicate :: "u16 set \<Rightarrow> u16 list \<Rightarrow> u16 option" where
  "first_duplicate seen [] = None"
| "first_duplicate seen (i # is) = (if i \<in> seen then Some i else first_duplicate (insert i seen) is)"

definition pool_create :: "(byte list \<Rightarrow> u32) \<Rightarrow> pool_config \<Rightarrow> host \<Rightarrow> (pool_error, pool_manager) res \<times> host" where
  "pool_create crc config fs =
     (if pc_disks config = [] then (err EmptyPool, fs)
      else if length (pc_disks config) > POOL_STATE_ROOT_INLINE_DISKS
      then (err (DiskOverflowUnsupported (length (pc_disks config) mod 2 ^ 32) POOL_STATE_ROOT_INLINE_DISKS), fs)
      else case first_duplicate {} (map dc_id (pc_disks config)) of
        Some i \<Rightarrow> (err (DuplicateDiskId i), fs)
      | None \<Rightarrow>
          (case open_disks crc (pc_node_id config) True (pc_disks config) [] fs of
             (Inl e, fs1) \<Rightarrow> (Inl e, fs1)
           | (Inr disks, fs1) \<Rightarrow>
               let mgr = \<lparr>pm_config = config, pm_disks = disks, pm_placement_rules = []\<rparr>
               in (case write_pool_state_root crc mgr fs1 of
                     (Inl e, fs2) \<Rightarrow> (Inl e, fs2)
                   | (Inr _, fs2) \<Rightarrow> (ok mgr, fs2))))"

definition pool_open :: "(byte list \<Rightarrow> u32) \<Rightarrow> pool_config \<Rightarrow> host \<Rightarrow> (pool_error, pool_manager) res \<times> host" where
  "pool_open crc config fs =
     (if pc_disks config = [] then (err EmptyPool, fs)
      else case open_disks crc (pc_node_id config) False (pc_disks config) [] fs of
        (Inl e, fs1) \<Rightarrow> (Inl e, fs1)
      | (Inr disks, fs1) \<Rightarrow>
          (case primary config of
             None \<Rightarrow> (err EmptyPool, fs1)
           | Some entry \<Rightarrow>
               (case bm_get disks (dc_id entry) of
                  None \<Rightarrow> (err (DiskNotFound (dc_id entry)), fs1)
                | Some rt \<Rightarrow>
                    (rbind (psr_read file_block_device crc (device_on fs1 (dr_device rt)) POOL_STATE_ROOT_OFFSET) (\<lambda>psr.
                     apply_pool_state_root psr \<lparr>pm_config = config, pm_disks = disks, pm_placement_rules = []\<rparr>), fs1))))"

text \<open>\<open>add_disk\<close> and \<open>remove_disk\<close> change the manager before the state root is written, and keep the change when the
  write fails.\<close>

definition add_disk ::
  "(byte list \<Rightarrow> u32) \<Rightarrow> disk_config_entry \<Rightarrow> pool_manager \<Rightarrow> host \<Rightarrow> (pool_error, u16) res \<times> pool_manager \<times> host" where
  "add_disk crc entry pm fs =
     (if bm_get (pm_disks pm) (dc_id entry) \<noteq> None then (err (DuplicateDiskId (dc_id entry)), pm, fs)
      else if length (pm_disks pm) + 1 > POOL_STATE_ROOT_INLINE_DISKS
      then (err (DiskOverflowUnsupported ((length (pm_disks pm) + 1) mod 2 ^ 32) POOL_STATE_ROOT_INLINE_DISKS), pm, fs)
      else case open_or_format_disk crc entry (pc_node_id (pm_config pm)) True fs of
        (Inl e, fs1) \<Rightarrow> (Inl e, pm, fs1)
      | (Inr opened, fs1) \<Rightarrow>
          let pm1 = pm\<lparr>pm_config := (pm_config pm)\<lparr>pc_disks := pc_disks (pm_config pm) @ [entry]\<rparr>,
                pm_disks := bm_insert (dc_id entry) (fresh_runtime entry opened) (pm_disks pm)\<rparr>
          in (case write_pool_state_root crc pm1 fs1 of
                (Inl e, fs2) \<Rightarrow> (Inl e, pm1, fs2)
              | (Inr _, fs2) \<Rightarrow> (ok (dc_id entry), pm1, fs2)))"

definition remove_disk ::
  "(byte list \<Rightarrow> u32) \<Rightarrow> u16 \<Rightarrow> pool_manager \<Rightarrow> host \<Rightarrow> (pool_error, unit) res \<times> pool_manager \<times> host" where
  "remove_disk crc i pm fs =
     (case bm_get (pm_disks pm) i of
        None \<Rightarrow> (err (DiskNotFound i), pm, fs)
      | Some rt \<Rightarrow>
          let pm1 = pm\<lparr>pm_disks := bm_insert i (rt\<lparr>dr_state := Draining\<rparr>) (pm_disks pm)\<rparr>
          in (case write_pool_state_root crc pm1 fs of (r, fs1) \<Rightarrow> (r, pm1, fs1)))"

definition pool_commit :: "(byte list \<Rightarrow> u32) \<Rightarrow> pool_manager \<Rightarrow> host \<Rightarrow> (pool_error, unit) res \<times> host" where
  "pool_commit crc pm fs = write_pool_state_root crc pm fs"

definition add_placement_rule :: "placement_rule \<Rightarrow> pool_manager \<Rightarrow> pool_manager" where
  "add_placement_rule rule pm = pm\<lparr>pm_placement_rules := pm_placement_rules pm @ [rule]\<rparr>"

definition pool_runtime :: "pool_manager \<Rightarrow> u16 \<Rightarrow> disk_runtime option" where
  "pool_runtime pm i = bm_get (pm_disks pm) i"

definition disk_superblock :: "pool_manager \<Rightarrow> u16 \<Rightarrow> superblock option" where
  "disk_superblock pm i = map_option dr_superblock (bm_get (pm_disks pm) i)"

definition save_config ::
  "(pool_config \<Rightarrow> byte list option) \<Rightarrow> pool_manager \<Rightarrow> host \<Rightarrow> byte list \<Rightarrow> (pool_error, unit) res \<times> host" where
  "save_config toml_ser pm fs path = save_toml toml_ser (pm_config pm) fs path"

text \<open>The free room of a disk saturates at zero.\<close>

definition free_bytes :: "disk_runtime \<Rightarrow> u64" where
  "free_bytes rt = dc_capacity_bytes (dr_config rt) - dr_used_bytes rt"

fun pick_loop :: "storage_tier \<Rightarrow> (u16 \<times> disk_runtime) list \<Rightarrow> (u16 \<times> u64) option \<Rightarrow> (u16 \<times> u64) option" where
  "pick_loop tier [] best = best"
| "pick_loop tier ((i, rt) # disks) best =
     (if dr_state rt \<noteq> Online then pick_loop tier disks best
      else if dc_tier (dr_config rt) \<noteq> tier then pick_loop tier disks best
      else pick_loop tier disks
        (case best of
           Some (j, best_free) \<Rightarrow> if free_bytes rt \<le> best_free then best else Some (i, free_bytes rt)
         | None \<Rightarrow> Some (i, free_bytes rt)))"

definition pick_disk :: "pool_manager \<Rightarrow> storage_tier \<Rightarrow> u16 option" where
  "pick_disk pm tier = map_option fst (pick_loop tier (pm_disks pm) None)"

record tier_breakdown =
  tb_disk_count :: u32
  tb_capacity_bytes :: u64
  tb_used_bytes :: u64

record pool_status =
  st_node_id :: u16
  st_disk_count :: u32
  st_total_capacity :: u64
  st_total_used :: u64
  st_disks :: "(u16 \<times> disk_state \<times> media_type \<times> storage_tier \<times> u64 \<times> u64) list"
  st_by_tier :: "(storage_tier, tier_breakdown) btree_map"
  st_faulted_disks :: "u16 list"

definition sat_add_u64 :: "u64 \<Rightarrow> u64 \<Rightarrow> u64" where
  "sat_add_u64 a b = min (a + b) (2 ^ 64 - 1)"

definition status_step :: "u16 \<times> disk_runtime \<Rightarrow> pool_status \<Rightarrow> pool_status" where
  "status_step = (\<lambda>(i, rt) st.
     let c = dr_config rt; capacity = dc_capacity_bytes c; used = dr_used_bytes rt;
         tb = (case bm_get (st_by_tier st) (dc_tier c) of
                 None \<Rightarrow> \<lparr>tb_disk_count = 0, tb_capacity_bytes = 0, tb_used_bytes = 0\<rparr> | Some tb \<Rightarrow> tb)
     in st\<lparr>st_disks := st_disks st @ [(i, dr_state rt, dc_media_type c, dc_tier c, capacity, used)],
           st_total_capacity := sat_add_u64 (st_total_capacity st) capacity,
           st_total_used := sat_add_u64 (st_total_used st) used,
           st_by_tier := bm_insert (dc_tier c)
             \<lparr>tb_disk_count = tb_disk_count tb + 1, tb_capacity_bytes = sat_add_u64 (tb_capacity_bytes tb) capacity,
              tb_used_bytes = sat_add_u64 (tb_used_bytes tb) used\<rparr> (st_by_tier st),
           st_faulted_disks := st_faulted_disks st @ (if dr_state rt = Faulted then [i] else [])\<rparr>)"

definition status :: "pool_manager \<Rightarrow> pool_status" where
  "status pm = fold status_step (pm_disks pm)
     \<lparr>st_node_id = pc_node_id (pm_config pm), st_disk_count = length (pm_disks pm) mod 2 ^ 32, st_total_capacity = 0,
      st_total_used = 0, st_disks = [], st_by_tier = [], st_faulted_disks = []\<rparr>"

section \<open>The regions of placement rules and overflow descriptors\<close>

definition encode_placement_rules ::
  "(placement_rule list \<Rightarrow> byte list option) \<Rightarrow> placement_rule list \<Rightarrow> (pool_error, byte list) res" where
  "encode_placement_rules cbor_ser rules = (case cbor_ser rules of None \<Rightarrow> err PoolCborEncode | Some bytes \<Rightarrow> ok bytes)"

definition decode_placement_rules ::
  "(byte list \<Rightarrow> placement_rule list option) \<Rightarrow> byte list \<Rightarrow> (pool_error, placement_rule list) res" where
  "decode_placement_rules cbor_de bytes = (case cbor_de bytes of None \<Rightarrow> err PoolCborDecode | Some rules \<Rightarrow> ok rules)"

definition placement_rules_to_loaded_node :: "placement_rule list \<Rightarrow> ('e, (u32, placement_rule list) loaded_node) res" where
  "placement_rules_to_loaded_node rules =
     (let node = node_new PlacementRules 0 18
      in rbind (run_from_sorted 0 0 [(0, rules)]) (\<lambda>run.
         ok (node\<lparr>n_sorted_runs := [run], n_header := (n_header node)\<lparr>nh_sorted_run_count := 1\<rparr>\<rparr>)))"

definition placement_rules_from_loaded_node ::
  "(u32, placement_rule list) kmerge \<Rightarrow> (u32, placement_rule list) loaded_node \<Rightarrow> placement_rule list" where
  "placement_rules_from_loaded_node kmerge node =
     (case List.find (\<lambda>(k, _). k = 0) (merge_iter kmerge node) of None \<Rightarrow> [] | Some (_, v) \<Rightarrow> v)"

definition flush_placement_rules_to_region ::
  "'d block_device \<Rightarrow> (u32, placement_rule list) region_env \<Rightarrow> placement_rule list \<Rightarrow> 'd \<Rightarrow> u64 \<Rightarrow> (pool_error, 'd) res" where
  "flush_placement_rules_to_region ops env rules d offset =
     rbind (placement_rules_to_loaded_node rules) (\<lambda>node.
     rbind (map_err PoolStorage (write_full ops env d offset node)) (\<lambda>(_, d1). ok d1))"

definition load_placement_rules_from_region ::
  "'d block_device \<Rightarrow> (u32, placement_rule list) region_env \<Rightarrow> (u32, placement_rule list) kmerge \<Rightarrow> 'd \<Rightarrow> u64 \<Rightarrow>
   (pool_error, placement_rule list) res" where
  "load_placement_rules_from_region ops env kmerge d offset =
     rbind (map_err PoolStorage (read_at ops d offset 8)) (\<lambda>probe.
     if list_all (\<lambda>b. b = 0) probe then ok []
     else rbind (map_err PoolStorage (region_read ops env d offset PlacementRules)) (\<lambda>node.
          ok (placement_rules_from_loaded_node kmerge node)))"

definition disks_overflow_to_loaded_node :: "disk_descriptor list \<Rightarrow> ('e, (u16, disk_descriptor) loaded_node) res" where
  "disks_overflow_to_loaded_node overflow =
     (let entries = sort_key fst (map (\<lambda>d. (dd_disk_id d, d)) overflow);
          node = node_new DiskDescriptors 0 18
      in if entries = [] then ok node
         else rbind (run_from_sorted 0 0 entries) (\<lambda>run.
           ok (node\<lparr>n_sorted_runs := [run], n_header := (n_header node)\<lparr>nh_sorted_run_count := 1\<rparr>\<rparr>)))"

definition disks_overflow_from_loaded_node ::
  "(u16, disk_descriptor) kmerge \<Rightarrow> (u16, disk_descriptor) loaded_node \<Rightarrow> disk_descriptor list" where
  "disks_overflow_from_loaded_node kmerge node = map snd (merge_iter kmerge node)"

definition flush_disks_overflow_to_region ::
  "'d block_device \<Rightarrow> (u16, disk_descriptor) region_env \<Rightarrow> disk_descriptor list \<Rightarrow> 'd \<Rightarrow> u64 \<Rightarrow> (pool_error, 'd) res" where
  "flush_disks_overflow_to_region ops env overflow d offset =
     rbind (disks_overflow_to_loaded_node overflow) (\<lambda>node.
     rbind (map_err PoolStorage (write_full ops env d offset node)) (\<lambda>(_, d1). ok d1))"

definition load_disks_overflow_from_region ::
  "'d block_device \<Rightarrow> (u16, disk_descriptor) region_env \<Rightarrow> (u16, disk_descriptor) kmerge \<Rightarrow> 'd \<Rightarrow> u64 \<Rightarrow>
   (pool_error, disk_descriptor list) res" where
  "load_disks_overflow_from_region ops env kmerge d offset =
     rbind (map_err PoolStorage (read_at ops d offset 8)) (\<lambda>probe.
     if list_all (\<lambda>b. b = 0) probe then ok []
     else rbind (map_err PoolStorage (region_read ops env d offset DiskDescriptors)) (\<lambda>node.
          ok (disks_overflow_from_loaded_node kmerge node)))"

end
