(* ===== verification/Mb_Pool_Thms.thy ===== *)
theory Mb_Pool_Thms
  imports Mb_Pool Mb_Superblock_Thms Mb_Alloc_Thms
begin

text \<open>
  What the pool promises: a pool reached by creating it, adding and draining disks and committing opens again to the
  same disks; the choice of a disk is the best one of its tier; and a disk whose path is too long blocks the pool.
\<close>

section \<open>The state root is a page\<close>

definition descriptor_ok :: "disk_descriptor \<Rightarrow> bool" where
  "descriptor_ok d \<longleftrightarrow> dd_disk_id d < 2 ^ 16 \<and> dd_media_type d < 2 ^ 8 \<and> dd_tier d < 2 ^ 8 \<and> dd_state d < 2 ^ 8 \<and>
     dd_pad0 d < 2 ^ 8 \<and> dd_path_len d < 2 ^ 8 \<and> dd_pad1 d < 2 ^ 8 \<and> dd_capacity_bytes d < 2 ^ 64 \<and>
     dd_used_bytes d < 2 ^ 64 \<and> dd_bucket_count d < 2 ^ 32 \<and> dd_first_usable_bucket d < 2 ^ 32 \<and>
     block_ref_ok (dd_buckets_root d) \<and> block_ref_ok (dd_freespace_root d) \<and> length (dd_path d) = 192"

definition psr_ok :: "pool_state_root \<Rightarrow> bool" where
  "psr_ok p \<longleftrightarrow> block_header_ok (ps_header p) \<and> ps_disk_count p < 2 ^ 32 \<and> ps_cluster_node_count p < 2 ^ 32 \<and>
     length (ps_inline_disks p) = 12 \<and> list_all descriptor_ok (ps_inline_disks p) \<and> length (ps_reserved p) = 980"

lemma length_descriptor_bytes: "descriptor_ok d \<Longrightarrow> length (descriptor_bytes d) = 256"
  by (simp add: descriptor_ok_def descriptor_bytes_def)

lemma descriptor_of_bytes: "descriptor_ok d \<Longrightarrow> descriptor_of (descriptor_bytes d) = d"
  by (simp add: descriptor_ok_def descriptor_of_def descriptor_bytes_def image_simps block_ref_of_bytes)

interpretation psr_page: page_format psr_fmt psr_ok
proof
  fix b and c :: u32
  assume b: "psr_ok b"
  have es: "length (concat (map descriptor_bytes (ps_inline_disks b))) = 3072"
    using b length_concat_const [of "ps_inline_disks b" descriptor_bytes 256]
    by (simp add: psr_ok_def list_all_iff length_descriptor_bytes)
  with b show "length (pf_body psr_fmt b) = 4092"
    by (simp add: psr_fmt_def psr_body_def psr_ok_def length_block_header_bytes)
  assume c: "c < 2 ^ 32"
  let ?pre = "block_header_bytes (ps_header b) @ le_bytes 4 (ps_disk_count b) @ le_bytes 4 (ps_cluster_node_count b)"
  have entries: "map (\<lambda>i. descriptor_of (bslice (40 + 256 * i) 256
      (?pre @ concat (map descriptor_bytes (ps_inline_disks b)) @ ps_reserved b @ le_bytes 4 c))) [0 ..< 12] = ps_inline_disks b"
    using b by (intro array_of_bytes)
      (auto simp: psr_ok_def list_all_iff descriptor_of_bytes length_descriptor_bytes length_block_header_bytes)
  have hdr: "length (block_header_bytes (ps_header b)) = 32" using b by (simp add: psr_ok_def length_block_header_bytes)
  show "pf_of psr_fmt (pf_body psr_fmt b @ le_bytes 4 c) = pf_set_crc psr_fmt c b"
    using b c es entries hdr
    by (simp add: psr_fmt_def psr_of_def psr_body_def psr_ok_def block_header_of_append image_simps del: upt.simps upt_rec_numeral)
qed (simp_all add: psr_fmt_def psr_body_def validate_header_def Let_def)

lemma disk_state_roundtrip: "disk_state_from_u8 (disk_state_to_u8 s) = ok s"
  by (cases s) (simp_all add: disk_state_from_u8_def)

section \<open>What a manager writes\<close>

definition runtime_descriptor :: "disk_runtime \<Rightarrow> disk_descriptor" where
  "runtime_descriptor rt =
     (let c = dr_config rt
      in descriptor_zero\<lparr>dd_disk_id := dc_id c, dd_media_type := media_type_to_u8 (dc_media_type c),
        dd_tier := storage_tier_u8 (dc_tier c), dd_state := disk_state_to_u8 (dr_state rt), dd_path_len := length (dc_path c),
        dd_capacity_bytes := dc_capacity_bytes c, dd_used_bytes := dr_used_bytes rt,
        dd_path := dc_path c @ replicate (192 - length (dc_path c)) 0\<rparr>)"

definition runtime_ok :: "disk_runtime \<Rightarrow> bool" where
  "runtime_ok rt \<longleftrightarrow> dc_id (dr_config rt) < 2 ^ 16 \<and> length (dc_path (dr_config rt)) \<le> 192 \<and>
     dc_capacity_bytes (dr_config rt) < 2 ^ 64 \<and> dr_used_bytes rt < 2 ^ 64"

definition state_root :: "disk_runtime list \<Rightarrow> pool_state_root" where
  "state_root rts = psr_new_blank\<lparr>ps_cluster_node_count := 1,
     ps_inline_disks := map runtime_descriptor rts @ replicate (12 - length rts) descriptor_zero, ps_disk_count := length rts\<rparr>"

lemma descriptor_zero_ok: "descriptor_ok descriptor_zero"
  by (simp add: descriptor_ok_def descriptor_zero_def block_ref_ok_def block_ref_zero_def block_ref_new_def)

lemma runtime_descriptor_ok: "runtime_ok rt \<Longrightarrow> descriptor_ok (runtime_descriptor rt)"
proof -
  assume "runtime_ok rt"
  moreover have "disk_state_to_u8 (dr_state rt) < 256" by (cases "dr_state rt") simp_all
  ultimately show ?thesis
    using descriptor_zero_ok media_type_u8_less [of "dc_media_type (dr_config rt)"] storage_tier_u8_less [of "dc_tier (dr_config rt)"]
    by (simp add: descriptor_ok_def runtime_descriptor_def Let_def runtime_ok_def)
qed

lemma state_root_ok:
  assumes "list_all runtime_ok rts" and "length rts \<le> 12"
  shows "psr_ok (state_root rts)" and "validate_header (state_root rts) = ok ()"
proof -
  show "psr_ok (state_root rts)"
    using assms descriptor_zero_ok
    by (auto simp: psr_ok_def state_root_def psr_new_blank_def list_all_iff runtime_descriptor_ok block_header_new_ok)
  show "validate_header (state_root rts) = ok ()"
    by (simp add: validate_header_def state_root_def psr_new_blank_def block_header_new_def Let_def)
qed

lemma wire_descriptors_iff:
  "wire_descriptors rts = (if \<exists>rt\<in>set rts. length (dc_path (dr_config rt)) > 192
     then err (DiskPathTooLong (length (dc_path (dr_config (the (List.find (\<lambda>rt. length (dc_path (dr_config rt)) > 192) rts))))) 192)
     else ok (map runtime_descriptor rts))"
  by (induction rts) (auto simp: Let_def descriptor_new_def runtime_descriptor_def descriptor_zero_def)

lemma write_root_eq:
  assumes "list_all runtime_ok (map snd (pm_disks pm))" and "length (pm_disks pm) \<le> 12"
    and "primary (pm_config pm) = Some e" and "bm_get (pm_disks pm) (dc_id e) = Some rt"
  shows "write_pool_state_root crc pm fs =
    (case psr_write file_block_device crc (device_on fs (dr_device rt)) 16384 (state_root (map snd (pm_disks pm))) of
       Inl e \<Rightarrow> (Inl e, fs) | Inr (_, dev) \<Rightarrow>
         (rbind (map_err PoolStorage (file_sync dev)) (\<lambda>_. ok ()), fs(pd_path (dr_device rt) \<mapsto> fd_file dev)))"
proof -
  have "\<not> (\<exists>rt\<in>set (map snd (pm_disks pm)). length (dc_path (dr_config rt)) > 192)"
    using assms(1) unfolding list_all_iff runtime_ok_def by force
  then have w: "rbind (wire_descriptors (map snd (pm_disks pm))) (\<lambda>wire.
      set_inline_disks wire (psr_new_blank\<lparr>ps_cluster_node_count := 1\<rparr>)) = ok (state_root (map snd (pm_disks pm)))"
    using assms(2) unfolding wire_descriptors_iff by (simp add: set_inline_disks_def state_root_def)
  show ?thesis unfolding write_pool_state_root_def assms(3) w by (simp add: assms(4))
qed

section \<open>Disks on the host\<close>

definition disk_intact :: "(byte list \<Rightarrow> u32) \<Rightarrow> u16 \<Rightarrow> host \<Rightarrow> disk_runtime \<Rightarrow> bool" where
  "disk_intact crc node fs rt \<longleftrightarrow>
     (let c = dr_config rt; s = dr_superblock rt; cap = dc_capacity_bytes c
      in runtime_ok rt \<and> dr_device rt = \<lparr>pd_path = dc_path c, pd_capacity = cap\<rparr> \<and> 24576 \<le> cap \<and> sb_valid crc s \<and>
         sb_node_id s = node \<and> sb_disk_id s = dc_id c \<and>
         (\<exists>f. fs (dc_path c) = Some f \<and> length f = cap \<and> sb_copies f cap = replicate 3 (superblock_bytes s)))"

lemma disk_intact_other:
  "path \<noteq> dc_path (dr_config rt) \<Longrightarrow> disk_intact crc node (fs(path \<mapsto> f)) rt = disk_intact crc node fs rt"
  by (simp add: disk_intact_def Let_def)

lemma disk_intact_device:
  assumes "disk_intact crc node fs rt"
  shows "file_device_inv (device_on fs (dr_device rt))" and "fd_writable (device_on fs (dr_device rt))"
    and "sb_intact crc (dr_superblock rt) (device_on fs (dr_device rt))"
    and "24576 \<le> fd_capacity (device_on fs (dr_device rt))"
  using assms by (auto simp: disk_intact_def Let_def device_on_def file_device_inv_def fd_writable_def sb_intact_def
      host_file_def runtime_ok_def)

lemma reopen_disk:
  assumes "disk_intact crc node fs rt"
  shows "open_or_format_disk crc (dr_config rt) node False fs = (ok (dr_device rt, dr_superblock rt), fs)"
proof -
  from assms obtain f where f: "fs (dc_path (dr_config rt)) = Some f" "length f = dc_capacity_bytes (dr_config rt)"
    and dev: "dr_device rt = \<lparr>pd_path = dc_path (dr_config rt), pd_capacity = length f\<rparr>"
    and ids: "sb_node_id (dr_superblock rt) = node" "sb_disk_id (dr_superblock rt) = dc_id (dr_config rt)"
    by (auto simp: disk_intact_def Let_def)
  have d: "file_device_open (host_file fs (dc_path (dr_config rt))) 0 = device_on fs (dr_device rt)"
    using f dev by (simp add: file_device_open_def device_on_def host_file_def)
  have "sb_open file_block_device crc (device_on fs (dr_device rt)) = ok (dr_superblock rt)"
    by (rule sb_intact_open [OF disk_intact_device(1,3) [OF assms]])
  moreover have "fs(dc_path (dr_config rt) \<mapsto> f) = fs" using f(1) by (simp add: fun_upd_idem)
  moreover have "fd_file (device_on fs (dr_device rt)) = f" "fd_capacity (device_on fs (dr_device rt)) = length f"
    using f(1) dev by (simp_all add: device_on_def host_file_def)
  ultimately show ?thesis
    using d dev ids by (simp add: open_or_format_disk_def Let_def check_identity_def)
qed

definition disk_entry_ok :: "host \<Rightarrow> disk_config_entry \<Rightarrow> bool" where
  "disk_entry_ok fs e \<longleftrightarrow> dc_id e < 2 ^ 16 \<and> 24576 \<le> dc_capacity_bytes e \<and> dc_capacity_bytes e < 2 ^ 64 \<and>
     length (host_file fs (dc_path e)) \<le> dc_capacity_bytes e"

lemma fmt_params_ok: "dc_id e < 2 ^ 16 \<Longrightarrow> dc_capacity_bytes e < 2 ^ 64 \<Longrightarrow> node < 2 ^ 16 \<Longrightarrow> sb_params_ok (fmt_params e node)"
  by (simp add: sb_params_ok_def fmt_params_def Let_def fs_uuid_for_def zone_extent_ok_def)

lemma fmt_superblock_ids:
  "sb_node_id (sb_new_blank crc (fmt_params e node) cap) = node"
  "sb_disk_id (sb_new_blank crc (fmt_params e node) cap) = dc_id e"
  by (simp_all add: sb_new_blank_def superblock_recompute_crc_def fmt_params_def Let_def)

lemma write_copies_length:
  "file_device_inv d \<Longrightarrow> write_copies file_block_device d bs offs = ok d' \<Longrightarrow> length (fd_file d') = length (fd_file d)"
proof (induction offs arbitrary: d)
  case (Cons off offs)
  then obtain d1 where d1: "write_at file_block_device d off bs = ok d1" "write_copies file_block_device d1 bs offs = ok d'"
    by (auto simp: res_simps)
  note w = fdev.write_success [OF Cons.prems(1) d1(1)]
  have "off + length bs \<le> length (fd_file d)" using w(2) fdev.cap_image [OF Cons.prems(1)] by simp
  then have "length (fd_file d1) = length (fd_file d)" using w(6) by simp
  then show ?case using Cons.IH [OF w(3) d1(2)] by simp
qed simp

lemma sb_format_length:
  "file_device_inv d \<Longrightarrow> sb_format file_block_device crc d p = ok (s, d') \<Longrightarrow> length (fd_file d') = length (fd_file d)"
  by (auto simp: sb_format_def Let_def res_simps copy_offsets_def fdev.sync_ok file_sync_def file_block_device_def
      simp del: write_copies.simps split: if_splits dest: write_copies_length [unfolded file_block_device_def])

lemma format_disk:
  assumes "crc_ok crc" and "node < 2 ^ 16" and "disk_entry_ok fs e"
  obtains f h s where "open_or_format_disk crc e node True fs = (ok (h, s), fs(dc_path e \<mapsto> f))"
    and "length (dc_path e) \<le> 192 \<Longrightarrow> disk_intact crc node (fs(dc_path e \<mapsto> f)) (fresh_runtime e (h, s))"
proof -
  let ?cap = "dc_capacity_bytes e" and ?f0 = "host_file fs (dc_path e)"
  let ?dev = "file_device_open ?f0 ?cap" and ?p = "fmt_params e node"
  have e: "dc_id e < 2 ^ 16" "24576 \<le> ?cap" "?cap < 2 ^ 64" "length ?f0 \<le> ?cap"
    using assms(3) by (simp_all add: disk_entry_ok_def)
  have dev: "file_device_inv ?dev" "fd_writable ?dev" "fd_capacity ?dev = ?cap" "length (fd_file ?dev) = ?cap"
    using e by (simp_all add: file_device_open_def file_device_inv_def fd_writable_def extend_file_def)
  have cap: "12288 \<le> fd_capacity ?dev" using dev(3) e(2) by simp
  let ?s = "sb_new_blank crc ?p ?cap"
  obtain d' where d': "sb_format file_block_device crc ?dev ?p = ok (?s, d')"
      "file_device_inv d'" "fd_capacity d' = ?cap" "sb_intact crc ?s d'"
    using sb_format_step [OF assms(1) dev(1,2) cap fmt_params_ok [OF e(1,3) assms(2)]] unfolding dev(3) by metis
  have len: "length (fd_file d') = ?cap" using sb_format_length [OF dev(1) d'(1)] dev(4) by simp
  let ?h = "\<lparr>pd_path = dc_path e, pd_capacity = ?cap\<rparr>"
  have "open_or_format_disk crc e node True fs = (ok (?h, ?s), fs(dc_path e \<mapsto> fd_file d'))"
    using d'(1) sb_intact_open [OF d'(2,4)] dev(3) by (simp add: open_or_format_disk_def Let_def)
  moreover have "disk_intact crc node (fs(dc_path e \<mapsto> fd_file d')) (fresh_runtime e (?h, ?s))" if "length (dc_path e) \<le> 192"
    using that d'(3,4) len e by (simp add: disk_intact_def fresh_runtime_def Let_def runtime_ok_def fmt_superblock_ids sb_intact_def)
  ultimately show ?thesis using that by blast
qed

lemma write_root_disk:
  assumes "crc_ok crc" and "disk_intact crc node fs rt" and "psr_ok p"
  obtains dev q where "psr_write file_block_device crc (device_on fs (dr_device rt)) 16384 p = ok (q, dev)"
    and "file_sync dev = ok dev" and "bslice 16384 4096 (fd_file dev) = page_image crc psr_fmt p"
    and "disk_intact crc node (fs(dc_path (dr_config rt) \<mapsto> fd_file dev)) rt"
proof -
  let ?d = "device_on fs (dr_device rt)"
  note d = disk_intact_device [OF assms(2)]
  have c: "16384 + 4096 \<le> dev_capacity file_block_device ?d" using d(4) by simp
  obtain dev where w: "page_write file_block_device crc psr_fmt ?d 16384 p = ok (page_recompute_crc crc psr_fmt p, dev)"
    using fdev.page_write_ok [OF psr_page.page_format_axioms d(1,2) assms(3) c] by blast
  note pw = fdev.page_written [OF psr_page.page_format_axioms d(1) assms(3) w]
  note ps = fdev.page_slices [OF psr_page.page_format_axioms d(1) assms(3) w]
  have len: "length (page_image crc psr_fmt p) = 4096" by (rule psr_page.length_page_image [OF assms(3)])
  from assms(2) obtain f where f: "fs (dc_path (dr_config rt)) = Some f" "length f = dc_capacity_bytes (dr_config rt)"
    "sb_copies f (dc_capacity_bytes (dr_config rt)) = replicate 3 (superblock_bytes (dr_superblock rt))"
    and dev: "dr_device rt = \<lparr>pd_path = dc_path (dr_config rt), pd_capacity = length f\<rparr>" "24576 \<le> length f"
    by (auto simp: disk_intact_def Let_def)
  have img: "fd_file ?d = f" using f(1) dev(1) by (simp add: device_on_def host_file_def)
  have "20480 \<le> length f - 4096" using dev(2) by simp
  then have "sb_copies (fd_file dev) (length f) = sb_copies f (length f)"
    unfolding sb_copies_def copy_offs_def using ps(2) [of _ 4096] img dev(2) by (simp del: bslice_0)
  moreover have "length (fd_file dev) = length f" using pw(5) img len dev(2) by simp
  ultimately have "disk_intact crc node (fs(dc_path (dr_config rt) \<mapsto> fd_file dev)) rt"
    using assms(2) f by (simp add: disk_intact_def Let_def)
  moreover have "file_sync dev = ok dev" using pw(2) by (simp add: file_sync_def fd_writable_def)
  ultimately show ?thesis using that w ps(1) unfolding psr_write_def by simp
qed

section \<open>The disks of a manager\<close>

definition disks_ok ::
  "(byte list \<Rightarrow> u32) \<Rightarrow> u16 \<Rightarrow> disk_config_entry list \<Rightarrow> (u16, disk_runtime) btree_map \<Rightarrow> host \<Rightarrow> bool" where
  "disks_ok crc node entries disks fs \<longleftrightarrow> bm_wf disks \<and> distinct (map dc_id entries) \<and> distinct (map dc_path entries) \<and>
     (\<forall>i. map_option dr_config (bm_get disks i) = List.find (\<lambda>e. dc_id e = i) entries) \<and>
     (\<forall>i rt. bm_get disks i = Some rt \<longrightarrow> disk_intact crc node fs rt)"

lemma find_entry:
  "distinct (map dc_id entries) \<Longrightarrow> List.find (\<lambda>e. dc_id e = i) entries = Some e \<longleftrightarrow> e \<in> set entries \<and> dc_id e = i"
  by (induction entries) auto

lemma disks_ok_get:
  assumes "disks_ok crc node entries disks fs"
  shows "bm_get disks i = Some rt \<Longrightarrow> dr_config rt \<in> set entries \<and> dc_id (dr_config rt) = i"
    and "e \<in> set entries \<Longrightarrow> \<exists>rt. bm_get disks (dc_id e) = Some rt \<and> dr_config rt = e"
proof -
  have d: "distinct (map dc_id entries)" and g: "map_option dr_config (bm_get disks j) = List.find (\<lambda>e. dc_id e = j) entries" for j
    using assms by (simp_all add: disks_ok_def)
  show "bm_get disks i = Some rt \<Longrightarrow> dr_config rt \<in> set entries \<and> dc_id (dr_config rt) = i"
    using g [of i] find_entry [OF d, of i "dr_config rt"] by simp
  show "e \<in> set entries \<Longrightarrow> \<exists>rt. bm_get disks (dc_id e) = Some rt \<and> dr_config rt = e"
    using g [of "dc_id e"] find_entry [OF d, of "dc_id e" e] by (cases "bm_get disks (dc_id e)") auto
qed

lemma disks_ok_keys:
  assumes "disks_ok crc node entries disks fs"
  shows "set (map fst disks) = set (map dc_id entries)" and "length disks = length entries"
proof -
  have wf: "bm_wf disks" and d: "distinct (map dc_id entries)" using assms by (simp_all add: disks_ok_def)
  have "i \<in> set (map fst disks) \<longleftrightarrow> i \<in> set (map dc_id entries)" for i
  proof -
    have "i \<in> set (map fst disks) \<longleftrightarrow> (\<exists>rt. bm_get disks i = Some rt)"
      using bm_get_mem [OF wf, of i] by (force simp: image_iff)
    also have "\<dots> \<longleftrightarrow> (\<exists>e\<in>set entries. dc_id e = i)"
      using disks_ok_get [OF assms] by blast
    also have "\<dots> \<longleftrightarrow> i \<in> set (map dc_id entries)" by (simp add: image_iff eq_commute)
    finally show ?thesis .
  qed
  then show s: "set (map fst disks) = set (map dc_id entries)" by blast
  then show "length disks = length entries"
    using distinct_card [OF bm_wf_distinct [OF wf]] distinct_card [OF d] by simp
qed

lemma disks_ok_runtimes:
  assumes "disks_ok crc node entries disks fs"
  shows "list_all runtime_ok (map snd disks)"
proof -
  have "disk_intact crc node fs rt" if "(i, rt) \<in> set disks" for i rt
    using that assms by (auto simp: disks_ok_def bm_get_mem)
  then show ?thesis by (auto simp: list_all_iff disk_intact_def Let_def)
qed

lemma disks_ok_insert:
  assumes "disks_ok crc node entries disks fs" and "dc_id e \<notin> set (map dc_id entries)" and "dc_path e \<notin> set (map dc_path entries)"
    and "disk_intact crc node (fs(dc_path e \<mapsto> f)) rt" and "dr_config rt = e"
  shows "disks_ok crc node (entries @ [e]) (bm_insert (dc_id e) rt disks) (fs(dc_path e \<mapsto> f))"
proof -
  have wf: "bm_wf disks" using assms(1) by (simp add: disks_ok_def)
  have "disk_intact crc node (fs(dc_path e \<mapsto> f)) r" if "bm_get disks i = Some r" for i r
  proof -
    have "dc_path e \<noteq> dc_path (dr_config r)" using disks_ok_get(1) [OF assms(1) that] assms(3) by auto
    then show ?thesis using that assms(1) by (auto simp: disk_intact_other disks_ok_def)
  qed
  moreover have "List.find (\<lambda>x. dc_id x = i) (entries @ [e]) =
      (case List.find (\<lambda>x. dc_id x = i) entries of Some x \<Rightarrow> Some x | None \<Rightarrow> if dc_id e = i then Some e else None)" for i
    by (induction entries) auto
  moreover have "List.find (\<lambda>x. dc_id x = dc_id e) entries = None"
    using assms(2) unfolding find_None_iff set_map image_iff by metis
  ultimately show ?thesis
    using assms wf by (auto simp: disks_ok_def bm_wf_insert bm_get_insert split: option.splits)
qed

text \<open>Formatting the remaining entries of a configuration.\<close>

lemma format_disks:
  assumes "crc_ok crc" and "node < 2 ^ 16" and "disks_ok crc node prev disks fs"
    and "distinct (map dc_id (prev @ es))" and "distinct (map dc_path (prev @ es))"
    and "\<forall>e\<in>set es. disk_entry_ok fs e \<and> length (dc_path e) \<le> 192"
  obtains disks' fs' where "open_disks crc node True es disks fs = (ok disks', fs')" and "disks_ok crc node (prev @ es) disks' fs'"
    and "\<And>p. p \<notin> set (map dc_path es) \<Longrightarrow> fs' p = fs p"
  using assms(3-)
proof (induction es arbitrary: prev disks fs thesis)
  case Nil
  then show ?case by simp
next
  case (Cons e es)
  have e: "disk_entry_ok fs e" "length (dc_path e) \<le> 192" using Cons.prems by simp_all
  obtain f h s where f: "open_or_format_disk crc e node True fs = (ok (h, s), fs(dc_path e \<mapsto> f))"
      "disk_intact crc node (fs(dc_path e \<mapsto> f)) (fresh_runtime e (h, s))"
    using format_disk [OF assms(1,2) e(1)] e(2) by metis
  have step: "disks_ok crc node (prev @ [e]) (bm_insert (dc_id e) (fresh_runtime e (h, s)) disks) (fs(dc_path e \<mapsto> f))"
    using Cons.prems(3,4) by (intro disks_ok_insert [OF Cons.prems(2) _ _ f(2)]) (auto simp: fresh_runtime_def)
  have rest: "\<forall>x\<in>set es. disk_entry_ok (fs(dc_path e \<mapsto> f)) x \<and> length (dc_path x) \<le> 192"
  proof
    fix x assume x: "x \<in> set es"
    then have "dc_path x \<noteq> dc_path e" using Cons.prems(4) by (force simp: image_iff)
    then show "disk_entry_ok (fs(dc_path e \<mapsto> f)) x \<and> length (dc_path x) \<le> 192"
      using x Cons.prems(5) by (auto simp: disk_entry_ok_def host_file_def)
  qed
  show ?case
  proof (rule Cons.IH [OF _ step _ _ rest])
    fix disks' fs'
    assume "open_disks crc node True es (bm_insert (dc_id e) (fresh_runtime e (h, s)) disks) (fs(dc_path e \<mapsto> f)) = (ok disks', fs')"
      and "disks_ok crc node ((prev @ [e]) @ es) disks' fs'" and "\<And>p. p \<notin> set (map dc_path es) \<Longrightarrow> fs' p = (fs(dc_path e \<mapsto> f)) p"
    then show thesis using Cons.prems(1) [of disks' fs'] f(1) by simp
  qed (use Cons.prems(3,4) in simp_all)
qed

text \<open>Opening them again, with fresh states.\<close>

definition reset :: "disk_runtime \<Rightarrow> disk_runtime" where
  "reset rt = rt\<lparr>dr_state := Online, dr_used_bytes := 0\<rparr>"

lemma reset_fresh: "fresh_runtime (dr_config rt) (dr_device rt, dr_superblock rt) = reset rt"
  by (cases rt) (simp add: fresh_runtime_def reset_def)

lemma reopen_disks:
  assumes "\<forall>e\<in>set es. \<exists>rt. g (dc_id e) = Some rt \<and> dr_config rt = e \<and> disk_intact crc node fs rt" and "bm_wf m"
  obtains m' where "open_disks crc node False es m fs = (ok m', fs)" and "bm_wf m'"
    and "\<And>i. bm_get m' i = (if i \<in> set (map dc_id es) then map_option reset (g i) else bm_get m i)"
  using assms
proof (induction es arbitrary: m thesis)
  case Nil
  then show ?case by simp
next
  case (Cons e es)
  then obtain rt where rt: "g (dc_id e) = Some rt" "dr_config rt = e" "disk_intact crc node fs rt" by auto
  have o: "open_or_format_disk crc e node False fs = (ok (dr_device rt, dr_superblock rt), fs)"
    using reopen_disk [OF rt(3)] rt(2) by simp
  let ?m = "bm_insert (dc_id e) (reset rt) m"
  obtain m' where m': "open_disks crc node False es ?m fs = (ok m', fs)" "bm_wf m'"
      "\<And>i. bm_get m' i = (if i \<in> set (map dc_id es) then map_option reset (g i) else bm_get ?m i)"
    using Cons.IH [of ?m] Cons.prems(2,3) bm_wf_insert by (metis list.set_intros(2))
  have "open_disks crc node False (e # es) m fs = (ok m', fs)"
    using o m'(1) reset_fresh [of rt] rt(2) by simp
  then show ?case
    using Cons.prems(1) [of m'] m' rt(1) Cons.prems(3) by (auto simp: bm_get_insert)
qed

text \<open>The state root gives each opened disk its state back.\<close>

lemma apply_descriptors_restore:
  assumes "distinct (map (dc_id \<circ> dr_config) rts)" and "\<forall>rt\<in>set rts. bm_get m (dc_id (dr_config rt)) = Some (reset rt)" and "bm_wf m"
  obtains m' where "apply_descriptors (map runtime_descriptor rts) m = ok m'" and "bm_wf m'"
    and "\<And>rt. rt \<in> set rts \<Longrightarrow> bm_get m' (dc_id (dr_config rt)) = Some rt"
    and "\<And>i. i \<notin> (dc_id \<circ> dr_config) ` set rts \<Longrightarrow> bm_get m' i = bm_get m i"
  using assms
proof (induction rts arbitrary: m thesis)
  case Nil
  show ?case by (rule Nil.prems(1) [of m]) (use Nil.prems(4) in simp_all)
next
  case (Cons rt rts)
  let ?i = "dc_id (dr_config rt)" and ?m = "bm_insert (dc_id (dr_config rt)) rt m"
  have d: "dd_disk_id (runtime_descriptor rt) = ?i" "state_typed (runtime_descriptor rt) = ok (dr_state rt)"
      "dd_used_bytes (runtime_descriptor rt) = dr_used_bytes rt"
    by (simp_all add: runtime_descriptor_def Let_def state_typed_def disk_state_roundtrip)
  have restored: "(reset rt)\<lparr>dr_state := dr_state rt, dr_used_bytes := dr_used_bytes rt\<rparr> = rt"
    by (cases rt) (simp add: reset_def)
  have g: "bm_get m ?i = Some (reset rt)" using Cons.prems(3) by simp
  have ids: "?i \<notin> (dc_id \<circ> dr_config) ` set rts" using Cons.prems(2) by simp
  have pre: "\<forall>r\<in>set rts. bm_get ?m (dc_id (dr_config r)) = Some (reset r)"
  proof
    fix r assume r: "r \<in> set rts"
    then have "?i \<noteq> dc_id (dr_config r)" using ids imageI [of r "set rts" "dc_id \<circ> dr_config"] by auto
    then show "bm_get ?m (dc_id (dr_config r)) = Some (reset r)" using r Cons.prems(3,4) by (simp add: bm_get_insert)
  qed
  show ?case
  proof (rule Cons.IH [OF _ _ pre bm_wf_insert [OF Cons.prems(4)]])
    fix m' assume m': "apply_descriptors (map runtime_descriptor rts) ?m = ok m'" "bm_wf m'"
      "\<And>r. r \<in> set rts \<Longrightarrow> bm_get m' (dc_id (dr_config r)) = Some r"
      "\<And>i. i \<notin> (dc_id \<circ> dr_config) ` set rts \<Longrightarrow> bm_get m' i = bm_get ?m i"
    have "bm_get m' ?i = Some rt" using m'(4) [OF ids] Cons.prems(4) by (simp add: bm_get_insert)
    then show thesis
      using Cons.prems(1) [of m'] Cons.prems(4) m' d restored g by (auto simp: bm_get_insert)
  qed (use Cons.prems(2) in simp)
qed

lemma primary_in: "pc_disks cfg \<noteq> [] \<Longrightarrow> \<exists>e\<in>set (pc_disks cfg). primary cfg = Some e"
proof -
  have "fold (\<lambda>x m. if dc_id x < dc_id m then x else m) ds d \<in> insert d (set ds)" for d and ds :: "disk_config_entry list"
    by (induction ds arbitrary: d) auto
  then show "pc_disks cfg \<noteq> [] \<Longrightarrow> ?thesis" by (cases "pc_disks cfg") (auto simp: primary_def)
qed

definition pool_inv :: "(byte list \<Rightarrow> u32) \<Rightarrow> pool_manager \<Rightarrow> host \<Rightarrow> bool" where
  "pool_inv crc pm fs \<longleftrightarrow> pc_node_id (pm_config pm) < 2 ^ 16 \<and> pc_disks (pm_config pm) \<noteq> [] \<and>
     length (pc_disks (pm_config pm)) \<le> 12 \<and>
     disks_ok crc (pc_node_id (pm_config pm)) (pc_disks (pm_config pm)) (pm_disks pm) fs"

definition root_written :: "(byte list \<Rightarrow> u32) \<Rightarrow> pool_manager \<Rightarrow> host \<Rightarrow> bool" where
  "root_written crc pm fs \<longleftrightarrow> (\<exists>e. primary (pm_config pm) = Some e \<and>
     bslice 16384 4096 (host_file fs (dc_path e)) = page_image crc psr_fmt (state_root (map snd (pm_disks pm))))"

lemma write_root:
  assumes "crc_ok crc" and "pool_inv crc pm fs"
  obtains fs' where "write_pool_state_root crc pm fs = (ok (), fs')" and "pool_inv crc pm fs'" and "root_written crc pm fs'"
    and "\<And>p. p \<notin> set (map dc_path (pc_disks (pm_config pm))) \<Longrightarrow> fs' p = fs p"
proof -
  let ?node = "pc_node_id (pm_config pm)" and ?es = "pc_disks (pm_config pm)"
  have ok: "disks_ok crc ?node ?es (pm_disks pm) fs" "?es \<noteq> []" "length (pm_disks pm) \<le> 12"
    using assms(2) disks_ok_keys(2) by (auto simp: pool_inv_def)
  obtain e where e: "e \<in> set ?es" "primary (pm_config pm) = Some e" using primary_in [OF ok(2)] by blast
  obtain rt where rt: "bm_get (pm_disks pm) (dc_id e) = Some rt" "dr_config rt = e" using disks_ok_get(2) [OF ok(1) e(1)] by blast
  have int: "disk_intact crc ?node fs rt" using ok(1) rt(1) by (simp add: disks_ok_def)
  have runtimes: "list_all runtime_ok (map snd (pm_disks pm))" by (rule disks_ok_runtimes [OF ok(1)])
  have psr: "psr_ok (state_root (map snd (pm_disks pm)))" using state_root_ok(1) [OF runtimes] ok(3) by simp
  obtain dev q where w: "psr_write file_block_device crc (device_on fs (dr_device rt)) 16384 (state_root (map snd (pm_disks pm))) = ok (q, dev)"
      "file_sync dev = ok dev" "bslice 16384 4096 (fd_file dev) = page_image crc psr_fmt (state_root (map snd (pm_disks pm)))"
      "disk_intact crc ?node (fs(dc_path e \<mapsto> fd_file dev)) rt"
    using write_root_disk [OF assms(1) int psr] rt(2) by metis
  let ?fs = "fs(dc_path e \<mapsto> fd_file dev)"
  have path: "pd_path (dr_device rt) = dc_path e" using int rt(2) by (simp add: disk_intact_def Let_def)
  have "write_pool_state_root crc pm fs = (ok (), ?fs)"
    using write_root_eq [OF runtimes ok(3) e(2) rt(1), of crc fs] w(1,2) path by simp
  moreover have "disk_intact crc ?node ?fs r" if r: "bm_get (pm_disks pm) i = Some r" for i r
  proof (cases "dc_path e = dc_path (dr_config r)")
    case True
    have "dr_config r = e"
      using True e(1) disks_ok_get(1) [OF ok(1) r] ok(1) by (auto simp: disks_ok_def distinct_map inj_on_def)
    then have "r = rt" using r rt disks_ok_get(1) [OF ok(1) r] by simp
    then show ?thesis using w(4) by simp
  next
    case False
    then show ?thesis using r ok(1) by (simp add: disk_intact_other disks_ok_def)
  qed
  then have "pool_inv crc pm ?fs" using assms(2) by (auto simp: pool_inv_def disks_ok_def)
  moreover have "root_written crc pm ?fs" using e(2) w(3) by (simp add: root_written_def host_file_def)
  moreover have "?fs p = fs p" if "p \<notin> set (map dc_path ?es)" for p using that e(1) by auto
  ultimately show ?thesis using that by blast
qed

section \<open>Reachable pools\<close>

definition entry_fits :: "host \<Rightarrow> disk_config_entry \<Rightarrow> bool" where
  "entry_fits fs e \<longleftrightarrow> disk_entry_ok fs e \<and> length (dc_path e) \<le> 192"

inductive pool_reach :: "(byte list \<Rightarrow> u32) \<Rightarrow> pool_manager \<Rightarrow> host \<Rightarrow> bool" for crc where
  reach_create: "\<lbrakk>pc_node_id cfg < 2 ^ 16; \<forall>e\<in>set (pc_disks cfg). entry_fits fs e; distinct (map dc_path (pc_disks cfg));
     pool_create crc cfg fs = (ok pm, fs')\<rbrakk> \<Longrightarrow> pool_reach crc pm fs'"
| reach_add: "\<lbrakk>pool_reach crc pm fs; entry_fits fs e; dc_path e \<notin> set (map dc_path (pc_disks (pm_config pm)));
     add_disk crc e pm fs = (ok i, pm', fs')\<rbrakk> \<Longrightarrow> pool_reach crc pm' fs'"
| reach_remove: "\<lbrakk>pool_reach crc pm fs; remove_disk crc i pm fs = (ok (), pm', fs')\<rbrakk> \<Longrightarrow> pool_reach crc pm' fs'"
| reach_commit: "\<lbrakk>pool_reach crc pm fs; pool_commit crc pm fs = (ok (), fs')\<rbrakk> \<Longrightarrow> pool_reach crc pm fs'"
| reach_rule: "pool_reach crc pm fs \<Longrightarrow> pool_reach crc (add_placement_rule rule pm) fs"
| reach_open: "\<lbrakk>pool_reach crc pm fs; pool_open crc (pm_config pm) fs = (ok pm', fs')\<rbrakk> \<Longrightarrow> pool_reach crc pm' fs'"

lemma first_duplicate_None: "first_duplicate seen is = None \<longleftrightarrow> distinct is \<and> set is \<inter> seen = {}"
  by (induction "is" arbitrary: seen) auto

lemma pool_inv_cong:
  assumes "pm_config pm' = pm_config pm" and "pm_disks pm' = pm_disks pm"
  shows "pool_inv crc pm' fs = pool_inv crc pm fs" and "root_written crc pm' fs = root_written crc pm fs"
  using assms by (simp_all add: pool_inv_def root_written_def)

lemma created_pool:
  assumes "crc_ok crc" and "pc_node_id cfg < 2 ^ 16" and "\<forall>e\<in>set (pc_disks cfg). entry_fits fs e" and "distinct (map dc_path (pc_disks cfg))"
    and "pc_disks cfg \<noteq> []" and "length (pc_disks cfg) \<le> 12" and "distinct (map dc_id (pc_disks cfg))"
  obtains pm fs' where "pool_create crc cfg fs = (ok pm, fs')" and "pm_config pm = cfg" and "pool_inv crc pm fs'" and "root_written crc pm fs'"
    and "\<And>p. p \<notin> set (map dc_path (pc_disks cfg)) \<Longrightarrow> fs' p = fs p"
proof -
  have "disks_ok crc (pc_node_id cfg) [] [] fs" by (simp add: disks_ok_def)
  then obtain disks fs1 where o: "open_disks crc (pc_node_id cfg) True (pc_disks cfg) [] fs = (ok disks, fs1)"
      "disks_ok crc (pc_node_id cfg) ([] @ pc_disks cfg) disks fs1" "\<And>p. p \<notin> set (map dc_path (pc_disks cfg)) \<Longrightarrow> fs1 p = fs p"
    by (rule format_disks [OF assms(1,2)]) (use assms(3,4,7) in \<open>auto simp: entry_fits_def\<close>)
  let ?mgr = "\<lparr>pm_config = cfg, pm_disks = disks, pm_placement_rules = []\<rparr>"
  have "pool_inv crc ?mgr fs1" using assms(2,5,6) o(2) by (simp add: pool_inv_def)
  then obtain fs2 where w: "write_pool_state_root crc ?mgr fs1 = (ok (), fs2)" "pool_inv crc ?mgr fs2" "root_written crc ?mgr fs2"
      "\<And>p. p \<notin> set (map dc_path (pc_disks (pm_config ?mgr))) \<Longrightarrow> fs2 p = fs1 p"
    by (rule write_root [OF assms(1)]) (rule that)
  have "first_duplicate {} (map dc_id (pc_disks cfg)) = None" using assms(7) by (simp add: first_duplicate_None)
  then have "pool_create crc cfg fs = (ok ?mgr, fs2)" using assms(5,6) o(1) w(1) by (simp add: pool_create_def Let_def)
  then show ?thesis using that [of ?mgr fs2] w(2-4) o(3) by simp
qed

lemma create_inv:
  assumes "crc_ok crc" and "pc_node_id cfg < 2 ^ 16" and "\<forall>e\<in>set (pc_disks cfg). entry_fits fs e" and "distinct (map dc_path (pc_disks cfg))"
    and "pool_create crc cfg fs = (ok pm, fs')"
  shows "pool_inv crc pm fs' \<and> root_written crc pm fs'"
proof -
  have "pc_disks cfg \<noteq> []" "length (pc_disks cfg) \<le> 12" "distinct (map dc_id (pc_disks cfg))"
    using assms(5) by (auto simp: pool_create_def first_duplicate_None split: if_splits option.splits)
  with assms(1-4) show ?thesis
    by (rule created_pool) (use assms(5) in simp)
qed

definition pool_with :: "pool_manager \<Rightarrow> disk_runtime \<Rightarrow> pool_manager" where
  "pool_with pm rt = pm\<lparr>pm_config := (pm_config pm)\<lparr>pc_disks := pc_disks (pm_config pm) @ [dr_config rt]\<rparr>,
     pm_disks := bm_insert (dc_id (dr_config rt)) rt (pm_disks pm)\<rparr>"

lemma add_disk_eq:
  assumes "bm_get (pm_disks pm) (dc_id e) = None" and "length (pm_disks pm) < 12"
    and "open_or_format_disk crc e (pc_node_id (pm_config pm)) True fs = (ok opened, fs1)"
    and "write_pool_state_root crc (pool_with pm (fresh_runtime e opened)) fs1 = (r, fs2)"
  shows "add_disk crc e pm fs = (rbind r (\<lambda>_. ok (dc_id e)), pool_with pm (fresh_runtime e opened), fs2)"
  using assms by (cases opened, cases r) (simp_all add: add_disk_def pool_with_def fresh_runtime_def Let_def)

lemma add_inv:
  assumes "crc_ok crc" and "pool_inv crc pm fs" and "entry_fits fs e" and "dc_path e \<notin> set (map dc_path (pc_disks (pm_config pm)))"
    and new: "bm_get (pm_disks pm) (dc_id e) = None" "length (pm_disks pm) < 12"
  obtains pm' fs' where "add_disk crc e pm fs = (ok (dc_id e), pm', fs')" and "pool_inv crc pm' fs'" and "root_written crc pm' fs'"
proof -
  let ?node = "pc_node_id (pm_config pm)" and ?es = "pc_disks (pm_config pm)"
  have ok: "disks_ok crc ?node ?es (pm_disks pm) fs" "?node < 2 ^ 16" using assms(2) by (simp_all add: pool_inv_def)
  have e: "disk_entry_ok fs e" "length (dc_path e) \<le> 192" using assms(3) by (simp_all add: entry_fits_def)
  obtain f h s where f: "open_or_format_disk crc e ?node True fs = (ok (h, s), fs(dc_path e \<mapsto> f))"
      "disk_intact crc ?node (fs(dc_path e \<mapsto> f)) (fresh_runtime e (h, s))"
    using format_disk [OF assms(1) ok(2) e(1)] e(2) by metis
  let ?pm = "pool_with pm (fresh_runtime e (h, s))"
  have cfg: "dr_config (fresh_runtime e (h, s)) = e" by (simp add: fresh_runtime_def)
  have "dc_id e \<notin> set (map dc_id ?es)" using new(1) by (auto dest!: disks_ok_get(2) [OF ok(1)])
  then have "disks_ok crc ?node (?es @ [e]) (pm_disks ?pm) (fs(dc_path e \<mapsto> f))"
    using disks_ok_insert [OF ok(1) _ assms(4) f(2)] cfg by (simp add: pool_with_def)
  then have "pool_inv crc ?pm (fs(dc_path e \<mapsto> f))"
    using assms(2) new(2) disks_ok_keys(2) [OF ok(1)] cfg by (simp add: pool_inv_def pool_with_def)
  then obtain fs2 where w: "write_pool_state_root crc ?pm (fs(dc_path e \<mapsto> f)) = (ok (), fs2)" "pool_inv crc ?pm fs2" "root_written crc ?pm fs2"
    by (rule write_root [OF assms(1)]) blast
  from add_disk_eq [OF new f(1) w(1)] that w(2,3) show ?thesis by simp
qed

lemma remove_inv:
  assumes "crc_ok crc" and "pool_inv crc pm fs" and "bm_get (pm_disks pm) i = Some rt"
  obtains fs' pm' where "remove_disk crc i pm fs = (ok (), pm', fs')" and "pool_inv crc pm' fs'" and "root_written crc pm' fs'"
proof -
  let ?pm = "pm\<lparr>pm_disks := bm_insert i (rt\<lparr>dr_state := Draining\<rparr>) (pm_disks pm)\<rparr>"
  have ok: "disks_ok crc (pc_node_id (pm_config pm)) (pc_disks (pm_config pm)) (pm_disks pm) fs"
    using assms(2) by (simp add: pool_inv_def)
  have wf: "bm_wf (pm_disks pm)" using ok by (simp add: disks_ok_def)
  have "disk_intact crc node fs (rt\<lparr>dr_state := Draining\<rparr>) = disk_intact crc node fs rt" for node
    by (simp add: disk_intact_def runtime_ok_def Let_def)
  moreover have "List.find (\<lambda>e. dc_id e = i) (pc_disks (pm_config pm)) = Some (dr_config rt)"
    using ok assms(3) by (metis disks_ok_def option.map(2))
  ultimately have "pool_inv crc ?pm fs"
    using assms(2,3) wf by (auto simp: pool_inv_def disks_ok_def bm_wf_insert bm_get_insert)
  then obtain fs' where "write_pool_state_root crc ?pm fs = (ok (), fs')" "pool_inv crc ?pm fs'" "root_written crc ?pm fs'"
    by (rule write_root [OF assms(1)]) blast
  then show ?thesis using that [of ?pm fs'] assms(3) by (simp add: remove_disk_def Let_def)
qed

lemma inline_iter_state_root: "length rts \<le> 12 \<Longrightarrow> inline_iter (psr_recompute_crc crc (state_root rts)) = map runtime_descriptor rts"
  by (simp add: inline_iter_def inline_disk_count_def psr_recompute_crc_def page_recompute_crc_def psr_fmt_def state_root_def
      psr_new_blank_def)

lemma reopen_pool:
  assumes "crc_ok crc" and "pool_inv crc pm fs" and "root_written crc pm fs"
  shows "pool_open crc (pm_config pm) fs = (ok (pm\<lparr>pm_placement_rules := []\<rparr>), fs)"
proof -
  let ?node = "pc_node_id (pm_config pm)" and ?es = "pc_disks (pm_config pm)" and ?rts = "map snd (pm_disks pm)"
  have ok: "disks_ok crc ?node ?es (pm_disks pm) fs" "?es \<noteq> []" "length (pm_disks pm) \<le> 12"
    using assms(2) disks_ok_keys(2) by (auto simp: pool_inv_def)
  have wf: "bm_wf (pm_disks pm)" using ok(1) by (simp add: disks_ok_def)
  have "\<forall>e\<in>set ?es. \<exists>rt. bm_get (pm_disks pm) (dc_id e) = Some rt \<and> dr_config rt = e \<and> disk_intact crc ?node fs rt"
    using disks_ok_get(2) [OF ok(1)] ok(1) by (fastforce simp: disks_ok_def)
  from reopen_disks [OF this, of "[]"] obtain m where m: "open_disks crc ?node False ?es [] fs = (ok m, fs)" "bm_wf m"
      "\<And>i. bm_get m i = (if i \<in> set (map dc_id ?es) then map_option reset (bm_get (pm_disks pm) i) else bm_get [] i)"
    by auto
  have mget: "bm_get m i = map_option reset (bm_get (pm_disks pm) i)" for i
  proof (cases "bm_get (pm_disks pm) i")
    case None
    then show ?thesis using m(3) [of i] by simp
  next
    case (Some rt)
    then have "i \<in> set (map dc_id ?es)" using disks_ok_get(1) [OF ok(1) Some] by auto
    then show ?thesis using m(3) [of i] by simp
  qed
  obtain e where e: "primary (pm_config pm) = Some e"
      "bslice 16384 4096 (host_file fs (dc_path e)) = page_image crc psr_fmt (state_root ?rts)"
    using assms(3) by (auto simp: root_written_def)
  have "e \<in> set ?es" using primary_in [OF ok(2)] e(1) by auto
  then obtain rt where rt: "bm_get (pm_disks pm) (dc_id e) = Some rt" "dr_config rt = e" using disks_ok_get(2) [OF ok(1)] by blast
  have int: "disk_intact crc ?node fs rt" using ok(1) rt(1) by (simp add: disks_ok_def)
  note d = disk_intact_device [OF int]
  have root: "psr_ok (state_root ?rts)" "pf_validate psr_fmt (state_root ?rts) = ok ()"
    using state_root_ok [OF disks_ok_runtimes [OF ok(1)]] ok(3) by (simp_all add: psr_fmt_def)
  have "fd_file (device_on fs (dr_device rt)) = host_file fs (dc_path e)"
    using int rt(2) by (simp add: device_on_def disk_intact_def Let_def)
  then have rd: "psr_read file_block_device crc (device_on fs (dr_device rt)) 16384 = ok (psr_recompute_crc crc (state_root ?rts))"
    unfolding psr_read_def psr_recompute_crc_def
    using fdev.page_read_back [OF psr_page.page_format_axioms d(1) root assms(1), of 16384] d(4) e(2) by simp
  have cfg: "(i, r) \<in> set (pm_disks pm) \<Longrightarrow> dc_id (dr_config r) = i" for i r
    using disks_ok_get(1) [OF ok(1)] by (simp add: bm_get_mem [OF wf])
  then have eq: "map (dc_id \<circ> dr_config) ?rts = map fst (pm_disks pm)" by auto
  have "distinct (map (dc_id \<circ> dr_config) ?rts)" unfolding eq by (rule bm_wf_distinct [OF wf])
  moreover have "\<forall>r\<in>set ?rts. bm_get m (dc_id (dr_config r)) = Some (reset r)"
    using cfg by (force simp: mget bm_get_mem [OF wf, symmetric])
  ultimately obtain m' where m': "apply_descriptors (map runtime_descriptor ?rts) m = ok m'" "bm_wf m'"
      "\<And>r. r \<in> set ?rts \<Longrightarrow> bm_get m' (dc_id (dr_config r)) = Some r"
      "\<And>i. i \<notin> (dc_id \<circ> dr_config) ` set ?rts \<Longrightarrow> bm_get m' i = bm_get m i"
    using apply_descriptors_restore [OF _ _ m(2)] by blast
  have "bm_get m' i = bm_get (pm_disks pm) i" for i
  proof (cases "bm_get (pm_disks pm) i")
    case None
    then have "i \<notin> (dc_id \<circ> dr_config) ` set ?rts" using cfg bm_get_mem [OF wf, of i] by auto
    then show ?thesis using m'(4) mget None by simp
  next
    case (Some r)
    then have "(i, r) \<in> set (pm_disks pm)" by (simp add: bm_get_mem [OF wf])
    then show ?thesis using m'(3) [of r] cfg [of i r] Some by (force simp: image_iff)
  qed
  then have "m' = pm_disks pm" by (intro bm_wf_ext [OF m'(2) wf] ext)
  then show ?thesis
    using m(1) e(1) mget [of "dc_id e"] rt(1) rd m'(1) ok(2,3)
    by (simp add: pool_open_def apply_pool_state_root_def inline_iter_state_root reset_def)
qed

lemma pool_reach_inv: "pool_reach crc pm fs \<Longrightarrow> crc_ok crc \<Longrightarrow> pool_inv crc pm fs \<and> root_written crc pm fs"
proof (induction rule: pool_reach.induct)
  case (reach_create cfg fs pm fs')
  then show ?case using create_inv by blast
next
  case (reach_add pm fs e i pm' fs')
  have new: "bm_get (pm_disks pm) (dc_id e) = None" "length (pm_disks pm) < 12"
    using reach_add.hyps(4) by (auto simp: add_disk_def split: if_splits)
  have inv: "pool_inv crc pm fs" using reach_add by blast
  show ?case
    by (rule add_inv [OF reach_add.prems inv reach_add.hyps(2,3) new]) (use reach_add.hyps(4) in simp)
next
  case (reach_remove pm fs i pm' fs')
  then obtain rt where "bm_get (pm_disks pm) i = Some rt"
    by (auto simp: remove_disk_def split: option.splits)
  with reach_remove show ?case using remove_inv [of crc pm fs i rt] by (metis prod.inject)
next
  case (reach_commit pm fs fs')
  then show ?case using write_root [of crc pm fs] by (metis pool_commit_def prod.inject)
next
  case (reach_rule pm fs rule)
  then show ?case using pool_inv_cong [of "add_placement_rule rule pm" pm] by (simp add: add_placement_rule_def)
next
  case (reach_open pm fs pm' fs')
  then have "pm' = pm\<lparr>pm_placement_rules := []\<rparr> \<and> fs' = fs" using reopen_pool by simp
  then show ?case using reach_open pool_inv_cong [of pm' pm] by simp
qed

section \<open>A path that is too long\<close>

lemma write_root_long:
  assumes "pc_disks (pm_config pm) \<noteq> []" and "rt \<in> snd ` set (pm_disks pm)" and "length (dc_path (dr_config rt)) = n" and "192 < n"
    and "\<forall>r\<in>snd ` set (pm_disks pm). 192 < length (dc_path (dr_config r)) \<longrightarrow> length (dc_path (dr_config r)) = n"
  shows "write_pool_state_root crc pm fs = (err (DiskPathTooLong n 192), fs)"
proof -
  let ?rts = "map snd (pm_disks pm)" and ?long = "\<lambda>rt. 192 < length (dc_path (dr_config rt))"
  have ex: "\<exists>r\<in>set ?rts. ?long r" using assms(2-4) by auto
  then obtain r where r: "List.find ?long ?rts = Some r" by (metis find_None_iff option.exhaust)
  then have "r \<in> snd ` set (pm_disks pm)" "?long r" by (auto simp: find_Some_iff)
  then have "length (dc_path (dr_config r)) = n" using assms(5) by blast
  then have "wire_descriptors ?rts = err (DiskPathTooLong n 192)"
    unfolding wire_descriptors_iff using ex r by simp
  then show ?thesis using primary_in [OF assms(1)] by (auto simp: write_pool_state_root_def)
qed

lemma long_path_blocks:
  assumes ok: "disks_ok crc node es (pm_disks pm) fs" and long: "192 < length (dc_path e)" and cfg: "dr_config rt = e"
    and q: "pm_config q = pm_config (pool_with pm rt)" "bm_wf (pm_disks q)"
      "\<And>i. map_option dr_config (bm_get (pm_disks q) i) = map_option dr_config (bm_get (pm_disks (pool_with pm rt)) i)"
  shows "write_pool_state_root crc q fs'' = (err (DiskPathTooLong (length (dc_path e)) 192), fs'')"
proof -
  let ?n = "length (dc_path e)"
  have wf: "bm_wf (pm_disks pm)" using ok by (simp add: disks_ok_def)
  have get: "bm_get (pm_disks (pool_with pm rt)) = (bm_get (pm_disks pm))(dc_id e \<mapsto> rt)"
    by (simp add: pool_with_def bm_get_insert wf cfg)
  have short: "length (dc_path (dr_config r)) \<le> 192" if "bm_get (pm_disks pm) i = Some r" for i r
    using that disks_ok_runtimes [OF ok] by (force simp: list_all_iff runtime_ok_def bm_get_mem [OF wf, symmetric])
  obtain r where r: "bm_get (pm_disks q) (dc_id e) = Some r" "dr_config r = e" using q(3) [of "dc_id e"] get cfg by auto
  have "length (dc_path (dr_config t)) = ?n" if t: "bm_get (pm_disks q) i = Some t" "192 < length (dc_path (dr_config t))" for i t
  proof (cases "i = dc_id e")
    case True
    then show ?thesis using t r by simp
  next
    case False
    then obtain t' where "bm_get (pm_disks pm) i = Some t'" "dr_config t' = dr_config t" using q(3) [of i] get t(1) by (cases "bm_get (pm_disks pm) i") auto
    then show ?thesis using short t(2) by fastforce
  qed
  then have others: "\<forall>t\<in>snd ` set (pm_disks q). 192 < length (dc_path (dr_config t)) \<longrightarrow> length (dc_path (dr_config t)) = ?n"
    using bm_get_mem [OF q(2)] by auto
  have "(dc_id e, r) \<in> set (pm_disks q)" using r(1) bm_get_mem [OF q(2)] by blast
  then have mem: "r \<in> snd ` set (pm_disks q)" by (rule rev_image_eqI) simp
  have "pc_disks (pm_config q) \<noteq> []" using q(1) by (simp add: pool_with_def)
  then show ?thesis by (rule write_root_long [OF _ mem _ long others]) (simp add: r(2))
qed

section \<open>The choice of a disk\<close>

definition candidate :: "storage_tier \<Rightarrow> disk_runtime \<Rightarrow> bool" where
  "candidate tier rt \<longleftrightarrow> dr_state rt = Online \<and> dc_tier (dr_config rt) = tier"

lemma pick_loop_none:
  "pick_loop tier disks best = None \<longleftrightarrow> best = None \<and> (\<forall>(i, rt)\<in>set disks. \<not> candidate tier rt)"
  by (induction tier disks best rule: pick_loop.induct) (auto simp: candidate_def split: option.splits)

lemma pick_loop_member:
  "pick_loop tier disks best = Some (i, f) \<Longrightarrow>
     best = Some (i, f) \<or> (\<exists>rt. (i, rt) \<in> set disks \<and> candidate tier rt \<and> f = free_bytes rt)"
  by (induction tier disks best rule: pick_loop.induct) (auto simp: candidate_def split: option.splits if_splits)

lemma pick_loop_max:
  "pick_loop tier disks best = Some (i, f) \<Longrightarrow>
     (\<forall>(j, r)\<in>set disks. candidate tier r \<longrightarrow> free_bytes r \<le> f) \<and> (\<forall>p. best = Some p \<longrightarrow> snd p \<le> f)"
proof (induction tier disks best rule: pick_loop.induct)
  case (2 tier j rt disks best)
  then show ?case by (cases best) (fastforce simp: candidate_def split: if_splits)+
qed auto

lemma pick_loop_first:
  "pick_loop tier disks best = Some (i, f) \<Longrightarrow> bm_wf disks \<Longrightarrow>
     (\<forall>(j, r)\<in>set disks. candidate tier r \<and> free_bytes r = f \<longrightarrow> best = Some (i, f) \<or> i \<le> j) \<and>
     (\<forall>p. best = Some p \<and> snd p = f \<longrightarrow> best = Some (i, f))"
proof (induction tier disks best rule: pick_loop.induct)
  case (2 tier j rt disks best)
  have wf: "bm_wf disks" and gt: "\<forall>(k, r)\<in>set disks. j < k" using 2(5) by (auto simp: bm_wf_Cons)
  show ?case
  proof (cases "candidate tier rt")
    case True
    let ?b = "case best of Some (k, best_free) \<Rightarrow> if free_bytes rt \<le> best_free then best else Some (j, free_bytes rt)
      | None \<Rightarrow> Some (j, free_bytes rt)"
    have p: "pick_loop tier disks ?b = Some (i, f)" using 2(4) True by (simp add: candidate_def)
    then have ih: "(\<forall>(k, r)\<in>set disks. candidate tier r \<and> free_bytes r = f \<longrightarrow> ?b = Some (i, f) \<or> i \<le> k) \<and>
        (\<forall>q. ?b = Some q \<and> snd q = f \<longrightarrow> ?b = Some (i, f))"
      using 2(3) True wf by (simp add: candidate_def)
    note mx = pick_loop_max [OF p]
    consider "best = None" | k g where "best = Some (k, g)" "free_bytes rt \<le> g" | k g where "best = Some (k, g)" "g < free_bytes rt"
      by (cases best) fastforce+
    then show ?thesis
    proof cases
      case 1
      then show ?thesis using ih gt by fastforce
    next
      case (2 k g)
      then show ?thesis using ih mx by auto
    next
      case (3 k g)
      then show ?thesis using ih mx gt by fastforce
    qed
  next
    case False
    then show ?thesis using 2(1,2,4) wf by (auto simp: candidate_def split: if_splits)
  qed
qed auto

section \<open>The regions\<close>

text \<open>Placement rules and overflow descriptors that fit their region are read back; the descriptors come in the order of
  their disks.\<close>

lemma placement_rules_region_roundtrip:
  assumes "env_ok env" and "kmerge_ok kmerge" and "file_device_inv d" and "fd_writable d"
    and "offset + 2 ^ 18 \<le> fd_capacity d" and "entries_fit env [(0, rules)]"
  obtains d' where "flush_placement_rules_to_region file_block_device env rules d offset = ok d'"
    and "load_placement_rules_from_region file_block_device env kmerge d' offset = ok rules"
proof -
  have "bm_wf [(0 :: nat, rules)]" by (simp add: bm_wf_def)
  from one_run_roundtrip [OF assms this, of PlacementRules] obtain node' d' r probe where
    w: "write_full file_block_device env d offset (one_run_node PlacementRules [(0, rules)]) = ok (node', d')"
      "read_at file_block_device d' offset 8 = ok probe" "\<not> list_all (\<lambda>b. b = 0) probe"
      "region_read file_block_device env d' offset PlacementRules = ok r" "merge_iter kmerge r = [(0, rules)]" .
  have "(placement_rules_to_loaded_node rules :: (pool_error, _) res) = ok (one_run_node PlacementRules [(0, rules)])"
    by (simp add: placement_rules_to_loaded_node_def one_run_node_def run_from_sorted_def Let_def)
  then show ?thesis
    using that [of d'] w
    by (simp add: flush_placement_rules_to_region_def load_placement_rules_from_region_def placement_rules_from_loaded_node_def)
qed

lemma sort_key_pairs: "sort_key fst (map (\<lambda>x. (f x, x)) xs) = map (\<lambda>x. (f x, x)) (sort_key f xs)"
proof -
  have "insort_key fst (f x, x) (map (\<lambda>x. (f x, x)) ys) = map (\<lambda>x. (f x, x)) (insort_key f x ys)" for x ys
    by (induction ys) auto
  then show ?thesis by (induction xs) simp_all
qed

lemma disks_overflow_region_roundtrip:
  assumes "env_ok env" and "kmerge_ok kmerge" and "file_device_inv d" and "fd_writable d"
    and "offset + 2 ^ 18 \<le> fd_capacity d" and "distinct (map dd_disk_id overflow)"
    and "entries_fit env (sort_key fst (map (\<lambda>d. (dd_disk_id d, d)) overflow))"
  obtains d' where "flush_disks_overflow_to_region file_block_device env overflow d offset = ok d'"
    and "load_disks_overflow_from_region file_block_device env kmerge d' offset = ok (sort_key dd_disk_id overflow)"
proof -
  let ?es = "sort_key fst (map (\<lambda>d. (dd_disk_id d, d)) overflow)"
  have es: "?es = map (\<lambda>d. (dd_disk_id d, d)) (sort_key dd_disk_id overflow)" by (rule sort_key_pairs)
  have wf: "bm_wf ?es"
    unfolding es using assms(6) by (simp add: bm_wf_def comp_def strict_sorted_iff distinct_map)
  obtain node' d' r probe where
    w: "write_full file_block_device env d offset (one_run_node DiskDescriptors ?es) = ok (node', d')"
      "read_at file_block_device d' offset 8 = ok probe" "\<not> list_all (\<lambda>b. b = 0) probe"
      "region_read file_block_device env d' offset DiskDescriptors = ok r" "merge_iter kmerge r = ?es"
    by (rule one_run_roundtrip [OF assms(1-5,7) wf])
  have "(disks_overflow_to_loaded_node overflow :: (pool_error, _) res) = ok (one_run_node DiskDescriptors ?es)"
    unfolding disks_overflow_to_loaded_node_def one_run_node_def Let_def by (simp add: run_from_sorted_wf [OF wf])
  then show ?thesis
    using that [of d'] w es
    by (simp add: flush_disks_overflow_to_region_def load_disks_overflow_from_region_def disks_overflow_from_loaded_node_def comp_def)
qed

section \<open>Properties\<close>

text \<open>C24. Take a pool reached by creating it, adding and draining disks, committing and opening, where every disk has
  a file of its own, a path of at most 192 bytes, a capacity of at least 24576 bytes and, when it is added, a file
  no longer than that capacity. It opens again to the same disks with their states and superblocks, without its
  placement rules; committing it and draining any of its disks succeed.\<close>

theorem pool_reopen:
  assumes "crc_ok crc" and "pool_reach crc pm fs"
  shows "pool_open crc (pm_config pm) fs = (ok (pm\<lparr>pm_placement_rules := []\<rparr>), fs) \<and>
    (\<exists>fs'. pool_commit crc pm fs = (ok (), fs')) \<and>
    (\<forall>i. bm_get (pm_disks pm) i \<noteq> None \<longrightarrow> (\<exists>pm' fs'. remove_disk crc i pm fs = (ok (), pm', fs')))"
proof (intro conjI allI impI)
  have inv: "pool_inv crc pm fs" "root_written crc pm fs" using pool_reach_inv [OF assms(2,1)] by simp_all
  show "pool_open crc (pm_config pm) fs = (ok (pm\<lparr>pm_placement_rules := []\<rparr>), fs)" by (rule reopen_pool [OF assms(1) inv])
  show "\<exists>fs'. pool_commit crc pm fs = (ok (), fs')" unfolding pool_commit_def by (rule write_root [OF assms(1) inv(1)]) blast
  fix i assume "bm_get (pm_disks pm) i \<noteq> None"
  then obtain rt where "bm_get (pm_disks pm) i = Some rt" by blast
  from remove_inv [OF assms(1) inv(1) this] show "\<exists>pm' fs'. remove_disk crc i pm fs = (ok (), pm', fs')" by blast
qed

text \<open>Two small disks on an empty host.\<close>

definition wit_disk_entry :: "u16 \<Rightarrow> byte list \<Rightarrow> disk_config_entry" where
  "wit_disk_entry i path = \<lparr>dc_id = i, dc_path = path, dc_media_type = Ssd, dc_tier = Warm, dc_capacity_bytes = 24576\<rparr>"

definition wit_pool_config :: pool_config where
  "wit_pool_config = \<lparr>pc_node_id = 1, pc_disks = [wit_disk_entry 2 [98], wit_disk_entry 1 [97]]\<rparr>"

lemma wit_disk_entry_ok: "i < 2 ^ 16 \<Longrightarrow> fs path = None \<Longrightarrow> disk_entry_ok fs (wit_disk_entry i path)"
  by (simp add: disk_entry_ok_def wit_disk_entry_def host_file_def)

lemma wit_pool:
  obtains pm fs where "pool_reach zcrc pm fs" and "pm_config pm = wit_pool_config"
    and "set (map fst (pm_disks pm)) = {1, 2}" and "length (pm_disks pm) = 2" and "\<And>p. p \<noteq> [97] \<Longrightarrow> p \<noteq> [98] \<Longrightarrow> fs p = None"
proof -
  have c: "pc_node_id wit_pool_config < 2 ^ 16" "\<forall>e\<in>set (pc_disks wit_pool_config). entry_fits Map.empty e"
      "distinct (map dc_path (pc_disks wit_pool_config))" "pc_disks wit_pool_config \<noteq> []" "length (pc_disks wit_pool_config) \<le> 12"
      "distinct (map dc_id (pc_disks wit_pool_config))"
    by (simp_all add: wit_pool_config_def entry_fits_def wit_disk_entry_ok) (simp_all add: wit_disk_entry_def)
  obtain pm fs where p: "pool_create zcrc wit_pool_config Map.empty = (ok pm, fs)" "pm_config pm = wit_pool_config"
      "pool_inv zcrc pm fs" "\<And>p. p \<notin> set (map dc_path (pc_disks wit_pool_config)) \<Longrightarrow> fs p = None"
    by (rule created_pool [OF zcrc_ok c]) simp
  have "pool_reach zcrc pm fs" by (rule reach_create [OF c(1-3) p(1)])
  moreover have "disks_ok zcrc 1 (pc_disks wit_pool_config) (pm_disks pm) fs"
    using p(2,3) by (simp add: pool_inv_def) (simp add: wit_pool_config_def)
  from disks_ok_keys [OF this] have "set (map fst (pm_disks pm)) = {1, 2}" "length (pm_disks pm) = 2"
    by (simp_all add: wit_pool_config_def) (auto simp: wit_disk_entry_def)
  moreover have "fs q = None" if "q \<noteq> [97]" "q \<noteq> [98]" for q
    using p(4) [of q] that by (simp add: wit_pool_config_def wit_disk_entry_def)
  ultimately show ?thesis using that p(2) by blast
qed

theorem pool_reopen_witness:
  "\<exists>pm fs. pool_reach zcrc pm fs \<and> pm_placement_rules pm \<noteq> [] \<and> pm_config pm = wit_pool_config \<and>
     pool_open zcrc (pm_config pm) fs = (ok (pm\<lparr>pm_placement_rules := []\<rparr>), fs) \<and>
     (\<exists>pm' fs'. remove_disk zcrc 2 pm fs = (ok (), pm', fs'))"
proof -
  obtain pm fs where p: "pool_reach zcrc pm fs" "pm_config pm = wit_pool_config" "set (map fst (pm_disks pm)) = {1, 2}"
    by (rule wit_pool) blast
  let ?pm = "add_placement_rule (Colocate (HasTag 1)) pm"
  have r: "pool_reach zcrc ?pm fs" by (rule reach_rule [OF p(1)])
  have wf: "bm_wf (pm_disks pm)" using pool_reach_inv [OF p(1) zcrc_ok] by (simp add: pool_inv_def disks_ok_def)
  have "2 \<in> fst ` set (pm_disks pm)" using p(3) by simp
  then obtain rt where "(2, rt) \<in> set (pm_disks pm)" by force
  then have "bm_get (pm_disks ?pm) 2 \<noteq> None" by (simp add: bm_get_mem [OF wf] add_placement_rule_def)
  then show ?thesis
    using pool_reopen [OF zcrc_ok r] r p(2) by (intro exI [of _ ?pm] exI [of _ fs]) (simp add: add_placement_rule_def)
qed

text \<open>The disk chosen for a tier is online and in the tier, none of the others has more free room and none with as much
  has a smaller id; no disk is chosen exactly when the tier has none online.\<close>

theorem pick_disk_best:
  assumes "bm_wf (pm_disks pm)"
  shows "case pick_disk pm tier of
      None \<Rightarrow> (\<forall>(i, rt)\<in>set (pm_disks pm). \<not> candidate tier rt)
    | Some i \<Rightarrow> (\<exists>rt. bm_get (pm_disks pm) i = Some rt \<and> candidate tier rt \<and>
        (\<forall>(j, r)\<in>set (pm_disks pm). candidate tier r \<longrightarrow>
          free_bytes r < free_bytes rt \<or> free_bytes r = free_bytes rt \<and> i \<le> j))"
proof (cases "pick_loop tier (pm_disks pm) None")
  case None
  then show ?thesis using pick_loop_none [of tier "pm_disks pm" None] by (simp add: pick_disk_def)
next
  case (Some p)
  obtain i f where p: "pick_loop tier (pm_disks pm) None = Some (i, f)" using Some by (cases p) simp
  obtain rt where "(i, rt) \<in> set (pm_disks pm)" "candidate tier rt" "f = free_bytes rt" using pick_loop_member [OF p] by auto
  moreover have "\<forall>(j, r)\<in>set (pm_disks pm). candidate tier r \<longrightarrow> free_bytes r < f \<or> free_bytes r = f \<and> i \<le> j"
    using pick_loop_max [OF p] pick_loop_first [OF p assms] by (auto simp: le_less)
  ultimately show ?thesis
    using p bm_get_mem [OF assms, of i rt] by (simp add: pick_disk_def)
qed

text \<open>C40. Adding a disk with an unused id, a free slot and a file that can be formatted, whose path exceeds 192 bytes, to a
  reachable pool fails, but the disk stays in the manager; from then on committing and draining disks fail as
  well.\<close>

theorem pool_long_path_stuck:
  assumes "crc_ok crc" and "pool_reach crc pm fs" and "disk_entry_ok fs e" and "192 < length (dc_path e)"
    and "bm_get (pm_disks pm) (dc_id e) = None" and "length (pm_disks pm) < 12"
  shows "\<exists>pm' fs'. add_disk crc e pm fs = (err (DiskPathTooLong (length (dc_path e)) 192), pm', fs') \<and>
    bm_get (pm_disks pm') (dc_id e) \<noteq> None \<and>
    (\<forall>fs''. pool_commit crc pm' fs'' = (err (DiskPathTooLong (length (dc_path e)) 192), fs'')) \<and>
    (\<forall>i fs''. bm_get (pm_disks pm') i \<noteq> None \<longrightarrow>
      fst (remove_disk crc i pm' fs'') = err (DiskPathTooLong (length (dc_path e)) 192))"
proof -
  let ?n = "length (dc_path e)" and ?node = "pc_node_id (pm_config pm)"
  have inv: "pool_inv crc pm fs" using pool_reach_inv [OF assms(2,1)] by simp
  then have ok: "disks_ok crc ?node (pc_disks (pm_config pm)) (pm_disks pm) fs" "?node < 2 ^ 16" by (simp_all add: pool_inv_def)
  have wf: "bm_wf (pm_disks pm)" using ok(1) by (simp add: disks_ok_def)
  obtain f h s where f: "open_or_format_disk crc e ?node True fs = (ok (h, s), fs(dc_path e \<mapsto> f))"
    by (rule format_disk [OF assms(1) ok(2) assms(3)])
  let ?rt = "fresh_runtime e (h, s)"
  let ?pm = "pool_with pm ?rt"
  have cfg: "dr_config ?rt = e" by (simp add: fresh_runtime_def)
  have wf': "bm_wf (pm_disks ?pm)" by (simp add: pool_with_def bm_wf_insert wf)
  have get: "bm_get (pm_disks ?pm) = (bm_get (pm_disks pm))(dc_id e \<mapsto> ?rt)" by (simp add: pool_with_def bm_get_insert wf cfg)
  note stuck = long_path_blocks [OF ok(1) assms(4) cfg]
  have "add_disk crc e pm fs = (err (DiskPathTooLong ?n 192), ?pm, fs(dc_path e \<mapsto> f))"
    using add_disk_eq [OF assms(5,6) f stuck [OF refl wf' refl]] by simp
  moreover have "fst (remove_disk crc i ?pm fs'') = err (DiskPathTooLong ?n 192)"
    if i: "bm_get (pm_disks ?pm) i \<noteq> None" for i fs''
  proof -
    obtain r where r: "bm_get (pm_disks ?pm) i = Some r" using i by blast
    let ?q = "?pm\<lparr>pm_disks := bm_insert i (r\<lparr>dr_state := Draining\<rparr>) (pm_disks ?pm)\<rparr>"
    have "write_pool_state_root crc ?q fs'' = (err (DiskPathTooLong ?n 192), fs'')"
      by (rule stuck) (use r wf' in \<open>auto simp: bm_wf_insert bm_get_insert\<close>)
    then show ?thesis using r by (simp add: remove_disk_def Let_def)
  qed
  moreover have "pool_commit crc ?pm fs'' = (err (DiskPathTooLong ?n 192), fs'')" for fs''
    unfolding pool_commit_def by (rule stuck [OF refl wf' refl])
  ultimately show ?thesis using get by (intro exI [of _ ?pm]) auto
qed

theorem pool_long_path_stuck_witness:
  "\<exists>pm fs pm' fs'. pool_reach zcrc pm fs \<and>
     add_disk zcrc (wit_disk_entry 3 (replicate 193 99)) pm fs = (err (DiskPathTooLong 193 192), pm', fs') \<and>
     pool_commit zcrc pm' fs' = (err (DiskPathTooLong 193 192), fs')"
proof -
  obtain pm fs where p: "pool_reach zcrc pm fs" "set (map fst (pm_disks pm)) = {1, 2}" "length (pm_disks pm) = 2"
      "\<And>p. p \<noteq> [97] \<Longrightarrow> p \<noteq> [98] \<Longrightarrow> fs p = None"
    by (rule wit_pool) blast
  let ?e = "wit_disk_entry 3 (replicate 193 99)"
  have wf: "bm_wf (pm_disks pm)" using pool_reach_inv [OF p(1) zcrc_ok] by (simp add: pool_inv_def disks_ok_def)
  have "3 \<notin> fst ` set (pm_disks pm)" using p(2) by simp
  then have "bm_get (pm_disks pm) (dc_id ?e) = None" by (simp add: wit_disk_entry_def bm_get_eq_map_of [OF wf] map_of_eq_None_iff)
  moreover have "fs (replicate 193 99) = None" by (rule p(4)) (auto dest: arg_cong [of _ _ length])
  then have "disk_entry_ok fs ?e" by (simp add: wit_disk_entry_ok)
  moreover have "length (dc_path ?e) = 193" by (simp add: wit_disk_entry_def)
  ultimately obtain pm' fs' where "add_disk zcrc ?e pm fs = (err (DiskPathTooLong 193 192), pm', fs')"
      "\<forall>fs''. pool_commit zcrc pm' fs'' = (err (DiskPathTooLong 193 192), fs'')"
    using pool_long_path_stuck [OF zcrc_ok p(1), of ?e] p(3) by auto
  then show ?thesis using p(1) by blast
qed

definition wit_runtime :: "u16 \<Rightarrow> storage_tier \<Rightarrow> disk_state \<Rightarrow> u64 \<Rightarrow> u16 \<times> disk_runtime" where
  "wit_runtime i tier st cap =
     (i, \<lparr>dr_config = \<lparr>dc_id = i, dc_path = [], dc_media_type = Ssd, dc_tier = tier, dc_capacity_bytes = cap\<rparr>,
        dr_state = st, dr_used_bytes = 10, dr_device = \<lparr>pd_path = [], pd_capacity = cap\<rparr>, dr_superblock = superblock_zero\<rparr>)"

definition wit_manager :: pool_manager where
  "wit_manager = \<lparr>pm_config = pool_config_new 1, pm_disks = [wit_runtime 1 Hot Online 900, wit_runtime 2 Warm Online 300,
     wit_runtime 3 Warm Online 300, wit_runtime 4 Warm Draining 800], pm_placement_rules = []\<rparr>"

theorem pick_disk_best_witness:
  "pick_disk wit_manager Warm = Some 2 \<and> (\<exists>rt. bm_get (pm_disks wit_manager) 2 = Some rt \<and> candidate Warm rt \<and>
     (\<forall>(j, r)\<in>set (pm_disks wit_manager). candidate Warm r \<longrightarrow>
        free_bytes r < free_bytes rt \<or> free_bytes r = free_bytes rt \<and> 2 \<le> j))"
proof -
  have "bm_wf (pm_disks wit_manager)" by (simp add: wit_manager_def wit_runtime_def bm_wf_def)
  note best = pick_disk_best [OF this, of Warm]
  have "pick_disk wit_manager Warm = Some 2" by (simp add: pick_disk_def wit_manager_def wit_runtime_def free_bytes_def)
  with best show ?thesis by simp
qed

end
