(* ===== verification/Mb_Leaf.thy ===== *)
theory Mb_Leaf
  imports Mb_Meta Mb_Alloc_Thms Mb_Pages
begin

text \<open>
  The tables of the meta crate on disk: the positional leaves (\<open>crates/meta/src/{object_leaf,location_leaf}.rs\<close>),
  the region functions of \<open>object_table.rs\<close> and \<open>location_table.rs\<close>, the backpointer table (\<open>backpointer.rs\<close>) and
  the header of an overflow record (\<open>overflow.rs\<close>).

  The two leaf modules are the same code at two record sizes. The record \<open>leaf_fmt\<close> holds what differs; the operations
  are written once over it, each leaf is an instance, and the locale \<open>leaf_format\<close> states what an instance provides.
\<close>

unbundle bit_operations_syntax

section \<open>Leaves\<close>

definition LEAF_SIZE :: nat where
  "LEAF_SIZE = 2 ^ 18"

abbreviation (input) LEAF_FORMAT_VERSION :: nat where "LEAF_FORMAT_VERSION \<equiv> 1"

record leaf_trailer =
  lt_leaf_generation :: u64
  lt_format_version :: u16
  lt_reserved :: "byte list"

definition leaf_trailer_bytes :: "leaf_trailer \<Rightarrow> byte list" where
  "leaf_trailer_bytes t = le_bytes 8 (lt_leaf_generation t) @ le_bytes 2 (lt_format_version t) @ lt_reserved t"

definition leaf_trailer_of :: "byte list \<Rightarrow> leaf_trailer" where
  "leaf_trailer_of bs = \<lparr>lt_leaf_generation = get_le 0 8 bs, lt_format_version = get_le 8 2 bs, lt_reserved = bslice 10 22 bs\<rparr>"

record 'r leaf_fmt =
  lf_kind :: btree_kind
  lf_slots :: nat
  lf_bitmap_len :: nat
  lf_record_size :: nat
  lf_bytes :: "'r \<Rightarrow> byte list"
  lf_of :: "byte list \<Rightarrow> 'r"
  lf_path :: "u64 \<Rightarrow> u8 \<Rightarrow> (meta_error, radix_path) res"
  lf_oid :: "radix_path \<Rightarrow> u8 \<Rightarrow> (meta_error, u64) res"

record 'r leaf =
  lv_header :: btree_node_header
  lv_slots :: "'r option list"
  lv_trailer :: leaf_trailer

definition leaf_new :: "'r leaf_fmt \<Rightarrow> 'r leaf" where
  "leaf_new f = \<lparr>lv_header = node_header_new (lf_kind f) LEAF_FORMAT_VERSION 0 18, lv_slots = replicate (lf_slots f) None,
     lv_trailer = \<lparr>lt_leaf_generation = 0, lt_format_version = LEAF_FORMAT_VERSION, lt_reserved = replicate 22 0\<rparr>\<rparr>"

text \<open>Indexing past the slots panics.\<close>

definition leaf_set :: "'r leaf_fmt \<Rightarrow> u64 \<Rightarrow> 'r \<Rightarrow> 'r leaf \<Rightarrow> (meta_error, 'r leaf) res" where
  "leaf_set f oid_local r l =
     rbind (lf_path f oid_local 0) (\<lambda>path.
     if rx_leaf_slot path \<ge> length (lv_slots l) then Inl Panic
     else ok (l\<lparr>lv_slots := (lv_slots l)[rx_leaf_slot path := Some r]\<rparr>))"

definition leaf_get :: "'r leaf_fmt \<Rightarrow> u64 \<Rightarrow> 'r leaf \<Rightarrow> (meta_error, 'r option) res" where
  "leaf_get f oid_local l =
     rbind (lf_path f oid_local 0) (\<lambda>path.
     if rx_leaf_slot path \<ge> length (lv_slots l) then Inl Panic else ok (lv_slots l ! rx_leaf_slot path))"

definition leaf_clear :: "'r leaf_fmt \<Rightarrow> u64 \<Rightarrow> 'r leaf \<Rightarrow> (meta_error, 'r option \<times> 'r leaf) res" where
  "leaf_clear f oid_local l =
     rbind (lf_path f oid_local 0) (\<lambda>path.
     if rx_leaf_slot path \<ge> length (lv_slots l) then Inl Panic
     else ok (lv_slots l ! rx_leaf_slot path, l\<lparr>lv_slots := (lv_slots l)[rx_leaf_slot path := None]\<rparr>))"

text \<open>The occupied slots in order, with their indices.\<close>

definition occupied_slots :: "'r option list \<Rightarrow> (nat \<times> 'r) list" where
  "occupied_slots slots = map (\<lambda>(i, s). (i, the s)) (filter (\<lambda>(i, s). s \<noteq> None) (enumerate 0 slots))"

definition leaf_iter :: "'r leaf_fmt \<Rightarrow> 'r leaf \<Rightarrow> (meta_error, (u64 \<times> 'r) list) res" where
  "leaf_iter f l =
     rcollect (\<lambda>(slot, r).
       let path = \<lparr>rx_leaf_slot = slot mod 2 ^ 16, rx_child_path = replicate 3 0, rx_used_levels = 0\<rparr>
       in rbind (lf_oid f path 0) (\<lambda>oid. ok (oid, r))) (occupied_slots (lv_slots l))"

definition leaf_occupied :: "'r leaf \<Rightarrow> nat" where
  "leaf_occupied l = length (filter (\<lambda>s. s \<noteq> None) (lv_slots l))"

definition slot_key :: "nat option \<Rightarrow> byte list" where
  "slot_key s = (case s of None \<Rightarrow> replicate 16 0 | Some i \<Rightarrow> rev (le_bytes 8 i) @ replicate 8 0)"

definition occupancy_bitmap :: "nat \<Rightarrow> 'r option list \<Rightarrow> byte list" where
  "occupancy_bitmap n slots =
     fold (\<lambda>(i, s) bm. if s \<noteq> None then bm[i div 8 := bm ! (i div 8) OR push_bit (i mod 8) 1] else bm)
       (enumerate 0 slots) (replicate n 0)"

definition slot_image :: "'r leaf_fmt \<Rightarrow> 'r option \<Rightarrow> byte list" where
  "slot_image f s = (case s of None \<Rightarrow> replicate (lf_record_size f) 0 | Some r \<Rightarrow> lf_bytes f r)"

text \<open>What \<open>serialise\<close> changes in the leaf: the generation, the sequence number, the key range and the sizes.\<close>

definition leaf_stamp :: "'r leaf \<Rightarrow> 'r leaf" where
  "leaf_stamp l =
     (let idx = [0 ..< length (lv_slots l)]; occ = (\<lambda>i. lv_slots l ! i \<noteq> None); h = lv_header l; t = lv_trailer l
      in l\<lparr>lv_trailer := t\<lparr>lt_leaf_generation := min (lt_leaf_generation t + 1) (2 ^ 64 - 1)\<rparr>,
           lv_header := h\<lparr>nh_seq := min (nh_seq h + 1) (2 ^ 64 - 1), nh_min_key := slot_key (List.find occ idx),
             nh_max_key := slot_key (List.find occ (rev idx)), nh_payload_used := LEAF_SIZE - 64,
             nh_sorted_run_count := 0\<rparr>\<rparr>)"

definition leaf_image :: "'r leaf_fmt \<Rightarrow> 'r leaf \<Rightarrow> byte list" where
  "leaf_image f l =
     node_header_bytes (lv_header l) @ occupancy_bitmap (lf_bitmap_len f) (lv_slots l) @ leaf_trailer_bytes (lv_trailer l) @
     concat (map (slot_image f) (lv_slots l)) @
     replicate (LEAF_SIZE - (64 + lf_bitmap_len f + 32 + lf_slots f * lf_record_size f)) 0"

definition leaf_serialise :: "'r leaf_fmt \<Rightarrow> 'r leaf \<Rightarrow> 'r leaf \<times> byte list" where
  "leaf_serialise f l = (let l' = leaf_stamp l in (l', leaf_image f l'))"

definition slot_occupied :: "byte list \<Rightarrow> nat \<Rightarrow> bool" where
  "slot_occupied bs slot_idx \<longleftrightarrow> bs ! (64 + slot_idx div 8) AND push_bit (slot_idx mod 8) 1 \<noteq> 0"

text \<open>Each occupied bit decodes its record; an empty slot ignores its bytes.\<close>

definition parse_slots :: "'r leaf_fmt \<Rightarrow> byte list \<Rightarrow> 'r option list" where
  "parse_slots f bs =
     (let off = 64 + lf_bitmap_len f + 32
      in map (\<lambda>i. if slot_occupied bs i then Some (lf_of f (bslice (off + lf_record_size f * i) (lf_record_size f) bs)) else None)
           [0 ..< lf_slots f])"

definition leaf_parse :: "'r leaf_fmt \<Rightarrow> byte list \<Rightarrow> (meta_error, 'r leaf) res" where
  "leaf_parse f bs =
     (if length bs \<noteq> LEAF_SIZE then err (MetaBufferTooSmall LEAF_SIZE (length bs))
      else rbind (map_err MetaStorage (node_header_parse (take 64 bs))) (\<lambda>header.
        let kind_raw = bp_kind (nh_pre header); magic = bp_magic (nh_pre header);
            trailer = leaf_trailer_of (bslice (64 + lf_bitmap_len f) 32 bs)
        in if kind_raw \<noteq> btree_kind_u16 (lf_kind f) then err (MetaStorage (InvalidBtreeKind kind_raw))
           else if magic \<noteq> BLOCK_PREAMBLE_MAGIC_BTREE then err (MetaStorage (InvalidMagic BLOCK_PREAMBLE_MAGIC_BTREE magic))
           else if lt_format_version trailer \<noteq> LEAF_FORMAT_VERSION
             then err (MetaStorage (UnsupportedFormatVersion (lt_format_version trailer)))
           else ok \<lparr>lv_header = header, lv_slots = parse_slots f bs, lv_trailer = trailer\<rparr>))"

text \<open>The leaf is stamped even when the write fails.\<close>

definition leaf_write ::
  "'d block_device \<Rightarrow> 'r leaf_fmt \<Rightarrow> 'r leaf \<Rightarrow> 'd \<Rightarrow> u64 \<Rightarrow> 'r leaf \<times> (meta_error, 'd) res" where
  "leaf_write ops f l d offset =
     (let (l', bytes) = leaf_serialise f l in (l', map_err MetaStorage (write_at ops d offset bytes)))"

definition leaf_read :: "'d block_device \<Rightarrow> 'r leaf_fmt \<Rightarrow> 'd \<Rightarrow> u64 \<Rightarrow> (meta_error, 'r leaf) res" where
  "leaf_read ops f d offset =
     rbind (map_err MetaStorage (read_at ops d offset 8)) (\<lambda>probe.
     if bp_magic (preamble_of probe) = replicate 4 0 then ok (leaf_new f)
     else rbind (map_err MetaStorage (read_at ops d offset LEAF_SIZE)) (leaf_parse f))"

section \<open>The two leaves\<close>

definition radix_path_to_oid :: "radix_path \<Rightarrow> u8 \<Rightarrow> ('e, u64) res" where
  "radix_path_to_oid path root_level = radix_path_to_oid_with_leaf_fanout path root_level LEAF_RECORDS"

definition radix_path_to_oid_location :: "radix_path \<Rightarrow> u8 \<Rightarrow> ('e, u64) res" where
  "radix_path_to_oid_location path root_level = radix_path_to_oid_with_leaf_fanout path root_level LEAF_RECORDS_LOCATION"

definition object_leaf_fmt :: "object_record leaf_fmt" where
  "object_leaf_fmt = \<lparr>lf_kind = ObjectTable, lf_slots = LEAF_RECORDS, lf_bitmap_len = 256, lf_record_size = 128,
     lf_bytes = object_record_bytes, lf_of = object_record_of, lf_path = oid_to_radix_path, lf_oid = radix_path_to_oid\<rparr>"

text \<open>The 48-byte image of a location: the header and all four replica slots.\<close>

definition location_bytes :: "object_location \<Rightarrow> byte list" where
  "location_bytes l = location_header_bytes l @ concat (map replica_ref_bytes (loc_replicas l))"

definition location_of :: "byte list \<Rightarrow> object_location" where
  "location_of bs = \<lparr>loc_flags = get_le 0 1 bs, loc_replica_count = get_le 1 1 bs, loc_pad = bslice 2 6 bs,
     loc_extent_length = get_le 8 8 bs,
     loc_replicas = map (\<lambda>i. replica_ref_of (bslice (16 + 8 * i) 8 bs)) [0 ..< MAX_INLINE_REPLICAS]\<rparr>"

definition location_leaf_fmt :: "object_location leaf_fmt" where
  "location_leaf_fmt = \<lparr>lf_kind = LocationTable, lf_slots = LEAF_RECORDS_LOCATION, lf_bitmap_len = 680, lf_record_size = 48,
     lf_bytes = location_bytes, lf_of = location_of, lf_path = oid_to_radix_path_location,
     lf_oid = radix_path_to_oid_location\<rparr>"

definition object_leaf_new :: "object_record leaf" where
  "object_leaf_new = leaf_new object_leaf_fmt"

definition object_leaf_set :: "u64 \<Rightarrow> object_record \<Rightarrow> object_record leaf \<Rightarrow> (meta_error, object_record leaf) res" where
  "object_leaf_set = leaf_set object_leaf_fmt"

definition object_leaf_iter :: "object_record leaf \<Rightarrow> (meta_error, (u64 \<times> object_record) list) res" where
  "object_leaf_iter = leaf_iter object_leaf_fmt"

definition object_leaf_serialise :: "object_record leaf \<Rightarrow> object_record leaf \<times> byte list" where
  "object_leaf_serialise = leaf_serialise object_leaf_fmt"

definition object_leaf_parse :: "byte list \<Rightarrow> (meta_error, object_record leaf) res" where
  "object_leaf_parse = leaf_parse object_leaf_fmt"

definition object_leaf_write ::
  "'d block_device \<Rightarrow> object_record leaf \<Rightarrow> 'd \<Rightarrow> u64 \<Rightarrow> object_record leaf \<times> (meta_error, 'd) res" where
  "object_leaf_write ops = leaf_write ops object_leaf_fmt"

definition object_leaf_read :: "'d block_device \<Rightarrow> 'd \<Rightarrow> u64 \<Rightarrow> (meta_error, object_record leaf) res" where
  "object_leaf_read ops = leaf_read ops object_leaf_fmt"

definition location_leaf_new :: "object_location leaf" where
  "location_leaf_new = leaf_new location_leaf_fmt"

definition location_leaf_set :: "u64 \<Rightarrow> object_location \<Rightarrow> object_location leaf \<Rightarrow> (meta_error, object_location leaf) res" where
  "location_leaf_set = leaf_set location_leaf_fmt"

definition location_leaf_get :: "u64 \<Rightarrow> object_location leaf \<Rightarrow> (meta_error, object_location option) res" where
  "location_leaf_get = leaf_get location_leaf_fmt"

definition location_leaf_clear ::
  "u64 \<Rightarrow> object_location leaf \<Rightarrow> (meta_error, object_location option \<times> object_location leaf) res" where
  "location_leaf_clear = leaf_clear location_leaf_fmt"

definition location_leaf_iter :: "object_location leaf \<Rightarrow> (meta_error, (u64 \<times> object_location) list) res" where
  "location_leaf_iter = leaf_iter location_leaf_fmt"

definition location_leaf_serialise :: "object_location leaf \<Rightarrow> object_location leaf \<times> byte list" where
  "location_leaf_serialise = leaf_serialise location_leaf_fmt"

definition location_leaf_parse :: "byte list \<Rightarrow> (meta_error, object_location leaf) res" where
  "location_leaf_parse = leaf_parse location_leaf_fmt"

definition location_leaf_write ::
  "'d block_device \<Rightarrow> object_location leaf \<Rightarrow> 'd \<Rightarrow> u64 \<Rightarrow> object_location leaf \<times> (meta_error, 'd) res" where
  "location_leaf_write ops = leaf_write ops location_leaf_fmt"

definition location_leaf_read :: "'d block_device \<Rightarrow> 'd \<Rightarrow> u64 \<Rightarrow> (meta_error, object_location leaf) res" where
  "location_leaf_read ops = leaf_read ops location_leaf_fmt"

section \<open>The tables in their regions\<close>

definition object_table_remove :: "object_id \<Rightarrow> object_table \<Rightarrow> object_record option \<times> object_table" where
  "object_table_remove oid t = (bm_get t oid, bm_remove oid t)"

definition location_table_insert :: "object_id \<Rightarrow> object_location \<Rightarrow> location_table \<Rightarrow> location_table" where
  "location_table_insert oid l t = bm_insert oid l t"

text \<open>The loop that sets the slots, stopping at the first id out of range.\<close>

fun leaf_fill :: "'r leaf_fmt \<Rightarrow> (object_id \<times> 'r) list \<Rightarrow> 'r leaf \<Rightarrow> (meta_error, 'r leaf) res" where
  "leaf_fill f [] l = ok l"
| "leaf_fill f ((oid, r) # rows) l =
     rbind (leaf_set f (unat (oid_local_seq oid)) r l) (leaf_fill f rows)"

definition object_table_flush_to_region ::
  "'d block_device \<Rightarrow> object_table \<Rightarrow> 'd \<Rightarrow> u64 \<Rightarrow> (meta_error, 'd) res" where
  "object_table_flush_to_region ops t d offset =
     rbind (leaf_fill object_leaf_fmt t object_leaf_new) (\<lambda>l. snd (object_leaf_write ops l d offset))"

definition object_table_load_from_region :: "'d block_device \<Rightarrow> 'd \<Rightarrow> u64 \<Rightarrow> (meta_error, object_table) res" where
  "object_table_load_from_region ops d offset =
     rbind (object_leaf_read ops d offset) (\<lambda>l.
     rbind (object_leaf_iter l) (\<lambda>rows.
     ok (fold (\<lambda>(_, r). bm_insert (or_id r) r) rows [])))"

definition location_table_flush_to_region ::
  "'d block_device \<Rightarrow> location_table \<Rightarrow> 'd \<Rightarrow> u64 \<Rightarrow> (meta_error, 'd) res" where
  "location_table_flush_to_region ops t d offset =
     rbind (leaf_fill location_leaf_fmt t location_leaf_new) (\<lambda>l. snd (location_leaf_write ops l d offset))"

text \<open>The key is the node id in the upper bits over the masked local id.\<close>

definition location_table_load_from_region ::
  "'d block_device \<Rightarrow> 'd \<Rightarrow> u64 \<Rightarrow> 16 word \<Rightarrow> (meta_error, location_table) res" where
  "location_table_load_from_region ops d offset node =
     rbind (location_leaf_read ops d offset) (\<lambda>l.
     rbind (location_leaf_iter l) (\<lambda>rows.
     ok (fold (\<lambda>(loc, r). bm_insert (oid_from_parts node (word_of_nat loc)) r) rows [])))"

section \<open>The path through a B+ tree node\<close>

type_synonym table_key = "object_id \<times> u32"

definition table_key_current :: "object_id \<Rightarrow> table_key" where
  "table_key_current oid = (oid, 0)"

definition object_table_value_from_record :: "object_record \<Rightarrow> byte list" where
  "object_table_value_from_record r = object_record_bytes r"

definition object_table_value_to_record :: "byte list \<Rightarrow> (meta_error, object_record) res" where
  "object_table_value_to_record bs =
     (if length bs \<noteq> 128 then err (MetaBufferTooSmall 128 (length bs)) else ok (object_record_of bs))"

definition location_table_value_to_location :: "byte list \<Rightarrow> (meta_error, object_location) res" where
  "location_table_value_to_location bs = rbind (location_parse bs) (\<lambda>(l, _). ok l)"

definition rows_to_loaded_node ::
  "btree_kind \<Rightarrow> ('k :: linorder \<times> 'v) list \<Rightarrow> ('e, ('k, 'v) loaded_node) res" where
  "rows_to_loaded_node kind entries =
     (let node = node_new kind 0 18
      in if entries = [] then ok node
         else rbind (run_from_sorted 0 0 entries) (\<lambda>run.
           ok (node\<lparr>n_sorted_runs := [run], n_header := (n_header node)\<lparr>nh_sorted_run_count := 1\<rparr>\<rparr>)))"

definition object_table_to_loaded_node :: "object_table \<Rightarrow> ('e, (table_key, byte list) loaded_node) res" where
  "object_table_to_loaded_node t =
     rows_to_loaded_node ObjectTable (map (\<lambda>(oid, r). (table_key_current oid, object_table_value_from_record r)) t)"

definition location_table_to_loaded_node :: "location_table \<Rightarrow> ('e, (table_key, byte list) loaded_node) res" where
  "location_table_to_loaded_node t =
     rows_to_loaded_node LocationTable (map (\<lambda>(oid, l). (table_key_current oid, location_serialize l)) t)"

text \<open>The loop over the merged rows; rows of a snapshot are skipped.\<close>

fun table_rows_load ::
  "(byte list \<Rightarrow> (meta_error, 'r) res) \<Rightarrow> (table_key \<times> byte list) list \<Rightarrow> (object_id, 'r) btree_map \<Rightarrow>
   (meta_error, (object_id, 'r) btree_map) res" where
  "table_rows_load dec [] m = ok m"
| "table_rows_load dec (((oid, snap), v) # rows) m =
     (if snap \<noteq> 0 then table_rows_load dec rows m
      else rbind (dec v) (\<lambda>r. table_rows_load dec rows (bm_insert oid r m)))"

definition object_table_from_loaded_node ::
  "(table_key, byte list) kmerge \<Rightarrow> (table_key, byte list) loaded_node \<Rightarrow> (meta_error, object_table) res" where
  "object_table_from_loaded_node kmerge node = table_rows_load object_table_value_to_record (merge_iter kmerge node) []"

definition location_table_from_loaded_node ::
  "(table_key, byte list) kmerge \<Rightarrow> (table_key, byte list) loaded_node \<Rightarrow> (meta_error, location_table) res" where
  "location_table_from_loaded_node kmerge node = table_rows_load location_table_value_to_location (merge_iter kmerge node) []"

section \<open>Backpointers\<close>

datatype backpointer_key = BackpointerKey (bk_disk_id: u16) (bk_bucket_no: u32) (bk_sector_offset: u16)

definition bk_cmp_le :: "backpointer_key \<Rightarrow> backpointer_key \<Rightarrow> bool" where
  "bk_cmp_le a b \<longleftrightarrow>
     (bk_disk_id a, bk_bucket_no a, bk_sector_offset a) \<le> (bk_disk_id b, bk_bucket_no b, bk_sector_offset b)"

instantiation backpointer_key :: linorder
begin

definition less_eq_backpointer_key :: "backpointer_key \<Rightarrow> backpointer_key \<Rightarrow> bool" where
  "a \<le> b \<longleftrightarrow> bk_cmp_le a b"

definition less_backpointer_key :: "backpointer_key \<Rightarrow> backpointer_key \<Rightarrow> bool" where
  "a < b \<longleftrightarrow> bk_cmp_le a b \<and> \<not> bk_cmp_le b a"

instance
  by standard (auto simp: less_eq_backpointer_key_def less_backpointer_key_def bk_cmp_le_def backpointer_key.expand)

end

definition bk_bytes :: "backpointer_key \<Rightarrow> byte list" where
  "bk_bytes k = le_bytes 2 (bk_disk_id k) @ le_bytes 4 (bk_bucket_no k) @ le_bytes 2 (bk_sector_offset k)"

definition bk_deserialize :: "byte list \<Rightarrow> (string, backpointer_key) res" where
  "bk_deserialize bs =
     (if length bs \<noteq> 8 then err ''expected 8 bytes for BackpointerKey''
      else ok (BackpointerKey (get_le 0 2 bs) (get_le 2 4 bs) (get_le 6 2 bs)))"

datatype owner_kind = OwnBlobExtent | OwnChunk | OwnBtreeNode | OwnTagBitmapExtent | OwnOverflowRecord

fun owner_kind_u8 :: "owner_kind \<Rightarrow> u8" where
  "owner_kind_u8 OwnBlobExtent = 1"
| "owner_kind_u8 OwnChunk = 2"
| "owner_kind_u8 OwnBtreeNode = 3"
| "owner_kind_u8 OwnTagBitmapExtent = 4"
| "owner_kind_u8 OwnOverflowRecord = 5"

definition owner_kind_from_u8 :: "u8 \<Rightarrow> owner_kind option" where
  "owner_kind_from_u8 v =
     (if v = 1 then Some OwnBlobExtent else if v = 2 then Some OwnChunk else if v = 3 then Some OwnBtreeNode
      else if v = 4 then Some OwnTagBitmapExtent else if v = 5 then Some OwnOverflowRecord else None)"

record backpointer_value =
  bv_owner_kind :: u8
  bv_pad :: u8
  bv_length_sectors :: u16
  bv_bucket_gen :: u32
  bv_owner_key :: "byte list"

definition bv_kind :: "backpointer_value \<Rightarrow> (meta_error, owner_kind) res" where
  "bv_kind v = (case owner_kind_from_u8 (bv_owner_kind v) of None \<Rightarrow> err (InvalidOwnerKind (bv_owner_kind v)) | Some k \<Rightarrow> ok k)"

definition bv_bytes :: "backpointer_value \<Rightarrow> byte list" where
  "bv_bytes v = le_bytes 1 (bv_owner_kind v) @ le_bytes 1 (bv_pad v) @ le_bytes 2 (bv_length_sectors v) @
     le_bytes 4 (bv_bucket_gen v) @ bv_owner_key v"

definition bv_deserialize :: "byte list \<Rightarrow> (string, backpointer_value) res" where
  "bv_deserialize bs =
     (if length bs \<noteq> 24 then err ''expected 24 bytes for BackpointerValue''
      else ok \<lparr>bv_owner_kind = get_le 0 1 bs, bv_pad = get_le 1 1 bs, bv_length_sectors = get_le 2 2 bs,
        bv_bucket_gen = get_le 4 4 bs, bv_owner_key = bslice 8 16 bs\<rparr>)"

type_synonym backpointer_table = "(backpointer_key, backpointer_value) btree_map"

definition bp_insert :: "backpointer_key \<Rightarrow> backpointer_value \<Rightarrow> backpointer_table \<Rightarrow> backpointer_table" where
  "bp_insert k v t = bm_insert k v t"

definition bp_remove :: "backpointer_key \<Rightarrow> backpointer_table \<Rightarrow> backpointer_value option \<times> backpointer_table" where
  "bp_remove k t = (bm_get t k, bm_remove k t)"

definition bp_get :: "backpointer_table \<Rightarrow> backpointer_key \<Rightarrow> backpointer_value option" where
  "bp_get t k = bm_get t k"

definition range_in_bucket :: "backpointer_table \<Rightarrow> u16 \<Rightarrow> u32 \<Rightarrow> (backpointer_key \<times> backpointer_value) list" where
  "range_in_bucket t disk_id bucket_no =
     bm_range_incl (BackpointerKey disk_id bucket_no 0) (BackpointerKey disk_id bucket_no (2 ^ 16 - 1)) t"

definition range_on_disk :: "backpointer_table \<Rightarrow> u16 \<Rightarrow> (backpointer_key \<times> backpointer_value) list" where
  "range_on_disk t disk_id =
     bm_range_incl (BackpointerKey disk_id 0 0) (BackpointerKey disk_id (2 ^ 32 - 1) (2 ^ 16 - 1)) t"

definition bp_to_loaded_node :: "backpointer_table \<Rightarrow> ('e, (backpointer_key, backpointer_value) loaded_node) res" where
  "bp_to_loaded_node t = rows_to_loaded_node Backpointer t"

definition bp_from_loaded_node ::
  "(backpointer_key, backpointer_value) kmerge \<Rightarrow> (backpointer_key, backpointer_value) loaded_node \<Rightarrow> backpointer_table" where
  "bp_from_loaded_node kmerge node = fold (\<lambda>(k, v). bm_insert k v) (merge_iter kmerge node) []"

definition bp_flush_to_region ::
  "'d block_device \<Rightarrow> (backpointer_key, backpointer_value) region_env \<Rightarrow> backpointer_table \<Rightarrow> 'd \<Rightarrow> u64 \<Rightarrow>
   (meta_error, 'd) res" where
  "bp_flush_to_region ops env t d offset =
     rbind (bp_to_loaded_node t) (\<lambda>node.
     rbind (map_err MetaStorage (write_full ops env d offset node)) (\<lambda>(_, d1). ok d1))"

definition bp_load_from_region ::
  "'d block_device \<Rightarrow> (backpointer_key, backpointer_value) region_env \<Rightarrow> (backpointer_key, backpointer_value) kmerge \<Rightarrow>
   'd \<Rightarrow> u64 \<Rightarrow> (meta_error, backpointer_table) res" where
  "bp_load_from_region ops env kmerge d offset =
     rbind (map_err MetaStorage (read_at ops d offset 8)) (\<lambda>probe.
     if list_all (\<lambda>b. b = 0) probe then ok []
     else rbind (map_err MetaStorage (region_read ops env d offset Backpointer)) (\<lambda>node.
          ok (bp_from_loaded_node kmerge node)))"

section \<open>OverflowHeader\<close>

record overflow_header =
  oh_header :: block_header
  oh_object_id :: u64
  oh_tag_count :: u16
  oh_attr_count :: u16
  oh_relation_count :: u16
  oh_pad :: u16
  oh_next_overflow :: u64

definition overflow_header_bytes :: "overflow_header \<Rightarrow> byte list" where
  "overflow_header_bytes h = block_header_bytes (oh_header h) @ le_bytes 8 (oh_object_id h) @ le_bytes 2 (oh_tag_count h) @
     le_bytes 2 (oh_attr_count h) @ le_bytes 2 (oh_relation_count h) @ le_bytes 2 (oh_pad h) @ le_bytes 8 (oh_next_overflow h)"

definition overflow_header_of :: "byte list \<Rightarrow> overflow_header" where
  "overflow_header_of bs = \<lparr>oh_header = block_header_of bs, oh_object_id = get_le 32 8 bs, oh_tag_count = get_le 40 2 bs,
     oh_attr_count = get_le 42 2 bs, oh_relation_count = get_le 44 2 bs, oh_pad = get_le 46 2 bs,
     oh_next_overflow = get_le 48 8 bs\<rparr>"

end
