(* ===== verification/Mb_Leaf_Thms.thy ===== *)
theory Mb_Leaf_Thms
  imports Mb_Leaf
begin

text \<open>
  The tables of the meta crate survive a restart: leaves are read back as they were written, the object table loads to
  the records with the greatest id of each local id, and the location and backpointer tables round trip.
\<close>

unbundle bit_operations_syntax

section \<open>Occupancy\<close>

lemma occupancy_bitmap_snoc:
  "occupancy_bitmap n (xs @ [x]) = (let bm = occupancy_bitmap n xs in
     if x \<noteq> None then bm[length xs div 8 := bm ! (length xs div 8) OR push_bit (length xs mod 8) 1] else bm)"
  by (simp add: occupancy_bitmap_def enumerate_append_eq Let_def)

lemma length_occupancy_bitmap [simp]: "length (occupancy_bitmap n slots) = n"
proof (induction slots rule: rev_induct)
  case Nil
  show ?case by (simp add: occupancy_bitmap_def)
qed (simp add: occupancy_bitmap_snoc Let_def)

lemma bit_occupancy_bitmap:
  "length slots \<le> 8 * n \<Longrightarrow> i < 8 * n \<Longrightarrow>
   bit (occupancy_bitmap n slots ! (i div 8)) (i mod 8) \<longleftrightarrow> i < length slots \<and> slots ! i \<noteq> None"
proof (induction slots rule: rev_induct)
  case Nil
  then show ?case by (simp add: occupancy_bitmap_def)
next
  case (snoc x xs)
  let ?m = "length xs" and ?bm = "occupancy_bitmap n xs"
  have IH: "bit (?bm ! (i div 8)) (i mod 8) \<longleftrightarrow> i < ?m \<and> xs ! i \<noteq> None" using snoc by simp
  have m: "?m div 8 < n" using snoc.prems(1) by simp
  have eq: "i = ?m" if "i div 8 = ?m div 8" "i mod 8 = ?m mod 8" using that by (metis div_mult_mod_eq)
  have "bit (occupancy_bitmap n (xs @ [x]) ! (i div 8)) (i mod 8) \<longleftrightarrow>
      bit (?bm ! (i div 8)) (i mod 8) \<or> x \<noteq> None \<and> i = ?m"
    using m eq by (auto simp: occupancy_bitmap_snoc Let_def nth_list_update bit_simps)
  then show ?case using IH by (auto simp: nth_append less_Suc_eq)
qed

lemma occupied_slots_mem: "(i, r) \<in> set (occupied_slots slots) \<longleftrightarrow> i < length slots \<and> slots ! i = Some r"
proof -
  have "(i, r) \<in> set (occupied_slots slots) \<longleftrightarrow> (\<exists>s. (i, s) \<in> set (enumerate 0 slots) \<and> s = Some r)"
    by (force simp: occupied_slots_def)
  then show ?thesis by (auto simp: in_set_enumerate_eq)
qed

lemma occupied_slots_distinct: "distinct (map fst (occupied_slots slots))"
proof -
  have "map fst (occupied_slots slots) = map fst (filter (\<lambda>(i, s). s \<noteq> None) (enumerate 0 slots))"
    by (simp add: occupied_slots_def case_prod_unfold)
  moreover have "distinct (map fst (filter (\<lambda>(i, s). s \<noteq> None) (enumerate 0 slots)))"
    by (rule distinct_map_filter) simp
  ultimately show ?thesis by simp
qed

lemma slot_occupied_bit: "slot_occupied bs i \<longleftrightarrow> bit (bs ! (64 + i div 8)) (i mod 8)"
  unfolding slot_occupied_def by (rule bit_iff_and_push_bit_not_eq_0 [symmetric])

section \<open>What a leaf format provides\<close>

definition leaf_ok :: "'r leaf_fmt \<Rightarrow> ('r \<Rightarrow> bool) \<Rightarrow> 'r leaf \<Rightarrow> bool" where
  "leaf_ok f rec_ok l \<longleftrightarrow> node_header_ok (lv_header l) \<and> bp_magic (nh_pre (lv_header l)) = BLOCK_PREAMBLE_MAGIC_BTREE \<and>
     bp_kind (nh_pre (lv_header l)) = btree_kind_u16 (lf_kind f) \<and> length (lv_slots l) = lf_slots f \<and>
     (\<forall>r. Some r \<in> set (lv_slots l) \<longrightarrow> rec_ok r) \<and>
     lt_leaf_generation (lv_trailer l) < 2 ^ 64 \<and> lt_format_version (lv_trailer l) = LEAF_FORMAT_VERSION \<and>
     length (lt_reserved (lv_trailer l)) = 22"

lemma leaf_trailer_of_bytes:
  "lt_leaf_generation t < 2 ^ 64 \<Longrightarrow> lt_format_version t < 2 ^ 16 \<Longrightarrow> length (lt_reserved t) = 22 \<Longrightarrow>
   leaf_trailer_of (leaf_trailer_bytes t) = t"
  by (simp add: leaf_trailer_of_def leaf_trailer_bytes_def get_le_def bslice_def)

lemma length_slot_key [simp]: "length (slot_key s) = 16"
  by (simp add: slot_key_def split: option.splits)

lemma leaf_stamp_ok: "leaf_ok f rec_ok l \<Longrightarrow> leaf_ok f rec_ok (leaf_stamp l)"
  by (simp add: leaf_ok_def leaf_stamp_def Let_def node_header_ok_def LEAF_SIZE_def min_less_iff_disj)

lemma leaf_stamp_slots [simp]: "lv_slots (leaf_stamp l) = lv_slots l"
  by (simp add: leaf_stamp_def Let_def)

lemma magic_not_zero: "BLOCK_PREAMBLE_MAGIC_BTREE \<noteq> replicate 4 0"
proof
  assume "BLOCK_PREAMBLE_MAGIC_BTREE = replicate 4 0"
  then have "hd BLOCK_PREAMBLE_MAGIC_BTREE = hd (replicate 4 0)" by (rule arg_cong)
  then show False by (simp add: BLOCK_PREAMBLE_MAGIC_BTREE_def)
qed

locale leaf_format =
  fixes f :: "'r leaf_fmt" and rec_ok :: "'r \<Rightarrow> bool"
  assumes fits: "64 + lf_bitmap_len f + 32 + lf_slots f * lf_record_size f \<le> LEAF_SIZE"
    and slots_le: "lf_slots f \<le> 8 * lf_bitmap_len f" "lf_slots f \<le> 2 ^ 16"
    and rec_length: "rec_ok r \<Longrightarrow> length (lf_bytes f r) = lf_record_size f"
    and rec_of_bytes: "rec_ok r \<Longrightarrow> lf_of f (lf_bytes f r) = r"
    and path_in: "i < lf_slots f \<Longrightarrow> \<exists>p. lf_path f i 0 = ok p \<and> rx_leaf_slot p = i"
    and path_out: "lf_slots f \<le> i \<Longrightarrow> lf_path f i 0 = err (OidOutOfRange i 0)"
    and oid_of_path: "i < lf_slots f \<Longrightarrow>
      lf_oid f \<lparr>rx_leaf_slot = i, rx_child_path = replicate 3 0, rx_used_levels = 0\<rparr> 0 = ok i"
begin

lemma new_ok: "leaf_ok f rec_ok (leaf_new f)"
proof -
  have "btree_kind_u16 (lf_kind f) < 2 ^ 16" by (cases "lf_kind f") auto
  then show ?thesis
    by (simp add: leaf_ok_def leaf_new_def node_header_new_def node_header_ok_def preamble_ok_def BLOCK_PREAMBLE_MAGIC_BTREE_def)
qed

lemma slot_image_length: "s = None \<or> (\<exists>r. s = Some r \<and> rec_ok r) \<Longrightarrow> length (slot_image f s) = lf_record_size f"
  by (auto simp: slot_image_def rec_length)

lemma slots_image_length:
  assumes "leaf_ok f rec_ok l" and "s \<in> set (lv_slots l)"
  shows "length (slot_image f s) = lf_record_size f"
  using assms by (cases s) (auto simp: leaf_ok_def intro!: slot_image_length)

lemma image_parts:
  assumes "leaf_ok f rec_ok l"
  shows "length (node_header_bytes (lv_header l)) = 64" and "length (leaf_trailer_bytes (lv_trailer l)) = 32"
    and "length (concat (map (slot_image f) (lv_slots l))) = lf_record_size f * lf_slots f"
proof -
  show "length (node_header_bytes (lv_header l)) = 64" using assms by (simp add: leaf_ok_def length_node_header_bytes)
  show "length (leaf_trailer_bytes (lv_trailer l)) = 32" using assms by (simp add: leaf_ok_def leaf_trailer_bytes_def)
  have "\<forall>s\<in>set (lv_slots l). length (slot_image f s) = lf_record_size f" using slots_image_length [OF assms] by blast
  from length_concat_const [OF this] show "length (concat (map (slot_image f) (lv_slots l))) = lf_record_size f * lf_slots f"
    using assms by (simp add: leaf_ok_def)
qed

lemma length_image: "leaf_ok f rec_ok l \<Longrightarrow> length (leaf_image f l) = LEAF_SIZE"
  using image_parts [of l] fits by (simp add: leaf_image_def mult.commute)

lemma image_occupied:
  assumes "leaf_ok f rec_ok l" and "i < lf_slots f"
  shows "slot_occupied (leaf_image f l) i \<longleftrightarrow> lv_slots l ! i \<noteq> None"
proof -
  let ?bm = "occupancy_bitmap (lf_bitmap_len f) (lv_slots l)"
  have i: "i div 8 < lf_bitmap_len f" using assms(2) slots_le(1) by linarith
  have "leaf_image f l ! (64 + i div 8) = ?bm ! (i div 8)"
    using i image_parts(1) [OF assms(1)] by (simp add: leaf_image_def nth_append)
  moreover have "bit (?bm ! (i div 8)) (i mod 8) \<longleftrightarrow> i < length (lv_slots l) \<and> lv_slots l ! i \<noteq> None"
    using assms slots_le(1) by (intro bit_occupancy_bitmap) (auto simp: leaf_ok_def)
  ultimately show ?thesis using assms by (simp add: slot_occupied_bit leaf_ok_def)
qed

lemma image_slot:
  assumes "leaf_ok f rec_ok l" and "i < lf_slots f" and "lv_slots l ! i = Some r"
  shows "lf_of f (bslice (64 + lf_bitmap_len f + 32 + lf_record_size f * i) (lf_record_size f) (leaf_image f l)) = r"
proof -
  let ?cs = "concat (map (slot_image f) (lv_slots l))" and ?s = "lf_record_size f"
  have len: "length (lv_slots l) = lf_slots f" using assms(1) by (simp add: leaf_ok_def)
  have r: "rec_ok r" using assms len by (auto simp: leaf_ok_def) (metis nth_mem)
  have "?s * i + ?s \<le> ?s * lf_slots f" using assms(2) by (metis Suc_leI add.commute mult_Suc_right mult_le_mono2)
  then have "bslice (64 + lf_bitmap_len f + 32 + ?s * i) ?s (leaf_image f l) = bslice (?s * i) ?s ?cs"
    using image_parts [OF assms(1)] by (simp add: leaf_image_def bslice_def)
  also have "\<dots> = slot_image f (lv_slots l ! i)"
    using slots_image_length [OF assms(1)] len assms(2) by (intro bslice_concat_nth) auto
  finally show ?thesis using assms(3) rec_of_bytes [OF r] by (simp add: slot_image_def)
qed

lemma parse_slots_image:
  assumes "leaf_ok f rec_ok l"
  shows "parse_slots f (leaf_image f l) = lv_slots l"
proof (rule nth_equalityI)
  show "length (parse_slots f (leaf_image f l)) = length (lv_slots l)"
    using assms by (simp add: parse_slots_def Let_def leaf_ok_def)
  fix i assume "i < length (parse_slots f (leaf_image f l))"
  then have i: "i < lf_slots f" by (simp add: parse_slots_def Let_def)
  show "parse_slots f (leaf_image f l) ! i = lv_slots l ! i"
    using i image_occupied [OF assms i] image_slot [OF assms i]
    by (cases "lv_slots l ! i") (simp_all add: parse_slots_def Let_def add.assoc [symmetric] del: add_2_eq_Suc)
qed

lemma parse_image:
  assumes "leaf_ok f rec_ok l"
  shows "leaf_parse f (leaf_image f l) = ok l"
proof -
  let ?bs = "leaf_image f l"
  note parts = image_parts [OF assms]
  have h: "take 64 ?bs = node_header_bytes (lv_header l)" using parts(1) by (simp add: leaf_image_def)
  have p: "node_header_parse (take 64 ?bs) = ok (lv_header l)"
    using assms parts(1) unfolding h by (simp add: node_header_parse_def leaf_ok_def node_header_of_bytes Let_def)
  have "bslice (64 + lf_bitmap_len f) 32 ?bs = leaf_trailer_bytes (lv_trailer l)"
    using parts by (simp add: leaf_image_def bslice_def)
  then have t: "leaf_trailer_of (bslice (64 + lf_bitmap_len f) 32 ?bs) = lv_trailer l"
    using assms by (simp add: leaf_trailer_of_bytes leaf_ok_def)
  show ?thesis
    using assms p t length_image [OF assms] by (simp add: leaf_parse_def Let_def leaf_ok_def parse_slots_image [OF assms])
qed

lemma set_in:
  assumes "i < lf_slots f" and "length (lv_slots l) = lf_slots f"
  shows "leaf_set f i r l = ok (l\<lparr>lv_slots := (lv_slots l)[i := Some r]\<rparr>)"
  using path_in [OF assms(1)] assms by (auto simp: leaf_set_def)

lemma set_out: "lf_slots f \<le> i \<Longrightarrow> leaf_set f i r l = err (OidOutOfRange i 0)"
  by (simp add: leaf_set_def path_out)

lemma iter_ok:
  assumes "length (lv_slots l) = lf_slots f"
  shows "leaf_iter f l = ok (occupied_slots (lv_slots l))"
proof -
  have "rbind (lf_oid f \<lparr>rx_leaf_slot = i mod 2 ^ 16, rx_child_path = replicate 3 0, rx_used_levels = 0\<rparr> 0) (\<lambda>oid. ok (oid, r)) = ok (i, r)"
    if "(i, r) \<in> set (occupied_slots (lv_slots l))" for i r
  proof -
    have "i < lf_slots f" using that assms by (simp add: occupied_slots_mem)
    then show ?thesis using oid_of_path [of i] slots_le(2) by simp
  qed
  then have "list_all2 (\<lambda>x y. (\<lambda>(slot, r). let path = \<lparr>rx_leaf_slot = slot mod 2 ^ 16, rx_child_path = replicate 3 0,
      rx_used_levels = 0\<rparr> in rbind (lf_oid f path 0) (\<lambda>oid. ok (oid, r))) x = ok y)
      (occupied_slots (lv_slots l)) (occupied_slots (lv_slots l))"
    by (intro list.rel_refl_strong) (auto simp: Let_def)
  then show ?thesis unfolding leaf_iter_def rcollect_eq_Inr .
qed

text \<open>Filling a leaf from rows: every id in range, or the error of the first id that is not.\<close>

lemma fill_in:
  assumes "\<forall>(oid, r)\<in>set rows. unat (oid_local_seq oid) < lf_slots f" and "length (lv_slots l) = lf_slots f"
  shows "leaf_fill f rows l = ok (l\<lparr>lv_slots := fold (\<lambda>(oid, r) s. s[unat (oid_local_seq oid) := Some r]) rows (lv_slots l)\<rparr>)"
  using assms
proof (induction rows arbitrary: l)
  case (Cons x rows)
  obtain oid r where x: "x = (oid, r)" by fastforce
  show ?case using Cons.prems Cons.IH [of "l\<lparr>lv_slots := (lv_slots l)[unat (oid_local_seq oid) := Some r]\<rparr>"]
    by (simp add: x set_in)
qed simp

lemma fill_out:
  assumes "\<exists>(oid, r)\<in>set rows. lf_slots f \<le> unat (oid_local_seq oid)" and "length (lv_slots l) = lf_slots f"
  shows "\<exists>(oid, r)\<in>set rows. lf_slots f \<le> unat (oid_local_seq oid) \<and>
    leaf_fill f rows l = err (OidOutOfRange (unat (oid_local_seq oid)) 0)"
  using assms
proof (induction rows arbitrary: l)
  case (Cons x rows)
  obtain oid r where x: "x = (oid, r)" by fastforce
  let ?i = "unat (oid_local_seq oid)"
  show ?case
  proof (cases "lf_slots f \<le> ?i")
    case True
    then show ?thesis by (simp add: x set_out)
  next
    case False
    let ?l = "l\<lparr>lv_slots := (lv_slots l)[?i := Some r]\<rparr>"
    have "\<exists>(oid, r)\<in>set rows. lf_slots f \<le> unat (oid_local_seq oid) \<and>
        leaf_fill f rows ?l = err (OidOutOfRange (unat (oid_local_seq oid)) 0)"
      using Cons.prems False by (intro Cons.IH) (auto simp: x)
    then show ?thesis using False Cons.prems(2) by (auto simp: x set_in)
  qed
qed simp

lemma write_read:
  assumes "file_device_inv d" and "fd_writable d" and "offset + LEAF_SIZE \<le> fd_capacity d" and "leaf_ok f rec_ok l"
  obtains d' where "snd (leaf_write file_block_device f l d offset) = ok d'" and "file_device_inv d'" and "fd_writable d'"
    and "fd_capacity d' = fd_capacity d" and "fd_file d' = bsplice offset (leaf_image f (leaf_stamp l)) (fd_file d)"
    and "leaf_read file_block_device f d' offset = ok (leaf_stamp l)"
proof -
  note k = leaf_stamp_ok [OF assms(4)]
  note len = length_image [OF k]
  let ?img = "leaf_image f (leaf_stamp l)"
  obtain d' where w: "write_at file_block_device d offset ?img = ok d'" "file_device_inv d'" "fd_writable d'"
      "fd_capacity d' = fd_capacity d" "fd_file d' = bsplice offset ?img (fd_file d)"
    using fdev.write_in [OF assms(1,2), of offset ?img] assms(3) len by auto
  have r: "read_at file_block_device d' offset LEAF_SIZE = ok ?img"
    using fdev.read_after_write [OF assms(1) w(1)] len by simp
  have "bslice offset LEAF_SIZE (fd_file d') = ?img"
    using fdev.read_success(2) [OF w(2) r] by simp
  then have b: "bslice offset 8 (fd_file d') = take 8 ?img"
    using bslice_bslice [of 0 8 LEAF_SIZE offset "fd_file d'"] by (simp add: LEAF_SIZE_def)
  have p: "read_at file_block_device d' offset 8 = ok (take 8 ?img)"
    using fdev.read_in [OF w(2), of offset 8] assms(3) w(4) b by (simp add: LEAF_SIZE_def)
  have h: "node_header_ok (lv_header (leaf_stamp l))" "bp_magic (nh_pre (lv_header (leaf_stamp l))) = BLOCK_PREAMBLE_MAGIC_BTREE"
    using k by (simp_all add: leaf_ok_def)
  have "take 8 ?img = preamble_bytes (nh_pre (lv_header (leaf_stamp l)))"
    using h(1) by (simp add: leaf_image_def node_header_bytes_def node_header_ok_def length_preamble_bytes)
  then have "bp_magic (preamble_of (take 8 ?img)) = BLOCK_PREAMBLE_MAGIC_BTREE"
    using h by (simp add: preamble_of_bytes node_header_ok_def)
  then have "leaf_read file_block_device f d' offset = ok (leaf_stamp l)"
    using p r parse_image [OF k] by (simp add: leaf_read_def magic_not_zero)
  moreover have "snd (leaf_write file_block_device f l d offset) = ok d'"
    using w(1) by (simp add: leaf_write_def leaf_serialise_def Let_def)
  ultimately show ?thesis using that w by blast
qed

end

section \<open>The two leaves provide it\<close>

lemma leaf_path_in:
  "i < n \<Longrightarrow> n \<le> 2 ^ 16 \<Longrightarrow> \<exists>p. oid_to_radix_path_with_leaf_fanout i 0 n = ok p \<and> rx_leaf_slot p = i"
  by (simp add: oid_to_radix_path_with_leaf_fanout_def)

lemma leaf_path_out: "0 < n \<Longrightarrow> n \<le> i \<Longrightarrow> oid_to_radix_path_with_leaf_fanout i 0 n = err (OidOutOfRange i 0)"
  by (simp add: oid_to_radix_path_with_leaf_fanout_def div_greater_zero_iff)

lemma leaf_oid_of_path:
  "i < 2 ^ 16 \<Longrightarrow> radix_path_to_oid_with_leaf_fanout \<lparr>rx_leaf_slot = i, rx_child_path = replicate 3 0, rx_used_levels = 0\<rparr> 0 n = ok i"
  by (simp add: radix_path_to_oid_with_leaf_fanout_def)

definition location_record_ok :: "object_location \<Rightarrow> bool" where
  "location_record_ok l \<longleftrightarrow> loc_flags l < 2 ^ 8 \<and> loc_replica_count l < 2 ^ 8 \<and> length (loc_pad l) = 6 \<and>
     loc_extent_length l < 2 ^ 64 \<and> length (loc_replicas l) = MAX_INLINE_REPLICAS \<and>
     (\<forall>r\<in>set (loc_replicas l). replica_ref_ok r)"

lemma length_location_bytes: "location_record_ok l \<Longrightarrow> length (location_bytes l) = 48"
  using length_concat_const [of "loc_replicas l" replica_ref_bytes 8]
  by (simp add: location_record_ok_def location_bytes_def location_header_bytes_def MAX_INLINE_REPLICAS_def)

lemma location_of_bytes:
  assumes "location_record_ok l"
  shows "location_of (location_bytes l) = l"
proof -
  have "map (\<lambda>i. replica_ref_of (bslice (16 + 8 * i) 8 (location_header_bytes l @ concat (map replica_ref_bytes (loc_replicas l)) @ [])))
      [0 ..< MAX_INLINE_REPLICAS] = loc_replicas l"
    using assms by (intro array_of_bytes) (auto simp: location_record_ok_def location_header_bytes_def replica_ref_of_bytes)
  then show ?thesis
    using assms by (simp add: location_of_def location_bytes_def location_record_ok_def location_header_bytes_def get_le_def bslice_def)
qed

interpretation ol: leaf_format object_leaf_fmt object_record_ok
  by standard (simp_all add: object_leaf_fmt_def LEAF_RECORDS_def LEAF_SIZE_def length_object_record_bytes object_record_of_bytes
      oid_to_radix_path_def leaf_path_in leaf_path_out radix_path_to_oid_def leaf_oid_of_path)

interpretation ll: leaf_format location_leaf_fmt location_record_ok
  by standard (simp_all add: location_leaf_fmt_def LEAF_RECORDS_LOCATION_def LEAF_SIZE_def length_location_bytes location_of_bytes
      oid_to_radix_path_location_def leaf_path_in leaf_path_out radix_path_to_oid_location_def leaf_oid_of_path)

section \<open>The tables\<close>

abbreviation local_id :: "object_id \<Rightarrow> nat" where
  "local_id oid \<equiv> unat (oid_local_seq oid)"

text \<open>The rows a leaf keeps: for each local id the row with the greatest id.\<close>

definition survivors :: "(object_id, 'r) btree_map \<Rightarrow> (object_id, 'r) btree_map" where
  "survivors t = filter (\<lambda>(k, _). list_all (\<lambda>(k', _). local_id k' = local_id k \<longrightarrow> k' \<le> k) t) t"

definition slots_of_rows :: "nat \<Rightarrow> (object_id \<times> 'r) list \<Rightarrow> 'r option list" where
  "slots_of_rows n t = fold (\<lambda>(oid, r) s. s[local_id oid := Some r]) t (replicate n None)"

lemma survivors_mem:
  "(k, r) \<in> set (survivors t) \<longleftrightarrow> (k, r) \<in> set t \<and> (\<forall>(k', r')\<in>set t. local_id k' = local_id k \<longrightarrow> k' \<le> k)"
  by (auto simp: survivors_def list_all_iff)

lemma bm_wf_filter: "bm_wf t \<Longrightarrow> bm_wf (filter P t)"
  by (simp add: bm_wf_def sorted_wrt_map sorted_wrt_filter)

lemma bm_wf_snoc: "bm_wf (m @ [(k, v)]) \<longleftrightarrow> bm_wf m \<and> (\<forall>(k', _)\<in>set m. k' < k)"
  by (auto simp: bm_wf_def sorted_wrt_append)

lemma slots_of_rows_snoc: "slots_of_rows n (t @ [(k, r)]) = (slots_of_rows n t)[local_id k := Some r]"
  by (simp add: slots_of_rows_def)

lemma length_slots_of_rows [simp]: "length (slots_of_rows n t) = n"
proof (induction t rule: rev_induct)
  case Nil
  show ?case by (simp add: slots_of_rows_def)
next
  case (snoc x t)
  then show ?case by (cases x) (simp add: slots_of_rows_snoc)
qed

lemma slots_of_rows_nth:
  "bm_wf t \<Longrightarrow> i < n \<Longrightarrow> slots_of_rows n t ! i = Some r \<longleftrightarrow> (\<exists>k. (k, r) \<in> set (survivors t) \<and> local_id k = i)"
proof (induction t rule: rev_induct)
  case Nil
  then show ?case by (simp add: slots_of_rows_def survivors_def)
next
  case (snoc x t)
  obtain k0 r0 where x: "x = (k0, r0)" by fastforce
  have wf: "bm_wf t" and lt: "\<forall>(k', r')\<in>set t. k' < k0" using snoc.prems(1) by (simp_all add: x bm_wf_snoc)
  show ?case
  proof (cases "i = local_id k0")
    case True
    have "(k, r) \<in> set (survivors (t @ [x])) \<and> local_id k = i \<longleftrightarrow> k = k0 \<and> r = r0" for k
      using lt True by (force simp: survivors_mem x)
    then show ?thesis using True snoc.prems(2) by (auto simp: x slots_of_rows_snoc)
  next
    case False
    have "(k, r) \<in> set (survivors (t @ [x])) \<and> local_id k = i \<longleftrightarrow> (k, r) \<in> set (survivors t) \<and> local_id k = i" for k
      using False by (auto simp: survivors_mem x)
    then show ?thesis using False snoc.IH [OF wf snoc.prems(2)] by (simp add: x slots_of_rows_snoc)
  qed
qed

lemma leaf_rows_load:
  assumes "\<And>i r i' r'. slots ! i = Some r \<Longrightarrow> slots ! i' = Some r' \<Longrightarrow> i < length slots \<Longrightarrow> i' < length slots \<Longrightarrow>
      key i r = key i' r' \<Longrightarrow> i = i'" and "bm_wf m"
    and "\<And>k r. (k, r) \<in> set m \<longleftrightarrow> (\<exists>i<length slots. slots ! i = Some r \<and> key i r = k)"
  shows "fold (\<lambda>(i, r). bm_insert (key i r) r) (occupied_slots slots) [] = m"
proof -
  let ?kvs = "map (\<lambda>(i, r). (key i r, r)) (occupied_slots slots)"
  have eq: "fold (\<lambda>(i, r). bm_insert (key i r) r) (occupied_slots slots) [] = fold (\<lambda>(k, v). bm_insert k v) ?kvs []"
    by (simp add: fold_map comp_def case_prod_unfold)
  have "inj_on (\<lambda>(i, r). key i r) (set (occupied_slots slots))"
    using assms(1) by (auto simp: inj_on_def occupied_slots_mem) (metis option.inject)+
  then have d: "distinct (map fst ?kvs)"
    using occupied_slots_distinct [of slots] by (simp add: distinct_map comp_def case_prod_unfold)
  have g: "bm_get (fold (\<lambda>(k, v). bm_insert k v) ?kvs []) = map_of ?kvs" by (rule btm.lookup_build [OF d])
  have kv: "(k, r) \<in> set ?kvs \<longleftrightarrow> (\<exists>i. (i, r) \<in> set (occupied_slots slots) \<and> key i r = k)" for k r by force
  have "set ?kvs = set m"
  proof (rule set_eqI)
    fix x :: "'b \<times> 'a"
    obtain k r where x: "x = (k, r)" by fastforce
    show "x \<in> set ?kvs \<longleftrightarrow> x \<in> set m" unfolding x kv assms(3) occupied_slots_mem by blast
  qed
  then have "map_of ?kvs = map_of m"
    using d bm_wf_distinct [OF assms(2)] by (intro map_of_inject_set [THEN iffD2])
  then show ?thesis
    unfolding eq using g assms(2) by (intro bm_wf_ext) (simp_all add: btm.inv_fold_update bm_get_eq_map_of)
qed

lemma survivors_load:
  assumes "bm_wf t" and "\<And>k r. (k, r) \<in> set t \<Longrightarrow> local_id k < n" and "\<And>k r. (k, r) \<in> set t \<Longrightarrow> key (local_id k) r = k"
  shows "fold (\<lambda>(i, r). bm_insert (key i r) r) (occupied_slots (slots_of_rows n t)) [] = survivors t"
proof (rule leaf_rows_load)
  let ?slots = "slots_of_rows n t"
  note nth = slots_of_rows_nth [OF assms(1)]
  show "bm_wf (survivors t)" unfolding survivors_def by (rule bm_wf_filter [OF assms(1)])
  show "i = i'" if s: "?slots ! i = Some r" "?slots ! i' = Some r'" "i < length ?slots" "i' < length ?slots" "key i r = key i' r'"
    for i r i' r'
  proof -
    obtain k where k: "(k, r) \<in> set t" "local_id k = i" using s(1,3) nth [of i n r] by (auto simp: survivors_mem)
    obtain k' where k': "(k', r') \<in> set t" "local_id k' = i'" using s(2,4) nth [of i' n r'] by (auto simp: survivors_mem)
    show ?thesis using s(5) assms(3) [OF k(1)] assms(3) [OF k'(1)] k(2) k'(2) by simp
  qed
  show "(k, r) \<in> set (survivors t) \<longleftrightarrow> (\<exists>i<length ?slots. ?slots ! i = Some r \<and> key i r = k)" for k r
  proof
    assume k: "(k, r) \<in> set (survivors t)"
    then have "local_id k < n" "key (local_id k) r = k" using assms(2,3) by (auto simp: survivors_mem)
    then show "\<exists>i<length ?slots. ?slots ! i = Some r \<and> key i r = k" using k nth [of "local_id k" n r] by auto
  next
    assume "\<exists>i<length ?slots. ?slots ! i = Some r \<and> key i r = k"
    then obtain i where i: "i < n" "?slots ! i = Some r" "key i r = k" by auto
    then obtain k' where k': "(k', r) \<in> set (survivors t)" "local_id k' = i" using nth [of i n r] by auto
    then have "key i r = k'" using assms(3) by (auto simp: survivors_mem)
    then show "(k, r) \<in> set (survivors t)" using k' i(3) by simp
  qed
qed

context leaf_format
begin

text \<open>The whole path of a table through its region.\<close>

lemma table_region:
  assumes dev: "file_device_inv d" "fd_writable d" "offset + LEAF_SIZE \<le> fd_capacity d"
    and t: "bm_wf t" "\<And>k r. (k, r) \<in> set t \<Longrightarrow> rec_ok r"
    and small: "\<And>k r. (k, r) \<in> set t \<Longrightarrow> local_id k < lf_slots f"
    and key: "\<And>k r. (k, r) \<in> set t \<Longrightarrow> key (local_id k) r = k"
  obtains l d' l' rows where "leaf_fill f t (leaf_new f) = ok l" and "snd (leaf_write file_block_device f l d offset) = ok d'"
    and "leaf_read file_block_device f d' offset = ok l'" and "leaf_iter f l' = ok rows"
    and "fold (\<lambda>(i, r). bm_insert (key i r) r) rows [] = survivors t"
proof -
  let ?slots = "slots_of_rows (lf_slots f) t" and ?new = "leaf_new f"
  let ?l = "?new\<lparr>lv_slots := ?slots\<rparr>"
  have len: "length (lv_slots ?new) = lf_slots f" by (simp add: leaf_new_def)
  have rec: "rec_ok r" if r: "Some r \<in> set ?slots" for r
  proof -
    obtain i where "i < lf_slots f" "?slots ! i = Some r" using r by (auto simp: in_set_conv_nth)
    then show ?thesis using slots_of_rows_nth [OF t(1), of i "lf_slots f" r] t(2) by (auto simp: survivors_mem)
  qed
  have "leaf_fill f t ?new = ok (?new\<lparr>lv_slots := fold (\<lambda>(oid, r) s. s[local_id oid := Some r]) t (lv_slots ?new)\<rparr>)"
    using small by (intro fill_in [OF _ len]) auto
  then have fill: "leaf_fill f t ?new = ok ?l" by (simp add: slots_of_rows_def leaf_new_def)
  have k: "leaf_ok f rec_ok ?l" using new_ok rec by (simp add: leaf_ok_def)
  obtain d' where w: "snd (leaf_write file_block_device f ?l d offset) = ok d'"
      "leaf_read file_block_device f d' offset = ok (leaf_stamp ?l)"
    using write_read [OF dev k] by blast
  have it: "leaf_iter f (leaf_stamp ?l) = ok (occupied_slots ?slots)"
    using iter_ok [of "leaf_stamp ?l"] by simp
  show ?thesis by (rule that [OF fill w it survivors_load [OF t(1) small key]])
qed

end

text \<open>Rows of one node have distinct local ids.\<close>

lemma oid_parts_eq: "oid_node_id k = node \<Longrightarrow> oid_from_parts node (word_of_nat (local_id k)) = k"
proof -
  assume "oid_node_id k = node"
  moreover have "oid_from_parts (oid_node_id k) (oid_local_seq k) = k"
    unfolding oid_local_seq_def oid_node_id_def oid_from_parts_def Let_def oid_mask
    by (rule bit_word_eqI) (auto simp: bit_simps)
  ultimately show ?thesis by simp
qed

lemma survivors_one_node:
  assumes "\<And>k r. (k, r) \<in> set t \<Longrightarrow> oid_node_id k = node"
  shows "survivors t = t"
proof -
  have "k = k'" if "(k, r) \<in> set t" "(k', r') \<in> set t" "local_id k' = local_id k" for k r k' r'
    using oid_parts_eq [of k node] oid_parts_eq [of k' node] assms that by metis
  then show ?thesis by (fastforce simp: survivors_def list_all_iff intro!: filter_True)
qed

definition object_table_ok :: "object_table \<Rightarrow> bool" where
  "object_table_ok t \<longleftrightarrow> bm_wf t \<and> list_all (\<lambda>(k, r). or_id r = k \<and> object_record_ok r) t"

definition location_table_ok :: "16 word \<Rightarrow> location_table \<Rightarrow> bool" where
  "location_table_ok node t \<longleftrightarrow> bm_wf t \<and> list_all (\<lambda>(k, l). oid_node_id k = node \<and> location_record_ok l) t"

text \<open>C9. The object table in its region: a flush fails exactly when some local id exceeds the leaf; otherwise loading
  returns, for every local id, the record with the greatest object id. Records of two nodes with the same local id do not
  both survive.\<close>

theorem object_table_region:
  assumes "file_device_inv d" and "fd_writable d" and "offset + LEAF_SIZE \<le> fd_capacity d" and "object_table_ok t"
  shows "if list_all (\<lambda>(k, _). local_id k < LEAF_RECORDS) t
    then \<exists>d'. object_table_flush_to_region file_block_device t d offset = ok d' \<and>
      object_table_load_from_region file_block_device d' offset = ok (survivors t)
    else \<exists>k. LEAF_RECORDS \<le> local_id k \<and>
      object_table_flush_to_region file_block_device t d offset = err (OidOutOfRange (local_id k) 0)"
proof -
  let ?f = object_leaf_fmt
  have n: "lf_slots ?f = LEAF_RECORDS" by (simp add: object_leaf_fmt_def)
  have len: "length (lv_slots (leaf_new ?f)) = lf_slots ?f" by (simp add: leaf_new_def)
  have t: "bm_wf t" "\<And>k r. (k, r) \<in> set t \<Longrightarrow> object_record_ok r" "\<And>k r. (k, r) \<in> set t \<Longrightarrow> or_id r = k"
    using assms(4) by (auto simp: object_table_ok_def list_all_iff)
  note defs = object_table_flush_to_region_def object_table_load_from_region_def object_leaf_new_def object_leaf_write_def
    object_leaf_read_def object_leaf_iter_def
  show ?thesis
  proof (cases "list_all (\<lambda>(k, _). local_id k < LEAF_RECORDS) t")
    case False
    then have "\<exists>(k, r)\<in>set t. lf_slots ?f \<le> local_id k" by (force simp: list_all_iff n)
    from ol.fill_out [OF this len] False n show ?thesis by (auto simp: defs)
  next
    case True
    then have small: "\<And>k r. (k, r) \<in> set t \<Longrightarrow> local_id k < lf_slots ?f" by (auto simp: list_all_iff n)
    obtain l d' l' rows where w: "leaf_fill ?f t (leaf_new ?f) = ok l" "snd (leaf_write file_block_device ?f l d offset) = ok d'"
        "leaf_read file_block_device ?f d' offset = ok l'" "leaf_iter ?f l' = ok rows"
        "fold (\<lambda>(i, r). bm_insert (or_id r) r) rows [] = survivors t"
      by (rule ol.table_region [where key = "\<lambda>_. or_id", OF assms(1-3) t(1,2) small t(3)])
    then show ?thesis using True by (simp add: defs)
  qed
qed

lemma object_record_new_ok: "object_record_ok (object_record_new i)" "or_id (object_record_new i) = i"
  by (simp_all add: object_record_ok_def object_record_new_def i64_ok_def)

theorem object_table_region_witness:
  "\<exists>d'. object_table_flush_to_region file_block_device [(1, object_record_new 1), (0x0001000000000001, object_record_new 0x0001000000000001)]
      wit_alloc_disk 0 = ok d' \<and>
    object_table_load_from_region file_block_device d' 0 = ok [(0x0001000000000001, object_record_new 0x0001000000000001)]"
proof -
  let ?k = "0x0001000000000001 :: object_id"
  let ?t = "[(1, object_record_new 1), (?k, object_record_new ?k)]"
  have l: "local_id 1 = 1" "local_id ?k = 1" by (simp_all add: oid_local_seq_def)
  have k: "object_table_ok ?t" by (simp add: object_table_ok_def bm_wf_def object_record_new_ok)
  have "survivors ?t = [(?k, object_record_new ?k)]" unfolding survivors_def by (simp add: l word_le_nat_alt)
  then show ?thesis
    using object_table_region [OF wit_alloc_disk_ok(1,2) _ k, of 0] by (simp add: wit_alloc_disk_ok LEAF_SIZE_def LEAF_RECORDS_def l)
qed

text \<open>The location table of one node: a flush fails exactly when some local id exceeds the leaf; otherwise loading under the
  node's id returns the same table.\<close>

theorem location_table_region:
  assumes "file_device_inv d" and "fd_writable d" and "offset + LEAF_SIZE \<le> fd_capacity d" and "location_table_ok node t"
  shows "if list_all (\<lambda>(k, _). local_id k < LEAF_RECORDS_LOCATION) t
    then \<exists>d'. location_table_flush_to_region file_block_device t d offset = ok d' \<and>
      location_table_load_from_region file_block_device d' offset node = ok t
    else \<exists>k. LEAF_RECORDS_LOCATION \<le> local_id k \<and>
      location_table_flush_to_region file_block_device t d offset = err (OidOutOfRange (local_id k) 0)"
proof -
  let ?f = location_leaf_fmt
  have n: "lf_slots ?f = LEAF_RECORDS_LOCATION" by (simp add: location_leaf_fmt_def)
  have len: "length (lv_slots (leaf_new ?f)) = lf_slots ?f" by (simp add: leaf_new_def)
  have t: "bm_wf t" "\<And>k r. (k, r) \<in> set t \<Longrightarrow> location_record_ok r" "\<And>k r. (k, r) \<in> set t \<Longrightarrow> oid_node_id k = node"
    using assms(4) by (auto simp: location_table_ok_def list_all_iff)
  note defs = location_table_flush_to_region_def location_table_load_from_region_def location_leaf_new_def location_leaf_write_def
    location_leaf_read_def location_leaf_iter_def
  show ?thesis
  proof (cases "list_all (\<lambda>(k, _). local_id k < LEAF_RECORDS_LOCATION) t")
    case False
    then have "\<exists>(k, r)\<in>set t. lf_slots ?f \<le> local_id k" by (force simp: list_all_iff n)
    from ll.fill_out [OF this len] False n show ?thesis by (auto simp: defs)
  next
    case True
    then have small: "\<And>k r. (k, r) \<in> set t \<Longrightarrow> local_id k < lf_slots ?f" by (auto simp: list_all_iff n)
    obtain l d' l' rows where w: "leaf_fill ?f t (leaf_new ?f) = ok l" "snd (leaf_write file_block_device ?f l d offset) = ok d'"
        "leaf_read file_block_device ?f d' offset = ok l'" "leaf_iter ?f l' = ok rows"
        "fold (\<lambda>(i, r). bm_insert (oid_from_parts node (word_of_nat i)) r) rows [] = survivors t"
      by (rule ll.table_region [where key = "\<lambda>i _. oid_from_parts node (word_of_nat i)", OF assms(1-3) t(1,2) small
            oid_parts_eq [OF t(3)]])
    then show ?thesis using True survivors_one_node [OF t(3)] by (simp add: defs)
  qed
qed

theorem location_table_region_witness:
  "\<exists>d'. location_table_flush_to_region file_block_device [(5, \<lparr>loc_flags = 0, loc_replica_count = 0, loc_pad = replicate 6 0,
      loc_extent_length = 9, loc_replicas = replicate 4 replica_ref_zero\<rparr>)] wit_alloc_disk 0 = ok d' \<and>
    location_table_load_from_region file_block_device d' 0 0 = ok [(5, \<lparr>loc_flags = 0, loc_replica_count = 0,
      loc_pad = replicate 6 0, loc_extent_length = 9, loc_replicas = replicate 4 replica_ref_zero\<rparr>)]"
  using location_table_region [OF wit_alloc_disk_ok(1,2), of 0 0 "[(5, \<lparr>loc_flags = 0, loc_replica_count = 0,
      loc_pad = replicate 6 0, loc_extent_length = 9, loc_replicas = replicate 4 replica_ref_zero\<rparr>)]"]
  by (simp add: wit_alloc_disk_ok LEAF_SIZE_def location_table_ok_def bm_wf_def location_record_ok_def replica_ref_ok_def
      replica_ref_zero_def MAX_INLINE_REPLICAS_def LEAF_RECORDS_LOCATION_def oid_local_seq_def oid_node_id_def)

text \<open>The bucket scan of the backpointer table returns exactly the entries of the bucket, the disk scan those of the disk.\<close>

definition backpointer_ok :: "backpointer_key \<Rightarrow> bool" where
  "backpointer_ok k \<longleftrightarrow> bk_disk_id k < 2 ^ 16 \<and> bk_bucket_no k < 2 ^ 32 \<and> bk_sector_offset k < 2 ^ 16"

theorem backpointer_scans:
  assumes "bm_wf t" and "list_all (\<lambda>(k, _). backpointer_ok k) t"
  shows "range_in_bucket t disk bucket = filter (\<lambda>(k, _). bk_disk_id k = disk \<and> bk_bucket_no k = bucket) t \<and>
    range_on_disk t disk = filter (\<lambda>(k, _). bk_disk_id k = disk) t"
proof -
  have t: "bk_sector_offset k \<le> 65535 \<and> bk_bucket_no k \<le> 4294967295" if "(k, v) \<in> set t" for k v
    using assms(2) that by (auto simp: list_all_iff backpointer_ok_def)
  show ?thesis
    using t by (auto simp: range_in_bucket_def range_on_disk_def bm_range_incl_filter [OF assms(1)]
        less_eq_backpointer_key_def bk_cmp_le_def intro!: filter_cong)
qed

section \<open>Nodes of one run\<close>

lemma one_run_merge:
  assumes "kmerge_ok kmerge" and "bm_wf es"
  shows "merge_iter kmerge (one_run_node kind es) = es"
proof -
  have ok: "node_ok kmerge (one_run_node kind es)"
    using assms(2) by (simp add: node_ok_def one_run_node_def Let_def node_new_def journal_ok_def pin_ok_def pin_default_def)
  have "map_of (merge_iter kmerge (one_run_node kind es)) = map_of es"
    using merge_iter_spec(2) [OF assms(1) ok] by (simp add: node_map_def runs_map_def one_run_node_def Let_def node_new_def)
  then show ?thesis
    using merge_iter_spec(1) [OF assms(1) ok] assms(2) by (intro bm_wf_ext) (simp_all add: bm_get_eq_map_of)
qed

lemma rows_to_loaded_node_wf: "bm_wf es \<Longrightarrow> rows_to_loaded_node kind es = ok (one_run_node kind es)"
  by (simp add: rows_to_loaded_node_def one_run_node_def Let_def run_from_sorted_wf)

lemma table_rows_load_ok:
  assumes "\<And>k r. (k, r) \<in> set t \<Longrightarrow> dec (enc r) = ok r"
  shows "table_rows_load dec (map (\<lambda>(oid, r). (table_key_current oid, enc r)) t) m = ok (fold (\<lambda>(k, v). bm_insert k v) t m)"
  using assms
proof (induction t arbitrary: m)
  case (Cons x t)
  obtain k r where x: "x = (k, r)" by fastforce
  have "dec (enc r) = ok r" using Cons.prems [of k r] by (simp add: x)
  moreover have "dec (enc r) = ok r" if "(k, r) \<in> set t" for k r by (rule Cons.prems [of k]) (simp add: that)
  ultimately show ?case using Cons.IH by (simp add: x table_key_current_def)
qed simp

lemma table_key_rows_wf: "bm_wf t \<Longrightarrow> bm_wf (map (\<lambda>(oid, r). (table_key_current oid, enc r)) t)"
  by (auto simp: bm_wf_def table_key_current_def sorted_wrt_map case_prod_unfold elim: sorted_wrt_mono_rel [rotated])

lemma object_table_node_roundtrip:
  assumes "kmerge_ok kmerge" and "object_table_ok t"
  shows "rbind (object_table_to_loaded_node t) (object_table_from_loaded_node kmerge) = ok t"
proof -
  have t: "bm_wf t" "\<And>k r. (k, r) \<in> set t \<Longrightarrow> object_record_ok r"
    using assms(2) by (auto simp: object_table_ok_def list_all_iff)
  have "\<And>k r. (k, r) \<in> set t \<Longrightarrow> object_table_value_to_record (object_table_value_from_record r) = ok r"
    using t(2) by (simp add: object_table_value_to_record_def object_table_value_from_record_def length_object_record_bytes
        object_record_of_bytes)
  from table_rows_load_ok [OF this] show ?thesis
    using table_key_rows_wf [OF t(1), of object_table_value_from_record] one_run_merge [OF assms(1)] bm_rebuild [OF t(1)]
    by (simp add: object_table_to_loaded_node_def rows_to_loaded_node_wf object_table_from_loaded_node_def)
qed

text \<open>The backpointer table survives a restart.\<close>

theorem backpointer_table_roundtrip:
  assumes "env_ok env" and "kmerge_ok kmerge" and "file_device_inv d" and "fd_writable d"
    and "offset + 2 ^ 18 \<le> fd_capacity d" and "bm_wf t" and "entries_fit env t"
  shows "\<exists>d'. bp_flush_to_region file_block_device env t d offset = ok d' \<and>
    bp_load_from_region file_block_device env kmerge d' offset = ok t"
proof -
  obtain node' d' r probe where w: "write_full file_block_device env d offset (one_run_node Backpointer t) = ok (node', d')"
    and p: "read_at file_block_device d' offset 8 = ok probe" "\<not> list_all (\<lambda>b. b = 0) probe"
    and r: "region_read file_block_device env d' offset Backpointer = ok r" "merge_iter kmerge r = t"
    using one_run_roundtrip [OF assms(1-5,7,6)] by metis
  have "bp_from_loaded_node kmerge r = t" using r(2) bm_rebuild [OF assms(6)] by (simp add: bp_from_loaded_node_def)
  moreover have "bp_to_loaded_node t = (ok (one_run_node Backpointer t) :: (meta_error, _) res)"
    by (simp add: bp_to_loaded_node_def rows_to_loaded_node_wf [OF assms(6)])
  ultimately show ?thesis using w p r(1) by (simp add: bp_flush_to_region_def bp_load_from_region_def)
qed

definition bp_env :: "(backpointer_key, backpointer_value) region_env" where
  "bp_env = row_env 32 (\<lambda>(k, v). backpointer_ok k \<and> bv_owner_kind v < 2 ^ 8 \<and> bv_pad v < 2 ^ 8 \<and> bv_length_sectors v < 2 ^ 16 \<and>
       bv_bucket_gen v < 2 ^ 32 \<and> length (bv_owner_key v) = 16)
     (\<lambda>(k, v). bk_bytes k @ bv_bytes v)
     (\<lambda>bs. (BackpointerKey (get_le 0 2 bs) (get_le 2 4 bs) (get_le 6 2 bs),
        \<lparr>bv_owner_kind = get_le 8 1 bs, bv_pad = get_le 9 1 bs, bv_length_sectors = get_le 10 2 bs, bv_bucket_gen = get_le 12 4 bs,
         bv_owner_key = bslice 16 16 bs\<rparr>))"

lemma bp_env_ok: "env_ok bp_env"
  unfolding bp_env_def
  by (rule row_env_ok) (auto simp: backpointer_ok_def bk_bytes_def bv_bytes_def get_le_def bslice_def)

theorem backpointer_table_roundtrip_witness:
  "\<exists>d'. bp_flush_to_region file_block_device bp_env [(BackpointerKey 1 2 3, \<lparr>bv_owner_kind = 1, bv_pad = 0, bv_length_sectors = 4,
      bv_bucket_gen = 5, bv_owner_key = replicate 16 7\<rparr>)] wit_alloc_disk 0 = ok d' \<and>
    bp_load_from_region file_block_device bp_env kmerge_sort d' 0 = ok [(BackpointerKey 1 2 3, \<lparr>bv_owner_kind = 1, bv_pad = 0,
      bv_length_sectors = 4, bv_bucket_gen = 5, bv_owner_key = replicate 16 7\<rparr>)]"
  by (rule backpointer_table_roundtrip [OF bp_env_ok kmerge_sort_ok wit_alloc_disk_ok(1,2)])
    (simp_all add: wit_alloc_disk_ok bm_wf_def entries_fit_def bp_env_def row_env_def backpointer_ok_def bk_bytes_def bv_bytes_def)

lemma overflow_header_of_bytes:
  "block_header_ok (oh_header h) \<Longrightarrow> oh_object_id h < 2 ^ 64 \<Longrightarrow> oh_tag_count h < 2 ^ 16 \<Longrightarrow> oh_attr_count h < 2 ^ 16 \<Longrightarrow>
   oh_relation_count h < 2 ^ 16 \<Longrightarrow> oh_pad h < 2 ^ 16 \<Longrightarrow> oh_next_overflow h < 2 ^ 64 \<Longrightarrow>
   overflow_header_of (overflow_header_bytes h) = h"
  by (simp add: overflow_header_of_def overflow_header_bytes_def image_simps block_header_of_append length_block_header_bytes)

end
