(* ===== verification/Spec2Isabelle.thy ===== *)
theory Spec2Isabelle
  imports Mb_Wal_Thms Mb_Superblock_Thms Mb_Pack_Region Mb_Alloc_Thms Mb_Ontology_Thms Mb_Query_Thms Mb_Engine_Tags
    Mb_Disk_Engine_Thms Mb_Zone Mb_Transform Mb_Meta Mb_Watch Mb_Parser_Thms Mb_Cli Mb_Kv_Region Mb_Pool_Thms Mb_Leaf_Thms
begin

text \<open>
  Verification of the storage engine mimisbrunnr.

  \<^bold>\<open>The program.\<close> The engine keeps tagged objects on block devices. Its parts, bottom up:
  \<^item> the block layer (\<open>src/crates/storage\<close>): devices, block headers with checksums, a superblock kept in
    three copies whose commit publishes a new root, log-structured B+ tree nodes (sorted runs and a
    journal), the regions that hold them on disk, the bucket allocator and the freespace LRU;
  \<^item> the write-ahead log (\<open>src/crates/wal\<close>): a ring of sectors with two header slots;
  \<^item> identifiers and clocks (\<open>src/crates/types\<close>, \<open>src/crates/engine/src/clock.rs\<close>);
  \<^item> the ontology (\<open>src/crates/ontology\<close>): an implication DAG of tags, modules that install, upgrade and
    scrub tags, and the resolution of storage policies;
  \<^item> the indexes (\<open>src/crates/index\<close>) from tags, attribute values and value ranges to bitmaps of objects and
    back from objects to their assertions; the query executor (\<open>src/crates/query\<close>) over them and the ontology;
    the subscriptions (\<open>src/crates/watch\<close>) that turn changes into events;
  \<^item> object records and locations (\<open>src/crates/meta\<close>) and the transforms of blob contents
    (\<open>src/crates/transform\<close>);
  \<^item> above them the engine, the pool and the front ends.

  \<^bold>\<open>Theories and sources.\<close>
  \<^item> \<open>Mb_Prelude\<close>: result type, little-endian codecs, byte slices, list and option lemmas.
  \<^item> \<open>Mb_Block\<close>: \<open>storage/src/{error,block,addressing,zone_map}.rs\<close>.
  \<^item> \<open>Mb_Device\<close>: \<open>storage/src/{block_device,file_device}.rs\<close>; the locale \<open>block_dev\<close> is the contract of the
    trait \<open>BlockDevice\<close> and \<open>fdev\<close> its interpretation on the file device.
  \<^item> \<open>Mb_Types\<close>: \<open>types/src/{timestamp,object_id,disk}.rs\<close> and the engine's hybrid clock.
  \<^item> \<open>Mb_Wal_Entry\<close>, \<open>Mb_Wal_Ring\<close>: \<open>wal/src/{entry,header,ring,error}.rs\<close>; \<open>Mb_Wal_Inv\<close> holds the ring
    invariant and the effect of each operation on it, \<open>Mb_Wal_Thms\<close> the runs and the properties.
  \<^item> \<open>Mb_Root\<close>, \<open>Mb_Superblock\<close>, \<open>Mb_Superblock_Thms\<close>: \<open>storage/src/{root_pointer,superblock}.rs\<close>.
  \<^item> \<open>Mb_Ordered_Map\<close>: the ordered map the code uses; the locale \<open>map_api\<close> and its interpretation \<open>btm\<close>.
  \<^item> \<open>Mb_Btree\<close>, \<open>Mb_Btree_Thms\<close>: the in-memory node of \<open>storage/src/btree.rs\<close> and its headers in
    \<open>btree_node.rs\<close>; \<open>Mb_Region\<close>, \<open>Mb_Region_Thms\<close>: its region on disk.
  \<^item> \<open>Mb_Pack\<close>, \<open>Mb_Pack_Thms\<close>: the packed key codec of \<open>storage/src/btree/pack.rs\<close> (format selection, bit
    packing, packed runs); the locale \<open>packable_key\<close> is the contract of the trait \<open>PackableKey\<close>, interpreted on
    its four implementations. \<open>Mb_Pack_Region\<close>: the packed region of \<open>btree_node.rs\<close>.
  \<^item> \<open>Mb_Alloc\<close>, \<open>Mb_Alloc_Thms\<close>: \<open>storage/src/{alloc,allocator,freespace}.rs\<close>.
  \<^item> \<open>Mb_Dag\<close>, \<open>Mb_Dag_Thms\<close>: \<open>ontology/src/{implication_dag,materializer}.rs\<close>; the locale \<open>digraph\<close> states
    what the graph library documents, \<open>implication_api\<close> what the registry relies on, and \<open>lg\<close> interprets
    the first on a list graph.
  \<^item> \<open>Mb_Module\<close>: \<open>ontology/src/module.rs\<close> and the tag and policy types of \<open>types/src\<close>;
    \<open>Mb_Ontology\<close>, \<open>Mb_Ontology_Thms\<close>: \<open>ontology/src/state.rs\<close>.
  \<^item> \<open>Mb_Bitmap\<close>: the bitmap library as the locale \<open>roaring\<close>, interpreted on lists of words. \<open>Mb_Value\<close>,
    \<open>Mb_Value_Thms\<close>: \<open>types/src/{value,query,assertion}.rs\<close> and \<open>index/src/normalised_key.rs\<close>.
  \<^item> \<open>Mb_Index\<close>, \<open>Mb_Index_Thms\<close>: the in-memory indexes of \<open>index/src\<close>; \<open>Mb_Query\<close>, \<open>Mb_Query_Thms\<close>:
    \<open>query/src/{executor,facets}.rs\<close>; \<open>Mb_Watch\<close>: \<open>watch/src\<close>.
  \<^item> \<open>Mb_Meta\<close>: \<open>meta/src/{record,location,radix,object_table,location_table}.rs\<close>; \<open>Mb_Transform\<close>:
    \<open>transform/src\<close>.
  \<^item> \<open>Mb_Wal_Op\<close>: the operation payloads of \<open>wal/src/entry.rs\<close> and the dirty set of \<open>wal/src/dirty.rs\<close>; the
    locale \<open>wal_codec\<close> is the contract of the payload encoder.
  \<^item> \<open>Mb_Engine\<close>: \<open>engine/src/{engine,oplog,wal_proj,error}.rs\<close>. \<open>Mb_Engine_Thms\<close> holds the histories of an engine and
    the agreement of its indexes, \<open>Mb_Engine_Tags\<close> the implied tags, \<open>Mb_Engine_Replay\<close> live operations against replay.
  \<^item> \<open>Mb_Disk_Engine\<close>, \<open>Mb_Disk_Engine_Thms\<close>, \<open>Mb_Zone\<close>: \<open>engine/src/disk_engine.rs\<close> (mutations, log, replay, tail of the
    commit, zone layout, index blob) and the recovery of the persistent engine.
  \<^item> \<open>Mb_Text\<close>: the conversions between numbers and text. \<open>Mb_Parser\<close>, \<open>Mb_Parser_Thms\<close>: \<open>query/src/{parser,explain}.rs\<close>,
    the first with the tokeniser, the recursive descent and the printers, the second with the grammar as an inductive
    relation. \<open>Mb_Cli\<close>: the argument parsers \<open>bin/mimir/src/{value_parse,oid}.rs\<close>.
  \<^item> \<open>Mb_Pages\<close>: \<open>index/src/{kv_bucket,kv_directory,tag_bitmap_page}.rs\<close>; the locale \<open>page_format\<close> states what the three
    formats share and is interpreted on each. \<open>Mb_Kv_Region\<close>: the region functions of \<open>index/src/kv_index.rs\<close>.
  \<^item> \<open>Mb_Pool\<close>, \<open>Mb_Pool_Thms\<close>: \<open>pool/src\<close> (disks, tiers, overflow, placement, the pool state root and the manager)
    and \<open>types/src/{disk,presence}.rs\<close>; the files of the host are a map from paths to bytes.
  \<^item> \<open>Mb_Leaf\<close>, \<open>Mb_Leaf_Thms\<close>: the object and location tables on disk and the back pointers,
    \<open>meta/src/{object_leaf,location_leaf,object_table,location_table,backpointer,overflow}.rs\<close>; the locale
    \<open>leaf_format\<close> states what the two leaf formats share.

  \<^bold>\<open>State and operations.\<close> Each struct is a record with the fields of the source, each operation one
  definition that takes the state and returns it updated. A result is \<open>failure + value\<close>: an error of the
  source is \<open>err e\<close>, a panic (an index out of range, an arithmetic overflow of a checked build) is \<open>Panic\<close>.
  Scalars are natural numbers; width predicates (\<open>*_ok\<close>) state the ranges, and every operation that may
  exceed a width says what happens. Bytes are \<open>8 word\<close>. Hash maps are ordered maps, because the code
  sorts what it iterates over.

  \<^bold>\<open>Parameters.\<close> Code outside the repository is an argument of the definitions that use it: the checksum
  (with \<open>crc_ok\<close>, its range), the entry codec of a region (\<open>region_env\<close>, with \<open>env_ok\<close>: decoding reads
  back what encoding wrote), the heap merge of sorted sources (\<open>kmerge\<close>, with \<open>kmerge_ok\<close>: a stable merge),
  the graph (\<open>pg_ops\<close>, with the locale \<open>digraph\<close>), the bitmaps (locale \<open>roaring\<close>), the value and payload encoders
  (\<open>value_codec\<close>, locale \<open>wal_codec\<close>), the compression and encryption libraries, the TOML reader and printer. Every property with such a
  hypothesis has a witness that instantiates it with a concrete function.

  \<^bold>\<open>What is shown.\<close>
  \<^item> Log: opening and replaying gives exactly the abstract log after any run with torn writes; appends are
    durable, checkpoints exact, arbitrary contents never yield an invalid entry.
  \<^item> Superblock: from three intact copies, a commit of a newer root that is interrupted opens to the old or the
    new root; copies may be lost; a second crash can roll back, because open does not repair.
  \<^item> B+ tree nodes refine a finite map over inserts, removes, flushes and compactions, the log numbers of a key
    ascending; their regions round trip, an append is atomic on a device that loses writes (\<open>lossy_block_device\<close>),
    and damaged runs drop a suffix only.
  \<^item> Packed keys: the packed bytes compare as the keys do, runs and regions round trip whatever format the
    selection chooses, a key that fits a format is encodable in it, a damaged length can panic the decoder.
  \<^item> Allocation: live references are disjoint, valid and freeable; allocation is complete; freed references
    stay accepted until the bucket is reused; the tables round trip.
  \<^item> Ontology: the DAG refines an acyclic relation, registry operations keep names, tags and DAG consistent,
    installs are all or nothing, policy resolution picks the most specific tag, images round trip.
  \<^item> Values: the range keys compare as the values do, except for the two zeros and strings beyond thirteen bytes.
  \<^item> Queries: on indexes that represent a set of assertions (\<open>index_rep\<close>) an answerable query returns exactly
    the objects that satisfy it; a range query above a string beyond the maximum key panics.
  \<^item> Engine: through every history the tag index and the rows of the objects agree, each held tag follows from a direct
    one, the effect of tagging and untagging is exact, operations return and ids are never reused; on node 0 and
    without colliding values all indexes agree and queries are exact; on another node queries return ids of node 0.
  \<^item> Persistence: replaying the log entries of a run rebuilds the engine, deletions of objects with attributes excepted,
    and so no acknowledged operation is lost by a crash; a full log cannot be emptied by a commit; a large index blob
    overwrites its neighbour.
  \<^item> Radix paths round trip, and so do the object and location tables through their leaves, as far as the local ids
    of their records differ; the back pointers are scanned in order.
  \<^item> Query text: the parser accepts exactly what its grammar derives and, of the documented grammar, everything but
    values written \<open>@id\<close>; it reads back what the printer wrote, except for text beyond ASCII.
  \<^item> Key-value region: a flush succeeds exactly when the entries fit 62 slots and each bitmap one page, and loads back to
    the same entries under the secret of zeros.
  \<^item> Pool: a pool that was created, grown, drained and opened on files no longer than their configured capacities
    opens again to the same disks with the same states and superblocks; adding a disk with a path beyond 192 bytes
    leaves a pool that cannot commit.
  \<^item> Clocks: issued timestamps increase and stay above the observed ones, as long as no reading meets a saturated
    counter; under a stalled wall clock the counter saturates and timestamps repeat.

  \<^bold>\<open>Loops and fuel.\<close> Structural loops are \<open>fun\<close>. The graph searches and the reclaim and replay loops of the
  log are \<open>partial_function (option)\<close> with theorems that they return; no definition uses fuel.

  \<^bold>\<open>Not modelled.\<close> The images on disk of the tag, range and forward indexes (so of
  the disk engine \<open>create\<close>, \<open>open\<close> and the save that starts a commit), the virtual file system, import and export, the
  relational planner, and the programs that print to a terminal. Files that no crate declares as modules
  (\<open>alloc_bitmap.rs\<close>, \<open>block_class.rs\<close>, \<open>layout.rs\<close>, \<open>wal/src/log.rs\<close>) are left out.
\<close>

end
